(* ===== verification/Prelude.thy ===== *)
theory Prelude
  imports Main "HOL-Library.AList" "HOL-Library.Sublist" "HOL-Library.Multiset"
begin

text \<open>
  What every component theory shares: the collections its simplification rules go to, the
  generic facts on lists and association lists, and the two interfaces under which a
  component's invariant is lifted from one operation to a whole run of operations.
  \<open>stepper\<close> is for components whose operations always return; \<open>fallible_stepper\<close> is for
  components with an operation that can panic, modelled as \<open>None\<close>.
\<close>

named_theorems guard_simps \<open>unfolding rules of the connection guard\<close>
named_theorems codec_simps \<open>unfolding rules of the byte codecs\<close>
named_theorems std_simps \<open>unfolding rules of the modelled standard library\<close>

section \<open>Lists\<close>

lemma dropWhile_less_sorted:
  fixes c :: "'a :: linorder"
  assumes "sorted xs"
  shows "dropWhile (\<lambda>t. t < c) xs = filter (\<lambda>t. c \<le> t) xs"
  using assms
proof (induction xs)
  case Nil
  then show ?case by simp
next
  case (Cons x xs)
  have "filter (\<lambda>t. c \<le> t) (x # xs) = x # xs" if "c \<le> x"
    using that Cons.prems by (auto simp: filter_id_conv)
  then show ?case
    using Cons by (auto simp: not_less)
qed

lemma sorted_dropWhile: "sorted xs \<Longrightarrow> sorted (dropWhile P xs)"
  by (metis sorted_append takeWhile_dropWhile_id)

lemma dropWhile_none: "\<forall>x \<in> set xs. \<not> P x \<Longrightarrow> dropWhile P xs = xs"
  by (cases xs) auto

lemma length_filter_mono:
  assumes "\<And>x. x \<in> set xs \<Longrightarrow> P x \<Longrightarrow> Q x"
  shows "length (filter P xs) \<le> length (filter Q xs)"
  using assms by (induction xs) auto

section \<open>Association lists\<close>

text \<open>
  A \<open>HashMap\<close> whose iteration order the code uses is an association list with distinct keys;
  the order of the list stands for the (unspecified) iteration order. A lookup is \<open>map_of\<close>, an
  insertion \<open>AList.update\<close>.
\<close>

lemma distinct_keys_update [simp]:
  "distinct (map fst m) \<Longrightarrow> distinct (map fst (AList.update k v m))"
  by (rule distinct_update)

lemma length_update_le: "length (AList.update k v m) \<le> Suc (length m)"
  by (induction m) auto

lemma length_update_member:
  "k \<in> fst ` set m \<Longrightarrow> length (AList.update k v m) = length m"
  by (induction m) auto

lemma distinct_keys_filter:
  "distinct (map fst m) \<Longrightarrow> distinct (map fst (filter P m))"
  by (induction m) auto

lemma map_of_filter_value:
  assumes "distinct (map fst m)"
  shows "map_of (filter (\<lambda>(k, v). P v) m) k =
    (case map_of m k of Some v \<Rightarrow> if P v then Some v else None | None \<Rightarrow> None)"
  using assms by (induction m) (auto split: option.splits simp: map_of_eq_None_iff image_iff)

lemma map_of_map_value: "map_of (map (\<lambda>(k, v). (k, f v)) m) k = map_option f (map_of m k)"
  by (induction m) auto

lemma fst_comp_map_value [simp]: "fst \<circ> (\<lambda>(k, v). (k, f k v)) = fst"
  by auto

lemma keys_map_value [simp]: "map fst (map (\<lambda>(k, v). (k, f k v)) m) = map fst m"
  by simp

lemma upt_split: "a \<le> b \<Longrightarrow> b \<le> c \<Longrightarrow> [a ..< c] = [a ..< b] @ [b ..< c]"
  by (metis le_add_diff_inverse upt_add_eq_append)

section \<open>Runs of a component\<close>

locale stepper =
  fixes step :: "'s \<Rightarrow> 'e \<Rightarrow> 's"
    and inv :: "'s \<Rightarrow> bool"
    and allowed :: "'e \<Rightarrow> bool"
  assumes step_inv: "inv s \<Longrightarrow> allowed e \<Longrightarrow> inv (step s e)"
begin

lemma run_inv: "inv s \<Longrightarrow> \<forall>e \<in> set es. allowed e \<Longrightarrow> inv (foldl step s es)"
proof (induction es arbitrary: s)
  case Nil
  then show ?case by simp
next
  case (Cons e es)
  then have "inv (step s e)" by (auto intro: step_inv)
  with Cons show ?case by simp
qed

lemma run_inv_prefix:
  assumes "inv s" and "\<forall>e \<in> set es. allowed e" and "prefix ds es"
  shows "inv (foldl step s ds)"
  using assms by (auto intro!: run_inv dest: set_mono_prefix)

end

fun run_opt :: "('s \<Rightarrow> 'e \<Rightarrow> 's option) \<Rightarrow> 's \<Rightarrow> 'e list \<Rightarrow> 's option" where
  "run_opt step s [] = Some s"
| "run_opt step s (e # es) = Option.bind (step s e) (\<lambda>t. run_opt step t es)"

lemma run_opt_append:
  "run_opt step s (xs @ ys) = Option.bind (run_opt step s xs) (\<lambda>t. run_opt step t ys)"
  by (induction xs arbitrary: s) (auto split: bind_splits)

locale fallible_stepper =
  fixes step :: "'s \<Rightarrow> 'e \<Rightarrow> 's option"
    and inv :: "'s \<Rightarrow> bool"
    and allowed :: "'e \<Rightarrow> bool"
  assumes step_total: "inv s \<Longrightarrow> allowed e \<Longrightarrow> \<exists>t. step s e = Some t"
    and step_inv: "inv s \<Longrightarrow> allowed e \<Longrightarrow> step s e = Some t \<Longrightarrow> inv t"
begin

lemma run_total:
  "inv s \<Longrightarrow> \<forall>e \<in> set es. allowed e \<Longrightarrow> \<exists>t. run_opt step s es = Some t \<and> inv t"
proof (induction es arbitrary: s)
  case Nil
  then show ?case by simp
next
  case (Cons e es)
  then obtain t where t: "step s e = Some t" "inv t"
    using step_total step_inv by (metis list.set_intros(1))
  with Cons.IH [OF t(2)] Cons.prems show ?case by simp
qed

end

section \<open>Runs with outputs\<close>

text \<open>
  A component whose steps also make calls: \<open>run_out\<close> collects them in order. \<open>emitter\<close> carries an
  invariant through a run; \<open>budget_emitter\<close> bounds how often a kind of call is made by a potential
  each such call uses up; \<open>armed_emitter\<close> is for a flag that stays up until a watched call is made
  and determines that call.
\<close>

fun run_out :: "('s \<Rightarrow> 'e \<Rightarrow> 's \<times> 'o list) \<Rightarrow> 's \<Rightarrow> 'e list \<Rightarrow> 's \<times> 'o list" where
  "run_out step s [] = (s, [])"
| "run_out step s (e # es) =
     (let (t, os) = step s e; (u, os') = run_out step t es in (u, os @ os'))"

text \<open>No state of the run up to its last event satisfies \<open>bad\<close>.\<close>

fun run_avoids :: "('s \<Rightarrow> 'e \<Rightarrow> 's \<times> 'o list) \<Rightarrow> ('s \<Rightarrow> bool) \<Rightarrow> 's \<Rightarrow> 'e list \<Rightarrow> bool" where
  "run_avoids step bad s [] \<longleftrightarrow> True"
| "run_avoids step bad s (e # es) \<longleftrightarrow> \<not> bad s \<and> run_avoids step bad (fst (step s e)) es"

locale emitter =
  fixes step :: "'s \<Rightarrow> 'e \<Rightarrow> 's \<times> 'o list"
    and inv :: "'s \<Rightarrow> bool"
    and allowed :: "'e \<Rightarrow> bool"
  assumes step_inv: "inv s \<Longrightarrow> allowed e \<Longrightarrow> inv (fst (step s e))"
begin

lemma run_inv: "inv s \<Longrightarrow> \<forall>e \<in> set es. allowed e \<Longrightarrow> inv (fst (run_out step s es))"
proof (induction es arbitrary: s)
  case Nil
  then show ?case by simp
next
  case (Cons e es)
  then have "inv (fst (step s e))" by (auto intro: step_inv)
  with Cons show ?case by (auto simp: split_beta Let_def)
qed

end

locale output_emitter = emitter +
  fixes good :: "'o \<Rightarrow> bool"
  assumes step_good: "inv s \<Longrightarrow> allowed e \<Longrightarrow> \<forall>x \<in> set (snd (step s e)). good x"
begin

lemma run_good:
  "inv s \<Longrightarrow> \<forall>e \<in> set es. allowed e \<Longrightarrow> \<forall>x \<in> set (snd (run_out step s es)). good x"
proof (induction es arbitrary: s)
  case Nil
  then show ?case by simp
next
  case (Cons e es)
  then have "inv (fst (step s e))" and "\<forall>x \<in> set (snd (step s e)). good x"
    by (auto intro: step_inv dest: step_good)
  with Cons show ?case by (auto simp: split_beta Let_def)
qed

end

locale budget_emitter =
  fixes step :: "'s \<Rightarrow> 'e \<Rightarrow> 's \<times> 'o list"
    and counted :: "'o \<Rightarrow> bool"
    and potential :: "'s \<Rightarrow> nat"
    and free :: "'s \<Rightarrow> bool"
  assumes step_budget:
    "\<not> free s \<Longrightarrow> length (filter counted (snd (step s e))) + potential (fst (step s e)) \<le> potential s"
begin

lemma run_budget:
  "run_avoids step free s es \<Longrightarrow> length (filter counted (snd (run_out step s es))) \<le> potential s"
proof (induction es arbitrary: s)
  case Nil
  then show ?case by simp
next
  case (Cons e es)
  then have "length (filter counted (snd (step s e))) + potential (fst (step s e)) \<le> potential s"
    and "length (filter counted (snd (run_out step (fst (step s e)) es)))
      \<le> potential (fst (step s e))"
    by (auto intro: step_budget)
  then show ?case by (simp add: split_beta Let_def)
qed

end

text \<open>The same under an invariant and for the events of one kind only.\<close>

locale bounded_emitter = emitter +
  fixes counted :: "'o \<Rightarrow> bool"
    and potential :: "'s \<Rightarrow> nat"
  assumes step_bound:
    "inv s \<Longrightarrow> allowed e \<Longrightarrow>
       length (filter counted (snd (step s e))) + potential (fst (step s e)) \<le> potential s"
begin

lemma run_bound:
  "inv s \<Longrightarrow> \<forall>e \<in> set es. allowed e \<Longrightarrow>
     length (filter counted (snd (run_out step s es))) \<le> potential s"
proof (induction es arbitrary: s)
  case Nil
  then show ?case by simp
next
  case (Cons e es)
  then have "length (filter counted (snd (step s e))) + potential (fst (step s e)) \<le> potential s"
    and "length (filter counted (snd (run_out step (fst (step s e)) es))) \<le> potential (fst (step s e))"
    by (auto intro: step_bound step_inv)
  then show ?case by (simp add: split_beta Let_def)
qed

end

locale armed_emitter =
  fixes step :: "'s \<Rightarrow> 'e \<Rightarrow> 's \<times> 'o list"
    and armed :: "'s \<Rightarrow> bool"
    and allowed :: "'e \<Rightarrow> bool"
    and watched :: "'o \<Rightarrow> bool"
    and good :: "'o \<Rightarrow> bool"
  assumes step_armed:
    "armed s \<Longrightarrow> allowed e \<Longrightarrow> filter watched (snd (step s e)) = [] \<and> armed (fst (step s e))
       \<or> (\<exists>x xs. filter watched (snd (step s e)) = x # xs \<and> good x)"
begin

lemma run_first:
  "armed s \<Longrightarrow> \<forall>e \<in> set es. allowed e \<Longrightarrow>
     filter watched (snd (run_out step s es)) = x # xs \<Longrightarrow> good x"
proof (induction es arbitrary: s)
  case Nil
  then show ?case by simp
next
  case (Cons e es)
  from step_armed [OF Cons.prems(1), of e] Cons.prems(2)
  have "filter watched (snd (step s e)) = [] \<and> armed (fst (step s e))
       \<or> (\<exists>x xs. filter watched (snd (step s e)) = x # xs \<and> good x)" by simp
  then show ?case
  proof
    assume "filter watched (snd (step s e)) = [] \<and> armed (fst (step s e))"
    with Cons show ?thesis by (auto simp: split_beta Let_def)
  next
    assume "\<exists>y ys. filter watched (snd (step s e)) = y # ys \<and> good y"
    with Cons.prems(3) show ?thesis by (auto simp: split_beta Let_def)
  qed
qed

end

end
