(* ===== verification/Rust_Std.thy ===== *)
theory Rust_Std
  imports Prelude "HOL-Library.Word"
begin

text \<open>
  The parts of the Rust standard library the modelled code uses: \<open>Duration\<close> and
  \<open>Instant\<close> as nanosecond counts with the checked and saturating operations,
  saturating integer arithmetic, strings as lists of Unicode scalar values with \<open>trim\<close>,
  \<open>split_whitespace\<close>, \<open>to_ascii_lowercase\<close> and \<open>parse\<close>, and process environments.
\<close>

section \<open>Durations and instants\<close>

text \<open>
  A \<open>Duration\<close> is a \<open>u64\<close> of seconds and a nanosecond part, here one count of nanoseconds;
  an \<open>Instant\<close> is a count of nanoseconds since the (unobservable) origin of the monotonic
  clock, whose seconds are an \<open>i64\<close>.
\<close>

type_synonym duration = nat
type_synonym instant = nat

definition NANOS :: nat where "NANOS = 1000000000"

definition from_secs :: "nat \<Rightarrow> duration" where "from_secs s = s * NANOS"

definition from_millis :: "nat \<Rightarrow> duration" where "from_millis s = s * 1000000"

definition DURATION_MAX :: duration where "DURATION_MAX = (2 ^ 64 - 1) * NANOS + 999999999"

definition INSTANT_MAX :: instant where "INSTANT_MAX = (2 ^ 63 - 1) * NANOS + 999999999"

definition duration_checked_mul :: "duration \<Rightarrow> nat \<Rightarrow> duration option" where
  "duration_checked_mul d k = (if d * k \<le> DURATION_MAX then Some (d * k) else None)"

definition instant_checked_add :: "instant \<Rightarrow> duration \<Rightarrow> instant option" where
  "instant_checked_add t d = (if t + d \<le> INSTANT_MAX then Some (t + d) else None)"

text \<open>
  \<open>checked_sub\<close>: an instant before the origin of the count is not represented, and no recorded
  instant is before it, so every comparison of a recorded instant with the result is the same
  as with the (negative) instant the platform would return.
\<close>

definition instant_checked_sub :: "instant \<Rightarrow> duration \<Rightarrow> instant option" where
  "instant_checked_sub t d = (if d \<le> t then Some (t - d) else None)"

definition saturating_duration_since :: "instant \<Rightarrow> instant \<Rightarrow> duration" where
  "saturating_duration_since later earlier = later - earlier"

section \<open>Machine words\<close>

text \<open>Where the code packs or wraps, integers are words; \<open>as\<close> casts are \<open>ucast\<close>.\<close>

type_synonym u16 = "16 word"
type_synonym u32 = "32 word"
type_synonym u64 = "64 word"

lemma unat_u16_less: "unat (w :: u16) < 65536"
proof -
  have "unat w < 2 ^ LENGTH(16)" by (rule unsigned_less)
  then show ?thesis by simp
qed

lemma unat_u32_less: "unat (w :: u32) < 4294967296"
proof -
  have "unat w < 2 ^ LENGTH(32)" by (rule unsigned_less)
  then show ?thesis by simp
qed

section \<open>Saturating and checked integers\<close>

abbreviation U16_MAX :: nat where "U16_MAX \<equiv> 65535"
abbreviation U32_MAX :: nat where "U32_MAX \<equiv> 4294967295"
abbreviation U64_MAX :: nat where "U64_MAX \<equiv> 18446744073709551615"

definition sat_add :: "nat \<Rightarrow> nat \<Rightarrow> nat \<Rightarrow> nat" where
  "sat_add bound a b = min (a + b) bound"

lemma sat_add_le [simp]: "sat_add m a b \<le> m"
  by (simp add: sat_add_def)

lemma sat_add_ge_left: "a \<le> m \<Longrightarrow> a \<le> sat_add m a b"
  by (simp add: sat_add_def)

lemma sat_add_exact: "a + b \<le> m \<Longrightarrow> sat_add m a b = a + b"
  by (simp add: sat_add_def)

text \<open>\<open>1u64.checked_shl(n)\<close>.\<close>

definition u64_checked_shl_one :: "nat \<Rightarrow> nat option" where
  "u64_checked_shl_one n = (if n < 64 then Some (2 ^ n) else None)"

section \<open>Strings\<close>

text \<open>A \<open>str\<close> is the list of its Unicode scalar values; \<open>lit\<close> embeds an ASCII literal.\<close>

type_synonym ustr = "nat list"

definition lit :: "string \<Rightarrow> ustr" where "lit s = map of_char s"

definition utf8_width :: "nat \<Rightarrow> nat" where
  "utf8_width c = (if c < 128 then 1 else if c < 2048 then 2 else if c < 65536 then 3 else 4)"

definition utf8_len :: "ustr \<Rightarrow> nat" where "utf8_len s = sum_list (map utf8_width s)"

definition is_control :: "nat \<Rightarrow> bool" where
  "is_control c \<longleftrightarrow> c < 32 \<or> 127 \<le> c \<and> c < 160"

definition is_whitespace :: "nat \<Rightarrow> bool" where
  "is_whitespace c \<longleftrightarrow> 9 \<le> c \<and> c \<le> 13 \<or> c = 32 \<or> c = 133 \<or> c = 160 \<or> c = 5760
     \<or> 8192 \<le> c \<and> c \<le> 8202 \<or> c = 8232 \<or> c = 8233 \<or> c = 8239 \<or> c = 8287 \<or> c = 12288"

definition trim :: "ustr \<Rightarrow> ustr" where
  "trim s = rev (dropWhile is_whitespace (rev (dropWhile is_whitespace s)))"

definition ascii_lower :: "nat \<Rightarrow> nat" where
  "ascii_lower c = (if 65 \<le> c \<and> c \<le> 90 then c + 32 else c)"

definition to_ascii_lowercase :: "ustr \<Rightarrow> ustr" where "to_ascii_lowercase = map ascii_lower"

definition is_ascii_digit :: "nat \<Rightarrow> bool" where
  "is_ascii_digit c \<longleftrightarrow> 48 \<le> c \<and> c \<le> 57"

definition is_ascii_hexdigit :: "nat \<Rightarrow> bool" where
  "is_ascii_hexdigit c \<longleftrightarrow> is_ascii_digit c \<or> 65 \<le> c \<and> c \<le> 70 \<or> 97 \<le> c \<and> c \<le> 102"

text \<open>\<open>split_whitespace\<close>: the maximal runs of non-whitespace characters, in order.\<close>

function split_whitespace :: "ustr \<Rightarrow> ustr list" where
  "split_whitespace s =
     (let t = dropWhile is_whitespace s
      in if t = [] then []
         else takeWhile (\<lambda>c. \<not> is_whitespace c) t
              # split_whitespace (dropWhile (\<lambda>c. \<not> is_whitespace c) t))"
  by pat_completeness auto
termination
proof (relation "measure length", goal_cases)
  case 1
  show ?case by simp
next
  case (2 s t)
  from 2 obtain c u where t: "t = c # u" by (meson neq_Nil_conv)
  have "dropWhile is_whitespace s = c # u" using 2 t by simp
  then have "\<not> is_whitespace c"
    using hd_dropWhile [of is_whitespace s] by simp
  with t have "length (dropWhile (\<lambda>c. \<not> is_whitespace c) t) \<le> length u"
    by (simp add: length_dropWhile_le)
  also have "length u < length t" using t by simp
  also have "length t \<le> length s" using 2(1) by (simp add: length_dropWhile_le)
  finally show ?case by simp
qed

declare split_whitespace.simps [simp del]

lemma split_whitespace_words:
  "w \<in> set (split_whitespace s) \<Longrightarrow> w \<noteq> [] \<and> (\<forall>c \<in> set w. \<not> is_whitespace c \<and> c \<in> set s)"
proof (induction s rule: split_whitespace.induct)
  case (1 s)
  let ?t = "dropWhile is_whitespace s"
  let ?u = "dropWhile (\<lambda>c. \<not> is_whitespace c) ?t"
  have sub: "set ?t \<subseteq> set s" "set ?u \<subseteq> set s"
    by (auto dest: set_dropWhileD)
  show ?case
  proof (cases "?t = []")
    case True
    with 1(2) show ?thesis by (simp add: split_whitespace.simps [of s])
  next
    case False
    have "\<not> is_whitespace (hd ?t)" using hd_dropWhile [of is_whitespace s] False by simp
    then have first: "takeWhile (\<lambda>c. \<not> is_whitespace c) ?t \<noteq> []"
      using False by (cases ?t) auto
    have "split_whitespace s = takeWhile (\<lambda>c. \<not> is_whitespace c) ?t # split_whitespace ?u"
      by (simp only: split_whitespace.simps [of s] Let_def False if_False)
    with 1(2) consider "w = takeWhile (\<lambda>c. \<not> is_whitespace c) ?t"
      | "w \<in> set (split_whitespace ?u)"
      by (metis set_ConsD)
    then show ?thesis
    proof cases
      case 1
      with first sub(1) show ?thesis by (auto dest: set_takeWhileD)
    next
      case 2
      with "1.IH" [OF refl False] sub(2) show ?thesis by blast
    qed
  qed
qed

lemma split_whitespace_word:
  assumes "w \<noteq> []" and "\<forall>c \<in> set w. \<not> is_whitespace c"
  shows "split_whitespace w = [w]"
    and "is_whitespace c \<Longrightarrow> split_whitespace (w @ c # s) = w # split_whitespace (c # s)"
proof -
  have d: "dropWhile is_whitespace (w @ r) = w @ r" for r
    using assms by (cases w) auto
  have t: "takeWhile (\<lambda>c. \<not> is_whitespace c) w = w" "dropWhile (\<lambda>c. \<not> is_whitespace c) w = []"
    using assms(2) by (simp_all add: takeWhile_eq_all_conv dropWhile_eq_Nil_conv)
  show "split_whitespace w = [w]"
    using assms(1) d [of "[]"]
    by (simp add: split_whitespace.simps [of w] split_whitespace.simps [of "[]"] Let_def t
        del: dropWhile_eq_Nil_conv)
  have t': "takeWhile (\<lambda>c. \<not> is_whitespace c) (w @ c # s) = w"
    "dropWhile (\<lambda>c. \<not> is_whitespace c) (w @ c # s) = c # s" if "is_whitespace c"
    using assms(2) that by (simp_all add: takeWhile_append dropWhile_append)
  show "split_whitespace (w @ c # s) = w # split_whitespace (c # s)" if "is_whitespace c"
    using d [of "c # s"] t' [OF that] assms(1)
    by (simp add: split_whitespace.simps [of "w @ c # s"] Let_def)
qed

lemma split_whitespace_skip:
  "is_whitespace c \<Longrightarrow> split_whitespace (c # s) = split_whitespace s"
  by (simp add: split_whitespace.simps [of "c # s"] split_whitespace.simps [of s])

definition contains :: "ustr \<Rightarrow> ustr \<Rightarrow> bool" where "contains hay needle \<longleftrightarrow> sublist needle hay"

text \<open>\<open>strip_prefix\<close> and the fields of \<open>split\<close> on one character.\<close>

definition strip_prefix :: "ustr \<Rightarrow> ustr \<Rightarrow> ustr option" where
  "strip_prefix p s = (if take (length p) s = p then Some (drop (length p) s) else None)"

definition first_field :: "nat \<Rightarrow> ustr \<Rightarrow> ustr" where
  "first_field sep s = takeWhile (\<lambda>c. c \<noteq> sep) s"

section \<open>Parsing integers\<close>

text \<open>
  \<open>str::parse\<close> at an unsigned type: an optional plus sign, then one or more decimal digits,
  rejected when the value exceeds the maximum of the type. At a signed type a minus sign is
  accepted as well.
\<close>

definition digits_value :: "ustr \<Rightarrow> nat" where
  "digits_value ds = foldl (\<lambda>n c. 10 * n + (c - 48)) 0 ds"

definition parse_digits :: "ustr \<Rightarrow> nat option" where
  "parse_digits ds =
     (if ds \<noteq> [] \<and> list_all is_ascii_digit ds then Some (digits_value ds) else None)"

definition parse_uint :: "nat \<Rightarrow> ustr \<Rightarrow> nat option" where
  "parse_uint bound s =
     Option.bind (parse_digits (if s \<noteq> [] \<and> hd s = 43 then tl s else s))
       (\<lambda>n. if n \<le> bound then Some n else None)"

definition parse_i32 :: "ustr \<Rightarrow> int option" where
  "parse_i32 s =
     (if s \<noteq> [] \<and> hd s = 45
      then Option.bind (parse_digits (tl s))
             (\<lambda>n. if n \<le> 2147483648 then Some (- int n) else None)
      else map_option int (parse_uint 2147483647 s))"

section \<open>Environment\<close>

text \<open>
  The process environment at one moment: \<open>std::env::var\<close> is \<open>Ok\<close> for a variable that is set to
  valid Unicode and an error (here \<open>None\<close>) otherwise.
\<close>

type_synonym env = "string \<Rightarrow> ustr option"

lemmas duration_defs [std_simps] =
  from_secs_def from_millis_def NANOS_def DURATION_MAX_def INSTANT_MAX_def

lemma parse_uint_bound: "parse_uint m s = Some n \<Longrightarrow> n \<le> m"
  by (auto simp: parse_uint_def split: bind_splits if_splits)

end
