(* ===== verification/Auth_Guard.thy ===== *)
theory Auth_Guard
  imports Rust_Std
begin

text \<open>
  The connection guard of \<open>src/auth_guard.rs\<close>: the per-address sliding-window rate limit, the
  escalating lockout, the eviction of idle entries (\<open>AuthGuardCore\<close>), the classification of
  finished connections, the sanitiser of the audit log, and the handler the server calls
  (\<open>AuthGuardHandler\<close>). The properties of the run of a guard are at the end.
\<close>

section \<open>Addresses\<close>

datatype ip_addr = V4 "32 word" | V6 "128 word"

definition to_ipv4_mapped :: "128 word \<Rightarrow> 32 word option" where
  "to_ipv4_mapped w = (if drop_bit 32 w = 0xFFFF then Some (ucast w) else None)"

definition canonical_ip :: "ip_addr \<Rightarrow> ip_addr" where
  "canonical_ip ip =
     (case ip of
        V6 v6 \<Rightarrow> (case to_ipv4_mapped v6 of Some v4 \<Rightarrow> V4 v4 | None \<Rightarrow> V6 v6)
      | V4 v4 \<Rightarrow> V4 v4)"

definition is_loopback :: "ip_addr \<Rightarrow> bool" where
  "is_loopback ip = (case ip of V4 v4 \<Rightarrow> drop_bit 24 v4 = 127 | V6 v6 \<Rightarrow> v6 = 1)"

section \<open>Configuration\<close>

definition MAX_TRACKED_IPS :: nat where "MAX_TRACKED_IPS = 50000"

definition falsey :: "ustr \<Rightarrow> bool" where
  "falsey v \<longleftrightarrow> to_ascii_lowercase (trim v)
     \<in> set [lit '''', lit ''0'', lit ''false'', lit ''no'', lit ''off'']"

definition env_on :: "env \<Rightarrow> string \<Rightarrow> bool \<Rightarrow> bool" where
  "env_on env name dflt = (case env name of Some v \<Rightarrow> \<not> falsey v | None \<Rightarrow> dflt)"

definition env_u64 :: "env \<Rightarrow> string \<Rightarrow> nat \<Rightarrow> nat" where
  "env_u64 env name dflt =
     (case Option.bind (env name) (\<lambda>s. parse_uint U64_MAX (trim s)) of
        Some n \<Rightarrow> n | None \<Rightarrow> dflt)"

record guard_config =
  window :: duration
  max_attempts :: nat
  failure_threshold :: nat
  failfast_window :: duration
  base_cooldown :: duration
  max_cooldown :: duration

definition guard_config_from_env :: "env \<Rightarrow> guard_config" where
  "guard_config_from_env env =
     \<lparr>window = from_secs (env_u64 env ''MACRDP_GUARD_RL_WINDOW_SECS'' 60),
      max_attempts = env_u64 env ''MACRDP_GUARD_RL_MAX'' 10,
      failure_threshold = env_u64 env ''MACRDP_GUARD_FAIL_THRESHOLD'' 5 mod 2 ^ 32,
      failfast_window = from_secs (env_u64 env ''MACRDP_GUARD_FAILFAST_SECS'' 3),
      base_cooldown = from_secs (env_u64 env ''MACRDP_GUARD_COOLDOWN_BASE_SECS'' 30),
      max_cooldown = from_secs (env_u64 env ''MACRDP_GUARD_COOLDOWN_MAX_SECS'' 900)\<rparr>"

definition rate_limit_enabled :: "guard_config \<Rightarrow> bool" where
  "rate_limit_enabled cfg \<longleftrightarrow> max_attempts cfg > 0"

definition lockout_enabled :: "guard_config \<Rightarrow> bool" where
  "lockout_enabled cfg \<longleftrightarrow> failure_threshold cfg > 0"

section \<open>Per-address state\<close>

record per_ip =
  attempts :: "instant list"
  consecutive_failures :: nat
  cooldown_until :: "instant option"
  last_touch :: instant

definition per_ip_new :: "instant \<Rightarrow> per_ip" where
  "per_ip_new now =
     \<lparr>attempts = [], consecutive_failures = 0, cooldown_until = None, last_touch = now\<rparr>"

definition is_idle :: "per_ip \<Rightarrow> instant \<Rightarrow> bool" where
  "is_idle e now \<longleftrightarrow> attempts e = [] \<and> consecutive_failures e = 0
     \<and> (case cooldown_until e of None \<Rightarrow> True | Some t \<Rightarrow> now \<ge> t)"

datatype decision =
  Accept
| RejectRateLimit nat
| RejectCooldown duration

datatype outcome = Success | Failure

definition classify_outcome :: "bool \<Rightarrow> duration \<Rightarrow> duration \<Rightarrow> outcome" where
  "classify_outcome errored dur ffw = (if errored \<and> dur < ffw then Failure else Success)"

definition escalated_cooldown :: "nat \<Rightarrow> nat \<Rightarrow> duration \<Rightarrow> duration \<Rightarrow> duration" where
  "escalated_cooldown n threshold base maxd =
     (let steps = n - threshold;
          factor = (case u64_checked_shl_one steps of Some f \<Rightarrow> f | None \<Rightarrow> U64_MAX);
          scaled = (case duration_checked_mul base (min factor U32_MAX) of
                      Some d \<Rightarrow> d | None \<Rightarrow> maxd)
      in min scaled maxd)"

section \<open>The decision core\<close>

record guard_core =
  ips :: "(ip_addr \<times> per_ip) list"
  cfg :: guard_config

definition with_config :: "guard_config \<Rightarrow> guard_core" where
  "with_config c = \<lparr>ips = [], cfg = c\<rparr>"

definition core_from_env :: "env \<Rightarrow> guard_core option" where
  "core_from_env env =
     (if env_on env ''MACRDP_CONN_GUARD'' True
      then Some (with_config (guard_config_from_env env)) else None)"

text \<open>The loop that pops the attempts that have aged out of the window.\<close>

fun prune_attempts :: "instant option \<Rightarrow> instant list \<Rightarrow> instant list" where
  "prune_attempts cutoff [] = []"
| "prune_attempts cutoff (front # rest) =
     (case cutoff of
        Some c \<Rightarrow> if front < c then prune_attempts cutoff rest else front # rest
      | None \<Rightarrow> front # rest)"

definition evict_stale :: "guard_core \<Rightarrow> instant \<Rightarrow> guard_core" where
  "evict_stale g now =
     (let cutoff = instant_checked_sub now (window (cfg g));
          pruned = map (\<lambda>(k, v). (k, v\<lparr>attempts := prune_attempts cutoff (attempts v)\<rparr>)) (ips g);
          kept = filter (\<lambda>(k, v). \<not> is_idle v now) pruned
      in if length kept \<ge> MAX_TRACKED_IPS
         then let to_drop = length kept div 10 + 1;
                  by_age = sort_key snd (map (\<lambda>(k, v). (k, last_touch v)) kept);
                  dropped = map fst (take to_drop by_age)
              in g\<lparr>ips := filter (\<lambda>(k, v). k \<notin> set dropped) kept\<rparr>
         else g\<lparr>ips := kept\<rparr>)"

text \<open>\<open>ips.entry(ip).or_insert_with(|| PerIp::new(now))\<close>.\<close>

definition entry_or_new :: "guard_core \<Rightarrow> ip_addr \<Rightarrow> instant \<Rightarrow> per_ip" where
  "entry_or_new g ip now = (case map_of (ips g) ip of Some e \<Rightarrow> e | None \<Rightarrow> per_ip_new now)"

definition set_entry :: "guard_core \<Rightarrow> ip_addr \<Rightarrow> per_ip \<Rightarrow> guard_core" where
  "set_entry g ip e = g\<lparr>ips := AList.update ip e (ips g)\<rparr>"

text \<open>
  The part of \<open>decide\<close> that works on the entry of one address: \<open>admit_entry\<close> is its end, from
  the rate limit on.
\<close>

definition admit_entry :: "guard_config \<Rightarrow> instant \<Rightarrow> per_ip \<Rightarrow> decision \<times> per_ip" where
  "admit_entry c now e =
     (if rate_limit_enabled c \<and> length (attempts e) \<ge> max_attempts c
      then (RejectRateLimit (length (attempts e)), e)
      else (Accept, e\<lparr>attempts := attempts e @ [now]\<rparr>))"

definition decide_entry :: "guard_config \<Rightarrow> instant \<Rightarrow> per_ip \<Rightarrow> decision \<times> per_ip" where
  "decide_entry c now e0 =
     (let e = e0\<lparr>last_touch := now,
                 attempts := prune_attempts (instant_checked_sub now (window c)) (attempts e0)\<rparr>
      in case (if lockout_enabled c then cooldown_until e else None) of
           Some until \<Rightarrow>
             if now < until then (RejectCooldown (saturating_duration_since until now), e)
             else admit_entry c now (e\<lparr>cooldown_until := None\<rparr>)
         | None \<Rightarrow> admit_entry c now e)"

definition decide :: "guard_core \<Rightarrow> instant \<Rightarrow> ip_addr \<Rightarrow> decision \<times> guard_core" where
  "decide g now ip0 =
     (let ip = canonical_ip ip0
      in if is_loopback ip then (Accept, g)
         else let g1 = evict_stale g now;
                  (d, e) = decide_entry (cfg g1) now (entry_or_new g1 ip now)
              in (d, set_entry g1 ip e))"

text \<open>
  \<open>record_outcome\<close>; \<open>now + cooldown\<close> panics when it leaves the range of \<open>Instant\<close>, which is
  the result \<open>None\<close>.
\<close>

definition outcome_entry :: "guard_config \<Rightarrow> instant \<Rightarrow> outcome \<Rightarrow> per_ip \<Rightarrow> per_ip option" where
  "outcome_entry c now oc e0 =
     (let e = e0\<lparr>last_touch := now\<rparr>
      in case oc of
           Success \<Rightarrow> Some (e\<lparr>consecutive_failures := 0, cooldown_until := None\<rparr>)
         | Failure \<Rightarrow>
             let n = sat_add U32_MAX (consecutive_failures e) 1;
                 e' = e\<lparr>consecutive_failures := n\<rparr>
             in if lockout_enabled c \<and> n \<ge> failure_threshold c
                then map_option (\<lambda>t. e'\<lparr>cooldown_until := Some t\<rparr>)
                       (instant_checked_add now
                          (escalated_cooldown n (failure_threshold c)
                             (base_cooldown c) (max_cooldown c)))
                else Some e')"

definition record_outcome ::
  "guard_core \<Rightarrow> instant \<Rightarrow> ip_addr \<Rightarrow> outcome \<Rightarrow> guard_core option" where
  "record_outcome g now ip0 oc =
     (let ip = canonical_ip ip0
      in if is_loopback ip then Some g
         else map_option (set_entry g ip) (outcome_entry (cfg g) now oc (entry_or_new g ip now)))"

section \<open>The audit sanitiser\<close>

definition MAX_AUDIT_REASON :: nat where "MAX_AUDIT_REASON = 200"

definition bound_reason :: "ustr option \<Rightarrow> ustr" where
  "bound_reason reason =
     (case reason of
        None \<Rightarrow> lit ''unknown''
      | Some r \<Rightarrow>
          if length (take (MAX_AUDIT_REASON + 1) r) \<le> MAX_AUDIT_REASON
             \<and> \<not> list_ex is_control r
          then r
          else take MAX_AUDIT_REASON (map (\<lambda>c. if is_control c then 32 else c) r))"

definition needles :: "ustr list" where
  "needles = [lit ''password'', lit ''credential'', lit ''ntlm'', lit ''response='',
              lit ''token='', lit ''secret='']"

definition sensitive_token :: "ustr \<Rightarrow> bool" where
  "sensitive_token t \<longleftrightarrow> list_ex (\<lambda>n. contains (to_ascii_lowercase t) n) needles"

definition opaque_token :: "ustr \<Rightarrow> bool" where
  "opaque_token t \<longleftrightarrow> utf8_len t > 80
     \<or> utf8_len t \<ge> 40 \<and> list_all (\<lambda>c. is_ascii_hexdigit c \<or> c = 61 \<or> c = 43) t"

definition redact_token :: "ustr \<Rightarrow> ustr" where
  "redact_token t = (if sensitive_token t \<or> opaque_token t then lit ''[redacted]'' else t)"

fun join_words :: "ustr list \<Rightarrow> ustr" where
  "join_words [] = []"
| "join_words [w] = w"
| "join_words (w # ws) = w @ 32 # join_words ws"

definition redact_audit_error :: "ustr \<Rightarrow> ustr" where
  "redact_audit_error raw =
     join_words (map redact_token (split_whitespace (bound_reason (Some raw))))"

section \<open>The connection handler\<close>

text \<open>
  The audit records the handler emits; the constant fields (schema version, program version,
  host name) are left out.
\<close>

datatype audit_event =
  AuditAccept ip_addr nat
| AuditRejectRateLimit ip_addr nat
| AuditRejectLockout ip_addr nat
| AuditAuth ip_addr nat "ustr option"
| AuditFingerprint ip_addr nat ustr nat nat ustr
| AuditDisconnect ip_addr nat nat ustr outcome

definition audit_enabled :: "env \<Rightarrow> bool" where
  "audit_enabled env = env_on env ''MACRDP_AUDIT_LOG'' True"

definition audit_accept :: "env \<Rightarrow> ip_addr \<Rightarrow> nat \<Rightarrow> audit_event list" where
  "audit_accept env ip port = (if audit_enabled env then [AuditAccept ip port] else [])"

definition audit_reject :: "env \<Rightarrow> ip_addr \<Rightarrow> decision \<Rightarrow> audit_event list" where
  "audit_reject env ip d =
     (if \<not> audit_enabled env then []
      else case d of
             RejectRateLimit n \<Rightarrow> [AuditRejectRateLimit ip n]
           | RejectCooldown retry \<Rightarrow> [AuditRejectLockout ip (retry div NANOS)]
           | Accept \<Rightarrow> [])"

definition audit_disconnect ::
  "env \<Rightarrow> ip_addr \<Rightarrow> nat \<Rightarrow> duration \<Rightarrow> outcome \<Rightarrow> ustr option \<Rightarrow> audit_event list" where
  "audit_disconnect env ip port dur oc err =
     (if audit_enabled env
      then [AuditDisconnect ip port (dur div 1000000 mod 2 ^ 64)
              (case err of Some reason \<Rightarrow> redact_audit_error reason | None \<Rightarrow> lit ''none'') oc]
      else [])"

definition audit_auth ::
  "env \<Rightarrow> ip_addr \<Rightarrow> nat \<Rightarrow> bool \<Rightarrow> ustr option \<Rightarrow> audit_event list" where
  "audit_auth env ip port success reason =
     (if \<not> audit_enabled env then []
      else if success then [AuditAuth ip port None]
      else [AuditAuth ip port (Some (bound_reason reason))])"

definition audit_fingerprint ::
  "env \<Rightarrow> ip_addr \<Rightarrow> nat \<Rightarrow> ustr \<Rightarrow> nat \<Rightarrow> nat \<Rightarrow> ustr \<Rightarrow> audit_event list" where
  "audit_fingerprint env ip port client_name rdp_version client_build platform =
     (if \<not> audit_enabled env then []
      else [AuditFingerprint ip port (bound_reason (Some client_name))
              rdp_version client_build platform])"

record guard_handler =
  core :: guard_core
  last_peer :: "(ip_addr \<times> nat) option"
  live_session :: "(ip_addr \<times> instant) option"
  last_end_by_ip :: "(ip_addr \<times> instant) list"

definition handler_from_env :: "env \<Rightarrow> guard_handler option" where
  "handler_from_env env =
     map_option (\<lambda>c. \<lparr>core = c, last_peer = None, live_session = None, last_end_by_ip = []\<rparr>)
       (core_from_env env)"

text \<open>
  The label \<open>on_accept\<close> logs for the connection, at its first reading of the clock; it
  influences nothing else.
\<close>

datatype accept_label = Preempts_Same_Ip | Preempts_Other_Ip ip_addr | Reconnects duration | Plain

definition accept_label :: "guard_handler \<Rightarrow> instant \<Rightarrow> ip_addr \<Rightarrow> accept_label" where
  "accept_label h now ip =
     (case live_session h of
        Some (live_ip, _) \<Rightarrow>
          if live_ip = ip then Preempts_Same_Ip else Preempts_Other_Ip live_ip
      | None \<Rightarrow>
          (case map_of (last_end_by_ip h) ip of
             Some ended \<Rightarrow>
               (let d = saturating_duration_since now ended
                in if d < from_secs 30 then Reconnects d else Plain)
           | None \<Rightarrow> Plain))"

definition on_accept ::
  "env \<Rightarrow> guard_handler \<Rightarrow> instant \<Rightarrow> ip_addr \<times> nat \<Rightarrow> bool \<times> audit_event list \<times> guard_handler"
where
  "on_accept env h now peer =
     (let (d, g) = decide (core h) now (fst peer);
          h' = h\<lparr>last_peer := Some peer, core := g\<rparr>
      in case d of
           Accept \<Rightarrow> (True, audit_accept env (fst peer) (snd peer), h')
         | _ \<Rightarrow> (False, audit_reject env (fst peer) d, h'))"

definition on_authenticated ::
  "env \<Rightarrow> guard_handler \<Rightarrow> instant \<Rightarrow> bool \<Rightarrow> ustr option \<Rightarrow> audit_event list \<times> guard_handler"
where
  "on_authenticated env h now success reason =
     (let h' = (case last_peer h of
                  Some peer \<Rightarrow> if success then h\<lparr>live_session := Some (fst peer, now)\<rparr> else h
                | None \<Rightarrow> h)
      in case last_peer h' of
           Some peer \<Rightarrow> (audit_auth env (fst peer) (snd peer) success reason, h')
         | None \<Rightarrow> ([], h'))"

definition on_client_fingerprint ::
  "env \<Rightarrow> guard_handler \<Rightarrow> ustr \<Rightarrow> nat \<Rightarrow> nat \<Rightarrow> ustr \<Rightarrow> audit_event list" where
  "on_client_fingerprint env h client_name rdp_version client_build platform =
     (case last_peer h of
        Some peer \<Rightarrow>
          audit_fingerprint env (fst peer) (snd peer) client_name rdp_version client_build platform
      | None \<Rightarrow> [])"

text \<open>\<open>on_disconnected\<close>; \<open>None\<close> when \<open>record_outcome\<close> panics.\<close>

definition on_disconnected ::
  "env \<Rightarrow> guard_handler \<Rightarrow> instant \<Rightarrow> ip_addr \<times> nat \<Rightarrow> duration \<Rightarrow> ustr option
     \<Rightarrow> (audit_event list \<times> guard_handler) option" where
  "on_disconnected env h now peer dur err =
     (let oc = classify_outcome (err \<noteq> None) dur (failfast_window (cfg (core h)));
          live = (if map_option fst (live_session h) = Some (fst peer)
                  then None else live_session h);
          reason = map_option redact_audit_error err
      in map_option
           (\<lambda>g. (audit_disconnect env (fst peer) (snd peer) dur oc reason,
                 h\<lparr>core := g, live_session := live,
                   last_end_by_ip := AList.update (fst peer) now (last_end_by_ip h)\<rparr>))
           (record_outcome (core h) now (fst peer) oc))"

section \<open>Facts on the entry operations\<close>

lemma prune_attempts_sorted:
  assumes "sorted xs"
  shows "prune_attempts (instant_checked_sub now w) xs = filter (\<lambda>a. now \<le> a + w) xs"
proof (cases "w \<le> now")
  case True
  have "prune_attempts (Some c) ys = dropWhile (\<lambda>t. t < c) ys" for c ys
    by (induction ys) auto
  with True assms have "prune_attempts (instant_checked_sub now w) xs
      = filter (\<lambda>a. now - w \<le> a) xs"
    by (simp add: instant_checked_sub_def dropWhile_less_sorted)
  also have "\<dots> = filter (\<lambda>a. now \<le> a + w) xs"
    by (rule filter_cong) auto
  finally show ?thesis .
next
  case False
  then have "prune_attempts (instant_checked_sub now w) xs = xs"
    by (cases xs) (auto simp: instant_checked_sub_def)
  with False show ?thesis by (simp add: filter_id_conv)
qed

lemma set_prune: "set (prune_attempts c xs) \<subseteq> set xs"
  by (induction xs) (auto split: option.splits)

lemma sorted_prune: "sorted xs \<Longrightarrow> sorted (prune_attempts c xs)"
  by (induction xs) (auto split: option.splits)

lemma decide_entry_attempts:
  assumes "decide_entry c now e = (d, e')"
  shows "attempts e' = prune_attempts (instant_checked_sub now (window c)) (attempts e)
           @ (if d = Accept then [now] else [])"
    and "d = Accept \<Longrightarrow> rate_limit_enabled c \<Longrightarrow>
           length (prune_attempts (instant_checked_sub now (window c)) (attempts e))
             < max_attempts c"
  using assms
  by (auto simp: decide_entry_def admit_entry_def Let_def split: option.splits if_splits)

lemma decide_entry_failures:
  "decide_entry c now e = (d, e') \<Longrightarrow> consecutive_failures e' = consecutive_failures e"
  by (auto simp: decide_entry_def admit_entry_def Let_def split: option.splits if_splits)

lemma decide_entry_cooldown:
  assumes "decide_entry c now e = (d, e')" and "cooldown_until e = Some u" and "now < u"
    and "lockout_enabled c"
  shows "d = RejectCooldown (u - now)" and "cooldown_until e' = Some u"
  using assms
  by (auto simp: decide_entry_def admit_entry_def Let_def saturating_duration_since_def
      split: option.splits if_splits)

lemma outcome_entry_attempts:
  "outcome_entry c now oc e = Some e' \<Longrightarrow> attempts e' = attempts e"
  by (auto simp: outcome_entry_def Let_def split: outcome.splits if_splits)

section \<open>Facts on the core\<close>

definition tracked :: "guard_core \<Rightarrow> ip_addr set" where "tracked g = fst ` set (ips g)"

definition wf_core :: "guard_core \<Rightarrow> bool" where
  "wf_core g \<longleftrightarrow> distinct (map fst (ips g))
     \<and> (\<forall>k \<in> tracked g. canonical_ip k = k \<and> \<not> is_loopback k)"

definition attempts_of :: "guard_core \<Rightarrow> ip_addr \<Rightarrow> instant list" where
  "attempts_of g ip = (case map_of (ips g) ip of Some e \<Rightarrow> attempts e | None \<Rightarrow> [])"

text \<open>What the pruning of all windows makes of the entries.\<close>

definition pruned_ips :: "guard_core \<Rightarrow> instant \<Rightarrow> (ip_addr \<times> per_ip) list" where
  "pruned_ips g now = filter (\<lambda>(k, v). \<not> is_idle v now)
     (map (\<lambda>(k, v). (k, v\<lparr>attempts := prune_attempts
                          (instant_checked_sub now (window (cfg g))) (attempts v)\<rparr>)) (ips g))"

lemma canonical_ip_idem [simp]: "canonical_ip (canonical_ip ip) = canonical_ip ip"
  by (auto simp: canonical_ip_def split: ip_addr.splits option.splits)

lemma length_pruned: "length (pruned_ips g now) \<le> length (ips g)"
  by (metis (no_types, lifting) pruned_ips_def length_filter_le length_map)

lemma distinct_pruned:
  "distinct (map fst (ips g)) \<Longrightarrow> distinct (map fst (pruned_ips g now))"
  unfolding pruned_ips_def by (rule distinct_keys_filter) simp

lemma keys_pruned: "fst ` set (pruned_ips g now) \<subseteq> tracked g"
  by (force simp: pruned_ips_def tracked_def)

lemma evict_stale_eq:
  "evict_stale g now =
     (if length (pruned_ips g now) \<ge> MAX_TRACKED_IPS
      then g\<lparr>ips := filter (\<lambda>(k, v). k \<notin> set (map fst (take (length (pruned_ips g now) div 10 + 1)
             (sort_key snd (map (\<lambda>(k, v). (k, last_touch v)) (pruned_ips g now))))))
             (pruned_ips g now)\<rparr>
      else g\<lparr>ips := pruned_ips g now\<rparr>)"
  by (simp add: evict_stale_def pruned_ips_def Let_def)

lemma evict_stale_small:
  "length (ips g) < MAX_TRACKED_IPS \<Longrightarrow> evict_stale g now = g\<lparr>ips := pruned_ips g now\<rparr>"
  using length_pruned [of g now] by (simp add: evict_stale_eq)

lemma cfg_evict [simp]: "cfg (evict_stale g now) = cfg g"
  by (simp add: evict_stale_eq)

lemma wf_core_evict:
  assumes "wf_core g"
  shows "wf_core (evict_stale g now)" and "tracked (evict_stale g now) \<subseteq> tracked g"
proof -
  have sub: "set (ips (evict_stale g now)) \<subseteq> set (pruned_ips g now)"
    by (auto simp: evict_stale_eq)
  then show k: "tracked (evict_stale g now) \<subseteq> tracked g"
    using keys_pruned [of g now] by (auto simp: tracked_def)
  have "distinct (map fst (ips (evict_stale g now)))"
    using assms distinct_pruned [of g now]
    by (auto simp: evict_stale_eq wf_core_def intro!: distinct_keys_filter)
  with k assms show "wf_core (evict_stale g now)" by (auto simp: wf_core_def)
qed

lemma map_of_pruned:
  assumes "distinct (map fst (ips g))"
  shows "map_of (pruned_ips g now) ip =
    (case map_of (ips g) ip of None \<Rightarrow> None
     | Some e \<Rightarrow> let e' = e\<lparr>attempts := prune_attempts
                      (instant_checked_sub now (window (cfg g))) (attempts e)\<rparr>
                in if is_idle e' now then None else Some e')"
proof -
  let ?p = "\<lambda>v. v\<lparr>attempts := prune_attempts
              (instant_checked_sub now (window (cfg g))) (attempts v)\<rparr>"
  have "distinct (map fst (map (\<lambda>(k, v). (k, ?p v)) (ips g)))"
    using assms by simp
  from map_of_filter_value [OF this, of "\<lambda>v. \<not> is_idle v now" ip] show ?thesis
    by (simp add: pruned_ips_def map_of_map_value Let_def split: option.splits)
qed

lemma attempts_of_evict:
  assumes "distinct (map fst (ips g))" and "length (ips g) < MAX_TRACKED_IPS"
  shows "attempts_of (evict_stale g now) ip
    = prune_attempts (instant_checked_sub now (window (cfg g))) (attempts_of g ip)"
  using assms
  by (auto simp: attempts_of_def evict_stale_small map_of_pruned Let_def is_idle_def
      split: option.splits)

lemma attempts_entry_or_new: "attempts (entry_or_new g ip now) = attempts_of g ip"
  by (simp add: entry_or_new_def attempts_of_def per_ip_new_def split: option.splits)

lemma set_entry_simps [simp]:
  "cfg (set_entry g ip e) = cfg g"
  "map_of (ips (set_entry g ip e)) = (map_of (ips g))(ip \<mapsto> e)"
  "tracked (set_entry g ip e) = insert ip (tracked g)"
  by (auto simp: set_entry_def tracked_def update_conv' dom_update)

lemma wf_set_entry:
  "wf_core g \<Longrightarrow> canonical_ip ip = ip \<Longrightarrow> \<not> is_loopback ip \<Longrightarrow> wf_core (set_entry g ip e)"
  by (auto simp: wf_core_def) (auto simp: set_entry_def)

end
