(* ===== verification/Guard_Props.thy ===== *)
theory Guard_Props
  imports Auth_Guard
begin

text \<open>
  Runs of the connection guard and its properties: the sliding-window bound over whole runs,
  the lockout and its escalation, the reset by a success, the bound on the tracked addresses,
  and what reaches the audit log.
\<close>

section \<open>Runs\<close>

datatype guard_event = Attempt instant ip_addr | Finished instant ip_addr outcome

fun event_time :: "guard_event \<Rightarrow> instant" where
  "event_time (Attempt t ip) = t"
| "event_time (Finished t ip oc) = t"

fun event_addr :: "guard_event \<Rightarrow> ip_addr" where
  "event_addr (Attempt t ip) = canonical_ip ip"
| "event_addr (Finished t ip oc) = canonical_ip ip"

text \<open>A step of the guard, with the log of the attempts it accepted from tracked addresses.\<close>

type_synonym guard_log = "(instant \<times> ip_addr) list"

fun guard_step :: "guard_core \<times> guard_log \<Rightarrow> guard_event \<Rightarrow> (guard_core \<times> guard_log) option" where
  "guard_step (g, log) (Attempt t ip) =
     (let (d, g') = decide g t ip
      in Some (g', if d = Accept \<and> \<not> is_loopback (canonical_ip ip)
                   then log @ [(t, canonical_ip ip)] else log))"
| "guard_step (g, log) (Finished t ip oc) = map_option (\<lambda>g'. (g', log)) (record_outcome g t ip oc)"

definition accepted_at :: "guard_log \<Rightarrow> ip_addr \<Rightarrow> instant list" where
  "accepted_at log ip = map fst (filter (\<lambda>(t, k). k = ip) log)"

lemma accepted_at_simps [simp]:
  "accepted_at [] ip = []"
  "accepted_at (log @ [(t, k)]) ip = accepted_at log ip @ (if k = ip then [t] else [])"
  by (auto simp: accepted_at_def)

section \<open>What one operation does to the attempts of an address\<close>

lemma decide_wf:
  assumes "wf_core g" and "decide g now ip = (d, g')"
  shows "wf_core g'" and "cfg g' = cfg g" and "tracked g' \<subseteq> insert (canonical_ip ip) (tracked g)"
  using assms wf_core_evict [OF assms(1), of now]
  by (auto simp: decide_def Let_def intro: wf_set_entry split: if_splits prod.splits)

lemma record_outcome_wf:
  assumes "wf_core g" and "record_outcome g now ip oc = Some g'"
  shows "wf_core g'" and "cfg g' = cfg g" and "tracked g' \<subseteq> insert (canonical_ip ip) (tracked g)"
  using assms by (auto simp: record_outcome_def Let_def intro: wf_set_entry split: if_splits)

lemma record_outcome_attempts:
  assumes "record_outcome g now ip oc = Some g'"
  shows "attempts_of g' k = attempts_of g k"
proof (cases "is_loopback (canonical_ip ip)")
  case True
  with assms show ?thesis by (simp add: record_outcome_def)
next
  case False
  with assms obtain e where "outcome_entry (cfg g) now oc (entry_or_new g (canonical_ip ip) now)
      = Some e" and g': "g' = set_entry g (canonical_ip ip) e"
    by (auto simp: record_outcome_def Let_def)
  then have "attempts e = attempts_of g (canonical_ip ip)"
    by (simp add: outcome_entry_attempts attempts_entry_or_new)
  then show ?thesis by (auto simp: g' attempts_of_def split: option.splits)
qed

lemma decide_attempts:
  assumes wf: "wf_core g" and small: "length (ips g) < MAX_TRACKED_IPS"
    and ip: "\<not> is_loopback (canonical_ip ip)" and dec: "decide g now ip = (d, g')"
    and srt: "\<And>k. sorted (attempts_of g k)"
  shows "attempts_of g' k = filter (\<lambda>a. now \<le> a + window (cfg g)) (attempts_of g k)
           @ (if k = canonical_ip ip \<and> d = Accept then [now] else [])"
    and "d = Accept \<Longrightarrow> rate_limit_enabled (cfg g) \<Longrightarrow>
           length (filter (\<lambda>a. now \<le> a + window (cfg g)) (attempts_of g (canonical_ip ip)))
             < max_attempts (cfg g)"
proof -
  let ?a = "canonical_ip ip" and ?g1 = "evict_stale g now"
  let ?flt = "filter (\<lambda>a. now \<le> a + window (cfg g))"
  have ev: "attempts_of ?g1 m = ?flt (attempts_of g m)" for m
    using wf small srt by (simp add: wf_core_def attempts_of_evict prune_attempts_sorted)
  obtain e where e: "decide_entry (cfg g) now (entry_or_new ?g1 ?a now) = (d, e)"
    and g': "g' = set_entry ?g1 ?a e"
    using dec ip by (auto simp: decide_def Let_def split: prod.splits)
  have att0: "attempts (entry_or_new ?g1 ?a now) = ?flt (attempts_of g ?a)"
    by (simp add: attempts_entry_or_new ev)
  have "prune_attempts (instant_checked_sub now (window (cfg g))) (?flt (attempts_of g ?a))
      = ?flt (attempts_of g ?a)"
    using srt by (simp add: prune_attempts_sorted sorted_filter [where f = id, simplified])
  with decide_entry_attempts [OF e] have
    att: "attempts e = ?flt (attempts_of g ?a) @ (if d = Accept then [now] else [])"
    and lim: "d = Accept \<Longrightarrow> rate_limit_enabled (cfg g) \<Longrightarrow>
               length (?flt (attempts_of g ?a)) < max_attempts (cfg g)"
    by (simp_all add: att0)
  show "attempts_of g' k = ?flt (attempts_of g k)
      @ (if k = ?a \<and> d = Accept then [now] else [])"
    using att ev [of k] by (auto simp: g' attempts_of_def split: option.splits)
  show "d = Accept \<Longrightarrow> rate_limit_enabled (cfg g) \<Longrightarrow>
      length (?flt (attempts_of g ?a)) < max_attempts (cfg g)"
    by (rule lim)
qed

section \<open>The sliding-window bound\<close>

text \<open>The number of instants of a list in the window that ends at \<open>t\<close>.\<close>

definition in_window :: "duration \<Rightarrow> instant \<Rightarrow> instant list \<Rightarrow> nat" where
  "in_window w t xs = length (filter (\<lambda>a. a \<le> t \<and> t \<le> a + w) xs)"

definition window_inv :: "guard_config \<Rightarrow> ip_addr set \<Rightarrow> instant \<Rightarrow> guard_core \<times> guard_log \<Rightarrow> bool"
where
  "window_inv c A n s \<longleftrightarrow> (case s of (g, log) \<Rightarrow>
     wf_core g \<and> cfg g = c \<and> tracked g \<subseteq> A
     \<and> (\<forall>ip. sorted (attempts_of g ip) \<and> (\<forall>a \<in> set (attempts_of g ip). a \<le> n)
          \<and> (\<forall>a \<in> set (accepted_at log ip). a \<le> n)
          \<and> filter (\<lambda>a. n \<le> a + window c) (accepted_at log ip)
              = filter (\<lambda>a. n \<le> a + window c) (attempts_of g ip)
          \<and> (\<forall>t. in_window (window c) t (accepted_at log ip) \<le> max_attempts c)))"

lemma filter_later:
  assumes "n \<le> (m::nat)" and "filter (\<lambda>a. n \<le> a + w) xs = filter (\<lambda>a. n \<le> a + w) ys"
  shows "filter (\<lambda>a. m \<le> a + w) xs = filter (\<lambda>a. m \<le> a + w) ys"
proof -
  have "filter (\<lambda>a. m \<le> a + w) zs = filter (\<lambda>a. m \<le> a + w) (filter (\<lambda>a. n \<le> a + w) zs)" for zs
    using assms(1) by (auto intro!: filter_cong)
  with assms(2) show ?thesis by metis
qed

lemma window_inv_mono:
  assumes "window_inv c A n (g, log)" and "n \<le> m"
  shows "window_inv c A m (g, log)"
  using assms by (auto simp: window_inv_def dest: filter_later) (meson order_trans)+

lemma in_window_append:
  assumes "in_window w t xs \<le> m"
    and "length (filter (\<lambda>a. now \<le> a + w) xs) < m"
  shows "in_window w t (xs @ [now]) \<le> m"
proof (cases "now \<le> t \<and> t \<le> now + w")
  case True
  then have "in_window w t xs \<le> length (filter (\<lambda>a. now \<le> a + w) xs)"
    unfolding in_window_def by (intro length_filter_mono) auto
  with assms(2) True show ?thesis by (simp add: in_window_def)
next
  case False
  with assms(1) show ?thesis by (auto simp: in_window_def)
qed

lemma window_inv_length:
  assumes "window_inv c A n (g, log)" and "finite A" and "card A < MAX_TRACKED_IPS"
  shows "length (ips g) < MAX_TRACKED_IPS"
proof -
  from assms(1) have "distinct (map fst (ips g))" and "set (map fst (ips g)) \<subseteq> A"
    by (auto simp: window_inv_def wf_core_def tracked_def)
  then have "length (ips g) \<le> card A"
    using assms(2) by (metis card_mono distinct_card length_map)
  with assms(3) show ?thesis by simp
qed

lemma window_inv_step:
  assumes "window_inv c A n (g, log)" and A: "finite A" "card A < MAX_TRACKED_IPS"
    and e: "event_addr e \<in> A" "n \<le> event_time e" and rl: "rate_limit_enabled c"
    and step: "guard_step (g, log) e = Some s'"
  shows "window_inv c A (event_time e) s'"
proof -
  have inv: "window_inv c A (event_time e) (g, log)"
    using assms(1) e(2) by (rule window_inv_mono)
  then have base: "wf_core g" "cfg g = c" "tracked g \<subseteq> A" by (auto simp: window_inv_def)
  show ?thesis
  proof (cases e)
    case (Finished t ip oc)
    with step obtain g' where g': "record_outcome g t ip oc = Some g'" and s': "s' = (g', log)"
      by auto
    from record_outcome_wf [OF base(1) g'] base e Finished
    have "wf_core g'" "cfg g' = c" "tracked g' \<subseteq> A" by auto
    with inv show ?thesis
      by (auto simp: s' window_inv_def record_outcome_attempts [OF g'])
  next
    case (Attempt t ip)
    obtain d g' where dec: "decide g t ip = (d, g')" by fastforce
    note inv = inv [unfolded window_inv_def Attempt, simplified]
    show ?thesis
    proof (cases "is_loopback (canonical_ip ip)")
      case True
      with dec step Attempt have "s' = (g, log)" by (auto simp: decide_def)
      with inv show ?thesis by (simp add: window_inv_def Attempt)
    next
      case False
      have srt: "sorted (attempts_of g k)" for k using inv by blast
      note att = decide_attempts [OF base(1) window_inv_length [OF assms(1) A] False dec srt]
      from False step dec Attempt have s': "s' = (g', if d = Accept
          then log @ [(t, canonical_ip ip)] else log)"
        by auto
      have b: "in_window (window c) u (accepted_at log (canonical_ip ip) @ [t]) \<le> max_attempts c"
        if "d = Accept" for u
        using att(2) [OF that] rl base(2) inv by (intro in_window_append) auto
      have "wf_core g'" "cfg g' = c" "tracked g' \<subseteq> A"
        using decide_wf [OF base(1) dec] base e Attempt by auto
      then show ?thesis
        using inv b base(2)
        by (auto simp: s' window_inv_def att(1) Attempt sorted_append
            intro: sorted_filter [where f = id, simplified])
    qed
  qed
qed

lemma window_inv_run:
  assumes "window_inv c A n s" and "finite A" "card A < MAX_TRACKED_IPS"
    and "event_addr ` set es \<subseteq> A" and "sorted (n # map event_time es)"
    and "rate_limit_enabled c" and "run_opt guard_step s es = Some s'"
  shows "\<exists>m. window_inv c A m s'"
  using assms
proof (induction es arbitrary: s n)
  case Nil
  then show ?case by auto
next
  case (Cons e es)
  from Cons.prems obtain s1 where s1: "guard_step s e = Some s1" "run_opt guard_step s1 es = Some s'"
    by (auto split: bind_splits)
  have "window_inv c A (event_time e) s1"
    using Cons.prems s1(1) window_inv_step [of c A n "fst s" "snd s" e s1] by auto
  from Cons.IH [OF this] Cons.prems s1(2) show ?case by auto
qed

text \<open>
  C1. Over any run of the guard with non-decreasing times and fewer distinct addresses than the
  eviction cap, every window of the configured length contains at most \<open>max_attempts\<close> accepted
  attempts from one (non-loopback) address, whatever other addresses do in between and whatever
  outcomes are recorded.
\<close>

theorem guard_rate_limit:
  assumes "run_opt guard_step (with_config c, []) es = Some (g, log)"
    and "sorted (map event_time es)"
    and "card (event_addr ` set es) < MAX_TRACKED_IPS"
    and "rate_limit_enabled c"
  shows "in_window (window c) t (accepted_at log ip) \<le> max_attempts c"
proof -
  have "window_inv c (event_addr ` set es) 0 (with_config c, [])"
    by (auto simp: window_inv_def with_config_def wf_core_def tracked_def attempts_of_def
        in_window_def)
  with assms obtain m where "window_inv c (event_addr ` set es) m (g, log)"
    using window_inv_run [of c "event_addr ` set es" 0 _ es "(g, log)"] by auto
  then show ?thesis by (simp add: window_inv_def)
qed

theorem guard_rate_limit_witness:
  "in_window 60 5 (accepted_at [(3, V4 7)] (V4 7)) \<le> 1"
proof -
  let ?c = "\<lparr>window = 60, max_attempts = 1, failure_threshold = 0, failfast_window = 3,
              base_cooldown = 30, max_cooldown = 900\<rparr>"
  let ?es = "[Attempt 3 (V4 7), Attempt 4 (V4 7)]"
  have "\<exists>g. run_opt guard_step (with_config ?c, []) ?es = Some (g, [(3, V4 7)])"
    by (simp add: decide_def decide_entry_def admit_entry_def evict_stale_def with_config_def
        canonical_ip_def is_loopback_def entry_or_new_def set_entry_def per_ip_new_def
        instant_checked_sub_def rate_limit_enabled_def lockout_enabled_def is_idle_def
        MAX_TRACKED_IPS_def Let_def)
  then show ?thesis
    using guard_rate_limit [of ?c ?es _ "[(3, V4 7)]" 5 "V4 7"]
    by (auto simp: MAX_TRACKED_IPS_def rate_limit_enabled_def canonical_ip_def)
qed

section \<open>The lockout\<close>

definition failures_of :: "guard_core \<Rightarrow> ip_addr \<Rightarrow> nat" where
  "failures_of g ip = (case map_of (ips g) ip of Some e \<Rightarrow> consecutive_failures e | None \<Rightarrow> 0)"

lemma escalated_le_max: "escalated_cooldown n th b m \<le> m"
  by (simp add: escalated_cooldown_def Let_def)

lemma outcome_entry_total:
  "now + max_cooldown c \<le> INSTANT_MAX \<Longrightarrow> \<exists>e'. outcome_entry c now oc e = Some e'"
  using escalated_le_max [of "sat_add U32_MAX (consecutive_failures e) 1" "failure_threshold c"
      "base_cooldown c" "max_cooldown c"]
  by (auto simp: outcome_entry_def Let_def instant_checked_add_def split: outcome.split)

text \<open>
  The state of an address under an active lockout: the entry exists, carries failures (so it
  is never idle) and expires at \<open>u\<close>.
\<close>

definition locked_until :: "ip_addr \<Rightarrow> instant \<Rightarrow> guard_core \<Rightarrow> bool" where
  "locked_until k u g \<longleftrightarrow> (\<exists>e. map_of (ips g) k = Some e \<and> cooldown_until e = Some u
     \<and> consecutive_failures e > 0)"

definition lock_inv ::
  "guard_config \<Rightarrow> ip_addr set \<Rightarrow> ip_addr \<Rightarrow> instant \<Rightarrow> guard_core \<times> guard_log \<Rightarrow> bool" where
  "lock_inv c A k u s \<longleftrightarrow> wf_core (fst s) \<and> cfg (fst s) = c \<and> tracked (fst s) \<subseteq> A
     \<and> finite A \<and> card A < MAX_TRACKED_IPS \<and> lockout_enabled c \<and> locked_until k u (fst s)"

text \<open>
  The events a lockout of \<open>k\<close> until \<open>u\<close> survives: any attempt before its end, and the outcomes
  of other addresses.
\<close>

fun lock_allowed :: "guard_config \<Rightarrow> ip_addr set \<Rightarrow> ip_addr \<Rightarrow> instant \<Rightarrow> guard_event \<Rightarrow> bool" where
  "lock_allowed c A k u (Attempt t ip) \<longleftrightarrow> canonical_ip ip \<in> A \<and> t < u"
| "lock_allowed c A k u (Finished t ip oc) \<longleftrightarrow>
     canonical_ip ip \<in> A \<and> canonical_ip ip \<noteq> k \<and> t + max_cooldown c \<le> INSTANT_MAX"

lemma lock_inv_small: "lock_inv c A k u s \<Longrightarrow> length (ips (fst s)) < MAX_TRACKED_IPS"
  unfolding lock_inv_def wf_core_def tracked_def
  by (metis card_mono distinct_card length_map list.set_map order.strict_trans1)

lemma locked_evict:
  assumes "wf_core g" and "length (ips g) < MAX_TRACKED_IPS" and "locked_until k u g"
  shows "locked_until k u (evict_stale g now)"
  using assms
  by (auto simp: locked_until_def evict_stale_small map_of_pruned wf_core_def Let_def is_idle_def)

lemma locked_decide:
  assumes inv: "lock_inv c A k u (g, log)" and dec: "decide g now ip = (d, g')" and "now < u"
  shows "locked_until k u g'"
    and "canonical_ip ip = k \<Longrightarrow> \<not> is_loopback k \<Longrightarrow> d = RejectCooldown (u - now)"
proof -
  let ?a = "canonical_ip ip" and ?g1 = "evict_stale g now"
  have lk: "locked_until k u ?g1" "lockout_enabled (cfg g)"
    using inv lock_inv_small [OF inv] by (auto simp: lock_inv_def locked_evict)
  then obtain e0 where e0: "map_of (ips ?g1) k = Some e0" "cooldown_until e0 = Some u"
    "consecutive_failures e0 > 0"
    by (auto simp: locked_until_def)
  have nl: "d = RejectCooldown (u - now) \<and> locked_until k u g'" if "?a = k" "\<not> is_loopback k"
  proof -
    have "(case decide_entry (cfg g) now e0 of (d, e) \<Rightarrow> (d, set_entry ?g1 k e)) = (d, g')"
      using dec by (simp add: decide_def Let_def entry_or_new_def that e0)
    then obtain e where e: "decide_entry (cfg g) now e0 = (d, e)" and g': "g' = set_entry ?g1 k e"
      by (auto split: prod.splits)
    with decide_entry_cooldown [OF e e0(2) assms(3) lk(2)] decide_entry_failures [OF e] e0(3)
    show ?thesis by (simp add: locked_until_def)
  qed
  show "locked_until k u g'"
  proof (cases "is_loopback ?a")
    case True
    with dec inv show ?thesis by (simp add: decide_def lock_inv_def)
  next
    case False
    with dec lk(1) nl show ?thesis
      by (cases "?a = k")
        (auto simp: decide_def Let_def locked_until_def split: prod.splits)
  qed
  show "?a = k \<Longrightarrow> \<not> is_loopback k \<Longrightarrow> d = RejectCooldown (u - now)" using nl by simp
qed

interpretation lockout: fallible_stepper guard_step "lock_inv c A k u" "lock_allowed c A k u"
  for c A k u
proof (unfold_locales, goal_cases)
  case (1 s e)
  then show ?case
    by (cases s; cases e)
      (auto simp: lock_inv_def record_outcome_def Let_def outcome_entry_total split: prod.splits)
next
  case (2 s e t)
  obtain g log where s: "s = (g, log)" by fastforce
  show ?case
  proof (cases e)
    case (Attempt now ip)
    obtain d g' where dec: "decide g now ip = (d, g')" by fastforce
    with 2 s Attempt have "fst t = g'" by auto
    moreover have "locked_until k u g'"
      using locked_decide(1) [OF _ dec] 2 s Attempt by auto
    ultimately show ?thesis
      using 2 s Attempt decide_wf [of g now ip d g'] dec by (auto simp: lock_inv_def)
  next
    case (Finished now ip oc)
    with 2 s obtain g' where g': "record_outcome g now ip oc = Some g'" "fst t = g'" by auto
    moreover have "locked_until k u g'"
      using 2 s Finished g'(1)
      by (auto simp: lock_inv_def record_outcome_def Let_def locked_until_def split: if_splits)
    ultimately show ?thesis
      using 2 s Finished record_outcome_wf [of g now ip oc g'] by (auto simp: lock_inv_def)
  qed
qed

text \<open>
  C2. When the recorded failures of an address reach the threshold, a lockout of the escalated
  length begins, and it holds: through any run of later attempts (of this or other addresses)
  and of outcomes of other addresses, in which fewer than \<open>MAX_TRACKED_IPS\<close> addresses are tracked
  or appear (at the cap the oldest entries are evicted, a lockout with them) and the times stay
  within the clock range, the run does not panic and every attempt of the address before the end
  of the lockout is rejected, with the remaining time as the retry hint.
\<close>

theorem guard_lockout_holds:
  assumes "wf_core g" and "lockout_enabled (cfg g)"
    and "canonical_ip ip = k" and "\<not> is_loopback k"
    and "n = sat_add U32_MAX (failures_of g k) 1" and "failure_threshold (cfg g) \<le> n"
    and "u = t + escalated_cooldown n (failure_threshold (cfg g)) (base_cooldown (cfg g))
               (max_cooldown (cfg g))"
    and "u \<le> INSTANT_MAX"
    and "insert k (tracked g) \<subseteq> A" and "finite A" and "card A < MAX_TRACKED_IPS"
    and "\<forall>e \<in> set es. lock_allowed (cfg g) A k u e" and "now < u"
  shows "\<exists>g1 g2 log. record_outcome g t ip Failure = Some g1
     \<and> run_opt guard_step (g1, []) es = Some (g2, log)
     \<and> fst (decide g2 now ip) = RejectCooldown (u - now)"
proof -
  obtain e where e: "outcome_entry (cfg g) t Failure (entry_or_new g k t) = Some e"
    "cooldown_until e = Some u" "consecutive_failures e = n"
    using assms(2,5-8)
    by (auto simp: outcome_entry_def Let_def instant_checked_add_def entry_or_new_def
        failures_of_def per_ip_new_def split: option.splits)
  have "n > 0" using assms(5) by (simp add: sat_add_def)
  with e assms(1-4,9-11) have "lock_inv (cfg g) A k u (set_entry g k e, [])"
    using wf_set_entry [of g k e] by (auto simp: lock_inv_def locked_until_def)
  from lockout.run_total [OF this assms(12)] obtain g2 log
    where run: "run_opt guard_step (set_entry g k e, []) es = Some (g2, log)"
      and inv: "lock_inv (cfg g) A k u (g2, log)" by auto
  have "record_outcome g t ip Failure = Some (set_entry g k e)"
    using e(1) assms(3,4) by (simp add: record_outcome_def Let_def)
  with run locked_decide(2) [OF inv, of now ip] assms(3,4,13) show ?thesis
    by (metis fst_conv prod.exhaust)
qed

theorem guard_lockout_holds_witness:
  "\<exists>g1 g2 log. record_outcome (with_config \<lparr>window = 60, max_attempts = 0, failure_threshold = 1,
       failfast_window = 3, base_cooldown = 30, max_cooldown = 900\<rparr>) 10 (V4 7) Failure = Some g1
     \<and> run_opt guard_step (g1, []) [Attempt 12 (V4 9)] = Some (g2, log)
     \<and> fst (decide g2 20 (V4 7)) = RejectCooldown (40 - 20)"
  by (rule guard_lockout_holds [where n = 1 and A = "{V4 7, V4 9}" and k = "V4 7" and t = 10])
    (simp_all add: with_config_def wf_core_def tracked_def lockout_enabled_def canonical_ip_def
      is_loopback_def failures_of_def sat_add_def escalated_cooldown_def u64_checked_shl_one_def
      duration_checked_mul_def duration_defs MAX_TRACKED_IPS_def)

text \<open>
  The lockout grows by doubling with each failure past the threshold, saturates at the
  configured maximum, never shrinks with more failures, and is not affected by an overflow of
  the shift or of the multiplication.
\<close>

theorem escalated_cooldown_doubles:
  assumes "m \<le> DURATION_MAX"
  shows "escalated_cooldown n th b m = min (b * min (2 ^ (n - th)) U32_MAX) m
    \<and> (n \<le> n' \<longrightarrow> escalated_cooldown n th b m \<le> escalated_cooldown n' th b m)"
proof -
  have factor: "min (case u64_checked_shl_one k of Some f \<Rightarrow> f | None \<Rightarrow> U64_MAX) U32_MAX
      = min (2 ^ k) U32_MAX" for k
  proof (cases "k < 64")
    case False
    then have "(2::nat) ^ 32 \<le> 2 ^ k" by (intro power_increasing) auto
    with False show ?thesis by (simp add: u64_checked_shl_one_def)
  qed (simp add: u64_checked_shl_one_def)
  have closed: "escalated_cooldown n th b m = min (b * min (2 ^ (n - th)) U32_MAX) m" for n
    using assms by (simp add: escalated_cooldown_def Let_def factor duration_checked_mul_def)
  have "n \<le> n' \<Longrightarrow> min (2 ^ (n - th)) U32_MAX \<le> min (2 ^ (n' - th)) (U32_MAX :: nat)"
    by (intro min.mono power_increasing diff_le_mono) auto
  then have "n \<le> n' \<Longrightarrow> min (b * min (2 ^ (n - th)) U32_MAX) m
      \<le> min (b * min (2 ^ (n' - th)) U32_MAX) m"
    by (intro min.mono mult_le_mono) auto
  with closed show ?thesis by metis
qed

theorem escalated_cooldown_doubles_witness:
  "escalated_cooldown 7 5 (from_secs 30) (from_secs 900) = from_secs 120"
  using escalated_cooldown_doubles [of "from_secs 900" 7 5 "from_secs 30" 7]
  by (simp add: duration_defs)

section \<open>No lockout without enough failures\<close>

fun failures_by :: "ip_addr \<Rightarrow> guard_event list \<Rightarrow> nat" where
  "failures_by k [] = 0"
| "failures_by k (Finished t ip Failure # es) =
     (if canonical_ip ip = k then 1 else 0) + failures_by k es"
| "failures_by k (e # es) = failures_by k es"

text \<open>An address with no lockout and room for \<open>b\<close> more failures before the threshold.\<close>

definition unlocked :: "guard_config \<Rightarrow> ip_addr \<Rightarrow> nat \<Rightarrow> guard_core \<Rightarrow> bool" where
  "unlocked c k b g \<longleftrightarrow> wf_core g \<and> cfg g = c \<and> b < failure_threshold c
     \<and> (\<forall>e. map_of (ips g) k = Some e \<longrightarrow>
           cooldown_until e = None \<and> consecutive_failures e + b < failure_threshold c)"

lemma unlocked_evict:
  assumes "unlocked c k b g" shows "unlocked c k b (evict_stale g now)"
proof -
  have wf: "wf_core g" using assms by (simp add: unlocked_def)
  have dist: "distinct (map fst (ips g))" using wf by (simp add: wf_core_def)
  have filtered: "map_of (filter (\<lambda>(a, v). a \<notin> B) m) a = Some e \<Longrightarrow> map_of m a = Some e"
    if "distinct (map fst m)" for m :: "(ip_addr \<times> per_ip) list" and B a e
    using that by (auto simp: map_of_eq_Some_iff distinct_keys_filter)
  have "\<exists>e0. map_of (ips g) k = Some e0 \<and> cooldown_until e = cooldown_until e0
      \<and> consecutive_failures e = consecutive_failures e0"
    if "map_of (ips (evict_stale g now)) k = Some e" for e
  proof -
    have "map_of (pruned_ips g now) k = Some e"
      using that filtered [OF distinct_pruned [OF dist]]
      by (auto simp: evict_stale_eq split: if_splits)
    then show ?thesis
      by (auto simp: map_of_pruned [OF dist] Let_def split: option.splits if_splits)
  qed
  with assms wf_core_evict(1) [OF wf] show ?thesis by (fastforce simp: unlocked_def)
qed

lemma decide_entry_unlocked:
  assumes "decide_entry c now e = (d, e')" and "cooldown_until e = None"
  shows "cooldown_until e' = None" and "\<forall>r. d \<noteq> RejectCooldown r"
  using assms by (auto simp: decide_entry_def admit_entry_def Let_def split: if_splits)

lemma unlocked_decide:
  assumes "unlocked c k b g" and "decide g now ip = (d, g')"
  shows "unlocked c k b g'" and "canonical_ip ip = k \<Longrightarrow> \<forall>r. d \<noteq> RejectCooldown r"
proof -
  let ?a = "canonical_ip ip" and ?g1 = "evict_stale g now"
  have un: "unlocked c k b ?g1" using assms(1) by (rule unlocked_evict)
  have "unlocked c k b g' \<and> (?a = k \<longrightarrow> (\<forall>r. d \<noteq> RejectCooldown r))"
  proof (cases "is_loopback ?a")
    case True
    with assms show ?thesis by (auto simp: decide_def)
  next
    case False
    let ?e0 = "entry_or_new ?g1 ?a now"
    obtain e where e: "decide_entry (cfg ?g1) now ?e0 = (d, e)" and g': "g' = set_entry ?g1 ?a e"
      using assms(2) False by (auto simp: decide_def Let_def split: prod.splits)
    have "?a = k \<Longrightarrow> cooldown_until ?e0 = None
        \<and> consecutive_failures ?e0 + b < failure_threshold c"
      using un by (auto simp: unlocked_def entry_or_new_def per_ip_new_def split: option.splits)
    with decide_entry_unlocked [OF e] decide_entry_failures [OF e] un False show ?thesis
      by (auto simp: unlocked_def g' wf_set_entry)
  qed
  then show "unlocked c k b g'" and "?a = k \<Longrightarrow> \<forall>r. d \<noteq> RejectCooldown r" by auto
qed

lemma unlocked_outcome:
  assumes "unlocked c k (failures_by k [Finished t ip oc] + b) g"
    and "record_outcome g t ip oc = Some g'"
  shows "unlocked c k b g'"
proof (cases "is_loopback (canonical_ip ip)")
  case True
  with assms show ?thesis by (auto simp: record_outcome_def unlocked_def)
next
  case False
  let ?a = "canonical_ip ip"
  obtain e where e: "outcome_entry (cfg g) t oc (entry_or_new g ?a t) = Some e"
    and g': "g' = set_entry g ?a e"
    using assms(2) False by (auto simp: record_outcome_def Let_def)
  have "?a = k \<Longrightarrow> cooldown_until e = None \<and> consecutive_failures e + b < failure_threshold c"
    using e assms(1)
    by (cases oc) (auto simp: unlocked_def outcome_entry_def Let_def entry_or_new_def
        per_ip_new_def sat_add_def split: option.splits if_splits)
  with assms(1) False show ?thesis by (auto simp: unlocked_def g' wf_set_entry)
qed

lemma unlocked_run:
  assumes "unlocked c k (failures_by k es) (fst s)" and "run_opt guard_step s es = Some s'"
  shows "unlocked c k 0 (fst s')"
  using assms
proof (induction es arbitrary: s)
  case Nil
  then show ?case by simp
next
  case (Cons e es)
  obtain g log where s: "s = (g, log)" by fastforce
  from Cons.prems obtain s1 where s1: "guard_step s e = Some s1" "run_opt guard_step s1 es = Some s'"
    by (auto split: bind_splits)
  have "unlocked c k (failures_by k es) (fst s1)"
  proof (cases e)
    case (Attempt t ip)
    obtain d g' where "decide g t ip = (d, g')" by fastforce
    with Cons.prems(1) s s1(1) Attempt show ?thesis by (auto intro: unlocked_decide(1))
  next
    case (Finished t ip oc)
    have "failures_by k (e # es) = failures_by k [Finished t ip oc] + failures_by k es"
      by (cases oc) (simp_all add: Finished)
    with Cons.prems(1) s s1(1) Finished show ?thesis by (auto intro: unlocked_outcome)
  qed
  with s1(2) show ?case by (rule Cons.IH [rotated])
qed

text \<open>
  A success clears the record of an address: from any consistent state, after a recorded
  success the address is never rejected for a lockout until it has accumulated a full threshold
  of failures again, whatever else happens.
\<close>

theorem guard_success_resets:
  assumes "wf_core g" and "record_outcome g t ip Success = Some g1"
    and "run_opt guard_step (g1, []) es = Some (g2, log)"
    and "failures_by (canonical_ip ip) es < failure_threshold (cfg g)"
  shows "fst (decide g2 now ip) \<noteq> RejectCooldown r"
proof (cases "is_loopback (canonical_ip ip)")
  case True
  then show ?thesis by (simp add: decide_def)
next
  case False
  let ?k = "canonical_ip ip"
  from assms(1,2,4) False have "unlocked (cfg g) ?k (failures_by ?k es) g1"
    by (auto simp: record_outcome_def unlocked_def outcome_entry_def Let_def wf_set_entry)
  with assms(3) have "unlocked (cfg g) ?k 0 g2"
    using unlocked_run [of "cfg g" ?k es "(g1, [])" "(g2, log)"] by simp
  with unlocked_decide(2) show ?thesis by (metis prod.collapse)
qed

theorem guard_success_resets_witness:
  "fst (decide (set_entry (with_config \<lparr>window = 60, max_attempts = 9, failure_threshold = 2,
       failfast_window = 3, base_cooldown = 30, max_cooldown = 900\<rparr>) (V4 7)
       \<lparr>attempts = [], consecutive_failures = 0, cooldown_until = None, last_touch = 5\<rparr>)
     6 (V4 7)) \<noteq> RejectCooldown 1"
proof -
  let ?c = "\<lparr>window = 60, max_attempts = 9, failure_threshold = 2, failfast_window = 3,
              base_cooldown = 30, max_cooldown = 900\<rparr>"
  let ?g1 = "set_entry (with_config ?c) (V4 7)
       \<lparr>attempts = [], consecutive_failures = 0, cooldown_until = None, last_touch = 5\<rparr>"
  have "record_outcome (with_config ?c) 5 (V4 7) Success = Some ?g1"
    by (simp add: record_outcome_def with_config_def canonical_ip_def is_loopback_def
        outcome_entry_def entry_or_new_def per_ip_new_def Let_def)
  then show ?thesis
    using guard_success_resets [of "with_config ?c" 5 "V4 7" ?g1 "[]" ?g1 "[]" 6 1]
    by (simp add: wf_core_def with_config_def tracked_def)
qed

section \<open>No panic, and the bound on the tracked addresses\<close>

interpretation guard_total: fallible_stepper guard_step
  "\<lambda>s. wf_core (fst s) \<and> cfg (fst s) = c" "\<lambda>e. event_time e + max_cooldown c \<le> INSTANT_MAX"
  for c
proof (unfold_locales, goal_cases)
  case (1 s e)
  then show ?case
    by (cases s; cases e) (auto simp: record_outcome_def Let_def outcome_entry_total split: prod.splits)
next
  case (2 s e t)
  then show ?case
    by (cases s; cases e)
      (auto dest: decide_wf record_outcome_wf split: prod.splits)
qed

text \<open>
  The guard never panics: a run whose times plus the maximal cooldown stay in the range of
  the monotonic clock always completes, in a consistent state (distinct canonical addresses,
  loopback never tracked) with the configuration unchanged.
\<close>

theorem guard_never_panics:
  assumes "\<forall>e \<in> set es. event_time e + max_cooldown c \<le> INSTANT_MAX"
  shows "\<exists>g log. run_opt guard_step (with_config c, []) es = Some (g, log)
     \<and> wf_core g \<and> cfg g = c"
  using guard_total.run_total [of "(with_config c, [])" c es] assms
  by (auto simp: with_config_def wf_core_def tracked_def)

theorem guard_never_panics_witness:
  "\<exists>g log. run_opt guard_step (with_config (guard_config_from_env (\<lambda>_. None)), [])
     [Finished 5 (V4 7) Failure] = Some (g, log)
     \<and> wf_core g \<and> cfg g = guard_config_from_env (\<lambda>_. None)"
  by (rule guard_never_panics)
    (simp add: guard_config_from_env_def env_u64_def duration_defs)

text \<open>
  Without that hypothesis it can: a configured cooldown of \<open>u64::MAX\<close> seconds makes the first
  failure at the threshold panic. And a failure threshold of \<open>2^32\<close> is truncated to 0, which
  turns the lockout off.
\<close>

definition overflow_env :: env where
  "overflow_env name =
     (if name = ''MACRDP_GUARD_FAIL_THRESHOLD'' then Some (lit ''1'')
      else if name = ''MACRDP_GUARD_COOLDOWN_BASE_SECS'' \<or> name = ''MACRDP_GUARD_COOLDOWN_MAX_SECS''
      then Some (lit ''18446744073709551615'') else None)"

definition truncating_env :: env where
  "truncating_env name =
     (if name = ''MACRDP_GUARD_FAIL_THRESHOLD'' then Some (lit ''4294967296'') else None)"

lemma trim_digits:
  "list_all is_ascii_digit s \<Longrightarrow> trim s = s"
proof -
  assume "list_all is_ascii_digit s"
  then have "\<forall>c \<in> set s. \<not> is_whitespace c"
    by (auto simp: list_all_iff is_ascii_digit_def is_whitespace_def)
  then have "dropWhile is_whitespace s = s" "dropWhile is_whitespace (rev s) = rev s"
    by (auto intro: dropWhile_none)
  then show ?thesis by (simp add: trim_def)
qed

lemma guard_cooldown_overflow_panics:
  "record_outcome (with_config (guard_config_from_env overflow_env)) 1 (V4 7) Failure = None"
  by (simp add: record_outcome_def with_config_def canonical_ip_def is_loopback_def
      outcome_entry_def entry_or_new_def per_ip_new_def Let_def sat_add_def lockout_enabled_def
      guard_config_from_env_def env_u64_def overflow_env_def trim_digits lit_def is_ascii_digit_def
      parse_uint_def parse_digits_def digits_value_def escalated_cooldown_def
      u64_checked_shl_one_def duration_checked_mul_def duration_defs instant_checked_add_def)

lemma guard_threshold_truncated:
  "\<not> lockout_enabled (guard_config_from_env truncating_env)"
  by (simp add: lockout_enabled_def guard_config_from_env_def env_u64_def truncating_env_def
      trim_digits lit_def is_ascii_digit_def parse_uint_def parse_digits_def digits_value_def)

text \<open>
  The accept loop of the server, as far as the guard sees it (\<open>vendor/macrdp-server/src/server.rs\<close>):
  one live session and, beside it, at most one candidate that is still negotiating; both have
  passed \<open>on_accept\<close>. A connection that arrives while there is a candidate stays in the backlog
  of the listener (\<open>if !probing\<close>). A session that ends is reported to the guard; its candidate
  is served next when it finishes its negotiation in time. A candidate that authenticates evicts
  the session, which is reported, and is not attempted again; one that does not is dropped without
  a report.
\<close>

record accept_loop =
  loop_core :: guard_core
  live_peer :: "ip_addr option"
  probing_peer :: "ip_addr option"

datatype loop_event =
  Arrives instant ip_addr
| Session_ends instant outcome bool
| Probed bool instant outcome

fun accept_loop_step :: "accept_loop \<Rightarrow> loop_event \<Rightarrow> accept_loop option" where
  "accept_loop_step l (Arrives t ip) =
     (case (live_peer l, probing_peer l) of
        (None, _) \<Rightarrow>
          (let (d, g) = decide (loop_core l) t ip
           in Some (l\<lparr>loop_core := g, live_peer := if d = Accept then Some ip else None\<rparr>))
      | (Some _, None) \<Rightarrow>
          (let (d, g) = decide (loop_core l) t ip
           in Some (l\<lparr>loop_core := g, probing_peer := if d = Accept then Some ip else None\<rparr>))
      | (Some _, Some _) \<Rightarrow> Some l)"
| "accept_loop_step l (Session_ends t oc in_time) =
     (case live_peer l of
        None \<Rightarrow> Some l
      | Some ip \<Rightarrow>
          map_option (\<lambda>g. l\<lparr>loop_core := g, live_peer := if in_time then probing_peer l else None,
                           probing_peer := None\<rparr>)
            (record_outcome (loop_core l) t ip oc))"
| "accept_loop_step l (Probed authenticated t oc) =
     (case (live_peer l, probing_peer l) of
        (Some ip, Some candidate) \<Rightarrow>
          (if authenticated
           then map_option (\<lambda>g. l\<lparr>loop_core := g, live_peer := Some candidate,
                                 probing_peer := None\<rparr>)
                  (record_outcome (loop_core l) t ip oc)
           else Some (l\<lparr>probing_peer := None\<rparr>))
      | _ \<Rightarrow> Some l)"

fun loop_event_in_range :: "guard_config \<Rightarrow> loop_event \<Rightarrow> bool" where
  "loop_event_in_range c (Arrives t ip) \<longleftrightarrow> True"
| "loop_event_in_range c (Session_ends t oc ok) \<longleftrightarrow> t + max_cooldown c \<le> INSTANT_MAX"
| "loop_event_in_range c (Probed ok t oc) \<longleftrightarrow> t + max_cooldown c \<le> INSTANT_MAX"

definition accept_loop_new :: "guard_config \<Rightarrow> accept_loop" where
  "accept_loop_new c = \<lparr>loop_core = with_config c, live_peer = None, probing_peer = None\<rparr>"

lemma length_remove_keys:
  assumes "distinct (map fst m)" and "K \<subseteq> fst ` set m"
  shows "length (filter (\<lambda>(k, v). k \<notin> K) m) = length m - card K"
proof -
  have "length (filter (\<lambda>(k, v). k \<notin> K) m) = card (fst ` set (filter (\<lambda>(k, v). k \<notin> K) m))"
    using distinct_keys_filter [OF assms(1)] by (metis distinct_card length_map list.set_map)
  also have "fst ` set (filter (\<lambda>(k, v). k \<notin> K) m) = fst ` set m - K" by force
  also have "card \<dots> = card (fst ` set m) - card K"
    using assms(2) by (metis card_Diff_subset finite_imageI finite_set finite_subset)
  also have "card (fst ` set m) = length m"
    using assms(1) by (metis distinct_card length_map list.set_map)
  finally show ?thesis .
qed

text \<open>The addresses the hard cap removes.\<close>

definition dropped_ips :: "(ip_addr \<times> per_ip) list \<Rightarrow> ip_addr list" where
  "dropped_ips m = map fst (take (length m div 10 + 1)
     (sort_key snd (map (\<lambda>(k, v). (k, last_touch v)) m)))"

lemma dropped_ips_card:
  assumes "distinct (map fst m)" and "m \<noteq> []"
  shows "set (dropped_ips m) \<subseteq> fst ` set m" and "card (set (dropped_ips m)) = length m div 10 + 1"
proof -
  let ?l = "map (\<lambda>(k, v). (k, last_touch v)) m" and ?n = "length m div 10 + 1"
  have perm: "mset (map fst (sort_key snd ?l)) = mset (map fst m)"
  proof -
    have "mset (map fst (sort_key snd ?l)) = image_mset fst (mset ?l)" by simp
    also have "\<dots> = mset (map fst ?l)" by (rule mset_map [symmetric])
    finally show ?thesis by simp
  qed
  have "set (map fst (sort_key snd ?l)) = set (map fst m)"
    using perm by (rule mset_eq_setD)
  then show "set (dropped_ips m) \<subseteq> fst ` set m"
    unfolding dropped_ips_def take_map [symmetric] using set_take_subset by fastforce
  have "distinct (map fst (sort_key snd ?l))"
    using perm assms(1) by (metis mset_eq_imp_distinct_iff)
  then have "distinct (dropped_ips m)" by (simp add: dropped_ips_def take_map [symmetric])
  moreover have "length (dropped_ips m) = ?n"
    using assms(2) by (cases m) (auto simp: dropped_ips_def)
  ultimately show "card (set (dropped_ips m)) = ?n" by (simp add: distinct_card)
qed

lemma length_evict:
  assumes "wf_core g" and "length (ips g) \<le> MAX_TRACKED_IPS + 1"
  shows "length (ips (evict_stale g now)) < MAX_TRACKED_IPS"
proof (cases "length (pruned_ips g now) < MAX_TRACKED_IPS")
  case True
  then show ?thesis by (simp add: evict_stale_eq)
next
  case False
  let ?m = "pruned_ips g now"
  have d: "distinct (map fst ?m)" using assms(1) by (auto simp: wf_core_def intro: distinct_pruned)
  have "?m \<noteq> []" using False by (auto simp: MAX_TRACKED_IPS_def)
  with dropped_ips_card [OF d] have
    "length (filter (\<lambda>(k, v). k \<notin> set (dropped_ips ?m)) ?m) = length ?m - (length ?m div 10 + 1)"
    using length_remove_keys [OF d] by metis
  moreover have "evict_stale g now = g\<lparr>ips := filter (\<lambda>(k, v). k \<notin> set (dropped_ips ?m)) ?m\<rparr>"
    using False by (simp add: evict_stale_eq dropped_ips_def)
  ultimately show ?thesis using assms(2) length_pruned [of g now] False
    by (auto simp: MAX_TRACKED_IPS_def)
qed

text \<open>An attempt of an address that is not loopback leaves it tracked, within the cap.\<close>

lemma decide_within_cap:
  assumes "wf_core g" and "length (ips g) \<le> MAX_TRACKED_IPS + 1"
    and "\<not> is_loopback (canonical_ip ip)" and "decide g now ip = (d, g')"
  shows "length (ips g') \<le> MAX_TRACKED_IPS" and "canonical_ip ip \<in> tracked g'"
proof -
  from assms(3,4) obtain e where e: "g' = set_entry (evict_stale g now) (canonical_ip ip) e"
    by (auto simp: decide_def Let_def split: prod.splits)
  show "length (ips g') \<le> MAX_TRACKED_IPS"
    using length_evict [OF assms(1,2), of now]
    by (auto simp: e set_entry_def intro: order_trans [OF length_update_le])
  show "canonical_ip ip \<in> tracked g'" by (simp add: e)
qed

text \<open>The accepted peers whose entry has been evicted: reporting them adds an entry.\<close>

definition untracked_peers :: "accept_loop \<Rightarrow> ip_addr set" where
  "untracked_peers l = {k \<in> canonical_ip ` (set_option (live_peer l) \<union> set_option (probing_peer l)).
     \<not> is_loopback k \<and> k \<notin> tracked (loop_core l)}"

definition loop_inv :: "guard_config \<Rightarrow> accept_loop \<Rightarrow> bool" where
  "loop_inv c l \<longleftrightarrow> wf_core (loop_core l) \<and> cfg (loop_core l) = c
     \<and> length (ips (loop_core l)) + card (untracked_peers l) \<le> MAX_TRACKED_IPS + 1"

lemma finite_untracked [simp]: "finite (untracked_peers l)"
  by (rule finite_subset [of _ "canonical_ip ` (set_option (live_peer l) \<union> set_option (probing_peer l))"])
    (auto simp: untracked_peers_def)

lemma loop_inv_fewer:
  assumes "loop_inv c l" and "loop_core l' = loop_core l" and "untracked_peers l' \<subseteq> untracked_peers l"
  shows "loop_inv c l'"
  using assms card_mono [OF finite_untracked assms(3)] by (auto simp: loop_inv_def)

lemma loop_inv_attempt:
  assumes inv: "loop_inv c l" and dec: "decide (loop_core l) t ip = (d, g)"
    and core: "loop_core l' = g"
    and peers: "set_option (live_peer l') \<union> set_option (probing_peer l') \<subseteq> {old, ip}"
    and lo: "is_loopback (canonical_ip ip) \<Longrightarrow> untracked_peers l' \<subseteq> untracked_peers l"
  shows "loop_inv c l'"
proof (cases "is_loopback (canonical_ip ip)")
  case True
  with dec have "g = loop_core l" by (simp add: decide_def)
  with loop_inv_fewer [OF inv _ lo [OF True]] core show ?thesis by simp
next
  case False
  have wf: "wf_core (loop_core l)" "length (ips (loop_core l)) \<le> MAX_TRACKED_IPS + 1"
    using inv by (auto simp: loop_inv_def)
  note cap = decide_within_cap [OF wf False dec]
  have "untracked_peers l' \<subseteq> {canonical_ip old}"
    using peers cap(2) core by (auto simp: untracked_peers_def)
  then have "card (untracked_peers l') \<le> 1"
    using card_mono [of "{canonical_ip old}"] by simp
  with cap(1) decide_wf(1,2) [OF wf(1) dec] inv core show ?thesis by (simp add: loop_inv_def)
qed

lemma loop_inv_report:
  assumes inv: "loop_inv c l" and live: "live_peer l = Some ip"
    and rec: "record_outcome (loop_core l) t ip oc = Some g" and core: "loop_core l' = g"
    and peers: "set_option (live_peer l') \<union> set_option (probing_peer l')
      \<subseteq> set_option (probing_peer l)"
  shows "loop_inv c l'"
proof (cases "is_loopback (canonical_ip ip)")
  case True
  with rec have "g = loop_core l" by (simp add: record_outcome_def)
  with peers core have "untracked_peers l' \<subseteq> untracked_peers l" by (auto simp: untracked_peers_def)
  with \<open>g = loop_core l\<close> core show ?thesis by (intro loop_inv_fewer [OF inv]) auto
next
  case False
  let ?k = "canonical_ip ip"
  obtain e where g: "g = set_entry (loop_core l) ?k e"
    using rec False by (auto simp: record_outcome_def Let_def)
  have sub: "untracked_peers l' \<subseteq> untracked_peers l - {?k}"
    using peers core by (auto simp: untracked_peers_def g)
  have "length (ips g) + card (untracked_peers l - {?k})
      \<le> length (ips (loop_core l)) + card (untracked_peers l)"
  proof (cases "?k \<in> tracked (loop_core l)")
    case True
    then have "length (ips g) = length (ips (loop_core l))"
      by (simp add: g set_entry_def length_update_member tracked_def)
    then show ?thesis by (simp add: card_mono [OF finite_untracked])
  next
    case no: False
    with False live have "?k \<in> untracked_peers l" by (auto simp: untracked_peers_def)
    then have "card (untracked_peers l) = Suc (card (untracked_peers l - {?k}))"
      by (metis card.remove finite_untracked)
    moreover have "length (ips g) \<le> Suc (length (ips (loop_core l)))"
      by (simp add: g set_entry_def length_update_le)
    ultimately show ?thesis by simp
  qed
  moreover have "card (untracked_peers l') \<le> card (untracked_peers l - {?k})"
    using sub by (intro card_mono) auto
  moreover have "wf_core g" "cfg g = cfg (loop_core l)"
    using record_outcome_wf(1,2) [OF _ rec] inv by (auto simp: loop_inv_def)
  ultimately show ?thesis using inv core by (auto simp: loop_inv_def)
qed

lemma accept_loop_total:
  assumes "loop_inv c l" and "loop_event_in_range c e"
  shows "\<exists>l'. accept_loop_step l e = Some l'"
  using assms outcome_entry_total
  by (cases e)
    (auto simp: loop_inv_def record_outcome_def Let_def split: option.splits prod.splits)

lemma accept_loop_arrives:
  assumes inv: "loop_inv c l" and step: "accept_loop_step l (Arrives t ip) = Some l'"
  shows "loop_inv c l'"
proof -
  obtain d g where dec: "decide (loop_core l) t ip = (d, g)" by fastforce
  have same: "g = loop_core l" if "is_loopback (canonical_ip ip)"
    using that dec by (simp add: decide_def)
  show ?thesis
  proof (cases "live_peer l")
    case None
    with step dec have l': "l' = l\<lparr>loop_core := g, live_peer := if d = Accept then Some ip else None\<rparr>"
      by simp
    show ?thesis
      by (rule loop_inv_attempt [OF inv dec, of _ "case probing_peer l of Some p \<Rightarrow> p | None \<Rightarrow> ip"])
        (auto simp: l' same untracked_peers_def split: option.splits)
  next
    case (Some p)
    show ?thesis
    proof (cases "probing_peer l")
      case None
      with step dec Some
      have l': "l' = l\<lparr>loop_core := g, probing_peer := if d = Accept then Some ip else None\<rparr>"
        by simp
      show ?thesis
        by (rule loop_inv_attempt [OF inv dec, of _ p])
          (auto simp: l' same Some untracked_peers_def)
    next
      case busy: (Some q)
      with step Some inv show ?thesis by simp
    qed
  qed
qed

lemma accept_loop_inv:
  assumes inv: "loop_inv c l" and step: "accept_loop_step l e = Some l'"
  shows "loop_inv c l'"
proof (cases e)
  case (Arrives t ip)
  with accept_loop_arrives [OF inv] step show ?thesis by simp
next
  case (Session_ends t oc ok)
  show ?thesis
  proof (cases "live_peer l")
    case None
    with step inv Session_ends show ?thesis by simp
  next
    case (Some ip)
    with step Session_ends obtain g where g: "record_outcome (loop_core l) t ip oc = Some g"
      "l' = l\<lparr>loop_core := g, live_peer := if ok then probing_peer l else None, probing_peer := None\<rparr>"
      by auto
    show ?thesis by (rule loop_inv_report [OF inv Some g(1)]) (auto simp: g(2))
  qed
next
  case (Probed ok t oc)
  show ?thesis
  proof (cases "live_peer l = None \<or> probing_peer l = None")
    case True
    with step inv Probed show ?thesis by (auto split: option.splits)
  next
    case False
    then obtain ip q where p: "live_peer l = Some ip" "probing_peer l = Some q" by auto
    show ?thesis
    proof (cases ok)
      case True
      with step Probed p obtain g where g: "record_outcome (loop_core l) t ip oc = Some g"
        "l' = l\<lparr>loop_core := g, live_peer := Some q, probing_peer := None\<rparr>"
        by auto
      show ?thesis by (rule loop_inv_report [OF inv p(1) g(1)]) (auto simp: g(2) p)
    next
      case False
      with step Probed p have "l' = l\<lparr>probing_peer := None\<rparr>" by simp
      then show ?thesis by (intro loop_inv_fewer [OF inv]) (auto simp: untracked_peers_def)
    qed
  qed
qed

interpretation accepts: fallible_stepper accept_loop_step "loop_inv c" "loop_event_in_range c" for c
  by unfold_locales (use accept_loop_total accept_loop_inv in blast)+

lemma loop_inv_new: "loop_inv c (accept_loop_new c)"
  by (simp add: loop_inv_def accept_loop_new_def with_config_def wf_core_def tracked_def
      untracked_peers_def)

text \<open>
  The cap is exceeded by one: an accepted peer whose entry the attempt of the candidate evicted
  gets a new entry when its session is reported.
\<close>

lemma report_after_eviction_grows:
  assumes "canonical_ip ip \<notin> tracked g" and "\<not> is_loopback (canonical_ip ip)"
    and "record_outcome g t ip oc = Some g'"
  shows "length (ips g') = length (ips g) + 1"
proof -
  obtain e where g': "g' = set_entry g (canonical_ip ip) e"
    using assms(2,3) by (auto simp: record_outcome_def Let_def)
  have "length (AList.update k v m) = length m + 1" if "k \<notin> fst ` set m" for k v and m :: "(ip_addr \<times> per_ip) list"
    using that by (induction m) auto
  with assms(1) show ?thesis by (simp add: g' set_entry_def tracked_def)
qed

text \<open>
  C26. The memory of the guard is bounded: however many connections from however many addresses
  reach the accept loop, in whatever order sessions end, candidates are probed and evict the live
  session, the loop does not panic (times within the clock range), at most
  \<open>MAX_TRACKED_IPS + 1\<close> addresses are tracked at any time, and every attempt of an address that is
  not loopback brings the table back to at most \<open>MAX_TRACKED_IPS\<close>.
\<close>

theorem guard_memory_bounded:
  assumes "\<forall>e \<in> set es. loop_event_in_range c e"
  shows "\<exists>l. run_opt accept_loop_step (accept_loop_new c) es = Some l
     \<and> length (ips (loop_core l)) \<le> MAX_TRACKED_IPS + 1
     \<and> (is_loopback (canonical_ip ip)
        \<or> length (ips (snd (decide (loop_core l) t ip))) \<le> MAX_TRACKED_IPS)"
proof -
  obtain l where l: "run_opt accept_loop_step (accept_loop_new c) es = Some l" "loop_inv c l"
    using accepts.run_total [OF loop_inv_new assms] by blast
  have wf: "wf_core (loop_core l)" "length (ips (loop_core l)) \<le> MAX_TRACKED_IPS + 1"
    using l(2) by (auto simp: loop_inv_def)
  obtain d g where "decide (loop_core l) t ip = (d, g)" by fastforce
  with decide_within_cap(1) [OF wf] l(1) wf(2) show ?thesis by auto
qed

theorem guard_memory_bounded_witness:
  "\<exists>l. run_opt accept_loop_step (accept_loop_new (guard_config_from_env (\<lambda>_. None)))
       [Arrives 1 (V4 7), Arrives 2 (V6 9), Probed True 3 Success, Session_ends 4 Failure False] = Some l
     \<and> length (ips (loop_core l)) \<le> MAX_TRACKED_IPS + 1
     \<and> (is_loopback (canonical_ip (V4 8))
        \<or> length (ips (snd (decide (loop_core l) 5 (V4 8)))) \<le> MAX_TRACKED_IPS)"
  by (rule guard_memory_bounded) (simp add: guard_config_from_env_def env_u64_def duration_defs)

section \<open>What reaches the audit log\<close>

lemma bound_reason_clean:
  "list_all (\<lambda>c. \<not> is_control c) (bound_reason r)" "length (bound_reason r) \<le> MAX_AUDIT_REASON"
proof -
  have u: "\<forall>c \<in> set (lit ''unknown''). \<not> is_control c" "length (lit ''unknown'') = 7"
    by (simp_all add: lit_def is_control_def)
  have s: "\<not> is_control 32" by (simp add: is_control_def)
  show "list_all (\<lambda>c. \<not> is_control c) (bound_reason r)"
    using u s by (auto simp: bound_reason_def list_all_iff list_ex_iff split: option.splits dest!: in_set_takeD)
  show "length (bound_reason r) \<le> MAX_AUDIT_REASON"
    using u by (auto simp: bound_reason_def MAX_AUDIT_REASON_def split: option.splits)
qed

lemma split_join_words:
  "\<forall>w \<in> set ws. w \<noteq> [] \<and> (\<forall>c \<in> set w. \<not> is_whitespace c) \<Longrightarrow> split_whitespace (join_words ws) = ws"
proof (induction ws rule: join_words.induct)
  case 1
  show ?case by (simp add: split_whitespace.simps [of "[]"])
next
  case (2 w)
  then show ?case by (simp add: split_whitespace_word)
next
  case (3 w v vs)
  have sp: "is_whitespace 32" by (simp add: is_whitespace_def)
  have "split_whitespace (w @ 32 # join_words (v # vs)) = w # split_whitespace (join_words (v # vs))"
    using 3(2) sp split_whitespace_word(2) [of w 32] by (simp add: split_whitespace_skip)
  with 3 show ?case by simp
qed

lemma redacted_lit: "lit ''[redacted]'' = [91, 114, 101, 100, 97, 99, 116, 101, 100, 93]"
  by (simp add: lit_def)

lemma redacted_marker:
  shows "lit ''[redacted]'' \<noteq> []"
    and "\<forall>c \<in> set (lit ''[redacted]''). \<not> is_whitespace c \<and> \<not> is_control c"
    and "\<not> opaque_token (lit ''[redacted]'')"
  by (simp_all add: redacted_lit is_whitespace_def is_control_def opaque_token_def utf8_len_def
      utf8_width_def is_ascii_hexdigit_def is_ascii_digit_def)

lemma redacted_not_sensitive: "\<not> sensitive_token (lit ''[redacted]'')"
  by (simp add: sensitive_token_def needles_def redacted_lit lit_def to_ascii_lowercase_def
      ascii_lower_def contains_def sublist_Cons_right)

lemma set_join_words: "set (join_words ws) \<subseteq> insert 32 (\<Union> (set ` set ws))"
  by (induction ws rule: join_words.induct) auto

lemma redact_words:
  "w \<in> set (map redact_token (split_whitespace (bound_reason (Some raw)))) \<Longrightarrow>
     w \<noteq> [] \<and> (\<forall>c \<in> set w. \<not> is_whitespace c \<and> \<not> is_control c)
     \<and> \<not> sensitive_token w \<and> \<not> opaque_token w"
  using bound_reason_clean(1) [of "Some raw"] redacted_marker redacted_not_sensitive
  by (fastforce simp: redact_token_def list_all_iff dest: split_whitespace_words)

text \<open>
  What \<open>redact_audit_error\<close> lets into the audit record is safe, for every error text: it
  contains no control character (so no forged line and no terminal escape), and none of its
  whitespace-separated words contains a credential keyword or is an opaque token.
\<close>

theorem redact_audit_error_safe:
  "list_all (\<lambda>c. \<not> is_control c) (redact_audit_error raw)
   \<and> list_all (\<lambda>w. \<not> sensitive_token w \<and> \<not> opaque_token w)
       (split_whitespace (redact_audit_error raw))"
proof -
  let ?ws = "map redact_token (split_whitespace (bound_reason (Some raw)))"
  have "split_whitespace (redact_audit_error raw) = ?ws"
    unfolding redact_audit_error_def by (rule split_join_words) (use redact_words in blast)
  moreover have "\<not> is_control c" if "c \<in> set (redact_audit_error raw)" for c
  proof -
    have "c = 32 \<or> (\<exists>w \<in> set ?ws. c \<in> set w)"
      using that set_join_words [of ?ws] unfolding redact_audit_error_def by blast
    moreover have "\<not> is_control 32" by (simp add: is_control_def)
    ultimately show ?thesis using redact_words by blast
  qed
  ultimately show ?thesis using redact_words by (auto simp: list_all_iff)
qed

text \<open>
  The log of a disconnect is redacted whatever the error was, and the handler charges the
  outcome to the peer that disconnected.
\<close>

lemma on_disconnected_result:
  assumes "on_disconnected env h now peer dur err = Some (evs, h')"
  shows "record_outcome (core h) now (fst peer)
           (classify_outcome (err \<noteq> None) dur (failfast_window (cfg (core h)))) = Some (core h')"
    and "map_of (last_end_by_ip h') (fst peer) = Some now"
    and "live_session h' = Some (ip, t) \<Longrightarrow> ip \<noteq> fst peer"
  using assms by (auto simp: on_disconnected_def Let_def update_conv' split: if_splits)

text \<open>
  Unlike the core's table, \<open>last_end_by_ip\<close> is never pruned: it holds every address that ever
  disconnected.
\<close>

lemma last_end_grows:
  assumes "on_disconnected env h now peer dur err = Some (evs, h')"
  shows "fst ` set (last_end_by_ip h') = insert (fst peer) (fst ` set (last_end_by_ip h))"
  using assms by (auto simp: on_disconnected_def Let_def dom_map_of_conv_image_fst [symmetric] update_conv')

lemma failures_record_outcome:
  assumes "record_outcome g now ip oc = Some g'" and "\<not> is_loopback (canonical_ip ip)"
  shows "failures_of g' (canonical_ip ip) =
    (if oc = Failure then sat_add U32_MAX (failures_of g (canonical_ip ip)) 1 else 0)"
proof -
  let ?e0 = "entry_or_new g (canonical_ip ip) now"
  obtain e where e: "outcome_entry (cfg g) now oc ?e0 = Some e"
    and g': "g' = set_entry g (canonical_ip ip) e"
    using assms by (auto simp: record_outcome_def Let_def)
  have "consecutive_failures ?e0 = failures_of g (canonical_ip ip)"
    by (auto simp: entry_or_new_def failures_of_def per_ip_new_def split: option.splits)
  with e have "consecutive_failures e =
    (if oc = Failure then sat_add U32_MAX (failures_of g (canonical_ip ip)) 1 else 0)"
    by (auto simp: outcome_entry_def Let_def split: outcome.splits if_splits)
  then show ?thesis by (simp add: g' failures_of_def)
qed

text \<open>
  A slow failure never counts: a connection that ended with an error after the fail-fast
  window, or without an error, clears the failures of its peer, and one that ended with an error
  within the window adds exactly one (saturating).
\<close>

theorem on_disconnected_accounting:
  assumes "on_disconnected env h now peer dur err = Some (evs, h')"
    and "canonical_ip (fst peer) = k" and "\<not> is_loopback k"
  shows "failures_of (core h') k =
    (if err \<noteq> None \<and> dur < failfast_window (cfg (core h))
     then sat_add U32_MAX (failures_of (core h) k) 1 else 0)"
  using failures_record_outcome [OF on_disconnected_result(1) [OF assms(1)]] assms(2,3)
  by (auto simp: classify_outcome_def)

theorem on_disconnected_accounting_witness:
  "\<exists>evs h'. on_disconnected (\<lambda>_. None) \<lparr>core = with_config (guard_config_from_env (\<lambda>_. None)),
       last_peer = None, live_session = None, last_end_by_ip = []\<rparr> 5 (V4 7, 4000) 9
       (Some (lit ''eof'')) = Some (evs, h') \<and> failures_of (core h') (V4 7) = 1"
proof -
  let ?h = "\<lparr>core = with_config (guard_config_from_env (\<lambda>_. None)),
       last_peer = None, live_session = None, last_end_by_ip = []\<rparr>"
  have "\<exists>g. record_outcome (core ?h) 5 (V4 7) oc = Some g" for oc
    by (simp add: record_outcome_def Let_def outcome_entry_total with_config_def
        guard_config_from_env_def env_u64_def duration_defs)
  then obtain evs h' where r: "on_disconnected (\<lambda>_. None) ?h 5 (V4 7, 4000) 9 (Some (lit ''eof''))
      = Some (evs, h')"
    by (fastforce simp: on_disconnected_def Let_def)
  from on_disconnected_accounting [OF r, of "V4 7"] r show ?thesis
    by (auto simp: canonical_ip_def is_loopback_def with_config_def guard_config_from_env_def
        env_u64_def duration_defs failures_of_def sat_add_def)
qed

end
