(* ===== verification/Rust_Float.thy ===== *)
theory Rust_Float
  imports Complex_Main Rust_Std
begin

text \<open>
  The \<open>f64\<close> computations of the rate controller and the telemetry, idealised as real arithmetic:
  no rounding of intermediate results, no NaN. A value that the code initialises with
  \<open>f64::INFINITY\<close> is a \<open>real option\<close> whose \<open>None\<close> is the infinity. Conversions to integers are the
  saturating casts of the language, \<open>round\<close> rounds half away from zero.
\<close>

type_synonym f64 = real
type_synonym f64_inf = "real option"

definition f64_round :: "real \<Rightarrow> int" where
  "f64_round x = (if 0 \<le> x then \<lfloor>x + 1 / 2\<rfloor> else \<lceil>x - 1 / 2\<rceil>)"

definition clamp :: "'a :: linorder \<Rightarrow> 'a \<Rightarrow> 'a \<Rightarrow> 'a" where
  "clamp x lo hi = (if x < lo then lo else if hi < x then hi else x)"

text \<open>\<open>x.round().clamp(0.0, 255.0) as u8\<close>\<close>

definition round_u8 :: "real \<Rightarrow> 8 word" where
  "round_u8 x = of_int (clamp (f64_round x) 0 255)"

definition f64_as_uint :: "nat \<Rightarrow> real \<Rightarrow> nat" where
  "f64_as_uint bound x = min (nat \<lfloor>x\<rfloor>) bound"

definition min_inf :: "f64_inf \<Rightarrow> real \<Rightarrow> real" where
  "min_inf m x = (case m of None \<Rightarrow> x | Some y \<Rightarrow> min y x)"

text \<open>\<open>Duration\<close> from and to seconds, and \<open>mul_f64\<close>, to the nearest nanosecond.\<close>

definition as_secs_f64 :: "duration \<Rightarrow> real" where "as_secs_f64 d = real d / 1000000000"

definition duration_mul_f64 :: "duration \<Rightarrow> real \<Rightarrow> duration" where
  "duration_mul_f64 d m = nat (f64_round (real d * m))"

text \<open>
  \<open>str::parse::<f64>\<close>: sign, digits with an optional fraction, optional exponent. The spellings of
  the infinities and of NaN are not numbers here.
\<close>

definition parse_exponent :: "ustr \<Rightarrow> int option" where
  "parse_exponent s =
     (if s = [] then Some 0
      else if hd s \<in> {69, 101} then
        let t = tl s; neg = (t \<noteq> [] \<and> hd t = 45);
            ds = (if t \<noteq> [] \<and> hd t \<in> {43, 45} then tl t else t)
        in map_option (\<lambda>n. if neg then - int n else int n) (parse_digits ds)
      else None)"

definition parse_f64 :: "ustr \<Rightarrow> f64 option" where
  "parse_f64 s =
     (let neg = (s \<noteq> [] \<and> hd s = 45);
          body = (if s \<noteq> [] \<and> hd s \<in> {43, 45} then tl s else s);
          ip = takeWhile is_ascii_digit body;
          r1 = dropWhile is_ascii_digit body;
          dot = (r1 \<noteq> [] \<and> hd r1 = 46);
          fp = (if dot then takeWhile is_ascii_digit (tl r1) else []);
          r2 = (if dot then dropWhile is_ascii_digit (tl r1) else r1)
      in if ip = [] \<and> fp = [] then None
         else map_option
                (\<lambda>e. let m = real (digits_value (ip @ fp)); k = e - int (length fp);
                          v = (if 0 \<le> k then m * 10 ^ nat k else m / 10 ^ nat (- k))
                      in if neg then - v else v)
                (parse_exponent r2))"

lemma clamp_bounds: "lo \<le> hi \<Longrightarrow> lo \<le> clamp x lo hi \<and> clamp x lo hi \<le> hi"
  by (auto simp: clamp_def)

lemma clamp_id: "lo \<le> x \<Longrightarrow> x \<le> hi \<Longrightarrow> clamp x lo hi = x"
  by (auto simp: clamp_def)

lemma f64_round_of_int [simp]: "f64_round (of_int n) = n"
  by (simp add: f64_round_def floor_eq_iff ceiling_eq_iff)

lemma f64_round_of_nat [simp]: "f64_round (real n) = int n"
  using f64_round_of_int [of "int n"] by simp

lemma f64_round_numeral [simp]: "f64_round (numeral n) = numeral n"
  using f64_round_of_int [of "numeral n"] by simp

lemma f64_round_mono: "x \<le> y \<Longrightarrow> f64_round x \<le> f64_round y"
  by (auto simp: f64_round_def intro: floor_mono ceiling_mono) linarith

lemma f64_round_near: "\<bar>of_int (f64_round x) - x\<bar> \<le> 1 / 2"
proof (cases "0 \<le> x")
  case True
  then have "f64_round x = \<lfloor>x + 1 / 2\<rfloor>" by (simp add: f64_round_def)
  with floor_correct [of "x + 1 / 2"] show ?thesis by linarith
next
  case False
  then have "f64_round x = \<lceil>x - 1 / 2\<rceil>" by (simp add: f64_round_def)
  with ceiling_correct [of "x - 1 / 2"] show ?thesis by linarith
qed

lemma uint_round_u8: "uint (round_u8 x) = clamp (f64_round x) 0 255"
  using clamp_bounds [of 0 255 "f64_round x"] by (simp add: round_u8_def word_of_int_inverse uint_word_of_int)

lemma f64_round_nonneg: "0 \<le> x \<Longrightarrow> 0 \<le> f64_round x"
  by (simp add: f64_round_def)

lemma duration_mul_f64_ge: "1 \<le> m \<Longrightarrow> d \<le> duration_mul_f64 d m"
proof -
  assume "1 \<le> m"
  then have "real d \<le> real d * m" by (simp add: mult_le_cancel_left1)
  then have "f64_round (real d) \<le> f64_round (real d * m)" by (rule f64_round_mono)
  then show ?thesis by (simp add: duration_mul_f64_def)
qed

lemma duration_mul_f64_zero [simp]: "duration_mul_f64 0 m = 0"
  by (simp add: duration_mul_f64_def f64_round_def)

lemma duration_mul_f64_one [simp]: "duration_mul_f64 d 1 = d"
  by (simp add: duration_mul_f64_def)

end
