(* ===== verification/Egfx_Policy.thy ===== *)
theory Egfx_Policy
  imports Rust_Float
begin

text \<open>
  The pure decision functions of the H.264 / EGFX pipeline (\<open>src/src/h264.rs\<close>): the queue delay
  fold, the recovery-IDR and de-migration tests, the client-QoE evidence and the blank detector,
  the RTT gate, the bitrate and frame-rate controllers and the caps test.
\<close>

section \<open>Queue delay\<close>

definition RTT_MIN_WINDOW :: duration where "RTT_MIN_WINDOW = from_secs 30"
definition UDP_THROTTLE_FLOOR :: duration where "UDP_THROTTLE_FLOOR = from_millis 100"
definition ADAPTIVE_WARMUP :: duration where "ADAPTIVE_WARMUP = from_secs 2"
definition RTT_RING :: nat where "RTT_RING = 128"

definition queue_delay_fold :: "f64 \<Rightarrow> f64_inf \<Rightarrow> f64_inf \<Rightarrow> f64 \<times> f64" where
  "queue_delay_fold sample_ms bucket_min_ms prev_bucket_min_ms =
     (let cur = min_inf bucket_min_ms sample_ms;
          base = min_inf prev_bucket_min_ms cur
      in (cur, max (sample_ms - base) 0))"

definition effective_queue_delay :: "f64 \<Rightarrow> f64 \<Rightarrow> bool \<Rightarrow> bool \<Rightarrow> f64" where
  "effective_queue_delay queue_delay_ms since_ack_ms outstanding actively_shipping =
     (if outstanding \<and> actively_shipping then max queue_delay_ms since_ack_ms
      else queue_delay_ms)"

section \<open>Wire format and diagnostics\<close>

datatype wire_format = LengthPrefixed | AnnexB

definition wire_format_from_env :: "env \<Rightarrow> wire_format" where
  "wire_format_from_env e =
     (case e ''MACRDP_H264_LENGTH_PREFIXED'' of
        Some v \<Rightarrow> (if v = lit ''1'' \<or> to_ascii_lowercase v = lit ''true'' then LengthPrefixed
                   else AnnexB)
      | None \<Rightarrow> AnnexB)"

record diagnostic_window =
  dw_reports :: nat
  dw_last_log :: "instant option"

definition diagnostic_default :: diagnostic_window where
  "diagnostic_default = \<lparr>dw_reports = 0, dw_last_log = None\<rparr>"

definition diagnostic_record :: "diagnostic_window \<Rightarrow> instant \<Rightarrow> bool \<times> diagnostic_window" where
  "diagnostic_record w now =
     (let w' = w\<lparr>dw_reports := sat_add U64_MAX (dw_reports w) 1\<rparr>
      in if (case dw_last_log w' of
               None \<Rightarrow> True
             | Some t \<Rightarrow> from_secs 5 \<le> saturating_duration_since now t)
         then (True, w'\<lparr>dw_last_log := Some now\<rparr>)
         else (False, w'))"

section \<open>Recovery IDR and de-migration\<close>

record recovery_params =
  rp_active_window :: duration
  rp_ack_stall :: duration
  rp_min_recovery_interval :: duration

definition should_force_recovery_idr ::
  "duration \<Rightarrow> duration \<Rightarrow> duration \<Rightarrow> bool \<Rightarrow> bool \<Rightarrow> recovery_params \<Rightarrow> bool" where
  "should_force_recovery_idr since_ship since_ack since_recovery acks_suspended egfx_on_lossy p \<longleftrightarrow>
     egfx_on_lossy \<and> \<not> acks_suspended \<and> since_ship \<le> rp_active_window p
       \<and> rp_ack_stall p \<le> since_ack \<and> rp_min_recovery_interval p \<le> since_recovery"

definition should_demigrate_to_tcp ::
  "duration \<Rightarrow> duration \<Rightarrow> bool \<Rightarrow> bool \<Rightarrow> bool \<Rightarrow> bool \<Rightarrow> duration \<Rightarrow> duration \<Rightarrow> bool" where
  "should_demigrate_to_tcp since_ship since_ack acks_suspended egfx_on_udp egfx_on_lossy
     already_demigrated active_window wedge_timeout \<longleftrightarrow>
     egfx_on_udp \<and> \<not> egfx_on_lossy \<and> \<not> already_demigrated \<and> \<not> acks_suspended
       \<and> since_ship \<le> active_window \<and> wedge_timeout \<le> since_ack"

section \<open>Blank recovery\<close>

record blank_params =
  bp_min_qoe_reports :: nat
  bp_min_render_reports :: nat
  bp_established_render_reports :: nat
  bp_established_min_qoe :: nat
  bp_established_max_wait :: duration
  bp_established_wall_reports :: nat
  bp_arm_delay :: duration
  bp_retry_interval :: duration
  bp_heal_confirm_deadline :: duration
  bp_max_attempts :: nat
  bp_reactivate :: bool
  bp_blank_max_wait :: duration
  bp_blank_min_reports :: nat
  bp_max_consecutive_drops :: nat
  bp_max_rtt_ms :: nat

datatype blank_action = Remap | Drop | Reactivate

definition blank_action_for :: "nat \<Rightarrow> nat \<Rightarrow> blank_action" where
  "blank_action_for attempt max_attempts = (if attempt < max_attempts then Remap else Drop)"

definition blank_drop_capped :: "nat \<Rightarrow> nat \<Rightarrow> bool" where
  "blank_drop_capped consecutive_drops cap \<longleftrightarrow> 0 < cap \<and> cap \<le> consecutive_drops"

record qoe_evidence =
  zero_streak :: nat
  nonzero_streak :: nat
  max_nonzero_streak :: nat
  reports_since_reset :: nat
  zeros_since_reset :: nat
  nonzero_max_since_reset :: nat
  presented_clean :: bool

definition qoe_default :: qoe_evidence where
  "qoe_default = \<lparr>zero_streak = 0, nonzero_streak = 0, max_nonzero_streak = 0,
     reports_since_reset = 0, zeros_since_reset = 0, nonzero_max_since_reset = 0,
     presented_clean = False\<rparr>"

definition qoe_record :: "qoe_evidence \<Rightarrow> nat \<Rightarrow> qoe_evidence" where
  "qoe_record q time_diff_dr =
     (let q = q\<lparr>reports_since_reset := sat_add U64_MAX (reports_since_reset q) 1\<rparr>
      in if 0 < time_diff_dr then
           let q = q\<lparr>zero_streak := 0, nonzero_streak := sat_add U64_MAX (nonzero_streak q) 1\<rparr>
           in q\<lparr>max_nonzero_streak := max (max_nonzero_streak q) (nonzero_streak q),
                nonzero_max_since_reset := max (nonzero_max_since_reset q) (nonzero_streak q)\<rparr>
         else q\<lparr>nonzero_streak := 0,
                zero_streak := sat_add U64_MAX (zero_streak q) 1,
                zeros_since_reset := sat_add U64_MAX (zeros_since_reset q) 1\<rparr>)"

definition qoe_reset_streaks :: "qoe_evidence \<Rightarrow> qoe_evidence" where
  "qoe_reset_streaks q = q\<lparr>zero_streak := 0, nonzero_streak := 0, reports_since_reset := 0,
     zeros_since_reset := 0, nonzero_max_since_reset := 0\<rparr>"

definition qoe_established :: "qoe_evidence \<Rightarrow> nat \<Rightarrow> bool" where
  "qoe_established q established_render_reports \<longleftrightarrow>
     established_render_reports \<le> max_nonzero_streak q"

definition storm_guard_should_reset :: "qoe_evidence \<Rightarrow> nat \<Rightarrow> nat \<Rightarrow> bool" where
  "storm_guard_should_reset qoe established_render_reports current_drops \<longleftrightarrow>
     current_drops \<noteq> 0 \<and> qoe_established qoe established_render_reports"

definition should_blank_recover ::
  "qoe_evidence \<Rightarrow> bool \<Rightarrow> bool \<Rightarrow> duration \<Rightarrow> duration \<Rightarrow> duration \<Rightarrow> nat \<Rightarrow> bool \<Rightarrow>
   blank_params \<Rightarrow> bool" where
  "should_blank_recover qoe egfx_acks_seen acks_suspended since_connect since_last_nonzero
     since_last_attempt attempts acked_since_attempt p =
     (if presented_clean qoe then False
      else
        let presenting_now = bp_min_render_reports p \<le> nonzero_streak qoe;
            established = qoe_established qoe (bp_established_render_reports p);
            count_threshold =
              (if established then bp_established_min_qoe p else bp_min_qoe_reports p);
            established_blackout =
              (established \<and> bp_established_max_wait p \<le> since_last_nonzero
                \<and> bp_established_wall_reports p \<le> zero_streak qoe);
            post_attempt_unconfirmed =
              (1 \<le> attempts \<and> bp_heal_confirm_deadline p \<noteq> 0
                \<and> bp_heal_confirm_deadline p \<le> since_last_attempt
                \<and> acked_since_attempt
                \<and> nonzero_max_since_reset qoe < bp_min_render_reports p
                \<and> (reports_since_reset qoe = 0
                   \<or> bp_blank_min_reports p \<le> zeros_since_reset qoe));
            blank_evidence =
              (count_threshold \<le> zero_streak qoe \<or> established_blackout
                \<or> post_attempt_unconfirmed
                \<or> (bp_blank_max_wait p \<le> since_connect
                    \<and> bp_blank_min_reports p \<le> zero_streak qoe \<and> \<not> established))
        in blank_evidence \<and> \<not> presenting_now \<and> egfx_acks_seen \<and> \<not> acks_suspended
           \<and> bp_arm_delay p \<le> since_connect \<and> bp_retry_interval p \<le> since_last_attempt
           \<and> attempts < bp_max_attempts p)"

definition blank_rtt_gate :: "nat \<Rightarrow> nat \<Rightarrow> f64 option" where
  "blank_rtt_gate link_rtt_ms max_rtt_ms =
     (if max_rtt_ms = 0 \<or> link_rtt_ms = 0 then Some 1
      else if max_rtt_ms \<le> link_rtt_ms then None
      else Some (clamp (real link_rtt_ms / 25) 1 4))"

definition blank_params_scaled :: "blank_params \<Rightarrow> f64 \<Rightarrow> blank_params" where
  "blank_params_scaled p m = p\<lparr>
     bp_min_qoe_reports := min (nat \<lceil>real (bp_min_qoe_reports p) * m\<rceil>) U64_MAX,
     bp_established_min_qoe := min (nat \<lceil>real (bp_established_min_qoe p) * m\<rceil>) U64_MAX,
     bp_arm_delay := duration_mul_f64 (bp_arm_delay p) m,
     bp_blank_max_wait := duration_mul_f64 (bp_blank_max_wait p) m,
     bp_established_max_wait := duration_mul_f64 (bp_established_max_wait p) m,
     bp_heal_confirm_deadline := duration_mul_f64 (bp_heal_confirm_deadline p) m\<rparr>"

section \<open>Bitrate and frame rate\<close>

definition seeded_initial_bitrate :: "nat \<Rightarrow> nat \<Rightarrow> nat \<Rightarrow> nat \<Rightarrow> nat" where
  "seeded_initial_bitrate ceil flr link_rtt_ms seed_rtt_ms =
     (if seed_rtt_ms = 0 \<or> link_rtt_ms = 0 \<or> link_rtt_ms < seed_rtt_ms then ceil
      else clamp (ceil div 3) (min flr ceil) (max ceil 1))"

datatype idr_backoff = Stretch | Restore | Hold

definition idr_backoff_decision :: "bool \<Rightarrow> nat \<Rightarrow> nat \<Rightarrow> bool \<Rightarrow> idr_backoff" where
  "idr_backoff_decision loss new_target ceil backed_off =
     (if loss \<and> \<not> backed_off then Stretch
      else if \<not> loss \<and> ceil \<le> new_target \<and> backed_off then Restore
      else Hold)"

definition retransmit_is_lossy :: "nat \<Rightarrow> nat \<Rightarrow> bool" where
  "retransmit_is_lossy retransmit_delta tolerance \<longleftrightarrow> tolerance < retransmit_delta"

definition congested_hysteresis :: "f64 \<Rightarrow> f64 \<Rightarrow> f64 \<Rightarrow> bool \<Rightarrow> bool \<Rightarrow> bool \<Rightarrow> bool" where
  "congested_hysteresis ewma_lag high low retransmit_lossy acks_usable currently_congested =
     (if retransmit_lossy then True
      else if \<not> acks_usable then False
      else if currently_congested then low < ewma_lag
      else high < ewma_lag)"

datatype fps_stage = Configured nat

primrec stage_fps :: "fps_stage \<Rightarrow> nat" where
  "stage_fps (Configured fps) = max fps 1"

text \<open>\<open>Duration::from_secs_f64(1.0 / fps)\<close>: one second divided by the rate, to the nearest
  nanosecond.\<close>

definition stage_interval :: "fps_stage \<Rightarrow> duration" where
  "stage_interval s = (2 * NANOS + stage_fps s) div (2 * stage_fps s)"

definition fps_stage_should_drop :: "fps_stage \<Rightarrow> duration \<Rightarrow> bool" where
  "fps_stage_should_drop stage since_last_admitted \<longleftrightarrow> since_last_admitted < stage_interval stage"

definition pid_integral_step :: "f64 \<Rightarrow> f64 \<Rightarrow> f64 \<Rightarrow> f64 \<Rightarrow> f64" where
  "pid_integral_step integral error_ms dt_seconds limit =
     clamp (integral + error_ms * dt_seconds) (- limit) limit"

definition pid_delta :: "f64 \<Rightarrow> f64 \<Rightarrow> f64 \<Rightarrow> f64 \<Rightarrow> f64 \<Rightarrow> f64 \<Rightarrow> f64 \<Rightarrow> f64" where
  "pid_delta error_ms previous_error_ms integral dt_seconds kp ki kd =
     (let derivative =
            (if 0 < dt_seconds then (error_ms - previous_error_ms) / dt_seconds else 0)
      in kp * error_ms + ki * integral + kd * derivative)"

text \<open>The pair is (run the bitrate controller, run the frame-rate controller).\<close>

definition rate_pid_actuators :: "f64 \<Rightarrow> f64 \<Rightarrow> nat \<Rightarrow> nat \<Rightarrow> nat \<Rightarrow> f64 \<Rightarrow> bool \<times> bool" where
  "rate_pid_actuators queue_error_ms fps fps_floor bitrate_bps bitrate_ceiling_bps deadband_ms =
     (if \<bar>queue_error_ms\<bar> \<le> max deadband_ms 0 then (False, False)
      else if 0 < queue_error_ms then
        (if real fps_floor < fps then (False, True) else (True, False))
      else if bitrate_bps < bitrate_ceiling_bps then (True, False)
      else if fps < 60 then (False, True)
      else (False, False))"

definition clamp_pid_fps :: "f64 \<Rightarrow> nat \<Rightarrow> nat \<Rightarrow> nat" where
  "clamp_pid_fps value min_fps max_fps =
     nat (clamp (f64_round value) (int (max min_fps 1)) (int (max max_fps (max min_fps 1))))"

definition pid_bitrate_step ::
  "nat \<Rightarrow> nat \<Rightarrow> nat \<Rightarrow> f64 \<Rightarrow> f64 \<Rightarrow> f64 \<Rightarrow> f64 \<Rightarrow> f64 \<Rightarrow> f64 \<Rightarrow> f64 \<Rightarrow> nat \<times> f64 \<times> f64" where
  "pid_bitrate_step current maxb minb error_ms dt_s kp ki kd integral previous_error =
     (let error = clamp error_ms (- 500) 500;
          candidate_integral = pid_integral_step integral error dt_s 2000;
          control_mbps = pid_delta error previous_error candidate_integral dt_s kp ki kd;
          low = max minb 1;
          high = max maxb low;
          next = nat (clamp (f64_round (real current + control_mbps * 1000000))
                        (int low) (int high));
          outward_saturation = (next = high \<and> error < 0 \<or> next = low \<and> 0 < error)
      in (next, if outward_saturation then integral else candidate_integral, error))"

section \<open>Client capabilities\<close>

text \<open>
  The typed capability sets of the graphics channel; the flag words as the two bits the code
  tests: \<open>AVC420_ENABLED\<close> of version 8.1, \<open>AVC_DISABLED\<close> of the later versions.
\<close>

datatype capability_set =
    V8 | V8_1 (avc420_enabled: bool)
  | V10 (avc_disabled10: bool) | V10_1 | V10_2 (avc_disabled102: bool)
  | V10_3 (avc_disabled103: bool) | V10_4 (avc_disabled104: bool)
  | V10_5 (avc_disabled105: bool) | V10_6 (avc_disabled106: bool)
  | V10_6Err (avc_disabled106e: bool) | V10_7 (avc_disabled107: bool)

fun cap_positive :: "capability_set \<Rightarrow> bool" where
  "cap_positive (V8_1 enabled) = enabled"
| "cap_positive (V10 disabled) = (\<not> disabled)"
| "cap_positive (V10_2 disabled) = (\<not> disabled)"
| "cap_positive (V10_3 disabled) = (\<not> disabled)"
| "cap_positive (V10_4 disabled) = (\<not> disabled)"
| "cap_positive (V10_5 disabled) = (\<not> disabled)"
| "cap_positive (V10_6 disabled) = (\<not> disabled)"
| "cap_positive (V10_6Err disabled) = (\<not> disabled)"
| "cap_positive (V10_7 disabled) = (\<not> disabled)"
| "cap_positive V8 = False"
| "cap_positive V10_1 = False"

definition caps_indicate_avc :: "capability_set list \<Rightarrow> bool" where
  "caps_indicate_avc caps \<longleftrightarrow> list_ex cap_positive caps"

end
