(* ===== verification/Egfx_Config.thy ===== *)
theory Egfx_Config
  imports Egfx_Policy
begin

text \<open>
  The configuration of the EGFX pipeline: the constants of a \<open>Gfx\<close> that \<open>Gfx::new\<close> reads from its
  arguments and the environment (\<open>src/src/h264.rs\<close>), with the environment toggle of
  \<open>src/src/multitransport.rs\<close>.
\<close>

section \<open>Reading the environment\<close>

definition env_truthy :: "env \<Rightarrow> string \<Rightarrow> bool" where
  "env_truthy e name =
     (case e name of
        Some v \<Rightarrow> to_ascii_lowercase (trim v)
          \<notin> set (map lit ['''', ''0'', ''false'', ''no'', ''off''])
      | None \<Rightarrow> False)"

definition opt_filter :: "('a \<Rightarrow> bool) \<Rightarrow> 'a option \<Rightarrow> 'a option" where
  "opt_filter P x = Option.bind x (\<lambda>v. if P v then Some v else None)"

definition env_parse :: "(ustr \<Rightarrow> 'a option) \<Rightarrow> env \<Rightarrow> string \<Rightarrow> 'a option" where
  "env_parse parse e name = Option.bind (e name) (\<lambda>s. parse (trim s))"

definition or_default :: "'a \<Rightarrow> 'a option \<Rightarrow> 'a" where
  "or_default d x = (case x of Some v \<Rightarrow> v | None \<Rightarrow> d)"

definition env_u32 :: "env \<Rightarrow> string \<Rightarrow> nat \<Rightarrow> nat" where
  "env_u32 e name d = or_default d (opt_filter (\<lambda>n. 0 < n) (env_parse (parse_uint U32_MAX) e name))"

definition env_u32_zero_ok :: "env \<Rightarrow> string \<Rightarrow> nat \<Rightarrow> nat" where
  "env_u32_zero_ok e name d = or_default d (env_parse (parse_uint U32_MAX) e name)"

definition env_ms :: "env \<Rightarrow> string \<Rightarrow> nat \<Rightarrow> duration" where
  "env_ms e name d = from_millis (or_default d (env_parse (parse_uint U64_MAX) e name))"

definition watchdog_ms :: "env \<Rightarrow> string \<Rightarrow> nat \<Rightarrow> duration" where
  "watchdog_ms e name d =
     from_millis (or_default d (opt_filter (\<lambda>n. 0 < n) (env_parse (parse_uint U64_MAX) e name)))"

text \<open>On unless the variable spells zero or false.\<close>

definition env_default_on :: "env \<Rightarrow> string \<Rightarrow> bool" where
  "env_default_on e name =
     (case e name of
        Some v \<Rightarrow> \<not> (v = lit ''0'' \<or> to_ascii_lowercase v = lit ''false'')
      | None \<Rightarrow> True)"

text \<open>The gains are parsed without trimming.\<close>

definition env_gain :: "env \<Rightarrow> string \<Rightarrow> f64 \<Rightarrow> f64" where
  "env_gain e name d = or_default d (opt_filter (\<lambda>v. 0 \<le> v) (Option.bind (e name) parse_f64))"

definition env_positive :: "env \<Rightarrow> string \<Rightarrow> f64 \<Rightarrow> f64" where
  "env_positive e name d = or_default d (opt_filter (\<lambda>v. 0 < v) (env_parse parse_f64 e name))"

definition recovery_config_from_env :: "env \<Rightarrow> bool \<times> recovery_params" where
  "recovery_config_from_env e =
     (env_truthy e ''MACRDP_UDP_EGFX_ACK_RECOVERY'',
      \<lparr>rp_active_window = env_ms e ''MACRDP_UDP_EGFX_ACK_ACTIVE_MS'' 500,
       rp_ack_stall = env_ms e ''MACRDP_UDP_EGFX_ACK_STALL_MS'' 200,
       rp_min_recovery_interval = env_ms e ''MACRDP_UDP_EGFX_ACK_RECOVERY_MS'' 1000\<rparr>)"

section \<open>The configuration\<close>

record gfx_config =
  cfg_fps :: nat
  cfg_bitrate_bps :: nat
  cfg_keyframe_secs :: f64
  cfg_max_in_flight :: nat
  cfg_wire_format :: wire_format
  cfg_recovery_enabled :: bool
  cfg_recovery_params :: recovery_params
  cfg_max_frame_lag :: nat
  cfg_watchdog_enabled :: bool
  cfg_watchdog_wedge_timeout :: duration
  cfg_watchdog_active_window :: duration
  cfg_adaptive_enabled :: bool
  cfg_adaptive_floor_bps :: nat
  cfg_adaptive_interval :: duration
  cfg_keyboard_idr_interval :: duration
  cfg_keyboard_idr_min_spacing :: duration
  cfg_keyboard_idr_stillness :: duration
  cfg_keyboard_idr_max_per_second :: nat
  cfg_queue_high_ms :: f64
  cfg_queue_target_ms :: f64
  cfg_pid_kp :: f64
  cfg_pid_ki :: f64
  cfg_pid_kd :: f64
  cfg_pid_min_fps :: nat
  cfg_pid_fps_kp :: f64
  cfg_pid_fps_ki :: f64
  cfg_pid_fps_kd :: f64
  cfg_pid_fps_deadband_ms :: f64
  cfg_ewma_alpha :: f64
  cfg_retx_tolerance :: nat
  cfg_normal_keyframe_frames :: nat
  cfg_stretched_keyframe_frames :: nat
  cfg_blank_recovery_enabled :: bool
  cfg_blank_params :: blank_params
  cfg_event_queue_high :: nat
  cfg_seed_rtt_ms :: nat

text \<open>The arguments of the constructor that are plain values.\<close>

record gfx_args =
  arg_fps :: nat
  arg_bitrate_bps :: nat
  arg_keyframe_secs :: f64
  arg_max_in_flight :: nat
  arg_adaptive_bitrate :: bool

definition adaptive_floor :: "env \<Rightarrow> nat \<Rightarrow> nat" where
  "adaptive_floor e bitrate_bps =
     min (env_u32 e ''MACRDP_UDP_ADAPTIVE_FLOOR_BPS'' (max (bitrate_bps div 8) 500000))
       (max bitrate_bps 1)"

definition normal_keyframes :: "nat \<Rightarrow> f64 \<Rightarrow> nat" where
  "normal_keyframes fps keyframe_secs =
     min (nat (max (f64_round (real fps * keyframe_secs)) 1)) U32_MAX"

definition stretched_keyframes :: "nat \<Rightarrow> nat \<Rightarrow> nat" where
  "stretched_keyframes fps normal = max (min (fps * 600) U32_MAX) ((normal + 1) mod 2 ^ 32)"

definition blank_reactivate_from_env :: "env \<Rightarrow> bool" where
  "blank_reactivate_from_env e =
     (case e ''MACRDP_BLANK_RECOVERY_REACTIVATE'' of
        Some s \<Rightarrow> trim s \<notin> set (map lit [''0'', ''false'', ''off'', ''no''])
      | None \<Rightarrow> True)"

definition blank_params_from_env :: "env \<Rightarrow> blank_params" where
  "blank_params_from_env e =
     (let reactivate = blank_reactivate_from_env e in
      \<lparr>bp_min_qoe_reports = env_u32 e ''MACRDP_BLANK_RECOVERY_MIN_QOE'' 24,
       bp_min_render_reports = env_u32 e ''MACRDP_BLANK_RECOVERY_MIN_RENDER_REPORTS'' 3,
       bp_established_render_reports = env_u32 e ''MACRDP_BLANK_RECOVERY_ESTABLISHED_REPORTS'' 40,
       bp_established_min_qoe = env_u32 e ''MACRDP_BLANK_RECOVERY_ESTABLISHED_MIN_QOE'' 160,
       bp_established_max_wait =
         watchdog_ms e ''MACRDP_BLANK_RECOVERY_ESTABLISHED_MAX_WAIT_MS'' 30000,
       bp_established_wall_reports =
         env_u32 e ''MACRDP_BLANK_RECOVERY_ESTABLISHED_WALL_REPORTS'' 16,
       bp_arm_delay = watchdog_ms e ''MACRDP_BLANK_RECOVERY_ARM_MS'' 3000,
       bp_retry_interval = watchdog_ms e ''MACRDP_BLANK_RECOVERY_RETRY_MS'' 4000,
       bp_heal_confirm_deadline =
         from_millis (env_u32_zero_ok e ''MACRDP_BLANK_RECOVERY_HEAL_CONFIRM_MS'' 8000),
       bp_max_attempts =
         (if reactivate then max (env_u32 e ''MACRDP_BLANK_RECOVERY_MAX_ATTEMPTS'' 1) 2
          else env_u32 e ''MACRDP_BLANK_RECOVERY_MAX_ATTEMPTS'' 1),
       bp_reactivate = reactivate,
       bp_blank_max_wait = watchdog_ms e ''MACRDP_BLANK_RECOVERY_MAX_WAIT_MS'' 4000,
       bp_blank_min_reports = env_u32 e ''MACRDP_BLANK_RECOVERY_MIN_WALL_REPORTS'' 1,
       bp_max_consecutive_drops = env_u32 e ''MACRDP_BLANK_RECOVERY_MAX_CONSECUTIVE_DROPS'' 3,
       bp_max_rtt_ms = env_u32_zero_ok e ''MACRDP_BLANK_RECOVERY_MAX_RTT_MS'' 80\<rparr>)"

definition gfx_new :: "env \<Rightarrow> gfx_args \<Rightarrow> gfx_config" where
  "gfx_new e a =
     (let fps = arg_fps a; bitrate = arg_bitrate_bps a;
          normal = normal_keyframes fps (arg_keyframe_secs a)
      in
      \<lparr>cfg_fps = fps, cfg_bitrate_bps = bitrate, cfg_keyframe_secs = arg_keyframe_secs a,
       cfg_max_in_flight = arg_max_in_flight a,
       cfg_wire_format = wire_format_from_env e,
       cfg_recovery_enabled = fst (recovery_config_from_env e),
       cfg_recovery_params = snd (recovery_config_from_env e),
       cfg_max_frame_lag =
         or_default 16 (opt_filter (\<lambda>n. 0 < n)
           (env_parse (parse_uint U64_MAX) e ''MACRDP_UDP_EGFX_MAX_FRAME_LAG'')),
       cfg_watchdog_enabled = env_default_on e ''MACRDP_UDP_EGFX_WATCHDOG'',
       cfg_watchdog_wedge_timeout = watchdog_ms e ''MACRDP_UDP_EGFX_WATCHDOG_MS'' 3000,
       cfg_watchdog_active_window = watchdog_ms e ''MACRDP_UDP_EGFX_WATCHDOG_ACTIVE_MS'' 1000,
       cfg_adaptive_enabled =
         (arg_adaptive_bitrate a \<or> env_truthy e ''MACRDP_UDP_ADAPTIVE_BITRATE''),
       cfg_adaptive_floor_bps = adaptive_floor e bitrate,
       cfg_adaptive_interval = watchdog_ms e ''MACRDP_UDP_ADAPTIVE_INTERVAL_MS'' 200,
       cfg_keyboard_idr_interval =
         from_millis (env_u32 e ''MACRDP_KEYBOARD_IDR_INTERVAL_MS'' 200),
       cfg_keyboard_idr_min_spacing =
         from_millis (env_u32 e ''MACRDP_KEYBOARD_IDR_MIN_SPACING_MS'' 500),
       cfg_keyboard_idr_stillness =
         from_millis (env_u32 e ''MACRDP_KEYBOARD_IDR_STILLNESS_MS'' 50),
       cfg_keyboard_idr_max_per_second = env_u32 e ''MACRDP_KEYBOARD_IDR_MAX_PER_SECOND'' 2,
       cfg_queue_high_ms = env_positive e ''MACRDP_ADAPTIVE_QUEUE_HIGH_MS'' 100,
       cfg_queue_target_ms = env_positive e ''MACRDP_ADAPTIVE_QUEUE_TARGET_MS'' 50,
       cfg_pid_kp = env_gain e ''MACRDP_ADAPTIVE_PID_KP'' (1 / 1000),
       cfg_pid_ki = env_gain e ''MACRDP_ADAPTIVE_PID_KI'' (1 / 20000),
       cfg_pid_kd = env_gain e ''MACRDP_ADAPTIVE_PID_KD'' 0,
       cfg_pid_min_fps = clamp (env_u32 e ''MACRDP_ADAPTIVE_MIN_FPS'' 30) 30 (max fps 30),
       cfg_pid_fps_kp = env_gain e ''MACRDP_ADAPTIVE_FPS_PID_KP'' (1 / 2),
       cfg_pid_fps_ki = env_gain e ''MACRDP_ADAPTIVE_FPS_PID_KI'' (1 / 50),
       cfg_pid_fps_kd = env_gain e ''MACRDP_ADAPTIVE_FPS_PID_KD'' 0,
       cfg_pid_fps_deadband_ms = env_gain e ''MACRDP_ADAPTIVE_FPS_PID_DEADBAND_MS'' 5,
       cfg_ewma_alpha =
         or_default (3 / 10) (opt_filter (\<lambda>v. 0 < v \<and> v \<le> 1)
           (env_parse parse_f64 e ''MACRDP_ADAPTIVE_EWMA_ALPHA'')),
       cfg_retx_tolerance =
         or_default 2 (env_parse (parse_uint U64_MAX) e ''MACRDP_UDP_ADAPTIVE_RETX_TOLERANCE''),
       cfg_normal_keyframe_frames = normal,
       cfg_stretched_keyframe_frames = stretched_keyframes fps normal,
       cfg_blank_recovery_enabled = env_default_on e ''MACRDP_BLANK_RECOVERY'',
       cfg_blank_params = blank_params_from_env e,
       cfg_event_queue_high =
         or_default 512 (opt_filter (\<lambda>n. 0 < n)
           (env_parse (parse_uint U32_MAX) e ''MACRDP_EVENT_QUEUE_HIGH'')),
       cfg_seed_rtt_ms = env_u32_zero_ok e ''MACRDP_ADAPTIVE_SEED_RTT_MS'' 50\<rparr>)"

section \<open>What every configuration satisfies\<close>

definition config_ok :: "gfx_config \<Rightarrow> bool" where
  "config_ok c \<longleftrightarrow>
     0 < cfg_adaptive_floor_bps c \<and> cfg_adaptive_floor_bps c \<le> max (cfg_bitrate_bps c) 1
     \<and> 30 \<le> cfg_pid_min_fps c \<and> cfg_pid_min_fps c \<le> max (cfg_fps c) 30
     \<and> 0 < cfg_ewma_alpha c \<and> cfg_ewma_alpha c \<le> 1
     \<and> 0 < cfg_queue_high_ms c \<and> 0 < cfg_queue_target_ms c
     \<and> 0 \<le> cfg_pid_kp c \<and> 0 \<le> cfg_pid_ki c \<and> 0 \<le> cfg_pid_kd c
     \<and> 0 \<le> cfg_pid_fps_kp c \<and> 0 \<le> cfg_pid_fps_ki c \<and> 0 \<le> cfg_pid_fps_kd c
     \<and> 0 < cfg_normal_keyframe_frames c
     \<and> (bp_reactivate (cfg_blank_params c) \<longrightarrow> 2 \<le> bp_max_attempts (cfg_blank_params c))
     \<and> 0 < bp_max_attempts (cfg_blank_params c) \<and> 0 < bp_min_qoe_reports (cfg_blank_params c)
     \<and> 0 < bp_min_render_reports (cfg_blank_params c)
     \<and> 0 < bp_max_consecutive_drops (cfg_blank_params c)"

lemma or_default_filter:
  "P d \<Longrightarrow> P (or_default d (opt_filter P x))"
  by (cases x) (auto simp: or_default_def opt_filter_def)

lemma env_u32_pos: "0 < d \<Longrightarrow> 0 < env_u32 e name d"
  unfolding env_u32_def by (rule or_default_filter)

lemma env_gain_nonneg: "0 \<le> d \<Longrightarrow> 0 \<le> env_gain e name d"
  unfolding env_gain_def by (rule or_default_filter)

lemma env_positive_pos: "0 < d \<Longrightarrow> 0 < env_positive e name d"
  unfolding env_positive_def by (rule or_default_filter)

lemma adaptive_floor_bounds: "0 < adaptive_floor e b \<and> adaptive_floor e b \<le> max b 1"
  by (simp add: adaptive_floor_def env_u32_pos)

lemma gfx_new_ok: "config_ok (gfx_new e a)"
proof -
  have alpha: "0 < or_default (3 / 10) (opt_filter (\<lambda>v. 0 < v \<and> v \<le> 1) x)
      \<and> or_default (3 / 10) (opt_filter (\<lambda>v. 0 < v \<and> v \<le> (1 :: real)) x) \<le> 1" for x
    using or_default_filter [of "\<lambda>v. 0 < v \<and> v \<le> (1 :: real)" "3 / 10" x] by simp
  have fps: "30 \<le> clamp n 30 (max m 30) \<and> clamp n 30 (max m 30) \<le> max m 30" for n m :: nat
    by (rule clamp_bounds) simp
  show ?thesis
    unfolding config_ok_def gfx_new_def Let_def gfx_config.simps blank_params_from_env_def
      blank_params.simps
    using alpha fps adaptive_floor_bounds
    by (auto simp: env_u32_pos env_gain_nonneg env_positive_pos normal_keyframes_def)
qed

end
