(* ===== verification/Bytes.thy ===== *)
theory Bytes
  imports Rust_Std
begin

text \<open>
  Byte strings and the fixed-width integers of the wire formats, in both byte orders, and the
  interface of a codec: a decoder that takes back what the encoder wrote and leaves the rest of
  the input. The client of the interface gets the decoding of streams and the unambiguity of the
  encoding from these laws.
\<close>

type_synonym u8 = "8 word"
type_synonym bytes = "u8 list"

section \<open>Integers as bytes\<close>

primrec le_bytes :: "nat \<Rightarrow> nat \<Rightarrow> bytes" where
  "le_bytes 0 n = []"
| "le_bytes (Suc k) n = of_nat n # le_bytes k (n div 256)"

primrec le_value :: "bytes \<Rightarrow> nat" where
  "le_value [] = 0"
| "le_value (b # bs) = unat b + 256 * le_value bs"

definition be_bytes :: "nat \<Rightarrow> nat \<Rightarrow> bytes" where "be_bytes k n = rev (le_bytes k n)"

definition be_value :: "bytes \<Rightarrow> nat" where "be_value bs = le_value (rev bs)"

lemma unat_u8_less: "unat (b :: u8) < 256"
proof -
  have "unat b < 2 ^ LENGTH(8)" by (rule unsigned_less)
  then show ?thesis by simp
qed

lemma length_le_bytes [simp]: "length (le_bytes k n) = k"
  by (induction k arbitrary: n) auto

lemma length_be_bytes [simp]: "length (be_bytes k n) = k"
  by (simp add: be_bytes_def)

lemma le_value_le_bytes: "le_value (le_bytes k n) = n mod 256 ^ k"
proof (induction k arbitrary: n)
  case 0
  then show ?case by simp
next
  case (Suc k)
  have "unat (of_nat n :: u8) = n mod 256" by (simp add: unat_of_nat)
  then show ?case by (simp add: Suc mod_mult2_eq)
qed

lemma be_value_be_bytes: "be_value (be_bytes k n) = n mod 256 ^ k"
  by (simp add: be_value_def be_bytes_def le_value_le_bytes)

lemma le_value_bound: "le_value bs < 256 ^ length bs"
proof (induction bs)
  case Nil
  then show ?case by simp
next
  case (Cons b bs)
  have "unat b < 256" by (rule unat_u8_less)
  with Cons show ?case by simp
qed

lemma be_value_bound: "be_value bs < 256 ^ length bs"
  using le_value_bound [of "rev bs"] by (simp add: be_value_def)

lemma le_bytes_le_value: "le_bytes (length bs) (le_value bs) = bs"
proof (induction bs)
  case Nil
  then show ?case by simp
next
  case (Cons b bs)
  have b: "unat b < 256" by (rule unat_u8_less)
  have "of_nat (unat b + 256 * le_value bs) = b"
  proof -
    have "(of_nat (unat b + 256 * le_value bs) :: u8) = of_nat (unat b) + of_nat 256 * of_nat (le_value bs)"
      by simp
    also have "(of_nat 256 :: u8) = 0" by simp
    finally show ?thesis by simp
  qed
  with b Cons show ?case by simp
qed

lemma be_bytes_be_value: "be_bytes (length bs) (be_value bs) = bs"
  using le_bytes_le_value [of "rev bs"] by (simp add: be_bytes_def be_value_def)

text \<open>The cursor reads of the wire formats: \<open>None\<close> when the input is too short.\<close>

definition take_bytes :: "nat \<Rightarrow> bytes \<Rightarrow> (bytes \<times> bytes) option" where
  "take_bytes k bs = (if k \<le> length bs then Some (take k bs, drop k bs) else None)"

definition read_be :: "nat \<Rightarrow> bytes \<Rightarrow> (nat \<times> bytes) option" where
  "read_be k bs = map_option (map_prod be_value id) (take_bytes k bs)"

definition read_le :: "nat \<Rightarrow> bytes \<Rightarrow> (nat \<times> bytes) option" where
  "read_le k bs = map_option (map_prod le_value id) (take_bytes k bs)"

lemma take_bytes_append [simp]: "length xs = k \<Longrightarrow> take_bytes k (xs @ rest) = Some (xs, rest)"
  by (auto simp: take_bytes_def)

lemma take_bytes_Some_iff:
  "take_bytes k bs = Some (xs, ys) \<longleftrightarrow> bs = xs @ ys \<and> length xs = k"
  by (auto simp: take_bytes_def split: if_splits)

lemma read_be_append [codec_simps]:
  "n < 256 ^ k \<Longrightarrow> read_be k (be_bytes k n @ rest) = Some (n, rest)"
  by (simp add: read_be_def be_value_be_bytes)

lemma read_le_append [codec_simps]:
  "n < 256 ^ k \<Longrightarrow> read_le k (le_bytes k n @ rest) = Some (n, rest)"
  by (simp add: read_le_def le_value_le_bytes)

lemma read_be_Some:
  "read_be k bs = Some (n, rest) \<longleftrightarrow> bs = be_bytes k n @ rest \<and> n < 256 ^ k"
  (is "?l \<longleftrightarrow> ?r")
proof
  assume ?l
  then obtain xs where "bs = xs @ rest" "length xs = k" "n = be_value xs"
    by (auto simp: read_be_def take_bytes_Some_iff)
  then show ?r using be_bytes_be_value [of xs] be_value_bound [of xs] by auto
qed (simp add: read_be_append)

lemma read_le_Some:
  "read_le k bs = Some (n, rest) \<longleftrightarrow> bs = le_bytes k n @ rest \<and> n < 256 ^ k"
  (is "?l \<longleftrightarrow> ?r")
proof
  assume ?l
  then obtain xs where "bs = xs @ rest" "length xs = k" "n = le_value xs"
    by (auto simp: read_le_def take_bytes_Some_iff)
  then show ?r using le_bytes_le_value [of xs] le_value_bound [of xs] by auto
qed (simp add: read_le_append)

section \<open>The interface of a codec\<close>

primrec decode_n :: "(bytes \<Rightarrow> ('a \<times> bytes) option) \<Rightarrow> nat \<Rightarrow> bytes \<Rightarrow> ('a list \<times> bytes) option"
where
  "decode_n dec 0 bs = Some ([], bs)"
| "decode_n dec (Suc n) bs =
     Option.bind (dec bs) (\<lambda>(x, rest).
       Option.bind (decode_n dec n rest) (\<lambda>(xs, rest'). Some (x # xs, rest')))"

locale wire_codec =
  fixes enc :: "'a \<Rightarrow> bytes"
    and dec :: "bytes \<Rightarrow> ('a \<times> bytes) option"
    and ok :: "'a \<Rightarrow> bool"
  assumes dec_enc: "ok x \<Longrightarrow> dec (enc x @ rest) = Some (x, rest)"
begin

lemma dec_enc_all: "ok x \<Longrightarrow> dec (enc x) = Some (x, [])"
  using dec_enc [of x "[]"] by simp

lemma enc_unambiguous:
  "ok x \<Longrightarrow> ok y \<Longrightarrow> enc x @ r = enc y @ s \<Longrightarrow> x = y \<and> r = s"
  by (metis dec_enc option.inject prod.inject)

lemma decode_stream:
  "\<forall>x \<in> set xs. ok x \<Longrightarrow>
     decode_n dec (length xs) (concat (map enc xs) @ rest) = Some (xs, rest)"
  by (induction xs) (auto simp: dec_enc)

end

text \<open>A codec whose encoder announces its size, as the \<open>Encode\<close> trait does.\<close>

locale sized_codec = wire_codec +
  fixes size_of :: "'a \<Rightarrow> nat"
  assumes length_enc: "ok x \<Longrightarrow> length (enc x) = size_of x"
begin

lemma stream_length:
  "\<forall>x \<in> set xs. ok x \<Longrightarrow> length (concat (map enc xs)) = sum_list (map size_of xs)"
  by (induction xs) (auto simp: length_enc)

end

interpretation u16_be: sized_codec "be_bytes 2" "read_be 2" "\<lambda>n. n < 2 ^ 16" "\<lambda>_. 2"
  by unfold_locales (auto simp: read_be_append)

interpretation u32_be: sized_codec "be_bytes 4" "read_be 4" "\<lambda>n. n < 2 ^ 32" "\<lambda>_. 4"
  by unfold_locales (auto simp: read_be_append)

interpretation u32_le: sized_codec "le_bytes 4" "read_le 4" "\<lambda>n. n < 2 ^ 32" "\<lambda>_. 4"
  by unfold_locales (auto simp: read_le_append)

end
