(* ===== verification/Annex_B.thy ===== *)
theory Annex_B
  imports Bytes
begin

text \<open>
  The two H.264 framings: \<open>avcc_to_annex_b\<close>, which the server applies to the encoder's output
  (\<open>src/src/h264.rs\<close>), and the Annex-B splitter with the decoder front end of the redirected
  camera (\<open>src/src/camera/decode.rs\<close>), which goes the other way. The VideoToolbox calls of the
  decoder are inputs.
\<close>

section \<open>Length-prefixed to Annex B\<close>

definition START_CODE :: bytes where "START_CODE = [0, 0, 0, 1]"

text \<open>The loop body; the argument is the input from the offset \<open>i\<close> on.\<close>

function avcc_loop :: "bytes \<Rightarrow> bytes" where
  "avcc_loop avcc =
     (if 4 \<le> length avcc then
        let nal_len = be_value (take 4 avcc); rest = drop 4 avcc
        in if length rest < nal_len then []
           else START_CODE @ take nal_len rest @ avcc_loop (drop nal_len rest)
      else [])"
  by pat_completeness auto
termination by (relation "measure length") auto

declare avcc_loop.simps [simp del]

definition avcc_to_annex_b :: "bytes \<Rightarrow> bytes list \<Rightarrow> bool \<Rightarrow> bytes" where
  "avcc_to_annex_b avcc parameter_sets is_keyframe =
     (if is_keyframe then concat (map (\<lambda>ps. START_CODE @ ps) parameter_sets) else [])
     @ avcc_loop avcc"

text \<open>A length-prefixed unit, as the encoder emits it; the prefix is the low 32 bits.\<close>

definition avcc_unit :: "bytes \<Rightarrow> bytes" where
  "avcc_unit nal = be_bytes 4 (length nal) @ nal"

section \<open>Splitting Annex B\<close>

function next_start_code :: "bytes \<Rightarrow> nat \<Rightarrow> (nat \<times> nat) option" where
  "next_start_code b i =
     (if i + 3 \<le> length b then
        if b ! i = 0 \<and> b ! (i + 1) = 0 then
          if b ! (i + 2) = 1 then Some (i, 3)
          else if i + 4 \<le> length b \<and> b ! (i + 2) = 0 \<and> b ! (i + 3) = 1 then Some (i, 4)
          else next_start_code b (i + 1)
        else next_start_code b (i + 1)
      else None)"
  by pat_completeness auto
termination by (relation "measure (\<lambda>(b, i). length b - i)") auto

declare next_start_code.simps [simp del]

lemma next_start_code_range:
  "next_start_code b i = Some (p, l) \<Longrightarrow> i \<le> p \<and> p + l \<le> length b \<and> 3 \<le> l"
  by (induction b i rule: next_start_code.induct)
    (subst (asm) (2) next_start_code.simps, auto split: if_splits)

definition nals_next :: "bytes \<Rightarrow> nat \<Rightarrow> (bytes \<times> nat) option" where
  "nals_next buf pos =
     Option.bind (next_start_code buf pos) (\<lambda>(sc_pos, sc_len).
       let nal_start = sc_pos + sc_len;
           nal_end = (case next_start_code buf nal_start of Some (n, _) \<Rightarrow> n
                      | None \<Rightarrow> length buf)
       in Some (take (nal_end - nal_start) (drop nal_start buf), nal_end))"

lemma nals_next_progress:
  "nals_next buf pos = Some (nal, pos') \<Longrightarrow> pos < pos' \<and> pos' \<le> length buf"
  by (auto simp: nals_next_def Let_def split: bind_splits option.splits prod.splits
      dest!: next_start_code_range)

text \<open>The \<open>for\<close> loop over the iterator: every item until \<open>next\<close> returns \<open>None\<close>.\<close>

function annexb_nals_from :: "bytes \<Rightarrow> nat \<Rightarrow> bytes list" where
  "annexb_nals_from buf pos =
     (case nals_next buf pos of
        None \<Rightarrow> []
      | Some (nal, pos') \<Rightarrow> nal # annexb_nals_from buf pos')"
  by pat_completeness auto
termination
proof (relation "measure (\<lambda>(buf, pos). length buf - pos)", goal_cases)
  case 1
  show ?case by simp
next
  case (2 buf pos p nal pos')
  then show ?case using nals_next_progress [of buf pos nal pos'] by auto
qed

declare annexb_nals_from.simps [simp del]

definition annexb_nals :: "bytes \<Rightarrow> bytes list" where "annexb_nals buf = annexb_nals_from buf 0"

section \<open>The decoder front end\<close>

record h264_decoder =
  dec_sps :: "bytes option"
  dec_pps :: "bytes option"
  dec_session :: bool
  dec_warned :: bool

definition decoder_new :: h264_decoder where
  "decoder_new = \<lparr>dec_sps = None, dec_pps = None, dec_session = False, dec_warned = False\<rparr>"

text \<open>One unit of the access unit: the parameter sets are kept, delimiters skipped, all else is
  appended to the length-prefixed sample.\<close>

definition collect_nal :: "h264_decoder \<times> bytes \<Rightarrow> bytes \<Rightarrow> h264_decoder \<times> bytes" where
  "collect_nal = (\<lambda>(d, avcc) nal.
     if nal = [] then (d, avcc)
     else let nal_type = unat (hd nal) mod 32
          in if nal_type = 7 then (d\<lparr>dec_sps := Some nal\<rparr>, avcc)
             else if nal_type = 8 then (d\<lparr>dec_pps := Some nal\<rparr>, avcc)
             else if nal_type = 9 then (d, avcc)
             else (d, avcc @ be_bytes 4 (length nal) @ nal))"

text \<open>
  \<open>decode\<close>: the second component is the sample handed to the decompression session, if any.
  \<open>build_ok\<close> is whether \<open>build_session\<close> succeeds, should it be called.
\<close>

definition decode :: "bool \<Rightarrow> h264_decoder \<Rightarrow> bytes \<Rightarrow> h264_decoder \<times> bytes option" where
  "decode build_ok d annexb =
     (let (d, avcc) = foldl collect_nal (d, []) (annexb_nals annexb);
          finish = (\<lambda>d. (d, if avcc = [] then None else Some avcc))
      in if \<not> dec_session d then
           if dec_sps d \<noteq> None \<and> dec_pps d \<noteq> None then
             if build_ok then finish (d\<lparr>dec_session := True\<rparr>)
             else (d\<lparr>dec_warned := True\<rparr>, None)
           else (d, None)
         else finish d)"

section \<open>Facts on the framings\<close>

text \<open>
  A unit an encoder emits: not empty, no trailing zero byte, and no start code or three zero
  bytes inside (the emulation prevention of the H.264 byte stream).
\<close>

fun no_emulation :: "bytes \<Rightarrow> bool" where
  "no_emulation (a # b # c # r) \<longleftrightarrow>
     \<not> (a = 0 \<and> b = 0 \<and> (c = 0 \<or> c = 1)) \<and> no_emulation (b # c # r)"
| "no_emulation _ \<longleftrightarrow> True"

definition proper_nal :: "bytes \<Rightarrow> bool" where
  "proper_nal nal \<longleftrightarrow> nal \<noteq> [] \<and> last nal \<noteq> 0 \<and> no_emulation nal"

text \<open>The search, on the suffix.\<close>

primrec find_start :: "bytes \<Rightarrow> (nat \<times> nat) option" where
  "find_start [] = None"
| "find_start (x # r) =
     (if take 3 (x # r) = [0, 0, 1] then Some (0, 3)
      else if take 4 (x # r) = [0, 0, 0, 1] then Some (0, 4)
      else map_option (map_prod Suc id) (find_start r))"

lemma drop3:
  assumes "i + 3 \<le> length b"
  shows "drop i b = b ! i # b ! (i + 1) # b ! (i + 2) # drop (i + 3) b"
proof -
  have "drop i b = b ! i # drop (Suc i) b" "drop (Suc i) b = b ! Suc i # drop (Suc (Suc i)) b"
    "drop (Suc (Suc i)) b = b ! Suc (Suc i) # drop (Suc (Suc (Suc i))) b"
    using assms by (simp_all add: Cons_nth_drop_Suc)
  then show ?thesis by (simp add: numeral_3_eq_3 numeral_2_eq_2)
qed

lemma take1_drop: "i < length b \<Longrightarrow> take 1 (drop i b) = [b ! i]"
  by (metis Cons_nth_drop_Suc One_nat_def take0 take_Suc_Cons)

lemma find_start_short: "length b < 3 \<Longrightarrow> find_start b = None"
  by (induction b) auto

lemma next_start_code_find:
  "next_start_code b i = map_option (map_prod ((+) i) id) (find_start (drop i b))"
proof (induction b i rule: next_start_code.induct)
  case (1 b i)
  show ?case
  proof (cases "i + 3 \<le> length b")
    case False
    then show ?thesis
      by (simp add: next_start_code.simps [of b i] find_start_short)
  next
    case True
    note d = drop3 [OF True]
    have four: "take 4 (drop i b) = [0, 0, 0, 1] \<longleftrightarrow>
        b ! i = 0 \<and> b ! (i + 1) = 0 \<and> b ! (i + 2) = 0 \<and> i + 4 \<le> length b \<and> b ! (i + 3) = 1"
    proof (cases "i + 4 \<le> length b")
      case True
      then show ?thesis using take1_drop [of "i + 3" b]
        by (simp add: d numeral_eq_Suc)
    next
      case False
      then have "drop (i + 3) b = []" by simp
      then show ?thesis using False by (simp add: d)
    qed
    have three: "take 3 (drop i b) = [0, 0, 1] \<longleftrightarrow>
        b ! i = 0 \<and> b ! (i + 1) = 0 \<and> b ! (i + 2) = 1"
      by (simp add: d)
    have tail: "drop (i + 1) b = b ! (i + 1) # b ! (i + 2) # drop (i + 3) b"
      using d by (metis Suc_eq_plus1 drop_Suc list.sel(3) tl_drop)
    have fs: "find_start (drop i b) =
        (if take 3 (drop i b) = [0, 0, 1] then Some (0, 3)
         else if take 4 (drop i b) = [0, 0, 0, 1] then Some (0, 4)
         else map_option (map_prod Suc id) (find_start (drop (i + 1) b)))"
      unfolding tail by (subst (1 2 3) d) (simp only: find_start.simps)
    have shift: "map_option (map_prod ((+) i) (\<lambda>a. a)) (map_option (map_prod Suc id) r) =
        map_option (map_prod (\<lambda>a. Suc (i + a)) (\<lambda>a. a)) r" for r :: "(nat \<times> nat) option"
      by (cases r) auto
    show ?thesis
      unfolding next_start_code.simps [of b i] fs three four
      using True 1 by (simp add: shift)
  qed
qed

lemma find_start_none:
  "no_emulation xs \<Longrightarrow> find_start xs = None"
  by (induction xs rule: no_emulation.induct) (auto simp: numeral_eq_Suc)

lemma find_start_code [simp]: "find_start (START_CODE @ r) = Some (0, 4)"
  by (simp add: START_CODE_def numeral_eq_Suc)

lemma find_start_unit:
  "proper_nal nal \<Longrightarrow> find_start (nal @ START_CODE @ r) = Some (length nal, 4)"
proof (induction nal rule: no_emulation.induct)
  case (1 a b c xs)
  from 1(2) have "proper_nal (b # c # xs)" by (auto simp: proper_nal_def)
  with 1 have IH: "find_start ((b # c # xs) @ START_CODE @ r) = Some (length (b # c # xs), 4)"
    by blast
  have "\<not> (a = 0 \<and> b = 0 \<and> (c = 0 \<or> c = 1))" using 1(2) by (auto simp: proper_nal_def)
  with IH show ?case by (auto simp: numeral_eq_Suc)
qed (auto simp: proper_nal_def START_CODE_def numeral_eq_Suc)

abbreviation start_units :: "bytes list \<Rightarrow> bytes" where
  "start_units nals \<equiv> concat (map (\<lambda>n. START_CODE @ n) nals)"

lemma find_start_units:
  assumes "proper_nal nal" and "\<forall>n \<in> set nals. proper_nal n"
  shows "find_start (nal @ start_units nals) =
    (if nals = [] then None else Some (length nal, 4))"
proof (cases nals)
  case Nil
  with assms show ?thesis by (simp add: find_start_none proper_nal_def)
next
  case (Cons n ns)
  with find_start_unit [OF assms(1), of "n @ start_units ns"] show ?thesis by simp
qed

lemma length_START_CODE [simp]: "length START_CODE = 4"
  by (simp add: START_CODE_def)

lemma annexb_nals_from_units:
  assumes "\<forall>n \<in> set nals. proper_nal n"
  shows "annexb_nals_from (pre @ start_units nals) (length pre) = nals"
  using assms
proof (induction nals arbitrary: pre)
  case Nil
  show ?case
    by (simp add: annexb_nals_from.simps [of pre] nals_next_def next_start_code_find)
next
  case (Cons nal nals)
  let ?buf = "pre @ start_units (nal # nals)"
  let ?pre = "pre @ START_CODE @ nal"
  have first: "next_start_code ?buf (length pre) = Some (length pre, 4)"
    by (simp add: next_start_code_find)
  have second: "next_start_code ?buf (length pre + 4) =
      (if nals = [] then None else Some (length pre + 4 + length nal, 4))"
    using find_start_units [of nal nals] Cons.prems by (simp add: next_start_code_find)
  have "nals_next ?buf (length pre) = Some (nal, length ?pre)"
    by (simp add: nals_next_def first second del: concat.simps list.map) simp
  moreover have "?buf = ?pre @ start_units nals" by simp
  ultimately show ?case
    using Cons.IH [of ?pre] Cons.prems annexb_nals_from.simps [of ?buf "length pre"]
    by simp
qed

lemma annexb_nals_units:
  "\<forall>n \<in> set nals. proper_nal n \<Longrightarrow> annexb_nals (start_units nals) = nals"
  using annexb_nals_from_units [of nals "[]"] by (simp add: annexb_nals_def)

lemma avcc_loop_units:
  assumes "\<forall>n \<in> set nals. length n < 2 ^ 32"
  shows "avcc_loop (concat (map avcc_unit nals)) = start_units nals"
  using assms
proof (induction nals)
  case Nil
  show ?case by (simp add: avcc_loop.simps)
next
  case (Cons n nals)
  then have "be_value (be_bytes 4 (length n)) = length n"
    by (simp add: be_value_be_bytes)
  then have "avcc_loop (avcc_unit n @ rest) = START_CODE @ n @ avcc_loop rest" for rest
    by (subst avcc_loop.simps) (simp add: avcc_unit_def)
  with Cons show ?case by simp
qed

lemma avcc_to_annex_b_units:
  assumes "\<forall>n \<in> set nals. length n < 2 ^ 32"
  shows "avcc_to_annex_b (concat (map avcc_unit nals)) ps key =
    start_units ((if key then ps else []) @ nals)"
  using avcc_loop_units [OF assms] by (simp add: avcc_to_annex_b_def)

text \<open>The unit types, and what the front end collects from slices.\<close>

definition nal_type :: "bytes \<Rightarrow> nat" where "nal_type nal = unat (hd nal) mod 32"

lemma collect_slices:
  assumes "\<forall>n \<in> set nals. n \<noteq> [] \<and> nal_type n \<notin> {7, 8, 9}"
  shows "foldl collect_nal (d, avcc) nals = (d, avcc @ concat (map avcc_unit nals))"
  using assms
  by (induction nals arbitrary: avcc)
    (simp_all add: collect_nal_def nal_type_def avcc_unit_def Let_def)

lemma concat_avcc_units_Nil: "concat (map avcc_unit nals) = [] \<longleftrightarrow> nals = []"
proof (cases nals)
  case (Cons n ns)
  have "length (avcc_unit n) \<ge> 4" by (simp add: avcc_unit_def)
  with Cons show ?thesis by auto
qed simp

end
