(* ===== verification/Egfx_Context.thy ===== *)
theory Egfx_Context
  imports Egfx_Config Annex_B
begin

text \<open>
  The state of the EGFX pipeline (\<open>src/src/h264.rs\<close>): the per-connection \<open>ConnectionContext\<close>, the
  part of a \<open>Gfx\<close> that is shared through atomics, the answers of the components outside (graphics
  server, encoder, event channel) and the calls made to them; the one-time setup and the
  connection constructor.
\<close>

section \<open>State\<close>

text \<open>
  The graphics server is known by a number (the identity of its \<open>Arc\<close>), the encoder by whether
  there is one.
\<close>

record connection =
  server_handle :: nat
  encoder :: bool
  surface_id :: "nat option"
  is_ready :: bool
  epoch :: instant
  diagnostic_session :: nat
  ack_diagnostics :: diagnostic_window
  qoe_diagnostics :: diagnostic_window
  need_keyframe :: bool
  client_supports_avc :: bool
  egfx_declined :: bool
  submitted :: nat
  shipped :: nat
  encoded_pending :: nat
  dims :: "nat \<times> nat"
  last_ack_at :: instant
  last_ack_advance_at :: instant
  acks_suspended :: bool
  last_ship_at :: instant
  last_recovery_at :: instant
  last_shipped_frame_id :: nat
  last_acked_frame_id :: nat
  last_ack_queue_depth :: nat
  egfx_acks_seen :: bool
  ship_times :: "(nat \<times> instant) list"
  rtt_min_cur_ms :: f64_inf
  rtt_min_prev_ms :: f64_inf
  rtt_bucket_started :: instant
  queue_delay_ms :: f64
  last_throttle_ship :: instant
  demigrated :: bool
  adaptive_target_bps :: nat
  adaptive_ceiling_bps :: nat
  adaptive_pid_integral :: f64
  adaptive_pid_previous_error :: f64
  adaptive_last_control :: instant
  adaptive_last_retransmits :: nat
  idr_backed_off :: bool
  adaptive_on_udp :: bool
  adaptive_warmup_until :: "instant option"
  adaptive_delay_ewma :: f64
  adaptive_congested :: bool
  adaptive_fps_stage :: fps_stage
  adaptive_fps_clear_since :: "instant option"
  adaptive_pid_fps :: f64
  adaptive_pid_fps_integral :: f64
  adaptive_pid_fps_previous_error :: f64
  last_adaptive_fps_pass :: instant
  qoe :: qoe_evidence
  last_nonzero_qoe_at :: instant
  blank_recovery_attempts :: nat
  last_blank_recovery_at :: instant
  link_rtt :: nat
  blank_gate_logged :: bool
  min_render_reports :: nat

text \<open>The shared half of a \<open>Gfx\<close>: the connection slot, the event sender and the atomics.\<close>

record gfx =
  gfx_ctx :: "connection option"
  gfx_sender :: bool
  egfx_on_lossy :: bool
  egfx_on_udp :: bool
  demigrate_request :: bool
  congestion_retransmits :: nat
  consecutive_blank_drops :: nat
  gfx_link_rtt_ms :: nat
  event_queue :: "nat option"
  reactivate_request :: nat
  next_session :: nat

text \<open>
  What the components outside answer during one operation: the graphics server's readiness,
  surface allocation, mapping, channel id, whether it has output and whether it takes the
  framing; the event channel; the encoder's construction, receiver, thread and submission.
\<close>

record answers =
  ans_desktop :: "nat \<times> nat"
  ans_server_ready :: bool
  ans_surface :: "nat option"
  ans_mapped :: bool
  ans_channel :: "nat option"
  ans_output :: bool
  ans_framed :: bool
  ans_sent :: bool
  ans_encoder_new :: bool
  ans_receiver :: bool
  ans_thread :: bool
  ans_encode :: bool

text \<open>The calls with an effect outside, in the order they are made; the last two are the server's
  choice of transport for the graphics messages.\<close>

datatype egfx_call =
    SetOutputDimensions nat nat
  | ResizeWithMonitors nat nat int int
  | CreateSurface nat nat
  | MapSurfaceToOutput nat
  | NewEncoder nat nat nat nat
  | SpawnShipThread
  | SetBitrate nat
  | SetKeyframeInterval nat
  | EncodeBgra bool
  | SendAvc420Frame nat bytes nat nat nat
  | SendMessages
  | SendQuit
  | RouteUdp
  | RouteTcp

type_synonym 'a outcome = "string + 'a"

section \<open>A new connection\<close>

definition initial_target_bps :: "gfx_config \<Rightarrow> nat \<Rightarrow> nat" where
  "initial_target_bps c rtt =
     (if cfg_adaptive_enabled c
      then seeded_initial_bitrate (cfg_bitrate_bps c) (cfg_adaptive_floor_bps c) rtt
             (cfg_seed_rtt_ms c)
      else cfg_bitrate_bps c)"

definition new_connection :: "gfx_config \<Rightarrow> gfx \<Rightarrow> nat \<Rightarrow> instant \<Rightarrow> connection" where
  "new_connection c g handle now =
     (let rtt = gfx_link_rtt_ms g; target = initial_target_bps c rtt in
      \<lparr>server_handle = handle, encoder = False, surface_id = None, is_ready = False,
       epoch = now, diagnostic_session = next_session g,
       ack_diagnostics = diagnostic_default, qoe_diagnostics = diagnostic_default,
       need_keyframe = True, client_supports_avc = False, egfx_declined = False,
       submitted = 0, shipped = 0, encoded_pending = 0, dims = (0, 0),
       last_ack_at = now, last_ack_advance_at = now, acks_suspended = False,
       last_ship_at = now, last_recovery_at = now,
       last_shipped_frame_id = 0, last_acked_frame_id = 0, last_ack_queue_depth = 0,
       egfx_acks_seen = False, ship_times = replicate RTT_RING (U64_MAX, now),
       rtt_min_cur_ms = None, rtt_min_prev_ms = None, rtt_bucket_started = now,
       queue_delay_ms = 0, last_throttle_ship = now, demigrated = False,
       adaptive_target_bps = target,
       adaptive_ceiling_bps = max (max target (cfg_adaptive_floor_bps c)) 1,
       adaptive_pid_integral = 0, adaptive_pid_previous_error = 0,
       adaptive_last_control = now, adaptive_last_retransmits = congestion_retransmits g,
       idr_backed_off = False, adaptive_on_udp = egfx_on_udp g,
       adaptive_warmup_until = None, adaptive_delay_ewma = 0, adaptive_congested = False,
       adaptive_fps_stage = Configured (cfg_fps c), adaptive_fps_clear_since = None,
       adaptive_pid_fps =
         real (clamp target (cfg_adaptive_floor_bps c) (max (cfg_bitrate_bps c) 1))
           / real (max (cfg_bitrate_bps c) 1) * real (cfg_fps c),
       adaptive_pid_fps_integral = 0, adaptive_pid_fps_previous_error = 0,
       last_adaptive_fps_pass = now, qoe = qoe_default, last_nonzero_qoe_at = now,
       blank_recovery_attempts = 0, last_blank_recovery_at = now, link_rtt = rtt,
       blank_gate_logged = False,
       min_render_reports = bp_min_render_reports (cfg_blank_params c)\<rparr>)"

definition build_server_with_handle :: "gfx_config \<Rightarrow> gfx \<Rightarrow> nat \<Rightarrow> instant \<Rightarrow> gfx" where
  "build_server_with_handle c g handle now =
     g\<lparr>gfx_ctx := Some (new_connection c g handle now),
       next_session := (next_session g + 1) mod 2 ^ 64\<rparr>"

section \<open>Surface and encoder setup\<close>

text \<open>
  The result is the error, if any, the context as left behind and the calls made. The surface
  part runs when there is no surface, the encoder part when there is no encoder.
\<close>

definition setup_surface ::
  "answers \<Rightarrow> connection \<Rightarrow> string option \<times> connection \<times> egfx_call list" where
  "setup_surface a ctx =
     (let (width, height) = ans_desktop a; ctx = ctx\<lparr>dims := (width, height)\<rparr>
      in if \<not> ans_server_ready a then
           (Some ''EGFX: graphics pipeline is not Ready during surface setup'', ctx, [])
         else
           let calls = [SetOutputDimensions width height,
                        ResizeWithMonitors width height (int width - 1) (int height - 1),
                        CreateSurface width height]
           in case ans_surface a of
                None \<Rightarrow> (Some ''EGFX: create_surface failed (not ready?)'', ctx, calls)
              | Some sid \<Rightarrow>
                  if \<not> ans_mapped a then
                    (Some ''EGFX: map_surface_to_output failed'', ctx,
                     calls @ [MapSurfaceToOutput sid])
                  else (None, ctx\<lparr>surface_id := Some sid\<rparr>, calls @ [MapSurfaceToOutput sid]))"

definition setup_encoder ::
  "gfx_config \<Rightarrow> answers \<Rightarrow> connection \<Rightarrow> string option \<times> connection \<times> egfx_call list" where
  "setup_encoder c a ctx =
     (let (width, height) = dims ctx;
          calls = [NewEncoder width height (cfg_fps c) (adaptive_target_bps ctx)]
      in if \<not> ans_encoder_new a then (Some ''Encoder::new'', ctx, calls)
         else if \<not> ans_receiver a then
           (Some ''EGFX: encoder receiver already taken'', ctx, calls)
         else
           let ctx = ctx\<lparr>encoder := True, submitted := 0, shipped := 0, encoded_pending := 0\<rparr>
           in if \<not> ans_thread a then
                (Some ''EGFX: failed to spawn ship thread'', ctx, calls @ [SpawnShipThread])
              else (None, ctx, calls @ [SpawnShipThread]))"

definition setup_locked ::
  "gfx_config \<Rightarrow> answers \<Rightarrow> connection \<Rightarrow> string option \<times> connection \<times> egfx_call list" where
  "setup_locked c a ctx =
     (let (err, ctx, calls) =
            (if surface_id ctx = None then setup_surface a ctx else (None, ctx, []))
      in case err of
           Some e \<Rightarrow> (Some e, ctx, calls)
         | None \<Rightarrow>
             if \<not> encoder ctx then
               let (err', ctx', calls') = setup_encoder c a ctx in (err', ctx', calls @ calls')
             else (None, ctx, calls))"

end
