(* ===== verification/Egfx_Control.thy ===== *)
theory Egfx_Control
  imports Egfx_Context
begin

text \<open>
  The congestion controller of the EGFX pipeline, \<open>adaptive_bitrate_step\<close> of \<open>src/src/h264.rs\<close>:
  the warm-up, the edge from the UDP tunnel back to TCP, the congestion signal, the two PID
  loops and the keyframe backoff. One call reads the clock once.
\<close>

record adaptive_actions =
  act_bitrate :: "nat option"
  act_keyframe :: "nat option"

definition no_actions :: adaptive_actions where
  "no_actions = \<lparr>act_bitrate = None, act_keyframe = None\<rparr>"

section \<open>Warm-up and transport edge\<close>

definition arm_warmup :: "instant \<Rightarrow> connection \<Rightarrow> connection" where
  "arm_warmup now ctx =
     (if egfx_acks_seen ctx \<and> adaptive_warmup_until ctx = None
      then ctx\<lparr>adaptive_warmup_until := Some (now + ADAPTIVE_WARMUP)\<rparr> else ctx)"

definition in_warmup :: "instant \<Rightarrow> connection \<Rightarrow> bool" where
  "in_warmup now ctx =
     (case adaptive_warmup_until ctx of Some t \<Rightarrow> now < t | None \<Rightarrow> False)"

definition transport_edge ::
  "gfx_config \<Rightarrow> bool \<Rightarrow> instant \<Rightarrow> connection \<Rightarrow> adaptive_actions \<times> connection" where
  "transport_edge c on_udp now ctx =
     (let ceil = max (cfg_bitrate_bps c) 1;
          (actions, ctx) =
            (if adaptive_on_udp ctx \<and> \<not> on_udp then
               let (actions, ctx) =
                     (if adaptive_target_bps ctx < ceil
                      then (no_actions\<lparr>act_bitrate := Some ceil\<rparr>,
                            ctx\<lparr>adaptive_target_bps := ceil\<rparr>)
                      else (no_actions, ctx));
                   (actions, ctx) =
                     (if idr_backed_off ctx
                      then (actions\<lparr>act_keyframe := Some (cfg_normal_keyframe_frames c)\<rparr>,
                            ctx\<lparr>idr_backed_off := False\<rparr>)
                      else (actions, ctx));
                   ctx = (if act_bitrate actions \<noteq> None \<or> act_keyframe actions \<noteq> None
                          then ctx\<lparr>adaptive_last_control := now\<rparr> else ctx)
               in (actions, ctx\<lparr>adaptive_delay_ewma := 0, adaptive_pid_integral := 0,
                     adaptive_pid_previous_error := 0, adaptive_pid_fps_integral := 0,
                     adaptive_pid_fps_previous_error := 0, adaptive_congested := False\<rparr>)
             else (no_actions, ctx))
      in (actions, ctx\<lparr>adaptive_on_udp := on_udp\<rparr>))"

section \<open>The congestion signal\<close>

definition ack_lag :: "connection \<Rightarrow> nat" where
  "ack_lag ctx = last_shipped_frame_id ctx - last_acked_frame_id ctx"

definition actively_shipping :: "instant \<Rightarrow> connection \<Rightarrow> bool" where
  "actively_shipping now ctx \<longleftrightarrow>
     saturating_duration_since now (last_ship_at ctx) < from_secs 1"

definition delay_sample :: "instant \<Rightarrow> connection \<Rightarrow> f64" where
  "delay_sample now ctx =
     effective_queue_delay (queue_delay_ms ctx)
       (as_secs_f64 (saturating_duration_since now (last_ack_advance_at ctx)) * 1000)
       (0 < ack_lag ctx) (actively_shipping now ctx)"

definition signal_usable :: "bool \<Rightarrow> bool \<Rightarrow> instant \<Rightarrow> connection \<Rightarrow> bool" where
  "signal_usable warmup retransmit_lossy now ctx \<longleftrightarrow>
     (let acks_usable = (egfx_acks_seen ctx \<and> \<not> acks_suspended ctx \<and> \<not> warmup);
          distress = (0 < ack_lag ctx \<and> actively_shipping now ctx \<and> \<not> warmup
                      \<and> from_secs 3 < saturating_duration_since now (epoch ctx))
      in (acks_usable \<and> actively_shipping now ctx) \<or> distress \<or> retransmit_lossy)"

text \<open>Samples the retransmit counter and folds the delay into the average; returns whether the
  signal is usable.\<close>

definition congestion_signal ::
  "gfx_config \<Rightarrow> nat \<Rightarrow> bool \<Rightarrow> instant \<Rightarrow> connection \<Rightarrow> bool \<times> connection" where
  "congestion_signal c retransmits warmup now ctx =
     (let delta = retransmits - adaptive_last_retransmits ctx;
          ctx = ctx\<lparr>adaptive_last_retransmits := retransmits\<rparr>;
          lossy = retransmit_is_lossy delta (cfg_retx_tolerance c);
          sample = delay_sample now ctx;
          usable = signal_usable warmup lossy now ctx;
          ctx = (if usable
                 then ctx\<lparr>adaptive_delay_ewma :=
                        cfg_ewma_alpha c * sample
                          + (1 - cfg_ewma_alpha c) * adaptive_delay_ewma ctx\<rparr>
                 else ctx);
          high = cfg_queue_high_ms c
      in (usable, ctx\<lparr>adaptive_congested :=
            congested_hysteresis (adaptive_delay_ewma ctx) high (high * (1 / 2)) lossy usable
              (adaptive_congested ctx)\<rparr>))"

section \<open>The two controllers\<close>

definition bitrate_control ::
  "gfx_config \<Rightarrow> bool \<Rightarrow> bool \<Rightarrow> f64 \<Rightarrow> connection \<Rightarrow> nat option \<times> connection" where
  "bitrate_control c usable run_bitrate error_ms ctx =
     (let (target, integral, err) =
            (if usable \<and> run_bitrate then
               pid_bitrate_step (adaptive_target_bps ctx) (max (cfg_bitrate_bps c) 1)
                 (max (cfg_adaptive_floor_bps c) 1) error_ms
                 (as_secs_f64 (cfg_adaptive_interval c)) (cfg_pid_kp c) (cfg_pid_ki c)
                 (cfg_pid_kd c) (adaptive_pid_integral ctx) (adaptive_pid_previous_error ctx)
             else if \<not> run_bitrate then (adaptive_target_bps ctx, 0, 0)
             else (adaptive_target_bps ctx, adaptive_pid_integral ctx,
                   adaptive_pid_previous_error ctx))
      in (if target \<noteq> adaptive_target_bps ctx then Some target else None,
          ctx\<lparr>adaptive_pid_integral := integral, adaptive_pid_previous_error := err,
              adaptive_ceiling_bps := target, adaptive_target_bps := target\<rparr>))"

text \<open>The next frame rate and the candidate integral.\<close>

definition fps_target :: "gfx_config \<Rightarrow> bool \<Rightarrow> f64 \<Rightarrow> connection \<Rightarrow> nat \<times> f64" where
  "fps_target c run_fps error_ms ctx =
     (let dt = as_secs_f64 (cfg_adaptive_interval c);
          err = (if run_fps then error_ms else 0);
          integral = (if run_fps
                      then pid_integral_step (adaptive_pid_fps_integral ctx) err dt 2000
                      else adaptive_pid_fps_integral ctx);
          rate = pid_delta err (adaptive_pid_fps_previous_error ctx) integral dt
                   (cfg_pid_fps_kp c) (cfg_pid_fps_ki c) (cfg_pid_fps_kd c)
      in (if run_fps
          then clamp_pid_fps (adaptive_pid_fps ctx - rate * dt) (cfg_pid_min_fps c)
                 (max (cfg_fps c) (cfg_pid_min_fps c))
          else min (nat (f64_round (adaptive_pid_fps ctx))) U32_MAX,
          integral))"

definition fps_control :: "gfx_config \<Rightarrow> bool \<Rightarrow> f64 \<Rightarrow> connection \<Rightarrow> connection" where
  "fps_control c run_fps error_ms ctx =
     (let (pid_fps, integral) = fps_target c run_fps error_ms ctx;
          outward = (pid_fps = cfg_fps c \<and> error_ms < 0
                     \<or> pid_fps = cfg_pid_min_fps c \<and> 0 < error_ms);
          ctx = (if outward then ctx else ctx\<lparr>adaptive_pid_fps_integral := integral\<rparr>);
          ctx = (if run_fps then ctx\<lparr>adaptive_pid_fps_previous_error := error_ms\<rparr> else ctx);
          ctx = ctx\<lparr>adaptive_pid_fps := real pid_fps\<rparr>
      in if Configured pid_fps \<noteq> adaptive_fps_stage ctx
         then ctx\<lparr>adaptive_fps_stage := Configured pid_fps, adaptive_fps_clear_since := None\<rparr>
         else ctx)"

definition idr_control ::
  "gfx_config \<Rightarrow> connection \<Rightarrow> nat option \<times> connection" where
  "idr_control c ctx =
     (let eff_ceiling = max (max (max (cfg_bitrate_bps c) 1) (cfg_adaptive_floor_bps c)) 1
      in case idr_backoff_decision (adaptive_congested ctx) (adaptive_target_bps ctx)
                eff_ceiling (idr_backed_off ctx) of
           Stretch \<Rightarrow> (Some (cfg_stretched_keyframe_frames c), ctx\<lparr>idr_backed_off := True\<rparr>)
         | Restore \<Rightarrow> (Some (cfg_normal_keyframe_frames c),
                       ctx\<lparr>idr_backed_off := False, need_keyframe := True\<rparr>)
         | Hold \<Rightarrow> (None, ctx))"

section \<open>One call\<close>

definition control_interval ::
  "gfx_config \<Rightarrow> nat \<Rightarrow> bool \<Rightarrow> instant \<Rightarrow> adaptive_actions \<Rightarrow> connection \<Rightarrow>
   adaptive_actions \<times> connection" where
  "control_interval c retransmits warmup now actions ctx =
     (let ctx = ctx\<lparr>adaptive_last_control := now\<rparr>;
          (usable, ctx) = congestion_signal c retransmits warmup now ctx;
          error_ms = adaptive_delay_ewma ctx - cfg_queue_target_ms c;
          (run_bitrate, run_fps) =
            rate_pid_actuators error_ms (adaptive_pid_fps ctx) (cfg_pid_min_fps c)
              (adaptive_target_bps ctx) (max (cfg_bitrate_bps c) 1)
              (cfg_pid_fps_deadband_ms c);
          (bps, ctx) = bitrate_control c usable run_bitrate error_ms ctx;
          ctx = fps_control c run_fps error_ms ctx;
          (frames, ctx) = idr_control c ctx;
          actions = (case bps of Some b \<Rightarrow> actions\<lparr>act_bitrate := Some b\<rparr> | None \<Rightarrow> actions);
          actions = (case frames of Some f \<Rightarrow> actions\<lparr>act_keyframe := Some f\<rparr> | None \<Rightarrow> actions)
      in (actions, ctx))"

definition adaptive_bitrate_step ::
  "gfx_config \<Rightarrow> gfx \<Rightarrow> instant \<Rightarrow> connection \<Rightarrow> adaptive_actions \<times> connection" where
  "adaptive_bitrate_step c g now ctx =
     (if \<not> cfg_adaptive_enabled c then (no_actions, ctx)
      else
        let ctx = arm_warmup now ctx;
            warmup = in_warmup now ctx;
            (actions, ctx) = transport_edge c (egfx_on_udp g) now ctx
        in if saturating_duration_since now (adaptive_last_control ctx) < cfg_adaptive_interval c
           then (actions, ctx)
           else control_interval c (congestion_retransmits g) warmup now actions ctx)"

end
