(* ===== verification/Egfx_Pipeline.thy ===== *)
theory Egfx_Pipeline
  imports Egfx_Control
begin

text \<open>
  The operations of the EGFX pipeline (\<open>src/src/h264.rs\<close>): the capture thread's \<open>submit_bgra\<close> with
  its admission gates and the blank detector, the ship thread, the recovery actions, the live
  resize, and the callbacks of the graphics channel.
\<close>

section \<open>Admission\<close>

definition event_queue_full :: "gfx_config \<Rightarrow> gfx \<Rightarrow> bool" where
  "event_queue_full c g \<longleftrightarrow>
     (case event_queue g of Some depth \<Rightarrow> cfg_event_queue_high c \<le> depth | None \<Rightarrow> False)"

definition arm_recovery_idr :: "gfx_config \<Rightarrow> gfx \<Rightarrow> instant \<Rightarrow> connection \<Rightarrow> connection" where
  "arm_recovery_idr c g now ctx =
     (if cfg_recovery_enabled c
         \<and> should_force_recovery_idr
              (saturating_duration_since now (last_ship_at ctx))
              (saturating_duration_since now (last_ack_at ctx))
              (saturating_duration_since now (last_recovery_at ctx))
              (acks_suspended ctx) (egfx_on_lossy g) (cfg_recovery_params c)
      then ctx\<lparr>need_keyframe := True, last_recovery_at := now\<rparr>
      else ctx)"

definition demigrate :: "gfx \<times> connection \<Rightarrow> gfx \<times> connection" where
  "demigrate = (\<lambda>(g, ctx).
     (g\<lparr>demigrate_request := True\<rparr>,
      ctx\<lparr>need_keyframe := True, last_acked_frame_id := last_shipped_frame_id ctx,
          demigrated := True\<rparr>))"

definition watchdog :: "gfx_config \<Rightarrow> instant \<Rightarrow> gfx \<times> connection \<Rightarrow> gfx \<times> connection" where
  "watchdog c now = (\<lambda>(g, ctx).
     if cfg_watchdog_enabled c
        \<and> should_demigrate_to_tcp
             (saturating_duration_since now (last_ship_at ctx))
             (saturating_duration_since now (last_ack_at ctx))
             (acks_suspended ctx) (egfx_on_udp g) (egfx_on_lossy g) (demigrated ctx)
             (cfg_watchdog_active_window c) (cfg_watchdog_wedge_timeout c)
     then demigrate (g, ctx) else (g, ctx))"

definition demigrate_on_resume :: "gfx \<Rightarrow> gfx" where
  "demigrate_on_resume g =
     (if \<not> (egfx_on_udp g \<and> \<not> egfx_on_lossy g) then g
      else case gfx_ctx g of
             None \<Rightarrow> g
           | Some ctx \<Rightarrow>
               if demigrated ctx then g
               else let (g', ctx') = demigrate (g, ctx) in g'\<lparr>gfx_ctx := Some ctx'\<rparr>)"

section \<open>The blank detector\<close>

record armed_action =
  arm_kind :: blank_action
  arm_handle :: nat
  arm_width :: nat
  arm_height :: nat
  arm_attempt :: nat

definition storm_guard :: "gfx_config \<Rightarrow> gfx \<times> connection \<Rightarrow> gfx \<times> connection" where
  "storm_guard c = (\<lambda>(g, ctx).
     if storm_guard_should_reset (qoe ctx)
          (bp_established_render_reports (cfg_blank_params c)) (consecutive_blank_drops g)
     then (g\<lparr>consecutive_blank_drops := 0\<rparr>, ctx) else (g, ctx))"

definition gate_logged :: "f64 option \<Rightarrow> connection \<Rightarrow> connection" where
  "gate_logged gate ctx =
     (if \<not> blank_gate_logged ctx \<and> (case gate of None \<Rightarrow> True | Some m \<Rightarrow> 1 < m)
      then ctx\<lparr>blank_gate_logged := True\<rparr> else ctx)"

definition blank_fires :: "gfx_config \<Rightarrow> f64 option \<Rightarrow> instant \<Rightarrow> connection \<Rightarrow> bool" where
  "blank_fires c gate now ctx \<longleftrightarrow>
     (case map_option (blank_params_scaled (cfg_blank_params c)) gate of
        None \<Rightarrow> False
      | Some p \<Rightarrow>
          should_blank_recover (qoe ctx) (egfx_acks_seen ctx) (acks_suspended ctx)
            (saturating_duration_since now (epoch ctx))
            (saturating_duration_since now (last_nonzero_qoe_at ctx))
            (saturating_duration_since now (last_blank_recovery_at ctx))
            (blank_recovery_attempts ctx)
            (last_blank_recovery_at ctx < last_ack_advance_at ctx) p)"

definition choose_action :: "blank_params \<Rightarrow> nat \<Rightarrow> blank_action" where
  "choose_action p attempt_no =
     (if bp_reactivate p then (if attempt_no = 1 then Reactivate else Drop)
      else blank_action_for attempt_no (bp_max_attempts p))"

definition arm_blank ::
  "gfx_config \<Rightarrow> instant \<Rightarrow> gfx \<times> connection \<Rightarrow> (gfx \<times> connection) \<times> armed_action option" where
  "arm_blank c now = (\<lambda>(g, ctx).
     (let p = cfg_blank_params c;
          attempt_no = blank_recovery_attempts ctx + 1;
          action = choose_action p attempt_no;
          drops = consecutive_blank_drops g
      in if action = Drop \<and> blank_drop_capped drops (bp_max_consecutive_drops p) then
           ((g, ctx\<lparr>blank_recovery_attempts := bp_max_attempts p\<rparr>), None)
         else
           let ctx = ctx\<lparr>blank_recovery_attempts := blank_recovery_attempts ctx + 1,
                         last_blank_recovery_at := now, qoe := qoe_reset_streaks (qoe ctx)\<rparr>;
               ctx = (if action = Reactivate then ctx\<lparr>need_keyframe := True\<rparr> else ctx);
               g = (if action = Drop
                    then g\<lparr>consecutive_blank_drops := sat_add U32_MAX drops 1\<rparr> else g)
           in ((g, ctx),
               Some \<lparr>arm_kind = action, arm_handle = server_handle ctx,
                     arm_width = fst (dims ctx), arm_height = snd (dims ctx),
                     arm_attempt = blank_recovery_attempts ctx\<rparr>)))"

definition blank_detector ::
  "gfx_config \<Rightarrow> instant \<Rightarrow> gfx \<times> connection \<Rightarrow> (gfx \<times> connection) \<times> armed_action option" where
  "blank_detector c now = (\<lambda>(g, ctx).
     if cfg_blank_recovery_enabled c \<and> surface_id ctx \<noteq> None then
       let (g, ctx) = storm_guard c (g, ctx);
           gate = blank_rtt_gate (link_rtt ctx) (bp_max_rtt_ms (cfg_blank_params c));
           ctx = gate_logged gate ctx
       in if blank_fires c gate now ctx then arm_blank c now (g, ctx) else ((g, ctx), None)
     else ((g, ctx), None))"

section \<open>The capture gates\<close>

text \<open>Each gate returns the context, and whether the capture is dropped.\<close>

definition fps_gate :: "gfx_config \<Rightarrow> instant \<Rightarrow> connection \<Rightarrow> connection \<times> bool" where
  "fps_gate c now ctx =
     (if cfg_adaptive_enabled c then
        if fps_stage_should_drop (adaptive_fps_stage ctx)
             (saturating_duration_since now (last_adaptive_fps_pass ctx))
        then (ctx, True)
        else (ctx\<lparr>last_adaptive_fps_pass := now\<rparr>, False)
      else (ctx, False))"

definition outstanding :: "connection \<Rightarrow> nat" where
  "outstanding ctx = submitted ctx - shipped ctx"

definition udp_lag_gate ::
  "gfx_config \<Rightarrow> bool \<Rightarrow> instant \<Rightarrow> connection \<Rightarrow> connection \<times> bool" where
  "udp_lag_gate c on_udp now ctx =
     (if on_udp \<and> egfx_acks_seen ctx \<and> \<not> acks_suspended ctx
         \<and> cfg_max_frame_lag c < ack_lag ctx
      then if saturating_duration_since now (last_throttle_ship ctx) < UDP_THROTTLE_FLOOR
           then (ctx, True)
           else (ctx\<lparr>last_throttle_ship := now\<rparr>, False)
      else (ctx, False))"

definition capture_gates ::
  "gfx_config \<Rightarrow> gfx \<Rightarrow> instant \<Rightarrow> connection \<Rightarrow> connection \<times> bool" where
  "capture_gates c g now ctx =
     (let (ctx, dropped) = fps_gate c now ctx
      in if dropped then (ctx, True)
         else if cfg_max_in_flight c \<le> outstanding ctx then (ctx, True)
         else udp_lag_gate c (egfx_on_udp g) now ctx)"

text \<open>
  The part of \<open>submit_bgra\<close> under the first lock: an early return with a value, an error, a
  recovery action to run, or a capture to encode with its keyframe flag.
\<close>

datatype admission = Return bool | Fail string | Recover armed_action | Admit bool

definition armed_ctx :: "gfx_config \<Rightarrow> instant \<Rightarrow> bool \<Rightarrow> gfx \<Rightarrow> connection \<Rightarrow> gfx \<times> connection" where
  "armed_ctx c now request_keyframe g ctx =
     (let ctx = (if request_keyframe then ctx\<lparr>need_keyframe := True\<rparr> else ctx);
          ctx = arm_recovery_idr c g now ctx
      in watchdog c now (g, ctx))"

definition setup_needed ::
  "gfx_config \<Rightarrow> answers \<Rightarrow> connection \<Rightarrow> string option \<times> connection \<times> egfx_call list" where
  "setup_needed c a ctx =
     (if surface_id ctx = None \<or> \<not> encoder ctx then setup_locked c a ctx else (None, ctx, []))"

definition admit_ready ::
  "gfx_config \<Rightarrow> instant \<Rightarrow> gfx \<Rightarrow> connection \<Rightarrow> admission \<times> gfx" where
  "admit_ready c now g ctx =
     (let ((g, ctx), armed) = blank_detector c now (g, ctx)
      in case armed of
           Some r \<Rightarrow> (Recover r, g\<lparr>gfx_ctx := Some ctx\<rparr>)
         | None \<Rightarrow>
             let (ctx, dropped) = capture_gates c g now ctx
             in if dropped then (Return True, g\<lparr>gfx_ctx := Some ctx\<rparr>)
                else (Admit (need_keyframe ctx),
                      g\<lparr>gfx_ctx := Some (ctx\<lparr>need_keyframe := False\<rparr>)\<rparr>))"

definition admit ::
  "gfx_config \<Rightarrow> answers \<Rightarrow> instant \<Rightarrow> bool \<Rightarrow> gfx \<Rightarrow> admission \<times> gfx \<times> egfx_call list" where
  "admit c a now request_keyframe g =
     (case gfx_ctx g of
        None \<Rightarrow> (Return False, g, [])
      | Some ctx \<Rightarrow>
          if \<not> is_ready ctx then (Return False, g, [])
          else if event_queue_full c g then (Return True, g, [])
          else
            let (g, ctx) = armed_ctx c now request_keyframe g ctx;
                (err, ctx, calls) = setup_needed c a ctx
            in case err of
                 Some e \<Rightarrow> (Fail e, g\<lparr>gfx_ctx := Some ctx\<rparr>, calls)
               | None \<Rightarrow> (let (adm, g) = admit_ready c now g ctx in (adm, g, calls)))"

section \<open>Recovery actions\<close>

definition perform_blank_remap ::
  "answers \<Rightarrow> armed_action \<Rightarrow> gfx \<Rightarrow> unit outcome \<times> gfx \<times> egfx_call list" where
  "perform_blank_remap a r g =
     (case ans_channel a of
        None \<Rightarrow> (Inl ''EGFX blank remap: channel_id not assigned'', g, [])
      | Some ch \<Rightarrow>
          let create = [CreateSurface (arm_width r) (arm_height r)] in
          (case ans_surface a of
             None \<Rightarrow> (Inl ''EGFX blank remap: create_surface failed'', g, create)
           | Some sid \<Rightarrow>
               let mapped = create @ [MapSurfaceToOutput sid] in
               if \<not> ans_mapped a then
                 (Inl ''EGFX blank remap: map_surface_to_output failed'', g, mapped)
               else if ans_output a \<and> \<not> ans_framed a then
                 (Inl ''EGFX blank remap: encode_dvc_messages failed'', g, mapped)
               else if ans_output a \<and> \<not> gfx_sender g then
                 (Inl ''EGFX blank remap: server-event sender not set'', g, mapped)
               else if ans_output a \<and> \<not> ans_sent a then
                 (Inl ''EGFX blank remap: ServerEvent send failed'', g, mapped @ [SendMessages])
               else
                 let calls = mapped @ (if ans_output a then [SendMessages] else []) in
                 (case gfx_ctx g of
                    Some ctx \<Rightarrow>
                      if server_handle ctx = arm_handle r
                      then (Inr (), g\<lparr>gfx_ctx := Some (ctx\<lparr>surface_id := Some sid,
                              need_keyframe := True\<rparr>)\<rparr>, calls)
                      else (Inr (), g, calls)
                  | None \<Rightarrow> (Inr (), g, calls))))"

definition pack_size :: "nat \<Rightarrow> nat \<Rightarrow> nat" where "pack_size w h = w * 2 ^ 16 + h"

definition perform_blank_reactivate :: "nat \<Rightarrow> nat \<Rightarrow> gfx \<Rightarrow> gfx" where
  "perform_blank_reactivate w h g = g\<lparr>reactivate_request := pack_size w h\<rparr>"

definition take_reactivate_request :: "gfx \<Rightarrow> (nat \<times> nat) option \<times> gfx" where
  "take_reactivate_request g =
     (let packed = reactivate_request g
      in (if packed = 0 then None else Some (packed div 2 ^ 16 mod 2 ^ 16, packed mod 2 ^ 16),
          g\<lparr>reactivate_request := 0\<rparr>))"

definition request_reactivation :: "nat \<Rightarrow> nat \<Rightarrow> gfx \<Rightarrow> gfx" where
  "request_reactivation w h g =
     g\<lparr>reactivate_request := pack_size w h,
       gfx_ctx := map_option (\<lambda>ctx. ctx\<lparr>need_keyframe := True\<rparr>) (gfx_ctx g)\<rparr>"

definition perform_blank_drop :: "answers \<Rightarrow> gfx \<Rightarrow> unit outcome \<times> egfx_call list" where
  "perform_blank_drop a g =
     (if \<not> gfx_sender g then (Inl ''EGFX blank drop: server-event sender not set'', [])
      else if \<not> ans_sent a then (Inl ''EGFX blank drop: ServerEvent send failed'', [SendQuit])
      else (Inr (), [SendQuit]))"

definition run_recovery :: "answers \<Rightarrow> armed_action \<Rightarrow> gfx \<Rightarrow> gfx \<times> egfx_call list" where
  "run_recovery a r g =
     (case arm_kind r of
        Remap \<Rightarrow> let (_, g', calls) = perform_blank_remap a r g in (g', calls)
      | Drop \<Rightarrow> (g, snd (perform_blank_drop a g))
      | Reactivate \<Rightarrow> (perform_blank_reactivate (arm_width r) (arm_height r) g, []))"

definition force_keyframe :: "gfx \<Rightarrow> gfx" where
  "force_keyframe g = g\<lparr>gfx_ctx := map_option (\<lambda>ctx. ctx\<lparr>need_keyframe := True\<rparr>) (gfx_ctx g)\<rparr>"

definition reset_for_live_resize :: "gfx \<Rightarrow> gfx" where
  "reset_for_live_resize g =
     g\<lparr>gfx_ctx := map_option (\<lambda>ctx. ctx\<lparr>encoder := False, surface_id := None,
         need_keyframe := True\<rparr>) (gfx_ctx g)\<rparr>"

section \<open>Submission\<close>

definition encode_phase ::
  "gfx_config \<Rightarrow> answers \<Rightarrow> instant \<Rightarrow> bool \<Rightarrow> gfx \<Rightarrow> bool outcome \<times> gfx \<times> egfx_call list" where
  "encode_phase c a now keyframe g =
     (case gfx_ctx g of
        None \<Rightarrow> (Inr True, g, [])
      | Some ctx \<Rightarrow>
          let (actions, ctx) = adaptive_bitrate_step c g now ctx
          in if \<not> encoder ctx then (Inr True, g\<lparr>gfx_ctx := Some ctx\<rparr>, [])
             else
               let calls =
                     (case act_bitrate actions of Some b \<Rightarrow> [SetBitrate b] | None \<Rightarrow> [])
                     @ (case act_keyframe actions of Some f \<Rightarrow> [SetKeyframeInterval f]
                        | None \<Rightarrow> [])
                     @ [EncodeBgra keyframe]
               in if \<not> ans_encode a then (Inl ''encode_bgra'', g\<lparr>gfx_ctx := Some ctx\<rparr>, calls)
                  else (Inr True,
                        g\<lparr>gfx_ctx := Some (ctx\<lparr>
                            submitted := (submitted ctx + 1) mod 2 ^ 64,
                            encoded_pending := (encoded_pending ctx + 1) mod 2 ^ 32\<rparr>)\<rparr>,
                        calls))"

definition submit_bgra ::
  "gfx_config \<Rightarrow> answers \<Rightarrow> instant \<Rightarrow> bool \<Rightarrow> gfx \<Rightarrow> bool outcome \<times> gfx \<times> egfx_call list" where
  "submit_bgra c a now request_keyframe g =
     (let (adm, g, calls) = admit c a now request_keyframe g
      in case adm of
           Return b \<Rightarrow> (Inr b, g, calls)
         | Fail e \<Rightarrow> (Inl e, g, calls)
         | Recover r \<Rightarrow> (let (g', calls') = run_recovery a r g in (Inr True, g', calls @ calls'))
         | Admit keyframe \<Rightarrow>
             (let (res, g', calls') = encode_phase c a now keyframe g
              in (res, g', calls @ calls')))"

section \<open>The ship thread\<close>

record encoded_frame =
  ef_data :: bytes
  ef_parameter_sets :: "bytes list"
  ef_is_keyframe :: bool

definition frame_payload :: "gfx_config \<Rightarrow> encoded_frame \<Rightarrow> bytes" where
  "frame_payload c f =
     (case cfg_wire_format c of
        LengthPrefixed \<Rightarrow>
          if \<not> ef_is_keyframe f \<or> ef_parameter_sets f = [] then ef_data f
          else concat (map avcc_unit (ef_parameter_sets f)) @ ef_data f
      | AnnexB \<Rightarrow> avcc_to_annex_b (ef_data f) (ef_parameter_sets f) (ef_is_keyframe f))"

text \<open>One frame handed to the graphics server; \<open>sent\<close> is the frame id it allocates.\<close>

definition ship_frame ::
  "gfx_config \<Rightarrow> instant \<Rightarrow> nat \<Rightarrow> nat option \<Rightarrow> encoded_frame \<Rightarrow> connection \<Rightarrow>
   connection \<times> egfx_call" where
  "ship_frame c now sid sent f ctx =
     (let ts_ms = saturating_duration_since now (epoch ctx) div 1000000 mod U32_MAX;
          call = SendAvc420Frame sid (frame_payload c f) (fst (dims ctx) - 1)
                   (snd (dims ctx) - 1) ts_ms
      in case sent of
           None \<Rightarrow> (ctx, call)
         | Some frame_id \<Rightarrow>
             (ctx\<lparr>last_shipped_frame_id := frame_id,
                  ship_times := (ship_times ctx)[frame_id mod RTT_RING := (frame_id, now)]\<rparr>,
              call))"

definition ship_all ::
  "gfx_config \<Rightarrow> instant \<Rightarrow> nat \<Rightarrow> (encoded_frame \<times> nat option) list \<Rightarrow> connection \<Rightarrow>
   connection \<times> egfx_call list" where
  "ship_all c now sid frames ctx =
     foldl (\<lambda>(ctx, calls) (f, sent).
              let (ctx', call) = ship_frame c now sid sent f ctx in (ctx', calls @ [call]))
       (ctx, []) frames"

definition ship_frames ::
  "gfx_config \<Rightarrow> answers \<Rightarrow> instant \<Rightarrow> (encoded_frame \<times> nat option) list \<Rightarrow> gfx \<Rightarrow>
   unit outcome \<times> gfx \<times> egfx_call list" where
  "ship_frames c a now frames g =
     (case gfx_ctx g of
        None \<Rightarrow> (Inl ''EGFX: ctx vanished mid-submit'', g, [])
      | Some ctx \<Rightarrow>
          (case surface_id ctx of
             None \<Rightarrow> (Inl ''EGFX: no surface_id'', g, [])
           | Some sid \<Rightarrow>
               let ctx = ctx\<lparr>last_ship_at := now\<rparr> in
               if ans_channel a = None then
                 (Inl ''EGFX: channel_id not assigned'', g\<lparr>gfx_ctx := Some ctx\<rparr>, [])
               else
                 let (ctx, calls) = ship_all c now sid frames ctx;
                     g = g\<lparr>gfx_ctx := Some ctx\<rparr>
                 in if \<not> ans_output a then (Inr (), g, calls)
                    else if \<not> ans_framed a then (Inl ''encode_dvc_messages failed'', g, calls)
                    else if \<not> gfx_sender g then
                      (Inl ''EGFX: server-event sender not set'', g, calls)
                    else if \<not> ans_sent a then
                      (Inl ''EGFX: ServerEvent send failed'', g, calls @ [SendMessages])
                    else (Inr (), g, calls @ [SendMessages])))"

text \<open>
  One round of the ship loop: the frames that were waiting are counted off, shipped (an error is
  only logged) and counted as shipped. Both counters are wrapping atomics. The thread shares them
  with the connection for which it was started, \<open>session\<close>: a thread that outlives its connection
  counts on cells that nobody reads any more, while its frames go out on the current connection.
\<close>

definition on_session :: "nat \<Rightarrow> (connection \<Rightarrow> connection) \<Rightarrow> gfx \<Rightarrow> gfx" where
  "on_session session f g =
     g\<lparr>gfx_ctx := map_option (\<lambda>ctx. if diagnostic_session ctx = session then f ctx else ctx) (gfx_ctx g)\<rparr>"

definition count_off :: "nat \<Rightarrow> connection \<Rightarrow> connection" where
  "count_off n ctx =
     ctx\<lparr>encoded_pending := (encoded_pending ctx + (2 ^ 32 - n mod 2 ^ 32)) mod 2 ^ 32\<rparr>"

definition ship_round ::
  "gfx_config \<Rightarrow> answers \<Rightarrow> instant \<Rightarrow> nat \<Rightarrow> (encoded_frame \<times> nat option) list \<Rightarrow> gfx \<Rightarrow>
   gfx \<times> egfx_call list" where
  "ship_round c a now session frames g =
     (let n = length frames;
          g = on_session session (count_off n) g;
          (_, g, calls) = ship_frames c a now frames g
      in (on_session session (\<lambda>ctx. ctx\<lparr>shipped := (shipped ctx + n) mod 2 ^ 64\<rparr>) g, calls))"

text \<open>What a round leaves of the context before and after the frames go out.\<close>

definition counted_off :: "nat \<Rightarrow> nat \<Rightarrow> connection \<Rightarrow> connection" where
  "counted_off session n ctx = (if diagnostic_session ctx = session then count_off n ctx else ctx)"

definition counted_shipped :: "nat \<Rightarrow> nat \<Rightarrow> connection \<Rightarrow> connection" where
  "counted_shipped session n ctx =
     (if diagnostic_session ctx = session then ctx\<lparr>shipped := (shipped ctx + n) mod 2 ^ 64\<rparr> else ctx)"

lemma ship_round_eq:
  "ship_round c a now session frames g =
     (let (res, g1, calls) = ship_frames c a now frames
            (g\<lparr>gfx_ctx := map_option (counted_off session (length frames)) (gfx_ctx g)\<rparr>)
      in (g1\<lparr>gfx_ctx := map_option (counted_shipped session (length frames)) (gfx_ctx g1)\<rparr>, calls))"
  unfolding ship_round_def on_session_def counted_off_def [abs_def] counted_shipped_def [abs_def] Let_def
  by (rule refl)

section \<open>Callbacks of the graphics channel\<close>

abbreviation with_ctx :: "(connection \<Rightarrow> connection) \<Rightarrow> gfx \<Rightarrow> gfx" where
  "with_ctx f g \<equiv> g\<lparr>gfx_ctx := map_option f (gfx_ctx g)\<rparr>"

text \<open>The argument is the list of the sets that parsed.\<close>

definition capabilities_advertise :: "capability_set list \<Rightarrow> gfx \<Rightarrow> gfx" where
  "capabilities_advertise caps g =
     with_ctx (\<lambda>ctx. ctx\<lparr>client_supports_avc := caps_indicate_avc caps\<rparr>) g"

definition ready_ctx :: "connection \<Rightarrow> connection" where
  "ready_ctx ctx =
     (if client_supports_avc ctx then ctx\<lparr>is_ready := True, need_keyframe := True\<rparr>
      else ctx\<lparr>is_ready := False, egfx_declined := True\<rparr>)"

definition on_ready :: "gfx \<Rightarrow> gfx" where "on_ready g = with_ctx ready_ctx g"

text \<open>The round-trip sample of an acknowledged frame, in milliseconds.\<close>

definition rtt_sample :: "instant \<Rightarrow> nat \<Rightarrow> connection \<Rightarrow> f64 option" where
  "rtt_sample now frame_id ctx =
     (let (slot_id, shipped_at) = ship_times ctx ! (frame_id mod RTT_RING)
      in if slot_id = frame_id \<or> (slot_id \<noteq> U64_MAX \<and> frame_id < slot_id)
         then Some (as_secs_f64 (saturating_duration_since now shipped_at) * 1000)
         else None)"

definition fold_rtt :: "instant \<Rightarrow> f64 \<Rightarrow> connection \<Rightarrow> connection" where
  "fold_rtt now sample_ms ctx =
     (let ctx = (if RTT_MIN_WINDOW \<le> saturating_duration_since now (rtt_bucket_started ctx)
                 then ctx\<lparr>rtt_min_prev_ms := rtt_min_cur_ms ctx, rtt_min_cur_ms := None,
                          rtt_bucket_started := now\<rparr>
                 else ctx);
          (cur, delay) = queue_delay_fold sample_ms (rtt_min_cur_ms ctx) (rtt_min_prev_ms ctx)
      in ctx\<lparr>rtt_min_cur_ms := Some cur, queue_delay_ms := delay\<rparr>)"

definition ack_advance :: "instant \<Rightarrow> nat \<Rightarrow> connection \<Rightarrow> connection" where
  "ack_advance now frame_id ctx =
     (let ctx = ctx\<lparr>last_acked_frame_id := frame_id, egfx_acks_seen := True,
                    last_ack_advance_at := now\<rparr>
      in case rtt_sample now frame_id ctx of
           Some s \<Rightarrow> fold_rtt now s ctx
         | None \<Rightarrow> ctx)"

text \<open>The congestion counter and the context after a frame acknowledgement.\<close>

definition frame_ack ::
  "instant \<Rightarrow> nat \<Rightarrow> nat \<Rightarrow> nat \<times> connection \<Rightarrow> nat \<times> connection" where
  "frame_ack now frame_id queue_depth = (\<lambda>(retransmits, ctx).
     (let ctx = ctx\<lparr>ack_diagnostics := snd (diagnostic_record (ack_diagnostics ctx) now)\<rparr>;
          retransmits =
            (if \<not> acks_suspended ctx
                \<and> sat_add U32_MAX (last_ack_queue_depth ctx) 2 < queue_depth
             then (retransmits + 1) mod 2 ^ 64 else retransmits);
          ctx = ctx\<lparr>last_ack_queue_depth := queue_depth, last_ack_at := now,
                    acks_suspended := (queue_depth = U32_MAX)\<rparr>
      in (retransmits, if acks_suspended ctx then ctx else ack_advance now frame_id ctx)))"

definition on_frame_ack :: "instant \<Rightarrow> nat \<Rightarrow> nat \<Rightarrow> gfx \<Rightarrow> gfx" where
  "on_frame_ack now frame_id queue_depth g =
     (case gfx_ctx g of
        None \<Rightarrow> g
      | Some ctx \<Rightarrow>
          let (retransmits, ctx) = frame_ack now frame_id queue_depth (congestion_retransmits g, ctx)
          in g\<lparr>congestion_retransmits := retransmits, gfx_ctx := Some ctx\<rparr>)"

definition qoe_ctx :: "instant \<Rightarrow> nat \<Rightarrow> connection \<Rightarrow> connection" where
  "qoe_ctx now time_diff_dr ctx =
     (let ctx = ctx\<lparr>qoe := qoe_record (qoe ctx) time_diff_dr,
                    qoe_diagnostics := snd (diagnostic_record (qoe_diagnostics ctx) now)\<rparr>;
          ctx = (if 0 < time_diff_dr then ctx\<lparr>last_nonzero_qoe_at := now\<rparr> else ctx)
      in if \<not> presented_clean (qoe ctx) \<and> blank_recovery_attempts ctx = 0
            \<and> min_render_reports ctx \<le> nonzero_streak (qoe ctx)
         then ctx\<lparr>qoe := (qoe ctx)\<lparr>presented_clean := True\<rparr>\<rparr> else ctx)"

definition on_qoe_metrics :: "instant \<Rightarrow> nat \<Rightarrow> gfx \<Rightarrow> gfx" where
  "on_qoe_metrics now time_diff_dr g = with_ctx (qoe_ctx now time_diff_dr) g"

definition on_close :: "gfx \<Rightarrow> gfx" where
  "on_close g = with_ctx (\<lambda>ctx. ctx\<lparr>is_ready := False, encoder := False, surface_id := None,
     need_keyframe := True\<rparr>) g"

end
