(* ===== verification/Egfx_Run.thy ===== *)
theory Egfx_Run
  imports Egfx_Pipeline
begin

text \<open>
  The EGFX pipeline as one machine: the events that reach it from the capture loop, the ship
  thread, the graphics channel and the accept loop, in any interleaving at the granularity of
  the context lock, and what each operation keeps.
\<close>

text \<open>
  The server's side (\<open>vendor/macrdp-server/src/server.rs\<close>): the route of the graphics messages, the
  Soft-Sync that moves them to the tunnel (reliable or lossy), and the reset of the flags at the
  end of a connection.
\<close>

definition route_egfx :: "gfx \<Rightarrow> gfx \<times> egfx_call list" where
  "route_egfx g =
     (if egfx_on_udp g then
        if demigrate_request g then (g\<lparr>egfx_on_udp := False\<rparr>, [RouteTcp]) else (g, [RouteUdp])
      else (g, [RouteTcp]))"

definition soft_sync_egfx :: "bool \<Rightarrow> gfx \<Rightarrow> gfx" where
  "soft_sync_egfx lossy g =
     (let g = g\<lparr>egfx_on_udp := True\<rparr> in if lossy then g\<lparr>egfx_on_lossy := True\<rparr> else g)"

definition reset_connection_flags :: "gfx \<Rightarrow> gfx" where
  "reset_connection_flags g =
     g\<lparr>egfx_on_udp := False, egfx_on_lossy := False, demigrate_request := False\<rparr>"

datatype egfx_event =
    Connect nat instant
  | Capture answers instant bool
  | Ship answers instant nat "(encoded_frame \<times> nat option) list"
  | Ack instant nat nat
  | Qoe instant nat
  | Caps "capability_set list"
  | Ready
  | Closed
  | Resume
  | LiveResize
  | ForceIdr
  | RequestReactivation nat nat
  | TakeReactivation
  | Dispatch
  | SoftSync bool
  | EndConnection
  | LinkRtt nat
  | QueueDepth nat

fun egfx_step :: "gfx_config \<Rightarrow> gfx \<Rightarrow> egfx_event \<Rightarrow> gfx \<times> egfx_call list" where
  "egfx_step c g (Connect handle now) = (build_server_with_handle c g handle now, [])"
| "egfx_step c g (Capture a now key) = snd (submit_bgra c a now key g)"
| "egfx_step c g (Ship a now session frames) = ship_round c a now session frames g"
| "egfx_step c g (Ack now frame_id depth) = (on_frame_ack now frame_id depth g, [])"
| "egfx_step c g (Qoe now dr) = (on_qoe_metrics now dr g, [])"
| "egfx_step c g (Caps caps) = (capabilities_advertise caps g, [])"
| "egfx_step c g Ready = (on_ready g, [])"
| "egfx_step c g Closed = (on_close g, [])"
| "egfx_step c g Resume = (demigrate_on_resume g, [])"
| "egfx_step c g LiveResize = (reset_for_live_resize g, [])"
| "egfx_step c g ForceIdr = (force_keyframe g, [])"
| "egfx_step c g (RequestReactivation w h) = (request_reactivation w h g, [])"
| "egfx_step c g TakeReactivation = (snd (take_reactivate_request g), [])"
| "egfx_step c g Dispatch = route_egfx g"
| "egfx_step c g (SoftSync lossy) = (soft_sync_egfx lossy g, [])"
| "egfx_step c g EndConnection = (reset_connection_flags g, [])"
| "egfx_step c g (LinkRtt ms) = (g\<lparr>gfx_link_rtt_ms := ms\<rparr>, [])"
| "egfx_step c g (QueueDepth n) = (g\<lparr>event_queue := map_option (\<lambda>_. n) (event_queue g)\<rparr>, [])"

fun is_encode :: "egfx_call \<Rightarrow> bool" where
  "is_encode (EncodeBgra _) = True"
| "is_encode _ = False"

fun is_quit :: "egfx_call \<Rightarrow> bool" where
  "is_quit SendQuit = True"
| "is_quit _ = False"

lemmas event_defs = route_egfx_def soft_sync_egfx_def reset_connection_flags_def
  on_qoe_metrics_def capabilities_advertise_def on_ready_def ready_ctx_def on_close_def
  reset_for_live_resize_def force_keyframe_def request_reactivation_def
  take_reactivate_request_def Let_def

section \<open>What the parts of a submission keep\<close>

text \<open>The fields no setup touches, as one projection.\<close>

definition setup_frame :: "connection \<Rightarrow> connection" where
  "setup_frame ctx = ctx\<lparr>encoder := False, surface_id := None, dims := (0, 0), submitted := 0,
     shipped := 0, encoded_pending := 0\<rparr>"

lemma setup_locked_frame:
  "setup_locked c a ctx = (err, ctx', calls) \<Longrightarrow> setup_frame ctx' = setup_frame ctx"
  by (auto simp: setup_locked_def setup_surface_def setup_encoder_def setup_frame_def Let_def
      split: if_splits option.splits prod.splits)

lemma setup_locked_ready:
  "setup_locked c a ctx = (None, ctx', calls) \<Longrightarrow> surface_id ctx' \<noteq> None \<and> encoder ctx'"
  by (auto simp: setup_locked_def setup_surface_def setup_encoder_def Let_def
      split: if_splits option.splits prod.splits)

lemma setup_locked_calls:
  "setup_locked c a ctx = (err, ctx', calls) \<Longrightarrow>
     filter is_encode calls = [] \<and> filter is_quit calls = []"
  by (auto simp: setup_locked_def setup_surface_def setup_encoder_def Let_def
      split: if_splits option.splits prod.splits)

lemma setup_locked_counters:
  "setup_locked c a ctx = (err, ctx', calls) \<Longrightarrow>
     submitted ctx' = submitted ctx \<and> shipped ctx' = shipped ctx
     \<or> submitted ctx' = 0 \<and> shipped ctx' = 0"
  by (auto simp: setup_locked_def setup_surface_def setup_encoder_def Let_def
      split: if_splits option.splits prod.splits)

lemma frame_eqD:
  assumes "setup_frame x = setup_frame y"
  shows "need_keyframe x = need_keyframe y" and "qoe x = qoe y" and "demigrated x = demigrated y"
    and "blank_recovery_attempts x = blank_recovery_attempts y"
    and "adaptive_target_bps x = adaptive_target_bps y"
    and "adaptive_fps_stage x = adaptive_fps_stage y"
    and "egfx_acks_seen x = egfx_acks_seen y" and "acks_suspended x = acks_suspended y"
    and "epoch x = epoch y" and "last_blank_recovery_at x = last_blank_recovery_at y"
    and "min_render_reports x = min_render_reports y"
    and "adaptive_pid_fps x = adaptive_pid_fps y"
  using assms by (cases x; cases y; simp add: setup_frame_def)+

text \<open>The gates only move their own timers.\<close>

definition gate_frame :: "connection \<Rightarrow> connection" where
  "gate_frame ctx = ctx\<lparr>last_adaptive_fps_pass := 0, last_throttle_ship := 0\<rparr>"

lemma capture_gates_frame:
  "capture_gates c g now ctx = (ctx', d) \<Longrightarrow> gate_frame ctx' = gate_frame ctx"
  by (auto simp: capture_gates_def fps_gate_def udp_lag_gate_def gate_frame_def Let_def
      split: if_splits)

lemma gate_frameD:
  assumes "gate_frame x = gate_frame y"
  shows "need_keyframe x = need_keyframe y" and "encoder x = encoder y"
    and "surface_id x = surface_id y" and "qoe x = qoe y" and "demigrated x = demigrated y"
    and "blank_recovery_attempts x = blank_recovery_attempts y"
    and "submitted x = submitted y" and "shipped x = shipped y"
    and "adaptive_target_bps x = adaptive_target_bps y"
    and "adaptive_fps_stage x = adaptive_fps_stage y"
    and "min_render_reports x = min_render_reports y"
    and "epoch x = epoch y" and "last_blank_recovery_at x = last_blank_recovery_at y"
    and "adaptive_pid_fps x = adaptive_pid_fps y"
  using assms by (cases x; cases y; simp add: gate_frame_def)+

lemma capture_gates_depth:
  "capture_gates c g now ctx = (ctx', False) \<Longrightarrow> outstanding ctx < cfg_max_in_flight c"
  by (auto simp: capture_gates_def fps_gate_def outstanding_def Let_def split: if_splits)

text \<open>The detector moves its own state, and only raises the keyframe flag.\<close>

definition blank_frame :: "connection \<Rightarrow> connection" where
  "blank_frame ctx = ctx\<lparr>blank_gate_logged := False, blank_recovery_attempts := 0,
     last_blank_recovery_at := 0, qoe := qoe_default, need_keyframe := False\<rparr>"

lemma blank_detector_frame:
  "blank_detector c now (g, ctx) = ((g', ctx'), r) \<Longrightarrow> blank_frame ctx' = blank_frame ctx"
  by (auto simp: blank_detector_def storm_guard_def gate_logged_def arm_blank_def blank_frame_def
      Let_def split: if_splits)

lemma blank_frameD:
  assumes "blank_frame x = blank_frame y"
  shows "encoder x = encoder y" and "surface_id x = surface_id y" and "demigrated x = demigrated y"
    and "submitted x = submitted y" and "shipped x = shipped y"
    and "adaptive_target_bps x = adaptive_target_bps y"
    and "adaptive_fps_stage x = adaptive_fps_stage y"
    and "min_render_reports x = min_render_reports y"
    and "adaptive_pid_fps x = adaptive_pid_fps y"
  using assms by (cases x; cases y; simp add: blank_frame_def)+

lemma blank_detector_keyframe:
  "blank_detector c now (g, ctx) = ((g', ctx'), r) \<Longrightarrow> need_keyframe ctx \<Longrightarrow> need_keyframe ctx'"
  by (auto simp: blank_detector_def storm_guard_def gate_logged_def arm_blank_def
      Let_def split: if_splits)

lemma arm_recovery_idr_keyframe:
  "need_keyframe ctx \<Longrightarrow> need_keyframe (arm_recovery_idr c g now ctx)"
  by (simp add: arm_recovery_idr_def)

lemma watchdog_keyframe:
  "watchdog c now (g, ctx) = (g', ctx') \<Longrightarrow> need_keyframe ctx \<Longrightarrow> need_keyframe ctx'"
  by (auto simp: watchdog_def demigrate_def split: if_splits)

text \<open>The case analysis of a submission that every later proof uses.\<close>

lemma admit_ready_cases:
  assumes "admit_ready c now g ctx = (adm, g')"
  obtains (recover) g1 ctx1 r where "blank_detector c now (g, ctx) = ((g1, ctx1), Some r)"
      "adm = Recover r" "g' = g1\<lparr>gfx_ctx := Some ctx1\<rparr>"
  | (dropped) g1 ctx1 ctx2 where "blank_detector c now (g, ctx) = ((g1, ctx1), None)"
      "capture_gates c g1 now ctx1 = (ctx2, True)"
      "adm = Return True" "g' = g1\<lparr>gfx_ctx := Some ctx2\<rparr>"
  | (admitted) g1 ctx1 ctx2 where "blank_detector c now (g, ctx) = ((g1, ctx1), None)"
      "capture_gates c g1 now ctx1 = (ctx2, False)"
      "adm = Admit (need_keyframe ctx2)"
      "g' = g1\<lparr>gfx_ctx := Some (ctx2\<lparr>need_keyframe := False\<rparr>)\<rparr>"
  using assms unfolding admit_ready_def
  by (auto simp: Let_def split: prod.splits option.splits if_splits)

lemma admit_cases:
  assumes "admit c a now key g = (adm, g', calls)"
  obtains (inactive) b where "adm = Return b" "g' = g" "calls = []"
      "\<forall>ctx. gfx_ctx g = Some ctx \<longrightarrow> \<not> is_ready ctx \<or> event_queue_full c g"
  | (failed) ctx g1 ctx1 e ctx2 where "gfx_ctx g = Some ctx"
      "armed_ctx c now key g ctx = (g1, ctx1)" "setup_needed c a ctx1 = (Some e, ctx2, calls)"
      "adm = Fail e" "g' = g1\<lparr>gfx_ctx := Some ctx2\<rparr>"
  | (ready) ctx g1 ctx1 ctx2 where "gfx_ctx g = Some ctx"
      "armed_ctx c now key g ctx = (g1, ctx1)" "setup_needed c a ctx1 = (None, ctx2, calls)"
      "admit_ready c now g1 ctx2 = (adm, g')"
  using assms unfolding admit_def
  by (auto simp: Let_def split: prod.splits option.splits if_splits)

lemma setup_needed_frame:
  "setup_needed c a ctx = (err, ctx', calls) \<Longrightarrow> setup_frame ctx' = setup_frame ctx"
  by (auto simp: setup_needed_def dest: setup_locked_frame split: if_splits)

lemma setup_needed_ready:
  "setup_needed c a ctx = (None, ctx', calls) \<Longrightarrow> surface_id ctx' \<noteq> None \<and> encoder ctx'"
  by (auto simp: setup_needed_def dest: setup_locked_ready split: if_splits)

lemma setup_needed_calls:
  "setup_needed c a ctx = (err, ctx', calls) \<Longrightarrow>
     filter is_encode calls = [] \<and> filter is_quit calls = []"
  by (auto simp: setup_needed_def dest: setup_locked_calls split: if_splits)

lemma setup_needed_counters:
  "setup_needed c a ctx = (err, ctx', calls) \<Longrightarrow>
     submitted ctx' = submitted ctx \<and> shipped ctx' = shipped ctx
     \<or> submitted ctx' = 0 \<and> shipped ctx' = 0"
  by (auto simp: setup_needed_def dest: setup_locked_counters split: if_splits)

section \<open>The keyframe flag\<close>

definition keyframe_armed :: "gfx \<Rightarrow> bool" where
  "keyframe_armed g \<longleftrightarrow> (case gfx_ctx g of None \<Rightarrow> True | Some ctx \<Rightarrow> need_keyframe ctx)"

lemma armed_ctx_keyframe:
  "armed_ctx c now key g ctx = (g', ctx') \<Longrightarrow> need_keyframe ctx \<or> key \<Longrightarrow> need_keyframe ctx'"
  unfolding armed_ctx_def Let_def
  by (erule watchdog_keyframe) (auto intro: arm_recovery_idr_keyframe)

lemma admit_ready_keyframe:
  assumes "admit_ready c now g ctx = (adm, g')" and "need_keyframe ctx" and "encoder ctx"
  shows "case adm of Admit k \<Rightarrow> k \<and> (\<exists>ctx'. gfx_ctx g' = Some ctx' \<and> encoder ctx')
    | _ \<Rightarrow> keyframe_armed g'"
  using assms(1)
proof (cases rule: admit_ready_cases)
  case (recover g1 ctx1 r)
  with assms(2) show ?thesis by (auto simp: keyframe_armed_def dest: blank_detector_keyframe)
next
  case (dropped g1 ctx1 ctx2)
  from dropped(1) assms(2) have "need_keyframe ctx1" by (rule blank_detector_keyframe)
  with gate_frameD(1) [OF capture_gates_frame [OF dropped(2)]] dropped(3,4)
  show ?thesis by (simp add: keyframe_armed_def)
next
  case (admitted g1 ctx1 ctx2)
  from admitted(1) assms(2) have "need_keyframe ctx1" by (rule blank_detector_keyframe)
  moreover have "encoder ctx1"
    using blank_frameD(1) [OF blank_detector_frame [OF admitted(1)]] assms(3) by simp
  ultimately show ?thesis
    using gate_frameD(1,2) [OF capture_gates_frame [OF admitted(2)]] admitted(3,4) by simp
qed

text \<open>
  A keyframe is asked for: by an earlier request the connection still holds, or by this submission
  when the channel is ready and the event queue has room.
\<close>

definition keyframe_asked :: "gfx_config \<Rightarrow> bool \<Rightarrow> gfx \<Rightarrow> bool" where
  "keyframe_asked c key g \<longleftrightarrow> keyframe_armed g \<or>
     key \<and> \<not> event_queue_full c g \<and> (\<forall>ctx. gfx_ctx g = Some ctx \<longrightarrow> is_ready ctx)"

lemma admit_keyframe:
  assumes adm: "admit c a now key g = (adm, g', calls)" and armed: "keyframe_asked c key g"
  shows "filter is_encode calls = []"
    and "case adm of Admit k \<Rightarrow> k \<and> (\<exists>ctx'. gfx_ctx g' = Some ctx' \<and> encoder ctx')
      | _ \<Rightarrow> keyframe_armed g'"
proof -
  have "filter is_encode calls = [] \<and>
    (case adm of Admit k \<Rightarrow> k \<and> (\<exists>ctx'. gfx_ctx g' = Some ctx' \<and> encoder ctx')
      | _ \<Rightarrow> keyframe_armed g')"
    using adm
  proof (cases rule: admit_cases)
    case (inactive b)
    with armed show ?thesis
      by (auto simp: keyframe_asked_def keyframe_armed_def split: option.splits)
  next
    case (failed ctx g1 ctx1 e ctx2)
    have "need_keyframe ctx1"
      using armed_ctx_keyframe [OF failed(2)] armed failed(1)
      by (auto simp: keyframe_asked_def keyframe_armed_def)
    then have "need_keyframe ctx2" using frame_eqD(1) [OF setup_needed_frame [OF failed(3)]] by simp
    with failed setup_needed_calls [OF failed(3)] show ?thesis by (simp add: keyframe_armed_def)
  next
    case (ready ctx g1 ctx1 ctx2)
    have "need_keyframe ctx1"
      using armed_ctx_keyframe [OF ready(2)] armed ready(1)
      by (auto simp: keyframe_asked_def keyframe_armed_def)
    then have "need_keyframe ctx2" using frame_eqD(1) [OF setup_needed_frame [OF ready(3)]] by simp
    with admit_ready_keyframe [OF ready(4)] setup_needed_ready [OF ready(3)]
      setup_needed_calls [OF ready(3)] show ?thesis by simp
  qed
  then show "filter is_encode calls = []"
    and "case adm of Admit k \<Rightarrow> k \<and> (\<exists>ctx'. gfx_ctx g' = Some ctx' \<and> encoder ctx')
      | _ \<Rightarrow> keyframe_armed g'" by auto
qed

lemma run_recovery_keyframe:
  assumes "run_recovery a r g = (g', calls)"
  shows "filter is_encode calls = []" and "keyframe_armed g \<Longrightarrow> keyframe_armed g'"
  using assms
  by (auto simp: run_recovery_def perform_blank_remap_def perform_blank_reactivate_def
      perform_blank_drop_def keyframe_armed_def Let_def
      split: blank_action.splits option.splits if_splits)

text \<open>The controller keeps everything but its own state, and may raise the keyframe flag.\<close>

definition control_frame :: "connection \<Rightarrow> connection" where
  "control_frame ctx = ctx\<lparr>adaptive_target_bps := 0, adaptive_ceiling_bps := 0,
     adaptive_pid_integral := 0, adaptive_pid_previous_error := 0, adaptive_last_control := 0,
     adaptive_last_retransmits := 0, idr_backed_off := False, adaptive_on_udp := False,
     adaptive_warmup_until := None, adaptive_delay_ewma := 0, adaptive_congested := False,
     adaptive_fps_stage := Configured 0, adaptive_fps_clear_since := None, adaptive_pid_fps := 0,
     adaptive_pid_fps_integral := 0, adaptive_pid_fps_previous_error := 0,
     need_keyframe := False\<rparr>"

lemma control_frame_parts:
  "control_frame (arm_warmup now ctx) = control_frame ctx"
  "control_frame (snd (transport_edge c udp now ctx)) = control_frame ctx"
  "control_frame (snd (congestion_signal c n w now ctx)) = control_frame ctx"
  "control_frame (snd (bitrate_control c u b err ctx)) = control_frame ctx"
  "control_frame (fps_control c f err ctx) = control_frame ctx"
  "control_frame (snd (idr_control c ctx)) = control_frame ctx"
  by (simp_all add: arm_warmup_def transport_edge_def congestion_signal_def bitrate_control_def
      fps_control_def idr_control_def control_frame_def Let_def
      split: prod.splits if_splits idr_backoff.splits)

lemma adaptive_last_control_frame:
  "control_frame (ctx\<lparr>adaptive_last_control := t\<rparr>) = control_frame ctx"
  by (simp add: control_frame_def)

lemma adaptive_bitrate_step_frame:
  assumes "adaptive_bitrate_step c g now ctx = (actions, ctx')"
  shows "control_frame ctx' = control_frame ctx"
proof -
  have interval: "control_frame (snd (control_interval c n w now acts x)) = control_frame x"
    for n w acts x
    unfolding control_interval_def Let_def split_beta
    by (simp only: snd_conv control_frame_parts adaptive_last_control_frame)
  have "control_frame (snd (adaptive_bitrate_step c g now ctx)) = control_frame ctx"
    unfolding adaptive_bitrate_step_def Let_def split_beta
    by (simp only: snd_conv control_frame_parts interval if_distrib [of snd]
        if_distrib [of control_frame] if_cancel)
  with assms show ?thesis by simp
qed

lemma control_frameD:
  assumes "control_frame x = control_frame y"
  shows "encoder x = encoder y" and "surface_id x = surface_id y" and "qoe x = qoe y"
    and "demigrated x = demigrated y"
    and "blank_recovery_attempts x = blank_recovery_attempts y"
    and "submitted x = submitted y" and "shipped x = shipped y"
    and "min_render_reports x = min_render_reports y"
    and "epoch x = epoch y" and "last_blank_recovery_at x = last_blank_recovery_at y"
  using assms by (cases x; cases y; simp add: control_frame_def)+

lemma encode_phase_first:
  assumes "encode_phase c a now key g = (res, g', calls)"
    and "gfx_ctx g = Some ctx" and "encoder ctx"
  shows "filter is_encode calls = [EncodeBgra key]" and "filter is_quit calls = []"
proof -
  obtain acts ctx1 where step: "adaptive_bitrate_step c g now ctx = (acts, ctx1)" by fastforce
  have "encoder ctx1" using control_frameD(1) [OF adaptive_bitrate_step_frame [OF step]] assms(3)
    by simp
  then show "filter is_encode calls = [EncodeBgra key]" and "filter is_quit calls = []"
    using assms(1,2) step by (auto simp: encode_phase_def Let_def split: if_splits option.splits)
qed

lemma capture_keyframe:
  assumes "submit_bgra c a now key g = (res, g', calls)" and "keyframe_asked c key g"
  shows "filter is_encode calls = [] \<and> keyframe_armed g' \<or> filter is_encode calls = [EncodeBgra True]"
proof -
  obtain adm g1 calls1 where adm: "admit c a now key g = (adm, g1, calls1)"
    by (metis prod_cases3)
  note k = admit_keyframe [OF adm assms(2)]
  show ?thesis
  proof (cases adm)
    case (Return b)
    with k adm assms(1) show ?thesis by (simp add: submit_bgra_def)
  next
    case (Fail e)
    with k adm assms(1) show ?thesis by (simp add: submit_bgra_def)
  next
    case (Recover r)
    obtain g2 calls2 where rec: "run_recovery a r g1 = (g2, calls2)" by fastforce
    have "keyframe_armed g1" using k(2) Recover by simp
    with rec run_recovery_keyframe [OF rec] Recover k(1) adm assms(1)
    show ?thesis by (auto simp: submit_bgra_def)
  next
    case (Admit flag)
    with k(2) obtain ctx where flag: "flag" and ctx: "gfx_ctx g1 = Some ctx" "encoder ctx" by auto
    obtain r2 g2 calls2 where enc: "encode_phase c a now flag g1 = (r2, g2, calls2)"
      by (metis prod_cases3)
    with encode_phase_first [OF enc ctx] flag Admit k(1) adm assms(1)
    show ?thesis by (auto simp: submit_bgra_def)
  qed
qed

lemma ship_all_frame:
  "ship_all c now sid frames ctx = (ctx', calls) \<Longrightarrow>
     ctx'\<lparr>last_shipped_frame_id := 0, ship_times := []\<rparr>
       = ctx\<lparr>last_shipped_frame_id := 0, ship_times := []\<rparr>
     \<and> filter is_encode calls = [] \<and> filter is_quit calls = []"
proof (induction frames arbitrary: ctx' calls rule: rev_induct)
  case Nil
  then show ?case by (simp add: ship_all_def)
next
  case (snoc x frames)
  obtain ctx1 calls1 where front: "ship_all c now sid frames ctx = (ctx1, calls1)" by fastforce
  from snoc.prems front show ?case
    using snoc.IH [OF front]
    by (cases x) (auto simp: ship_all_def ship_frame_def Let_def split: option.splits)
qed

lemma ship_all_keeps:
  assumes "ship_all c now sid frames ctx = (ctx', calls)"
  shows "need_keyframe ctx' = need_keyframe ctx" and "demigrated ctx' = demigrated ctx"
    and "qoe ctx' = qoe ctx" and "blank_recovery_attempts ctx' = blank_recovery_attempts ctx"
    and "submitted ctx' = submitted ctx" and "shipped ctx' = shipped ctx"
    and "adaptive_target_bps ctx' = adaptive_target_bps ctx"
    and "adaptive_fps_stage ctx' = adaptive_fps_stage ctx"
    and "min_render_reports ctx' = min_render_reports ctx"
    and "epoch ctx' = epoch ctx" and "last_blank_recovery_at ctx' = last_blank_recovery_at ctx"
    and "adaptive_pid_fps ctx' = adaptive_pid_fps ctx"
    and "diagnostic_session ctx' = diagnostic_session ctx" and "encoder ctx' = encoder ctx"
    and "is_ready ctx' = is_ready ctx"
  using ship_all_frame [OF assms] by (cases ctx; cases ctx'; simp)+

lemma ship_frames_cases:
  assumes "ship_frames c a now frames g = (res, g', calls)"
  obtains (none) "gfx_ctx g = None" "g' = g" "calls = []"
  | (unset) ctx where "gfx_ctx g = Some ctx" "g' = g" "calls = []"
  | (unassigned) ctx where "gfx_ctx g = Some ctx"
      "g' = g\<lparr>gfx_ctx := Some (ctx\<lparr>last_ship_at := now\<rparr>)\<rparr>" "calls = []"
  | (sent) ctx sid ctx' cs where "gfx_ctx g = Some ctx"
      "ship_all c now sid frames (ctx\<lparr>last_ship_at := now\<rparr>) = (ctx', cs)"
      "g' = g\<lparr>gfx_ctx := Some ctx'\<rparr>" "calls = cs \<or> calls = cs @ [SendMessages]"
proof (cases "gfx_ctx g")
  case None
  with assms show thesis by (intro none) (simp_all add: ship_frames_def)
next
  case (Some ctx)
  note ctx = this
  show thesis
  proof (cases "surface_id ctx")
    case None
    with ctx assms show thesis by (intro unset [OF ctx]) (simp_all add: ship_frames_def)
  next
    case (Some sid)
    obtain ctx' cs where sh:
        "ship_all c now sid frames (ctx\<lparr>last_ship_at := now\<rparr>) = (ctx', cs)" by fastforce
    have "ans_channel a = None \<or> g' = g\<lparr>gfx_ctx := Some ctx'\<rparr>
        \<and> (calls = cs \<or> calls = cs @ [SendMessages])"
      using assms ctx Some sh by (simp add: ship_frames_def Let_def split: if_splits)
    with assms ctx Some sh show thesis
      by (cases "ans_channel a") (auto intro: unassigned [OF ctx] sent [OF ctx sh]
          simp: ship_frames_def Let_def)
  qed
qed

lemma count_off_keeps [simp]:
  "diagnostic_session (count_off n ctx) = diagnostic_session ctx"
  "need_keyframe (count_off n ctx) = need_keyframe ctx"
  "demigrated (count_off n ctx) = demigrated ctx" "qoe (count_off n ctx) = qoe ctx"
  "blank_recovery_attempts (count_off n ctx) = blank_recovery_attempts ctx"
  "submitted (count_off n ctx) = submitted ctx" "shipped (count_off n ctx) = shipped ctx"
  "adaptive_target_bps (count_off n ctx) = adaptive_target_bps ctx"
  "adaptive_fps_stage (count_off n ctx) = adaptive_fps_stage ctx"
  "min_render_reports (count_off n ctx) = min_render_reports ctx"
  "epoch (count_off n ctx) = epoch ctx"
  "last_blank_recovery_at (count_off n ctx) = last_blank_recovery_at ctx"
  "adaptive_pid_fps (count_off n ctx) = adaptive_pid_fps ctx"
  by (simp_all add: count_off_def)

lemma counted_keeps [simp]:
  "need_keyframe (counted_off m n ctx) = need_keyframe ctx"
  "demigrated (counted_off m n ctx) = demigrated ctx" "qoe (counted_off m n ctx) = qoe ctx"
  "blank_recovery_attempts (counted_off m n ctx) = blank_recovery_attempts ctx"
  "submitted (counted_off m n ctx) = submitted ctx" "shipped (counted_off m n ctx) = shipped ctx"
  "adaptive_target_bps (counted_off m n ctx) = adaptive_target_bps ctx"
  "adaptive_fps_stage (counted_off m n ctx) = adaptive_fps_stage ctx"
  "min_render_reports (counted_off m n ctx) = min_render_reports ctx"
  "epoch (counted_off m n ctx) = epoch ctx"
  "last_blank_recovery_at (counted_off m n ctx) = last_blank_recovery_at ctx"
  "adaptive_pid_fps (counted_off m n ctx) = adaptive_pid_fps ctx"
  "diagnostic_session (counted_off m n ctx) = diagnostic_session ctx"
  "encoder (counted_off m n ctx) = encoder ctx" "is_ready (counted_off m n ctx) = is_ready ctx"
  by (simp_all add: counted_off_def) (simp_all add: count_off_def)

lemma counted_shipped_keeps [simp]:
  "need_keyframe (counted_shipped m n ctx) = need_keyframe ctx"
  "demigrated (counted_shipped m n ctx) = demigrated ctx" "qoe (counted_shipped m n ctx) = qoe ctx"
  "blank_recovery_attempts (counted_shipped m n ctx) = blank_recovery_attempts ctx"
  "submitted (counted_shipped m n ctx) = submitted ctx"
  "adaptive_target_bps (counted_shipped m n ctx) = adaptive_target_bps ctx"
  "adaptive_fps_stage (counted_shipped m n ctx) = adaptive_fps_stage ctx"
  "min_render_reports (counted_shipped m n ctx) = min_render_reports ctx"
  "epoch (counted_shipped m n ctx) = epoch ctx"
  "last_blank_recovery_at (counted_shipped m n ctx) = last_blank_recovery_at ctx"
  "adaptive_pid_fps (counted_shipped m n ctx) = adaptive_pid_fps ctx"
  "diagnostic_session (counted_shipped m n ctx) = diagnostic_session ctx"
  "encoder (counted_shipped m n ctx) = encoder ctx" "is_ready (counted_shipped m n ctx) = is_ready ctx"
  "shipped (counted_shipped m n ctx) =
     (if diagnostic_session ctx = m then (shipped ctx + n) mod 2 ^ 64 else shipped ctx)"
  by (simp_all add: counted_shipped_def)

lemma ship_round_cases:
  assumes "ship_round c a now session frames g = (g', calls)"
  obtains (none) "gfx_ctx g = None" "g' = g" "calls = []"
  | (some) ctx ctx' where "gfx_ctx g = Some ctx" "gfx_ctx g' = Some ctx'"
      "g'\<lparr>gfx_ctx := None\<rparr> = g\<lparr>gfx_ctx := None\<rparr>"
      "shipped ctx' = (if diagnostic_session ctx = session then (shipped ctx + length frames) mod 2 ^ 64
         else shipped ctx)" "submitted ctx' = submitted ctx"
      "need_keyframe ctx' = need_keyframe ctx" "demigrated ctx' = demigrated ctx"
      "qoe ctx' = qoe ctx" "blank_recovery_attempts ctx' = blank_recovery_attempts ctx"
      "adaptive_target_bps ctx' = adaptive_target_bps ctx"
      "adaptive_fps_stage ctx' = adaptive_fps_stage ctx"
      "min_render_reports ctx' = min_render_reports ctx"
      "epoch ctx' = epoch ctx" "last_blank_recovery_at ctx' = last_blank_recovery_at ctx"
      "adaptive_pid_fps ctx' = adaptive_pid_fps ctx"
      "diagnostic_session ctx' = diagnostic_session ctx" "encoder ctx' = encoder ctx"
      "is_ready ctx' = is_ready ctx"
      "filter is_encode calls = []" "filter is_quit calls = []"
proof (cases "gfx_ctx g")
  case None
  with assms show thesis
    by (intro none) (auto simp: ship_round_eq ship_frames_def Let_def)
next
  case (Some ctx)
  let ?n = "length frames"
  let ?c = "counted_off session ?n ctx"
  obtain res g1 calls1 where sf: "ship_frames c a now frames (g\<lparr>gfx_ctx := Some ?c\<rparr>) = (res, g1, calls1)"
    by (metis prod_cases3)
  have res: "calls = calls1" "g' = g1\<lparr>gfx_ctx := map_option (counted_shipped session ?n) (gfx_ctx g1)\<rparr>"
    using assms Some sf by (simp_all add: ship_round_eq)
  show thesis
    using sf
  proof (cases rule: ship_frames_cases)
    case none
    then show thesis by simp
  next
    case (unset x)
    then show thesis using res
      by (intro some [OF Some, of "the (gfx_ctx g')"]) auto
  next
    case (unassigned x)
    then show thesis using res
      by (intro some [OF Some, of "the (gfx_ctx g')"]) auto
  next
    case (sent x sid ctx' cs)
    have x: "x = ?c" using sent(1) by simp
    have keeps: "need_keyframe ctx' = need_keyframe ctx" "demigrated ctx' = demigrated ctx"
      "qoe ctx' = qoe ctx" "blank_recovery_attempts ctx' = blank_recovery_attempts ctx"
      "submitted ctx' = submitted ctx" "shipped ctx' = shipped ctx"
      "adaptive_target_bps ctx' = adaptive_target_bps ctx"
      "adaptive_fps_stage ctx' = adaptive_fps_stage ctx"
      "min_render_reports ctx' = min_render_reports ctx"
      "epoch ctx' = epoch ctx" "last_blank_recovery_at ctx' = last_blank_recovery_at ctx"
      "adaptive_pid_fps ctx' = adaptive_pid_fps ctx"
      "diagnostic_session ctx' = diagnostic_session ctx" "encoder ctx' = encoder ctx"
      "is_ready ctx' = is_ready ctx"
      using ship_all_keeps [OF sent(2)] by (simp_all add: x)
    have outs: "filter is_encode calls = [] \<and> filter is_quit calls = []"
      using ship_all_frame [OF sent(2)] res(1) sent(4) by auto
    show thesis
      by (rule some [OF Some, of "counted_shipped session ?n ctx'"])
        (simp_all add: keeps outs res(2) sent(3))
  qed
qed

end
