(* ===== verification/Egfx_Props.thy ===== *)
theory Egfx_Props
  imports Egfx_Run
begin

text \<open>
  The properties of the EGFX pipeline: the keyframe discipline, the recovery actions and the
  reconnect-storm guard, the de-migration latch, the depth of the encode pipeline, the bounds
  and the direction of the rate control, the round-trip samples and the framing. The
  interpretations at the head of each part connect the run locales of the prelude with the
  operations.
\<close>

section \<open>Keyframes\<close>

lemma with_ctx_keyframe:
  "(\<And>ctx. need_keyframe ctx \<Longrightarrow> need_keyframe (f ctx)) \<Longrightarrow> keyframe_armed g \<Longrightarrow>
     keyframe_armed (with_ctx f g)"
  by (auto simp: keyframe_armed_def split: option.splits)

lemma fold_rtt_keyframe: "need_keyframe (fold_rtt now s ctx) = need_keyframe ctx"
  by (simp add: fold_rtt_def Let_def split: prod.splits)

lemma on_frame_ack_keyframe: "keyframe_armed g \<Longrightarrow> keyframe_armed (on_frame_ack now f q g)"
  by (auto simp: keyframe_armed_def on_frame_ack_def frame_ack_def ack_advance_def Let_def
      fold_rtt_keyframe split: option.splits prod.splits)

interpretation keyframe: armed_emitter "egfx_step c" keyframe_armed "\<lambda>e. True" is_encode
    "\<lambda>x. x = EncodeBgra True"
proof
  fix g e
  assume armed: "keyframe_armed g"
  show "filter is_encode (snd (egfx_step c g e)) = [] \<and> keyframe_armed (fst (egfx_step c g e)) \<or>
    (\<exists>x xs. filter is_encode (snd (egfx_step c g e)) = x # xs \<and> x = EncodeBgra True)"
  proof (cases e)
    case (Capture a now key)
    obtain res g' calls where sub: "submit_bgra c a now key g = (res, g', calls)"
      by (metis prod_cases3)
    from capture_keyframe [OF sub] armed sub Capture keyframe_asked_def show ?thesis by auto
  next
    case (Ship a now session frames)
    obtain g' calls where sr: "ship_round c a now session frames g = (g', calls)" by fastforce
    then have "filter is_encode calls = [] \<and> keyframe_armed g'"
      using armed by (cases rule: ship_round_cases) (auto simp: keyframe_armed_def)
    with sr Ship show ?thesis by simp
  next
    case (Ack now f q)
    with on_frame_ack_keyframe [OF armed, of now f q] show ?thesis by simp
  next
    case (Resume)
    have "keyframe_armed (demigrate_on_resume g)"
      using armed by (auto simp: demigrate_on_resume_def demigrate_def keyframe_armed_def
          split: option.splits)
    with Resume show ?thesis by simp
  qed (use armed in \<open>auto intro!: with_ctx_keyframe on_frame_ack_keyframe
      simp: build_server_with_handle_def new_connection_def keyframe_armed_def qoe_ctx_def
        event_defs split: option.splits\<close>)
qed

text \<open>
  The frames offered to the encoder in a run: whether a keyframe is demanded, and whether the encoder
  takes the frame (\<open>encode_bgra\<close> returns without an error). The frames it takes are those encoded.
\<close>

fun offered :: "egfx_event \<Rightarrow> egfx_call list \<Rightarrow> (bool \<times> bool) list" where
  "offered (Capture a now key) calls =
     List.map_filter (\<lambda>x. case x of EncodeBgra k \<Rightarrow> Some (k, ans_encode a) | _ \<Rightarrow> None) calls"
| "offered _ calls = []"

fun offers :: "gfx_config \<Rightarrow> gfx \<Rightarrow> egfx_event list \<Rightarrow> (bool \<times> bool) list" where
  "offers c g [] = []"
| "offers c g (e # es) = (let (g', calls) = egfx_step c g e in offered e calls @ offers c g' es)"

definition encoded :: "gfx_config \<Rightarrow> gfx \<Rightarrow> egfx_event list \<Rightarrow> bool list" where
  "encoded c g es = map fst (filter snd (offers c g es))"

lemma map_filter_encode:
  "map (\<lambda>x. EncodeBgra (fst x)) (List.map_filter (\<lambda>x. case x of EncodeBgra k \<Rightarrow> Some (k, t0) | _ \<Rightarrow> None) calls)
     = filter is_encode calls"
proof (induction calls)
  case (Cons x calls)
  then show ?case by (cases x) (simp_all add: List.map_filter_simps)
qed (simp add: List.map_filter_simps)

lemma egfx_step_encodes:
  assumes "\<forall>a now key. e \<noteq> Capture a now key"
  shows "filter is_encode (snd (egfx_step c g e)) = []"
proof (cases e)
  case (Ship a now session frames)
  obtain g' calls where sr: "ship_round c a now session frames g = (g', calls)" by fastforce
  then have "filter is_encode calls = []" by (cases rule: ship_round_cases) simp_all
  with sr Ship show ?thesis by simp
qed (use assms in \<open>simp_all add: route_egfx_def\<close>)

lemma offered_calls: "map (\<lambda>x. EncodeBgra (fst x)) (offered e (snd (egfx_step c g e))) = filter is_encode (snd (egfx_step c g e))"
proof (cases "\<exists>a now key. e = Capture a now key")
  case True
  then show ?thesis by (auto simp: map_filter_encode)
next
  case False
  then have "offered e calls = []" for calls by (cases e) auto
  with egfx_step_encodes [of e c g] False show ?thesis by auto
qed

lemma offers_calls:
  "map (\<lambda>x. EncodeBgra (fst x)) (offers c g es) = filter is_encode (snd (run_out (egfx_step c) g es))"
proof (induction es arbitrary: g)
  case (Cons e es)
  show ?case using Cons offered_calls [of e c g] by (simp add: split_beta Let_def)
qed simp

text \<open>
  C3. However the operations interleave, the first frame offered to the encoder after a connection
  is set up, after a live resize or a channel close, after a resume that leaves the UDP tunnel, or
  after a manual resync is offered as a forced keyframe: the request survives every dropped capture,
  failed setup and recovery action in between. So, when the encoder takes it, the first frame encoded
  is a forced keyframe. (When the encoder refuses that very frame the request is gone, see
  \<open>refused_keyframe_lost\<close>.)
\<close>

theorem keyframe_not_lost:
  assumes "e = Connect handle now \<or> e = LiveResize \<or> e = Closed \<or> e = ForceIdr
      \<or> e = RequestReactivation w h
      \<or> e = Resume \<and> demigrate_request (fst (egfx_step c g e)) \<and> \<not> demigrate_request g"
    and "offers c (fst (egfx_step c g e)) es = (key, taken) # rest"
  shows "key \<and> (\<exists>calls. filter is_encode (snd (run_out (egfx_step c) (fst (egfx_step c g e)) es))
        = EncodeBgra True # calls)
    \<and> (taken \<longrightarrow> (\<exists>flags. encoded c (fst (egfx_step c g e)) es = True # flags))"
proof -
  let ?g = "fst (egfx_step c g e)"
  have first: "filter is_encode (snd (run_out (egfx_step c) ?g es))
      = EncodeBgra key # map (\<lambda>x. EncodeBgra (fst x)) rest"
    using offers_calls [of c ?g es] assms(2) by simp
  have "keyframe_armed ?g"
    using assms(1)
    by (auto simp: build_server_with_handle_def new_connection_def Let_def keyframe_armed_def
        reset_for_live_resize_def on_close_def force_keyframe_def request_reactivation_def
        demigrate_on_resume_def demigrate_def split: option.splits if_splits)
  then have "EncodeBgra key = EncodeBgra True" by (rule keyframe.run_first) (use first in auto)
  with first assms(2) show ?thesis by (simp add: encoded_def)
qed

text \<open>A session with a surface allocated and no client sample yet, used by the witnesses.\<close>

definition sample_env :: env where "sample_env = (\<lambda>_. None)"

definition sample_config :: gfx_config where
  "sample_config = gfx_new sample_env \<lparr>arg_fps = 60, arg_bitrate_bps = 10000000,
     arg_keyframe_secs = 2, arg_max_in_flight = 3, arg_adaptive_bitrate = False\<rparr>"

definition sample_gfx :: gfx where
  "sample_gfx = \<lparr>gfx_ctx = None, gfx_sender = True, egfx_on_lossy = False, egfx_on_udp = False,
     demigrate_request = False, congestion_retransmits = 0, consecutive_blank_drops = 0,
     gfx_link_rtt_ms = 0, event_queue = None, reactivate_request = 0, next_session = 1\<rparr>"

definition sample_answers :: answers where
  "sample_answers = \<lparr>ans_desktop = (1920, 1080), ans_server_ready = True, ans_surface = Some 0,
     ans_mapped = True, ans_channel = Some 7, ans_output = True, ans_framed = True,
     ans_sent = True, ans_encoder_new = True, ans_receiver = True, ans_thread = True,
     ans_encode = True\<rparr>"

lemma sample_config_fields:
  "cfg_adaptive_enabled sample_config = False" "cfg_recovery_enabled sample_config = False"
  "cfg_watchdog_enabled sample_config = True" "cfg_blank_recovery_enabled sample_config = True"
  "cfg_max_in_flight sample_config = 3" "cfg_max_frame_lag sample_config = 16"
  "cfg_fps sample_config = 60" "cfg_bitrate_bps sample_config = 10000000"
  "cfg_blank_params sample_config = blank_params_from_env sample_env"
  "cfg_watchdog_wedge_timeout sample_config = from_millis 3000"
  "cfg_watchdog_active_window sample_config = from_millis 1000"
  by (simp_all add: sample_config_def gfx_new_def Let_def sample_env_def recovery_config_from_env_def
      env_truthy_def env_default_on_def env_parse_def opt_filter_def or_default_def watchdog_ms_def)

lemma sample_blank_params:
  "blank_params_from_env sample_env =
     \<lparr>bp_min_qoe_reports = 24, bp_min_render_reports = 3, bp_established_render_reports = 40,
      bp_established_min_qoe = 160, bp_established_max_wait = from_millis 30000,
      bp_established_wall_reports = 16, bp_arm_delay = from_millis 3000,
      bp_retry_interval = from_millis 4000, bp_heal_confirm_deadline = from_millis 8000,
      bp_max_attempts = 2, bp_reactivate = True, bp_blank_max_wait = from_millis 4000,
      bp_blank_min_reports = 1, bp_max_consecutive_drops = 3, bp_max_rtt_ms = 80\<rparr>"
  by (simp add: sample_env_def blank_params_from_env_def blank_reactivate_from_env_def env_u32_def
      env_u32_zero_ok_def watchdog_ms_def env_parse_def opt_filter_def or_default_def)

lemmas eval_defs = sample_gfx_def sample_answers_def build_server_with_handle_def
  new_connection_def Let_def capabilities_advertise_def caps_indicate_avc_def on_ready_def
  ready_ctx_def submit_bgra_def admit_def event_queue_full_def armed_ctx_def
  arm_recovery_idr_def watchdog_def should_demigrate_to_tcp_def setup_needed_def
  setup_locked_def setup_surface_def setup_encoder_def admit_ready_def blank_detector_def
  storm_guard_def storm_guard_should_reset_def gate_logged_def blank_fires_def
  blank_rtt_gate_def should_blank_recover_def qoe_default_def capture_gates_def fps_gate_def
  outstanding_def udp_lag_gate_def encode_phase_def adaptive_bitrate_step_def
  no_actions_def sample_config_fields

definition sample_start :: "egfx_event list" where
  "sample_start = [Caps [V10 False], Ready, Capture sample_answers 0 False]"

lemma sample_start_offers:
  "offers sample_config (fst (egfx_step sample_config sample_gfx (Connect 1 0))) sample_start = [(True, True)]"
  by (simp add: sample_start_def eval_defs List.map_filter_simps)

lemma keyframe_not_lost_witness:
  "\<exists>flags. encoded sample_config (fst (egfx_step sample_config sample_gfx (Connect 1 0))) sample_start = True # flags"
  using keyframe_not_lost [of "Connect 1 0" 1 0 0 0 sample_config sample_gfx sample_start True True "[]"]
    sample_start_offers by simp

text \<open>The flag is cleared before the frame is encoded and not raised again when the encoder refuses it.\<close>

lemma refused_keyframe_lost:
  "encoded sample_config (fst (egfx_step sample_config sample_gfx (Connect 1 0)))
     [Caps [V10 False], Ready, Capture (sample_answers\<lparr>ans_encode := False\<rparr>) 0 False,
      Capture sample_answers 0 False] = [False]"
  by (simp add: encoded_def eval_defs List.map_filter_simps)

section \<open>Recovery actions and the reconnect-storm guard\<close>

definition session_established :: "gfx_config \<Rightarrow> gfx \<Rightarrow> bool" where
  "session_established c g \<longleftrightarrow>
     (case gfx_ctx g of None \<Rightarrow> False
      | Some ctx \<Rightarrow> qoe_established (qoe ctx) (bp_established_render_reports (cfg_blank_params c)))"

abbreviation drop_cap :: "gfx_config \<Rightarrow> nat" where
  "drop_cap c \<equiv> bp_max_consecutive_drops (cfg_blank_params c)"

lemma armed_ctx_keeps:
  assumes "armed_ctx c now key g ctx = (g', ctx')"
  shows "consecutive_blank_drops g' = consecutive_blank_drops g"
    and "reactivate_request g' = reactivate_request g"
    and "qoe ctx' = qoe ctx" and "blank_recovery_attempts ctx' = blank_recovery_attempts ctx"
    and "epoch ctx' = epoch ctx" and "last_blank_recovery_at ctx' = last_blank_recovery_at ctx"
    and "submitted ctx' = submitted ctx" and "shipped ctx' = shipped ctx"
    and "adaptive_target_bps ctx' = adaptive_target_bps ctx"
    and "adaptive_fps_stage ctx' = adaptive_fps_stage ctx"
    and "adaptive_pid_fps ctx' = adaptive_pid_fps ctx"
    and "min_render_reports ctx' = min_render_reports ctx"
    and "demigrated ctx \<Longrightarrow> demigrated ctx' \<and> demigrate_request g' = demigrate_request g"
    and "egfx_acks_seen ctx' = egfx_acks_seen ctx" and "acks_suspended ctx' = acks_suspended ctx"
    and "egfx_on_udp g' = egfx_on_udp g" and "congestion_retransmits g' = congestion_retransmits g"
  using assms
  by (auto simp: armed_ctx_def arm_recovery_idr_def watchdog_def demigrate_def
      should_demigrate_to_tcp_def Let_def split: if_splits)

text \<open>What an armed action costs: a drop uses up one unit of the cap, nothing else does.\<close>

lemma detector_drops:
  assumes "blank_detector c now (g, ctx) = ((g', ctx'), r)"
    and "\<not> qoe_established (qoe ctx) (bp_established_render_reports (cfg_blank_params c))"
    and "drop_cap c \<le> U32_MAX" and "0 < drop_cap c"
  shows "case r of
      Some x \<Rightarrow> if arm_kind x = Drop
        then consecutive_blank_drops g < drop_cap c
          \<and> consecutive_blank_drops g' = consecutive_blank_drops g + 1
        else consecutive_blank_drops g' = consecutive_blank_drops g
    | None \<Rightarrow> consecutive_blank_drops g' = consecutive_blank_drops g"
  using assms
  by (auto simp: blank_detector_def storm_guard_def storm_guard_should_reset_def arm_blank_def
      blank_drop_capped_def sat_add_def Let_def split: if_splits)

lemma run_recovery_drops:
  assumes "run_recovery a r g = (g', calls)"
  shows "consecutive_blank_drops g' = consecutive_blank_drops g"
    and "length (filter is_quit calls) \<le> (if arm_kind r = Drop then 1 else 0)"
  using assms
  by (auto simp: run_recovery_def perform_blank_remap_def perform_blank_reactivate_def
      perform_blank_drop_def Let_def split: blank_action.splits option.splits if_splits)

lemma admit_drops:
  assumes "admit c a now key g = (adm, g', calls)" and "\<not> session_established c g"
    and "drop_cap c \<le> U32_MAX" and "0 < drop_cap c"
  shows "filter is_quit calls = []"
    and "case adm of
        Recover x \<Rightarrow> if arm_kind x = Drop
          then consecutive_blank_drops g < drop_cap c
            \<and> consecutive_blank_drops g' = consecutive_blank_drops g + 1
          else consecutive_blank_drops g' = consecutive_blank_drops g
      | _ \<Rightarrow> consecutive_blank_drops g' = consecutive_blank_drops g"
proof -
  have "filter is_quit calls = [] \<and> (case adm of
        Recover x \<Rightarrow> if arm_kind x = Drop
          then consecutive_blank_drops g < drop_cap c
            \<and> consecutive_blank_drops g' = consecutive_blank_drops g + 1
          else consecutive_blank_drops g' = consecutive_blank_drops g
      | _ \<Rightarrow> consecutive_blank_drops g' = consecutive_blank_drops g)"
    using assms(1)
  proof (cases rule: admit_cases)
    case (inactive b)
    then show ?thesis by simp
  next
    case (failed ctx g1 ctx1 e ctx2)
    with setup_needed_calls [OF failed(3)] armed_ctx_keeps(1) [OF failed(2)] show ?thesis by simp
  next
    case (ready ctx g1 ctx1 ctx2)
    have "qoe ctx2 = qoe ctx"
      using frame_eqD(2) [OF setup_needed_frame [OF ready(3)]] armed_ctx_keeps(3) [OF ready(2)]
      by simp
    then have est: "\<not> qoe_established (qoe ctx2) (bp_established_render_reports (cfg_blank_params c))"
      using assms(2) ready(1) by (simp add: session_established_def)
    from ready(4) show ?thesis
      by (cases rule: admit_ready_cases)
        (use detector_drops [OF _ est assms(3,4)] armed_ctx_keeps(1) [OF ready(2)]
          setup_needed_calls [OF ready(3)] in \<open>fastforce\<close>)+
  qed
  then show "filter is_quit calls = []"
    and "case adm of
        Recover x \<Rightarrow> if arm_kind x = Drop
          then consecutive_blank_drops g < drop_cap c
            \<and> consecutive_blank_drops g' = consecutive_blank_drops g + 1
          else consecutive_blank_drops g' = consecutive_blank_drops g
      | _ \<Rightarrow> consecutive_blank_drops g' = consecutive_blank_drops g" by auto
qed

lemma encode_phase_drops:
  assumes "encode_phase c a now key g = (res, g', calls)"
  shows "filter is_quit calls = []" and "consecutive_blank_drops g' = consecutive_blank_drops g"
    and "reactivate_request g' = reactivate_request g"
    and "demigrate_request g' = demigrate_request g"
  using assms
  by (auto simp: encode_phase_def Let_def split: option.splits prod.splits if_splits)

lemma capture_drops:
  assumes "submit_bgra c a now key g = (res, g', calls)" and "\<not> session_established c g"
    and "drop_cap c \<le> U32_MAX" and "0 < drop_cap c"
  shows "length (filter is_quit calls) + (drop_cap c - consecutive_blank_drops g')
    \<le> drop_cap c - consecutive_blank_drops g"
proof -
  obtain adm g1 calls1 where adm: "admit c a now key g = (adm, g1, calls1)"
    by (metis prod_cases3)
  note k = admit_drops [OF adm assms(2-)]
  show ?thesis
  proof (cases adm)
    case (Recover r)
    obtain g2 calls2 where rec: "run_recovery a r g1 = (g2, calls2)" by fastforce
    with run_recovery_drops [OF rec] Recover k adm assms(1)
    show ?thesis by (auto simp: submit_bgra_def split: if_splits)
  next
    case (Admit flag)
    obtain r2 g2 calls2 where enc: "encode_phase c a now flag g1 = (r2, g2, calls2)"
      by (metis prod_cases3)
    with encode_phase_drops [OF enc] Admit k adm assms(1)
    show ?thesis by (auto simp: submit_bgra_def)
  qed (use k adm assms(1) in \<open>auto simp: submit_bgra_def\<close>)
qed

lemma on_frame_ack_keeps:
  "consecutive_blank_drops (on_frame_ack now f q g) = consecutive_blank_drops g"
  "reactivate_request (on_frame_ack now f q g) = reactivate_request g"
  "demigrate_request (on_frame_ack now f q g) = demigrate_request g"
  by (auto simp: on_frame_ack_def split: option.splits prod.splits)

lemma demigrate_on_resume_keeps:
  "consecutive_blank_drops (demigrate_on_resume g) = consecutive_blank_drops g"
  "reactivate_request (demigrate_on_resume g) = reactivate_request g"
  by (auto simp: demigrate_on_resume_def demigrate_def split: option.splits prod.splits)

lemma ship_round_keeps:
  assumes "ship_round c a now session frames g = (g', calls)"
  shows "consecutive_blank_drops g' = consecutive_blank_drops g"
    and "reactivate_request g' = reactivate_request g"
    and "demigrate_request g' = demigrate_request g"
    and "filter is_quit calls = []"
proof -
  have "g'\<lparr>gfx_ctx := None\<rparr> = g\<lparr>gfx_ctx := None\<rparr> \<and> filter is_quit calls = []"
    using assms by (cases rule: ship_round_cases) auto
  then show "consecutive_blank_drops g' = consecutive_blank_drops g"
    and "reactivate_request g' = reactivate_request g"
    and "demigrate_request g' = demigrate_request g"
    and "filter is_quit calls = []"
    by (cases g; cases g'; simp)+
qed

lemma step_drops:
  assumes "drop_cap c \<le> U32_MAX" and "0 < drop_cap c" and "\<not> session_established c g"
  shows "length (filter is_quit (snd (egfx_step c g e)))
      + (drop_cap c - consecutive_blank_drops (fst (egfx_step c g e)))
    \<le> drop_cap c - consecutive_blank_drops g"
proof (cases e)
  case (Capture a now key)
  obtain res g' calls where sub: "submit_bgra c a now key g = (res, g', calls)"
    by (metis prod_cases3)
  from capture_drops [OF sub assms(3,1,2)] sub Capture show ?thesis by simp
next
  case (Ship a now session frames)
  obtain g' calls where sr: "ship_round c a now session frames g = (g', calls)" by fastforce
  from ship_round_keeps [OF sr] sr Ship show ?thesis by simp
qed (simp_all add: build_server_with_handle_def on_frame_ack_keeps demigrate_on_resume_keeps
    event_defs)

definition cap_usable :: "gfx_config \<Rightarrow> bool" where
  "cap_usable c \<longleftrightarrow> 0 < drop_cap c \<and> drop_cap c \<le> U32_MAX"

interpretation storm: budget_emitter "egfx_step c" is_quit
    "\<lambda>g. drop_cap c - consecutive_blank_drops g" "\<lambda>g. \<not> cap_usable c \<or> session_established c g"
  by unfold_locales (use step_drops in \<open>auto simp: cap_usable_def\<close>)

text \<open>
  C4. The reconnect-storm guard: over any run, through any number of reconnects, as long as no
  connection has shown a sustained run of nonzero client samples, the blank detector drops at
  most as many connections as the cap leaves.
\<close>

theorem no_reconnect_storm:
  assumes "0 < bp_max_consecutive_drops (cfg_blank_params c)"
    and "bp_max_consecutive_drops (cfg_blank_params c) \<le> U32_MAX"
    and "run_avoids (egfx_step c) (session_established c) g es"
  shows "length (filter is_quit (snd (run_out (egfx_step c) g es)))
    \<le> bp_max_consecutive_drops (cfg_blank_params c) - consecutive_blank_drops g"
proof -
  have "cap_usable c" using assms(1,2) by (simp add: cap_usable_def)
  then have "run_avoids (egfx_step c) (\<lambda>g. \<not> cap_usable c \<or> session_established c g) g es"
    using assms(3) by simp
  then show ?thesis by (rule storm.run_budget)
qed

text \<open>A connection that was reactivated at second 5 and still reports zero timings at second 20.\<close>

definition blank_gfx :: gfx where
  "blank_gfx = sample_gfx\<lparr>gfx_ctx := Some ((new_connection sample_config sample_gfx 1 0)\<lparr>
     is_ready := True, surface_id := Some 0, encoder := True, egfx_acks_seen := True,
     qoe := qoe_default\<lparr>zero_streak := 24\<rparr>, blank_recovery_attempts := 1,
     last_blank_recovery_at := from_secs 5\<rparr>)\<rparr>"

lemma blank_gfx_drops:
  "snd (run_out (egfx_step sample_config) blank_gfx [Capture sample_answers (from_secs 20) False])
     = [SendQuit]"
  by (simp add: blank_gfx_def eval_defs sample_blank_params blank_params_scaled_def
      qoe_established_def std_simps saturating_duration_since_def arm_blank_def choose_action_def
      blank_drop_capped_def run_recovery_def perform_blank_drop_def)

lemma no_reconnect_storm_witness:
  "length (filter is_quit (snd (run_out (egfx_step sample_config) blank_gfx
     [Capture sample_answers (from_secs 20) False]))) = 1
   \<and> length (filter is_quit (snd (run_out (egfx_step sample_config) blank_gfx
     [Capture sample_answers (from_secs 20) False]))) \<le> 3"
proof -
  have "run_avoids (egfx_step sample_config) (session_established sample_config) blank_gfx
      [Capture sample_answers (from_secs 20) False]"
    by (simp add: session_established_def blank_gfx_def qoe_established_def qoe_default_def
        sample_config_fields sample_blank_params)
  then have "length (filter is_quit (snd (run_out (egfx_step sample_config) blank_gfx
      [Capture sample_answers (from_secs 20) False])))
    \<le> drop_cap sample_config - consecutive_blank_drops blank_gfx"
    by (rule no_reconnect_storm [rotated 2]) (simp_all add: sample_config_fields sample_blank_params)
  also have "\<dots> \<le> 3" by (simp add: sample_config_fields sample_blank_params)
  finally show ?thesis by (simp only: blank_gfx_drops) simp
qed

section \<open>Pacing of the recovery actions\<close>

text \<open>The times at which the detector arms an action along a run.\<close>

fun is_recover :: "admission \<Rightarrow> bool" where
  "is_recover (Recover _) = True"
| "is_recover _ = False"

fun step_recovery :: "gfx_config \<Rightarrow> gfx \<Rightarrow> egfx_event \<Rightarrow> instant list" where
  "step_recovery c g (Capture a now key) =
     (if is_recover (fst (admit c a now key g)) then [now] else [])"
| "step_recovery c g _ = []"

fun recovery_times :: "gfx_config \<Rightarrow> gfx \<Rightarrow> egfx_event list \<Rightarrow> instant list" where
  "recovery_times c g [] = []"
| "recovery_times c g (e # es) =
     step_recovery c g e @ recovery_times c (fst (egfx_step c g e)) es"

fun is_connect :: "egfx_event \<Rightarrow> bool" where
  "is_connect (Connect _ _) = True"
| "is_connect _ = False"

text \<open>What a step without a recovery action keeps of the detector's state.\<close>

definition quiet :: "connection \<Rightarrow> connection \<Rightarrow> bool" where
  "quiet ctx ctx' \<longleftrightarrow> epoch ctx' = epoch ctx
     \<and> last_blank_recovery_at ctx' = last_blank_recovery_at ctx
     \<and> blank_recovery_attempts ctx \<le> blank_recovery_attempts ctx'
     \<and> (presented_clean (qoe ctx) \<longrightarrow> presented_clean (qoe ctx'))"

text \<open>What a recovery action needs and leaves.\<close>

definition acted :: "gfx_config \<Rightarrow> instant \<Rightarrow> connection \<Rightarrow> connection \<Rightarrow> bool" where
  "acted c now ctx ctx' \<longleftrightarrow>
     \<not> presented_clean (qoe ctx) \<and> egfx_acks_seen ctx \<and> \<not> acks_suspended ctx
     \<and> bp_arm_delay (cfg_blank_params c) \<le> now - epoch ctx
     \<and> bp_retry_interval (cfg_blank_params c) \<le> now - last_blank_recovery_at ctx
     \<and> blank_recovery_attempts ctx < bp_max_attempts (cfg_blank_params c)
     \<and> blank_recovery_attempts ctx' = blank_recovery_attempts ctx + 1
     \<and> last_blank_recovery_at ctx' = now \<and> epoch ctx' = epoch ctx"

lemma blank_rtt_gate_ge: "blank_rtt_gate rtt m = Some x \<Longrightarrow> 1 \<le> x"
  by (auto simp: blank_rtt_gate_def clamp_def split: if_splits)

lemma blank_fires_needs:
  assumes "blank_fires c (blank_rtt_gate rtt m) now ctx"
  shows "\<not> presented_clean (qoe ctx)" and "egfx_acks_seen ctx" and "\<not> acks_suspended ctx"
    and "bp_arm_delay (cfg_blank_params c) \<le> now - epoch ctx"
    and "bp_retry_interval (cfg_blank_params c) \<le> now - last_blank_recovery_at ctx"
    and "blank_recovery_attempts ctx < bp_max_attempts (cfg_blank_params c)"
proof -
  from assms obtain x where x: "blank_rtt_gate rtt m = Some x"
    by (cases "blank_rtt_gate rtt m") (auto simp: blank_fires_def)
  note fires = assms [unfolded x, unfolded blank_fires_def should_blank_recover_def,
      simplified, unfolded Let_def saturating_duration_since_def]
  show "\<not> presented_clean (qoe ctx)" and "egfx_acks_seen ctx" and "\<not> acks_suspended ctx"
    using fires by (simp_all split: if_splits)
  have "duration_mul_f64 (bp_arm_delay (cfg_blank_params c)) x \<le> now - epoch ctx"
    using fires by (simp add: blank_params_scaled_def split: if_splits)
  then show "bp_arm_delay (cfg_blank_params c) \<le> now - epoch ctx"
    using duration_mul_f64_ge [OF blank_rtt_gate_ge [OF x]] order_trans by blast
  show "bp_retry_interval (cfg_blank_params c) \<le> now - last_blank_recovery_at ctx"
    and "blank_recovery_attempts ctx < bp_max_attempts (cfg_blank_params c)"
    using fires by (simp_all add: blank_params_scaled_def split: if_splits)
qed

lemma detector_acts:
  assumes "blank_detector c now (g, ctx) = ((g', ctx'), r)"
  shows "case r of Some _ \<Rightarrow> acted c now ctx ctx' | None \<Rightarrow> quiet ctx ctx'"
proof -
  let ?ctx = "gate_logged (blank_rtt_gate (link_rtt ctx) (bp_max_rtt_ms (cfg_blank_params c))) ctx"
  have eq: "qoe ?ctx = qoe ctx" "egfx_acks_seen ?ctx = egfx_acks_seen ctx"
    "acks_suspended ?ctx = acks_suspended ctx" "epoch ?ctx = epoch ctx"
    "last_blank_recovery_at ?ctx = last_blank_recovery_at ctx"
    "blank_recovery_attempts ?ctx = blank_recovery_attempts ctx"
    by (simp_all add: gate_logged_def)
  show ?thesis
  proof (cases "cfg_blank_recovery_enabled c \<and> surface_id ctx \<noteq> None
      \<and> blank_fires c (blank_rtt_gate (link_rtt ctx) (bp_max_rtt_ms (cfg_blank_params c))) now ?ctx")
    case False
    with assms show ?thesis
      by (auto simp: blank_detector_def storm_guard_def Let_def quiet_def eq split: if_splits)
  next
    case True
    then have "blank_fires c (blank_rtt_gate (link_rtt ctx) (bp_max_rtt_ms (cfg_blank_params c)))
        now ?ctx" by simp
    note needs = blank_fires_needs [OF this, unfolded eq]
    obtain g1 where "arm_blank c now (g1, ?ctx) = ((g', ctx'), r)"
      using True assms
      by (auto simp: blank_detector_def storm_guard_def Let_def split: if_splits)
    then show ?thesis
      using needs by (auto simp: arm_blank_def Let_def acted_def quiet_def eq qoe_reset_streaks_def
          split: if_splits)
  qed
qed

lemma quiet_refl: "quiet ctx ctx"
  by (simp add: quiet_def)

lemma quiet_trans: "quiet x y \<Longrightarrow> quiet y z \<Longrightarrow> quiet x z"
  by (auto simp: quiet_def)

lemma acted_frame:
  "acted c now x y \<Longrightarrow> epoch y' = epoch y \<Longrightarrow> last_blank_recovery_at y' = last_blank_recovery_at y \<Longrightarrow>
     blank_recovery_attempts y' = blank_recovery_attempts y \<Longrightarrow> acted c now x y'"
  by (simp add: acted_def)

lemma admit_acts:
  assumes "admit c a now key g = (adm, g', calls)" and "gfx_ctx g = Some ctx"
  shows "\<exists>ctx'. gfx_ctx g' = Some ctx' \<and>
    (if is_recover adm then acted c now ctx ctx' else quiet ctx ctx')"
  using assms(1)
proof (cases rule: admit_cases)
  case (inactive b)
  with assms(2) show ?thesis by (simp add: quiet_refl)
next
  case (failed x g1 ctx1 e ctx2)
  with assms(2) have "quiet ctx ctx2"
    using armed_ctx_keeps [OF failed(2)] frame_eqD [OF setup_needed_frame [OF failed(3)]]
    by (simp add: quiet_def)
  with failed show ?thesis by simp
next
  case (ready x g1 ctx1 ctx2)
  have x: "x = ctx" using ready(1) assms(2) by simp
  note same = armed_ctx_keeps [OF ready(2)] frame_eqD [OF setup_needed_frame [OF ready(3)]]
  have pre: "quiet ctx2 y \<Longrightarrow> quiet ctx y" "acted c now ctx2 y \<Longrightarrow> acted c now ctx y" for y
    using same by (simp_all add: quiet_def acted_def x)
  from ready(4) show ?thesis
  proof (cases rule: admit_ready_cases)
    case (recover g3 ctx3 r)
    with detector_acts [OF recover(1)] pre show ?thesis by simp
  next
    case (dropped g3 ctx3 ctx4)
    have "quiet ctx ctx3" using detector_acts [OF dropped(1)] pre by simp
    moreover have "quiet ctx3 ctx4"
      using gate_frameD [OF capture_gates_frame [OF dropped(2)]] by (simp add: quiet_def)
    ultimately show ?thesis using dropped(3,4) by (auto intro: quiet_trans)
  next
    case (admitted g3 ctx3 ctx4)
    have "quiet ctx ctx3" using detector_acts [OF admitted(1)] pre by simp
    moreover have "quiet ctx3 (ctx4\<lparr>need_keyframe := False\<rparr>)"
      using gate_frameD [OF capture_gates_frame [OF admitted(2)]] by (simp add: quiet_def)
    ultimately show ?thesis using admitted(3,4) by (auto intro: quiet_trans)
  qed
qed

lemma run_recovery_acts:
  assumes "run_recovery a r g = (g', calls)" and "gfx_ctx g = Some ctx"
  shows "\<exists>ctx'. gfx_ctx g' = Some ctx' \<and> epoch ctx' = epoch ctx
    \<and> last_blank_recovery_at ctx' = last_blank_recovery_at ctx
    \<and> blank_recovery_attempts ctx' = blank_recovery_attempts ctx"
  using assms
  by (auto simp: run_recovery_def perform_blank_remap_def perform_blank_reactivate_def
      Let_def split: blank_action.splits option.splits if_splits)

lemma encode_phase_acts:
  assumes "encode_phase c a now key g = (res, g', calls)" and "gfx_ctx g = Some ctx"
  shows "\<exists>ctx'. gfx_ctx g' = Some ctx' \<and> quiet ctx ctx'"
proof -
  obtain acts ctx1 where step: "adaptive_bitrate_step c g now ctx = (acts, ctx1)" by fastforce
  have "quiet ctx ctx1"
    using control_frameD [OF adaptive_bitrate_step_frame [OF step]] by (simp add: quiet_def)
  with assms step show ?thesis
    by (auto simp: encode_phase_def Let_def quiet_def split: if_splits)
qed

lemma capture_acts:
  assumes "gfx_ctx g = Some ctx"
  shows "\<exists>ctx'. gfx_ctx (fst (snd (submit_bgra c a now key g))) = Some ctx' \<and>
    (if is_recover (fst (admit c a now key g)) then acted c now ctx ctx' else quiet ctx ctx')"
proof -
  obtain adm g1 calls1 where adm: "admit c a now key g = (adm, g1, calls1)"
    by (metis prod_cases3)
  obtain ctx1 where ctx1: "gfx_ctx g1 = Some ctx1"
    and k: "if is_recover adm then acted c now ctx ctx1 else quiet ctx ctx1"
    using admit_acts [OF adm assms] by blast
  show ?thesis
  proof (cases adm)
    case (Recover r)
    obtain g2 calls2 where rec: "run_recovery a r g1 = (g2, calls2)" by fastforce
    then obtain ctx2 where "gfx_ctx g2 = Some ctx2" "acted c now ctx ctx2"
      using run_recovery_acts [OF rec ctx1] k Recover acted_frame by fastforce
    with rec Recover adm show ?thesis by (simp add: submit_bgra_def)
  next
    case (Admit flag)
    obtain r2 g2 calls2 where enc: "encode_phase c a now flag g1 = (r2, g2, calls2)"
      by (metis prod_cases3)
    then obtain ctx2 where "gfx_ctx g2 = Some ctx2" "quiet ctx ctx2"
      using encode_phase_acts [OF enc ctx1] k Admit quiet_trans by fastforce
    with enc Admit adm show ?thesis by (simp add: submit_bgra_def)
  qed (use ctx1 k adm in \<open>simp_all add: submit_bgra_def\<close>)
qed

lemma qoe_record_clean: "presented_clean (qoe_record q dr) = presented_clean q"
  by (simp add: qoe_record_def Let_def)

lemma qoe_ctx_quiet: "quiet ctx (qoe_ctx now dr ctx)"
  by (simp add: quiet_def qoe_ctx_def Let_def qoe_record_clean)

lemma on_frame_ack_quiet:
  "gfx_ctx g = Some ctx \<Longrightarrow>
     \<exists>ctx'. gfx_ctx (on_frame_ack now f q g) = Some ctx' \<and> quiet ctx ctx'"
  by (auto simp: on_frame_ack_def frame_ack_def ack_advance_def fold_rtt_def quiet_def Let_def
      split: option.splits prod.splits)

lemma demigrate_on_resume_quiet:
  "gfx_ctx g = Some ctx \<Longrightarrow>
     \<exists>ctx'. gfx_ctx (demigrate_on_resume g) = Some ctx' \<and> quiet ctx ctx'"
  by (auto simp: demigrate_on_resume_def demigrate_def quiet_def)

lemma step_acts:
  assumes "gfx_ctx g = Some ctx" and "\<not> is_connect e"
  shows "\<exists>ctx'. gfx_ctx (fst (egfx_step c g e)) = Some ctx' \<and>
    (case step_recovery c g e of [] \<Rightarrow> quiet ctx ctx' | t # _ \<Rightarrow> acted c t ctx ctx')"
proof (cases e)
  case (Capture a now key)
  with capture_acts [OF assms(1), of c a now key] show ?thesis by (auto split: if_splits)
next
  case (Ship a now session frames)
  obtain g' calls where sr: "ship_round c a now session frames g = (g', calls)" by fastforce
  then have "\<exists>ctx'. gfx_ctx g' = Some ctx' \<and> quiet ctx ctx'"
    by (cases rule: ship_round_cases) (use assms(1) in \<open>auto simp: quiet_def\<close>)
  with sr Ship show ?thesis by simp
next
  case (Ack now f q)
  with on_frame_ack_quiet [OF assms(1)] show ?thesis by simp
next
  case Resume
  with demigrate_on_resume_quiet [OF assms(1)] show ?thesis by simp
qed (use assms in \<open>simp_all add: quiet_def qoe_ctx_quiet [unfolded quiet_def] event_defs\<close>)

text \<open>
  C34. On one connection the detector arms at most as many actions as attempts are left; the
  first comes no earlier than the arming delay after the connection was made, and any two are
  at least the retry interval apart.
\<close>

theorem blank_recovery_paced:
  assumes "gfx_ctx g = Some ctx" and "\<forall>e \<in> set es. \<not> is_connect e"
    and "0 < bp_retry_interval (cfg_blank_params c)"
  shows "length (recovery_times c g es)
      \<le> bp_max_attempts (cfg_blank_params c) - blank_recovery_attempts ctx
    \<and> successively (\<lambda>s t. s + bp_retry_interval (cfg_blank_params c) \<le> t)
      (last_blank_recovery_at ctx # recovery_times c g es)
    \<and> (\<forall>t \<in> set (recovery_times c g es). bp_arm_delay (cfg_blank_params c) \<le> t - epoch ctx)"
  using assms(1,2)
proof (induction es arbitrary: g ctx)
  case Nil
  then show ?case by simp
next
  case (Cons e es)
  obtain ctx' where ctx': "gfx_ctx (fst (egfx_step c g e)) = Some ctx'"
    and k: "case step_recovery c g e of [] \<Rightarrow> quiet ctx ctx' | t # _ \<Rightarrow> acted c t ctx ctx'"
    using step_acts [OF Cons.prems(1), of e c] Cons.prems(2) by auto
  note IH = Cons.IH [OF ctx'] Cons.prems(2)
  show ?case
  proof (cases "step_recovery c g e")
    case Nil
    then show ?thesis using IH k by (auto simp: quiet_def)
  next
    case (Cons t ts)
    then have "ts = []" by (cases e) (auto split: if_splits)
    moreover have "last_blank_recovery_at ctx + bp_retry_interval (cfg_blank_params c) \<le> t"
      using k Cons assms(3) by (simp add: acted_def) linarith
    ultimately show ?thesis using IH k Cons by (auto simp: acted_def)
  qed
qed

lemma blank_recovery_paced_witness:
  "recovery_times sample_config blank_gfx [Capture sample_answers (from_secs 20) False]
     = [from_secs 20]
   \<and> from_secs 5 + from_millis 4000 \<le> from_secs 20"
proof -
  have ctx: "gfx_ctx blank_gfx = Some (the (gfx_ctx blank_gfx))"
    by (simp add: blank_gfx_def)
  have run: "recovery_times sample_config blank_gfx [Capture sample_answers (from_secs 20) False]
      = [from_secs 20]"
    by (simp add: blank_gfx_def eval_defs sample_blank_params blank_params_scaled_def
        qoe_established_def std_simps saturating_duration_since_def arm_blank_def choose_action_def
        blank_drop_capped_def)
  have "successively (\<lambda>s t. s + from_millis 4000 \<le> t)
      (last_blank_recovery_at (the (gfx_ctx blank_gfx)) #
        recovery_times sample_config blank_gfx [Capture sample_answers (from_secs 20) False])"
    using blank_recovery_paced [OF ctx, of "[Capture sample_answers (from_secs 20) False]"
        sample_config]
    by (simp add: sample_config_fields sample_blank_params from_millis_def)
  then show ?thesis unfolding run by (simp add: blank_gfx_def)
qed

lemma qoe_run_clean:
  assumes "gfx_ctx g = Some ctx" and "blank_recovery_attempts ctx = 0"
    and "\<forall>e \<in> set qs. \<exists>now dr. e = Qoe now dr \<and> 0 < dr"
    and "min_render_reports ctx \<le> nonzero_streak (qoe ctx) + length qs" and "qs \<noteq> []"
    and "min_render_reports ctx \<le> U64_MAX"
  shows "\<exists>ctx'. gfx_ctx (fst (run_out (egfx_step c) g qs)) = Some ctx' \<and> presented_clean (qoe ctx')"
  using assms
proof (induction qs arbitrary: g ctx)
  case Nil
  then show ?case by simp
next
  case (Cons e qs)
  then obtain now dr where e: "e = Qoe now dr" "0 < dr" by auto
  let ?ctx = "qoe_ctx now dr ctx"
  have g: "gfx_ctx (fst (egfx_step c g e)) = Some ?ctx"
    using Cons.prems(1) by (simp add: e on_qoe_metrics_def)
  have at: "blank_recovery_attempts ?ctx = 0" "min_render_reports ?ctx = min_render_reports ctx"
    "nonzero_streak (qoe ?ctx) = sat_add U64_MAX (nonzero_streak (qoe ctx)) 1"
    using Cons.prems(2) e(2) by (simp_all add: qoe_ctx_def qoe_record_def Let_def)
  have clean: "presented_clean (qoe ?ctx)"
    if "min_render_reports ctx \<le> sat_add U64_MAX (nonzero_streak (qoe ctx)) 1"
    using that Cons.prems(2) e(2) by (auto simp: qoe_ctx_def qoe_record_def Let_def)
  show ?case
  proof (cases "qs = []")
    case True
    then have "presented_clean (qoe ?ctx)"
      using Cons.prems(4,6) by (intro clean) (auto simp: sat_add_def)
    with g True show ?thesis by (simp add: split_beta Let_def)
  next
    case False
    have "min_render_reports ?ctx \<le> nonzero_streak (qoe ?ctx) + length qs"
      using Cons.prems(4,6) at by (auto simp: sat_add_def)
    then obtain ctx' where "gfx_ctx (fst (run_out (egfx_step c) (fst (egfx_step c g e)) qs)) = Some ctx'"
        "presented_clean (qoe ctx')"
      using Cons.IH [OF g at(1)] Cons.prems(3,6) at(2) False by auto
    then show ?thesis by (simp add: split_beta Let_def)
  qed
qed

lemma clean_no_recovery:
  assumes "gfx_ctx g = Some ctx" and "presented_clean (qoe ctx)"
    and "\<forall>e \<in> set es. \<not> is_connect e"
  shows "recovery_times c g es = []"
  using assms
proof (induction es arbitrary: g ctx)
  case Nil
  then show ?case by simp
next
  case (Cons e es)
  obtain ctx' where ctx': "gfx_ctx (fst (egfx_step c g e)) = Some ctx'"
    and k: "case step_recovery c g e of [] \<Rightarrow> quiet ctx ctx' | t # _ \<Rightarrow> acted c t ctx ctx'"
    using step_acts [OF Cons.prems(1), of e c] Cons.prems(3) by auto
  have "step_recovery c g e = []"
    using k Cons.prems(2) by (cases "step_recovery c g e") (auto simp: acted_def)
  moreover have "presented_clean (qoe ctx')"
    using k Cons.prems(2) calculation by (simp add: quiet_def)
  ultimately show ?case using Cons.IH [OF ctx'] Cons.prems(3) by simp
qed

lemma qoe_no_recovery:
  "\<forall>e \<in> set qs. \<exists>now dr. e = Qoe now dr \<and> 0 < dr \<Longrightarrow> recovery_times c g qs = []"
  by (induction qs arbitrary: g) auto

lemma recovery_times_append:
  "recovery_times c g (xs @ ys) = recovery_times c g xs
     @ recovery_times c (fst (run_out (egfx_step c) g xs)) ys"
  by (induction xs arbitrary: g) (auto simp: split_beta Let_def)

text \<open>
  A session that has presented is left alone: once the client reports the configured run of
  consecutive nonzero timings before any recovery attempt, no recovery action is armed for the
  rest of the connection, whatever the client reports later.
\<close>

theorem presented_session_undisturbed:
  assumes "gfx_ctx g = Some ctx" and "blank_recovery_attempts ctx = 0"
    and "\<forall>e \<in> set qs. \<exists>now dr. e = Qoe now dr \<and> 0 < dr"
    and "min_render_reports ctx \<le> length qs" and "qs \<noteq> []"
    and "min_render_reports ctx \<le> U64_MAX"
    and "\<forall>e \<in> set es. \<not> is_connect e"
  shows "recovery_times c g (qs @ es) = []"
proof -
  obtain ctx' where "gfx_ctx (fst (run_out (egfx_step c) g qs)) = Some ctx'"
      "presented_clean (qoe ctx')"
    using qoe_run_clean [OF assms(1-3) _ assms(5,6), of c] assms(4) by auto
  from clean_no_recovery [OF this assms(7), of c] show ?thesis
    using qoe_no_recovery [OF assms(3), of c g] by (simp add: recovery_times_append)
qed

lemma presented_session_undisturbed_witness:
  "recovery_times sample_config (build_server_with_handle sample_config sample_gfx 1 0)
     ([Qoe 1 5, Qoe 2 5, Qoe 3 7]
      @ [Qoe (from_secs 9) 0, Capture sample_answers (from_secs 50) False]) = []"
  by (rule presented_session_undisturbed
        [where ctx = "new_connection sample_config sample_gfx 1 0"])
    (simp_all add: build_server_with_handle_def new_connection_def Let_def sample_config_fields
      sample_blank_params)

end
