(* ===== verification/Egfx_Rate_Props.thy ===== *)
theory Egfx_Rate_Props
  imports Egfx_Props
begin

text \<open>
  The second half of the EGFX properties: the de-migration, the depth of the encode pipeline,
  the bounds and the direction of the rate control, the round-trip samples and the framing.
\<close>

section \<open>De-migration\<close>

lemma demigrate_request_watchdog:
  "armed_ctx c now key g ctx = (g', ctx') \<Longrightarrow> demigrate_request g \<Longrightarrow> demigrate_request g'"
  by (auto simp: armed_ctx_def watchdog_def demigrate_def Let_def split: if_splits)

lemma detector_request:
  "blank_detector c now (g, ctx) = ((g', ctx'), r) \<Longrightarrow> demigrate_request g' = demigrate_request g"
  by (auto simp: blank_detector_def storm_guard_def arm_blank_def Let_def split: if_splits)

lemma admit_request:
  assumes "admit c a now key g = (adm, g', calls)" and "demigrate_request g"
  shows "demigrate_request g'"
  using assms(1)
proof (cases rule: admit_cases)
  case (inactive b)
  with assms(2) show ?thesis by simp
next
  case (failed ctx g1 ctx1 e ctx2)
  with demigrate_request_watchdog [OF failed(2)] assms(2) show ?thesis by simp
next
  case (ready ctx g1 ctx1 ctx2)
  have "demigrate_request g1" using demigrate_request_watchdog [OF ready(2)] assms(2) by simp
  with ready(4) show ?thesis
    by (cases rule: admit_ready_cases) (auto dest: detector_request)
qed

lemma run_recovery_request:
  "run_recovery a r g = (g', calls) \<Longrightarrow> demigrate_request g' = demigrate_request g"
  by (auto simp: run_recovery_def perform_blank_remap_def perform_blank_reactivate_def
      Let_def split: blank_action.splits option.splits if_splits)

lemma capture_request:
  "demigrate_request g \<Longrightarrow> demigrate_request (fst (snd (submit_bgra c a now key g)))"
  by (auto simp: submit_bgra_def Let_def
      dest!: admit_request run_recovery_request encode_phase_drops(4)
      split: prod.splits admission.splits)

lemma setup_locked_no_route:
  "setup_locked c a ctx = (err, ctx', calls) \<Longrightarrow> RouteUdp \<notin> set calls"
  by (auto simp: setup_locked_def setup_surface_def setup_encoder_def Let_def
      split: if_splits option.splits prod.splits)

lemma admit_no_route: "admit c a now key g = (adm, g', calls) \<Longrightarrow> RouteUdp \<notin> set calls"
  by (erule admit_cases)
    (auto simp: setup_needed_def split: if_splits dest: setup_locked_no_route)

lemma run_recovery_no_route: "run_recovery a r g = (g', calls) \<Longrightarrow> RouteUdp \<notin> set calls"
  by (auto simp: run_recovery_def perform_blank_remap_def perform_blank_drop_def
      Let_def split: blank_action.splits option.splits if_splits)

lemma encode_phase_no_route: "encode_phase c a now key g = (r, g', calls) \<Longrightarrow> RouteUdp \<notin> set calls"
  by (auto simp: encode_phase_def Let_def split: option.splits prod.splits if_splits)

lemma capture_no_route: "RouteUdp \<notin> set (snd (snd (submit_bgra c a now key g)))"
  by (auto simp: submit_bgra_def Let_def
      dest!: admit_no_route run_recovery_no_route encode_phase_no_route
      split: prod.splits admission.splits)

lemma ship_all_no_route: "RouteUdp \<notin> set (snd (ship_all c now sid frames ctx))"
proof (induction frames rule: rev_induct)
  case Nil
  then show ?case by (simp add: ship_all_def)
next
  case (snoc x frames)
  obtain f sent where x: "x = (f, sent)" by fastforce
  from snoc show ?case
    by (auto simp: ship_all_def x ship_frame_def Let_def split: prod.splits option.splits)
qed

lemma ship_round_no_route: "RouteUdp \<notin> set (snd (ship_round c a now session frames g))"
proof -
  obtain res g1 calls1 where sf: "ship_frames c a now frames
      (g\<lparr>gfx_ctx := map_option (counted_off session (length frames)) (gfx_ctx g)\<rparr>) = (res, g1, calls1)"
    by (metis prod_cases3)
  from sf have "RouteUdp \<notin> set calls1"
  proof (cases rule: ship_frames_cases)
    case (sent x sid ctx' cs)
    with ship_all_no_route [of c now sid frames "x\<lparr>last_ship_at := now\<rparr>"] show ?thesis by auto
  qed simp_all
  with sf show ?thesis by (simp add: ship_round_eq)
qed

fun ends_connection :: "egfx_event \<Rightarrow> bool" where
  "ends_connection EndConnection = True"
| "ends_connection _ = False"

lemma on_resume_request: "demigrate_request g \<Longrightarrow> demigrate_request (demigrate_on_resume g)"
  by (auto simp: demigrate_on_resume_def demigrate_def split: option.splits)

interpretation tcp_only: output_emitter "egfx_step c" "demigrate_request :: gfx \<Rightarrow> bool"
    "\<lambda>e. \<not> ends_connection e" "\<lambda>x. x \<noteq> RouteUdp"
proof
  fix g :: gfx and e
  assume req: "demigrate_request g" and e: "\<not> ends_connection e"
  show "demigrate_request (fst (egfx_step c g e))"
  proof (cases e)
    case (Capture a now key)
    with capture_request [OF req] show ?thesis by simp
  next
    case (Ship a now session frames)
    obtain g' calls where sr: "ship_round c a now session frames g = (g', calls)" by fastforce
    with ship_round_keeps(3) [OF sr] req Ship show ?thesis by simp
  qed (use req e in \<open>simp_all add: build_server_with_handle_def on_frame_ack_keeps
      on_resume_request event_defs\<close>)
  show "\<forall>x \<in> set (snd (egfx_step c g e)). x \<noteq> RouteUdp"
  proof (cases e)
    case (Capture a now key)
    with capture_no_route [of c a now key g] show ?thesis by auto
  next
    case (Ship a now session frames)
    with ship_round_no_route [of c a now session frames g] show ?thesis by auto
  next
    case Dispatch
    with req show ?thesis by (simp add: route_egfx_def)
  qed simp_all
qed

lemma wedge_requests:
  assumes "gfx_ctx g = Some ctx" and "is_ready ctx" and "\<not> event_queue_full c g"
    and "cfg_watchdog_enabled c" and "egfx_on_udp g" and "\<not> egfx_on_lossy g"
    and "\<not> demigrated ctx" and "\<not> acks_suspended ctx"
    and "now - last_ship_at ctx \<le> cfg_watchdog_active_window c"
    and "cfg_watchdog_wedge_timeout c \<le> now - last_ack_at ctx"
  shows "demigrate_request (fst (snd (submit_bgra c a now key g)))"
proof -
  obtain g1 ctx1 where arm: "armed_ctx c now key g ctx = (g1, ctx1)" by fastforce
  have req: "demigrate_request g1"
    using arm assms(4-)
    by (auto simp: armed_ctx_def arm_recovery_idr_def watchdog_def should_demigrate_to_tcp_def
        demigrate_def saturating_duration_since_def Let_def split: if_splits)
  obtain adm g2 calls where adm: "admit c a now key g = (adm, g2, calls)" by (metis prod_cases3)
  have "demigrate_request g2"
    using adm
  proof (cases rule: admit_cases)
    case (inactive b)
    with assms(1-3) show ?thesis by simp
  next
    case (failed x g1' ctx1' e ctx2)
    with assms(1) arm req show ?thesis by simp
  next
    case (ready x g1' ctx1' ctx2)
    with assms(1) arm req have "demigrate_request g1'" by simp
    with ready(4) show ?thesis by (cases rule: admit_ready_cases) (auto dest: detector_request)
  qed
  with adm show ?thesis
    by (auto simp: submit_bgra_def Let_def
        dest!: run_recovery_request encode_phase_drops(4) split: prod.splits admission.splits)
qed

text \<open>
  C5. A wedged tunnel is left for good: when the client's acknowledgements have been silent for
  the wedge timeout while frames were shipped over the reliable UDP tunnel, the next capture
  makes every later graphics message of the connection go over TCP, even if the tunnel is
  announced again.
\<close>

theorem wedged_tunnel_left:
  assumes "gfx_ctx g = Some ctx" and "is_ready ctx" and "\<not> event_queue_full c g"
    and "cfg_watchdog_enabled c" and "egfx_on_udp g" and "\<not> egfx_on_lossy g"
    and "\<not> demigrated ctx" and "\<not> acks_suspended ctx"
    and "now - last_ship_at ctx \<le> cfg_watchdog_active_window c"
    and "cfg_watchdog_wedge_timeout c \<le> now - last_ack_at ctx"
    and "\<forall>e \<in> set es. \<not> ends_connection e"
  shows "RouteUdp \<notin> set (snd (run_out (egfx_step c) g (Capture a now key # es)))"
proof -
  have "demigrate_request (fst (egfx_step c g (Capture a now key)))"
    using wedge_requests [OF assms(1-10)] by simp
  from tcp_only.run_good [OF this assms(11)] show ?thesis
    using capture_no_route [of c a now key g] by (auto simp: split_beta Let_def)
qed

text \<open>A ready session on the reliable tunnel, last acknowledged at second 1, shipping at second 5.\<close>

definition udp_gfx :: gfx where
  "udp_gfx = sample_gfx\<lparr>egfx_on_udp := True,
     gfx_ctx := Some ((new_connection sample_config sample_gfx 1 0)\<lparr>is_ready := True,
       surface_id := Some 0, encoder := True, egfx_acks_seen := True,
       last_ack_at := from_secs 1, last_ship_at := from_secs 5\<rparr>)\<rparr>"

lemma wedged_tunnel_left_witness:
  "RouteUdp \<notin> set (snd (run_out (egfx_step sample_config) udp_gfx
     (Capture sample_answers (from_secs 5) False # [Dispatch, SoftSync False, Dispatch])))"
  by (rule wedged_tunnel_left [where ctx = "the (gfx_ctx udp_gfx)"])
    (simp_all add: udp_gfx_def sample_gfx_def new_connection_def Let_def event_queue_full_def
      sample_config_fields std_simps)

section \<open>Depth of the encode pipeline\<close>

text \<open>
  A run with the frames in flight: those of the current connection that its encoders took and its
  ship threads have not yet shipped. A ship thread ships only frames in flight, and the encoder may
  lose some (\<open>Lose\<close>).
\<close>

datatype flight_event = Event egfx_event | Lose

fun taken_by :: "egfx_event \<Rightarrow> bool" where
  "taken_by (Capture a now key) = ans_encode a"
| "taken_by _ = False"

definition current_session :: "gfx \<Rightarrow> nat option" where
  "current_session g = map_option diagnostic_session (gfx_ctx g)"

fun shipped_by :: "egfx_event \<Rightarrow> nat option \<Rightarrow> nat" where
  "shipped_by (Ship a now session frames) s = (if s = Some session then length frames else 0)"
| "shipped_by _ s = 0"

fun connects :: "egfx_event \<Rightarrow> bool" where
  "connects (Connect h now) = True"
| "connects _ = False"

fun flight_step :: "gfx_config \<Rightarrow> gfx \<times> nat \<Rightarrow> flight_event \<Rightarrow> (gfx \<times> nat) option" where
  "flight_step c (g, n) Lose = (if 0 < n then Some (g, n - 1) else None)"
| "flight_step c (g, n) (Event e) =
     (let (g', calls) = egfx_step c g e; k = shipped_by e (current_session g)
      in if n < k then None
         else if connects e then Some (g', 0)
         else Some (g', n - k + (if taken_by e then length (filter is_encode calls) else 0)))"

text \<open>
  The events that end the encoder of a connection, which the next capture builds again; and how many
  of them the current connection has seen.
\<close>

fun ends_encoder :: "egfx_event \<Rightarrow> bool" where
  "ends_encoder LiveResize = True"
| "ends_encoder Closed = True"
| "ends_encoder _ = False"

fun rebuilds_step :: "nat \<Rightarrow> flight_event \<Rightarrow> nat" where
  "rebuilds_step r Lose = r"
| "rebuilds_step r (Event e) = (if connects e then 0 else if ends_encoder e then r + 1 else r)"

definition rebuilds :: "flight_event list \<Rightarrow> nat" where
  "rebuilds es = foldl rebuilds_step 0 es"

text \<open>
  The counters against the frames in flight after \<open>k\<close> events. \<open>m\<close> is what was in flight when the
  counters were reset last, with the start of an encoder: neither counter has wrapped, and what was
  submitted and was in flight at the reset covers what was shipped and is in flight.
\<close>

definition flight_inv :: "gfx_config \<Rightarrow> nat \<Rightarrow> nat \<Rightarrow> nat \<Rightarrow> nat \<Rightarrow> connection \<Rightarrow> bool" where
  "flight_inv c k r n m ctx \<longleftrightarrow> n \<le> k \<and> m \<le> k \<and> m \<le> r * cfg_max_in_flight c \<and> submitted ctx \<le> k
     \<and> n + shipped ctx \<le> submitted ctx + m \<and> n \<le> cfg_max_in_flight c + m
     \<and> (encoder ctx \<or> n \<le> r * cfg_max_in_flight c)"

definition flight_ok :: "gfx_config \<Rightarrow> nat \<Rightarrow> nat \<Rightarrow> gfx \<times> nat \<Rightarrow> bool" where
  "flight_ok c k r = (\<lambda>(g, n).
     case gfx_ctx g of None \<Rightarrow> n = 0 | Some ctx \<Rightarrow> \<exists>m. flight_inv c k r n m ctx)"

text \<open>What a capture does to the counters.\<close>

lemma detector_counters:
  assumes "blank_detector c now (g, ctx) = ((g', ctx'), r)"
  shows "submitted ctx' = submitted ctx \<and> shipped ctx' = shipped ctx \<and> encoder ctx' = encoder ctx"
  using blank_frameD [OF blank_detector_frame [OF assms]] by simp

lemma setup_needed_spawn:
  "setup_needed c a ctx = (err, ctx', calls) \<Longrightarrow>
     (if SpawnShipThread \<in> set calls then submitted ctx' = 0 \<and> shipped ctx' = 0 \<and> \<not> encoder ctx \<and> encoder ctx'
      else submitted ctx' = submitted ctx \<and> shipped ctx' = shipped ctx \<and> encoder ctx' = encoder ctx)"
  by (auto simp: setup_needed_def setup_locked_def setup_surface_def setup_encoder_def Let_def
      split: if_splits option.splits prod.splits)

lemma armed_ctx_encoder: "armed_ctx c now key g ctx = (g', ctx') \<Longrightarrow> encoder ctx' = encoder ctx"
  by (auto simp: armed_ctx_def arm_recovery_idr_def watchdog_def demigrate_def Let_def split: if_splits)

text \<open>The counters of the context before a capture and after one of its steps.\<close>

definition counters_moved :: "bool \<Rightarrow> connection \<Rightarrow> gfx \<Rightarrow> bool" where
  "counters_moved spawned ctx g \<longleftrightarrow> (\<exists>ctx'. gfx_ctx g = Some ctx' \<and>
     (if spawned then submitted ctx' = 0 \<and> shipped ctx' = 0 \<and> \<not> encoder ctx \<and> encoder ctx'
      else submitted ctx' = submitted ctx \<and> shipped ctx' = shipped ctx \<and> encoder ctx' = encoder ctx))"

lemma admit_counters:
  assumes "admit c a now key g = (adm, g', calls)" and "gfx_ctx g = Some ctx"
  shows "counters_moved (SpawnShipThread \<in> set calls) ctx g'"
    and "adm = Admit flag \<Longrightarrow> gfx_ctx g' = Some ctx' \<Longrightarrow> outstanding ctx' < cfg_max_in_flight c"
proof -
  have "counters_moved (SpawnShipThread \<in> set calls) ctx g' \<and>
    (\<forall>flag ctx'. adm = Admit flag \<longrightarrow> gfx_ctx g' = Some ctx' \<longrightarrow> outstanding ctx' < cfg_max_in_flight c)"
    using assms(1)
  proof (cases rule: admit_cases)
    case (inactive b)
    with assms(2) show ?thesis by (auto simp: counters_moved_def)
  next
    case (failed x g1 ctx1 e ctx2)
    with assms(2) armed_ctx_keeps(7,8) [OF failed(2)] armed_ctx_encoder [OF failed(2)]
      setup_needed_spawn [OF failed(3)]
    show ?thesis by (auto simp: counters_moved_def)
  next
    case (ready x g1 ctx1 ctx2)
    have o2: "if SpawnShipThread \<in> set calls
      then submitted ctx2 = 0 \<and> shipped ctx2 = 0 \<and> \<not> encoder ctx \<and> encoder ctx2
      else submitted ctx2 = submitted ctx \<and> shipped ctx2 = shipped ctx \<and> encoder ctx2 = encoder ctx"
      using assms(2) ready(1) armed_ctx_keeps(7,8) [OF ready(2)] armed_ctx_encoder [OF ready(2)]
        setup_needed_spawn [OF ready(3)] by (auto split: if_splits)
    from ready(4) show ?thesis
    proof (cases rule: admit_ready_cases)
      case (recover g3 ctx3 r)
      with o2 detector_counters [OF recover(1)] show ?thesis by (simp add: counters_moved_def)
    next
      case (dropped g3 ctx3 ctx4)
      with o2 detector_counters [OF dropped(1)]
        gate_frameD(2,7,8) [OF capture_gates_frame [OF dropped(2)]] show ?thesis
        by (simp add: counters_moved_def)
    next
      case (admitted g3 ctx3 ctx4)
      have "outstanding ctx4 < cfg_max_in_flight c"
        using capture_gates_depth [OF admitted(2)]
          gate_frameD(7,8) [OF capture_gates_frame [OF admitted(2)]]
        by (simp add: outstanding_def)
      with admitted o2 detector_counters [OF admitted(1)]
        gate_frameD(2,7,8) [OF capture_gates_frame [OF admitted(2)]]
      show ?thesis by (auto simp: counters_moved_def outstanding_def)
    qed
  qed
  then show "counters_moved (SpawnShipThread \<in> set calls) ctx g'"
    and "adm = Admit flag \<Longrightarrow> gfx_ctx g' = Some ctx' \<Longrightarrow> outstanding ctx' < cfg_max_in_flight c"
    by auto
qed

lemma run_recovery_counters:
  "run_recovery a r g = (g', calls) \<Longrightarrow> counters_moved b ctx g \<Longrightarrow>
     counters_moved b ctx g' \<and> SpawnShipThread \<notin> set calls"
  by (auto simp: run_recovery_def perform_blank_remap_def perform_blank_reactivate_def perform_blank_drop_def
      counters_moved_def Let_def split: blank_action.splits option.splits if_splits)

lemma encode_phase_counters:
  assumes "encode_phase c a now key g = (res, g', calls)" and "gfx_ctx g = Some ctx"
  shows "SpawnShipThread \<notin> set calls"
    and "\<exists>ctx'. gfx_ctx g' = Some ctx' \<and> shipped ctx' = shipped ctx \<and> encoder ctx' = encoder ctx
      \<and> (if encoder ctx \<and> ans_encode a
         then filter is_encode calls = [EncodeBgra key] \<and> submitted ctx' = (submitted ctx + 1) mod 2 ^ 64
         else submitted ctx' = submitted ctx \<and> (\<not> ans_encode a \<or> filter is_encode calls = []))"
proof -
  obtain acts ctx1 where step: "adaptive_bitrate_step c g now ctx = (acts, ctx1)" by fastforce
  have eq: "submitted ctx1 = submitted ctx" "shipped ctx1 = shipped ctx" "encoder ctx1 = encoder ctx"
    using control_frameD(1,6,7) [OF adaptive_bitrate_step_frame [OF step]] by simp_all
  show "SpawnShipThread \<notin> set calls"
    using assms step by (auto simp: encode_phase_def Let_def split: if_splits option.splits)
  show "\<exists>ctx'. gfx_ctx g' = Some ctx' \<and> shipped ctx' = shipped ctx \<and> encoder ctx' = encoder ctx
      \<and> (if encoder ctx \<and> ans_encode a
         then filter is_encode calls = [EncodeBgra key] \<and> submitted ctx' = (submitted ctx + 1) mod 2 ^ 64
         else submitted ctx' = submitted ctx \<and> (\<not> ans_encode a \<or> filter is_encode calls = []))"
    using assms step eq by (auto simp: encode_phase_def Let_def split: if_splits option.splits)
qed

text \<open>One capture: the counters of the context after it, and whether it spent a slot of the pipeline.\<close>

lemma capture_counters:
  assumes "submit_bgra c a now key g = (res, g', calls)" and "gfx_ctx g = Some ctx"
  obtains ctx1 ctx' where "gfx_ctx g' = Some ctx'" "shipped ctx' = shipped ctx1" "encoder ctx' = encoder ctx1"
    "if SpawnShipThread \<in> set calls
     then submitted ctx1 = 0 \<and> shipped ctx1 = 0 \<and> \<not> encoder ctx \<and> encoder ctx1
     else submitted ctx1 = submitted ctx \<and> shipped ctx1 = shipped ctx \<and> encoder ctx1 = encoder ctx"
    "ans_encode a \<and> filter is_encode calls \<noteq> [] \<Longrightarrow> length (filter is_encode calls) = 1
       \<and> submitted ctx' = (submitted ctx1 + 1) mod 2 ^ 64 \<and> outstanding ctx1 < cfg_max_in_flight c \<and> encoder ctx1"
    "\<not> ans_encode a \<or> filter is_encode calls = [] \<Longrightarrow> submitted ctx' = submitted ctx1"
proof -
  obtain adm g1 calls1 where adm: "admit c a now key g = (adm, g1, calls1)"
    by (metis prod_cases3)
  note moved = admit_counters(1) [OF adm assms(2)]
  then obtain ctx1 where ctx1: "gfx_ctx g1 = Some ctx1"
    "if SpawnShipThread \<in> set calls1
     then submitted ctx1 = 0 \<and> shipped ctx1 = 0 \<and> \<not> encoder ctx \<and> encoder ctx1
     else submitted ctx1 = submitted ctx \<and> shipped ctx1 = shipped ctx \<and> encoder ctx1 = encoder ctx"
    by (auto simp: counters_moved_def)
  have none: "filter is_encode calls1 = []"
    using adm by (cases rule: admit_cases) (auto dest: setup_needed_calls)
  show thesis
  proof (cases adm)
    case (Return b)
    with adm assms(1) ctx1 none show thesis by (intro that [of ctx1 ctx1]) (auto simp: submit_bgra_def)
  next
    case (Fail e)
    with adm assms(1) ctx1 none show thesis by (intro that [of ctx1 ctx1]) (auto simp: submit_bgra_def)
  next
    case (Recover r)
    obtain g2 calls2 where rec: "run_recovery a r g1 = (g2, calls2)" by fastforce
    from run_recovery_counters [OF rec moved] obtain ctx2 where ctx2: "gfx_ctx g2 = Some ctx2"
      "if SpawnShipThread \<in> set calls1
       then submitted ctx2 = 0 \<and> shipped ctx2 = 0 \<and> \<not> encoder ctx \<and> encoder ctx2
       else submitted ctx2 = submitted ctx \<and> shipped ctx2 = shipped ctx \<and> encoder ctx2 = encoder ctx"
      "SpawnShipThread \<notin> set calls2"
      by (auto simp: counters_moved_def)
    have "calls = calls1 @ calls2" "g' = g2" using adm rec Recover assms(1) by (simp_all add: submit_bgra_def)
    with ctx2 none run_recovery_keyframe(1) [OF rec] show thesis by (intro that [of ctx2 ctx2]) auto
  next
    case (Admit flag)
    obtain r2 g2 calls2 where enc: "encode_phase c a now flag g1 = (r2, g2, calls2)"
      by (metis prod_cases3)
    note e = encode_phase_counters [OF enc ctx1(1)]
    from e(2) obtain ctx' where ctx': "gfx_ctx g2 = Some ctx'" "shipped ctx' = shipped ctx1" "encoder ctx' = encoder ctx1"
      "if encoder ctx1 \<and> ans_encode a
       then filter is_encode calls2 = [EncodeBgra flag] \<and> submitted ctx' = (submitted ctx1 + 1) mod 2 ^ 64
       else submitted ctx' = submitted ctx1 \<and> (\<not> ans_encode a \<or> filter is_encode calls2 = [])"
      by blast
    have c: "calls = calls1 @ calls2" "g' = g2" using adm enc Admit assms(1) by (simp_all add: submit_bgra_def)
    have s: "SpawnShipThread \<in> set calls \<longleftrightarrow> SpawnShipThread \<in> set calls1" using e(1) c(1) by auto
    have f: "filter is_encode calls = filter is_encode calls2" using none c(1) by simp
    show thesis
      by (rule that [of ctx' ctx1])
        (use ctx' ctx1 c s f admit_counters(2) [OF adm assms(2) Admit ctx1(1)] in \<open>auto split: if_splits\<close>)
  qed
qed

lemma on_frame_ack_counters:
  "gfx_ctx (on_frame_ack now f q g) = None \<longleftrightarrow> gfx_ctx g = None"
  "gfx_ctx (on_frame_ack now f q g) = Some ctx' \<Longrightarrow> gfx_ctx g = Some ctx \<Longrightarrow>
     submitted ctx' = submitted ctx \<and> shipped ctx' = shipped ctx \<and> encoder ctx' = encoder ctx"
  by (auto simp: on_frame_ack_def frame_ack_def ack_advance_def fold_rtt_def Let_def
      split: option.splits prod.splits if_splits)

lemma other_step_counters:
  assumes "\<not> connects e" "\<forall>a now key. e \<noteq> Capture a now key" "\<forall>a now session frames. e \<noteq> Ship a now session frames"
  shows "filter is_encode (snd (egfx_step c g e)) = [] \<and> SpawnShipThread \<notin> set (snd (egfx_step c g e))
    \<and> (case (gfx_ctx g, gfx_ctx (fst (egfx_step c g e))) of
         (None, None) \<Rightarrow> True
       | (Some ctx, Some ctx') \<Rightarrow> submitted ctx' = submitted ctx \<and> shipped ctx' = shipped ctx
           \<and> (ends_encoder e \<or> encoder ctx' = encoder ctx)
       | _ \<Rightarrow> False)"
proof (cases e)
  case (Ack now f q)
  with on_frame_ack_counters [of now f q g] show ?thesis by (auto split: option.split)
next
  case Resume
  then show ?thesis by (auto simp: demigrate_on_resume_def demigrate_def split: option.split)
next
  case (Qoe now d)
  then show ?thesis by (auto simp: on_qoe_metrics_def qoe_ctx_def Let_def split: option.split)
qed (use assms in \<open>auto simp: event_defs split: option.split\<close>)

lemma ship_round_no_spawn: "SpawnShipThread \<notin> set (snd (ship_round c a now session frames g))"
proof -
  have all: "SpawnShipThread \<notin> set (snd (ship_all c now sid frames ctx))" for sid ctx
  proof (induction frames rule: rev_induct)
    case (snoc x frames)
    obtain f sent where x: "x = (f, sent)" by fastforce
    from snoc show ?case
      by (auto simp: ship_all_def x ship_frame_def Let_def split: prod.splits option.splits)
  qed (simp add: ship_all_def)
  obtain res g1 calls1 where sf: "ship_frames c a now frames
      (g\<lparr>gfx_ctx := map_option (counted_off session (length frames)) (gfx_ctx g)\<rparr>) = (res, g1, calls1)"
    by (metis prod_cases3)
  from sf have "SpawnShipThread \<notin> set calls1"
  proof (cases rule: ship_frames_cases)
    case (sent x sid ctx' cs)
    with all [of sid "x\<lparr>last_ship_at := now\<rparr>"] show ?thesis by auto
  qed simp_all
  with sf show ?thesis by (simp add: ship_round_eq)
qed

lemma flight_capture:
  assumes inv: "flight_inv c k r n m ctx" and ctx: "gfx_ctx g = Some ctx" and k: "k + 1 < 2 ^ 64"
    and sub: "submit_bgra c a now key g = (res, g', calls)"
  shows "\<exists>ctx' m'. gfx_ctx g' = Some ctx'
    \<and> flight_inv c (k + 1) r (n + (if ans_encode a then length (filter is_encode calls) else 0)) m' ctx'"
proof -
  from capture_counters [OF sub ctx] obtain ctx1 ctx' where c:
    "gfx_ctx g' = Some ctx'" "shipped ctx' = shipped ctx1" "encoder ctx' = encoder ctx1"
    and spawn: "if SpawnShipThread \<in> set calls
     then submitted ctx1 = 0 \<and> shipped ctx1 = 0 \<and> \<not> encoder ctx \<and> encoder ctx1
     else submitted ctx1 = submitted ctx \<and> shipped ctx1 = shipped ctx \<and> encoder ctx1 = encoder ctx"
    and enc: "ans_encode a \<and> filter is_encode calls \<noteq> [] \<Longrightarrow> length (filter is_encode calls) = 1
       \<and> submitted ctx' = (submitted ctx1 + 1) mod 2 ^ 64 \<and> outstanding ctx1 < cfg_max_in_flight c \<and> encoder ctx1"
    and none: "\<not> ans_encode a \<or> filter is_encode calls = [] \<Longrightarrow> submitted ctx' = submitted ctx1"
    by blast
  define m' where "m' = (if SpawnShipThread \<in> set calls then n else m)"
  have one: "flight_inv c k r n m' ctx1"
    using inv spawn by (auto simp: flight_inv_def m'_def)
  show ?thesis
  proof (cases "ans_encode a \<and> filter is_encode calls \<noteq> []")
    case False
    then have "submitted ctx' = submitted ctx1" by (intro none) auto
    with one c have "flight_inv c (k + 1) r n m' ctx'" by (auto simp: flight_inv_def)
    moreover have "(if ans_encode a then length (filter is_encode calls) else 0) = 0" using False by auto
    ultimately show ?thesis using c(1) by auto
  next
    case True
    note e = enc [OF True]
    have "submitted ctx1 + 1 < 2 ^ 64" using one k by (simp add: flight_inv_def)
    then have "submitted ctx' = submitted ctx1 + 1" using e by simp
    moreover have "n + 1 \<le> cfg_max_in_flight c + m'"
      using one e by (auto simp: flight_inv_def outstanding_def)
    ultimately have "flight_inv c (k + 1) r (n + 1) m' ctx'"
      using one e c by (auto simp: flight_inv_def)
    with c(1) e True show ?thesis by auto
  qed
qed

lemma flight_ship:
  assumes inv: "flight_inv c k r n m ctx" and ctx: "gfx_ctx g = Some ctx" and k: "2 * k < 2 ^ 64"
    and sr: "ship_round c a now session frames g = (g', calls)"
    and le: "shipped_by (Ship a now session frames) (current_session g) \<le> n"
  shows "\<exists>ctx'. gfx_ctx g' = Some ctx'
    \<and> flight_inv c (k + 1) r (n - shipped_by (Ship a now session frames) (current_session g)) m ctx'"
  using sr
proof (cases rule: ship_round_cases)
  case none
  with ctx show ?thesis by simp
next
  case (some x ctx')
  have x: "x = ctx" using some(1) ctx by simp
  have cur: "current_session g = Some (diagnostic_session ctx)" using ctx by (simp add: current_session_def)
  show ?thesis
  proof (cases "diagnostic_session ctx = session")
    case True
    then have "shipped ctx + length frames < 2 ^ 64" using inv k le cur by (simp add: flight_inv_def)
    then have "shipped ctx' = shipped ctx + length frames" using some(4) True x by simp
    with inv le cur True some(2,5,17) x show ?thesis by (auto simp: flight_inv_def)
  next
    case False
    with inv cur some(2,4,5,17) x show ?thesis by (auto simp: flight_inv_def)
  qed
qed

lemma flight_other:
  assumes inv: "flight_inv c k r n m ctx" and e: "ends_encoder e \<or> encoder ctx' = encoder ctx"
    and same: "submitted ctx' = submitted ctx" "shipped ctx' = shipped ctx"
  shows "flight_inv c (k + 1) (if ends_encoder e then r + 1 else r) n m ctx'"
  using assms by (auto simp: flight_inv_def)

lemma capture_idle: "gfx_ctx g = None \<Longrightarrow> snd (submit_bgra c a now key g) = (g, [])"
  by (simp add: submit_bgra_def admit_def)

lemma flight_event_ok:
  assumes ok: "flight_ok c k r (g, n)" and k: "2 * k + 1 < 2 ^ 64"
    and step: "flight_step c (g, n) (Event e) = Some s'"
  shows "flight_ok c (k + 1) (rebuilds_step r (Event e)) s'"
proof -
  obtain g' calls where st: "egfx_step c g e = (g', calls)" by fastforce
  have le: "shipped_by e (current_session g) \<le> n" using step st by (auto simp: Let_def split: if_splits)
  show ?thesis
  proof (cases "connects e")
    case True
    then obtain h now where e: "e = Connect h now" by (cases e) auto
    with step st show ?thesis
      by (auto simp: flight_ok_def flight_inv_def build_server_with_handle_def new_connection_def Let_def)
  next
    case nc: False
    then have s': "s' = (g', n - shipped_by e (current_session g)
        + (if taken_by e then length (filter is_encode calls) else 0))"
      using step st le by (simp add: Let_def)
    have rb: "rebuilds_step r (Event e) = (if ends_encoder e then r + 1 else r)" using nc by simp
    show ?thesis
    proof (cases "\<exists>a now key. e = Capture a now key")
      case True
      then obtain a now key where e: "e = Capture a now key" by blast
      obtain res where sub: "submit_bgra c a now key g = (res, g', calls)"
        using st e by (cases "submit_bgra c a now key g") simp
      show ?thesis
      proof (cases "gfx_ctx g")
        case None
        with capture_idle [OF None, of c a now key] sub ok e s' show ?thesis by (simp add: flight_ok_def)
      next
        case (Some ctx)
        with ok obtain m where m: "flight_inv c k r n m ctx" by (auto simp: flight_ok_def)
        from flight_capture [OF m Some _ sub] k e s' show ?thesis by (auto simp: flight_ok_def)
      qed
    next
      case ncap: False
      show ?thesis
      proof (cases "\<exists>a now session frames. e = Ship a now session frames")
        case True
        then obtain a now session frames where e: "e = Ship a now session frames" by blast
        then have sr: "ship_round c a now session frames g = (g', calls)" using st by simp
        show ?thesis
        proof (cases "gfx_ctx g")
          case None
          with sr have "g' = g" by (cases rule: ship_round_cases) simp_all
          with None ok e s' show ?thesis by (simp add: flight_ok_def current_session_def)
        next
          case (Some ctx)
          with ok obtain m where m: "flight_inv c k r n m ctx" by (auto simp: flight_ok_def)
          from flight_ship [OF m Some _ sr] le k e s' show ?thesis by (auto simp: flight_ok_def)
        qed
      next
        case False
        note o = other_step_counters [OF nc, of c g] ncap False
        have "taken_by e = False" using ncap by (cases e) auto
        moreover have "shipped_by e (current_session g) = 0" using False by (cases e) auto
        ultimately have s'': "s' = (g', n)" using s' by simp
        show ?thesis
        proof (cases "gfx_ctx g")
          case None
          with o st ok s'' show ?thesis by (auto simp: flight_ok_def split: option.splits)
        next
          case (Some ctx)
          with ok obtain m where m: "flight_inv c k r n m ctx" by (auto simp: flight_ok_def)
          from o st Some obtain ctx' where c: "gfx_ctx g' = Some ctx'" "submitted ctx' = submitted ctx"
            "shipped ctx' = shipped ctx" "ends_encoder e \<or> encoder ctx' = encoder ctx"
            by (auto split: option.splits)
          from flight_other [OF m c(4,2,3)] c(1) s'' rb show ?thesis by (auto simp: flight_ok_def)
        qed
      qed
    qed
  qed
qed

lemma flight_step_ok:
  assumes "flight_ok c k r s" and "2 * k + 1 < 2 ^ 64" and "flight_step c s v = Some s'"
  shows "flight_ok c (k + 1) (rebuilds_step r v) s'"
proof (cases v)
  case (Event e)
  with flight_event_ok [of c k r "fst s" "snd s" e s'] assms show ?thesis by simp
next
  case Lose
  obtain g n where s: "s = (g, n)" by fastforce
  with assms(3) Lose have s': "s' = (g, n - 1)" by (simp split: if_splits)
  have "flight_inv c (k + 1) r (n - 1) m ctx" if "flight_inv c k r n m ctx" for m ctx
    using that by (auto simp: flight_inv_def)
  with assms(1) Lose s s' show ?thesis by (auto simp: flight_ok_def split: option.splits)
qed

lemma flight_run_ok:
  assumes "flight_ok c k r s" and "2 * (k + length es) < 2 ^ 64"
    and "run_opt (flight_step c) s es = Some s'"
  shows "flight_ok c (k + length es) (foldl rebuilds_step r es) s'"
  using assms
proof (induction es arbitrary: k r s)
  case (Cons v es)
  then obtain s1 where s1: "flight_step c s v = Some s1" "run_opt (flight_step c) s1 es = Some s'"
    by (auto split: bind_splits)
  have "flight_ok c (k + 1) (rebuilds_step r v) s1"
    using Cons.prems(1,2) s1(1) by (intro flight_step_ok) auto
  from Cons.IH [OF this _ s1(2)] Cons.prems(2) show ?case by simp
qed simp

text \<open>
  C8. Latency stays bounded: from a fresh connection on, and through every interleaving of
  captures, ship rounds of this and of earlier connections, acknowledgements and reconnects, never
  more frames that the encoder took are on their way to the wire than the configured depth. A live
  resize or a closed channel resets the counters while frames of the old encoder are still on their
  way, so each of them on the current connection (\<open>rebuilds\<close>) adds at most the depth once more. (In
  fewer than \<open>2 ^ 63\<close> events the 64-bit counters do not wrap.)
\<close>

theorem pipeline_depth_bounded:
  assumes "gfx_ctx g = None" and "length es < 2 ^ 63"
    and "run_opt (flight_step c) (g, 0) es = Some (g', in_flight)"
  shows "in_flight \<le> (1 + rebuilds es) * cfg_max_in_flight c"
proof -
  have "flight_ok c 0 0 (g, 0)" using assms(1) by (simp add: flight_ok_def)
  from flight_run_ok [OF this _ assms(3)] assms(2)
  have ok: "flight_ok c (length es) (rebuilds es) (g', in_flight)" by (simp add: rebuilds_def)
  show ?thesis
  proof (cases "gfx_ctx g'")
    case None
    with ok show ?thesis by (simp add: flight_ok_def)
  next
    case (Some ctx)
    with ok obtain m where "flight_inv c (length es) (rebuilds es) in_flight m ctx" by (auto simp: flight_ok_def)
    then show ?thesis by (auto simp: flight_inv_def)
  qed
qed

text \<open>The run of the witness: one frame in flight, a live resize, and a second one.\<close>

definition resized_run :: "flight_event list" where
  "resized_run = map Event (Connect 1 0 # sample_start @ [LiveResize, Capture sample_answers 0 False])"

lemma pipeline_depth_bounded_witness:
  "\<exists>g' n. run_opt (flight_step sample_config) (sample_gfx, 0) resized_run = Some (g', n)
     \<and> n = 2 \<and> n \<le> (1 + rebuilds resized_run) * 3"
proof -
  have run: "\<exists>g'. run_opt (flight_step sample_config) (sample_gfx, 0) resized_run = Some (g', 2)"
    by (simp add: resized_run_def sample_start_def reset_for_live_resize_def eval_defs)
  then obtain g' where r: "run_opt (flight_step sample_config) (sample_gfx, 0) resized_run = Some (g', 2)"
    by blast
  have "2 \<le> (1 + rebuilds resized_run) * cfg_max_in_flight sample_config"
    by (rule pipeline_depth_bounded [OF _ _ r]) (simp_all add: sample_gfx_def resized_run_def sample_start_def)
  with r show ?thesis by (simp add: sample_config_fields)
qed

end
