(* ===== verification/Egfx_Bounds_Props.thy ===== *)
theory Egfx_Bounds_Props
  imports Egfx_Rate_Props
begin

text \<open>
  The properties of the rate control and of the acknowledgement samples: the bounds of what the
  encoder is told, the direction of the bitrate loop, the round-trip samples, and the framing of
  the frames that are shipped.
\<close>

section \<open>Bounds of the rate control\<close>

abbreviation fps_cap :: "gfx_config \<Rightarrow> nat" where "fps_cap c \<equiv> max (cfg_fps c) 30"

definition bps_ok :: "gfx_config \<Rightarrow> nat \<Rightarrow> bool" where
  "bps_ok c b \<longleftrightarrow> cfg_adaptive_floor_bps c \<le> b \<and> b \<le> cfg_bitrate_bps c"

definition rate_ok :: "gfx_config \<Rightarrow> connection \<Rightarrow> bool" where
  "rate_ok c ctx \<longleftrightarrow> bps_ok c (adaptive_target_bps ctx)
     \<and> adaptive_pid_fps ctx \<le> real (fps_cap c)
     \<and> stage_fps (adaptive_fps_stage ctx) \<le> fps_cap c"

lemma rate_ok_cong:
  "adaptive_target_bps y = adaptive_target_bps x \<Longrightarrow> adaptive_pid_fps y = adaptive_pid_fps x \<Longrightarrow>
     adaptive_fps_stage y = adaptive_fps_stage x \<Longrightarrow> rate_ok c y = rate_ok c x"
  by (simp add: rate_ok_def)

fun encoder_call_ok :: "gfx_config \<Rightarrow> egfx_call \<Rightarrow> bool" where
  "encoder_call_ok c (SetBitrate b) = bps_ok c b"
| "encoder_call_ok c (NewEncoder w h fps b) = bps_ok c b"
| "encoder_call_ok c (SetKeyframeInterval f) =
     (f \<in> {cfg_normal_keyframe_frames c, cfg_stretched_keyframe_frames c})"
| "encoder_call_ok c _ = True"

definition usable :: "gfx_config \<Rightarrow> bool" where
  "usable c \<longleftrightarrow> config_ok c \<and> 0 < cfg_bitrate_bps c"

lemma usable_floor:
  "usable c \<Longrightarrow> 0 < cfg_adaptive_floor_bps c \<and> cfg_adaptive_floor_bps c \<le> cfg_bitrate_bps c"
  by (auto simp: usable_def config_ok_def)

lemma seeded_ok:
  assumes "usable c"
  shows "bps_ok c (initial_target_bps c rtt)"
proof -
  let ?b = "cfg_bitrate_bps c" and ?f = "cfg_adaptive_floor_bps c"
  have "min ?f ?b \<le> clamp (?b div 3) (min ?f ?b) (max ?b 1)
      \<and> clamp (?b div 3) (min ?f ?b) (max ?b 1) \<le> max ?b 1"
    by (rule clamp_bounds) auto
  then show ?thesis
    using usable_floor [OF assms]
    by (auto simp: initial_target_bps_def seeded_initial_bitrate_def bps_ok_def)
qed

lemma new_connection_ok:
  assumes "usable c"
  shows "rate_ok c (new_connection c g h now)"
proof -
  let ?b = "cfg_bitrate_bps c"
  let ?t = "clamp (initial_target_bps c (gfx_link_rtt_ms g)) (cfg_adaptive_floor_bps c) (max ?b 1)"
  have b: "0 < ?b" using assms by (simp add: usable_def)
  have "?t \<le> max ?b 1" using usable_floor [OF assms] by (intro conjunct2 [OF clamp_bounds]) auto
  then have "real ?t / real (max ?b 1) \<le> 1" using b by simp
  then have "real ?t / real (max ?b 1) * real (cfg_fps c) \<le> 1 * real (cfg_fps c)"
    by (rule mult_right_mono) simp
  then have "real ?t / real (max ?b 1) * real (cfg_fps c) \<le> real (fps_cap c)" by simp
  then show ?thesis
    using seeded_ok [OF assms] by (simp add: new_connection_def Let_def rate_ok_def)
qed

lemma pid_bitrate_step_bounds:
  assumes "pid_bitrate_step cur hi lo err dt kp ki kd i pe = (t, i', e')"
  shows "max lo 1 \<le> t \<and> t \<le> max hi (max lo 1)"
proof -
  let ?x = "f64_round (real cur + pid_delta (clamp err (- 500) 500) pe
    (pid_integral_step i (clamp err (- 500) 500) dt 2000) dt kp ki kd * 1000000)"
  have "int (max lo 1) \<le> clamp ?x (int (max lo 1)) (int (max hi (max lo 1)))
      \<and> clamp ?x (int (max lo 1)) (int (max hi (max lo 1))) \<le> int (max hi (max lo 1))"
    by (rule clamp_bounds) simp
  moreover have "t = nat (clamp ?x (int (max lo 1)) (int (max hi (max lo 1))))"
    using assms by (auto simp: pid_bitrate_step_def Let_def)
  ultimately show ?thesis by linarith
qed

lemma bitrate_control_ok:
  assumes "bitrate_control c u run err ctx = (b, ctx')" and "usable c" and "rate_ok c ctx"
  shows "rate_ok c ctx'" and "b = Some x \<Longrightarrow> bps_ok c x"
proof -
  obtain t i e where step: "pid_bitrate_step (adaptive_target_bps ctx) (max (cfg_bitrate_bps c) 1)
      (max (cfg_adaptive_floor_bps c) 1) err (as_secs_f64 (cfg_adaptive_interval c)) (cfg_pid_kp c)
      (cfg_pid_ki c) (cfg_pid_kd c) (adaptive_pid_integral ctx) (adaptive_pid_previous_error ctx)
      = (t, i, e)" by (metis prod_cases3)
  have "bps_ok c t"
    using pid_bitrate_step_bounds [OF step] usable_floor [OF assms(2)] by (auto simp: bps_ok_def)
  then show "rate_ok c ctx'" and "b = Some x \<Longrightarrow> bps_ok c x"
    using assms(1,3) step
    by (auto simp: bitrate_control_def Let_def rate_ok_def split: if_splits)
qed

lemma f64_round_le: "x \<le> real n \<Longrightarrow> nat (f64_round x) \<le> n"
  using f64_round_mono [of x "real n"] by simp

lemma clamp_pid_fps_le: "clamp_pid_fps v lo hi \<le> max hi (max lo 1)"
proof -
  have "clamp (f64_round v) (int (max lo 1)) (int (max hi (max lo 1))) \<le> int (max hi (max lo 1))"
    by (rule conjunct2 [OF clamp_bounds]) simp
  then show ?thesis unfolding clamp_pid_fps_def by linarith
qed

lemma fps_control_ok:
  assumes "usable c" and "rate_ok c ctx"
  shows "rate_ok c (fps_control c run err ctx)"
proof -
  have min_fps: "30 \<le> cfg_pid_min_fps c" "cfg_pid_min_fps c \<le> fps_cap c"
    using assms(1) by (auto simp: usable_def config_ok_def)
  have "max (max (cfg_fps c) (cfg_pid_min_fps c)) (max (cfg_pid_min_fps c) 1) \<le> fps_cap c"
    using min_fps by simp
  then have a: "clamp_pid_fps v (cfg_pid_min_fps c) (max (cfg_fps c) (cfg_pid_min_fps c))
      \<le> fps_cap c" for v
    by (rule order_trans [OF clamp_pid_fps_le])
  have b: "min (nat (f64_round (adaptive_pid_fps ctx))) U32_MAX \<le> fps_cap c"
    using f64_round_le [of "adaptive_pid_fps ctx" "fps_cap c"] assms(2) by (simp add: rate_ok_def)
  obtain pid i where pid: "fps_target c run err ctx = (pid, i)" by fastforce
  then have "pid \<le> fps_cap c"
    using a b by (auto simp: fps_target_def Let_def split: if_splits)
  then show ?thesis
    using assms(2) pid by (auto simp: rate_ok_def fps_control_def Let_def)
qed

lemma idr_control_ok:
  assumes "idr_control c ctx = (f, ctx')"
  shows "rate_ok c ctx' = rate_ok c ctx"
    and "f = Some x \<Longrightarrow> encoder_call_ok c (SetKeyframeInterval x)"
  using assms
  by (auto simp: idr_control_def Let_def rate_ok_def split: idr_backoff.splits)

lemma congestion_signal_ok:
  "congestion_signal c n w now ctx = (u, ctx') \<Longrightarrow> rate_ok c ctx' = rate_ok c ctx"
  by (auto simp: congestion_signal_def Let_def rate_ok_def)

definition actions_ok :: "gfx_config \<Rightarrow> adaptive_actions \<Rightarrow> bool" where
  "actions_ok c acts \<longleftrightarrow> (\<forall>b. act_bitrate acts = Some b \<longrightarrow> bps_ok c b)
     \<and> (\<forall>f. act_keyframe acts = Some f \<longrightarrow> encoder_call_ok c (SetKeyframeInterval f))"

lemma control_interval_ok:
  assumes "control_interval c n w now acts ctx = (acts', ctx')"
    and "usable c" and "rate_ok c ctx" and "actions_ok c acts"
  shows "rate_ok c ctx' \<and> actions_ok c acts'"
proof -
  let ?ctx = "ctx\<lparr>adaptive_last_control := now\<rparr>"
  obtain u ctx1 where sig: "congestion_signal c n w now ?ctx = (u, ctx1)" by fastforce
  let ?err = "adaptive_delay_ewma ctx1 - cfg_queue_target_ms c"
  obtain rb rf where act: "rate_pid_actuators ?err (adaptive_pid_fps ctx1) (cfg_pid_min_fps c)
      (adaptive_target_bps ctx1) (max (cfg_bitrate_bps c) 1) (cfg_pid_fps_deadband_ms c) = (rb, rf)"
    by fastforce
  obtain bps ctx2 where bit: "bitrate_control c u rb ?err ctx1 = (bps, ctx2)" by fastforce
  obtain frames ctx3 where idr: "idr_control c (fps_control c rf ?err ctx2) = (frames, ctx3)"
    by fastforce
  have "rate_ok c ctx1"
    using assms(3) congestion_signal_ok [OF sig] by (simp add: rate_ok_def)
  then have "rate_ok c ctx2" and b: "\<And>x. bps = Some x \<Longrightarrow> bps_ok c x"
    using bitrate_control_ok [OF bit assms(2)] by blast+
  then have "rate_ok c ctx3" using fps_control_ok [OF assms(2)] idr_control_ok(1) [OF idr] by simp
  moreover have f: "\<And>x. frames = Some x \<Longrightarrow> encoder_call_ok c (SetKeyframeInterval x)"
    by (rule idr_control_ok(2) [OF idr])
  moreover have "ctx' = ctx3" and acts': "acts' =
      (let acts = (case bps of Some b \<Rightarrow> acts\<lparr>act_bitrate := Some b\<rparr> | None \<Rightarrow> acts)
       in case frames of Some f \<Rightarrow> acts\<lparr>act_keyframe := Some f\<rparr> | None \<Rightarrow> acts)"
    using assms(1) sig act bit idr by (simp_all add: control_interval_def Let_def)
  moreover have "actions_ok c acts'"
    using assms(4) b f unfolding acts' actions_ok_def Let_def
    by (cases bps; cases frames) auto
  ultimately show ?thesis by simp
qed

lemma adaptive_bitrate_step_ok:
  assumes "adaptive_bitrate_step c g now ctx = (acts, ctx')"
    and "usable c" and "rate_ok c ctx"
  shows "rate_ok c ctx' \<and> actions_ok c acts"
proof (cases "cfg_adaptive_enabled c")
  case False
  with assms show ?thesis by (auto simp: adaptive_bitrate_step_def actions_ok_def no_actions_def)
next
  case True
  let ?ctx = "arm_warmup now ctx"
  obtain acts1 ctx1 where edge: "transport_edge c (egfx_on_udp g) now ?ctx = (acts1, ctx1)"
    by fastforce
  have "rate_ok c ?ctx" using assms(3) by (simp add: arm_warmup_def rate_ok_def)
  moreover have "bps_ok c (max (cfg_bitrate_bps c) 1)"
    using usable_floor [OF assms(2)] by (simp add: bps_ok_def)
  ultimately have ok: "rate_ok c ctx1 \<and> actions_ok c acts1"
    using edge
    by (auto simp: transport_edge_def Let_def rate_ok_def actions_ok_def no_actions_def
        split: if_splits)
  show ?thesis
  proof (cases "saturating_duration_since now (adaptive_last_control ctx1) < cfg_adaptive_interval c")
    case less: True
    with assms(1) True edge ok show ?thesis by (simp add: adaptive_bitrate_step_def Let_def)
  next
    case False
    with assms(1) True edge have "control_interval c (congestion_retransmits g) (in_warmup now ?ctx)
        now acts1 ctx1 = (acts, ctx')"
      by (simp add: adaptive_bitrate_step_def Let_def)
    from control_interval_ok [OF this assms(2)] ok show ?thesis by simp
  qed
qed

lemma setup_needed_ok:
  assumes "setup_needed c a ctx = (err, ctx', calls)" and "rate_ok c ctx"
  shows "rate_ok c ctx'" and "\<forall>x \<in> set calls. encoder_call_ok c x"
proof -
  show "rate_ok c ctx'"
    using frame_eqD [OF setup_needed_frame [OF assms(1)]] assms(2) by (simp add: rate_ok_def)
  show "\<forall>x \<in> set calls. encoder_call_ok c x"
    using assms
    by (auto simp: setup_needed_def setup_locked_def setup_surface_def setup_encoder_def Let_def
        rate_ok_def split: if_splits option.splits prod.splits)
qed

definition gfx_rate_ok :: "gfx_config \<Rightarrow> gfx \<Rightarrow> bool" where
  "gfx_rate_ok c g \<longleftrightarrow> (case gfx_ctx g of None \<Rightarrow> True | Some ctx \<Rightarrow> rate_ok c ctx)"

lemma admit_ok:
  assumes "admit c a now key g = (adm, g', calls)" and "gfx_rate_ok c g"
  shows "gfx_rate_ok c g' \<and> (\<forall>x \<in> set calls. encoder_call_ok c x)"
  using assms(1)
proof (cases rule: admit_cases)
  case (inactive b)
  with assms(2) show ?thesis by simp
next
  case (failed ctx g1 ctx1 e ctx2)
  then have "rate_ok c ctx1"
    using assms(2) armed_ctx_keeps [OF failed(2)] by (simp add: gfx_rate_ok_def rate_ok_def)
  with setup_needed_ok [OF failed(3)] failed(5) show ?thesis by (simp add: gfx_rate_ok_def)
next
  case (ready ctx g1 ctx1 ctx2)
  then have "rate_ok c ctx1"
    using assms(2) armed_ctx_keeps [OF ready(2)] by (simp add: gfx_rate_ok_def rate_ok_def)
  note ok = setup_needed_ok [OF ready(3) this]
  from ready(4) have "gfx_rate_ok c g'"
  proof (cases rule: admit_ready_cases)
    case (recover g3 ctx3 r)
    with ok(1) blank_frameD [OF blank_detector_frame [OF recover(1)]] show ?thesis
      by (simp add: gfx_rate_ok_def rate_ok_def)
  next
    case (dropped g3 ctx3 ctx4)
    with ok(1) blank_frameD [OF blank_detector_frame [OF dropped(1)]]
      gate_frameD [OF capture_gates_frame [OF dropped(2)]] show ?thesis
      by (simp add: gfx_rate_ok_def rate_ok_def)
  next
    case (admitted g3 ctx3 ctx4)
    with ok(1) blank_frameD [OF blank_detector_frame [OF admitted(1)]]
      gate_frameD [OF capture_gates_frame [OF admitted(2)]] show ?thesis
      by (simp add: gfx_rate_ok_def rate_ok_def)
  qed
  with ok(2) show ?thesis by simp
qed

lemma run_recovery_ok:
  "run_recovery a r g = (g', calls) \<Longrightarrow> gfx_rate_ok c g \<Longrightarrow>
     gfx_rate_ok c g' \<and> (\<forall>x \<in> set calls. encoder_call_ok c x)"
  by (auto simp: run_recovery_def perform_blank_remap_def perform_blank_reactivate_def
      perform_blank_drop_def gfx_rate_ok_def rate_ok_def Let_def
      split: blank_action.splits option.splits if_splits)

lemma encode_phase_ok:
  assumes "encode_phase c a now key g = (res, g', calls)" and "usable c" and "gfx_rate_ok c g"
  shows "gfx_rate_ok c g' \<and> (\<forall>x \<in> set calls. encoder_call_ok c x)"
proof (cases "gfx_ctx g")
  case None
  with assms(1,3) show ?thesis by (simp add: encode_phase_def)
next
  case (Some ctx)
  obtain acts ctx1 where step: "adaptive_bitrate_step c g now ctx = (acts, ctx1)" by fastforce
  have ok: "rate_ok c ctx1 \<and> actions_ok c acts"
    using adaptive_bitrate_step_ok [OF step assms(2)] assms(3) Some by (simp add: gfx_rate_ok_def)
  obtain x where g': "g' = g\<lparr>gfx_ctx := Some x\<rparr>"
    "x = ctx1 \<or> x = ctx1\<lparr>submitted := (submitted ctx1 + 1) mod 2 ^ 64,
      encoded_pending := (encoded_pending ctx1 + 1) mod 2 ^ 32\<rparr>"
    using assms(1) Some step by (auto simp: encode_phase_def Let_def split: if_splits)
  have calls: "set calls \<subseteq> {EncodeBgra key} \<union> SetBitrate ` set_option (act_bitrate acts)
      \<union> SetKeyframeInterval ` set_option (act_keyframe acts)"
    using assms(1) Some step
    by (auto simp: encode_phase_def Let_def split: if_splits option.splits)
  have "rate_ok c x" using g'(2) ok by (auto simp: rate_ok_def)
  with g'(1) calls ok show ?thesis
    by (auto simp: gfx_rate_ok_def actions_ok_def dest!: subsetD)
qed

lemma capture_ok:
  assumes "usable c" and "gfx_rate_ok c g"
  shows "gfx_rate_ok c (fst (snd (submit_bgra c a now key g)))
    \<and> (\<forall>x \<in> set (snd (snd (submit_bgra c a now key g))). encoder_call_ok c x)"
proof -
  obtain adm g1 calls1 where adm: "admit c a now key g = (adm, g1, calls1)"
    by (metis prod_cases3)
  note ok = admit_ok [OF adm assms(2)]
  show ?thesis
  proof (cases adm)
    case (Recover r)
    obtain g2 calls2 where rec: "run_recovery a r g1 = (g2, calls2)" by fastforce
    from run_recovery_ok [OF rec] ok rec Recover adm show ?thesis
      by (auto simp: submit_bgra_def)
  next
    case (Admit flag)
    obtain r2 g2 calls2 where enc: "encode_phase c a now flag g1 = (r2, g2, calls2)"
      by (metis prod_cases3)
    from encode_phase_ok [OF enc assms(1)] ok enc Admit adm show ?thesis
      by (auto simp: submit_bgra_def)
  qed (use ok adm in \<open>simp_all add: submit_bgra_def\<close>)
qed

lemma ship_all_ok: "\<forall>x \<in> set (snd (ship_all c now sid frames ctx)). encoder_call_ok c x"
proof (induction frames rule: rev_induct)
  case Nil
  then show ?case by (simp add: ship_all_def)
next
  case (snoc x frames)
  obtain f sent where x: "x = (f, sent)" by fastforce
  from snoc show ?case
    by (auto simp: ship_all_def x ship_frame_def Let_def split: prod.splits option.splits)
qed

lemma ship_round_ok:
  assumes "gfx_rate_ok c g"
  shows "gfx_rate_ok c (fst (ship_round c a now session frames g))
    \<and> (\<forall>x \<in> set (snd (ship_round c a now session frames g)). encoder_call_ok c x)"
proof -
  obtain g' calls where sr: "ship_round c a now session frames g = (g', calls)" by fastforce
  then have "gfx_rate_ok c g'"
    by (cases rule: ship_round_cases) (use assms in \<open>auto simp: gfx_rate_ok_def rate_ok_def\<close>)
  moreover obtain res g1 calls1 where sf: "ship_frames c a now frames
      (g\<lparr>gfx_ctx := map_option (counted_off session (length frames)) (gfx_ctx g)\<rparr>) = (res, g1, calls1)"
    by (metis prod_cases3)
  from sf have "\<forall>x \<in> set calls1. encoder_call_ok c x"
  proof (cases rule: ship_frames_cases)
    case (sent x sid ctx' cs)
    with ship_all_ok [of c now sid frames "x\<lparr>last_ship_at := now\<rparr>"] show ?thesis by auto
  qed simp_all
  moreover have "calls = calls1" using sr sf by (simp add: ship_round_eq)
  ultimately show ?thesis using sr by simp
qed

lemma on_frame_ack_ok: "gfx_rate_ok c g \<Longrightarrow> gfx_rate_ok c (on_frame_ack now f q g)"
  by (auto simp: gfx_rate_ok_def rate_ok_def on_frame_ack_def frame_ack_def ack_advance_def
      fold_rtt_def Let_def split: option.splits prod.splits)

lemma on_resume_ok: "gfx_rate_ok c g \<Longrightarrow> gfx_rate_ok c (demigrate_on_resume g)"
  by (auto simp: gfx_rate_ok_def rate_ok_def demigrate_on_resume_def demigrate_def
      split: option.splits)

interpretation rate: output_emitter "egfx_step c" "\<lambda>g. usable c \<and> gfx_rate_ok c g" "\<lambda>_. True"
    "encoder_call_ok c"
proof
  fix g :: gfx and e
  assume ok: "usable c \<and> gfx_rate_ok c g"
  show "usable c \<and> gfx_rate_ok c (fst (egfx_step c g e))"
  proof (cases e)
    case (Capture a now key)
    with capture_ok [of c g] ok show ?thesis by simp
  next
    case (Ship a now session frames)
    with ship_round_ok [of c g] ok show ?thesis by simp
  next
    case (Connect h now)
    with new_connection_ok [of c g h now] ok show ?thesis
      by (simp add: build_server_with_handle_def gfx_rate_ok_def)
  qed (use ok on_frame_ack_ok on_resume_ok in \<open>auto simp: qoe_ctx_def event_defs gfx_rate_ok_def
      rate_ok_def split: option.splits\<close>)
  show "\<forall>x \<in> set (snd (egfx_step c g e)). encoder_call_ok c x"
  proof (cases e)
    case (Capture a now key)
    with capture_ok [of c g] ok show ?thesis by simp
  next
    case (Ship a now session frames)
    with ship_round_ok [of c g] ok show ?thesis by simp
  qed (simp_all add: route_egfx_def)
qed

text \<open>
  The adaptive controller stays within the operator's bounds: for every environment and every
  positive bitrate, over every run from a process without a connection, each bitrate the encoder
  is created with or switched to lies between the floor and the configured bitrate, each
  keyframe interval is the normal or the stretched one, and the paced frame rate is at most the
  configured rate or 30.
\<close>

theorem adaptive_rate_bounded:
  assumes "0 < arg_bitrate_bps args" and "gfx_ctx g = None"
  shows "(\<forall>x \<in> set (snd (run_out (egfx_step (gfx_new e args)) g es)).
      encoder_call_ok (gfx_new e args) x)
    \<and> (\<forall>ctx. gfx_ctx (fst (run_out (egfx_step (gfx_new e args)) g es)) = Some ctx \<longrightarrow>
      stage_fps (adaptive_fps_stage ctx) \<le> max (arg_fps args) 30)"
proof -
  have bits: "cfg_bitrate_bps (gfx_new e args) = arg_bitrate_bps args"
    "cfg_fps (gfx_new e args) = arg_fps args" by (simp_all add: gfx_new_def Let_def)
  have inv: "usable (gfx_new e args) \<and> gfx_rate_ok (gfx_new e args) g"
    using assms gfx_new_ok by (simp add: usable_def bits gfx_rate_ok_def)
  from rate.run_good [OF inv, of es] rate.run_inv [OF inv, of es] show ?thesis
    by (auto simp: gfx_rate_ok_def rate_ok_def bits)
qed

lemma adaptive_rate_bounded_witness:
  "NewEncoder 1920 1080 60 10000000 \<in> set (snd (run_out (egfx_step sample_config) sample_gfx
       (Connect 1 0 # sample_start)))
   \<and> cfg_adaptive_floor_bps sample_config \<le> 10000000"
proof -
  have mem: "NewEncoder 1920 1080 60 10000000 \<in> set (snd (run_out (egfx_step sample_config)
      sample_gfx (Connect 1 0 # sample_start)))"
    by (simp add: sample_start_def eval_defs initial_target_bps_def)
  have "\<forall>x \<in> set (snd (run_out (egfx_step sample_config) sample_gfx
      (Connect 1 0 # sample_start))). encoder_call_ok sample_config x"
    unfolding sample_config_def
    by (rule conjunct1 [OF adaptive_rate_bounded]) (simp_all add: sample_gfx_def)
  from bspec [OF this mem] mem show ?thesis by (simp add: bps_ok_def)
qed

section \<open>The direction of the bitrate loop\<close>

text \<open>
  The bitrate loop answers congestion with a higher bitrate: whenever the smoothed queue
  delay is above its target and not falling, the integral is not negative and the gains are not
  negative, one step of the loop returns at least the current bitrate, and strictly more when
  there is room for one bit and the proportional part is worth one.
\<close>

theorem congestion_raises_bitrate:
  assumes "0 < error_ms" and "previous_error \<le> clamp error_ms (- 500) 500"
    and "0 \<le> integral" and "0 \<le> dt" and "0 \<le> kp" and "0 \<le> ki" and "0 \<le> kd"
    and "max minb 1 \<le> current" and "current \<le> maxb"
  shows "current \<le> fst (pid_bitrate_step current maxb minb error_ms dt kp ki kd integral
      previous_error)
    \<and> (current < maxb \<longrightarrow> 1 \<le> kp * clamp error_ms (- 500) 500 * 1000000 \<longrightarrow>
      current < fst (pid_bitrate_step current maxb minb error_ms dt kp ki kd integral
        previous_error))"
proof -
  define err where "err = clamp error_ms (- 500) 500"
  have err: "0 < err" using assms(1) by (auto simp: err_def clamp_def)
  have integ: "0 \<le> pid_integral_step integral err dt 2000"
  proof -
    have "0 \<le> err * dt" using err assms(4) by simp
    then have "0 \<le> integral + err * dt" using assms(3) by simp
    then show ?thesis by (simp add: pid_integral_step_def clamp_def)
  qed
  have delta: "kp * err \<le> pid_delta err previous_error (pid_integral_step integral err dt 2000)
      dt kp ki kd"
    using integ assms(2,6,7) err by (auto simp: pid_delta_def err_def [symmetric])
  define x where "x = f64_round (real current
    + pid_delta err previous_error (pid_integral_step integral err dt 2000) dt kp ki kd * 1000000)"
  have lower: "int current + n \<le> x" if "of_int n \<le> kp * err * 1000000" for n
  proof -
    have "of_int (int current + n) \<le> real current + pid_delta err previous_error
        (pid_integral_step integral err dt 2000) dt kp ki kd * 1000000"
      using delta that by simp
    from f64_round_mono [OF this] show ?thesis by (simp only: f64_round_of_int x_def)
  qed
  have "0 \<le> kp * err" using assms(5) err by simp
  then have base: "int current \<le> x" using lower [of 0] by simp
  have res: "fst (pid_bitrate_step current maxb minb error_ms dt kp ki kd integral previous_error)
      = nat (clamp x (int (max minb 1)) (int (max maxb (max minb 1))))"
    by (simp add: pid_bitrate_step_def Let_def err_def x_def)
  have top: "max maxb (max minb 1) = maxb" using assms(8,9) by simp
  have "current \<le> nat (clamp x (int (max minb 1)) (int maxb))"
    using base assms(8,9) by (auto simp: clamp_def)
  moreover have "current < nat (clamp x (int (max minb 1)) (int maxb))"
    if "current < maxb" and "1 \<le> kp * err * 1000000"
    using lower [of 1] that assms(8) by (auto simp: clamp_def)
  ultimately show ?thesis unfolding res top err_def by blast
qed

lemma congestion_raises_bitrate_witness:
  "5000000 < fst (pid_bitrate_step 5000000 10000000 1250000 100 (1 / 5) (1 / 1000) (1 / 20000)
     0 0 0)"
  using congestion_raises_bitrate [of 100 0 0 "1 / 5" "1 / 1000" "1 / 20000" 0 1250000 5000000
      10000000]
  by (simp add: clamp_def)

section \<open>Round-trip samples\<close>

text \<open>The context after shipping frames one by one: when, the frame, and the id it was given.\<close>

definition shipped_ctx ::
  "gfx_config \<Rightarrow> nat \<Rightarrow> (instant \<times> encoded_frame \<times> nat) list \<Rightarrow> connection \<Rightarrow> connection" where
  "shipped_ctx c sid hist ctx =
     foldl (\<lambda>ctx (t, f, i). fst (ship_frame c t sid (Some i) f ctx)) ctx hist"

lemma shipped_ctx_ring:
  assumes "length (ship_times ctx) = RTT_RING"
    and "sorted_wrt (\<lambda>(t, f, i) (t', f', i'). t \<le> t' \<and> i < i') hist"
  shows "length (ship_times (shipped_ctx c sid hist ctx)) = RTT_RING
    \<and> (\<forall>(t, f, i) \<in> set hist. \<exists>(t', f', i') \<in> set hist.
        ship_times (shipped_ctx c sid hist ctx) ! (i mod RTT_RING) = (i', t')
        \<and> i \<le> i' \<and> t \<le> t' \<and> i' mod RTT_RING = i mod RTT_RING)"
  using assms(2)
proof (induction hist rule: rev_induct)
  case Nil
  with assms(1) show ?case by (simp add: shipped_ctx_def)
next
  case (snoc x hist)
  obtain t f i where x: "x = (t, f, i)" by (metis prod_cases3)
  let ?r = "ship_times (shipped_ctx c sid hist ctx)"
  have ring: "ship_times (shipped_ctx c sid (hist @ [x]) ctx) = ?r[i mod RTT_RING := (i, t)]"
    by (simp add: shipped_ctx_def x ship_frame_def Let_def)
  have IH: "length ?r = RTT_RING" "\<forall>(t, f, i) \<in> set hist. \<exists>(t', f', i') \<in> set hist.
      ?r ! (i mod RTT_RING) = (i', t') \<and> i \<le> i' \<and> t \<le> t' \<and> i' mod RTT_RING = i mod RTT_RING"
    using snoc by (auto simp: sorted_wrt_append)
  have before: "t' \<le> t \<and> i' < i" if "(t', f', i') \<in> set hist" for t' f' i'
    using snoc.prems that by (auto simp: sorted_wrt_append x)
  have pos: "i mod RTT_RING < RTT_RING" for i :: nat by (simp add: RTT_RING_def)
  have "\<exists>(t'', f'', i'') \<in> set (hist @ [x]).
      (?r[i mod RTT_RING := (i, t)]) ! (i' mod RTT_RING) = (i'', t'')
      \<and> i' \<le> i'' \<and> t' \<le> t'' \<and> i'' mod RTT_RING = i' mod RTT_RING"
    if mem: "(t', f', i') \<in> set (hist @ [x])" for t' f' i'
  proof (cases "i' mod RTT_RING = i mod RTT_RING")
    case True
    have "t' \<le> t \<and> i' \<le> i" using mem before [of t' f' i'] by (auto simp: x)
    then show ?thesis using True IH(1) pos [of i] by (auto simp: x)
  next
    case False
    with mem have "(t', f', i') \<in> set hist" by (auto simp: x)
    with IH(2) obtain t'' f'' i'' where "(t'', f'', i'') \<in> set hist"
      "?r ! (i' mod RTT_RING) = (i'', t'')" "i' \<le> i''" "t' \<le> t''"
      "i'' mod RTT_RING = i' mod RTT_RING" by fast
    then show ?thesis using False by (auto intro!: bexI [of _ "(t'', f'', i'')"])
  qed
  then show ?case unfolding ring using IH(1) by auto
qed

lemma hist_time_unique:
  assumes "sorted_wrt (\<lambda>(t, f, i) (t', f', i'). t \<le> t' \<and> i < (i' :: nat)) hist"
    and "(t, f, i) \<in> set hist" and "(t', f', i) \<in> set hist"
  shows "t' = t"
  using assms by (induction hist) auto

lemma same_slot_near:
  assumes "i' < i + n" and "i \<le> i'" and "i' mod n = i mod (n :: nat)"
  shows "i' = i"
proof -
  have "n dvd i' - i" using assms(2,3) by (simp add: mod_eq_dvd_iff_nat)
  moreover have "i' - i < n" using assms(1,2) by simp
  ultimately have "i' - i = 0" by (meson gr0I nat_dvd_not_less)
  then show ?thesis using assms(2) by simp
qed

text \<open>
  The delay signal never overstates: for frames shipped with increasing ids and times on a
  connection, the acknowledgement of any shipped frame yields a sample that is at most the true
  time since that frame was shipped, and exactly that time when fewer than a ring of frames were
  shipped after it.
\<close>

theorem rtt_sample_sound:
  assumes "sorted_wrt (\<lambda>(t, f, i) (t', f', i'). t \<le> t' \<and> i < i') hist"
    and "(t, f, i) \<in> set hist" and "\<forall>(t', f', i') \<in> set hist. i' < U64_MAX"
  shows "\<exists>s. rtt_sample now i (shipped_ctx c sid hist (new_connection c g h t0)) = Some s
      \<and> s \<le> as_secs_f64 (now - t) * 1000
      \<and> ((\<forall>(t', f', i') \<in> set hist. i' < i + RTT_RING) \<longrightarrow> s = as_secs_f64 (now - t) * 1000)"
proof -
  let ?ctx = "shipped_ctx c sid hist (new_connection c g h t0)"
  have "length (ship_times (new_connection c g h t0)) = RTT_RING"
    by (simp add: new_connection_def Let_def)
  from shipped_ctx_ring [OF this assms(1), of c sid] assms(2)
  obtain t' f' i' where slot: "(t', f', i') \<in> set hist"
    "ship_times ?ctx ! (i mod RTT_RING) = (i', t')" "i \<le> i'" "t \<le> t'"
    "i' mod RTT_RING = i mod RTT_RING" by blast
  have "i' < U64_MAX" using assms(3) slot(1) by auto
  then have s: "rtt_sample now i ?ctx = Some (as_secs_f64 (now - t') * 1000)"
    using slot(2,3) by (auto simp: rtt_sample_def saturating_duration_since_def)
  have "real (now - t') \<le> real (now - t)" using slot(4) by simp
  then have "as_secs_f64 (now - t') * 1000 \<le> as_secs_f64 (now - t) * 1000"
    by (simp add: as_secs_f64_def)
  moreover have "t' = t" if "\<forall>(t', f', i') \<in> set hist. i' < i + RTT_RING"
  proof -
    have "i' < i + RTT_RING" using that slot(1) by auto
    then have "i' = i" using slot(3,5) by (rule same_slot_near)
    then show ?thesis using hist_time_unique [OF assms(1,2)] slot(1) by blast
  qed
  ultimately show ?thesis using s by auto
qed

lemma rtt_sample_sound_witness:
  "\<exists>s. rtt_sample (from_millis 90) 5 (shipped_ctx sample_config 0
       [(from_millis 10, \<lparr>ef_data = [], ef_parameter_sets = [], ef_is_keyframe = False\<rparr>, 5),
        (from_millis 40, \<lparr>ef_data = [], ef_parameter_sets = [], ef_is_keyframe = False\<rparr>, 6)]
       (new_connection sample_config sample_gfx 1 0)) = Some s \<and> s = 80"
proof -
  let ?f = "\<lparr>ef_data = [], ef_parameter_sets = [], ef_is_keyframe = False\<rparr>"
  let ?h = "[(from_millis 10, ?f, 5), (from_millis 40, ?f, 6)]"
  have "\<exists>s. rtt_sample (from_millis 90) 5 (shipped_ctx sample_config 0 ?h
        (new_connection sample_config sample_gfx 1 0)) = Some s
      \<and> s \<le> as_secs_f64 (from_millis 90 - from_millis 10) * 1000
      \<and> ((\<forall>(t', f', i') \<in> set ?h. i' < 5 + RTT_RING) \<longrightarrow>
        s = as_secs_f64 (from_millis 90 - from_millis 10) * 1000)"
    by (rule rtt_sample_sound [of ?h "from_millis 10" ?f 5]) (simp_all add: from_millis_def)
  then show ?thesis by (simp add: RTT_RING_def as_secs_f64_def from_millis_def)
qed

section \<open>Framing\<close>

text \<open>
  C11. The Annex B framing loses nothing: a keyframe of length-prefixed units, framed with its
  two parameter sets for the wire, is taken apart by the Annex B splitter into exactly the
  parameter sets and the units, and the decoder front end recovers both parameter sets and the
  original length-prefixed sample.
\<close>

theorem annex_b_roundtrip:
  assumes "cfg_wire_format c = AnnexB"
    and "\<forall>n \<in> set (sps # pps # nals). proper_nal n"
    and "\<forall>n \<in> set nals. length n < 2 ^ 32"
    and "nal_type sps = 7" and "nal_type pps = 8"
    and "\<forall>n \<in> set nals. nal_type n \<notin> {7, 8, 9}" and "nals \<noteq> []"
  shows "annexb_nals (frame_payload c \<lparr>ef_data = concat (map avcc_unit nals),
        ef_parameter_sets = [sps, pps], ef_is_keyframe = True\<rparr>) = sps # pps # nals
    \<and> decode True decoder_new (frame_payload c \<lparr>ef_data = concat (map avcc_unit nals),
        ef_parameter_sets = [sps, pps], ef_is_keyframe = True\<rparr>)
      = (\<lparr>dec_sps = Some sps, dec_pps = Some pps, dec_session = True, dec_warned = False\<rparr>,
         Some (concat (map avcc_unit nals)))"
proof -
  have payload: "frame_payload c \<lparr>ef_data = concat (map avcc_unit nals),
      ef_parameter_sets = [sps, pps], ef_is_keyframe = True\<rparr> = start_units (sps # pps # nals)"
    using assms(1) avcc_to_annex_b_units [OF assms(3), of "[sps, pps]" True]
    by (simp add: frame_payload_def)
  have split: "annexb_nals (start_units (sps # pps # nals)) = sps # pps # nals"
    using assms(2) by (rule annexb_nals_units)
  let ?d = "\<lparr>dec_sps = Some sps, dec_pps = Some pps, dec_session = False, dec_warned = False\<rparr>"
  have ne: "\<forall>n \<in> set (sps # pps # nals). n \<noteq> []" using assms(2) by (auto simp: proper_nal_def)
  have "foldl collect_nal (decoder_new, []) (sps # pps # nals) = foldl collect_nal (?d, []) nals"
    using ne assms(4,5) by (simp add: collect_nal_def decoder_new_def nal_type_def Let_def)
  also have "\<dots> = (?d, concat (map avcc_unit nals))"
    using collect_slices [of nals ?d "[]"] ne assms(6) by simp
  finally have "decode True decoder_new (start_units (sps # pps # nals)) =
      (\<lparr>dec_sps = Some sps, dec_pps = Some pps, dec_session = True, dec_warned = False\<rparr>,
       Some (concat (map avcc_unit nals)))"
    using assms(7) split concat_avcc_units_Nil [of nals]
    by (simp add: decode_def Let_def del: list.map concat.simps)
  with payload split show ?thesis by simp
qed

lemma annex_b_roundtrip_witness:
  "decode True decoder_new (frame_payload sample_config
     \<lparr>ef_data = concat (map avcc_unit [[0x65, 0, 1], [0x41, 9]]),
      ef_parameter_sets = [[0x67, 66], [0x68, 206]], ef_is_keyframe = True\<rparr>)
   = (\<lparr>dec_sps = Some [0x67, 66], dec_pps = Some [0x68, 206], dec_session = True,
       dec_warned = False\<rparr>, Some (concat (map avcc_unit [[0x65, 0, 1], [0x41, 9]])))"
  by (rule conjunct2 [OF annex_b_roundtrip])
    (simp_all add: proper_nal_def nal_type_def sample_config_def gfx_new_def Let_def sample_env_def
      wire_format_from_env_def)

end
