(* ===== verification/Stats.thy ===== *)
theory Stats
  imports Egfx_Config "HOL-Library.Signed_Division"
begin

text \<open>
  The telemetry of \<open>src/src/stats.rs\<close> that computes: the hysteresis classifier of the audio/video
  source clocks, the offset average and the drift estimator, the stamps of the congestion reading,
  the input-handler counters, and the latency window (\<open>LatencyWindow\<close> of the vendored server)
  whose percentiles are published. \<open>i64\<close> values are \<open>int\<close> with the saturating operations written
  out, the gauges of \<open>SessionStats\<close> are grouped in one record per writer.
\<close>

section \<open>Signed 64-bit arithmetic\<close>

definition I64_MIN :: int where "I64_MIN = - 9223372036854775808"
definition I64_MAX :: int where "I64_MAX = 9223372036854775807"

definition sat_i64 :: "int \<Rightarrow> int" where "sat_i64 x = max I64_MIN (min x I64_MAX)"

lemma sat_i64_bounds: "I64_MIN \<le> sat_i64 x \<and> sat_i64 x \<le> I64_MAX"
  by (simp add: sat_i64_def I64_MIN_def I64_MAX_def)

lemma sat_i64_id: "I64_MIN \<le> x \<Longrightarrow> x \<le> I64_MAX \<Longrightarrow> sat_i64 x = x"
  by (simp add: sat_i64_def)

section \<open>The drift classifier\<close>

datatype av_drift_zone = AudioBehind | Stable | AudioAhead

fun zone_as_i8 :: "av_drift_zone \<Rightarrow> int" where
  "zone_as_i8 AudioBehind = - 1"
| "zone_as_i8 Stable = 0"
| "zone_as_i8 AudioAhead = 1"

record av_drift_hysteresis =
  zone :: av_drift_zone
  pending_zone :: "av_drift_zone option"
  pending_samples :: nat
  hold_samples :: nat

definition ENTER_OFFSET_MS :: int where "ENTER_OFFSET_MS = 80"
definition EXIT_OFFSET_MS :: int where "EXIT_OFFSET_MS = 40"
definition ENTER_DRIFT_PPM :: int where "ENTER_DRIFT_PPM = 500"
definition EXIT_DRIFT_PPM :: int where "EXIT_DRIFT_PPM = 250"
definition MAX_ABS_OFFSET_MS :: int where "MAX_ABS_OFFSET_MS = 10000"
definition MAX_ABS_DRIFT_PPM :: int where "MAX_ABS_DRIFT_PPM = 100000"

lemmas drift_limits = ENTER_OFFSET_MS_def EXIT_OFFSET_MS_def ENTER_DRIFT_PPM_def
  EXIT_DRIFT_PPM_def MAX_ABS_OFFSET_MS_def MAX_ABS_DRIFT_PPM_def

definition hysteresis_new :: "nat \<Rightarrow> av_drift_hysteresis" where
  "hysteresis_new hold =
     \<lparr>zone = Stable, pending_zone = None, pending_samples = 0,
      hold_samples = (if hold = 0 then 1 else hold)\<rparr>"

definition within_limit :: "int \<Rightarrow> int \<Rightarrow> bool" where
  "within_limit value limit \<longleftrightarrow> - limit \<le> value \<and> value \<le> limit"

definition entering_zone :: "int \<Rightarrow> int \<Rightarrow> av_drift_zone" where
  "entering_zone offset_ms drift_ppm =
     (if ENTER_OFFSET_MS \<le> offset_ms \<or> ENTER_DRIFT_PPM \<le> drift_ppm then AudioAhead
      else if offset_ms \<le> - ENTER_OFFSET_MS \<or> drift_ppm \<le> - ENTER_DRIFT_PPM then AudioBehind
      else Stable)"

fun desired_zone :: "av_drift_zone \<Rightarrow> int \<Rightarrow> int \<Rightarrow> av_drift_zone" where
  "desired_zone Stable offset_ms drift_ppm = entering_zone offset_ms drift_ppm"
| "desired_zone AudioAhead offset_ms drift_ppm =
     (if offset_ms \<le> - ENTER_OFFSET_MS \<or> drift_ppm \<le> - ENTER_DRIFT_PPM then AudioBehind
      else if within_limit offset_ms EXIT_OFFSET_MS \<and> within_limit drift_ppm EXIT_DRIFT_PPM
      then Stable else AudioAhead)"
| "desired_zone AudioBehind offset_ms drift_ppm =
     (if ENTER_OFFSET_MS \<le> offset_ms \<or> ENTER_DRIFT_PPM \<le> drift_ppm then AudioAhead
      else if within_limit offset_ms EXIT_OFFSET_MS \<and> within_limit drift_ppm EXIT_DRIFT_PPM
      then Stable else AudioBehind)"

definition wanted_zone :: "av_drift_zone \<Rightarrow> int \<times> int \<Rightarrow> av_drift_zone" where
  "wanted_zone z s =
     desired_zone z (clamp (fst s) (- MAX_ABS_OFFSET_MS) MAX_ABS_OFFSET_MS)
       (clamp (snd s) (- MAX_ABS_DRIFT_PPM) MAX_ABS_DRIFT_PPM)"

definition drift_update :: "av_drift_hysteresis \<Rightarrow> int \<times> int \<Rightarrow> av_drift_hysteresis" where
  "drift_update h s =
     (let desired = wanted_zone (zone h) s
      in if desired = zone h then h\<lparr>pending_zone := None, pending_samples := 0\<rparr>
         else
           let h1 = (if pending_zone h = Some desired
                     then h\<lparr>pending_samples := sat_add 255 (pending_samples h) 1\<rparr>
                     else h\<lparr>pending_zone := Some desired, pending_samples := 1\<rparr>)
           in if hold_samples h1 \<le> pending_samples h1
              then h1\<lparr>zone := desired, pending_zone := None, pending_samples := 0\<rparr>
              else h1)"

section \<open>The offset average and the drift estimator\<close>

record av_clock_state =
  anchor_pts_ms :: "int option"
  anchor_offset_ms :: int
  drift_ppm :: int
  hysteresis :: av_drift_hysteresis

definition av_clock_default :: av_clock_state where
  "av_clock_default = \<lparr>anchor_pts_ms = None, anchor_offset_ms = 0, drift_ppm = 0,
     hysteresis = hysteresis_new 3\<rparr>"

record av_stats =
  av_offset_ewma_ms :: int
  av_offset_ewma_samples :: nat
  av_offset_last_sample_ms :: int
  av_offset_abs_max_ms :: nat
  av_drift_ppm :: int
  av_drift_zone :: int
  av_hysteresis_samples :: nat
  av_drift_samples :: nat
  av_clock :: av_clock_state

definition u64_add :: "nat \<Rightarrow> nat \<Rightarrow> nat" where "u64_add a b = (a + b) mod 2 ^ 64"

definition record_av_offset :: "int \<Rightarrow> av_stats \<Rightarrow> av_stats" where
  "record_av_offset offset_ms s =
     (let old = av_offset_ewma_ms s;
          next_ms = (if av_offset_ewma_samples s = 0 then offset_ms
                     else sat_i64 (old + sat_i64 (offset_ms - old) sdiv 8))
      in s\<lparr>av_offset_ewma_ms := next_ms,
           av_offset_ewma_samples := u64_add (av_offset_ewma_samples s) 1\<rparr>)"

definition drift_sample :: "int \<Rightarrow> int \<Rightarrow> int \<Rightarrow> av_clock_state \<Rightarrow> int" where
  "drift_sample offset_ms video_pts_ms elapsed k =
     (let instant_ppm = sat_i64 (sat_i64 (offset_ms - anchor_offset_ms k) * 1000000) sdiv elapsed
      in sat_i64 (drift_ppm k + sat_i64 (instant_ppm - drift_ppm k) sdiv 8))"

definition anchored :: "int \<Rightarrow> int \<Rightarrow> av_clock_state \<Rightarrow> av_clock_state" where
  "anchored video_pts_ms offset_ms k =
     k\<lparr>anchor_pts_ms := Some video_pts_ms, anchor_offset_ms := offset_ms\<rparr>"

definition record_av_clock_pair :: "int \<Rightarrow> int \<Rightarrow> av_stats \<Rightarrow> av_stats" where
  "record_av_clock_pair audio_pts_ms video_pts_ms s =
     (let offset_ms = sat_i64 (audio_pts_ms - video_pts_ms);
          s1 = s\<lparr>av_offset_last_sample_ms := offset_ms,
                 av_offset_abs_max_ms := max (av_offset_abs_max_ms s) (nat \<bar>offset_ms\<bar>)\<rparr>;
          k = av_clock s1
      in case anchor_pts_ms k of
           None \<Rightarrow> s1\<lparr>av_clock := anchored video_pts_ms offset_ms k\<rparr>
         | Some anchor \<Rightarrow>
             let elapsed = sat_i64 (video_pts_ms - anchor)
             in if 1000 \<le> elapsed then
                  let ppm = drift_sample offset_ms video_pts_ms elapsed k;
                      h = drift_update (hysteresis k) (offset_ms, ppm)
                  in s1\<lparr>av_drift_ppm := ppm, av_drift_zone := zone_as_i8 (zone h),
                        av_hysteresis_samples := u64_add (av_hysteresis_samples s1) 1,
                        av_drift_samples := u64_add (av_drift_samples s1) 1,
                        av_clock := anchored video_pts_ms offset_ms
                          (k\<lparr>drift_ppm := ppm, hysteresis := h\<rparr>)\<rparr>
                else s1)"

section \<open>The age of the congestion reading\<close>

text \<open>\<open>epoch_ms\<close> is the argument; the stamp is one more than it, so that 0 is "never".\<close>

definition mark_queue_delay_measured :: "nat \<Rightarrow> nat" where
  "mark_queue_delay_measured epoch_ms = u64_add epoch_ms 1"

definition queue_delay_age_ms :: "nat \<Rightarrow> nat \<Rightarrow> nat" where
  "queue_delay_age_ms epoch_ms measured_at = (if measured_at = 0 then 0 else epoch_ms - measured_at)"

section \<open>Latency windows\<close>

record latency_window =
  lw_cursor :: nat
  lw_values :: "nat list"

definition WINDOW :: nat where "WINDOW = 128"

definition latency_default :: latency_window where
  "latency_default = \<lparr>lw_cursor = 0, lw_values = replicate WINDOW 0\<rparr>"

definition latency_record :: "nat \<Rightarrow> latency_window \<Rightarrow> latency_window" where
  "latency_record v w =
     \<lparr>lw_cursor = u64_add (lw_cursor w) 1,
      lw_values = (lw_values w)[lw_cursor w mod length (lw_values w) := v]\<rparr>"

definition percentile_rank :: "nat \<Rightarrow> nat \<Rightarrow> nat" where
  "percentile_rank n percent = (n * percent + 99) div 100 - 1"

definition percentiles :: "latency_window \<Rightarrow> nat \<times> nat \<times> nat" where
  "percentiles w =
     (let count = min (lw_cursor w) (length (lw_values w));
          vs = sort (take count (lw_values w))
      in if count = 0 then (0, 0, 0)
         else (vs ! percentile_rank (length vs) 50, vs ! percentile_rank (length vs) 95, last vs))"

section \<open>Input-handler counters\<close>

record input_stats =
  input_events :: nat
  input_keyboard_events :: nat
  input_mouse_events :: nat
  input_total_us :: nat
  input_last_us :: nat
  input_max_us :: nat
  input_over_10ms :: nat
  input_latency_window :: latency_window

definition input_duration_us :: "duration \<Rightarrow> nat" where
  "input_duration_us d = min (d div 1000) U32_MAX"

definition record_input_handler_duration :: "duration \<Rightarrow> bool \<Rightarrow> input_stats \<Rightarrow> input_stats" where
  "record_input_handler_duration d keyboard s =
     (let us = input_duration_us d
      in s\<lparr>input_events := u64_add (input_events s) 1,
           input_keyboard_events :=
             (if keyboard then u64_add (input_keyboard_events s) 1 else input_keyboard_events s),
           input_mouse_events :=
             (if keyboard then input_mouse_events s else u64_add (input_mouse_events s) 1),
           input_total_us := u64_add (input_total_us s) us,
           input_last_us := us,
           input_max_us := max (input_max_us s) us,
           input_over_10ms :=
             (if from_millis 10 \<le> d then u64_add (input_over_10ms s) 1 else input_over_10ms s),
           input_latency_window := latency_record us (input_latency_window s)\<rparr>)"

section \<open>The CPU gauge and the endpoint port\<close>

record cpu_snapshot =
  cpu_ns :: nat
  wall_ns :: nat

definition timeval_ns :: "int \<Rightarrow> int \<Rightarrow> nat" where
  "timeval_ns tv_sec tv_usec = nat (max tv_sec 0) * 1000000000 + nat (max tv_usec 0) * 1000"

definition process_cpu_snapshot ::
    "((int \<times> int) \<times> (int \<times> int)) option \<Rightarrow> duration \<Rightarrow> cpu_snapshot" where
  "process_cpu_snapshot rusage elapsed =
     \<lparr>cpu_ns = (case rusage of
         Some (u, s) \<Rightarrow> sat_add U64_MAX (timeval_ns (fst u) (snd u)) (timeval_ns (fst s) (snd s))
       | None \<Rightarrow> 0),
      wall_ns = min elapsed U64_MAX\<rparr>"

definition cpu_percent_step :: "cpu_snapshot \<Rightarrow> cpu_snapshot \<Rightarrow> nat \<Rightarrow> nat" where
  "cpu_percent_step previous current gauge =
     (let wall = wall_ns current - wall_ns previous; cpu = cpu_ns current - cpu_ns previous
      in if 0 < wall then min (min (cpu * 100) U64_MAX div wall) U32_MAX else gauge)"

definition default_port :: "env \<Rightarrow> nat" where
  "default_port e = or_default 40245 (env_parse (parse_uint U16_MAX) e ''MACRDP_STATS_PORT'')"

end
