(* ===== verification/Stats_Props.thy ===== *)
theory Stats_Props
  imports Stats
begin

text \<open>
  What the telemetry promises: the drift zone changes only on a full run of agreeing samples and
  then does change, and the published percentiles are those of the most recent samples.
\<close>

section \<open>The drift zone\<close>

abbreviation drift_run :: "nat \<Rightarrow> (int \<times> int) list \<Rightarrow> av_drift_hysteresis" where
  "drift_run n xs \<equiv> foldl drift_update (hysteresis_new n) xs"

lemma drift_hold [simp]: "hold_samples (drift_update h s) = hold_samples h"
  by (simp add: drift_update_def Let_def)

lemma drift_run_hold [simp]: "hold_samples (foldl drift_update h xs) = hold_samples h"
  by (induction xs arbitrary: h) auto

text \<open>
  The pending samples are the longest recent run of samples that ask for the pending zone while
  the current zone was the current one.
\<close>

definition agreeing :: "nat \<Rightarrow> (int \<times> int) list \<Rightarrow> av_drift_zone \<Rightarrow> nat \<Rightarrow> bool" where
  "agreeing n xs d k \<longleftrightarrow>
     (\<exists>ys zs. xs = ys @ zs \<and> length zs = k \<and>
        (\<forall>t \<in> set zs. wanted_zone (zone (drift_run n xs)) t = d) \<and>
        (\<forall>us vs. zs = us @ vs \<longrightarrow> zone (drift_run n (ys @ us)) = zone (drift_run n xs)))"

lemma agreeing_snoc:
  assumes "agreeing n xs d k" and "wanted_zone (zone (drift_run n xs)) s = d"
    and "zone (drift_run n (xs @ [s])) = zone (drift_run n xs)"
  shows "agreeing n (xs @ [s]) d (Suc k)"
proof -
  obtain ys zs where *: "xs = ys @ zs" "length zs = k"
      "\<forall>t \<in> set zs. wanted_zone (zone (drift_run n xs)) t = d"
      "\<forall>us vs. zs = us @ vs \<longrightarrow> zone (drift_run n (ys @ us)) = zone (drift_run n xs)"
    using assms(1) unfolding agreeing_def by blast
  have all: "zone (drift_run n (ys @ us)) = zone (drift_run n (xs @ [s]))" if "zs @ [s] = us @ vs" for us vs
  proof (cases vs rule: rev_cases)
    case Nil
    with that show ?thesis by (simp only: *(1) append_assoc append_Nil2)
  next
    case (snoc ws w)
    with that have "zs = us @ ws" by simp
    with *(4) have "zone (drift_run n (ys @ us)) = zone (drift_run n xs)" by blast
    then show ?thesis by (simp only: assms(3))
  qed
  have split: "xs @ [s] = ys @ (zs @ [s])" "length (zs @ [s]) = Suc k" using *(1,2) by simp_all
  have want: "\<forall>t \<in> set (zs @ [s]). wanted_zone (zone (drift_run n (xs @ [s]))) t = d"
    unfolding assms(3) set_append using *(3) assms(2) by simp
  show ?thesis
    unfolding agreeing_def
    by (intro exI [of _ ys] exI [of _ "zs @ [s]"] conjI allI impI split want) (rule all)
qed

lemma agreeing_zero: "agreeing n xs d 0"
  unfolding agreeing_def by (intro exI [of _ xs] exI [of _ "[]"]) simp

definition drift_inv :: "nat \<Rightarrow> (int \<times> int) list \<Rightarrow> bool" where
  "drift_inv n xs \<longleftrightarrow>
     (let h = drift_run n xs in
      0 < hold_samples h \<and> hold_samples h \<le> 255 \<and> pending_samples h < hold_samples h \<and>
      (case pending_zone h of None \<Rightarrow> pending_samples h = 0
       | Some d \<Rightarrow> d \<noteq> zone h \<and> agreeing n xs d (pending_samples h)))"

text \<open>One update, by what the sample asks for.\<close>

lemma drift_update_same: "wanted_zone (zone h) s = zone h \<Longrightarrow>
    drift_update h s = h\<lparr>pending_zone := None, pending_samples := 0\<rparr>"
  by (simp add: drift_update_def)

lemma drift_update_other:
  assumes "wanted_zone (zone h) s = d" and "d \<noteq> zone h" and "pending_samples h < 255"
    and "k = (if pending_zone h = Some d then Suc (pending_samples h) else 1)"
  shows "drift_update h s =
    (if hold_samples h \<le> k then h\<lparr>zone := d, pending_zone := None, pending_samples := 0\<rparr>
     else h\<lparr>pending_zone := Some d, pending_samples := k\<rparr>)"
  using assms by (cases h) (auto simp: drift_update_def Let_def sat_add_def)

lemma drift_inv_run: "n \<le> 255 \<Longrightarrow> drift_inv n xs"
proof (induction xs rule: rev_induct)
  case Nil
  then show ?case by (simp add: drift_inv_def hysteresis_new_def)
next
  case (snoc s xs)
  let ?h = "drift_run n xs"
  let ?d = "wanted_zone (zone ?h) s"
  have inv: "0 < hold_samples ?h" "hold_samples ?h \<le> 255" "pending_samples ?h < hold_samples ?h"
    "case pending_zone ?h of None \<Rightarrow> pending_samples ?h = 0
       | Some d \<Rightarrow> d \<noteq> zone ?h \<and> agreeing n xs d (pending_samples ?h)"
    using snoc by (simp_all add: drift_inv_def Let_def)
  show ?case
  proof (cases "?d = zone ?h")
    case True
    with inv show ?thesis by (simp add: drift_inv_def drift_update_same)
  next
    case False
    define k where "k = (if pending_zone ?h = Some ?d then Suc (pending_samples ?h) else 1)"
    have upd: "drift_update ?h s =
      (if hold_samples ?h \<le> k then ?h\<lparr>zone := ?d, pending_zone := None, pending_samples := 0\<rparr>
       else ?h\<lparr>pending_zone := Some ?d, pending_samples := k\<rparr>)"
      using inv by (intro drift_update_other) (auto simp: False k_def)
    show ?thesis
    proof (cases "hold_samples ?h \<le> k")
      case True
      with upd inv show ?thesis by (simp add: drift_inv_def)
    next
      case less: False
      have same: "zone (drift_run n (xs @ [s])) = zone ?h" using less upd by simp
      have "agreeing n (xs @ [s]) ?d k"
      proof (cases "pending_zone ?h = Some ?d")
        case True
        with inv(4) have "agreeing n xs ?d (pending_samples ?h)" by simp
        from agreeing_snoc [OF this refl same] True show ?thesis by (simp add: k_def)
      next
        case False
        with agreeing_snoc [OF agreeing_zero refl same] show ?thesis by (simp add: k_def)
      qed
      with upd less inv False show ?thesis by (simp add: drift_inv_def)
    qed
  qed
qed

lemma drift_change_agrees:
  assumes "n \<le> 255" and change: "zone (drift_update (drift_run n xs) s) \<noteq> zone (drift_run n xs)"
  defines "h \<equiv> drift_run n xs"
  shows "wanted_zone (zone h) s = zone (drift_update h s) \<and>
    agreeing n xs (zone (drift_update h s)) (hold_samples h - 1)"
proof -
  let ?d = "wanted_zone (zone h) s"
  have inv: "0 < hold_samples h" "hold_samples h \<le> 255" "pending_samples h < hold_samples h"
    "case pending_zone h of None \<Rightarrow> pending_samples h = 0
       | Some d \<Rightarrow> d \<noteq> zone h \<and> agreeing n xs d (pending_samples h)"
    using drift_inv_run [OF assms(1), of xs] unfolding drift_inv_def Let_def h_def by blast+
  have other: "?d \<noteq> zone h" using change by (auto simp: h_def drift_update_same)
  define k where "k = (if pending_zone h = Some ?d then Suc (pending_samples h) else 1)"
  have upd: "drift_update h s =
      (if hold_samples h \<le> k then h\<lparr>zone := ?d, pending_zone := None, pending_samples := 0\<rparr>
       else h\<lparr>pending_zone := Some ?d, pending_samples := k\<rparr>)"
    using inv by (intro drift_update_other) (auto simp: other k_def)
  have "hold_samples h \<le> k" using change upd by (auto simp: h_def split: if_splits)
  moreover have "agreeing n xs ?d (hold_samples h - 1)"
  proof (cases "pending_zone h = Some ?d")
    case True
    with \<open>hold_samples h \<le> k\<close> inv(3) have "hold_samples h - 1 = pending_samples h"
      by (simp add: k_def)
    with True inv(4) show ?thesis by simp
  next
    case False
    with \<open>hold_samples h \<le> k\<close> inv(1) have "hold_samples h - 1 = 0" by (simp add: k_def)
    then show ?thesis by (simp only: agreeing_zero)
  qed
  ultimately show ?thesis using upd by simp
qed

lemma drift_settled_run:
  assumes "pending_zone h = Some d \<and> pending_samples h = k \<or> k = 0"
    and "\<forall>t \<in> set zs. wanted_zone (zone h) t = d" and "d \<noteq> zone h"
    and "k + length zs = hold_samples h" and "hold_samples h \<le> 255" and "zs \<noteq> []"
    and "k = 0 \<Longrightarrow> pending_zone h = None" and "pending_zone h = None \<Longrightarrow> pending_samples h = 0"
  shows "zone (foldl drift_update h zs) = d"
  using assms
proof (induction zs arbitrary: h k)
  case Nil
  then show ?case by simp
next
  case (Cons s zs)
  have upd: "drift_update h s =
      (if hold_samples h \<le> Suc k then h\<lparr>zone := d, pending_zone := None, pending_samples := 0\<rparr>
       else h\<lparr>pending_zone := Some d, pending_samples := Suc k\<rparr>)"
    using Cons.prems by (intro drift_update_other) auto
  show ?case
  proof (cases zs)
    case Nil
    with Cons.prems upd show ?thesis by simp
  next
    case (Cons t us)
    with Cons.prems upd have "drift_update h s = h\<lparr>pending_zone := Some d, pending_samples := Suc k\<rparr>"
      by simp
    then have "zone (foldl drift_update (drift_update h s) zs) = d"
      using Cons.prems \<open>zs = t # us\<close> by (intro Cons.IH [where k = "Suc k"]) auto
    then show ?thesis by simp
  qed
qed

text \<open>
  The drift zone is hysteretic. In any run of samples from a fresh classifier, the zone changes
  at a sample only if that sample and the \<open>hold_samples - 1\<close> samples before it all asked for the
  new zone, with no other change in between; and \<open>hold_samples\<close> samples in a row that ask for a
  zone, from a state with nothing pending, do change to it.
\<close>

theorem drift_zone_hysteretic:
  assumes "n \<le> 255"
  defines "h \<equiv> foldl drift_update (hysteresis_new n)"
  shows "(zone (h (xs @ [s])) \<noteq> zone (h xs) \<longrightarrow>
      (\<exists>ys zs. xs = ys @ zs \<and> Suc (length zs) = hold_samples (h xs) \<and>
         (\<forall>t \<in> set (zs @ [s]). wanted_zone (zone (h xs)) t = zone (h (xs @ [s]))) \<and>
         (\<forall>us vs. zs = us @ vs \<longrightarrow> zone (h (ys @ us)) = zone (h xs)))) \<and>
    (pending_zone (h xs) = None \<and> length zs = hold_samples (h xs) \<and> d \<noteq> zone (h xs) \<and>
       (\<forall>t \<in> set zs. wanted_zone (zone (h xs)) t = d) \<longrightarrow> zone (h (xs @ zs)) = d)"
proof (intro conjI impI)
  assume change: "zone (h (xs @ [s])) \<noteq> zone (h xs)"
  have pos: "0 < hold_samples (drift_run n xs)" by (simp add: hysteresis_new_def)
  have step: "h (xs @ [s]) = drift_update (drift_run n xs) s" by (simp add: h_def)
  have now: "h xs = drift_run n xs" by (simp add: h_def)
  have "zone (drift_update (drift_run n xs) s) \<noteq> zone (drift_run n xs)"
    using change unfolding step now .
  from drift_change_agrees [OF assms(1) this]
  have want: "wanted_zone (zone (h xs)) s = zone (h (xs @ [s]))"
    and "agreeing n xs (zone (h (xs @ [s]))) (hold_samples (h xs) - 1)"
    unfolding step now by blast+
  then obtain ys zs where zs: "xs = ys @ zs" "length zs = hold_samples (h xs) - 1"
      "\<forall>t \<in> set zs. wanted_zone (zone (h xs)) t = zone (h (xs @ [s]))"
      "\<forall>us vs. zs = us @ vs \<longrightarrow> zone (h (ys @ us)) = zone (h xs)"
    unfolding agreeing_def h_def by blast
  have "Suc (length zs) = hold_samples (h xs)" using zs(2) pos by (simp add: now)
  moreover have "\<forall>t \<in> set (zs @ [s]). wanted_zone (zone (h xs)) t = zone (h (xs @ [s]))"
    using zs(3) want by (metis Un_iff empty_iff empty_set insert_iff list.set(2) set_append)
  ultimately show "\<exists>ys zs. xs = ys @ zs \<and> Suc (length zs) = hold_samples (h xs) \<and>
         (\<forall>t \<in> set (zs @ [s]). wanted_zone (zone (h xs)) t = zone (h (xs @ [s]))) \<and>
         (\<forall>us vs. zs = us @ vs \<longrightarrow> zone (h (ys @ us)) = zone (h xs))"
    using zs by blast
next
  assume a: "pending_zone (h xs) = None \<and> length zs = hold_samples (h xs) \<and> d \<noteq> zone (h xs) \<and>
       (\<forall>t \<in> set zs. wanted_zone (zone (h xs)) t = d)"
  have inv: "drift_inv n xs" using assms(1) by (rule drift_inv_run)
  have "zone (foldl drift_update (h xs) zs) = d"
    by (rule drift_settled_run [where k = 0])
      (use a inv in \<open>auto simp: drift_inv_def Let_def h_def\<close>)
  then show "zone (h (xs @ zs)) = d" by (simp add: h_def)
qed

theorem drift_zone_hysteretic_witness:
  "zone (foldl drift_update (hysteresis_new 3) [(90, 0), (0, 600), (85, 0)]) = AudioAhead"
  using drift_zone_hysteretic [of 3 "[]" undefined "[(90, 0), (0, 600), (85, 0)]" AudioAhead]
  by (simp add: hysteresis_new_def wanted_zone_def clamp_def entering_zone_def drift_limits)

text \<open>
  An offset and a drift of opposite sign keep the zone alternating: the zone entered on one of
  them is left on the other.
\<close>

lemma drift_conflict_flaps:
  "zone (foldl drift_update (hysteresis_new 3) (replicate 3 (100, - 600))) = AudioAhead"
  "zone (foldl drift_update (hysteresis_new 3) (replicate 6 (100, - 600))) = AudioBehind"
  "zone (foldl drift_update (hysteresis_new 3) (replicate 9 (100, - 600))) = AudioAhead"
  by (simp_all add: numeral_eq_Suc hysteresis_new_def drift_update_def wanted_zone_def clamp_def
      entering_zone_def drift_limits sat_add_def)

section \<open>Percentiles\<close>

abbreviation latency_run :: "nat list \<Rightarrow> latency_window" where
  "latency_run vs \<equiv> foldl (\<lambda>w v. latency_record v w) latency_default vs"

definition recent :: "nat list \<Rightarrow> nat list" where "recent vs = drop (length vs - WINDOW) vs"

lemma latency_ring:
  "length vs < 2 ^ 64 \<Longrightarrow>
     lw_cursor (latency_run vs) = length vs \<and> length (lw_values (latency_run vs)) = WINDOW \<and>
     (\<forall>i < length vs. length vs \<le> i + WINDOW \<longrightarrow> lw_values (latency_run vs) ! (i mod WINDOW) = vs ! i)"
proof (induction vs rule: rev_induct)
  case Nil
  then show ?case by (simp add: latency_default_def)
next
  case (snoc v vs)
  let ?w = "latency_run vs"
  have IH: "lw_cursor ?w = length vs" "length (lw_values ?w) = WINDOW"
    "\<And>i. i < length vs \<Longrightarrow> length vs \<le> i + WINDOW \<Longrightarrow> lw_values ?w ! (i mod WINDOW) = vs ! i"
    using snoc by auto
  have W: "0 < WINDOW" by (simp add: WINDOW_def)
  have "lw_values (latency_record v ?w) ! (i mod WINDOW) = (vs @ [v]) ! i"
    if i: "i < Suc (length vs)" "Suc (length vs) \<le> i + WINDOW" for i
  proof (cases "i = length vs")
    case True
    with IH W show ?thesis by (simp add: latency_record_def)
  next
    case False
    with i have lt: "i < length vs" and gap: "length vs - i < WINDOW" by auto
    have "i mod WINDOW \<noteq> length vs mod WINDOW"
    proof
      assume "i mod WINDOW = length vs mod WINDOW"
      then have "(length vs - i) mod WINDOW = 0"
        using lt by (metis mod_eq_dvd_iff_nat less_imp_le dvd_imp_mod_0)
      with gap lt show False by simp
    qed
    with IH lt i show ?thesis by (simp add: latency_record_def nth_append)
  qed
  with IH snoc.prems show ?case by (simp add: latency_record_def u64_add_def)
qed

lemma mset_rotate: "mset (rotate n xs) = mset xs"
  by (metis add.commute append_take_drop_id mset_append rotate_drop_take)

lemma latency_recent_mset:
  assumes "length vs < 2 ^ 64"
  defines "w \<equiv> latency_run vs"
  shows "mset (take (min (lw_cursor w) (length (lw_values w))) (lw_values w)) = mset (recent vs)"
proof -
  have r: "lw_cursor w = length vs" "length (lw_values w) = WINDOW"
    "\<And>i. i < length vs \<Longrightarrow> length vs \<le> i + WINDOW \<Longrightarrow> lw_values w ! (i mod WINDOW) = vs ! i"
    using latency_ring [OF assms(1)] by (auto simp: w_def)
  have W: "0 < WINDOW" by (simp add: WINDOW_def)
  show ?thesis
  proof (cases "length vs \<le> WINDOW")
    case True
    have "take (length vs) (lw_values w) = vs"
    proof (rule nth_equalityI)
      show "length (take (length vs) (lw_values w)) = length vs" using True r by simp
      fix i assume "i < length (take (length vs) (lw_values w))"
      then have "i < length vs" "i < WINDOW" using r by auto
      then show "take (length vs) (lw_values w) ! i = vs ! i" using r(3) [of i] True by simp
    qed
    with True r show ?thesis by (simp add: recent_def min_def)
  next
    case False
    let ?n = "length vs" let ?m = "length vs mod WINDOW"
    have "rotate ?m (lw_values w) = recent vs"
    proof (rule nth_equalityI)
      show "length (rotate ?m (lw_values w)) = length (recent vs)"
        using False r by (simp add: recent_def)
      fix i assume "i < length (rotate ?m (lw_values w))"
      then have i: "i < WINDOW" using r by simp
      have "(?m + i) mod WINDOW = (?n - WINDOW + i) mod WINDOW"
        using False by (metis le_add_diff_inverse2 linear mod_add_left_eq mod_add_self2)
      then have "rotate ?m (lw_values w) ! i = lw_values w ! ((?n - WINDOW + i) mod WINDOW)"
        using r i by (simp add: nth_rotate)
      also have "\<dots> = vs ! (?n - WINDOW + i)" using r(3) [of "?n - WINDOW + i"] i False by simp
      finally show "rotate ?m (lw_values w) ! i = recent vs ! i" using False by (simp add: recent_def)
    qed
    then have "mset (recent vs) = mset (lw_values w)" by (metis mset_rotate)
    with False r show ?thesis by (simp add: min_def)
  qed
qed

text \<open>
  The published latency percentiles are exact order statistics: whatever was recorded before,
  \<open>percentiles\<close> of the ring buffer returns the entries of rank 50% and 95% and the greatest entry
  of the sorted list of the last (at most) 128 recorded values, and zeros before the first.
\<close>

theorem latency_percentiles_recent:
  assumes "length vs < 2 ^ 64"
  defines "r \<equiv> sort (drop (length vs - WINDOW) vs)"
  shows "percentiles (foldl (\<lambda>w v. latency_record v w) latency_default vs) =
    (if vs = [] then (0, 0, 0)
     else (r ! percentile_rank (length r) 50, r ! percentile_rank (length r) 95, last r))"
proof -
  let ?w = "latency_run vs"
  let ?c = "min (lw_cursor ?w) (length (lw_values ?w))"
  have c: "?c = min (length vs) WINDOW" using latency_ring [OF assms(1)] by simp
  have s: "sort (take ?c (lw_values ?w)) = r"
    using latency_recent_mset [OF assms(1)] unfolding r_def recent_def
    by (simp add: properties_for_sort)
  have "?c = 0 \<longleftrightarrow> vs = []" unfolding c by (auto simp: WINDOW_def min_def)
  then show ?thesis unfolding percentiles_def Let_def s by auto
qed

theorem latency_percentiles_recent_witness:
  "percentiles (foldl (\<lambda>w v. latency_record v w) latency_default [30, 10, 20]) = (20, 30, 30)"
  using latency_percentiles_recent [of "[30, 10, 20]"]
  by (simp add: WINDOW_def percentile_rank_def)

end
