(* ===== verification/Capture_Size.thy ===== *)
theory Capture_Size
  imports Egfx_Config
begin

text \<open>
  The session size (\<open>src/src/capture.rs\<close>): the cells shared between the display, the input handler
  and the encoder, the debounced live-resize request with the two threads that use it, the decision
  to adopt a size, the two handlers the protocol server calls, the synchronisation of the virtual
  display, the split of a rectangle into strips, and the session counter. A cell behind an atomic
  is a record field; the size packed into one \<open>AtomicU32\<close> is a 32-bit word. \<open>elapsed\<close> arguments are
  the reading of the clock against the epoch of the cell.
\<close>

type_synonym dsize = "u16 \<times> u16"

definition as_millis :: "duration \<Rightarrow> nat" where "as_millis d = d div 1000000"

section \<open>The packed size\<close>

unbundle bit_operations_syntax

definition pack_size :: "u16 \<Rightarrow> u16 \<Rightarrow> u32" where
  "pack_size width height = push_bit 16 (ucast width) OR ucast height"

definition unpack_size :: "u32 \<Rightarrow> dsize" where
  "unpack_size packed = (ucast (drop_bit 16 packed), ucast (packed AND 0xFFFF))"

lemma unpack_pack [simp]: "unpack_size (pack_size w h) = (w, h)"
proof -
  have "(ucast (drop_bit 16 (push_bit 16 (ucast w) OR ucast h :: u32)) :: u16) = w"
    by (rule bit_word_eqI) (auto simp: bit_simps dest: bit_imp_le_length)
  moreover have "(ucast ((push_bit 16 (ucast w) OR ucast h :: u32) AND 0xFFFF) :: u16) = h"
  proof -
    have m: "(0xFFFF :: u32) = mask 16" by (simp add: mask_eq_exp_minus_1)
    show ?thesis
      unfolding m by (rule bit_word_eqI) (auto simp: bit_simps dest: bit_imp_le_length)
  qed
  ultimately show ?thesis by (simp add: pack_size_def unpack_size_def)
qed

section \<open>The shared cells\<close>

record click_signal =
  last_click_ms :: nat

definition click_new :: click_signal where "click_new = \<lparr>last_click_ms = 0\<rparr>"

definition record_click :: "duration \<Rightarrow> click_signal \<Rightarrow> click_signal" where
  "record_click elapsed c = c\<lparr>last_click_ms := max (as_millis elapsed) 1\<rparr>"

definition click_within :: "duration \<Rightarrow> duration \<Rightarrow> click_signal \<Rightarrow> bool" where
  "click_within window elapsed c \<longleftrightarrow>
     last_click_ms c \<noteq> 0 \<and> as_millis elapsed - last_click_ms c \<le> as_millis window"

record pending_resize =
  pr_size :: u32
  last_update_ms :: nat
  keyboard_generation :: nat

definition RESIZE_DEBOUNCE :: duration where "RESIZE_DEBOUNCE = from_millis 400"

definition resize_new :: pending_resize where
  "resize_new = \<lparr>pr_size = 0, last_update_ms = 0, keyboard_generation = 0\<rparr>"

definition resize_request :: "duration \<Rightarrow> u16 \<Rightarrow> u16 \<Rightarrow> pending_resize \<Rightarrow> pending_resize" where
  "resize_request elapsed width height p =
     p\<lparr>pr_size := pack_size width height, last_update_ms := max (as_millis elapsed) 1\<rparr>"

definition has_pending :: "pending_resize \<Rightarrow> bool" where
  "has_pending p \<longleftrightarrow> last_update_ms p \<noteq> 0"

definition record_keyboard :: "pending_resize \<Rightarrow> pending_resize" where
  "record_keyboard p = p\<lparr>keyboard_generation := (keyboard_generation p + 1) mod 2 ^ 64\<rparr>"

definition take_settled ::
    "duration \<Rightarrow> duration \<Rightarrow> pending_resize \<Rightarrow> dsize option \<times> pending_resize" where
  "take_settled debounce elapsed p =
     (if last_update_ms p = 0 then (None, p)
      else if as_millis elapsed - last_update_ms p < as_millis debounce then (None, p)
      else (Some (unpack_size (pr_size p)), p\<lparr>last_update_ms := 0\<rparr>))"

record shared_desktop_size =
  packed :: u32
  letterbox :: bool

definition desktop_new :: "u16 \<Rightarrow> u16 \<Rightarrow> shared_desktop_size" where
  "desktop_new width height = \<lparr>packed = pack_size width height, letterbox = False\<rparr>"

definition desktop_get :: "shared_desktop_size \<Rightarrow> dsize" where "desktop_get d = unpack_size (packed d)"

definition desktop_set :: "u16 \<Rightarrow> u16 \<Rightarrow> shared_desktop_size \<Rightarrow> shared_desktop_size" where
  "desktop_set width height d = d\<lparr>packed := pack_size width height\<rparr>"

definition set_letterbox :: "bool \<Rightarrow> shared_desktop_size \<Rightarrow> shared_desktop_size" where
  "set_letterbox on d = d\<lparr>letterbox := on\<rparr>"

lemma desktop_get_set [simp]: "desktop_get (desktop_set w h d) = (w, h)"
  by (simp add: desktop_get_def desktop_set_def)

lemma desktop_get_letterbox [simp]: "desktop_get (set_letterbox on d) = desktop_get d"
  by (simp add: desktop_get_def set_letterbox_def)

section \<open>The live-resize request under two threads\<close>

text \<open>
  \<open>request\<close> stores the size and then the time stamp; \<open>take_settled\<close> loads the stamp, compares and
  exchanges it, and loads the size. Any other step of the other thread can come in between. The
  clock reading of a request is made before its second store. \<open>requested\<close> is the history of the
  sizes stored, \<open>taken\<close> that of the sizes returned; neither influences a step.
\<close>

datatype requester = RIdle | RStored nat
datatype taker = TIdle | TLoaded nat | TWon

record resize_race =
  cell :: pending_resize
  req :: requester
  tak :: taker
  requested :: "dsize list"
  taken :: "dsize list"

inductive race_step :: "resize_race \<Rightarrow> resize_race \<Rightarrow> bool" where
  StoreSize: "req s = RIdle \<Longrightarrow>
     race_step s (s\<lparr>cell := (cell s)\<lparr>pr_size := pack_size w h\<rparr>, req := RStored (max ms 1),
       requested := requested s @ [(w, h)]\<rparr>)"
| StoreStamp: "req s = RStored ms \<Longrightarrow>
     race_step s (s\<lparr>cell := (cell s)\<lparr>last_update_ms := ms\<rparr>, req := RIdle\<rparr>)"
| LoadStamp: "tak s = TIdle \<Longrightarrow> last_update_ms (cell s) \<noteq> 0 \<Longrightarrow>
     race_step s (s\<lparr>tak := TLoaded (last_update_ms (cell s))\<rparr>)"
| NotSettled: "tak s = TLoaded ms \<Longrightarrow> race_step s (s\<lparr>tak := TIdle\<rparr>)"
| ExchangeOk: "tak s = TLoaded ms \<Longrightarrow> last_update_ms (cell s) = ms \<Longrightarrow>
     race_step s (s\<lparr>cell := (cell s)\<lparr>last_update_ms := 0\<rparr>, tak := TWon\<rparr>)"
| ExchangeFail: "tak s = TLoaded ms \<Longrightarrow> last_update_ms (cell s) \<noteq> ms \<Longrightarrow>
     race_step s (s\<lparr>tak := TIdle\<rparr>)"
| LoadSize: "tak s = TWon \<Longrightarrow>
     race_step s (s\<lparr>tak := TIdle, taken := taken s @ [unpack_size (pr_size (cell s))]\<rparr>)"

inductive_cases race_stepE: "race_step s t"

definition race_start :: resize_race where
  "race_start = \<lparr>cell = resize_new, req = RIdle, tak = TIdle, requested = [], taken = []\<rparr>"

section \<open>Adopting a size\<close>

definition adopt_client_size :: "bool \<Rightarrow> dsize \<Rightarrow> dsize \<Rightarrow> dsize option" where
  "adopt_client_size auto_size current client =
     (if auto_size \<and> client \<noteq> current
        \<and> 200 \<le> fst client \<and> fst client \<le> 8192 \<and> 200 \<le> snd client \<and> snd client \<le> 8192
      then Some client else None)"

section \<open>The display behind the protocol server\<close>

text \<open>
  The virtual display is known by its size in points and its identifier; the outcome of a re-mode
  (\<open>resize\<close>, a private framework call) is an answer: the bounds it read back, or the failure.
\<close>

record virtual_display =
  size_pts :: "real \<times> real"
  display_id :: nat

record capture_display =
  desktop_size :: shared_desktop_size
  auto_size :: bool
  max_client_size :: "dsize option"
  pending :: pending_resize
  suppress_next_adopt :: bool
  virtual_display :: "virtual_display option"
  screen_size_pts :: "real \<times> real"
  session_tracker :: bool
  captured_primary :: bool
  shielded_primary :: bool

datatype display_call =
    VdResize nat nat
  | ReanchorAsMain
  | ReassertCaptured
  | ReassertShield
  | GatherThread nat

definition display_size :: "capture_display \<Rightarrow> dsize" where
  "display_size d = desktop_get (desktop_size d)"

definition request_initial_size :: "dsize \<Rightarrow> capture_display \<Rightarrow> dsize \<times> capture_display" where
  "request_initial_size client_size d =
     (let current = display_size d
      in if suppress_next_adopt d then (current, d\<lparr>suppress_next_adopt := False\<rparr>)
         else case adopt_client_size (auto_size d) current client_size of
                Some adopted \<Rightarrow>
                  (adopted, d\<lparr>desktop_size :=
                     desktop_set (fst adopted) (snd adopted) (desktop_size d)\<rparr>)
              | None \<Rightarrow> (current, d))"

text \<open>A monitor of the layout: whether it is the primary one, and its dimensions.\<close>

record monitor =
  is_primary :: bool
  dimensions :: "nat \<times> nat"

definition chosen_monitor :: "monitor list \<Rightarrow> monitor option" where
  "chosen_monitor ms =
     (case List.find is_primary ms of Some m \<Rightarrow> Some m
      | None \<Rightarrow> (case ms of [] \<Rightarrow> None | m # _ \<Rightarrow> Some m))"

definition u16_try_from :: "nat \<Rightarrow> u16 option" where
  "u16_try_from n = (if n \<le> U16_MAX then Some (of_nat n) else None)"

definition capped_size :: "dsize option \<Rightarrow> dsize \<Rightarrow> dsize" where
  "capped_size cap s =
     (case cap of Some m \<Rightarrow> (min (fst s) (fst m), min (snd s) (snd m)) | None \<Rightarrow> s)"

definition request_layout :: "duration \<Rightarrow> monitor list \<Rightarrow> capture_display \<Rightarrow> capture_display" where
  "request_layout elapsed layout d =
     (let resizable = auto_size d \<or> virtual_display d \<noteq> None
      in if \<not> resizable then d
         else case chosen_monitor layout of
                None \<Rightarrow> d
              | Some m \<Rightarrow>
                  (case (u16_try_from (fst (dimensions m)), u16_try_from (snd (dimensions m))) of
                     (Some width, Some height) \<Rightarrow>
                       (case adopt_client_size resizable (display_size d)
                               (capped_size (max_client_size d) (width, height)) of
                          None \<Rightarrow> d
                        | Some adopted \<Rightarrow>
                            d\<lparr>pending := resize_request elapsed (fst adopted) (snd adopted)
                               (pending d)\<rparr>)
                   | _ \<Rightarrow> d))"

text \<open>\<open>as u16\<close> of a floating-point value truncates and saturates.\<close>

definition f64_as_u16 :: "real \<Rightarrow> u16" where "f64_as_u16 x = of_nat (min (nat \<lfloor>x\<rfloor>) U16_MAX)"

definition remode_calls :: "bool \<Rightarrow> nat \<Rightarrow> capture_display \<Rightarrow> display_call list" where
  "remode_calls keeps_physical_main vd_id d =
     (if session_tracker d then
        (if shielded_primary d \<and> keeps_physical_main then [] else [ReanchorAsMain])
        @ (if captured_primary d then [ReassertCaptured] else [])
        @ (if shielded_primary d then [ReassertShield] else [])
        @ [GatherThread vd_id]
      else [])"

definition sync_virtual_display ::
    "(real \<times> real) option \<Rightarrow> bool \<Rightarrow> capture_display
      \<Rightarrow> dsize \<times> capture_display \<times> display_call list" where
  "sync_virtual_display remode keeps_physical_main d =
     (let (width, height) = display_size d
      in case virtual_display d of
           None \<Rightarrow> ((width, height), d, [])
         | Some vd \<Rightarrow>
             let cur = (f64_as_u16 (fst (size_pts vd)), f64_as_u16 (snd (size_pts vd)))
             in if cur = (width, height) then ((width, height), d, [])
                else case remode of
                       Some bounds \<Rightarrow>
                         ((width, height),
                          d\<lparr>virtual_display := Some (vd\<lparr>size_pts := bounds\<rparr>),
                            screen_size_pts := bounds\<rparr>,
                          VdResize (unat width) (unat height)
                            # remode_calls keeps_physical_main (display_id vd) d)
                     | None \<Rightarrow>
                         (cur,
                          d\<lparr>desktop_size := desktop_set (fst cur) (snd cur) (desktop_size d)\<rparr>,
                          [VdResize (unat width) (unat height)]))"

section \<open>Frames\<close>

definition MAX_BITMAP_UPDATE_PIXELS :: u32 where "MAX_BITMAP_UPDATE_PIXELS = 1280 * 720"

definition capture_scaling_mode :: "dsize \<Rightarrow> dsize \<Rightarrow> dsize \<Rightarrow> bool \<Rightarrow> bool \<Rightarrow> bool \<times> bool" where
  "capture_scaling_mode native backing configured auto stretch =
     (let force_full_frame = (\<not> (native = configured \<or> backing = configured))
      in (force_full_frame, force_full_frame \<and> auto \<and> \<not> stretch))"

type_synonym rect = "u16 \<times> u16 \<times> u16 \<times> u16"

definition strip_rows :: "u16 \<Rightarrow> u16" where
  "strip_rows w =
     (let q = max (MAX_BITMAP_UPDATE_PIXELS div ucast w) 1
      in if q \<le> 0xFFFF then ucast q else 0xFFFF)"

lemma strip_rows_pos: "0 < strip_rows w"
proof -
  define q where "q = max (MAX_BITMAP_UPDATE_PIXELS div ucast w) 1"
  have q1: "1 \<le> unat q" unfolding q_def by (metis max.cobounded2 word_le_nat_alt unat_1)
  have "0 < (ucast q :: u16)" if "q \<le> 0xFFFF"
  proof -
    have "unat q \<le> 65535" using that by (simp add: word_le_nat_alt)
    then have "unat (ucast q :: u16) = unat q" by (simp add: unsigned_ucast_eq take_bit_nat_eq_self_iff)
    with q1 show ?thesis by (metis gr0I le_zero_eq unat_gt_0 unat_0 zero_neq_one word_gt_0)
  qed
  then show ?thesis by (simp add: strip_rows_def Let_def q_def [symmetric])
qed

lemma strip_step:
  fixes row h sh :: u16
  assumes "row < h" and "sh = min (strip_rows w) (h - row)"
  shows "0 < unat sh" and "unat (row + sh) = unat row + unat sh" and "unat row + unat sh \<le> unat h"
proof -
  have hr: "unat (h - row) = unat h - unat row"
    using assms(1) by (simp add: unat_sub word_le_nat_alt word_less_nat_alt)
  have lt: "unat row < unat h" using assms(1) by (simp add: word_less_nat_alt)
  have pos: "0 < unat (strip_rows w)" using strip_rows_pos [of w] by (simp add: word_less_nat_alt)
  have sh: "unat sh = min (unat (strip_rows w)) (unat h - unat row)"
    unfolding assms(2) min_def by (simp add: word_le_nat_alt hr)
  then show "0 < unat sh" and le: "unat row + unat sh \<le> unat h" using lt pos by auto
  then show "unat (row + sh) = unat row + unat sh"
    using unat_u16_less [of h] by (simp add: unat_word_ariths)
qed

function strips_from :: "u16 \<Rightarrow> u16 \<Rightarrow> u16 \<Rightarrow> u16 \<Rightarrow> u16 \<Rightarrow> rect list" where
  "strips_from x y w h row =
     (if row < h then
        let sh = min (strip_rows w) (h - row)
        in (x, y + row, w, sh) # strips_from x y w h (row + sh)
      else [])"
  by pat_completeness auto

termination
proof (relation "measure (\<lambda>(x, y, w, h, row). unat h - unat row)", goal_cases)
  case 1
  show ?case by simp
next
  case (2 x y w h row sh)
  from strip_step [OF 2] show ?case by simp
qed

declare strips_from.simps [simp del]

definition split_strips :: "u16 \<Rightarrow> u16 \<Rightarrow> u16 \<Rightarrow> u16 \<Rightarrow> rect list" where
  "split_strips x y w h =
     (if w = 0 \<or> h = 0 then []
      else if (ucast w * ucast h :: u32) \<le> MAX_BITMAP_UPDATE_PIXELS then [(x, y, w, h)]
      else strips_from x y w h 0)"

section \<open>The session counter\<close>

record tracker =
  session_count :: nat
  notifications :: nat

definition tracker_enter :: "tracker \<Rightarrow> tracker" where
  "tracker_enter t = t\<lparr>session_count := (session_count t + 1) mod 2 ^ 64,
     notifications := notifications t + 1\<rparr>"

definition tracker_leave :: "tracker \<Rightarrow> tracker" where
  "tracker_leave t = t\<lparr>session_count := (session_count t + (2 ^ 64 - 1)) mod 2 ^ 64,
     notifications := notifications t + 1\<rparr>"

text \<open>The wrapper of an update stream enters at its construction and leaves at its drop.\<close>

definition counted_new :: "tracker \<Rightarrow> tracker" where "counted_new t = tracker_enter t"
definition counted_drop :: "tracker \<Rightarrow> tracker" where "counted_drop t = tracker_leave t"

end
