(* ===== verification/Capture_Loop.thy ===== *)
theory Capture_Loop
  imports Capture_Size Egfx_Run Stats
begin

text \<open>
  The capture loop of \<open>src/src/capture.rs\<close>: one pass of \<open>ScreenCaptureUpdates::next_update\<close> from its
  top to the next \<open>continue\<close> or \<open>return\<close>, over the per-connection state, the shared cells of the
  display and the EGFX pipeline itself (the operations of \<open>Egfx_Pipeline\<close>). What the platform
  delivers during a pass (cursor shapes, the suppress flag, a sample, a timeout, the end of the
  stream) is the \<open>tick\<close> of the pass. One clock reading is used per pass. \<open>capture_step\<close> interleaves
  the passes with what the other threads do to the pipeline and to the shared cells.
\<close>

section \<open>State\<close>

record keyframe_on_change =
  kfc_enabled :: bool
  change_pct :: nat
  click_pct :: nat
  click_window :: duration

datatype display_update =
    ResizeUpdate nat nat
  | BitmapUpdate u16 u16 u16 u16 bytes nat
  | CursorUpdate nat

record keyboard_idr =
  kb_generation :: nat
  kb_due_at :: "instant option"
  kb_last_at :: "instant option"
  kb_window_started :: instant
  kb_window_count :: nat
  kb_interval :: duration
  kb_max_per_second :: nat
  kb_stillness :: duration

record capture_updates =
  pending_updates :: "display_update list"
  pending_limit :: nat
  resync_full_frame :: bool
  seeded :: bool
  force_full_frame :: bool
  last_cursor_poll :: "instant option"
  kf_on_change :: keyframe_on_change
  kf_armed :: bool
  keyboard :: keyboard_idr
  frame_interval :: duration
  flush_frames :: nat
  last_gfx_submit_at :: "instant option"
  flush_remaining :: nat
  last_frame :: bytes
  last_stride :: nat
  was_suppressed :: bool
  suppressed_since :: "instant option"
  first_egfx_frame_sent :: bool

record capture_stats =
  display_pending :: nat
  capture_buffered :: nat
  capture_sample_drops :: nat
  capture_superseded :: nat
  display_overflow_resyncs :: nat
  capture_interval_ms :: nat
  capture_age_ms :: nat
  video_pts_ms :: int
  audio_pts_ms :: int
  av_offset_ms :: int
  capture_av :: av_stats

record capture_loop =
  updates :: capture_updates
  display :: capture_display
  sink :: "gfx option"
  stats :: "capture_stats option"
  resync_video :: bool

text \<open>\<open>smp_status\<close> is \<open>has_content\<close> of the frame status, when the sample carries one.\<close>

datatype sample_image = NoImage | LockFailed | Locked nat nat nat bytes

record sample =
  smp_status :: "bool option"
  smp_image :: sample_image
  smp_dirty :: "(real \<times> real \<times> real \<times> real) list option"
  smp_pts :: "(int \<times> int) option"
  smp_age_ms :: "nat option"

datatype stream_event = Sample sample | Timeout | StreamEnded

record tick =
  t_now :: instant
  t_elapsed :: duration
  t_cursor :: "nat list"
  t_suppressed :: "bool option"
  t_keyboard_generation :: nat
  t_click :: "(click_signal \<times> duration) option"
  t_stream :: stream_event
  t_buffered :: nat
  t_answers :: answers

datatype verdict = Emit display_update | Again | Ended | Failed string

datatype loop_call = GfxCall egfx_call | LogKeyboardIdr instant | LogResync nat

section \<open>Construction\<close>

definition keyboard_idr_new :: "instant \<Rightarrow> nat \<Rightarrow> keyboard_idr" where
  "keyboard_idr_new now generation =
     \<lparr>kb_generation = generation, kb_due_at = None, kb_last_at = None, kb_window_started = now,
      kb_window_count = 0, kb_interval = from_millis 200, kb_max_per_second = 2,
      kb_stillness = from_millis 50\<rparr>"

definition pending_limit_from_env :: "env \<Rightarrow> nat" where
  "pending_limit_from_env e =
     or_default 32 (opt_filter (\<lambda>v. 0 < v)
       (env_parse (parse_uint U64_MAX) e ''MACRDP_DISPLAY_PENDING_LIMIT''))"

record start_args =
  arg_native :: dsize
  arg_backing :: "dsize option"
  arg_fps :: nat
  arg_stretch :: bool
  arg_kfc :: keyframe_on_change
  arg_flush_frames :: nat

definition backing_size :: "start_args \<Rightarrow> dsize" where
  "backing_size a = (case arg_backing a of Some b \<Rightarrow> b | None \<Rightarrow> arg_native a)"

definition start_scaling :: "start_args \<Rightarrow> dsize \<Rightarrow> capture_display \<Rightarrow> bool \<times> bool" where
  "start_scaling a configured d =
     capture_scaling_mode (arg_native a) (backing_size a) configured (auto_size d) (arg_stretch a)"

definition start_updates ::
    "env \<Rightarrow> instant \<Rightarrow> start_args \<Rightarrow> dsize \<Rightarrow> capture_display \<Rightarrow> nat \<Rightarrow> capture_updates" where
  "start_updates e now a configured d generation =
     \<lparr>pending_updates = [], pending_limit = pending_limit_from_env e, resync_full_frame = False,
      seeded = False, force_full_frame = fst (start_scaling a configured d),
      last_cursor_poll = None, kf_on_change = arg_kfc a, kf_armed = True,
      keyboard = keyboard_idr_new now generation,
      frame_interval = nat (f64_round (1000000000 / real (max (arg_fps a) 1))),
      flush_frames = arg_flush_frames a, last_gfx_submit_at = None, flush_remaining = 0,
      last_frame = [], last_stride = 0, was_suppressed = False, suppressed_since = None,
      first_egfx_frame_sent = False\<rparr>"

definition start_display :: "start_args \<Rightarrow> dsize \<Rightarrow> capture_display \<Rightarrow> capture_display" where
  "start_display a configured d =
     d\<lparr>desktop_size := set_letterbox (snd (start_scaling a configured d)) (desktop_size d)\<rparr>"

section \<open>The top of the loop\<close>

definition poll_reactivate :: "capture_loop \<Rightarrow> verdict \<times> capture_loop" where
  "poll_reactivate s =
     (case sink s of
        None \<Rightarrow> (Again, s)
      | Some g \<Rightarrow>
          let g1 = (if resync_video s then force_keyframe g else g);
              (r, g2) = take_reactivate_request g1;
              s1 = s\<lparr>sink := Some g2, resync_video := False\<rparr>
          in case r of
               Some (w, h) \<Rightarrow>
                 (Emit (ResizeUpdate w h), s1\<lparr>display := (display s)\<lparr>suppress_next_adopt := True\<rparr>\<rparr>)
             | None \<Rightarrow> (Again, s1))"

definition apply_resize :: "dsize \<Rightarrow> capture_display \<Rightarrow> capture_display" where
  "apply_resize wh d =
     d\<lparr>desktop_size := desktop_set (fst wh) (snd wh) (desktop_size d), suppress_next_adopt := True\<rparr>"

definition poll_resize :: "tick \<Rightarrow> capture_loop \<Rightarrow> verdict \<times> capture_loop" where
  "poll_resize t s =
     (let d = display s; (r, p) = take_settled RESIZE_DEBOUNCE (t_elapsed t) (pending d);
          d1 = d\<lparr>pending := p\<rparr>
      in case r of
           Some wh \<Rightarrow>
             (Emit (ResizeUpdate (unat (fst wh)) (unat (snd wh))),
              s\<lparr>display := apply_resize wh d1, sink := map_option reset_for_live_resize (sink s)\<rparr>)
         | None \<Rightarrow> (Again, s\<lparr>display := d1\<rparr>))"

definition CURSOR_POLL_INTERVAL :: duration where "CURSOR_POLL_INTERVAL = from_millis 66"

definition poll_cursor :: "tick \<Rightarrow> capture_updates \<Rightarrow> verdict \<times> capture_updates" where
  "poll_cursor t u =
     (let poll_due = (case last_cursor_poll u of
            None \<Rightarrow> True | Some l \<Rightarrow> CURSOR_POLL_INTERVAL \<le> saturating_duration_since (t_now t) l)
      in if \<not> poll_due then (Again, u)
         else
           let u1 = u\<lparr>last_cursor_poll := Some (t_now t)\<rparr>
           in case t_cursor t of
                [] \<Rightarrow> (Again, u1)
              | c # cs \<Rightarrow>
                  (Emit (CursorUpdate c),
                   u1\<lparr>pending_updates := map CursorUpdate cs @ pending_updates u1\<rparr>))"

definition note_pending :: "capture_updates \<Rightarrow> capture_stats \<Rightarrow> capture_stats" where
  "note_pending u st = st\<lparr>display_pending := length (pending_updates u) mod 2 ^ 32\<rparr>"

definition pop_pending :: "capture_loop \<Rightarrow> verdict \<times> capture_loop" where
  "pop_pending s =
     (case pending_updates (updates s) of
        [] \<Rightarrow> (Again, s)
      | p # ps \<Rightarrow>
          let u = (updates s)\<lparr>pending_updates := ps\<rparr>
          in (Emit p, s\<lparr>updates := u, stats := map_option (note_pending u) (stats s)\<rparr>))"

definition keyboard_due :: "gfx_config \<Rightarrow> instant \<Rightarrow> keyboard_idr \<Rightarrow> instant" where
  "keyboard_due c now k =
     (let cooldown = (case kb_last_at k of
            Some l \<Rightarrow> cfg_keyboard_idr_min_spacing c - saturating_duration_since now l | None \<Rightarrow> 0)
      in now + max (cfg_keyboard_idr_interval c) cooldown)"

definition observe_keyboard :: "gfx_config \<Rightarrow> instant \<Rightarrow> nat \<Rightarrow> keyboard_idr \<Rightarrow> keyboard_idr" where
  "observe_keyboard c now generation k =
     (let k1 = (if generation = kb_generation k then k
                else k\<lparr>kb_generation := generation,
                       kb_interval := cfg_keyboard_idr_interval c,
                       kb_max_per_second := cfg_keyboard_idr_max_per_second c,
                       kb_stillness := cfg_keyboard_idr_stillness c,
                       kb_due_at := (case kb_due_at k of
                          None \<Rightarrow> Some (keyboard_due c now k) | Some t \<Rightarrow> Some t)\<rparr>)
      in if from_secs 1 \<le> saturating_duration_since now (kb_window_started k1)
         then k1\<lparr>kb_window_started := now, kb_window_count := 0\<rparr> else k1)"

definition SUPPRESS_DEBOUNCE :: duration where "SUPPRESS_DEBOUNCE = from_secs 1"

text \<open>True when the pass ends here, asleep.\<close>

definition suppress_gate :: "tick \<Rightarrow> capture_updates \<Rightarrow> bool \<times> capture_updates" where
  "suppress_gate t u =
     (if \<not> first_egfx_frame_sent u then (False, u)
      else case t_suppressed t of
             None \<Rightarrow> (False, u)
           | Some True \<Rightarrow>
               let started = (case suppressed_since u of Some i \<Rightarrow> i | None \<Rightarrow> t_now t);
                   u1 = u\<lparr>suppressed_since := Some started\<rparr>
               in if SUPPRESS_DEBOUNCE \<le> saturating_duration_since (t_now t) started
                  then (True, u1\<lparr>was_suppressed := True, flush_remaining := 0\<rparr>)
                  else (False, u1)
           | Some False \<Rightarrow> (False, u\<lparr>suppressed_since := None\<rparr>))"

section \<open>Waiting for a sample\<close>

definition bounded_wait :: "capture_loop \<Rightarrow> bool" where
  "bounded_wait s \<longleftrightarrow>
     0 < flush_remaining (updates s) \<or> has_pending (pending (display s))
     \<or> kb_due_at (keyboard (updates s)) \<noteq> None"

definition keyboard_idr_due :: "instant \<Rightarrow> keyboard_idr \<Rightarrow> bool" where
  "keyboard_idr_due now k \<longleftrightarrow>
     (case kb_due_at k of Some due \<Rightarrow> due \<le> now | None \<Rightarrow> False)
     \<and> kb_window_count k < kb_max_per_second k
     \<and> (case kb_last_at k of
          None \<Rightarrow> True | Some l \<Rightarrow> kb_stillness k \<le> saturating_duration_since now l)"

definition keyboard_idr_done :: "instant \<Rightarrow> keyboard_idr \<Rightarrow> keyboard_idr" where
  "keyboard_idr_done now k =
     k\<lparr>kb_due_at := None, kb_last_at := Some now,
       kb_window_count := (kb_window_count k + 1) mod 2 ^ 32\<rparr>"

definition gfx_submit ::
    "gfx_config \<Rightarrow> tick \<Rightarrow> bool \<Rightarrow> gfx \<Rightarrow> bool outcome \<times> gfx \<times> loop_call list" where
  "gfx_submit c t key g =
     (let (res, g', calls) = submit_bgra c (t_answers t) (t_now t) key g
      in (res, g', map GfxCall calls))"

definition idle_tick :: "gfx_config \<Rightarrow> tick \<Rightarrow> capture_loop \<Rightarrow> capture_loop \<times> loop_call list" where
  "idle_tick c t s =
     (let u = updates s
      in if keyboard_idr_due (t_now t) (keyboard u) then
           (case sink s of
              None \<Rightarrow> (s, [])
            | Some g \<Rightarrow>
                if last_frame u = [] then (s, [])
                else
                  let (res, g', calls) = gfx_submit c t True g
                  in if res = Inr True
                     then (s\<lparr>sink := Some g', updates := u\<lparr>flush_remaining := 0,
                               keyboard := keyboard_idr_done (t_now t) (keyboard u)\<rparr>\<rparr>,
                           calls @ [LogKeyboardIdr (t_now t)])
                     else (s\<lparr>sink := Some g'\<rparr>, calls))
         else if 0 < flush_remaining u then
           (let s1 = s\<lparr>updates := u\<lparr>flush_remaining := flush_remaining u - 1\<rparr>\<rparr>
            in case sink s of
                 None \<Rightarrow> (s1, [])
               | Some g \<Rightarrow>
                   if last_frame u = [] then (s1, [])
                   else
                     let (_, g', calls) = gfx_submit c t False g
                     in (s1\<lparr>sink := Some g'\<rparr>, calls))
         else (s, []))"

section \<open>Telemetry of a sample\<close>

definition note_clock :: "sample \<Rightarrow> capture_stats \<Rightarrow> capture_stats" where
  "note_clock smp st =
     (case smp_pts smp of
        None \<Rightarrow> st
      | Some (value, timescale) \<Rightarrow>
          if timescale \<le> 0 then st
          else
            let video_ms = sat_i64 (value * 1000) sdiv timescale;
                offset_ms = sat_i64 (audio_pts_ms st - video_ms)
            in st\<lparr>video_pts_ms := video_ms, av_offset_ms := offset_ms,
                 capture_av := record_av_clock_pair (audio_pts_ms st) video_ms
                   (record_av_offset offset_ms (capture_av st))\<rparr>)"

definition note_age :: "sample \<Rightarrow> capture_stats \<Rightarrow> capture_stats" where
  "note_age smp st = (case smp_age_ms smp of None \<Rightarrow> st | Some a \<Rightarrow> st\<lparr>capture_age_ms := a\<rparr>)"

text \<open>\<open>frame_age_ms\<close>: ticks of the time base to milliseconds; \<open>None\<close> when it cannot be read.\<close>

definition frame_age_ms :: "nat \<Rightarrow> nat \<Rightarrow> (nat \<times> nat) option \<Rightarrow> nat option" where
  "frame_age_ms now display_time timebase =
     (case timebase of
        None \<Rightarrow> None
      | Some (numer, denom) \<Rightarrow>
          if denom = 0 then None
          else Some (min (min ((now - display_time) * numer) U64_MAX div denom div 1000000) U32_MAX))"

section \<open>The EGFX path\<close>

definition rect_area :: "real \<times> real \<times> real \<times> real \<Rightarrow> nat" where
  "rect_area r = (case r of (_, _, w, h) \<Rightarrow> f64_as_uint U64_MAX (max w 0) * f64_as_uint U64_MAX (max h 0))"

definition changed_px :: "sample \<Rightarrow> nat" where
  "changed_px smp = (case smp_dirty smp of None \<Rightarrow> 0 | Some rects \<Rightarrow> sum_list (map rect_area rects))"

definition change_threshold :: "keyframe_on_change \<Rightarrow> (click_signal \<times> duration) option \<Rightarrow> nat" where
  "change_threshold kfc click =
     (case click of
        Some (sig, elapsed) \<Rightarrow>
          if click_within (click_window kfc) elapsed sig then click_pct kfc else change_pct kfc
      | None \<Rightarrow> change_pct kfc)"

definition big_change ::
    "keyframe_on_change \<Rightarrow> (click_signal \<times> duration) option \<Rightarrow> nat \<Rightarrow> nat \<Rightarrow> bool \<Rightarrow> bool \<times> bool" where
  "big_change kfc click frame_px changed armed =
     (if \<not> kfc_enabled kfc then (False, armed)
      else
        let high = change_threshold kfc click; low = max (high div 2) 1;
            is_big = (0 < frame_px \<and> frame_px * high \<le> changed * 100);
            is_quiet = (frame_px = 0 \<or> changed * 100 < frame_px * low)
        in if armed \<and> is_big then (True, False)
           else if is_quiet then (False, True)
           else (False, armed))"

definition submitted_frame ::
    "instant \<Rightarrow> bool \<Rightarrow> bytes \<Rightarrow> nat \<Rightarrow> capture_updates \<Rightarrow> capture_updates" where
  "submitted_frame now keyboard_idr src stride u =
     u\<lparr>last_gfx_submit_at := Some now,
       keyboard := (if keyboard_idr then keyboard_idr_done now (keyboard u) else keyboard u),
       seeded := True, first_egfx_frame_sent := True, last_frame := src, last_stride := stride,
       flush_remaining := flush_frames u\<rparr>"

definition note_interval :: "instant \<Rightarrow> capture_updates \<Rightarrow> capture_stats \<Rightarrow> capture_stats" where
  "note_interval now u st =
     (case last_gfx_submit_at u of
        None \<Rightarrow> st
      | Some previous \<Rightarrow> st\<lparr>capture_interval_ms :=
          min (as_millis (saturating_duration_since now previous)) U32_MAX\<rparr>)"

text \<open>True when the EGFX pipeline took the frame, so that the pass ends.\<close>

definition egfx_path ::
    "gfx_config \<Rightarrow> tick \<Rightarrow> sample \<Rightarrow> nat \<Rightarrow> nat \<Rightarrow> nat \<Rightarrow> bytes \<Rightarrow> capture_loop
      \<Rightarrow> bool \<times> capture_loop \<times> loop_call list" where
  "egfx_path c t smp pb_width pb_height stride src s =
     (case sink s of
        None \<Rightarrow> (False, s, [])
      | Some g \<Rightarrow>
          let u = updates s;
              (big, armed) = big_change (kf_on_change u) (t_click t) (pb_width * pb_height)
                (changed_px smp) (kf_armed u);
              resume = was_suppressed u;
              g1 = (if resume then demigrate_on_resume g else g);
              u1 = u\<lparr>kf_armed := armed, was_suppressed := False\<rparr>;
              idr = keyboard_idr_due (t_now t) (keyboard u1);
              (res, g2, calls) = gfx_submit c t (big \<or> resume \<or> idr) g1
          in if res = Inr True
             then (True,
                   s\<lparr>sink := Some g2, updates := submitted_frame (t_now t) idr src stride u1,
                     stats := map_option (note_interval (t_now t) u1) (stats s)\<rparr>,
                   calls @ (if idr then [LogKeyboardIdr (t_now t)] else []))
             else (False, s\<lparr>sink := Some g2, updates := u1\<rparr>, calls))"

section \<open>The legacy bitmap path\<close>

text \<open>The rows of a rectangle, packed; \<open>None\<close> is the panic of a slice out of range.\<close>

fun copy_rows :: "bytes \<Rightarrow> nat \<Rightarrow> nat \<Rightarrow> nat \<Rightarrow> nat \<Rightarrow> bytes option" where
  "copy_rows src stride off row_bytes 0 = Some []"
| "copy_rows src stride off row_bytes (Suc n) =
     (if off + row_bytes \<le> length src
      then map_option (\<lambda>rest. take row_bytes (drop off src) @ rest)
             (copy_rows src stride (off + stride) row_bytes n)
      else None)"

definition rect_update :: "bytes \<Rightarrow> nat \<Rightarrow> rect \<Rightarrow> display_update list option" where
  "rect_update src stride r =
     (case r of (x, y, w, h) \<Rightarrow>
        if w = 0 \<or> h = 0 then Some []
        else map_option (\<lambda>data. [BitmapUpdate x y w h data (unat w * 4)])
               (copy_rows src stride (unat y * stride + unat x * 4) (unat w * 4) (unat h)))"

definition round_u32 :: "real \<Rightarrow> nat" where "round_u32 x = nat (min (f64_round (max x 0)) (int U32_MAX))"

definition clip_rect :: "nat \<Rightarrow> nat \<Rightarrow> real \<times> real \<times> real \<times> real \<Rightarrow> rect option" where
  "clip_rect pb_width pb_height r =
     (case r of (rx, ry, rw, rh) \<Rightarrow>
        let x = min (round_u32 rx) pb_width; y = min (round_u32 ry) pb_height;
            w = min (round_u32 rw) (pb_width - x); h = min (round_u32 rh) (pb_height - y)
        in if w = 0 \<or> h = 0 then None else Some (of_nat x, of_nat y, of_nat w, of_nat h))"

definition dirty_rects :: "capture_updates \<Rightarrow> sample \<Rightarrow> nat \<Rightarrow> nat \<Rightarrow> rect list" where
  "dirty_rects u smp pb_width pb_height =
     (let dirty = (if \<not> seeded u \<or> force_full_frame u \<or> resync_full_frame u then None
                   else smp_dirty smp)
      in case dirty of
           Some (r # rs) \<Rightarrow> List.map_filter (clip_rect pb_width pb_height) (r # rs)
         | _ \<Rightarrow> [(0, 0, of_nat pb_width, of_nat pb_height)])"

fun rect_updates :: "bytes \<Rightarrow> nat \<Rightarrow> rect list \<Rightarrow> display_update list option" where
  "rect_updates src stride [] = Some []"
| "rect_updates src stride (r # rs) =
     Option.bind (rect_update src stride r) (\<lambda>us.
       map_option (\<lambda>vs. us @ vs) (rect_updates src stride rs))"

definition strips_of :: "rect list \<Rightarrow> rect list" where
  "strips_of rs = concat (map (\<lambda>(x, y, w, h). split_strips x y w h) rs)"

text \<open>The overflow of the queue: everything is dropped and the next sample is sent in full.\<close>

definition settle_queue :: "bool \<Rightarrow> capture_updates \<Rightarrow> nat \<times> capture_updates" where
  "settle_queue resync_sample u =
     (let over = (pending_limit u < length (pending_updates u));
          dropped = length (pending_updates u) - pending_limit u;
          u1 = (if over then u\<lparr>pending_updates := [], resync_full_frame := True\<rparr> else u);
          u2 = (if resync_sample \<and> length (pending_updates u1) \<le> pending_limit u1
                then u1\<lparr>resync_full_frame := False\<rparr> else u1)
      in (if over then dropped else 0, u2))"

definition note_overflow :: "nat \<Rightarrow> capture_updates \<Rightarrow> capture_stats \<Rightarrow> capture_stats" where
  "note_overflow dropped u st =
     note_pending u
       (if 0 < dropped
        then st\<lparr>capture_sample_drops := u64_add (capture_sample_drops st) dropped,
               display_overflow_resyncs := u64_add (display_overflow_resyncs st) 1\<rparr>
        else st)"

definition legacy_path ::
    "sample \<Rightarrow> nat \<Rightarrow> nat \<Rightarrow> nat \<Rightarrow> bytes \<Rightarrow> capture_loop
      \<Rightarrow> (capture_loop \<times> loop_call list) option" where
  "legacy_path smp pb_width pb_height stride src s =
     (let u = updates s
      in case rect_updates src stride (strips_of (dirty_rects u smp pb_width pb_height)) of
           None \<Rightarrow> None
         | Some ups \<Rightarrow>
             let (dropped, u1) = settle_queue (resync_full_frame u)
                   (u\<lparr>pending_updates := pending_updates u @ ups\<rparr>)
             in Some (s\<lparr>updates := u1\<lparr>seeded := True\<rparr>,
                        stats := map_option (note_overflow dropped u1) (stats s)\<rparr>,
                      if 0 < dropped then [LogResync dropped] else []))"

section \<open>A pass\<close>

definition on_sample ::
    "gfx_config \<Rightarrow> tick \<Rightarrow> sample \<Rightarrow> capture_loop \<Rightarrow> verdict \<times> capture_loop \<times> loop_call list" where
  "on_sample c t smp s =
     (let s = s\<lparr>stats := map_option (\<lambda>st. st\<lparr>capture_buffered := t_buffered t\<rparr>) (stats s)\<rparr>
      in if smp_status smp = Some False
         then (Again, s\<lparr>stats := map_option (\<lambda>st. st\<lparr>capture_sample_drops :=
                 u64_add (capture_sample_drops st) 1\<rparr>) (stats s)\<rparr>, [])
         else case smp_image smp of
                NoImage \<Rightarrow>
                  (Again, s\<lparr>stats := map_option (\<lambda>st. st\<lparr>capture_superseded :=
                     u64_add (capture_superseded st) 1\<rparr>) (stats s)\<rparr>, [])
              | LockFailed \<Rightarrow> (Failed ''CVPixelBuffer::lock'', s, [])
              | Locked pb_width pb_height stride src \<Rightarrow>
                  if U16_MAX < pb_width then (Failed ''pixel buffer width > u16'', s, [])
                  else if U16_MAX < pb_height then (Failed ''pixel buffer height > u16'', s, [])
                  else
                    let s = s\<lparr>stats := map_option (note_age smp \<circ> note_clock smp) (stats s)\<rparr>;
                        (taken, s, calls) = egfx_path c t smp pb_width pb_height stride src s
                    in if taken then (Again, s, calls)
                       else case legacy_path smp pb_width pb_height stride src s of
                              None \<Rightarrow> (Failed ''slice index out of range'', s, calls)
                            | Some (s, calls') \<Rightarrow> (Again, s, calls @ calls'))"

definition wait_sample ::
    "gfx_config \<Rightarrow> tick \<Rightarrow> capture_loop \<Rightarrow> verdict \<times> capture_loop \<times> loop_call list" where
  "wait_sample c t s =
     (case t_stream t of
        StreamEnded \<Rightarrow> (Ended, s, [])
      | Timeout \<Rightarrow>
          if bounded_wait s then (let (s', calls) = idle_tick c t s in (Again, s', calls))
          else (Again, s, [])
      | Sample smp \<Rightarrow> on_sample c t smp s)"

definition observe_and_gate ::
    "gfx_config \<Rightarrow> tick \<Rightarrow> capture_loop \<Rightarrow> bool \<times> capture_loop" where
  "observe_and_gate c t s =
     (let u = updates s;
          k = (if sink s = None then keyboard u
               else observe_keyboard c (t_now t) (t_keyboard_generation t) (keyboard u));
          (asleep, u1) = suppress_gate t (u\<lparr>keyboard := k\<rparr>)
      in (asleep, s\<lparr>updates := u1\<rparr>))"

definition loop_pass ::
    "gfx_config \<Rightarrow> tick \<Rightarrow> capture_loop \<Rightarrow> verdict \<times> capture_loop \<times> loop_call list" where
  "loop_pass c t s =
     (case poll_reactivate s of
        (Emit p, s) \<Rightarrow> (Emit p, s, [])
      | (_, s) \<Rightarrow>
        (case poll_resize t s of
           (Emit p, s) \<Rightarrow> (Emit p, s, [])
         | (_, s) \<Rightarrow>
           (case poll_cursor t (updates s) of
              (Emit p, u) \<Rightarrow> (Emit p, s\<lparr>updates := u\<rparr>, [])
            | (_, u) \<Rightarrow>
              (case pop_pending (s\<lparr>updates := u\<rparr>) of
                 (Emit p, s) \<Rightarrow> (Emit p, s, [])
               | (_, s) \<Rightarrow>
                   let (asleep, s) = observe_and_gate c t s
                   in if asleep then (Again, s, []) else wait_sample c t s))))"

text \<open>
  \<open>next_update\<close> on the ticks to come: the first update emitted with the ticks left over, or \<open>Again\<close>
  when it is still waiting at the end of the list.
\<close>

fun next_update ::
    "gfx_config \<Rightarrow> capture_loop \<Rightarrow> tick list \<Rightarrow> verdict \<times> capture_loop \<times> loop_call list \<times> tick list"
where
  "next_update c s [] = (Again, s, [], [])"
| "next_update c s (t # ts) =
     (let (v, s', calls) = loop_pass c t s
      in if v = Again
         then (let (v', s'', calls', rest) = next_update c s' ts in (v', s'', calls @ calls', rest))
         else (v, s', calls, ts))"

section \<open>The loop among the other threads\<close>

text \<open>
  What can happen between two passes: the pipeline's own events (acknowledgements, the ship thread,
  the server's dispatcher), a monitor layout or a reactivation handled by the protocol server, a
  key posted, a manual resync. An emitted update is an output like the calls.
\<close>

datatype loop_event =
    Pass tick
  | Pipeline egfx_event
  | Layout duration "monitor list"
  | Reactivated dsize
  | ResyncHotkey

datatype loop_out = Emitted display_update | Call loop_call

fun verdict_out :: "verdict \<Rightarrow> loop_out list" where
  "verdict_out (Emit p) = [Emitted p]"
| "verdict_out _ = []"

fun capture_step :: "gfx_config \<Rightarrow> capture_loop \<Rightarrow> loop_event \<Rightarrow> capture_loop \<times> loop_out list" where
  "capture_step c s (Pass t) =
     (let (v, s', calls) = loop_pass c t s in (s', map Call calls @ verdict_out v))"
| "capture_step c s (Pipeline e) =
     (case sink s of
        None \<Rightarrow> (s, [])
      | Some g \<Rightarrow> (let (g', calls) = egfx_step c g e
                  in (s\<lparr>sink := Some g'\<rparr>, map (Call \<circ> GfxCall) calls)))"
| "capture_step c s (Layout elapsed ms) =
     (s\<lparr>display := request_layout elapsed ms (display s)\<rparr>, [])"
| "capture_step c s (Reactivated echo) =
     (s\<lparr>display := snd (request_initial_size echo (display s))\<rparr>, [])"
| "capture_step c s ResyncHotkey = (s\<lparr>resync_video := True\<rparr>, [])"

end
