(* ===== verification/Capture_Size_Props.thy ===== *)
theory Capture_Size_Props
  imports Capture_Size
begin

text \<open>
  What the session size machinery promises: the strips of a rectangle tile it, and the live-resize
  request neither loses nor invents a size however its two threads interleave.
\<close>

section \<open>Strips\<close>

fun rows_of :: "rect \<Rightarrow> nat list" where
  "rows_of (x, y, w, h) = [unat y ..< unat y + unat h]"

fun strip_fits :: "rect \<Rightarrow> bool" where
  "strip_fits (x, y, w, h) \<longleftrightarrow> 0 < w \<and> 0 < h \<and> unat w * unat h \<le> 1280 * 720"

lemma u16_product: "unat (ucast (w :: u16) * ucast (h :: u16) :: u32) = unat w * unat h"
proof -
  have "unat w * unat h \<le> 65535 * 65535"
    using unat_u16_less [of w] unat_u16_less [of h] by (intro mult_mono) auto
  then have "unat w * unat h < 2 ^ 32" by simp
  then show ?thesis
    using unat_u16_less [of w] unat_u16_less [of h]
    by (simp add: unat_word_ariths unsigned_ucast_eq take_bit_nat_eq_self)
qed

lemma unat_max_pixels: "unat MAX_BITMAP_UPDATE_PIXELS = 1280 * 720"
  by (simp add: MAX_BITMAP_UPDATE_PIXELS_def)

lemma unat_strip_rows: "unat (strip_rows w) = min (max (921600 div unat w) 1) 65535"
proof -
  define q where "q = max (MAX_BITMAP_UPDATE_PIXELS div ucast w) (1 :: u32)"
  have wu: "unat (ucast w :: u32) = unat w"
    using unat_u16_less [of w] by (simp add: unsigned_ucast_eq take_bit_nat_eq_self)
  have q: "unat q = max (921600 div unat w) 1"
    by (auto simp: q_def max_def word_le_nat_alt unat_div wu unat_max_pixels)
  show ?thesis
  proof (cases "q \<le> 0xFFFF")
    case True
    then have "unat q \<le> 65535" by (simp add: word_le_nat_alt)
    moreover from this have "unat (ucast q :: u16) = unat q"
      by (simp add: unsigned_ucast_eq take_bit_nat_eq_self_iff)
    ultimately show ?thesis
      using True by (simp add: strip_rows_def Let_def q_def [symmetric] q)
  next
    case False
    then have "65535 < unat q" by (simp add: word_le_nat_alt)
    with False show ?thesis
      by (simp add: strip_rows_def Let_def q_def [symmetric] q)
  qed
qed

lemma strip_rows_fit: "0 < w \<Longrightarrow> unat w * unat (strip_rows w) \<le> 1280 * 720"
proof -
  assume w: "0 < w"
  have "unat w * max (921600 div unat w) 1 \<le> 921600"
  proof (cases "921600 div unat w = 0")
    case True
    then show ?thesis using unat_u16_less [of w] by simp
  next
    case False
    then have "max (921600 div unat w) 1 = 921600 div unat w" by (simp add: max_def)
    then show ?thesis by (simp only: times_div_less_eq_dividend)
  qed
  moreover have "unat w * unat (strip_rows w) \<le> unat w * max (921600 div unat w) 1"
    by (simp add: unat_strip_rows)
  ultimately show ?thesis by linarith
qed

lemma strips_from_tile:
  assumes "unat y + unat h < 65536" and "row \<le> h" and "0 < w"
  shows "(\<forall>r \<in> set (strips_from x y w h row). strip_fits r \<and> fst r = x \<and> fst (snd (snd r)) = w) \<and>
    concat (map rows_of (strips_from x y w h row)) = [unat y + unat row ..< unat y + unat h]"
  using assms
proof (induction x y w h row rule: strips_from.induct)
  case (1 x y w h row)
  show ?case
  proof (cases "row < h")
    case False
    with 1(3) have "row = h" by simp
    then show ?thesis by (simp add: strips_from.simps [of x y w h h])
  next
    case True
    define sh where "sh = min (strip_rows w) (h - row)"
    note step = strip_step [OF True sh_def]
    have yr: "unat (y + row) = unat y + unat row"
      using 1(2) step by (simp add: unat_word_ariths)
    have IH: "(\<forall>r \<in> set (strips_from x y w h (row + sh)). strip_fits r \<and> fst r = x \<and> fst (snd (snd r)) = w) \<and>
      concat (map rows_of (strips_from x y w h (row + sh))) = [unat y + unat (row + sh) ..< unat y + unat h]"
      using True sh_def 1(2,4) step by (intro "1.IH") (auto simp: word_le_nat_alt)
    have "unat sh \<le> unat (strip_rows w)" by (simp add: sh_def word_le_nat_alt [symmetric])
    then have "unat w * unat sh \<le> 1280 * 720"
      using strip_rows_fit [OF 1(4)] by (meson le_trans mult_le_mono2)
    then have "strip_fits (x, y + row, w, sh)"
      using 1(4) step(1) by (simp add: word_less_nat_alt)
    moreover have "[unat y + unat row ..< unat y + unat h]
      = [unat y + unat row ..< unat y + unat row + unat sh] @ [unat y + unat (row + sh) ..< unat y + unat h]"
      using upt_split [of "unat y + unat row" "unat y + unat row + unat sh" "unat y + unat h"] step
      by (simp add: add.assoc)
    ultimately show ?thesis
      using IH True yr by (simp add: strips_from.simps [of x y w h row] Let_def sh_def [symmetric])
  qed
qed

lemma split_strips_lemma:
  assumes "unat y + unat h < 65536"
  shows "(\<forall>r \<in> set (split_strips x y w h). strip_fits r \<and> fst r = x \<and> fst (snd (snd r)) = w) \<and>
    concat (map rows_of (split_strips x y w h)) = (if w = 0 then [] else [unat y ..< unat y + unat h])"
proof (cases "w = 0 \<or> h = 0")
  case True
  then show ?thesis by (auto simp: split_strips_def)
next
  case False
  then have pos: "0 < w" "0 < h" by (auto simp: word_gt_0)
  show ?thesis
  proof (cases "(ucast w * ucast h :: u32) \<le> MAX_BITMAP_UPDATE_PIXELS")
    case True
    then have "unat w * unat h \<le> 1280 * 720"
      unfolding word_le_nat_alt u16_product unat_max_pixels .
    with False True pos show ?thesis by (simp add: split_strips_def)
  next
    case large: False
    with False strips_from_tile [OF assms, of 0 w x] pos show ?thesis
      by (simp add: split_strips_def)
  qed
qed

text \<open>
  \<open>split_strips\<close> cuts a rectangle whose rows fit in 16 bits into horizontal strips of its full
  width that follow one another without gap or overlap from its first row to its last, none of them
  empty and none above the pixel limit one bitmap update may have; an empty rectangle gives none.
\<close>

theorem split_strips_tile:
  assumes "unat y + unat h < 65536"
  shows "(\<forall>(sx, sy, sw, sh) \<in> set (split_strips x y w h).
        sx = x \<and> sw = w \<and> 0 < sh \<and> unat sw * unat sh \<le> unat MAX_BITMAP_UPDATE_PIXELS) \<and>
     concat (map (\<lambda>(sx, sy, sw, sh). [unat sy ..< unat sy + unat sh]) (split_strips x y w h))
       = (if w = 0 then [] else [unat y ..< unat y + unat h])"
proof -
  have r: "(\<lambda>(sx, sy, sw, sh). [unat sy ..< unat sy + unat sh]) = rows_of"
    by (auto simp: fun_eq_iff)
  show ?thesis
    using split_strips_lemma [OF assms, of x w] unfolding r unat_max_pixels by auto
qed

theorem split_strips_tile_witness:
  "concat (map (\<lambda>(sx, sy, sw, sh). [unat sy ..< unat sy + unat sh]) (split_strips 0 0 1920 1080))
     = [0 ..< 1080] \<and> split_strips 0 0 1920 1080 = [(0, 0, 1920, 480), (0, 480, 1920, 480), (0, 960, 1920, 120)]"
proof -
  have "split_strips 0 0 1920 1080 = [(0, 0, 1920, 480), (0, 480, 1920, 480), (0, 960, 1920, 120)]"
    by (simp add: split_strips_def MAX_BITMAP_UPDATE_PIXELS_def strips_from.simps strip_rows_def Let_def)
  then show ?thesis using split_strips_tile [of 0 1080 0 1920] by simp
qed

section \<open>The live-resize request under two threads\<close>

text \<open>The sizes of one list occur in the other, in the order of the other.\<close>

definition in_order :: "'a list \<Rightarrow> 'a list \<Rightarrow> bool" where
  "in_order xs ys \<longleftrightarrow> (\<exists>ps. sorted ps \<and> (\<forall>p \<in> set ps. p < length ys) \<and> xs = map ((!) ys) ps)"

lemma in_order_Nil [simp]: "in_order [] ys"
  unfolding in_order_def by (rule exI [of _ "[]"]) simp

lemma in_order_set: "in_order xs ys \<Longrightarrow> set xs \<subseteq> set ys"
  by (auto simp: in_order_def)

lemma in_order_longer: "in_order xs ys \<Longrightarrow> in_order xs (ys @ [y])"
proof -
  assume "in_order xs ys"
  then obtain ps where ps: "sorted ps" "\<forall>p \<in> set ps. p < length ys" "xs = map ((!) ys) ps"
    by (auto simp: in_order_def)
  then have "xs = map ((!) (ys @ [y])) ps" by (simp add: nth_append)
  moreover have "\<forall>p \<in> set ps. p < length (ys @ [y])" using ps(2) by auto
  ultimately show ?thesis using ps(1) unfolding in_order_def by blast
qed

lemma in_order_last: "in_order xs ys \<Longrightarrow> ys \<noteq> [] \<Longrightarrow> in_order (xs @ [last ys]) ys"
proof -
  assume "in_order xs ys" and ne: "ys \<noteq> []"
  then obtain ps where ps: "sorted ps" "\<forall>p \<in> set ps. p < length ys" "xs = map ((!) ys) ps"
    by (auto simp: in_order_def)
  let ?ps = "ps @ [length ys - 1]"
  have "sorted ?ps" using ps(1,2) by (auto simp: sorted_append)
  moreover have "\<forall>p \<in> set ?ps. p < length ys" using ps(2) ne by auto
  moreover have "xs @ [last ys] = map ((!) ys) ?ps" using ps(3) ne by (simp add: last_conv_nth)
  ultimately show ?thesis unfolding in_order_def by blast
qed

text \<open>The operations still to be matched by a taken size: a stamp on its way, stored, or taken.\<close>

definition open_requests :: "resize_race \<Rightarrow> nat" where
  "open_requests s = of_bool (req s \<noteq> RIdle) + of_bool (last_update_ms (cell s) \<noteq> 0)
     + of_bool (tak s = TWon)"

definition race_inv :: "resize_race \<Rightarrow> bool" where
  "race_inv s \<longleftrightarrow>
     (requested s \<noteq> [] \<longrightarrow> unpack_size (pr_size (cell s)) = last (requested s)) \<and>
     (last_update_ms (cell s) \<noteq> 0 \<or> tak s \<noteq> TIdle \<or> req s \<noteq> RIdle \<longrightarrow> requested s \<noteq> []) \<and>
     (\<forall>ms. req s = RStored ms \<longrightarrow> ms \<noteq> 0) \<and>
     (\<forall>ms. tak s = TLoaded ms \<longrightarrow> ms \<noteq> 0) \<and>
     (last_update_ms (cell s) = 0 \<and> req s = RIdle \<and> tak s \<noteq> TWon \<and> requested s \<noteq> [] \<longrightarrow>
        taken s \<noteq> [] \<and> last (taken s) = last (requested s)) \<and>
     in_order (taken s) (requested s) \<and>
     length (taken s) + open_requests s \<le> length (requested s)"

lemma race_inv_step: "race_step s t \<Longrightarrow> race_inv s \<Longrightarrow> race_inv t"
proof (induction rule: race_step.induct)
  case (StoreSize s w h ms)
  then show ?case by (auto simp: race_inv_def open_requests_def in_order_longer)
next
  case (LoadSize s)
  then have "in_order (taken s @ [last (requested s)]) (requested s)"
    by (intro in_order_last) (auto simp: race_inv_def)
  with LoadSize show ?case by (auto simp: race_inv_def open_requests_def)
qed (auto simp: race_inv_def open_requests_def)

lemma race_inv_reachable: "race_step\<^sup>*\<^sup>* race_start s \<Longrightarrow> race_inv s"
proof (induction rule: rtranclp_induct)
  case base
  then show ?case by (simp add: race_inv_def race_start_def resize_new_def open_requests_def)
next
  case (step s t)
  then show ?case by (blast intro: race_inv_step)
qed

text \<open>
  C40. The live-resize request is sound under every interleaving of the two stores of a request with
  the load, exchange and load of a poll: the sizes the polls return occur among the requested ones
  in the order of the requests (each at a position no earlier than the one before), there are at
  most as many as requests, and whenever nothing is pending and neither thread is in the middle of
  its operation, the last size returned is the last one requested, so that no final resize is
  lost. (A size can be returned twice, and one overtaken by a later request is skipped.)
\<close>

theorem resize_race_sound:
  assumes "race_step\<^sup>*\<^sup>* race_start s"
  shows "(\<exists>ps. sorted ps \<and> (\<forall>p \<in> set ps. p < length (requested s)) \<and>
       taken s = map ((!) (requested s)) ps) \<and>
    set (taken s) \<subseteq> set (requested s) \<and> length (taken s) \<le> length (requested s) \<and>
    (\<not> has_pending (cell s) \<and> req s = RIdle \<and> tak s = TIdle \<and> requested s \<noteq> [] \<longrightarrow>
       taken s \<noteq> [] \<and> last (taken s) = last (requested s))"
proof -
  have inv: "race_inv s" using assms by (rule race_inv_reachable)
  then have ord: "in_order (taken s) (requested s)" by (simp add: race_inv_def)
  show ?thesis
    using inv in_order_set [OF ord] ord by (simp add: race_inv_def has_pending_def in_order_def)
qed

theorem resize_race_sound_witness:
  "\<exists>s. race_step\<^sup>*\<^sup>* race_start s \<and> taken s = [(1280, 720)] \<and> last (taken s) = last (requested s)"
proof -
  let ?s1 = "race_start\<lparr>cell := (cell race_start)\<lparr>pr_size := pack_size 1280 720\<rparr>,
    req := RStored (max 5 1), requested := requested race_start @ [(1280, 720)]\<rparr>"
  let ?s2 = "?s1\<lparr>cell := (cell ?s1)\<lparr>last_update_ms := 5\<rparr>, req := RIdle\<rparr>"
  let ?s3 = "?s2\<lparr>tak := TLoaded (last_update_ms (cell ?s2))\<rparr>"
  let ?s4 = "?s3\<lparr>cell := (cell ?s3)\<lparr>last_update_ms := 0\<rparr>, tak := TWon\<rparr>"
  let ?s5 = "?s4\<lparr>tak := TIdle, taken := taken ?s4 @ [unpack_size (pr_size (cell ?s4))]\<rparr>"
  have "race_step race_start ?s1" by (rule StoreSize) (simp add: race_start_def)
  moreover have "race_step ?s1 ?s2" by (rule StoreStamp) simp
  moreover have "race_step ?s2 ?s3" by (rule LoadStamp) (simp_all add: race_start_def)
  moreover have "race_step ?s3 ?s4" by (rule ExchangeOk [where ms = 5]) simp_all
  moreover have "race_step ?s4 ?s5" by (rule LoadSize) simp
  ultimately have r: "race_step\<^sup>*\<^sup>* race_start ?s5" by (meson rtranclp.rtrancl_into_rtrancl rtranclp.rtrancl_refl)
  have t: "taken ?s5 = [(1280, 720)]" "\<not> has_pending (cell ?s5)" "req ?s5 = RIdle" "tak ?s5 = TIdle"
    "requested ?s5 \<noteq> []"
    by (simp_all add: race_start_def has_pending_def)
  from resize_race_sound [OF r] t r show ?thesis by blast
qed

end
