(* ===== verification/Capture_Paint.thy ===== *)
theory Capture_Paint
  imports Capture_Loop Capture_Size_Props
begin

text \<open>
  The legacy bitmap path against what the client sees: painting the queued updates on the client's
  frame buffer puts exactly the captured pixels where the sample says the screen changed. The last
  section is about the overflow of the queue.
\<close>

section \<open>Painting\<close>

text \<open>A frame buffer gives the four bytes of each pixel.\<close>

type_synonym frame_buffer = "nat \<times> nat \<Rightarrow> bytes"

fun in_rect :: "rect \<Rightarrow> nat \<times> nat \<Rightarrow> bool" where
  "in_rect (x, y, w, h) (px, py) \<longleftrightarrow>
     unat x \<le> px \<and> px < unat x + unat w \<and> unat y \<le> py \<and> py < unat y + unat h"

definition pixel :: "bytes \<Rightarrow> nat \<Rightarrow> nat \<times> nat \<Rightarrow> bytes" where
  "pixel src stride p = take 4 (drop (snd p * stride + fst p * 4) src)"

fun paint :: "frame_buffer \<Rightarrow> display_update \<Rightarrow> frame_buffer" where
  "paint fb (BitmapUpdate x y w h data stride) =
     (\<lambda>p. if in_rect (x, y, w, h) p
          then pixel data stride (fst p - unat x, snd p - unat y) else fb p)"
| "paint fb _ = fb"

lemma copy_rows_length: "copy_rows src stride off rb n = Some data \<Longrightarrow> length data = n * rb"
  by (induction n arbitrary: off data) (auto split: if_splits)

lemma copy_rows_content:
  "copy_rows src stride off rb n = Some data \<Longrightarrow> i < n \<Longrightarrow> j + k \<le> rb \<Longrightarrow>
     take k (drop (i * rb + j) data) = take k (drop (off + i * stride + j) src)"
proof (induction n arbitrary: off data i)
  case 0
  then show ?case by simp
next
  case (Suc n)
  then obtain rest where rest: "copy_rows src stride (off + stride) rb n = Some rest"
      and data: "data = take rb (drop off src) @ rest" and fits: "off + rb \<le> length src"
    by (auto split: if_splits)
  have len: "length (take rb (drop off src)) = rb" using fits by simp
  show ?case
  proof (cases i)
    case 0
    have "take k (drop j (take rb (drop off src) @ rest)) = take k (drop j (take rb (drop off src)))"
      using Suc.prems(3) len by simp
    also have "\<dots> = take k (drop (off + j) src)"
      using Suc.prems(3) by (simp add: drop_take min_def add.commute)
    finally show ?thesis by (simp add: 0 data)
  next
    case (Suc m)
    have "drop (i * rb + j) data = drop (m * rb + j) rest"
      using len by (simp add: data Suc)
    moreover have "take k (drop (m * rb + j) rest) = take k (drop (off + stride + m * stride + j) src)"
      using Suc.prems(2,3) Suc by (intro Suc.IH [OF rest]) auto
    ultimately show ?thesis by (simp add: Suc algebra_simps)
  qed
qed

lemma copy_rows_defined:
  "\<forall>i < n. off + i * stride + rb \<le> length src \<Longrightarrow> copy_rows src stride off rb n \<noteq> None"
proof (induction n arbitrary: off)
  case 0
  then show ?case by simp
next
  case (Suc n)
  have "off + rb \<le> length src" using Suc.prems by (auto dest: spec [of _ 0])
  moreover have "\<forall>i < n. off + stride + i * stride + rb \<le> length src"
    using Suc.prems by (auto simp: algebra_simps dest: spec [of _ "Suc _"])
  then have "copy_rows src stride (off + stride) rb n \<noteq> None" by (rule Suc.IH)
  ultimately show ?case by simp
qed

lemma rect_update_paint:
  assumes "rect_update src stride r = Some us"
  shows "foldl paint fb us = (\<lambda>p. if in_rect r p then pixel src stride p else fb p)"
proof -
  obtain x y w h where r: "r = (x, y, w, h)" by (cases r)
  show ?thesis
  proof (cases "w = 0 \<or> h = 0")
    case True
    then have "\<not> in_rect r p" for p by (cases p) (auto simp: r)
    moreover have "us = []" using True assms by (simp add: rect_update_def r split: if_splits)
    ultimately show ?thesis by simp
  next
    case False
    with assms obtain data where
      data: "copy_rows src stride (unat y * stride + unat x * 4) (unat w * 4) (unat h) = Some data"
      and us: "us = [BitmapUpdate x y w h data (unat w * 4)]"
      by (auto simp: rect_update_def r)
    have "pixel data (unat w * 4) (px - unat x, py - unat y) = pixel src stride (px, py)"
      if "in_rect r (px, py)" for px py
    proof -
      define i j where "i = py - unat y" and "j = px - unat x"
      have ij: "i < unat h" "j < unat w" "py = unat y + i" "px = unat x + j"
        using that by (auto simp: r i_def j_def)
      have "take 4 (drop (i * (unat w * 4) + j * 4) data)
        = take 4 (drop (unat y * stride + unat x * 4 + i * stride + j * 4) src)"
        using ij by (intro copy_rows_content [OF data]) auto
      then show ?thesis by (simp add: pixel_def ij algebra_simps)
    qed
    then show ?thesis by (auto simp: us r fun_eq_iff)
  qed
qed

lemma rect_updates_paint:
  "rect_updates src stride rs = Some us \<Longrightarrow>
     foldl paint fb us = (\<lambda>p. if \<exists>r \<in> set rs. in_rect r p then pixel src stride p else fb p)"
proof (induction rs arbitrary: us fb)
  case Nil
  then show ?case by simp
next
  case (Cons r rs)
  then obtain u v where "rect_update src stride r = Some u" "rect_updates src stride rs = Some v"
      "us = u @ v"
    by (auto split: bind_splits)
  with Cons.IH [of v] rect_update_paint [of src stride r u fb] show ?case
    by (auto simp: fun_eq_iff)
qed

section \<open>Rectangles of a sample\<close>

definition inside :: "nat \<Rightarrow> nat \<Rightarrow> rect \<Rightarrow> bool" where
  "inside W H r \<longleftrightarrow> (case r of (x, y, w, h) \<Rightarrow> unat x + unat w \<le> W \<and> unat y + unat h \<le> H)"

lemma unat_of_nat_u16: "n \<le> U16_MAX \<Longrightarrow> unat (of_nat n :: u16) = n"
  by (simp add: unat_of_nat take_bit_nat_eq_self)

lemma clip_rect_inside:
  assumes "clip_rect W H r = Some c" and "W \<le> U16_MAX" and "H \<le> U16_MAX"
  shows "inside W H c"
proof -
  obtain rx ry rw rh where r: "r = (rx, ry, rw, rh)" by (cases r)
  define x y w h where "x = min (round_u32 rx) W" and "y = min (round_u32 ry) H"
    and "w = min (round_u32 rw) (W - x)" and "h = min (round_u32 rh) (H - y)"
  have b: "x \<le> W" "y \<le> H" "x + w \<le> W" "y + h \<le> H" by (auto simp: x_def y_def w_def h_def)
  have "c = (of_nat x, of_nat y, of_nat w, of_nat h)"
    using assms(1) by (auto simp: clip_rect_def r Let_def x_def y_def w_def h_def split: if_splits)
  with b assms(2,3) show ?thesis by (simp add: inside_def unat_of_nat_u16)
qed

lemma in_map_filter: "y \<in> set (List.map_filter f xs) \<longleftrightarrow> (\<exists>x \<in> set xs. f x = Some y)"
  by (force simp: List.map_filter_def)

lemma dirty_rects_cases:
  "dirty_rects u smp W H = [(0, 0, of_nat W, of_nat H)]
   \<or> (\<exists>l. dirty_rects u smp W H = List.map_filter (clip_rect W H) l)"
  by (auto simp: dirty_rects_def Let_def simp del: map_filter_simps split: option.splits list.splits)

lemma dirty_rects_inside:
  assumes "W \<le> U16_MAX" and "H \<le> U16_MAX"
  shows "\<forall>r \<in> set (dirty_rects u smp W H). inside W H r"
proof -
  have "inside W H (0, 0, of_nat W, of_nat H)" using assms by (simp add: inside_def unat_of_nat_u16)
  moreover have "\<forall>r \<in> set (List.map_filter (clip_rect W H) l). inside W H r" for l
    unfolding in_map_filter Ball_def using clip_rect_inside [OF _ assms] by blast
  ultimately show ?thesis using dirty_rects_cases [of u smp W H] by auto
qed

lemma strips_in_rect:
  assumes "unat y + unat h < 65536"
  shows "(\<exists>r \<in> set (split_strips x y w h). in_rect r p) \<longleftrightarrow> in_rect (x, y, w, h) p"
proof (cases "w = 0")
  case True
  then show ?thesis by (cases p) (auto simp: split_strips_def)
next
  case False
  obtain px py where p: "p = (px, py)" by (cases p)
  let ?S = "split_strips x y w h"
  have fits: "\<forall>r \<in> set ?S. fst r = x \<and> fst (snd (snd r)) = w"
    and rows: "set (concat (map rows_of ?S)) = {unat y ..< unat y + unat h}"
    using split_strips_lemma [OF assms, of x w] False by (auto simp del: set_concat)
  have "in_rect r p \<longleftrightarrow> unat x \<le> px \<and> px < unat x + unat w \<and> py \<in> set (rows_of r)"
    if "r \<in> set ?S" for r
    using fits that by (cases r) (auto simp: p)
  then have "(\<exists>r \<in> set ?S. in_rect r p) \<longleftrightarrow>
      unat x \<le> px \<and> px < unat x + unat w \<and> py \<in> set (concat (map rows_of ?S))"
    by auto
  then show ?thesis unfolding rows by (auto simp: p)
qed

lemma strips_of_in_rect:
  assumes "\<forall>r \<in> set rs. inside W H r" and "H \<le> U16_MAX"
  shows "(\<exists>r \<in> set (strips_of rs). in_rect r p) \<longleftrightarrow> (\<exists>r \<in> set rs. in_rect r p)"
proof -
  have "(\<exists>r \<in> set (case q of (x, y, w, h) \<Rightarrow> split_strips x y w h). in_rect r p) \<longleftrightarrow> in_rect q p"
    if "q \<in> set rs" for q
    using assms that by (cases q) (auto simp: inside_def intro!: strips_in_rect)
  then show ?thesis by (simp add: strips_of_def)
qed

lemma strip_inside:
  assumes "r \<in> set (split_strips x y w h)" and "inside W H (x, y, w, h)" and "H \<le> U16_MAX"
  shows "inside W H r"
proof -
  obtain sy sh where r: "r = (x, sy, w, sh)" "0 < sh" "w \<noteq> 0"
    using split_strips_lemma [of y h x w] assms by (cases r) (fastforce simp: inside_def)
  have rows: "set (concat (map rows_of (split_strips x y w h))) = {unat y ..< unat y + unat h}"
    using split_strips_lemma [of y h x w] assms(2,3) r(3) by (auto simp: inside_def simp del: set_concat)
  have "unat sy + unat sh - 1 \<in> set (rows_of r)"
    using r(2) by (simp add: r word_less_nat_alt)
  then have "unat sy + unat sh - 1 \<in> {unat y ..< unat y + unat h}"
    unfolding rows [symmetric] using assms(1) by auto
  then show ?thesis using assms(2) r(2) by (auto simp: r inside_def word_less_nat_alt)
qed

lemma strips_of_inside:
  assumes "\<forall>r \<in> set rs. inside W H r" and "H \<le> U16_MAX"
  shows "\<forall>r \<in> set (strips_of rs). inside W H r"
  using assms by (auto simp: strips_of_def dest!: strip_inside)

section \<open>The buffer of a sample\<close>

definition buffer_ok :: "nat \<Rightarrow> nat \<Rightarrow> nat \<Rightarrow> bytes \<Rightarrow> bool" where
  "buffer_ok W H stride src \<longleftrightarrow>
     W \<le> U16_MAX \<and> H \<le> U16_MAX \<and> 4 * W \<le> stride \<and> H * stride \<le> length src"

lemma rect_update_defined:
  assumes "buffer_ok W H stride src" and "inside W H r"
  shows "rect_update src stride r \<noteq> None"
proof -
  obtain x y w h where r: "r = (x, y, w, h)" by (cases r)
  have "unat y * stride + unat x * 4 + i * stride + unat w * 4 \<le> length src" if "i < unat h" for i
  proof -
    have "(unat y + i + 1) * stride \<le> H * stride"
      using that assms(2) by (intro mult_le_mono1) (simp add: inside_def r)
    moreover have "unat x * 4 + unat w * 4 \<le> stride"
      using assms by (simp add: buffer_ok_def inside_def r)
    ultimately show ?thesis using assms(1) by (simp add: buffer_ok_def algebra_simps)
  qed
  then have "copy_rows src stride (unat y * stride + unat x * 4) (unat w * 4) (unat h) \<noteq> None"
    by (intro copy_rows_defined) blast
  then show ?thesis by (auto simp: rect_update_def r)
qed

lemma rect_updates_defined:
  "buffer_ok W H stride src \<Longrightarrow> \<forall>r \<in> set rs. inside W H r \<Longrightarrow> \<exists>us. rect_updates src stride rs = Some us"
  by (induction rs) (auto dest: rect_update_defined)

lemma rect_updates_length: "rect_updates src stride rs = Some us \<Longrightarrow> length us \<le> length rs"
  by (induction rs arbitrary: us)
    (auto simp: rect_update_def Let_def split: bind_splits if_splits prod.splits)

text \<open>
  The legacy bitmap path never panics on a pixel buffer whose stride and length fit its
  dimensions, and it is exact. Unless the queue overflows, painting the updates of the queue on any
  frame buffer gives the captured pixel at every point inside one of the (clipped) dirty
  rectangles of the sample, or everywhere when the frame is sent in full, and leaves every other
  point as it was; the queue then stays within its limit. On an overflow nothing is queued and the
  next sample is marked to be sent in full, unless this one was sent in full for such a mark.
\<close>

theorem legacy_updates_exact:
  assumes "buffer_ok W H stride src" and "pending_updates (updates s) = []"
  shows "\<exists>s' calls. legacy_path smp W H stride src s = Some (s', calls) \<and>
    (if calls = []
     then length (pending_updates (updates s')) \<le> pending_limit (updates s') \<and>
       \<not> (resync_full_frame (updates s) \<and> resync_full_frame (updates s')) \<and>
       (\<forall>fb. foldl paint fb (pending_updates (updates s')) =
          (\<lambda>p. if \<exists>r \<in> set (dirty_rects (updates s) smp W H). in_rect r p
               then pixel src stride p else fb p))
     else pending_updates (updates s') = [] \<and>
       resync_full_frame (updates s') = (\<not> resync_full_frame (updates s)))"
proof -
  let ?rs = "dirty_rects (updates s) smp W H"
  have WH: "W \<le> U16_MAX" "H \<le> U16_MAX" using assms(1) by (auto simp: buffer_ok_def)
  have inside: "\<forall>r \<in> set ?rs. inside W H r" by (rule dirty_rects_inside [OF WH])
  obtain ups where ups: "rect_updates src stride (strips_of ?rs) = Some ups"
    using rect_updates_defined [OF assms(1) strips_of_inside [OF inside WH(2)]] by blast
  have paint: "foldl paint fb ups = (\<lambda>p. if \<exists>r \<in> set ?rs. in_rect r p then pixel src stride p else fb p)"
    for fb
    unfolding rect_updates_paint [OF ups] strips_of_in_rect [OF inside WH(2)] ..
  show ?thesis
  proof (cases "pending_limit (updates s) < length ups")
    case True
    with ups assms(2) show ?thesis
      by (simp add: legacy_path_def Let_def settle_queue_def)
  next
    case False
    with ups assms(2) paint show ?thesis
      by (simp add: legacy_path_def Let_def settle_queue_def not_less)
  qed
qed

definition sample_updates :: capture_updates where
  "sample_updates = start_updates (\<lambda>_. None) 0
     \<lparr>arg_native = (2, 2), arg_backing = None, arg_fps = 60, arg_stretch = False,
      arg_kfc = \<lparr>kfc_enabled = False, change_pct = 40, click_pct = 10, click_window = 0\<rparr>,
      arg_flush_frames = 4\<rparr> (2, 2)
     \<lparr>desktop_size = desktop_new 2 2, auto_size = True, max_client_size = None, pending = resize_new,
      suppress_next_adopt = False, virtual_display = None, screen_size_pts = (2, 2),
      session_tracker = False, captured_primary = False, shielded_primary = False\<rparr> 0"

definition sample_loop :: capture_loop where
  "sample_loop = \<lparr>updates = sample_updates,
     display = \<lparr>desktop_size = desktop_new 2 2, auto_size = True, max_client_size = None,
       pending = resize_new, suppress_next_adopt = False, virtual_display = None,
       screen_size_pts = (2, 2), session_tracker = False, captured_primary = False,
       shielded_primary = False\<rparr>,
     sink = None, stats = None, resync_video = False\<rparr>"

lemma sample_updates_fields:
  "pending_updates sample_updates = []" "pending_limit sample_updates = 32"
  "seeded sample_updates = False" "resync_full_frame sample_updates = False"
  by (simp_all add: sample_updates_def start_updates_def pending_limit_from_env_def env_parse_def
      opt_filter_def or_default_def)

theorem legacy_updates_exact_witness:
  "\<exists>s' calls. legacy_path
     \<lparr>smp_status = None, smp_image = NoImage, smp_dirty = None, smp_pts = None, smp_age_ms = None\<rparr>
     1 2 4 [1, 2, 3, 4, 5, 6, 7, 8] sample_loop = Some (s', calls) \<and> calls = []
   \<and> pending_updates (updates s') = [BitmapUpdate 0 0 1 2 [1, 2, 3, 4, 5, 6, 7, 8] 4]
   \<and> foldl paint (\<lambda>_. []) (pending_updates (updates s')) (0, 1) = [5, 6, 7, 8]"
proof -
  let ?smp = "\<lparr>smp_status = None, smp_image = NoImage, smp_dirty = None, smp_pts = None, smp_age_ms = None\<rparr>"
  let ?src = "[1, 2, 3, 4, 5, 6, 7, 8] :: bytes"
  have ok: "buffer_ok 1 2 4 ?src" by (simp add: buffer_ok_def)
  have nil: "pending_updates (updates sample_loop) = []"
    by (simp add: sample_loop_def sample_updates_fields)
  have rs: "dirty_rects (updates sample_loop) ?smp 1 2 = [(0, 0, 1, 2)]"
    by (simp add: dirty_rects_def sample_loop_def sample_updates_fields)
  have rows: "copy_rows ?src 4 0 4 2 = Some ?src" by (simp add: numeral_2_eq_2)
  have eq: "legacy_path ?smp 1 2 4 ?src sample_loop = Some (s', calls) \<Longrightarrow> calls = []
      \<and> pending_updates (updates s') = [BitmapUpdate 0 0 1 2 ?src 4]" for s' calls
    unfolding legacy_path_def Let_def rs
    by (auto simp: strips_of_def split_strips_def MAX_BITMAP_UPDATE_PIXELS_def rect_update_def
        rows sample_loop_def sample_updates_fields settle_queue_def)
  from legacy_updates_exact [OF ok nil, of ?smp, unfolded rs] obtain s' calls where
    s': "legacy_path ?smp 1 2 4 ?src sample_loop = Some (s', calls)"
    and res: "calls = [] \<Longrightarrow> foldl paint (\<lambda>_. []) (pending_updates (updates s')) =
          (\<lambda>p. if \<exists>r \<in> set [(0, 0, 1, 2)]. in_rect r p then pixel ?src 4 p else [])"
    by (auto split: if_splits)
  have "foldl paint (\<lambda>_. []) (pending_updates (updates s')) (0, 1) = [5, 6, 7, 8]"
    using res eq [OF s'] by (simp add: pixel_def)
  with eq [OF s'] s' show ?thesis by blast
qed

section \<open>A frame that never fits the queue\<close>

text \<open>
  When the full frame has more strips than the queue may hold, the sample sent in full overflows the
  queue as well, and clears the mark it was sent for with nothing queued: 36 strips at 7680 by 4320
  with the default limit of 32.
\<close>

lemma resync_lost_on_overflow:
  assumes "rect_updates src stride (strips_of [(0, 0, of_nat W, of_nat H)]) = Some ups"
    and "pending_limit (updates s) < length ups" and "resync_full_frame (updates s)"
    and "pending_updates (updates s) = []"
  shows "\<exists>s' calls. legacy_path smp W H stride src s = Some (s', calls) \<and>
    pending_updates (updates s') = [] \<and> \<not> resync_full_frame (updates s')"
proof -
  have "dirty_rects (updates s) smp W H = [(0, 0, of_nat W, of_nat H)]"
    using assms(3) by (simp add: dirty_rects_def)
  with assms show ?thesis by (simp add: legacy_path_def Let_def settle_queue_def)
qed

lemma oversized_frame_8k: "length (strips_of [(0, 0, 7680, 4320)]) = 36"
  by (simp add: strips_of_def split_strips_def MAX_BITMAP_UPDATE_PIXELS_def strip_rows_def
      strips_from.simps)

end
