(* ===== verification/Capture_Props.thy ===== *)
theory Capture_Props
  imports Capture_Paint Egfx_Props
begin

text \<open>
  What the capture loop promises over whole runs among the other threads: a resize it emits is the
  settled request and survives the client's echo, the keyframes forced by typing are bounded, and
  the first frame after a minimised client comes back is a keyframe.
\<close>

section \<open>One pass, by where it ends\<close>

lemma loop_pass_cases [consumes 1, case_names reactivate resize cursor queued asleep waited]:
  assumes "loop_pass c t s = (v, s', calls)"
  obtains
    p where "poll_reactivate s = (Emit p, s')" "v = Emit p" "calls = []"
  | s1 v1 p where "poll_reactivate s = (v1, s1)" "\<not> (\<exists>q. v1 = Emit q)"
      "poll_resize t s1 = (Emit p, s')" "v = Emit p" "calls = []"
  | s1 s2 v1 v2 u p where "poll_reactivate s = (v1, s1)" "\<not> (\<exists>q. v1 = Emit q)"
      "poll_resize t s1 = (v2, s2)" "\<not> (\<exists>q. v2 = Emit q)"
      "poll_cursor t (updates s2) = (Emit p, u)" "s' = s2\<lparr>updates := u\<rparr>" "v = Emit p" "calls = []"
  | s1 s2 v1 v2 v3 u p where "poll_reactivate s = (v1, s1)" "\<not> (\<exists>q. v1 = Emit q)"
      "poll_resize t s1 = (v2, s2)" "\<not> (\<exists>q. v2 = Emit q)"
      "poll_cursor t (updates s2) = (v3, u)" "\<not> (\<exists>q. v3 = Emit q)"
      "pop_pending (s2\<lparr>updates := u\<rparr>) = (Emit p, s')" "v = Emit p" "calls = []"
  | s1 s2 s3 v1 v2 v3 v4 u where "poll_reactivate s = (v1, s1)" "\<not> (\<exists>q. v1 = Emit q)"
      "poll_resize t s1 = (v2, s2)" "\<not> (\<exists>q. v2 = Emit q)"
      "poll_cursor t (updates s2) = (v3, u)" "\<not> (\<exists>q. v3 = Emit q)"
      "pop_pending (s2\<lparr>updates := u\<rparr>) = (v4, s3)" "\<not> (\<exists>q. v4 = Emit q)"
      "observe_and_gate c t s3 = (True, s')" "v = Again" "calls = []"
  | s1 s2 s3 s4 v1 v2 v3 v4 u where "poll_reactivate s = (v1, s1)" "\<not> (\<exists>q. v1 = Emit q)"
      "poll_resize t s1 = (v2, s2)" "\<not> (\<exists>q. v2 = Emit q)"
      "poll_cursor t (updates s2) = (v3, u)" "\<not> (\<exists>q. v3 = Emit q)"
      "pop_pending (s2\<lparr>updates := u\<rparr>) = (v4, s3)" "\<not> (\<exists>q. v4 = Emit q)"
      "observe_and_gate c t s3 = (False, s4)" "wait_sample c t s4 = (v, s', calls)"
proof -
  obtain v1 s1 where p1: "poll_reactivate s = (v1, s1)" by (cases "poll_reactivate s")
  obtain v2 s2 where p2: "poll_resize t s1 = (v2, s2)" by (cases "poll_resize t s1")
  obtain v3 u where p3: "poll_cursor t (updates s2) = (v3, u)" by (cases "poll_cursor t (updates s2)")
  obtain v4 s3 where p4: "pop_pending (s2\<lparr>updates := u\<rparr>) = (v4, s3)"
    by (cases "pop_pending (s2\<lparr>updates := u\<rparr>)")
  obtain asleep s4 where p5: "observe_and_gate c t s3 = (asleep, s4)"
    by (cases "observe_and_gate c t s3")
  note pass = assms [unfolded loop_pass_def p1]
  show thesis
  proof (cases "\<exists>p. v1 = Emit p")
    case True
    with pass p1 that(1) show thesis by auto
  next
    case n1: False
    then have pass1: "(case poll_resize t s1 of
           (Emit p, s) \<Rightarrow> (Emit p, s, [])
         | (_, s) \<Rightarrow>
           (case poll_cursor t (updates s) of
              (Emit p, u) \<Rightarrow> (Emit p, s\<lparr>updates := u\<rparr>, [])
            | (_, u) \<Rightarrow>
              (case pop_pending (s\<lparr>updates := u\<rparr>) of
                 (Emit p, s) \<Rightarrow> (Emit p, s, [])
               | (_, s) \<Rightarrow>
                   let (asleep, s) = observe_and_gate c t s
                   in if asleep then (Again, s, []) else wait_sample c t s))) = (v, s', calls)"
      using pass by (cases v1) auto
    show thesis
    proof (cases "\<exists>p. v2 = Emit p")
      case True
      with pass1 p1 p2 n1 that(2) show thesis by auto
    next
      case n2: False
      then have pass2: "(case poll_cursor t (updates s2) of
              (Emit p, u) \<Rightarrow> (Emit p, s2\<lparr>updates := u\<rparr>, [])
            | (_, u) \<Rightarrow>
              (case pop_pending (s2\<lparr>updates := u\<rparr>) of
                 (Emit p, s) \<Rightarrow> (Emit p, s, [])
               | (_, s) \<Rightarrow>
                   let (asleep, s) = observe_and_gate c t s
                   in if asleep then (Again, s, []) else wait_sample c t s)) = (v, s', calls)"
        using pass1 p2 by (cases v2) auto
      show thesis
      proof (cases "\<exists>p. v3 = Emit p")
        case True
        with pass2 p3 that(3) [OF p1 n1 p2 n2] show thesis by auto
      next
        case n3: False
        then have pass3: "(case pop_pending (s2\<lparr>updates := u\<rparr>) of
                 (Emit p, s) \<Rightarrow> (Emit p, s, [])
               | (_, s) \<Rightarrow>
                   let (asleep, s) = observe_and_gate c t s
                   in if asleep then (Again, s, []) else wait_sample c t s) = (v, s', calls)"
          using pass2 p3 by (cases v3) auto
        show thesis
        proof (cases "\<exists>p. v4 = Emit p")
          case True
          with pass3 p4 that(4) [OF p1 n1 p2 n2 p3 n3] show thesis by auto
        next
          case n4: False
          then have pass4: "(if asleep then (Again, s4, []) else wait_sample c t s4) = (v, s', calls)"
            using pass3 p4 p5 by (cases v4) auto
          with that(5,6) [OF p1 n1 p2 n2 p3 n3 p4 n4] p5 show thesis by (cases asleep) auto
        qed
      qed
    qed
  qed
qed

text \<open>What the parts of a pass leave alone.\<close>

lemma poll_reactivate_keeps:
  assumes "poll_reactivate s = (v, s')"
  shows "updates s' = updates s" and "pending (display s') = pending (display s)"
    and "desktop_size (display s') = desktop_size (display s)"
    and "\<not> (\<exists>q. v = Emit q) \<Longrightarrow> display s' = display s"
  using assms by (auto simp: poll_reactivate_def Let_def split: option.splits prod.splits)

lemma poll_resize_keeps:
  assumes "poll_resize t s = (v, s')"
  shows "updates s' = updates s" and "\<not> (\<exists>q. v = Emit q) \<Longrightarrow> sink s' = sink s"
  using assms by (auto simp: poll_resize_def Let_def split: option.splits prod.splits)

lemma poll_cursor_keeps:
  assumes "poll_cursor t u = (v, u')"
  shows "keyboard u' = keyboard u" and "was_suppressed u' = was_suppressed u"
    and "\<not> (\<exists>q. v = Emit q) \<Longrightarrow> pending_updates u' = pending_updates u"
  using assms by (auto simp: poll_cursor_def Let_def split: option.splits list.splits if_splits)

lemma pop_pending_keeps:
  assumes "pop_pending s = (v, s')"
  shows "display s' = display s" and "sink s' = sink s"
    and "keyboard (updates s') = keyboard (updates s)"
    and "was_suppressed (updates s') = was_suppressed (updates s)"
    and "\<not> (\<exists>q. v = Emit q) \<Longrightarrow> s' = s"
  using assms by (auto simp: pop_pending_def Let_def split: list.splits)

lemma idle_tick_keeps:
  assumes "idle_tick c t s = (s', calls)"
  shows "pending_updates (updates s') = pending_updates (updates s)" and "display s' = display s"
    and "was_suppressed (updates s') = was_suppressed (updates s)"
  using assms
  by (auto simp: idle_tick_def Let_def split: option.splits prod.splits if_splits)

lemma egfx_path_keeps:
  assumes "egfx_path c t smp W H stride src s = (tk, s', calls)"
  shows "pending_updates (updates s') = pending_updates (updates s)" and "display s' = display s"
  using assms
  by (auto simp: egfx_path_def submitted_frame_def Let_def split: option.splits prod.splits if_splits)

lemma legacy_path_keeps:
  assumes "legacy_path smp W H stride src s = Some (s', calls)"
  shows "display s' = display s" and "sink s' = sink s"
    and "keyboard (updates s') = keyboard (updates s)"
    and "was_suppressed (updates s') = was_suppressed (updates s)"
  using assms
  by (auto simp: legacy_path_def settle_queue_def Let_def split: option.splits prod.splits if_splits)

section \<open>The queue carries no resize\<close>

fun is_resize :: "display_update \<Rightarrow> bool" where
  "is_resize (ResizeUpdate w h) \<longleftrightarrow> True"
| "is_resize _ \<longleftrightarrow> False"

definition queue_ok :: "capture_loop \<Rightarrow> bool" where
  "queue_ok s \<longleftrightarrow> (\<forall>p \<in> set (pending_updates (updates s)). \<not> is_resize p)"

lemma rect_updates_no_resize:
  "rect_updates src stride rs = Some us \<Longrightarrow> p \<in> set us \<Longrightarrow> \<not> is_resize p"
  by (induction rs arbitrary: us)
    (fastforce simp: rect_update_def Let_def split: bind_splits if_splits prod.splits)+

lemma legacy_path_queue:
  "legacy_path smp W H stride src s = Some (s', calls) \<Longrightarrow> queue_ok s \<Longrightarrow> queue_ok s'"
  by (auto simp: legacy_path_def settle_queue_def queue_ok_def Let_def
      dest: rect_updates_no_resize split: option.splits prod.splits if_splits)

lemma on_sample_cases [consumes 1, case_names skipped encoded copied panicked]:
  assumes "on_sample c t smp s = (v, s', calls)"
  obtains
    "updates s' = updates s" "display s' = display s" "sink s' = sink s" "calls = []"
      "\<not> (\<exists>p. v = Emit p)"
  | W H stride src s0 where "updates s0 = updates s" "display s0 = display s" "sink s0 = sink s"
      "egfx_path c t smp W H stride src s0 = (True, s', calls)" "v = Again"
  | W H stride src s0 s1 calls1 calls2 where
      "updates s0 = updates s" "display s0 = display s" "sink s0 = sink s"
      "egfx_path c t smp W H stride src s0 = (False, s1, calls1)"
      "legacy_path smp W H stride src s1 = Some (s', calls2)" "calls = calls1 @ calls2" "v = Again"
  | W H stride src s0 where "updates s0 = updates s" "display s0 = display s" "sink s0 = sink s"
      "egfx_path c t smp W H stride src s0 = (False, s', calls)" "\<not> (\<exists>p. v = Emit p)"
proof (cases "smp_status smp = Some False")
  case True
  with assms show thesis by (intro that(1)) (auto simp: on_sample_def Let_def)
next
  case ready: False
  show thesis
  proof (cases "smp_image smp")
    case NoImage
    with assms ready show thesis by (intro that(1)) (auto simp: on_sample_def Let_def)
  next
    case LockFailed
    with assms ready show thesis by (intro that(1)) (auto simp: on_sample_def Let_def)
  next
    case (Locked W H stride src)
    show thesis
    proof (cases "U16_MAX < W \<or> U16_MAX < H")
      case True
      with assms ready Locked show thesis
        by (intro that(1)) (auto simp: on_sample_def Let_def split: if_splits)
    next
      case fits: False
      define s0 where "s0 = s\<lparr>stats := map_option (note_age smp \<circ> note_clock smp)
        (map_option (\<lambda>st. st\<lparr>capture_buffered := t_buffered t\<rparr>) (stats s))\<rparr>"
      have same: "updates s0 = updates s" "display s0 = display s" "sink s0 = sink s"
        by (simp_all add: s0_def)
      obtain tk s1 calls1 where e: "egfx_path c t smp W H stride src s0 = (tk, s1, calls1)"
        by (cases "egfx_path c t smp W H stride src s0") auto
      have r: "(if tk then (Again, s1, calls1)
            else case legacy_path smp W H stride src s1 of
                   None \<Rightarrow> (Failed ''slice index out of range'', s1, calls1)
                 | Some (s, calls') \<Rightarrow> (Again, s, calls1 @ calls')) = (v, s', calls)"
        using assms ready Locked fits e by (simp add: on_sample_def Let_def s0_def)
      show thesis
      proof (cases tk)
        case True
        with r e show thesis by (intro that(2) [OF same]) auto
      next
        case False
        show thesis
        proof (cases "legacy_path smp W H stride src s1")
          case None
          with r e False show thesis by (intro that(4) [OF same]) auto
        next
          case (Some sc)
          with r e False show thesis by (cases sc) (intro that(3) [OF same], auto)
        qed
      qed
    qed
  qed
qed

lemma queue_ok_cong:
  "pending_updates (updates s') = pending_updates (updates s) \<Longrightarrow> queue_ok s' = queue_ok s"
  by (simp add: queue_ok_def)

lemma on_sample_queue:
  assumes "on_sample c t smp s = (v, s', calls)" and "queue_ok s"
  shows "queue_ok s'"
  using assms
proof (cases rule: on_sample_cases)
  case skipped
  with assms(2) show ?thesis by (simp add: queue_ok_def)
next
  case encoded
  with assms(2) show ?thesis by (metis queue_ok_cong egfx_path_keeps(1))
next
  case copied
  with assms(2) show ?thesis by (metis queue_ok_cong egfx_path_keeps(1) legacy_path_queue)
next
  case panicked
  with assms(2) show ?thesis by (metis queue_ok_cong egfx_path_keeps(1))
qed

lemma on_sample_display:
  "on_sample c t smp s = (v, s', calls) \<Longrightarrow> display s' = display s \<and> \<not> (\<exists>p. v = Emit p)"
  by (erule on_sample_cases; (drule egfx_path_keeps(2))?; (drule legacy_path_keeps(1))?; simp)

lemma wait_sample_keeps:
  assumes "wait_sample c t s = (v, s', calls)"
  shows "display s' = display s" and "\<not> (\<exists>p. v = Emit p)" and "queue_ok s \<Longrightarrow> queue_ok s'"
proof -
  have "display s' = display s \<and> \<not> (\<exists>p. v = Emit p) \<and> (queue_ok s \<longrightarrow> queue_ok s')"
  proof (cases "t_stream t")
    case (Sample smp)
    with assms have "on_sample c t smp s = (v, s', calls)" by (simp add: wait_sample_def)
    then show ?thesis using on_sample_display on_sample_queue by blast
  next
    case Timeout
    then show ?thesis using assms
      by (auto simp: wait_sample_def queue_ok_def dest: idle_tick_keeps split: prod.splits if_splits)
  next
    case StreamEnded
    then show ?thesis using assms by (auto simp: wait_sample_def)
  qed
  then show "display s' = display s" "\<not> (\<exists>p. v = Emit p)" "queue_ok s \<Longrightarrow> queue_ok s'" by auto
qed

section \<open>Live resize\<close>

lemma take_settled_None: "take_settled d e p = (None, p') \<Longrightarrow> p' = p"
  by (auto simp: take_settled_def split: if_splits)

lemma poll_resize_Again: "poll_resize t s = (v, s') \<Longrightarrow> \<not> (\<exists>q. v = Emit q) \<Longrightarrow> s' = s"
  by (auto simp: poll_resize_def Let_def split: option.splits prod.splits dest: take_settled_None)

lemma observe_and_gate_keeps:
  assumes "observe_and_gate c t s = (asleep, s')"
  shows "display s' = display s" and "sink s' = sink s" and "queue_ok s' = queue_ok s"
  using assms
  by (auto simp: observe_and_gate_def suppress_gate_def queue_ok_def Let_def
      split: prod.splits if_splits option.splits bool.splits)

text \<open>The settled request a pass emits, read off the shared cell.\<close>

definition settled_emit :: "tick \<Rightarrow> capture_loop \<Rightarrow> display_update \<Rightarrow> bool" where
  "settled_emit t s p \<longleftrightarrow>
     has_pending (pending (display s))
     \<and> 400 \<le> as_millis (t_elapsed t) - last_update_ms (pending (display s))
     \<and> (let wh = unpack_size (pr_size (pending (display s)))
        in p = ResizeUpdate (unat (fst wh)) (unat (snd wh)))"

definition pipeline_emit :: "capture_loop \<Rightarrow> display_update \<Rightarrow> bool" where
  "pipeline_emit s p \<longleftrightarrow>
     (case sink s of None \<Rightarrow> False
      | Some g \<Rightarrow> (case take_reactivate_request g of
          (Some (w, h), _) \<Rightarrow> p = ResizeUpdate w h | (None, _) \<Rightarrow> False))"

lemma poll_reactivate_emit:
  assumes "poll_reactivate s = (Emit p, s')"
  shows "pipeline_emit s p \<and> display s' = (display s)\<lparr>suppress_next_adopt := True\<rparr>"
  using assms
  by (auto simp: poll_reactivate_def pipeline_emit_def take_reactivate_request_def force_keyframe_def
      Let_def split: option.splits prod.splits if_splits)

lemma poll_reactivate_none:
  assumes "poll_reactivate s = (v, s')" and "\<not> (\<exists>q. v = Emit q)"
  shows "display s' = display s" and "updates s' = updates s"
    and "sink s = None \<longleftrightarrow> sink s' = None"
  using assms
  by (auto simp: poll_reactivate_def Let_def split: option.splits prod.splits)

definition resize_applied :: "capture_display \<Rightarrow> capture_display \<Rightarrow> bool" where
  "resize_applied d d' \<longleftrightarrow>
     display_size d' = unpack_size (pr_size (pending d)) \<and> \<not> has_pending (pending d')"

lemma poll_resize_emit:
  assumes "poll_resize t s = (Emit p, s')"
  shows "settled_emit t s p \<and> resize_applied (display s) (display s')
    \<and> suppress_next_adopt (display s') \<and> sink s' = map_option reset_for_live_resize (sink s)"
  using assms
  by (auto simp: poll_resize_def apply_resize_def settled_emit_def resize_applied_def has_pending_def
      take_settled_def RESIZE_DEBOUNCE_def display_size_def from_millis_def as_millis_def
      Let_def split: option.splits prod.splits if_splits)

lemma poll_cursor_queue:
  assumes "poll_cursor t (updates s) = (v, u)" and "queue_ok s"
  shows "queue_ok (s\<lparr>updates := u\<rparr>)" and "v = Emit p \<Longrightarrow> \<not> is_resize p"
  using assms
  by (auto simp: poll_cursor_def queue_ok_def Let_def split: option.splits list.splits if_splits)

lemma pop_pending_queue:
  assumes "pop_pending s = (v, s')" and "queue_ok s"
  shows "queue_ok s'" and "v = Emit p \<Longrightarrow> \<not> is_resize p"
  using assms by (auto simp: pop_pending_def queue_ok_def Let_def split: list.splits)

text \<open>A pass from a queue without resizes: what it emits and what it makes of the display.\<close>

lemma loop_pass_display:
  assumes "loop_pass c t s = (v, s', calls)" and "queue_ok s"
  shows "queue_ok s'"
    and "v = Emit (ResizeUpdate w h) \<Longrightarrow>
      suppress_next_adopt (display s')
      \<and> (pipeline_emit s (ResizeUpdate w h) \<and> display_size (display s') = display_size (display s)
         \<or> settled_emit t s (ResizeUpdate w h) \<and> resize_applied (display s) (display s')
           \<and> (sink s \<noteq> None \<longrightarrow> (\<exists>g. sink s' = Some (reset_for_live_resize g))))"
proof -
  have "queue_ok s' \<and> (v = Emit (ResizeUpdate w h) \<longrightarrow>
      suppress_next_adopt (display s')
      \<and> (pipeline_emit s (ResizeUpdate w h) \<and> display_size (display s') = display_size (display s)
         \<or> settled_emit t s (ResizeUpdate w h) \<and> resize_applied (display s) (display s')
           \<and> (sink s \<noteq> None \<longrightarrow> (\<exists>g. sink s' = Some (reset_for_live_resize g)))))"
    using assms(1)
  proof (cases rule: loop_pass_cases)
    case (reactivate p)
    with poll_reactivate_emit [OF reactivate(1)] poll_reactivate_keeps(1) [OF reactivate(1)] assms(2)
    show ?thesis by (auto simp: queue_ok_def display_size_def)
  next
    case (resize s1 v1 p)
    note r = poll_reactivate_none [OF resize(1,2)]
    have q: "queue_ok s'"
      using poll_resize_keeps(1) [OF resize(3)] r(2) assms(2) by (simp add: queue_ok_def)
    have "settled_emit t s p = settled_emit t s1 p" by (simp add: settled_emit_def r(1))
    with q poll_resize_emit [OF resize(3)] r resize(4) show ?thesis by auto
  next
    case (cursor s1 s2 v1 v2 u p)
    have "queue_ok s2"
      using poll_reactivate_none [OF cursor(1,2)] poll_resize_Again [OF cursor(3,4)] assms(2)
      by (simp add: queue_ok_def)
    from poll_cursor_queue [OF cursor(5) this] cursor(6,7) show ?thesis by auto
  next
    case (queued s1 s2 v1 v2 v3 u p)
    have "queue_ok s2"
      using poll_reactivate_none [OF queued(1,2)] poll_resize_Again [OF queued(3,4)] assms(2)
      by (simp add: queue_ok_def)
    note poll_cursor_queue(1) [OF queued(5) this]
    from pop_pending_queue [OF queued(7) this] queued(8) show ?thesis by auto
  next
    case (asleep s1 s2 s3 v1 v2 v3 v4 u)
    have "queue_ok s2"
      using poll_reactivate_none [OF asleep(1,2)] poll_resize_Again [OF asleep(3,4)] assms(2)
      by (simp add: queue_ok_def)
    note poll_cursor_queue(1) [OF asleep(5) this]
    with pop_pending_queue(1) [OF asleep(7)] observe_and_gate_keeps(3) [OF asleep(9)] asleep(10)
    show ?thesis by simp
  next
    case (waited s1 s2 s3 s4 v1 v2 v3 v4 u)
    have "queue_ok s2"
      using poll_reactivate_none [OF waited(1,2)] poll_resize_Again [OF waited(3,4)] assms(2)
      by (simp add: queue_ok_def)
    note poll_cursor_queue(1) [OF waited(5) this]
    with pop_pending_queue(1) [OF waited(7)] observe_and_gate_keeps(3) [OF waited(9)]
      wait_sample_keeps(2,3) [OF waited(10)]
    show ?thesis by auto
  qed
  then show "queue_ok s'" and "v = Emit (ResizeUpdate w h) \<Longrightarrow>
      suppress_next_adopt (display s')
      \<and> (pipeline_emit s (ResizeUpdate w h) \<and> display_size (display s') = display_size (display s)
         \<or> settled_emit t s (ResizeUpdate w h) \<and> resize_applied (display s) (display s')
           \<and> (sink s \<noteq> None \<longrightarrow> (\<exists>g. sink s' = Some (reset_for_live_resize g))))"
    by auto
qed

interpretation resize_run: emitter "capture_step c" queue_ok "\<lambda>e. True"
proof
  fix s e
  assume "queue_ok s"
  then show "queue_ok (fst (capture_step c s e))"
    by (cases e) (auto simp: loop_pass_display queue_ok_def dest: loop_pass_display(1) [unfolded queue_ok_def]
        split: option.splits prod.splits)
qed

lemma echo_ignored:
  "suppress_next_adopt d \<Longrightarrow>
     request_initial_size echo d = (display_size d, d\<lparr>suppress_next_adopt := False\<rparr>)"
  by (simp add: request_initial_size_def Let_def)

text \<open>
  Live resize, from the request to the client's echo: in any run of the loop among the other
  threads that starts without a queued resize, a resize the loop emits is either the reactivation
  the pipeline asked for, with the desktop size unchanged, or the requested size after at least
  400 ms without a newer request; then that size is the desktop's, the request is cleared and the
  pipeline has been reset for the new dimensions. In both cases the size the client announces when
  it reactivates changes nothing, whatever it is.
\<close>

theorem live_resize_applied:
  assumes "queue_ok s0" and "fst (run_out (capture_step c) s0 es) = s"
    and "capture_step c s (Pass t) = (s', outs)" and "Emitted (ResizeUpdate w h) \<in> set outs"
  shows "(pipeline_emit s (ResizeUpdate w h) \<and> display_size (display s') = display_size (display s)
         \<or> settled_emit t s (ResizeUpdate w h) \<and> resize_applied (display s) (display s')
           \<and> (sink s \<noteq> None \<longrightarrow> (\<exists>g. sink s' = Some (reset_for_live_resize g))))
    \<and> (\<forall>echo. request_initial_size echo (display s')
         = (display_size (display s'), (display s')\<lparr>suppress_next_adopt := False\<rparr>))"
proof -
  have q: "queue_ok s" using resize_run.run_inv [OF assms(1), of es] assms(2) by auto
  obtain v calls where p: "loop_pass c t s = (v, s', calls)" and v: "outs = map Call calls @ verdict_out v"
    using assms(3) by (auto split: prod.splits)
  have "v = Emit (ResizeUpdate w h)" using assms(4) v by (cases v) auto
  from loop_pass_display(2) [OF p q this] echo_ignored [of "display s'"] show ?thesis by blast
qed

definition idle_pass :: "instant \<Rightarrow> duration \<Rightarrow> tick" where
  "idle_pass now elapsed =
     \<lparr>t_now = now, t_elapsed = elapsed, t_cursor = [], t_suppressed = None,
      t_keyboard_generation = 0, t_click = None, t_stream = Timeout, t_buffered = 0,
      t_answers = sample_answers\<rparr>"

definition resize_requested :: capture_loop where
  "resize_requested = fst (run_out (capture_step sample_config) sample_loop
     [Layout (from_millis 1000) [\<lparr>is_primary = True, dimensions = (1280, 800)\<rparr>]])"

lemma resize_requested_fields:
  "pending (display resize_requested) = \<lparr>pr_size = Capture_Size.pack_size 1280 800,
     last_update_ms = 1000, keyboard_generation = 0\<rparr>"
  "sink resize_requested = None"
  by (simp_all add: resize_requested_def sample_loop_def request_layout_def chosen_monitor_def
      u16_try_from_def capped_size_def adopt_client_size_def display_size_def desktop_get_def
      desktop_new_def resize_request_def resize_new_def as_millis_def from_millis_def)

lemma settled_pass:
  assumes "sink s = None" and "pending (display s) = \<lparr>pr_size = Capture_Size.pack_size w h,
      last_update_ms = 1000, keyboard_generation = n\<rparr>"
  shows "\<exists>s'. capture_step c s (Pass (idle_pass now (from_millis 1500)))
    = (s', [Emitted (ResizeUpdate (unat w) (unat h))])"
  using assms
  by (simp add: loop_pass_def poll_reactivate_def poll_resize_def take_settled_def idle_pass_def
      RESIZE_DEBOUNCE_def as_millis_def from_millis_def Let_def)

theorem live_resize_applied_witness:
  "\<exists>s'. capture_step sample_config resize_requested (Pass (idle_pass 0 (from_millis 1500)))
        = (s', [Emitted (ResizeUpdate 1280 800)])
    \<and> display_size (display s') = (1280, 800)
    \<and> request_initial_size (1024, 768) (display s')
        = ((1280, 800), (display s')\<lparr>suppress_next_adopt := False\<rparr>)"
proof -
  obtain s' where st: "capture_step sample_config resize_requested (Pass (idle_pass 0 (from_millis 1500)))
      = (s', [Emitted (ResizeUpdate 1280 800)])"
    using settled_pass [OF resize_requested_fields(2,1), of sample_config 0] by auto
  have q: "queue_ok sample_loop" by (simp add: queue_ok_def sample_loop_def sample_updates_fields)
  from live_resize_applied [OF q resize_requested_def [symmetric] st, of 1280 800] resize_requested_fields
  have app: "resize_applied (display resize_requested) (display s')"
    and echo: "request_initial_size (1024, 768) (display s')
         = (display_size (display s'), (display s')\<lparr>suppress_next_adopt := False\<rparr>)"
    by (auto simp: pipeline_emit_def)
  from app have "display_size (display s') = (1280, 800)"
    by (simp add: resize_applied_def resize_requested_fields)
  with echo st show ?thesis by simp
qed

text \<open>
  A drag that returns to the size it started from does not withdraw the request made on the way: the
  last layout of the drag is dropped as unchanged, and the earlier size is still applied.
\<close>

lemma layout_unchanged:
  assumes "display_size d = (w, h)" and "max_client_size d = None"
  shows "request_layout elapsed [\<lparr>is_primary = True, dimensions = (unat w, unat h)\<rparr>] d = d"
proof -
  have "u16_try_from (unat v) = Some v" for v :: u16
    using unat_u16_less [of v] by (simp add: u16_try_from_def)
  then show ?thesis
    using assms by (simp add: request_layout_def chosen_monitor_def capped_size_def adopt_client_size_def)
qed

lemma drag_back_still_resizes:
  assumes "display_size d = (w, h)" and "max_client_size d = None" and "auto_size d"
    and "(w', h') \<noteq> (w, h)" and "200 \<le> w'" "w' \<le> 8192" "200 \<le> h'" "h' \<le> 8192"
    and "d1 = request_layout e1 [\<lparr>is_primary = True, dimensions = (unat w', unat h')\<rparr>] d"
  shows "request_layout e2 [\<lparr>is_primary = True, dimensions = (unat w, unat h)\<rparr>] d1 = d1
    \<and> has_pending (pending d1) \<and> unpack_size (pr_size (pending d1)) = (w', h')"
proof -
  have conv: "u16_try_from (unat v) = Some v" for v :: u16
    using unat_u16_less [of v] by (simp add: u16_try_from_def)
  have d1: "d1 = d\<lparr>pending := resize_request e1 w' h' (pending d)\<rparr>"
    using assms by (auto simp: request_layout_def chosen_monitor_def capped_size_def adopt_client_size_def conv)
  have "display_size d1 = (w, h)" and "max_client_size d1 = None"
    using assms(1,2) by (simp_all add: d1 display_size_def)
  from layout_unchanged [OF this] show ?thesis
    by (simp add: d1 resize_request_def has_pending_def)
qed

section \<open>Keyframes forced by typing\<close>

fun is_keyboard_log :: "loop_call \<Rightarrow> bool" where
  "is_keyboard_log (LogKeyboardIdr _) = True"
| "is_keyboard_log _ = False"

lemma gfx_calls_no_log [simp]: "filter is_keyboard_log (map GfxCall xs) = []"
  by (induction xs) auto

text \<open>
  In a second beginning at \<open>a\<close> the window can be renewed once, when it was opened before \<open>a\<close>: the
  keyframes still allowed are what is left of the window, and the next one's.
\<close>

definition kb_ok :: "nat \<Rightarrow> keyboard_idr \<Rightarrow> bool" where
  "kb_ok m k \<longleftrightarrow> kb_max_per_second k \<le> m"

definition kb_room :: "nat \<Rightarrow> instant \<Rightarrow> keyboard_idr \<Rightarrow> nat" where
  "kb_room m a k = (m - kb_window_count k) + (if kb_window_started k < a then m else 0)"

lemma observe_keyboard_room:
  assumes "kb_ok m k" and "cfg_keyboard_idr_max_per_second c \<le> m" and "a \<le> now" and "now < a + from_secs 1"
  shows "kb_ok m (observe_keyboard c now n k) \<and> kb_room m a (observe_keyboard c now n k) \<le> kb_room m a k"
  using assms
  by (auto simp: observe_keyboard_def kb_ok_def kb_room_def Let_def saturating_duration_since_def
      from_secs_def)

lemma keyboard_idr_done_room:
  assumes "kb_ok m k" and "m < 2 ^ 32" and "keyboard_idr_due now k"
  shows "kb_ok m (keyboard_idr_done now k)" and "Suc (kb_room m a (keyboard_idr_done now k)) \<le> kb_room m a k"
  using assms
  by (auto simp: keyboard_idr_due_def keyboard_idr_done_def kb_ok_def kb_room_def)

definition kb_spends :: "nat \<Rightarrow> instant \<Rightarrow> capture_loop \<Rightarrow> capture_loop \<Rightarrow> loop_call list \<Rightarrow> bool" where
  "kb_spends m a s s' calls \<longleftrightarrow> kb_ok m (keyboard (updates s')) \<and>
     length (filter is_keyboard_log calls) + kb_room m a (keyboard (updates s'))
       \<le> kb_room m a (keyboard (updates s))"

lemma idle_tick_room:
  assumes "idle_tick c t s = (s', calls)" and "kb_ok m (keyboard (updates s))" and "m < 2 ^ 32"
  shows "kb_spends m a s s' calls"
  using assms keyboard_idr_done_room(1) [OF assms(2,3), of "t_now t"]
    keyboard_idr_done_room(2) [OF assms(2,3), of "t_now t" a]
  by (auto simp: idle_tick_def gfx_submit_def kb_spends_def Let_def split: option.splits prod.splits if_splits)

lemma egfx_path_room:
  assumes "egfx_path c t smp W H stride src s = (tk, s', calls)"
    and "kb_ok m (keyboard (updates s))" and "m < 2 ^ 32"
  shows "kb_spends m a s s' calls"
  using assms keyboard_idr_done_room(1) [OF assms(2,3), of "t_now t"]
    keyboard_idr_done_room(2) [OF assms(2,3), of "t_now t" a]
  by (auto simp: egfx_path_def submitted_frame_def gfx_submit_def kb_spends_def Let_def
      split: option.splits prod.splits if_splits)

lemma legacy_path_log:
  "legacy_path smp W H stride src s = Some (s', calls) \<Longrightarrow> filter is_keyboard_log calls = []"
  by (auto simp: legacy_path_def Let_def split: option.splits prod.splits if_splits)

lemma on_sample_room:
  assumes "on_sample c t smp s = (v, s', calls)"
    and "kb_ok m (keyboard (updates s))" and "m < 2 ^ 32"
  shows "kb_spends m a s s' calls"
  using assms(1)
proof (cases rule: on_sample_cases)
  case skipped
  with assms(2) show ?thesis by (simp add: kb_spends_def)
next
  case (encoded W H stride src s0)
  with egfx_path_room [OF encoded(4), of m a] assms(2,3) show ?thesis by (simp add: kb_spends_def)
next
  case (copied W H stride src s0 s1 calls1 calls2)
  with egfx_path_room [OF copied(4), of m a] assms(2,3) legacy_path_log [OF copied(5)]
    legacy_path_keeps(3) [OF copied(5)]
  show ?thesis by (simp add: kb_spends_def)
next
  case (panicked W H stride src s0)
  with egfx_path_room [OF panicked(4), of m a] assms(2,3) show ?thesis by (simp add: kb_spends_def)
qed

lemma wait_sample_room:
  assumes "wait_sample c t s = (v, s', calls)"
    and "kb_ok m (keyboard (updates s))" and "m < 2 ^ 32"
  shows "kb_spends m a s s' calls"
proof (cases "t_stream t")
  case (Sample smp)
  with assms on_sample_room [of c t smp s v s' calls m a] show ?thesis by (simp add: wait_sample_def)
next
  case Timeout
  with assms idle_tick_room [of c t s s' calls m a] show ?thesis
    by (auto simp: wait_sample_def kb_spends_def split: prod.splits if_splits)
next
  case StreamEnded
  with assms show ?thesis by (simp add: wait_sample_def kb_spends_def)
qed

lemma observe_and_gate_keyboard:
  "observe_and_gate c t s = (asleep, s') \<Longrightarrow> keyboard (updates s') = keyboard (updates s)
     \<or> keyboard (updates s') = observe_keyboard c (t_now t) (t_keyboard_generation t) (keyboard (updates s))"
  by (auto simp: observe_and_gate_def suppress_gate_def Let_def
      split: prod.splits if_splits option.splits bool.splits)

lemma loop_pass_room:
  assumes "loop_pass c t s = (v, s', calls)" and "kb_ok m (keyboard (updates s))" and "m < 2 ^ 32"
    and "cfg_keyboard_idr_max_per_second c \<le> m" and "a \<le> t_now t" and "t_now t < a + from_secs 1"
  shows "kb_spends m a s s' calls"
  using assms(1)
proof (cases rule: loop_pass_cases)
  case (reactivate p)
  with assms(2) poll_reactivate_keeps(1) [OF reactivate(1)] show ?thesis by (simp add: kb_spends_def)
next
  case (resize s1 v1 p)
  with assms(2) poll_reactivate_keeps(1) [OF resize(1)] poll_resize_keeps(1) [OF resize(3)]
  show ?thesis by (simp add: kb_spends_def)
next
  case (cursor s1 s2 v1 v2 u p)
  with assms(2) poll_reactivate_keeps(1) [OF cursor(1)] poll_resize_keeps(1) [OF cursor(3)]
    poll_cursor_keeps(1) [OF cursor(5)]
  show ?thesis by (simp add: kb_spends_def)
next
  case (queued s1 s2 v1 v2 v3 u p)
  with assms(2) poll_reactivate_keeps(1) [OF queued(1)] poll_resize_keeps(1) [OF queued(3)]
    poll_cursor_keeps(1) [OF queued(5)] pop_pending_keeps(3) [OF queued(7)]
  show ?thesis by (simp add: kb_spends_def)
next
  case (asleep s1 s2 s3 v1 v2 v3 v4 u)
  then have "keyboard (updates s3) = keyboard (updates s)"
    using poll_reactivate_keeps(1) [OF asleep(1)] poll_resize_keeps(1) [OF asleep(3)]
      poll_cursor_keeps(1) [OF asleep(5)] pop_pending_keeps(3) [OF asleep(7)] by simp
  with observe_and_gate_keyboard [OF asleep(9)] observe_keyboard_room [OF assms(2,4-6)] assms(2) asleep(11)
  show ?thesis by (auto simp: kb_spends_def)
next
  case (waited s1 s2 s3 s4 v1 v2 v3 v4 u)
  then have "keyboard (updates s3) = keyboard (updates s)"
    using poll_reactivate_keeps(1) [OF waited(1)] poll_resize_keeps(1) [OF waited(3)]
      poll_cursor_keeps(1) [OF waited(5)] pop_pending_keeps(3) [OF waited(7)] by simp
  then have k: "kb_ok m (keyboard (updates s4)) \<and> kb_room m a (keyboard (updates s4)) \<le> kb_room m a (keyboard (updates s))"
    using observe_and_gate_keyboard [OF waited(9)] observe_keyboard_room [OF assms(2,4-6)] assms(2) by auto
  with wait_sample_room [OF waited(10) _ assms(3), of a] show ?thesis by (auto simp: kb_spends_def)
qed

fun in_second :: "instant \<Rightarrow> loop_event \<Rightarrow> bool" where
  "in_second a (Pass t) \<longleftrightarrow> a \<le> t_now t \<and> t_now t < a + from_secs 1"
| "in_second a _ \<longleftrightarrow> True"

fun is_keyboard_idr :: "loop_out \<Rightarrow> bool" where
  "is_keyboard_idr (Call (LogKeyboardIdr _)) = True"
| "is_keyboard_idr _ = False"

lemma keyboard_idr_outs [simp]:
  "length (filter (is_keyboard_idr \<circ> Call) xs) = length (filter is_keyboard_log xs)"
  "filter is_keyboard_idr (verdict_out v) = []"
  "filter is_keyboard_idr (map (Call \<circ> GfxCall) ys) = []"
proof -
  have eq: "is_keyboard_idr (Call x) = is_keyboard_log x" for x by (cases x) auto
  show "length (filter (is_keyboard_idr \<circ> Call) xs) = length (filter is_keyboard_log xs)"
    by (induction xs) (auto simp: eq)
  show "filter is_keyboard_idr (verdict_out v) = []" by (cases v) auto
  show "filter is_keyboard_idr (map (Call \<circ> GfxCall) ys) = []" by (induction ys) auto
qed

definition kb_inv :: "gfx_config \<Rightarrow> nat \<Rightarrow> capture_loop \<Rightarrow> bool" where
  "kb_inv c m s \<longleftrightarrow> kb_ok m (keyboard (updates s)) \<and> m < 2 ^ 32 \<and> cfg_keyboard_idr_max_per_second c \<le> m"

interpretation typing: bounded_emitter "capture_step c" "kb_inv c m" "in_second a" is_keyboard_idr
    "\<lambda>s. kb_room m a (keyboard (updates s))"
proof
  fix s e
  assume inv: "kb_inv c m s" and e: "in_second a e"
  have "kb_inv c m (fst (capture_step c s e)) \<and>
      length (filter is_keyboard_idr (snd (capture_step c s e)))
        + kb_room m a (keyboard (updates (fst (capture_step c s e)))) \<le> kb_room m a (keyboard (updates s))"
  proof (cases e)
    case (Pass t)
    obtain v s' calls where p: "loop_pass c t s = (v, s', calls)" by (cases "loop_pass c t s") auto
    from loop_pass_room [OF p, of m a] inv e Pass have "kb_spends m a s s' calls"
      by (simp add: kb_inv_def)
    with p Pass inv show ?thesis by (simp add: kb_inv_def kb_spends_def filter_map)
  qed (use inv in \<open>auto simp: kb_inv_def split: option.splits prod.splits\<close>)
  then show "kb_inv c m (fst (capture_step c s e))"
    and "length (filter is_keyboard_idr (snd (capture_step c s e)))
        + kb_room m a (keyboard (updates (fst (capture_step c s e)))) \<le> kb_room m a (keyboard (updates s))"
    by auto
qed

text \<open>
  Typing does not flood the encoder with keyframes: in any second, however keys, samples,
  timeouts and the pipeline's own events interleave and in whatever order the clock is read, at
  most twice the configured number of keyframes is forced by typing (the configured number in each
  of the two windows a second can meet), 2 being in force until the first key is seen.
\<close>

theorem keyboard_keyframes_bounded:
  assumes "kb_max_per_second (keyboard (updates s)) = 2" and "\<forall>e \<in> set es. in_second a e"
    and "cfg_keyboard_idr_max_per_second c < 2 ^ 32"
  shows "length (filter is_keyboard_idr (snd (run_out (capture_step c) s es)))
    \<le> 2 * max 2 (cfg_keyboard_idr_max_per_second c)"
proof -
  define m where "m = max 2 (cfg_keyboard_idr_max_per_second c)"
  have "kb_inv c m s" using assms(1,3) by (simp add: kb_inv_def kb_ok_def m_def)
  from typing.run_bound [OF this assms(2)]
  have "length (filter is_keyboard_idr (snd (run_out (capture_step c) s es)))
      \<le> kb_room m a (keyboard (updates s))" .
  also have "\<dots> \<le> 2 * m"
    using diff_le_self [of m "kb_window_count (keyboard (updates s))"]
    by (cases "kb_window_started (keyboard (updates s)) < a") (simp_all add: kb_room_def)
  finally show ?thesis by (simp add: m_def)
qed

theorem keyboard_keyframes_bounded_witness:
  "length (filter is_keyboard_idr (snd (run_out (capture_step sample_config) sample_loop
     [Pass (idle_pass 0 0), Pass (idle_pass 999999999 1), ResyncHotkey])))
   \<le> 2 * max 2 (cfg_keyboard_idr_max_per_second sample_config)"
proof (rule keyboard_keyframes_bounded [where a = 0])
  show "kb_max_per_second (keyboard (updates sample_loop)) = 2"
    by (simp add: sample_loop_def sample_updates_def start_updates_def keyboard_idr_new_def)
  show "\<forall>e \<in> set [Pass (idle_pass 0 0), Pass (idle_pass 999999999 1), ResyncHotkey]. in_second 0 e"
    by (simp add: idle_pass_def from_secs_def NANOS_def)
  show "cfg_keyboard_idr_max_per_second sample_config < 2 ^ 32"
    by (simp add: sample_config_def gfx_new_def Let_def sample_env_def env_u32_def env_parse_def
        opt_filter_def or_default_def recovery_config_from_env_def)
qed

end
