(* ===== verification/Capture_Resume.thy ===== *)
theory Capture_Resume
  imports Capture_Props
begin

text \<open>
  The frame after a minimised client comes back: the mark the suppress gate leaves survives until a
  forced keyframe has been handed to the encoder, except when the event queue of the telemetry is
  full at that moment.
\<close>

section \<open>The pipeline before a keyframe\<close>

text \<open>
  The next frame encoded will be a keyframe: one is asked for already, or the channel is not ready
  and will ask for one when it is.
\<close>

definition primed :: "gfx \<Rightarrow> bool" where
  "primed g \<longleftrightarrow> (case gfx_ctx g of None \<Rightarrow> True | Some ctx \<Rightarrow> need_keyframe ctx \<or> \<not> is_ready ctx)"

lemma keyframe_armed_primed: "keyframe_armed g \<Longrightarrow> primed g"
  by (auto simp: keyframe_armed_def primed_def split: option.splits)

lemma primed_cases:
  assumes "primed g"
  obtains "keyframe_armed g" | ctx where "gfx_ctx g = Some ctx" "\<not> is_ready ctx"
  using assms by (auto simp: keyframe_armed_def primed_def split: option.splits)

fun is_submission :: "egfx_event \<Rightarrow> bool" where
  "is_submission (Capture _ _ _) \<longleftrightarrow> True"
| "is_submission _ \<longleftrightarrow> False"

lemma egfx_step_keyframe:
  assumes "keyframe_armed g" and "\<not> is_submission e"
  shows "filter is_encode (snd (egfx_step c g e)) = [] \<and> primed (fst (egfx_step c g e))
    \<or> (\<exists>x xs. filter is_encode (snd (egfx_step c g e)) = x # xs \<and> x = EncodeBgra True)"
  using keyframe.step_armed [OF assms(1) TrueI, of c e] keyframe_armed_primed by metis

lemma ack_advance_ready: "is_ready (ack_advance now f ctx) = is_ready ctx"
  by (simp add: ack_advance_def fold_rtt_def Let_def split: option.splits prod.splits)

lemma ship_all_ready:
  assumes "ship_all c now sid frames ctx = (ctx', calls)"
  shows "is_ready ctx' = is_ready ctx"
  using ship_all_frame [OF assms] by (cases ctx; cases ctx'; simp)

definition unready :: "gfx \<Rightarrow> bool" where
  "unready g \<longleftrightarrow> (\<exists>ctx. gfx_ctx g = Some ctx \<and> \<not> is_ready ctx)"

lemma unready_primed: "unready g \<Longrightarrow> primed g"
  by (auto simp: unready_def primed_def)

lemma ship_round_unready:
  assumes "ship_round c a now session frames g = (g', calls)" and "unready g"
  shows "filter is_encode calls = [] \<and> unready g'"
proof -
  from assms(2) obtain ctx where ctx: "gfx_ctx g = Some ctx" "\<not> is_ready ctx"
    by (auto simp: unready_def)
  from assms(1) show ?thesis
    by (cases rule: ship_round_cases) (use ctx in \<open>auto simp: unready_def\<close>)
qed

lemma egfx_step_unready:
  assumes "unready g"
  shows "filter is_encode (snd (egfx_step c g e)) = [] \<and> primed (fst (egfx_step c g e))"
proof (cases e)
  case (Capture a now key)
  with assms show ?thesis
    by (auto simp: submit_bgra_def admit_def unready_def primed_def)
next
  case (Ship a now session frames)
  obtain g' calls where sr: "ship_round c a now session frames g = (g', calls)" by fastforce
  from ship_round_unready [OF sr assms] sr Ship show ?thesis by (simp add: unready_primed)
next
  case (Ack now f q)
  with assms show ?thesis
    by (auto simp: unready_def primed_def on_frame_ack_def frame_ack_def Let_def
        ack_advance_ready split: prod.splits option.splits)
next
  case Resume
  with assms show ?thesis
    by (auto simp: unready_def primed_def demigrate_on_resume_def demigrate_def)
qed (use assms in \<open>auto simp: unready_def primed_def build_server_with_handle_def new_connection_def
      qoe_ctx_def event_defs split: option.splits\<close>)

lemma egfx_step_primed:
  assumes "primed g" and "\<not> is_submission e"
  shows "filter is_encode (snd (egfx_step c g e)) = [] \<and> primed (fst (egfx_step c g e))
    \<or> (\<exists>x xs. filter is_encode (snd (egfx_step c g e)) = x # xs \<and> x = EncodeBgra True)"
  using assms(1)
proof (cases rule: primed_cases)
  case 1
  with assms(2) show ?thesis by (rule egfx_step_keyframe [rotated])
next
  case (2 ctx)
  with egfx_step_unready [of g c e] show ?thesis by (auto simp: unready_def)
qed

lemma egfx_step_no_encode:
  assumes "\<not> is_submission e"
  shows "filter is_encode (snd (egfx_step c g e)) = []"
proof (cases e)
  case (Ship a now session frames)
  obtain g' calls where sr: "ship_round c a now session frames g = (g', calls)" by fastforce
  then have "filter is_encode calls = []" by (cases rule: ship_round_cases) simp_all
  with sr Ship show ?thesis by simp
qed (use assms in \<open>auto simp: route_egfx_def Let_def\<close>)

section \<open>No telemetry, no full event queue\<close>

lemma blank_detector_queue:
  "blank_detector c now (g, ctx) = ((g', ctx'), r) \<Longrightarrow> event_queue g' = event_queue g"
  by (auto simp: blank_detector_def storm_guard_def gate_logged_def arm_blank_def Let_def
      split: if_splits)

lemma armed_ctx_queue:
  "armed_ctx c now key g ctx = (g', ctx') \<Longrightarrow> event_queue g' = event_queue g"
  by (auto simp: armed_ctx_def watchdog_def demigrate_def Let_def split: if_splits)

lemma admit_queue:
  assumes "admit c a now key g = (adm, g', calls)"
  shows "event_queue g' = event_queue g"
  using assms
proof (cases rule: admit_cases)
  case (ready ctx g1 ctx1 ctx2)
  from ready(4) have "event_queue g' = event_queue g1"
    by (cases rule: admit_ready_cases) (auto dest: blank_detector_queue)
  with armed_ctx_queue [OF ready(2)] show ?thesis by simp
qed (auto dest: armed_ctx_queue)

lemma run_recovery_queue: "run_recovery a r g = (g', calls) \<Longrightarrow> event_queue g' = event_queue g"
  by (auto simp: run_recovery_def perform_blank_remap_def perform_blank_reactivate_def Let_def
      split: blank_action.splits option.splits if_splits)

lemma encode_phase_queue:
  "encode_phase c a now key g = (res, g', calls) \<Longrightarrow> event_queue g' = event_queue g"
  by (auto simp: encode_phase_def Let_def split: option.splits prod.splits if_splits)

lemma submit_queue:
  assumes "submit_bgra c a now key g = (res, g', calls)"
  shows "event_queue g' = event_queue g"
proof -
  obtain adm g1 calls1 where adm: "admit c a now key g = (adm, g1, calls1)" by (metis prod_cases3)
  with assms show ?thesis
    by (auto simp: submit_bgra_def Let_def split: admission.splits prod.splits
        dest!: admit_queue run_recovery_queue encode_phase_queue)
qed

lemma ship_round_queue: "ship_round c a now session frames g = (g', calls) \<Longrightarrow> event_queue g' = event_queue g"
  by (erule ship_round_cases) (auto dest: arg_cong [where f = event_queue])

lemma egfx_step_queue:
  assumes "event_queue g = None"
  shows "event_queue (fst (egfx_step c g e)) = None"
proof (cases e)
  case (Capture a now key)
  obtain res g' calls where sub: "submit_bgra c a now key g = (res, g', calls)"
    by (metis prod_cases3)
  with submit_queue [OF sub] assms Capture show ?thesis by simp
next
  case (Ship a now session frames)
  obtain g' calls where sr: "ship_round c a now session frames g = (g', calls)" by fastforce
  with ship_round_queue [OF sr] assms Ship show ?thesis by simp
next
  case (Ack now f q)
  with assms show ?thesis
    by (auto simp: on_frame_ack_def split: option.splits prod.splits)
next
  case Dispatch
  with assms show ?thesis by (auto simp: route_egfx_def Let_def split: if_splits prod.splits)
qed (use assms in \<open>auto simp: build_server_with_handle_def demigrate_on_resume_def demigrate_def
      soft_sync_egfx_def reset_connection_flags_def capabilities_advertise_def on_ready_def
      on_close_def on_qoe_metrics_def event_defs split: option.splits\<close>)

section \<open>A submission that asks for a keyframe\<close>

lemma submit_resume:
  assumes sub: "submit_bgra c a now key g = (res, g', calls)"
    and "event_queue g = None" and "key \<or> primed g"
  shows "filter is_encode calls = [] \<and> primed g'
    \<or> filter is_encode calls = [EncodeBgra True]"
proof (cases "unready g")
  case True
  with sub show ?thesis by (auto simp: submit_bgra_def admit_def unready_def primed_def)
next
  case False
  then have "keyframe_asked c key g"
    using assms(2,3)
    by (auto simp: keyframe_asked_def unready_def event_queue_full_def keyframe_armed_def primed_def
        split: option.splits)
  from capture_keyframe [OF sub this] show ?thesis using keyframe_armed_primed by auto
qed

lemma demigrate_on_resume_queue [simp]:
  "event_queue (demigrate_on_resume g) = event_queue g"
  by (simp add: demigrate_on_resume_def demigrate_def split: option.splits)

section \<open>The mark of the suppress gate\<close>

definition resume_ok :: "capture_loop \<Rightarrow> bool" where
  "resume_ok s \<longleftrightarrow> (was_suppressed (updates s) \<longrightarrow> flush_remaining (updates s) = 0)
     \<and> (case sink s of None \<Rightarrow> True | Some g \<Rightarrow> event_queue g = None)"

definition keyframe_owed :: "capture_loop \<Rightarrow> bool" where
  "keyframe_owed s \<longleftrightarrow> resume_ok s
     \<and> (case sink s of None \<Rightarrow> True | Some g \<Rightarrow> was_suppressed (updates s) \<or> primed g)"

fun is_encoded :: "loop_call \<Rightarrow> bool" where
  "is_encoded (GfxCall x) = is_encode x"
| "is_encoded _ = False"

lemma encoded_gfx [simp]: "filter is_encoded (map GfxCall xs) = map GfxCall (filter is_encode xs)"
  by (induction xs) auto

text \<open>What a part of a pass does with the debt: kept without an encoding, or paid by the first.\<close>

definition owed_step :: "capture_loop \<Rightarrow> loop_call list \<Rightarrow> bool" where
  "owed_step s' calls \<longleftrightarrow> filter is_encoded calls = [] \<and> keyframe_owed s'
     \<or> filter is_encoded calls = [GfxCall (EncodeBgra True)] \<and> resume_ok s'"

lemma gfx_submit_queue:
  "gfx_submit c t key g = (res, g', calls) \<Longrightarrow> event_queue g = None \<Longrightarrow> event_queue g' = None"
  by (auto simp: gfx_submit_def dest: submit_queue split: prod.splits)

lemma gfx_submit_resume:
  assumes "gfx_submit c t key g = (res, g', calls)" and "event_queue g = None" and "key \<or> primed g"
  shows "filter is_encoded calls = [] \<and> primed g' \<or> filter is_encoded calls = [GfxCall (EncodeBgra True)]"
  using assms submit_resume [of c "t_answers t" "t_now t" key g]
  by (auto simp: gfx_submit_def split: prod.splits)

lemma idle_tick_owed:
  assumes "idle_tick c t s = (s', calls)" and "keyframe_owed s"
  shows "owed_step s' calls"
proof (cases "sink s")
  case None
  with assms show ?thesis
    by (auto simp: idle_tick_def owed_step_def keyframe_owed_def resume_ok_def Let_def split: if_splits)
next
  case (Some g)
  then have q: "event_queue g = None" and owed: "was_suppressed (updates s) \<or> primed g"
    and fl: "was_suppressed (updates s) \<Longrightarrow> flush_remaining (updates s) = 0"
    using assms(2) by (auto simp: keyframe_owed_def resume_ok_def)
  obtain r1 g1 c1 where k: "gfx_submit c t True g = (r1, g1, c1)" by (metis prod_cases3)
  obtain r2 g2 c2 where f: "gfx_submit c t False g = (r2, g2, c2)" by (metis prod_cases3)
  show ?thesis
    using assms(1) Some owed fl k f q gfx_submit_queue [OF k q] gfx_submit_queue [OF f q]
      gfx_submit_resume [OF k q] gfx_submit_resume [OF f q]
    by (auto simp: idle_tick_def owed_step_def keyframe_owed_def resume_ok_def Let_def split: if_splits)
qed

lemma egfx_path_owed:
  assumes "egfx_path c t smp W H stride src s = (tk, s', calls)" and "keyframe_owed s"
  shows "owed_step s' calls"
proof (cases "sink s")
  case None
  with assms show ?thesis by (auto simp: egfx_path_def owed_step_def)
next
  case (Some g)
  let ?u = "updates s"
  obtain big armed where b: "big_change (kf_on_change ?u) (t_click t) (W * H) (changed_px smp) (kf_armed ?u)
      = (big, armed)" by fastforce
  let ?g = "if was_suppressed ?u then demigrate_on_resume g else g"
  let ?u1 = "?u\<lparr>kf_armed := armed, was_suppressed := False\<rparr>"
  let ?key = "big \<or> was_suppressed ?u \<or> keyboard_idr_due (t_now t) (keyboard ?u1)"
  obtain res g2 cs where sub: "gfx_submit c t ?key ?g = (res, g2, cs)" by (metis prod_cases3)
  have q: "event_queue ?g = None" and asked: "?key \<or> primed ?g"
    using assms(2) Some by (auto simp: keyframe_owed_def resume_ok_def)
  have path: "sink s' = Some g2" "\<not> was_suppressed (updates s')"
      "filter is_encoded calls = filter is_encoded cs"
    using assms(1) Some b sub
    by (auto simp: egfx_path_def submitted_frame_def Let_def split: if_splits)
  from gfx_submit_resume [OF sub q asked] gfx_submit_queue [OF sub q] path show ?thesis
    by (auto simp: owed_step_def keyframe_owed_def resume_ok_def)
qed

lemma owed_cong:
  assumes "updates s' = updates s" and "sink s' = sink s"
  shows "keyframe_owed s' = keyframe_owed s" and "resume_ok s' = resume_ok s"
  by (cases "sink s"; simp add: keyframe_owed_def resume_ok_def assms)+

lemma legacy_path_owed:
  assumes "legacy_path smp W H stride src s = Some (s', calls)"
  shows "filter is_encoded calls = []" and "keyframe_owed s' = keyframe_owed s"
    and "resume_ok s' = resume_ok s"
proof -
  have fl: "flush_remaining (updates s') = flush_remaining (updates s)"
    using assms by (auto simp: legacy_path_def settle_queue_def Let_def split: option.splits if_splits)
  show "filter is_encoded calls = []"
    using assms by (auto simp: legacy_path_def Let_def split: option.splits prod.splits if_splits)
  show "keyframe_owed s' = keyframe_owed s" and "resume_ok s' = resume_ok s"
    by (cases "sink s"; simp add: keyframe_owed_def resume_ok_def fl legacy_path_keeps [OF assms])+
qed

lemma on_sample_owed:
  assumes "on_sample c t smp s = (v, s', calls)" and "keyframe_owed s"
  shows "owed_step s' calls"
  using assms(1)
proof (cases rule: on_sample_cases)
  case skipped
  with assms(2) owed_cong [of s' s] show ?thesis by (simp add: owed_step_def)
next
  case (encoded W H stride src s0)
  with egfx_path_owed [OF encoded(4)] assms(2) owed_cong [of s0 s] show ?thesis by simp
next
  case (copied W H stride src s0 s1 calls1 calls2)
  with egfx_path_owed [OF copied(4)] assms(2) owed_cong [of s0 s] legacy_path_owed [OF copied(5)]
  show ?thesis by (auto simp: owed_step_def)
next
  case (panicked W H stride src s0)
  with egfx_path_owed [OF panicked(4)] assms(2) owed_cong [of s0 s] show ?thesis by simp
qed

lemma wait_sample_owed:
  assumes "wait_sample c t s = (v, s', calls)" and "keyframe_owed s"
  shows "owed_step s' calls"
proof (cases "t_stream t")
  case (Sample smp)
  with assms on_sample_owed show ?thesis by (simp add: wait_sample_def)
next
  case Timeout
  show ?thesis
  proof (cases "bounded_wait s")
    case True
    with Timeout assms idle_tick_owed [of c t s s' calls] show ?thesis
      by (auto simp: wait_sample_def split: prod.splits)
  next
    case False
    with Timeout assms show ?thesis by (simp add: wait_sample_def owed_step_def)
  qed
next
  case StreamEnded
  with assms show ?thesis by (simp add: wait_sample_def owed_step_def)
qed

lemma poll_reactivate_sink:
  assumes "poll_reactivate s = (v, s')"
  shows "updates s' = updates s"
    and "sink s' = map_option (\<lambda>g. (if resync_video s then force_keyframe g else g)\<lparr>reactivate_request := 0\<rparr>) (sink s)"
  using assms
  by (auto simp: poll_reactivate_def take_reactivate_request_def Let_def split: option.splits prod.splits)

lemma poll_reactivate_owed:
  assumes "poll_reactivate s = (v, s')" and "keyframe_owed s"
  shows "keyframe_owed s'"
  using assms(2)
  by (cases "sink s"; cases "resync_video s")
    (auto simp: keyframe_owed_def resume_ok_def poll_reactivate_sink [OF assms(1)] force_keyframe_def
      primed_def split: option.splits)

lemma poll_resize_owed:
  assumes "poll_resize t s = (v, s')" and "keyframe_owed s"
  shows "keyframe_owed s'"
  using assms
  by (auto simp: poll_resize_def keyframe_owed_def resume_ok_def reset_for_live_resize_def primed_def
      Let_def split: option.splits prod.splits)

lemma poll_cursor_owed:
  assumes "poll_cursor t (updates s) = (v, u)" and "keyframe_owed s"
  shows "keyframe_owed (s\<lparr>updates := u\<rparr>)"
  using assms
  by (auto simp: poll_cursor_def keyframe_owed_def resume_ok_def Let_def
      split: option.splits list.splits if_splits)

lemma pop_pending_owed:
  assumes "pop_pending s = (v, s')" and "keyframe_owed s"
  shows "keyframe_owed s'"
  using assms
  by (cases "sink s") (auto simp: pop_pending_def keyframe_owed_def resume_ok_def Let_def split: list.splits)

lemma observe_and_gate_owed:
  assumes "observe_and_gate c t s = (asleep, s')" and "keyframe_owed s"
  shows "keyframe_owed s'"
  using assms
  by (auto simp: observe_and_gate_def suppress_gate_def keyframe_owed_def resume_ok_def Let_def
      split: prod.splits if_splits option.splits bool.splits)

lemmas top_owed = poll_reactivate_owed poll_resize_owed poll_cursor_owed pop_pending_owed
  observe_and_gate_owed

lemma loop_pass_owed:
  assumes "loop_pass c t s = (v, s', calls)" and "keyframe_owed s"
  shows "owed_step s' calls"
  using assms(1)
proof (cases rule: loop_pass_cases)
  case (reactivate p)
  with assms(2) show ?thesis by (auto simp: owed_step_def dest: top_owed)
next
  case (resize s1 v1 p)
  from top_owed(1) [OF resize(1) assms(2)] resize show ?thesis
    by (auto simp: owed_step_def dest: top_owed)
next
  case (cursor s1 s2 v1 v2 u p)
  from top_owed(3) [OF cursor(5) top_owed(2) [OF cursor(3) top_owed(1) [OF cursor(1) assms(2)]]] cursor
  show ?thesis by (simp add: owed_step_def)
next
  case (queued s1 s2 v1 v2 v3 u p)
  from top_owed(4) [OF queued(7) top_owed(3) [OF queued(5)
        top_owed(2) [OF queued(3) top_owed(1) [OF queued(1) assms(2)]]]] queued
  show ?thesis by (simp add: owed_step_def)
next
  case (asleep s1 s2 s3 v1 v2 v3 v4 u)
  from top_owed(5) [OF asleep(9) top_owed(4) [OF asleep(7) top_owed(3) [OF asleep(5)
        top_owed(2) [OF asleep(3) top_owed(1) [OF asleep(1) assms(2)]]]]] asleep
  show ?thesis by (simp add: owed_step_def)
next
  case (waited s1 s2 s3 s4 v1 v2 v3 v4 u)
  from wait_sample_owed [OF waited(10) top_owed(5) [OF waited(9) top_owed(4) [OF waited(7)
        top_owed(3) [OF waited(5) top_owed(2) [OF waited(3) top_owed(1) [OF waited(1) assms(2)]]]]]]
  show ?thesis .
qed

text \<open>The other threads submit no frame: that is the loop's own doing.\<close>

fun other_thread :: "loop_event \<Rightarrow> bool" where
  "other_thread (Pipeline e) \<longleftrightarrow> \<not> is_submission e"
| "other_thread _ \<longleftrightarrow> True"

fun is_encoded_out :: "loop_out \<Rightarrow> bool" where
  "is_encoded_out (Call x) = is_encoded x"
| "is_encoded_out _ = False"

lemma encoded_outs [simp]:
  "filter is_encoded_out (map Call xs) = map Call (filter is_encoded xs)"
  "filter is_encoded_out (verdict_out v) = []"
  "filter is_encoded_out (map (Call \<circ> GfxCall) ys) = map (Call \<circ> GfxCall) (filter is_encode ys)"
proof -
  show "filter is_encoded_out (map Call xs) = map Call (filter is_encoded xs)"
    by (induction xs) auto
  show "filter is_encoded_out (verdict_out v) = []" by (cases v) auto
  show "filter is_encoded_out (map (Call \<circ> GfxCall) ys) = map (Call \<circ> GfxCall) (filter is_encode ys)"
    by (induction ys) auto
qed

interpretation resume: armed_emitter "capture_step c" keyframe_owed other_thread is_encoded_out
    "\<lambda>x. x = Call (GfxCall (EncodeBgra True))"
proof
  fix s e
  assume owed: "keyframe_owed s" and e: "other_thread e"
  show "filter is_encoded_out (snd (capture_step c s e)) = [] \<and> keyframe_owed (fst (capture_step c s e))
    \<or> (\<exists>x xs. filter is_encoded_out (snd (capture_step c s e)) = x # xs
         \<and> x = Call (GfxCall (EncodeBgra True)))"
  proof (cases e)
    case (Pass t)
    obtain v s' calls where p: "loop_pass c t s = (v, s', calls)" by (cases "loop_pass c t s") auto
    from loop_pass_owed [OF p owed] p Pass show ?thesis by (auto simp: owed_step_def)
  next
    case (Pipeline pe)
    show ?thesis
    proof (cases "sink s")
      case None
      with Pipeline owed show ?thesis by simp
    next
      case (Some g)
      obtain g' calls where st: "egfx_step c g pe = (g', calls)" by fastforce
      have q: "event_queue g' = None"
        using owed Some egfx_step_queue [of g c pe] st by (simp add: keyframe_owed_def resume_ok_def)
      have none: "filter is_encode calls = []"
        using egfx_step_no_encode [of pe c g] st e Pipeline by simp
      have "primed g \<Longrightarrow> primed g'"
        using egfx_step_primed [of g pe c] st e Pipeline none by auto
      with none q st Some Pipeline owed show ?thesis
        by (auto simp: keyframe_owed_def resume_ok_def)
    qed
  qed (use owed in \<open>auto simp: keyframe_owed_def resume_ok_def split: option.splits\<close>)
qed

text \<open>
  A minimised client that comes back starts from a keyframe: once the suppress gate has put the
  loop to sleep, and as long as the telemetry's event queue is not wired to the pipeline, the first
  frame handed to the encoder afterwards is submitted as a forced keyframe, whatever cursor updates,
  timeouts, skipped samples, reconnections, resizes and pipeline events come first.
\<close>

theorem resume_starts_with_keyframe:
  assumes "observe_and_gate c t s0 = (True, s)"
    and "sink s0 = Some g0" and "event_queue g0 = None"
    and "\<forall>e \<in> set es. other_thread e"
    and "filter is_encoded_out (snd (run_out (capture_step c) s es)) = x # xs"
  shows "x = Call (GfxCall (EncodeBgra True))"
proof -
  have "keyframe_owed s"
    using assms(1-3)
    by (auto simp: observe_and_gate_def suppress_gate_def keyframe_owed_def resume_ok_def Let_def
        split: prod.splits if_splits option.splits bool.splits)
  from resume.run_first [OF this assms(4,5)] show ?thesis .
qed

definition live_gfx :: gfx where
  "live_gfx = (let g = build_server_with_handle sample_config sample_gfx 1 0
     in g\<lparr>gfx_ctx := map_option (\<lambda>ctx. ctx\<lparr>is_ready := True, need_keyframe := False,
          client_supports_avc := True\<rparr>) (gfx_ctx g)\<rparr>)"

definition minimised_loop :: capture_loop where
  "minimised_loop = sample_loop\<lparr>sink := Some live_gfx,
     updates := sample_updates\<lparr>first_egfx_frame_sent := True, suppressed_since := Some 0\<rparr>\<rparr>"

definition still_hidden :: tick where
  "still_hidden = (idle_pass NANOS 0)\<lparr>t_suppressed := Some True\<rparr>"

definition shown_again :: tick where
  "shown_again = (idle_pass NANOS 0)\<lparr>t_suppressed := Some False, t_stream := Sample
     \<lparr>smp_status = None, smp_image = Locked 1 1 4 [1, 2, 3, 4], smp_dirty = None, smp_pts = None,
      smp_age_ms = None\<rparr>\<rparr>"

lemma live_submit:
  assumes "gfx_submit sample_config shown_again True live_gfx = (res, g', calls)"
  shows "res = Inr True \<and> filter is_encoded calls = [GfxCall (EncodeBgra True)]"
  using assms by (auto simp: gfx_submit_def shown_again_def idle_pass_def live_gfx_def eval_defs NANOS_def)

definition asleep_loop :: capture_loop where
  "asleep_loop = snd (observe_and_gate sample_config still_hidden minimised_loop)"

lemma asleep_loop_fields:
  "observe_and_gate sample_config still_hidden minimised_loop = (True, asleep_loop)"
  "sink asleep_loop = Some live_gfx" "was_suppressed (updates asleep_loop)"
  "pending_updates (updates asleep_loop) = []" "resync_video asleep_loop = False"
  "pending (display asleep_loop) = resize_new" "first_egfx_frame_sent (updates asleep_loop)"
  "stats asleep_loop = None" "last_cursor_poll (updates asleep_loop) = None"
  by (simp_all add: asleep_loop_def observe_and_gate_def suppress_gate_def still_hidden_def
      minimised_loop_def idle_pass_def SUPPRESS_DEBOUNCE_def from_secs_def
      saturating_duration_since_def sample_loop_def sample_updates_fields Let_def
      sample_updates_def start_updates_def)

lemma live_gfx_fields:
  "reactivate_request live_gfx = 0" "egfx_on_udp live_gfx = False" "event_queue live_gfx = None"
  by (simp_all add: live_gfx_def sample_gfx_def build_server_with_handle_def Let_def)

lemma live_gfx_idle: "live_gfx\<lparr>reactivate_request := 0\<rparr> = live_gfx"
  using live_gfx_fields(1) by (cases live_gfx) simp

lemma shown_again_egfx:
  assumes "sink s = Some live_gfx" and "was_suppressed (updates s)"
    and "egfx_path sample_config shown_again smp W H stride src s = (tk, s', calls)"
  shows "tk \<and> filter is_encoded calls = [GfxCall (EncodeBgra True)]"
proof -
  obtain res g' cs where sub: "gfx_submit sample_config shown_again True live_gfx = (res, g', cs)"
    by (metis prod_cases3)
  have "demigrate_on_resume live_gfx = live_gfx"
    by (simp add: demigrate_on_resume_def live_gfx_fields)
  with assms sub live_submit [OF sub] show ?thesis
    by (auto simp: egfx_path_def Let_def split: prod.splits if_splits)
qed

lemma shown_again_wait:
  assumes "sink s = Some live_gfx" and "was_suppressed (updates s)"
    and "wait_sample sample_config shown_again s = (v, s', calls)"
  shows "filter is_encoded calls = [GfxCall (EncodeBgra True)]"
proof -
  obtain smp where smp: "t_stream shown_again = Sample smp" "smp_status smp = None"
      "smp_image smp = Locked 1 1 4 [1, 2, 3, 4]"
    by (simp add: shown_again_def idle_pass_def)
  define s0 where "s0 = s\<lparr>stats := map_option (note_age smp \<circ> note_clock smp)
    (map_option (\<lambda>st. st\<lparr>capture_buffered := t_buffered shown_again\<rparr>) (stats s))\<rparr>"
  obtain tk s1 cs where e: "egfx_path sample_config shown_again smp 1 1 4 [1, 2, 3, 4] s0 = (tk, s1, cs)"
    by (metis prod_cases3)
  have "tk \<and> filter is_encoded cs = [GfxCall (EncodeBgra True)]"
    by (rule shown_again_egfx [OF _ _ e]) (simp_all add: s0_def assms)
  moreover have "tk \<Longrightarrow> calls = cs"
    using assms(3) smp e by (simp add: wait_sample_def on_sample_def Let_def s0_def)
  ultimately show ?thesis by simp
qed

lemma shown_again_pass:
  "filter is_encoded_out (snd (capture_step sample_config asleep_loop (Pass shown_again)))
     = [Call (GfxCall (EncodeBgra True))]"
proof -
  obtain s1 where r: "poll_reactivate asleep_loop = (Again, s1)" "sink s1 = Some live_gfx"
      "updates s1 = updates asleep_loop" "display s1 = display asleep_loop"
    by (simp add: poll_reactivate_def asleep_loop_fields take_reactivate_request_def live_gfx_fields
        live_gfx_idle Let_def)
  have rs: "poll_resize shown_again s1 = (Again, s1)"
    by (simp add: poll_resize_def take_settled_def r(4) asleep_loop_fields resize_new_def Let_def)
  define u where "u = (updates s1)\<lparr>last_cursor_poll := Some (t_now shown_again)\<rparr>"
  have cu: "poll_cursor shown_again (updates s1) = (Again, u)"
    by (simp add: poll_cursor_def u_def r(3) asleep_loop_fields shown_again_def idle_pass_def)
  have pp: "pop_pending (s1\<lparr>updates := u\<rparr>) = (Again, s1\<lparr>updates := u\<rparr>)"
    by (simp add: pop_pending_def u_def r(3) asleep_loop_fields)
  obtain s4 where g: "observe_and_gate sample_config shown_again (s1\<lparr>updates := u\<rparr>) = (False, s4)"
      "sink s4 = Some live_gfx" "was_suppressed (updates s4)"
    by (simp add: observe_and_gate_def suppress_gate_def u_def r asleep_loop_fields shown_again_def
        idle_pass_def Let_def)
  obtain v s' calls where w: "wait_sample sample_config shown_again s4 = (v, s', calls)"
    by (metis prod_cases3)
  have "loop_pass sample_config shown_again asleep_loop = (v, s', calls)"
    by (simp add: loop_pass_def r(1) rs cu pp g(1) w)
  with shown_again_wait [OF g(2,3) w] show ?thesis by simp
qed

theorem resume_starts_with_keyframe_witness:
  "\<exists>x. filter is_encoded_out (snd (run_out (capture_step sample_config) asleep_loop
       [Pass shown_again])) = [x] \<and> x = Call (GfxCall (EncodeBgra True))"
proof -
  have run: "filter is_encoded_out (snd (run_out (capture_step sample_config) asleep_loop
      [Pass shown_again])) = [Call (GfxCall (EncodeBgra True))]"
    using shown_again_pass by (simp add: split_beta Let_def)
  have start: "sink minimised_loop = Some live_gfx" by (simp add: minimised_loop_def)
  show ?thesis
    using resume_starts_with_keyframe [OF asleep_loop_fields(1) start live_gfx_fields(3) _ run] run
    by simp
qed

text \<open>
  With the telemetry on, a capture that meets a full event queue returns before the request is
  recorded: a forced keyframe asked for at that moment is dropped while the pass counts as taken.
\<close>

lemma keyframe_request_dropped:
  assumes "gfx_ctx g = Some ctx" and "is_ready ctx" and "event_queue_full c g"
  shows "submit_bgra c a now True g = (Inr True, g, [])"
  using assms by (simp add: submit_bgra_def admit_def)

end
