(* ===== verification/Keyboard_Layout.thy ===== *)
theory Keyboard_Layout
  imports Bytes
begin

text \<open>
  The key tables: the PS/2 scancodes to macOS virtual keycodes of \<open>src/src/input/scancodes.rs\<close>, the
  keycode classes of \<open>src/src/input.rs\<close>, and the choice of a keyboard layout of
  \<open>src/src/keyboard_layout.rs\<close>. The input sources installed on the machine and the system's
  translation of a key are parameters: \<open>layouts\<close> and \<open>uckey\<close>.
\<close>

unbundle bit_operations_syntax

section \<open>Scancodes\<close>

type_synonym keycode = u16

definition SCANCODE_NORMAL :: "(u8 \<times> keycode) list" where
  "SCANCODE_NORMAL =
    [(0x01, 0x35), (0x02, 0x12), (0x03, 0x13), (0x04, 0x14), (0x05, 0x15), (0x06, 0x17),
     (0x07, 0x16), (0x08, 0x1A), (0x09, 0x1C), (0x0A, 0x19), (0x0B, 0x1D), (0x0C, 0x1B),
     (0x0D, 0x18), (0x0E, 0x33), (0x0F, 0x30), (0x10, 0x0C), (0x11, 0x0D), (0x12, 0x0E),
     (0x13, 0x0F), (0x14, 0x11), (0x15, 0x10), (0x16, 0x20), (0x17, 0x22), (0x18, 0x1F),
     (0x19, 0x23), (0x1A, 0x21), (0x1B, 0x1E), (0x1C, 0x24), (0x1D, 0x3B), (0x1E, 0x00),
     (0x1F, 0x01), (0x20, 0x02), (0x21, 0x03), (0x22, 0x05), (0x23, 0x04), (0x24, 0x26),
     (0x25, 0x28), (0x26, 0x25), (0x27, 0x29), (0x28, 0x27), (0x29, 0x0A), (0x2A, 0x38),
     (0x56, 0x32), (0x2B, 0x2A), (0x2C, 0x06), (0x2D, 0x07), (0x2E, 0x08), (0x2F, 0x09),
     (0x30, 0x0B), (0x31, 0x2D), (0x32, 0x2E), (0x33, 0x2B), (0x34, 0x2F), (0x35, 0x2C),
     (0x36, 0x3C), (0x37, 0x43), (0x38, 0x3A), (0x39, 0x31), (0x3A, 0x39), (0x3B, 0x7A),
     (0x3C, 0x78), (0x3D, 0x63), (0x3E, 0x76), (0x3F, 0x60), (0x40, 0x61), (0x41, 0x62),
     (0x42, 0x64), (0x43, 0x65), (0x44, 0x6D), (0x47, 0x59), (0x48, 0x5B), (0x49, 0x5C),
     (0x4A, 0x4E), (0x4B, 0x56), (0x4C, 0x57), (0x4D, 0x58), (0x4E, 0x45), (0x4F, 0x53),
     (0x50, 0x54), (0x51, 0x55), (0x52, 0x52), (0x53, 0x41), (0x57, 0x67), (0x58, 0x6F)]"

definition SCANCODE_EXTENDED :: "(u8 \<times> keycode) list" where
  "SCANCODE_EXTENDED =
    [(0x1C, 0x4C), (0x1D, 0x3E), (0x35, 0x4B), (0x38, 0x3D), (0x47, 0x73), (0x48, 0x7E),
     (0x49, 0x74), (0x4B, 0x7B), (0x4D, 0x7C), (0x4F, 0x77), (0x50, 0x7D), (0x51, 0x79),
     (0x52, 0x72), (0x53, 0x75), (0x5B, 0x37), (0x5C, 0x36)]"

definition scancode_to_cgkeycode :: "u8 \<Rightarrow> bool \<Rightarrow> keycode option" where
  "scancode_to_cgkeycode scancode extended =
     map_of (if extended then SCANCODE_EXTENDED else SCANCODE_NORMAL) scancode"

definition is_numeric_pad_vk :: "keycode \<Rightarrow> bool" where
  "is_numeric_pad_vk vk \<longleftrightarrow>
     vk \<in> {0x41, 0x43, 0x45, 0x47, 0x4B, 0x4C, 0x4E, 0x51, 0x52, 0x53, 0x54, 0x55, 0x56, 0x57, 0x58,
           0x59, 0x5B, 0x5C}"

definition is_remappable_shortcut :: "keycode \<Rightarrow> bool" where
  "is_remappable_shortcut vk \<longleftrightarrow>
     vk \<in> {0x08, 0x09, 0x07, 0x00, 0x06, 0x01, 0x03, 0x2D, 0x11, 0x0D, 0x1F, 0x23, 0x0F, 0x05}"

definition is_function_key_vk :: "keycode \<Rightarrow> bool" where
  "is_function_key_vk vk \<longleftrightarrow>
     vk \<in> {0x7A, 0x78, 0x63, 0x76, 0x60, 0x61, 0x62, 0x64, 0x65, 0x6D, 0x67, 0x6F}"

definition is_translatable_keycode :: "keycode \<Rightarrow> bool" where
  "is_translatable_keycode vk \<longleftrightarrow> vk \<le> 0x32 \<and> vk \<noteq> 0x24 \<and> vk \<noteq> 0x30 \<and> vk \<noteq> 0x31"

section \<open>Layout specifications\<close>

definition hex_digit_value :: "nat \<Rightarrow> nat" where
  "hex_digit_value c = (if c \<le> 57 then c - 48 else if c \<le> 70 then c - 55 else c - 87)"

definition hex_value :: "ustr \<Rightarrow> nat" where
  "hex_value ds = foldl (\<lambda>n c. 16 * n + hex_digit_value c) 0 ds"

definition parse_klid :: "ustr \<Rightarrow> u32 option" where
  "parse_klid spec =
     (let s = (case strip_prefix (lit ''0x'') spec of Some r \<Rightarrow> r
               | None \<Rightarrow> (case strip_prefix (lit ''0X'') spec of Some r \<Rightarrow> r | None \<Rightarrow> spec))
      in if s \<noteq> [] \<and> utf8_len s \<le> 8 \<and> list_all is_ascii_hexdigit s
         then Some (of_nat (hex_value s)) else None)"

abbreviation keylayout :: "string \<Rightarrow> ustr" where
  "keylayout name \<equiv> lit (''com.apple.keylayout.'' @ name)"

definition match_names :: "(string list \<times> 'a) list \<Rightarrow> ustr \<Rightarrow> 'a option" where
  "match_names arms low =
     map_option snd (List.find (\<lambda>(names, _). low \<in> set (map lit names)) arms)"

definition name_to_source_id :: "ustr \<Rightarrow> ustr option" where
  "name_to_source_id = match_names
    [([''us'', ''en'', ''english'', ''ansi''], keylayout ''US''),
     ([''uk'', ''gb'', ''british''], keylayout ''British''),
     ([''fr'', ''french'', ''azerty''], keylayout ''French''),
     ([''de'', ''german'', ''qwertz''], keylayout ''German''),
     ([''es'', ''spanish''], keylayout ''Spanish-ISO''),
     ([''it'', ''italian'', ''italian-pro'', ''italianpro''], keylayout ''Italian-Pro''),
     ([''pt'', ''portuguese''], keylayout ''Portuguese''),
     ([''br'', ''brazilian''], keylayout ''Brazilian''),
     ([''nl'', ''dutch''], keylayout ''Dutch''),
     ([''be'', ''belgian''], keylayout ''Belgian''),
     ([''se'', ''swedish''], keylayout ''Swedish''),
     ([''no'', ''norwegian''], keylayout ''Norwegian''),
     ([''dk'', ''danish''], keylayout ''Danish''),
     ([''fi'', ''finnish''], keylayout ''Finnish''),
     ([''ru'', ''russian''], keylayout ''Russian''),
     ([''pl'', ''polish''], keylayout ''Polish''),
     ([''cz'', ''czech''], keylayout ''Czech''),
     ([''hu'', ''hungarian''], keylayout ''Hungarian''),
     ([''ch'', ''swiss'', ''swissgerman''], keylayout ''SwissGerman'')]"

definition klid_to_source_id :: "u32 \<Rightarrow> ustr option" where
  "klid_to_source_id klid = map_of
    [(0x0409, keylayout ''US''), (0x0809, keylayout ''British''), (0x040C, keylayout ''French''),
     (0x080C, keylayout ''Belgian''), (0x0C0C, keylayout ''Canadian-CSA''),
     (0x0407, keylayout ''German''), (0x0807, keylayout ''SwissGerman''),
     (0x040A, keylayout ''Spanish-ISO''), (0x0410, keylayout ''Italian-Pro''),
     (0x0413, keylayout ''Dutch''), (0x0813, keylayout ''Belgian''),
     (0x0416, keylayout ''Brazilian''), (0x0816, keylayout ''Portuguese''),
     (0x041D, keylayout ''Swedish''), (0x0414, keylayout ''Norwegian''),
     (0x0406, keylayout ''Danish''), (0x040B, keylayout ''Finnish''),
     (0x0419, keylayout ''Russian''), (0x0415, keylayout ''Polish''),
     (0x0405, keylayout ''Czech''), (0x040E, keylayout ''Hungarian'')] (klid AND 0xFFFF)"

definition spec_to_source_id :: "ustr \<Rightarrow> ustr option" where
  "spec_to_source_id spec =
     (let low = to_ascii_lowercase spec
      in case name_to_source_id low of
           Some i \<Rightarrow> Some i
         | None \<Rightarrow> Option.bind (parse_klid low) klid_to_source_id)"

definition language_of_name :: "ustr \<Rightarrow> string option" where
  "language_of_name = match_names
    [([''us'', ''en'', ''english'', ''uk'', ''gb'', ''british''], ''en''),
     ([''fr'', ''french'', ''azerty''], ''fr''),
     ([''de'', ''german'', ''qwertz'', ''ch'', ''swiss'', ''swissgerman''], ''de''),
     ([''es'', ''spanish''], ''es''), ([''it'', ''italian''], ''it''),
     ([''pt'', ''portuguese'', ''br'', ''brazilian''], ''pt''),
     ([''nl'', ''dutch'', ''be'', ''belgian''], ''nl''), ([''se'', ''swedish''], ''sv''),
     ([''no'', ''norwegian''], ''nb''), ([''dk'', ''danish''], ''da''), ([''fi'', ''finnish''], ''fi''),
     ([''ru'', ''russian''], ''ru''), ([''pl'', ''polish''], ''pl''), ([''cz'', ''czech''], ''cs''),
     ([''hu'', ''hungarian''], ''hu'')]"

definition language_of_klid :: "u32 \<Rightarrow> string option" where
  "language_of_klid klid = map_of
    [(0x09, ''en''), (0x0C, ''fr''), (0x07, ''de''), (0x0A, ''es''), (0x10, ''it''), (0x16, ''pt''),
     (0x13, ''nl''), (0x1D, ''sv''), (0x14, ''nb''), (0x06, ''da''), (0x0B, ''fi''), (0x19, ''ru''),
     (0x15, ''pl''), (0x05, ''cs''), (0x0E, ''hu'')] (klid AND 0x3FF)"

definition spec_to_language :: "ustr \<Rightarrow> string option" where
  "spec_to_language spec =
     (let low = to_ascii_lowercase spec
      in case language_of_name low of
           Some l \<Rightarrow> Some l
         | None \<Rightarrow> Option.bind (parse_klid low) language_of_klid)"

section \<open>Resolution and translation\<close>

text \<open>
  The input sources of the machine: the layout data of an input-source id, and of the default source
  of a language. A data handle is a number.
\<close>

record layouts =
  source_data_for_id :: "ustr \<Rightarrow> nat option"
  source_data_for_language :: "string \<Rightarrow> nat option"
  kbd_type :: nat

record keyboard_layout =
  uchr :: nat
  layout_kbd_type :: nat
  dead_key_state :: u32
  layout_label :: ustr

definition resolve_layout :: "layouts \<Rightarrow> ustr \<Rightarrow> keyboard_layout option" where
  "resolve_layout l spec =
     (let spec = trim spec;
          src = (if 46 \<in> set spec then Some spec else spec_to_source_id spec);
          layout = (\<lambda>d label. \<lparr>uchr = d, layout_kbd_type = kbd_type l, dead_key_state = 0,
                               layout_label = label\<rparr>)
      in case Option.bind src (\<lambda>i. map_option (\<lambda>d. layout d i) (source_data_for_id l i)) of
           Some k \<Rightarrow> Some k
         | None \<Rightarrow>
             Option.bind (spec_to_language spec) (\<lambda>lang.
               map_option (\<lambda>d. layout d (lit ''lang:'' @ lit lang)) (source_data_for_language l lang)))"

text \<open>
  \<open>UCKeyTranslate\<close> on a layout, a key and modifier bits, with the dead-key state it is given: the
  UTF-16 units it produces, or a failure, and the dead-key state it leaves.
\<close>

type_synonym uckey = "nat \<Rightarrow> nat \<Rightarrow> keycode \<Rightarrow> u32 \<Rightarrow> u32 \<Rightarrow> u16 list option \<times> u32"

definition MOD_SHIFT :: u32 where "MOD_SHIFT = 0x02"
definition MOD_CAPS :: u32 where "MOD_CAPS = 0x04"
definition MOD_OPTION :: u32 where "MOD_OPTION = 0x08"

text \<open>\<open>from_utf16_lossy\<close> and \<open>encode_utf16\<close> back: an unpaired surrogate is the replacement character.\<close>

definition high_surrogate :: "u16 \<Rightarrow> bool" where "high_surrogate u \<longleftrightarrow> 0xD800 \<le> u \<and> u \<le> 0xDBFF"
definition low_surrogate :: "u16 \<Rightarrow> bool" where "low_surrogate u \<longleftrightarrow> 0xDC00 \<le> u \<and> u \<le> 0xDFFF"

fun lossy_utf16 :: "u16 list \<Rightarrow> u16 list" where
  "lossy_utf16 [] = []"
| "lossy_utf16 [u] = [if high_surrogate u \<or> low_surrogate u then 0xFFFD else u]"
| "lossy_utf16 (u # v # us) =
     (if high_surrogate u \<and> low_surrogate v then u # v # lossy_utf16 us
      else (if high_surrogate u \<or> low_surrogate u then 0xFFFD else u) # lossy_utf16 (v # us))"

definition translate_key ::
    "uckey \<Rightarrow> keycode \<Rightarrow> bool \<Rightarrow> bool \<Rightarrow> bool \<Rightarrow> keyboard_layout \<Rightarrow> u16 list option \<times> keyboard_layout"
where
  "translate_key uckey vk shift option caps k =
     (let mods = (if shift then MOD_SHIFT else 0) OR (if caps then MOD_CAPS else 0)
                 OR (if option then MOD_OPTION else 0);
          (text, dead) = uckey (uchr k) (layout_kbd_type k) vk mods (dead_key_state k)
      in (map_option (lossy_utf16 \<circ> take 8) text, k\<lparr>dead_key_state := dead\<rparr>))"

section \<open>The layout a client announces\<close>

text \<open>\<open>format!("0x{:04x}", klid & 0xFFFF)\<close>.\<close>

definition hex_char :: "nat \<Rightarrow> nat" where
  "hex_char d = (if d < 10 then 48 + d else 87 + d)"

definition hex4 :: "nat \<Rightarrow> ustr" where
  "hex4 n = map hex_char [n div 4096 mod 16, n div 256 mod 16, n div 16 mod 16, n mod 16]"

definition klid_spec :: "u32 \<Rightarrow> ustr" where
  "klid_spec klid = lit ''0x'' @ hex4 (unat (klid AND 0xFFFF))"

definition announced_layout :: "layouts \<Rightarrow> u32 \<Rightarrow> keyboard_layout option" where
  "announced_layout l klid =
     (if klid \<noteq> 0 \<and> klid AND 0xFFFF \<noteq> 0x0409 then resolve_layout l (klid_spec klid) else None)"

end
