(* ===== verification/Input_Keys.thy ===== *)
theory Input_Keys
  imports Keyboard_Layout Capture_Size Rust_Float
begin

text \<open>
  The keyboard half of \<open>src/src/input.rs\<close>: the per-side modifier state, the interception of symbolic
  hotkeys, the Ctrl-to-Cmd remap with its application exclusions, the layout translation and the
  posting of key events. An event posted to the system, and every action taken in place of one, is
  an output; whether the system creates an event is an answer, and so are the data other threads
  keep (the focused application, the announced layout, an application cycle in flight). The bit field
  \<open>CGEventFlags\<close> is the set of its bits.
\<close>

section \<open>Modifiers\<close>

definition VK_TAB :: keycode where "VK_TAB = 0x30"
definition VK_SPACE :: keycode where "VK_SPACE = 0x31"
definition VK_3 :: keycode where "VK_3 = 0x14"
definition VK_4 :: keycode where "VK_4 = 0x15"
definition VK_5 :: keycode where "VK_5 = 0x17"
definition VK_GRAVE :: keycode where "VK_GRAVE = 0x32"
definition VK_CAPS_LOCK :: keycode where "VK_CAPS_LOCK = 0x39"
definition VK_G :: keycode where "VK_G = 0x05"
definition VK_R :: keycode where "VK_R = 0x0F"
definition VK_LEFT :: keycode where "VK_LEFT = 0x7B"
definition VK_RIGHT :: keycode where "VK_RIGHT = 0x7C"
definition VK_LSHIFT :: keycode where "VK_LSHIFT = 0x38"
definition VK_RSHIFT :: keycode where "VK_RSHIFT = 0x3C"
definition VK_LCTRL :: keycode where "VK_LCTRL = 0x3B"
definition VK_RCTRL :: keycode where "VK_RCTRL = 0x3E"
definition VK_LALT :: keycode where "VK_LALT = 0x3A"
definition VK_RALT :: keycode where "VK_RALT = 0x3D"
definition VK_LCMD :: keycode where "VK_LCMD = 0x37"
definition VK_RCMD :: keycode where "VK_RCMD = 0x36"

lemmas vk_defs = VK_TAB_def VK_SPACE_def VK_3_def VK_4_def VK_5_def VK_GRAVE_def VK_CAPS_LOCK_def
  VK_G_def VK_R_def VK_LEFT_def VK_RIGHT_def VK_LSHIFT_def VK_RSHIFT_def VK_LCTRL_def VK_RCTRL_def
  VK_LALT_def VK_RALT_def VK_LCMD_def VK_RCMD_def

datatype cg_flag =
    CGShift | CGControl | CGAlternate | CGCommand | CGAlphaShift | CGNumericPad | CGSecondaryFn
  | NX_DEVICE_L_CTRL | NX_DEVICE_L_SHIFT | NX_DEVICE_R_SHIFT | NX_DEVICE_L_CMD | NX_DEVICE_R_CMD
  | NX_DEVICE_L_ALT | NX_DEVICE_R_ALT | NX_DEVICE_R_CTRL

record modifier_state =
  l_shift :: bool
  r_shift :: bool
  l_ctrl :: bool
  r_ctrl :: bool
  l_alt :: bool
  r_alt :: bool
  l_cmd :: bool
  r_cmd :: bool
  caps_lock :: bool

definition modifiers_default :: modifier_state where
  "modifiers_default = \<lparr>l_shift = False, r_shift = False, l_ctrl = False, r_ctrl = False,
     l_alt = False, r_alt = False, l_cmd = False, r_cmd = False, caps_lock = False\<rparr>"

definition flag_if :: "bool \<Rightarrow> cg_flag \<Rightarrow> cg_flag set" where
  "flag_if b f = (if b then {f} else {})"

definition cg_flags :: "modifier_state \<Rightarrow> cg_flag set" where
  "cg_flags m =
     flag_if (l_shift m \<or> r_shift m) CGShift \<union> flag_if (l_ctrl m \<or> r_ctrl m) CGControl
     \<union> flag_if (l_alt m \<or> r_alt m) CGAlternate \<union> flag_if (l_cmd m \<or> r_cmd m) CGCommand
     \<union> flag_if (caps_lock m) CGAlphaShift
     \<union> flag_if (l_shift m) NX_DEVICE_L_SHIFT \<union> flag_if (r_shift m) NX_DEVICE_R_SHIFT
     \<union> flag_if (l_ctrl m) NX_DEVICE_L_CTRL \<union> flag_if (r_ctrl m) NX_DEVICE_R_CTRL
     \<union> flag_if (l_alt m) NX_DEVICE_L_ALT \<union> flag_if (r_alt m) NX_DEVICE_R_ALT
     \<union> flag_if (l_cmd m) NX_DEVICE_L_CMD \<union> flag_if (r_cmd m) NX_DEVICE_R_CMD"

definition has_shift :: "modifier_state \<Rightarrow> bool" where "has_shift m \<longleftrightarrow> l_shift m \<or> r_shift m"
definition has_ctrl :: "modifier_state \<Rightarrow> bool" where "has_ctrl m \<longleftrightarrow> l_ctrl m \<or> r_ctrl m"
definition has_alt :: "modifier_state \<Rightarrow> bool" where "has_alt m \<longleftrightarrow> l_alt m \<or> r_alt m"
definition has_cmd :: "modifier_state \<Rightarrow> bool" where "has_cmd m \<longleftrightarrow> l_cmd m \<or> r_cmd m"

definition is_modifier_vk :: "keycode \<Rightarrow> bool" where
  "is_modifier_vk vk \<longleftrightarrow>
     vk \<in> {VK_LSHIFT, VK_RSHIFT, VK_LCTRL, VK_RCTRL, VK_LALT, VK_RALT, VK_LCMD, VK_RCMD, VK_CAPS_LOCK}"

text \<open>The new state, and whether anything changed.\<close>

definition modifiers_apply :: "keycode \<Rightarrow> bool \<Rightarrow> modifier_state \<Rightarrow> bool \<times> modifier_state" where
  "modifiers_apply vk down m =
     (if vk = VK_CAPS_LOCK then
        (if down then (True, m\<lparr>caps_lock := \<not> caps_lock m\<rparr>) else (False, m))
      else if vk = VK_LSHIFT then (l_shift m \<noteq> down, m\<lparr>l_shift := down\<rparr>)
      else if vk = VK_RSHIFT then (r_shift m \<noteq> down, m\<lparr>r_shift := down\<rparr>)
      else if vk = VK_LCTRL then (l_ctrl m \<noteq> down, m\<lparr>l_ctrl := down\<rparr>)
      else if vk = VK_RCTRL then (r_ctrl m \<noteq> down, m\<lparr>r_ctrl := down\<rparr>)
      else if vk = VK_LALT then (l_alt m \<noteq> down, m\<lparr>l_alt := down\<rparr>)
      else if vk = VK_RALT then (r_alt m \<noteq> down, m\<lparr>r_alt := down\<rparr>)
      else if vk = VK_LCMD then (l_cmd m \<noteq> down, m\<lparr>l_cmd := down\<rparr>)
      else if vk = VK_RCMD then (r_cmd m \<noteq> down, m\<lparr>r_cmd := down\<rparr>)
      else (False, m))"

section \<open>The handler's state\<close>

record click_state =
  click_time :: instant
  click_x :: real
  click_y :: real
  click_count :: int

type_synonym bounds = "real \<times> real \<times> real \<times> real"

record inner =
  keyboard_activity :: "pending_resize option"
  last_x :: real
  last_y :: real
  left_down :: bool
  right_down :: bool
  middle_down :: bool
  mods :: modifier_state
  target_display_id :: "nat option"
  cached_bounds :: "bounds option"
  bounds_cached_at :: instant
  click_left :: "click_state option"
  click_right :: "click_state option"
  click_middle :: "click_state option"
  scroll_v_accum :: int
  scroll_h_accum :: int
  consumed_keys :: "keycode set"
  remapped_keys :: "keycode set"
  layout :: "keyboard_layout option"
  klid_handle :: bool
  last_klid :: u32
  auto_layout :: bool
  post_generation :: nat
  last_input_ms :: "nat option"

text \<open>
  \<open>inner_new\<close>: an explicit layout specification, trimmed, disables the auto-detection; \<open>none\<close>, \<open>off\<close>
  and the empty one force the positional keycodes.
\<close>

definition choose_layout :: "layouts \<Rightarrow> ustr option \<Rightarrow> bool \<Rightarrow> keyboard_layout option \<times> bool" where
  "choose_layout l spec handle =
     (case map_option trim spec of
        None \<Rightarrow> (None, handle)
      | Some s \<Rightarrow> if s = lit ''none'' \<or> s = lit ''off'' \<or> s = [] then (None, False)
                  else (resolve_layout l s, False))"

definition inner_new ::
    "layouts \<Rightarrow> instant \<Rightarrow> nat option \<Rightarrow> pending_resize option \<Rightarrow> ustr option \<Rightarrow> bool \<Rightarrow> inner"
where
  "inner_new l now target activity spec handle =
     \<lparr>keyboard_activity = activity, last_x = 0, last_y = 0, left_down = False, right_down = False,
      middle_down = False, mods = modifiers_default, target_display_id = target,
      cached_bounds = None, bounds_cached_at = now, click_left = None, click_right = None,
      click_middle = None, scroll_v_accum = 0, scroll_h_accum = 0, consumed_keys = {},
      remapped_keys = {}, layout = fst (choose_layout l spec handle), klid_handle = handle,
      last_klid = 0, auto_layout = snd (choose_layout l spec handle), post_generation = 0,
      last_input_ms = None\<rparr>"

section \<open>Outputs and answers\<close>

datatype event_source = Combined | Hid | Private

datatype mouse_button = LeftButton | RightButton | CenterButton

datatype mouse_event_type =
    LeftMouseDown | LeftMouseUp | RightMouseDown | RightMouseUp | OtherMouseDown | OtherMouseUp
  | LeftMouseDragged | RightMouseDragged | OtherMouseDragged | MouseMoved

datatype posted =
    KeyEvent event_source keycode bool "cg_flag set"
  | FlagsChanged event_source keycode "cg_flag set"
  | UnicodeEvent "cg_flag set" "u16 list"
  | MouseEvent mouse_event_type real real mouse_button "int option"
  | ScrollLines int int
  | RecordDuration bool
  | GatherWindows nat
  | ResyncAV
  | CycleApps bool
  | CycleWindows bool
  | CommitCycle
  | Spotlight
  | Screencapture string
  | ScreenshotApp
  | FocusFromClick real real

record input_env =
  alt_tab_switch :: bool
  alt_backtick_switch :: bool
  map_ctrl_to_cmd :: bool
  no_remap_apps :: "ustr list"

record input_answers =
  ia_now :: instant
  ia_monotonic_ms :: nat
  ia_created :: "event_source \<Rightarrow> bool"
  ia_bounds :: bounds
  ia_klid :: u32
  ia_layouts :: layouts
  ia_uckey :: uckey
  ia_cycle_active :: bool
  ia_focus_bundle :: "ustr option"
  ia_ax_bundle :: "ustr option"
  ia_mru_front :: "ustr option"

section \<open>Layout detection and exclusions\<close>

definition refresh_auto_layout :: "input_answers \<Rightarrow> inner \<Rightarrow> inner" where
  "refresh_auto_layout a s =
     (if \<not> auto_layout s \<or> \<not> klid_handle s \<or> ia_klid a = last_klid s then s
      else s\<lparr>last_klid := ia_klid a, layout := announced_layout (ia_layouts a) (ia_klid a)\<rparr>)"

definition BUILTIN_TERMINAL_BUNDLES :: "ustr list" where
  "BUILTIN_TERMINAL_BUNDLES = map lit
     [''com.apple.Terminal'', ''com.googlecode.iterm2'', ''io.alacritty'', ''net.kovidgoyal.kitty'',
      ''com.github.wez.wezterm'', ''com.mitchellh.ghostty'', ''co.zeit.hyper'', ''dev.warp.Warp-Stable'']"

definition bundle_matches :: "ustr \<Rightarrow> ustr \<Rightarrow> bool" where
  "bundle_matches bid entry \<longleftrightarrow> bid = entry \<or> prefix (entry @ lit ''.'') bid"

definition frontmost_bundle :: "input_answers \<Rightarrow> ustr option" where
  "frontmost_bundle a =
     (case ia_focus_bundle a of Some b \<Rightarrow> Some b
      | None \<Rightarrow> (case ia_ax_bundle a of Some b \<Rightarrow> Some b | None \<Rightarrow> ia_mru_front a))"

definition frontmost_is_excluded :: "input_env \<Rightarrow> input_answers \<Rightarrow> bool" where
  "frontmost_is_excluded e a =
     (case frontmost_bundle a of
        None \<Rightarrow> False
      | Some bid \<Rightarrow> list_ex (bundle_matches bid) BUILTIN_TERMINAL_BUNDLES
                    \<or> list_ex (bundle_matches bid) (no_remap_apps e))"

section \<open>Posting\<close>

definition post_flags_changed :: "input_answers \<Rightarrow> keycode \<Rightarrow> inner \<Rightarrow> posted list" where
  "post_flags_changed a vk s =
     map (\<lambda>src. FlagsChanged src vk (cg_flags (mods s))) (filter (ia_created a) [Combined, Hid])"

definition ctrl_as_cmd :: "cg_flag set \<Rightarrow> cg_flag set" where
  "ctrl_as_cmd f = (f - {CGControl} - {NX_DEVICE_L_CTRL, NX_DEVICE_R_CTRL}) \<union> {CGCommand} \<union> {NX_DEVICE_L_CMD}"

definition post_ctrl_as_cmd :: "input_answers \<Rightarrow> keycode \<Rightarrow> bool \<Rightarrow> inner \<Rightarrow> posted list" where
  "post_ctrl_as_cmd a vk down s =
     (let swapped = ctrl_as_cmd (cg_flags (mods s))
      in (if down then map (\<lambda>src. FlagsChanged src VK_LCMD swapped) (filter (ia_created a) [Combined, Hid])
          else [])
         @ (if ia_created a Combined then [KeyEvent Combined vk down swapped] else [])
         @ (if down then [] else post_flags_changed a VK_LCMD s))"

text \<open>A key reached the system: the generations the capture loop watches are advanced.\<close>

definition key_posted :: "inner \<Rightarrow> inner" where
  "key_posted s = s\<lparr>post_generation := (post_generation s + 1) mod 2 ^ 64,
     keyboard_activity := map_option record_keyboard (keyboard_activity s)\<rparr>"

definition post_text :: "input_answers \<Rightarrow> u16 list \<Rightarrow> inner \<Rightarrow> inner \<times> posted list" where
  "post_text a text s =
     (if ia_created a Combined
      then (key_posted s,
            [UnicodeEvent (cg_flags (mods s) - {CGSecondaryFn} - {CGNumericPad}) text, RecordDuration True])
      else (s, []))"

definition key_flags :: "keycode \<Rightarrow> cg_flag set \<Rightarrow> cg_flag set" where
  "key_flags vk f =
     (let f = (if is_function_key_vk vk then f \<union> {CGSecondaryFn} else f)
      in if is_numeric_pad_vk vk then f \<union> {CGNumericPad} else f - {CGNumericPad})"

definition post_key :: "input_answers \<Rightarrow> keycode \<Rightarrow> bool \<Rightarrow> inner \<Rightarrow> inner \<times> posted list" where
  "post_key a vk down s =
     (let src = (if is_function_key_vk vk then Private else Combined)
      in if ia_created a src
         then (key_posted s, [KeyEvent src vk down (key_flags vk (cg_flags (mods s))), RecordDuration True])
         else (s, []))"

section \<open>Symbolic hotkeys\<close>

definition symbolic_hotkey ::
    "input_env \<Rightarrow> bool \<Rightarrow> nat option \<Rightarrow> cg_flag set \<Rightarrow> keycode \<Rightarrow> posted option" where
  "symbolic_hotkey e cycling target f vk =
     (let cmd = (CGCommand \<in> f); shift = (CGShift \<in> f); ctrl = (CGControl \<in> f); opt = (CGAlternate \<in> f)
      in if ctrl \<and> opt \<and> \<not> cmd \<and> vk = VK_G then map_option GatherWindows target
         else if ctrl \<and> opt \<and> shift \<and> \<not> cmd \<and> vk = VK_R then Some ResyncAV
         else if alt_tab_switch e \<and> opt \<and> \<not> cmd \<and> \<not> ctrl \<and> vk = VK_TAB then Some (CycleApps shift)
         else if alt_backtick_switch e \<and> opt \<and> \<not> cmd \<and> \<not> ctrl \<and> vk = VK_GRAVE
           then Some (CycleWindows shift)
         else if (cmd \<or> opt) \<and> \<not> ctrl \<and> (vk = VK_LEFT \<or> vk = VK_RIGHT) \<and> cycling
           then Some (CycleApps (vk = VK_LEFT))
         else if \<not> cmd then None
         else if ctrl \<or> opt then None
         else if vk = VK_TAB then Some (CycleApps shift)
         else if \<not> shift \<and> vk = VK_SPACE then Some Spotlight
         else if shift \<and> vk = VK_3 then Some (Screencapture ''-x'')
         else if shift \<and> vk = VK_4 then Some (Screencapture ''-i'')
         else if shift \<and> vk = VK_5 then Some ScreenshotApp
         else if vk = VK_GRAVE then Some (CycleWindows shift)
         else None)"

section \<open>A key\<close>

definition cycle_released :: "input_env \<Rightarrow> keycode \<Rightarrow> bool \<Rightarrow> modifier_state \<Rightarrow> bool" where
  "cycle_released e vk down m \<longleftrightarrow>
     (vk = VK_LCMD \<or> vk = VK_RCMD) \<and> \<not> down \<and> \<not> l_cmd m \<and> \<not> r_cmd m
     \<or> alt_tab_switch e \<and> (vk = VK_LALT \<or> vk = VK_RALT) \<and> \<not> down \<and> \<not> l_alt m \<and> \<not> r_alt m"

definition modifier_key ::
    "input_env \<Rightarrow> input_answers \<Rightarrow> keycode \<Rightarrow> bool \<Rightarrow> inner \<Rightarrow> inner \<times> posted list" where
  "modifier_key e a vk down s =
     (let (changed, m) = modifiers_apply vk down (mods s);
          s = s\<lparr>mods := m\<rparr>
      in (s, (if changed then post_flags_changed a vk s else [])
             @ (if cycle_released e vk down m then [CommitCycle] else [])))"

definition layout_key :: "input_answers \<Rightarrow> keycode \<Rightarrow> bool \<Rightarrow> inner \<Rightarrow> inner \<times> posted list" where
  "layout_key a vk down s =
     (case layout s of
        None \<Rightarrow> (s, [])
      | Some k \<Rightarrow>
          if \<not> down then (s, [])
          else
            let (text, k') = translate_key (ia_uckey a) vk (has_shift (mods s)) (has_alt (mods s))
                  (caps_lock (mods s)) k;
                s = s\<lparr>layout := Some k'\<rparr>
            in case text of
                 None \<Rightarrow> (s, [])
               | Some t \<Rightarrow> if t = [] then (s, []) else post_text a t s)"

definition remaps :: "input_env \<Rightarrow> input_answers \<Rightarrow> keycode \<Rightarrow> inner \<Rightarrow> bool" where
  "remaps e a vk s \<longleftrightarrow>
     map_ctrl_to_cmd e \<and> has_ctrl (mods s) \<and> \<not> has_cmd (mods s) \<and> \<not> has_alt (mods s)
     \<and> is_remappable_shortcut vk \<and> \<not> frontmost_is_excluded e a"

definition plain_key ::
    "input_env \<Rightarrow> input_answers \<Rightarrow> keycode \<Rightarrow> bool \<Rightarrow> inner \<Rightarrow> inner \<times> posted list" where
  "plain_key e a vk down s =
     (case (if down then symbolic_hotkey e (ia_cycle_active a) (target_display_id s) (cg_flags (mods s)) vk
            else None) of
        Some act \<Rightarrow> (s\<lparr>consumed_keys := insert vk (consumed_keys s)\<rparr>, [act])
      | None \<Rightarrow>
          if \<not> down \<and> vk \<in> consumed_keys s then (s\<lparr>consumed_keys := consumed_keys s - {vk}\<rparr>, [])
          else if \<not> down \<and> vk \<in> remapped_keys s then
            (s\<lparr>remapped_keys := remapped_keys s - {vk}\<rparr>, post_ctrl_as_cmd a vk False s)
          else if down \<and> remaps e a vk s then
            (s\<lparr>remapped_keys := insert vk (remapped_keys s)\<rparr>, post_ctrl_as_cmd a vk True s)
          else if layout s \<noteq> None \<and> \<not> has_cmd (mods s) \<and> \<not> has_ctrl (mods s)
                  \<and> is_translatable_keycode vk then layout_key a vk down s
          else post_key a vk down s)"

definition key ::
    "input_env \<Rightarrow> input_answers \<Rightarrow> u8 \<Rightarrow> bool \<Rightarrow> bool \<Rightarrow> inner \<Rightarrow> inner \<times> posted list" where
  "key e a scancode extended down s =
     (case scancode_to_cgkeycode scancode extended of
        None \<Rightarrow> (s, [])
      | Some vk \<Rightarrow>
          let s = refresh_auto_layout a s
          in if is_modifier_vk vk then modifier_key e a vk down s else plain_key e a vk down s)"

definition unicode_key :: "input_answers \<Rightarrow> u16 \<Rightarrow> bool \<Rightarrow> inner \<Rightarrow> inner \<times> posted list" where
  "unicode_key a c down s = (if down then post_text a [c] s else (s, []))"

definition synchronize :: "input_answers \<Rightarrow> bool \<Rightarrow> inner \<Rightarrow> inner \<times> posted list" where
  "synchronize a want_caps s =
     (if want_caps \<noteq> caps_lock (mods s)
      then (let s = s\<lparr>mods := (mods s)\<lparr>caps_lock := want_caps\<rparr>\<rparr>
            in (s, post_flags_changed a VK_CAPS_LOCK s))
      else (s, []))"

section \<open>Keyboard events\<close>

datatype keyboard_event =
    Pressed u8 bool
  | Released u8 bool
  | UnicodePressed u16
  | UnicodeReleased u16
  | Synchronize bool

definition mark_input_activity :: "input_answers \<Rightarrow> inner \<Rightarrow> inner" where
  "mark_input_activity a s = s\<lparr>last_input_ms := Some (ia_monotonic_ms a)\<rparr>"

text \<open>\<open>input_recently_active\<close>, the gate of the focus poller: the mark \<open>u64::MAX\<close> is \<open>None\<close>.\<close>

definition input_recently_active :: "nat \<Rightarrow> inner \<Rightarrow> bool" where
  "input_recently_active now_ms s \<longleftrightarrow>
     (case last_input_ms s of None \<Rightarrow> False | Some t \<Rightarrow> now_ms - t < 60000)"

fun keyboard_step ::
    "input_env \<Rightarrow> input_answers \<Rightarrow> inner \<Rightarrow> keyboard_event \<Rightarrow> inner \<times> posted list" where
  "keyboard_step e a s (Pressed code ext) = key e a code ext True (mark_input_activity a s)"
| "keyboard_step e a s (Released code ext) = key e a code ext False (mark_input_activity a s)"
| "keyboard_step e a s (UnicodePressed c) = unicode_key a c True (mark_input_activity a s)"
| "keyboard_step e a s (UnicodeReleased c) = unicode_key a c False (mark_input_activity a s)"
| "keyboard_step e a s (Synchronize caps) = synchronize a caps (mark_input_activity a s)"

end
