(* ===== verification/Input_Key_Props.thy ===== *)
theory Input_Key_Props
  imports Input_Keys
begin

text \<open>
  The keyboard: the flags of the posted events are those of the keys the client holds, every press
  the system sees is paired with its release, and the layout a client announces is resolved to the
  input source of its identifier.
\<close>

section \<open>Histories\<close>

fun key_of_event :: "keyboard_event \<Rightarrow> (keycode \<times> bool) option" where
  "key_of_event (Pressed code ext) = map_option (\<lambda>vk. (vk, True)) (scancode_to_cgkeycode code ext)"
| "key_of_event (Released code ext) = map_option (\<lambda>vk. (vk, False)) (scancode_to_cgkeycode code ext)"
| "key_of_event _ = None"

definition inputs_of :: "keycode \<Rightarrow> keyboard_event list \<Rightarrow> bool list" where
  "inputs_of vk es = map snd (filter (\<lambda>p. fst p = vk) (List.map_filter key_of_event es))"

lemma inputs_of_Nil [simp]: "inputs_of vk [] = []"
  by (simp add: inputs_of_def)

lemma inputs_of_Cons:
  "inputs_of vk (e # es) = (case key_of_event e of
     Some (v, d) \<Rightarrow> if v = vk then d # inputs_of vk es else inputs_of vk es | None \<Rightarrow> inputs_of vk es)"
  by (auto simp: inputs_of_def List.map_filter_simps split: option.splits)

lemma inputs_of_append: "inputs_of vk (es @ fs) = inputs_of vk es @ inputs_of vk fs"
  by (simp add: inputs_of_def List.map_filter_def)

definition held :: "keyboard_event list \<Rightarrow> keycode \<Rightarrow> bool" where
  "held es vk \<longleftrightarrow> inputs_of vk es \<noteq> [] \<and> last (inputs_of vk es)"

fun caps_step :: "bool \<Rightarrow> keyboard_event \<Rightarrow> bool" where
  "caps_step b (Synchronize want) = want"
| "caps_step b e = (if key_of_event e = Some (VK_CAPS_LOCK, True) then \<not> b else b)"

definition key_bits :: "keycode \<Rightarrow> cg_flag set" where
  "key_bits vk = (case map_of
     [(VK_LSHIFT, {CGShift, NX_DEVICE_L_SHIFT}), (VK_RSHIFT, {CGShift, NX_DEVICE_R_SHIFT}),
      (VK_LCTRL, {CGControl, NX_DEVICE_L_CTRL}), (VK_RCTRL, {CGControl, NX_DEVICE_R_CTRL}),
      (VK_LALT, {CGAlternate, NX_DEVICE_L_ALT}), (VK_RALT, {CGAlternate, NX_DEVICE_R_ALT}),
      (VK_LCMD, {CGCommand, NX_DEVICE_L_CMD}), (VK_RCMD, {CGCommand, NX_DEVICE_R_CMD})] vk of
     Some f \<Rightarrow> f | None \<Rightarrow> {})"

text \<open>The flags of the keys the client holds down, and of its caps lock.\<close>

definition history_flags :: "keyboard_event list \<Rightarrow> cg_flag set" where
  "history_flags es = (\<Union>vk \<in> {vk. held es vk}. key_bits vk)
     \<union> (if foldl caps_step False es then {CGAlphaShift} else {})"

section \<open>What an event does to the modifiers\<close>

lemma post_text_keeps [simp]:
  "mods (fst (post_text a t s)) = mods s" "consumed_keys (fst (post_text a t s)) = consumed_keys s"
  "remapped_keys (fst (post_text a t s)) = remapped_keys s" "layout (fst (post_text a t s)) = layout s"
  "auto_layout (fst (post_text a t s)) = auto_layout s"
  by (simp_all add: post_text_def key_posted_def)

lemma post_key_keeps [simp]:
  "mods (fst (post_key a vk d s)) = mods s" "consumed_keys (fst (post_key a vk d s)) = consumed_keys s"
  "remapped_keys (fst (post_key a vk d s)) = remapped_keys s" "layout (fst (post_key a vk d s)) = layout s"
  "auto_layout (fst (post_key a vk d s)) = auto_layout s"
  by (simp_all add: post_key_def key_posted_def Let_def)

lemma layout_key_keeps [simp]:
  "mods (fst (layout_key a vk d s)) = mods s"
  "consumed_keys (fst (layout_key a vk d s)) = consumed_keys s"
  "remapped_keys (fst (layout_key a vk d s)) = remapped_keys s"
  by (simp_all add: layout_key_def Let_def split: option.splits prod.splits)

lemma refresh_keeps [simp]:
  "mods (refresh_auto_layout a s) = mods s"
  "consumed_keys (refresh_auto_layout a s) = consumed_keys s"
  "remapped_keys (refresh_auto_layout a s) = remapped_keys s"
  "auto_layout (refresh_auto_layout a s) = auto_layout s"
  by (simp_all add: refresh_auto_layout_def)

lemma plain_key_mods [simp]: "mods (fst (plain_key e a vk d s)) = mods s"
  by (simp add: plain_key_def split: option.splits)

lemma mark_keeps [simp]:
  "mods (mark_input_activity a s) = mods s"
  "consumed_keys (mark_input_activity a s) = consumed_keys s"
  "remapped_keys (mark_input_activity a s) = remapped_keys s"
  "layout (mark_input_activity a s) = layout s"
  "auto_layout (mark_input_activity a s) = auto_layout s"
  by (simp_all add: mark_input_activity_def)

fun modifiers_step :: "modifier_state \<Rightarrow> keyboard_event \<Rightarrow> modifier_state" where
  "modifiers_step m (Synchronize want) = m\<lparr>caps_lock := want\<rparr>"
| "modifiers_step m e = (case key_of_event e of Some (vk, d) \<Rightarrow> snd (modifiers_apply vk d m) | None \<Rightarrow> m)"

lemma modifiers_apply_other: "\<not> is_modifier_vk vk \<Longrightarrow> modifiers_apply vk d m = (False, m)"
  by (auto simp: modifiers_apply_def is_modifier_vk_def)

lemma key_mods:
  "mods (fst (key e a code ext d s)) =
     (case scancode_to_cgkeycode code ext of Some vk \<Rightarrow> snd (modifiers_apply vk d (mods s)) | None \<Rightarrow> mods s)"
  by (auto simp: key_def modifier_key_def modifiers_apply_other Let_def split: option.splits prod.splits)

lemma keyboard_step_mods:
  "mods (fst (keyboard_step e a s ev)) = modifiers_step (mods s) ev"
  by (cases ev) (auto simp: key_mods synchronize_def unicode_key_def Let_def split: option.splits)

definition history_mods :: "keyboard_event list \<Rightarrow> modifier_state" where
  "history_mods es = \<lparr>l_shift = held es VK_LSHIFT, r_shift = held es VK_RSHIFT,
     l_ctrl = held es VK_LCTRL, r_ctrl = held es VK_RCTRL, l_alt = held es VK_LALT,
     r_alt = held es VK_RALT, l_cmd = held es VK_LCMD, r_cmd = held es VK_RCMD,
     caps_lock = foldl caps_step False es\<rparr>"

lemma held_snoc:
  "held (es @ [e]) vk = (case key_of_event e of
     Some (v, d) \<Rightarrow> if v = vk then d else held es vk | None \<Rightarrow> held es vk)"
  by (auto simp: held_def inputs_of_append inputs_of_Cons split: option.splits)

lemma modifiers_step_history: "modifiers_step (history_mods es) e = history_mods (es @ [e])"
  by (cases e) (auto simp: history_mods_def held_snoc modifiers_apply_def vk_defs split: option.splits)

definition kb_run :: "input_env \<Rightarrow> inner \<Rightarrow> (input_answers \<times> keyboard_event) list \<Rightarrow> inner" where
  "kb_run e s aes = foldl (\<lambda>s (a, ev). fst (keyboard_step e a s ev)) s aes"

lemma kb_run_snoc: "kb_run e s (aes @ [(a, ev)]) = fst (keyboard_step e a (kb_run e s aes) ev)"
  by (simp add: kb_run_def)

lemma kb_run_mods:
  assumes "mods s = modifiers_default"
  shows "mods (kb_run e s aes) = history_mods (map snd aes)"
proof (induction aes rule: rev_induct)
  case Nil
  show ?case by (simp add: kb_run_def assms history_mods_def held_def modifiers_default_def)
next
  case (snoc x aes)
  obtain a ev where x: "x = (a, ev)" by (cases x)
  show ?case
    by (simp add: x kb_run_snoc keyboard_step_mods snoc.IH modifiers_step_history)
qed

lemma key_bits_simps:
  "key_bits VK_LSHIFT = {CGShift, NX_DEVICE_L_SHIFT}" "key_bits VK_RSHIFT = {CGShift, NX_DEVICE_R_SHIFT}"
  "key_bits VK_LCTRL = {CGControl, NX_DEVICE_L_CTRL}" "key_bits VK_RCTRL = {CGControl, NX_DEVICE_R_CTRL}"
  "key_bits VK_LALT = {CGAlternate, NX_DEVICE_L_ALT}" "key_bits VK_RALT = {CGAlternate, NX_DEVICE_R_ALT}"
  "key_bits VK_LCMD = {CGCommand, NX_DEVICE_L_CMD}" "key_bits VK_RCMD = {CGCommand, NX_DEVICE_R_CMD}"
  by (simp_all add: key_bits_def vk_defs)

lemma key_bits_other:
  "vk \<notin> {VK_LSHIFT, VK_RSHIFT, VK_LCTRL, VK_RCTRL, VK_LALT, VK_RALT, VK_LCMD, VK_RCMD} \<Longrightarrow> key_bits vk = {}"
  by (simp add: key_bits_def)

lemma history_mods_flags: "cg_flags (history_mods es) = history_flags es"
proof -
  let ?K = "{VK_LSHIFT, VK_RSHIFT, VK_LCTRL, VK_RCTRL, VK_LALT, VK_RALT, VK_LCMD, VK_RCMD}"
  have "(\<Union>vk \<in> {vk. held es vk}. key_bits vk) = (\<Union>vk \<in> {vk. vk \<in> ?K \<and> held es vk}. key_bits vk)"
    using key_bits_other by blast
  also have "\<dots> = (\<Union>vk \<in> ?K. if held es vk then key_bits vk else {})" by auto
  also have "\<dots> = cg_flags (history_mods es) - {CGAlphaShift}"
    by (simp add: key_bits_simps cg_flags_def history_mods_def flag_if_def) blast
  finally show ?thesis
    by (simp add: history_flags_def) (auto simp: cg_flags_def history_mods_def flag_if_def)
qed

text \<open>What a modifier event or a synchronisation posts.\<close>

fun touches_modifiers :: "keyboard_event \<Rightarrow> bool" where
  "touches_modifiers (Synchronize _) \<longleftrightarrow> True"
| "touches_modifiers e \<longleftrightarrow> (\<exists>vk d. key_of_event e = Some (vk, d) \<and> is_modifier_vk vk)"

lemma cg_flags_bits:
  "l_shift m \<longleftrightarrow> NX_DEVICE_L_SHIFT \<in> cg_flags m" "r_shift m \<longleftrightarrow> NX_DEVICE_R_SHIFT \<in> cg_flags m"
  "l_ctrl m \<longleftrightarrow> NX_DEVICE_L_CTRL \<in> cg_flags m" "r_ctrl m \<longleftrightarrow> NX_DEVICE_R_CTRL \<in> cg_flags m"
  "l_alt m \<longleftrightarrow> NX_DEVICE_L_ALT \<in> cg_flags m" "r_alt m \<longleftrightarrow> NX_DEVICE_R_ALT \<in> cg_flags m"
  "l_cmd m \<longleftrightarrow> NX_DEVICE_L_CMD \<in> cg_flags m" "r_cmd m \<longleftrightarrow> NX_DEVICE_R_CMD \<in> cg_flags m"
  "caps_lock m \<longleftrightarrow> CGAlphaShift \<in> cg_flags m"
  by (simp_all add: cg_flags_def flag_if_def)

lemma cg_flags_inj: "cg_flags m = cg_flags m' \<longleftrightarrow> m = (m' :: modifier_state)"
proof
  assume "cg_flags m = cg_flags m'"
  then show "m = m'"
    using cg_flags_bits [of m] cg_flags_bits [of m'] by (cases m; cases m') simp
qed simp

lemma modifiers_apply_changed: "fst (modifiers_apply vk d m) \<longleftrightarrow> snd (modifiers_apply vk d m) \<noteq> m"
  by (cases m) (auto simp: modifiers_apply_def)

definition flags_posts :: "posted list \<Rightarrow> (event_source \<times> cg_flag set) list" where
  "flags_posts = List.map_filter (\<lambda>p. case p of FlagsChanged src _ f \<Rightarrow> Some (src, f) | _ \<Rightarrow> None)"

lemma flags_posts_simps [simp]:
  "flags_posts [] = []" "flags_posts (xs @ ys) = flags_posts xs @ flags_posts ys"
  "flags_posts [CommitCycle] = []"
  by (simp_all add: flags_posts_def List.map_filter_def)

lemma flags_posts_changed:
  "flags_posts (post_flags_changed a vk s) =
     map (\<lambda>src. (src, cg_flags (mods s))) (filter (ia_created a) [Combined, Hid])"
  by (simp add: post_flags_changed_def flags_posts_def List.map_filter_def)

lemma keyboard_step_flags:
  assumes "touches_modifiers ev"
  shows "flags_posts (snd (keyboard_step e a s ev)) =
    (if mods (fst (keyboard_step e a s ev)) = mods s then []
     else map (\<lambda>src. (src, cg_flags (mods (fst (keyboard_step e a s ev))))) (filter (ia_created a) [Combined, Hid]))"
proof -
  have key: "flags_posts (snd (key e a code ext d s)) =
      (if mods (fst (key e a code ext d s)) = mods s then []
       else map (\<lambda>src. (src, cg_flags (mods (fst (key e a code ext d s))))) (filter (ia_created a) [Combined, Hid]))"
    if "scancode_to_cgkeycode code ext = Some vk" "is_modifier_vk vk" for code ext d vk s
    using that modifiers_apply_changed [of vk d "mods s"]
    by (auto simp: key_def modifier_key_def flags_posts_changed Let_def split: prod.splits)
  show ?thesis
  proof (cases ev)
    case (Pressed code ext)
    with assms obtain vk where "scancode_to_cgkeycode code ext = Some vk" "is_modifier_vk vk" by auto
    from key [OF this, of True "mark_input_activity a s"] Pressed show ?thesis by simp
  next
    case (Released code ext)
    with assms obtain vk where "scancode_to_cgkeycode code ext = Some vk" "is_modifier_vk vk" by auto
    from key [OF this, of False "mark_input_activity a s"] Released show ?thesis by simp
  next
    case (Synchronize want)
    have "(mods s)\<lparr>caps_lock := want\<rparr> = mods s \<longleftrightarrow> want = caps_lock (mods s)" by (cases "mods s") auto
    with Synchronize show ?thesis
      by (cases "want = caps_lock (mods s)") (simp_all add: synchronize_def flags_posts_changed Let_def)
  qed (use assms in auto)
qed

text \<open>
  C39. The modifier flags are those of the keys the client holds: after any sequence of presses,
  releases and lock-key synchronisations, the flags carried by the next event are exactly the bits
  of the halves of Shift, Control, Option and Command whose latest event was a press, and of the
  caps lock as toggled and synchronised; and a modifier event or a synchronisation announces flags,
  to both event sources, exactly when they change, and announces the new ones.
\<close>

theorem modifier_flags_exact:
  assumes "mods s0 = modifiers_default" and "s = kb_run e s0 aes"
    and "history = map snd aes" and "keyboard_step e a s ev = (s', out)"
  shows "cg_flags (mods s) = history_flags history \<and> cg_flags (mods s') = history_flags (history @ [ev])
    \<and> (touches_modifiers ev \<longrightarrow> flags_posts out =
         (if history_flags (history @ [ev]) = history_flags history then []
          else map (\<lambda>src. (src, history_flags (history @ [ev]))) (filter (ia_created a) [Combined, Hid])))"
proof -
  have now: "mods s = history_mods history" using kb_run_mods [OF assms(1)] assms(2,3) by simp
  have after: "mods s' = history_mods (history @ [ev])"
    using keyboard_step_mods [of e a s ev] assms(4) now by (simp add: modifiers_step_history)
  have "flags_posts out = (if mods s' = mods s then []
      else map (\<lambda>src. (src, cg_flags (mods s'))) (filter (ia_created a) [Combined, Hid]))"
    if "touches_modifiers ev"
    using keyboard_step_flags [OF that, of e a s] assms(4) by simp
  then show ?thesis
    using cg_flags_inj [of "mods s'" "mods s"] history_mods_flags [of history]
      history_mods_flags [of "history @ [ev]"]
    by (simp add: now [symmetric] after [symmetric])
qed

section \<open>Presses and releases\<close>

fun brackets :: "bool \<Rightarrow> bool list \<Rightarrow> bool" where
  "brackets h [] \<longleftrightarrow> True"
| "brackets h (d # ds) \<longleftrightarrow> d = (\<not> h) \<and> brackets d ds"

fun key_event_of :: "keycode \<Rightarrow> posted \<Rightarrow> bool option" where
  "key_event_of vk (KeyEvent _ v d _) = (if v = vk then Some d else None)"
| "key_event_of vk _ = None"

definition posts_of :: "keycode \<Rightarrow> posted list \<Rightarrow> bool list" where
  "posts_of vk out = List.map_filter (key_event_of vk) out"

lemma posts_of_simps [simp]:
  "posts_of vk [] = []" "posts_of vk (xs @ ys) = posts_of vk xs @ posts_of vk ys"
  by (simp_all add: posts_of_def List.map_filter_def)

lemma posts_of_Cons:
  "posts_of vk (x # xs) = (case key_event_of vk x of Some d \<Rightarrow> d # posts_of vk xs | None \<Rightarrow> posts_of vk xs)"
  by (simp add: posts_of_def List.map_filter_simps split: option.splits)

lemma posts_of_flags: "posts_of vk (post_flags_changed a v s) = []"
  by (simp add: posts_of_def post_flags_changed_def List.map_filter_def)

lemma posts_of_swapped:
  assumes "ia_created a Combined"
  shows "posts_of vk (post_ctrl_as_cmd a v d s) = (if v = vk then [d] else [])"
  using assms by (auto simp: post_ctrl_as_cmd_def Let_def posts_of_flags posts_of_Cons)

lemma symbolic_no_key: "symbolic_hotkey e cy tg f v = Some act \<Longrightarrow> key_event_of vk act = None"
  by (auto simp: symbolic_hotkey_def Let_def split: if_splits option.splits)

definition no_layout :: "inner \<Rightarrow> bool" where
  "no_layout s \<longleftrightarrow> layout s = None \<and> \<not> auto_layout s"

text \<open>A key that is not translated through a layout: there is none, or it is not one of the keys it covers.\<close>

definition untranslated :: "keycode \<Rightarrow> inner \<Rightarrow> bool" where
  "untranslated vk s \<longleftrightarrow> no_layout s \<or> \<not> is_translatable_keycode vk"

text \<open>The actions taken in place of a key.\<close>

fun is_hotkey_action :: "posted \<Rightarrow> bool" where
  "is_hotkey_action (GatherWindows _) \<longleftrightarrow> True"
| "is_hotkey_action ResyncAV \<longleftrightarrow> True"
| "is_hotkey_action (CycleApps _) \<longleftrightarrow> True"
| "is_hotkey_action (CycleWindows _) \<longleftrightarrow> True"
| "is_hotkey_action Spotlight \<longleftrightarrow> True"
| "is_hotkey_action (Screencapture _) \<longleftrightarrow> True"
| "is_hotkey_action ScreenshotApp \<longleftrightarrow> True"
| "is_hotkey_action _ \<longleftrightarrow> False"

lemma symbolic_is_action: "symbolic_hotkey e cy tg f v = Some act \<Longrightarrow> is_hotkey_action act"
  by (auto simp: symbolic_hotkey_def Let_def split: if_splits option.splits)

text \<open>How a key stands: up; down and posted; or down and taken as a hotkey.\<close>

datatype standing = Up | Open | Taken

fun key_stands :: "keycode \<Rightarrow> inner \<Rightarrow> standing \<Rightarrow> bool" where
  "key_stands vk s Up \<longleftrightarrow> vk \<notin> consumed_keys s \<and> vk \<notin> remapped_keys s"
| "key_stands vk s Open \<longleftrightarrow> vk \<notin> consumed_keys s"
| "key_stands vk s Taken \<longleftrightarrow> vk \<in> consumed_keys s \<and> vk \<notin> remapped_keys s"

lemma key_stands_cong:
  assumes "consumed_keys s' = consumed_keys s" "remapped_keys s' = remapped_keys s"
  shows "key_stands vk s' st = key_stands vk s st"
  using assms by (cases st) simp_all

lemma post_key_result:
  assumes "post_key a v d s = (s', out)" and "\<forall>src. ia_created a src"
  shows "posts_of vk out = (if v = vk then [d] else [])" and "consumed_keys s' = consumed_keys s"
    and "remapped_keys s' = remapped_keys s" and "no_layout s' = no_layout s"
  using assms post_key_keeps [of a v d s]
  by (auto simp: post_key_def Let_def posts_of_Cons no_layout_def)

lemma layout_key_result:
  assumes "layout_key a v d s = (s', out)"
  shows "posts_of vk out = []" and "consumed_keys s' = consumed_keys s" and "remapped_keys s' = remapped_keys s"
  using assms layout_key_keeps [of a v d s]
  by (auto simp: layout_key_def post_text_def posts_of_Cons Let_def split: option.splits prod.splits if_splits)

text \<open>One event on a key: what it posts for the key and where it leaves it.\<close>

lemma plain_key_cases [consumes 1, case_names symbolic consumed release press translated post]:
  assumes "plain_key e a v d s = (s', out)"
  obtains (symbolic) act where "d" "s' = s\<lparr>consumed_keys := insert v (consumed_keys s)\<rparr>" "out = [act]"
      "\<And>vk. key_event_of vk act = None" "is_hotkey_action act"
  | (consumed) "\<not> d" "v \<in> consumed_keys s" "s' = s\<lparr>consumed_keys := consumed_keys s - {v}\<rparr>" "out = []"
  | (release) "\<not> d" "v \<notin> consumed_keys s" "v \<in> remapped_keys s"
      "s' = s\<lparr>remapped_keys := remapped_keys s - {v}\<rparr>" "out = post_ctrl_as_cmd a v False s"
  | (press) "d" "s' = s\<lparr>remapped_keys := insert v (remapped_keys s)\<rparr>" "out = post_ctrl_as_cmd a v True s"
  | (translated) "layout s \<noteq> None" "is_translatable_keycode v" "layout_key a v d s = (s', out)"
  | (post) "d \<or> v \<notin> consumed_keys s \<and> v \<notin> remapped_keys s" "post_key a v d s = (s', out)"
proof (cases "if d then symbolic_hotkey e (ia_cycle_active a) (target_display_id s) (cg_flags (mods s)) v
      else None")
  case (Some act)
  then have "d" and "\<And>vk. key_event_of vk act = None" "is_hotkey_action act"
    by (simp_all split: if_splits add: symbolic_no_key symbolic_is_action)
  with assms(1) Some show thesis by (intro symbolic) (auto simp: plain_key_def)
next
  case None
  note r = assms(1) [unfolded plain_key_def None option.case]
  consider "\<not> d" "v \<in> consumed_keys s" | "\<not> d" "v \<notin> consumed_keys s" "v \<in> remapped_keys s"
    | "d" "remaps e a v s" | "d \<or> v \<notin> consumed_keys s \<and> v \<notin> remapped_keys s" "\<not> (d \<and> remaps e a v s)"
    by blast
  then show thesis
  proof cases
    case 1
    with r show thesis by (intro consumed) simp_all
  next
    case 2
    with r show thesis by (intro release) simp_all
  next
    case 3
    with r show thesis by (intro press) simp_all
  next
    case 4
    then have r4: "(if layout s \<noteq> None \<and> \<not> has_cmd (mods s) \<and> \<not> has_ctrl (mods s) \<and> is_translatable_keycode v
        then layout_key a v d s else post_key a v d s) = (s', out)"
      using r by (auto split: if_splits)
    show thesis
    proof (cases "layout s \<noteq> None \<and> \<not> has_cmd (mods s) \<and> \<not> has_ctrl (mods s) \<and> is_translatable_keycode v")
      case True
      then have "layout_key a v d s = (s', out)" using r4 by (simp only: if_True simp_thms)
      with True show thesis by (intro translated) simp_all
    next
      case False
      then have "post_key a v d s = (s', out)" using r4 by (simp only: if_False)
      with 4(1) show thesis by (rule post)
    qed
  qed
qed

lemma plain_key_other:
  assumes "plain_key e a v d s = (s', out)" and "v \<noteq> vk" and "\<forall>src. ia_created a src"
  shows "posts_of vk out = [] \<and> key_stands vk s' st = key_stands vk s st \<and> (no_layout s \<longrightarrow> no_layout s')"
  using assms(1)
proof (cases rule: plain_key_cases)
  case post
  with post_key_result [OF post(2) assms(3)] assms(2) key_stands_cong [of s' s vk st] show ?thesis by simp
next
  case translated
  with layout_key_result [OF translated(3)] key_stands_cong [of s' s vk st] show ?thesis by (auto simp: no_layout_def)
qed (use assms(2,3) in \<open>cases st; auto simp: posts_of_Cons posts_of_swapped no_layout_def\<close>)+

text \<open>
  A conversation on one key: its presses and releases, each with all that was posted for it. A press
  is posted, exactly once, or is taken as a hotkey, with exactly one action in its place; the release
  of a posted press is posted, exactly once; that of a taken press has no effect at all.
\<close>

fun answered :: "keycode \<Rightarrow> standing \<Rightarrow> (bool \<times> posted list) list \<Rightarrow> bool" where
  "answered vk st [] \<longleftrightarrow> True"
| "answered vk Up ((d, out) # tr) \<longleftrightarrow> d \<and>
     (posts_of vk out = [True] \<and> answered vk Open tr
      \<or> length out = 1 \<and> list_all is_hotkey_action out \<and> answered vk Taken tr)"
| "answered vk Open ((d, out) # tr) \<longleftrightarrow> \<not> d \<and> posts_of vk out = [False] \<and> answered vk Up tr"
| "answered vk Taken ((d, out) # tr) \<longleftrightarrow> \<not> d \<and> out = [] \<and> answered vk Up tr"

text \<open>One event of the key, from a standing to the next one.\<close>

inductive answers :: "keycode \<Rightarrow> standing \<Rightarrow> bool \<Rightarrow> posted list \<Rightarrow> standing \<Rightarrow> bool" where
  "posts_of vk out = [True] \<Longrightarrow> answers vk Up True out Open"
| "length out = 1 \<Longrightarrow> list_all is_hotkey_action out \<Longrightarrow> answers vk Up True out Taken"
| "posts_of vk out = [False] \<Longrightarrow> answers vk Open False out Up"
| "answers vk Taken False [] Up"

lemma answered_step: "answers vk st d out st' \<Longrightarrow> answered vk st' tr \<Longrightarrow> answered vk st ((d, out) # tr)"
  by (auto elim: answers.cases)

lemma plain_key_same:
  assumes "plain_key e a vk d s = (s', out)" and "layout s = None \<or> \<not> is_translatable_keycode vk"
    and "\<forall>src. ia_created a src" and "key_stands vk s st" and "d \<longleftrightarrow> st = Up"
  shows "(no_layout s \<longrightarrow> no_layout s') \<and> (\<exists>st'. answers vk st d out st' \<and> key_stands vk s' st')"
  using assms(1)
proof (cases rule: plain_key_cases)
  case (symbolic act)
  then have "answers vk st d out Taken" "key_stands vk s' Taken"
    using assms(4,5) by (auto intro: answers.intros)
  with symbolic(2) show ?thesis by (auto simp: no_layout_def)
next
  case consumed
  then have "st = Taken" using assms(4,5) by (cases st) auto
  with consumed assms(4) have "answers vk st d out Up" "key_stands vk s' Up" by (auto intro: answers.intros)
  with consumed(3) show ?thesis by (auto simp: no_layout_def)
next
  case release
  then have "st = Open" using assms(4,5) by (cases st) auto
  with release assms(3) have "answers vk st d out Up" "key_stands vk s' Up"
    by (auto intro: answers.intros simp: posts_of_swapped)
  with release(4) show ?thesis by (auto simp: no_layout_def)
next
  case press
  then have "answers vk st d out Open" "key_stands vk s' Open"
    using assms(3-5) by (auto intro: answers.intros simp: posts_of_swapped)
  with press(2) show ?thesis by (auto simp: no_layout_def)
next
  case translated
  with assms(2) show ?thesis by simp
next
  case post
  note r = post_key_result(1) [OF post(2) assms(3), of vk] post_key_result(2-4) [OF post(2) assms(3)]
  show ?thesis
  proof (cases st)
    case Up
    then have "answers vk st d out Open" "key_stands vk s' Open" using r assms(4,5) by (auto intro: answers.intros)
    with r(4) show ?thesis by auto
  next
    case Open
    then have "answers vk st d out Up" "key_stands vk s' Up" using r post(1) assms(4,5) by (auto intro: answers.intros)
    with r(4) show ?thesis by auto
  next
    case Taken
    with post(1) assms(4,5) show ?thesis by simp
  qed
qed

definition kb_step :: "input_env \<Rightarrow> inner \<Rightarrow> input_answers \<times> keyboard_event \<Rightarrow> inner \<times> posted list" where
  "kb_step e s x = keyboard_step e (fst x) s (snd x)"

definition final :: "bool \<Rightarrow> bool list \<Rightarrow> bool" where "final h ds = last (h # ds)"

lemma final_simps [simp]: "final h [] = h" "final h (d # ds) = final d ds"
  by (simp_all add: final_def)

lemma key_other:
  assumes "key e a code ext d s = (s', out)" and "scancode_to_cgkeycode code ext \<noteq> Some vk"
    and "\<forall>src. ia_created a src"
  shows "posts_of vk out = [] \<and> key_stands vk s' st = key_stands vk s st \<and> (no_layout s \<longrightarrow> no_layout s')"
proof (cases "scancode_to_cgkeycode code ext")
  case None
  with assms show ?thesis by (simp add: key_def)
next
  case (Some v)
  let ?s = "refresh_auto_layout a s"
  have f: "key_stands vk ?s st = key_stands vk s st" "no_layout s \<Longrightarrow> no_layout ?s"
    by (rule key_stands_cong, simp, simp) (auto simp: refresh_auto_layout_def no_layout_def)
  show ?thesis
  proof (cases "is_modifier_vk v")
    case True
    with assms(1) Some have "s' = ?s\<lparr>mods := snd (modifiers_apply v d (mods ?s))\<rparr>" "posts_of vk out = []"
      by (auto simp: key_def modifier_key_def posts_of_flags posts_of_Cons Let_def split: prod.splits)
    moreover from this(1) have "key_stands vk s' st = key_stands vk ?s st" by (intro key_stands_cong) simp_all
    ultimately show ?thesis using f by (simp add: no_layout_def)
  next
    case False
    with assms(1) Some have "plain_key e a v d ?s = (s', out)" by (simp add: key_def)
    from plain_key_other [OF this _ assms(3), of vk st] assms(2) Some f show ?thesis by auto
  qed
qed

lemma key_same:
  assumes "key e a code ext d s = (s', out)" and "scancode_to_cgkeycode code ext = Some vk"
    and "\<not> is_modifier_vk vk" and "untranslated vk s" and "\<forall>src. ia_created a src"
    and "key_stands vk s st" and "d \<longleftrightarrow> st = Up"
  shows "untranslated vk s' \<and> (\<exists>st'. answers vk st d out st' \<and> key_stands vk s' st')"
proof -
  let ?s = "refresh_auto_layout a s"
  have f: "key_stands vk ?s st = key_stands vk s st" "no_layout s \<Longrightarrow> no_layout ?s"
    by (rule key_stands_cong, simp, simp) (auto simp: refresh_auto_layout_def no_layout_def)
  have p: "plain_key e a vk d ?s = (s', out)" using assms(1-3) by (simp add: key_def)
  have l: "layout ?s = None \<or> \<not> is_translatable_keycode vk"
    using assms(4) f(2) by (auto simp: untranslated_def no_layout_def)
  from plain_key_same [OF p l assms(5) _ assms(7)] assms(4,6) f show ?thesis
    by (auto simp: untranslated_def)
qed

lemma mark_stands [simp]:
  "no_layout (mark_input_activity a s) = no_layout s" "untranslated vk (mark_input_activity a s) = untranslated vk s"
  "key_stands vk (mark_input_activity a s) st = key_stands vk s st"
  by (simp add: no_layout_def, simp add: no_layout_def untranslated_def, rule key_stands_cong, simp_all)

lemma kb_step_other:
  assumes "keyboard_step e a s ev = (s', out)" and "inputs_of vk [ev] = []" and "\<forall>src. ia_created a src"
  shows "posts_of vk out = [] \<and> key_stands vk s' st = key_stands vk s st \<and> (no_layout s \<longrightarrow> no_layout s')"
proof (cases ev)
  case (Pressed code ext)
  with key_other [of e a code ext True "mark_input_activity a s" s' out vk st] assms
  show ?thesis by (auto simp: inputs_of_Cons split: option.splits if_splits)
next
  case (Released code ext)
  with key_other [of e a code ext False "mark_input_activity a s" s' out vk st] assms
  show ?thesis by (auto simp: inputs_of_Cons split: option.splits if_splits)
next
  case (UnicodePressed c)
  with assms have "unicode_key a c True (mark_input_activity a s) = (s', out)" by simp
  then show ?thesis
    by (cases st) (auto simp: unicode_key_def post_text_def key_posted_def no_layout_def posts_of_Cons
        mark_input_activity_def split: if_splits)
next
  case (UnicodeReleased c)
  with assms show ?thesis by (auto simp: unicode_key_def)
next
  case (Synchronize want)
  with assms show ?thesis
    by (cases st) (auto simp: synchronize_def posts_of_flags Let_def no_layout_def mark_input_activity_def
        split: if_splits)
qed

lemma kb_step_same:
  assumes "keyboard_step e a s ev = (s', out)" and "inputs_of vk [ev] = [d]" and "\<forall>src. ia_created a src"
    and "\<not> is_modifier_vk vk" and "untranslated vk s" and "key_stands vk s st" and "d \<longleftrightarrow> st = Up"
  shows "untranslated vk s' \<and> (\<exists>st'. answers vk st d out st' \<and> key_stands vk s' st')"
proof (cases ev)
  case (Pressed code ext)
  with assms(2) have c: "scancode_to_cgkeycode code ext = Some vk" "d"
    by (auto simp: inputs_of_Cons split: option.splits if_splits)
  from key_same [of e a code ext True "mark_input_activity a s" s' out, OF _ c(1) assms(4) _ assms(3)]
    assms Pressed c show ?thesis by simp
next
  case (Released code ext)
  with assms(2) have c: "scancode_to_cgkeycode code ext = Some vk" "\<not> d"
    by (auto simp: inputs_of_Cons split: option.splits if_splits)
  from key_same [of e a code ext False "mark_input_activity a s" s' out, OF _ c(1) assms(4) _ assms(3)]
    assms Released c show ?thesis by simp
qed (use assms(2) in \<open>auto simp: inputs_of_Cons\<close>)

text \<open>The conversation on a key in a run: its events, each with all that was posted for it.\<close>

fun conversation :: "keycode \<Rightarrow> input_env \<Rightarrow> inner \<Rightarrow> (input_answers \<times> keyboard_event) list \<Rightarrow> (bool \<times> posted list) list"
where
  "conversation vk e s [] = []"
| "conversation vk e s (x # xs) =
     (let (s1, out) = kb_step e s x
      in map (\<lambda>d. (d, out)) (inputs_of vk [snd x]) @ conversation vk e s1 xs)"

abbreviation posts_in :: "keycode \<Rightarrow> (bool \<times> posted list) list \<Rightarrow> bool list" where
  "posts_in vk tr \<equiv> concat (map (\<lambda>(d, out). posts_of vk out) tr)"

lemma inputs_one: "inputs_of vk [ev] = [] \<or> (\<exists>d. inputs_of vk [ev] = [d])"
  by (auto simp: inputs_of_Cons split: option.split)

lemma inputs_split: "inputs_of vk (map snd (x # aes)) = inputs_of vk [snd x] @ inputs_of vk (map snd aes)"
  by (simp add: inputs_of_Cons split: option.splits)

lemma kb_run_answered:
  assumes "run_out (kb_step e) s aes = (s', out)" and "untranslated vk s"
    and "\<forall>x \<in> set aes. \<forall>src. ia_created (fst x) src" and "\<not> is_modifier_vk vk"
    and "key_stands vk s st" and "brackets (st \<noteq> Up) (inputs_of vk (map snd aes))"
  shows "answered vk st (conversation vk e s aes)
    \<and> map fst (conversation vk e s aes) = inputs_of vk (map snd aes)
    \<and> posts_of vk out = posts_in vk (conversation vk e s aes)"
  using assms
proof (induction aes arbitrary: s s' out st)
  case Nil
  then show ?case by simp
next
  case (Cons x aes)
  obtain s1 out1 where kb: "kb_step e s x = (s1, out1)" by fastforce
  obtain s2 out2 where run: "run_out (kb_step e) s1 aes = (s2, out2)" by fastforce
  have out: "out = out1 @ out2" using Cons.prems(1) kb run by simp
  have created: "\<forall>src. ia_created (fst x) src" "\<forall>x \<in> set aes. \<forall>src. ia_created (fst x) src"
    using Cons.prems(3) by simp_all
  note ks = kb [unfolded kb_step_def]
  from inputs_one [of vk "snd x"] show ?case
  proof
    assume n: "inputs_of vk [snd x] = []"
    note one = kb_step_other [OF ks n created(1), of st]
    have "untranslated vk s1" using one Cons.prems(2) by (auto simp: untranslated_def)
    from Cons.IH [OF run this created(2) Cons.prems(4), of st] one Cons.prems(5,6) n show ?thesis
      unfolding inputs_split out by (simp add: kb)
  next
    assume "\<exists>d. inputs_of vk [snd x] = [d]"
    then obtain d where d: "inputs_of vk [snd x] = [d]" by blast
    have b: "d \<longleftrightarrow> st = Up" "brackets d (inputs_of vk (map snd aes))"
      using Cons.prems(6) unfolding inputs_split d by auto
    from kb_step_same [OF ks d created(1) Cons.prems(4,2,5) b(1)] obtain st' where
      st': "untranslated vk s1" "answers vk st d out1 st'" "key_stands vk s1 st'" by blast
    have "st' \<noteq> Up \<longleftrightarrow> d" using st'(2) by (auto elim: answers.cases)
    with Cons.IH [OF run st'(1) created(2) Cons.prems(4) st'(3)] b(2) answered_step [OF st'(2)] d show ?thesis
      unfolding inputs_split out by (simp add: kb)
  qed
qed

lemma action_not_posted: "length out = 1 \<Longrightarrow> list_all is_hotkey_action out \<Longrightarrow> posts_of vk out = []"
proof (cases out)
  case (Cons act acts)
  assume "length out = 1" "list_all is_hotkey_action out"
  with Cons show ?thesis by (cases act) (simp_all add: posts_of_Cons)
qed simp

lemma answered_brackets:
  "answered vk st tr \<Longrightarrow> brackets (st = Open) (posts_in vk tr)
     \<and> (final (st = Open) (posts_in vk tr) \<longrightarrow> final (st \<noteq> Up) (map fst tr))"
  by (induction vk st tr rule: answered.induct) (auto simp: action_not_posted)


definition fresh_keyboard :: inner where
  "fresh_keyboard = inner_new \<lparr>source_data_for_id = (\<lambda>_. None), source_data_for_language = (\<lambda>_. None),
     kbd_type = 0\<rparr> 0 None None (Some (lit ''none'')) False"

definition no_answers :: input_answers where
  "no_answers = \<lparr>ia_now = 0, ia_monotonic_ms = 0, ia_created = (\<lambda>_. True), ia_bounds = (0, 0, 1920, 1080),
     ia_klid = 0, ia_layouts = \<lparr>source_data_for_id = (\<lambda>_. None), source_data_for_language = (\<lambda>_. None),
     kbd_type = 0\<rparr>, ia_uckey = (\<lambda>_ _ _ _ d. (Some [], d)), ia_cycle_active = False,
     ia_focus_bundle = None, ia_ax_bundle = None, ia_mru_front = None\<rparr>"

definition remap_env :: input_env where
  "remap_env = \<lparr>alt_tab_switch = False, alt_backtick_switch = False, map_ctrl_to_cmd = True,
     no_remap_apps = []\<rparr>"

text \<open>Ctrl, C down, Ctrl released first, C released.\<close>

definition copy_chord :: "(input_answers \<times> keyboard_event) list" where
  "copy_chord = map (Pair no_answers)
     [Pressed 0x1D False, Pressed 0x2E False, Released 0x1D False, Released 0x2E False]"

lemma fresh_keyboard_fields:
  "no_layout fresh_keyboard" "consumed_keys fresh_keyboard = {}" "remapped_keys fresh_keyboard = {}"
  "mods fresh_keyboard = modifiers_default"
  by (simp_all add: fresh_keyboard_def inner_new_def no_layout_def choose_layout_def lit_def trim_def
      is_whitespace_def)

lemma sample_codes:
  "scancode_to_cgkeycode 0x1D False = Some VK_LCTRL" "scancode_to_cgkeycode 0x2E False = Some 0x08"
  "scancode_to_cgkeycode 0x38 False = Some VK_LALT" "scancode_to_cgkeycode 0x22 False = Some VK_G"
  by (simp_all add: scancode_to_cgkeycode_def SCANCODE_NORMAL_def vk_defs)

lemmas key_eval = kb_step_def key_def plain_key_def modifier_key_def modifiers_apply_def is_modifier_vk_def
  symbolic_hotkey_def remaps_def cycle_released_def refresh_auto_layout_def mark_input_activity_def
  post_ctrl_as_cmd_def post_flags_changed_def post_key_def key_posted_def key_flags_def ctrl_as_cmd_def
  cg_flags_def flag_if_def has_ctrl_def has_cmd_def has_alt_def frontmost_is_excluded_def
  frontmost_bundle_def is_remappable_shortcut_def is_function_key_vk_def is_numeric_pad_vk_def


theorem modifier_flags_exact_witness:
  "cg_flags (mods (kb_run remap_env fresh_keyboard [(no_answers, Pressed 0x1D False)]))
     = {CGControl, NX_DEVICE_L_CTRL}
   \<and> flags_posts (snd (keyboard_step remap_env no_answers
        (kb_run remap_env fresh_keyboard [(no_answers, Pressed 0x1D False)]) (Released 0x1D False)))
     = [(Combined, {}), (Hid, {})]"
proof -
  let ?s = "kb_run remap_env fresh_keyboard [(no_answers, Pressed 0x1D False)]"
  obtain s' out where st: "keyboard_step remap_env no_answers ?s (Released 0x1D False) = (s', out)"
    by fastforce
  have one: "held [Pressed 0x1D False] v = (v = VK_LCTRL)"
    and two: "held ([Pressed 0x1D False] @ [Released 0x1D False]) v = False" for v
    by (auto simp: held_def inputs_of_Cons sample_codes)
  have f1: "history_flags [Pressed 0x1D False] = {CGControl, NX_DEVICE_L_CTRL}"
    by (simp add: history_flags_def one key_bits_simps sample_codes) (simp add: vk_defs)
  have f2: "history_flags ([Pressed 0x1D False] @ [Released 0x1D False]) = {}"
    unfolding history_flags_def two by (simp add: sample_codes) (simp add: vk_defs)
  have t: "touches_modifiers (Released 0x1D False)"
    by (auto simp: sample_codes is_modifier_vk_def)
  from modifier_flags_exact [OF fresh_keyboard_fields(4) refl, of "[Pressed 0x1D False]"
      "[(no_answers, Pressed 0x1D False)]" remap_env no_answers "Released 0x1D False" s' out] st t f1 f2
  show ?thesis by (simp add: no_answers_def)
qed

section \<open>Where the pairing fails\<close>

text \<open>
  A key that repeats while the modifiers change can be consumed by one press and remapped by the
  next: Ctrl+Option+G gathers the windows, Option is released, G repeats and is posted as Cmd+G; its
  release is swallowed with the first press, and the system is left with Cmd and G down.
\<close>

lemma repeat_unpaired:
  "posts_of VK_G (snd (run_out (kb_step remap_env) (fresh_keyboard\<lparr>target_display_id := Some 1\<rparr>)
     (map (Pair no_answers) [Pressed 0x1D False, Pressed 0x38 False, Pressed 0x22 False,
        Released 0x38 False, Pressed 0x22 False, Released 0x22 False, Released 0x1D False]))) = [True]"
  by (simp add: fresh_keyboard_def inner_new_def modifiers_default_def no_answers_def remap_env_def
      choose_layout_def sample_codes key_eval vk_defs posts_of_Cons lit_def trim_def is_whitespace_def Let_def)

text \<open>
  With a layout to translate, the branch a release takes is chosen by the modifiers of that moment:
  a letter pressed with Ctrl goes out as a key, and its release after Ctrl was let go is swallowed.
\<close>

lemma layout_release_swallowed:
  "posts_of 0x08 (snd (run_out (kb_step (remap_env\<lparr>map_ctrl_to_cmd := False\<rparr>))
     (fresh_keyboard\<lparr>layout := Some k\<rparr>) copy_chord)) = [True]"
  by (simp add: fresh_keyboard_def inner_new_def modifiers_default_def no_answers_def remap_env_def
      choose_layout_def copy_chord_def sample_codes key_eval layout_key_def is_translatable_keycode_def
      vk_defs posts_of_Cons lit_def trim_def is_whitespace_def Let_def)

section \<open>The layout a client announces\<close>

lemma hex_char_value:
  assumes "d < 16"
  shows "is_ascii_hexdigit (hex_char d) \<and> hex_digit_value (hex_char d) = d \<and> ascii_lower (hex_char d) = hex_char d
    \<and> utf8_width (hex_char d) = 1"
  using assms
  by (auto simp: hex_char_def is_ascii_hexdigit_def is_ascii_digit_def hex_digit_value_def ascii_lower_def
      utf8_width_def)

lemma hex4_value:
  assumes "n < 65536"
  shows "hex_value (hex4 n) = n"
proof -
  have "hex_value (hex4 n) = 4096 * (n div 4096 mod 16) + 256 * (n div 256 mod 16) + 16 * (n div 16 mod 16) + n mod 16"
    by (simp add: hex_value_def hex4_def hex_char_value)
  also have "\<dots> = n"
  proof -
    have q: "n div 4096 mod 16 = n div 4096" using assms by simp
    have "n = 4096 * (n div 4096) + n mod 4096" by simp
    moreover have "n mod 4096 = 256 * (n div 256 mod 16) + n mod 256"
      using mod_mult2_eq [of n 256 16] by simp
    moreover have "n mod 256 = 16 * (n div 16 mod 16) + n mod 16"
      using mod_mult2_eq [of n 16 16] by simp
    ultimately show ?thesis using q by linarith
  qed
  finally show ?thesis .
qed

lemma klid_low_bound: "unat (klid AND 0xFFFF :: u32) < 65536"
proof -
  have "(klid AND 0xFFFF :: u32) \<le> 0xFFFF" by (rule word_and_le1)
  then show ?thesis by (simp add: word_le_nat_alt)
qed

lemma klid_spec_lower: "to_ascii_lowercase (klid_spec klid) = klid_spec klid"
proof -
  have "ascii_lower 48 = 48" "ascii_lower 120 = 120" by (simp_all add: ascii_lower_def)
  then show ?thesis by (simp add: klid_spec_def to_ascii_lowercase_def hex4_def hex_char_value lit_def)
qed

lemma klid_spec_parses: "parse_klid (klid_spec klid) = Some (klid AND 0xFFFF)"
proof -
  have pre: "strip_prefix (lit ''0x'') (klid_spec klid) = Some (hex4 (unat (klid AND 0xFFFF)))"
    by (simp add: strip_prefix_def klid_spec_def lit_def)
  have "hex4 n \<noteq> [] \<and> utf8_len (hex4 n) \<le> 8 \<and> list_all is_ascii_hexdigit (hex4 n)" for n
    by (simp add: hex4_def utf8_len_def hex_char_value)
  then show ?thesis
    by (simp add: parse_klid_def pre hex4_value [OF klid_low_bound])
qed

lemma klid_spec_no_name: "name_to_source_id (klid_spec klid) = None" "language_of_name (klid_spec klid) = None"
proof -
  have first: "hd (klid_spec klid) = 48" "klid_spec klid \<noteq> []"
    by (simp_all add: klid_spec_def lit_def)
  have no: "match_names arms (klid_spec klid) = None"
    if "\<forall>(names, _) \<in> set arms. \<forall>n \<in> set names. n \<noteq> [] \<and> hd n \<noteq> CHR ''0''" for arms :: "(string list \<times> 'a) list"
  proof -
    have "klid_spec klid \<noteq> lit n" if "n \<noteq> []" "hd n \<noteq> CHR ''0''" for n
    proof
      assume "klid_spec klid = lit n"
      with that first(1) have "of_char (hd n) = (48 :: nat)" by (cases n) (simp_all add: lit_def)
      also have "\<dots> = of_char CHR ''0''" by simp
      finally show False using that(2) by (simp only: of_char_eq_iff)
    qed
    with that show ?thesis by (fastforce simp: match_names_def find_None_iff)
  qed
  show "name_to_source_id (klid_spec klid) = None" "language_of_name (klid_spec klid) = None"
    unfolding name_to_source_id_def language_of_name_def by (rule no; simp)+
qed

text \<open>
  A keyboard layout announced by the client is looked up by its language identifier: written as
  \<open>0x\<close> and four hexadecimal digits and read back, the specification is taken for the identifier's low
  16 bits and never for a layout name, so the input source is that of the identifier, and the
  language tried when it is not installed is the identifier's primary language.
\<close>

theorem announced_layout_roundtrip:
  "parse_klid (klid_spec klid) = Some (klid AND 0xFFFF)
   \<and> spec_to_source_id (trim (klid_spec klid)) = klid_to_source_id (klid AND 0xFFFF)
   \<and> spec_to_language (trim (klid_spec klid)) = language_of_klid (klid AND 0xFFFF)
   \<and> 46 \<notin> set (trim (klid_spec klid))"
proof -
  have ws: "\<not> is_whitespace (hex_char d)" "hex_char d \<noteq> 46" if "d < 16" for d
    using that by (auto simp: hex_char_def is_whitespace_def)
  have noch: "\<forall>c \<in> set (klid_spec klid). \<not> is_whitespace c \<and> c \<noteq> 46"
  proof -
    have "\<not> is_whitespace 48" "\<not> is_whitespace 120" by (simp_all add: is_whitespace_def)
    then show ?thesis by (simp add: klid_spec_def hex4_def ws lit_def)
  qed
  have ne: "klid_spec klid \<noteq> []" by (simp add: klid_spec_def lit_def)
  have tr: "trim (klid_spec klid) = klid_spec klid"
  proof -
    have d: "dropWhile is_whitespace xs = xs" if "\<forall>c \<in> set xs. \<not> is_whitespace c" for xs
      using that by (cases xs) auto
    show ?thesis using noch by (simp add: trim_def d)
  qed
  have "46 \<notin> set (klid_spec klid)" using noch by blast
  then show ?thesis
    by (simp add: tr spec_to_source_id_def spec_to_language_def klid_spec_lower klid_spec_no_name
        klid_spec_parses)
qed

end
