(* ===== verification/Input_Pointer.thy ===== *)
theory Input_Pointer
  imports Input_Keys "HOL-Library.Signed_Division"
begin

text \<open>
  The pointer half of \<open>src/src/input.rs\<close>: the mapping of client coordinates into the captured display,
  absolute and relative motion, buttons with their click counts, and the wheel. Coordinates are
  \<open>f64\<close>, idealised as reals; a panic is \<open>None\<close>.
\<close>

section \<open>Coordinates\<close>

definition map_client_to_display ::
    "u16 \<Rightarrow> u16 \<Rightarrow> u16 \<Rightarrow> u16 \<Rightarrow> real \<Rightarrow> real \<Rightarrow> bool \<Rightarrow> real \<times> real" where
  "map_client_to_display x y dw dh sw sh bars =
     (let dwf = real (unat (max dw 1)); dhf = real (unat (max dh 1));
          fx = real (unat x); fy = real (unat y);
          (mx, my) =
            (if bars then
               let mac_aspect = sw / max sh 1; out_aspect = dwf / dhf;
                   (cw, ch) = (if mac_aspect < out_aspect then (dhf * mac_aspect, dhf)
                               else (dwf, dwf / mac_aspect));
                   off_x = (dwf - cw) / 2; off_y = (dhf - ch) / 2
               in (clamp ((fx - off_x) / cw) 0 1 * sw, clamp ((fy - off_y) / ch) 0 1 * sh)
             else (fx * sw / dwf, fy * sh / dhf))
      in (clamp mx 0 (max (sw - 1) 0), clamp my 0 (max (sh - 1) 0)))"

text \<open>\<open>f64::clamp\<close> panics when its bounds are out of order.\<close>

definition clamp_opt :: "real \<Rightarrow> real \<Rightarrow> real \<Rightarrow> real option" where
  "clamp_opt x lo hi = (if lo \<le> hi then Some (clamp x lo hi) else None)"

definition BOUNDS_CACHE_TTL :: duration where "BOUNDS_CACHE_TTL = from_millis 250"

definition target_bounds :: "input_answers \<Rightarrow> inner \<Rightarrow> bounds \<times> inner" where
  "target_bounds a s =
     (case cached_bounds s of
        Some b \<Rightarrow>
          if saturating_duration_since (ia_now a) (bounds_cached_at s) < BOUNDS_CACHE_TTL then (b, s)
          else (ia_bounds a, s\<lparr>cached_bounds := Some (ia_bounds a), bounds_cached_at := ia_now a\<rparr>)
      | None \<Rightarrow> (ia_bounds a, s\<lparr>cached_bounds := Some (ia_bounds a), bounds_cached_at := ia_now a\<rparr>))"

section \<open>Motion\<close>

definition drag_type :: "inner \<Rightarrow> mouse_event_type" where
  "drag_type s =
     (if left_down s then LeftMouseDragged else if right_down s then RightMouseDragged
      else if middle_down s then OtherMouseDragged else MouseMoved)"

definition drag_button :: "inner \<Rightarrow> mouse_button" where
  "drag_button s =
     (if middle_down s then CenterButton else if right_down s then RightButton else LeftButton)"

definition post_move :: "input_answers \<Rightarrow> real \<Rightarrow> real \<Rightarrow> inner \<Rightarrow> inner \<times> posted list" where
  "post_move a sx sy s =
     (let s = s\<lparr>last_x := sx, last_y := sy\<rparr>
      in (s, if ia_created a Combined
             then [MouseEvent (drag_type s) sx sy (drag_button s) None] else []))"

definition move_to ::
    "input_answers \<Rightarrow> u16 \<Rightarrow> u16 \<Rightarrow> u16 \<Rightarrow> u16 \<Rightarrow> bool \<Rightarrow> inner \<Rightarrow> inner \<times> posted list" where
  "move_to a x y desktop_w desktop_h bars s =
     (let ((ox, oy, sw, sh), s) = target_bounds a s;
          (mx, my) = map_client_to_display x y desktop_w desktop_h sw sh bars
      in post_move a (ox + mx) (oy + my) s)"

definition move_rel :: "input_answers \<Rightarrow> int \<Rightarrow> int \<Rightarrow> inner \<Rightarrow> (inner \<times> posted list) option" where
  "move_rel a dx dy s =
     (let ((ox, oy, sw, sh), s) = target_bounds a s
      in case (clamp_opt (last_x s + of_int dx) ox (ox + sw - 1),
               clamp_opt (last_y s + of_int dy) oy (oy + sh - 1)) of
           (Some sx, Some sy) \<Rightarrow> Some (post_move a sx sy s)
         | _ \<Rightarrow> None)"

section \<open>Buttons\<close>

definition DOUBLE_CLICK_INTERVAL :: duration where "DOUBLE_CLICK_INTERVAL = from_millis 500"
definition DOUBLE_CLICK_SLOP_PX :: real where "DOUBLE_CLICK_SLOP_PX = 5"

fun button_type :: "mouse_button \<Rightarrow> bool \<Rightarrow> mouse_event_type" where
  "button_type LeftButton True = LeftMouseDown"
| "button_type LeftButton False = LeftMouseUp"
| "button_type RightButton True = RightMouseDown"
| "button_type RightButton False = RightMouseUp"
| "button_type CenterButton True = OtherMouseDown"
| "button_type CenterButton False = OtherMouseUp"

fun set_button :: "mouse_button \<Rightarrow> bool \<Rightarrow> inner \<Rightarrow> inner" where
  "set_button LeftButton down s = s\<lparr>left_down := down\<rparr>"
| "set_button RightButton down s = s\<lparr>right_down := down\<rparr>"
| "set_button CenterButton down s = s\<lparr>middle_down := down\<rparr>"

fun click_slot :: "mouse_button \<Rightarrow> inner \<Rightarrow> click_state option" where
  "click_slot LeftButton s = click_left s"
| "click_slot RightButton s = click_right s"
| "click_slot CenterButton s = click_middle s"

fun set_click_slot :: "mouse_button \<Rightarrow> click_state option \<Rightarrow> inner \<Rightarrow> inner" where
  "set_click_slot LeftButton c s = s\<lparr>click_left := c\<rparr>"
| "set_click_slot RightButton c s = s\<lparr>click_right := c\<rparr>"
| "set_click_slot CenterButton c s = s\<lparr>click_middle := c\<rparr>"

definition near_click :: "instant \<Rightarrow> real \<Rightarrow> real \<Rightarrow> click_state \<Rightarrow> bool" where
  "near_click now x y p \<longleftrightarrow>
     saturating_duration_since now (click_time p) \<le> DOUBLE_CLICK_INTERVAL
     \<and> \<bar>x - click_x p\<bar> \<le> DOUBLE_CLICK_SLOP_PX \<and> \<bar>y - click_y p\<bar> \<le> DOUBLE_CLICK_SLOP_PX"

definition next_click :: "instant \<Rightarrow> real \<Rightarrow> real \<Rightarrow> click_state option \<Rightarrow> click_state" where
  "next_click now x y slot =
     \<lparr>click_time = now, click_x = x, click_y = y,
      click_count = (case slot of
        Some p \<Rightarrow> if near_click now x y p then click_count p + 1 else 1 | None \<Rightarrow> 1)\<rparr>"

definition mouse_button_event ::
    "input_env \<Rightarrow> input_answers \<Rightarrow> mouse_button \<Rightarrow> bool \<Rightarrow> inner \<Rightarrow> inner \<times> posted list" where
  "mouse_button_event e a b down s =
     (let s = set_button b down s;
          s = (if down then set_click_slot b
                 (Some (next_click (ia_now a) (last_x s) (last_y s) (click_slot b s))) s else s);
          count = (case click_slot b s of Some p \<Rightarrow> click_count p | None \<Rightarrow> 1)
      in if ia_created a Combined
         then (s, [MouseEvent (button_type b down) (last_x s) (last_y s) b (Some count)]
                  @ (if down \<and> map_ctrl_to_cmd e then [FocusFromClick (last_x s) (last_y s)] else []))
         else (s, []))"

section \<open>The wheel\<close>

text \<open>An \<open>i32\<close> in a release build wraps; its division truncates towards zero.\<close>

definition wrap_i32 :: "int \<Rightarrow> int" where "wrap_i32 n = (n + 2 ^ 31) mod 2 ^ 32 - 2 ^ 31"

definition SCROLL_SCALE :: int where "SCROLL_SCALE = 60"

definition scroll_lines :: "int \<Rightarrow> int" where "scroll_lines n = clamp (n sdiv SCROLL_SCALE) (- 5) 5"

definition scroll :: "input_answers \<Rightarrow> int \<Rightarrow> int \<Rightarrow> inner \<Rightarrow> inner \<times> posted list" where
  "scroll a vertical horizontal s =
     (let va = wrap_i32 (scroll_v_accum s + vertical); ha = wrap_i32 (scroll_h_accum s + horizontal);
          v = scroll_lines va; h = scroll_lines ha;
          s = s\<lparr>scroll_v_accum := va - v * SCROLL_SCALE, scroll_h_accum := ha - h * SCROLL_SCALE\<rparr>
      in if v = 0 \<and> h = 0 \<or> \<not> ia_created a Combined then (s, []) else (s, [ScrollLines v h]))"

section \<open>Mouse events\<close>

datatype mouse_event =
    Move u16 u16
  | Button mouse_button bool
  | ExtraButton
  | VerticalScroll int
  | Scroll int int
  | RelMove int int

fun mouse_step ::
    "input_env \<Rightarrow> input_answers \<Rightarrow> shared_desktop_size \<Rightarrow> inner \<Rightarrow> mouse_event
      \<Rightarrow> (inner \<times> posted list) option" where
  "mouse_step e a d s (Move x y) =
     Some (move_to a x y (fst (desktop_get d)) (snd (desktop_get d)) (letterbox d)
             (mark_input_activity a s))"
| "mouse_step e a d s (Button b down) = Some (mouse_button_event e a b down (mark_input_activity a s))"
| "mouse_step e a d s ExtraButton = Some (mark_input_activity a s, [])"
| "mouse_step e a d s (VerticalScroll v) = Some (scroll a v 0 (mark_input_activity a s))"
| "mouse_step e a d s (Scroll x y) = Some (scroll a y x (mark_input_activity a s))"
| "mouse_step e a d s (RelMove dx dy) = move_rel a dx dy (mark_input_activity a s)"

text \<open>The handler the protocol server calls: a press also marks the click hint of the capture loop.\<close>

definition handle_mouse ::
    "input_env \<Rightarrow> input_answers \<Rightarrow> duration \<Rightarrow> shared_desktop_size \<Rightarrow> mouse_event
      \<Rightarrow> click_signal option \<times> inner \<Rightarrow> ((click_signal option \<times> inner) \<times> posted list) option"
where
  "handle_mouse e a elapsed d ev = (\<lambda>(click, s).
     let click = (case ev of Button b True \<Rightarrow> map_option (record_click elapsed) click | _ \<Rightarrow> click)
     in map_option (\<lambda>(s, out). ((click, s), out @ [RecordDuration False])) (mouse_step e a d s ev))"

end
