(* ===== verification/Input_Pointer_Props.thy ===== *)
theory Input_Pointer_Props
  imports Input_Pointer Input_Key_Props
begin

text \<open>
  The pointer: it stays on the captured display, a scroll gesture is neither lost nor amplified, and
  where relative motion panics.
\<close>

section \<open>The pointer stays on the display\<close>

lemma map_client_bounds:
  assumes "map_client_to_display x y dw dh sw sh bars = (mx, my)" and "1 \<le> sw" and "1 \<le> sh"
  shows "0 \<le> mx \<and> mx \<le> sw - 1 \<and> 0 \<le> my \<and> my \<le> sh - 1"
proof -
  obtain P where "map_client_to_display x y dw dh sw sh bars
      = (clamp (fst P) 0 (max (sw - 1) 0), clamp (snd P) 0 (max (sh - 1) 0))"
    unfolding map_client_to_display_def Let_def split_beta by blast
  with assms clamp_bounds [of 0 "max (sw - 1) 0" "fst P"] clamp_bounds [of 0 "max (sh - 1) 0" "snd P"]
  show ?thesis by simp
qed

lemma map_client_stretch:
  assumes "map_client_to_display x y dw dh sw sh False = (mx, my)" and "1 \<le> sw" and "1 \<le> sh"
    and "0 < unat dw" and "0 < unat dh"
  shows "mx = min (real (unat x) * sw / real (unat dw)) (sw - 1)
    \<and> my = min (real (unat y) * sh / real (unat dh)) (sh - 1)"
proof -
  have "max dw 1 = dw" "max dh 1 = dh"
    using assms(4,5) by (auto simp: max_def word_le_nat_alt word_unat_eq_iff)
  moreover have "0 \<le> real n * z / real m" if "1 \<le> z" for n m z using that by simp
  from this [OF assms(2), of "unat x" "unat dw"] this [OF assms(3), of "unat y" "unat dh"]
  have "0 \<le> real (unat x) * sw / real (unat dw)" "0 \<le> real (unat y) * sh / real (unat dh)" by blast+
  ultimately show ?thesis
    using assms(1-3) by (auto simp: map_client_to_display_def Let_def clamp_def min_def)
qed

fun pointer_event :: "mouse_event \<Rightarrow> bool" where
  "pointer_event (Move _ _) \<longleftrightarrow> True"
| "pointer_event (RelMove _ _) \<longleftrightarrow> True"
| "pointer_event _ \<longleftrightarrow> False"

lemma target_bounds_keeps:
  assumes "target_bounds a s = (b, s')"
  shows "last_x s' = last_x s" "last_y s' = last_y s"
  using assms by (auto simp: target_bounds_def split: option.splits if_splits)

lemma clamp_real_bounds: "lo \<le> hi \<Longrightarrow> lo \<le> clamp x lo hi \<and> clamp x lo hi \<le> (hi :: real)"
  by (rule clamp_bounds)

text \<open>
  C38. The pointer stays on the captured display: whatever position or motion the client sends,
  absolute coordinates beyond its own desktop and letterbox bars included, the event is handled
  without a panic, and the pointer is put, and any event posted, on a pixel of the display as its
  bounds are known (at most a quarter of a second old); a stretched absolute position lands on the
  proportional point, the last pixel at most.
\<close>

theorem pointer_on_display:
  assumes "pointer_event ev"
    and "fst (target_bounds a (mark_input_activity a s)) = (ox, oy, sw, sh)" and "1 \<le> sw" and "1 \<le> sh"
  shows "\<exists>s' out. mouse_step e a d s ev = Some (s', out)
    \<and> ox \<le> last_x s' \<and> last_x s' \<le> ox + sw - 1 \<and> oy \<le> last_y s' \<and> last_y s' \<le> oy + sh - 1
    \<and> (\<forall>t px py b n. MouseEvent t px py b n \<in> set out \<longrightarrow> px = last_x s' \<and> py = last_y s')
    \<and> (\<forall>x y. ev = Move x y \<longrightarrow> \<not> letterbox d \<longrightarrow> 0 < unat (fst (desktop_get d)) \<longrightarrow>
         0 < unat (snd (desktop_get d)) \<longrightarrow>
         last_x s' = ox + min (real (unat x) * sw / real (unat (fst (desktop_get d)))) (sw - 1)
         \<and> last_y s' = oy + min (real (unat y) * sh / real (unat (snd (desktop_get d)))) (sh - 1))"
proof -
  let ?m = "mark_input_activity a s"
  obtain s1 where tb: "target_bounds a ?m = ((ox, oy, sw, sh), s1)"
    using assms(2) by (cases "target_bounds a ?m") auto
  show ?thesis
  proof (cases ev)
    case (Move x y)
    let ?w = "fst (desktop_get d)" and ?h = "snd (desktop_get d)"
    obtain mx my where mp: "map_client_to_display x y ?w ?h sw sh (letterbox d) = (mx, my)" by fastforce
    from map_client_bounds [OF mp assms(3,4)] map_client_stretch [of x y ?w ?h sw sh mx my] mp assms(3,4)
    show ?thesis by (auto simp: Move move_to_def tb post_move_def Let_def)
  next
    case (RelMove dx dy)
    have "ox \<le> ox + sw - 1" "oy \<le> oy + sh - 1" using assms(3,4) by simp_all
    with clamp_real_bounds [of ox "ox + sw - 1"] clamp_real_bounds [of oy "oy + sh - 1"]
    show ?thesis by (auto simp: RelMove move_rel_def tb clamp_opt_def post_move_def Let_def)
  qed (use assms(1) in auto)
qed

definition pointer_answers :: input_answers where
  "pointer_answers = no_answers\<lparr>ia_bounds := (0, 0, 200, 100)\<rparr>"

theorem pointer_on_display_witness:
  "\<exists>s' out. mouse_step remap_env pointer_answers (desktop_new 100 100) fresh_keyboard (Move 50 100) = Some (s', out)
    \<and> last_x s' = 100 \<and> last_y s' = 99 \<and> 0 \<le> last_x s'"
proof -
  have tb: "fst (target_bounds pointer_answers (mark_input_activity pointer_answers fresh_keyboard)) = (0, 0, 200, 100)"
    by (simp add: target_bounds_def pointer_answers_def mark_input_activity_def fresh_keyboard_def inner_new_def
        split: option.splits)
  have d: "desktop_get (desktop_new 100 100) = (100, 100)" "\<not> letterbox (desktop_new 100 100)"
    by (simp_all add: desktop_new_def desktop_get_def)
  from pointer_on_display [of "Move 50 100" pointer_answers fresh_keyboard 0 0 200 100 remap_env "desktop_new 100 100"] tb d
  show ?thesis by (auto simp: min_def)
qed

text \<open>
  Relative motion on a display without extent: the bounds of the clamp are out of order, and the
  handler panics. Absolute positions are guarded.
\<close>

lemma move_rel_panics:
  assumes "fst (target_bounds a (mark_input_activity a s)) = (ox, oy, 0, 0)"
  shows "mouse_step e a d s (RelMove dx dy) = None" and "mouse_step e a d s (Move x y) \<noteq> None"
  using assms by (auto simp: move_rel_def clamp_opt_def split: prod.splits)

section \<open>The wheel\<close>

lemma wrap_i32_id: "- (2 ^ 31) \<le> n \<Longrightarrow> n < 2 ^ 31 \<Longrightarrow> wrap_i32 n = n"
  by (simp add: wrap_i32_def)

lemma scroll_lines_bound: "- 5 \<le> scroll_lines n \<and> scroll_lines n \<le> 5"
  unfolding scroll_lines_def by (rule clamp_bounds) simp

lemma sdiv_60:
  fixes n :: int
  shows "\<bar>n - n sdiv 60 * 60\<bar> < 60 \<and> \<bar>n sdiv 60 * 60\<bar> \<le> \<bar>n\<bar>"
proof -
  have d: "n sdiv 60 = (if 0 \<le> n then n div 60 else - (- n div 60))"
    by (simp add: signed_divide_int_def sgn_if)
  have "m div 60 * 60 \<le> m \<and> m < m div 60 * 60 + 60" for m :: int by presburger
  from this [of n] this [of "- n"] show ?thesis unfolding d by (cases "0 \<le> n") simp_all
qed

text \<open>One axis: within the rotations the protocol can carry the clamp is never reached.\<close>

lemma scroll_axis:
  assumes "\<bar>acc\<bar> < 60" and "\<bar>d\<bar> \<le> 300"
  shows "wrap_i32 (acc + d) = acc + d" and "\<bar>acc + d - scroll_lines (acc + d) * SCROLL_SCALE\<bar> < 60"
proof -
  show "wrap_i32 (acc + d) = acc + d" using assms by (intro wrap_i32_id) simp_all
  have "- 5 \<le> (acc + d) sdiv 60 \<and> (acc + d) sdiv 60 \<le> 5"
    using sdiv_60 [of "acc + d"] assms by arith
  then have "scroll_lines (acc + d) = (acc + d) sdiv 60"
    by (simp add: scroll_lines_def SCROLL_SCALE_def clamp_def)
  with sdiv_60 [of "acc + d"] show "\<bar>acc + d - scroll_lines (acc + d) * SCROLL_SCALE\<bar> < 60"
    by (simp add: SCROLL_SCALE_def)
qed

fun mouse_run ::
    "input_env \<Rightarrow> shared_desktop_size \<Rightarrow> inner \<Rightarrow> (input_answers \<times> mouse_event) list
      \<Rightarrow> (inner \<times> posted list) option" where
  "mouse_run e d s [] = Some (s, [])"
| "mouse_run e d s ((a, ev) # es) =
     Option.bind (mouse_step e a d s ev)
       (\<lambda>(t, os). map_option (\<lambda>(u, os'). (u, os @ os')) (mouse_run e d t es))"

text \<open>The rotation an event carries, vertical and horizontal, and the lines an output scrolls.\<close>

fun rotation :: "mouse_event \<Rightarrow> int \<times> int" where
  "rotation (VerticalScroll v) = (v, 0)"
| "rotation (Scroll x y) = (y, x)"
| "rotation _ = (0, 0)"

fun lines_of :: "posted \<Rightarrow> int \<times> int" where
  "lines_of (ScrollLines v h) = (v, h)"
| "lines_of _ = (0, 0)"

definition fst_sum :: "(int \<times> int) list \<Rightarrow> int" where "fst_sum ps = (\<Sum>p \<leftarrow> ps. fst p)"
definition snd_sum :: "(int \<times> int) list \<Rightarrow> int" where "snd_sum ps = (\<Sum>p \<leftarrow> ps. snd p)"

lemma pair_sums [simp]:
  "fst_sum [] = 0" "fst_sum (p # ps) = fst p + fst_sum ps" "fst_sum (ps @ qs) = fst_sum ps + fst_sum qs"
  "snd_sum [] = 0" "snd_sum (p # ps) = snd p + snd_sum ps" "snd_sum (ps @ qs) = snd_sum ps + snd_sum qs"
  by (simp_all add: fst_sum_def snd_sum_def)

definition settled :: "inner \<Rightarrow> bool" where
  "settled s \<longleftrightarrow> \<bar>scroll_v_accum s\<bar> < 60 \<and> \<bar>scroll_h_accum s\<bar> < 60"

definition small_scroll :: "posted \<Rightarrow> bool" where
  "small_scroll x \<longleftrightarrow> (\<forall>v h. x = ScrollLines v h \<longrightarrow> \<bar>v\<bar> \<le> 5 \<and> \<bar>h\<bar> \<le> 5 \<and> (v, h) \<noteq> (0, 0))"

definition wheel_range :: "input_answers \<times> mouse_event \<Rightarrow> bool" where
  "wheel_range x \<longleftrightarrow> ia_created (fst x) Combined
     \<and> \<bar>fst (rotation (snd x))\<bar> \<le> 300 \<and> \<bar>snd (rotation (snd x))\<bar> \<le> 300"

lemma scroll_step:
  assumes "scroll a v h s = (s', out)" and "settled s" and "\<bar>v\<bar> \<le> 300" and "\<bar>h\<bar> \<le> 300" and "ia_created a Combined"
  shows "settled s' \<and> 60 * fst_sum (map lines_of out) + scroll_v_accum s' = scroll_v_accum s + v
    \<and> 60 * snd_sum (map lines_of out) + scroll_h_accum s' = scroll_h_accum s + h \<and> list_all small_scroll out"
proof -
  let ?v = "scroll_lines (scroll_v_accum s + v)" and ?h = "scroll_lines (scroll_h_accum s + h)"
  note ax = scroll_axis [of "scroll_v_accum s" v] scroll_axis [of "scroll_h_accum s" h]
  have s': "s' = s\<lparr>scroll_v_accum := scroll_v_accum s + v - ?v * SCROLL_SCALE,
      scroll_h_accum := scroll_h_accum s + h - ?h * SCROLL_SCALE\<rparr>"
    and out: "out = (if ?v = 0 \<and> ?h = 0 then [] else [ScrollLines ?v ?h])"
    using assms ax by (auto simp: scroll_def Let_def settled_def split: if_splits)
  show ?thesis
    using ax assms(2-4) scroll_lines_bound [of "scroll_v_accum s + v"] scroll_lines_bound [of "scroll_h_accum s + h"]
    unfolding s' out by (auto simp: settled_def small_scroll_def SCROLL_SCALE_def)
qed

lemma still_step:
  assumes "mouse_step e a d s ev = Some (s', out)" and "\<forall>x y v. ev \<noteq> Scroll x y \<and> ev \<noteq> VerticalScroll v"
  shows "scroll_v_accum s' = scroll_v_accum s \<and> scroll_h_accum s' = scroll_h_accum s
    \<and> (\<forall>x \<in> set out. lines_of x = (0, 0) \<and> small_scroll x)"
proof -
  note still = post_move_def mark_input_activity_def target_bounds_def Let_def small_scroll_def
  show ?thesis
  proof (cases ev)
    case (Move x y)
    with assms show ?thesis
      by (auto simp: move_to_def still split: prod.splits option.splits if_splits)
  next
    case (Button b down)
    with assms show ?thesis
      by (cases b; cases down) (auto simp: mouse_button_event_def still split: if_splits)
  next
    case (RelMove dx dy)
    with assms show ?thesis
      by (auto simp: move_rel_def still split: prod.splits option.splits if_splits)
  qed (use assms in \<open>auto simp: mark_input_activity_def\<close>)
qed

lemma mouse_step_wheel:
  assumes "mouse_step e a d s ev = Some (s', out)" and "settled s" and "wheel_range (a, ev)"
  shows "settled s' \<and> 60 * fst_sum (map lines_of out) + scroll_v_accum s' = scroll_v_accum s + fst (rotation ev)
    \<and> 60 * snd_sum (map lines_of out) + scroll_h_accum s' = scroll_h_accum s + snd (rotation ev)
    \<and> list_all small_scroll out"
proof (cases "\<forall>x y v. ev \<noteq> Scroll x y \<and> ev \<noteq> VerticalScroll v")
  case True
  note st = still_step [OF assms(1) True]
  then have "fst_sum (map lines_of out) = 0 \<and> snd_sum (map lines_of out) = 0"
    by (induction out) simp_all
  moreover have "rotation ev = (0, 0)" using True by (cases ev) simp_all
  ultimately show ?thesis using st assms(2) by (simp add: settled_def list_all_iff)
next
  case False
  let ?m = "mark_input_activity a s"
  have m: "settled ?m" "scroll_v_accum ?m = scroll_v_accum s" "scroll_h_accum ?m = scroll_h_accum s"
    using assms(2) by (simp_all add: mark_input_activity_def settled_def)
  from False consider x y where "ev = Scroll x y" | v where "ev = VerticalScroll v" by blast
  then show ?thesis
  proof cases
    case 1
    with assms scroll_step [of a y x ?m s' out] m show ?thesis by (simp add: wheel_range_def)
  next
    case 2
    with assms scroll_step [of a v 0 ?m s' out] m show ?thesis by (simp add: wheel_range_def)
  qed
qed

text \<open>
  No motion of the wheel is lost or amplified: in any sequence of mouse events whose rotations
  stay within 300 units, more than the nine bits of the protocol hold, sixty times the lines scrolled
  on each axis and what is still accumulated add up to the rotation received and the accumulation at
  the start; the accumulation stays below one line, and no scroll event is empty or of more than five
  lines.
\<close>

theorem scroll_conserved:
  assumes "mouse_run e d s es = Some (s', out)" and "settled s" and "\<forall>x \<in> set es. wheel_range x"
  shows "60 * fst_sum (map lines_of out) + scroll_v_accum s'
      = scroll_v_accum s + fst_sum (map (rotation \<circ> snd) es)
    \<and> 60 * snd_sum (map lines_of out) + scroll_h_accum s'
      = scroll_h_accum s + snd_sum (map (rotation \<circ> snd) es)
    \<and> settled s' \<and> list_all small_scroll out"
  using assms
proof (induction es arbitrary: s out)
  case Nil
  then show ?case by simp
next
  case (Cons x es)
  obtain a ev where x: "x = (a, ev)" by fastforce
  with Cons.prems(1) obtain t os os' where st: "mouse_step e a d s ev = Some (t, os)"
    and run: "mouse_run e d t es = Some (s', os')" and out: "out = os @ os'"
    by (auto split: bind_splits)
  from mouse_step_wheel [OF st Cons.prems(2)] Cons.prems(3)
  have one: "settled t" "60 * fst_sum (map lines_of os) + scroll_v_accum t = scroll_v_accum s + fst (rotation ev)"
    "60 * snd_sum (map lines_of os) + scroll_h_accum t = scroll_h_accum s + snd (rotation ev)"
    "list_all small_scroll os" by (simp_all add: x)
  from Cons.IH [OF run one(1)] Cons.prems(3) one(2-) show ?case by (simp add: x out)
qed

theorem scroll_conserved_witness:
  "\<exists>s' out. mouse_run remap_env (desktop_new 100 100) fresh_keyboard
      [(pointer_answers, VerticalScroll 40), (pointer_answers, Scroll (- 70) 40)] = Some (s', out)
    \<and> 60 * fst_sum (map lines_of out) + scroll_v_accum s' = 80
    \<and> 60 * snd_sum (map lines_of out) + scroll_h_accum s' = - 70 \<and> settled s'"
proof -
  let ?es = "[(pointer_answers, VerticalScroll 40), (pointer_answers, Scroll (- 70) 40)]"
  obtain s' out where run: "mouse_run remap_env (desktop_new 100 100) fresh_keyboard ?es = Some (s', out)"
    by (auto simp: split_beta)
  have "settled fresh_keyboard" "scroll_v_accum fresh_keyboard = 0" "scroll_h_accum fresh_keyboard = 0"
    by (simp_all add: fresh_keyboard_def inner_new_def settled_def)
  moreover have "\<forall>x \<in> set ?es. wheel_range x"
    by (simp add: wheel_range_def pointer_answers_def no_answers_def)
  ultimately show ?thesis using scroll_conserved [OF run] run by auto
qed

end
