(* ===== verification/Input_Switcher.thy ===== *)
theory Input_Switcher
  imports Rust_Float
begin

text \<open>
  The application switcher of \<open>src/src/input.rs\<close>: the most-recently-used orders, the reconciliation
  of the workspace's idea of the front application with the activations made through the
  accessibility interface, the cycle session of a held modifier, its commit, and the focus poller.
  What the system reports (the running applications, the front one, the outcome of an activation)
  is an answer; activations and the overlay helper are outputs.
\<close>

type_synonym pid = int
type_synonym entry = "ustr \<times> ustr \<times> pid"

definition NO_BUNDLE :: ustr where "NO_BUNDLE = lit ''<no-bundle-id>''"

record app_meta =
  app_bundle :: ustr
  app_name :: ustr
  app_pid :: pid
  app_regular :: bool
  app_terminated :: bool

record cycle_session =
  snapshot :: "entry list"
  cursor_pid :: pid
  last_press_at :: instant
  cmd_release_gen :: nat

record switcher =
  mru_map :: "ustr \<Rightarrow> pid option"
  mru_bundles :: "ustr list"
  session :: "cycle_session option"
  release_generation :: nat
  last_ax_activated :: "pid option"
  workspace_lie_front :: "pid option"
  last_focus_bundle :: "ustr option"

datatype switch_call =
    HudShow "(pid \<times> ustr) list" nat
  | HudAdvance nat
  | HudHide
  | MakeFrontmost pid bool bool

record switch_config =
  unminimize_on_switch :: bool
  app_switcher_hud :: bool

record switch_answers =
  sa_now :: instant
  sa_apps :: "app_meta list"
  sa_workspace_front :: pid
  sa_activated :: "pid \<Rightarrow> bool"

definition entry_bundle :: "entry \<Rightarrow> ustr" where "entry_bundle x = fst x"
definition entry_name :: "entry \<Rightarrow> ustr" where "entry_name x = fst (snd x)"
definition entry_pid :: "entry \<Rightarrow> pid" where "entry_pid x = snd (snd x)"

section \<open>The orders\<close>

definition promote_bundle :: "ustr \<Rightarrow> ustr list \<Rightarrow> ustr list" where
  "promote_bundle b mru = (if b = NO_BUNDLE then mru else b # filter (\<lambda>x. x \<noteq> b) mru)"

definition promote :: "ustr \<Rightarrow> switcher \<Rightarrow> switcher" where
  "promote b s = s\<lparr>mru_bundles := promote_bundle b (mru_bundles s)\<rparr>"

definition effective_front_pid :: "pid \<Rightarrow> (pid \<Rightarrow> bool) \<Rightarrow> switcher \<Rightarrow> pid \<times> switcher" where
  "effective_front_pid workspace_pid alive s =
     (case (workspace_lie_front s, last_ax_activated s) of
        (Some lie, Some ax) \<Rightarrow>
          if lie = workspace_pid \<and> alive ax then (ax, s)
          else (workspace_pid, s\<lparr>workspace_lie_front := None, last_ax_activated := None\<rparr>)
      | _ \<Rightarrow> (workspace_pid, s\<lparr>workspace_lie_front := None, last_ax_activated := None\<rparr>))"

definition live_pid :: "app_meta list \<Rightarrow> pid \<Rightarrow> bool" where
  "live_pid metas p \<longleftrightarrow> list_ex (\<lambda>m. app_pid m = p \<and> \<not> app_terminated m) metas"

definition meta_of_pid :: "app_meta list \<Rightarrow> pid \<Rightarrow> app_meta option" where
  "meta_of_pid metas p = List.find (\<lambda>m. app_pid m = p) metas"

definition refresh_mru_map :: "app_meta list \<Rightarrow> pid \<Rightarrow> (ustr \<Rightarrow> pid option) \<Rightarrow> ustr \<Rightarrow> pid option" where
  "refresh_mru_map metas front m =
     (let m1 = (case meta_of_pid metas front of
            Some a \<Rightarrow> if app_bundle a = NO_BUNDLE then m else m(app_bundle a \<mapsto> app_pid a)
          | None \<Rightarrow> m)
      in (\<lambda>b. case m1 b of Some p \<Rightarrow> if live_pid metas p then Some p else None | None \<Rightarrow> None))"

section \<open>The candidates\<close>

text \<open>One entry per bundle, the most recently used instance when it is among the running ones.\<close>

definition meta_entry :: "app_meta \<Rightarrow> entry" where
  "meta_entry a = (app_bundle a, app_name a, app_pid a)"

definition add_candidate :: "(ustr \<Rightarrow> pid option) \<Rightarrow> entry list \<Rightarrow> app_meta \<Rightarrow> entry list" where
  "add_candidate mru acc a =
     (if \<not> app_regular a \<or> app_terminated a then acc
      else if app_bundle a = NO_BUNDLE then acc @ [meta_entry a]
      else if app_bundle a \<notin> set (map entry_bundle acc) then acc @ [meta_entry a]
      else if mru (app_bundle a) = Some (app_pid a)
        then map (\<lambda>x. if entry_bundle x = app_bundle a then meta_entry a else x) acc
      else acc)"

definition candidates :: "(ustr \<Rightarrow> pid option) \<Rightarrow> app_meta list \<Rightarrow> entry list" where
  "candidates mru metas = foldl (add_candidate mru) [] metas"

section \<open>The cycle\<close>

definition CYCLE_RESUME_GRACE :: duration where "CYCLE_RESUME_GRACE = from_secs 300"

definition position :: "('a \<Rightarrow> bool) \<Rightarrow> 'a list \<Rightarrow> nat option" where
  "position P xs = (let n = length (takeWhile (\<lambda>x. \<not> P x) xs) in if n < length xs then Some n else None)"

definition mru_rank :: "ustr list \<Rightarrow> entry \<Rightarrow> nat" where
  "mru_rank mru x = (case position (\<lambda>b. b = entry_bundle x) mru of Some i \<Rightarrow> i | None \<Rightarrow> U64_MAX)"

definition ingest :: "entry list \<Rightarrow> ustr list \<Rightarrow> ustr list" where
  "ingest regular mru =
     foldl (\<lambda>m x. if entry_bundle x \<noteq> NO_BUNDLE \<and> entry_bundle x \<notin> set m then m @ [entry_bundle x] else m)
       mru regular"

definition promote_cursor :: "cycle_session \<Rightarrow> switcher \<Rightarrow> switcher" where
  "promote_cursor cs s =
     (case List.find (\<lambda>x. entry_pid x = cursor_pid cs) (snapshot cs) of
        Some x \<Rightarrow> promote (entry_bundle x) s | None \<Rightarrow> s)"

definition continuing :: "instant \<Rightarrow> switcher \<Rightarrow> bool" where
  "continuing now s \<longleftrightarrow>
     (case session s of None \<Rightarrow> False
      | Some cs \<Rightarrow> cmd_release_gen cs = release_generation s
          \<and> saturating_duration_since now (last_press_at cs) < CYCLE_RESUME_GRACE)"

text \<open>The snapshot and the cursor a press starts from.\<close>

definition open_session :: "switch_answers \<Rightarrow> entry list \<Rightarrow> pid \<Rightarrow> switcher \<Rightarrow> (entry list \<times> pid) \<times> switcher"
where
  "open_session a regular front s =
     (if continuing (sa_now a) s then
        let cs = the (session s)
        in ((filter (\<lambda>x. entry_pid x \<in> set (map entry_pid regular)) (snapshot cs), cursor_pid cs), s)
      else
        let s = (case session s of Some stale \<Rightarrow> promote_cursor stale (s\<lparr>session := None\<rparr>) | None \<Rightarrow> s);
            s = s\<lparr>mru_bundles := ingest regular (mru_bundles s)\<rparr>;
            s = (case meta_of_pid (sa_apps a) front of Some m \<Rightarrow> promote (app_bundle m) s | None \<Rightarrow> s)
        in ((sort_key (mru_rank (mru_bundles s)) regular, front), s))"

definition next_index :: "bool \<Rightarrow> entry list \<Rightarrow> pid \<Rightarrow> nat" where
  "next_index backward snap cursor =
     (let n = length snap
      in case position (\<lambda>x. entry_pid x = cursor) snap of
           Some i \<Rightarrow> if backward then (i + n - 1) mod n else (i + 1) mod n
         | None \<Rightarrow> if backward then n - 1 else 0)"

definition activate :: "switch_config \<Rightarrow> switch_answers \<Rightarrow> entry \<Rightarrow> switcher \<Rightarrow> switcher \<times> switch_call list" where
  "activate c a target s =
     (let s = (if entry_bundle target = NO_BUNDLE then s
               else s\<lparr>mru_map := (mru_map s)(entry_bundle target \<mapsto> entry_pid target)\<rparr>);
          s = (if workspace_lie_front s = None
               then s\<lparr>workspace_lie_front := Some (sa_workspace_front a)\<rparr> else s)
      in (if sa_activated a (entry_pid target)
          then promote (entry_bundle target) (s\<lparr>last_ax_activated := Some (entry_pid target)\<rparr>) else s,
          [MakeFrontmost (entry_pid target) (unminimize_on_switch c) False]))"

definition cycle_apps ::
    "switch_config \<Rightarrow> switch_answers \<Rightarrow> bool \<Rightarrow> switcher \<Rightarrow> switcher \<times> switch_call list" where
  "cycle_apps c a backward s =
     (let metas = sa_apps a;
          (front, s) = effective_front_pid (sa_workspace_front a) (live_pid metas) s;
          s = s\<lparr>mru_map := refresh_mru_map metas front (mru_map s)\<rparr>;
          regular = candidates (mru_map s) metas
      in if regular = [] then (s, [])
         else
           let resumed = continuing (sa_now a) s;
               ((snap, cursor), s) = open_session a regular front s
           in if snap = [] then (s\<lparr>session := None\<rparr>, if app_switcher_hud c then [HudHide] else [])
              else
                let i = next_index backward snap cursor; target = snap ! i;
                    s = s\<lparr>session := Some \<lparr>snapshot = snap, cursor_pid = entry_pid target,
                          last_press_at = sa_now a, cmd_release_gen = release_generation s\<rparr>\<rparr>;
                    hud = (if app_switcher_hud c
                           then [if resumed then HudAdvance i
                                 else HudShow (map (\<lambda>x. (entry_pid x, entry_name x)) snap) i]
                           else []);
                    (s, calls) = activate c a target s
                in (s, hud @ calls))"

section \<open>Release and focus\<close>

text \<open>The release of the modifier: the generation is advanced and the session committed.\<close>

definition commit_cycle_session :: "switch_config \<Rightarrow> switcher \<Rightarrow> switcher \<times> switch_call list" where
  "commit_cycle_session c s =
     (case session s of
        None \<Rightarrow> (s, [])
      | Some cs \<Rightarrow>
          let s = s\<lparr>session := None\<rparr>;
              s = (case List.find (\<lambda>x. entry_pid x = cursor_pid cs) (snapshot cs) of
                     Some x \<Rightarrow> (promote (entry_bundle x) s)\<lparr>last_focus_bundle := Some (entry_bundle x)\<rparr>
                   | None \<Rightarrow> s)
          in (s, (if app_switcher_hud c then [HudHide] else [])
                 @ [MakeFrontmost (cursor_pid cs) (unminimize_on_switch c) True]))"

definition modifier_released :: "switch_config \<Rightarrow> switcher \<Rightarrow> switcher \<times> switch_call list" where
  "modifier_released c s =
     commit_cycle_session c (s\<lparr>release_generation := (release_generation s + 1) mod 2 ^ 64\<rparr>)"

definition cycle_session_active :: "switcher \<Rightarrow> bool" where
  "cycle_session_active s \<longleftrightarrow> session s \<noteq> None"

text \<open>One observation of the focus poller, which keeps the last process it saw.\<close>

definition poll_focus :: "(pid \<times> ustr option) option \<Rightarrow> pid \<times> switcher \<Rightarrow> pid \<times> switcher" where
  "poll_focus focused = (\<lambda>(seen, s).
     case focused of
       None \<Rightarrow> (seen, s)
     | Some (p, bundle) \<Rightarrow>
         if p = seen then (seen, s)
         else if cycle_session_active s then (p, s)
         else case bundle of
                None \<Rightarrow> (p, s)
              | Some b \<Rightarrow> if b = [] then (p, s) else (p, promote b s))"

text \<open>An activation notification and a click both name the application in focus.\<close>

definition observe_focus :: "ustr \<Rightarrow> switcher \<Rightarrow> switcher" where
  "observe_focus b s = (if b = [] then s else s\<lparr>last_focus_bundle := Some b\<rparr>)"

definition switcher_new :: switcher where
  "switcher_new = \<lparr>mru_map = (\<lambda>_. None), mru_bundles = [], session = None, release_generation = 0,
     last_ax_activated = None, workspace_lie_front = None, last_focus_bundle = None\<rparr>"

section \<open>The window cycle and the sweep of stranded windows\<close>

definition next_window :: "bool \<Rightarrow> nat \<Rightarrow> nat \<Rightarrow> nat option" where
  "next_window backward n focused =
     (if n < 2 then None
      else Some (if backward then (focused + n - 1) mod n else (focused + 1) mod n))"

type_synonym frame = "real \<times> real \<times> real \<times> real"

text \<open>A window with less than half of its area on the target display.\<close>

definition stranded :: "frame \<Rightarrow> real \<times> real \<Rightarrow> real \<times> real \<Rightarrow> bool" where
  "stranded target pos sz =
     (case (target, pos, sz) of ((tx, ty, tw, th), (px, py), (sw, sh)) \<Rightarrow>
        let ix = min (px + sw) (tx + tw) - max px tx; iy = min (py + sh) (ty + th) - max py ty
        in max ix 0 * max iy 0 < max (sw * sh) 1 * (1 / 2))"

text \<open>A window of a regular application: its position and size when they can be read, and whether it
  lets itself be moved. The result is the number moved, all to the same point.\<close>

record ax_window =
  win_position :: "(real \<times> real) option"
  win_size :: "(real \<times> real) option"
  win_movable :: bool

definition sweeps :: "frame \<Rightarrow> ax_window \<Rightarrow> bool" where
  "sweeps target w =
     (case win_position w of
        None \<Rightarrow> False
      | Some p \<Rightarrow> stranded target p (case win_size w of Some z \<Rightarrow> z | None \<Rightarrow> (1, 1)) \<and> win_movable w)"

definition gather_windows :: "frame \<Rightarrow> ax_window list \<Rightarrow> nat \<times> ax_window list" where
  "gather_windows target ws =
     (case target of (tx, ty, tw, th) \<Rightarrow>
        if tw \<le> 0 \<or> th \<le> 0 then (0, ws)
        else (length (filter (sweeps target) ws),
              map (\<lambda>w. if sweeps target w then w\<lparr>win_position := Some (tx + 40, ty + 40)\<rparr> else w) ws))"

end
