(* ===== verification/Switcher_Props.thy ===== *)
theory Switcher_Props
  imports Input_Switcher Prelude
begin

text \<open>
  The application switcher: the invariant of its orders and of the session, the sequence of
  applications a held modifier visits, and the one a single press switches to.
\<close>

section \<open>The candidates of a press\<close>

definition running :: "app_meta list \<Rightarrow> app_meta \<Rightarrow> bool" where
  "running metas m \<longleftrightarrow> m \<in> set metas \<and> app_regular m \<and> \<not> app_terminated m"

lemma meta_entry_simps [simp]:
  "entry_bundle (meta_entry a) = app_bundle a" "entry_pid (meta_entry a) = app_pid a"
  by (simp_all add: meta_entry_def entry_bundle_def entry_pid_def)

lemma candidates_snoc:
  "candidates mru [] = []"
  "candidates mru (metas @ [a]) = add_candidate mru (candidates mru metas) a"
  by (simp_all add: candidates_def)

lemma candidates_from:
  "x \<in> set (candidates mru metas) \<Longrightarrow> \<exists>m. running metas m \<and> x = meta_entry m"
proof (induction metas rule: rev_induct)
  case Nil
  then show ?case by (simp add: candidates_snoc)
next
  case (snoc a metas)
  from snoc.prems consider "x \<in> set (candidates mru metas)"
    | "x = meta_entry a" "app_regular a" "\<not> app_terminated a"
    by (auto simp: candidates_snoc add_candidate_def split: if_splits)
  then show ?case
    by cases (use snoc.IH in \<open>auto simp: running_def\<close>)
qed

lemma add_candidate_bundles:
  "map entry_bundle (add_candidate mru acc a) = map entry_bundle acc @
     (if app_regular a \<and> \<not> app_terminated a
         \<and> (app_bundle a = NO_BUNDLE \<or> app_bundle a \<notin> set (map entry_bundle acc))
      then [app_bundle a] else [])"
  by (auto simp: add_candidate_def)

lemma candidate_bundles_snoc:
  "entry_bundle ` set (candidates mru metas) \<subseteq> entry_bundle ` set (candidates mru (metas @ [a]))"
  unfolding candidates_snoc set_map [symmetric] add_candidate_bundles by auto

lemma candidates_complete:
  "running metas m \<Longrightarrow>
     (if app_bundle m = NO_BUNDLE then meta_entry m \<in> set (candidates mru metas)
      else app_bundle m \<in> entry_bundle ` set (candidates mru metas))"
proof (induction metas rule: rev_induct)
  case Nil
  then show ?case by (simp add: running_def)
next
  case (snoc a metas)
  have keep: "x \<in> set (candidates mru metas) \<Longrightarrow> entry_bundle x = NO_BUNDLE
      \<Longrightarrow> x \<in> set (candidates mru (metas @ [a]))" for x
    by (auto simp: candidates_snoc add_candidate_def)
  show ?case
  proof (cases "running metas m")
    case True
    from snoc.IH [OF True] keep [of "meta_entry m"] candidate_bundles_snoc [of mru metas a] show ?thesis by (auto split: if_splits)
  next
    case False
    with snoc.prems have "m = a" "app_regular a" "\<not> app_terminated a" by (auto simp: running_def)
    then show ?thesis
      by (cases "app_bundle a = NO_BUNDLE")
        (simp add: candidates_snoc add_candidate_def,
         simp only: candidates_snoc set_map [symmetric] add_candidate_bundles, auto)
  qed
qed

text \<open>An application is lone when no other instance of its bundle runs.\<close>

definition lone :: "app_meta list \<Rightarrow> pid \<Rightarrow> bool" where
  "lone metas p \<longleftrightarrow> (\<exists>m. running metas m \<and> app_pid m = p
     \<and> (\<forall>m'. running metas m' \<longrightarrow> app_bundle m' = app_bundle m \<longrightarrow> app_pid m' = p))"

lemma lone_candidate: "lone metas p \<Longrightarrow> p \<in> entry_pid ` set (candidates mru metas)"
proof -
  assume "lone metas p"
  then obtain m where m: "running metas m" "app_pid m = p"
    and only: "\<And>m'. running metas m' \<Longrightarrow> app_bundle m' = app_bundle m \<Longrightarrow> app_pid m' = p"
    by (auto simp: lone_def)
  show ?thesis
  proof (cases "app_bundle m = NO_BUNDLE")
    case True
    with candidates_complete [OF m(1), of mru] m(2) show ?thesis by (force simp: image_iff)
  next
    case False
    with candidates_complete [OF m(1), of mru] obtain x where
      x: "x \<in> set (candidates mru metas)" "entry_bundle x = app_bundle m" by auto
    from candidates_from [OF x(1)] x(2) only show ?thesis using x(1) by (force simp: image_iff)
  qed
qed

text \<open>A bundle appears once, however many instances of it run.\<close>

definition one_per_bundle :: "entry list \<Rightarrow> bool" where
  "one_per_bundle xs \<longleftrightarrow> distinct (filter (\<lambda>b. b \<noteq> NO_BUNDLE) (map entry_bundle xs))"

lemma one_per_bundle_filter: "one_per_bundle xs \<Longrightarrow> one_per_bundle (filter P xs)"
  unfolding one_per_bundle_def by (induction xs) auto

lemma one_per_bundle_perm: "mset xs = mset ys \<Longrightarrow> one_per_bundle xs \<Longrightarrow> one_per_bundle ys"
proof -
  let ?f = "\<lambda>xs. filter (\<lambda>b. b \<noteq> NO_BUNDLE) (map entry_bundle xs)"
  assume "mset xs = mset ys" and "one_per_bundle xs"
  then have "mset (?f xs) = mset (?f ys)" and "distinct (?f xs)" by (simp_all add: one_per_bundle_def)
  then have "distinct (?f ys)" using mset_eq_imp_distinct_iff by blast
  then show ?thesis by (simp add: one_per_bundle_def)
qed

lemma candidates_one_per_bundle: "one_per_bundle (candidates mru metas)"
proof (induction metas rule: rev_induct)
  case Nil
  show ?case by (simp add: candidates_snoc one_per_bundle_def)
next
  case (snoc a metas)
  then show ?case unfolding one_per_bundle_def candidates_snoc add_candidate_bundles by (auto, metis image_eqI)
qed

section \<open>The invariant\<close>

definition switcher_inv :: "switcher \<Rightarrow> bool" where
  "switcher_inv s \<longleftrightarrow> distinct (mru_bundles s) \<and> NO_BUNDLE \<notin> set (mru_bundles s)
     \<and> (\<forall>cs. session s = Some cs \<longrightarrow> cmd_release_gen cs = release_generation s
          \<and> one_per_bundle (snapshot cs) \<and> (\<exists>x \<in> set (snapshot cs). entry_pid x = cursor_pid cs))"

lemma promote_bundle_ok:
  "distinct mru \<Longrightarrow> NO_BUNDLE \<notin> set mru \<Longrightarrow> distinct (promote_bundle b mru) \<and> NO_BUNDLE \<notin> set (promote_bundle b mru)"
  by (auto simp: promote_bundle_def)

lemma ingest_Cons:
  "ingest (x # xs) mru = ingest xs
     (if entry_bundle x \<noteq> NO_BUNDLE \<and> entry_bundle x \<notin> set mru then mru @ [entry_bundle x] else mru)"
  by (simp add: ingest_def)

lemma ingest_ok:
  "distinct mru \<Longrightarrow> NO_BUNDLE \<notin> set mru \<Longrightarrow> distinct (ingest xs mru) \<and> NO_BUNDLE \<notin> set (ingest xs mru)"
proof (induction xs arbitrary: mru)
  case Nil
  then show ?case by (simp add: ingest_def)
next
  case (Cons x xs)
  show ?case unfolding ingest_Cons by (rule Cons.IH) (use Cons.prems in \<open>auto split: if_splits\<close>)
qed

lemma promote_fields [simp]:
  "session (promote b s) = session s" "release_generation (promote b s) = release_generation s"
  "mru_map (promote b s) = mru_map s"
  by (simp_all add: promote_def)

lemma promote_inv: "switcher_inv s \<Longrightarrow> switcher_inv (promote b s)"
  using promote_bundle_ok [of "mru_bundles s" b] by (auto simp: switcher_inv_def promote_def)

lemma promote_cursor_inv: "switcher_inv s \<Longrightarrow> switcher_inv (promote_cursor cs s)"
  by (auto simp: promote_cursor_def intro: promote_inv split: option.splits)

lemma promote_cursor_fields [simp]:
  "session (promote_cursor cs s) = session s" "release_generation (promote_cursor cs s) = release_generation s"
  by (auto simp: promote_cursor_def split: option.splits)

lemma front_inv: "switcher_inv s \<Longrightarrow> switcher_inv (snd (effective_front_pid p alive s))"
  by (auto simp: effective_front_pid_def switcher_inv_def split: option.splits)

lemma front_fields [simp]:
  "session (snd (effective_front_pid p alive s)) = session s"
  "release_generation (snd (effective_front_pid p alive s)) = release_generation s"
  "mru_bundles (snd (effective_front_pid p alive s)) = mru_bundles s"
  by (auto simp: effective_front_pid_def split: option.splits)

lemma session_dropped: "switcher_inv s \<Longrightarrow> switcher_inv (s\<lparr>session := None\<rparr>)"
  by (simp add: switcher_inv_def)

lemma other_fields_inv [simp]:
  "switcher_inv (s\<lparr>mru_map := m\<rparr>) = switcher_inv s"
  "switcher_inv (s\<lparr>workspace_lie_front := w\<rparr>) = switcher_inv s"
  "switcher_inv (s\<lparr>last_ax_activated := l\<rparr>) = switcher_inv s"
  "switcher_inv (s\<lparr>last_focus_bundle := f\<rparr>) = switcher_inv s"
  by (simp_all add: switcher_inv_def)

lemma open_session_inv:
  assumes "open_session a regular front s = ((snap, cursor), s')" and "switcher_inv s" and "one_per_bundle regular"
  shows "switcher_inv s' \<and> one_per_bundle snap"
proof (cases "continuing (sa_now a) s")
  case True
  with assms show ?thesis
    by (auto simp: open_session_def Let_def continuing_def switcher_inv_def one_per_bundle_filter
        split: option.splits)
next
  case False
  define s1 where "s1 = (case session s of Some stale \<Rightarrow> promote_cursor stale (s\<lparr>session := None\<rparr>) | None \<Rightarrow> s)"
  have i1: "switcher_inv s1" "session s1 = None"
    using assms(2) by (auto simp: s1_def promote_cursor_inv session_dropped split: option.splits)
  then have i2: "switcher_inv (s1\<lparr>mru_bundles := ingest regular (mru_bundles s1)\<rparr>)"
    using ingest_ok [of "mru_bundles s1" regular] by (simp add: switcher_inv_def)
  define s2 where "s2 = s1\<lparr>mru_bundles := ingest regular (mru_bundles s1)\<rparr>"
  define t where "t = (case meta_of_pid (sa_apps a) front of Some m \<Rightarrow> promote (app_bundle m) s2 | None \<Rightarrow> s2)"
  have "open_session a regular front s = ((sort_key (mru_rank (mru_bundles t)) regular, front), t)"
    unfolding open_session_def Let_def t_def s2_def s1_def if_not_P [OF False] ..
  with assms(1) have eq: "s' = t" "snap = sort_key (mru_rank (mru_bundles t)) regular" by auto
  have "switcher_inv s'" unfolding eq(1) t_def using i2 promote_inv by (auto simp: s2_def split: option.splits)
  moreover have "one_per_bundle snap"
    unfolding eq(2) by (rule one_per_bundle_perm [OF _ assms(3)]) simp
  ultimately show ?thesis by simp
qed

lemma open_session_fields:
  assumes "open_session a regular front s = ((snap, cursor), s')"
  shows "release_generation s' = release_generation s"
proof -
  have opt: "release_generation (case m of Some x \<Rightarrow> promote (f x) u | None \<Rightarrow> u) = release_generation u" for m f u
    by (cases m) simp_all
  have opt': "release_generation (case c of Some x \<Rightarrow> promote_cursor x (u\<lparr>session := None\<rparr>) | None \<Rightarrow> u)
      = release_generation u" for c u
    by (cases c) simp_all
  from assms show ?thesis
    by (cases "continuing (sa_now a) s") (auto simp: open_session_def Let_def opt opt')
qed

lemma activate_inv: "switcher_inv s \<Longrightarrow> switcher_inv (fst (activate c a x s))"
  by (simp add: activate_def Let_def promote_inv)

lemma next_index_less: "snap \<noteq> [] \<Longrightarrow> next_index backward snap cursor < length snap"
  by (auto simp: next_index_def Let_def split: option.split)

lemma cycle_apps_inv:
  assumes "switcher_inv s"
  shows "switcher_inv (fst (cycle_apps c a backward s))"
proof -
  obtain front s1 where f: "effective_front_pid (sa_workspace_front a) (live_pid (sa_apps a)) s = (front, s1)"
    by fastforce
  define s2 where "s2 = s1\<lparr>mru_map := refresh_mru_map (sa_apps a) front (mru_map s1)\<rparr>"
  define regular where "regular = candidates (mru_map s2) (sa_apps a)"
  have i2: "switcher_inv s2"
    using front_inv [OF assms, of "sa_workspace_front a" "live_pid (sa_apps a)"] f by (simp add: s2_def)
  obtain snap cursor s3 where o3: "open_session a regular front s2 = ((snap, cursor), s3)" by (metis surj_pair)
  have one: "one_per_bundle regular" unfolding regular_def by (rule candidates_one_per_bundle)
  from open_session_inv [OF o3 i2 one] have i3: "switcher_inv s3" "one_per_bundle snap" by simp_all
  have i4: "switcher_inv (s3\<lparr>session := Some \<lparr>snapshot = snap, cursor_pid = entry_pid (snap ! i),
      last_press_at = t, cmd_release_gen = release_generation s3\<rparr>\<rparr>)" if "i < length snap" for i t
    using i3 that by (auto simp: switcher_inv_def)
  show ?thesis
    using i2 session_dropped [OF i3(1)] activate_inv [OF i4 [OF next_index_less]]
    unfolding cycle_apps_def Let_def f prod.case s2_def [symmetric] regular_def [symmetric] o3
    by (simp add: split_beta)
qed

lemma modifier_released_inv: "switcher_inv s \<Longrightarrow> switcher_inv (fst (modifier_released c s))"
proof -
  assume inv: "switcher_inv s"
  let ?r = "s\<lparr>release_generation := (release_generation s + 1) mod 2 ^ 64\<rparr>"
  have "switcher_inv (?r\<lparr>session := None\<rparr>)" and "session s = None \<Longrightarrow> switcher_inv ?r"
    using inv by (simp_all add: switcher_inv_def)
  then show ?thesis
    by (cases "session s")
      (auto simp: modifier_released_def commit_cycle_session_def Let_def
        intro: promote_inv split: option.splits)
qed

lemma poll_focus_inv: "switcher_inv (snd x) \<Longrightarrow> switcher_inv (snd (poll_focus f x))"
  by (auto simp: poll_focus_def split: option.splits prod.splits intro: promote_inv)

lemma observe_focus_inv: "switcher_inv s \<Longrightarrow> switcher_inv (observe_focus b s)"
  by (simp add: observe_focus_def)

lemma switcher_new_inv: "switcher_inv switcher_new"
  by (simp add: switcher_inv_def switcher_new_def)

section \<open>Runs\<close>

datatype switch_event =
    CyclePress switch_answers bool
  | CycleRelease
  | FocusPoll "(pid \<times> ustr option) option"
  | FocusSeen ustr

type_synonym switch_state = "pid \<times> switcher"

fun switch_step :: "switch_config \<Rightarrow> switch_state \<Rightarrow> switch_event \<Rightarrow> switch_state \<times> switch_call list" where
  "switch_step c (p, s) (CyclePress a bwd) = (let (t, os) = cycle_apps c a bwd s in ((p, t), os))"
| "switch_step c (p, s) CycleRelease = (let (t, os) = modifier_released c s in ((p, t), os))"
| "switch_step c (p, s) (FocusPoll f) = (poll_focus f (p, s), [])"
| "switch_step c (p, s) (FocusSeen b) = ((p, observe_focus b s), [])"

interpretation switching: emitter "switch_step c" "\<lambda>x. switcher_inv (snd x)" "\<lambda>_. True"
proof
  fix s :: switch_state and e :: switch_event
  assume "switcher_inv (snd s)"
  then show "switcher_inv (snd (fst (switch_step c s e)))"
    using cycle_apps_inv modifier_released_inv poll_focus_inv [of s] observe_focus_inv
    by (cases s; cases e) (auto simp: split_beta Let_def)
qed

text \<open>
  The switcher's orders stay well formed under every sequence of presses, releases, focus polls
  and focus changes: the most-recently-used order of applications has no duplicates and never holds
  the placeholder of a process without a bundle; a cycle session in flight belongs to the modifier
  press that is still held, lists each application once however many instances of it run, and its
  cursor is a process of its snapshot; after the release there is none.
\<close>

theorem switcher_well_formed:
  assumes "run_out (switch_step c) (0, switcher_new) es = ((p, s), out)"
  shows "distinct (mru_bundles s) \<and> NO_BUNDLE \<notin> set (mru_bundles s)
    \<and> (\<forall>cs. session s = Some cs \<longrightarrow> cmd_release_gen cs = release_generation s
        \<and> distinct (filter (\<lambda>b. b \<noteq> NO_BUNDLE) (map entry_bundle (snapshot cs)))
        \<and> cursor_pid cs \<in> entry_pid ` set (snapshot cs))
    \<and> session (fst (modifier_released c s)) = None"
proof -
  have "switcher_inv s"
    using switching.run_inv [of "(0, switcher_new)" es c] switcher_new_inv assms by simp
  moreover have "session (fst (modifier_released c s)) = None"
    by (auto simp: modifier_released_def commit_cycle_session_def Let_def split: option.splits)
  ultimately show ?thesis
    by (simp add: switcher_inv_def one_per_bundle_def image_def) metis
qed

theorem switcher_well_formed_witness:
  "\<exists>p s out. run_out (switch_step \<lparr>unminimize_on_switch = False, app_switcher_hud = True\<rparr>) (0, switcher_new)
      [FocusPoll (Some (7, Some (lit ''A''))), FocusSeen (lit ''B''),
       CyclePress \<lparr>sa_now = 0, sa_apps = [], sa_workspace_front = 7, sa_activated = (\<lambda>_. True)\<rparr> False,
       CycleRelease] = ((p, s), out)
    \<and> distinct (mru_bundles s) \<and> NO_BUNDLE \<notin> set (mru_bundles s)"
proof -
  let ?c = "\<lparr>unminimize_on_switch = False, app_switcher_hud = True\<rparr>"
  let ?es = "[FocusPoll (Some (7, Some (lit ''A''))), FocusSeen (lit ''B''),
    CyclePress \<lparr>sa_now = 0, sa_apps = [], sa_workspace_front = 7, sa_activated = (\<lambda>_. True)\<rparr> False, CycleRelease]"
  obtain p s out where run: "run_out (switch_step ?c) (0, switcher_new) ?es = ((p, s), out)"
    by (metis surj_pair)
  with switcher_well_formed [OF run] show ?thesis by blast
qed

section \<open>The sequence of a held modifier\<close>

lemma position_nth:
  assumes "distinct (map f xs)" and "i < length xs"
  shows "position (\<lambda>x. f x = f (xs ! i)) xs = Some i"
proof -
  have "takeWhile (\<lambda>x. f x \<noteq> f (xs ! i)) xs = take i xs"
    using assms nth_eq_iff_index_eq [OF assms(1)] by (intro takeWhile_eq_take_P_nth) auto
  with assms(2) show ?thesis by (simp add: position_def Let_def)
qed

fun fronted :: "switch_call list \<Rightarrow> pid list" where
  "fronted [] = []"
| "fronted (MakeFrontmost p _ _ # cs) = p # fronted cs"
| "fronted (_ # cs) = fronted cs"

lemma fronted_append [simp]: "fronted (xs @ ys) = fronted xs @ fronted ys"
  by (induction xs rule: fronted.induct) simp_all

definition within_grace :: "instant \<Rightarrow> instant \<Rightarrow> bool" where
  "within_grace now t \<longleftrightarrow> saturating_duration_since now t < CYCLE_RESUME_GRACE"

fun spaced :: "instant \<Rightarrow> switch_answers list \<Rightarrow> bool" where
  "spaced t [] \<longleftrightarrow> True"
| "spaced t (a # as) \<longleftrightarrow> within_grace (sa_now a) t \<and> spaced (sa_now a) as"

lemma activate_fields:
  assumes "activate c a x s = (s', calls)"
  shows "session s' = session s" "release_generation s' = release_generation s"
    "calls = [MakeFrontmost (entry_pid x) (unminimize_on_switch c) False]"
  using assms by (auto simp: activate_def Let_def)

lemma continued_press:
  assumes "session s = Some cs" and "cmd_release_gen cs = release_generation s"
    and "within_grace (sa_now a) (last_press_at cs)"
    and "snapshot cs \<noteq> []" and "\<forall>x \<in> set (snapshot cs). lone (sa_apps a) (entry_pid x)"
    and "cycle_apps c a backward s = (s', calls)"
  shows "session s' = Some (cs\<lparr>cursor_pid := entry_pid (snapshot cs ! next_index backward (snapshot cs) (cursor_pid cs)),
      last_press_at := sa_now a\<rparr>)
    \<and> release_generation s' = release_generation s
    \<and> fronted calls = [entry_pid (snapshot cs ! next_index backward (snapshot cs) (cursor_pid cs))]"
proof -
  obtain front s1 where f: "effective_front_pid (sa_workspace_front a) (live_pid (sa_apps a)) s = (front, s1)"
    by fastforce
  define s2 where "s2 = s1\<lparr>mru_map := refresh_mru_map (sa_apps a) front (mru_map s1)\<rparr>"
  define regular where "regular = candidates (mru_map s2) (sa_apps a)"
  have fields: "session s2 = Some cs" "release_generation s2 = release_generation s"
    using front_fields [of "sa_workspace_front a" "live_pid (sa_apps a)" s] f assms(1) by (simp_all add: s2_def)
  have go: "continuing (sa_now a) s2"
    using assms(2,3) by (simp add: continuing_def fields within_grace_def)
  have all: "\<forall>x \<in> set (snapshot cs). entry_pid x \<in> set (map entry_pid regular)"
    using assms(5) lone_candidate by (simp add: regular_def)
  then have ne: "regular \<noteq> []" using assms(4) by (cases "snapshot cs") auto
  have o3: "open_session a regular front s2 = ((snapshot cs, cursor_pid cs), s2)"
    using go all by (simp add: open_session_def Let_def fields filter_id_conv)
  let ?x = "snapshot cs ! next_index backward (snapshot cs) (cursor_pid cs)"
  let ?s = "s2\<lparr>session := Some \<lparr>snapshot = snapshot cs, cursor_pid = entry_pid ?x, last_press_at = sa_now a,
      cmd_release_gen = release_generation s2\<rparr>\<rparr>"
  obtain s5 calls5 where ac: "activate c a ?x ?s = (s5, calls5)" by fastforce
  from assms(6) ne assms(4) go ac have "s' = s5" "fronted calls = fronted calls5"
    unfolding cycle_apps_def Let_def f prod.case s2_def [symmetric] regular_def [symmetric] o3
    by (auto split: if_splits)
  with activate_fields [OF ac] fields assms(2) show ?thesis by (cases cs) simp
qed

lemma step_forward: "i < n \<Longrightarrow> (if bwd then (i + n - 1) mod n else (i + 1) mod n) < n" for i n :: nat
  by auto

text \<open>The indices a sequence of presses visits.\<close>

fun visits :: "bool \<Rightarrow> nat \<Rightarrow> nat \<Rightarrow> nat \<Rightarrow> nat list" where
  "visits bwd n 0 i = []"
| "visits bwd n (Suc k) i =
     (let j = (if bwd then (i + n - 1) mod n else (i + 1) mod n) in j # visits bwd n k j)"

lemma held_visits:
  assumes "session s = Some cs" and "cmd_release_gen cs = release_generation s"
    and "distinct (map entry_pid (snapshot cs))" and "i < length (snapshot cs)"
    and "cursor_pid cs = entry_pid (snapshot cs ! i)" and "spaced (last_press_at cs) as"
    and "\<forall>a \<in> set as. \<forall>x \<in> set (snapshot cs). lone (sa_apps a) (entry_pid x)"
  shows "fronted (snd (run_out (\<lambda>s a. cycle_apps c a bwd s) s as))
    = map (\<lambda>j. entry_pid (snapshot cs ! j)) (visits bwd (length (snapshot cs)) (length as) i)"
  using assms
proof (induction as arbitrary: s cs i)
  case Nil
  then show ?case by simp
next
  case (Cons a as)
  obtain s' calls where st: "cycle_apps c a bwd s = (s', calls)" by fastforce
  let ?n = "length (snapshot cs)"
  let ?j = "if bwd then (i + ?n - 1) mod ?n else (i + 1) mod ?n"
  have ne: "snapshot cs \<noteq> []" using Cons.prems(4) by auto
  have pos: "next_index bwd (snapshot cs) (cursor_pid cs) = ?j"
    using position_nth [OF Cons.prems(3,4)] by (simp add: next_index_def Let_def Cons.prems(5))
  have j: "?j < ?n" using Cons.prems(4) by (rule step_forward)
  let ?cs = "cs\<lparr>cursor_pid := entry_pid (snapshot cs ! ?j), last_press_at := sa_now a\<rparr>"
  have nx: "session s' = Some ?cs" "release_generation s' = release_generation s"
    "fronted calls = [entry_pid (snapshot cs ! ?j)]"
    using continued_press [OF Cons.prems(1,2) _ ne _ st] Cons.prems(6,7) unfolding pos by simp_all
  have "fronted (snd (run_out (\<lambda>s a. cycle_apps c a bwd s) s' as))
      = map (\<lambda>j. entry_pid (snapshot ?cs ! j)) (visits bwd (length (snapshot ?cs)) (length as) ?j)"
    by (rule Cons.IH [OF nx(1)]) (use Cons.prems j nx in simp_all)
  with nx(3) show ?case by (simp add: st split_beta Let_def)
qed

lemma visits_forward:
  "visits False n k i = map (\<lambda>m. (i + 1 + m) mod n) [0 ..< k]"
proof (induction k arbitrary: i)
  case 0
  then show ?case by simp
next
  case (Suc k)
  have "((i + 1) mod n + 1 + m) mod n = (i + 1 + Suc m) mod n" for m
    using mod_add_left_eq [of "i + 1" n "Suc m"] by simp
  then have "map (\<lambda>m. ((i + 1) mod n + 1 + m) mod n) [0 ..< k] = map (\<lambda>m. (i + 1 + m) mod n) (map Suc [0 ..< k])"
    by simp
  with Suc show ?case by (simp only: visits.simps Let_def if_False upt_conv_Cons map_Suc_upt zero_less_Suc list.map add_0_right)
qed

lemma visits_backward:
  assumes "i < n" and "k \<le> n"
  shows "visits True n k i = map (\<lambda>m. (i + (n - 1 - m)) mod n) [0 ..< k]"
  using assms
proof (induction k arbitrary: i)
  case 0
  then show ?case by simp
next
  case (Suc k)
  define j where "j = (i + n - 1) mod n"
  have j: "j = (if i = 0 then n - 1 else i - 1)"
    using Suc.prems by (auto simp: j_def mod_if)
  have "(j + (n - 1 - m)) mod n = (i + (n - 1 - Suc m)) mod n" if "m < k" for m
  proof (cases "i = 0")
    case True
    have "n - 1 + (n - 1 - m) = (n - 1 - Suc m) + n" using that Suc.prems by simp
    then have "(n - 1 + (n - 1 - m)) mod n = (n - 1 - Suc m) mod n" by (simp only: mod_add_self2)
    then show ?thesis unfolding j using True by simp
  next
    case False
    then have "i - 1 + (n - 1 - m) = i + (n - 1 - Suc m)" using that Suc.prems by simp
    then show ?thesis unfolding j using False by simp
  qed
  then have tl: "map (\<lambda>m. (j + (n - 1 - m)) mod n) [0 ..< k]
      = map (\<lambda>m. (i + (n - 1 - m)) mod n) (map Suc [0 ..< k])" by simp
  have "j < n" "i + n - 1 = i + (n - 1 - 0)" using Suc.prems by (simp_all add: j_def)
  with Suc.IH [of j] Suc.prems tl show ?case
    by (simp only: visits.simps Let_def if_True j_def [symmetric] upt_conv_Cons map_Suc_upt zero_less_Suc list.map)
      (simp add: j_def)
qed

text \<open>
  C22. While the modifier is held, presses less than \<open>CYCLE_RESUME_GRACE\<close> (300 s) apart walk the
  snapshot of applications in order and bring each one to the front once before any comes again: from
  a cursor at position \<open>i\<close>, the first presses, as many as there are applications, activate the
  snapshot rotated to start after the cursor, or before it and in reverse with the backward shortcut.
  This holds whatever the system answers to the activations and whichever application it reports as
  the front one, provided that at each press every application of the snapshot is still running and
  is the only running instance of its bundle (of several instances the code keeps one).
\<close>

theorem cycle_visits_all:
  assumes "session s = Some cs" and "cmd_release_gen cs = release_generation s"
    and "distinct (map entry_pid (snapshot cs))" and "i < length (snapshot cs)"
    and "cursor_pid cs = entry_pid (snapshot cs ! i)"
    and "spaced (last_press_at cs) as" and "length as \<le> length (snapshot cs)"
    and "\<forall>a \<in> set as. \<forall>x \<in> set (snapshot cs). lone (sa_apps a) (entry_pid x)"
  shows "fronted (snd (run_out (\<lambda>s a. cycle_apps c a bwd s) s as))
    = take (length as) (map entry_pid
        (if bwd then rev (rotate i (snapshot cs)) else rotate (i + 1) (snapshot cs)))"
proof -
  let ?xs = "snapshot cs" and ?k = "length as"
  note v = held_visits [OF assms(1-6,8), of c bwd]
  show ?thesis
  proof (cases bwd)
    case True
    show ?thesis unfolding v using assms(4,7)
      by (intro nth_equalityI) (auto simp: True visits_backward rev_nth nth_rotate)
  next
    case False
    show ?thesis unfolding v using assms(4,7)
      by (intro nth_equalityI) (auto simp: False visits_forward nth_rotate simp del: rotate_Suc)
  qed
qed

definition two_apps :: "app_meta list" where
  "two_apps = map (\<lambda>(b, p). \<lparr>app_bundle = lit b, app_name = lit b, app_pid = p, app_regular = True,
     app_terminated = False\<rparr>) [(''A'', 1), (''B'', 2), (''C'', 3)]"

definition press_at :: "instant \<Rightarrow> switch_answers" where
  "press_at t = \<lparr>sa_now = t, sa_apps = two_apps, sa_workspace_front = 1, sa_activated = (\<lambda>_. True)\<rparr>"

definition held_session :: switcher where
  "held_session = switcher_new\<lparr>session := Some \<lparr>snapshot = candidates (\<lambda>_. None) two_apps, cursor_pid = 2,
     last_press_at = 0, cmd_release_gen = 0\<rparr>\<rparr>"

lemma two_apps_candidates: "map entry_pid (candidates (\<lambda>_. None) two_apps) = [1, 2, 3]"
  by (simp add: candidates_def two_apps_def add_candidate_def meta_entry_def entry_bundle_def entry_pid_def
      NO_BUNDLE_def lit_def)

lemma two_apps_lone: "p \<in> {1, 2, 3} \<Longrightarrow> lone two_apps p"
proof -
  have "lit ''A'' \<noteq> lit ''B''" "lit ''A'' \<noteq> lit ''C''" "lit ''B'' \<noteq> lit ''C''"
    by (simp_all add: lit_def)
  moreover assume "p \<in> {1, 2, 3}"
  ultimately show ?thesis unfolding lone_def running_def two_apps_def by fastforce
qed

theorem cycle_visits_all_witness:
  "fronted (snd (run_out (\<lambda>s a. cycle_apps \<lparr>unminimize_on_switch = False, app_switcher_hud = True\<rparr> a False s)
     held_session (map press_at [1, 2, 3]))) = [3, 1, 2]"
proof -
  define cs where "cs = the (session held_session)"
  have cs: "session held_session = Some cs" "cmd_release_gen cs = release_generation held_session"
    "map entry_pid (snapshot cs) = [1, 2, 3]" "cursor_pid cs = 2" "last_press_at cs = 0"
    by (simp_all add: cs_def held_session_def switcher_new_def two_apps_candidates)
  have len: "length (snapshot cs) = 3" using arg_cong [OF cs(3), of length] by simp
  have cur: "cursor_pid cs = entry_pid (snapshot cs ! 1)"
    using nth_map [of 1 "snapshot cs" entry_pid] len by (simp add: cs(3,4))
  have sp: "spaced (last_press_at cs) (map press_at [1, 2, 3])"
    by (simp add: within_grace_def press_at_def CYCLE_RESUME_GRACE_def saturating_duration_since_def
        from_secs_def NANOS_def cs(5))
  have "entry_pid ` set (snapshot cs) = {1, 2, 3}" using arg_cong [OF cs(3), of set] by simp
  then have "\<forall>x \<in> set (snapshot cs). lone two_apps (entry_pid x)" using two_apps_lone by blast
  then have all: "\<forall>a \<in> set (map press_at [1, 2, 3]). \<forall>x \<in> set (snapshot cs). lone (sa_apps a) (entry_pid x)"
    by (simp add: press_at_def)
  have "distinct (map entry_pid (snapshot cs))" "1 < length (snapshot cs)"
    "length (map press_at [1, 2, 3]) \<le> length (snapshot cs)" by (simp_all add: cs(3) len)
  from cycle_visits_all [OF cs(1,2) this(1,2) cur sp this(3) all, of _ False]
  show ?thesis by (simp add: rotate_map [symmetric] cs(3) len del: rotate_Suc) (simp add: numeral_2_eq_2)
qed

section \<open>A single press\<close>

lemma position_eq: "distinct xs \<Longrightarrow> i < length xs \<Longrightarrow> position (\<lambda>b. b = xs ! i) xs = Some i"
  using position_nth [of "\<lambda>x. x" xs i] by simp

lemma mru_rank_mem:
  assumes "distinct mru" and "entry_bundle x \<in> set mru"
  shows "mru_rank mru x < length mru \<and> mru ! mru_rank mru x = entry_bundle x"
proof -
  obtain i where i: "i < length mru" "entry_bundle x = mru ! i" using assms(2) by (metis in_set_conv_nth)
  with position_eq [OF assms(1) i(1)] show ?thesis by (simp add: mru_rank_def)
qed

lemma ingest_set: "set mru \<subseteq> set (ingest xs mru) \<and> (\<forall>x \<in> set xs. entry_bundle x \<noteq> NO_BUNDLE \<longrightarrow> entry_bundle x \<in> set (ingest xs mru))"
proof (induction xs arbitrary: mru)
  case Nil
  then show ?case by (simp add: ingest_def)
next
  case (Cons x xs)
  show ?case unfolding ingest_Cons
    using Cons.IH [of "if entry_bundle x \<noteq> NO_BUNDLE \<and> entry_bundle x \<notin> set mru then mru @ [entry_bundle x] else mru"]
    by (simp split: if_splits) blast+
qed

lemma ingest_prefix: "\<exists>ys. ingest xs mru = mru @ ys"
proof (induction xs arbitrary: mru)
  case Nil
  then show ?case by (simp add: ingest_def)
next
  case (Cons x xs)
  show ?case unfolding ingest_Cons
    using Cons.IH [of mru] Cons.IH [of "mru @ [entry_bundle x]"] by auto
qed

text \<open>A snapshot lists the applications in the most-recently-used order.\<close>

lemma snapshot_order:
  assumes "distinct mru" and "distinct (map entry_bundle xs)" and "\<forall>x \<in> set xs. entry_bundle x \<in> set mru"
  shows "map entry_bundle (sort_key (mru_rank mru) xs) = filter (\<lambda>b. b \<in> entry_bundle ` set xs) mru"
proof -
  define rank where "rank = (\<lambda>b. the (position (\<lambda>c. c = b) mru))"
  have nth: "rank (mru ! i) = i" if "i < length mru" for i
    using position_eq [OF assms(1) that] by (simp add: rank_def)
  have r: "mru_rank mru x = rank (entry_bundle x)" if x: "x \<in> set xs" for x
  proof -
    obtain i where "i < length mru" "entry_bundle x = mru ! i" using assms(3) x by (metis in_set_conv_nth)
    with position_eq [OF assms(1), of i] show ?thesis by (simp add: mru_rank_def rank_def)
  qed
  let ?ys = "map entry_bundle (sort_key (mru_rank mru) xs)"
  let ?zs = "filter (\<lambda>b. b \<in> entry_bundle ` set xs) mru"
  have inj: "inj_on rank (set mru)"
  proof (rule inj_onI)
    fix b c assume "b \<in> set mru" "c \<in> set mru" "rank b = rank c"
    then show "b = c" using nth by (metis in_set_conv_nth)
  qed
  have "sorted (map rank mru)" using nth by (simp add: sorted_iff_nth_mono)
  then have zs: "sorted (map rank ?zs)" by (rule sorted_filter)
  have eq: "map rank ?ys = map (mru_rank mru) (sort_key (mru_rank mru) xs)" using r by simp
  have ys: "sorted (map rank ?ys)" unfolding eq by simp
  have sub: "set ?ys \<subseteq> set mru" "set ?zs \<subseteq> set mru" and sets: "set ?ys = set ?zs"
    using assms(3) by auto
  have "distinct ?ys" "distinct ?zs" using assms(1,2) by (simp_all add: distinct_map)
  then have dist: "distinct (map rank ?ys)" "distinct (map rank ?zs)"
    using inj_on_subset [OF inj sub(1)] inj_on_subset [OF inj sub(2)] distinct_map by blast+
  show ?thesis
    by (rule map_sorted_distinct_set_unique [OF inj_on_subset [OF inj] ys dist(1) zs dist(2) sets])
      (use sub in blast)
qed

text \<open>Of several instances of an application the one recorded as most recently used is listed.\<close>

lemma candidate_instance:
  assumes "running metas m" and "distinct (map app_pid metas)" and "app_bundle m \<noteq> NO_BUNDLE"
    and "mru (app_bundle m) = Some (app_pid m)"
  shows "meta_entry m \<in> set (candidates mru metas)"
  using assms(1,2)
proof (induction metas rule: rev_induct)
  case Nil
  then show ?case by (simp add: running_def)
next
  case (snoc a metas)
  show ?case
  proof (cases "m = a")
    case True
    with snoc.prems assms(3,4) show ?thesis
      by (auto simp: candidates_snoc add_candidate_def running_def image_iff) blast
  next
    case False
    with snoc.prems have m: "running metas m" and "app_pid a \<noteq> app_pid m" and d: "distinct (map app_pid metas)"
      by (auto simp: running_def)
    with assms(4) have "app_bundle a = app_bundle m \<Longrightarrow> mru (app_bundle a) \<noteq> Some (app_pid a)" by simp
    with snoc.IH [OF m d] show ?thesis by (auto simp: candidates_snoc add_candidate_def)
  qed
qed

lemma candidate_bundle_set:
  assumes "\<forall>m. running metas m \<longrightarrow> app_bundle m \<noteq> NO_BUNDLE"
  shows "entry_bundle ` set (candidates mru metas) = app_bundle ` {m. running metas m}"
    and "distinct (map entry_bundle (candidates mru metas))"
proof -
  show eq: "entry_bundle ` set (candidates mru metas) = app_bundle ` {m. running metas m}"
    using candidates_from candidates_complete assms by (fastforce split: if_splits)
  then have "NO_BUNDLE \<notin> set (map entry_bundle (candidates mru metas))" using assms by auto
  then have "filter (\<lambda>b. b \<noteq> NO_BUNDLE) (map entry_bundle (candidates mru metas))
      = map entry_bundle (candidates mru metas)" by (intro filter_True) blast
  with candidates_one_per_bundle [of mru metas]
  show "distinct (map entry_bundle (candidates mru metas))" by (simp add: one_per_bundle_def)
qed

lemma find_filter: "List.find P xs = Some x \<Longrightarrow> \<exists>ys. filter P xs = x # ys"
  by (induction xs) (auto split: if_splits)

lemma meta_of_running:
  assumes "running metas m" and "distinct (map app_pid metas)"
  shows "meta_of_pid metas (app_pid m) = Some m" and "live_pid metas (app_pid m)"
proof -
  have "m \<in> set metas" "app_pid x = app_pid m \<longleftrightarrow> x = m" if "x \<in> set metas" for x
    using assms that by (auto simp: running_def distinct_map inj_on_def)
  then show "meta_of_pid metas (app_pid m) = Some m"
    using assms by (auto simp: meta_of_pid_def running_def find_Some_iff in_set_conv_nth distinct_map inj_on_def)
      (metis distinct_map nth_eq_iff_index_eq nth_mem order_less_imp_not_eq2 order.strict_trans)
  show "live_pid metas (app_pid m)"
    using assms(1) by (auto simp: live_pid_def running_def list_ex_iff)
qed

lemma refresh_front:
  assumes "running metas m" and "distinct (map app_pid metas)" and "app_bundle m \<noteq> NO_BUNDLE"
  shows "refresh_mru_map metas (app_pid m) mru (app_bundle m) = Some (app_pid m)"
    and "q \<noteq> app_bundle m \<Longrightarrow> refresh_mru_map metas (app_pid m) mru q
      = (case mru q of Some p \<Rightarrow> if live_pid metas p then Some p else None | None \<Rightarrow> None)"
  using meta_of_running [OF assms(1,2)] assms(3)
  by (simp_all add: refresh_mru_map_def Let_def)

text \<open>The first press of a session, on the candidates \<open>xs\<close> with the front application among them.\<close>

lemma first_press_second:
  assumes "distinct mru" and "map entry_bundle (sort_key (mru_rank mru') xs) = b # p # rest"
    and "x \<in> set xs" and "entry_bundle x = b" and "distinct (map entry_bundle xs)"
  shows "\<exists>y \<in> set xs. entry_bundle y = p
    \<and> sort_key (mru_rank mru') xs ! next_index False (sort_key (mru_rank mru') xs) (entry_pid x) = y"
proof -
  let ?ss = "sort_key (mru_rank mru') xs"
  obtain u v ss where ss: "?ss = u # v # ss" "entry_bundle u = b" "entry_bundle v = p"
    using assms(2) by (auto simp: map_eq_Cons_conv)
  have mem: "u \<in> set xs" "v \<in> set xs"
    using arg_cong [OF ss(1), of set] by (auto simp: set_sort)
  then have "u = x" using assms(3-5) ss(2) by (auto simp: distinct_map inj_on_def)
  then have "next_index False ?ss (entry_pid x) = 1"
    unfolding ss(1) by (simp add: next_index_def position_def Let_def)
  with ss mem show ?thesis by auto
qed

lemma fresh_snapshot:
  assumes "distinct mru" and "NO_BUNDLE \<notin> set mru" and "distinct (map entry_bundle xs)"
    and "NO_BUNDLE \<notin> entry_bundle ` set xs" and "b \<in> entry_bundle ` set xs"
    and "List.find (\<lambda>q. q \<noteq> b \<and> q \<in> entry_bundle ` set xs) mru = Some p"
  shows "\<exists>rest. map entry_bundle (sort_key (mru_rank (promote_bundle b (ingest xs mru))) xs) = b # p # rest"
proof -
  have b: "b \<noteq> NO_BUNDLE" using assms(4,5) by metis
  have dm: "distinct (promote_bundle b (ingest xs mru))"
    using promote_bundle_ok ingest_ok [OF assms(1,2)] by blast
  have sub: "\<forall>x \<in> set xs. entry_bundle x \<in> set (promote_bundle b (ingest xs mru))"
  proof
    fix x assume x: "x \<in> set xs"
    then have "entry_bundle x \<noteq> NO_BUNDLE" using assms(4) by (metis imageI)
    with ingest_set [of mru xs] x show "entry_bundle x \<in> set (promote_bundle b (ingest xs mru))"
      by (simp add: promote_bundle_def b)
  qed
  obtain ys where "filter (\<lambda>q. q \<noteq> b \<and> q \<in> entry_bundle ` set xs) mru = p # ys"
    using find_filter [OF assms(6)] by blast
  moreover obtain zs where "ingest xs mru = mru @ zs" using ingest_prefix by blast
  ultimately show ?thesis
    unfolding snapshot_order [OF dm assms(3) sub]
    using assms(5) by (simp add: promote_bundle_def b conj_commute)
qed

text \<open>
  A single press switches to the application used before: from no cycle session, with the front
  application running and known to the system, the process brought to the front is one of the running
  application that comes first in the most-recently-used order after the front one, and of its
  instances the one recorded as last used.
\<close>

theorem switch_to_previous:
  assumes "switcher_inv s" and "session s = None"
    and "fst (effective_front_pid (sa_workspace_front a) (live_pid (sa_apps a)) s) = app_pid m"
    and "running (sa_apps a) m" and "distinct (map app_pid (sa_apps a))"
    and "\<forall>m. running (sa_apps a) m \<longrightarrow> app_bundle m \<noteq> NO_BUNDLE"
    and "List.find (\<lambda>b. b \<noteq> app_bundle m \<and> (\<exists>m'. running (sa_apps a) m' \<and> app_bundle m' = b)) (mru_bundles s) = Some p"
    and "cycle_apps c a False s = (s', calls)"
  shows "\<exists>m'. running (sa_apps a) m' \<and> app_bundle m' = p \<and> fronted calls = [app_pid m']
    \<and> (\<forall>m''. running (sa_apps a) m'' \<longrightarrow> app_bundle m'' = p \<longrightarrow>
         mru_map s p = Some (app_pid m'') \<longrightarrow> m' = m'')"
proof -
  let ?metas = "sa_apps a"
  obtain s1 where f: "effective_front_pid (sa_workspace_front a) (live_pid ?metas) s = (app_pid m, s1)"
    using assms(3) by (cases "effective_front_pid (sa_workspace_front a) (live_pid ?metas) s") simp
  have map1: "mru_map s1 = mru_map s"
    using f by (auto simp: effective_front_pid_def split: option.splits if_splits)
  define s2 where "s2 = s1\<lparr>mru_map := refresh_mru_map ?metas (app_pid m) (mru_map s1)\<rparr>"
  define xs where "xs = candidates (mru_map s2) ?metas"
  have s2: "session s2 = None" "mru_bundles s2 = mru_bundles s"
    using front_fields [of "sa_workspace_front a" "live_pid ?metas" s] f assms(2) by (simp_all add: s2_def)
  have b: "app_bundle m \<noteq> NO_BUNDLE" using assms(4,6) by blast
  note cand = candidate_bundle_set [OF assms(6), of "mru_map s2", folded xs_def]
  have front: "meta_entry m \<in> set xs"
    unfolding xs_def by (rule candidate_instance [OF assms(4,5) b])
      (simp add: s2_def refresh_front [OF assms(4,5) b])
  then have ne: "xs \<noteq> []" by auto
  define mru where "mru = promote_bundle (app_bundle m) (ingest xs (mru_bundles s))"
  define s3 where "s3 = s2\<lparr>mru_bundles := mru\<rparr>"
  have o3: "open_session a xs (app_pid m) s2 = ((sort_key (mru_rank mru) xs, app_pid m), s3)"
    by (simp add: open_session_def Let_def continuing_def s2 meta_of_running [OF assms(4,5)] promote_def
        mru_def s3_def)
  have inv: "distinct (mru_bundles s)" "NO_BUNDLE \<notin> set (mru_bundles s)"
    using assms(1) by (simp_all add: switcher_inv_def)
  have nob: "NO_BUNDLE \<notin> entry_bundle ` set xs"
  proof
    assume "NO_BUNDLE \<in> entry_bundle ` set xs"
    then obtain m' where "NO_BUNDLE = app_bundle m'" "running ?metas m'" unfolding cand(1) by auto
    then show False using assms(6) by metis
  qed
  have mb: "app_bundle m \<in> entry_bundle ` set xs" unfolding cand(1) using assms(4) by simp
  have "(q \<in> entry_bundle ` set xs) = (\<exists>m'. running ?metas m' \<and> app_bundle m' = q)" for q
    unfolding cand(1) by blast
  then have "List.find (\<lambda>q. q \<noteq> app_bundle m \<and> q \<in> entry_bundle ` set xs) (mru_bundles s) = Some p"
    using assms(7) by (simp only:)
  from fresh_snapshot [OF inv cand(2) nob mb this, folded mru_def] obtain rest where
    "map entry_bundle (sort_key (mru_rank mru) xs) = app_bundle m # p # rest" ..
  from first_press_second [OF inv(1) this front meta_entry_simps(1) cand(2), unfolded meta_entry_simps]
  obtain y where y: "y \<in> set xs" "entry_bundle y = p"
    "sort_key (mru_rank mru) xs ! next_index False (sort_key (mru_rank mru) xs) (app_pid m) = y" by blast
  have sne: "sort_key (mru_rank mru) xs \<noteq> []" using ne by (metis set_empty set_sort)
  have calls: "fronted calls = [entry_pid y]"
    using assms(8) ne sne
    unfolding cycle_apps_def Let_def f prod.case s2_def [symmetric] xs_def [symmetric] o3 y(3)
    by (auto simp: activate_def Let_def split: if_splits)
  obtain m' where m': "running ?metas m'" "y = meta_entry m'" using candidates_from y(1) unfolding xs_def by blast
  have "m' = m''" if "running ?metas m''" "app_bundle m'' = p" "mru_map s p = Some (app_pid m'')" for m''
  proof -
    have "p \<noteq> app_bundle m" using assms(7) by (auto simp: find_Some_iff)
    then have "mru_map s2 p = Some (app_pid m'')"
      using refresh_front(2) [OF assms(4,5) b, of p "mru_map s1"] that meta_of_running(2) [OF that(1) assms(5)]
      by (simp add: s2_def map1)
    then have "meta_entry m'' \<in> set xs"
      unfolding xs_def by (intro candidate_instance [OF that(1) assms(5)]) (use assms(6) that in auto)
    then have "y = meta_entry m''" using y cand(2) that(2) by (auto simp: distinct_map inj_on_def)
    then have "app_pid m' = app_pid m''" using m'(2) by (simp add: meta_entry_def)
    then show ?thesis using m'(1) that(1) assms(5) by (auto simp: running_def distinct_map inj_on_def)
  qed
  moreover have "app_bundle m' = p" "fronted calls = [app_pid m']"
    using y(2) calls by (simp_all add: m'(2))
  ultimately show ?thesis using m'(1) by blast
qed

theorem switch_to_previous_witness:
  "fronted (snd (cycle_apps \<lparr>unminimize_on_switch = False, app_switcher_hud = True\<rparr> (press_at 0) False
     (switcher_new\<lparr>mru_bundles := [lit ''A'', lit ''C'']\<rparr>))) = [3]"
proof -
  let ?s = "switcher_new\<lparr>mru_bundles := [lit ''A'', lit ''C'']\<rparr>"
  let ?m = "\<lparr>app_bundle = lit ''A'', app_name = lit ''A'', app_pid = 1, app_regular = True, app_terminated = False\<rparr>"
  have names: "lit ''A'' \<noteq> lit ''B''" "lit ''A'' \<noteq> lit ''C''" "lit ''C'' \<noteq> lit ''A''" "lit ''B'' \<noteq> lit ''C''"
    and no: "lit ''A'' \<noteq> NO_BUNDLE" "lit ''B'' \<noteq> NO_BUNDLE" "lit ''C'' \<noteq> NO_BUNDLE"
    by (simp_all add: lit_def NO_BUNDLE_def)
  have run: "running two_apps m \<longleftrightarrow> m \<in> set two_apps" for m by (auto simp: running_def two_apps_def)
  have apps: "sa_apps (press_at 0) = two_apps" by (simp add: press_at_def)
  obtain s' calls where st: "cycle_apps \<lparr>unminimize_on_switch = False, app_switcher_hud = True\<rparr> (press_at 0)
      False ?s = (s', calls)" by fastforce
  have h: "switcher_inv ?s" "session ?s = None"
    "fst (effective_front_pid (sa_workspace_front (press_at 0)) (live_pid (sa_apps (press_at 0))) ?s) = app_pid ?m"
    using names(2) no by (simp_all add: switcher_inv_def switcher_new_def effective_front_pid_def press_at_def)
  have m: "running (sa_apps (press_at 0)) ?m" "distinct (map app_pid (sa_apps (press_at 0)))"
    "\<forall>m. running (sa_apps (press_at 0)) m \<longrightarrow> app_bundle m \<noteq> NO_BUNDLE"
    unfolding apps run using no by (auto simp: two_apps_def)
  have found: "List.find (\<lambda>b. b \<noteq> app_bundle ?m \<and> (\<exists>m'. running (sa_apps (press_at 0)) m' \<and> app_bundle m' = b))
      (mru_bundles ?s) = Some (lit ''C'')"
  proof -
    have "two_apps ! 2 \<in> set two_apps" "app_bundle (two_apps ! 2) = lit ''C''"
      by (simp_all add: two_apps_def)
    then have "\<exists>m'. m' \<in> set two_apps \<and> app_bundle m' = lit ''C''" by blast
    moreover have "mru_bundles ?s = [lit ''A'', lit ''C'']" "app_bundle ?m = lit ''A''" by simp_all
    ultimately show ?thesis unfolding apps run using names(3) by (simp only: find.simps not_False_eq_True) simp
  qed
  from switch_to_previous [OF h m found st, unfolded apps run]
  obtain m' where m': "m' \<in> set two_apps" "app_bundle m' = lit ''C''" "fronted calls = [app_pid m']"
    by (elim exE conjE) (rule that)
  from m'(1,2) names have "app_pid m' = 3" by (auto simp: two_apps_def)
  with m'(3) st show ?thesis by simp
qed

end
