(* ===== verification/Clip_Image.thy ===== *)
theory Clip_Image
  imports Bytes
begin

text \<open>
  Images on the clipboard, \<open>png_or_tiff_to_dib\<close> and \<open>dib_to_png\<close> of \<open>src/src/clipboard.rs\<close>: a device
  independent bitmap built from the pixels of an image, and one received from the client parsed into
  pixels. Reading and writing PNG and TIFF is the image library's; both sides here are the pixels. A
  slice out of range panics: the outer \<open>None\<close>.
\<close>

type_synonym pixel = "u8 \<times> u8 \<times> u8 \<times> u8"

record image =
  im_width :: nat
  im_height :: nat
  im_pixels :: "pixel list"

section \<open>Encoding\<close>

fun bgra :: "pixel \<Rightarrow> bytes" where "bgra (r, g, b, a) = [b, g, r, a]"

text \<open>\<open>-(h as i32)\<close>, as the 32 bits written.\<close>

definition neg_i32 :: "nat \<Rightarrow> nat" where "neg_i32 h = nat ((- int h) mod 2 ^ 32)"

definition dib_header :: "nat \<Rightarrow> nat \<Rightarrow> bytes" where
  "dib_header w h =
     le_bytes 4 40 @ le_bytes 4 w @ le_bytes 4 (neg_i32 h) @ le_bytes 2 1 @ le_bytes 2 32 @ le_bytes 4 0
     @ le_bytes 4 (w * 4 * h) @ le_bytes 4 0 @ le_bytes 4 0 @ le_bytes 4 0 @ le_bytes 4 0"

definition image_to_dib :: "image \<Rightarrow> bytes" where
  "image_to_dib im =
     dib_header (im_width im) (im_height im) @ concat (map bgra (im_pixels im))"

section \<open>Decoding\<close>

datatype dib_error =
    DibShort
  | DibBogusSize nat
  | DibWidth int
  | DibHeight
  | DibCompression nat
  | DibBitCount nat
  | DibBitfields nat
  | DibOverflow
  | DibTruncated nat nat
  | DibBuffer

definition i32_of :: "nat \<Rightarrow> int" where
  "i32_of n = (if n < 2 ^ 31 then int n else int n - 2 ^ 32)"

definition field :: "nat \<Rightarrow> nat \<Rightarrow> bytes \<Rightarrow> nat" where
  "field off len bs = le_value (take len (drop off bs))"

definition slice :: "nat \<Rightarrow> nat \<Rightarrow> 'a list \<Rightarrow> 'a list option" where
  "slice lo hi xs = (if lo \<le> hi \<and> hi \<le> length xs then Some (take (hi - lo) (drop lo xs)) else None)"

definition usize_checked_mul :: "nat \<Rightarrow> nat \<Rightarrow> nat option" where
  "usize_checked_mul a b = (if a * b < 2 ^ 64 then Some (a * b) else None)"

definition usize_checked_add :: "nat \<Rightarrow> nat \<Rightarrow> nat option" where
  "usize_checked_add a b = (if a + b < 2 ^ 64 then Some (a + b) else None)"

function chunks_exact :: "nat \<Rightarrow> 'a list \<Rightarrow> 'a list list" where
  "chunks_exact k xs = (if k = 0 \<or> length xs < k then [] else take k xs # chunks_exact k (drop k xs))"
  by pat_completeness auto
termination by (relation "measure (length \<circ> snd)") auto

declare chunks_exact.simps [simp del]

definition pixel_of :: "nat \<Rightarrow> bytes \<Rightarrow> pixel" where
  "pixel_of bpp c = (c ! 2, c ! 1, c ! 0, if bpp = 4 then c ! 3 else 0xFF)"

definition row_pixels :: "nat \<Rightarrow> nat \<Rightarrow> nat \<Rightarrow> bytes \<Rightarrow> pixel list option" where
  "row_pixels bpp off w dib = map_option (map (pixel_of bpp) \<circ> chunks_exact bpp) (slice off (off + w * bpp) dib)"

fun all_rows :: "('a \<Rightarrow> 'b list option) \<Rightarrow> 'a list \<Rightarrow> 'b list option" where
  "all_rows f [] = Some []"
| "all_rows f (x # xs) =
     Option.bind (f x) (\<lambda>ys. map_option (\<lambda>zs. ys @ zs) (all_rows f xs))"

text \<open>The header: what the checks leave is the geometry of the pixel data.\<close>

record dib_layout =
  lay_width :: nat
  lay_height :: nat
  lay_top_down :: bool
  lay_bpp :: nat
  lay_stride :: nat
  lay_start :: nat

definition mask_bytes :: "nat \<Rightarrow> nat \<Rightarrow> nat" where
  "mask_bytes compression bi_size =
     (if (compression = 3 \<or> compression = 6) \<and> bi_size = 40
      then if compression = 6 then 16 else 12 else 0)"

definition parse_header :: "bytes \<Rightarrow> dib_error + dib_layout" where
  "parse_header dib =
     (if length dib < 40 then Inl DibShort
      else
        let bi_size = field 0 4 dib; width = i32_of (field 4 4 dib); height = i32_of (field 8 4 dib);
            bit_count = field 14 2 dib; compression = field 16 4 dib;
            bitfields = (compression = 3 \<or> compression = 6)
        in if bi_size < 40 \<or> length dib < bi_size then Inl (DibBogusSize bi_size)
           else if width \<le> 0 then Inl (DibWidth width)
           else if height = 0 then Inl DibHeight
           else if compression \<noteq> 0 \<and> \<not> bitfields then Inl (DibCompression compression)
           else if bit_count \<noteq> 24 \<and> bit_count \<noteq> 32 then Inl (DibBitCount bit_count)
           else if bitfields \<and> bit_count \<noteq> 32 then Inl (DibBitfields bit_count)
           else
             let w = nat width; bpp = bit_count div 8
             in Inr \<lparr>lay_width = w, lay_height = nat \<bar>height\<bar>, lay_top_down = height < 0, lay_bpp = bpp,
                     lay_stride = (w * bpp + 3) div 4 * 4,
                     lay_start = bi_size + mask_bytes compression bi_size\<rparr>)"

definition row_offset :: "dib_layout \<Rightarrow> nat \<Rightarrow> nat" where
  "row_offset l row =
     lay_start l + (if lay_top_down l then row else lay_height l - 1 - row) * lay_stride l"

definition dib_to_image :: "bytes \<Rightarrow> (dib_error + image) option" where
  "dib_to_image dib =
     (case parse_header dib of
        Inl e \<Rightarrow> Some (Inl e)
      | Inr l \<Rightarrow>
          (case Option.bind (usize_checked_mul (lay_stride l) (lay_height l)) (usize_checked_add (lay_start l)) of
             None \<Rightarrow> Some (Inl DibOverflow)
           | Some need \<Rightarrow>
               if length dib < need then Some (Inl (DibTruncated (length dib) need))
               else
                 (case Option.bind (usize_checked_mul (lay_width l) (lay_height l))
                         (\<lambda>n. usize_checked_mul n 4) of
                    None \<Rightarrow> Some (Inl DibBuffer)
                  | Some _ \<Rightarrow>
                      map_option (\<lambda>px. Inr \<lparr>im_width = lay_width l, im_height = lay_height l, im_pixels = px\<rparr>)
                        (all_rows (\<lambda>row. row_pixels (lay_bpp l) (row_offset l row) (lay_width l) dib)
                           [0 ..< lay_height l]))))"

section \<open>Lemmas\<close>

lemma chunks_exact_append:
  "0 < k \<Longrightarrow> length c = k \<Longrightarrow> chunks_exact k (c @ xs) = c # chunks_exact k xs"
  by (subst chunks_exact.simps) simp

lemma chunks_exact_Nil [simp]: "chunks_exact k [] = []"
  by (subst chunks_exact.simps) auto

lemma chunks_exact_nth:
  assumes "0 < k" and "length xs = n * k"
  shows "chunks_exact k xs = map (\<lambda>i. take k (drop (i * k) xs)) [0 ..< n]"
  using assms(2)
proof (induction n arbitrary: xs)
  case 0
  then show ?case by simp
next
  case (Suc n)
  then have "length (drop k xs) = n * k" "\<not> length xs < k" using assms(1) by simp_all
  with Suc.IH [of "drop k xs"] assms(1)
  have "chunks_exact k xs = take k xs # map (\<lambda>i. take k (drop (i * k) (drop k xs))) [0 ..< n]"
    by (simp add: chunks_exact.simps [of k xs])
  also have "map (\<lambda>i. take k (drop (i * k) (drop k xs))) [0 ..< n]
      = map (\<lambda>i. take k (drop (i * k) xs)) (map Suc [0 ..< n])"
    by (simp add: add.commute)
  finally show ?case by (simp add: upt_conv_Cons map_Suc_upt del: upt_Suc)
qed

lemma all_rows_map:
  "(\<And>x. x \<in> set xs \<Longrightarrow> f x = Some (g x)) \<Longrightarrow> all_rows f xs = Some (concat (map g xs))"
  by (induction xs) auto

end
