(* ===== verification/Clip_Image_Props.thy ===== *)
theory Clip_Image_Props
  imports Clip_Image
begin

text \<open>
  The bitmaps of the clipboard: decoding takes back what encoding wrote, and on any payload at all it
  returns, without a panic, an error or exactly the pixels the header describes.
\<close>

section \<open>Any payload\<close>

lemma i32_range: "n < 2 ^ 32 \<Longrightarrow> - (2 ^ 31) \<le> i32_of n \<and> i32_of n < 2 ^ 31"
  by (simp add: i32_of_def)

lemma field4_less: "field off 4 bs < 2 ^ 32"
  using le_value_bound [of "take 4 (drop off bs)"] power_increasing [of "length (take 4 (drop off bs))" 4 "256 :: nat"]
  by (simp add: field_def)

definition layout_ok :: "bytes \<Rightarrow> dib_layout \<Rightarrow> bool" where
  "layout_ok dib l \<longleftrightarrow> 0 < lay_width l \<and> lay_width l < 2 ^ 31 \<and> 0 < lay_height l \<and> lay_height l \<le> 2 ^ 31
     \<and> (lay_bpp l = 3 \<or> lay_bpp l = 4) \<and> lay_width l * lay_bpp l \<le> lay_stride l
     \<and> lay_stride l < lay_width l * lay_bpp l + 4 \<and> lay_stride l mod 4 = 0
     \<and> 40 \<le> lay_start l \<and> lay_start l \<le> length dib + 16"

lemma parse_header_ok:
  assumes "parse_header dib = Inr l"
  shows "layout_ok dib l"
proof -
  let ?w = "i32_of (field 4 4 dib)" and ?h = "i32_of (field 8 4 dib)"
  let ?size = "field 0 4 dib" and ?bits = "field 14 2 dib" and ?comp = "field 16 4 dib"
  have checks: "40 \<le> ?size" "?size \<le> length dib" "0 < ?w" "?h \<noteq> 0" "?bits = 24 \<or> ?bits = 32"
    and l: "l = \<lparr>lay_width = nat ?w, lay_height = nat \<bar>?h\<bar>, lay_top_down = ?h < 0, lay_bpp = ?bits div 8,
      lay_stride = (nat ?w * (?bits div 8) + 3) div 4 * 4, lay_start = ?size + mask_bytes ?comp ?size\<rparr>"
    using assms by (auto simp: parse_header_def Let_def split: if_splits)
  have w: "?w < 2 ^ 31" and h: "\<bar>?h\<bar> \<le> 2 ^ 31"
    using i32_range [OF field4_less, of 4 dib] i32_range [OF field4_less, of 8 dib] by linarith+
  have m: "mask_bytes ?comp ?size \<le> 16" by (simp add: mask_bytes_def)
  have r: "n \<le> (n + 3) div 4 * 4" "(n + 3) div 4 * 4 < n + 4" for n :: nat by linarith+
  show ?thesis unfolding layout_ok_def l dib_layout.simps
    using checks w h m r by (auto simp: nat_less_iff)
qed

definition need_of :: "dib_layout \<Rightarrow> nat" where
  "need_of l = lay_start l + lay_stride l * lay_height l"

lemma sizes_fit:
  assumes "layout_ok dib l" and "length dib < 2 ^ 32"
  shows "lay_stride l * lay_height l < 2 ^ 64" and "need_of l < 2 ^ 64" and "lay_width l * lay_height l * 4 < 2 ^ 64"
proof -
  have w: "lay_width l \<le> 2 ^ 31 - 1" and h: "lay_height l \<le> 2 ^ 31"
    and st: "lay_stride l < lay_width l * lay_bpp l + 4" "lay_stride l mod 4 = 0" "lay_bpp l \<le> 4"
    and start: "lay_start l \<le> length dib + 16"
    using assms(1) by (auto simp: layout_ok_def)
  have wb: "lay_width l * lay_bpp l \<le> (2 ^ 31 - 1) * 4" by (rule mult_mono [OF w st(3)]) simp_all
  with st(1) have "lay_stride l < 2 ^ 33" by simp
  with st(2) have "lay_stride l \<le> 2 ^ 33 - 4" by (simp add: mod_eq_0_iff_dvd dvd_def) presburger
  then have "lay_stride l * lay_height l \<le> (2 ^ 33 - 4) * 2 ^ 31" using h by (rule mult_mono) simp_all
  then have s: "lay_stride l * lay_height l \<le> 2 ^ 64 - 2 ^ 33" by simp
  then show "lay_stride l * lay_height l < 2 ^ 64" by simp
  show "need_of l < 2 ^ 64" using s start assms(2) unfolding need_of_def by simp
  have "lay_width l * lay_height l \<le> (2 ^ 31 - 1) * 2 ^ 31" using w h by (rule mult_mono) simp_all
  then show "lay_width l * lay_height l * 4 < 2 ^ 64" by (simp add: mult.commute)
qed

lemma row_in_range:
  assumes "layout_ok dib l" and "need_of l \<le> length dib" and "row < lay_height l"
  shows "row_offset l row + lay_width l * lay_bpp l \<le> length dib"
proof -
  let ?r = "if lay_top_down l then row else lay_height l - 1 - row"
  have "?r + 1 \<le> lay_height l" using assms(3) by auto
  then have "(?r + 1) * lay_stride l \<le> lay_height l * lay_stride l" by (rule mult_le_mono1)
  moreover have "lay_width l * lay_bpp l \<le> lay_stride l" using assms(1) by (simp add: layout_ok_def)
  ultimately show ?thesis
    using assms(2) by (simp add: row_offset_def need_of_def algebra_simps)
qed

text \<open>The pixel a layout describes at a column and a row.\<close>

definition dib_pixel :: "bytes \<Rightarrow> dib_layout \<Rightarrow> nat \<Rightarrow> nat \<Rightarrow> pixel" where
  "dib_pixel dib l row col =
     pixel_of (lay_bpp l) (take (lay_bpp l) (drop (row_offset l row + col * lay_bpp l) dib))"

lemma row_pixels_eq:
  assumes "layout_ok dib l" and "need_of l \<le> length dib" and "row < lay_height l"
  shows "row_pixels (lay_bpp l) (row_offset l row) (lay_width l) dib
    = Some (map (dib_pixel dib l row) [0 ..< lay_width l])"
proof -
  let ?b = "lay_bpp l" and ?off = "row_offset l row" and ?w = "lay_width l"
  have b: "0 < ?b" using assms(1) by (auto simp: layout_ok_def)
  note fits = row_in_range [OF assms]
  let ?s = "take (?w * ?b) (drop ?off dib)"
  have len: "length ?s = ?w * ?b" using fits by simp
  have "take ?b (drop (i * ?b) ?s) = take ?b (drop (?off + i * ?b) dib)" if "i < ?w" for i
  proof -
    have "i * ?b + ?b \<le> ?w * ?b" using mult_le_mono1 [of "i + 1" ?w ?b] that by simp
    then show ?thesis by (simp add: drop_take take_take min_def algebra_simps)
  qed
  then show ?thesis
    using fits by (simp add: row_pixels_def slice_def chunks_exact_nth [OF b len] dib_pixel_def)
qed

lemma dib_to_image_eq:
  assumes "parse_header dib = Inr l" and "length dib < 2 ^ 32"
  shows "dib_to_image dib = Some (if length dib < need_of l then Inl (DibTruncated (length dib) (need_of l))
    else Inr \<lparr>im_width = lay_width l, im_height = lay_height l,
      im_pixels = concat (map (\<lambda>row. map (dib_pixel dib l row) [0 ..< lay_width l]) [0 ..< lay_height l])\<rparr>)"
proof -
  note ok = parse_header_ok [OF assms(1)]
  note fit = sizes_fit [OF ok assms(2)]
  have need: "Option.bind (usize_checked_mul (lay_stride l) (lay_height l)) (usize_checked_add (lay_start l))
      = Some (need_of l)"
    using fit(1,2) by (simp add: usize_checked_mul_def usize_checked_add_def need_of_def)
  have "lay_width l * lay_height l < 2 ^ 64" using fit(3) by linarith
  with fit(3) have cap: "\<exists>n. Option.bind (usize_checked_mul (lay_width l) (lay_height l)) (\<lambda>n. usize_checked_mul n 4) = Some n"
    by (simp add: usize_checked_mul_def mult.commute)
  have rows: "all_rows (\<lambda>row. row_pixels (lay_bpp l) (row_offset l row) (lay_width l) dib) [0 ..< lay_height l]
      = Some (concat (map (\<lambda>row. map (dib_pixel dib l row) [0 ..< lay_width l]) [0 ..< lay_height l]))"
    if "need_of l \<le> length dib"
    by (rule all_rows_map) (simp add: row_pixels_eq [OF ok that])
  show ?thesis using cap rows by (auto simp: dib_to_image_def assms(1) need)
qed

lemma concat_rows:
  assumes "\<And>row. length (f row) = w"
  shows "length (concat (map f [0 ..< h])) = h * w"
    and "row < h \<Longrightarrow> col < w \<Longrightarrow> concat (map f [0 ..< h]) ! (row * w + col) = f row ! col"
proof -
  have len: "length (concat (map f [0 ..< h])) = h * w" for h using assms by (induction h) simp_all
  then show "length (concat (map f [0 ..< h])) = h * w" .
  show "row < h \<Longrightarrow> col < w \<Longrightarrow> concat (map f [0 ..< h]) ! (row * w + col) = f row ! col"
  proof (induction h)
    case 0
    then show ?case by simp
  next
    case (Suc h)
    have "row * w + col < h * w" if "row < h"
      using mult_le_mono1 [of "row + 1" h w] that Suc.prems(2) by simp
    then show ?case using Suc len [of h] by (cases "row = h") (auto simp: nth_append)
  qed
qed

text \<open>
  What the format says of a payload, from its bytes alone: its integers are little-endian, the signed
  ones in two's complement; the pixels follow the header and the masks outside it; a line is padded to
  four bytes; lines run from the bottom unless the height is negative; a pixel is blue, green, red and,
  in 32 bits, a fourth byte, which the code takes as the alpha.
\<close>

definition u16_at :: "bytes \<Rightarrow> nat \<Rightarrow> nat" where
  "u16_at d k = unat (d ! k) + 2 ^ 8 * unat (d ! (k + 1))"

definition u32_at :: "bytes \<Rightarrow> nat \<Rightarrow> nat" where
  "u32_at d k = u16_at d k + 2 ^ 16 * u16_at d (k + 2)"

definition i32_at :: "bytes \<Rightarrow> nat \<Rightarrow> int" where
  "i32_at d k = (if 128 \<le> unat (d ! (k + 3)) then int (u32_at d k) - 2 ^ 32 else int (u32_at d k))"

definition picture_width :: "bytes \<Rightarrow> nat" where "picture_width d = nat (i32_at d 4)"

definition picture_height :: "bytes \<Rightarrow> nat" where "picture_height d = nat \<bar>i32_at d 8\<bar>"

definition pixels_from :: "bytes \<Rightarrow> nat" where
  "pixels_from d = u32_at d 0
     + (if u32_at d 0 \<noteq> 40 then 0 else if u32_at d 16 = 3 then 12 else if u32_at d 16 = 6 then 16 else 0)"

definition line_size :: "bytes \<Rightarrow> nat" where
  "line_size d = (let n = picture_width d * (u16_at d 14 div 8) in if n mod 4 = 0 then n else n + (4 - n mod 4))"

definition pixels_end :: "bytes \<Rightarrow> nat" where
  "pixels_end d = pixels_from d + picture_height d * line_size d"

definition pixel_place :: "bytes \<Rightarrow> nat \<Rightarrow> nat \<Rightarrow> nat" where
  "pixel_place d row col = pixels_from d
     + line_size d * (if i32_at d 8 < 0 then row else picture_height d - (row + 1)) + u16_at d 14 div 8 * col"

definition colours_at :: "bytes \<Rightarrow> nat \<Rightarrow> pixel" where
  "colours_at d k = (d ! (k + 2), d ! (k + 1), d ! k, if u16_at d 14 = 32 then d ! (k + 3) else 255)"

definition dib_checks :: "bytes \<Rightarrow> (bool \<times> dib_error) list" where
  "dib_checks d =
     [(40 \<le> length d, DibShort),
      (40 \<le> u32_at d 0 \<and> u32_at d 0 \<le> length d, DibBogusSize (u32_at d 0)),
      (0 < i32_at d 4, DibWidth (i32_at d 4)),
      (i32_at d 8 \<noteq> 0, DibHeight),
      (u32_at d 16 \<in> {0, 3, 6}, DibCompression (u32_at d 16)),
      (u16_at d 14 \<in> {24, 32}, DibBitCount (u16_at d 14)),
      (u32_at d 16 \<in> {3, 6} \<longrightarrow> u16_at d 14 = 32, DibBitfields (u16_at d 14)),
      (pixels_end d \<le> length d, DibTruncated (length d) (pixels_end d))]"

fun first_failed :: "(bool \<times> dib_error) list \<Rightarrow> dib_error option" where
  "first_failed [] = None"
| "first_failed ((ok, e) # cs) = (if ok then first_failed cs else Some e)"

lemma nth_bytes:
  assumes "k + n \<le> length d"
  shows "take n (drop k d) = map (\<lambda>i. d ! (k + i)) [0 ..< n]"
  using assms by (intro nth_equalityI) simp_all

lemma fields_at:
  assumes "40 \<le> length d"
  shows "field 0 4 d = u32_at d 0" "field 4 4 d = u32_at d 4" "field 8 4 d = u32_at d 8"
    "field 14 2 d = u16_at d 14" "field 16 4 d = u32_at d 16"
  using assms by (simp_all add: field_def nth_bytes nth_bytes [of 0 4 d, simplified] upt_rec u32_at_def u16_at_def)

lemma i32_of_at: "i32_of (u32_at d k) = i32_at d k"
proof -
  have b: "unat (d ! i) \<le> 255" for i using unat_u8_less [of "d ! i"] by simp
  show ?thesis
    using b [of k] b [of "k + 1"] b [of "k + 2"]
    by (auto simp: i32_of_def i32_at_def u32_at_def u16_at_def numeral_3_eq_3)
qed

lemma padded_eq: "(n + 3) div 4 * 4 = (if n mod 4 = 0 then n else n + (4 - n mod 4))" for n :: nat
  by presburger

text \<open>The header as the code reads it and the format's description of the payload agree.\<close>

lemma parse_header_checks:
  "case parse_header d of
     Inl e \<Rightarrow> first_failed (dib_checks d) = Some e
   | Inr l \<Rightarrow> first_failed (butlast (dib_checks d)) = None
       \<and> l = \<lparr>lay_width = picture_width d, lay_height = picture_height d, lay_top_down = i32_at d 8 < 0,
            lay_bpp = u16_at d 14 div 8, lay_stride = line_size d, lay_start = pixels_from d\<rparr>
       \<and> u16_at d 14 \<in> {24, 32}"
proof (cases "40 \<le> length d")
  case False
  then show ?thesis by (simp add: parse_header_def dib_checks_def)
next
  case True
  note f = fields_at [OF True] i32_of_at
  from True show ?thesis
    by (simp add: parse_header_def f mask_bytes_def Let_def dib_checks_def pixels_from_def line_size_def padded_eq
        picture_width_def picture_height_def)
qed

lemma first_failed_last: "first_failed cs = None \<Longrightarrow> first_failed (cs @ [(ok, e)]) = (if ok then None else Some e)"
  by (induction cs rule: first_failed.induct) (auto split: if_splits)

lemma dib_pixel_at:
  assumes "layout_ok dib l" and "need_of l \<le> length dib" and "row < lay_height l" and "col < lay_width l"
    and "lay_bpp l = u16_at dib 14 div 8" and "u16_at dib 14 \<in> {24, 32}"
  shows "row_offset l row + col * lay_bpp l + lay_bpp l \<le> length dib"
    and "dib_pixel dib l row col = colours_at dib (row_offset l row + col * lay_bpp l)"
proof -
  have "col * lay_bpp l + lay_bpp l \<le> lay_width l * lay_bpp l"
    using mult_le_mono1 [of "col + 1" "lay_width l" "lay_bpp l"] assms(4) by simp
  with row_in_range [OF assms(1-3)]
  show le: "row_offset l row + col * lay_bpp l + lay_bpp l \<le> length dib" by linarith
  then show "dib_pixel dib l row col = colours_at dib (row_offset l row + col * lay_bpp l)"
    using assms(5,6) by (auto simp: dib_pixel_def pixel_of_def colours_at_def nth_bytes)
qed

text \<open>
  C16. On every payload below four gigabytes the decoder returns, without a slice out of range, and its
  answer is exactly the one the bytes determine: the error of the first check that fails, in the order
  of the code, or else a picture of the width and height of the header, positive both, whose pixel at
  each row and column is made of the bytes the format puts there - the lines padded to four bytes and
  taken from the bottom unless the height is negative, blue before green before red, opaque in 24
  bits - all of them inside the payload, which bounds the size of the picture. The fourth byte of a
  32-bit pixel is taken as its alpha, also where the format calls it reserved.
\<close>

theorem dib_decode_exact:
  assumes "length dib < 2 ^ 32"
  shows "case first_failed (dib_checks dib) of
      Some e \<Rightarrow> dib_to_image dib = Some (Inl e)
    | None \<Rightarrow> dib_to_image dib = Some (Inr \<lparr>im_width = picture_width dib, im_height = picture_height dib,
          im_pixels = concat (map (\<lambda>row. map (\<lambda>col. colours_at dib (pixel_place dib row col))
            [0 ..< picture_width dib]) [0 ..< picture_height dib])\<rparr>)
        \<and> 0 < picture_width dib \<and> 0 < picture_height dib
        \<and> 3 * (picture_height dib * picture_width dib) \<le> length dib
        \<and> (\<forall>row < picture_height dib. \<forall>col < picture_width dib.
             pixel_place dib row col + u16_at dib 14 div 8 \<le> length dib)"
proof (cases "parse_header dib")
  case (Inl e)
  with parse_header_checks [of dib] show ?thesis by (simp add: dib_to_image_def)
next
  case (Inr l)
  with parse_header_checks [of dib]
  have checks: "first_failed (butlast (dib_checks dib)) = None" and bits: "u16_at dib 14 \<in> {24, 32}"
    and l: "l = \<lparr>lay_width = picture_width dib, lay_height = picture_height dib, lay_top_down = i32_at dib 8 < 0,
            lay_bpp = u16_at dib 14 div 8, lay_stride = line_size dib, lay_start = pixels_from dib\<rparr>" by simp_all
  note ok = parse_header_ok [OF Inr] and eq = dib_to_image_eq [OF Inr assms]
  have need: "need_of l = pixels_end dib" by (simp add: need_of_def l pixels_end_def mult.commute)
  have "dib_checks dib
      = butlast (dib_checks dib) @ [(pixels_end dib \<le> length dib, DibTruncated (length dib) (pixels_end dib))]"
    by (simp add: dib_checks_def)
  with first_failed_last [OF checks]
  have ff: "first_failed (dib_checks dib)
      = (if pixels_end dib \<le> length dib then None else Some (DibTruncated (length dib) (pixels_end dib)))" by metis
  show ?thesis
  proof (cases "pixels_end dib \<le> length dib")
    case False
    with eq ff need show ?thesis by simp
  next
    case True
    then have fits: "need_of l \<le> length dib" by (simp add: need)
    have place: "row_offset l row + col * lay_bpp l = pixel_place dib row col" for row col
      by (simp add: row_offset_def pixel_place_def l mult.commute)
    note at = dib_pixel_at [OF ok fits _ _ _ bits, unfolded place]
    have px: "concat (map (\<lambda>row. map (dib_pixel dib l row) [0 ..< lay_width l]) [0 ..< lay_height l])
        = concat (map (\<lambda>row. map (\<lambda>col. colours_at dib (pixel_place dib row col))
            [0 ..< picture_width dib]) [0 ..< picture_height dib])"
      using at(2) by (intro arg_cong [where f = concat] map_cong refl) (simp_all add: l)
    have w: "lay_width l * 3 \<le> lay_stride l"
      using ok mult_le_mono2 [of 3 "lay_bpp l" "lay_width l"] unfolding layout_ok_def by linarith
    have "3 * (lay_height l * lay_width l) = lay_width l * 3 * lay_height l" by simp
    also have "\<dots> \<le> need_of l" using mult_le_mono1 [OF w, of "lay_height l"] unfolding need_of_def by linarith
    finally have "3 * (lay_height l * lay_width l) \<le> need_of l" .
    then have size: "3 * (picture_height dib * picture_width dib) \<le> length dib" using fits by (simp add: l)
    have "dib_to_image dib = Some (Inr \<lparr>im_width = picture_width dib, im_height = picture_height dib,
          im_pixels = concat (map (\<lambda>row. map (\<lambda>col. colours_at dib (pixel_place dib row col))
            [0 ..< picture_width dib]) [0 ..< picture_height dib])\<rparr>)"
      using eq fits px by (simp add: l)
    moreover have "0 < picture_width dib \<and> 0 < picture_height dib" using ok by (simp add: layout_ok_def l)
    ultimately show ?thesis using ff True size at(1) by (simp add: l)
  qed
qed

text \<open>Two lines of one pixel, from the bottom, 24 bits deep: each line is padded to four bytes.\<close>

definition tiny_dib :: bytes where
  "tiny_dib = [40, 0, 0, 0, 1, 0, 0, 0, 2, 0, 0, 0, 1, 0, 24, 0] @ replicate 24 0
     @ [10, 20, 30, 0, 40, 50, 60, 0]"

theorem dib_decode_exact_witness:
  "dib_to_image tiny_dib
    = Some (Inr \<lparr>im_width = 1, im_height = 2, im_pixels = [(60, 50, 40, 255), (30, 20, 10, 255)]\<rparr>)"
proof -
  have bytes: "length tiny_dib = 48" "u32_at tiny_dib 0 = 40" "i32_at tiny_dib 4 = 1" "i32_at tiny_dib 8 = 2"
    "u16_at tiny_dib 14 = 24" "u32_at tiny_dib 16 = 0"
    by (simp_all add: tiny_dib_def nth_append u32_at_def u16_at_def i32_at_def)
  have size: "picture_width tiny_dib = 1" "picture_height tiny_dib = 2" "pixels_from tiny_dib = 40"
    "line_size tiny_dib = 4"
    by (simp_all add: picture_width_def picture_height_def pixels_from_def line_size_def bytes)
  have "first_failed (dib_checks tiny_dib) = None" by (simp add: dib_checks_def bytes pixels_end_def size)
  moreover have "colours_at tiny_dib (pixel_place tiny_dib 0 0) = (60, 50, 40, 255)"
    "colours_at tiny_dib (pixel_place tiny_dib 1 0) = (30, 20, 10, 255)"
    by (simp_all add: colours_at_def pixel_place_def size bytes) (simp_all add: tiny_dib_def nth_append)
  ultimately show ?thesis
    using dib_decode_exact [of tiny_dib] by (simp add: bytes size upt_rec)
qed

section \<open>The round trip\<close>

lemma concat_blocks:
  assumes "\<And>x. x \<in> set xs \<Longrightarrow> length (f x) = k" and "i < length xs"
  shows "take k (drop (i * k) (concat (map f xs))) = f (xs ! i)"
  using assms
proof (induction xs arbitrary: i)
  case Nil
  then show ?case by simp
next
  case (Cons x xs)
  then show ?case by (cases i) simp_all
qed

lemma length_blocks: "(\<And>x. x \<in> set xs \<Longrightarrow> length (f x) = k) \<Longrightarrow> length (concat (map f xs)) = length xs * k"
  by (induction xs) simp_all

lemma length_bgra: "length (bgra p) = 4" by (cases p) simp

lemma pixel_of_bgra: "pixel_of 4 (bgra p) = p" by (cases p) (simp add: pixel_of_def)

lemma length_dib_header: "length (dib_header w h) = 40" by (simp add: dib_header_def)

lemma neg_i32: "0 < h \<Longrightarrow> h < 2 ^ 31 \<Longrightarrow> neg_i32 h = 2 ^ 32 - h \<and> i32_of (neg_i32 h) = - int h"
proof -
  assume h: "0 < h" "h < 2 ^ 31"
  have "(- int h) mod 2 ^ 32 = 2 ^ 32 - int h"
    using h zmod_trivial_iff [of "2 ^ 32 - int h" "2 ^ 32"] minus_mod_self1 [of "- int h" "2 ^ 32"]
    by (simp add: zmod_zminus1_eq_if)
  then have "neg_i32 h = 2 ^ 32 - h" using h by (simp add: neg_i32_def nat_diff_distrib)
  with h show ?thesis by (simp add: i32_of_def of_nat_diff)
qed

lemma header_fields:
  "field 0 4 (dib_header w h @ px) = 40" "field 4 4 (dib_header w h @ px) = w mod 2 ^ 32"
  "field 8 4 (dib_header w h @ px) = neg_i32 h" "field 14 2 (dib_header w h @ px) = 32"
  "field 16 4 (dib_header w h @ px) = 0"
proof -
  have "neg_i32 h < 2 ^ 32" using pos_mod_bound [of "2 ^ 32" "- int h"] by (simp add: neg_i32_def nat_less_iff)
  then show "field 0 4 (dib_header w h @ px) = 40" "field 4 4 (dib_header w h @ px) = w mod 2 ^ 32"
    "field 8 4 (dib_header w h @ px) = neg_i32 h" "field 14 2 (dib_header w h @ px) = 32"
    "field 16 4 (dib_header w h @ px) = 0"
    by (simp_all add: field_def dib_header_def le_value_le_bytes)
qed

lemma parse_own_header:
  assumes "0 < w" "w < 2 ^ 31" "0 < h" "h < 2 ^ 31"
  shows "parse_header (dib_header w h @ px) = Inr \<lparr>lay_width = w, lay_height = h, lay_top_down = True,
    lay_bpp = 4, lay_stride = w * 4, lay_start = 40\<rparr>"
proof -
  have "i32_of (w mod 2 ^ 32) = int w" "i32_of (neg_i32 h) = - int h"
    using assms neg_i32 [OF assms(3,4)] by (simp_all add: i32_of_def)
  with assms show ?thesis
    by (simp add: parse_header_def header_fields length_dib_header Let_def mask_bytes_def)
qed

text \<open>
  A bitmap built from an image is parsed back into that image, whatever its pixels, alpha
  included: the stride, the order of the rows and the order of the channels of the encoder are the
  ones the decoder reads from the header.
\<close>

theorem dib_roundtrip:
  assumes "0 < im_width im" "im_width im < 2 ^ 31" "0 < im_height im" "im_height im < 2 ^ 31"
    and "length (im_pixels im) = im_height im * im_width im" and "length (image_to_dib im) < 2 ^ 32"
  shows "dib_to_image (image_to_dib im) = Some (Inr im)"
proof -
  let ?w = "im_width im" and ?h = "im_height im" and ?px = "im_pixels im"
  let ?body = "concat (map bgra ?px)"
  define l where "l = \<lparr>lay_width = ?w, lay_height = ?h, lay_top_down = True, lay_bpp = 4, lay_stride = ?w * 4, lay_start = 40\<rparr>"
  have hd: "parse_header (image_to_dib im) = Inr l"
    unfolding image_to_dib_def l_def by (rule parse_own_header [OF assms(1-4)])
  have len: "length (image_to_dib im) = 40 + ?h * ?w * 4"
    using length_blocks [of ?px bgra 4] length_bgra assms(5) by (simp add: image_to_dib_def length_dib_header)
  have px: "dib_pixel (image_to_dib im) l row col = ?px ! (row * ?w + col)" if "row < ?h" "col < ?w" for row col
  proof -
    have "row * ?w + col < ?h * ?w" using mult_le_mono1 [of "row + 1" ?h ?w] that by simp
    then have i: "row * ?w + col < length ?px" using assms(5) by simp
    have "row_offset l row + col * lay_bpp l = 40 + (row * ?w + col) * 4"
      by (simp add: l_def row_offset_def algebra_simps)
    then have "drop (row_offset l row + col * lay_bpp l) (image_to_dib im) = drop ((row * ?w + col) * 4) ?body"
      by (simp add: image_to_dib_def length_dib_header)
    then show ?thesis
      using concat_blocks [of ?px bgra 4, OF length_bgra i] by (simp add: dib_pixel_def l_def pixel_of_bgra)
  qed
  have rows: "concat (map (\<lambda>row. map (dib_pixel (image_to_dib im) l row) [0 ..< ?w]) [0 ..< ?h]) = ?px"
    (is "concat (map ?f _) = _")
  proof (rule nth_equalityI)
    show lens: "length (concat (map ?f [0 ..< ?h])) = length ?px"
      using concat_rows(1) [of ?f ?w ?h] assms(5) by simp
    fix i assume "i < length (concat (map ?f [0 ..< ?h]))"
    then have i: "i < ?h * ?w" using lens assms(5) by simp
    then have "i div ?w < ?h" "i mod ?w < ?w" "i div ?w * ?w + i mod ?w = i"
      using assms(1) by (simp_all add: less_mult_imp_div_less)
    with concat_rows(2) [where f = ?f and w = ?w and h = ?h and row = "i div ?w" and col = "i mod ?w"] px
    show "concat (map ?f [0 ..< ?h]) ! i = ?px ! i" by simp
  qed
  have "need_of l = length (image_to_dib im)" by (simp add: need_of_def l_def len)
  then show ?thesis
    using dib_to_image_eq [OF hd assms(6)] rows by (simp add: l_def)
qed

theorem dib_roundtrip_witness:
  "dib_to_image (image_to_dib \<lparr>im_width = 1, im_height = 2, im_pixels = [(1, 2, 3, 4), (5, 6, 7, 0)]\<rparr>)
    = Some (Inr \<lparr>im_width = 1, im_height = 2, im_pixels = [(1, 2, 3, 4), (5, 6, 7, 0)]\<rparr>)"
  by (rule dib_roundtrip) (simp_all add: image_to_dib_def length_dib_header)

text \<open>
  A 32-bit bitmap without masks has no alpha channel and its fourth byte is reserved, usually zero:
  the decoder takes it for the alpha of the pixel, and the image is transparent.
\<close>

lemma reserved_byte_is_alpha: "pixel_of 4 [b, g, r, 0] = (r, g, b, 0)"
  by (simp add: pixel_of_def)

end
