(* ===== verification/Clip_Files.thy ===== *)
theory Clip_Files
  imports Bytes
begin

text \<open>
  Files on the clipboard, from \<open>src/src/clipboard.rs\<close>, \<open>src/src/file_promise.rs\<close> and
  \<open>src/src/file_promise_lazy.rs\<close>: the walk of the copied files and the contents served to the client,
  and, in the other direction, the destinations of a remote copy, the plan of its chunks and their
  download. A path is the list of its components; a file system call answers by a parameter.
\<close>

type_synonym path = "ustr list"

section \<open>The files copied on the Mac\<close>

text \<open>What the file system shows: a name that is not Unicode and metadata that cannot be read are \<open>None\<close>,
  and so is the content of a directory that cannot be opened.\<close>

datatype fs_node =
    RegularFile nat
  | Directory "(ustr option \<times> fs_node option) list option"
  | Symlink

record file_entry =
  fe_name :: ustr
  fe_size :: "nat option"
  fe_is_dir :: bool
  fe_path :: path
  fe_relative :: "ustr option"

definition MAX_FILES_PER_COPY :: nat where "MAX_FILES_PER_COPY = 10000"

definition BACKSLASH :: nat where "BACKSLASH = 92"

fun node_entry :: "path \<Rightarrow> ustr option \<Rightarrow> ustr \<Rightarrow> fs_node \<Rightarrow> file_entry" where
  "node_entry p rel name (RegularFile n) =
     \<lparr>fe_name = name, fe_size = Some n, fe_is_dir = False, fe_path = p, fe_relative = rel\<rparr>"
| "node_entry p rel name (Directory _) =
     \<lparr>fe_name = name, fe_size = None, fe_is_dir = True, fe_path = p, fe_relative = rel\<rparr>"
| "node_entry p rel name Symlink =
     \<lparr>fe_name = name, fe_size = None, fe_is_dir = False, fe_path = p, fe_relative = rel\<rparr>"

text \<open>\<open>walk_inner\<close>: the entries so far, and whether the walk goes on.\<close>

function walk_inner ::
    "file_entry list \<Rightarrow> path \<Rightarrow> ustr \<Rightarrow> (ustr option \<times> fs_node option) list \<Rightarrow> file_entry list \<times> bool"
where
  "walk_inner out dir pre [] = (out, True)"
| "walk_inner out dir pre ((None, node) # es) = walk_inner out dir pre es"
| "walk_inner out dir pre ((Some name, None) # es) = walk_inner out dir pre es"
| "walk_inner out dir pre ((Some name, Some Symlink) # es) = walk_inner out dir pre es"
| "walk_inner out dir pre ((Some name, Some (RegularFile n)) # es) =
     (let out = out @ [node_entry (dir @ [name]) (Some pre) name (RegularFile n)]
      in if MAX_FILES_PER_COPY \<le> length out then (out, False) else walk_inner out dir pre es)"
| "walk_inner out dir pre ((Some name, Some (Directory sub)) # es) =
     (let out = out @ [node_entry (dir @ [name]) (Some pre) name (Directory sub)]
      in if MAX_FILES_PER_COPY \<le> length out then (out, False)
         else case sub of
                None \<Rightarrow> walk_inner out dir pre es
              | Some ch \<Rightarrow>
                  (case walk_inner out (dir @ [name]) (pre @ BACKSLASH # name) ch of
                     (out, True) \<Rightarrow> walk_inner out dir pre es
                   | (out, False) \<Rightarrow> (out, False)))"
  by pat_completeness auto
termination
  by (relation "measure (\<lambda>(out, dir, pre, es). size_list (size_prod (\<lambda>_. 0) (size_option size)) es)") auto

text \<open>A pasteboard item: the resolved path, its last component when Unicode, its node.\<close>

type_synonym pb_item = "(path \<times> ustr option \<times> fs_node option) option"

function read_files :: "file_entry list \<Rightarrow> pb_item list \<Rightarrow> file_entry list" where
  "read_files out [] = out"
| "read_files out (None # items) = read_files out items"
| "read_files out (Some (p, None, node) # items) = read_files out items"
| "read_files out (Some (p, Some name, None) # items) = read_files out items"
| "read_files out (Some (p, Some name, Some node) # items) =
     (if node = Symlink then read_files out items
      else
        let out = out @ [node_entry p None name node]
        in if MAX_FILES_PER_COPY \<le> length out then out
           else case node of
                  Directory (Some ch) \<Rightarrow>
                    (case walk_inner out p name ch of
                       (out, True) \<Rightarrow> read_files out items
                     | (out, False) \<Rightarrow> out)
                | _ \<Rightarrow> read_files out items)"
  by pat_completeness auto
termination by (relation "measure (length \<circ> snd)") auto

section \<open>Serving the contents\<close>

definition MAX_FILE_RANGE_BYTES :: nat where "MAX_FILE_RANGE_BYTES = 4 * 1024 * 1024"

text \<open>
  One \<open>read\<close>: at the end of the file nothing, otherwise at least one byte and no more than asked; an
  error is \<open>None\<close>. \<open>short\<close> answers how many bytes the system hands over after the given count.
\<close>

definition read_some :: "(nat \<Rightarrow> nat option) \<Rightarrow> nat \<Rightarrow> nat \<Rightarrow> bytes \<Rightarrow> bytes option" where
  "read_some short filled room rest =
     map_option (\<lambda>k. take (min room (max 1 k)) rest) (short filled)"

function fill_loop :: "(nat \<Rightarrow> nat option) \<Rightarrow> nat \<Rightarrow> bytes \<Rightarrow> bytes \<Rightarrow> bytes option" where
  "fill_loop short cap rest buf =
     (if length buf < cap then
        (case read_some short (length buf) (cap - length buf) rest of
           None \<Rightarrow> None
         | Some bs \<Rightarrow> if bs = [] then Some buf else fill_loop short cap (drop (length bs) rest) (buf @ bs))
      else Some buf)"
  by pat_completeness auto
termination by (relation "measure (\<lambda>(short, cap, rest, buf). cap - length buf)") (auto intro: diff_less_mono2)

declare fill_loop.simps [simp del]

definition read_file_range :: "(nat \<Rightarrow> nat option) \<Rightarrow> bytes \<Rightarrow> nat \<Rightarrow> nat \<Rightarrow> bytes option" where
  "read_file_range short content position requested =
     fill_loop short (min requested MAX_FILE_RANGE_BYTES) (drop position content) []"

datatype file_meta = MetaDir | MetaFile bytes

record contents_request =
  cr_stream :: u32
  cr_index :: int
  cr_size :: bool
  cr_range :: bool
  cr_position :: nat
  cr_requested :: nat

datatype contents_response =
    SizeResponse u32 nat
  | DataResponse u32 bytes
  | ErrorResponse u32

definition serve_file_contents ::
    "(path \<Rightarrow> file_meta option) \<Rightarrow> (nat \<Rightarrow> nat option) \<Rightarrow> path list \<Rightarrow> contents_request
      \<Rightarrow> contents_response option"
where
  "serve_file_contents fs short paths r =
     (if cr_index r < 0 \<or> length paths \<le> nat (cr_index r) then None
      else case fs (paths ! nat (cr_index r)) of
             None \<Rightarrow> None
           | Some MetaDir \<Rightarrow> None
           | Some (MetaFile c) \<Rightarrow>
               if cr_size r then Some (SizeResponse (cr_stream r) (length c))
               else if cr_range r then
                 map_option (DataResponse (cr_stream r)) (read_file_range short c (cr_position r) (cr_requested r))
               else None)"

definition on_file_contents_request ::
    "(path \<Rightarrow> file_meta option) \<Rightarrow> (nat \<Rightarrow> nat option) \<Rightarrow> path list \<Rightarrow> contents_request \<Rightarrow> contents_response"
where
  "on_file_contents_request fs short paths r =
     (case serve_file_contents fs short paths r of Some x \<Rightarrow> x | None \<Rightarrow> ErrorResponse (cr_stream r))"

section \<open>The destinations of a remote copy\<close>

record remote_entry =
  re_index :: int
  re_name :: ustr
  re_size :: "nat option"
  re_is_dir :: bool
  re_relative :: "ustr option"

primrec split_on :: "nat \<Rightarrow> ustr \<Rightarrow> ustr list" where
  "split_on sep [] = [[]]"
| "split_on sep (c # cs) =
     (if c = sep then [] # split_on sep cs
      else case split_on sep cs of [] \<Rightarrow> [[c]] | x # xs \<Rightarrow> (c # x) # xs)"

definition DOT :: ustr where "DOT = lit ''.''"
definition DOTDOT :: ustr where "DOTDOT = lit ''..''"
definition SLASH :: nat where "SLASH = 47"

definition unsafe_component :: "ustr \<Rightarrow> bool" where
  "unsafe_component c \<longleftrightarrow> c = DOT \<or> c = DOTDOT \<or> SLASH \<in> set c"

text \<open>\<open>PathBuf::push\<close> of a component without a separator.\<close>

definition push :: "path \<Rightarrow> ustr \<Rightarrow> path" where "push p c = (if c = [] then p else p @ [c])"

fun push_components :: "path \<Rightarrow> ustr list \<Rightarrow> path option" where
  "push_components p [] = Some p"
| "push_components p (c # cs) =
     (if c = [] then push_components p cs
      else if unsafe_component c then None else push_components (push p c) cs)"

definition resolve_dest :: "path \<Rightarrow> remote_entry \<Rightarrow> path option" where
  "resolve_dest root e =
     (case (case re_relative e of None \<Rightarrow> Some root | Some rp \<Rightarrow> push_components root (split_on BACKSLASH rp)) of
        None \<Rightarrow> None
      | Some p \<Rightarrow> if unsafe_component (re_name e) then None else Some (push p (re_name e)))"

primrec plan_paste :: "path \<Rightarrow> remote_entry list \<Rightarrow> (remote_entry \<times> path) list option" where
  "plan_paste root [] = Some []"
| "plan_paste root (e # es) =
     (case resolve_dest root e of
        None \<Rightarrow> None
      | Some p \<Rightarrow> map_option (\<lambda>ps. (e, p) # ps) (plan_paste root es))"

text \<open>\<open>on_remote_file_list\<close>: an entry of the received list.\<close>

definition remote_of :: "nat \<Rightarrow> file_entry \<Rightarrow> remote_entry" where
  "remote_of i f = \<lparr>re_index = int i, re_name = fe_name f, re_size = fe_size f, re_is_dir = fe_is_dir f,
     re_relative = fe_relative f\<rparr>"

section \<open>The two ways to paste\<close>

datatype paste_action =
    RemoveTree path
  | CreateDir path
  | FetchFile int "nat option" path
  | PreAllocate path nat
  | Present int path nat
  | Publish "path list"

text \<open>The actions in order; the first that fails is the last, but the failure of a removal is ignored.\<close>

fun ignorable :: "paste_action \<Rightarrow> bool" where
  "ignorable (RemoveTree _) \<longleftrightarrow> True"
| "ignorable (Publish _) \<longleftrightarrow> True"
| "ignorable _ \<longleftrightarrow> False"

fun run_actions :: "(paste_action \<Rightarrow> bool) \<Rightarrow> paste_action list \<Rightarrow> paste_action list \<times> bool" where
  "run_actions ok [] = ([], True)"
| "run_actions ok (a # as) =
     (if ok a \<or> ignorable a then (case run_actions ok as of (done, r) \<Rightarrow> (a # done, r)) else ([a], False))"

definition make_dirs :: "(remote_entry \<times> path) list \<Rightarrow> paste_action list" where
  "make_dirs planned =
     map CreateDir (sort_key length (map snd (filter (\<lambda>(e, p). re_is_dir e) planned)))"

definition eager_file :: "remote_entry \<times> path \<Rightarrow> paste_action list" where
  "eager_file = (\<lambda>(e, p). if re_is_dir e then []
     else [CreateDir (butlast p), FetchFile (re_index e) (re_size e) p])"

definition top_level :: "(remote_entry \<times> path) list \<Rightarrow> path list" where
  "top_level planned = map snd (filter (\<lambda>(e, p). re_relative e = None) planned)"

text \<open>\<open>spawn_remote_paste\<close>, with the directory of the paste before and the new one.\<close>

definition eager_paste ::
    "path option \<Rightarrow> path \<Rightarrow> remote_entry list \<Rightarrow> paste_action list" where
  "eager_paste old root es =
     (if es = [] then []
      else (case old of None \<Rightarrow> [] | Some p \<Rightarrow> [RemoveTree p]) @ [CreateDir root]
           @ (case plan_paste root es of
                None \<Rightarrow> []
              | Some planned \<Rightarrow>
                  make_dirs planned @ concat (map eager_file planned) @ [Publish (top_level planned)]))"

definition lazy_file :: "remote_entry \<times> path \<Rightarrow> paste_action list" where
  "lazy_file = (\<lambda>(e, p). if re_is_dir e then []
     else case re_size e of
            None \<Rightarrow> []
          | Some n \<Rightarrow> [CreateDir (butlast p), PreAllocate p n, Present (re_index e) p n])"

text \<open>\<open>spawn_lazy_paste\<close>: the actions, and whether it took the copy on; otherwise the caller pastes eagerly.\<close>

definition lazy_paste ::
    "(paste_action \<Rightarrow> bool) \<Rightarrow> path option \<Rightarrow> path \<Rightarrow> remote_entry list \<Rightarrow> paste_action list \<times> bool"
where
  "lazy_paste ok old root es =
     (if es = [] then ([], True)
      else if list_ex (\<lambda>e. \<not> re_is_dir e \<and> re_size e = None) es then ([], False)
      else
        let start = (case old of None \<Rightarrow> [] | Some p \<Rightarrow> [RemoveTree p]);
            (head, made) = run_actions ok [CreateDir root]
        in if \<not> made then (start @ head, False)
           else case plan_paste root es of
                  None \<Rightarrow> (start @ head, False)
                | Some planned \<Rightarrow>
                    (case run_actions ok (make_dirs planned @ concat (map lazy_file planned)) of
                       (acts, True) \<Rightarrow> (start @ head @ acts @ [Publish (top_level planned)], True)
                     | (acts, False) \<Rightarrow> (start @ head @ acts, False)))"

definition on_remote_file_list ::
    "(paste_action \<Rightarrow> bool) \<Rightarrow> bool \<Rightarrow> path option \<Rightarrow> path \<Rightarrow> path \<Rightarrow> remote_entry list \<Rightarrow> paste_action list"
where
  "on_remote_file_list ok lazy old lazy_root eager_root es =
     (if lazy then
        (case lazy_paste ok old lazy_root es of
           (acts, True) \<Rightarrow> acts
         | (acts, False) \<Rightarrow>
             let old' = (if CreateDir lazy_root \<in> set acts \<and> ok (CreateDir lazy_root) then Some lazy_root
                         else if acts = [] then old else None)
             in acts @ fst (run_actions ok (eager_paste old' eager_root es)))
      else fst (run_actions ok (eager_paste old eager_root es)))"

end
