(* ===== verification/Clip_Download.thy ===== *)
theory Clip_Download
  imports Clip_Files
begin

text \<open>
  The download of one remote file, \<open>fetch_one_file\<close> of \<open>src/src/file_promise.rs\<close>: the plan of the
  chunks, the window of requests in flight, whose answers arrive in any order, the positional writes,
  and the router of the answers.
\<close>

definition EAGER_CHUNK_SIZE :: nat where "EAGER_CHUNK_SIZE = 1024 * 1024"
definition LAZY_CHUNK_SIZE :: nat where "LAZY_CHUNK_SIZE = 128 * 1024"
definition EAGER_PARALLEL_CHUNKS :: nat where "EAGER_PARALLEL_CHUNKS = 8"
definition LAZY_PARALLEL_CHUNKS :: nat where "LAZY_PARALLEL_CHUNKS = 1"

section \<open>The router\<close>

record router =
  pending_streams :: "u32 set"
  next_stream_id :: u32

definition router_new :: router where
  "router_new = \<lparr>pending_streams = {}, next_stream_id = 0\<rparr>"

text \<open>\<open>fetch_add\<close> returns the value before; zero is skipped.\<close>

definition register :: "router \<Rightarrow> u32 \<times> router" where
  "register r =
     (let sid = next_stream_id r; n = sid + 1;
          (sid, n) = (if sid = 0 then (n, n + 1) else (sid, n))
      in (sid, r\<lparr>pending_streams := insert sid (pending_streams r), next_stream_id := n\<rparr>))"

text \<open>Whether a task was waiting for the stream.\<close>

definition deliver :: "u32 \<Rightarrow> router \<Rightarrow> bool \<times> router" where
  "deliver sid r = (sid \<in> pending_streams r, r\<lparr>pending_streams := pending_streams r - {sid}\<rparr>)"

section \<open>The plan\<close>

text \<open>The loop of the plan advances by the size of a chunk: with chunks of size zero it does not end.\<close>

partial_function (option) chunk_plan :: "nat \<Rightarrow> nat \<Rightarrow> nat \<Rightarrow> (nat \<times> nat) list option" where
  "chunk_plan chunk len pos =
     (if pos < len
      then let req = min (len - pos) chunk
           in Option.bind (chunk_plan chunk len (pos + req)) (\<lambda>plan. Some ((pos, req) # plan))
      else Some [])"

section \<open>Chunks\<close>

datatype fetch_error =
    SizeFailed
  | CreateFailed
  | RangeFailed nat
  | ShortRead nat nat
  | WriteFailed nat

text \<open>\<open>pwrite\<close>: a write past the end extends the file with zeros.\<close>

definition write_at :: "nat \<Rightarrow> bytes \<Rightarrow> bytes \<Rightarrow> bytes" where
  "write_at pos bs file =
     (let file = file @ replicate (pos - length file) 0
      in take pos file @ bs @ drop (pos + length bs) file)"

text \<open>
  The loop of \<open>chunk_task\<close>. \<open>pw\<close> answers how many bytes are written at a position of how many left;
  \<open>None\<close> is an error.
\<close>

function write_loop ::
    "(nat \<Rightarrow> nat \<Rightarrow> nat option) \<Rightarrow> nat \<Rightarrow> bytes \<Rightarrow> bytes \<Rightarrow> bytes \<times> fetch_error option" where
  "write_loop pw pos bs file =
     (if bs = [] then (file, None)
      else case pw pos (length bs) of
             None \<Rightarrow> (file, Some (WriteFailed pos))
           | Some n \<Rightarrow>
               let n = min n (length bs)
               in if n = 0 then (file, Some (WriteFailed pos))
                  else write_loop pw (pos + n) (drop n bs) (write_at pos (take n bs) file))"
  by pat_completeness auto
termination by (relation "measure (\<lambda>(pw, pos, bs, file). length bs)") auto

declare write_loop.simps [simp del]

text \<open>The client's answers to a range request: \<open>None\<close> a failure, or a channel that closed.\<close>

type_synonym remote = "nat \<Rightarrow> nat \<Rightarrow> bytes option"

definition chunk_task ::
    "remote \<Rightarrow> (nat \<Rightarrow> nat \<Rightarrow> nat option) \<Rightarrow> nat \<times> nat \<Rightarrow> bytes \<Rightarrow> bytes \<times> fetch_error option"
where
  "chunk_task remote pw c file =
     (case remote (fst c) (snd c) of
        None \<Rightarrow> (file, Some (RangeFailed (fst c)))
      | Some bs \<Rightarrow> if bs = [] then (file, Some (ShortRead (fst c) (snd c)))
                  else write_loop pw (fst c) bs file)"

section \<open>The window\<close>

text \<open>
  \<open>join_next\<close> returns whichever chunk completes first: the schedule picks one of those in flight.
  An error ends the download; the chunks still in flight are aborted.
\<close>

definition pick :: "nat list \<Rightarrow> 'a list \<Rightarrow> nat" where
  "pick sched xs = (case sched of [] \<Rightarrow> 0 | k # _ \<Rightarrow> k mod length xs)"

definition remove_nth :: "nat \<Rightarrow> 'a list \<Rightarrow> 'a list" where
  "remove_nth i xs = take i xs @ drop (Suc i) xs"

lemma pick_less: "xs \<noteq> [] \<Longrightarrow> pick sched xs < length xs"
  by (cases sched) (simp_all add: pick_def)

lemma length_remove_nth: "i < length xs \<Longrightarrow> length (remove_nth i xs) = length xs - 1"
  by (simp add: remove_nth_def)

function fetch_loop ::
    "(nat \<times> nat \<Rightarrow> bytes \<Rightarrow> bytes \<times> fetch_error option) \<Rightarrow> nat list \<Rightarrow> (nat \<times> nat) list \<Rightarrow> (nat \<times> nat) list
      \<Rightarrow> bytes \<Rightarrow> bytes \<times> fetch_error option"
where
  "fetch_loop task sched inflight rest file =
     (if inflight = [] then (file, None)
      else
        let i = pick sched inflight
        in case task (inflight ! i) file of
             (file, Some e) \<Rightarrow> (file, Some e)
           | (file, None) \<Rightarrow>
               fetch_loop task (tl sched) (remove_nth i inflight @ take 1 rest) (drop 1 rest) file)"
  by pat_completeness auto
termination
  by (relation "measure (\<lambda>(task, sched, inflight, rest, bs). length inflight + length rest)")
    (auto simp: length_remove_nth pick_less less_diff_conv2 Suc_leI)

declare fetch_loop.simps [simp del]

text \<open>\<open>total\<close> is the size hint or the answer to the size request, \<open>created\<close> whether the file could be
  created and extended. The outcome of a plan that does not end is \<open>None\<close>.\<close>

definition fetch_one_file ::
    "remote \<Rightarrow> (nat \<Rightarrow> nat \<Rightarrow> nat option) \<Rightarrow> nat list \<Rightarrow> nat option \<Rightarrow> nat option \<Rightarrow> bool \<Rightarrow> nat \<Rightarrow> nat
      \<Rightarrow> (bytes option \<times> fetch_error option) option"
where
  "fetch_one_file remote pw sched size_hint size_answer created max_parallel chunk =
     (case (case size_hint of Some n \<Rightarrow> Some n | None \<Rightarrow> size_answer) of
        None \<Rightarrow> Some (None, Some SizeFailed)
      | Some len \<Rightarrow>
          if \<not> created then Some (None, Some CreateFailed)
          else if len = 0 then Some (Some [], None)
          else map_option
                 (\<lambda>plan. map_prod Some id
                    (fetch_loop (chunk_task remote pw) sched (take max_parallel plan) (drop max_parallel plan)
                       (replicate len 0)))
                 (chunk_plan chunk len 0))"

end
