(* ===== verification/Clip_Files_Props.thy ===== *)
theory Clip_Files_Props
  imports Clip_Download
begin

text \<open>
  Files on the clipboard: what a range request is answered, where a remote copy may write, how the
  tree of a copy survives the wire format, and that a download puts the remote file together whatever
  the order of the answers.
\<close>

section \<open>Serving a range\<close>

lemma fill_loop_exact:
  assumes "\<forall>k. short k \<noteq> None"
  shows "fill_loop short cap rest buf = Some (buf @ take (cap - length buf) rest)"
proof (induction "cap - length buf" arbitrary: rest buf rule: less_induct)
  case less
  obtain k where k: "short (length buf) = Some k" using assms by blast
  let ?room = "cap - length buf" and ?n = "min (cap - length buf) (max 1 k)"
  show ?case
  proof (cases "length buf < cap \<and> rest \<noteq> []")
    case False
    then show ?thesis by (auto simp: fill_loop.simps [of short cap rest buf] read_some_def k)
  next
    case True
    have "min ?room (max 1 k) \<noteq> 0" using True by simp
    with True have n: "take ?n rest \<noteq> []" "cap - length (buf @ take ?n rest) < ?room" by (cases rest; auto)+
    have "fill_loop short cap rest buf = fill_loop short cap (drop (length (take ?n rest)) rest) (buf @ take ?n rest)"
      using conjunct1 [OF True] n(1) unfolding fill_loop.simps [of short cap rest buf] read_some_def k option.map
      by (simp only: if_True if_False option.case)
    also have "\<dots> = Some ((buf @ take ?n rest) @ take (cap - length (buf @ take ?n rest)) (drop (length (take ?n rest)) rest))"
      by (rule less [OF n(2)])
    also have "\<dots> = Some (buf @ take ?room rest)"
    proof -
      have "take ?room rest = take ?n rest @ take (?room - ?n) (drop ?n rest)"
        by (metis le_add_diff_inverse min.cobounded1 take_add)
      moreover have "take (cap - length (buf @ take ?n rest)) (drop (length (take ?n rest)) rest)
          = take (?room - ?n) (drop ?n rest)"
        by (cases "?n \<le> length rest") (simp_all add: min_def)
      ultimately show ?thesis by simp
    qed
    finally show ?thesis .
  qed
qed

text \<open>
  A range request is answered with exactly the bytes of the file in the range, however few the
  system returns per read: the read loop ends, the answer is the file's bytes from the position, as
  many as were asked up to the cap and the end of the file, and never more than four megabytes; a
  negative or unknown index, a directory and a file that cannot be opened are answered with an error
  that carries the stream of the request.
\<close>

theorem file_range_exact:
  assumes "\<forall>k. short k \<noteq> None" and "cr_range r" and "\<not> cr_size r"
  shows "on_file_contents_request fs short paths r =
    (if 0 \<le> cr_index r \<and> nat (cr_index r) < length paths
     then case fs (paths ! nat (cr_index r)) of
            Some (MetaFile c) \<Rightarrow> DataResponse (cr_stream r)
              (take (min (cr_requested r) (4 * 1024 * 1024)) (drop (cr_position r) c))
          | _ \<Rightarrow> ErrorResponse (cr_stream r)
     else ErrorResponse (cr_stream r))"
  using assms
  by (auto simp: on_file_contents_request_def serve_file_contents_def read_file_range_def
      fill_loop_exact MAX_FILE_RANGE_BYTES_def split: option.split file_meta.split)

definition range_request :: "nat \<Rightarrow> nat \<Rightarrow> contents_request" where
  "range_request p n = \<lparr>cr_stream = 7, cr_index = 0, cr_size = False, cr_range = True,
     cr_position = p, cr_requested = n\<rparr>"

theorem file_range_exact_witness:
  "on_file_contents_request (\<lambda>_. Some (MetaFile [10, 20, 30, 40])) (\<lambda>_. Some 1) [[lit ''a'']] (range_request 1 2)
    = DataResponse 7 [20, 30]"
  by (subst file_range_exact) (simp_all add: range_request_def)

section \<open>Where a remote copy writes\<close>

definition safe_component :: "ustr \<Rightarrow> bool" where
  "safe_component c \<longleftrightarrow> c \<noteq> [] \<and> c \<noteq> lit ''.'' \<and> c \<noteq> lit ''..'' \<and> 47 \<notin> set c"

lemma safe_component_iff: "safe_component c \<longleftrightarrow> c \<noteq> [] \<and> \<not> unsafe_component c"
  by (auto simp: safe_component_def unsafe_component_def DOT_def DOTDOT_def SLASH_def)

text \<open>A path below a root, by components that name an entry of a directory.\<close>

definition below :: "path \<Rightarrow> path \<Rightarrow> bool" where
  "below root p \<longleftrightarrow> (\<exists>cs. p = root @ cs \<and> (\<forall>c \<in> set cs. safe_component c))"

lemma below_refl [simp]: "below root root" by (simp add: below_def)

lemma push_components_below: "push_components p cs = Some q \<Longrightarrow> below root p \<Longrightarrow> below root q"
proof (induction p cs rule: push_components.induct)
  case (1 p)
  then show ?case by simp
next
  case (2 p c cs)
  show ?case
  proof (cases "c = []")
    case False
    with 2 have "below root (push p c)"
      by (auto simp: below_def push_def safe_component_iff split: if_splits)
    with 2 False show ?thesis by (auto split: if_splits)
  qed (use 2 in simp)
qed

lemma resolve_dest_below:
  assumes "resolve_dest root e = Some p"
  shows "below root p"
proof -
  obtain q where q: "(case re_relative e of None \<Rightarrow> Some root | Some rp \<Rightarrow> push_components root (split_on BACKSLASH rp)) = Some q"
    "\<not> unsafe_component (re_name e)" "p = push q (re_name e)"
    using assms by (auto simp: resolve_dest_def split: option.splits if_splits)
  have "below root q" using q(1) push_components_below [of root _ q root] by (auto split: option.splits)
  with q(2,3) show ?thesis
    by (auto simp: below_def push_def safe_component_iff)
qed

lemma plan_paste_below: "plan_paste root es = Some planned \<Longrightarrow> (e, p) \<in> set planned \<Longrightarrow> below root p"
  by (induction es arbitrary: planned) (auto split: option.splits intro: resolve_dest_below)

lemma below_butlast: "below root p \<Longrightarrow> below root (butlast p) \<or> butlast p = butlast root"
  by (auto simp: below_def butlast_append) (meson in_set_butlastD)

text \<open>What an action may touch, given the root of the paste and the directory of the paste before.\<close>

fun confined :: "path \<Rightarrow> path option \<Rightarrow> paste_action \<Rightarrow> bool" where
  "confined root old (RemoveTree p) \<longleftrightarrow> old = Some p"
| "confined root old (CreateDir p) \<longleftrightarrow> below root p \<or> p = butlast root"
| "confined root old (FetchFile i n p) \<longleftrightarrow> below root p"
| "confined root old (PreAllocate p n) \<longleftrightarrow> below root p"
| "confined root old (Present i p n) \<longleftrightarrow> below root p"
| "confined root old (Publish ps) \<longleftrightarrow> (\<forall>p \<in> set ps. below root p)"

lemma run_actions_subset: "set (fst (run_actions ok as)) \<subseteq> set as"
  by (induction as) (auto split: prod.splits)

lemma plan_actions_confined:
  assumes "plan_paste root es = Some planned"
  shows "a \<in> set (make_dirs planned) \<Longrightarrow> confined root old a"
    and "a \<in> set (concat (map eager_file planned)) \<Longrightarrow> confined root old a"
    and "a \<in> set (concat (map lazy_file planned)) \<Longrightarrow> confined root old a"
    and "confined root old (Publish (top_level planned))"
  using plan_paste_below [OF assms] below_butlast
  by (fastforce simp: make_dirs_def eager_file_def lazy_file_def top_level_def split: if_splits option.splits)+

lemma eager_confined: "a \<in> set (eager_paste old root es) \<Longrightarrow> confined root old a"
proof (cases "plan_paste root es")
  case (Some planned)
  note in_plan = plan_actions_confined(1-3) [OF Some, of a old] plan_actions_confined(4) [OF Some, of old]
  assume "a \<in> set (eager_paste old root es)"
  then consider "old \<noteq> None" "a = RemoveTree (the old)" | "a = CreateDir root" | "a \<in> set (make_dirs planned)"
    | "a \<in> set (concat (map eager_file planned))" | "a = Publish (top_level planned)"
    unfolding eager_paste_def Some option.case by (auto split: option.splits if_splits)
  then show ?thesis by cases (use in_plan in auto)
qed (auto simp: eager_paste_def split: if_splits option.splits)

lemma lazy_confined:
  assumes "lazy_paste ok old root es = (acts, taken_on)" and "a \<in> set acts"
  shows "confined root old a"
proof -
  define start where "start = (case old of None \<Rightarrow> [] | Some p \<Rightarrow> [RemoveTree p])"
  have st: "x \<in> set start \<Longrightarrow> confined root old x" for x by (auto simp: start_def split: option.splits)
  obtain hd made where h: "run_actions ok [CreateDir root] = (hd, made)" by fastforce
  have hd: "x \<in> set hd \<Longrightarrow> confined root old x" for x
    using run_actions_subset [of ok "[CreateDir root]"] h by auto
  show ?thesis
  proof (cases "plan_paste root es")
    case None
    with assms h st hd show ?thesis
      by (auto simp: lazy_paste_def start_def [symmetric] Let_def split: if_splits)
  next
    case (Some planned)
    obtain ran fine where r: "run_actions ok (make_dirs planned @ concat (map lazy_file planned)) = (ran, fine)"
      by fastforce
    have "x \<in> set ran \<Longrightarrow> confined root old x" for x
      using run_actions_subset [of ok "make_dirs planned @ concat (map lazy_file planned)"] r
        plan_actions_confined(1,3) [OF Some, of x old] by auto
    moreover have "confined root old (Publish (top_level planned))" by (rule plan_actions_confined(4) [OF Some])
    ultimately show ?thesis
      using assms h st hd r Some
      by (auto simp: lazy_paste_def start_def [symmetric] Let_def simp del: confined.simps split: if_splits bool.splits)
  qed
qed

text \<open>
  C12. A remote copy never writes outside its own directory: whatever names and relative paths the
  client sends, backslashes, dots and slashes included, and whichever of its file system calls fail,
  every file the paste creates, fetches or presents and every path it publishes is the fresh
  directory of that paste, lazy or eager, or lies below it by components that are neither empty nor
  dots and hold no slash; a directory it creates is one of those or the parent of the fresh one, and
  all it removes is the directory of the paste before.
\<close>

theorem paste_stays_inside:
  assumes "a \<in> set (on_remote_file_list ok lazy old lazy_root eager_root es)"
  shows "(\<exists>old'. (old' = old \<or> old' = None) \<and> confined lazy_root old' a)
    \<or> (\<exists>old'. (old' = old \<or> old' = None \<or> old' = Some lazy_root) \<and> confined eager_root old' a)"
proof -
  have eager: "confined eager_root o' x" if "x \<in> set (fst (run_actions ok (eager_paste o' eager_root es)))" for o' x
    using that run_actions_subset [of ok "eager_paste o' eager_root es"] eager_confined by blast
  show ?thesis
  proof (cases lazy)
    case False
    with assms eager show ?thesis by (auto simp: on_remote_file_list_def)
  next
    case True
    obtain acts fine where l: "lazy_paste ok old lazy_root es = (acts, fine)" by fastforce
    let ?old = "if CreateDir lazy_root \<in> set acts \<and> ok (CreateDir lazy_root) then Some lazy_root
      else if acts = [] then old else None"
    have "a \<in> set acts \<or> a \<in> set (fst (run_actions ok (eager_paste ?old eager_root es)))"
      using assms True l by (auto simp: on_remote_file_list_def Let_def split: bool.splits)
    then show ?thesis
    proof
      assume "a \<in> set acts"
      with lazy_confined [OF l] show ?thesis by blast
    next
      assume "a \<in> set (fst (run_actions ok (eager_paste ?old eager_root es)))"
      then have "confined eager_root ?old a" by (rule eager)
      moreover have "?old = old \<or> ?old = None \<or> ?old = Some lazy_root" by simp
      ultimately show ?thesis by blast
    qed
  qed
qed

definition escaping_entry :: remote_entry where
  "escaping_entry = \<lparr>re_index = 0, re_name = lit ''x'', re_size = Some 3, re_is_dir = False,
     re_relative = Some (lit ''a'')\<rparr>"

theorem paste_stays_inside_witness:
  "FetchFile 0 (Some 3) [lit ''eager'', lit ''a'', lit ''x'']
     \<in> set (on_remote_file_list (\<lambda>_. True) False None [lit ''lazy''] [lit ''eager''] [escaping_entry])
   \<and> (below [lit ''lazy''] [lit ''eager'', lit ''a'', lit ''x'']
      \<or> below [lit ''eager''] [lit ''eager'', lit ''a'', lit ''x''])"
proof -
  have names: "split_on BACKSLASH (lit ''a'') = [lit ''a'']" "lit ''a'' \<noteq> []" "lit ''x'' \<noteq> []"
    "\<not> unsafe_component (lit ''a'')" "\<not> unsafe_component (lit ''x'')"
    by (simp_all add: BACKSLASH_def lit_def unsafe_component_def DOT_def DOTDOT_def SLASH_def)
  have plan: "plan_paste [lit ''eager''] [escaping_entry] = Some [(escaping_entry, [lit ''eager'', lit ''a'', lit ''x''])]"
    by (simp add: resolve_dest_def escaping_entry_def names push_def)
  have all: "run_actions (\<lambda>_. True) as = (as, True)" for as by (induction as) simp_all
  have "FetchFile 0 (Some 3) [lit ''eager'', lit ''a'', lit ''x'']
      \<in> set (on_remote_file_list (\<lambda>_. True) False None [lit ''lazy''] [lit ''eager''] [escaping_entry])"
    unfolding on_remote_file_list_def all eager_paste_def plan option.case
    by (simp add: eager_file_def escaping_entry_def)
  with paste_stays_inside [OF this] show ?thesis by auto
qed

section \<open>The tree of a copy survives the wire format\<close>

definition good_name :: "ustr \<Rightarrow> bool" where
  "good_name n \<longleftrightarrow> safe_component n \<and> BACKSLASH \<notin> set n"

function names_ok :: "(ustr option \<times> fs_node option) list \<Rightarrow> bool" where
  "names_ok [] \<longleftrightarrow> True"
| "names_ok ((n, x) # es) \<longleftrightarrow> (case n of None \<Rightarrow> True | Some m \<Rightarrow> good_name m)
     \<and> (case x of Some (Directory (Some ch)) \<Rightarrow> names_ok ch | _ \<Rightarrow> True) \<and> names_ok es"
  by pat_completeness auto
termination
  by (relation "measure (size_list (size_prod (\<lambda>_. 0) (size_option size)))") auto

lemma split_on_nonempty: "split_on c s \<noteq> []"
  by (induction s) (auto split: list.split)

lemma split_on_none: "c \<notin> set s \<Longrightarrow> split_on c s = [s]"
  by (induction s) auto

lemma split_on_append: "split_on c (s @ c # t) = split_on c s @ split_on c t"
proof (induction s)
  case Nil
  then show ?case by simp
next
  case (Cons a s)
  then show ?case using split_on_nonempty [of c s] by (auto split: list.split)
qed

lemma push_components_safe:
  "\<forall>c \<in> set cs. safe_component c \<Longrightarrow> push_components p cs = Some (p @ cs)"
  by (induction p cs rule: push_components.induct) (auto simp: safe_component_iff push_def)

text \<open>
  The tree as it stands on the Mac, without its wire form: of each file or directory, in the order of
  the walk, the components of its path below the directory the copy was made in, and its size, none for
  a directory. Symbolic links, names that are not Unicode and files whose metadata cannot be read are
  no entries, and a directory that cannot be opened has no children.
\<close>

function listing :: "path \<Rightarrow> (ustr option \<times> fs_node option) list \<Rightarrow> (path \<times> nat option) list" where
  "listing at [] = []"
| "listing at ((Some name, Some (RegularFile n)) # es) = (at @ [name], Some n) # listing at es"
| "listing at ((Some name, Some (Directory sub)) # es) =
     (at @ [name], None) # (case sub of None \<Rightarrow> [] | Some ch \<Rightarrow> listing (at @ [name]) ch) @ listing at es"
| "listing at ((Some name, Some Symlink) # es) = listing at es"
| "listing at ((Some name, None) # es) = listing at es"
| "listing at ((None, node) # es) = listing at es"
  by pat_completeness auto
termination
  by (relation "measure (\<lambda>(at, es). size_list (size_prod (\<lambda>_. 0) (size_option size)) es)") auto

text \<open>The entries of the copied items: the directory of the copy, the path below it, the size.\<close>

definition item_entries :: "pb_item \<Rightarrow> (path \<times> path \<times> nat option) list" where
  "item_entries item = (case item of
     Some (p, Some name, Some node) \<Rightarrow> map (Pair (butlast p)) (listing [] [(Some name, Some node)])
   | _ \<Rightarrow> [])"

definition copied :: "pb_item list \<Rightarrow> (path \<times> path \<times> nat option) list" where
  "copied items = concat (map item_entries items)"

text \<open>A file entry stands for an entry of the tree: it names its file, and its wire form resolves to its path.\<close>

definition stands_for :: "file_entry \<Rightarrow> path \<times> path \<times> nat option \<Rightarrow> bool" where
  "stands_for f = (\<lambda>(base, cs, size). fe_path f = base @ cs \<and> fe_size f = size \<and> fe_is_dir f = (size = None)
     \<and> (\<forall>root i. resolve_dest root (remote_of i f) = Some (root @ cs)))"

lemma node_entry_fields [simp]:
  "fe_name (node_entry p rel name node) = name" "fe_path (node_entry p rel name node) = p"
  "fe_relative (node_entry p rel name node) = rel"
  by (cases node; simp)+

lemma resolve_entry:
  assumes "good_name name" and "split_on BACKSLASH pre = cs" and "\<forall>c \<in> set cs. good_name c"
    and "fe_name f = name" and "fe_relative f = Some pre"
  shows "resolve_dest root (remote_of i f) = Some (root @ cs @ [name])"
proof -
  have "push_components root cs = Some (root @ cs)"
    using assms(3) by (intro push_components_safe) (simp add: good_name_def)
  with assms show ?thesis by (simp add: resolve_dest_def remote_of_def good_name_def safe_component_iff push_def)
qed

lemma stands_for_child:
  assumes "good_name name" and "split_on BACKSLASH pre = cs" and "\<forall>c \<in> set cs. good_name c"
  shows "stands_for (node_entry (base @ cs @ [name]) (Some pre) name (RegularFile n)) (base, cs @ [name], Some n)"
    "stands_for (node_entry (base @ cs @ [name]) (Some pre) name (Directory sub)) (base, cs @ [name], None)"
  using resolve_entry [OF assms] by (simp_all add: stands_for_def)

lemma stands_for_top:
  assumes "p \<noteq> []" "last p = name" "good_name name"
  shows "stands_for (node_entry p None name (RegularFile n)) (butlast p, [name], Some n)"
    "stands_for (node_entry p None name (Directory sub)) (butlast p, [name], None)"
proof -
  have "butlast p @ [name] = p" using assms(1,2) append_butlast_last_id by blast
  with assms(3)
  show "stands_for (node_entry p None name (RegularFile n)) (butlast p, [name], Some n)"
    "stands_for (node_entry p None name (Directory sub)) (butlast p, [name], None)"
    by (simp_all add: stands_for_def resolve_dest_def remote_of_def good_name_def safe_component_iff push_def)
qed

text \<open>What a walk has listed when it stops: all there was, or the first ten thousand.\<close>

definition listed :: "file_entry list \<Rightarrow> bool \<Rightarrow> (path \<times> path \<times> nat option) list \<Rightarrow> bool" where
  "listed out go want \<longleftrightarrow> list_all2 stands_for out (take MAX_FILES_PER_COPY want)
     \<and> (go \<longleftrightarrow> length want < MAX_FILES_PER_COPY)"

lemma listed_go: "listed out True want \<longleftrightarrow> list_all2 stands_for out want \<and> length out < MAX_FILES_PER_COPY"
  unfolding listed_def using list_all2_lengthD [of stands_for out want] by auto

lemma listed_snoc:
  assumes "listed out True want" and "stands_for f e" and "go \<longleftrightarrow> length (out @ [f]) < MAX_FILES_PER_COPY"
  shows "listed (out @ [f]) go (want @ [e])"
proof -
  have "list_all2 stands_for (out @ [f]) (want @ [e])"
    using assms(1,2) by (simp add: listed_go list_all2_appendI)
  moreover have "length out = length want" "length want < MAX_FILES_PER_COPY"
    using assms(1) by (auto simp: listed_go dest: list_all2_lengthD)
  ultimately show ?thesis using assms(3) by (simp add: listed_def)
qed

lemma listed_stop: "listed out False want \<Longrightarrow> listed out False (want @ xs)"
  by (simp add: listed_def)

lemma walk_inner_listed:
  "walk_inner out dir pre es = (out', go) \<Longrightarrow> listed out True want \<Longrightarrow> names_ok es \<Longrightarrow> dir = base @ at \<Longrightarrow>
   split_on BACKSLASH pre = at \<Longrightarrow> \<forall>c \<in> set at. good_name c \<Longrightarrow>
   listed out' go (want @ map (Pair base) (listing at es))"
proof (induction out dir pre es arbitrary: out' go want at rule: walk_inner.induct)
  case (5 out dir pre name n es)
  let ?f = "node_entry (dir @ [name]) (Some pre) name (RegularFile n)" and ?e = "(base, at @ [name], Some n)"
  have f: "stands_for ?f ?e" using stands_for_child(1) [of name pre at base n] 5 by simp
  show ?case
  proof (cases "MAX_FILES_PER_COPY \<le> length (out @ [?f])")
    case True
    have "listed (out @ [?f]) False (want @ [?e])" by (rule listed_snoc [OF 5(3) f]) (use True in simp)
    from listed_stop [OF this, of "map (Pair base) (listing at es)"] 5(2) True show ?thesis by (simp add: Let_def)
  next
    case False
    have l: "listed (out @ [?f]) True (want @ [?e])" by (rule listed_snoc [OF 5(3) f]) (use False in simp)
    have "walk_inner (out @ [?f]) dir pre es = (out', go)" using 5(2) False by (simp add: Let_def)
    from "5.IH" [OF refl False this l _ 5(5-7)] 5(4) show ?thesis by simp
  qed
next
  case (6 out dir pre name sub es)
  let ?f = "node_entry (dir @ [name]) (Some pre) name (Directory sub)" and ?e = "(base, at @ [name], None)"
  let ?es = "map (Pair base) (listing at es)"
  have f: "stands_for ?f ?e" using stands_for_child(2) [of name pre at base sub] 6 by simp
  have good: "good_name name" using 6 by simp
  show ?case
  proof (cases "MAX_FILES_PER_COPY \<le> length (out @ [?f])")
    case True
    have "listed (out @ [?f]) False (want @ [?e])" by (rule listed_snoc [OF 6(5) f]) (use True in simp)
    from listed_stop [OF this] 6(4) True show ?thesis by (simp add: Let_def)
  next
    case False
    have l: "listed (out @ [?f]) True (want @ [?e])" by (rule listed_snoc [OF 6(5) f]) (use False in simp)
    show ?thesis
    proof (cases sub)
      case None
      have "walk_inner (out @ [?f]) dir pre es = (out', go)" using 6(4) False None by (simp add: Let_def)
      from "6.IH"(1) [OF refl False None this l _ 6(7-9)] 6(6) None show ?thesis by simp
    next
      case (Some ch)
      let ?ch = "map (Pair base) (listing (at @ [name]) ch)"
      obtain mid go1 where w: "walk_inner (out @ [?f]) (dir @ [name]) (pre @ BACKSLASH # name) ch = (mid, go1)"
        by fastforce
      have mid: "listed mid go1 ((want @ [?e]) @ ?ch)"
        by (rule "6.IH"(2) [OF refl False Some w l])
          (use 6(6-9) good Some in \<open>auto simp: split_on_append split_on_none good_name_def\<close>)
      show ?thesis
      proof (cases go1)
        case True
        have go: "walk_inner mid dir pre es = (out', go)" using 6(4) False w True by (simp add: Let_def Some)
        from mid True have "listed mid True ((want @ [?e]) @ ?ch)" by simp
        from "6.IH"(3) [OF refl False Some w [symmetric] eqTrueI [OF True] go this _ 6(7-9)] 6(6)
        show ?thesis by (simp add: Some)
      next
        case stop: False
        with mid have "listed mid False ((want @ [?e]) @ ?ch)" by simp
        from listed_stop [OF this, of ?es] 6(4) False w stop show ?thesis by (simp add: Let_def Some)
      qed
    qed
  qed
qed auto

definition item_ok :: "pb_item \<Rightarrow> bool" where
  "item_ok item \<longleftrightarrow> (\<forall>p name node. item = Some (p, Some name, Some node) \<longrightarrow>
     p \<noteq> [] \<and> last p = name \<and> names_ok [(Some name, Some node)])"

lemma read_files_skips:
  "read_files out (item # items) = read_files out items \<and> item_entries item = []
   \<or> (\<exists>p name n. item = Some (p, Some name, Some (RegularFile n)))
   \<or> (\<exists>p name sub. item = Some (p, Some name, Some (Directory sub)))"
  by (cases item; cases "fst (snd (the item))"; cases "snd (snd (the item))"; cases "the (snd (snd (the item)))")
    (auto simp: item_entries_def)

lemma read_files_listed:
  "\<forall>item \<in> set items. item_ok item \<Longrightarrow> listed out True want \<Longrightarrow>
   list_all2 stands_for (read_files out items) (take MAX_FILES_PER_COPY (want @ copied items))"
proof (induction items arbitrary: out want)
  case Nil
  then show ?case by (auto simp: copied_def listed_def)
next
  case (Cons item items)
  have items: "\<forall>item \<in> set items. item_ok item" and ok: "item_ok item" using Cons.prems(1) by simp_all
  have rest: "copied (item # items) = item_entries item @ copied items" by (simp add: copied_def)
  note ih = Cons.IH [OF items] and snoc = listed_snoc [OF Cons.prems(2)]
  from read_files_skips [of out item items]
  consider "read_files out (item # items) = read_files out items" "item_entries item = []"
    | p name n where "item = Some (p, Some name, Some (RegularFile n))"
    | p name sub where "item = Some (p, Some name, Some (Directory sub))" by blast
  then show ?case
  proof cases
    case 1
    then show ?thesis using ih [OF Cons.prems(2)] by (simp add: rest)
  next
    case (2 p name n)
    let ?f = "node_entry p None name (RegularFile n)" and ?e = "(butlast p, [name], Some n)"
    have f: "stands_for ?f ?e" by (rule stands_for_top) (use ok 2 in \<open>simp_all add: item_ok_def\<close>)
    have e: "item_entries item = [?e]" by (simp add: item_entries_def 2)
    show ?thesis
    proof (cases "MAX_FILES_PER_COPY \<le> length (out @ [?f])")
      case True
      have "listed (out @ [?f]) False (want @ [?e])" by (rule snoc [OF f]) (use True in simp)
      from listed_stop [OF this, of "copied items"] True show ?thesis
        by (simp add: 2 Let_def rest [unfolded 2] e [unfolded 2] listed_def del: node_entry.simps)
    next
      case False
      have "listed (out @ [?f]) True (want @ [?e])" by (rule snoc [OF f]) (use False in simp)
      from ih [OF this] False show ?thesis by (simp add: 2 Let_def rest [unfolded 2] e [unfolded 2] del: node_entry.simps)
    qed
  next
    case (3 p name sub)
    let ?f = "node_entry p None name (Directory sub)" and ?e = "(butlast p, [name], None)"
    have p: "p \<noteq> []" "last p = name" "good_name name" "case sub of None \<Rightarrow> True | Some ch \<Rightarrow> names_ok ch"
      using ok by (auto simp: item_ok_def 3 split: option.split)
    have f: "stands_for ?f ?e" by (rule stands_for_top [OF p(1-3)])
    have e: "item_entries item
        = ?e # map (Pair (butlast p)) (case sub of None \<Rightarrow> [] | Some ch \<Rightarrow> listing [name] ch)"
      by (simp add: item_entries_def 3 split: option.split)
    show ?thesis
    proof (cases "MAX_FILES_PER_COPY \<le> length (out @ [?f])")
      case True
      have "listed (out @ [?f]) False (want @ [?e])" by (rule snoc [OF f]) (use True in simp)
      from listed_stop [OF this] True show ?thesis
        by (simp add: 3 Let_def rest [unfolded 3] e [unfolded 3] listed_def del: node_entry.simps)
    next
      case False
      have l: "listed (out @ [?f]) True (want @ [?e])" by (rule snoc [OF f]) (use False in simp)
      show ?thesis
      proof (cases sub)
        case None
        from ih [OF l] False show ?thesis by (simp add: 3 None Let_def rest [unfolded 3 None] e [unfolded 3 None] del: node_entry.simps)
      next
        case (Some ch)
        obtain mid go where w: "walk_inner (out @ [?f]) p name ch = (mid, go)" by fastforce
        have one: "split_on BACKSLASH name = [name]" using p(3) by (simp add: good_name_def split_on_none)
        have "p = butlast p @ [name]" using p(1,2) append_butlast_last_id by metis
        from walk_inner_listed [OF w l _ this one] p(3,4)
        have mid: "listed mid go (want @ item_entries item)" by (simp add: e Some)
        have r: "read_files out (item # items) = (if go then read_files mid items else mid)"
          using False w by (simp add: 3 Some Let_def split: bool.split del: node_entry.simps)
        show ?thesis
        proof (cases go)
          case True
          with mid ih [of mid "want @ item_entries item"] r show ?thesis by (simp add: rest)
        next
          case stop: False
          with mid listed_stop [of mid "want @ item_entries item" "copied items"] r
          show ?thesis by (simp add: rest listed_def)
        qed
      qed
    qed
  qed
qed

text \<open>The receiving side: the list it is sent, and the destinations it plans.\<close>

definition sent :: "file_entry list \<Rightarrow> remote_entry list" where
  "sent fs = map (\<lambda>i. remote_of i (fs ! i)) [0 ..< length fs]"

lemma plan_all:
  "(\<And>e. e \<in> set es \<Longrightarrow> resolve_dest root e = Some (g e)) \<Longrightarrow> plan_paste root es = Some (map (\<lambda>e. (e, g e)) es)"
  by (induction es) auto

text \<open>
  C17. A tree copied with one side of the clipboard is planned by the other just as it stands. Where no
  name holds a backslash, the list made of the copied items is exactly the first ten thousand of the
  files and directories of the tree, in the order of the walk, each with its own path on the Mac, its
  size and its kind, none missing and none twice; symbolic links and what cannot be read are left out.
  And the receiving side, given that list, accepts it whole and sends entry for entry to the root it
  chose followed by exactly the components of the entry's path below the directory copied from, with
  the same index, size and kind.
\<close>

theorem copied_tree_restored:
  assumes "\<forall>item \<in> set items. item_ok item"
  shows "map (\<lambda>f. (fe_path f, fe_size f, fe_is_dir f)) (read_files [] items)
      = map (\<lambda>(base, cs, size). (base @ cs, size, size = None)) (take 10000 (copied items))
    \<and> (\<exists>planned. plan_paste root (sent (read_files [] items)) = Some planned
        \<and> map (\<lambda>(e, p). (re_index e, p, re_size e, re_is_dir e)) planned
          = map (\<lambda>(i, base, cs, size). (int i, root @ cs, size, size = None))
              (enumerate 0 (take 10000 (copied items))))"
proof -
  let ?fs = "read_files [] items" and ?want = "take 10000 (copied items)"
  have all: "list_all2 stands_for ?fs ?want"
    using read_files_listed [OF assms, of "[]" "[]"] by (simp add: listed_def MAX_FILES_PER_COPY_def)
  note len = list_all2_lengthD [OF all]
  have at: "fe_path (?fs ! i) = fst (copied items ! i) @ fst (snd (copied items ! i))"
    "fe_size (?fs ! i) = snd (snd (copied items ! i))"
    "fe_is_dir (?fs ! i) = (snd (snd (copied items ! i)) = None)"
    "resolve_dest root (remote_of j (?fs ! i)) = Some (root @ fst (snd (copied items ! i)))"
    if "i < length (copied items)" "i < 10000" for i j
    using list_all2_nthD2 [OF all, of i] that by (simp_all add: stands_for_def split_def)
  have "map (\<lambda>f. (fe_path f, fe_size f, fe_is_dir f)) ?fs
      = map (\<lambda>(base, cs, size). (base @ cs, size, size = None)) ?want"
    using len by (intro nth_equalityI) (simp_all add: at split_def)
  moreover
  have "resolve_dest root e = Some (the (resolve_dest root e))" if "e \<in> set (sent ?fs)" for e
    using that len by (auto simp: sent_def at)
  from plan_all [OF this]
  have "plan_paste root (sent ?fs) = Some (map (\<lambda>e. (e, the (resolve_dest root e))) (sent ?fs))" .
  moreover have "map (\<lambda>(e, p). (re_index e, p, re_size e, re_is_dir e))
        (map (\<lambda>e. (e, the (resolve_dest root e))) (sent ?fs))
      = map (\<lambda>(i, base, cs, size). (int i, root @ cs, size, size = None)) (enumerate 0 ?want)"
    using len by (intro nth_equalityI) (simp_all add: sent_def at nth_enumerate_eq split_def,
      simp_all add: at remote_of_def)
  ultimately show ?thesis by blast
qed

text \<open>A directory holding a file, a link and a directory with a file of its own.\<close>

definition sample_items :: "pb_item list" where
  "sample_items = [Some ([lit ''u'', lit ''d''], Some (lit ''d''),
     Some (Directory (Some [(Some (lit ''f''), Some (RegularFile 3)), (Some (lit ''l''), Some Symlink),
       (Some (lit ''s''), Some (Directory (Some [(Some (lit ''g''), Some (RegularFile 5))])))])))]"

theorem copied_tree_restored_witness:
  "map fe_path (read_files [] sample_items) = [[lit ''u'', lit ''d''], [lit ''u'', lit ''d'', lit ''f''],
      [lit ''u'', lit ''d'', lit ''s''], [lit ''u'', lit ''d'', lit ''s'', lit ''g'']]
   \<and> map_option (map snd) (plan_paste [lit ''t''] (sent (read_files [] sample_items)))
     = Some [[lit ''t'', lit ''d''], [lit ''t'', lit ''d'', lit ''f''],
         [lit ''t'', lit ''d'', lit ''s''], [lit ''t'', lit ''d'', lit ''s'', lit ''g'']]"
proof -
  have ok: "\<forall>item \<in> set sample_items. item_ok item"
    by (auto simp: sample_items_def item_ok_def good_name_def safe_component_def BACKSLASH_def lit_def)
  have want: "take 10000 (copied sample_items) = [([lit ''u''], [lit ''d''], None),
      ([lit ''u''], [lit ''d'', lit ''f''], Some 3), ([lit ''u''], [lit ''d'', lit ''s''], None),
      ([lit ''u''], [lit ''d'', lit ''s'', lit ''g''], Some 5)]"
    by (simp add: sample_items_def copied_def item_entries_def)
  from copied_tree_restored [OF ok, unfolded want, of "[lit ''t'']"] obtain planned
    where files: "map (\<lambda>f. (fe_path f, fe_size f, fe_is_dir f)) (read_files [] sample_items)
        = [([lit ''u'', lit ''d''], None, True), ([lit ''u'', lit ''d'', lit ''f''], Some 3, False),
           ([lit ''u'', lit ''d'', lit ''s''], None, True), ([lit ''u'', lit ''d'', lit ''s'', lit ''g''], Some 5, False)]"
      and plan: "plan_paste [lit ''t''] (sent (read_files [] sample_items)) = Some planned"
      and dests: "map (\<lambda>(e, p). (re_index e, p, re_size e, re_is_dir e)) planned
        = [(0, [lit ''t'', lit ''d''], None, True), (1, [lit ''t'', lit ''d'', lit ''f''], Some 3, False),
           (2, [lit ''t'', lit ''d'', lit ''s''], None, True),
           (3, [lit ''t'', lit ''d'', lit ''s'', lit ''g''], Some 5, False)]"
    by auto
  from files have "map fst (map (\<lambda>f. (fe_path f, fe_size f, fe_is_dir f)) (read_files [] sample_items))
      = [[lit ''u'', lit ''d''], [lit ''u'', lit ''d'', lit ''f''],
         [lit ''u'', lit ''d'', lit ''s''], [lit ''u'', lit ''d'', lit ''s'', lit ''g'']]" by simp
  moreover from dests have "map (fst \<circ> snd) (map (\<lambda>(e, p). (re_index e, p, re_size e, re_is_dir e)) planned)
      = [[lit ''t'', lit ''d''], [lit ''t'', lit ''d'', lit ''f''],
         [lit ''t'', lit ''d'', lit ''s''], [lit ''t'', lit ''d'', lit ''s'', lit ''g'']]" by simp
  then have "map snd planned = [[lit ''t'', lit ''d''], [lit ''t'', lit ''d'', lit ''f''],
         [lit ''t'', lit ''d'', lit ''s''], [lit ''t'', lit ''d'', lit ''s'', lit ''g'']]"
    by (simp add: comp_def split_def)
  ultimately show ?thesis using plan by (simp add: comp_def)
qed

text \<open>
  A name that holds a backslash is taken apart by the receiving side: a directory of that name comes
  back as two.
\<close>

lemma backslash_name_split:
  "resolve_dest root (remote_of i \<lparr>fe_name = [102], fe_size = Some 0, fe_is_dir = False, fe_path = [[97, 92, 98], [102]],
     fe_relative = Some [97, 92, 98]\<rparr>) = Some (root @ [[97], [98], [102]])"
  by (simp add: resolve_dest_def remote_of_def BACKSLASH_def unsafe_component_def DOT_def DOTDOT_def SLASH_def
      lit_def push_def)

section \<open>A download\<close>

text \<open>The loop of the plan ends and its chunks tile the file.\<close>

lemma chunk_plan_tiles:
  assumes "0 < chunk"
  shows "\<exists>plan. chunk_plan chunk len pos = Some plan
    \<and> (\<forall>(p, n) \<in> set plan. 0 < n \<and> n \<le> chunk \<and> pos \<le> p \<and> p + n \<le> len)
    \<and> (\<forall>i. pos \<le> i \<longrightarrow> i < len \<longrightarrow> (\<exists>(p, n) \<in> set plan. p \<le> i \<and> i < p + n))"
proof (induction "len - pos" arbitrary: pos rule: less_induct)
  case less
  show ?case
  proof (cases "pos < len")
    case False
    then show ?thesis by (simp add: chunk_plan.simps [of chunk len pos])
  next
    case True
    let ?n = "min (len - pos) chunk"
    have n: "0 < ?n" "len - (pos + ?n) < len - pos" using True assms by auto
    from less [OF n(2)] obtain plan where plan: "chunk_plan chunk len (pos + ?n) = Some plan"
      "\<forall>(p, n) \<in> set plan. 0 < n \<and> n \<le> chunk \<and> pos + ?n \<le> p \<and> p + n \<le> len"
      "\<forall>i. pos + ?n \<le> i \<longrightarrow> i < len \<longrightarrow> (\<exists>(p, n) \<in> set plan. p \<le> i \<and> i < p + n)" by blast
    have "chunk_plan chunk len pos = Some ((pos, ?n) # plan)"
      using True plan(1) by (simp add: chunk_plan.simps [of chunk len pos] Let_def)
    moreover have "\<forall>(p, n) \<in> set ((pos, ?n) # plan). 0 < n \<and> n \<le> chunk \<and> pos \<le> p \<and> p + n \<le> len"
      using plan(2) n(1) True by fastforce
    moreover have "\<exists>(p, n) \<in> set ((pos, ?n) # plan). p \<le> i \<and> i < p + n" if "pos \<le> i" "i < len" for i
      using plan(3) that by (cases "i < pos + ?n") (auto simp: not_less)
    ultimately show ?thesis by blast
  qed
qed

lemma write_at_inside:
  "pos + length bs \<le> length f \<Longrightarrow> write_at pos bs f = take pos f @ bs @ drop (pos + length bs) f"
  by (simp add: write_at_def)

lemma write_at_append:
  "pos + length (xs @ ys) \<le> length f \<Longrightarrow>
     write_at (pos + length xs) ys (write_at pos xs f) = write_at pos (xs @ ys) f"
proof -
  assume fits: "pos + length (xs @ ys) \<le> length f"
  let ?g = "take pos f @ xs @ drop (pos + length xs) f"
  have g: "write_at pos xs f = ?g" using fits by (intro write_at_inside) simp
  have "write_at (pos + length xs) ys ?g = take (pos + length xs) ?g @ ys @ drop (pos + length xs + length ys) ?g"
    using fits by (intro write_at_inside) simp
  also have "\<dots> = take pos f @ (xs @ ys) @ drop (pos + length (xs @ ys)) f"
  proof -
    have "length f \<le> pos \<Longrightarrow> xs = []" using fits by (cases xs) auto
    then show ?thesis using fits by (simp add: min_def add.commute add.left_commute)
  qed
  also have "\<dots> = write_at pos (xs @ ys) f" using fits by (intro write_at_inside [symmetric]) simp
  finally show ?thesis unfolding g .
qed

text \<open>A positional write that always makes progress.\<close>

definition writes :: "(nat \<Rightarrow> nat \<Rightarrow> nat option) \<Rightarrow> bool" where
  "writes pw \<longleftrightarrow> (\<forall>p k. 0 < k \<longrightarrow> (\<exists>n. pw p k = Some n \<and> 0 < n))"

lemma write_loop_exact:
  assumes "writes pw" and "pos + length bs \<le> length f"
  shows "write_loop pw pos bs f = (write_at pos bs f, None)"
  using assms(2)
proof (induction "length bs" arbitrary: pos bs f rule: less_induct)
  case less
  show ?case
  proof (cases "bs = []")
    case True
    then show ?thesis
      using less.prems unfolding write_loop.simps [of pw pos bs f] by (simp add: write_at_inside)
  next
    case False
    then have "0 < length bs" by simp
    then obtain n where n: "pw pos (length bs) = Some n" "0 < n"
      using assms(1) unfolding writes_def by blast
    let ?n = "min n (length bs)"
    have n0: "?n \<noteq> 0" using n False by simp
    have len: "length (write_at pos (take ?n bs) f) = length f"
      using less.prems by (subst write_at_inside) auto
    have "write_loop pw pos bs f = write_loop pw (pos + ?n) (drop ?n bs) (write_at pos (take ?n bs) f)"
      using False n0 unfolding write_loop.simps [of pw pos bs f] n(1) option.case Let_def by (simp only: if_False)
    also have "\<dots> = (write_at (pos + ?n) (drop ?n bs) (write_at pos (take ?n bs) f), None)"
      by (rule less.hyps) (use n0 less.prems len in auto)
    also have "write_at (pos + ?n) (drop ?n bs) (write_at pos (take ?n bs) f) = write_at pos bs f"
    proof -
      have l: "length (take ?n bs) = ?n" by simp
      show ?thesis
        using write_at_append [of pos "take ?n bs" "drop ?n bs" f] less.prems
        unfolding l append_take_drop_id by blast
    qed
    finally show ?thesis .
  qed
qed

text \<open>The file agrees with the remote one wherever no chunk is outstanding.\<close>

definition agrees :: "bytes \<Rightarrow> (nat \<times> nat) list \<Rightarrow> bytes \<Rightarrow> bool" where
  "agrees c todo f \<longleftrightarrow> length f = length c
     \<and> (\<forall>i < length c. (\<exists>(p, n) \<in> set todo. p \<le> i \<and> i < p + n) \<or> f ! i = c ! i)"

lemma write_at_agrees:
  assumes "agrees c (xs @ (p, n) # ys) f" and "p + n \<le> length c"
  shows "agrees c (xs @ ys) (write_at p (take n (drop p c)) f)"
proof -
  have len: "length f = length c" using assms(1) by (simp add: agrees_def)
  have w: "write_at p (take n (drop p c)) f = take p f @ take n (drop p c) @ drop (p + n) f"
    using assms(2) len by (subst write_at_inside) auto
  have "(\<exists>(q, m) \<in> set (xs @ ys). q \<le> i \<and> i < q + m) \<or> (take p f @ take n (drop p c) @ drop (p + n) f) ! i = c ! i"
    if "i < length c" for i
  proof (cases "p \<le> i \<and> i < p + n")
    case True
    then have "i - p < n" "i - p < length c - p" using that by auto
    with True show ?thesis using assms(2) len that by (simp add: nth_append min_def)
  next
    case False
    then have "(take p f @ take n (drop p c) @ drop (p + n) f) ! i = f ! i"
      using assms(2) len that by (auto simp: nth_append min_def)
    moreover have "(\<exists>(q, m) \<in> set (xs @ (p, n) # ys). q \<le> i \<and> i < q + m) \<or> f ! i = c ! i"
      using assms(1) that by (auto simp: agrees_def)
    ultimately show ?thesis using False by auto
  qed
  with assms(2) len show ?thesis unfolding w agrees_def by simp
qed

text \<open>The client answers a range request with exactly the bytes of the range.\<close>

definition serves :: "remote \<Rightarrow> bytes \<Rightarrow> bool" where
  "serves remote c \<longleftrightarrow> (\<forall>p n. p + n \<le> length c \<longrightarrow> remote p n = Some (take n (drop p c)))"

lemma chunk_task_exact:
  assumes "serves remote c" and "writes pw" and "0 < n" and "p + n \<le> length c" and "length f = length c"
  shows "chunk_task remote pw (p, n) f = (write_at p (take n (drop p c)) f, None)"
proof -
  have "take n (drop p c) \<noteq> []" using assms(3,4) by auto
  moreover have "write_loop pw p (take n (drop p c)) f = (write_at p (take n (drop p c)) f, None)"
    using assms(4,5) by (intro write_loop_exact [OF assms(2)]) simp
  ultimately show ?thesis using assms(1,4) by (simp add: chunk_task_def serves_def)
qed

lemma fetch_loop_exact:
  assumes "serves remote c" and "writes pw"
  shows "\<forall>(p, n) \<in> set (inflight @ rest). 0 < n \<and> p + n \<le> length c \<Longrightarrow> (inflight = [] \<Longrightarrow> rest = []) \<Longrightarrow>
    agrees c (inflight @ rest) f \<Longrightarrow> fetch_loop (chunk_task remote pw) sched inflight rest f = (c, None)"
proof (induction "length inflight + length rest" arbitrary: sched inflight rest f rule: less_induct)
  case less
  show ?case
  proof (cases "inflight = []")
    case True
    with less.prems have "agrees c [] f" by simp
    then have "f = c" by (auto simp: agrees_def intro: nth_equalityI)
    then show ?thesis unfolding fetch_loop.simps [of _ sched inflight] by (simp add: True)
  next
    case False
    let ?i = "pick sched inflight"
    have i: "?i < length inflight" using False by (rule pick_less)
    obtain p n where x: "inflight ! ?i = (p, n)" by fastforce
    have split: "inflight = take ?i inflight @ (p, n) # drop (Suc ?i) inflight"
      using id_take_nth_drop [OF i] x by simp
    have pn: "0 < n" "p + n \<le> length c" using less.prems(1) i x nth_mem [OF i] by auto
    let ?f = "write_at p (take n (drop p c)) f"
    let ?next = "remove_nth ?i inflight @ take 1 rest"
    have "length f = length c" using less.prems(3) by (simp add: agrees_def)
    then have task: "chunk_task remote pw (inflight ! ?i) f = (?f, None)"
      unfolding x by (rule chunk_task_exact [OF assms pn])
    have todo: "?next @ drop 1 rest = take ?i inflight @ (drop (Suc ?i) inflight @ rest)"
      by (simp add: remove_nth_def)
    have sub: "set (?next @ drop 1 rest) \<subseteq> set (inflight @ rest)"
      unfolding todo using set_take_subset [of ?i inflight] set_drop_subset [of "Suc ?i" inflight] by auto
    have agr: "agrees c (?next @ drop 1 rest) ?f"
      unfolding todo by (rule write_at_agrees) (use less.prems(3) split pn in \<open>simp_all, metis append_assoc append_Cons\<close>)
    have "fetch_loop (chunk_task remote pw) sched inflight rest f
        = fetch_loop (chunk_task remote pw) (tl sched) ?next (drop 1 rest) ?f"
      using False task by (simp add: fetch_loop.simps [of _ sched inflight] Let_def)
    also have "\<dots> = (c, None)"
    proof (rule less.hyps)
      show "length ?next + length (drop 1 rest) < length inflight + length rest"
        using i by (cases rest) (auto simp: length_remove_nth)
      show "\<forall>(p, n) \<in> set (?next @ drop 1 rest). 0 < n \<and> p + n \<le> length c"
        using less.prems(1) sub by blast
      show "drop 1 rest = []" if "?next = []" using that by (cases rest) auto
    qed (rule agr)
    finally show ?thesis .
  qed
qed

text \<open>
  C13. A download puts the remote file together whatever the order of the answers: with the size known
  from the list or asked for, any window of at least one request, any chunks of at least one byte,
  any order in which the answers in flight arrive and writes as short as the system likes, the plan of
  the chunks ends, the download ends, and when every range is answered in full the file is the
  remote's, byte for byte.
\<close>

theorem download_any_order:
  assumes "serves remote c" and "writes pw" and "0 < max_parallel" and "0 < chunk"
    and "size_hint = Some (length c) \<or> size_hint = None \<and> size_answer = Some (length c)"
  shows "fetch_one_file remote pw sched size_hint size_answer True max_parallel chunk = Some (Some c, None)"
proof (cases "c = []")
  case True
  with assms(5) show ?thesis by (auto simp: fetch_one_file_def)
next
  case False
  obtain plan where plan: "chunk_plan chunk (length c) 0 = Some plan"
    "\<forall>(p, n) \<in> set plan. 0 < n \<and> n \<le> chunk \<and> 0 \<le> p \<and> p + n \<le> length c"
    "\<forall>i. 0 \<le> i \<longrightarrow> i < length c \<longrightarrow> (\<exists>(p, n) \<in> set plan. p \<le> i \<and> i < p + n)"
    using chunk_plan_tiles [OF assms(4), of "length c" 0] by blast
  have "fetch_loop (chunk_task remote pw) sched (take max_parallel plan) (drop max_parallel plan)
      (replicate (length c) 0) = (c, None)"
  proof (rule fetch_loop_exact [OF assms(1,2)])
    show "\<forall>(p, n) \<in> set (take max_parallel plan @ drop max_parallel plan). 0 < n \<and> p + n \<le> length c"
      using plan(2) by auto
    show "drop max_parallel plan = []" if "take max_parallel plan = []" using that assms(3) by auto
    show "agrees c (take max_parallel plan @ drop max_parallel plan) (replicate (length c) 0)"
      using plan(3) by (simp add: agrees_def)
  qed
  with assms(5) False plan(1) show ?thesis by (auto simp: fetch_one_file_def)
qed

theorem download_any_order_witness:
  "fetch_one_file (\<lambda>p n. Some (take n (drop p [1, 2, 3, 4, 5]))) (\<lambda>_ _. Some 1) [1, 0, 5] None (Some 5) True 2 2
    = Some (Some [1, 2, 3, 4, 5], None)"
proof -
  have "serves (\<lambda>p n. Some (take n (drop p [1, 2, 3, 4, 5]))) [1, 2, 3, 4, 5]" by (simp add: serves_def)
  moreover have "writes (\<lambda>_ _. Some 1)" by (simp add: writes_def)
  ultimately show ?thesis by (rule download_any_order) simp_all
qed

text \<open>
  An answer shorter than the range, but not empty, is taken for the whole chunk: what it leaves out
  stays zero in the file, and the download succeeds.
\<close>

lemma short_answer_accepted:
  "fetch_one_file (\<lambda>p n. Some [1]) (\<lambda>_ _. Some 1) [] (Some 2) None True 1 8 = Some (Some [1, 0], None)"
  by (simp add: fetch_one_file_def chunk_plan.simps Let_def fetch_loop.simps pick_def chunk_task_def
      write_loop.simps write_at_def remove_nth_def numeral_2_eq_2)

section \<open>Streams\<close>

text \<open>The streams of the requests in flight are never zero, and each answer goes to its own.\<close>

lemma register_nonzero: "register r = (sid, r') \<Longrightarrow> sid \<noteq> 0 \<and> sid \<in> pending_streams r'"
  by (auto simp: register_def Let_def split: if_splits)

lemma deliver_once: "deliver sid r = (b, r') \<Longrightarrow> fst (deliver sid r') = False"
  by (auto simp: deliver_def)

end
