(* ===== verification/Clipboard.thy ===== *)
theory Clipboard
  imports Clip_Image Clip_Files
begin

text \<open>
  The clipboard of \<open>src/src/clipboard.rs\<close>: the poller of the Mac's pasteboard with its waves of
  advertisements, the backend of one connection and the texts, images and files that pass through it.
  The factory and the backends share one state; the pasteboard is part of it, since other
  applications, the poller and the backend all write it. The image library is a parameter.
\<close>

section \<open>Text\<close>

text \<open>\<open>encode_utf16\<close> and \<open>String::from_utf16\<close>; a code unit is its value.\<close>

definition utf16_units :: "nat \<Rightarrow> nat list" where
  "utf16_units c = (if c < 0x10000 then [c] else [0xD800 + (c - 0x10000) div 0x400, 0xDC00 + (c - 0x10000) mod 0x400])"

definition encode_utf16 :: "ustr \<Rightarrow> nat list" where "encode_utf16 s = concat (map utf16_units s)"

definition is_high :: "nat \<Rightarrow> bool" where "is_high u \<longleftrightarrow> 0xD800 \<le> u \<and> u < 0xDC00"
definition is_low :: "nat \<Rightarrow> bool" where "is_low u \<longleftrightarrow> 0xDC00 \<le> u \<and> u < 0xE000"

fun from_utf16 :: "nat list \<Rightarrow> ustr option" where
  "from_utf16 [] = Some []"
| "from_utf16 (u # us) =
     (if is_high u then
        (case us of
           v # vs \<Rightarrow>
             if is_low v
             then map_option ((#) (0x10000 + (u - 0xD800) * 0x400 + (v - 0xDC00))) (from_utf16 vs) else None
         | [] \<Rightarrow> None)
      else if is_low u then None else map_option ((#) u) (from_utf16 us))"

definition text_bytes :: "ustr \<Rightarrow> bytes" where
  "text_bytes s = concat (map (le_bytes 2) (encode_utf16 s @ [0]))"

definition text_units :: "bytes \<Rightarrow> nat list" where
  "text_units bs =
     (let us = map le_value (chunks_exact 2 bs) in if us \<noteq> [] \<and> last us = 0 then butlast us else us)"

section \<open>The shared state\<close>

definition CF_DIB :: nat where "CF_DIB = 8"
definition CF_UNICODETEXT :: nat where "CF_UNICODETEXT = 13"
definition CF_DIBV5 :: nat where "CF_DIBV5 = 17"

definition MAX_INCOMING_PAYLOAD :: nat where "MAX_INCOMING_PAYLOAD = 50 * 1024 * 1024"

record pasteboard =
  pb_count :: int
  pb_text :: "ustr option"
  pb_image :: "bytes option"
  pb_items :: "pb_item list"

record clip_format =
  cf_id :: nat
  cf_name :: "ustr option"

datatype clip_message =
    FileCopy "file_entry list"
  | InitiateCopy "nat list"
  | InitiatePaste nat
  | FormatData "bytes option"

record clip =
  pasteboard :: pasteboard
  sender_open :: bool
  file_paths :: "path list"
  generation :: nat
  locked_gen :: nat
  active_backends :: nat
  self_change_count :: int
  paste_temp_dir :: "path option"

record backend =
  last_requested :: "nat option"
  initial_advertise_pending :: bool

definition clip_new :: "pasteboard \<Rightarrow> clip" where
  "clip_new pb = \<lparr>pasteboard = pb, sender_open = False, file_paths = [], generation = 0, locked_gen = 0,
     active_backends = 0, self_change_count = - 1, paste_temp_dir = None\<rparr>"

text \<open>\<open>clearContents\<close> takes the pasteboard over: the count advances.\<close>

definition clear_contents :: "pasteboard \<Rightarrow> pasteboard" where
  "clear_contents pb = \<lparr>pb_count = pb_count pb + 1, pb_text = None, pb_image = None, pb_items = []\<rparr>"

definition write_string :: "ustr \<Rightarrow> clip \<Rightarrow> clip" where
  "write_string t s = s\<lparr>pasteboard := (clear_contents (pasteboard s))\<lparr>pb_text := Some t\<rparr>\<rparr>"

definition write_png :: "bytes \<Rightarrow> clip \<Rightarrow> clip" where
  "write_png png s = s\<lparr>pasteboard := (clear_contents (pasteboard s))\<lparr>pb_image := Some png\<rparr>\<rparr>"

text \<open>\<open>publish_to_pasteboard\<close> of both ways to paste: the count is recorded as our own.\<close>

definition publish :: "pb_item list \<Rightarrow> clip \<Rightarrow> clip" where
  "publish items s =
     (if items = [] then s
      else let pb = (clear_contents (pasteboard s))\<lparr>pb_items := items\<rparr>
           in s\<lparr>pasteboard := pb, self_change_count := pb_count pb\<rparr>)"

definition clear_pasteboard_if_stale :: "clip \<Rightarrow> clip" where
  "clear_pasteboard_if_stale s =
     (if self_change_count s < 0 \<or> pb_count (pasteboard s) \<noteq> self_change_count s then s
      else let pb = clear_contents (pasteboard s)
           in s\<lparr>pasteboard := pb, self_change_count := pb_count pb\<rparr>)"

definition cleanup_on_disconnect :: "clip \<Rightarrow> clip" where
  "cleanup_on_disconnect s = clear_pasteboard_if_stale (s\<lparr>paste_temp_dir := None\<rparr>)"

section \<open>Advertising\<close>

text \<open>\<open>send\<close>: whether the server still listens.\<close>

definition send :: "clip_message \<Rightarrow> clip \<Rightarrow> clip_message list \<times> bool" where
  "send m s = (if sender_open s then ([m], True) else ([], False))"

definition advertise_pasteboard :: "clip \<Rightarrow> clip \<times> clip_message list \<times> bool" where
  "advertise_pasteboard s =
     (let pb = pasteboard s; entries = read_files [] (pb_items pb)
      in if entries \<noteq> [] then (s\<lparr>file_paths := map fe_path entries\<rparr>, send (FileCopy entries) s)
         else
           let formats = (if pb_image pb \<noteq> None then [CF_DIB] else [])
                         @ (if pb_text pb \<noteq> None then [CF_UNICODETEXT] else [])
           in if formats = [] then (s, [], True)
              else (s\<lparr>file_paths := []\<rparr>, send (InitiateCopy formats) s))"

section \<open>The poller\<close>

record poller =
  last_seen :: int
  wave :: "(nat \<times> nat) option"
  stopped :: bool

definition RETRY_DELAYS :: "duration list" where
  "RETRY_DELAYS = map from_millis [1000, 2500, 5000]"

definition poller_new :: "clip \<Rightarrow> poller" where
  "poller_new s = \<lparr>last_seen = pb_count (pasteboard s), wave = None, stopped = False\<rparr>"

text \<open>A tick of the loop: parked without a backend, and quiet on a count it has seen or that is ours.\<close>

definition poll_tick :: "poller \<times> clip \<Rightarrow> (poller \<times> clip) \<times> clip_message list" where
  "poll_tick = (\<lambda>(p, s).
     if stopped p \<or> wave p \<noteq> None \<or> active_backends s = 0 \<or> pb_count (pasteboard s) = last_seen p
     then ((p, s), [])
     else
       let p = p\<lparr>last_seen := pb_count (pasteboard s)\<rparr>
       in if pb_count (pasteboard s) = self_change_count s then ((p, s), [])
          else
            let g = generation s + 1;
                (s, out, ok) = advertise_pasteboard (s\<lparr>generation := g\<rparr>)
            in if ok then ((p\<lparr>wave := Some (g, length RETRY_DELAYS)\<rparr>, s), out)
               else ((p\<lparr>stopped := True\<rparr>, s), out))"

text \<open>The end of a delay of the retry loop.\<close>

definition retry_tick :: "poller \<times> clip \<Rightarrow> (poller \<times> clip) \<times> clip_message list" where
  "retry_tick = (\<lambda>(p, s).
     case wave p of
       None \<Rightarrow> ((p, s), [])
     | Some (g, k) \<Rightarrow>
         if stopped p then ((p, s), [])
         else if generation s \<noteq> g \<or> locked_gen s = g then ((p\<lparr>wave := None\<rparr>, s), [])
         else
           let (s, out, ok) = advertise_pasteboard s
           in if ok then ((p\<lparr>wave := if k \<le> 1 then None else Some (g, k - 1)\<rparr>, s), out)
              else ((p\<lparr>stopped := True\<rparr>, s), out))"

section \<open>The backend\<close>

definition build_backend :: "clip \<Rightarrow> backend \<times> clip" where
  "build_backend s =
     (\<lparr>last_requested = None, initial_advertise_pending = True\<rparr>,
      s\<lparr>active_backends := (active_backends s + 1) mod 2 ^ 64\<rparr>)"

definition drop_backend :: "clip \<Rightarrow> clip" where
  "drop_backend s =
     cleanup_on_disconnect (s\<lparr>active_backends := (active_backends s + 2 ^ 64 - 1) mod 2 ^ 64\<rparr>)"

text \<open>\<open>on_ready\<close>: the messages sent now, and whether an advertisement follows after the delay.\<close>

definition CONNECT_ADVERTISE_DELAY :: duration where "CONNECT_ADVERTISE_DELAY = from_millis 300"

definition on_ready :: "backend \<times> clip \<Rightarrow> (backend \<times> clip) \<times> clip_message list \<times> duration option" where
  "on_ready = (\<lambda>(b, s).
     if initial_advertise_pending b
     then ((b\<lparr>initial_advertise_pending := False\<rparr>, s), [], Some CONNECT_ADVERTISE_DELAY)
     else let (s, out, _) = advertise_pasteboard s in ((b, s), out, None))"

definition on_request_format_list :: "clip \<Rightarrow> clip \<times> clip_message list" where
  "on_request_format_list s = (let (s, out, _) = advertise_pasteboard s in (s, out))"

definition on_format_list_response :: "bool \<Rightarrow> clip \<Rightarrow> clip" where
  "on_format_list_response ok s = (if ok then s\<lparr>locked_gen := generation s\<rparr> else s)"

definition FILE_GROUP :: ustr where "FILE_GROUP = lit ''FileGroupDescriptorW''"

definition paste_format :: "clip_format list \<Rightarrow> nat option" where
  "paste_format formats =
     (case List.find (\<lambda>f. cf_name f = Some FILE_GROUP) formats of
        Some f \<Rightarrow> Some (cf_id f)
      | None \<Rightarrow>
          List.find (\<lambda>i. i \<in> cf_id ` set formats) [CF_DIBV5, CF_DIB, CF_UNICODETEXT])"

definition on_remote_copy :: "clip_format list \<Rightarrow> backend \<times> clip \<Rightarrow> (backend \<times> clip) \<times> clip_message list" where
  "on_remote_copy formats = (\<lambda>(b, s).
     case paste_format formats of
       None \<Rightarrow> ((b, s), [])
     | Some i \<Rightarrow> ((b\<lparr>last_requested := Some i\<rparr>, s), fst (send (InitiatePaste i) s)))"

definition format_data :: "(bytes \<Rightarrow> image option) \<Rightarrow> nat \<Rightarrow> clip \<Rightarrow> bytes option" where
  "format_data decode_image fmt s =
     (if fmt = CF_UNICODETEXT then map_option text_bytes (pb_text (pasteboard s))
      else if fmt = CF_DIB
        then Option.bind (pb_image (pasteboard s)) (\<lambda>bs. map_option image_to_dib (decode_image bs))
      else None)"

definition on_format_data_request ::
    "(bytes \<Rightarrow> image option) \<Rightarrow> nat \<Rightarrow> clip \<Rightarrow> clip_message list"
where
  "on_format_data_request decode_image fmt s = fst (send (FormatData (format_data decode_image fmt s)) s)"

text \<open>The response does not name its format: the one last asked for decides, text by default. The
  outer \<open>None\<close> is a panic.\<close>

definition on_format_data_response ::
    "(image \<Rightarrow> bytes option) \<Rightarrow> bytes option \<Rightarrow> backend \<times> clip \<Rightarrow> (backend \<times> clip) option"
where
  "on_format_data_response encode_png response = (\<lambda>(b, s).
     let requested = last_requested b; b = b\<lparr>last_requested := None\<rparr>
     in case response of
          None \<Rightarrow> Some (b, s)
        | Some bs \<Rightarrow>
            if MAX_INCOMING_PAYLOAD < length bs then Some (b, s)
            else if requested = None \<or> requested = Some CF_UNICODETEXT then
              (if length bs mod 2 \<noteq> 0 then Some (b, s)
               else case from_utf16 (text_units bs) of
                      Some t \<Rightarrow> Some (b, write_string t s)
                    | None \<Rightarrow> Some (b, s))
            else if requested = Some CF_DIB \<or> requested = Some CF_DIBV5 then
              (case dib_to_image bs of
                 None \<Rightarrow> None
               | Some (Inl _) \<Rightarrow> Some (b, s)
               | Some (Inr im) \<Rightarrow>
                   (case encode_png im of Some png \<Rightarrow> Some (b, write_png png s) | None \<Rightarrow> Some (b, s)))
            else Some (b, s))"

end
