(* ===== verification/Clipboard_Props.thy ===== *)
theory Clipboard_Props
  imports Clipboard
begin

text \<open>
  The clipboard as a whole: a text survives its way through the protocol, and the poller neither
  repeats an accepted advertisement nor sends back what the server itself published.
\<close>

section \<open>Text\<close>

definition scalar :: "nat \<Rightarrow> bool" where
  "scalar c \<longleftrightarrow> c < 0xD800 \<or> 0xE000 \<le> c \<and> c < 0x110000"

lemma from_utf16_units:
  assumes "scalar c"
  shows "from_utf16 (utf16_units c @ us) = map_option ((#) c) (from_utf16 us)"
proof (cases "c < 0x10000")
  case True
  then show ?thesis using assms by (auto simp: utf16_units_def scalar_def is_high_def is_low_def)
next
  case False
  let ?d = "c - 0x10000"
  have d: "?d div 0x400 < 0x400" "?d mod 0x400 < 0x400" using assms False by (auto simp: scalar_def)
  then have "is_high (0xD800 + ?d div 0x400)" "is_low (0xDC00 + ?d mod 0x400)"
    by (simp_all add: is_high_def is_low_def)
  moreover have "0x10000 + (?d div 0x400) * 0x400 + ?d mod 0x400 = c" using False by simp
  ultimately show ?thesis using False by (simp add: utf16_units_def)
qed

lemma from_utf16_encode: "\<forall>c \<in> set s. scalar c \<Longrightarrow> from_utf16 (encode_utf16 s) = Some s"
  by (induction s) (simp_all add: encode_utf16_def from_utf16_units)

lemma encode_utf16_bound: "\<forall>c \<in> set s. scalar c \<Longrightarrow> u \<in> set (encode_utf16 s) \<Longrightarrow> u < 65536"
  by (auto simp: encode_utf16_def utf16_units_def scalar_def split: if_splits)

lemma chunks_of_units: "chunks_exact 2 (concat (map (le_bytes 2) us)) = map (le_bytes 2) us"
  by (induction us) (simp_all add: chunks_exact_append)

lemma text_units_bytes:
  assumes "\<forall>c \<in> set s. scalar c"
  shows "text_units (text_bytes s) = encode_utf16 s"
proof -
  have "map (le_value \<circ> le_bytes 2) us = us" if "\<forall>u \<in> set us. u < 65536" for us
    using that by (induction us) (simp_all add: le_value_le_bytes)
  moreover have "\<forall>u \<in> set (encode_utf16 s @ [0]). u < 65536" using encode_utf16_bound [OF assms] by simp
  ultimately have "map (le_value \<circ> le_bytes 2) (encode_utf16 s @ [0]) = encode_utf16 s @ [0]" by blast
  then show ?thesis
    unfolding text_units_def text_bytes_def chunks_of_units map_map by (simp add: Let_def)
qed

lemma text_bytes_length: "length (text_bytes s) mod 2 = 0"
proof -
  have "length (concat (map (le_bytes 2) us)) = 2 * length us" for us by (induction us) simp_all
  then show ?thesis unfolding text_bytes_def by simp
qed

text \<open>
  A text copied on one side arrives on the other: when a peer that offers text but neither files
  nor an image is asked for it, what the request of the format serves from its pasteboard is decoded
  into the same text on ours, character for character, those outside the basic plane and trailing
  zeros included, up to the cap on incoming payloads.
\<close>

theorem text_exchange:
  assumes "pb_text (pasteboard peer) = Some t" and "\<forall>c \<in> set t. scalar c"
    and "length (text_bytes t) \<le> MAX_INCOMING_PAYLOAD"
    and "CF_UNICODETEXT \<in> cf_id ` set formats"
    and "\<forall>f \<in> set formats. cf_name f \<noteq> Some FILE_GROUP \<and> cf_id f \<noteq> CF_DIB \<and> cf_id f \<noteq> CF_DIBV5"
    and "on_remote_copy formats (b, s) = ((b', s'), msgs)"
  shows "(sender_open s \<longrightarrow> msgs = [InitiatePaste CF_UNICODETEXT])
    \<and> (\<exists>b'' s''. on_format_data_response enc (format_data dec CF_UNICODETEXT peer) (b', s') = Some (b'', s'')
        \<and> pb_text (pasteboard s'') = Some t \<and> last_requested b'' = None)"
proof -
  have "List.find (\<lambda>f. cf_name f = Some FILE_GROUP) formats = None"
    using assms(5) by (simp add: find_None_iff)
  moreover have "CF_DIBV5 \<notin> cf_id ` set formats" "CF_DIB \<notin> cf_id ` set formats" using assms(5) by auto
  ultimately have fmt: "paste_format formats = Some CF_UNICODETEXT"
    using assms(4) by (simp add: paste_format_def)
  have b': "b' = b\<lparr>last_requested := Some CF_UNICODETEXT\<rparr>" "s' = s" "msgs = fst (send (InitiatePaste CF_UNICODETEXT) s)"
    using assms(6) fmt by (auto simp: on_remote_copy_def)
  have data: "format_data dec CF_UNICODETEXT peer = Some (text_bytes t)"
    using assms(1) by (simp add: format_data_def)
  have "from_utf16 (text_units (text_bytes t)) = Some t"
    by (simp add: text_units_bytes [OF assms(2)] from_utf16_encode [OF assms(2)])
  then show ?thesis
    using assms(3) text_bytes_length [of t]
    by (simp add: on_format_data_response_def data b' send_def Let_def write_string_def)
qed

definition text_board :: "ustr \<Rightarrow> pasteboard" where
  "text_board t = \<lparr>pb_count = 7, pb_text = Some t, pb_image = None, pb_items = []\<rparr>"

theorem text_exchange_witness:
  "\<exists>b'' s''. on_format_data_response (\<lambda>_. None) (format_data (\<lambda>_. None) CF_UNICODETEXT (clip_new (text_board [65, 0x1F600])))
      (\<lparr>last_requested = Some CF_UNICODETEXT, initial_advertise_pending = False\<rparr>, clip_new (text_board [66])) = Some (b'', s'')
    \<and> pb_text (pasteboard s'') = Some [65, 0x1F600]"
proof -
  let ?b = "\<lparr>last_requested = None, initial_advertise_pending = False\<rparr>"
  let ?formats = "[\<lparr>cf_id = CF_UNICODETEXT, cf_name = None\<rparr>]"
  have copy: "on_remote_copy ?formats (?b, clip_new (text_board [66]))
      = ((?b\<lparr>last_requested := Some CF_UNICODETEXT\<rparr>, clip_new (text_board [66])), [])"
    by (simp add: on_remote_copy_def paste_format_def send_def clip_new_def CF_UNICODETEXT_def CF_DIB_def CF_DIBV5_def)
  have "length (text_bytes [65, 0x1F600]) \<le> MAX_INCOMING_PAYLOAD"
    by (simp add: text_bytes_def encode_utf16_def utf16_units_def MAX_INCOMING_PAYLOAD_def)
  from text_exchange [OF _ _ this _ _ copy, of "clip_new (text_board [65, 0x1F600])" "\<lambda>_. None" "\<lambda>_. None"]
  show ?thesis
    by (simp add: clip_new_def text_board_def scalar_def CF_UNICODETEXT_def CF_DIB_def CF_DIBV5_def) blast
qed

section \<open>The waves of advertisements\<close>

datatype clip_event =
    Tick
  | RetryDue
  | Response bool
  | LocksExpired
  | PublishFiles "pb_item list"

fun clip_step :: "poller \<times> clip \<Rightarrow> clip_event \<Rightarrow> (poller \<times> clip) \<times> clip_message list" where
  "clip_step x Tick = poll_tick x"
| "clip_step x RetryDue = retry_tick x"
| "clip_step (p, s) (Response ok) = ((p, on_format_list_response ok s), [])"
| "clip_step (p, s) LocksExpired = ((p, clear_pasteboard_if_stale s), [])"
| "clip_step (p, s) (PublishFiles items) = ((p, publish items s), [])"

text \<open>A change of the pasteboard by another application the poller has not seen, and the
  advertisements its current wave may still send.\<close>

definition unseen_change :: "poller \<Rightarrow> clip \<Rightarrow> bool" where
  "unseen_change p s \<longleftrightarrow> pb_count (pasteboard s) \<noteq> last_seen p \<and> pb_count (pasteboard s) \<noteq> self_change_count s"

definition outstanding :: "poller \<Rightarrow> clip \<Rightarrow> nat" where
  "outstanding p s =
     (case wave p of None \<Rightarrow> 0
      | Some (g, k) \<Rightarrow> if generation s \<noteq> g \<or> locked_gen s = g then 0 else max 1 k)"

definition wave_potential :: "poller \<times> clip \<Rightarrow> nat" where
  "wave_potential = (\<lambda>(p, s). if stopped p then 0 else outstanding p s + (if unseen_change p s then 4 else 0))"

lemma advertise_fields:
  assumes "advertise_pasteboard s = (s', out, ok)"
  shows "pasteboard s' = pasteboard s" "generation s' = generation s" "locked_gen s' = locked_gen s"
    "self_change_count s' = self_change_count s" "length out \<le> 1" "ok \<or> out = []"
    "sender_open s' = sender_open s" "active_backends s' = active_backends s"
  using assms by (auto simp: advertise_pasteboard_def send_def Let_def split: if_splits)

lemma poll_tick_budget:
  "length (snd (poll_tick x)) + wave_potential (fst (poll_tick x)) \<le> wave_potential x"
proof -
  obtain p s where x: "x = (p, s)" by fastforce
  show ?thesis
  proof (cases "stopped p \<or> wave p \<noteq> None \<or> active_backends s = 0 \<or> pb_count (pasteboard s) = last_seen p")
    case True
    then show ?thesis by (simp add: x poll_tick_def)
  next
    case False
    obtain s' out ok where a: "advertise_pasteboard (s\<lparr>generation := generation s + 1\<rparr>) = (s', out, ok)"
      by (metis prod_cases3)
    note f = advertise_fields [OF a]
    from False f show ?thesis
      by (cases "pb_count (pasteboard s) = self_change_count s"; cases ok)
        (auto simp: x poll_tick_def Let_def a [simplified] wave_potential_def outstanding_def unseen_change_def RETRY_DELAYS_def)
  qed
qed

lemma retry_tick_budget:
  "length (snd (retry_tick x)) + wave_potential (fst (retry_tick x)) \<le> wave_potential x"
proof -
  obtain p s where x: "x = (p, s)" by fastforce
  show ?thesis
  proof (cases "wave p")
    case None
    then show ?thesis by (simp add: x retry_tick_def)
  next
    case (Some w)
    obtain g k where w: "wave p = Some (g, k)" using Some by (cases w) simp
    obtain s' out ok where a: "advertise_pasteboard s = (s', out, ok)" by (metis prod_cases3)
    note f = advertise_fields [OF a]
    show ?thesis
    proof (cases "stopped p \<or> generation s \<noteq> g \<or> locked_gen s = g")
      case True
      then show ?thesis
        by (auto simp: x retry_tick_def w Let_def wave_potential_def outstanding_def unseen_change_def)
    next
      case False
      with f show ?thesis
        by (cases ok; cases "k \<le> 1")
          (auto simp: x retry_tick_def w Let_def a wave_potential_def outstanding_def unseen_change_def)
    qed
  qed
qed

interpretation waves: budget_emitter clip_step "\<lambda>_. True" wave_potential "\<lambda>_. False"
proof
  fix x :: "poller \<times> clip" and e
  show "length (filter (\<lambda>_. True) (snd (clip_step x e))) + wave_potential (fst (clip_step x e)) \<le> wave_potential x"
  proof (cases e)
    case Tick
    then show ?thesis using poll_tick_budget [of x] by simp
  next
    case RetryDue
    then show ?thesis using retry_tick_budget [of x] by simp
  next
    case (Response ok)
    then show ?thesis
      by (cases x; cases "wave (fst x)")
        (auto simp: on_format_list_response_def wave_potential_def outstanding_def unseen_change_def)
  next
    case LocksExpired
    then show ?thesis
      by (cases x) (auto simp: clear_pasteboard_if_stale_def Let_def wave_potential_def outstanding_def
          unseen_change_def clear_contents_def split: option.split)
  next
    case (PublishFiles items)
    then show ?thesis
      by (cases x) (auto simp: publish_def Let_def wave_potential_def outstanding_def unseen_change_def
          clear_contents_def split: option.split)
  qed
qed

lemma never_free: "run_avoids step (\<lambda>_. False) s es"
  by (induction es arbitrary: s) auto

text \<open>
  The poller never buries an accepted list of formats and never sends back what the server
  published itself: over any sequence of ticks, retry delays, answers of the client, expired locks and
  files the server puts on the pasteboard, without a copy by another application, it advertises at
  most four times when a change was unseen at the start, on top of what its current wave had left,
  and not at all when none was and the client had accepted the last wave.
\<close>

theorem advertise_waves_bounded:
  assumes "run_out clip_step (p, s) es = ((p', s'), out)"
  shows "length out \<le> (if unseen_change p s then 4 else 0) + outstanding p s
    \<and> (\<not> unseen_change p s \<longrightarrow> locked_gen s = generation s \<longrightarrow> out = [])"
proof -
  have "length out \<le> wave_potential (p, s)"
    using waves.run_budget [OF never_free, of "(p, s)" es] assms by simp
  moreover have "wave_potential (p, s) \<le> (if unseen_change p s then 4 else 0) + outstanding p s"
    by (simp add: wave_potential_def)
  moreover have "outstanding p s = 0" if "locked_gen s = generation s"
    using that by (simp add: outstanding_def split: option.split)
  ultimately show ?thesis by auto
qed

definition connected_clip :: clip where
  "connected_clip = (clip_new (text_board [65]))\<lparr>sender_open := True, active_backends := 1\<rparr>"

theorem advertise_waves_bounded_witness:
  "\<exists>p' s' out. run_out clip_step (\<lparr>last_seen = 6, wave = None, stopped = False\<rparr>, connected_clip)
      [Tick, RetryDue, Response True, RetryDue, Tick] = ((p', s'), out) \<and> length out \<le> 4"
proof -
  let ?p = "\<lparr>last_seen = 6, wave = None, stopped = False\<rparr>"
  obtain p' s' out where run: "run_out clip_step (?p, connected_clip) [Tick, RetryDue, Response True, RetryDue, Tick] = ((p', s'), out)"
    by (metis surj_pair)
  from advertise_waves_bounded [OF run] run show ?thesis by (auto simp: outstanding_def split: if_splits)
qed

text \<open>
  A text received from the client is written to the pasteboard without recording the change as our
  own: the next tick advertises it back to the client it came from.
\<close>

lemma text_echoed:
  assumes "on_format_data_response enc (Some (text_bytes [65])) (b, s) = Some (b', s')"
    and "last_requested b = Some CF_UNICODETEXT" and "sender_open s" and "active_backends s \<noteq> 0"
    and "self_change_count s = - 1" and "0 \<le> pb_count (pasteboard s)"
    and "p = \<lparr>last_seen = pb_count (pasteboard s), wave = None, stopped = False\<rparr>"
  shows "snd (poll_tick (p, s')) = [InitiateCopy [CF_UNICODETEXT]]"
proof -
  have t: "from_utf16 (text_units (text_bytes [65])) = Some [65]"
    using text_units_bytes [of "[65]"] from_utf16_encode [of "[65]"] by (simp add: scalar_def)
  have "length (text_bytes [65]) = 4" by (simp add: text_bytes_def encode_utf16_def utf16_units_def)
  with assms(1,2) t have s': "s' = write_string [65] s"
    by (simp add: on_format_data_response_def Let_def MAX_INCOMING_PAYLOAD_def)
  show ?thesis
    using assms(3-7)
    by (simp add: s' poll_tick_def write_string_def clear_contents_def advertise_pasteboard_def Let_def send_def)
qed

text \<open>
  While a wave is on, the generation is its own: the check for a newer copy in the retry loop never
  holds, since only the loop it waits in starts waves.
\<close>

interpretation wave_gen: emitter clip_step
  "\<lambda>(p, s). \<forall>g k. wave p = Some (g, k) \<longrightarrow> generation s = g" "\<lambda>_. True"
proof
  fix x :: "poller \<times> clip" and e
  assume "case x of (p, s) \<Rightarrow> \<forall>g k. wave p = Some (g, k) \<longrightarrow> generation s = g"
  then show "case fst (clip_step x e) of (p, s) \<Rightarrow> \<forall>g k. wave p = Some (g, k) \<longrightarrow> generation s = g"
    by (cases x; cases e)
      (auto simp: poll_tick_def retry_tick_def Let_def on_format_list_response_def clear_pasteboard_if_stale_def
        publish_def advertise_fields split: if_splits option.splits prod.splits)
qed

lemma retry_never_superseded:
  assumes "run_out clip_step (poller_new s0, s0) es = ((p, s), out)" and "wave p = Some (g, k)"
  shows "generation s = g"
  using wave_gen.run_inv [of "(poller_new s0, s0)" es] assms by (simp add: poller_new_def)

end
