(* ===== verification/Drive_Fs.thy ===== *)
theory Drive_Fs
  imports Bytes
begin

text \<open>
  The file system of \<open>src/src/rdpdr/surface.rs\<close>: the operations the kernel's NFS client sends,
  answered from a cache of the paths met so far and by requests to the drive the RDP client redirects.
  The drive is a parameter: a record of functions that take a world, answer with an error or a
  value and leave another world. An error carries the status the client gave, if it gave one.
  Operations run one after the other; \<open>u64\<close> values are naturals, with the wrap-around of a
  release build written out.
\<close>

section \<open>Status codes\<close>

datatype nt_status =
    ACCESS_DENIED | OBJECT_NAME_COLLISION | NO_SUCH_FILE | NOT_A_DIRECTORY | DIRECTORY_NOT_EMPTY
  | NOT_SUPPORTED | OTHER_STATUS nat

datatype nfs_status =
    NFS3ERR_ACCES | NFS3ERR_EXIST | NFS3ERR_NOENT | NFS3ERR_NOTDIR | NFS3ERR_ISDIR | NFS3ERR_NOTEMPTY
  | NFS3ERR_NOTSUPP | NFS3ERR_ROFS | NFS3ERR_IO

fun ntstatus_to_nfsstat3 :: "nt_status option \<Rightarrow> nfs_status" where
  "ntstatus_to_nfsstat3 (Some ACCESS_DENIED) = NFS3ERR_ACCES"
| "ntstatus_to_nfsstat3 (Some OBJECT_NAME_COLLISION) = NFS3ERR_EXIST"
| "ntstatus_to_nfsstat3 (Some NO_SUCH_FILE) = NFS3ERR_NOENT"
| "ntstatus_to_nfsstat3 (Some NOT_A_DIRECTORY) = NFS3ERR_NOTDIR"
| "ntstatus_to_nfsstat3 (Some DIRECTORY_NOT_EMPTY) = NFS3ERR_NOTEMPTY"
| "ntstatus_to_nfsstat3 (Some NOT_SUPPORTED) = NFS3ERR_NOTSUPP"
| "ntstatus_to_nfsstat3 _ = NFS3ERR_IO"

section \<open>The cache\<close>

definition ROOT_ID :: nat where "ROOT_ID = 1"

definition ROOT_PATH :: ustr where "ROOT_PATH = [92]"

record node =
  remote_path :: ustr
  node_is_dir :: bool
  node_size :: nat
  node_parent :: nat

record fs_cache =
  next_id :: nat
  id_to_node :: "nat \<rightharpoonup> node"
  path_to_id :: "ustr \<rightharpoonup> nat"

definition cache_new :: fs_cache where
  "cache_new = \<lparr>next_id = ROOT_ID + 1,
     id_to_node = [ROOT_ID \<mapsto> \<lparr>remote_path = ROOT_PATH, node_is_dir = True, node_size = 0, node_parent = ROOT_ID\<rparr>],
     path_to_id = [ROOT_PATH \<mapsto> ROOT_ID]\<rparr>"

definition update_node :: "nat \<Rightarrow> (node \<Rightarrow> node) \<Rightarrow> fs_cache \<Rightarrow> fs_cache" where
  "update_node i f c =
     (case id_to_node c i of None \<Rightarrow> c | Some n \<Rightarrow> c\<lparr>id_to_node := (id_to_node c)(i \<mapsto> f n)\<rparr>)"

definition intern :: "nat \<Rightarrow> ustr \<Rightarrow> bool \<Rightarrow> nat \<Rightarrow> fs_cache \<Rightarrow> nat \<times> fs_cache" where
  "intern par p dir sz c =
     (case path_to_id c p of
        Some i \<Rightarrow> (i, update_node i (\<lambda>n. n\<lparr>node_is_dir := dir, node_size := sz\<rparr>) c)
      | None \<Rightarrow>
          let i = next_id c
          in (i, c\<lparr>next_id := i + 1,
                  id_to_node := (id_to_node c)(i \<mapsto> \<lparr>remote_path = p, node_is_dir = dir, node_size = sz, node_parent = par\<rparr>),
                  path_to_id := (path_to_id c)(p \<mapsto> i)\<rparr>))"

definition forget :: "nat \<Rightarrow> fs_cache \<Rightarrow> fs_cache" where
  "forget i c =
     (case id_to_node c i of
        None \<Rightarrow> c
      | Some n \<Rightarrow> c\<lparr>id_to_node := (id_to_node c)(i := None), path_to_id := (path_to_id c)(remote_path n := None)\<rparr>)"

definition set_size :: "nat \<Rightarrow> nat \<Rightarrow> fs_cache \<Rightarrow> fs_cache" where
  "set_size i sz = update_node i (\<lambda>n. n\<lparr>node_size := sz\<rparr>)"

definition join_remote :: "ustr \<Rightarrow> ustr \<Rightarrow> ustr" where
  "join_remote dir name = (if dir = ROOT_PATH then 92 # name else dir @ 92 # name)"

section \<open>The redirected drive\<close>

record rdp_entry =
  ent_name :: ustr
  ent_size :: nat
  ent_is_dir :: bool

type_synonym ('w, 'a) reply = "(nt_status option + 'a) \<times> 'w"

record 'w client =
  c_list_dir :: "ustr \<Rightarrow> 'w \<Rightarrow> ('w, rdp_entry list) reply"
  c_read_file :: "ustr \<Rightarrow> nat \<Rightarrow> nat \<Rightarrow> 'w \<Rightarrow> ('w, bytes) reply"
  c_write_file :: "ustr \<Rightarrow> nat \<Rightarrow> bytes \<Rightarrow> 'w \<Rightarrow> ('w, nat) reply"
  c_set_len :: "ustr \<Rightarrow> nat \<Rightarrow> 'w \<Rightarrow> ('w, unit) reply"
  c_create_file :: "ustr \<Rightarrow> bool \<Rightarrow> 'w \<Rightarrow> ('w, unit) reply"
  c_create_dir :: "ustr \<Rightarrow> 'w \<Rightarrow> ('w, unit) reply"
  c_remove :: "ustr \<Rightarrow> bool \<Rightarrow> 'w \<Rightarrow> ('w, unit) reply"
  c_rename :: "ustr \<Rightarrow> ustr \<Rightarrow> bool \<Rightarrow> 'w \<Rightarrow> ('w, unit) reply"

type_synonym ('w, 'a) nfs_result = "(nfs_status + 'a) \<times> 'w \<times> fs_cache"

text \<open>A request and what follows it: an error becomes its NFS status and ends the operation.\<close>

definition ask :: "('w \<Rightarrow> ('w, 'a) reply) \<Rightarrow> ('a \<Rightarrow> 'w \<times> fs_cache \<Rightarrow> ('w, 'b) nfs_result) \<Rightarrow>
    'w \<times> fs_cache \<Rightarrow> ('w, 'b) nfs_result" where
  "ask call k = (\<lambda>(w, c).
     case call w of
       (Inl e, w') \<Rightarrow> (Inl (ntstatus_to_nfsstat3 e), w', c)
     | (Inr x, w') \<Rightarrow> k x (w', c))"

section \<open>Attributes\<close>

record fattr =
  at_dir :: bool
  at_mode :: nat
  at_nlink :: nat
  at_size :: nat
  at_fileid :: nat

definition attr :: "nat \<Rightarrow> bool \<Rightarrow> nat \<Rightarrow> fattr" where
  "attr i dir sz =
     (if dir then \<lparr>at_dir = True, at_mode = 493, at_nlink = 2, at_size = 4096, at_fileid = i\<rparr>
      else \<lparr>at_dir = False, at_mode = 420, at_nlink = 1, at_size = sz, at_fileid = i\<rparr>)"

section \<open>The operations\<close>

definition dir_path_of :: "nat \<Rightarrow> fs_cache \<Rightarrow> nfs_status + ustr" where
  "dir_path_of i c =
     (case id_to_node c i of
        None \<Rightarrow> Inl NFS3ERR_NOENT
      | Some n \<Rightarrow> if node_is_dir n then Inr (remote_path n) else Inl NFS3ERR_NOTDIR)"

fun intern_all :: "nat \<Rightarrow> ustr \<Rightarrow> rdp_entry list \<Rightarrow> fs_cache \<Rightarrow> (nat \<times> rdp_entry) list \<times> fs_cache" where
  "intern_all par dir [] c = ([], c)"
| "intern_all par dir (e # es) c =
     (let (i, c) = intern par (join_remote dir (ent_name e)) (ent_is_dir e) (ent_size e) c;
          (kids, c) = intern_all par dir es c
      in ((i, e) # kids, c))"

definition list_and_cache :: "'w client \<Rightarrow> nat \<Rightarrow> 'w \<times> fs_cache \<Rightarrow> ('w, (nat \<times> rdp_entry) list) nfs_result" where
  "list_and_cache cl i = (\<lambda>(w, c).
     case dir_path_of i c of
       Inl e \<Rightarrow> (Inl e, w, c)
     | Inr dir \<Rightarrow>
         ask (c_list_dir cl dir) (\<lambda>es (w, c). let (kids, c) = intern_all i dir es c in (Inr kids, w, c)) (w, c))"

definition DOT_NAME :: ustr where "DOT_NAME = lit ''.''"
definition DOTDOT_NAME :: ustr where "DOTDOT_NAME = lit ''..''"

definition lookup :: "'w client \<Rightarrow> nat \<Rightarrow> ustr \<Rightarrow> 'w \<times> fs_cache \<Rightarrow> ('w, nat) nfs_result" where
  "lookup cl i name = (\<lambda>(w, c).
     if name = DOT_NAME then (Inr i, w, c)
     else if name = DOTDOT_NAME then
       (case id_to_node c i of None \<Rightarrow> (Inl NFS3ERR_NOENT, w, c) | Some n \<Rightarrow> (Inr (node_parent n), w, c))
     else case dir_path_of i c of
       Inl e \<Rightarrow> (Inl e, w, c)
     | Inr dir \<Rightarrow>
         (case path_to_id c (join_remote dir name) of
            Some j \<Rightarrow> (Inr j, w, c)
          | None \<Rightarrow>
              (case list_and_cache cl i (w, c) of
                 (Inl e, x) \<Rightarrow> (Inl e, x)
               | (Inr kids, w, c) \<Rightarrow>
                   (case path_to_id c (join_remote dir name) of
                      None \<Rightarrow> (Inl NFS3ERR_NOENT, w, c)
                    | Some j \<Rightarrow> (Inr j, w, c)))))"

definition getattr :: "nat \<Rightarrow> fs_cache \<Rightarrow> nfs_status + fattr" where
  "getattr i c =
     (case id_to_node c i of
        None \<Rightarrow> Inl NFS3ERR_NOENT
      | Some n \<Rightarrow> Inr (attr i (node_is_dir n) (node_size n)))"

definition u64_add :: "nat \<Rightarrow> nat \<Rightarrow> nat" where "u64_add a b = (a + b) mod 2 ^ 64"

definition nfs_read :: "'w client \<Rightarrow> nat \<Rightarrow> nat \<Rightarrow> nat \<Rightarrow> 'w \<times> fs_cache \<Rightarrow> ('w, bytes \<times> bool) nfs_result" where
  "nfs_read cl i offset cnt = (\<lambda>(w, c).
     case id_to_node c i of
       None \<Rightarrow> (Inl NFS3ERR_NOENT, w, c)
     | Some n \<Rightarrow>
         if node_is_dir n then (Inl NFS3ERR_ISDIR, w, c)
         else if node_size n \<le> offset then (Inr ([], True), w, c)
         else ask (c_read_file cl (remote_path n) offset cnt)
                (\<lambda>bs x. (Inr (bs, node_size n \<le> u64_add offset (length bs)), x)) (w, c))"

record dir_page =
  page_entries :: "(nat \<times> ustr \<times> fattr) list"
  page_end :: bool

definition page_start :: "nat \<Rightarrow> (nat \<times> rdp_entry) list \<Rightarrow> nat" where
  "page_start start_after kids =
     (if start_after = 0 then 0
      else let k = length (takeWhile (\<lambda>(i, e). i \<noteq> start_after) kids)
           in if k < length kids then k + 1 else 0)"

definition page_of :: "nat \<Rightarrow> nat \<Rightarrow> (nat \<times> rdp_entry) list \<Rightarrow> dir_page" where
  "page_of start_after max_entries kids =
     (let kids = sort_key fst kids; k = page_start start_after kids;
          es = map (\<lambda>(i, e). (i, ent_name e, attr i (ent_is_dir e) (ent_size e))) (take max_entries (drop k kids))
      in \<lparr>page_entries = es, page_end = length kids \<le> k + length es\<rparr>)"

definition readdir :: "'w client \<Rightarrow> nat \<Rightarrow> nat \<Rightarrow> nat \<Rightarrow> 'w \<times> fs_cache \<Rightarrow> ('w, dir_page) nfs_result" where
  "readdir cl i start_after max_entries x =
     (case list_and_cache cl i x of
        (Inl e, x) \<Rightarrow> (Inl e, x)
      | (Inr kids, x) \<Rightarrow> (Inr (page_of start_after max_entries kids), x))"

definition setattr :: "'w client \<Rightarrow> nat \<Rightarrow> nat option \<Rightarrow> 'w \<times> fs_cache \<Rightarrow> ('w, fattr) nfs_result" where
  "setattr cl i new_size = (\<lambda>(w, c).
     case id_to_node c i of
       None \<Rightarrow> (Inl NFS3ERR_NOENT, w, c)
     | Some n \<Rightarrow>
         let answer = (\<lambda>(w, c). (Inr (attr i (node_is_dir n) (case id_to_node c i of None \<Rightarrow> 0 | Some m \<Rightarrow> node_size m)), w, c))
         in case new_size of
              Some sz \<Rightarrow>
                if node_is_dir n then answer (w, c)
                else ask (c_set_len cl (remote_path n) sz) (\<lambda>_ (w, c). answer (w, set_size i sz c)) (w, c)
            | None \<Rightarrow> answer (w, c))"

definition nfs_write :: "'w client \<Rightarrow> nat \<Rightarrow> nat \<Rightarrow> bytes \<Rightarrow> 'w \<times> fs_cache \<Rightarrow> ('w, fattr) nfs_result" where
  "nfs_write cl i offset data = (\<lambda>(w, c).
     case id_to_node c i of
       None \<Rightarrow> (Inl NFS3ERR_NOENT, w, c)
     | Some n \<Rightarrow>
         if node_is_dir n then (Inl NFS3ERR_ISDIR, w, c)
         else ask (c_write_file cl (remote_path n) offset data)
                (\<lambda>_ (w, c).
                   let cur = (case id_to_node c i of None \<Rightarrow> 0 | Some m \<Rightarrow> node_size m);
                       ns = max cur (u64_add offset (length data))
                   in (Inr (attr i False ns), w, set_size i ns c)) (w, c))"

definition create_node ::
    "(ustr \<Rightarrow> 'w \<Rightarrow> ('w, unit) reply) \<Rightarrow> bool \<Rightarrow> nat \<Rightarrow> ustr \<Rightarrow> 'w \<times> fs_cache \<Rightarrow> ('w, nat \<times> fattr) nfs_result"
where
  "create_node call dir i name = (\<lambda>(w, c).
     case dir_path_of i c of
       Inl e \<Rightarrow> (Inl e, w, c)
     | Inr d \<Rightarrow>
         ask (call (join_remote d name))
           (\<lambda>_ (w, c). let (j, c) = intern i (join_remote d name) dir 0 c in (Inr (j, attr j dir 0), w, c)) (w, c))"

definition create :: "'w client \<Rightarrow> nat \<Rightarrow> ustr \<Rightarrow> 'w \<times> fs_cache \<Rightarrow> ('w, nat \<times> fattr) nfs_result" where
  "create cl = create_node (\<lambda>p. c_create_file cl p False) False"

definition create_exclusive :: "'w client \<Rightarrow> nat \<Rightarrow> ustr \<Rightarrow> 'w \<times> fs_cache \<Rightarrow> ('w, nat) nfs_result" where
  "create_exclusive cl i name x =
     (case create_node (\<lambda>p. c_create_file cl p True) False i name x of
        (Inl e, x) \<Rightarrow> (Inl e, x)
      | (Inr (j, _), x) \<Rightarrow> (Inr j, x))"

definition mkdir :: "'w client \<Rightarrow> nat \<Rightarrow> ustr \<Rightarrow> 'w \<times> fs_cache \<Rightarrow> ('w, nat \<times> fattr) nfs_result" where
  "mkdir cl = create_node (c_create_dir cl) True"

definition cached_node :: "ustr \<Rightarrow> fs_cache \<Rightarrow> (nat \<times> node) option" where
  "cached_node p c =
     Option.bind (path_to_id c p) (\<lambda>i. map_option (\<lambda>n. (i, n)) (id_to_node c i))"

text \<open>The target of a removal or the source of a renaming; its directory is listed if it is not cached.\<close>

definition resolve_child :: "'w client \<Rightarrow> nat \<Rightarrow> ustr \<Rightarrow> 'w \<times> fs_cache \<Rightarrow> ('w, nat \<times> node) nfs_result" where
  "resolve_child cl i p = (\<lambda>(w, c).
     case cached_node p c of
       Some r \<Rightarrow> (Inr r, w, c)
     | None \<Rightarrow>
         (case list_and_cache cl i (w, c) of
            (Inl e, x) \<Rightarrow> (Inl e, x)
          | (Inr kids, w, c) \<Rightarrow>
              (case cached_node p c of None \<Rightarrow> (Inl NFS3ERR_NOENT, w, c) | Some r \<Rightarrow> (Inr r, w, c))))"

definition remove_node :: "'w client \<Rightarrow> nat \<Rightarrow> ustr \<Rightarrow> 'w \<times> fs_cache \<Rightarrow> ('w, unit) nfs_result" where
  "remove_node cl i name = (\<lambda>(w, c).
     case dir_path_of i c of
       Inl e \<Rightarrow> (Inl e, w, c)
     | Inr d \<Rightarrow>
         (case resolve_child cl i (join_remote d name) (w, c) of
            (Inl e, x) \<Rightarrow> (Inl e, x)
          | (Inr (j, n), x) \<Rightarrow>
              ask (c_remove cl (join_remote d name) (node_is_dir n)) (\<lambda>_ (w, c). (Inr (), w, forget j c)) x))"

definition rename :: "'w client \<Rightarrow> nat \<Rightarrow> ustr \<Rightarrow> nat \<Rightarrow> ustr \<Rightarrow> 'w \<times> fs_cache \<Rightarrow> ('w, unit) nfs_result" where
  "rename cl i name to_i to_name = (\<lambda>(w, c).
     case dir_path_of i c of
       Inl e \<Rightarrow> (Inl e, w, c)
     | Inr d \<Rightarrow>
         (case dir_path_of to_i c of
            Inl e \<Rightarrow> (Inl e, w, c)
          | Inr to_d \<Rightarrow>
              let from_path = join_remote d name; to_path = join_remote to_d to_name
              in case resolve_child cl i from_path (w, c) of
                   (Inl e, x) \<Rightarrow> (Inl e, x)
                 | (Inr (j, n), x) \<Rightarrow>
                     ask (c_rename cl from_path to_path True)
                       (\<lambda>_ (w, c). (Inr (), w, snd (intern to_i to_path (node_is_dir n) (node_size n) (forget j c)))) x))"

end
