(* ===== verification/Drive_Props.thy ===== *)
theory Drive_Props
  imports Drive_Fs
begin

text \<open>
  The cache of the redirected drive is a bijection between identifiers and paths whose identifiers
  are never used twice, whatever the client answers, and with a client that does what it acknowledges
  it agrees with the drive.
\<close>

section \<open>Runs\<close>

datatype fs_op =
    Lookup nat ustr
  | Read nat nat nat
  | ReadDir nat nat nat
  | SetAttr nat "nat option"
  | Write nat nat bytes
  | Create nat ustr
  | CreateExclusive nat ustr
  | MakeDir nat ustr
  | Remove nat ustr
  | Rename nat ustr nat ustr

fun fs_step :: "'w client \<Rightarrow> 'w \<times> fs_cache \<Rightarrow> fs_op \<Rightarrow> 'w \<times> fs_cache" where
  "fs_step cl x (Lookup i name) = snd (lookup cl i name x)"
| "fs_step cl x (Read i off k) = snd (nfs_read cl i off k x)"
| "fs_step cl x (ReadDir i after k) = snd (readdir cl i after k x)"
| "fs_step cl x (SetAttr i sz) = snd (setattr cl i sz x)"
| "fs_step cl x (Write i off bs) = snd (nfs_write cl i off bs x)"
| "fs_step cl x (Create i name) = snd (create cl i name x)"
| "fs_step cl x (CreateExclusive i name) = snd (create_exclusive cl i name x)"
| "fs_step cl x (MakeDir i name) = snd (mkdir cl i name x)"
| "fs_step cl x (Remove i name) = snd (remove_node cl i name x)"
| "fs_step cl x (Rename i name j to) = snd (rename cl i name j to x)"

section \<open>The bijection\<close>

definition cache_ok :: "fs_cache \<Rightarrow> bool" where
  "cache_ok c \<longleftrightarrow>
     (\<forall>i n. id_to_node c i = Some n \<longrightarrow> path_to_id c (remote_path n) = Some i \<and> i < next_id c)
     \<and> (\<forall>p i. path_to_id c p = Some i \<longrightarrow> (\<exists>n. id_to_node c i = Some n \<and> remote_path n = p))"

text \<open>From one cache to a later one an identifier keeps its path or is gone for good.\<close>

definition ids_kept :: "fs_cache \<Rightarrow> fs_cache \<Rightarrow> bool" where
  "ids_kept c c' \<longleftrightarrow> next_id c \<le> next_id c'
     \<and> (\<forall>i n'. i < next_id c \<longrightarrow> id_to_node c' i = Some n' \<longrightarrow>
          (\<exists>n. id_to_node c i = Some n \<and> remote_path n = remote_path n'))"

definition keeps :: "fs_cache \<Rightarrow> fs_cache \<Rightarrow> bool" where
  "keeps c c' \<longleftrightarrow> (cache_ok c \<longrightarrow> cache_ok c' \<and> ids_kept c c')"

named_theorems cache_keeps

lemma keeps_refl [simp, intro]: "keeps c c"
  by (simp add: keeps_def ids_kept_def)

lemma keeps_trans: "keeps a b \<Longrightarrow> keeps b c \<Longrightarrow> keeps a c"
  unfolding keeps_def ids_kept_def by (metis order_trans order_less_le_trans)

lemma update_node_keeps [cache_keeps]:
  assumes "\<And>n. remote_path (f n) = remote_path n"
  shows "keeps c (update_node i f c)"
proof (cases "id_to_node c i")
  case (Some m)
  then have u: "update_node i f c = c\<lparr>id_to_node := (id_to_node c)(i \<mapsto> f m)\<rparr>" by (simp add: update_node_def)
  have "cache_ok (update_node i f c)" if ok: "cache_ok c"
    unfolding cache_ok_def u
  proof (intro conjI allI impI)
    fix j n
    assume "id_to_node (c\<lparr>id_to_node := (id_to_node c)(i \<mapsto> f m)\<rparr>) j = Some n"
    then show "path_to_id (c\<lparr>id_to_node := (id_to_node c)(i \<mapsto> f m)\<rparr>) (remote_path n) = Some j"
      and "j < next_id (c\<lparr>id_to_node := (id_to_node c)(i \<mapsto> f m)\<rparr>)"
      using ok Some assms by (auto simp: cache_ok_def split: if_splits)
  next
    fix p j
    assume "path_to_id (c\<lparr>id_to_node := (id_to_node c)(i \<mapsto> f m)\<rparr>) p = Some j"
    then have "path_to_id c p = Some j" by simp
    then have "\<exists>n. id_to_node c j = Some n \<and> remote_path n = p" using ok unfolding cache_ok_def by blast
    then obtain n where "id_to_node c j = Some n" "remote_path n = p" by blast
    then show "\<exists>n. id_to_node (c\<lparr>id_to_node := (id_to_node c)(i \<mapsto> f m)\<rparr>) j = Some n \<and> remote_path n = p"
      using Some assms by (cases "j = i") simp_all
  qed
  moreover have "ids_kept c (update_node i f c)" unfolding ids_kept_def u using Some assms by auto
  ultimately show ?thesis by (simp add: keeps_def)
qed (simp add: update_node_def)

lemma set_size_keeps [cache_keeps]: "keeps c (set_size i sz c)"
  unfolding set_size_def by (rule update_node_keeps) simp

lemma intern_keeps [cache_keeps]: "keeps c (snd (intern par p dir sz c))"
proof (cases "path_to_id c p")
  case None
  have "remote_path n \<noteq> p" if "cache_ok c" "id_to_node c i = Some n" for i n
    using that None by (auto simp: cache_ok_def)
  moreover have "id_to_node c (next_id c) = None" if "cache_ok c"
    using that by (cases "id_to_node c (next_id c)") (auto simp: cache_ok_def)
  moreover have "path_to_id c q \<noteq> Some (next_id c)" if "cache_ok c" for q
    using that unfolding cache_ok_def by (metis less_irrefl)
  ultimately show ?thesis
    using None by (auto simp: intern_def Let_def keeps_def cache_ok_def ids_kept_def less_Suc_eq split: if_splits)
next
  case (Some i)
  then show ?thesis by (simp add: intern_def update_node_keeps)
qed

lemma forget_keeps [cache_keeps]: "keeps c (forget i c)"
  by (auto simp: forget_def keeps_def cache_ok_def ids_kept_def split: option.split) (metis option.inject)+

lemma intern_all_keeps [cache_keeps]: "keeps c (snd (intern_all par dir es c))"
proof (induction es arbitrary: c)
  case Nil
  then show ?case by simp
next
  case (Cons e es)
  from keeps_trans [OF intern_keeps this]
  show ?case by (simp add: case_prod_unfold Let_def)
qed

lemma forget_intern_keeps [cache_keeps]: "keeps c (snd (intern par p dir sz (forget i c)))"
  by (rule keeps_trans [OF forget_keeps intern_keeps])

lemma list_and_cache_keeps: "keeps (snd x) (snd (snd (list_and_cache cl i x)))"
  by (auto simp: list_and_cache_def ask_def case_prod_unfold Let_def cache_keeps split: sum.split)

lemma create_node_keeps: "keeps (snd x) (snd (snd (create_node call dir i name x)))"
  by (auto simp: create_node_def ask_def case_prod_unfold Let_def cache_keeps split: sum.split)

lemma resolve_child_keeps: "keeps (snd x) (snd (snd (resolve_child cl i p x)))"
  using list_and_cache_keeps [of x cl i]
  by (auto simp: resolve_child_def case_prod_unfold split: sum.split option.split)

lemma resolved_keeps:
  assumes "resolve_child cl i p (w, c) = (r, w', c')"
  shows "keeps c c'" "keeps c (forget j c')" "keeps c (snd (intern k q dir sz (forget j c')))"
proof -
  show *: "keeps c c'" using resolve_child_keeps [of "(w, c)" cl i p] assms by simp
  show "keeps c (forget j c')" "keeps c (snd (intern k q dir sz (forget j c')))"
    using * forget_keeps forget_intern_keeps keeps_trans by blast+
qed

lemma fs_step_keeps: "keeps (snd x) (snd (fs_step cl x e))"
proof (cases e)
  case (Lookup i name)
  then show ?thesis
    using list_and_cache_keeps [of x cl i]
    by (auto simp: lookup_def case_prod_unfold split: sum.split option.split)
next
  case (Read i off k)
  then show ?thesis by (auto simp: nfs_read_def ask_def case_prod_unfold split: sum.split option.split)
next
  case (ReadDir i after k)
  then show ?thesis
    using list_and_cache_keeps [of x cl i] by (auto simp: readdir_def case_prod_unfold split: sum.split)
next
  case (SetAttr i sz)
  then show ?thesis
    by (auto simp: setattr_def ask_def case_prod_unfold Let_def cache_keeps split: sum.split option.split)
next
  case (Write i off bs)
  then show ?thesis
    by (auto simp: nfs_write_def ask_def case_prod_unfold Let_def cache_keeps split: sum.split option.split)
next
  case (Create i name)
  then show ?thesis using create_node_keeps by (simp add: create_def)
next
  case (CreateExclusive i name)
  then show ?thesis
    using create_node_keeps [of x "\<lambda>p. c_create_file cl p True" False i name]
    by (auto simp: create_exclusive_def case_prod_unfold split: sum.split)
next
  case (MakeDir i name)
  then show ?thesis using create_node_keeps by (simp add: mkdir_def)
next
  case (Remove i name)
  then show ?thesis
    by (cases x) (auto simp: remove_node_def ask_def Let_def resolved_keeps split: sum.split prod.splits)
next
  case (Rename i name j to)
  then show ?thesis
    by (cases x) (auto simp: rename_def ask_def Let_def resolved_keeps split: sum.split prod.splits)
qed

lemma fs_run_keeps: "keeps (snd x) (snd (foldl (fs_step cl) x es))"
proof (induction es arbitrary: x)
  case Nil
  then show ?case by simp
next
  case (Cons e es)
  from keeps_trans [OF fs_step_keeps this] show ?case by simp
qed

lemma cache_new_ok: "cache_ok cache_new"
  by (simp add: cache_ok_def cache_new_def ROOT_ID_def)

text \<open>
  C28. A file handle of the mounted drive never changes its meaning: whatever the client answers and
  whatever the kernel asks, in any order, identifiers and paths stay in bijection, an identifier
  designates the same path at every moment of the run, and one that is removed or renamed away is not
  given to another file.
\<close>

theorem drive_handles_stable:
  assumes "foldl (fs_step cl) (w, cache_new) es = (w1, c1)" and "foldl (fs_step cl) (w1, c1) fs = (w2, c2)"
  shows "(\<forall>i n. id_to_node c2 i = Some n \<longrightarrow> path_to_id c2 (remote_path n) = Some i)
    \<and> (\<forall>p i. path_to_id c2 p = Some i \<longrightarrow> (\<exists>n. id_to_node c2 i = Some n \<and> remote_path n = p))
    \<and> (\<forall>i n. i < next_id c1 \<longrightarrow> id_to_node c2 i = Some n \<longrightarrow>
          (\<exists>m. id_to_node c1 i = Some m \<and> remote_path m = remote_path n))"
proof -
  have "keeps cache_new c1" using fs_run_keeps [of "(w, cache_new)" cl es] assms(1) by simp
  then have "cache_ok c1" using cache_new_ok by (simp add: keeps_def)
  moreover have "keeps c1 c2" using fs_run_keeps [of "(w1, c1)" cl fs] assms(2) by simp
  ultimately have "cache_ok c2" "ids_kept c1 c2" by (simp_all add: keeps_def)
  then show ?thesis unfolding cache_ok_def ids_kept_def by blast
qed

section \<open>Agreement with the drive\<close>

datatype drive_entry = Folder | Content nat

text \<open>
  A client that does what it acknowledges: a listing, a read and an error leave the drive as it is, a
  listing names what is there, and an acknowledged change is made, all of it and nothing else.
\<close>

definition listed :: "drive_entry option \<Rightarrow> bool \<Rightarrow> nat \<Rightarrow> bool" where
  "listed d dir sz \<longleftrightarrow> (if dir then d = Some Folder else d = Some (Content sz))"

definition faithful :: "'w client \<Rightarrow> ('w \<Rightarrow> ustr \<Rightarrow> drive_entry option) \<Rightarrow> bool" where
  "faithful cl drive \<longleftrightarrow>
     (\<forall>w. drive w ROOT_PATH = Some Folder)
     \<and> (\<forall>w p r w'. c_list_dir cl p w = (r, w') \<longrightarrow> drive w' = drive w
          \<and> (\<forall>es. r = Inr es \<longrightarrow>
               (\<forall>e \<in> set es. listed (drive w (join_remote p (ent_name e))) (ent_is_dir e) (ent_size e))))
     \<and> (\<forall>w p off k r w'. c_read_file cl p off k w = (r, w') \<longrightarrow> drive w' = drive w)
     \<and> (\<forall>w p off bs r w' s. c_write_file cl p off bs w = (r, w') \<longrightarrow> drive w p = Some (Content s) \<longrightarrow> bs \<noteq> [] \<longrightarrow>
          (if isl r then drive w' = drive w
           else off + length bs < 2 ^ 64 \<and> drive w' = (drive w)(p \<mapsto> Content (max s (off + length bs)))))
     \<and> (\<forall>w p sz r w' s. c_set_len cl p sz w = (r, w') \<longrightarrow> drive w p = Some (Content s) \<longrightarrow>
          drive w' = (if isl r then drive w else (drive w)(p \<mapsto> Content sz)))
     \<and> (\<forall>w p x r w'. c_create_file cl p x w = (r, w') \<longrightarrow> x \<or> drive w p = None \<longrightarrow>
          drive w' = (if isl r then drive w else (drive w)(p \<mapsto> Content 0)))
     \<and> (\<forall>w p r w'. c_create_dir cl p w = (r, w') \<longrightarrow>
          drive w' = (if isl r then drive w else (drive w)(p \<mapsto> Folder)))
     \<and> (\<forall>w p dir r w'. c_remove cl p dir w = (r, w') \<longrightarrow>
          drive w' = (if isl r then drive w else (drive w)(p := None)))
     \<and> (\<forall>w p q r w' s. c_rename cl p q True w = (r, w') \<longrightarrow> drive w p = Some (Content s) \<longrightarrow>
          drive w' = (if isl r then drive w else (drive w)(p := None, q \<mapsto> Content s)))"

lemma faithful_laws:
  assumes "faithful cl drive"
  shows "c_list_dir cl p w = (r, w') \<Longrightarrow> drive w' = drive w"
    "c_list_dir cl p w = (Inr es, w') \<Longrightarrow>
      \<forall>e \<in> set es. listed (drive w (join_remote p (ent_name e))) (ent_is_dir e) (ent_size e)"
    "c_read_file cl p off k w = (bs, w') \<Longrightarrow> drive w' = drive w"
    "c_write_file cl p off data w = (n, w') \<Longrightarrow> drive w p = Some (Content s) \<Longrightarrow> data \<noteq> [] \<Longrightarrow>
      (if isl n then drive w' = drive w
       else off + length data < 2 ^ 64 \<and> drive w' = (drive w)(p \<mapsto> Content (max s (off + length data))))"
    "c_set_len cl p sz w = (u, w') \<Longrightarrow> drive w p = Some (Content s) \<Longrightarrow>
      drive w' = (if isl u then drive w else (drive w)(p \<mapsto> Content sz))"
    "c_create_file cl p x w = (u, w') \<Longrightarrow> x \<or> drive w p = None \<Longrightarrow>
      drive w' = (if isl u then drive w else (drive w)(p \<mapsto> Content 0))"
    "c_create_dir cl p w = (u, w') \<Longrightarrow> drive w' = (if isl u then drive w else (drive w)(p \<mapsto> Folder))"
    "c_remove cl p dir w = (u, w') \<Longrightarrow> drive w' = (if isl u then drive w else (drive w)(p := None))"
    "c_rename cl p q True w = (u, w') \<Longrightarrow> drive w p = Some (Content s) \<Longrightarrow>
      drive w' = (if isl u then drive w else (drive w)(p := None, q \<mapsto> Content s))"
  using assms unfolding faithful_def by - ((elim conjE, metis)+)

definition coherent :: "(ustr \<Rightarrow> drive_entry option) \<Rightarrow> fs_cache \<Rightarrow> bool" where
  "coherent d c \<longleftrightarrow> (\<forall>i n. id_to_node c i = Some n \<longrightarrow> listed (d (remote_path n)) (node_is_dir n) (node_size n))"

text \<open>
  What the kernel is careful with, at one step: it creates without exclusion only a name that is not
  there, writes at least one byte, and renames files, not directories.
\<close>

fun careful :: "('w \<Rightarrow> ustr \<Rightarrow> drive_entry option) \<Rightarrow> 'w \<times> fs_cache \<Rightarrow> fs_op \<Rightarrow> bool" where
  "careful drive (w, c) (Create i name) \<longleftrightarrow> (\<forall>d. dir_path_of i c = Inr d \<longrightarrow> drive w (join_remote d name) = None)"
| "careful drive (w, c) (Rename i name j to) \<longleftrightarrow>
     (\<forall>d. dir_path_of i c = Inr d \<longrightarrow> drive w (join_remote d name) \<noteq> Some Folder)"
| "careful drive x (Write i off bs) \<longleftrightarrow> bs \<noteq> []"
| "careful drive x e \<longleftrightarrow> True"

fun careful_run :: "'w client \<Rightarrow> ('w \<Rightarrow> ustr \<Rightarrow> drive_entry option) \<Rightarrow> 'w \<times> fs_cache \<Rightarrow> fs_op list \<Rightarrow> bool" where
  "careful_run cl drive x [] \<longleftrightarrow> True"
| "careful_run cl drive x (e # es) \<longleftrightarrow> careful drive x e \<and> careful_run cl drive (fs_step cl x e) es"

definition agrees_with :: "('w \<Rightarrow> ustr \<Rightarrow> drive_entry option) \<Rightarrow> 'w \<times> fs_cache \<Rightarrow> bool" where
  "agrees_with drive x \<longleftrightarrow> cache_ok (snd x) \<and> coherent (drive (fst x)) (snd x)"

lemma coherent_update:
  assumes "cache_ok c" and "coherent d c" and "id_to_node c i = Some n"
    and "listed (d' (remote_path n)) dir sz" and "\<And>q. q \<noteq> remote_path n \<Longrightarrow> d' q = d q"
  shows "coherent d' (update_node i (\<lambda>n. n\<lparr>node_is_dir := dir, node_size := sz\<rparr>) c)"
proof -
  have "remote_path m \<noteq> remote_path n" if "id_to_node c j = Some m" "j \<noteq> i" for j m
    using that assms(1,3) unfolding cache_ok_def by (metis option.inject)
  with assms show ?thesis by (auto simp: coherent_def update_node_def)
qed

lemma coherent_intern:
  assumes "cache_ok c" and "coherent d c" and "listed (d' p) dir sz" and "\<And>q. q \<noteq> p \<Longrightarrow> d' q = d q"
  shows "coherent d' (snd (intern par p dir sz c))"
proof (cases "path_to_id c p")
  case None
  then have "remote_path m \<noteq> p" if "id_to_node c j = Some m" for j m
    using that assms(1) unfolding cache_ok_def by (metis option.distinct(1))
  with assms None show ?thesis by (auto simp: coherent_def intern_def Let_def)
next
  case (Some i)
  then obtain n where n: "id_to_node c i = Some n" "remote_path n = p" using assms(1) unfolding cache_ok_def by blast
  show ?thesis
    using coherent_update [OF assms(1,2) n(1), of d' dir sz] assms(3,4) n(2) Some by (simp add: intern_def)
qed

lemma coherent_forget:
  assumes "cache_ok c" and "coherent d c" and "id_to_node c i = Some n"
    and "\<And>q. q \<noteq> remote_path n \<Longrightarrow> d' q = d q"
  shows "coherent d' (forget i c)"
proof -
  have "remote_path m \<noteq> remote_path n" if "id_to_node c j = Some m" "j \<noteq> i" for j m
    using that assms(1,3) unfolding cache_ok_def by (metis option.inject)
  with assms show ?thesis by (auto simp: coherent_def forget_def)
qed

lemma coherent_set_size:
  assumes "cache_ok c" and "coherent d c" and "id_to_node c i = Some n" and "\<not> node_is_dir n"
    and "d' = d(remote_path n \<mapsto> Content sz)"
  shows "coherent d' (set_size i sz c)"
proof -
  have "set_size i sz c = update_node i (\<lambda>n. n\<lparr>node_is_dir := False, node_size := sz\<rparr>) c"
    using assms(3,4) by (cases n) (simp add: set_size_def update_node_def)
  then show ?thesis using coherent_update [OF assms(1-3), of d' False sz] assms(5) by (simp add: listed_def)
qed

lemma coherent_intern_all:
  assumes "cache_ok c" and "coherent d c"
    and "\<forall>e \<in> set es. listed (d (join_remote dir (ent_name e))) (ent_is_dir e) (ent_size e)"
  shows "cache_ok (snd (intern_all par dir es c)) \<and> coherent d (snd (intern_all par dir es c))"
  using assms
proof (induction es arbitrary: c)
  case Nil
  then show ?case by simp
next
  case (Cons e es)
  let ?c = "snd (intern par (join_remote dir (ent_name e)) (ent_is_dir e) (ent_size e) c)"
  have "cache_ok ?c" using intern_keeps Cons.prems(1) by (simp add: keeps_def)
  moreover have "coherent d ?c" using coherent_intern [OF Cons.prems(1,2)] Cons.prems(3) by simp
  ultimately show ?case using Cons.IH [of ?c] Cons.prems(3) by (simp add: case_prod_unfold Let_def)
qed

lemma list_agrees:
  assumes f: "faithful cl drive" and a: "agrees_with drive x"
  shows "agrees_with drive (snd (list_and_cache cl i x))
    \<and> drive (fst (snd (list_and_cache cl i x))) = drive (fst x)"
proof -
  obtain w c where x: "x = (w, c)" by fastforce
  show ?thesis
  proof (cases "dir_path_of i c")
    case (Inl e)
    with a show ?thesis by (simp add: x list_and_cache_def)
  next
    case (Inr d)
    obtain r w' where l: "c_list_dir cl d w = (r, w')" by fastforce
    have w': "drive w' = drive w" by (rule faithful_laws(1) [OF f l])
    show ?thesis
    proof (cases r)
      case (Inl e)
      with a w' show ?thesis by (simp add: x list_and_cache_def Inr ask_def l agrees_with_def)
    next
      case Entries: (Inr es)
      have "\<forall>e \<in> set es. listed (drive w (join_remote d (ent_name e))) (ent_is_dir e) (ent_size e)"
        using faithful_laws(2) [OF f] l Entries by blast
      with a have "cache_ok (snd (intern_all i d es c)) \<and> coherent (drive w) (snd (intern_all i d es c))"
        by (intro coherent_intern_all) (simp_all add: agrees_with_def x)
      then show ?thesis
        by (simp add: x list_and_cache_def Inr ask_def l Entries agrees_with_def w' case_prod_unfold Let_def)
    qed
  qed
qed

lemma resolve_agrees:
  assumes f: "faithful cl drive" and a: "agrees_with drive (w, c)"
    and r: "resolve_child cl i p (w, c) = (r, w', c')"
  shows "agrees_with drive (w', c') \<and> drive w' = drive w
    \<and> (\<forall>j n. r = Inr (j, n) \<longrightarrow> id_to_node c' j = Some n \<and> remote_path n = p)"
proof -
  have "agrees_with drive (w', c') \<and> drive w' = drive w"
    using r a list_agrees [OF f a, of i]
    by (auto simp: resolve_child_def split: option.splits prod.splits sum.splits)
  moreover have "cached_node p c' = Some (j, n)" if "r = Inr (j, n)" for j n
    using r that by (auto simp: resolve_child_def split: option.splits prod.splits sum.splits)
  ultimately show ?thesis
    by (auto simp: cached_node_def agrees_with_def cache_ok_def bind_eq_Some_conv) (metis option.inject)
qed

lemma create_agrees:
  assumes a: "agrees_with drive (w, c)"
    and call: "\<And>d r w'. dir_path_of i c = Inr d \<Longrightarrow> call (join_remote d name) w = (r, w') \<Longrightarrow>
      drive w' = (if isl r then drive w else (drive w)(join_remote d name \<mapsto> new))"
    and new: "listed (Some new) dir 0"
  shows "agrees_with drive (snd (create_node call dir i name (w, c)))"
proof (cases "dir_path_of i c")
  case (Inl e)
  with a show ?thesis by (simp add: create_node_def)
next
  case (Inr d)
  obtain r w' where r: "call (join_remote d name) w = (r, w')" by fastforce
  note w' = call [OF Inr r]
  show ?thesis
  proof (cases r)
    case (Inl e)
    with a w' show ?thesis by (simp add: create_node_def Inr ask_def r agrees_with_def)
  next
    case Done: (Inr u)
    let ?c = "snd (intern i (join_remote d name) dir 0 c)"
    have "cache_ok ?c" using intern_keeps a by (simp add: agrees_with_def keeps_def)
    moreover have "coherent (drive w') ?c"
      using a w' Done new by (intro coherent_intern [where d = "drive w"]) (simp_all add: agrees_with_def)
    ultimately show ?thesis
      by (simp add: create_node_def Inr ask_def r Done agrees_with_def case_prod_unfold Let_def)
  qed
qed

lemma fs_step_agrees:
  assumes f: "faithful cl drive" and a: "agrees_with drive x" and careful: "careful drive x e"
  shows "agrees_with drive (fs_step cl x e)"
proof -
  obtain w c where x: "x = (w, c)" by fastforce
  note a = a [unfolded x]
  have ok: "cache_ok c" and co: "coherent (drive w) c" using a by (simp_all add: agrees_with_def)
  have ok': "cache_ok (snd (fs_step cl x e))" using fs_step_keeps [of x cl e] ok by (simp add: keeps_def x)
  have content: "drive w (remote_path n) = Some (Content (node_size n))"
    if "id_to_node c i = Some n" "\<not> node_is_dir n" for i n
    using co that by (auto simp: coherent_def listed_def)
  note listing = list_agrees [OF f a]
  show ?thesis
  proof (cases e)
    case (Lookup i name)
    then show ?thesis
      using a listing [of i]
      by (auto simp: x lookup_def case_prod_unfold split: sum.split option.split)
  next
    case (Read i off k)
    from a show ?thesis
      by (auto simp: x Read nfs_read_def ask_def agrees_with_def faithful_laws(3) [OF f] split: sum.split option.split prod.split)
  next
    case (ReadDir i after k)
    then show ?thesis
      using listing [of i] by (auto simp: x readdir_def case_prod_unfold split: sum.split)
  next
    case (SetAttr i sz)
    show ?thesis
    proof (cases "\<exists>n s. id_to_node c i = Some n \<and> \<not> node_is_dir n \<and> sz = Some s")
      case False
      with a show ?thesis
        by (auto simp: x SetAttr setattr_def Let_def split: option.split)
    next
      case True
      then obtain n s where n: "id_to_node c i = Some n" "\<not> node_is_dir n" "sz = Some s" by blast
      obtain r w' where r: "c_set_len cl (remote_path n) s w = (r, w')" by fastforce
      have "drive w' = (if isl r then drive w else (drive w)(remote_path n \<mapsto> Content s))"
        by (rule faithful_laws(5) [OF f r content [OF n(1,2)]])
      then show ?thesis
        using a ok' n r coherent_set_size [OF ok co n(1,2), of "drive w'" s]
        by (cases r) (auto simp: x SetAttr setattr_def Let_def ask_def agrees_with_def)
    qed
  next
    case (Write i off bs)
    show ?thesis
    proof (cases "\<exists>n. id_to_node c i = Some n \<and> \<not> node_is_dir n")
      case False
      with a show ?thesis by (auto simp: x Write nfs_write_def split: option.split)
    next
      case True
      then obtain n where n: "id_to_node c i = Some n" "\<not> node_is_dir n" by blast
      obtain r w' where r: "c_write_file cl (remote_path n) off bs w = (r, w')" by fastforce
      have "bs \<noteq> []" using careful by (simp add: x Write)
      note faithful_laws(4) [OF f r content [OF n] this]
      then show ?thesis
        using a ok' n r coherent_set_size [OF ok co n, of "drive w'"]
        by (cases r) (auto simp: x Write nfs_write_def Let_def ask_def agrees_with_def u64_add_def)
    qed
  next
    case (Create i name)
    have "drive w' = (if isl r then drive w else (drive w)(join_remote d name \<mapsto> Content 0))"
      if "dir_path_of i c = Inr d" "c_create_file cl (join_remote d name) False w = (r, w')" for d r w'
      using faithful_laws(6) [OF f that(2)] careful that(1) by (simp add: x Create)
    from create_agrees [OF a this, where dir = False]
    show ?thesis by (simp add: x Create create_def listed_def)
  next
    case (CreateExclusive i name)
    have "drive w' = (if isl r then drive w else (drive w)(join_remote d name \<mapsto> Content 0))"
      if "dir_path_of i c = Inr d" "c_create_file cl (join_remote d name) True w = (r, w')" for d r w'
      using faithful_laws(6) [OF f that(2)] by simp
    from create_agrees [OF a this, where dir = False]
    show ?thesis
      by (auto simp: x CreateExclusive create_exclusive_def listed_def case_prod_unfold split: sum.split)
  next
    case (MakeDir i name)
    have "drive w' = (if isl r then drive w else (drive w)(join_remote d name \<mapsto> Folder))"
      if "dir_path_of i c = Inr d" "c_create_dir cl (join_remote d name) w = (r, w')" for d r w'
      using faithful_laws(7) [OF f that(2)] .
    from create_agrees [OF a this, where dir = True]
    show ?thesis by (simp add: x MakeDir mkdir_def listed_def)
  next
    case (Remove i name)
    show ?thesis
    proof (cases "dir_path_of i c")
      case (Inl e)
      with a show ?thesis by (simp add: x Remove remove_node_def)
    next
      case (Inr d)
      let ?p = "join_remote d name"
      obtain r w1 c1 where r: "resolve_child cl i ?p (w, c) = (r, w1, c1)" by (metis prod_cases3)
      note res = resolve_agrees [OF f a r]
      show ?thesis
      proof (cases r)
        case (Inl e)
        with res show ?thesis by (simp add: x Remove remove_node_def Inr r)
      next
        case Found: (Inr jn)
        obtain j n where jn: "r = Inr (j, n)" using Found by (cases jn) simp
        obtain q w2 where q: "c_remove cl ?p (node_is_dir n) w1 = (q, w2)" by fastforce
        have "drive w2 = (if isl q then drive w1 else (drive w1)(?p := None))"
          by (rule faithful_laws(8) [OF f q])
        then show ?thesis
          using res ok' jn q coherent_forget [of c1 "drive w1" j n "drive w2"]
          by (cases q) (auto simp: x Remove remove_node_def Inr r ask_def agrees_with_def)
      qed
    qed
  next
    case (Rename i name k to)
    show ?thesis
    proof (cases "\<exists>d to_d. dir_path_of i c = Inr d \<and> dir_path_of k c = Inr to_d")
      case False
      with a show ?thesis by (auto simp: x Rename rename_def split: sum.split)
    next
      case True
      then obtain d to_d where d: "dir_path_of i c = Inr d" "dir_path_of k c = Inr to_d" by blast
      let ?p = "join_remote d name" and ?q = "join_remote to_d to"
      obtain r w1 c1 where r: "resolve_child cl i ?p (w, c) = (r, w1, c1)" by (metis prod_cases3)
      note res = resolve_agrees [OF f a r]
      show ?thesis
      proof (cases r)
        case (Inl e)
        with res show ?thesis by (simp add: x Rename rename_def d r)
      next
        case (Inr jn)
        obtain j n where jn: "r = Inr (j, n)" using Inr by (cases jn) simp
        obtain v w2 where v: "c_rename cl ?p ?q True w1 = (v, w2)" by fastforce
        have n: "id_to_node c1 j = Some n" "remote_path n = ?p" "drive w1 = drive w" using res jn by auto
        then have "drive w1 ?p \<noteq> Some Folder" using careful d by (simp add: x Rename)
        moreover have "coherent (drive w1) c1" using res unfolding agrees_with_def fst_conv snd_conv by blast
        then have "listed (drive w1 ?p) (node_is_dir n) (node_size n)" using n unfolding coherent_def by metis
        ultimately have src: "\<not> node_is_dir n" "drive w1 ?p = Some (Content (node_size n))"
          by (auto simp: listed_def split: if_splits)
        have w2: "drive w2 = (if isl v then drive w1 else (drive w1)(?p := None, ?q \<mapsto> Content (node_size n)))"
          by (rule faithful_laws(9) [OF f v src(2)])
        have c1: "cache_ok c1" "coherent (drive w1) c1" using res unfolding agrees_with_def fst_conv snd_conv by blast+
        have "coherent ((drive w1)(?p := None)) (forget j c1)" using n by (intro coherent_forget [OF c1]) auto
        moreover have "cache_ok (forget j c1)" using forget_keeps c1 by (simp add: keeps_def)
        ultimately have "coherent (drive w2) (snd (intern k ?q False (node_size n) (forget j c1)))" if "\<not> isl v"
          using that w2 by (intro coherent_intern [where d = "(drive w1)(?p := None)"]) (simp_all add: listed_def)
        then show ?thesis
          using res ok' jn v w2 src(1)
          by (cases v) (auto simp: x Rename rename_def d r ask_def agrees_with_def)
      qed
    qed
  qed
qed

lemma fs_run_agrees:
  assumes "faithful cl drive" and "agrees_with drive x" and "careful_run cl drive x es"
  shows "agrees_with drive (foldl (fs_step cl) x es)"
  using assms(2,3)
proof (induction es arbitrary: x)
  case Nil
  then show ?case by simp
next
  case (Cons e es)
  then show ?case using fs_step_agrees [OF assms(1)] by simp
qed

text \<open>
  C10. What the mounted drive shows is what the client's drive holds: with a client that does what it
  acknowledges, after any operations in which nobody else changes the drive, the kernel creates over
  no existing file and renames no directory, failed operations included, every known handle still
  designates something on the drive, and its attributes, answered without asking the client, are the
  kind and the size the drive has for it.
\<close>

theorem drive_attributes_true:
  assumes "faithful cl drive" and "careful_run cl drive (w, cache_new) es"
    and "foldl (fs_step cl) (w, cache_new) es = (w', c')" and "id_to_node c' i = Some n"
  shows "getattr i c' = Inr (case drive w' (remote_path n) of
        Some (Content s) \<Rightarrow> attr i False s | _ \<Rightarrow> attr i True 0)
    \<and> drive w' (remote_path n) \<noteq> None"
proof -
  have "drive w ROOT_PATH = Some Folder" using assms(1) by (simp add: faithful_def)
  then have "agrees_with drive (w, cache_new)"
    using cache_new_ok by (simp add: agrees_with_def coherent_def) (simp add: cache_new_def listed_def)
  from fs_run_agrees [OF assms(1) this assms(2)]
  have "listed (drive w' (remote_path n)) (node_is_dir n) (node_size n)"
    using assms(3,4) by (auto simp: agrees_with_def coherent_def)
  with assms(4) show ?thesis
    by (auto simp: getattr_def listed_def attr_def split: if_splits)
qed

section \<open>A drive in memory\<close>

definition mem_drive :: "(ustr \<rightharpoonup> drive_entry) \<Rightarrow> ustr \<Rightarrow> drive_entry option" where
  "mem_drive w p = (if p = ROOT_PATH then Some Folder else w p)"

definition mem_client :: "(ustr \<rightharpoonup> drive_entry) client" where
  "mem_client =
     \<lparr>c_list_dir = (\<lambda>p w. (Inl None, w)),
      c_read_file = (\<lambda>p off k w. (Inl None, w)),
      c_write_file = (\<lambda>p off bs w. case mem_drive w p of
         Some (Content s) \<Rightarrow>
           if off + length bs < 2 ^ 63 then (Inr (length bs), w(p \<mapsto> Content (max s (off + length bs))))
           else (Inl None, w)
       | _ \<Rightarrow> (Inl (Some NO_SUCH_FILE), w)),
      c_set_len = (\<lambda>p sz w. case mem_drive w p of
         Some (Content s) \<Rightarrow> (Inr (), w(p \<mapsto> Content sz)) | _ \<Rightarrow> (Inl (Some NO_SUCH_FILE), w)),
      c_create_file = (\<lambda>p x w. case mem_drive w p of
         None \<Rightarrow> (Inr (), w(p \<mapsto> Content 0)) | Some _ \<Rightarrow> (Inl (Some OBJECT_NAME_COLLISION), w)),
      c_create_dir = (\<lambda>p w. case mem_drive w p of
         None \<Rightarrow> (Inr (), w(p \<mapsto> Folder)) | Some _ \<Rightarrow> (Inl (Some OBJECT_NAME_COLLISION), w)),
      c_remove = (\<lambda>p dir w. if p = ROOT_PATH then (Inl (Some ACCESS_DENIED), w) else (Inr (), w(p := None))),
      c_rename = (\<lambda>p q x w. case mem_drive w p of
         Some (Content s) \<Rightarrow>
           if q = ROOT_PATH then (Inl (Some ACCESS_DENIED), w) else (Inr (), w(p := None, q \<mapsto> Content s))
       | _ \<Rightarrow> (Inl (Some NO_SUCH_FILE), w))\<rparr>"

lemma mem_faithful: "faithful mem_client mem_drive"
  unfolding faithful_def mem_client_def
  by (auto simp: mem_drive_def fun_eq_iff split: option.splits drive_entry.splits if_splits)

theorem drive_handles_stable_witness:
  "\<exists>w1 c1 w2 c2 n. foldl (fs_step mem_client) (Map.empty, cache_new) [Create 1 [65], Create 1 [66]] = (w1, c1)
    \<and> foldl (fs_step mem_client) (w1, c1) [Remove 1 [65], Create 1 [65]] = (w2, c2)
    \<and> id_to_node c2 3 = Some n \<and> path_to_id c2 (remote_path n) = Some 3"
proof -
  obtain w1 c1 where 1: "foldl (fs_step mem_client) (Map.empty, cache_new) [Create 1 [65], Create 1 [66]] = (w1, c1)"
    by fastforce
  obtain w2 c2 where 2: "foldl (fs_step mem_client) (w1, c1) [Remove 1 [65], Create 1 [65]] = (w2, c2)" by fastforce
  have "foldl (fs_step mem_client) (Map.empty, cache_new)
      ([Create 1 [65], Create 1 [66]] @ [Remove 1 [65], Create 1 [65]]) = (w2, c2)"
    unfolding foldl_append 1 by (rule 2)
  then have "\<exists>n. id_to_node c2 3 = Some n"
    by (auto simp: create_def create_node_def remove_node_def resolve_child_def cached_node_def forget_def ask_def dir_path_of_def cache_new_def ROOT_ID_def
        ROOT_PATH_def join_remote_def mem_client_def mem_drive_def intern_def Let_def)
  with drive_handles_stable [OF 1 2] 1 2 show ?thesis by blast
qed

theorem drive_attributes_true_witness:
  "getattr 2 (snd (foldl (fs_step mem_client) (Map.empty, cache_new) [Create 1 [65], Write 2 3 [7, 8]]))
    = Inr (attr 2 False 5)"
proof -
  let ?es = "[Create 1 [65], Write 2 3 [7, 8]]"
  let ?f = "[92, 65] :: ustr"
  define c where "c = snd (foldl (fs_step mem_client) (Map.empty, cache_new) ?es)"
  have run: "foldl (fs_step mem_client) (Map.empty, cache_new) ?es = ([?f \<mapsto> Content 5], c)"
    and c: "id_to_node c 2 = Some \<lparr>remote_path = ?f, node_is_dir = False, node_size = 5, node_parent = 1\<rparr>"
    by (simp_all add: c_def create_def create_node_def nfs_write_def ask_def dir_path_of_def cache_new_def ROOT_ID_def
        ROOT_PATH_def join_remote_def mem_client_def mem_drive_def intern_def Let_def set_size_def update_node_def
        u64_add_def)
  have "careful_run mem_client mem_drive (Map.empty, cache_new) ?es"
    by (simp add: dir_path_of_def cache_new_def ROOT_ID_def ROOT_PATH_def join_remote_def mem_drive_def)
  from drive_attributes_true [OF mem_faithful this run c]
  show ?thesis unfolding c_def [symmetric] by (simp add: mem_drive_def ROOT_PATH_def)
qed

section \<open>Where it does not\<close>

text \<open>
  A create without exclusion opens an existing file as it is (\<open>FILE_OPEN_IF\<close>), but the cache takes
  it for empty: reads end at once.
\<close>

lemma create_existing_hides_content:
  assumes "path_to_id c p = None" and "dir_path_of i c = Inr d" and "p = join_remote d name"
    and "c_create_file cl p False w = (Inr (), w')" and "create cl i name (w, c) = (r, w', c')"
  shows "\<exists>j. r = Inr (j, attr j False 0) \<and> fst (nfs_read cl j 0 k (w', c')) = Inr ([], True)"
  using assms by (auto simp: create_def create_node_def ask_def intern_def Let_def nfs_read_def)

text \<open>A write the client makes only in part is reported as made: the count it answers is not read.\<close>

lemma short_write_accepted:
  assumes "id_to_node c i = Some n" and "\<not> node_is_dir n"
    and "c_write_file cl (remote_path n) off bs w = (Inr 0, w')" and "off + length bs < 2 ^ 64"
  shows "fst (nfs_write cl i off bs (w, c)) = Inr (attr i False (max (node_size n) (off + length bs)))"
  using assms by (simp add: nfs_write_def ask_def Let_def u64_add_def)

text \<open>The files below a renamed directory keep their old paths in the cache.\<close>

lemma renamed_directory_stale:
  assumes "cached_node (join_remote d name) c = Some (j, n)" and "node_is_dir n"
    and "dir_path_of i c = Inr d" and "dir_path_of k c = Inr e"
    and "c_rename cl (join_remote d name) (join_remote e to) True w = (Inr (), w')"
    and "id_to_node c m = Some child" and "m \<noteq> j" and "m \<noteq> next_id c"
    and "path_to_id c (join_remote e to) = None" and "remote_path child = join_remote (join_remote d name) x"
  shows "id_to_node (snd (snd (rename cl i name k to (w, c)))) m = Some child"
  using assms
  by (auto simp: rename_def resolve_child_def ask_def intern_def forget_def Let_def split: option.split)

end
