(* ===== verification/Decimal.thy ===== *)
theory Decimal
  imports Rust_Std
begin

text \<open>
  Numbers in decimal notation, as \<open>format!\<close> writes them, and that \<open>str::parse\<close> reads them back.
\<close>

fun decimal :: "nat \<Rightarrow> ustr" where
  "decimal n = (if n < 10 then [48 + n] else decimal (n div 10) @ [48 + n mod 10])"

declare decimal.simps [simp del]

definition decimal_int :: "int \<Rightarrow> ustr" where
  "decimal_int n = (if n < 0 then 45 # decimal (nat (- n)) else decimal (nat n))"

lemma decimal_digits: "decimal n \<noteq> [] \<and> list_all is_ascii_digit (decimal n)"
proof (induction n rule: decimal.induct)
  case (1 n)
  have "is_ascii_digit (48 + m)" if "m < 10" for m using that by (simp add: is_ascii_digit_def)
  with 1 show ?case by (subst (1 2) decimal.simps) simp
qed

lemma digits_value_snoc: "digits_value (ds @ [c]) = 10 * digits_value ds + (c - 48)"
  by (simp add: digits_value_def)

lemma digits_value_decimal: "digits_value (decimal n) = n"
proof (induction n rule: decimal.induct)
  case (1 n)
  show ?case
  proof (cases "n < 10")
    case True
    then show ?thesis by (subst decimal.simps) (simp add: digits_value_def)
  next
    case False
    then have "decimal n = decimal (n div 10) @ [48 + n mod 10]" by (subst decimal.simps) simp
    with 1 [OF False] show ?thesis by (simp add: digits_value_snoc)
  qed
qed

lemma parse_digits_decimal: "parse_digits (decimal n) = Some n"
  using decimal_digits [of n] by (simp add: parse_digits_def digits_value_decimal)

lemma hd_decimal: "is_ascii_digit (hd (decimal n))"
  using decimal_digits [of n] by (cases "decimal n") auto

lemma parse_i32_decimal: "n < 2 ^ 31 \<Longrightarrow> parse_i32 (decimal n) = Some (int n)"
  using hd_decimal [of n] by (auto simp: parse_i32_def parse_uint_def parse_digits_decimal is_ascii_digit_def)

lemma first_field_decimal: "first_field 45 (decimal n @ 45 # rest) = decimal n"
proof -
  have "\<forall>c \<in> set (decimal n). c \<noteq> 45"
    using decimal_digits [of n] by (auto simp: list_all_iff is_ascii_digit_def)
  then show ?thesis by (simp add: first_field_def takeWhile_append2)
qed

lemma set_decimal: "c \<in> set (decimal n) \<Longrightarrow> 48 \<le> c \<and> c \<le> 57"
  using decimal_digits [of n] by (simp add: list_all_iff is_ascii_digit_def)

lemma set_decimal_int: "c \<in> set (decimal_int n) \<Longrightarrow> c = 45 \<or> 48 \<le> c \<and> c \<le> 57"
  by (auto simp: decimal_int_def dest: set_decimal split: if_splits)

end
