(* ===== verification/Drive_Mount.thy ===== *)
theory Drive_Mount
  imports Decimal
begin

text \<open>
  The life of a redirected device (\<open>src/src/rdpdr/mod.rs\<close> and the second half of
  \<open>surface.rs\<close>): which announced devices are mounted or bridged, where a drive is mounted, the
  registry of mounts that a signal unmounts, and the sweep of what a dead process left
  (\<open>src/src/reaper.rs\<close>). The system's answers (does a path exist, does a call succeed, is a
  process alive) are parameters; the calls made are the outputs.
\<close>

section \<open>Names of mountpoints\<close>

definition trim_end_matches :: "nat \<Rightarrow> ustr \<Rightarrow> ustr" where
  "trim_end_matches ch s = rev (dropWhile (\<lambda>c. c = ch) (rev s))"

definition label_char :: "nat \<Rightarrow> nat" where
  "label_char c = (if c = 47 \<or> c = 92 \<or> c = 58 \<or> is_control c then 95 else c)"

definition sanitize_label :: "ustr \<Rightarrow> ustr" where
  "sanitize_label label =
     (let cleaned = map label_char (trim_end_matches 58 (trim label))
      in if cleaned = [] then lit ''drive'' else cleaned)"

definition suffixed :: "ustr \<Rightarrow> nat \<Rightarrow> ustr" where "suffixed label n = label @ 45 # decimal n"

text \<open>The loop that looks for a free name, \<open>n\<close> the next suffix.\<close>

function free_name :: "(ustr \<Rightarrow> bool) \<Rightarrow> ustr \<Rightarrow> ustr \<Rightarrow> nat \<Rightarrow> ustr" where
  "free_name occupied label candidate n =
     (if occupied candidate \<and> n < 50 then free_name occupied label (suffixed label n) (n + 1) else candidate)"
  by pat_completeness auto
termination by (relation "measure (\<lambda>(e, l, c, n). 50 - n)") auto

declare free_name.simps [simp del]

text \<open>
  \<open>prepare_mountpoint\<close>: below \<open>/Volumes\<close> if the directory can be made, otherwise in the temporary
  directory of this process. \<open>can_make\<close> and \<open>can_make_all\<close> say whether the directory is made.
\<close>

datatype mountpoint = Volume ustr | Temp ustr

definition prepare_mountpoint ::
    "(ustr \<Rightarrow> bool) \<Rightarrow> (ustr \<Rightarrow> bool) \<Rightarrow> (ustr \<Rightarrow> bool) \<Rightarrow> ustr \<Rightarrow> mountpoint option"
where
  "prepare_mountpoint occupied can_make can_make_all label =
     (let candidate = free_name occupied label label 1
      in if can_make candidate then Some (Volume candidate)
         else if can_make_all label then Some (Temp label) else None)"

section \<open>The registry of mounts\<close>

definition register_mount :: "mountpoint \<Rightarrow> mountpoint list \<Rightarrow> mountpoint list" where
  "register_mount mp mounts = mounts @ [mp]"

definition unregister_mount :: "mountpoint \<Rightarrow> mountpoint list \<Rightarrow> mountpoint list" where
  "unregister_mount mp mounts = filter (\<lambda>p. p \<noteq> mp) mounts"

datatype mount_call =
    Umount mountpoint
  | RemoveMountpoint mountpoint
  | PruneParent mountpoint

definition unmount_at :: "mountpoint \<Rightarrow> mount_call list" where
  "unmount_at mp = [Umount mp, RemoveMountpoint mp, PruneParent mp]"

definition mounts_shutdown_cleanup :: "mountpoint list \<Rightarrow> mount_call list \<times> mountpoint list" where
  "mounts_shutdown_cleanup mounts = (concat (map unmount_at mounts), [])"

section \<open>Announced devices\<close>

datatype device_type = Filesystem | Smartcard | OtherDevice

record announced =
  dev_id :: nat
  dev_type :: device_type
  dev_name :: ustr

record rdpdr_handler =
  has_handle :: bool
  enable_drive :: bool
  enable_smartcard :: bool
  surfaces :: "nat set"
  smartcard :: "nat option"

definition rdpdr_build_backend :: "bool \<Rightarrow> bool \<Rightarrow> rdpdr_handler" where
  "rdpdr_build_backend drive smart =
     \<lparr>has_handle = False, enable_drive = drive, enable_smartcard = smart, surfaces = {}, smartcard = None\<rparr>"

definition rdpdr_set_handle :: "rdpdr_handler \<Rightarrow> rdpdr_handler" where
  "rdpdr_set_handle h = h\<lparr>has_handle := True\<rparr>"

datatype device_call = StartSurface nat ustr | StartBridge nat

fun mount_new :: "announced list \<Rightarrow> nat set \<Rightarrow> device_call list \<times> nat set" where
  "mount_new [] ids = ([], ids)"
| "mount_new (d # ds) ids =
     (if dev_type d = Filesystem \<and> dev_id d \<notin> ids
      then case mount_new ds (insert (dev_id d) ids) of
             (calls, ids) \<Rightarrow> (StartSurface (dev_id d) (sanitize_label (dev_name d)) # calls, ids)
      else mount_new ds ids)"

definition on_devices_announced :: "announced list \<Rightarrow> rdpdr_handler \<Rightarrow> device_call list \<times> rdpdr_handler" where
  "on_devices_announced devices h =
     (if \<not> has_handle h then ([], h)
      else
        let (mounts, ids) = (if enable_drive h then mount_new devices (surfaces h) else ([], surfaces h));
            h = h\<lparr>surfaces := ids\<rparr>
        in if enable_smartcard h \<and> smartcard h = None then
             (case List.find (\<lambda>d. dev_type d = Smartcard) devices of
                Some d \<Rightarrow> (mounts @ [StartBridge (dev_id d)], h\<lparr>smartcard := Some (dev_id d)\<rparr>)
              | None \<Rightarrow> (mounts, h))
           else (mounts, h))"

section \<open>What a dead process left\<close>

definition process_is_alive :: "(int \<Rightarrow> bool) \<Rightarrow> int \<Rightarrow> bool" where
  "process_is_alive no_such_process pid \<longleftrightarrow> pid \<le> 0 \<or> \<not> no_such_process pid"

definition pid_from_tagged :: "ustr \<Rightarrow> ustr \<Rightarrow> bool \<Rightarrow> int option" where
  "pid_from_tagged name tag pid_is_last =
     Option.bind (strip_prefix tag name) (\<lambda>rest.
       Option.bind (parse_i32 (if pid_is_last then rest else first_field 45 rest))
         (\<lambda>p. if 0 < p then Some p else None))"

text \<open>The entries of the base directory whose action is run; a name that is not Unicode is \<open>None\<close>.\<close>

fun stale_entries :: "ustr \<Rightarrow> bool \<Rightarrow> int \<Rightarrow> (int \<Rightarrow> bool) \<Rightarrow> ustr option list \<Rightarrow> ustr list" where
  "stale_entries tag pid_is_last self_pid is_alive [] = []"
| "stale_entries tag pid_is_last self_pid is_alive (None # es) = stale_entries tag pid_is_last self_pid is_alive es"
| "stale_entries tag pid_is_last self_pid is_alive (Some name # es) =
     (let rest = stale_entries tag pid_is_last self_pid is_alive es
      in case pid_from_tagged name tag pid_is_last of
           None \<Rightarrow> rest
         | Some pid \<Rightarrow> if pid = self_pid \<or> is_alive pid then rest else name # rest)"

definition for_each_stale ::
    "ustr option list option \<Rightarrow> ustr \<Rightarrow> bool \<Rightarrow> int \<Rightarrow> (int \<Rightarrow> bool) \<Rightarrow> ustr list"
where
  "for_each_stale entries tag pid_is_last self_pid is_alive =
     (case entries of None \<Rightarrow> [] | Some es \<Rightarrow> stale_entries tag pid_is_last self_pid is_alive es)"

definition RDPDR_TAG :: ustr where "RDPDR_TAG = lit ''macrdp-rdpdr-''"
definition PASTE_TAG :: ustr where "PASTE_TAG = lit ''macrdp-paste-''"
definition LAZY_PASTE_TAG :: ustr where "LAZY_PASTE_TAG = lit ''macrdp-lazy-paste-''"

text \<open>The three sweeps of a start.\<close>

definition reap_all_stale :: "ustr option list option \<Rightarrow> int \<Rightarrow> (int \<Rightarrow> bool) \<Rightarrow> ustr list" where
  "reap_all_stale entries self_pid is_alive =
     for_each_stale entries RDPDR_TAG True self_pid is_alive
     @ for_each_stale entries PASTE_TAG False self_pid is_alive
     @ for_each_stale entries LAZY_PASTE_TAG False self_pid is_alive"

text \<open>The names the temporary directories are given: \<open>nanos\<close> is the clock.\<close>

definition rdpdr_dir_name :: "nat \<Rightarrow> ustr" where "rdpdr_dir_name pid = RDPDR_TAG @ decimal pid"

definition paste_dir_name :: "ustr \<Rightarrow> nat \<Rightarrow> nat \<Rightarrow> ustr" where
  "paste_dir_name tag pid nanos = tag @ decimal pid @ 45 # decimal nanos"

end
