(* ===== verification/Drive_Mount_Props.thy ===== *)
theory Drive_Mount_Props
  imports Drive_Mount
begin

text \<open>
  The sweep of a start takes exactly the directories of dead processes, every redirected drive is
  mounted once, and a label is made into one component of a path, with one exception.
\<close>

section \<open>The sweep\<close>

lemma strip_tag: "strip_prefix tag (tag @ rest) = Some rest"
  by (simp add: strip_prefix_def)

lemma pid_of_rdpdr: "0 < pid \<Longrightarrow> pid < 2 ^ 31 \<Longrightarrow> pid_from_tagged (rdpdr_dir_name pid) RDPDR_TAG True = Some (int pid)"
  by (simp add: pid_from_tagged_def rdpdr_dir_name_def strip_tag parse_i32_decimal)

lemma pid_of_paste:
  "0 < pid \<Longrightarrow> pid < 2 ^ 31 \<Longrightarrow> pid_from_tagged (paste_dir_name tag pid nanos) tag False = Some (int pid)"
  by (simp add: pid_from_tagged_def paste_dir_name_def strip_tag first_field_decimal parse_i32_decimal)

text \<open>A name of one kind is not taken for one of another.\<close>

lemmas tag_defs = strip_prefix_def RDPDR_TAG_def PASTE_TAG_def LAZY_PASTE_TAG_def lit_def

lemma other_tags:
  "pid_from_tagged (RDPDR_TAG @ s) PASTE_TAG l = None" "pid_from_tagged (RDPDR_TAG @ s) LAZY_PASTE_TAG l = None"
  "pid_from_tagged (PASTE_TAG @ s) RDPDR_TAG l = None" "pid_from_tagged (PASTE_TAG @ s) LAZY_PASTE_TAG l = None"
  "pid_from_tagged (LAZY_PASTE_TAG @ s) RDPDR_TAG l = None" "pid_from_tagged (LAZY_PASTE_TAG @ s) PASTE_TAG l = None"
  by (simp_all add: pid_from_tagged_def tag_defs)

lemma mem_for_each_stale:
  "name \<in> set (for_each_stale (Some es) tag lst self alive) \<longleftrightarrow>
    Some name \<in> set es \<and> (\<exists>pid. pid_from_tagged name tag lst = Some pid \<and> pid \<noteq> self \<and> \<not> alive pid)"
proof -
  have "name \<in> set (stale_entries tag lst self alive es) \<longleftrightarrow>
    Some name \<in> set es \<and> (\<exists>pid. pid_from_tagged name tag lst = Some pid \<and> pid \<noteq> self \<and> \<not> alive pid)"
    by (induction tag lst self alive es rule: stale_entries.induct) (auto simp: Let_def split: option.split)
  then show ?thesis by (simp add: for_each_stale_def)
qed

lemma pid_positive: "pid_from_tagged name tag l = Some pid \<Longrightarrow> 0 < pid"
  by (auto simp: pid_from_tagged_def bind_eq_Some_conv split: if_splits)

text \<open>
  The sweep of a start removes what dead processes left and nothing else: of the directories
  this program makes, for mounts and for both kinds of paste, the ones removed are those whose
  process is dead and is not this one, each kind told from the others by its name; and whatever else
  lies in the temporary directory, a name is only touched if it carries the number of such a process.
\<close>

theorem reap_exact:
  assumes "0 < pid" and "pid < 2 ^ 31"
    and "name \<in> {rdpdr_dir_name pid, paste_dir_name PASTE_TAG pid nanos, paste_dir_name LAZY_PASTE_TAG pid nanos}"
  shows "(name \<in> set (reap_all_stale (Some es) self alive)
      \<longleftrightarrow> Some name \<in> set es \<and> int pid \<noteq> self \<and> \<not> alive (int pid))
    \<and> (\<forall>other \<in> set (reap_all_stale (Some es) self alive). Some other \<in> set es \<and>
        (\<exists>p tag l. pid_from_tagged other tag l = Some p \<and> 0 < p \<and> p \<noteq> self \<and> \<not> alive p))"
proof
  show "name \<in> set (reap_all_stale (Some es) self alive)
      \<longleftrightarrow> Some name \<in> set es \<and> int pid \<noteq> self \<and> \<not> alive (int pid)"
    using assms pid_of_rdpdr [OF assms(1,2)] pid_of_paste [OF assms(1,2)]
    by (auto simp: reap_all_stale_def mem_for_each_stale)
      (auto simp: rdpdr_dir_name_def paste_dir_name_def other_tags)
  show "\<forall>other \<in> set (reap_all_stale (Some es) self alive). Some other \<in> set es \<and>
        (\<exists>p tag l. pid_from_tagged other tag l = Some p \<and> 0 < p \<and> p \<noteq> self \<and> \<not> alive p)"
    using pid_positive by (auto simp: reap_all_stale_def mem_for_each_stale) blast+
qed

theorem reap_exact_witness:
  "paste_dir_name PASTE_TAG 41 7 \<in> set (reap_all_stale (Some [None, Some (paste_dir_name PASTE_TAG 41 7), Some [66]]) 42 (\<lambda>p. p = 7))"
  using reap_exact [of 41 "paste_dir_name PASTE_TAG 41 7" 7 "[None, Some (paste_dir_name PASTE_TAG 41 7), Some [66]]" 42 "\<lambda>p. p = 7"]
  by simp

section \<open>Mounts\<close>

lemma mount_new_calls:
  assumes "mount_new ds ids = (calls, ids')"
  shows "ids' = ids \<union> {dev_id d | d. d \<in> set ds \<and> dev_type d = Filesystem}
    \<and> (\<exists>started. calls = map (\<lambda>(i, l). StartSurface i l) started \<and> distinct (map fst started)
        \<and> set (map fst started) = ids' - ids)"
  using assms
proof (induction ds arbitrary: ids calls)
  case Nil
  then show ?case by auto
next
  case (Cons d ds)
  show ?case
  proof (cases "dev_type d = Filesystem \<and> dev_id d \<notin> ids")
    case False
    with Cons show ?thesis by auto
  next
    case True
    obtain rest where rest: "mount_new ds (insert (dev_id d) ids) = (rest, ids')"
      "calls = StartSurface (dev_id d) (sanitize_label (dev_name d)) # rest"
      using Cons.prems True by (auto split: prod.splits)
    from Cons.IH [OF rest(1)] obtain started where st: "rest = map (\<lambda>(i, l). StartSurface i l) started"
      "distinct (map fst started)" "set (map fst started) = ids' - insert (dev_id d) ids"
      "ids' = insert (dev_id d) ids \<union> {dev_id d | d. d \<in> set ds \<and> dev_type d = Filesystem}" by blast
    have "calls = map (\<lambda>(i, l). StartSurface i l) ((dev_id d, sanitize_label (dev_name d)) # started)"
      using rest(2) st(1) by simp
    moreover have "distinct (map fst ((dev_id d, sanitize_label (dev_name d)) # started))" using st(2,3) by auto
    moreover have "set (map fst ((dev_id d, sanitize_label (dev_name d)) # started)) = ids' - ids"
      using st(3,4) True by auto
    moreover have "ids' = ids \<union> {dev_id d' | d'. d' \<in> set (d # ds) \<and> dev_type d' = Filesystem}"
      using st(4) True by auto
    ultimately show ?thesis by blast
  qed
qed

section \<open>Labels\<close>

lemma label_char_safe: "label_char c \<notin> {47, 92, 58} \<and> \<not> is_control (label_char c)"
  by (auto simp: label_char_def is_control_def)

lemma sanitize_label_safe:
  "sanitize_label l \<noteq> [] \<and> (\<forall>c \<in> set (sanitize_label l). c \<notin> {47, 92, 58} \<and> \<not> is_control c)"
  using label_char_safe by (auto simp: sanitize_label_def Let_def lit_def is_control_def)

text \<open>
  The exception: a label of two dots passes, so the mountpoint of the fallback is the parent of the
  directory of this process, the temporary directory itself.
\<close>

lemma dot_label_passes:
  "prepare_mountpoint (\<lambda>_. False) (\<lambda>_. False) (\<lambda>_. True) (sanitize_label (lit ''..'')) = Some (Temp (lit ''..''))"
proof -
  have "sanitize_label (lit ''..'') = lit ''..''"
    by (simp add: sanitize_label_def trim_end_matches_def trim_def lit_def is_whitespace_def label_char_def is_control_def)
  then show ?thesis by (simp add: prepare_mountpoint_def)
qed

end
