(* ===== verification/Card_Bridge.thy ===== *)
theory Card_Bridge
  imports Bytes
begin

text \<open>
  The smart-card bridge of \<open>src/src/rdpdr/smartcard.rs\<close>: the session of one connection of the
  reader driver, with its loopback protocol, and the calls it makes to the client's reader. The
  client is a parameter; the calls made, with what came of them, are recorded in order.
\<close>

section \<open>Calls to the client\<close>

type_synonym card_handle = "nat \<times> nat"

text \<open>A handle of a card: the context it belongs to and its number.\<close>

record reader_state =
  rs_present :: bool
  rs_atr_length :: nat
  rs_atr :: bytes

record 'w card_client =
  sc_establish :: "'w \<Rightarrow> nat option \<times> 'w"
  sc_list_readers :: "nat \<Rightarrow> 'w \<Rightarrow> ustr list option \<times> 'w"
  sc_status_change :: "nat \<Rightarrow> ustr \<Rightarrow> 'w \<Rightarrow> reader_state list option \<times> 'w"
  sc_connect :: "nat \<Rightarrow> ustr \<Rightarrow> 'w \<Rightarrow> (nat \<times> nat) option \<times> 'w"
  sc_transmit :: "card_handle \<Rightarrow> nat \<Rightarrow> bytes \<Rightarrow> nat \<Rightarrow> 'w \<Rightarrow> bytes option \<times> 'w"
  sc_disconnect :: "card_handle \<Rightarrow> 'w \<Rightarrow> bool \<times> 'w"
  sc_release :: "nat \<Rightarrow> 'w \<Rightarrow> bool \<times> 'w"

datatype card_call =
    Establish "nat option"
  | ListReaders nat
  | StatusChange nat ustr
  | Connect nat ustr "card_handle option"
  | Transmit card_handle bytes nat
  | Disconnect card_handle
  | Release nat

section \<open>The session\<close>

definition DEFAULT_PORT :: nat where "DEFAULT_PORT = 40242"

definition card_port :: "env \<Rightarrow> nat" where
  "card_port e = (case Option.bind (e ''MACRDP_SCARD_PORT'') (parse_uint 65535) of Some p \<Rightarrow> p | None \<Rightarrow> DEFAULT_PORT)"

definition CMD_POWER_ON :: u8 where "CMD_POWER_ON = 1"
definition CMD_POWER_OFF :: u8 where "CMD_POWER_OFF = 2"
definition CMD_TRANSMIT :: u8 where "CMD_TRANSMIT = 3"
definition CMD_PRESENCE :: u8 where "CMD_PRESENCE = 4"

definition MAX_APDU_LEN :: nat where "MAX_APDU_LEN = 65544"

definition PRESENCE_TTL :: duration where "PRESENCE_TTL = from_millis 300"

record card_session =
  card_context :: "nat option"
  card_reader :: "ustr option"
  card_card :: "(card_handle \<times> nat) option"
  presence_cache :: "(instant \<times> bool) option"

definition session_new :: card_session where
  "session_new = \<lparr>card_context = None, card_reader = None, card_card = None, presence_cache = None\<rparr>"

text \<open>The state a session works on: itself, the client and the calls made so far.\<close>

type_synonym 'w bridge = "card_session \<times> 'w \<times> card_call list"

definition ensure_session :: "'w card_client \<Rightarrow> 'w bridge \<Rightarrow> (nat \<times> ustr) option \<times> 'w bridge" where
  "ensure_session cl = (\<lambda>(s, w, log).
     let (c, s, w, log) =
           (case card_context s of
              Some c \<Rightarrow> (Some c, s, w, log)
            | None \<Rightarrow>
                (case sc_establish cl w of
                   (r, w) \<Rightarrow> (r, s\<lparr>card_context := r\<rparr>, w, log @ [Establish r])))
     in case c of
          None \<Rightarrow> (None, s, w, log)
        | Some c \<Rightarrow>
            (case card_reader s of
               Some rd \<Rightarrow> (Some (c, rd), s, w, log)
             | None \<Rightarrow>
                 (case sc_list_readers cl c w of
                    (Some (rd # rds), w) \<Rightarrow> (Some (c, rd), s\<lparr>card_reader := Some rd\<rparr>, w, log @ [ListReaders c])
                  | (_, w) \<Rightarrow> (None, s, w, log @ [ListReaders c]))))"

text \<open>The part of an operation after the session is there; without one it fails.\<close>

definition in_session ::
    "'w card_client \<Rightarrow> (nat \<Rightarrow> ustr \<Rightarrow> 'w bridge \<Rightarrow> 'a option \<times> 'w bridge) \<Rightarrow> 'w bridge \<Rightarrow> 'a option \<times> 'w bridge"
where
  "in_session cl k x =
     (case ensure_session cl x of (None, x) \<Rightarrow> (None, x) | (Some (c, rd), x) \<Rightarrow> k c rd x)"

definition status_change :: "'w card_client \<Rightarrow> nat \<Rightarrow> ustr \<Rightarrow> 'w bridge \<Rightarrow> reader_state list option \<times> 'w bridge" where
  "status_change cl c rd = (\<lambda>(s, w, log).
     case sc_status_change cl c rd w of (r, w) \<Rightarrow> (r, s, w, log @ [StatusChange c rd]))"

definition query_presence :: "'w card_client \<Rightarrow> instant \<Rightarrow> 'w bridge \<Rightarrow> bool option \<times> 'w bridge" where
  "query_presence cl now = in_session cl (\<lambda>c rd x.
     case status_change cl c rd x of
       (None, x) \<Rightarrow> (None, x)
     | (Some states, s, w, log) \<Rightarrow>
         let present = list_ex rs_present states
         in (Some present, s\<lparr>presence_cache := Some (now, present)\<rparr>, w, log))"

definition presence :: "'w card_client \<Rightarrow> instant \<Rightarrow> 'w bridge \<Rightarrow> bool option \<times> 'w bridge" where
  "presence cl now = (\<lambda>(s, w, log).
     case presence_cache s of
       Some (observed, present) \<Rightarrow>
         if saturating_duration_since now observed < PRESENCE_TTL then (Some present, s, w, log)
         else query_presence cl now (s, w, log)
     | None \<Rightarrow> query_presence cl now (s, w, log))"

text \<open>The handle of the answer has no context: the session's is filled in.\<close>

definition connect_card :: "'w card_client \<Rightarrow> nat \<Rightarrow> ustr \<Rightarrow> 'w bridge \<Rightarrow> bool \<times> 'w bridge" where
  "connect_card cl c rd = (\<lambda>(s, w, log).
     case card_card s of
       Some _ \<Rightarrow> (True, s, w, log)
     | None \<Rightarrow>
         (case sc_connect cl c rd w of
            (None, w) \<Rightarrow> (False, s, w, log @ [Connect c rd None])
          | (Some (h, proto), w) \<Rightarrow>
              (True, s\<lparr>card_card := Some ((c, h), proto)\<rparr>, w, log @ [Connect c rd (Some (c, h))])))"

definition atr_of :: "reader_state list \<Rightarrow> bytes option" where
  "atr_of states =
     map_option (\<lambda>s. take (min (rs_atr_length s) (length (rs_atr s))) (rs_atr s))
       (List.find (\<lambda>s. rs_present s \<and> 0 < rs_atr_length s) states)"

definition power_on :: "'w card_client \<Rightarrow> 'w bridge \<Rightarrow> bytes option \<times> 'w bridge" where
  "power_on cl = in_session cl (\<lambda>c rd x.
     case connect_card cl c rd x of
       (False, x) \<Rightarrow> (None, x)
     | (True, x) \<Rightarrow>
         (case status_change cl c rd x of
            (None, x) \<Rightarrow> (None, x)
          | (Some states, x) \<Rightarrow> (atr_of states, x)))"

definition transmit :: "'w card_client \<Rightarrow> bytes \<Rightarrow> nat \<Rightarrow> 'w bridge \<Rightarrow> bytes option \<times> 'w bridge" where
  "transmit cl apdu recv_len = (\<lambda>(s, w, log).
     case card_card s of
       None \<Rightarrow> (None, s, w, log)
     | Some (h, proto) \<Rightarrow>
         (case sc_transmit cl h proto apdu recv_len w of
            (r, w) \<Rightarrow> (r, s, w, log @ [Transmit h apdu recv_len])))"

definition power_off :: "'w card_client \<Rightarrow> 'w bridge \<Rightarrow> 'w bridge" where
  "power_off cl = (\<lambda>(s, w, log).
     case card_card s of
       None \<Rightarrow> (s, w, log)
     | Some (h, _) \<Rightarrow>
         (case sc_disconnect cl h w of (_, w) \<Rightarrow> (s\<lparr>card_card := None\<rparr>, w, log @ [Disconnect h])))"

definition teardown :: "'w card_client \<Rightarrow> 'w bridge \<Rightarrow> 'w bridge" where
  "teardown cl x =
     (case power_off cl x of
        (s, w, log) \<Rightarrow>
          (case card_context s of
             None \<Rightarrow> (s, w, log)
           | Some c \<Rightarrow>
               (case sc_release cl c w of (_, w) \<Rightarrow> (s\<lparr>card_context := None\<rparr>, w, log @ [Release c]))))"

section \<open>The protocol\<close>

text \<open>
  One command at the head of what the driver sent: the reply, and what is left to read, or nothing
  where the connection is closed, by an unknown command, a length over the cap or the end of the
  stream.
\<close>

definition flag :: "bool \<Rightarrow> u8" where "flag b = (if b then 1 else 0)"

definition power_on_reply :: "bytes option \<Rightarrow> bytes" where
  "power_on_reply r =
     (case r of
        None \<Rightarrow> [1]
      | Some atr \<Rightarrow> let n = (if length atr \<le> 255 then length atr else 0) in [0, of_nat n] @ take n atr)"

definition transmit_reply :: "bytes option \<Rightarrow> bytes" where
  "transmit_reply r =
     (case r of
        None \<Rightarrow> [1]
      | Some resp \<Rightarrow> let n = min (length resp) (2 ^ 32 - 1) in [0] @ be_bytes 4 n @ take n resp)"

definition read_transmit :: "bytes \<Rightarrow> ((bytes \<times> nat) \<times> bytes) option" where
  "read_transmit bs =
     Option.bind (read_be 4 bs) (\<lambda>(n, bs).
       if MAX_APDU_LEN < n then None
       else Option.bind (take_bytes n bs) (\<lambda>(apdu, bs).
         Option.bind (read_be 4 bs) (\<lambda>(recv_len, bs). Some ((apdu, recv_len), bs))))"

fun bridge_command :: "'w card_client \<Rightarrow> instant \<Rightarrow> bytes \<Rightarrow> 'w bridge \<Rightarrow> (bytes \<times> bytes) option \<times> 'w bridge" where
  "bridge_command cl now [] x = (None, x)"
| "bridge_command cl now (cmd # bs) x =
     (if cmd = CMD_PRESENCE then
        (case presence cl now x of (r, x) \<Rightarrow> (Some ([flag (r = Some True)], bs), x))
      else if cmd = CMD_POWER_ON then
        (case power_on cl x of (r, x) \<Rightarrow> (Some (power_on_reply r, bs), x))
      else if cmd = CMD_TRANSMIT then
        (case read_transmit bs of
           None \<Rightarrow> (None, x)
         | Some ((apdu, recv_len), bs) \<Rightarrow>
             (case transmit cl apdu recv_len x of (r, x) \<Rightarrow> (Some (transmit_reply r, bs), x)))
      else if cmd = CMD_POWER_OFF then (Some ([0], bs), power_off cl x)
      else (None, x))"

lemma read_transmit_shorter: "read_transmit bs = Some (r, rest) \<Longrightarrow> length rest \<le> length bs"
  by (auto simp: read_transmit_def read_be_def take_bytes_def bind_eq_Some_conv split: if_splits prod.splits)

lemma bridge_command_shorter:
  "bridge_command cl now bs x = (Some (reply, rest), y) \<Longrightarrow> length rest < length bs"
  by (cases bs) (auto split: if_splits prod.splits option.splits dest: read_transmit_shorter)

text \<open>The loop of a connection: \<open>clock k\<close> is the time at which command number \<open>k\<close> is handled.\<close>

function bridge_run ::
    "'w card_client \<Rightarrow> (nat \<Rightarrow> instant) \<Rightarrow> nat \<Rightarrow> bytes \<Rightarrow> 'w bridge \<Rightarrow> bytes \<times> 'w bridge"
where
  "bridge_run cl clock k bs x =
     (case bridge_command cl (clock k) bs x of
        (None, x) \<Rightarrow> ([], x)
      | (Some (reply, rest), x) \<Rightarrow>
          (case bridge_run cl clock (k + 1) rest x of (out, x) \<Rightarrow> (reply @ out, x)))"
  by pat_completeness auto
termination
  by (relation "measure (\<lambda>(cl, clock, k, bs, x). length bs)") (auto dest: bridge_command_shorter [OF sym])

declare bridge_run.simps [simp del]

text \<open>A connection from its acceptance to its end.\<close>

definition serve_connection ::
    "'w card_client \<Rightarrow> (nat \<Rightarrow> instant) \<Rightarrow> bytes \<Rightarrow> 'w \<Rightarrow> bytes \<times> 'w bridge"
where
  "serve_connection cl clock bs w =
     (case bridge_run cl clock 0 bs (session_new, w, []) of (out, x) \<Rightarrow> (out, teardown cl x))"

end
