(* ===== verification/Card_Driver.thy ===== *)
theory Card_Driver
  imports Card_Bridge
begin

text \<open>
  The reader driver of \<open>src/ifd-handler/src/lib.rs\<close>: the entry points the system calls, each one
  request to the bridge and the reading of its reply. The other end of the connection is a parameter:
  whether it can be dialled, and what it answers to what is written. A pointer that may be null is an
  option; what is written through a pointer is part of the result.
\<close>

section \<open>Codes\<close>

datatype response_code =
    IFD_SUCCESS | IFD_ERROR_TAG | IFD_ERROR_POWER_ACTION | IFD_COMMUNICATION_ERROR | IFD_NOT_SUPPORTED
  | IFD_ICC_PRESENT | IFD_ICC_NOT_PRESENT

definition IFD_POWER_UP :: nat where "IFD_POWER_UP = 500"
definition IFD_POWER_DOWN :: nat where "IFD_POWER_DOWN = 501"
definition IFD_RESET :: nat where "IFD_RESET = 502"

definition TAG_IFD_ATR :: nat where "TAG_IFD_ATR = 0x0303"
definition TAG_IFD_SLOT_THREAD_SAFE :: nat where "TAG_IFD_SLOT_THREAD_SAFE = 0x0FAC"
definition TAG_IFD_THREAD_SAFE :: nat where "TAG_IFD_THREAD_SAFE = 0x0FAD"
definition TAG_IFD_SLOTS_NUMBER :: nat where "TAG_IFD_SLOTS_NUMBER = 0x0FAE"
definition TAG_IFD_SIMULTANEOUS_ACCESS :: nat where "TAG_IFD_SIMULTANEOUS_ACCESS = 0x0FAF"

definition MAX_ATR :: nat where "MAX_ATR = 33"

section \<open>The connection\<close>

record driver =
  drv_stream :: "bytes option"
  drv_atr :: bytes

record 'p peer =
  p_dial :: "'p \<Rightarrow> bool \<times> 'p"
  p_send :: "bytes \<Rightarrow> 'p \<Rightarrow> bytes option \<times> 'p"

definition driver_new :: driver where "driver_new = \<lparr>drv_stream = None, drv_atr = []\<rparr>"

definition drv_reset :: "driver \<Rightarrow> driver" where
  "drv_reset d = d\<lparr>drv_stream := None, drv_atr := []\<rparr>"

definition drv_conn :: "'p peer \<Rightarrow> driver \<times> 'p \<Rightarrow> bool \<times> driver \<times> 'p" where
  "drv_conn pr = (\<lambda>(d, p).
     case drv_stream d of
       Some _ \<Rightarrow> (True, d, p)
     | None \<Rightarrow>
         (case p_dial pr p of
            (True, p) \<Rightarrow> (True, d\<lparr>drv_stream := Some []\<rparr>, p)
          | (False, p) \<Rightarrow> (False, d, p)))"

text \<open>\<open>with_conn\<close> of a function that writes \<open>req\<close> and reads its reply with \<open>parse\<close>.\<close>

definition with_conn ::
    "'p peer \<Rightarrow> bytes \<Rightarrow> (bytes \<Rightarrow> ('a \<times> bytes) option) \<Rightarrow> driver \<times> 'p \<Rightarrow> 'a option \<times> driver \<times> 'p"
where
  "with_conn pr req parse x =
     (case drv_conn pr x of
        (False, x) \<Rightarrow> (None, x)
      | (True, d, p) \<Rightarrow>
          (case p_send pr req p of
             (None, p) \<Rightarrow> (None, drv_reset d, p)
           | (Some got, p) \<Rightarrow>
               (case parse (the (drv_stream d) @ got) of
                  None \<Rightarrow> (None, drv_reset d, p)
                | Some (v, rest) \<Rightarrow> (Some v, d\<lparr>drv_stream := Some rest\<rparr>, p))))"

fun read_u8 :: "bytes \<Rightarrow> (u8 \<times> bytes) option" where
  "read_u8 [] = None"
| "read_u8 (b # bs) = Some (b, bs)"

text \<open>A status byte, then, if it is zero, a length and as many bytes.\<close>

definition read_status_then :: "(bytes \<Rightarrow> (nat \<times> bytes) option) \<Rightarrow> bytes \<Rightarrow> (bytes option \<times> bytes) option" where
  "read_status_then read_len bs =
     Option.bind (read_u8 bs) (\<lambda>(status, bs).
       if status \<noteq> 0 then Some (None, bs)
       else Option.bind (read_len bs) (\<lambda>(n, bs).
         Option.bind (take_bytes n bs) (\<lambda>(v, bs). Some (Some v, bs))))"

definition read_len8 :: "bytes \<Rightarrow> (nat \<times> bytes) option" where
  "read_len8 bs = map_option (\<lambda>(b, bs). (unat b, bs)) (read_u8 bs)"

section \<open>The entry points\<close>

definition ifd_create_channel :: "driver \<Rightarrow> response_code \<times> driver" where
  "ifd_create_channel d = (IFD_SUCCESS, drv_reset d)"

definition ifd_close_channel :: "'p peer \<Rightarrow> driver \<times> 'p \<Rightarrow> response_code \<times> driver \<times> 'p" where
  "ifd_close_channel pr x =
     (case with_conn pr [CMD_POWER_OFF] read_u8 x of (_, d, p) \<Rightarrow> (IFD_SUCCESS, drv_reset d, p))"

text \<open>The result is the code and what is written to the buffer, whose length is written with it.\<close>

definition ifd_get_capabilities :: "nat \<Rightarrow> nat option \<Rightarrow> bool \<Rightarrow> driver \<Rightarrow> response_code \<times> bytes option" where
  "ifd_get_capabilities tag len value_null d =
     (case len of
        None \<Rightarrow> (IFD_COMMUNICATION_ERROR, None)
      | Some cap \<Rightarrow>
          let write_bytes = (\<lambda>bs. if value_null \<or> cap < length bs then (IFD_ERROR_TAG, None) else (IFD_SUCCESS, Some bs))
          in if tag = TAG_IFD_SLOTS_NUMBER \<or> tag = TAG_IFD_SIMULTANEOUS_ACCESS then write_bytes [1]
             else if tag = TAG_IFD_THREAD_SAFE \<or> tag = TAG_IFD_SLOT_THREAD_SAFE then write_bytes [0]
             else if tag = TAG_IFD_ATR then write_bytes (drv_atr d)
             else (IFD_ERROR_TAG, None))"

definition ifd_power_icc ::
    "'p peer \<Rightarrow> nat \<Rightarrow> bool \<Rightarrow> driver \<times> 'p \<Rightarrow> (response_code \<times> bytes option) \<times> driver \<times> 'p"
where
  "ifd_power_icc pr action some_null x =
     (if action = IFD_POWER_UP \<or> action = IFD_RESET then
        (case with_conn pr [CMD_POWER_ON] (read_status_then read_len8) x of
           (r, d, p) \<Rightarrow>
             (case r of
                Some (Some atr) \<Rightarrow>
                  if atr \<noteq> [] \<and> length atr \<le> MAX_ATR then
                    (if some_null then (IFD_COMMUNICATION_ERROR, None) else (IFD_SUCCESS, Some atr), d\<lparr>drv_atr := atr\<rparr>, p)
                  else ((IFD_ERROR_POWER_ACTION, Some []), d\<lparr>drv_atr := []\<rparr>, p)
              | _ \<Rightarrow> ((IFD_ERROR_POWER_ACTION, Some []), d\<lparr>drv_atr := []\<rparr>, p)))
      else if action = IFD_POWER_DOWN then
        (case with_conn pr [CMD_POWER_OFF] read_u8 x of
           (_, d, p) \<Rightarrow> ((IFD_SUCCESS, Some []), d\<lparr>drv_atr := []\<rparr>, p))
      else ((IFD_NOT_SUPPORTED, None), x))"

definition transmit_request :: "bytes \<Rightarrow> nat \<Rightarrow> bytes" where
  "transmit_request apdu recv_cap =
     [CMD_TRANSMIT] @ be_bytes 4 (length apdu mod 2 ^ 32) @ apdu @ be_bytes 4 recv_cap"

definition ifd_transmit ::
    "'p peer \<Rightarrow> bytes option \<Rightarrow> nat option \<Rightarrow> bool \<Rightarrow> driver \<times> 'p \<Rightarrow> (response_code \<times> bytes option) \<times> driver \<times> 'p"
where
  "ifd_transmit pr tx rx_len rx_null x =
     (case rx_len of
        None \<Rightarrow> ((IFD_COMMUNICATION_ERROR, None), x)
      | Some cap \<Rightarrow>
          (case with_conn pr (transmit_request (case tx of None \<Rightarrow> [] | Some a \<Rightarrow> a) cap)
                  (read_status_then (read_be 4)) x of
             (r, x) \<Rightarrow>
               (case r of
                  Some (Some resp) \<Rightarrow>
                    (if rx_null \<or> cap < length resp then (IFD_COMMUNICATION_ERROR, None) else (IFD_SUCCESS, Some resp), x)
                | _ \<Rightarrow> ((IFD_COMMUNICATION_ERROR, None), x))))"

definition ifd_control :: "response_code" where "ifd_control = IFD_NOT_SUPPORTED"

definition ifd_presence :: "'p peer \<Rightarrow> driver \<times> 'p \<Rightarrow> response_code \<times> driver \<times> 'p" where
  "ifd_presence pr x =
     (case with_conn pr [CMD_PRESENCE] read_u8 x of
        (r, x) \<Rightarrow> (if r = Some 1 then IFD_ICC_PRESENT else IFD_ICC_NOT_PRESENT, x))"

end
