(* ===== verification/Card_Props.thy ===== *)
theory Card_Props
  imports Card_Driver
begin

text \<open>
  The bridge uses the client's reader as its protocol demands and leaves nothing behind, whatever its
  loopback peer sends; and the driver and the bridge agree on their protocol.
\<close>

section \<open>The discipline of the calls\<close>

text \<open>
  A context is established before it is used and once at a time, a card is connected in it before it
  is used and once at a time, and both are given back in the reverse order. The state is the context
  and the card held.
\<close>

fun legal :: "nat option \<times> card_handle option \<Rightarrow> card_call \<Rightarrow> (nat option \<times> card_handle option) option" where
  "legal (None, None) (Establish r) = Some (r, None)"
| "legal (Some c, k) (ListReaders c') = (if c' = c then Some (Some c, k) else None)"
| "legal (Some c, k) (StatusChange c' rd) = (if c' = c then Some (Some c, k) else None)"
| "legal (Some c, None) (Connect c' rd r) =
     (if c' = c \<and> (\<forall>h. r = Some h \<longrightarrow> fst h = c) then Some (Some c, r) else None)"
| "legal (Some c, Some h) (Transmit h' apdu n) =
     (if h' = h \<and> fst h = c \<and> length apdu \<le> MAX_APDU_LEN then Some (Some c, Some h) else None)"
| "legal (Some c, Some h) (Disconnect h') = (if h' = h \<and> fst h = c then Some (Some c, None) else None)"
| "legal (Some c, None) (Release c') = (if c' = c then Some (None, None) else None)"
| "legal x e = None"

definition held :: "card_session \<Rightarrow> nat option \<times> card_handle option" where
  "held s = (card_context s, map_option fst (card_card s))"

definition bridge_ok :: "'w bridge \<Rightarrow> bool" where
  "bridge_ok = (\<lambda>(s, w, log). run_opt legal (None, None) log = Some (held s)
     \<and> (\<forall>h p. card_card s = Some (h, p) \<longrightarrow> card_context s = Some (fst h)))"

lemma bridge_ok_call:
  assumes "bridge_ok (s, w, log)" and "legal (held s) e = Some (held s')"
    and "\<And>h p. card_card s' = Some (h, p) \<Longrightarrow> card_context s' = Some (fst h)"
  shows "bridge_ok (s', w', log @ [e])"
  using assms by (auto simp: bridge_ok_def run_opt_append)

lemma bridge_ok_card: "bridge_ok (s, w, log) \<Longrightarrow> card_card s = Some (h, p) \<Longrightarrow> card_context s = Some (fst h)"
  by (cases h) (auto simp: bridge_ok_def)

lemma ensure_session_ok:
  assumes ok: "bridge_ok x" and e: "ensure_session cl x = (r, s', w', log')"
  shows "bridge_ok (s', w', log') \<and> (\<forall>c rd. r = Some (c, rd) \<longrightarrow> card_context s' = Some c)"
proof -
  obtain s w log where x: "x = (s, w, log)" by (cases x) auto
  define y where "y = (case card_context s of
      Some c \<Rightarrow> (Some c, s, w, log)
    | None \<Rightarrow> (case sc_establish cl w of (r, w) \<Rightarrow> (r, s\<lparr>card_context := r\<rparr>, w, log @ [Establish r])))"
  obtain c s1 w1 log1 where y1: "y = (c, s1, w1, log1)" by (cases y) auto
  have 1: "bridge_ok (s1, w1, log1)" "card_context s1 = c"
  proof -
    have "card_card s = None" if "card_context s = None"
      using bridge_ok_card [OF ok [unfolded x]] that by (cases "card_card s") auto
    then have "bridge_ok (s\<lparr>card_context := r\<rparr>, v, log @ [Establish r])" if "card_context s = None" for r v
      using that by (intro bridge_ok_call [OF ok [unfolded x]]) (auto simp: held_def)
    then show "bridge_ok (s1, w1, log1)" "card_context s1 = c"
      using y1 ok by (auto simp: y_def x split: option.splits prod.splits)
  qed
  show ?thesis
  proof (cases c)
    case None
    with e y1 1 show ?thesis by (simp add: ensure_session_def x y_def [symmetric])
  next
    case (Some cc)
    obtain q v where l: "sc_list_readers cl cc w1 = (q, v)" by fastforce
    have "bridge_ok (s1\<lparr>card_reader := m\<rparr>, v, log1 @ [ListReaders cc])" for m
      using 1 Some bridge_ok_card [OF 1(1)]
      by (intro bridge_ok_call [OF 1(1)]) (auto simp: held_def)
    moreover have "bridge_ok (s1, v, log1 @ [ListReaders cc])"
      using 1 Some bridge_ok_card [OF 1(1)]
      by (intro bridge_ok_call [OF 1(1)]) (auto simp: held_def)
    ultimately show ?thesis
      using e y1 1 Some l
      by (auto simp: ensure_session_def x y_def [symmetric] split: option.splits list.splits)
  qed
qed

lemma in_session_ok:
  assumes "bridge_ok x"
    and "\<And>c rd s w log. bridge_ok (s, w, log) \<Longrightarrow> card_context s = Some c \<Longrightarrow> bridge_ok (snd (k c rd (s, w, log)))"
  shows "bridge_ok (snd (in_session cl k x))"
proof -
  obtain r s w log where e: "ensure_session cl x = (r, s, w, log)" by (metis prod_cases4)
  from ensure_session_ok [OF assms(1) e] assms(2) show ?thesis
    by (auto simp: in_session_def e split: option.split)
qed

lemma status_change_ok:
  assumes "bridge_ok (s, w, log)" and "card_context s = Some c" and "status_change cl c rd (s, w, log) = (r, s', w', log')"
  shows "bridge_ok (s', w', log') \<and> s' = s"
proof -
  have "bridge_ok (s, v, log @ [StatusChange c rd])" for v
    using assms(2) bridge_ok_card [OF assms(1)] by (intro bridge_ok_call [OF assms(1)]) (auto simp: held_def)
  with assms(3) show ?thesis by (auto simp: status_change_def split: prod.splits)
qed

lemma query_presence_ok: "bridge_ok x \<Longrightarrow> bridge_ok (snd (query_presence cl now x))"
  unfolding query_presence_def
  by (erule in_session_ok)
    (auto simp: bridge_ok_def held_def status_change_def run_opt_append Let_def split: option.split prod.split)

lemma presence_ok: "bridge_ok x \<Longrightarrow> bridge_ok (snd (presence cl now x))"
  using query_presence_ok [of x cl now] by (cases x) (auto simp: presence_def split: option.split)

lemma connect_card_ok:
  assumes ok: "bridge_ok (s, w, log)" and c: "card_context s = Some c"
    and e: "connect_card cl c rd (s, w, log) = (r, s', w', log')"
  shows "bridge_ok (s', w', log') \<and> card_context s' = Some c"
proof (cases "card_card s")
  case None
  have "bridge_ok (s\<lparr>card_card := m\<rparr>, v, log @ [Connect c rd (map_option fst m)])"
    if "\<forall>h p. m = Some (h, p) \<longrightarrow> fst h = c" for m v
    using that c None by (intro bridge_ok_call [OF ok]) (auto simp: held_def)
  note call = this [of None] this [of "Some ((c, h), p)" for h p]
  have "s\<lparr>card_card := None\<rparr> = s" using None by (cases s) simp
  with call e None c show ?thesis
    by (auto simp: connect_card_def split: option.splits prod.splits)
next
  case (Some a)
  with assms show ?thesis by (auto simp: connect_card_def)
qed

lemma power_on_ok:
  fixes x :: "'w bridge"
  assumes "bridge_ok x"
  shows "bridge_ok (snd (power_on cl x))"
  unfolding power_on_def using assms
proof (rule in_session_ok)
  fix c rd s log and w :: 'w
  assume ok: "bridge_ok (s, w, log)" and c: "card_context s = Some c"
  obtain r s1 w1 log1 where 1: "connect_card cl c rd (s, w, log) = (r, s1, w1, log1)" by (metis prod_cases4)
  note 2 = connect_card_ok [OF ok c 1]
  obtain q s2 w2 log2 where 3: "status_change cl c rd (s1, w1, log1) = (q, s2, w2, log2)" by (metis prod_cases4)
  from 2 status_change_ok [OF _ _ 3] 1 3
  show "bridge_ok (snd (case connect_card cl c rd (s, w, log) of
      (False, x) \<Rightarrow> (None, x)
    | (True, x) \<Rightarrow> (case status_change cl c rd x of (None, x) \<Rightarrow> (None, x) | (Some states, x) \<Rightarrow> (atr_of states, x))))"
    by (auto split: bool.split option.split)
qed

lemma transmit_ok: "bridge_ok x \<Longrightarrow> length apdu \<le> MAX_APDU_LEN \<Longrightarrow> bridge_ok (snd (transmit cl apdu n x))"
  by (cases x) (auto simp: transmit_def bridge_ok_def held_def run_opt_append split: option.split prod.split)

lemma power_off_ok: "bridge_ok x \<Longrightarrow> bridge_ok (power_off cl x) \<and> card_card (fst (power_off cl x)) = None"
  by (cases x) (auto simp: power_off_def bridge_ok_def held_def run_opt_append split: option.split prod.split)

lemma bridge_command_ok:
  assumes "bridge_ok x"
  shows "bridge_ok (snd (bridge_command cl now bs x))"
proof (cases bs)
  case (Cons cmd rest)
  have "length apdu \<le> MAX_APDU_LEN" if "read_transmit rest = Some ((apdu, n), r)" for apdu n r
    using that by (auto simp: read_transmit_def bind_eq_Some_conv take_bytes_Some_iff split: if_splits)
  with assms show ?thesis
    using presence_ok [OF assms, of cl now] power_on_ok [OF assms, of cl] power_off_ok [OF assms, of cl]
      transmit_ok [OF assms, where cl = cl]
    by (auto simp: Cons split: prod.splits option.splits) (metis snd_conv)+
qed (simp add: assms)

lemma bridge_run_ok: "bridge_ok x \<Longrightarrow> bridge_ok (snd (bridge_run cl clock k bs x))"
proof (induction "length bs" arbitrary: k bs x rule: less_induct)
  case less
  obtain r y where c: "bridge_command cl (clock k) bs x = (r, y)" by (meson surj_pair)
  have y: "bridge_ok y" using bridge_command_ok [OF less.prems, of cl "clock k" bs] c by simp
  show ?case
  proof (cases r)
    case None
    with y show ?thesis by (simp add: bridge_run.simps [of cl clock k] c)
  next
    case (Some a)
    obtain reply rest where a: "r = Some (reply, rest)" using Some by (cases a) simp
    from less.hyps [OF bridge_command_shorter y, of cl "clock k" x reply rest] c a
    show ?thesis by (simp add: bridge_run.simps [of cl clock k] c case_prod_unfold)
  qed
qed

text \<open>
  C14. Whatever the process at the other end of the loopback connection sends, and whatever the client
  answers, the bridge uses the client's reader in order: a context is established before it is used,
  a card is connected in it before a command reaches it, every command carries the handle with the
  session's own context and is at most the longest command there is, and at the end of the
  connection the card and the context have been given back, each once.
\<close>

theorem card_session_released:
  "\<exists>out s w' log. serve_connection cl clock bs w = (out, s, w', log)
    \<and> run_opt legal (None, None) log = Some (None, None)"
proof -
  obtain out x where run: "bridge_run cl clock 0 bs (session_new, w, []) = (out, x)" by (meson surj_pair)
  have "bridge_ok (session_new, w, [])" by (simp add: bridge_ok_def session_new_def held_def)
  from bridge_run_ok [OF this, of cl clock 0 bs] have x: "bridge_ok x" by (simp add: run)
  obtain s v log where off: "power_off cl x = (s, v, log)" by (metis prod_cases3)
  from power_off_ok [OF x, of cl] off have "bridge_ok (s, v, log)" "card_card s = None" by auto
  then have "run_opt legal (None, None) log = Some (card_context s, None)" by (simp add: bridge_ok_def held_def)
  then show ?thesis
    by (auto simp: serve_connection_def run teardown_def off run_opt_append split: option.split prod.split)
qed

section \<open>Driver and bridge\<close>

text \<open>
  The bridge as the driver's peer: whether a connection is open, the time, and the session with the
  client. A dial ends the connection before. The driver writes one command at a time.
\<close>

type_synonym 'w link = "bool \<times> instant \<times> 'w bridge"

definition link_peer :: "'w card_client \<Rightarrow> 'w link peer" where
  "link_peer cl =
     \<lparr>p_dial = (\<lambda>(up, now, x). case (if up then teardown cl x else x) of (s, w, log) \<Rightarrow> (True, True, now, session_new, w, log)),
      p_send = (\<lambda>req (up, now, x).
        if \<not> up then (None, up, now, x)
        else case bridge_command cl now req x of
               (Some (reply, rest), x) \<Rightarrow> (Some reply, True, now, x)
             | (None, x) \<Rightarrow> (Some [], False, now, teardown cl x))\<rparr>"

text \<open>A driver whose connection is in step: nothing unread.\<close>

definition in_step :: "driver \<Rightarrow> bool" where "in_step d \<longleftrightarrow> drv_stream d = Some []"

lemma in_step_same: "in_step d \<Longrightarrow> d\<lparr>drv_stream := Some []\<rparr> = d"
  by (cases d) (simp add: in_step_def)

lemma read_transmit_request:
  assumes "length apdu < 2 ^ 32" and "cap < 2 ^ 32"
  shows "read_transmit (tl (transmit_request apdu cap)) =
    (if length apdu \<le> MAX_APDU_LEN then Some ((apdu, cap), []) else None)"
  using assms read_be_append [of cap 4 "[]"]
  by (auto simp: read_transmit_def transmit_request_def read_be_append)

lemma read_transmit_reply:
  assumes "length resp < 2 ^ 32"
  shows "read_status_then (read_be 4) (transmit_reply (Some resp)) = Some (Some resp, [])"
  using assms take_bytes_append [of resp "length resp" "[]"]
  by (simp add: read_status_then_def transmit_reply_def Let_def read_be_append min_absorb1 take_bytes_def)

lemma commands_differ [simp]:
  "CMD_TRANSMIT \<noteq> CMD_PRESENCE" "CMD_TRANSMIT \<noteq> CMD_POWER_ON" "CMD_POWER_ON \<noteq> CMD_PRESENCE"
  "CMD_POWER_OFF \<noteq> CMD_PRESENCE" "CMD_POWER_OFF \<noteq> CMD_POWER_ON" "CMD_POWER_OFF \<noteq> CMD_TRANSMIT"
  by (simp_all add: CMD_TRANSMIT_def CMD_PRESENCE_def CMD_POWER_ON_def CMD_POWER_OFF_def)

text \<open>
  C24. A command of an application reaches the client's card and its answer comes back, byte for byte:
  with a card connected, the driver's transmission through the bridge makes the one call with exactly
  that command and the caller's capacity, returns the client's answer if it fits and a communication
  error if it does not or the client failed, and driver and bridge are in step again; a command longer
  than any there is never reaches the client, and the connection is closed with everything given back.
\<close>

theorem apdu_exchanged:
  assumes "in_step d" and "card_card s = Some (h, proto)" and "length apdu < 2 ^ 32" and "cap < 2 ^ 32"
    and "sc_transmit cl h proto apdu cap w = (r, w')" and "\<forall>resp. r = Some resp \<longrightarrow> length resp < 2 ^ 32"
  shows "ifd_transmit (link_peer cl) (Some apdu) (Some cap) False (d, True, now, s, w, log) =
    (if length apdu \<le> MAX_APDU_LEN then
       ((case r of
           Some resp \<Rightarrow> if length resp \<le> cap then (IFD_SUCCESS, Some resp) else (IFD_COMMUNICATION_ERROR, None)
         | None \<Rightarrow> (IFD_COMMUNICATION_ERROR, None)),
        d, True, now, s, w', log @ [Transmit h apdu cap])
     else ((IFD_COMMUNICATION_ERROR, None), drv_reset d, False, now, teardown cl (s, w, log)))"
proof -
  have cmd: "transmit_request apdu cap = CMD_TRANSMIT # tl (transmit_request apdu cap)"
    by (simp add: transmit_request_def)
  have b: "bridge_command cl now (transmit_request apdu cap) (s, w, log) =
    (if length apdu \<le> MAX_APDU_LEN then (Some (transmit_reply r, []), s, w', log @ [Transmit h apdu cap])
     else (None, s, w, log))"
    by (subst cmd) (simp add: read_transmit_request [OF assms(3,4)] transmit_def assms(2,5))
  have reply: "read_status_then (read_be 4) (transmit_reply r) = Some (r, [])"
    using assms(6) read_transmit_reply
    by (cases r) (simp_all add: transmit_reply_def read_status_then_def)
  have empty: "read_status_then (read_be 4) [] = None" by (simp add: read_status_then_def)
  show ?thesis
    using assms(1) reply empty in_step_same [OF assms(1)]
    by (simp add: ifd_transmit_def with_conn_def drv_conn_def link_peer_def in_step_def b split: option.split)
qed

definition echo_client :: "nat card_client" where
  "echo_client =
     \<lparr>sc_establish = (\<lambda>w. (Some 7, w)), sc_list_readers = (\<lambda>c w. (Some [[82]], w)),
      sc_status_change = (\<lambda>c rd w. (Some [\<lparr>rs_present = True, rs_atr_length = 2, rs_atr = [59, 0, 0]\<rparr>], w)),
      sc_connect = (\<lambda>c rd w. (Some (3, 1), w)),
      sc_transmit = (\<lambda>h p apdu n w. (Some (rev apdu @ [0x90, 0]), w + 1)),
      sc_disconnect = (\<lambda>h w. (True, w)), sc_release = (\<lambda>c w. (True, w))\<rparr>"

theorem apdu_exchanged_witness:
  "fst (ifd_transmit (link_peer echo_client) (Some [1, 2]) (Some 16) False
      (driver_new\<lparr>drv_stream := Some []\<rparr>, True, 0, session_new\<lparr>card_card := Some ((7, 3), 1)\<rparr>, 0, []))
    = (IFD_SUCCESS, Some [2, 1, 0x90, 0])"
proof -
  have 1: "in_step (driver_new\<lparr>drv_stream := Some []\<rparr>)" by (simp add: in_step_def)
  have 2: "card_card (session_new\<lparr>card_card := Some ((7, 3), 1)\<rparr>) = Some ((7, 3), 1)" by simp
  have 3: "sc_transmit echo_client (7, 3) 1 [1, 2] 16 0 = (Some [2, 1, 0x90, 0], 1)" by (simp add: echo_client_def)
  have 4: "\<forall>resp. Some [2, 1, 0x90, 0 :: u8] = Some resp \<longrightarrow> length resp < 2 ^ 32" by auto
  have 5: "length [1, 2 :: u8] < 2 ^ 32" "(16 :: nat) < 2 ^ 32" "length [1, 2 :: u8] \<le> MAX_APDU_LEN"
    by (simp_all add: MAX_APDU_LEN_def)
  show ?thesis
    unfolding apdu_exchanged [OF 1 2 5(1,2) 3 4] using 5(3) by simp
qed

text \<open>Powered up, the driver reports the card's answer to reset, and its presence follows the client's.\<close>

lemma power_up_reports_atr:
  assumes "in_step d" and "power_on cl x = (Some atr, y)" and "atr \<noteq> []" and "length atr \<le> MAX_ATR"
  shows "ifd_power_icc (link_peer cl) IFD_POWER_UP False (d, True, now, x) =
    ((IFD_SUCCESS, Some atr), d\<lparr>drv_atr := atr\<rparr>, True, now, y)"
proof -
  have "read_status_then read_len8 (power_on_reply (Some atr)) = Some (Some atr, [])"
    using assms(4)
    by (simp add: read_status_then_def power_on_reply_def Let_def read_len8_def MAX_ATR_def take_bytes_def unat_of_nat)
  with assms show ?thesis
    by (simp add: ifd_power_icc_def with_conn_def drv_conn_def link_peer_def in_step_def in_step_same)
qed

lemma power_up_longer_atr:
  assumes "in_step d" and "power_on cl x = (Some atr, y)" and "MAX_ATR < length atr" and "length atr < 256"
  shows "fst (ifd_power_icc (link_peer cl) IFD_POWER_UP False (d, True, now, x)) = (IFD_ERROR_POWER_ACTION, Some [])"
proof -
  have "read_status_then read_len8 (power_on_reply (Some atr)) = Some (Some atr, [])"
    using assms(4)
    by (simp add: read_status_then_def power_on_reply_def Let_def read_len8_def take_bytes_def unat_of_nat)
  with assms show ?thesis
    by (simp add: ifd_power_icc_def with_conn_def drv_conn_def link_peer_def in_step_def)
qed

section \<open>Polls\<close>

text \<open>A poll within the time a result is kept makes no call; a poll that fails keeps no result.\<close>

lemma presence_cached:
  assumes "query_presence cl t x = (Some p, y)" and "t \<le> now" and "now < t + PRESENCE_TTL"
  shows "presence cl now y = (Some p, y)"
proof -
  obtain s w log where y: "y = (s, w, log)" by (cases y) auto
  have "presence_cache s = Some (t, p)"
    using assms(1) y
    by (auto simp: query_presence_def in_session_def Let_def split: option.splits prod.splits)
  with assms(2,3) y show ?thesis by (auto simp: presence_def saturating_duration_since_def)
qed

definition no_reader_client :: "nat card_client" where
  "no_reader_client = echo_client\<lparr>sc_list_readers := \<lambda>c w. (Some [], w + 1)\<rparr>"

lemma failed_poll_not_cached:
  "fst (snd (snd (presence no_reader_client 0 (snd (presence no_reader_client 0
      (snd (presence no_reader_client 0 (session_new, 0, []))))))) ) = 3"
  by (simp add: presence_def query_presence_def in_session_def ensure_session_def no_reader_client_def echo_client_def
      session_new_def)

end
