(* ===== verification/Log_Rotation.thy ===== *)
theory Log_Rotation
  imports Bytes
begin

text \<open>
  The log of \<open>src/src/logging.rs\<close>: where it goes, and the rotating file with its archives. The
  directory maps a name, the number of its suffix and zero for the live file, to an inode, and an open
  file is an inode, which a renaming leaves open. Whether a call to the system succeeds is a parameter.
\<close>

section \<open>The sink\<close>

definition DEFAULT_MAX_BYTES :: nat where "DEFAULT_MAX_BYTES = 10 * 1024 * 1024"
definition DEFAULT_MAX_FILES :: nat where "DEFAULT_MAX_FILES = 5"

definition log_env_u64 :: "env \<Rightarrow> string \<Rightarrow> nat \<Rightarrow> nat" where
  "log_env_u64 e key dflt =
     (case Option.bind (e key) (parse_uint (2 ^ 64 - 1)) of
        Some v \<Rightarrow> if 0 < v then v else dflt
      | None \<Rightarrow> dflt)"

definition log_env_usize :: "env \<Rightarrow> string \<Rightarrow> nat \<Rightarrow> nat" where
  "log_env_usize e key dflt =
     (case Option.bind (e key) (parse_uint (2 ^ 64 - 1)) of Some v \<Rightarrow> v | None \<Rightarrow> dflt)"

datatype sink = Stdout | LogFile ustr

record logging_setup =
  main_sink :: sink
  audit_stream :: bool
  panic_hook :: bool

definition default_log_dir :: "ustr option \<Rightarrow> ustr option" where
  "default_log_dir home = map_option (\<lambda>h. h @ lit ''/Library/Logs'') home"

definition resolve_main_dir :: "ustr option \<Rightarrow> bool \<Rightarrow> ustr option \<Rightarrow> ustr option" where
  "resolve_main_dir log_dir_override stdout_is_tty home =
     (case log_dir_override of
        Some d \<Rightarrow> Some d
      | None \<Rightarrow> if stdout_is_tty then None else default_log_dir home)"

text \<open>\<open>opens\<close> says of a directory whether it can be made and the log in it opened.\<close>

definition make_file_writer :: "(ustr \<Rightarrow> bool) \<Rightarrow> ustr \<Rightarrow> ustr option" where
  "make_file_writer opens dir = (if opens dir then Some dir else None)"

definition init_main_only :: "(ustr \<Rightarrow> bool) \<Rightarrow> ustr option \<Rightarrow> logging_setup" where
  "init_main_only opens dir =
     (case dir of
        None \<Rightarrow> \<lparr>main_sink = Stdout, audit_stream = False, panic_hook = False\<rparr>
      | Some d \<Rightarrow>
          if opens d then \<lparr>main_sink = LogFile d, audit_stream = False, panic_hook = True\<rparr>
          else \<lparr>main_sink = Stdout, audit_stream = False, panic_hook = False\<rparr>)"

definition init_logging ::
    "(ustr \<Rightarrow> bool) \<Rightarrow> (ustr \<Rightarrow> bool) \<Rightarrow> ustr option \<Rightarrow> bool \<Rightarrow> ustr option \<Rightarrow> ustr option \<Rightarrow> logging_setup"
where
  "init_logging opens audit_opens log_dir_override stdout_is_tty home audit_file =
     (let dir = resolve_main_dir log_dir_override stdout_is_tty home
      in case audit_file of
           None \<Rightarrow> init_main_only opens dir
         | Some a \<Rightarrow>
             if \<not> audit_opens a then init_main_only opens dir
             else case Option.bind dir (make_file_writer opens) of
                    None \<Rightarrow> \<lparr>main_sink = Stdout, audit_stream = True, panic_hook = False\<rparr>
                  | Some d \<Rightarrow> \<lparr>main_sink = LogFile d, audit_stream = True, panic_hook = True\<rparr>)"

section \<open>The rotating file\<close>

record rotator =
  dir_names :: "nat \<rightharpoonup> nat"
  inode_data :: "nat \<Rightarrow> bytes"
  next_inode :: nat
  open_file :: nat
  written :: nat
  max_bytes :: nat
  max_files :: nat

text \<open>\<open>open\<close> appends to the live file, or makes it, and counts from its length.\<close>

definition rotator_open :: "(nat \<rightharpoonup> nat) \<Rightarrow> (nat \<Rightarrow> bytes) \<Rightarrow> nat \<Rightarrow> nat \<Rightarrow> nat \<Rightarrow> rotator" where
  "rotator_open ns data fresh mb mf =
     (case ns 0 of
        Some i \<Rightarrow> \<lparr>dir_names = ns, inode_data = data, next_inode = fresh, open_file = i,
                    written = length (data i), max_bytes = mb, max_files = mf\<rparr>
      | None \<Rightarrow> \<lparr>dir_names = ns(0 \<mapsto> fresh), inode_data = data(fresh := []), next_inode = fresh + 1,
                   open_file = fresh, written = 0, max_bytes = mb, max_files = mf\<rparr>)"

datatype io_call = FlushFile | RenameArchive nat | RenameLive | RemoveLive | Reopen

text \<open>The archives from the last but one down to the first move up by one; an error ends the cascade.\<close>

fun cascade :: "(io_call \<Rightarrow> bool) \<Rightarrow> nat \<Rightarrow> (nat \<rightharpoonup> nat) \<Rightarrow> bool \<times> (nat \<rightharpoonup> nat)" where
  "cascade ok 0 ns = (True, ns)"
| "cascade ok (Suc n) ns =
     (case ns (Suc n) of
        None \<Rightarrow> cascade ok n ns
      | Some i \<Rightarrow>
          if ok (RenameArchive (Suc n)) then cascade ok n (ns(Suc (Suc n) \<mapsto> i, Suc n := None)) else (False, ns))"

definition retire_live :: "(io_call \<Rightarrow> bool) \<Rightarrow> nat \<Rightarrow> (nat \<rightharpoonup> nat) \<Rightarrow> bool \<times> (nat \<rightharpoonup> nat)" where
  "retire_live ok files ns =
     (case ns 0 of
        None \<Rightarrow> (False, ns)
      | Some i \<Rightarrow>
          if 1 \<le> files then (if ok RenameLive then (True, ns(1 \<mapsto> i, 0 := None)) else (False, ns))
          else (if ok RemoveLive then (True, ns(0 := None)) else (False, ns)))"

definition rotate_files :: "(io_call \<Rightarrow> bool) \<Rightarrow> rotator \<Rightarrow> bool \<times> rotator" where
  "rotate_files ok r =
     (if \<not> ok FlushFile then (False, r)
      else case cascade ok (max_files r - 1) (dir_names r) of
             (False, ns) \<Rightarrow> (False, r\<lparr>dir_names := ns\<rparr>)
           | (True, ns) \<Rightarrow>
               (case retire_live ok (max_files r) ns of
                  (False, ns) \<Rightarrow> (False, r\<lparr>dir_names := ns\<rparr>)
                | (True, ns) \<Rightarrow>
                    if ok Reopen then
                      (True, r\<lparr>dir_names := ns(0 \<mapsto> next_inode r), inode_data := (inode_data r)(next_inode r := []),
                              next_inode := next_inode r + 1, open_file := next_inode r, written := 0\<rparr>)
                    else (False, r\<lparr>dir_names := ns\<rparr>)))"

text \<open>\<open>write\<close>: \<open>accepted\<close> is how many bytes the system takes; a failed rotation is only reported.\<close>

definition rotator_write :: "(io_call \<Rightarrow> bool) \<Rightarrow> nat option \<Rightarrow> bytes \<Rightarrow> rotator \<Rightarrow> nat option \<times> rotator" where
  "rotator_write ok accepted buf r =
     (let r = (if 0 < written r \<and> max_bytes r < written r + length buf then snd (rotate_files ok r) else r)
      in case accepted of
           None \<Rightarrow> (None, r)
         | Some n \<Rightarrow>
             let n = min n (length buf); i = open_file r
             in (Some n, r\<lparr>inode_data := (inode_data r)(i := inode_data r i @ take n buf), written := written r + n\<rparr>))"

end
