(* ===== verification/Log_Props.thy ===== *)
theory Log_Props
  imports Log_Rotation
begin

text \<open>
  The rotating log is a queue of files that keeps the most recent: a specification of it on the
  contents alone, and the proof that the cascade of renamings implements it.
\<close>

section \<open>The specification\<close>

text \<open>The archives, newest first, and the live file; a write goes whole into one file.\<close>

type_synonym log_files = "bytes list \<times> bytes"

fun log_write :: "nat \<Rightarrow> nat \<Rightarrow> log_files \<Rightarrow> bytes \<Rightarrow> log_files" where
  "log_write mb mf (arch, live) e =
     (if live \<noteq> [] \<and> mb < length live + length e then (take mf (live # arch), e) else (arch, live @ e))"

definition in_order :: "log_files \<Rightarrow> bytes" where
  "in_order = (\<lambda>(arch, live). concat (rev arch) @ live)"

lemma log_write_suffix:
  "\<exists>lost. in_order x @ e = lost @ in_order (log_write mb mf x e) \<and> (length (fst x) < mf \<longrightarrow> lost = [])"
proof (cases x)
  case (Pair arch live)
  show ?thesis
  proof (cases "live \<noteq> [] \<and> mb < length live + length e")
    case True
    have "concat (rev (live # arch)) = concat (rev (drop mf (live # arch))) @ concat (rev (take mf (live # arch)))"
      by (metis append_take_drop_id concat_append rev_append)
    with True show ?thesis by (auto simp: Pair in_order_def)
  next
    case False
    then show ?thesis by (auto simp: Pair in_order_def)
  qed
qed

lemma log_run_length: "length (fst (foldl (log_write mb mf) x es)) < mf \<Longrightarrow> length (fst x) < mf"
proof (induction es arbitrary: x)
  case Nil
  then show ?case by simp
next
  case (Cons e es)
  then have "length (fst (log_write mb mf x e)) < mf" by simp
  then show ?case by (cases x) (auto split: if_splits)
qed

lemma log_write_run:
  "\<exists>lost. in_order x @ concat es = lost @ in_order (foldl (log_write mb mf) x es)
    \<and> (length (fst (foldl (log_write mb mf) x es)) < mf \<longrightarrow> lost = [])"
proof (induction es arbitrary: x)
  case Nil
  then show ?case by simp
next
  case (Cons e es)
  let ?y = "log_write mb mf x e"
  obtain l1 where 1: "in_order x @ e = l1 @ in_order ?y" "length (fst x) < mf \<longrightarrow> l1 = []" using log_write_suffix by blast
  obtain l2 where 2: "in_order ?y @ concat es = l2 @ in_order (foldl (log_write mb mf) ?y es)"
    "length (fst (foldl (log_write mb mf) ?y es)) < mf \<longrightarrow> l2 = []"
    using Cons by blast
  have "in_order x @ concat (e # es) = (l1 @ l2) @ in_order (foldl (log_write mb mf) x (e # es))"
    using 1 2 by simp (metis append.assoc)
  moreover have "length (fst (foldl (log_write mb mf) x (e # es))) < mf \<longrightarrow> l1 @ l2 = []"
    using 1 2 log_run_length [of mb mf x "e # es"] by auto
  ultimately show ?case by blast
qed

lemma log_write_bounds:
  assumes "length (fst x) \<le> mf" and "\<forall>f \<in> set (snd x # fst x). length f \<le> mb" and "length e \<le> mb"
  shows "length (fst (log_write mb mf x e)) \<le> mf
    \<and> (\<forall>f \<in> set (snd (log_write mb mf x e) # fst (log_write mb mf x e)). length f \<le> mb)"
  using assms by (cases x) (auto dest!: in_set_takeD)

interpretation log_queue: stepper "log_write mb mf"
  "\<lambda>x. length (fst x) \<le> mf \<and> (\<forall>f \<in> set (snd x # fst x). length f \<le> mb)" "\<lambda>e. length e \<le> mb"
  by unfold_locales (use log_write_bounds in blast)

section \<open>The renamings\<close>

lemma cascade_result:
  assumes "cascade (\<lambda>_. True) n ns = (r, ns')"
  shows "r \<and> ns' j = (if j = 0 \<or> n + 1 < j then ns j
    else if j = 1 then (if n = 0 then ns 1 else None)
    else case ns (j - 1) of Some i \<Rightarrow> Some i | None \<Rightarrow> if j \<le> n then None else ns j)"
  using assms
proof (induction n arbitrary: ns)
  case 0
  then show ?case by (cases "j = 1") auto
next
  case (Suc n)
  show ?case
  proof (cases "ns (Suc n)")
    case None
    then have "cascade (\<lambda>_. True) n ns = (r, ns')" using Suc.prems by simp
    note Suc.IH [OF this]
    with None show ?thesis by (cases "j = Suc n"; cases "j = Suc (Suc n)") (auto split: option.split)
  next
    case (Some i)
    then have "cascade (\<lambda>_. True) n (ns(Suc (Suc n) \<mapsto> i, Suc n := None)) = (r, ns')" using Suc.prems by simp
    note Suc.IH [OF this]
    with Some show ?thesis by (cases "j = Suc n"; cases "j = Suc (Suc n)") (auto split: option.split)
  qed
qed

text \<open>A rotator that holds the files of the specification: its archives have no gaps.\<close>

definition holds :: "rotator \<Rightarrow> log_files \<Rightarrow> bool" where
  "holds r = (\<lambda>(arch, live).
     dir_names r 0 = Some (open_file r) \<and> inode_data r (open_file r) = live \<and> written r = length live
     \<and> length arch \<le> max_files r
     \<and> (\<forall>n \<ge> 1. case dir_names r n of
           None \<Rightarrow> length arch < n
         | Some i \<Rightarrow> n \<le> length arch \<and> inode_data r i = arch ! (n - 1) \<and> i \<noteq> open_file r)
     \<and> (\<forall>n i. dir_names r n = Some i \<longrightarrow> i < next_inode r))"

lemma holds_archive:
  assumes "holds r (arch, live)" and "1 \<le> n"
  shows "dir_names r n = None \<longleftrightarrow> length arch < n"
    and "dir_names r n = Some i \<Longrightarrow> n \<le> length arch \<and> inode_data r i = arch ! (n - 1) \<and> i \<noteq> open_file r \<and> i < next_inode r"
  using assms by (auto simp: holds_def split: option.splits)

lemma rotate_holds:
  assumes h: "holds r (arch, live)" and rot: "rotate_files (\<lambda>_. True) r = (ok, r')"
  shows "ok \<and> holds r' (take (max_files r) (live # arch), []) \<and> max_files r' = max_files r \<and> max_bytes r' = max_bytes r"
proof -
  let ?mf = "max_files r" and ?ns = "dir_names r" and ?fresh = "next_inode r"
  obtain b ns1 where c: "cascade (\<lambda>_. True) (?mf - 1) ?ns = (b, ns1)" by fastforce
  note casc = cascade_result [OF c]
  have live: "?ns 0 = Some (open_file r)" "inode_data r (open_file r) = live" "open_file r < ?fresh"
    "length arch \<le> ?mf" using h by (auto simp: holds_def)
  have ns1_0: "ns1 0 = Some (open_file r)" using casc [of 0] live by simp
  define ns2 where "ns2 = (if 1 \<le> ?mf then ns1(1 \<mapsto> open_file r) else ns1)(0 \<mapsto> ?fresh)"
  have "b" using casc [of 0] by simp
  with c have c': "cascade (\<lambda>_. True) (?mf - Suc 0) ?ns = (True, ns1)" by simp
  have "retire_live (\<lambda>_. True) ?mf ns1 = (True, (if 1 \<le> ?mf then ns1(1 \<mapsto> open_file r) else ns1)(0 := None))"
    by (simp add: retire_live_def ns1_0)
  then have r': "ok" "r' = r\<lparr>dir_names := ns2, inode_data := (inode_data r)(?fresh := []),
      next_inode := ?fresh + 1, open_file := ?fresh, written := 0\<rparr>"
    using rot by (simp_all add: rotate_files_def c' ns2_def)
  have shifted: "ns1 n = ?ns (n - 1)" if "2 \<le> n" "n \<le> ?mf" for n
  proof (cases "?ns (n - 1)")
    case None
    have "1 \<le> n - 1" "1 \<le> n" using that by linarith+
    with None have "?ns n = None"
      using holds_archive(1) [OF h, of "n - 1"] holds_archive(1) [OF h, of n] by simp
    with None casc [of n] that show ?thesis by (auto split: if_splits)
  next
    case (Some i)
    with casc [of n] that show ?thesis by (auto split: if_splits)
  qed
  have beyond: "ns1 n = None" if "?mf < n" for n
  proof -
    have "ns1 n = ?ns n" using casc [of n] that by (cases "n = 1") auto
    with holds_archive(1) [OF h, of n] live(4) that show ?thesis by simp
  qed
  have arch: "case ns2 n of None \<Rightarrow> length (take ?mf (live # arch)) < n
      | Some i \<Rightarrow> n \<le> length (take ?mf (live # arch)) \<and> ((inode_data r)(?fresh := [])) i = take ?mf (live # arch) ! (n - 1)
          \<and> i \<noteq> ?fresh \<and> i < ?fresh" if "1 \<le> n" for n
  proof -
    have "?mf < n \<or> (n = 1 \<and> 1 \<le> ?mf) \<or> (2 \<le> n \<and> n \<le> ?mf)" using that by arith
    then consider "?mf < n" | "n = 1" "1 \<le> ?mf" | "2 \<le> n" "n \<le> ?mf" by blast
    then show ?thesis
    proof cases
      case 1
      then show ?thesis using beyond [of n] by (auto simp: ns2_def)
    next
      case 2
      then show ?thesis using live by (cases ?mf) (auto simp: ns2_def)
    next
      case 3
      then have n: "ns2 n = ?ns (n - 1)" by (auto simp: ns2_def shifted)
      show ?thesis
      proof (cases "?ns (n - 1)")
        case None
        have "1 \<le> n - 1" using 3 by linarith
        with None have "length arch < n - 1" using holds_archive(1) [OF h] by blast
        with None show ?thesis using 3 by (auto simp: n)
      next
        case (Some i)
        from holds_archive(2) [OF h _ Some] 3
        have "n - 1 \<le> length arch" "inode_data r i = arch ! (n - Suc (Suc 0))" "i < ?fresh" by auto
        then show ?thesis using 3 Some by (auto simp: n nth_Cons' numeral_2_eq_2)
      qed
    qed
  qed
  have "i < Suc ?fresh" if "ns2 n = Some i" for n i
  proof (cases "n = 0")
    case True
    with that show ?thesis by (auto simp: ns2_def split: if_splits)
  next
    case False
    with arch [of n] that show ?thesis by auto
  qed
  moreover have "case ns2 n of None \<Rightarrow> length (take ?mf (live # arch)) < n
      | Some i \<Rightarrow> n \<le> length (take ?mf (live # arch)) \<and> ((inode_data r)(?fresh := [])) i = take ?mf (live # arch) ! (n - 1)
          \<and> i \<noteq> ?fresh" if "1 \<le> n" for n
    using arch [OF that] by (auto split: option.splits)
  moreover have "ns2 0 = Some ?fresh" by (simp add: ns2_def)
  ultimately show ?thesis using r' by (simp add: holds_def cong: option.case_cong)
qed

lemma write_holds:
  assumes h: "holds r x"
  shows "holds (snd (rotator_write (\<lambda>_. True) (Some (length e)) e r)) (log_write (max_bytes r) (max_files r) x e)
    \<and> max_files (snd (rotator_write (\<lambda>_. True) (Some (length e)) e r)) = max_files r
    \<and> max_bytes (snd (rotator_write (\<lambda>_. True) (Some (length e)) e r)) = max_bytes r"
proof -
  obtain arch live where x: "x = (arch, live)" by fastforce
  define app where "app q = q\<lparr>inode_data := (inode_data q)(open_file q := inode_data q (open_file q) @ e),
      written := written q + length e\<rparr>" for q :: rotator
  have append: "holds (app q) (a, l @ e)" if "holds q (a, l)" for q a l
    using that by (auto simp: holds_def app_def split: option.splits)
  have kept: "max_files (app q) = max_files q" "max_bytes (app q) = max_bytes q" for q by (simp_all add: app_def)
  have len: "written r = length live" using h by (simp add: holds_def x)
  show ?thesis
  proof (cases "0 < written r \<and> max_bytes r < written r + length e")
    case False
    then have w: "snd (rotator_write (\<lambda>_. True) (Some (length e)) e r) = app r"
      by (simp only: rotator_write_def if_False Let_def app_def) simp
    have "log_write (max_bytes r) (max_files r) x e = (arch, live @ e)" using False len by (auto simp: x)
    with append [OF h [unfolded x]] show ?thesis unfolding w kept by simp
  next
    case True
    obtain ok r' where rot: "rotate_files (\<lambda>_. True) r = (ok, r')" by fastforce
    have r': "holds r' (take (max_files r) (live # arch), [])" "max_files r' = max_files r" "max_bytes r' = max_bytes r"
      using rotate_holds [OF h [unfolded x] rot] by auto
    have w: "snd (rotator_write (\<lambda>_. True) (Some (length e)) e r) = app r'"
      using True by (simp only: rotator_write_def if_True Let_def app_def rot) simp
    have "log_write (max_bytes r) (max_files r) x e = (take (max_files r) (live # arch), [] @ e)"
      using True len by (auto simp: x)
    with append [OF r'(1)] show ?thesis unfolding w kept r'(2,3) by simp
  qed
qed

lemma run_holds:
  assumes "holds r x" and "max_files r = mf" and "max_bytes r = mb"
  shows "holds (foldl (\<lambda>r e. snd (rotator_write (\<lambda>_. True) (Some (length e)) e r)) r es) (foldl (log_write mb mf) x es)"
  using assms
proof (induction es arbitrary: r x)
  case Nil
  then show ?case by simp
next
  case (Cons e es)
  from write_holds [OF Cons.prems(1), of e] Cons.prems Cons.IH show ?case by simp
qed

text \<open>
  C32. The log keeps the most recent events in a bounded number of bounded files: opened on a directory
  without a log, after any events, each at most as long as the limit of a file, written while the
  system does what it is asked, the live file and the archives, read from the oldest, are the end of
  the stream of events, nothing missing in between, no file exceeds the limit and no more archives
  than configured are kept; and nothing at all is lost before there are that many.
\<close>

theorem log_keeps_recent:
  assumes "\<forall>e \<in> set es. length e \<le> mb"
    and "foldl (\<lambda>r e. snd (rotator_write (\<lambda>_. True) (Some (length e)) e r)) (rotator_open Map.empty data fresh mb mf) es = r"
  shows "\<exists>arch live lost. holds r (arch, live)
    \<and> concat es = lost @ concat (rev arch) @ live \<and> length arch \<le> mf
    \<and> (\<forall>f \<in> set (live # arch). length f \<le> mb) \<and> (length arch < mf \<longrightarrow> lost = [])"
proof -
  let ?x = "foldl (log_write mb mf) ([], []) es"
  have "holds (rotator_open Map.empty data fresh mb mf) ([], [])"
    by (auto simp: holds_def rotator_open_def split: option.split)
  from run_holds [OF this, of mf mb es] assms(2) have "holds r ?x" by (simp add: rotator_open_def)
  moreover obtain lost where "concat es = lost @ in_order ?x" "length (fst ?x) < mf \<longrightarrow> lost = []"
    using log_write_run [of "([], [])" es mb mf] by (auto simp: in_order_def)
  moreover have "length (fst ?x) \<le> mf \<and> (\<forall>f \<in> set (snd ?x # fst ?x). length f \<le> mb)"
    using log_queue.run_inv [of "([], [])" mf mb es] assms(1) by simp
  ultimately show ?thesis
    by (cases ?x) (auto simp: in_order_def)
qed

theorem log_keeps_recent_witness:
  "\<exists>arch live lost. holds (foldl (\<lambda>r e. snd (rotator_write (\<lambda>_. True) (Some (length e)) e r))
        (rotator_open Map.empty (\<lambda>_. []) 0 4 1) [[1, 2, 3], [4, 5], [6, 7, 8]]) (arch, live)
    \<and> [1, 2, 3, 4, 5, 6, 7, 8] = lost @ concat (rev arch) @ live \<and> length arch \<le> 1"
  using log_keeps_recent [OF _ refl, of "[[1, 2, 3], [4, 5], [6, 7, 8]]" 4 "\<lambda>_. []" 0 1] by auto

text \<open>
  A rotation that has renamed the live file and then fails to open a new one is not undone: the open
  file is by then the first archive, the next write past the limit moves it one archive up and fails
  at the renaming of a live file that is not there, and after as many such writes as there are
  archives what is written has no name any more.
\<close>

lemma failed_reopen_loses_log:
  "let ok = (\<lambda>c. c \<noteq> Reopen);
       r0 = (rotator_open [0 \<mapsto> 0] (\<lambda>_. [1]) 1 1 2);
       r = foldl (\<lambda>r e. snd (rotator_write ok (Some (length e)) e r)) r0 [[2], [3], [4]]
   in inode_data r (open_file r) = [1, 2, 3, 4] \<and> dir_names r 0 = None \<and> dir_names r 1 = None"
  by (simp add: rotator_open_def rotator_write_def rotate_files_def retire_live_def Let_def numeral_2_eq_2)

end
