(* ===== verification/Watchdog.thy ===== *)
theory Watchdog
  imports Rust_Std
begin

text \<open>
  The health check of \<open>src/src/health.rs\<close>: when it is armed, how it is configured, and the loop of
  its thread. A probe is what the runtime made of it: the task could not be spawned (the process is
  leaving), ran after a time, or never ran.
\<close>

definition WATCHDOG_EXIT_CODE :: nat where "WATCHDOG_EXIT_CODE = 70"

record health_config =
  probe_interval :: duration
  timeout :: duration
  failures_before_exit :: nat

definition health_default :: health_config where
  "health_default = \<lparr>probe_interval = from_secs 15, timeout = from_secs 30, failures_before_exit = 2\<rparr>"

definition parse_positive :: "nat \<Rightarrow> ustr option \<Rightarrow> nat option" where
  "parse_positive bound raw =
     Option.bind raw (\<lambda>v. Option.bind (parse_uint bound (trim v)) (\<lambda>n. if 0 < n then Some n else None))"

definition parse_secs :: "ustr option \<Rightarrow> duration \<Rightarrow> duration" where
  "parse_secs raw dflt = (case parse_positive (2 ^ 64 - 1) raw of Some s \<Rightarrow> from_secs s | None \<Rightarrow> dflt)"

definition parse_u32 :: "ustr option \<Rightarrow> nat \<Rightarrow> nat" where
  "parse_u32 raw dflt = (case parse_positive (2 ^ 32 - 1) raw of Some n \<Rightarrow> n | None \<Rightarrow> dflt)"

definition health_from_env :: "env \<Rightarrow> health_config" where
  "health_from_env e =
     \<lparr>probe_interval = parse_secs (e ''MACRDP_HEALTHCHECK_INTERVAL_SECS'') (probe_interval health_default),
      timeout = parse_secs (e ''MACRDP_HEALTHCHECK_TIMEOUT_SECS'') (timeout health_default),
      failures_before_exit = parse_u32 (e ''MACRDP_HEALTHCHECK_FAILURES'') (failures_before_exit health_default)\<rparr>"

definition should_arm :: "bool \<Rightarrow> ustr option \<Rightarrow> bool" where
  "should_arm stdout_is_tty env_override =
     (case map_option (\<lambda>s. to_ascii_lowercase (trim s)) env_override of
        None \<Rightarrow> \<not> stdout_is_tty
      | Some v \<Rightarrow>
          if v \<in> {lit ''1'', lit ''on'', lit ''true'', lit ''yes''} then True
          else if v \<in> {lit ''0'', lit ''off'', lit ''false'', lit ''no''} then False
          else \<not> stdout_is_tty)"

datatype probe = NotSpawned | RanAfter duration | NeverRan

definition probe_ok :: "duration \<Rightarrow> probe \<Rightarrow> bool" where
  "probe_ok limit p = (case p of NotSpawned \<Rightarrow> True | RanAfter d \<Rightarrow> d \<le> limit | NeverRan \<Rightarrow> False)"

text \<open>
  The loop over the probes of one run: the exit code and the probe after which the process leaves, or
  the count of misses to go on with.
\<close>

fun watch :: "health_config \<Rightarrow> nat \<Rightarrow> probe list \<Rightarrow> (nat \<times> nat) + nat" where
  "watch c misses [] = Inr misses"
| "watch c misses (p # ps) =
     (if probe_ok (timeout c) p then
        (case watch c 0 ps of Inl (code, k) \<Rightarrow> Inl (code, k + 1) | Inr m \<Rightarrow> Inr m)
      else
        let misses = misses + 1
        in if failures_before_exit c \<le> misses then Inl (WATCHDOG_EXIT_CODE, 1)
           else (case watch c misses ps of Inl (code, k) \<Rightarrow> Inl (code, k + 1) | Inr m \<Rightarrow> Inr m))"

section \<open>When it fires\<close>

text \<open>A run of as many misses as configured ends at \<open>k\<close>.\<close>

definition wedged_at :: "health_config \<Rightarrow> probe list \<Rightarrow> nat \<Rightarrow> bool" where
  "wedged_at c ps k \<longleftrightarrow> failures_before_exit c \<le> k \<and> k \<le> length ps
     \<and> (\<forall>p \<in> set (drop (k - failures_before_exit c) (take k ps)). \<not> probe_ok (timeout c) p)"

definition streak :: "health_config \<Rightarrow> nat \<Rightarrow> probe list \<Rightarrow> nat" where
  "streak c = foldl (\<lambda>n p. if probe_ok (timeout c) p then 0 else n + 1)"

lemma streak_suffix:
  "n \<le> streak c 0 ps \<longleftrightarrow> n \<le> length ps \<and> (\<forall>p \<in> set (drop (length ps - n) ps). \<not> probe_ok (timeout c) p)"
proof (induction ps arbitrary: n rule: rev_induct)
  case Nil
  then show ?case by (simp add: streak_def)
next
  case (snoc p ps)
  show ?case
  proof (cases n)
    case 0
    then show ?thesis by simp
  next
    case (Suc k)
    have "streak c 0 (ps @ [p]) = (if probe_ok (timeout c) p then 0 else streak c 0 ps + 1)" by (simp add: streak_def)
    with snoc.IH [of k] Suc show ?thesis by (auto simp: drop_append)
  qed
qed

lemma watch_streak:
  assumes "m < failures_before_exit c"
  shows "watch c m ps = Inl (code, k) \<longleftrightarrow> code = WATCHDOG_EXIT_CODE \<and> 0 < k \<and> k \<le> length ps
    \<and> failures_before_exit c \<le> streak c m (take k ps)
    \<and> (\<forall>j < k. 0 < j \<longrightarrow> streak c m (take j ps) < failures_before_exit c)"
  using assms
proof (induction ps arbitrary: m k)
  case Nil
  then show ?case by auto
next
  case (Cons p ps)
  define m' where "m' = (if probe_ok (timeout c) p then 0 else m + 1)"
  have shift: "streak c m (take (Suc j) (p # ps)) = streak c m' (take j ps)" for j
    by (simp add: streak_def m'_def)
  show ?case
  proof (cases "failures_before_exit c \<le> m'")
    case True
    then have miss: "\<not> probe_ok (timeout c) p" "m' = m + 1" using Cons.prems by (auto simp: m'_def split: if_splits)
    then have w: "watch c m (p # ps) = Inl (WATCHDOG_EXIT_CODE, 1)" using True by simp
    have one: "failures_before_exit c \<le> streak c m (take 1 (p # ps))" using miss True by (simp add: streak_def)
    consider "k = 0" | "k = 1" | "1 < k" by linarith
    then show ?thesis
    proof cases
      case 1
      then show ?thesis by (simp only: w) simp
    next
      case 2
      then show ?thesis using one by (simp only: w) auto
    next
      case 3
      then have "\<not> (\<forall>j < k. 0 < j \<longrightarrow> streak c m (take j (p # ps)) < failures_before_exit c)"
        using one by (meson leD zero_less_one)
      with 3 show ?thesis by (simp only: w) auto
    qed
  next
    case False
    then have w: "watch c m (p # ps) = (case watch c m' ps of Inl (code, k) \<Rightarrow> Inl (code, k + 1) | Inr j \<Rightarrow> Inr j)"
      by (auto simp: m'_def Let_def)
    have small: "m' < failures_before_exit c" using False by simp
    note IH = Cons.IH [OF this]
    have "watch c m (p # ps) = Inl (code, k) \<longleftrightarrow> (\<exists>i. k = Suc i \<and> watch c m' ps = Inl (code, i))"
      unfolding w by (auto split: sum.splits)
    also have "\<dots> \<longleftrightarrow> code = WATCHDOG_EXIT_CODE \<and> 0 < k \<and> k \<le> length (p # ps)
      \<and> failures_before_exit c \<le> streak c m (take k (p # ps))
      \<and> (\<forall>j < k. 0 < j \<longrightarrow> streak c m (take j (p # ps)) < failures_before_exit c)"
    proof (cases k)
      case 0
      then show ?thesis by simp
    next
      case (Suc i)
      have zero: "streak c m' (take 0 ps) < failures_before_exit c" using small by (simp add: streak_def)
      have "(\<forall>j < k. 0 < j \<longrightarrow> streak c m (take j (p # ps)) < failures_before_exit c)
        \<longleftrightarrow> (\<forall>j < i. streak c m' (take j ps) < failures_before_exit c)"
        unfolding Suc using shift by (metis Suc_less_eq gr0_conv_Suc zero_less_Suc)
      moreover have "(\<forall>j < i. streak c m' (take j ps) < failures_before_exit c)
        \<longleftrightarrow> (\<forall>j < i. 0 < j \<longrightarrow> streak c m' (take j ps) < failures_before_exit c)"
        using zero by (metis gr0I)
      moreover have "0 < i" if "failures_before_exit c \<le> streak c m' (take i ps)"
        using that zero by (cases i) auto
      ultimately show ?thesis using shift [of i] IH [of i] Suc by auto
    qed
    finally show ?thesis .
  qed
qed

text \<open>
  C37. The watchdog ends the process exactly when the runtime is wedged: with at least one miss
  required, after the first probe that is the last of as many probes in a row without an answer in
  time as configured, however many answered before, with the code launchd restarts on, and otherwise
  never; a probe that cannot be started, on the way out, counts as answered.
\<close>

theorem watchdog_exact:
  assumes "0 < failures_before_exit c"
  shows "(watch c 0 ps = Inl (code, k) \<longleftrightarrow>
      code = WATCHDOG_EXIT_CODE \<and> wedged_at c ps k \<and> (\<forall>j < k. \<not> wedged_at c ps j))
    \<and> ((\<forall>k. \<not> wedged_at c ps k) \<longrightarrow> isl (watch c 0 ps) = False)"
proof -
  have wedged: "wedged_at c ps j \<longleftrightarrow> j \<le> length ps \<and> failures_before_exit c \<le> streak c 0 (take j ps)" for j
    unfolding wedged_at_def streak_suffix by (auto simp: min_absorb2)
  have zero: "streak c 0 (take 0 ps) = 0" by (simp add: streak_def)
  have eq: "watch c 0 ps = Inl (code, k) \<longleftrightarrow>
      code = WATCHDOG_EXIT_CODE \<and> wedged_at c ps k \<and> (\<forall>j < k. \<not> wedged_at c ps j)" for code k
  proof -
    have pos: "\<not> wedged_at c ps j \<longleftrightarrow> (0 < j \<longrightarrow> streak c 0 (take j ps) < failures_before_exit c)"
      if "j \<le> length ps" for j
      using that assms zero by (cases "j = 0") (auto simp: wedged not_le)
    then have "(\<forall>j < k. \<not> wedged_at c ps j) \<longleftrightarrow> (\<forall>j < k. 0 < j \<longrightarrow> streak c 0 (take j ps) < failures_before_exit c)"
      if "k \<le> length ps"
      using that by (meson less_imp_le_nat le_trans)
    moreover have "0 < k" if "wedged_at c ps k"
      using that assms zero by (cases "k = 0") (auto simp: wedged)
    ultimately show ?thesis unfolding watch_streak [OF assms] wedged by blast
  qed
  moreover have "\<not> isl (watch c 0 ps)" if "\<forall>k. \<not> wedged_at c ps k"
  proof (cases "watch c 0 ps")
    case (Inl x)
    then obtain code k where "watch c 0 ps = Inl (code, k)" by (cases x) auto
    with eq that show ?thesis by blast
  qed simp
  ultimately show ?thesis by auto
qed

theorem watchdog_exact_witness:
  "watch health_default 0 [NeverRan, RanAfter 5, NeverRan, NeverRan, RanAfter 1] = Inl (70, 4)"
proof -
  let ?ps = "[NeverRan, RanAfter 5, NeverRan, NeverRan, RanAfter 1]"
  have "0 < failures_before_exit health_default" by (simp add: health_default_def)
  note exact = watchdog_exact [OF this]
  have ok: "probe_ok (timeout health_default) (RanAfter 5)"
    by (simp add: probe_ok_def health_default_def from_secs_def NANOS_def)
  have "wedged_at health_default ?ps 4" by (simp add: wedged_at_def health_default_def probe_ok_def)
  moreover have "\<not> wedged_at health_default ?ps j" if "j < 4" for j
  proof -
    from that consider "j = 0" | "j = 1" | "j = 2" | "j = 3" by linarith
    then show ?thesis
      by cases (use ok in \<open>simp_all add: wedged_at_def health_default_def\<close>)
  qed
  ultimately show ?thesis using exact [of ?ps WATCHDOG_EXIT_CODE 4] unfolding WATCHDOG_EXIT_CODE_def by blast
qed

end
