(* ===== verification/Yuv_Split.thy ===== *)
theory Yuv_Split
  imports Prelude Bytes
begin

text \<open>
  The AVC444 plane packing of \<open>src/src/avc444.rs\<close>: \<open>split_yuv444_to_yuv420_v1\<close> spreads a
  full-resolution YUV444 picture over a main and an auxiliary YUV420 picture, and the two
  \<open>combine_*\<close> passes put it together again. A plane is the byte slice the code is handed; its rows
  are addressed as the code does, by offset \<open>y * stride\<close>, and a row that does not fit into the
  slice is the code's slice-index panic, \<open>None\<close>. Products of dimensions and strides are natural
  numbers: an offset that overflows \<open>usize\<close> lies beyond every slice. The \<open>debug_assert\<close>s on
  even dimensions are compiled out, as in the released program.
\<close>

section \<open>Rows of a plane\<close>

text \<open>\<open>for i in lo..lo + n\<close>, left on the first panic.\<close>

fun for_range :: "nat \<Rightarrow> nat \<Rightarrow> (nat \<Rightarrow> 's \<Rightarrow> 's option) \<Rightarrow> 's \<Rightarrow> 's option" where
  "for_range lo 0 f s = Some s"
| "for_range lo (Suc n) f s = Option.bind (f lo s) (for_range (Suc lo) n f)"

text \<open>\<open>&plane[off..off + len]\<close>\<close>

definition row :: "bytes \<Rightarrow> nat \<Rightarrow> nat \<Rightarrow> bytes option" where
  "row plane off len = (if off + len \<le> length plane then Some (take len (drop off plane)) else None)"

text \<open>Writing a row back through the \<open>&mut plane[off..off + len]\<close> it was borrowed by.\<close>

definition put_row :: "bytes \<Rightarrow> nat \<Rightarrow> bytes \<Rightarrow> bytes" where
  "put_row plane off r = take off plane @ r @ drop (off + length r) plane"

text \<open>\<open>dst[doff..doff + len].copy_from_slice(&src[soff..soff + len])\<close>\<close>

definition copy_row :: "bytes \<Rightarrow> nat \<Rightarrow> nat \<Rightarrow> bytes \<Rightarrow> nat \<Rightarrow> bytes option" where
  "copy_row src soff len dst doff =
     Option.bind (row src soff len) (\<lambda>r.
     Option.bind (row dst doff len) (\<lambda>_. Some (put_row dst doff r)))"

definition padded_aux_height :: "nat \<Rightarrow> nat" where
  "padded_aux_height height = height - height mod 16 + 16"

section \<open>Splitting\<close>

text \<open>B1: the luma plane, row by row.\<close>

definition copy_plane :: "bytes \<Rightarrow> nat \<Rightarrow> nat \<Rightarrow> nat \<Rightarrow> bytes \<Rightarrow> nat \<Rightarrow> bytes option" where
  "copy_plane src src_stride width height dst dst_stride =
     for_range 0 height (\<lambda>y d. copy_row src (y * src_stride) width d (y * dst_stride)) dst"

text \<open>
  The loops of B2/B3 and B6/B7 over the even source rows: the four rows are borrowed in the order
  of the code, then the columns \<open>col 0, col 1, \<dots>\<close> of the sources are gathered.
\<close>

definition gather_rows ::
  "(nat \<Rightarrow> nat) \<Rightarrow> bytes \<Rightarrow> bytes \<Rightarrow> nat \<Rightarrow> nat \<Rightarrow> nat \<Rightarrow> nat \<Rightarrow> nat \<Rightarrow> nat \<Rightarrow> bytes \<times> bytes
     \<Rightarrow> (bytes \<times> bytes) option" where
  "gather_rows col src_u src_v stride_u stride_v width height dstride_u dstride_v =
     for_range 0 (height div 2) (\<lambda>y (du, dv).
       Option.bind (row src_u (2 * y * stride_u) width) (\<lambda>ru.
       Option.bind (row src_v (2 * y * stride_v) width) (\<lambda>rv.
       Option.bind (row du (y * dstride_u) (width div 2)) (\<lambda>_.
       Option.bind (row dv (y * dstride_v) (width div 2)) (\<lambda>_.
         Some (put_row du (y * dstride_u) (map (\<lambda>x. ru ! col x) [0 ..< width div 2]),
               put_row dv (y * dstride_v) (map (\<lambda>x. rv ! col x) [0 ..< width div 2])))))))"

text \<open>
  B4/B5: the odd rows of U and V, in strips of eight lines, into the auxiliary luma plane. The two
  counters advance with every line, also with the lines of the padding that are skipped.
\<close>

definition pack_odd_rows ::
  "bytes \<Rightarrow> bytes \<Rightarrow> nat \<Rightarrow> nat \<Rightarrow> nat \<Rightarrow> nat \<Rightarrow> bytes \<Rightarrow> nat \<Rightarrow> (nat \<times> nat \<times> bytes) option" where
  "pack_odd_rows src_u src_v stride_u stride_v width height aux_y aux_stride =
     for_range 0 (padded_aux_height height) (\<lambda>y (u_y, v_y, d).
       if y mod 16 < 8 then
         if height \<le> 2 * u_y + 1 then Some (u_y + 1, v_y, d)
         else map_option (\<lambda>d'. (u_y + 1, v_y, d'))
           (copy_row src_u ((2 * u_y + 1) * stride_u) width d (y * aux_stride))
       else
         if height \<le> 2 * v_y + 1 then Some (u_y, v_y + 1, d)
         else map_option (\<lambda>d'. (u_y, v_y + 1, d'))
           (copy_row src_v ((2 * v_y + 1) * stride_v) width d (y * aux_stride)))
       (0, 0, aux_y)"

text \<open>The planes of a picture with their strides.\<close>

record picture =
  plane_y :: bytes
  plane_u :: bytes
  plane_v :: bytes
  pitch_y :: nat
  pitch_u :: nat
  pitch_v :: nat

definition split_yuv444_to_yuv420_v1 ::
  "picture \<Rightarrow> picture \<Rightarrow> picture \<Rightarrow> nat \<Rightarrow> nat \<Rightarrow> (picture \<times> picture) option" where
  "split_yuv444_to_yuv420_v1 src main aux width height =
     Option.bind (copy_plane (plane_y src) (pitch_y src) width height (plane_y main) (pitch_y main))
       (\<lambda>my.
     Option.bind (gather_rows (\<lambda>x. 2 * x) (plane_u src) (plane_v src) (pitch_u src) (pitch_v src)
         width height (pitch_u main) (pitch_v main) (plane_u main, plane_v main)) (\<lambda>(mu, mv).
     Option.bind (pack_odd_rows (plane_u src) (plane_v src) (pitch_u src) (pitch_v src)
         width height (plane_y aux) (pitch_y aux)) (\<lambda>(_, _, ay).
     Option.bind (gather_rows (\<lambda>x. min (2 * x + 1) (width - 1)) (plane_u src) (plane_v src)
         (pitch_u src) (pitch_v src) width height (pitch_u aux) (pitch_v aux)
         (plane_u aux, plane_v aux)) (\<lambda>(au, av).
     Some (main \<lparr>plane_y := my, plane_u := mu, plane_v := mv\<rparr>,
           aux \<lparr>plane_y := ay, plane_u := au, plane_v := av\<rparr>)))))"

section \<open>Combining\<close>

text \<open>
  \<open>split_two_rows_mut\<close>: the offsets of the two rows it lends. The bottom row is missing when it
  runs past the end of the slice; the top row is then cut from the whole slice, otherwise from the
  part before the bottom row.
\<close>

definition split_two_rows_mut :: "bytes \<Rightarrow> nat \<Rightarrow> nat \<Rightarrow> nat \<Rightarrow> nat \<Rightarrow> (nat \<times> nat option) option" where
  "split_two_rows_mut plane stride top_row bot_row row_len =
     (let top_off = top_row * stride; bot_off = bot_row * stride in
      if length plane < bot_off + row_len then
        if top_off + row_len \<le> length plane then Some (top_off, None) else None
      else if top_off + row_len \<le> bot_off then Some (top_off, Some bot_off) else None)"

text \<open>The samples \<open>r\<close>, each written to its even column and, inside the row, to the odd one after it.\<close>

definition spread :: "bytes \<Rightarrow> nat \<Rightarrow> nat \<Rightarrow> bytes \<Rightarrow> bytes" where
  "spread r width off plane =
     fold (\<lambda>x p. (let p' = p[off + 2 * x := r ! x] in
             if 2 * x + 1 < width then p'[off + (2 * x + 1) := r ! x] else p'))
       [0 ..< width div 2] plane"

definition combine_luma_to_yuv444 :: "picture \<Rightarrow> picture \<Rightarrow> nat \<Rightarrow> nat \<Rightarrow> picture option" where
  "combine_luma_to_yuv444 main dst width height =
     Option.bind (copy_plane (plane_y main) (pitch_y main) width height (plane_y dst) (pitch_y dst))
       (\<lambda>dy.
     Option.bind (for_range 0 (height div 2) (\<lambda>y (du, dv).
         Option.bind (row (plane_u main) (y * pitch_u main) (width div 2)) (\<lambda>ru.
         Option.bind (row (plane_v main) (y * pitch_v main) (width div 2)) (\<lambda>rv.
         Option.bind (split_two_rows_mut du (pitch_u dst) (2 * y) (2 * y + 1) width)
           (\<lambda>(utop, ubot).
         Option.bind (split_two_rows_mut dv (pitch_v dst) (2 * y) (2 * y + 1) width)
           (\<lambda>(vtop, vbot).
         (let du1 = spread ru width utop du; dv1 = spread rv width vtop dv in
          Some (case (ubot, vbot) of
              (Some ub, Some vb) \<Rightarrow> (spread ru width ub du1, spread rv width vb dv1)
            | _ \<Rightarrow> (du1, dv1))))))))
         (plane_u dst, plane_v dst)) (\<lambda>(du, dv).
     Some (dst \<lparr>plane_y := dy, plane_u := du, plane_v := dv\<rparr>)))"

text \<open>The samples \<open>r\<close>, written to the odd columns of a row.\<close>

definition fill_odd :: "bytes \<Rightarrow> nat \<Rightarrow> nat \<Rightarrow> bytes \<Rightarrow> bytes" where
  "fill_odd r width off plane =
     fold (\<lambda>x p. p[off + (2 * x + 1) := r ! x]) [0 ..< width div 2] plane"

definition unpack_odd_rows ::
  "bytes \<Rightarrow> nat \<Rightarrow> nat \<Rightarrow> nat \<Rightarrow> bytes \<Rightarrow> bytes \<Rightarrow> nat \<Rightarrow> nat \<Rightarrow> (nat \<times> nat \<times> bytes \<times> bytes) option" where
  "unpack_odd_rows aux_y aux_stride width height dst_u dst_v stride_u stride_v =
     for_range 0 (padded_aux_height height) (\<lambda>y (u_y, v_y, du, dv).
       if y mod 16 < 8 then
         if height \<le> 2 * u_y + 1 then Some (u_y + 1, v_y, du, dv)
         else map_option (\<lambda>d. (u_y + 1, v_y, d, dv))
           (copy_row aux_y (y * aux_stride) width du ((2 * u_y + 1) * stride_u))
       else
         if height \<le> 2 * v_y + 1 then Some (u_y, v_y + 1, du, dv)
         else map_option (\<lambda>d. (u_y, v_y + 1, du, d))
           (copy_row aux_y (y * aux_stride) width dv ((2 * v_y + 1) * stride_v)))
       (0, 0, dst_u, dst_v)"

definition combine_chroma_v1_to_yuv444 :: "picture \<Rightarrow> picture \<Rightarrow> nat \<Rightarrow> nat \<Rightarrow> picture option" where
  "combine_chroma_v1_to_yuv444 aux dst width height =
     Option.bind (unpack_odd_rows (plane_y aux) (pitch_y aux) width height
         (plane_u dst) (plane_v dst) (pitch_u dst) (pitch_v dst)) (\<lambda>(_, _, du0, dv0).
     Option.bind (for_range 0 (height div 2) (\<lambda>y (du, dv).
         Option.bind (row (plane_u aux) (y * pitch_u aux) (width div 2)) (\<lambda>ru.
         Option.bind (row (plane_v aux) (y * pitch_v aux) (width div 2)) (\<lambda>rv.
         Option.bind (row du (2 * y * pitch_u dst) width) (\<lambda>_.
         Option.bind (row dv (2 * y * pitch_v dst) width) (\<lambda>_.
         Some (fill_odd ru width (2 * y * pitch_u dst) du,
               fill_odd rv width (2 * y * pitch_v dst) dv))))))
         (du0, dv0)) (\<lambda>(du, dv).
     Some (dst \<lparr>plane_u := du, plane_v := dv\<rparr>)))"

end
