(* ===== verification/Yuv_Props.thy ===== *)
theory Yuv_Props
  imports Yuv_Split
begin

text \<open>
  The plane packing loses nothing: the two combining passes give back the picture the split was
  made from. Each loop has one lemma that says which sample of its source every sample of its
  result is; \<open>pix\<close> reads the sample of a row and a column.
\<close>

section \<open>Samples\<close>

definition pix :: "bytes \<Rightarrow> nat \<Rightarrow> nat \<Rightarrow> nat \<Rightarrow> u8" where
  "pix p s y x = p ! (y * s + x)"

definition fits :: "bytes \<Rightarrow> nat \<Rightarrow> nat \<Rightarrow> nat \<Rightarrow> bool" where
  "fits p s w h \<longleftrightarrow> w \<le> s \<and> (\<forall>y<h. y * s + w \<le> length p)"

lemma fitsD: "fits p s w h \<Longrightarrow> y < h \<Longrightarrow> y * s + w \<le> length p"
  by (simp add: fits_def)

lemma fits_stride: "fits p s w h \<Longrightarrow> w \<le> s"
  by (simp add: fits_def)

lemma fits_cong: "length q = length p \<Longrightarrow> fits q s w h = fits p s w h"
  by (simp add: fits_def)

lemma offset_eq:
  assumes "(x::nat) < s" and "x' < s"
  shows "y * s + x = y' * s + x' \<longleftrightarrow> y = y' \<and> x = x'"
proof
  assume eq: "y * s + x = y' * s + x'"
  have "y = y'" using arg_cong [OF eq, of "\<lambda>n. n div s"] assms by simp
  with eq show "y = y' \<and> x = x'" by simp
qed simp

lemma offset_between:
  assumes "w \<le> s" and "(x::nat) < s"
  shows "y * s \<le> y' * s + x \<and> y' * s + x < y * s + w \<longleftrightarrow> y' = y \<and> x < w"
proof
  assume a: "y * s \<le> y' * s + x \<and> y' * s + x < y * s + w"
  then obtain d where d: "y' * s + x = y * s + d" and "d < w"
    by (metis add_less_cancel_left le_Suc_ex)
  with assms show "y' = y \<and> x < w" using offset_eq [of x s d y' y] by auto
qed simp

lemma length_put_row [simp]: "off + length r \<le> length p \<Longrightarrow> length (put_row p off r) = length p"
  by (simp add: put_row_def)

lemma nth_put_row:
  "off + length r \<le> length p \<Longrightarrow>
     put_row p off r ! j = (if off \<le> j \<and> j < off + length r then r ! (j - off) else p ! j)"
  by (auto simp: put_row_def nth_append)

lemma pix_put_row:
  assumes "length r \<le> s" and "y * s + length r \<le> length p" and "x < s"
  shows "pix (put_row p (y * s) r) s y' x = (if y' = y \<and> x < length r then r ! x else pix p s y' x)"
  using offset_between [OF assms(1,3), of y y'] by (auto simp: pix_def nth_put_row assms(2))

lemma row_Some: "off + len \<le> length p \<Longrightarrow> row p off len = Some (take len (drop off p))"
  by (simp add: row_def)

lemma copy_row_Some:
  assumes "soff + len \<le> length src" and "doff + len \<le> length dst"
  shows "copy_row src soff len dst doff = Some (put_row dst doff (take len (drop soff src)))"
  using assms by (simp add: copy_row_def row_def)

lemma pix_copied:
  assumes "w \<le> s" and "y * s + w \<le> length p" and "y0 * ss + w \<le> length src" and "x < s"
  shows "pix (put_row p (y * s) (take w (drop (y0 * ss) src))) s y' x =
    (if y' = y \<and> x < w then pix src ss y0 x else pix p s y' x)"
  using assms by (subst pix_put_row) (auto simp: pix_def)

lemma for_range_rule:
  assumes "P lo s"
    and "\<And>i t. lo \<le> i \<Longrightarrow> i < lo + n \<Longrightarrow> P i t \<Longrightarrow> \<exists>u. f i t = Some u \<and> P (Suc i) u"
  shows "\<exists>u. for_range lo n f s = Some u \<and> P (lo + n) u"
  using assms
proof (induction n arbitrary: lo s)
  case 0
  then show ?case by simp
next
  case (Suc n)
  from Suc.prems(2) [of lo s] Suc.prems(1) obtain t where t: "f lo s = Some t" "P (Suc lo) t"
    by auto
  have "\<exists>u. for_range (Suc lo) n f t = Some u \<and> P (Suc lo + n) u"
  proof (rule Suc.IH)
    show "P (Suc lo) t" by (rule t(2))
  next
    fix i t
    assume "Suc lo \<le> i" "i < Suc lo + n" "P i t"
    then show "\<exists>u. f i t = Some u \<and> P (Suc i) u" by (intro Suc.prems(2)) auto
  qed
  with t show ?case by simp
qed

section \<open>The loops of the split\<close>

lemma copy_plane_pix:
  assumes "fits src ss w h" and "fits dst ds w h"
  shows "\<exists>d. copy_plane src ss w h dst ds = Some d \<and> length d = length dst
    \<and> (\<forall>y<h. \<forall>x<w. pix d ds y x = pix src ss y x)"
proof -
  let ?P = "\<lambda>i d. length d = length dst \<and> (\<forall>y<i. \<forall>x<w. pix d ds y x = pix src ss y x)"
  have "\<exists>u. for_range 0 h (\<lambda>y d. copy_row src (y * ss) w d (y * ds)) dst = Some u \<and> ?P (0 + h) u"
  proof (rule for_range_rule [where P = ?P])
    fix i t
    assume i: "i < 0 + h" and t: "?P i t"
    have b: "i * ss + w \<le> length src" "i * ds + w \<le> length t" "w \<le> ds"
      using fitsD [OF assms(1)] fitsD [OF assms(2)] fits_stride [OF assms(2)] i t by auto
    have "?P (Suc i) (put_row t (i * ds) (take w (drop (i * ss) src)))"
      using b t by (auto simp: pix_copied less_Suc_eq)
    then show "\<exists>u. copy_row src (i * ss) w t (i * ds) = Some u \<and> ?P (Suc i) u"
      using copy_row_Some [OF b(1,2)] by blast
  qed simp
  then show ?thesis by (simp add: copy_plane_def)
qed

lemma gather_rows_pix:
  assumes "fits su ssu w h" and "fits sv ssv w h"
    and "fits du dsu (w div 2) (h div 2)" and "fits dv dsv (w div 2) (h div 2)"
    and "\<forall>x < w div 2. col x < w"
  shows "\<exists>u v. gather_rows col su sv ssu ssv w h dsu dsv (du, dv) = Some (u, v)
    \<and> length u = length du \<and> length v = length dv
    \<and> (\<forall>y < h div 2. \<forall>x < w div 2.
          pix u dsu y x = pix su ssu (2 * y) (col x) \<and> pix v dsv y x = pix sv ssv (2 * y) (col x))"
proof -
  let ?P = "\<lambda>i (u, v). length u = length du \<and> length v = length dv
    \<and> (\<forall>y < i. \<forall>x < w div 2.
          pix u dsu y x = pix su ssu (2 * y) (col x) \<and> pix v dsv y x = pix sv ssv (2 * y) (col x))"
  have "\<exists>t. gather_rows col su sv ssu ssv w h dsu dsv (du, dv) = Some t \<and> ?P (0 + h div 2) t"
    unfolding gather_rows_def
  proof (rule for_range_rule [where P = ?P], goal_cases)
    case (2 i t)
    obtain u v where t: "t = (u, v)" by (cases t)
    have i: "2 * i < h" "i < h div 2" using 2 by auto
    have b: "2 * i * ssu + w \<le> length su" "2 * i * ssv + w \<le> length sv"
      "i * dsu + w div 2 \<le> length u" "i * dsv + w div 2 \<le> length v"
      "w div 2 \<le> dsu" "w div 2 \<le> dsv"
      using fitsD [OF assms(1) i(1)] fitsD [OF assms(2) i(1)] fitsD [OF assms(3) i(2)]
        fitsD [OF assms(4) i(2)] fits_stride [OF assms(3)] fits_stride [OF assms(4)] 2 t by auto
    have "?P (Suc i) (put_row u (i * dsu) (map (\<lambda>x. take w (drop (2 * i * ssu) su) ! col x) [0 ..< w div 2]),
        put_row v (i * dsv) (map (\<lambda>x. take w (drop (2 * i * ssv) sv) ! col x) [0 ..< w div 2]))"
      using b 2 t assms(5) by (auto simp: pix_put_row less_Suc_eq) (auto simp: pix_def)
    then show ?case using b by (simp add: t row_Some del: split_paired_Ex)
  qed simp
  then show ?thesis by auto
qed

text \<open>Where the packing of the odd rows keeps row \<open>p\<close> of U; row \<open>p\<close> of V is eight lines below.\<close>

definition strip_line :: "nat \<Rightarrow> nat" where
  "strip_line p = 16 * (p div 16) + (p div 2) mod 8"

definition strip_row :: "nat \<Rightarrow> nat" where
  "strip_row y = 2 * (8 * (y div 16) + y mod 8) + 1"

text \<open>The two counters of the packing loops after \<open>i\<close> lines.\<close>

definition u_lines :: "nat \<Rightarrow> nat" where "u_lines i = 8 * (i div 16) + min (i mod 16) 8"
definition v_lines :: "nat \<Rightarrow> nat" where "v_lines i = 8 * (i div 16) + (i mod 16 - 8)"

lemma strip_arith:
  fixes i :: nat
  shows "i mod 16 < 8 \<Longrightarrow> 2 * u_lines i + 1 = strip_row i \<and> u_lines (Suc i) = u_lines i + 1
      \<and> v_lines (Suc i) = v_lines i"
    and "\<not> i mod 16 < 8 \<Longrightarrow> 2 * v_lines i + 1 = strip_row i \<and> v_lines (Suc i) = v_lines i + 1
      \<and> u_lines (Suc i) = u_lines i"
proof -
  define q r where "q = i div 16" and "r = i mod 16"
  have i: "i = 16 * q + r" "r < 16" by (simp_all add: q_def r_def)
  have d: "i div 16 = q" "i mod 16 = r" "i mod 8 = r mod 8"
    using i by (auto simp: q_def r_def mod_mod_cancel)
  have s: "Suc i div 16 = (if r = 15 then q + 1 else q)" "Suc i mod 16 = (if r = 15 then 0 else r + 1)"
    using i by (auto; presburger)+
  have m: "r < 8 \<Longrightarrow> r mod 8 = r" "\<not> r < 8 \<Longrightarrow> r mod 8 = r - 8"
    using i(2) by (auto simp: mod_if)
  show "i mod 16 < 8 \<Longrightarrow> 2 * u_lines i + 1 = strip_row i \<and> u_lines (Suc i) = u_lines i + 1
      \<and> v_lines (Suc i) = v_lines i"
    using m by (simp add: u_lines_def v_lines_def strip_row_def d s)
  show "\<not> i mod 16 < 8 \<Longrightarrow> 2 * v_lines i + 1 = strip_row i \<and> v_lines (Suc i) = v_lines i + 1
      \<and> u_lines (Suc i) = u_lines i"
    using i(2) m by (auto simp: u_lines_def v_lines_def strip_row_def d s)
qed

lemma counters_0 [simp]: "u_lines 0 = 0" "v_lines 0 = 0"
  by (simp_all add: u_lines_def v_lines_def)

lemma mod_sixteen: "(16 * q + r) mod 8 = r mod (8::nat)"
proof -
  have "16 * q + r = 2 * q * 8 + r" by simp
  then show ?thesis by (simp only: mod_mult_self3)
qed

lemma strip_row_line:
  assumes "odd p"
  shows "strip_row (strip_line p) = p" and "strip_row (strip_line p + 8) = p"
    and "strip_line p mod 16 < 8" and "\<not> (strip_line p + 8) mod 16 < 8"
proof -
  obtain k where p: "p = 2 * k + 1" using assms by (elim oddE)
  define q r where "q = k div 8" and "r = k mod 8"
  have k: "k = 8 * q + r" "r < 8" by (simp_all add: q_def r_def)
  have l: "strip_line p = 16 * q + r"
    using k by (simp add: strip_line_def p)
  have e: "(16 * q + r) div 16 = q" "(16 * q + r + 8) div 16 = q" using k(2) by simp_all
  have e': "(16 * q + r) mod 8 = r" "(16 * q + r + 8) mod 8 = r"
    using mod_sixteen [of q r] mod_sixteen [of q "r + 8"] k(2) by (simp_all add: add.assoc)
  show "strip_row (strip_line p) = p" "strip_row (strip_line p + 8) = p"
    unfolding l strip_row_def e e' by (simp_all add: p k(1))
  show "strip_line p mod 16 < 8" "\<not> (strip_line p + 8) mod 16 < 8"
    using k(2) unfolding l by (simp_all add: add.assoc)
qed

lemma odd_strip_row: "odd (strip_row i)"
  by (simp add: strip_row_def)

lemma strip_line_strip_row:
  "i mod 16 < 8 \<Longrightarrow> strip_line (strip_row i) = i"
  "\<not> i mod 16 < 8 \<Longrightarrow> strip_line (strip_row i) + 8 = i"
proof -
  define q r where "q = i div 16" and "r = i mod 16"
  have i: "i = 16 * q + r" "r < 16" by (simp_all add: q_def r_def)
  have d: "i div 16 = q" "i mod 16 = r" "i mod 8 = r mod 8"
    using i by (auto simp: q_def r_def mod_mod_cancel)
  have k: "strip_row i div 2 mod 8 = r mod 8" "strip_row i div 16 = q"
    by (simp_all add: strip_row_def d)
  show "i mod 16 < 8 \<Longrightarrow> strip_line (strip_row i) = i"
    by (simp only: strip_line_def k d) (simp add: i(1))
  show "\<not> i mod 16 < 8 \<Longrightarrow> strip_line (strip_row i) + 8 = i"
    using i(2) mod_sixteen [of q "r - 8"] unfolding strip_line_def k d by (simp add: i(1) mod_if [of r])
qed

lemma strip_line_row:
  "i mod 16 < 8 \<Longrightarrow> odd p \<and> strip_line p = i \<longleftrightarrow> p = strip_row i"
  "\<not> i mod 16 < 8 \<Longrightarrow> odd p \<and> strip_line p + 8 = i \<longleftrightarrow> p = strip_row i"
  using strip_row_line strip_line_strip_row odd_strip_row by metis+

lemma strip_line_bound: "p < h \<Longrightarrow> strip_line p + 8 < padded_aux_height h"
proof -
  assume "p < h"
  then have "p div 16 \<le> h div 16" by (intro div_le_mono) simp
  then have "16 * (p div 16) \<le> h - h mod 16" by (simp add: minus_mod_eq_mult_div)
  moreover have "p div 2 mod 8 < 8" by simp
  ultimately show ?thesis by (simp add: strip_line_def padded_aux_height_def)
qed

lemma pack_odd_rows_pix:
  assumes "fits su ssu w h" and "fits sv ssv w h" and "fits ay as w (padded_aux_height h)"
  shows "\<exists>m n d. pack_odd_rows su sv ssu ssv w h ay as = Some (m, n, d) \<and> length d = length ay
    \<and> (\<forall>y < padded_aux_height h. strip_row y < h \<longrightarrow> (\<forall>x<w. pix d as y x =
          (if y mod 16 < 8 then pix su ssu (strip_row y) x else pix sv ssv (strip_row y) x)))"
proof -
  let ?P = "\<lambda>i (m, n, d). m = u_lines i \<and> n = v_lines i \<and> length d = length ay
    \<and> (\<forall>y < i. strip_row y < h \<longrightarrow> (\<forall>x<w. pix d as y x =
          (if y mod 16 < 8 then pix su ssu (strip_row y) x else pix sv ssv (strip_row y) x)))"
  have "\<exists>t. pack_odd_rows su sv ssu ssv w h ay as = Some t \<and> ?P (0 + padded_aux_height h) t"
    unfolding pack_odd_rows_def
  proof (rule for_range_rule [where P = ?P], goal_cases)
    case (2 i t)
    obtain m n d where t: "t = (m, n, d)" by (metis prod_cases3)
    have P: "m = u_lines i" "n = v_lines i" "length d = length ay"
      and old: "\<forall>y < i. strip_row y < h \<longrightarrow> (\<forall>x<w. pix d as y x =
          (if y mod 16 < 8 then pix su ssu (strip_row y) x else pix sv ssv (strip_row y) x))"
      using 2(3) by (auto simp: t)
    have b: "i * as + w \<le> length d" "w \<le> as"
      using fitsD [OF assms(3)] fits_stride [OF assms(3)] 2(2) P(3) by auto
    show ?case
    proof (cases "i mod 16 < 8")
      case True
      note a = strip_arith(1) [OF True]
      show ?thesis
      proof (cases "strip_row i < h")
        case False
        with True a P old show ?thesis by (auto simp: t less_Suc_eq)
      next
        case in_h: True
        note c = copy_row_Some [OF fitsD [OF assms(1) in_h] b(1)]
        have "?P (Suc i) (m + 1, n, put_row d (i * as) (take w (drop (strip_row i * ssu) su)))"
          using a P old b fitsD [OF assms(1) in_h] True by (auto simp: pix_copied less_Suc_eq)
        then show ?thesis using True in_h a P c by (simp add: t not_le del: split_paired_Ex)
      qed
    next
      case False
      note a = strip_arith(2) [OF False]
      show ?thesis
      proof (cases "strip_row i < h")
        case out: False
        with False a P old show ?thesis by (auto simp: t less_Suc_eq)
      next
        case in_h: True
        note c = copy_row_Some [OF fitsD [OF assms(2) in_h] b(1)]
        have "?P (Suc i) (m, n + 1, put_row d (i * as) (take w (drop (strip_row i * ssv) sv)))"
          using a P old b fitsD [OF assms(2) in_h] False by (auto simp: pix_copied less_Suc_eq)
        then show ?thesis using False in_h a P c by (simp add: t not_le del: split_paired_Ex)
      qed
    qed
  qed simp
  then show ?thesis by auto
qed

section \<open>The loops of the combination\<close>

lemma length_spread [simp]: "length (spread r w off p) = length p"
proof -
  have "length (fold (\<lambda>x p. (let p' = p[off + 2 * x := r ! x] in
             if 2 * x + 1 < w then p'[off + (2 * x + 1) := r ! x] else p')) xs p) = length p" for xs
    by (induction xs arbitrary: p) (auto simp: Let_def)
  then show ?thesis by (simp add: spread_def)
qed

lemma nth_spread:
  assumes "off + w \<le> length p" and "even w"
  shows "spread r w off p ! j =
    (if off \<le> j \<and> j < off + w then r ! ((j - off) div 2) else p ! j)"
proof -
  let ?f = "\<lambda>x p. (let p' = p[off + 2 * x := r ! x] in
             if 2 * x + 1 < w then p'[off + (2 * x + 1) := r ! x] else p')"
  have "length (fold ?f [0 ..< n] p) = length p \<and> (\<forall>j. fold ?f [0 ..< n] p ! j =
      (if off \<le> j \<and> j < off + 2 * n then r ! ((j - off) div 2) else p ! j))" if "n \<le> w div 2" for n
    using that
  proof (induction n)
    case (Suc n)
    define q where "q = fold ?f [0 ..< n] p"
    have q: "length q = length p" "\<And>j. q ! j =
      (if off \<le> j \<and> j < off + 2 * n then r ! ((j - off) div 2) else p ! j)"
      using Suc by (simp_all add: q_def)
    have lt: "2 * n + 1 < w" using Suc.prems assms(2) by linarith
    have "fold ?f [0 ..< Suc n] p = ?f n q" unfolding q_def by (simp only: upt_Suc fold_append fold.simps) simp
    also have "\<dots> = q[off + 2 * n := r ! n, off + (2 * n + 1) := r ! n]"
      using lt by (simp only: Let_def if_True)
    finally have e: "fold ?f [0 ..< Suc n] p = q[off + 2 * n := r ! n, off + (2 * n + 1) := r ! n]" .
    have l: "off + (2 * n + 1) < length p" using Suc.prems assms by linarith
    have "q[off + 2 * n := r ! n, off + (2 * n + 1) := r ! n] ! j =
      (if off \<le> j \<and> j < off + 2 * Suc n then r ! ((j - off) div 2) else p ! j)" for j
    proof -
      consider "j = off + 2 * n" | "j = off + (2 * n + 1)" | "j < off + 2 * n" | "off + 2 * Suc n \<le> j"
        by fastforce
      then show ?thesis using l q(1) by cases (auto simp: q(2) nth_list_update)
    qed
    with e q(1) show ?case by simp
  qed auto
  from this [of "w div 2"] assms(2) show ?thesis by (simp add: spread_def)
qed

lemma pix_spread:
  assumes "w \<le> s" and "y * s + w \<le> length p" and "x < s" and "even w"
  shows "pix (spread r w (y * s) p) s y' x = (if y' = y \<and> x < w then r ! (x div 2) else pix p s y' x)"
  using offset_between [OF assms(1,3), of y y'] by (auto simp: pix_def nth_spread assms(2,4))

lemma length_fill_odd [simp]: "length (fill_odd r w off p) = length p"
proof -
  have "length (fold (\<lambda>x p. p[off + (2 * x + 1) := r ! x]) xs p) = length p" for xs
    by (induction xs arbitrary: p) auto
  then show ?thesis by (simp add: fill_odd_def)
qed

lemma nth_fill_odd:
  assumes "off + w \<le> length p" and "even w"
  shows "fill_odd r w off p ! j =
    (if off \<le> j \<and> j < off + w \<and> odd (j - off) then r ! ((j - off) div 2) else p ! j)"
proof -
  let ?f = "\<lambda>x p. p[off + (2 * x + 1) := r ! x]"
  have "length (fold ?f [0 ..< n] p) = length p \<and> (\<forall>j. fold ?f [0 ..< n] p ! j =
      (if off \<le> j \<and> j < off + 2 * n \<and> odd (j - off) then r ! ((j - off) div 2) else p ! j))"
    if "n \<le> w div 2" for n
    using that
  proof (induction n)
    case (Suc n)
    define q where "q = fold ?f [0 ..< n] p"
    have q: "length q = length p" "\<And>j. q ! j =
      (if off \<le> j \<and> j < off + 2 * n \<and> odd (j - off) then r ! ((j - off) div 2) else p ! j)"
      using Suc by (simp_all add: q_def)
    have e: "fold ?f [0 ..< Suc n] p = q[off + (2 * n + 1) := r ! n]" by (simp add: q_def)
    have l: "off + (2 * n + 1) < length p" using Suc.prems assms by linarith
    have "q[off + (2 * n + 1) := r ! n] ! j =
      (if off \<le> j \<and> j < off + 2 * Suc n \<and> odd (j - off) then r ! ((j - off) div 2) else p ! j)" for j
    proof -
      consider "j = off + 2 * n" | "j = off + (2 * n + 1)" | "j < off + 2 * n" | "off + 2 * Suc n \<le> j"
        by fastforce
      then show ?thesis using l q(1) by cases (auto simp: q(2) nth_list_update)
    qed
    with e q(1) show ?case by simp
  qed auto
  from this [of "w div 2"] assms(2) show ?thesis by (simp add: fill_odd_def)
qed

lemma pix_fill_odd:
  assumes "w \<le> s" and "y * s + w \<le> length p" and "x < s" and "even w"
  shows "pix (fill_odd r w (y * s) p) s y' x =
    (if y' = y \<and> x < w \<and> odd x then r ! (x div 2) else pix p s y' x)"
  using offset_between [OF assms(1,3), of y y'] by (auto simp: pix_def nth_fill_odd assms(2,4))


lemma unpack_odd_rows_pix:
  assumes "fits ay as w (padded_aux_height h)" and "fits du su w h" and "fits dv sv w h"
  shows "\<exists>m n u v. unpack_odd_rows ay as w h du dv su sv = Some (m, n, u, v)
    \<and> length u = length du \<and> length v = length dv
    \<and> (\<forall>p<h. \<forall>x<w.
          pix u su p x = (if odd p then pix ay as (strip_line p) x else pix du su p x)
        \<and> pix v sv p x = (if odd p then pix ay as (strip_line p + 8) x else pix dv sv p x))"
proof -
  let ?P = "\<lambda>i (m, n, u, v). m = u_lines i \<and> n = v_lines i \<and> length u = length du \<and> length v = length dv
    \<and> (\<forall>p<h. \<forall>x<w.
          pix u su p x = (if odd p \<and> strip_line p < i then pix ay as (strip_line p) x else pix du su p x)
        \<and> pix v sv p x =
            (if odd p \<and> strip_line p + 8 < i then pix ay as (strip_line p + 8) x else pix dv sv p x))"
  have "\<exists>t. unpack_odd_rows ay as w h du dv su sv = Some t \<and> ?P (0 + padded_aux_height h) t"
    unfolding unpack_odd_rows_def
  proof (rule for_range_rule [where P = ?P], goal_cases)
    case (2 i t)
    obtain m n u v where t: "t = (m, n, u, v)" by (metis prod_cases4)
    have P: "m = u_lines i" "n = v_lines i" "length u = length du" "length v = length dv"
      and oldu: "\<And>p x. p < h \<Longrightarrow> x < w \<Longrightarrow>
          pix u su p x = (if odd p \<and> strip_line p < i then pix ay as (strip_line p) x else pix du su p x)"
      and oldv: "\<And>p x. p < h \<Longrightarrow> x < w \<Longrightarrow> pix v sv p x =
            (if odd p \<and> strip_line p + 8 < i then pix ay as (strip_line p + 8) x else pix dv sv p x)"
      using 2(3) by (auto simp: t)
    have b: "i * as + w \<le> length ay" using fitsD [OF assms(1)] 2(2) by simp
    have w: "w \<le> su" "w \<le> sv" using fits_stride assms by auto
    show ?case
    proof (cases "i mod 16 < 8")
      case True
      note a = strip_arith(1) [OF True] and sl = strip_line_row(1) [OF True]
      have nv: "strip_line p + 8 < Suc i \<longleftrightarrow> strip_line p + 8 < i" if "odd p" for p
        using strip_row_line(4) [OF that] True by (metis less_Suc_eq)
      have nv': "7 + strip_line p < i \<longleftrightarrow> strip_line p + 8 < i" if "odd p" for p using nv [OF that] by simp
      have nu: "odd p \<and> strip_line p < Suc i \<longleftrightarrow> odd p \<and> strip_line p < i \<or> p = strip_row i" for p
        using sl [of p] by (auto simp: less_Suc_eq)
      show ?thesis
      proof (cases "strip_row i < h")
        case False
        then have "strip_line p < Suc i \<longleftrightarrow> strip_line p < i" if "odd p" "p < h" for p
          using sl that by (metis less_Suc_eq)
        with False True a P oldu oldv nv show ?thesis by (simp add: t cong: conj_cong)
      next
        case in_h: True
        have bu: "strip_row i * su + w \<le> length u" using fitsD [OF assms(2) in_h] P by simp
        have "?P (Suc i) (m + 1, n, put_row u (strip_row i * su) (take w (drop (i * as) ay)), v)"
          using a P b bu w strip_line_strip_row(1) [OF True] by (auto simp: pix_copied oldu oldv nu nv' odd_strip_row)
        then show ?thesis using True in_h a P copy_row_Some [OF b bu] by (simp add: t not_le del: split_paired_Ex)
      qed
    next
      case False
      note a = strip_arith(2) [OF False] and sl = strip_line_row(2) [OF False]
      have nu: "strip_line p < Suc i \<longleftrightarrow> strip_line p < i" if "odd p" for p
        using strip_row_line(3) [OF that] False by (metis less_Suc_eq)
      have nu': "odd p \<and> strip_line p < Suc i \<longleftrightarrow> odd p \<and> strip_line p < i" for p using nu by blast
      have nv: "7 + strip_line p < i \<longleftrightarrow> strip_line p + 8 < i \<or> p = strip_row i" if "odd p" for p
        using sl [of p] that by auto
      show ?thesis
      proof (cases "strip_row i < h")
        case out: False
        then have "strip_line p + 8 < Suc i \<longleftrightarrow> strip_line p + 8 < i" if "odd p" "p < h" for p
          using sl that by (metis less_Suc_eq)
        with out False a P oldu oldv nu show ?thesis by (simp add: t cong: conj_cong)
      next
        case in_h: True
        have bv: "strip_row i * sv + w \<le> length v" using fitsD [OF assms(3) in_h] P by simp
        have "?P (Suc i) (m, n + 1, u, put_row v (strip_row i * sv) (take w (drop (i * as) ay)))"
          using a P b bv w strip_line_strip_row(2) [OF False] by (auto simp: pix_copied oldu oldv nu' nv odd_strip_row)
        then show ?thesis using False in_h a P copy_row_Some [OF b bv] by (simp add: t not_le del: split_paired_Ex)
      qed
    qed
  qed simp
  then obtain t where t: "unpack_odd_rows ay as w h du dv su sv = Some t" "?P (padded_aux_height h) t" by auto
  obtain m n u v where "t = (m, n, u, v)" by (metis prod_cases4)
  moreover have "strip_line p < padded_aux_height h" "strip_line p + 8 < padded_aux_height h" if "p < h" for p
    using strip_line_bound [OF that] by simp_all
  ultimately show ?thesis using t by auto
qed


lemma luma_rows:
  assumes "fits pl s w h" and "2 * y + 1 < h"
  shows "split_two_rows_mut pl s (2 * y) (2 * y + 1) w = Some (2 * y * s, Some ((2 * y + 1) * s))"
  using fitsD [OF assms(1,2)] fits_stride [OF assms(1)] by (simp add: split_two_rows_mut_def Let_def)

lemma combine_luma_pix:
  assumes "even w" and "even h"
    and "fits (plane_y m) (pitch_y m) w h" and "fits (plane_u m) (pitch_u m) (w div 2) (h div 2)"
    and "fits (plane_v m) (pitch_v m) (w div 2) (h div 2)"
    and "fits (plane_y d) (pitch_y d) w h" and "fits (plane_u d) (pitch_u d) w h" and "fits (plane_v d) (pitch_v d) w h"
  shows "\<exists>dy du dv. combine_luma_to_yuv444 m d w h = Some (d\<lparr>plane_y := dy, plane_u := du, plane_v := dv\<rparr>)
    \<and> length du = length (plane_u d) \<and> length dv = length (plane_v d)
    \<and> (\<forall>y<h. \<forall>x<w. pix dy (pitch_y d) y x = pix (plane_y m) (pitch_y m) y x
        \<and> pix du (pitch_u d) y x = pix (plane_u m) (pitch_u m) (y div 2) (x div 2)
        \<and> pix dv (pitch_v d) y x = pix (plane_v m) (pitch_v m) (y div 2) (x div 2))"
proof -
  let ?f = "\<lambda>y (du, dv).
         Option.bind (row (plane_u m) (y * pitch_u m) (w div 2)) (\<lambda>ru.
         Option.bind (row (plane_v m) (y * pitch_v m) (w div 2)) (\<lambda>rv.
         Option.bind (split_two_rows_mut du (pitch_u d) (2 * y) (2 * y + 1) w)
           (\<lambda>(utop, ubot).
         Option.bind (split_two_rows_mut dv (pitch_v d) (2 * y) (2 * y + 1) w)
           (\<lambda>(vtop, vbot).
         (let du1 = spread ru w utop du; dv1 = spread rv w vtop dv in
          Some (case (ubot, vbot) of
              (Some ub, Some vb) \<Rightarrow> (spread ru w ub du1, spread rv w vb dv1)
            | _ \<Rightarrow> (du1, dv1)))))))"
  let ?P = "\<lambda>i (u, v). length u = length (plane_u d) \<and> length v = length (plane_v d)
    \<and> (\<forall>y<2 * i. \<forall>x<w. pix u (pitch_u d) y x = pix (plane_u m) (pitch_u m) (y div 2) (x div 2)
        \<and> pix v (pitch_v d) y x = pix (plane_v m) (pitch_v m) (y div 2) (x div 2))"
  have "\<exists>t. for_range 0 (h div 2) ?f (plane_u d, plane_v d) = Some t \<and> ?P (0 + h div 2) t"
  proof (rule for_range_rule [where P = ?P], goal_cases)
    case (2 i t)
    obtain u v where t: "t = (u, v)" by (cases t)
    have i: "2 * i + 1 < h" "i < h div 2" "2 * i < h" using 2(2) assms(2) by auto
    have len: "length u = length (plane_u d)" "length v = length (plane_v d)" using 2(3) by (simp_all add: t)
    note fu = assms(7) [folded fits_cong [OF len(1)]] and fv = assms(8) [folded fits_cong [OF len(2)]]
    note b = fitsD [OF fu i(1)] fitsD [OF fu i(3)] fitsD [OF fv i(1)] fitsD [OF fv i(3)]
      fitsD [OF assms(4) i(2)] fitsD [OF assms(5) i(2)] fits_stride [OF fu] fits_stride [OF fv]
    let ?ru = "take (w div 2) (drop (i * pitch_u m) (plane_u m))"
    let ?rv = "take (w div 2) (drop (i * pitch_v m) (plane_v m))"
    let ?u = "spread ?ru w ((2 * i + 1) * pitch_u d) (spread ?ru w (2 * i * pitch_u d) u)"
    let ?v = "spread ?rv w ((2 * i + 1) * pitch_v d) (spread ?rv w (2 * i * pitch_v d) v)"
    have half: "x div 2 < w div 2" if "x < w" for x using that assms(1) by auto
    have new: "?f i t = Some (?u, ?v)"
      unfolding t prod.case luma_rows [OF fu i(1)] luma_rows [OF fv i(1)] row_Some [OF b(5)] row_Some [OF b(6)]
        bind.bind_lunit Let_def option.case by (rule refl)
    have "pix ?u (pitch_u d) y x = pix (plane_u m) (pitch_u m) (y div 2) (x div 2)
        \<and> pix ?v (pitch_v d) y x = pix (plane_v m) (pitch_v m) (y div 2) (x div 2)"
      if "y < 2 * Suc i" "x < w" for y x
    proof -
      have px: "pix ?u (pitch_u d) y x = (if y = 2 * i + 1 \<or> y = 2 * i then ?ru ! (x div 2) else pix u (pitch_u d) y x)"
        "pix ?v (pitch_v d) y x = (if y = 2 * i + 1 \<or> y = 2 * i then ?rv ! (x div 2) else pix v (pitch_v d) y x)"
        using b that(2) assms(1) by (simp_all add: pix_spread del: mult_Suc mult_Suc_right)
      have "(y = 2 * i + 1 \<or> y = 2 * i) \<or> y < 2 * i" using that(1) by arith
      then consider "y = 2 * i + 1 \<or> y = 2 * i" | "y < 2 * i" by blast
      then show ?thesis
      proof cases
        case 1
        with half [OF that(2)] b show ?thesis unfolding px by (auto simp: pix_def)
      next
        case 2
        with \<open>?P i t\<close> that(2) show ?thesis unfolding px by (auto simp: t)
      qed
    qed
    with new len show ?case by auto
  qed simp
  then obtain u v where uv: "for_range 0 (h div 2) ?f (plane_u d, plane_v d) = Some (u, v)" "?P (h div 2) (u, v)"
    by auto
  obtain dy where dy: "copy_plane (plane_y m) (pitch_y m) w h (plane_y d) (pitch_y d) = Some dy"
    "\<forall>y<h. \<forall>x<w. pix dy (pitch_y d) y x = pix (plane_y m) (pitch_y m) y x"
    using copy_plane_pix [OF assms(3,6)] by blast
  have "combine_luma_to_yuv444 m d w h = Some (d\<lparr>plane_y := dy, plane_u := u, plane_v := v\<rparr>)"
    unfolding combine_luma_to_yuv444_def dy(1) bind.bind_lunit uv(1) by simp
  then show ?thesis
    by (intro exI [of _ dy] exI [of _ u] exI [of _ v]) (use dy(2) uv(2) assms(2) in auto)
qed

lemma combine_chroma_pix:
  assumes "even w" and "even h"
    and "fits (plane_y a) (pitch_y a) w (padded_aux_height h)"
    and "fits (plane_u a) (pitch_u a) (w div 2) (h div 2)" and "fits (plane_v a) (pitch_v a) (w div 2) (h div 2)"
    and "fits (plane_u d) (pitch_u d) w h" and "fits (plane_v d) (pitch_v d) w h"
  shows "\<exists>du dv. combine_chroma_v1_to_yuv444 a d w h = Some (d\<lparr>plane_u := du, plane_v := dv\<rparr>)
    \<and> (\<forall>y<h. \<forall>x<w.
          pix du (pitch_u d) y x =
            (if odd y then pix (plane_y a) (pitch_y a) (strip_line y) x
             else if odd x then pix (plane_u a) (pitch_u a) (y div 2) (x div 2) else pix (plane_u d) (pitch_u d) y x)
        \<and> pix dv (pitch_v d) y x =
            (if odd y then pix (plane_y a) (pitch_y a) (strip_line y + 8) x
             else if odd x then pix (plane_v a) (pitch_v a) (y div 2) (x div 2) else pix (plane_v d) (pitch_v d) y x))"
proof -
  obtain m n u0 v0 where up: "unpack_odd_rows (plane_y a) (pitch_y a) w h
      (plane_u d) (plane_v d) (pitch_u d) (pitch_v d) = Some (m, n, u0, v0)"
    and l0: "length u0 = length (plane_u d)" "length v0 = length (plane_v d)"
    and p0: "\<forall>p<h. \<forall>x<w.
          pix u0 (pitch_u d) p x = (if odd p then pix (plane_y a) (pitch_y a) (strip_line p) x else pix (plane_u d) (pitch_u d) p x)
        \<and> pix v0 (pitch_v d) p x = (if odd p then pix (plane_y a) (pitch_y a) (strip_line p + 8) x else pix (plane_v d) (pitch_v d) p x)"
    using unpack_odd_rows_pix [OF assms(3,6,7)] by blast
  let ?f = "\<lambda>y (du, dv).
         Option.bind (row (plane_u a) (y * pitch_u a) (w div 2)) (\<lambda>ru.
         Option.bind (row (plane_v a) (y * pitch_v a) (w div 2)) (\<lambda>rv.
         Option.bind (row du (2 * y * pitch_u d) w) (\<lambda>_.
         Option.bind (row dv (2 * y * pitch_v d) w) (\<lambda>_.
         Some (fill_odd ru w (2 * y * pitch_u d) du, fill_odd rv w (2 * y * pitch_v d) dv)))))"
  let ?P = "\<lambda>i (u, v). length u = length (plane_u d) \<and> length v = length (plane_v d)
    \<and> (\<forall>y<h. \<forall>x<w. pix u (pitch_u d) y x = (if even y \<and> y < 2 * i \<and> odd x
            then pix (plane_u a) (pitch_u a) (y div 2) (x div 2) else pix u0 (pitch_u d) y x)
        \<and> pix v (pitch_v d) y x = (if even y \<and> y < 2 * i \<and> odd x
            then pix (plane_v a) (pitch_v a) (y div 2) (x div 2) else pix v0 (pitch_v d) y x))"
  have "\<exists>t. for_range 0 (h div 2) ?f (u0, v0) = Some t \<and> ?P (0 + h div 2) t"
  proof (rule for_range_rule [where P = ?P], goal_cases)
    case (2 i t)
    obtain u v where t: "t = (u, v)" by (cases t)
    have i: "i < h div 2" "2 * i < h" using 2(2) by auto
    have len: "length u = length (plane_u d)" "length v = length (plane_v d)" using 2(3) by (simp_all add: t)
    note fu = assms(6) [folded fits_cong [OF len(1)]] and fv = assms(7) [folded fits_cong [OF len(2)]]
    note b = fitsD [OF fu i(2)] fitsD [OF fv i(2)] fitsD [OF assms(4) i(1)] fitsD [OF assms(5) i(1)]
      and s = fits_stride [OF fu] fits_stride [OF fv]
    let ?ru = "take (w div 2) (drop (i * pitch_u a) (plane_u a))"
    let ?rv = "take (w div 2) (drop (i * pitch_v a) (plane_v a))"
    let ?u = "fill_odd ?ru w (2 * i * pitch_u d) u" and ?v = "fill_odd ?rv w (2 * i * pitch_v d) v"
    have half: "x div 2 < w div 2" if "x < w" for x using that assms(1) by auto
    have new: "?f i t = Some (?u, ?v)"
      unfolding t prod.case row_Some [OF b(1)] row_Some [OF b(2)] row_Some [OF b(3)] row_Some [OF b(4)]
        bind.bind_lunit by (rule refl)
    have "pix ?u (pitch_u d) y x = (if even y \<and> y < 2 * Suc i \<and> odd x
            then pix (plane_u a) (pitch_u a) (y div 2) (x div 2) else pix u0 (pitch_u d) y x)
        \<and> pix ?v (pitch_v d) y x = (if even y \<and> y < 2 * Suc i \<and> odd x
            then pix (plane_v a) (pitch_v a) (y div 2) (x div 2) else pix v0 (pitch_v d) y x)"
      if "y < h" "x < w" for y x
    proof -
      have px: "pix ?u (pitch_u d) y x = (if y = 2 * i \<and> odd x then ?ru ! (x div 2) else pix u (pitch_u d) y x)"
        "pix ?v (pitch_v d) y x = (if y = 2 * i \<and> odd x then ?rv ! (x div 2) else pix v (pitch_v d) y x)"
        using b s that(2) assms(1) by (simp_all add: pix_fill_odd)
      have split: "even y \<and> y < 2 * Suc i \<longleftrightarrow> y = 2 * i \<or> even y \<and> y < 2 * i" by (auto elim!: evenE)
      show ?thesis
      proof (cases "y = 2 * i")
        case True
        with 2(3) half [OF that(2)] b that show ?thesis unfolding px by (auto simp: pix_def t)
      next
        case False
        with 2(3) split that show ?thesis unfolding px by (auto simp: t)
      qed
    qed
    with new len show ?case by auto
  qed (use l0 in simp)
  then obtain u v where uv: "for_range 0 (h div 2) ?f (u0, v0) = Some (u, v)" "?P (h div 2) (u, v)" by auto
  have "combine_chroma_v1_to_yuv444 a d w h = Some (d\<lparr>plane_u := u, plane_v := v\<rparr>)"
    unfolding combine_chroma_v1_to_yuv444_def up bind.bind_lunit prod.case uv(1) by simp
  then show ?thesis
    by (intro exI [of _ u] exI [of _ v]) (use p0 uv(2) assms(2) in auto)
qed

section \<open>The round trip\<close>

definition fits_444 :: "picture \<Rightarrow> nat \<Rightarrow> nat \<Rightarrow> bool" where
  "fits_444 p w h \<longleftrightarrow> fits (plane_y p) (pitch_y p) w h \<and> fits (plane_u p) (pitch_u p) w h
     \<and> fits (plane_v p) (pitch_v p) w h"

definition fits_420 :: "picture \<Rightarrow> nat \<Rightarrow> nat \<Rightarrow> nat \<Rightarrow> bool" where
  "fits_420 p w h luma_h \<longleftrightarrow> fits (plane_y p) (pitch_y p) w luma_h
     \<and> fits (plane_u p) (pitch_u p) (w div 2) (h div 2) \<and> fits (plane_v p) (pitch_v p) (w div 2) (h div 2)"

definition same_picture :: "picture \<Rightarrow> picture \<Rightarrow> nat \<Rightarrow> nat \<Rightarrow> bool" where
  "same_picture p q w h \<longleftrightarrow> (\<forall>y<h. \<forall>x<w.
     pix (plane_y p) (pitch_y p) y x = pix (plane_y q) (pitch_y q) y x
   \<and> pix (plane_u p) (pitch_u p) y x = pix (plane_u q) (pitch_u q) y x
   \<and> pix (plane_v p) (pitch_v p) y x = pix (plane_v q) (pitch_v q) y x)"

lemma split_pix:
  assumes "even w" and "even h" and "fits_444 p w h" and "fits_420 m w h h"
    and "fits_420 a w h (padded_aux_height h)"
  shows "\<exists>m' a'. split_yuv444_to_yuv420_v1 p m a w h = Some (m', a')
    \<and> fits_420 m' w h h \<and> fits_420 a' w h (padded_aux_height h)
    \<and> (\<forall>y<h. \<forall>x<w. pix (plane_y m') (pitch_y m') y x = pix (plane_y p) (pitch_y p) y x)
    \<and> (\<forall>y < h div 2. \<forall>x < w div 2.
          pix (plane_u m') (pitch_u m') y x = pix (plane_u p) (pitch_u p) (2 * y) (2 * x)
        \<and> pix (plane_v m') (pitch_v m') y x = pix (plane_v p) (pitch_v p) (2 * y) (2 * x)
        \<and> pix (plane_u a') (pitch_u a') y x = pix (plane_u p) (pitch_u p) (2 * y) (2 * x + 1)
        \<and> pix (plane_v a') (pitch_v a') y x = pix (plane_v p) (pitch_v p) (2 * y) (2 * x + 1))
    \<and> (\<forall>y<h. odd y \<longrightarrow> (\<forall>x<w.
          pix (plane_y a') (pitch_y a') (strip_line y) x = pix (plane_u p) (pitch_u p) y x
        \<and> pix (plane_y a') (pitch_y a') (strip_line y + 8) x = pix (plane_v p) (pitch_v p) y x))"
proof -
  note P = assms(3) [unfolded fits_444_def] and M = assms(4) [unfolded fits_420_def]
    and A = assms(5) [unfolded fits_420_def]
  have col: "\<forall>x < w div 2. 2 * x < w" "\<forall>x < w div 2. min (2 * x + 1) (w - 1) < w"
    "\<And>x. x < w div 2 \<Longrightarrow> min (2 * x + 1) (w - 1) = 2 * x + 1" by auto
  obtain my where my: "copy_plane (plane_y p) (pitch_y p) w h (plane_y m) (pitch_y m) = Some my"
    "length my = length (plane_y m)" "\<forall>y<h. \<forall>x<w. pix my (pitch_y m) y x = pix (plane_y p) (pitch_y p) y x"
    using copy_plane_pix P M by blast
  obtain mu mv where main: "gather_rows (\<lambda>x. 2 * x) (plane_u p) (plane_v p) (pitch_u p) (pitch_v p) w h
      (pitch_u m) (pitch_v m) (plane_u m, plane_v m) = Some (mu, mv)"
    and lm: "length mu = length (plane_u m)" "length mv = length (plane_v m)"
    and pm: "\<forall>y < h div 2. \<forall>x < w div 2. pix mu (pitch_u m) y x = pix (plane_u p) (pitch_u p) (2 * y) (2 * x)
          \<and> pix mv (pitch_v m) y x = pix (plane_v p) (pitch_v p) (2 * y) (2 * x)"
    using gather_rows_pix [OF _ _ _ _ col(1)] P M by blast
  obtain k l ay where pack: "pack_odd_rows (plane_u p) (plane_v p) (pitch_u p) (pitch_v p) w h
      (plane_y a) (pitch_y a) = Some (k, l, ay)"
    and la: "length ay = length (plane_y a)"
    and pa: "\<forall>y < padded_aux_height h. strip_row y < h \<longrightarrow> (\<forall>x<w. pix ay (pitch_y a) y x =
          (if y mod 16 < 8 then pix (plane_u p) (pitch_u p) (strip_row y) x
           else pix (plane_v p) (pitch_v p) (strip_row y) x))"
    using pack_odd_rows_pix P A by blast
  obtain au av where aux: "gather_rows (\<lambda>x. min (2 * x + 1) (w - 1)) (plane_u p) (plane_v p) (pitch_u p) (pitch_v p)
      w h (pitch_u a) (pitch_v a) (plane_u a, plane_v a) = Some (au, av)"
    and lau: "length au = length (plane_u a)" "length av = length (plane_v a)"
    and pau: "\<forall>y < h div 2. \<forall>x < w div 2.
          pix au (pitch_u a) y x = pix (plane_u p) (pitch_u p) (2 * y) (min (2 * x + 1) (w - 1))
          \<and> pix av (pitch_v a) y x = pix (plane_v p) (pitch_v p) (2 * y) (min (2 * x + 1) (w - 1))"
    using gather_rows_pix [OF _ _ _ _ col(2)] P A by blast
  let ?m = "m\<lparr>plane_y := my, plane_u := mu, plane_v := mv\<rparr>" and ?a = "a\<lparr>plane_y := ay, plane_u := au, plane_v := av\<rparr>"
  have "split_yuv444_to_yuv420_v1 p m a w h = Some (?m, ?a)"
    unfolding split_yuv444_to_yuv420_v1_def my(1) main pack aux bind.bind_lunit prod.case by (rule refl)
  moreover have "fits_420 ?m w h h" "fits_420 ?a w h (padded_aux_height h)"
    using M A my(2) lm la lau by (simp_all add: fits_420_def fits_def)
  moreover have "pix ay (pitch_y a) (strip_line y) x = pix (plane_u p) (pitch_u p) y x
        \<and> pix ay (pitch_y a) (strip_line y + 8) x = pix (plane_v p) (pitch_v p) y x"
    if "y < h" "odd y" "x < w" for y x
    using pa strip_line_bound [OF that(1)] strip_row_line [OF that(2)] that by simp
  ultimately show ?thesis
    by (intro exI [of _ ?m] exI [of _ ?a]) (use my(3) pm pau col(3) in simp)
qed

text \<open>
  C29. Splitting a picture of even dimensions and combining the two views again loses nothing: every pass
  returns, and every sample of every plane comes back, whatever the strides, the contents of the
  buffers that are written to and the padding of their rows.
\<close>

theorem yuv444_survives_split:
  assumes "even w" and "even h" and "fits_444 p w h" and "fits_420 m w h h"
    and "fits_420 a w h (padded_aux_height h)" and "fits_444 d w h"
  shows "\<exists>m' a' d1 d2. split_yuv444_to_yuv420_v1 p m a w h = Some (m', a')
    \<and> combine_luma_to_yuv444 m' d w h = Some d1 \<and> combine_chroma_v1_to_yuv444 a' d1 w h = Some d2
    \<and> same_picture d2 p w h"
proof -
  obtain m' a' where sp: "split_yuv444_to_yuv420_v1 p m a w h = Some (m', a')"
    and M: "fits_420 m' w h h" and A: "fits_420 a' w h (padded_aux_height h)"
    and Y: "\<And>y x. y < h \<Longrightarrow> x < w \<Longrightarrow> pix (plane_y m') (pitch_y m') y x = pix (plane_y p) (pitch_y p) y x"
    and C: "\<And>y x. y < h div 2 \<Longrightarrow> x < w div 2 \<Longrightarrow>
          pix (plane_u m') (pitch_u m') y x = pix (plane_u p) (pitch_u p) (2 * y) (2 * x)
        \<and> pix (plane_v m') (pitch_v m') y x = pix (plane_v p) (pitch_v p) (2 * y) (2 * x)
        \<and> pix (plane_u a') (pitch_u a') y x = pix (plane_u p) (pitch_u p) (2 * y) (2 * x + 1)
        \<and> pix (plane_v a') (pitch_v a') y x = pix (plane_v p) (pitch_v p) (2 * y) (2 * x + 1)"
    and O: "\<And>y x. y < h \<Longrightarrow> odd y \<Longrightarrow> x < w \<Longrightarrow>
          pix (plane_y a') (pitch_y a') (strip_line y) x = pix (plane_u p) (pitch_u p) y x
        \<and> pix (plane_y a') (pitch_y a') (strip_line y + 8) x = pix (plane_v p) (pitch_v p) y x"
    using split_pix [OF assms(1-5)] by blast
  note D = assms(6) [unfolded fits_444_def]
  obtain dy du dv where lu: "combine_luma_to_yuv444 m' d w h = Some (d\<lparr>plane_y := dy, plane_u := du, plane_v := dv\<rparr>)"
    (is "_ = Some ?d1") and len: "length du = length (plane_u d)" "length dv = length (plane_v d)"
    and L: "\<forall>y<h. \<forall>x<w. pix dy (pitch_y d) y x = pix (plane_y m') (pitch_y m') y x
        \<and> pix du (pitch_u d) y x = pix (plane_u m') (pitch_u m') (y div 2) (x div 2)
        \<and> pix dv (pitch_v d) y x = pix (plane_v m') (pitch_v m') (y div 2) (x div 2)"
    using combine_luma_pix [OF assms(1,2), of m' d] M D unfolding fits_420_def by blast
  have D1: "fits (plane_u ?d1) (pitch_u ?d1) w h" "fits (plane_v ?d1) (pitch_v ?d1) w h"
    using D len by (simp_all add: fits_def)
  obtain eu ev where ch: "combine_chroma_v1_to_yuv444 a' ?d1 w h = Some (?d1\<lparr>plane_u := eu, plane_v := ev\<rparr>)"
    (is "_ = Some ?d2") and E: "\<forall>y<h. \<forall>x<w.
          pix eu (pitch_u ?d1) y x =
            (if odd y then pix (plane_y a') (pitch_y a') (strip_line y) x
             else if odd x then pix (plane_u a') (pitch_u a') (y div 2) (x div 2) else pix (plane_u ?d1) (pitch_u ?d1) y x)
        \<and> pix ev (pitch_v ?d1) y x =
            (if odd y then pix (plane_y a') (pitch_y a') (strip_line y + 8) x
             else if odd x then pix (plane_v a') (pitch_v a') (y div 2) (x div 2) else pix (plane_v ?d1) (pitch_v ?d1) y x)"
    using combine_chroma_pix [OF assms(1,2), of a' ?d1] A D1 unfolding fits_420_def by blast
  have "same_picture ?d2 p w h"
    unfolding same_picture_def
  proof (intro allI impI)
    fix y x assume y: "y < h" and x: "x < w"
    have half: "y div 2 < h div 2" "x div 2 < w div 2" using y x assms(1,2) by auto
    have "even n \<Longrightarrow> 2 * (n div 2) = n" "odd n \<Longrightarrow> 2 * (n div 2) + 1 = n" for n :: nat by simp_all
    note halves = this
    show "pix (plane_y ?d2) (pitch_y ?d2) y x = pix (plane_y p) (pitch_y p) y x
      \<and> pix (plane_u ?d2) (pitch_u ?d2) y x = pix (plane_u p) (pitch_u p) y x
      \<and> pix (plane_v ?d2) (pitch_v ?d2) y x = pix (plane_v p) (pitch_v p) y x"
      using E [rule_format, OF y x] L [rule_format, OF y x] Y [OF y x] O [OF y _ x] C [OF half]
        halves [of y] halves [of x] by (cases "odd y"; cases "odd x") simp_all
  qed
  with sp lu ch show ?thesis by blast
qed

text \<open>A picture of four by two samples, with room to spare at the end of each row.\<close>

definition small_picture :: picture where
  "small_picture = \<lparr>plane_y = map of_nat [0 ..< 10], plane_u = map of_nat [20 ..< 30], plane_v = map of_nat [40 ..< 50],
     pitch_y = 5, pitch_u = 5, pitch_v = 5\<rparr>"

definition blank_picture :: picture where
  "blank_picture = \<lparr>plane_y = replicate 64 0, plane_u = replicate 64 0, plane_v = replicate 64 0,
     pitch_y = 4, pitch_u = 4, pitch_v = 4\<rparr>"

theorem yuv444_survives_split_witness:
  "\<exists>m' a' d1 d2. split_yuv444_to_yuv420_v1 small_picture blank_picture blank_picture 4 2 = Some (m', a')
    \<and> combine_luma_to_yuv444 m' blank_picture 4 2 = Some d1 \<and> combine_chroma_v1_to_yuv444 a' d1 4 2 = Some d2
    \<and> same_picture d2 small_picture 4 2"
  by (rule yuv444_survives_split)
    (auto simp: fits_444_def fits_420_def fits_def small_picture_def blank_picture_def padded_aux_height_def)

end
