(* ===== verification/Audio_Convert.thy ===== *)
theory Audio_Convert
  imports Prelude Bytes
begin

text \<open>
  The sample formats of \<open>src/src/audio.rs\<close>: the list of formats that is offered, the buffers that
  the capture delivers as little-endian \<open>f32\<close> and the 16-bit samples that are shipped. An \<open>f32\<close>
  is its bit pattern; the one multiplication the code does on it is rounded to the nearest \<open>f32\<close>,
  ties to even, in integer arithmetic.
\<close>

section \<open>Formats\<close>

definition SCK_SAMPLE_RATE :: nat where "SCK_SAMPLE_RATE = 48000"
definition SAMPLE_RATE :: nat where "SAMPLE_RATE = 44100"
definition CHANNELS :: nat where "CHANNELS = 2"
definition BITS_PER_SAMPLE :: nat where "BITS_PER_SAMPLE = 16"

datatype wave_format = PCM | AAC_MS

record audio_format =
  af_format :: wave_format
  n_channels :: nat
  n_samples_per_sec :: nat
  n_avg_bytes_per_sec :: nat
  n_block_align :: nat
  bits_per_sample :: nat

definition pcm_format :: audio_format where
  "pcm_format =
     (let block_align = CHANNELS * (BITS_PER_SAMPLE div 8) in
      \<lparr>af_format = PCM, n_channels = CHANNELS, n_samples_per_sec = SAMPLE_RATE,
       n_avg_bytes_per_sec = SAMPLE_RATE * block_align, n_block_align = block_align,
       bits_per_sample = BITS_PER_SAMPLE\<rparr>)"

definition aac_format :: "nat \<Rightarrow> audio_format" where
  "aac_format bitrate =
     (let block_align = CHANNELS * (BITS_PER_SAMPLE div 8) in
      \<lparr>af_format = AAC_MS, n_channels = CHANNELS, n_samples_per_sec = SAMPLE_RATE,
       n_avg_bytes_per_sec = bitrate div 8, n_block_align = block_align,
       bits_per_sample = BITS_PER_SAMPLE\<rparr>)"

definition server_audio_formats :: "bool \<Rightarrow> nat \<Rightarrow> audio_format list" where
  "server_audio_formats enable_aac aac_bitrate =
     (if enable_aac then [aac_format aac_bitrate, pcm_format] else [pcm_format])"

definition choose_format :: "audio_format list \<Rightarrow> audio_format option" where
  "choose_format common = (case common of [] \<Rightarrow> None | f # _ \<Rightarrow> Some f)"

section \<open>Single-precision numbers\<close>

type_synonym f32 = nat

definition f32_negative :: "f32 \<Rightarrow> bool" where "f32_negative b \<longleftrightarrow> 2 ^ 31 \<le> b mod 2 ^ 32"
definition f32_magnitude :: "f32 \<Rightarrow> nat" where "f32_magnitude b = b mod 2 ^ 31"
definition f32_is_nan :: "f32 \<Rightarrow> bool" where "f32_is_nan b \<longleftrightarrow> 255 * 2 ^ 23 < f32_magnitude b"

text \<open>A finite number is \<open>significand * 2 powr (exponent - 150)\<close>, up to its sign.\<close>

definition significand :: "nat \<Rightarrow> nat" where
  "significand mag = (if mag < 2 ^ 23 then mag else 2 ^ 23 + mag mod 2 ^ 23)"

definition exponent :: "nat \<Rightarrow> nat" where "exponent mag = max 1 (mag div 2 ^ 23)"

fun bit_len :: "nat \<Rightarrow> nat" where
  "bit_len n = (if n = 0 then 0 else Suc (bit_len (n div 2)))"

declare bit_len.simps [simp del]

text \<open>\<open>p / 2 ^ k\<close> to the nearest integer, ties to the even one.\<close>

definition round_even :: "nat \<Rightarrow> nat \<Rightarrow> nat" where
  "round_even p k =
     (let q = p div 2 ^ k; r = p mod 2 ^ k in
      if 2 ^ k < 2 * r \<or> (2 ^ k = 2 * r \<and> odd q) then q + 1 else q)"

text \<open>\<open>n / 2 ^ k\<close> to the nearest integer, ties away from zero: \<open>f32::round\<close> of a magnitude.\<close>

definition round_away :: "nat \<Rightarrow> nat \<Rightarrow> nat" where
  "round_away n k = (2 * n + 2 ^ k) div 2 ^ Suc k"

text \<open>
  \<open>(clamped * 32767.0).round() as i16\<close>. The magnitude is at most that of one, \<open>127 * 2 ^ 23\<close>; the
  product keeps the 24 leading bits.
\<close>

definition scale_magnitude :: "nat \<Rightarrow> nat" where
  "scale_magnitude mag =
     (let p = significand mag * 32767; k = bit_len p - 24
      in round_away (round_even p k) (150 - exponent mag - k))"

definition float_to_i16 :: "f32 \<Rightarrow> int" where
  "float_to_i16 v =
     (if f32_is_nan v then 0
      else let r = int (scale_magnitude (min (f32_magnitude v) (127 * 2 ^ 23)))
           in if f32_negative v then - r else r)"

definition i16_bytes :: "int \<Rightarrow> bytes" where "i16_bytes i = le_bytes 2 (nat (i mod 2 ^ 16))"

section \<open>Buffers\<close>

definition read_f32_le :: "bytes \<Rightarrow> f32" where "read_f32_le b = le_value (take 4 b)"

fun bytes_to_f32 :: "bytes \<Rightarrow> f32 list" where
  "bytes_to_f32 (a # b # c # d # rest) = read_f32_le [a, b, c, d] # bytes_to_f32 rest"
| "bytes_to_f32 _ = []"

definition deinterleave_first_two_channels :: "bytes \<Rightarrow> nat \<Rightarrow> f32 list \<times> f32 list" where
  "deinterleave_first_two_channels bs channels =
     (let frame_bytes = channels * 4 in
      if frame_bytes = 0 then ([], [])
      else let frames = length bs div frame_bytes in
        (map (\<lambda>f. read_f32_le (take 4 (drop (f * frame_bytes) bs))) [0 ..< frames],
         map (\<lambda>f. read_f32_le (take 4 (drop (f * frame_bytes + 4) bs))) [0 ..< frames]))"

record audio_buffer =
  number_channels :: nat
  buf_data :: bytes

definition float_list_to_planar_f32_stereo :: "audio_buffer list \<Rightarrow> f32 list \<times> f32 list" where
  "float_list_to_planar_f32_stereo bufs =
     (case bufs of
        [] \<Rightarrow> ([], [])
      | [b] \<Rightarrow>
          if number_channels b \<le> 1 then (bytes_to_f32 (buf_data b), bytes_to_f32 (buf_data b))
          else deinterleave_first_two_channels (buf_data b) (number_channels b)
      | b # c # _ \<Rightarrow>
          let left = bytes_to_f32 (buf_data b); right = bytes_to_f32 (buf_data c);
              n = min (length left) (length right)
          in (take n left, take n right))"

definition planar_f32_to_interleaved_i16 :: "f32 list list \<Rightarrow> bytes" where
  "planar_f32_to_interleaved_i16 planar =
     (case planar of
        l # r # _ \<Rightarrow>
          concat (map (\<lambda>(lf, rf). i16_bytes (float_to_i16 lf) @ i16_bytes (float_to_i16 rf)) (zip l r))
      | _ \<Rightarrow> [])"

section \<open>Facts\<close>

lemma round_even_le: "p \<le> n * 2 ^ k \<Longrightarrow> round_even p k \<le> n"
proof -
  assume p: "p \<le> n * 2 ^ k"
  show ?thesis
  proof (cases "p div 2 ^ k < n")
    case True
    then show ?thesis by (simp add: round_even_def Let_def)
  next
    case False
    have "p div 2 ^ k \<le> n * 2 ^ k div 2 ^ k" using p by (rule div_le_mono)
    with False have "p div 2 ^ k = n" by simp
    moreover have "p div 2 ^ k * 2 ^ k + p mod 2 ^ k \<le> n * 2 ^ k" using p by (simp only: div_mult_mod_eq)
    ultimately have "p mod 2 ^ k = 0" by simp
    with \<open>p div 2 ^ k = n\<close> show ?thesis by (simp add: round_even_def Let_def)
  qed
qed

lemma round_away_le:
  assumes "n \<le> m * 2 ^ k"
  shows "round_away n k \<le> m"
proof -
  have "2 * n + 2 ^ k \<le> 2 ^ k + m * 2 ^ Suc k" using assms by simp
  then have "round_away n k \<le> (2 ^ k + m * 2 ^ Suc k) div 2 ^ Suc k"
    unfolding round_away_def by (rule div_le_mono)
  also have "\<dots> = m + 2 ^ k div 2 ^ Suc k" by (subst div_mult_self1) simp_all
  finally show ?thesis by simp
qed

lemma bit_len_le: "n < 2 ^ j \<Longrightarrow> bit_len n \<le> j"
proof (induction j arbitrary: n)
  case 0
  then show ?case by (simp add: bit_len.simps)
next
  case (Suc j)
  then have "bit_len (n div 2) \<le> j" by (intro Suc.IH) auto
  then show ?case by (subst bit_len.simps) simp
qed

lemma significand_le:
  assumes "mag \<le> 127 * 2 ^ 23"
  shows "significand mag \<le> 2 ^ (150 - exponent mag)" and "exponent mag \<le> 127" and "significand mag < 2 ^ 24"
proof -
  show e: "exponent mag \<le> 127"
    using div_le_mono [OF assms, of "2 ^ 23"] by (simp add: exponent_def)
  have "mag mod 2 ^ 23 < 2 ^ 23" by simp
  then show lt: "significand mag < 2 ^ 24" by (auto simp: significand_def)
  show "significand mag \<le> 2 ^ (150 - exponent mag)"
  proof (cases "exponent mag = 127")
    case True
    then have "mag div 2 ^ 23 = 127" by (auto simp: exponent_def max_def split: if_splits)
    moreover have "mag div 2 ^ 23 * 2 ^ 23 + mag mod 2 ^ 23 \<le> 127 * 2 ^ 23"
      using assms by (simp only: div_mult_mod_eq)
    ultimately have "mag mod 2 ^ 23 = 0" by simp
    moreover have "\<not> mag < 2 ^ 23" using \<open>mag div 2 ^ 23 = 127\<close> by auto
    ultimately show ?thesis by (simp add: significand_def True)
  next
    case False
    with e have "24 \<le> 150 - exponent mag" by simp
    then have "(2::nat) ^ 24 \<le> 2 ^ (150 - exponent mag)" by (rule power_increasing) simp
    with lt show ?thesis by linarith
  qed
qed

lemma scale_magnitude_le:
  assumes "mag \<le> 127 * 2 ^ 23"
  shows "scale_magnitude mag \<le> 32767"
proof -
  define e where "e = 150 - exponent mag"
  define p where "p = significand mag * 32767"
  define k where "k = bit_len p - 24"
  note sig = significand_le [OF assms]
  have "p < 2 ^ 39" using sig(3) by (simp add: p_def)
  then have "k \<le> 15" using bit_len_le [of p 39] by (simp add: k_def)
  then have k: "k \<le> e" using sig(2) by (simp add: e_def)
  have "p \<le> 2 ^ e * 32767" using sig(1) by (simp add: p_def e_def)
  also have "(2::nat) ^ e = 2 ^ (e - k) * 2 ^ k" using k by (simp flip: power_add)
  finally have "p \<le> 32767 * 2 ^ (e - k) * 2 ^ k" by (simp add: ac_simps)
  then have "round_even p k \<le> 32767 * 2 ^ (e - k)" by (rule round_even_le)
  then have "round_away (round_even p k) (e - k) \<le> 32767" by (rule round_away_le)
  then show ?thesis by (simp add: scale_magnitude_def Let_def p_def k_def e_def)
qed

text \<open>Every bit pattern becomes a sample, none of them the lowest one.\<close>

lemma float_to_i16_bounds: "- 32767 \<le> float_to_i16 v \<and> float_to_i16 v \<le> 32767"
  using scale_magnitude_le [of "min (f32_magnitude v) (127 * 2 ^ 23)"]
  by (simp add: float_to_i16_def Let_def)

lemma bit_len_0: "bit_len 0 = 0" and bit_len_pos: "0 < n \<Longrightarrow> bit_len n = Suc (bit_len (n div 2))"
  by (simp_all add: bit_len.simps)

lemma float_to_i16_samples:
  "float_to_i16 0 = 0" "float_to_i16 (127 * 2 ^ 23) = 32767" "float_to_i16 (2 ^ 31 + 127 * 2 ^ 23) = - 32767"
  "float_to_i16 (126 * 2 ^ 23) = 16384" "float_to_i16 (2 ^ 31 - 1) = 0"
  by (simp_all add: float_to_i16_def f32_is_nan_def f32_magnitude_def f32_negative_def scale_magnitude_def
      significand_def exponent_def round_even_def round_away_def bit_len_0 bit_len_pos Let_def)

lemma length_interleaved:
  "length (planar_f32_to_interleaved_i16 [l, r]) = 4 * min (length l) (length r)"
proof -
  have "length (concat (map (\<lambda>(lf, rf). i16_bytes (float_to_i16 lf) @ i16_bytes (float_to_i16 rf)) zs))
      = 4 * length zs" for zs
    by (induction zs) (auto simp: i16_bytes_def)
  then show ?thesis by (simp add: planar_f32_to_interleaved_i16_def)
qed

text \<open>The two planes that are accumulated have the same number of frames.\<close>

lemma planar_same_length:
  "length (fst (float_list_to_planar_f32_stereo bufs)) = length (snd (float_list_to_planar_f32_stereo bufs))"
  by (auto simp: float_list_to_planar_f32_stereo_def deinterleave_first_two_channels_def Let_def split: list.splits)

end
