(* ===== verification/Audio_Queue.thy ===== *)
theory Audio_Queue
  imports Prelude Bytes Rust_Float
begin

text \<open>
  The bounded buffer between the audio capture and the connection,
  \<open>src/vendor/macrdp-server/src/sound.rs\<close>: a full buffer drops its oldest wave instead of making
  the capture wait. The producer's and the consumer's operations are atomic, as each holds the
  queue's mutex; waiting for a wave is the environment's choice of when \<open>recv\<close> runs.
\<close>

record audio_wave =
  wave_data :: bytes
  wave_ts :: nat
  wave_duration :: "f64 option"

record audio_queue =
  waves :: "audio_wave list"
  capacity :: nat
  sender_count :: nat
  receiver_alive :: bool
  dropped :: nat

text \<open>\<open>assert!(capacity > 0)\<close> is \<open>None\<close>.\<close>

definition audio_wave_channel :: "nat \<Rightarrow> audio_queue option" where
  "audio_wave_channel cap =
     (if cap = 0 then None
      else Some \<lparr>waves = [], capacity = cap, sender_count = 1, receiver_alive = True, dropped = 0\<rparr>)"

datatype send_error = Closed audio_wave

definition try_send :: "audio_wave \<Rightarrow> audio_queue \<Rightarrow> (send_error + bool) \<times> audio_queue" where
  "try_send w q =
     (if \<not> receiver_alive q then (Inl (Closed w), q)
      else if capacity q \<le> length (waves q) then
        (Inr True, q\<lparr>waves := tl (waves q) @ [w], dropped := (dropped q + 1) mod 2 ^ 64\<rparr>)
      else (Inr False, q\<lparr>waves := waves q @ [w]\<rparr>))"

datatype recv_result = Received audio_wave | AllSendersGone | Waiting

definition recv :: "audio_queue \<Rightarrow> recv_result \<times> audio_queue" where
  "recv q =
     (case waves q of
        w # ws \<Rightarrow> (Received w, q\<lparr>waves := ws\<rparr>)
      | [] \<Rightarrow> (if sender_count q = 0 then AllSendersGone else Waiting, q))"

definition clear_waves :: "audio_queue \<Rightarrow> audio_queue" where
  "clear_waves q = q\<lparr>waves := []\<rparr>"

definition wave_ms :: "audio_wave \<Rightarrow> f64" where
  "wave_ms w = (case wave_duration w of Some d \<Rightarrow> d | None \<Rightarrow> real (length (wave_data w)) / (1764 / 10))"

definition queued_duration_ms :: "audio_queue \<Rightarrow> f64" where
  "queued_duration_ms q = sum_list (map wave_ms (waves q))"

text \<open>The loop of \<open>drop_oldest_until_below\<close>: the rest of the queue and the number of waves dropped.\<close>

fun drop_while_above :: "f64 \<Rightarrow> f64 \<Rightarrow> audio_wave list \<Rightarrow> audio_wave list \<times> nat" where
  "drop_while_above max_ms queued [] = ([], 0)"
| "drop_while_above max_ms queued (w # ws) =
     (if max_ms < queued then
        let (rest, n) = drop_while_above max_ms (queued - wave_ms w) ws in (rest, Suc n)
      else (w # ws, 0))"

definition drop_oldest_until_below :: "f64 \<Rightarrow> audio_queue \<Rightarrow> nat \<times> audio_queue" where
  "drop_oldest_until_below max_ms q =
     (let (rest, n) = drop_while_above max_ms (queued_duration_ms q) (waves q)
      in (n, q\<lparr>waves := rest, dropped := (if 0 < n then (dropped q + n) mod 2 ^ 64 else dropped q)\<rparr>))"

definition clone_sender :: "audio_queue \<Rightarrow> audio_queue" where
  "clone_sender q = q\<lparr>sender_count := sender_count q + 1\<rparr>"

definition drop_sender :: "audio_queue \<Rightarrow> audio_queue" where
  "drop_sender q = q\<lparr>sender_count := sender_count q - 1\<rparr>"

definition drop_receiver :: "audio_queue \<Rightarrow> audio_queue" where
  "drop_receiver q = q\<lparr>receiver_alive := False\<rparr>"

section \<open>Traffic\<close>

text \<open>
  What happens to a channel; the pair collects the waves the producer handed over and those the
  consumer took out.
\<close>

datatype queue_op = Send audio_wave | Recv | DropUntil f64

fun queue_step :: "audio_wave list \<times> audio_wave list \<times> audio_queue \<Rightarrow> queue_op
    \<Rightarrow> audio_wave list \<times> audio_wave list \<times> audio_queue" where
  "queue_step (sent, got, q) (Send w) =
     (case try_send w q of (Inr _, q') \<Rightarrow> (sent @ [w], got, q') | (Inl _, q') \<Rightarrow> (sent, got, q'))"
| "queue_step (sent, got, q) Recv =
     (case recv q of (Received w, q') \<Rightarrow> (sent, got @ [w], q') | (_, q') \<Rightarrow> (sent, got, q'))"
| "queue_step (sent, got, q) (DropUntil ms) = (sent, got, snd (drop_oldest_until_below ms q))"

text \<open>
  The queue holds the last waves that were sent, what was taken out was sent before them in the same
  order, and every wave that is missing is counted.
\<close>

definition queue_ok :: "nat \<Rightarrow> audio_wave list \<times> audio_wave list \<times> audio_queue \<Rightarrow> bool" where
  "queue_ok cap x \<longleftrightarrow> (case x of (sent, got, q) \<Rightarrow>
     capacity q = cap \<and> length (waves q) \<le> cap \<and>
     (\<exists>old. sent = old @ waves q \<and> subseq got old
        \<and> (dropped q + length got) mod 2 ^ 64 = length old mod 2 ^ 64))"

lemma queue_okI:
  "capacity q = cap \<Longrightarrow> length (waves q) \<le> cap \<Longrightarrow> sent = old @ waves q \<Longrightarrow> subseq got old \<Longrightarrow>
     (dropped q + length got) mod 2 ^ 64 = length old mod 2 ^ 64 \<Longrightarrow> queue_ok cap (sent, got, q)"
  by (auto simp: queue_ok_def)

lemma counter_add:
  fixes a g l n m :: nat
  assumes "(a + g) mod m = l mod m"
  shows "((a + n) mod m + g) mod m = (l + n) mod m" and "(a + (g + n)) mod m = (l + n) mod m"
proof -
  have "(a + g + n) mod m = (l + n) mod m" by (rule mod_add_cong [OF assms refl])
  then show "((a + n) mod m + g) mod m = (l + n) mod m" "(a + (g + n)) mod m = (l + n) mod m"
    by (simp_all add: mod_simps ac_simps)
qed

lemma drop_while_above_suffix:
  "drop_while_above m k ws = (rest, n) \<Longrightarrow> \<exists>gone. ws = gone @ rest \<and> length gone = n"
proof (induction m k ws arbitrary: rest n rule: drop_while_above.induct)
  case (2 m k w ws)
  show ?case
  proof (cases "m < k")
    case True
    obtain r j where r: "drop_while_above m (k - wave_ms w) ws = (r, j)" by fastforce
    with 2(1) [OF True r] 2(2) True show ?thesis by (auto intro: exI [of _ "w # _"])
  next
    case False
    with 2(2) show ?thesis by simp
  qed
qed simp

lemma queue_step_ok:
  assumes "0 < cap" and "queue_ok cap (sent, got, q)"
  shows "queue_ok cap (queue_step (sent, got, q) e)"
proof -
  from assms(2) obtain old where q: "capacity q = cap" "length (waves q) \<le> cap" "sent = old @ waves q"
    "subseq got old" "(dropped q + length got) mod 2 ^ 64 = length old mod 2 ^ 64"
    by (auto simp: queue_ok_def)
  show ?thesis
  proof (cases e)
    case (Send w)
    consider "\<not> receiver_alive q" | "receiver_alive q" "length (waves q) < cap"
      | x xs where "receiver_alive q" "waves q = x # xs" "length (waves q) = cap"
      using q(2) assms(1) by (cases "waves q") fastforce+
    then show ?thesis
    proof cases
      case 1
      with assms(2) show ?thesis by (simp add: Send try_send_def)
    next
      case 2
      with q show ?thesis by (auto simp: Send try_send_def intro!: queue_okI [where old = old])
    next
      case 3
      have "((dropped q + 1) mod 2 ^ 64 + length got) mod 2 ^ 64 = length (old @ [x]) mod 2 ^ 64"
        using counter_add(1) [OF q(5), of 1] by simp
      with q 3 show ?thesis
        by (auto simp: Send try_send_def intro!: queue_okI [where old = "old @ [x]"] subseq_rev_drop_many)
    qed
  next
    case Recv
    show ?thesis
    proof (cases "waves q")
      case Nil
      with assms(2) show ?thesis by (simp add: Recv recv_def)
    next
      case (Cons w ws)
      have "(dropped q + length (got @ [w])) mod 2 ^ 64 = length (old @ [w]) mod 2 ^ 64"
        using counter_add(2) [OF q(5), of 1] by simp
      with q Cons show ?thesis
        by (auto simp: Recv recv_def intro!: queue_okI [where old = "old @ [w]"] list_emb_append_mono)
    qed
  next
    case (DropUntil ms)
    obtain rest n where d: "drop_while_above ms (queued_duration_ms q) (waves q) = (rest, n)" by fastforce
    from drop_while_above_suffix [OF d] obtain gone where g: "waves q = gone @ rest" "length gone = n" by blast
    have "((if 0 < n then (dropped q + n) mod 2 ^ 64 else dropped q) + length got) mod 2 ^ 64
        = length (old @ gone) mod 2 ^ 64"
      using counter_add(1) [OF q(5), of n] q(5) g(2) by auto
    moreover have "queue_step (sent, got, q) e = (sent, got, q\<lparr>waves := rest,
        dropped := (if 0 < n then (dropped q + n) mod 2 ^ 64 else dropped q)\<rparr>)"
      by (simp add: DropUntil drop_oldest_until_below_def d)
    moreover have "subseq got (old @ gone)" using q(4) by (rule subseq_rev_drop_many)
    ultimately show ?thesis using q(1-3) g(1) by (auto intro!: queue_okI [where old = "old @ gone"])
  qed
qed

end
