(* ===== verification/Audio_Capture.thy ===== *)
theory Audio_Capture
  imports Audio_Convert Audio_Queue Stats
begin

text \<open>
  The audio backends and their capture loop, \<open>src/src/audio.rs\<close>. A pass is one turn of the inner or
  of the outer loop of \<open>capture_loop\<close>; what it reads from outside (the shared generation, the clock,
  the answers of the screen capture, the flags, the senders that are wired by then) is its
  \<open>pass_env\<close>, one reading per pass. The resampler of the rubato library and the encoder, whose own
  loop is in \<open>Aac_Encoder\<close>, are the two functions of a \<open>codec\<close>. The log lines and the rates that
  are computed for them are not modelled.
\<close>

section \<open>Backends\<close>

text \<open>
  The generation that all backends of a factory share, the generation each backend holds (0 until
  its \<open>start\<close>) and the generations of the loops that were spawned, in order.
\<close>

record backends =
  generation :: nat
  my_gens :: "nat list"
  spawned :: "nat list"

definition no_backends :: backends where
  "no_backends = \<lparr>generation = 0, my_gens = [], spawned = []\<rparr>"

definition build_backend :: "backends \<Rightarrow> backends" where
  "build_backend b = b\<lparr>my_gens := my_gens b @ [0]\<rparr>"

definition start_backend :: "nat \<Rightarrow> backends \<Rightarrow> backends" where
  "start_backend i b =
     (let g = u64_add (generation b) 1
      in b\<lparr>generation := g, my_gens := (my_gens b)[i := g], spawned := spawned b @ [g]\<rparr>)"

definition stop_backend :: "nat \<Rightarrow> backends \<Rightarrow> backends" where
  "stop_backend i b =
     (let g = my_gens b ! i in if generation b = g then b\<lparr>generation := u64_add g 1\<rparr> else b)"

datatype backend_op = Build | Start nat | Stop nat

text \<open>A call on a backend that was never built does not happen.\<close>

fun backend_step :: "backends \<Rightarrow> backend_op \<Rightarrow> backends" where
  "backend_step b Build = build_backend b"
| "backend_step b (Start i) = (if i < length (my_gens b) then start_backend i b else b)"
| "backend_step b (Stop i) = (if i < length (my_gens b) then stop_backend i b else b)"

section \<open>The capture loop\<close>

definition bind_display :: "nat option \<Rightarrow> nat list \<Rightarrow> nat option" where
  "bind_display target displays =
     (case target of
        Some i \<Rightarrow> (if i \<in> set displays then Some i else if displays = [] then None else Some (hd displays))
      | None \<Rightarrow> if displays = [] then None else Some (hd displays))"

definition RESAMPLE_CHUNK :: nat where "RESAMPLE_CHUNK = 1024"
definition RESTART_BACKOFF_BASE_MS :: nat where "RESTART_BACKOFF_BASE_MS = 250"
definition RESTART_BACKOFF_MAX_MS :: nat where "RESTART_BACKOFF_MAX_MS = 5000"
definition AUDIO_SUPPRESS_DEBOUNCE :: duration where "AUDIO_SUPPRESS_DEBOUNCE = from_secs 1"

definition backoff_ms :: "nat \<Rightarrow> nat" where
  "backoff_ms failures = min RESTART_BACKOFF_MAX_MS (RESTART_BACKOFF_BASE_MS * 2 ^ min (failures - 1) 5)"

text \<open>\<open>rubato::Resampler::process\<close> and \<open>AacEncoder::encode\<close>; \<open>None\<close> is an error.\<close>

record ('r, 'e) codec =
  c_resample :: "'r \<Rightarrow> f32 list \<Rightarrow> f32 list \<Rightarrow> (f32 list list \<times> 'r) option"
  c_encode :: "'e \<Rightarrow> bytes \<Rightarrow> bytes list option \<times> 'e"

record audio_sample =
  sample_pts :: "(int \<times> int) option"
  sample_buffers :: "audio_buffer list option"

record pass_env =
  pe_generation :: nat
  pe_now :: instant
  pe_start_ok :: bool
  pe_resync :: bool
  pe_sample :: "audio_sample option"
  pe_suppressed :: bool
  pe_audio_wired :: bool
  pe_events_wired :: bool
  pe_events_open :: bool
  pe_video_pts_ms :: int

datatype exit_reason = Superseded | ReceiverGone | ResampleError
datatype audio_phase = Connecting | Streaming | Ended exit_reason

record ('r, 'e) audio_loop =
  my_gen :: nat
  mute_on_minimize :: bool
  has_flag :: bool
  packet_ms :: f64
  start_instant :: instant
  audio_phase :: audio_phase
  failures :: nat
  input_l :: "f32 list"
  input_r :: "f32 list"
  resampler :: 'r
  encoder :: "'e option"
  suppressed_since :: "instant option"
  audio_s :: bool
  events_s :: bool

datatype audio_call =
  StartCapture
  | StopCapture
  | Sleep nat
  | RecordPts int int
  | Resample "f32 list" "f32 list"
  | Mute "f32 list" "f32 list"
  | SendEvent bytes nat

text \<open>
  Shipping the waves of a chunk with the time stamp \<open>ts\<close>. Whether the two senders have been resolved
  is threaded through; the first result is false when the loop has to end because the receiving side
  is gone.
\<close>

fun ship_waves :: "pass_env \<Rightarrow> nat \<Rightarrow> (bytes \<times> f64 option) list \<Rightarrow> bool \<Rightarrow> bool \<Rightarrow> audio_queue
    \<Rightarrow> bool \<times> bool \<times> bool \<times> audio_queue \<times> audio_call list" where
  "ship_waves env ts [] a e q = (True, a, e, q, [])"
| "ship_waves env ts ((data, dur) # ws) a e q =
     (if a \<or> pe_audio_wired env then
        (case try_send \<lparr>wave_data = data, wave_ts = ts, wave_duration = dur\<rparr> q of
           (Inl _, q') \<Rightarrow> (False, True, e, q', [])
         | (Inr _, q') \<Rightarrow> ship_waves env ts ws True e q')
      else if \<not> (e \<or> pe_events_wired env) then ship_waves env ts ws a e q
      else if \<not> pe_events_open env then (False, a, True, q, [])
      else let (ok, a', e', q', cs) = ship_waves env ts ws a True q
           in (ok, a', e', q', SendEvent data ts # cs))"

text \<open>The mute gate of one chunk: whether the chunk is dropped, and the debounce after it.\<close>

definition mute_gate :: "pass_env \<Rightarrow> ('r, 'e) audio_loop \<Rightarrow> bool \<times> instant option" where
  "mute_gate env s =
     (if mute_on_minimize s \<and> has_flag s then
        if pe_suppressed env then
          let started = (case suppressed_since s of Some t \<Rightarrow> t | None \<Rightarrow> pe_now env)
          in (AUDIO_SUPPRESS_DEBOUNCE \<le> saturating_duration_since (pe_now env) started, Some started)
        else (False, None)
      else (False, suppressed_since s))"

definition encode_chunk :: "('r, 'e) codec \<Rightarrow> bytes \<Rightarrow> ('r, 'e) audio_loop
    \<Rightarrow> (bytes \<times> f64 option) list \<times> 'e option" where
  "encode_chunk k pcm s =
     (case encoder s of
        None \<Rightarrow> ([(pcm, None)], None)
      | Some e \<Rightarrow>
          (case c_encode k e pcm of
             (Some aus, e') \<Rightarrow> (map (\<lambda>au. (au, Some (packet_ms s))) aus, Some e')
           | (None, e') \<Rightarrow> ([], Some e')))"

text \<open>\<open>while input_buf[0].len() >= RESAMPLE_CHUNK && input_buf[1].len() >= RESAMPLE_CHUNK\<close>\<close>

function chunk_loop :: "('r, 'e) codec \<Rightarrow> pass_env \<Rightarrow> ('r, 'e) audio_loop \<Rightarrow> audio_queue
    \<Rightarrow> ('r, 'e) audio_loop \<times> audio_queue \<times> audio_call list" where
  "chunk_loop k env s q =
     (if RESAMPLE_CHUNK \<le> length (input_l s) \<and> RESAMPLE_CHUNK \<le> length (input_r s) then
        let l = take RESAMPLE_CHUNK (input_l s); r = take RESAMPLE_CHUNK (input_r s);
            (muted, since) = mute_gate env s;
            s1 = s\<lparr>suppressed_since := since\<rparr>;
            drained = s1\<lparr>input_l := drop RESAMPLE_CHUNK (input_l s), input_r := drop RESAMPLE_CHUNK (input_r s)\<rparr>
        in if muted then
             let (s', q', cs) = chunk_loop k env drained q in (s', q', Mute l r # cs)
           else
             (case c_resample k (resampler s) l r of
                None \<Rightarrow> (s1\<lparr>audio_phase := Ended ResampleError\<rparr>, q, [])
              | Some (planar, rs) \<Rightarrow>
                  let s2 = drained\<lparr>resampler := rs\<rparr>; pcm = planar_f32_to_interleaved_i16 planar
                  in if pcm = [] then
                       let (s', q', cs) = chunk_loop k env s2 q in (s', q', Resample l r # cs)
                     else
                       let (ws, enc) = encode_chunk k pcm s2;
                           ts = saturating_duration_since (pe_now env) (start_instant s) div 1000000 mod 2 ^ 32;
                           (ok, a, e, q1, cs1) = ship_waves env ts ws (audio_s s) (events_s s) q;
                           s3 = s2\<lparr>encoder := enc, audio_s := a, events_s := e\<rparr>
                       in if ok then
                            let (s', q', cs) = chunk_loop k env s3 q1 in (s', q', Resample l r # cs1 @ cs)
                          else (s3\<lparr>audio_phase := Ended ReceiverGone\<rparr>, q1, Resample l r # cs1))
      else (s, q, []))"
  by pat_completeness auto

termination
  by (relation "measure (\<lambda>(k, env, s, q). length (input_l s))") (auto simp: RESAMPLE_CHUNK_def)

declare chunk_loop.simps [simp del]

text \<open>A sample that was delivered.\<close>

definition audio_sample_step :: "('r, 'e) codec \<Rightarrow> pass_env \<Rightarrow> audio_sample \<Rightarrow> ('r, 'e) audio_loop \<Rightarrow> audio_queue
    \<Rightarrow> ('r, 'e) audio_loop \<times> audio_queue \<times> audio_call list" where
  "audio_sample_step k env sm s q =
     (let s1 = s\<lparr>failures := 0\<rparr>;
          pts = (case sample_pts sm of
              Some (v, timescale) \<Rightarrow>
                if 0 < timescale then
                  let audio_ms = sat_i64 (v * 1000) sdiv timescale
                  in [RecordPts audio_ms (sat_i64 (audio_ms - pe_video_pts_ms env))]
                else []
            | None \<Rightarrow> [])
      in case sample_buffers sm of
           None \<Rightarrow> (s1, q, pts)
         | Some bufs \<Rightarrow>
             let (in_left, in_right) = float_list_to_planar_f32_stereo bufs
             in if in_left = [] then (s1, q, pts)
                else let (s', q', cs) = chunk_loop k env
                            (s1\<lparr>input_l := input_l s @ in_left, input_r := input_r s @ in_right\<rparr>) q
                     in (s', q', pts @ cs))"

definition capture_failed :: "('r, 'e) audio_loop \<Rightarrow> ('r, 'e) audio_loop \<times> audio_call" where
  "capture_failed s =
     (let n = min (failures s + 1) (2 ^ 32 - 1)
      in (s\<lparr>audio_phase := Connecting, failures := n\<rparr>, Sleep (backoff_ms n)))"

definition audio_pass :: "('r, 'e) codec \<Rightarrow> pass_env \<Rightarrow> ('r, 'e) audio_loop \<Rightarrow> audio_queue
    \<Rightarrow> ('r, 'e) audio_loop \<times> audio_queue \<times> audio_call list" where
  "audio_pass k env s q =
     (case audio_phase s of
        Ended _ \<Rightarrow> (s, q, [])
      | Connecting \<Rightarrow>
          if pe_generation env \<noteq> my_gen s then (s\<lparr>audio_phase := Ended Superseded\<rparr>, q, [])
          else if \<not> pe_start_ok env then
            let (s', c) = capture_failed s in (s', q, [StartCapture, c])
          else (s\<lparr>audio_phase := Streaming, input_l := [], input_r := []\<rparr>, q, [StartCapture])
      | Streaming \<Rightarrow>
          if pe_generation env \<noteq> my_gen s then (s\<lparr>audio_phase := Ended Superseded\<rparr>, q, [StopCapture])
          else if pe_resync env then (s\<lparr>audio_phase := Connecting, failures := 0\<rparr>, q, [StopCapture])
          else (case pe_sample env of
              None \<Rightarrow> let (s', c) = capture_failed s in (s', q, [StopCapture, c])
            | Some sm \<Rightarrow> audio_sample_step k env sm s q))"

text \<open>The loop a \<open>start\<close> spawns, if the display, the resampler and the encoder can be had.\<close>

definition capture_loop_init ::
  "nat \<Rightarrow> bool \<Rightarrow> bool \<Rightarrow> bool \<Rightarrow> f64 \<Rightarrow> nat option \<Rightarrow> nat list option \<Rightarrow> 'r option \<Rightarrow> 'e option \<Rightarrow> instant
     \<Rightarrow> ('r, 'e) audio_loop option" where
  "capture_loop_init g mute flag use_aac pkt_ms target displays rs enc now =
     Option.bind displays (\<lambda>ds.
     Option.bind (bind_display target ds) (\<lambda>_.
     Option.bind rs (\<lambda>r.
     Option.bind (if use_aac then map_option Some enc else Some None) (\<lambda>e.
       Some \<lparr>my_gen = g, mute_on_minimize = mute, has_flag = flag, packet_ms = pkt_ms, start_instant = now,
             audio_phase = Connecting, failures = 0, input_l = [], input_r = [], resampler = r, encoder = e,
             suppressed_since = None, audio_s = False, events_s = False\<rparr>))))"

end
