(* ===== verification/Audio_Props.thy ===== *)
theory Audio_Props
  imports Audio_Capture
begin

text \<open>
  The audio path: one live source whatever the order of connections, no frame lost or doubled on the
  way to the resampler, the mute gate and the restarts.
\<close>

section \<open>Generations\<close>

definition backends_run :: "backends \<Rightarrow> backend_op list \<Rightarrow> backends" where
  "backends_run = foldl backend_step"

text \<open>Below \<open>n\<close> the shared generation has not wrapped; it bounds every generation handed out.\<close>

definition gens_ok :: "nat \<Rightarrow> backends \<Rightarrow> bool" where
  "gens_ok n b \<longleftrightarrow> generation b \<le> n \<and> (\<forall>g \<in> set (my_gens b) \<union> set (spawned b). g \<le> generation b)
     \<and> sorted (spawned b) \<and> distinct (spawned b)"

lemma backend_step_ok:
  assumes "gens_ok n b" and "Suc n < 2 ^ 64"
  shows "gens_ok (Suc n) (backend_step b e) \<and> generation b \<le> generation (backend_step b e)
    \<and> prefix (spawned b) (spawned (backend_step b e))"
proof -
  have up: "u64_add (generation b) 1 = Suc (generation b)"
    using assms(1,2) by (simp add: gens_ok_def u64_add_def)
  have bound: "g \<le> generation b" if "g \<in> set (my_gens b) \<union> set (spawned b)" for g
    using assms(1) that by (simp add: gens_ok_def)
  show ?thesis
  proof (cases e)
    case Build
    with assms show ?thesis by (auto simp: gens_ok_def build_backend_def)
  next
    case (Start i)
    have "g \<le> Suc (generation b)" if "g \<in> set ((my_gens b)[i := Suc (generation b)])" for g
      using bound [of g] set_update_subset_insert [of "my_gens b" i "Suc (generation b)"] that by auto
    with assms(1) up bound show ?thesis
      by (fastforce simp: Start gens_ok_def start_backend_def Let_def sorted_append intro: le_SucI)
  next
    case (Stop i)
    show ?thesis
    proof (cases "i < length (my_gens b) \<and> generation b = my_gens b ! i")
      case True
      then have "backend_step b e = b\<lparr>generation := Suc (generation b)\<rparr>"
        using up by (simp add: Stop stop_backend_def Let_def)
      moreover have "gens_ok (Suc n) (b\<lparr>generation := Suc (generation b)\<rparr>)"
        using assms(1) by (auto simp: gens_ok_def intro: le_SucI)
      ultimately show ?thesis by simp
    next
      case False
      with assms(1) show ?thesis by (auto simp: Stop gens_ok_def stop_backend_def Let_def)
    qed
  qed
qed

lemma backends_run_ok:
  "gens_ok n b \<Longrightarrow> n + length es < 2 ^ 64 \<Longrightarrow>
     gens_ok (n + length es) (backends_run b es) \<and> generation b \<le> generation (backends_run b es)
     \<and> prefix (spawned b) (spawned (backends_run b es))"
proof (induction es arbitrary: n b)
  case Nil
  then show ?case by (simp add: backends_run_def)
next
  case (Cons e es)
  then have "Suc n < 2 ^ 64" by simp
  note step = backend_step_ok [OF Cons.prems(1) this, of e]
  then have "gens_ok (Suc n + length es) (backends_run (backend_step b e) es)
      \<and> generation (backend_step b e) \<le> generation (backends_run (backend_step b e) es)
      \<and> prefix (spawned (backend_step b e)) (spawned (backends_run (backend_step b e) es))"
    using Cons.prems(2) by (intro Cons.IH) auto
  with step show ?case
    by (auto simp: backends_run_def intro: prefix_order.trans)
qed

lemma no_backends_ok: "gens_ok 0 no_backends"
  by (simp add: gens_ok_def no_backends_def)

lemma superseded_stays:
  assumes "length (es @ fs) < 2 ^ 64" and "g \<in> set (spawned (backends_run no_backends es))"
    and "h \<in> set (spawned (backends_run no_backends es))" and "g < h"
  shows "generation (backends_run no_backends (es @ fs)) \<noteq> g"
proof -
  let ?b = "backends_run no_backends es"
  have b: "gens_ok (length es) ?b"
    using backends_run_ok [OF no_backends_ok, of es] assms(1) by simp
  then have "h \<le> generation ?b" using assms(3) by (simp add: gens_ok_def)
  moreover have "generation ?b \<le> generation (backends_run ?b fs)"
    using backends_run_ok [OF b, of fs] assms(1) by simp
  ultimately show ?thesis using assms(4) by (simp add: backends_run_def)
qed

text \<open>
  C33. Once a later connection has started its capture, an earlier loop is at an end: whatever backends are
  built, started and stopped afterwards, its next pass sends nothing, touches neither the buffer of
  the waves nor the resampler and leaves the loop for good, closing its stream if it had one.
\<close>

theorem one_audio_source:
  assumes "length (es @ fs) < 2 ^ 64" and "g \<in> set (spawned (backends_run no_backends es))"
    and "h \<in> set (spawned (backends_run no_backends es))" and "g < h"
    and "my_gen s = g" and "audio_phase s \<in> {Connecting, Streaming}"
    and "pe_generation env = generation (backends_run no_backends (es @ fs))"
  shows "audio_pass k env s q =
    (s\<lparr>audio_phase := Ended Superseded\<rparr>, q, if audio_phase s = Streaming then [StopCapture] else [])"
  using superseded_stays [OF assms(1-4)] assms(5-7) by (auto simp: audio_pass_def)

definition idle_codec :: "(unit, unit) codec" where
  "idle_codec = \<lparr>c_resample = \<lambda>r a b. Some ([a, b], r), c_encode = \<lambda>e p. (Some [p], e)\<rparr>"

definition fresh_loop :: "nat \<Rightarrow> (unit, unit) audio_loop" where
  "fresh_loop g = \<lparr>my_gen = g, mute_on_minimize = True, has_flag = True, packet_ms = 23, start_instant = 0,
     audio_phase = Streaming, failures = 0, input_l = [], input_r = [], resampler = (), encoder = None,
     suppressed_since = None, audio_s = False, events_s = False\<rparr>"

definition empty_queue :: audio_queue where
  "empty_queue = \<lparr>waves = [], capacity = 16, sender_count = 1, receiver_alive = True, dropped = 0\<rparr>"

definition quiet_env :: "nat \<Rightarrow> pass_env" where
  "quiet_env g = \<lparr>pe_generation = g, pe_now = 0, pe_start_ok = True, pe_resync = False,
     pe_sample = Some \<lparr>sample_pts = None, sample_buffers = Some [\<lparr>number_channels = 1, buf_data = [0, 0, 0, 0]\<rparr>]\<rparr>,
     pe_suppressed = False, pe_audio_wired = True, pe_events_wired = False, pe_events_open = False,
     pe_video_pts_ms = 0\<rparr>"

theorem one_audio_source_witness:
  "audio_pass idle_codec (quiet_env 3) (fresh_loop 1) empty_queue =
    ((fresh_loop 1)\<lparr>audio_phase := Ended Superseded\<rparr>, empty_queue, [StopCapture])"
proof -
  let ?es = "[Build, Start 0, Build, Start 1]"
  have run: "backends_run no_backends ?es = \<lparr>generation = 2, my_gens = [1, 2], spawned = [1, 2]\<rparr>"
    and gen: "generation (backends_run no_backends (?es @ [Stop 1])) = 3"
    by (simp_all add: backends_run_def no_backends_def build_backend_def start_backend_def stop_backend_def u64_add_def)
  have "audio_pass idle_codec (quiet_env 3) (fresh_loop 1) empty_queue =
    ((fresh_loop 1)\<lparr>audio_phase := Ended Superseded\<rparr>, empty_queue,
     if audio_phase (fresh_loop 1) = Streaming then [StopCapture] else [])"
    by (rule one_audio_source [where es = ?es and fs = "[Stop 1]" and g = 1 and h = 2])
      (use run gen in \<open>simp_all add: fresh_loop_def quiet_env_def\<close>)
  then show ?thesis by (simp add: fresh_loop_def)
qed

section \<open>Chunks\<close>

text \<open>The frames of the two channels that the calls of a run took out of the input buffer.\<close>

fun call_frames :: "audio_call \<Rightarrow> f32 list \<times> f32 list" where
  "call_frames (Resample l r) = (l, r)"
| "call_frames (Mute l r) = (l, r)"
| "call_frames _ = ([], [])"

definition frames_taken :: "audio_call list \<Rightarrow> f32 list \<times> f32 list" where
  "frames_taken cs = (concat (map (fst \<circ> call_frames) cs), concat (map (snd \<circ> call_frames) cs))"

definition whole_chunk :: "audio_call \<Rightarrow> bool" where
  "whole_chunk c = (case c of Resample l r \<Rightarrow> length l = 1024 \<and> length r = 1024
     | Mute l r \<Rightarrow> length l = 1024 \<and> length r = 1024 | _ \<Rightarrow> True)"

lemma frames_taken_simps [simp]:
  "frames_taken [] = ([], [])"
  "frames_taken (Resample l r # cs) = (l @ fst (frames_taken cs), r @ snd (frames_taken cs))"
  "frames_taken (Mute l r # cs) = (l @ fst (frames_taken cs), r @ snd (frames_taken cs))"
  "frames_taken (RecordPts a b # cs) = frames_taken cs"
  "frames_taken (SendEvent d t # cs) = frames_taken cs"
  "frames_taken (as @ bs) = (fst (frames_taken as) @ fst (frames_taken bs), snd (frames_taken as) @ snd (frames_taken bs))"
  by (simp_all add: frames_taken_def)

lemma ship_waves_calls:
  "ship_waves env ts ws a e q = (ok, a', e', q', cs) \<Longrightarrow> frames_taken cs = ([], []) \<and> list_all whole_chunk cs"
proof (induction env ts ws a e q arbitrary: ok a' e' q' cs rule: ship_waves.induct)
  case (2 env ts data dur ws a e q)
  consider "a \<or> pe_audio_wired env" | "\<not> (a \<or> pe_audio_wired env)" "\<not> (e \<or> pe_events_wired env)"
    | "\<not> (a \<or> pe_audio_wired env)" "e \<or> pe_events_wired env" "\<not> pe_events_open env"
    | "\<not> (a \<or> pe_audio_wired env)" "e \<or> pe_events_wired env" "pe_events_open env" by blast
  then show ?case
  proof cases
    case 1
    obtain x q1 where t: "try_send \<lparr>wave_data = data, wave_ts = ts, wave_duration = dur\<rparr> q = (x, q1)" by fastforce
    show ?thesis
    proof (cases x)
      case (Inl y)
      with 2(4) 1 t show ?thesis by auto
    next
      case (Inr y)
      with 2(1) [OF 1 t [symmetric] Inr] 2(4) 1 t show ?thesis by simp
    qed
  next
    case 2
    with "2.IH"(2) [OF 2] "2.prems" show ?thesis by simp
  next
    case 3
    with "2.prems" show ?thesis by simp
  next
    case 4
    obtain o1 a1 e1 q1 c1 where t: "ship_waves env ts ws a True q = (o1, a1, e1, q1, c1)" by (metis surj_pair)
    with "2.IH"(3) [OF 4(1) _ _ t] "2.prems" 4 show ?thesis by (auto simp: whole_chunk_def)
  qed
qed simp

lemma chunk_loop_conserves:
  assumes "chunk_loop k env s q = (s', q', cs)" and "length (input_l s) = length (input_r s)"
    and "audio_phase s = Streaming"
  shows "list_all whole_chunk cs \<and> my_gen s' = my_gen s \<and> (audio_phase s' = Streaming \<and>
      input_l s = fst (frames_taken cs) @ input_l s' \<and> input_r s = snd (frames_taken cs) @ input_r s'
      \<and> length (input_l s') = length (input_r s') \<and> length (input_l s') < 1024
    \<or> (\<exists>x. audio_phase s' = Ended x))"
  using assms
proof (induction "length (input_l s)" arbitrary: s q s' q' cs rule: less_induct)
  case less
  let ?l = "take RESAMPLE_CHUNK (input_l s)" and ?r = "take RESAMPLE_CHUNK (input_r s)"
  obtain m since where g: "mute_gate env s = (m, since)" by fastforce
  let ?d = "s\<lparr>suppressed_since := since, input_l := drop RESAMPLE_CHUNK (input_l s),
      input_r := drop RESAMPLE_CHUNK (input_r s)\<rparr>"
  show ?case
  proof (cases "RESAMPLE_CHUNK \<le> length (input_l s)")
    case False
    with less.prems show ?thesis by (simp add: chunk_loop.simps [of k env s q] RESAMPLE_CHUNK_def)
  next
    case True
    then have c: "RESAMPLE_CHUNK \<le> length (input_l s) \<and> RESAMPLE_CHUNK \<le> length (input_r s)"
      using less.prems(2) by simp
    have shorter: "length (drop RESAMPLE_CHUNK (input_l s)) < length (input_l s)"
      using c unfolding length_drop RESAMPLE_CHUNK_def by linarith
    have w: "whole_chunk (Mute ?l ?r)" "whole_chunk (Resample ?l ?r)"
      using c by (simp_all add: whole_chunk_def RESAMPLE_CHUNK_def)
    have go: ?thesis
      if "chunk_loop k env t q1 = (s', q', c2)" and "cs = c # c1 @ c2" and "whole_chunk c" and "list_all whole_chunk c1"
        and "frames_taken (c # c1 @ c2) = (?l @ fst (frames_taken c2), ?r @ snd (frames_taken c2))"
        and "input_l t = drop RESAMPLE_CHUNK (input_l s)" and "input_r t = drop RESAMPLE_CHUNK (input_r s)"
        and "audio_phase t = Streaming" and "my_gen t = my_gen s" for t q1 c c1 c2
    proof -
      have "length (input_l t) < length (input_l s)" "length (input_l t) = length (input_r t)"
        using shorter less.prems(2) that(6,7) by simp_all
      have put: "xs = take RESAMPLE_CHUNK xs @ ys" if "drop RESAMPLE_CHUNK xs = ys" for xs ys :: "f32 list"
        using that append_take_drop_id [of RESAMPLE_CHUNK xs] by simp
      from less.hyps [OF \<open>length (input_l t) < length (input_l s)\<close> that(1)
          \<open>length (input_l t) = length (input_r t)\<close> that(8)]
      show ?thesis using that(2-7,9) by (auto intro!: put)
    qed
    show ?thesis
    proof (cases m)
      case True
      obtain s2 q2 c2 where rec: "chunk_loop k env ?d q = (s2, q2, c2)" by (metis surj_pair)
      have "s' = s2" "q' = q2" "cs = Mute ?l ?r # c2"
        using less.prems(1) c g True rec by (simp_all add: chunk_loop.simps [of k env s q])
      with rec show ?thesis using w(1) less.prems(3) by (intro go [where t = ?d and c = "Mute ?l ?r" and ?c1.0 = "[]"]) auto
    next
      case False
      show ?thesis
      proof (cases "c_resample k (resampler s) ?l ?r")
        case None
        with less.prems(1,3) c g False show ?thesis by (auto simp: chunk_loop.simps [of k env s q])
      next
        case (Some pr)
        then obtain planar rs where r: "c_resample k (resampler s) ?l ?r = Some (planar, rs)" by (cases pr) auto
        let ?s2 = "?d\<lparr>resampler := rs\<rparr>" and ?pcm = "planar_f32_to_interleaved_i16 planar"
        show ?thesis
        proof (cases "?pcm = []")
          case True
          obtain s2 q2 c2 where rec: "chunk_loop k env ?s2 q = (s2, q2, c2)" by (metis surj_pair)
          have "s' = s2" "q' = q2" "cs = Resample ?l ?r # c2"
            using less.prems(1) c g False r True rec by (simp_all add: chunk_loop.simps [of k env s q])
          with rec show ?thesis using w(2) less.prems(3)
            by (intro go [where t = ?s2 and c = "Resample ?l ?r" and ?c1.0 = "[]"]) auto
        next
          case some: False
          let ?ts = "saturating_duration_since (pe_now env) (start_instant s) div 1000000 mod 2 ^ 32"
          obtain ws enc where e: "encode_chunk k ?pcm ?s2 = (ws, enc)" by fastforce
          obtain ok a b q1 c1 where sh: "ship_waves env ?ts ws (audio_s s) (events_s s) q = (ok, a, b, q1, c1)"
            by (metis surj_pair)
          let ?s3 = "?s2\<lparr>encoder := enc, audio_s := a, events_s := b\<rparr>"
          note calls = ship_waves_calls [OF sh]
          show ?thesis
          proof (cases ok)
            case True
            obtain s2 q2 c2 where rec: "chunk_loop k env ?s3 q1 = (s2, q2, c2)" by (metis surj_pair)
            have "s' = s2" "q' = q2" "cs = Resample ?l ?r # c1 @ c2"
              using less.prems(1) c g False r some e sh True rec by (simp_all add: chunk_loop.simps [of k env s q])
            with rec show ?thesis using w(2) calls less.prems(3)
              by (intro go [where t = ?s3 and c = "Resample ?l ?r" and ?c1.0 = c1]) auto
          next
            case nok: False
            have "s' = ?s3\<lparr>audio_phase := Ended ReceiverGone\<rparr>" "cs = Resample ?l ?r # c1"
              using less.prems(1) c g False r some e sh nok by (simp_all add: chunk_loop.simps [of k env s q])
            with calls w(2) show ?thesis by auto
          qed
        qed
      qed
    qed
  qed
qed

section \<open>A stretch of passes without a restart\<close>

definition audio_step :: "('r, 'e) codec \<Rightarrow> ('r, 'e) audio_loop \<times> audio_queue \<Rightarrow> pass_env
    \<Rightarrow> (('r, 'e) audio_loop \<times> audio_queue) \<times> audio_call list" where
  "audio_step k x env = (case x of (s, q) \<Rightarrow> case audio_pass k env s q of (s', q', cs) \<Rightarrow> ((s', q'), cs))"

text \<open>The frames the capture delivered to a pass.\<close>

definition delivered :: "pass_env \<Rightarrow> f32 list \<times> f32 list" where
  "delivered env = (case Option.bind (pe_sample env) sample_buffers of
      Some bufs \<Rightarrow> float_list_to_planar_f32_stereo bufs
    | None \<Rightarrow> ([], []))"

definition steady :: "nat \<Rightarrow> pass_env \<Rightarrow> bool" where
  "steady g env \<longleftrightarrow> pe_generation env = g \<and> \<not> pe_resync env \<and> pe_sample env \<noteq> None"

lemma delivered_same_length: "length (fst (delivered env)) = length (snd (delivered env))"
  by (auto simp: delivered_def planar_same_length split: option.splits)

lemma pass_conserves:
  assumes "audio_pass k env s q = (s', q', cs)" and "steady (my_gen s) env"
    and "audio_phase s = Streaming" and "length (input_l s) = length (input_r s)" and "length (input_l s) < 1024"
  shows "list_all whole_chunk cs \<and> my_gen s' = my_gen s \<and> (audio_phase s' = Streaming \<and>
      input_l s @ fst (delivered env) = fst (frames_taken cs) @ input_l s'
      \<and> input_r s @ snd (delivered env) = snd (frames_taken cs) @ input_r s'
      \<and> length (input_l s') = length (input_r s') \<and> length (input_l s') < 1024
    \<or> (\<exists>x. audio_phase s' = Ended x))"
proof -
  obtain sm where sm: "pe_sample env = Some sm" using assms(2) by (auto simp: steady_def)
  define pts where "pts = (case sample_pts sm of
              Some (v, timescale) \<Rightarrow>
                if 0 < timescale then
                  let audio_ms = sat_i64 (v * 1000) sdiv timescale
                  in [RecordPts audio_ms (sat_i64 (audio_ms - pe_video_pts_ms env))]
                else []
            | None \<Rightarrow> [])"
  have pts: "frames_taken (pts @ xs) = frames_taken xs" "list_all whole_chunk pts" for xs
    by (auto simp: pts_def whole_chunk_def Let_def split: option.splits)
  have step: "audio_sample_step k env sm s q = (s', q', cs)"
    using assms(1-3) sm by (simp add: audio_pass_def steady_def)
  show ?thesis
  proof (cases "fst (delivered env) = []")
    case True
    then have none: "delivered env = ([], [])"
      using delivered_same_length [of env] by (cases "delivered env") auto
    have "s' = s\<lparr>failures := 0\<rparr>" "cs = pts"
      using step none sm by (auto simp: audio_sample_step_def delivered_def pts_def [symmetric] Let_def
          split: option.splits prod.splits)
    with assms(3-5) pts none show ?thesis using pts(1) [of "[]"] by simp
  next
    case False
    obtain l r where lr: "delivered env = (l, r)" by fastforce
    let ?s1 = "s\<lparr>failures := 0, input_l := input_l s @ l, input_r := input_r s @ r\<rparr>"
    obtain s2 q2 c2 where c: "chunk_loop k env ?s1 q = (s2, q2, c2)" by (metis surj_pair)
    have out: "s' = s2" "cs = pts @ c2"
      using step lr sm c False by (auto simp: audio_sample_step_def delivered_def pts_def [symmetric] Let_def
          split: option.splits prod.splits)
    have "length (input_l ?s1) = length (input_r ?s1)"
      using assms(4) delivered_same_length [of env] lr by simp
    from chunk_loop_conserves [OF c this] assms(3) pts(1) [of "[]"] show ?thesis by (simp add: out pts(2) lr)
  qed
qed

lemma ended_stays: "audio_phase s = Ended x \<Longrightarrow> fst (fst (run_out (audio_step k) (s, q) envs)) = s"
  by (induction envs) (simp_all add: audio_step_def audio_pass_def split_beta Let_def)

lemma run_conserves:
  assumes "run_out (audio_step k) (s, q) envs = ((s', q'), cs)" and "\<forall>env \<in> set envs. steady (my_gen s) env"
    and "audio_phase s = Streaming" and "length (input_l s) = length (input_r s)" and "length (input_l s) < 1024"
    and "audio_phase s' = Streaming"
  shows "list_all whole_chunk cs
    \<and> input_l s @ concat (map (fst \<circ> delivered) envs) = fst (frames_taken cs) @ input_l s'
    \<and> input_r s @ concat (map (snd \<circ> delivered) envs) = snd (frames_taken cs) @ input_r s'
    \<and> length (input_l s') = length (input_r s') \<and> length (input_l s') < 1024"
  using assms
proof (induction envs arbitrary: s q cs)
  case Nil
  then show ?case by simp
next
  case (Cons env envs)
  obtain s1 q1 c1 where p: "audio_pass k env s q = (s1, q1, c1)" by (metis surj_pair)
  obtain x c2 where r: "run_out (audio_step k) (s1, q1) envs = (x, c2)" by fastforce
  have "audio_step k (s, q) env = ((s1, q1), c1)" by (simp add: audio_step_def p)
  with Cons.prems(1) r have out: "x = (s', q')" "cs = c1 @ c2" by simp_all
  note step = pass_conserves [OF p _ Cons.prems(3-5)]
  have st: "steady (my_gen s) env" using Cons.prems(2) by simp
  have live: "audio_phase s1 = Streaming"
  proof (rule ccontr)
    assume "audio_phase s1 \<noteq> Streaming"
    with step [OF st] obtain y where "audio_phase s1 = Ended y" by blast
    with ended_stays [of s1 y k q1 envs] r out(1) Cons.prems(6) show False by auto
  qed
  with step [OF st] have one: "list_all whole_chunk c1" "my_gen s1 = my_gen s"
    "input_l s @ fst (delivered env) = fst (frames_taken c1) @ input_l s1"
    "input_r s @ snd (delivered env) = snd (frames_taken c1) @ input_r s1"
    "length (input_l s1) = length (input_r s1)" "length (input_l s1) < 1024" by auto
  from Cons.IH [OF r [unfolded out(1)] _ live one(5,6) Cons.prems(6)] Cons.prems(2) one(2)
  have "list_all whole_chunk c2
    \<and> input_l s1 @ concat (map (fst \<circ> delivered) envs) = fst (frames_taken c2) @ input_l s'
    \<and> input_r s1 @ concat (map (snd \<circ> delivered) envs) = snd (frames_taken c2) @ input_r s'
    \<and> length (input_l s') = length (input_r s') \<and> length (input_l s') < 1024" by (simp add: o_def)
  then have two: "list_all whole_chunk c2"
    "input_l s1 @ concat (map (fst \<circ> delivered) envs) = fst (frames_taken c2) @ input_l s'"
    "input_r s1 @ concat (map (snd \<circ> delivered) envs) = snd (frames_taken c2) @ input_r s'"
    "length (input_l s') = length (input_r s')" "length (input_l s') < 1024" by blast+
  have glue: "x @ u @ v = a @ b @ t" if "x @ u = a @ y" and "y @ v = b @ t" for x u v a b t y :: "f32 list"
    using that by (metis append.assoc)
  show ?case using one(1) two(1,4,5) glue [OF one(3) two(2)] glue [OF one(4) two(3)] by (simp add: out(2) o_def)
qed

text \<open>
  C35. Between two restarts no frame is lost, doubled or moved against the other channel: the chunks that
  were resampled or muted, each of exactly 1024 frames of both channels, followed by what is still
  buffered, are the frames that were delivered since the capture was connected, and less than one
  chunk is buffered between the passes.
\<close>

theorem audio_frames_conserved:
  assumes "run_out (audio_step k) (s, q) envs = ((s', q'), cs)" and "\<forall>env \<in> set envs. steady (my_gen s) env"
    and "audio_phase s = Streaming" and "input_l s = []" and "input_r s = []" and "audio_phase s' = Streaming"
  shows "list_all whole_chunk cs
    \<and> concat (map (fst \<circ> delivered) envs) = fst (frames_taken cs) @ input_l s'
    \<and> concat (map (snd \<circ> delivered) envs) = snd (frames_taken cs) @ input_r s'
    \<and> length (input_l s') = length (input_r s') \<and> length (input_l s') < 1024"
  using run_conserves [OF assms(1-3) _ _ assms(6)] assms(4,5) by simp

theorem audio_frames_conserved_witness:
  "\<exists>s' q' cs. run_out (audio_step idle_codec) (fresh_loop 1, empty_queue) [quiet_env 1, quiet_env 1] = ((s', q'), cs)
    \<and> [0, 0] = fst (frames_taken cs) @ input_l s' \<and> length (input_l s') < 1024"
proof -
  let ?s = "(fresh_loop 1)\<lparr>input_l := [0, 0], input_r := [0, 0]\<rparr>"
  have run: "run_out (audio_step idle_codec) (fresh_loop 1, empty_queue) [quiet_env 1, quiet_env 1] = ((?s, empty_queue), [])"
    by (simp add: audio_step_def audio_pass_def audio_sample_step_def quiet_env_def fresh_loop_def
        float_list_to_planar_f32_stereo_def read_f32_le_def chunk_loop.simps RESAMPLE_CHUNK_def)
  have "concat (map (fst \<circ> delivered) [quiet_env 1, quiet_env 1]) = [0, 0]"
    by (simp add: delivered_def quiet_env_def float_list_to_planar_f32_stereo_def read_f32_le_def)
  with audio_frames_conserved [OF run] run show ?thesis
    by (simp add: steady_def quiet_env_def fresh_loop_def)
qed

section \<open>The mute gate and the restarts\<close>

text \<open>
  A client that is minimized for a second is sent nothing: the chunks that are due are dropped and
  neither the resampler nor the buffer of the waves is touched.
\<close>

lemma muted_pass_silent:
  assumes "chunk_loop k env s q = (s', q', cs)" and "mute_on_minimize s" and "has_flag s" and "pe_suppressed env"
    and "suppressed_since s = Some t" and "t + from_secs 1 \<le> pe_now env"
  shows "q' = q \<and> resampler s' = resampler s \<and> encoder s' = encoder s \<and> (\<forall>c \<in> set cs. \<exists>l r. c = Mute l r)"
  using assms
proof (induction "length (input_l s)" arbitrary: s q s' q' cs rule: less_induct)
  case less
  have g: "mute_gate env s = (True, Some t)"
    using less.prems by (simp add: mute_gate_def AUDIO_SUPPRESS_DEBOUNCE_def saturating_duration_since_def)
  show ?case
  proof (cases "RESAMPLE_CHUNK \<le> length (input_l s) \<and> RESAMPLE_CHUNK \<le> length (input_r s)")
    case True
    let ?d = "s\<lparr>suppressed_since := Some t, input_l := drop RESAMPLE_CHUNK (input_l s),
      input_r := drop RESAMPLE_CHUNK (input_r s)\<rparr>"
    obtain s2 q2 c2 where rec: "chunk_loop k env ?d q = (s2, q2, c2)" by (metis surj_pair)
    have "length (input_l ?d) < length (input_l s)"
      using True by (auto simp: RESAMPLE_CHUNK_def)
    from less.hyps [OF this rec] less.prems
    have "q2 = q \<and> resampler s2 = resampler s \<and> encoder s2 = encoder s \<and> (\<forall>c \<in> set c2. \<exists>l r. c = Mute l r)" by simp
    moreover have "s' = s2" "q' = q2" "cs = Mute (take RESAMPLE_CHUNK (input_l s)) (take RESAMPLE_CHUNK (input_r s)) # c2"
      using less.prems(1) True g rec by (simp_all add: chunk_loop.simps [of k env s q])
    ultimately show ?thesis by simp
  next
    case False
    with less.prems(1) have "s' = s" "q' = q" "cs = []" by (auto simp: chunk_loop.simps [of k env s q])
    then show ?thesis by simp
  qed
qed

text \<open>A capture that cannot be had is asked for again for ever, after a pause of at most five seconds.\<close>

lemma backoff_bounds: "250 \<le> backoff_ms n \<and> backoff_ms n \<le> 5000"
  by (simp add: backoff_ms_def RESTART_BACKOFF_MAX_MS_def RESTART_BACKOFF_BASE_MS_def)

lemma failed_start_retried:
  assumes "audio_phase s = Connecting" and "pe_generation env = my_gen s" and "\<not> pe_start_ok env"
  shows "\<exists>ms. audio_pass k env s q = (s\<lparr>failures := min (failures s + 1) (2 ^ 32 - 1)\<rparr>, q, [StartCapture, Sleep ms])
    \<and> 250 \<le> ms \<and> ms \<le> 5000"
  using assms backoff_bounds
  by (cases s) (auto simp: audio_pass_def capture_failed_def Let_def)

end
