(* ===== verification/Server_Config.thy ===== *)
theory Server_Config
  imports Rust_Std
begin

text \<open>
  The configuration file of the server, \<open>args_from_config\<close> in \<open>src/src/main.rs\<close>: the file is read
  as shell-like assignments, the settings become the command line that the argument parser would
  be given, and the tunables that components read from the environment are bridged to their
  variables. The argument parser itself (the clap library) is not modelled; the command line is the
  result. A value with a NUL character, which the environment refuses, is not considered.
\<close>

section \<open>Reading the file\<close>

type_synonym config = "ustr \<Rightarrow> ustr option"

definition NEWLINE :: nat where "NEWLINE = 10"
definition CARRIAGE_RETURN :: nat where "CARRIAGE_RETURN = 13"
definition EQUALS :: nat where "EQUALS = 61"
definition HASH :: nat where "HASH = 35"
definition DQUOTE :: nat where "DQUOTE = 34"
definition SQUOTE :: nat where "SQUOTE = 39"

text \<open>\<open>str::lines\<close>: no line after a final line feed, and a carriage return before a line feed dropped.\<close>

definition strip_cr :: "ustr \<Rightarrow> ustr" where
  "strip_cr l = (if l \<noteq> [] \<and> last l = CARRIAGE_RETURN then butlast l else l)"

function str_lines :: "ustr \<Rightarrow> ustr list" where
  "str_lines s =
     (if s = [] then []
      else let l = takeWhile (\<lambda>c. c \<noteq> NEWLINE) s; rest = dropWhile (\<lambda>c. c \<noteq> NEWLINE) s
           in if rest = [] then [l] else strip_cr l # str_lines (tl rest))"
  by pat_completeness auto
termination
proof (relation "measure length", goal_cases)
  case (2 s l rest)
  have "length rest \<le> length s" unfolding 2(3) by (rule length_dropWhile_le)
  moreover have "length (tl rest) < length rest" using 2(4) by (cases rest) auto
  ultimately show ?case by simp
qed simp

declare str_lines.simps [simp del]

definition split_once :: "nat \<Rightarrow> ustr \<Rightarrow> (ustr \<times> ustr) option" where
  "split_once sep s =
     (if sep \<in> set s
      then Some (takeWhile (\<lambda>c. c \<noteq> sep) s, tl (dropWhile (\<lambda>c. c \<noteq> sep) s)) else None)"

definition quoted_by :: "nat \<Rightarrow> ustr \<Rightarrow> bool" where
  "quoted_by q v \<longleftrightarrow> 2 \<le> length v \<and> hd v = q \<and> last v = q"

definition unquote :: "ustr \<Rightarrow> ustr" where
  "unquote v = (if quoted_by DQUOTE v \<or> quoted_by SQUOTE v then butlast (tl v) else v)"

definition config_line :: "ustr \<Rightarrow> (ustr \<times> ustr) option" where
  "config_line raw =
     (let line = trim raw in
      if line = [] \<or> hd line = HASH then None
      else let line = (case strip_prefix (lit ''export '') line of Some r \<Rightarrow> r | None \<Rightarrow> line)
           in map_option (\<lambda>(k, v). (trim k, unquote (trim v))) (split_once EQUALS line))"

definition parse_config :: "ustr \<Rightarrow> config" where
  "parse_config text_of_file =
     foldl (\<lambda>cfg line. case config_line line of Some (k, v) \<Rightarrow> cfg(k \<mapsto> v) | None \<Rightarrow> cfg)
       Map.empty (str_lines text_of_file)"

section \<open>The command line\<close>

definition cfg_on :: "config \<Rightarrow> string \<Rightarrow> bool \<Rightarrow> bool" where
  "cfg_on cfg key default_on = (case cfg (lit key) of Some v \<Rightarrow> v = lit ''1'' | None \<Rightarrow> default_on)"

definition cfg_get :: "config \<Rightarrow> string \<Rightarrow> string \<Rightarrow> ustr" where
  "cfg_get cfg key dflt = (case cfg (lit key) of Some v \<Rightarrow> v | None \<Rightarrow> lit dflt)"

definition push_if :: "bool \<Rightarrow> string \<Rightarrow> ustr list" where
  "push_if b flag = (if b then [lit flag] else [])"

definition push_value :: "config \<Rightarrow> string \<Rightarrow> string \<Rightarrow> ustr list" where
  "push_value cfg key flag =
     (case cfg (lit key) of Some v \<Rightarrow> if v = [] then [] else [lit flag, v] | None \<Rightarrow> [])"

definition identity_args :: "config \<Rightarrow> env \<Rightarrow> ustr list" where
  "identity_args cfg e =
     (let username = (case cfg (lit ''USERNAME'') of Some v \<Rightarrow> v
          | None \<Rightarrow> (case e ''USER'' of Some v \<Rightarrow> v | None \<Rightarrow> []))
      in [lit ''macrdp'', lit ''--bind'', cfg_get cfg ''BIND'' ''127.0.0.1:3390'']
         @ (if username = [] then [] else [lit ''--username'', username])
         @ push_if (cfg_on cfg ''USE_KEYCHAIN'' True) ''--keychain''
         @ push_if (cfg_on cfg ''ENABLE_H264'' False) ''--enable-h264'')"

definition lossy_audio :: "config \<Rightarrow> bool" where
  "lossy_audio cfg = cfg_on cfg ''ENABLE_LOSSY_AUDIO'' False"

definition audio_args :: "config \<Rightarrow> ustr list" where
  "audio_args cfg =
     push_if (cfg_on cfg ''ENABLE_AAC'' False \<and> \<not> lossy_audio cfg) ''--enable-aac''
     @ push_value cfg ''AAC_BITRATE'' ''--aac-bitrate''"

definition feature_args :: "config \<Rightarrow> ustr list" where
  "feature_args cfg =
     push_if (cfg_on cfg ''HIDPI'' False) ''--hidpi''
     @ push_if (cfg_on cfg ''NO_CLIENT_RESOLUTION'' False) ''--no-client-resolution''
     @ push_if (cfg_on cfg ''UNMINIMIZE'' False) ''--unminimize-on-switch''
     @ push_if (cfg_on cfg ''ALT_TAB_SWITCH'' False) ''--alt-tab-switch''
     @ push_if (cfg_on cfg ''ALLOW_SLEEP'' False) ''--allow-sleep''
     @ push_if (cfg_on cfg ''ALT_BACKTICK_SWITCH'' False) ''--alt-backtick-switch''
     @ push_if (cfg_on cfg ''APP_SWITCHER_HUD'' False) ''--app-switcher-hud''
     @ push_if (cfg_on cfg ''RESTORE_WINDOWS_ON_DISCONNECT'' False) ''--restore-windows-on-disconnect''
     @ push_if (cfg_on cfg ''STATS_ENDPOINT'' False) ''--stats-endpoint''
     @ push_if (cfg_on cfg ''MAP_CTRL_TO_CMD'' False) ''--map-ctrl-to-cmd''
     @ push_value cfg ''NO_REMAP_APPS'' ''--no-remap-apps''"

definition redirection_args :: "config \<Rightarrow> ustr list" where
  "redirection_args cfg =
     push_if (cfg_on cfg ''ENABLE_DRIVE_REDIRECTION'' False) ''--enable-drive-redirection''
     @ push_if (cfg_on cfg ''ENABLE_SMARTCARD_REDIRECTION'' False) ''--enable-smartcard-redirection''
     @ push_if (cfg_on cfg ''ENABLE_USB_REDIRECTION'' False) ''--enable-usb-redirection''
     @ push_if (cfg_on cfg ''ENABLE_CAMERA_REDIRECTION'' False) ''--enable-camera-redirection''
     @ push_if (cfg_on cfg ''ENABLE_UDP_MULTITRANSPORT'' False) ''--enable-udp-multitransport''
     @ push_if (cfg_on cfg ''UDP_MIGRATE_EGFX'' False) ''--udp-migrate-egfx''
     @ push_if (cfg_on cfg ''ADAPTIVE_BITRATE'' False) ''--adaptive-bitrate''
     @ push_if (lossy_audio cfg) ''--enable-lossy-audio''"

text \<open>Old files set \<open>CAPTURE_PRIMARY\<close> and no \<open>PRIMARY_MODE\<close>.\<close>

definition primary_mode :: "config \<Rightarrow> ustr" where
  "primary_mode cfg =
     (let m = cfg_get cfg ''PRIMARY_MODE'' ''none''
      in if m = lit ''none'' \<and> cfg_on cfg ''CAPTURE_PRIMARY'' False then lit ''capture'' else m)"

definition display_args :: "config \<Rightarrow> ustr list" where
  "display_args cfg =
     (if cfg_on cfg ''VIRTUAL_DISPLAY'' False then
        [lit ''--virtual-display'', lit ''--width'', cfg_get cfg ''VD_WIDTH'' ''1920'',
         lit ''--height'', cfg_get cfg ''VD_HEIGHT'' ''1080'']
        @ (if primary_mode cfg = lit ''detach'' then [lit ''--detach-primary'']
           else if primary_mode cfg = lit ''capture'' then [lit ''--capture-primary'']
           else if primary_mode cfg = lit ''shield'' then [lit ''--shield-primary'']
           else [])
      else [])"

definition path_args :: "config \<Rightarrow> ustr list" where
  "path_args cfg =
     push_value cfg ''KEYBOARD_LAYOUT'' ''--keyboard-layout''
     @ push_value cfg ''LOG_DIR'' ''--log-dir''
     @ push_value cfg ''AUDIT_FILE'' ''--audit-file''
     @ push_value cfg ''TLS_CERT'' ''--cert''
     @ push_value cfg ''TLS_KEY'' ''--key''
     @ push_value cfg ''MAX_CLIENT_SIZE'' ''--max-client-size''"

text \<open>The tokens of \<open>EXTRA_FLAGS\<close>; with a dedicated bitrate the pairs \<open>--bitrate N\<close> are skipped.\<close>

fun extra_tokens :: "bool \<Rightarrow> ustr list \<Rightarrow> ustr list" where
  "extra_tokens dedicated [] = []"
| "extra_tokens dedicated (tok # toks) =
     (if dedicated \<and> tok = lit ''--bitrate'' then extra_tokens dedicated (tl toks)
      else tok # extra_tokens dedicated toks)"

definition dedicated_bitrate :: "config \<Rightarrow> ustr option" where
  "dedicated_bitrate cfg =
     (case cfg (lit ''BITRATE'') of Some v \<Rightarrow> if v = [] then None else Some v | None \<Rightarrow> None)"

definition extra_args :: "config \<Rightarrow> ustr list" where
  "extra_args cfg =
     (case cfg (lit ''EXTRA_FLAGS'') of
        Some extra \<Rightarrow> extra_tokens (dedicated_bitrate cfg \<noteq> None) (split_whitespace extra)
      | None \<Rightarrow> [])
     @ (case dedicated_bitrate cfg of Some b \<Rightarrow> [lit ''--bitrate'', b] | None \<Rightarrow> [])"

section \<open>The bridged environment\<close>

definition bridged_keys :: "(string \<times> string) list" where
  "bridged_keys =
    [(''CONN_GUARD'', ''MACRDP_CONN_GUARD''),
     (''H264_BLANK_RECOVERY'', ''MACRDP_BLANK_RECOVERY''),
     (''H264_BLANK_RECOVERY_MAX_ATTEMPTS'', ''MACRDP_BLANK_RECOVERY_MAX_ATTEMPTS''),
     (''H264_BLANK_RECOVERY_MAX_CONSECUTIVE_DROPS'', ''MACRDP_BLANK_RECOVERY_MAX_CONSECUTIVE_DROPS''),
     (''AUDIT_LOG'', ''MACRDP_AUDIT_LOG''),
     (''GUARD_RL_MAX'', ''MACRDP_GUARD_RL_MAX''),
     (''GUARD_RL_WINDOW_SECS'', ''MACRDP_GUARD_RL_WINDOW_SECS''),
     (''GUARD_FAIL_THRESHOLD'', ''MACRDP_GUARD_FAIL_THRESHOLD''),
     (''GUARD_FAILFAST_SECS'', ''MACRDP_GUARD_FAILFAST_SECS''),
     (''GUARD_COOLDOWN_BASE_SECS'', ''MACRDP_GUARD_COOLDOWN_BASE_SECS''),
     (''GUARD_COOLDOWN_MAX_SECS'', ''MACRDP_GUARD_COOLDOWN_MAX_SECS''),
     (''HEALTH_CHECK'', ''MACRDP_HEALTHCHECK''),
     (''HEALTHCHECK_INTERVAL_SECS'', ''MACRDP_HEALTHCHECK_INTERVAL_SECS''),
     (''HEALTHCHECK_TIMEOUT_SECS'', ''MACRDP_HEALTHCHECK_TIMEOUT_SECS''),
     (''HEALTHCHECK_FAILURES'', ''MACRDP_HEALTHCHECK_FAILURES''),
     (''EVENT_QUEUE_HIGH'', ''MACRDP_EVENT_QUEUE_HIGH''),
     (''BLANK_RECOVERY'', ''MACRDP_BLANK_RECOVERY''),
     (''BLANK_RECOVERY_REACTIVATE'', ''MACRDP_BLANK_RECOVERY_REACTIVATE''),
     (''BLANK_RECOVERY_MAX_RTT_MS'', ''MACRDP_BLANK_RECOVERY_MAX_RTT_MS''),
     (''BLANK_RECOVERY_MIN_QOE'', ''MACRDP_BLANK_RECOVERY_MIN_QOE''),
     (''BLANK_RECOVERY_MIN_RENDER_REPORTS'', ''MACRDP_BLANK_RECOVERY_MIN_RENDER_REPORTS''),
     (''BLANK_RECOVERY_ESTABLISHED_REPORTS'', ''MACRDP_BLANK_RECOVERY_ESTABLISHED_REPORTS''),
     (''BLANK_RECOVERY_ESTABLISHED_MIN_QOE'', ''MACRDP_BLANK_RECOVERY_ESTABLISHED_MIN_QOE''),
     (''BLANK_RECOVERY_ESTABLISHED_MAX_WAIT_MS'', ''MACRDP_BLANK_RECOVERY_ESTABLISHED_MAX_WAIT_MS''),
     (''BLANK_RECOVERY_ESTABLISHED_WALL_REPORTS'', ''MACRDP_BLANK_RECOVERY_ESTABLISHED_WALL_REPORTS''),
     (''BLANK_RECOVERY_MAX_WAIT_MS'', ''MACRDP_BLANK_RECOVERY_MAX_WAIT_MS''),
     (''BLANK_RECOVERY_MIN_WALL_REPORTS'', ''MACRDP_BLANK_RECOVERY_MIN_WALL_REPORTS''),
     (''BLANK_RECOVERY_HEAL_CONFIRM_MS'', ''MACRDP_BLANK_RECOVERY_HEAL_CONFIRM_MS''),
     (''BLANK_RECOVERY_ARM_MS'', ''MACRDP_BLANK_RECOVERY_ARM_MS''),
     (''BLANK_RECOVERY_RETRY_MS'', ''MACRDP_BLANK_RECOVERY_RETRY_MS''),
     (''BLANK_RECOVERY_MAX_ATTEMPTS'', ''MACRDP_BLANK_RECOVERY_MAX_ATTEMPTS''),
     (''BLANK_RECOVERY_MAX_CONSECUTIVE_DROPS'', ''MACRDP_BLANK_RECOVERY_MAX_CONSECUTIVE_DROPS''),
     (''AUTO_RECONNECT'', ''MACRDP_AUTO_RECONNECT''),
     (''USB_PREFETCH_DEPTH'', ''MACRDP_USB_PREFETCH_DEPTH''),
     (''USB_STREAM_STALL_MS'', ''MACRDP_USB_STREAM_STALL_MS''),
     (''CAMERA_DUMP'', ''MACRDP_CAMERA_DUMP''),
     (''DETACH_RESTART_ON_STUCK'', ''MACRDP_DETACH_RESTART_ON_STUCK''),
     (''STATS_PORT'', ''MACRDP_STATS_PORT'')]"

definition bridge_env :: "config \<Rightarrow> env \<Rightarrow> env" where
  "bridge_env cfg e =
     foldl (\<lambda>e (key, var). case cfg (lit key) of
         Some v \<Rightarrow> if v = [] then e else e(var := Some v)
       | None \<Rightarrow> e) e bridged_keys"

text \<open>The command line and the environment that a configuration file stands for.\<close>

definition args_from_config :: "ustr \<Rightarrow> env \<Rightarrow> ustr list \<times> env" where
  "args_from_config contents e =
     (let cfg = parse_config contents
      in (identity_args cfg e @ audio_args cfg @ feature_args cfg @ redirection_args cfg @ display_args cfg
            @ path_args cfg @ extra_args cfg,
          bridge_env cfg e))"

section \<open>Arguments with their own syntax\<close>

definition parse_dimension :: "ustr \<Rightarrow> nat option" where
  "parse_dimension s =
     Option.bind (parse_uint (2 ^ 16 - 1) (trim s)) (\<lambda>v. if 200 \<le> v \<and> v \<le> 8192 then Some v else None)"

definition parse_max_client_size :: "ustr \<Rightarrow> (nat \<times> nat) option" where
  "parse_max_client_size spec =
     Option.bind (split_once 120 (to_ascii_lowercase (trim spec))) (\<lambda>(w, h).
     Option.bind (parse_dimension w) (\<lambda>width.
     Option.bind (parse_dimension h) (\<lambda>height. Some (width, height))))"

definition lossy_vars :: "string list" where
  "lossy_vars = [''MACRDP_UDP_OFFER_FECL'', ''MACRDP_UDP_LOSSY_DELIVERY'', ''MACRDP_UDP_LOSSY_AUDIO_DUP'']"

definition apply_lossy_audio_env :: "bool \<Rightarrow> env \<Rightarrow> env" where
  "apply_lossy_audio_env enabled e =
     (let cleared = foldl (\<lambda>e v. e(v := None)) e lossy_vars
      in if enabled then foldl (\<lambda>e v. e(v := Some (lit ''1''))) cleared lossy_vars else cleared)"

end
