(* ===== verification/Server_Config_Props.thy ===== *)
theory Server_Config_Props
  imports Server_Config Auth_Guard
begin

text \<open>
  A settings file that assigns quoted values is read back exactly, the bridged settings reach the
  components that read them from the environment, and a dedicated bitrate displaces the one among
  the extra flags.
\<close>

section \<open>Writing a settings file\<close>

definition render_setting :: "ustr \<times> ustr \<Rightarrow> ustr" where
  "render_setting kv = fst kv @ [EQUALS, DQUOTE] @ snd kv @ [DQUOTE]"

definition render_config :: "(ustr \<times> ustr) list \<Rightarrow> ustr" where
  "render_config kvs = concat (map (\<lambda>kv. render_setting kv @ [NEWLINE]) kvs)"

definition plain_setting :: "ustr \<times> ustr \<Rightarrow> bool" where
  "plain_setting kv \<longleftrightarrow> fst kv \<noteq> [] \<and> hd (fst kv) \<noteq> HASH \<and> (\<forall>c \<in> set (fst kv). \<not> is_whitespace c \<and> c \<noteq> EQUALS)
     \<and> NEWLINE \<notin> set (snd kv)"

section \<open>Reading it back\<close>

lemma trim_id:
  assumes "s \<noteq> []" and "\<not> is_whitespace (hd s)" and "\<not> is_whitespace (last s)"
  shows "trim s = s"
proof -
  have "dropWhile is_whitespace s = s" using assms(1,2) by (cases s) auto
  moreover have "dropWhile is_whitespace (rev s) = rev s"
    using assms(1,3) by (cases s rule: rev_cases) auto
  ultimately show ?thesis by (simp add: trim_def)
qed

lemma quote_not_space: "\<not> is_whitespace DQUOTE" "\<not> is_whitespace EQUALS" "is_whitespace NEWLINE" "is_whitespace 32"
  by (simp_all add: is_whitespace_def DQUOTE_def EQUALS_def NEWLINE_def)

lemma config_line_render:
  assumes "plain_setting kv"
  shows "config_line (render_setting kv) = Some kv"
proof -
  obtain k v where kv: "kv = (k, v)" by (cases kv)
  have k: "k \<noteq> []" "hd k \<noteq> HASH" "\<And>c. c \<in> set k \<Longrightarrow> \<not> is_whitespace c \<and> c \<noteq> EQUALS"
    using assms by (auto simp: plain_setting_def kv)
  let ?line = "k @ [EQUALS, DQUOTE] @ v @ [DQUOTE]"
  have trimmed: "trim ?line = ?line"
    using k quote_not_space by (intro trim_id) auto
  have "take 7 ?line \<noteq> lit ''export ''"
  proof
    assume e: "take 7 ?line = lit ''export ''"
    show False
    proof (cases "7 \<le> length k")
      case True
      then have "take 7 k = lit ''export ''" using e by simp
      then have "32 \<in> set k" using set_take_subset [of 7 k] by (auto simp: lit_def)
      with k(3) quote_not_space show False by blast
    next
      case False
      then have "EQUALS \<in> set (take 7 ?line)" by (cases "7 - length k") auto
      then show False unfolding e by (simp add: lit_def EQUALS_def)
    qed
  qed
  moreover have "length (lit ''export '') = 7" by (simp add: lit_def)
  ultimately have noexport: "strip_prefix (lit ''export '') ?line = None"
    by (simp only: strip_prefix_def if_False)
  have once: "split_once EQUALS ?line = Some (k, [DQUOTE] @ v @ [DQUOTE])"
    using k(3) by (auto simp: split_once_def takeWhile_append dropWhile_append)
  have "trim k = k" using k by (intro trim_id) auto
  moreover have "trim ([DQUOTE] @ v @ [DQUOTE]) = [DQUOTE] @ v @ [DQUOTE]"
    using quote_not_space by (intro trim_id) auto
  moreover have "unquote ([DQUOTE] @ v @ [DQUOTE]) = v"
    by (simp add: unquote_def quoted_by_def butlast_append)
  ultimately show ?thesis
    using k(1,2) trimmed noexport once by (simp add: config_line_def render_setting_def kv hd_append)
qed

lemma str_lines_line:
  assumes "NEWLINE \<notin> set l"
  shows "str_lines (l @ NEWLINE # rest) = strip_cr l # str_lines rest"
proof -
  have "takeWhile (\<lambda>c. c \<noteq> NEWLINE) (l @ NEWLINE # rest) = l"
    "dropWhile (\<lambda>c. c \<noteq> NEWLINE) (l @ NEWLINE # rest) = NEWLINE # rest"
    using assms by (auto simp: takeWhile_append dropWhile_append)
  then show ?thesis by (simp add: str_lines.simps [of "l @ NEWLINE # rest"] Let_def)
qed

lemma str_lines_render:
  assumes "\<forall>kv \<in> set kvs. plain_setting kv"
  shows "str_lines (render_config kvs) = map render_setting kvs"
  using assms
proof (induction kvs)
  case Nil
  then show ?case by (simp add: render_config_def str_lines.simps)
next
  case (Cons kv kvs)
  have "NEWLINE \<notin> set (render_setting kv)"
    using Cons.prems quote_not_space
    by (auto simp: render_setting_def plain_setting_def NEWLINE_def EQUALS_def DQUOTE_def)
  moreover have "strip_cr (render_setting kv) = render_setting kv"
    by (simp add: strip_cr_def render_setting_def DQUOTE_def CARRIAGE_RETURN_def)
  ultimately show ?case
    using Cons str_lines_line [of "render_setting kv" "render_config kvs"] by (simp add: render_config_def)
qed

lemma foldl_updates: "foldl (\<lambda>m (k, v). m(k \<mapsto> v)) Map.empty kvs = map_of (rev kvs)"
  by (induction kvs rule: rev_induct) (auto split: prod.splits)

lemma parse_render:
  assumes "\<forall>kv \<in> set kvs. plain_setting kv"
  shows "parse_config (render_config kvs) = map_of (rev kvs)"
proof -
  have "foldl (\<lambda>conf line. case config_line line of Some (k, v) \<Rightarrow> conf(k \<mapsto> v) | None \<Rightarrow> conf) m
      (map render_setting kvs) = foldl (\<lambda>m (k, v). m(k \<mapsto> v)) m kvs" for m
    using assms by (induction kvs arbitrary: m) (auto simp: config_line_render)
  then show ?thesis by (simp add: parse_config_def str_lines_render [OF assms] foldl_updates)
qed

section \<open>The bridge\<close>

lemma bridge_foldl_other:
  "foldl (\<lambda>e (key, var). case conf (lit key) of Some v \<Rightarrow> if v = [] then e else e(var := Some v) | None \<Rightarrow> e) e ps x
    = foldl (\<lambda>y (key, var). case conf (lit key) of Some v \<Rightarrow> if v = [] then y else Some v | None \<Rightarrow> y) (e x)
        (filter (\<lambda>p. snd p = x) ps)"
  by (induction ps arbitrary: e) (auto split: option.splits)

text \<open>
  What the configuration reference (\<open>packaging/config.env.example\<close>, \<open>docs/configuration.md\<close>) says
  of the tunables: a setting reaches the variable of its name after the prefix \<open>MACRDP_\<close> (written
  \<open>HEALTHCHECK\<close> for \<open>HEALTH_CHECK\<close>), and three of them have an older name with the prefix \<open>H264_\<close>,
  which counts when the newer one is not set. An empty setting counts as not set.
\<close>

definition tunables :: "string list" where
  "tunables =
    [''CONN_GUARD'', ''AUDIT_LOG'', ''GUARD_RL_MAX'', ''GUARD_RL_WINDOW_SECS'', ''GUARD_FAIL_THRESHOLD'',
     ''GUARD_FAILFAST_SECS'', ''GUARD_COOLDOWN_BASE_SECS'', ''GUARD_COOLDOWN_MAX_SECS'', ''HEALTH_CHECK'',
     ''HEALTHCHECK_INTERVAL_SECS'', ''HEALTHCHECK_TIMEOUT_SECS'', ''HEALTHCHECK_FAILURES'',
     ''EVENT_QUEUE_HIGH'', ''BLANK_RECOVERY'', ''BLANK_RECOVERY_REACTIVATE'', ''BLANK_RECOVERY_MAX_RTT_MS'',
     ''BLANK_RECOVERY_MIN_QOE'', ''BLANK_RECOVERY_MIN_RENDER_REPORTS'',
     ''BLANK_RECOVERY_ESTABLISHED_REPORTS'', ''BLANK_RECOVERY_ESTABLISHED_MIN_QOE'',
     ''BLANK_RECOVERY_ESTABLISHED_MAX_WAIT_MS'', ''BLANK_RECOVERY_ESTABLISHED_WALL_REPORTS'',
     ''BLANK_RECOVERY_MAX_WAIT_MS'', ''BLANK_RECOVERY_MIN_WALL_REPORTS'', ''BLANK_RECOVERY_HEAL_CONFIRM_MS'',
     ''BLANK_RECOVERY_ARM_MS'', ''BLANK_RECOVERY_RETRY_MS'', ''BLANK_RECOVERY_MAX_ATTEMPTS'',
     ''BLANK_RECOVERY_MAX_CONSECUTIVE_DROPS'', ''AUTO_RECONNECT'', ''USB_PREFETCH_DEPTH'',
     ''USB_STREAM_STALL_MS'', ''CAMERA_DUMP'', ''DETACH_RESTART_ON_STUCK'', ''STATS_PORT'']"

definition renamed_tunables :: "string list" where
  "renamed_tunables =
    [''BLANK_RECOVERY'', ''BLANK_RECOVERY_MAX_ATTEMPTS'', ''BLANK_RECOVERY_MAX_CONSECUTIVE_DROPS'']"

definition variable_of :: "string \<Rightarrow> string" where
  "variable_of key = ''MACRDP_'' @ (if key = ''HEALTH_CHECK'' then ''HEALTHCHECK'' else key)"

definition setting :: "config \<Rightarrow> string \<Rightarrow> ustr option" where
  "setting conf key = (case conf (lit key) of Some v \<Rightarrow> if v = [] then None else Some v | None \<Rightarrow> None)"

definition tunable_value :: "config \<Rightarrow> string \<Rightarrow> ustr option" where
  "tunable_value conf key =
     (case setting conf key of
        Some v \<Rightarrow> Some v
      | None \<Rightarrow> if key \<in> set renamed_tunables then setting conf (''H264_'' @ key) else None)"

lemma bridge_table:
  "list_all (\<lambda>k. filter (\<lambda>p. snd p = variable_of k) bridged_keys =
       (if k \<in> set renamed_tunables then [(''H264_'' @ k, variable_of k)] else []) @ [(k, variable_of k)]) tunables"
  "list_all (\<lambda>p. snd p \<in> set (map variable_of tunables)) bridged_keys"
  by code_simp+

lemma bridge_env_tunable:
  assumes "k \<in> set tunables"
  shows "bridge_env conf e (variable_of k) =
    (case tunable_value conf k of Some v \<Rightarrow> Some v | None \<Rightarrow> e (variable_of k))"
proof -
  have "filter (\<lambda>p. snd p = variable_of k) bridged_keys =
       (if k \<in> set renamed_tunables then [(''H264_'' @ k, variable_of k)] else []) @ [(k, variable_of k)]"
    using bridge_table(1) assms unfolding list_all_iff by blast
  then show ?thesis
    by (simp add: bridge_env_def bridge_foldl_other tunable_value_def setting_def split: option.split)
qed

lemma bridge_env_other:
  assumes "var \<notin> variable_of ` set tunables"
  shows "bridge_env conf e var = e var"
proof -
  have "filter (\<lambda>p. snd p = var) bridged_keys = []"
    using bridge_table(2) assms by (auto simp: list_all_iff filter_empty_conv)
  then show ?thesis by (simp add: bridge_env_def bridge_foldl_other)
qed

text \<open>The guard reads its tunables under the names that the reference gives them.\<close>

lemma bridge_env_guard:
  "guard_config_from_env (bridge_env conf Map.empty) =
     guard_config_from_env (\<lambda>var. if take 7 var = ''MACRDP_'' then setting conf (drop 7 var) else None)"
proof -
  have t: "bridge_env conf Map.empty (''MACRDP_'' @ k) = setting conf k"
    if "k \<in> {''GUARD_RL_MAX'', ''GUARD_RL_WINDOW_SECS'', ''GUARD_FAIL_THRESHOLD'', ''GUARD_FAILFAST_SECS'',
      ''GUARD_COOLDOWN_BASE_SECS'', ''GUARD_COOLDOWN_MAX_SECS''}" for k
  proof -
    have "k \<in> set tunables" "k \<notin> set renamed_tunables" "variable_of k = ''MACRDP_'' @ k"
      using that by (auto simp: tunables_def renamed_tunables_def variable_of_def)
    with bridge_env_tunable [of k conf Map.empty] show ?thesis
      by (simp add: tunable_value_def split: option.splits)
  qed
  show ?thesis
    using t [of "''GUARD_RL_MAX''"] t [of "''GUARD_RL_WINDOW_SECS''"] t [of "''GUARD_FAIL_THRESHOLD''"]
      t [of "''GUARD_FAILFAST_SECS''"] t [of "''GUARD_COOLDOWN_BASE_SECS''"] t [of "''GUARD_COOLDOWN_MAX_SECS''"]
    by (simp add: guard_config_from_env_def env_u64_def)
qed



section \<open>The bitrate\<close>

lemma extra_tokens_no_bitrate: "lit ''--bitrate'' \<notin> set (extra_tokens True toks)"
  by (induction "True" toks rule: extra_tokens.induct) auto

lemma extra_tokens_verbatim: "extra_tokens False toks = toks"
  by (induction "False" toks rule: extra_tokens.induct) auto

lemma dedicated_bitrate_wins:
  assumes "conf (lit ''BITRATE'') = Some b" and "b \<noteq> []"
  shows "\<exists>pre. extra_args conf = pre @ [lit ''--bitrate'', b] \<and> lit ''--bitrate'' \<notin> set pre"
  using assms extra_tokens_no_bitrate
  by (auto simp: extra_args_def dedicated_bitrate_def split: option.splits)

text \<open>The spelling with an equals sign is not recognised, so the option is given twice.\<close>

lemma bitrate_equals_kept:
  "extra_tokens True [lit ''--bitrate=8''] = [lit ''--bitrate=8'']"
  by (simp add: lit_def)

text \<open>The two audio modes exclude each other among the settings, but not against the extra flags.\<close>

lemma audio_modes_exclusive: "lit ''--enable-aac'' \<in> set (audio_args conf) \<Longrightarrow> conf (lit ''AAC_BITRATE'') \<noteq> Some (lit ''--enable-aac'')
    \<Longrightarrow> \<not> lossy_audio conf"
  by (auto simp: audio_args_def push_if_def push_value_def lit_def split: option.splits if_splits)

lemma extra_flag_defeats_exclusion:
  assumes "conf (lit ''EXTRA_FLAGS'') = Some (lit ''--enable-aac'')" and "lossy_audio conf"
  shows "lit ''--enable-aac'' \<in> set (extra_args conf) \<and> lit ''--enable-lossy-audio'' \<in> set (redirection_args conf)"
proof -
  have "split_whitespace (lit ''--enable-aac'') = [lit ''--enable-aac'']"
    by (rule split_whitespace_word) (auto simp: lit_def is_whitespace_def)
  with assms show ?thesis by (simp add: extra_args_def redirection_args_def push_if_def) (simp add: lit_def)
qed

lemma max_client_size_bounds:
  "parse_max_client_size spec = Some (w, h) \<Longrightarrow> 200 \<le> w \<and> w \<le> 8192 \<and> 200 \<le> h \<and> h \<le> 8192"
  by (auto simp: parse_max_client_size_def parse_dimension_def split: bind_splits if_splits)

lemma lossy_env_exact:
  "apply_lossy_audio_env b e v = (if v \<in> set lossy_vars then if b then Some (lit ''1'') else None else e v)"
  by (auto simp: apply_lossy_audio_env_def lossy_vars_def Let_def)

end
