(* ===== verification/Server_Tls.thy ===== *)
theory Server_Tls
  imports Rust_Std
begin

text \<open>
  The certificate and the private key of the server, \<open>src/src/main.rs\<close>: loading the operator's
  pair, loading the persisted pair or generating it, and the expiry warning. The file system is a
  map from paths to files with their permission bits; each operation on it succeeds or not as the
  environment decides. Parsing PEM and generating a pair belong to libraries and are parameters, a
  certificate and a key are opaque.
\<close>

unbundle bit_operations_syntax

section \<open>Files\<close>

type_synonym path = ustr

record pem_file =
  contents :: ustr
  mode :: nat

type_synonym files = "path \<Rightarrow> pem_file option"

definition join_path :: "path \<Rightarrow> ustr \<Rightarrow> path" where "join_path dir name = dir @ 47 # name"

text \<open>Octal 600 and 666, and the mode a new file gets under a mask.\<close>

definition OWNER_ONLY :: nat where "OWNER_ONLY = 384"
definition DEFAULT_MODE :: nat where "DEFAULT_MODE = 438"

definition masked :: "nat \<Rightarrow> nat \<Rightarrow> nat" where "masked umask m = m AND (511 XOR umask mod 512)"

datatype io_op = OpenFile path | StatFile path | CreateDirs path | WriteFile path | CreateFile path | Chmod path

text \<open>What the libraries do: the certificates and the key of a text, and a fresh pair with its texts.\<close>

record ('c, 'k) tls_library =
  pem_certs :: "ustr \<Rightarrow> 'c list option"
  pem_key :: "ustr \<Rightarrow> 'k option option"
  generated :: "(ustr \<times> ustr \<times> 'c \<times> 'k) option"

datatype tls_error =
  IoFailed io_op
  | BadPem path
  | NoCertificates path
  | KeyAccessible path nat
  | NoPrivateKey path
  | GenerateFailed
  | CertWithoutKey

definition group_or_world :: "nat \<Rightarrow> bool" where
  "group_or_world m \<longleftrightarrow> (m AND 511) AND 63 \<noteq> 0"

section \<open>Loading\<close>

definition open_pem :: "(io_op \<Rightarrow> bool) \<Rightarrow> files \<Rightarrow> path \<Rightarrow> tls_error + pem_file" where
  "open_pem io fs p =
     (case fs p of
        Some f \<Rightarrow> if io (OpenFile p) then Inr f else Inl (IoFailed (OpenFile p))
      | None \<Rightarrow> Inl (IoFailed (OpenFile p)))"

definition load_pem_cert_and_key ::
  "('c, 'k) tls_library \<Rightarrow> (io_op \<Rightarrow> bool) \<Rightarrow> files \<Rightarrow> path \<Rightarrow> path \<Rightarrow> tls_error + 'c list \<times> 'k" where
  "load_pem_cert_and_key lib io fs cert_path key_path =
     (case open_pem io fs cert_path of
        Inl e \<Rightarrow> Inl e
      | Inr cf \<Rightarrow>
     (case pem_certs lib (contents cf) of
        None \<Rightarrow> Inl (BadPem cert_path)
      | Some certs \<Rightarrow>
     if certs = [] then Inl (NoCertificates cert_path)
     else (case fs key_path of
        None \<Rightarrow> Inl (IoFailed (StatFile key_path))
      | Some kf \<Rightarrow>
     if \<not> io (StatFile key_path) then Inl (IoFailed (StatFile key_path))
     else if group_or_world (mode kf) then Inl (KeyAccessible key_path (mode kf AND 511))
     else (case open_pem io fs key_path of
        Inl e \<Rightarrow> Inl e
      | Inr f \<Rightarrow>
     (case pem_key lib (contents f) of
        None \<Rightarrow> Inl (BadPem key_path)
      | Some None \<Rightarrow> Inl (NoPrivateKey key_path)
      | Some (Some k) \<Rightarrow> Inr (certs, k))))))"

section \<open>Generating\<close>

text \<open>
  \<open>fs::write\<close>, opening with \<open>truncate\<close> and \<open>mode(0o600)\<close>, writing through the open file and
  \<open>set_permissions\<close>: a file that exists keeps its mode until the last of them.
\<close>

definition write_file :: "nat \<Rightarrow> path \<Rightarrow> ustr \<Rightarrow> files \<Rightarrow> files" where
  "write_file umask p text_of fs =
     fs(p \<mapsto> \<lparr>contents = text_of,
             mode = (case fs p of Some f \<Rightarrow> mode f | None \<Rightarrow> masked umask DEFAULT_MODE)\<rparr>)"

definition open_truncated :: "nat \<Rightarrow> path \<Rightarrow> files \<Rightarrow> files" where
  "open_truncated umask p fs =
     fs(p \<mapsto> \<lparr>contents = [],
             mode = (case fs p of Some f \<Rightarrow> mode f | None \<Rightarrow> masked umask OWNER_ONLY)\<rparr>)"

definition write_open :: "path \<Rightarrow> ustr \<Rightarrow> files \<Rightarrow> files" where
  "write_open p text_of fs = fs(p := map_option (\<lambda>f. f\<lparr>contents := text_of\<rparr>) (fs p))"

definition set_mode :: "path \<Rightarrow> nat \<Rightarrow> files \<Rightarrow> files" where
  "set_mode p m fs = fs(p := map_option (\<lambda>f. f\<lparr>mode := m\<rparr>) (fs p))"

text \<open>The result and the states of the file system in order, the last of which it leaves.\<close>

definition generate_and_persist ::
  "('c, 'k) tls_library \<Rightarrow> (io_op \<Rightarrow> bool) \<Rightarrow> nat \<Rightarrow> files \<Rightarrow> path \<Rightarrow> path \<Rightarrow> path
     \<Rightarrow> (tls_error + 'c list \<times> 'k) \<times> files list" where
  "generate_and_persist lib io umask fs cert_dir cert_path key_path =
     (if \<not> io (CreateDirs cert_dir) then (Inl (IoFailed (CreateDirs cert_dir)), [fs])
      else (case generated lib of
          None \<Rightarrow> (Inl GenerateFailed, [fs])
        | Some (cert_pem, key_pem, c, k) \<Rightarrow>
            if \<not> io (WriteFile cert_path) then (Inl (IoFailed (WriteFile cert_path)), [fs])
            else let fs1 = write_file umask cert_path cert_pem fs in
            if \<not> io (CreateFile key_path) then (Inl (IoFailed (CreateFile key_path)), [fs, fs1])
            else let fs2 = open_truncated umask key_path fs1 in
            if \<not> io (WriteFile key_path) then (Inl (IoFailed (WriteFile key_path)), [fs, fs1, fs2])
            else let fs3 = write_open key_path key_pem fs2 in
            if \<not> io (Chmod key_path) then (Inl (IoFailed (Chmod key_path)), [fs, fs1, fs2, fs3])
            else (Inr ([c], k), [fs, fs1, fs2, fs3, set_mode key_path OWNER_ONLY fs3])))"

definition make_tls_acceptor ::
  "('c, 'k) tls_library \<Rightarrow> (io_op \<Rightarrow> bool) \<Rightarrow> nat \<Rightarrow> files \<Rightarrow> path \<Rightarrow> path option \<Rightarrow> path option
     \<Rightarrow> (tls_error + 'c list \<times> 'k) \<times> files list" where
  "make_tls_acceptor lib io umask fs cert_dir cert key =
     (case (cert, key) of
        (Some c, Some k) \<Rightarrow> (load_pem_cert_and_key lib io fs c k, [fs])
      | (None, None) \<Rightarrow>
          (let cert_path = join_path cert_dir (lit ''cert.pem''); key_path = join_path cert_dir (lit ''key.pem'')
           in if fs cert_path \<noteq> None \<and> fs key_path \<noteq> None
              then (load_pem_cert_and_key lib io fs cert_path key_path, [fs])
              else generate_and_persist lib io umask fs cert_dir cert_path key_path)
      | _ \<Rightarrow> (Inl CertWithoutKey, [fs]))"

section \<open>Expiry\<close>

datatype cert_expiry = Expired | Soon nat | CertOk

text \<open>Times in nanoseconds; an expiry before now is the error of \<open>duration_since\<close>.\<close>

definition classify_expiry :: "nat \<Rightarrow> nat \<Rightarrow> nat \<Rightarrow> cert_expiry" where
  "classify_expiry not_after now warn_days =
     (if not_after < now then Expired
      else let days = (not_after - now) div NANOS div 86400
           in if days \<le> warn_days then Soon days else CertOk)"

section \<open>Properties\<close>

lemma group_or_world_owner_only: "\<not> group_or_world OWNER_ONLY"
  by (simp add: group_or_world_def OWNER_ONLY_def)

lemma masked_owner_only: "\<not> group_or_world (masked umask OWNER_ONLY)"
proof -
  have "(384 AND x) AND 63 = (0::nat)" for x :: nat
  proof -
    have "(384 AND x) AND 63 = (384 AND 63) AND x" by (simp only: ac_simps)
    also have "(384 AND 63 :: nat) = 0" by simp
    finally show ?thesis by simp
  qed
  then have "((384 AND x) AND 511) AND 63 = (0::nat)" for x :: nat
    by (metis and.assoc)
  then show ?thesis by (simp add: group_or_world_def masked_def OWNER_ONLY_def)
qed

lemma load_safe:
  assumes "load_pem_cert_and_key lib io fs cp kp = Inr (certs, k)"
  shows "certs \<noteq> [] \<and> (\<exists>f. fs kp = Some f \<and> \<not> group_or_world (mode f) \<and> pem_key lib (contents f) = Some (Some k))
    \<and> (\<exists>f. fs cp = Some f \<and> pem_certs lib (contents f) = Some certs)"
  using assms
  by (auto simp: load_pem_cert_and_key_def open_pem_def split: option.splits sum.splits if_splits)

lemma paths_differ: "join_path d (lit ''cert.pem'') \<noteq> join_path d (lit ''key.pem'')"
  by (simp add: join_path_def lit_def)

lemma generate_result:
  assumes "generate_and_persist lib io umask fs d cp kp = (Inr (certs, k), fss)" and "cp \<noteq> kp"
  shows "\<exists>cert_pem key_pem c m. generated lib = Some (cert_pem, key_pem, c, k) \<and> certs = [c]
    \<and> last fss kp = Some \<lparr>contents = key_pem, mode = OWNER_ONLY\<rparr>
    \<and> last fss cp = Some \<lparr>contents = cert_pem, mode = m\<rparr>"
  using assms
  by (auto simp: generate_and_persist_def Let_def write_file_def open_truncated_def write_open_def set_mode_def
      split: if_splits option.splits)

text \<open>
  C21. The key a server comes up with lies in a file that only its owner can read, and the identity it
  shows to the clients is a lasting one: with the operator's files nothing is written and nothing
  replaces them; without them the next start finds what this one generated, provided that the
  texts of a generated pair parse as that pair and the files can be read.
\<close>

theorem tls_identity_lasting:
  assumes "make_tls_acceptor lib io umask fs dir cert key = (Inr (certs, k), fss)"
    and "\<And>cert_pem key_pem c k. generated lib = Some (cert_pem, key_pem, c, k) \<Longrightarrow>
      pem_certs lib cert_pem = Some [c] \<and> pem_key lib key_pem = Some (Some k)"
    and "\<And>p. io' (OpenFile p) \<and> io' (StatFile p)"
  shows "certs \<noteq> []
    \<and> (\<exists>f. last fss (case key of Some p \<Rightarrow> p | None \<Rightarrow> join_path dir (lit ''key.pem'')) = Some f \<and> \<not> group_or_world (mode f))
    \<and> (cert \<noteq> None \<longrightarrow> fss = [fs])
    \<and> make_tls_acceptor lib io' umask' (last fss) dir cert key = (Inr (certs, k), [last fss])"
proof -
  let ?cp = "join_path dir (lit ''cert.pem'')" and ?kp = "join_path dir (lit ''key.pem'')"
  have again: "load_pem_cert_and_key lib io' fs' cp kp = Inr (certs, k)"
    if "certs \<noteq> []" "fs' cp = Some f" "pem_certs lib (contents f) = Some certs" "fs' kp = Some g"
      "\<not> group_or_world (mode g)" "pem_key lib (contents g) = Some (Some k)" for fs' cp kp f g
    using that assms(3) by (simp add: load_pem_cert_and_key_def open_pem_def)
  consider c p where "cert = Some c" "key = Some p" | "cert = None" "key = None"
    using assms(1) by (cases cert; cases key) (auto simp: make_tls_acceptor_def)
  then show ?thesis
  proof cases
    case 1
    with assms(1) have l: "load_pem_cert_and_key lib io fs c p = Inr (certs, k)" and f: "fss = [fs]"
      by (auto simp: make_tls_acceptor_def)
    from load_safe [OF l] again show ?thesis using 1 f by (auto simp: make_tls_acceptor_def)
  next
    case 2
    show ?thesis
    proof (cases "fs ?cp \<noteq> None \<and> fs ?kp \<noteq> None")
      case True
      with 2 assms(1) have l: "load_pem_cert_and_key lib io fs ?cp ?kp = Inr (certs, k)" and f: "fss = [fs]"
        by (auto simp: make_tls_acceptor_def Let_def)
      from load_safe [OF l] again show ?thesis using 2 f True by (auto simp: make_tls_acceptor_def Let_def)
    next
      case False
      with 2 assms(1) have "generate_and_persist lib io umask fs dir ?cp ?kp = (Inr (certs, k), fss)"
        by (auto simp: make_tls_acceptor_def Let_def split: if_splits)
      from generate_result [OF this paths_differ] assms(2) obtain cert_pem key_pem c m
        where g: "pem_certs lib cert_pem = Some [c]" "pem_key lib key_pem = Some (Some k)" "certs = [c]"
          "last fss ?kp = Some \<lparr>contents = key_pem, mode = OWNER_ONLY\<rparr>"
          "last fss ?cp = Some \<lparr>contents = cert_pem, mode = m\<rparr>" by blast
      then have "load_pem_cert_and_key lib io' (last fss) ?cp ?kp = Inr (certs, k)"
        using group_or_world_owner_only by (intro again) auto
      with g 2 group_or_world_owner_only show ?thesis by (simp add: make_tls_acceptor_def Let_def)
    qed
  qed
qed

text \<open>A library that knows one pair, whose texts are the words \<open>cert\<close> and \<open>key\<close>.\<close>

definition one_pair :: "(nat, nat) tls_library" where
  "one_pair = \<lparr>pem_certs = \<lambda>t. if t = lit ''cert'' then Some [1] else None,
     pem_key = \<lambda>t. if t = lit ''key'' then Some (Some 2) else None,
     generated = Some (lit ''cert'', lit ''key'', 1, 2)\<rparr>"

theorem tls_identity_lasting_witness:
  "\<exists>fss. make_tls_acceptor one_pair (\<lambda>_. True) 18 Map.empty (lit ''d'') None None = (Inr ([1], 2), fss)
    \<and> make_tls_acceptor one_pair (\<lambda>_. True) 0 (last fss) (lit ''d'') None None = (Inr ([1], 2), [last fss])"
proof -
  obtain fss where s: "make_tls_acceptor one_pair (\<lambda>_. True) 18 Map.empty (lit ''d'') None None = (Inr ([1], 2), fss)"
    by (simp add: make_tls_acceptor_def generate_and_persist_def one_pair_def Let_def)
  have lib: "pem_certs one_pair cert_pem = Some [c] \<and> pem_key one_pair key_pem = Some (Some k)"
    if "generated one_pair = Some (cert_pem, key_pem, c, k)" for cert_pem key_pem c k
    using that by (auto simp: one_pair_def)
  from tls_identity_lasting [OF s lib, of "\<lambda>_. True" 0] s show ?thesis by auto
qed

text \<open>While a fresh key is written it is never readable by others; an existing file keeps its mode.\<close>

lemma fresh_key_never_exposed:
  assumes "generate_and_persist lib io umask fs d cp kp = (res, fss)" and "fs kp = None" and "cp \<noteq> kp"
    and "fs' \<in> set fss" and "fs' kp = Some f"
  shows "\<not> group_or_world (mode f)"
  using assms masked_owner_only group_or_world_owner_only
  by (auto simp: generate_and_persist_def Let_def write_file_def open_truncated_def write_open_def set_mode_def
      split: if_splits option.splits prod.splits)

lemma existing_key_file_exposes:
  assumes "generated lib = Some (cert_pem, key_pem, c, k)" and "\<And>x. io x" and "cp \<noteq> kp"
    and "fs kp = Some f" and "group_or_world (mode f)"
  shows "\<exists>fs' g. fs' \<in> set (snd (generate_and_persist lib io umask fs d cp kp)) \<and> fs' kp = Some g
    \<and> contents g = key_pem \<and> group_or_world (mode g)"
proof -
  let ?fs3 = "write_open kp key_pem (open_truncated umask kp (write_file umask cp cert_pem fs))"
  have "?fs3 \<in> set (snd (generate_and_persist lib io umask fs d cp kp))"
    using assms(1,2) by (simp add: generate_and_persist_def Let_def)
  moreover have "?fs3 kp = Some \<lparr>contents = key_pem, mode = mode f\<rparr>"
    using assms(3,4) by (simp add: write_open_def open_truncated_def write_file_def)
  ultimately show ?thesis using assms(5) by fastforce
qed

lemma expiry_exact:
  "classify_expiry t now w = Expired \<longleftrightarrow> t < now"
  "classify_expiry t now w = CertOk \<longleftrightarrow> now \<le> t \<and> w < (t - now) div (86400 * NANOS)"
  by (auto simp: classify_expiry_def Let_def div_mult2_eq mult.commute [of 86400])

end
