(* ===== verification/Server_Start.thy ===== *)
theory Server_Start
  imports Server_Tls Server_Config Auth_Guard Audio_Convert
begin

text \<open>
  The start of the server, \<open>async_main\<close> of \<open>src/src/main.rs\<close>: which settings are refused, whose
  credentials the sessions will need, under which certificate and at which size they are served.
  What the system answers on the way (the port probe, the virtual display, the key chain, the
  prompt, PAM, the displays) is the \<open>start_env\<close>; the first error ends the start, as the question
  mark of the source does. Building the server from these values is calls of its library. The
  small decisions of the neighbourhood follow: the sleep assertion, the helper programs, the key
  chain entry.
\<close>

section \<open>Arguments and environment\<close>

record server_args =
  bind_ip :: ip_addr
  a_username :: "ustr option"
  a_password :: "ustr option"
  a_keychain :: bool
  skip_auth :: bool
  a_virtual_display :: bool
  make_primary :: bool
  detach_primary :: bool
  capture_primary :: bool
  shield_primary :: bool
  a_width :: "nat option"
  a_height :: "nat option"
  hidpi :: bool
  a_fps :: "nat option"
  enable_h264 :: bool
  enable_aac :: bool
  aac_bitrate :: nat
  enable_lossy_audio :: bool
  enable_udp_multitransport :: bool
  no_client_resolution :: bool
  a_max_client_size :: "(nat \<times> nat) option"
  a_cert_dir :: "path option"
  a_cert :: "path option"
  a_key :: "path option"

record ('c, 'k) start_env =
  port_taken :: bool
  new_virtual_display :: "nat \<Rightarrow> nat \<Rightarrow> nat option"
  promote_ok :: bool
  user_var :: "ustr option"
  home_var :: "path option"
  keychain_entry :: "ustr \<Rightarrow> ustr option"
  prompted :: "ustr option"
  pam_accepts :: "ustr \<Rightarrow> ustr \<Rightarrow> bool"
  detect_size :: "nat \<Rightarrow> (nat \<times> nat) option option"
  backing_size :: "(nat \<times> nat) option"
  shield_helper_ok :: bool
  tls_files :: files
  tls_io :: "io_op \<Rightarrow> bool"
  tls_umask :: nat
  tls_lib :: "('c, 'k) tls_library"
  auto_reconnect_var :: "ustr option"
  random_ok :: bool

datatype start_error =
  PortTaken
  | NeedsVirtualDisplay
  | MutuallyExclusive
  | NoDimension
  | VirtualDisplayFailed
  | PromoteFailed
  | NoUsername
  | NoPassword
  | AuthFailed
  | SkipAuthRefused
  | NoHome
  | CertAndKeyTogether
  | TlsFailed tls_error
  | NoDisplays
  | NoShieldHelper

section \<open>The parts of the start\<close>

definition check_display_flags :: "server_args \<Rightarrow> start_error option" where
  "check_display_flags a =
     (if make_primary a \<and> \<not> a_virtual_display a then Some NeedsVirtualDisplay
      else if detach_primary a \<and> \<not> a_virtual_display a then Some NeedsVirtualDisplay
      else if capture_primary a \<and> \<not> a_virtual_display a then Some NeedsVirtualDisplay
      else if shield_primary a \<and> \<not> a_virtual_display a then Some NeedsVirtualDisplay
      else if capture_primary a \<and> detach_primary a then Some MutuallyExclusive
      else if shield_primary a \<and> detach_primary a then Some MutuallyExclusive
      else if shield_primary a \<and> capture_primary a then Some MutuallyExclusive
      else None)"

definition attach_virtual_display :: "server_args \<Rightarrow> ('c, 'k) start_env \<Rightarrow> start_error + nat option" where
  "attach_virtual_display a e =
     (if a_virtual_display a then
        (case a_width a of None \<Rightarrow> Inl NoDimension
         | Some w \<Rightarrow> (case a_height a of None \<Rightarrow> Inl NoDimension
         | Some h \<Rightarrow> (case new_virtual_display e w h of
              None \<Rightarrow> Inl VirtualDisplayFailed | Some vd \<Rightarrow> Inr (Some vd))))
      else Inr None)"

datatype overlay = Detach | Capture | Shield | MakePrimary

definition chosen_overlay :: "server_args \<Rightarrow> overlay option" where
  "chosen_overlay a =
     (if detach_primary a then Some Detach
      else if capture_primary a then Some Capture
      else if shield_primary a then Some Shield
      else if make_primary a then Some MakePrimary
      else None)"

definition credentials :: "server_args \<Rightarrow> ('c, 'k) start_env \<Rightarrow> start_error + ustr \<times> ustr" where
  "credentials a e =
     (case (case a_username a of Some u \<Rightarrow> Some u | None \<Rightarrow> user_var e) of
        None \<Rightarrow> Inl NoUsername
      | Some u \<Rightarrow>
          (case (if a_keychain a then keychain_entry e u
                 else case a_password a of Some p \<Rightarrow> Some p | None \<Rightarrow> prompted e) of
             None \<Rightarrow> Inl NoPassword
           | Some p \<Rightarrow>
               if \<not> skip_auth a then if pam_accepts e u p then Inr (u, p) else Inl AuthFailed
               else if is_loopback (bind_ip a) then Inr (u, p) else Inl SkipAuthRefused))"

definition default_cert_dir :: "path option \<Rightarrow> path option" where
  "default_cert_dir home = map_option (\<lambda>h. join_path h (lit ''Library/Application Support/macrdp'')) home"

definition server_tls :: "server_args \<Rightarrow> ('c, 'k) start_env \<Rightarrow> (start_error + 'c list \<times> 'k) \<times> files list" where
  "server_tls a e =
     (case (case a_cert_dir a of Some d \<Rightarrow> Some d | None \<Rightarrow> default_cert_dir (home_var e)) of
        None \<Rightarrow> (Inl NoHome, [tls_files e])
      | Some dir \<Rightarrow>
          if (a_cert a \<noteq> None) \<noteq> (a_key a \<noteq> None) then (Inl CertAndKeyTogether, [tls_files e])
          else (case make_tls_acceptor (tls_lib e) (tls_io e) (tls_umask e) (tls_files e) dir (a_cert a) (a_key a) of
              (Inl err, fss) \<Rightarrow> (Inl (TlsFailed err), fss)
            | (Inr m, fss) \<Rightarrow> (Inr m, fss)))"

definition FALLBACK_WIDTH :: nat where "FALLBACK_WIDTH = 1280"
definition FALLBACK_HEIGHT :: nat where "FALLBACK_HEIGHT = 720"

text \<open>
  The display may be asleep: after a failure, twelve more attempts ten seconds apart. The outer
  option of \<open>detect_size\<close> is the error, the inner one a platform without displays.
\<close>

fun detect_again :: "(nat \<Rightarrow> (nat \<times> nat) option option) \<Rightarrow> nat \<Rightarrow> nat \<Rightarrow> (nat \<times> nat) option option" where
  "detect_again detect i 0 = None"
| "detect_again detect i (Suc n) = (case detect i of Some d \<Rightarrow> Some d | None \<Rightarrow> detect_again detect (Suc i) n)"

definition desktop_size :: "server_args \<Rightarrow> ('c, 'k) start_env \<Rightarrow> start_error + nat \<times> nat" where
  "desktop_size a e =
     (if a_virtual_display a then
        (case (a_width a, a_height a) of (Some w, Some h) \<Rightarrow> Inr (w, h) | _ \<Rightarrow> Inl NoDimension)
      else
        (case (case detect_size e 0 of Some d \<Rightarrow> Some d | None \<Rightarrow> detect_again (detect_size e) 1 12) of
           None \<Rightarrow> Inl NoDisplays
         | Some detected \<Rightarrow>
             let w = (case a_width a of Some w \<Rightarrow> w
                 | None \<Rightarrow> (case detected of Some (dw, _) \<Rightarrow> dw | None \<Rightarrow> FALLBACK_WIDTH));
                 h = (case a_height a of Some h \<Rightarrow> h
                 | None \<Rightarrow> (case detected of Some (_, dh) \<Rightarrow> dh | None \<Rightarrow> FALLBACK_HEIGHT))
             in if hidpi a \<and> a_width a = None \<and> a_height a = None
                then Inr (case backing_size e of Some b \<Rightarrow> b | None \<Rightarrow> (w, h))
                else Inr (w, h)))"

definition chosen_fps :: "server_args \<Rightarrow> nat" where
  "chosen_fps a = (case a_fps a of Some f \<Rightarrow> f | None \<Rightarrow> if enable_h264 a then 60 else 15)"

definition auto_size :: "server_args \<Rightarrow> bool" where
  "auto_size a \<longleftrightarrow> \<not> no_client_resolution a
     \<and> (a_virtual_display a \<or> \<not> hidpi a \<and> a_width a = None \<and> a_height a = None)"

definition client_size_cap :: "server_args \<Rightarrow> (nat \<times> nat) option" where
  "client_size_cap a = (if auto_size a then a_max_client_size a else None)"

definition reconnect_cookie :: "('c, 'k) start_env \<Rightarrow> bool" where
  "reconnect_cookie e \<longleftrightarrow>
     (case auto_reconnect_var e of
        Some v \<Rightarrow> v \<noteq> lit ''0'' \<and> v \<noteq> lit ''false'' \<and> v \<noteq> lit ''FALSE'' | None \<Rightarrow> True) \<and> random_ok e"

text \<open>The listener for UDP, and the formats of the lossy audio channel it carries.\<close>

definition udp_listener_wanted :: "server_args \<Rightarrow> bool" where
  "udp_listener_wanted a \<longleftrightarrow> enable_udp_multitransport a \<or> enable_lossy_audio a"

definition lossy_audio_formats :: "server_args \<Rightarrow> bool \<Rightarrow> audio_format list option" where
  "lossy_audio_formats a lossy_var =
     (if (enable_lossy_audio a \<or> lossy_var) \<and> enable_aac a
      then Some (server_audio_formats (enable_aac a) (aac_bitrate a)) else None)"

section \<open>The whole start\<close>

record ('c, 'k) server_setup =
  su_user :: ustr
  su_password :: ustr
  su_display :: "nat option"
  su_overlay :: "overlay option"
  su_certs :: "'c list"
  su_key :: 'k
  su_files :: "files list"
  su_size :: "nat \<times> nat"
  su_fps :: nat
  su_auto_size :: bool
  su_size_cap :: "(nat \<times> nat) option"
  su_cookie :: bool

definition start_server :: "server_args \<Rightarrow> ('c, 'k) start_env \<Rightarrow> start_error + ('c, 'k) server_setup" where
  "start_server a e =
     (if port_taken e then Inl PortTaken
      else case check_display_flags a of
        Some err \<Rightarrow> Inl err
      | None \<Rightarrow>
     (case attach_virtual_display a e of
        Inl err \<Rightarrow> Inl err
      | Inr vd \<Rightarrow>
     if chosen_overlay a = Some MakePrimary \<and> \<not> promote_ok e then Inl PromoteFailed
     else (case credentials a e of
        Inl err \<Rightarrow> Inl err
      | Inr (user, password) \<Rightarrow>
     (case server_tls a e of
        (Inl err, _) \<Rightarrow> Inl err
      | (Inr (certs, k), fss) \<Rightarrow>
     (case desktop_size a e of
        Inl err \<Rightarrow> Inl err
      | Inr sz \<Rightarrow>
     if shield_primary a \<and> \<not> shield_helper_ok e then Inl NoShieldHelper
     else Inr \<lparr>su_user = user, su_password = password, su_display = vd, su_overlay = chosen_overlay a,
       su_certs = certs, su_key = k, su_files = fss, su_size = sz, su_fps = chosen_fps a,
       su_auto_size = auto_size a, su_size_cap = client_size_cap a, su_cookie = reconnect_cookie e\<rparr>)))))"

section \<open>The key chain and the helpers\<close>

text \<open>The output of \<open>security\<close>: the exit status and, if it is valid UTF-8, its text.\<close>

definition password_from_keychain :: "bool \<Rightarrow> ustr option \<Rightarrow> ustr option" where
  "password_from_keychain success out =
     (if \<not> success then None
      else case out of
        None \<Rightarrow> None
      | Some s \<Rightarrow> let p = (if s \<noteq> [] \<and> last s = 10 then butlast s else s) in if p = [] then None else Some p)"

text \<open>The override, the copy in the bundle and the development build, in that order.\<close>

definition if_file :: "(path \<Rightarrow> bool) \<Rightarrow> path option \<Rightarrow> path option" where
  "if_file is_file p = Option.bind p (\<lambda>q. if is_file q then Some q else None)"

definition locate_helper :: "path option \<Rightarrow> path option \<Rightarrow> path option \<Rightarrow> (path \<Rightarrow> bool) \<Rightarrow> path option" where
  "locate_helper override bundled dev is_file =
     (case if_file is_file override of
        Some p \<Rightarrow> Some p
      | None \<Rightarrow> (case if_file is_file bundled of Some p \<Rightarrow> Some p | None \<Rightarrow> if_file is_file dev))"

definition designated_requirement_identifier :: "ustr \<Rightarrow> ustr option" where
  "designated_requirement_identifier dr =
     Option.bind (strip_prefix (lit ''identifier '') (trim dr)) (\<lambda>r.
       let rest = dropWhile is_whitespace r;
           ident = (case strip_prefix [34] rest of
               Some inner \<Rightarrow> first_field 34 inner
             | None \<Rightarrow> (case split_whitespace rest of w # _ \<Rightarrow> w | [] \<Rightarrow> []))
       in if ident = [] then None else Some ident)"

section \<open>The sleep assertion\<close>

datatype power_source = Ac | Battery | Unknown

definition parse_power_source :: "ustr \<Rightarrow> power_source" where
  "parse_power_source out =
     (if contains out (lit (CHR 0x27 # ''AC Power'' @ [CHR 0x27])) then Ac
      else if contains out (lit (CHR 0x27 # ''Battery Power'' @ [CHR 0x27])) then Battery
      else Unknown)"

text \<open>
  One round of \<open>watch_power_source_for_sleep\<close>: the child that holds the assertion (by a number), the
  source that was last acted on, whether a child has died and what a spawn would give.
\<close>

record power_state =
  child :: "nat option"
  applied :: "power_source option"

datatype power_call = Spawn | Kill nat

definition power_tick :: "power_source \<Rightarrow> (nat \<Rightarrow> bool) \<Rightarrow> nat option \<Rightarrow> power_state \<Rightarrow> power_state \<times> power_call list" where
  "power_tick src died spawned p =
     (let dead = (case child p of Some c \<Rightarrow> died c | None \<Rightarrow> True);
          p1 = (if applied p = Some Ac \<and> dead then p\<lparr>applied := None\<rparr> else p)
      in if src \<noteq> Unknown \<and> applied p1 \<noteq> Some src then
           (case src of
              Ac \<Rightarrow> ((case spawned of Some c \<Rightarrow> p1\<lparr>child := Some c\<rparr> | None \<Rightarrow> p1)\<lparr>applied := Some Ac\<rparr>, [Spawn])
            | _ \<Rightarrow> (p1\<lparr>child := None, applied := Some src\<rparr>,
                    case child p1 of Some c \<Rightarrow> [Kill c] | None \<Rightarrow> []))
         else (p1, []))"

end
