(* ===== verification/Server_Start_Props.thy ===== *)
theory Server_Start_Props
  imports Server_Start
begin

text \<open>
  What a start that succeeds has established, what the configuration can and cannot switch on, and
  the sleep assertion over a run of rounds.
\<close>

lemma start_serverD:
  assumes "start_server a e = Inr su"
  shows "\<not> port_taken e" and "check_display_flags a = None" and "attach_virtual_display a e = Inr (su_display su)"
    and "credentials a e = Inr (su_user su, su_password su)"
    and "server_tls a e = (Inr (su_certs su, su_key su), su_files su)" and "desktop_size a e = Inr (su_size su)"
    and "su_overlay su = chosen_overlay a" and "su_size_cap su = client_size_cap a" and "su_auto_size su = auto_size a"
  using assms by (auto simp: start_server_def split: if_splits option.splits sum.splits prod.splits)

text \<open>
  Where the private key lies: the operator's \<open>--key\<close>, or \<open>key.pem\<close> in the certificate directory.
\<close>

definition key_file :: "server_args \<Rightarrow> ('c, 'k) start_env \<Rightarrow> path option" where
  "key_file a e =
     (case a_key a of
        Some p \<Rightarrow> Some p
      | None \<Rightarrow>
          (case a_cert_dir a of
             Some d \<Rightarrow> Some (join_path d (lit ''key.pem''))
           | None \<Rightarrow> map_option (\<lambda>d. join_path d (lit ''key.pem'')) (default_cert_dir (home_var e))))"

text \<open>The text of a file is that of the key: it reads as the key, or was written from it.\<close>

definition text_of_key :: "('c, 'k) tls_library \<Rightarrow> ustr \<Rightarrow> 'k \<Rightarrow> bool" where
  "text_of_key lib t k \<longleftrightarrow>
     pem_key lib t = Some (Some k) \<or> (\<exists>cert_pem c. generated lib = Some (cert_pem, t, c, k))"

lemma server_tls_safe:
  assumes "server_tls a e = (Inr (certs, k), fss)"
  shows "certs \<noteq> []
    \<and> (\<exists>kp f. key_file a e = Some kp \<and> last fss kp = Some f \<and> \<not> group_or_world (mode f)
         \<and> text_of_key (tls_lib e) (contents f) k)"
proof -
  from assms obtain dir where m: "make_tls_acceptor (tls_lib e) (tls_io e) (tls_umask e) (tls_files e) dir
      (a_cert a) (a_key a) = (Inr (certs, k), fss)" and both: "(a_cert a \<noteq> None) = (a_key a \<noteq> None)"
    and dir: "(case a_cert_dir a of Some d \<Rightarrow> Some d | None \<Rightarrow> default_cert_dir (home_var e)) = Some dir"
    by (auto simp: server_tls_def split: option.splits if_splits prod.splits sum.splits)
  let ?cp = "join_path dir (lit ''cert.pem'')" and ?kp = "join_path dir (lit ''key.pem'')"
  have own: "key_file a e = Some ?kp" if "a_key a = None"
    using that dir by (auto simp: key_file_def split: option.splits)
  consider cp kp where "load_pem_cert_and_key (tls_lib e) (tls_io e) (tls_files e) cp kp = Inr (certs, k)" "fss = [tls_files e]"
      "key_file a e = Some kp"
    | "generate_and_persist (tls_lib e) (tls_io e) (tls_umask e) (tls_files e) dir ?cp ?kp = (Inr (certs, k), fss)"
      "key_file a e = Some ?kp"
    using m own by (auto simp: make_tls_acceptor_def key_file_def Let_def split: option.splits if_splits)
  then show ?thesis
  proof cases
    case 1
    with load_safe [OF 1(1)] show ?thesis by (auto simp: text_of_key_def)
  next
    case 2
    from generate_result [OF 2(1) paths_differ] obtain cert_pem key_pem c where
      "generated (tls_lib e) = Some (cert_pem, key_pem, c, k)" "certs = [c]"
      "last fss ?kp = Some \<lparr>contents = key_pem, mode = OWNER_ONLY\<rparr>"
      by blast
    with 2(2) group_or_world_owner_only show ?thesis by (auto simp: text_of_key_def)
  qed
qed

text \<open>
  C6. A server that has started serves no session without a password that the system has accepted,
  unless it was told to skip the check and listens on the loopback address only; the file its
  private key comes from (the operator's, or \<open>key.pem\<close> in the certificate directory) holds the
  text of the very key it uses and is open to no group and no other user; it runs at most one of the mechanisms that blank the
  physical display, and then with a virtual display; and the cap on the client's size is in force
  whenever the client's size is adopted.
\<close>

theorem startup_guarded:
  assumes "start_server a e = Inr su"
  shows "(pam_accepts e (su_user su) (su_password su) \<or> skip_auth a \<and> is_loopback (bind_ip a))
    \<and> su_certs su \<noteq> []
    \<and> (\<exists>kp f. key_file a e = Some kp \<and> last (su_files su) kp = Some f \<and> \<not> group_or_world (mode f)
         \<and> text_of_key (tls_lib e) (contents f) (su_key su))
    \<and> (su_overlay su \<noteq> None \<longrightarrow> su_display su \<noteq> None)
    \<and> length (filter (\<lambda>b. b) [detach_primary a, capture_primary a, shield_primary a]) \<le> 1
    \<and> su_size_cap su = (if su_auto_size su then a_max_client_size a else None)"
proof -
  note d = start_serverD [OF assms]
  have "pam_accepts e (su_user su) (su_password su) \<or> skip_auth a \<and> is_loopback (bind_ip a)"
    using d(4) by (auto simp: credentials_def split: option.splits if_splits)
  moreover have "su_overlay su \<noteq> None \<longrightarrow> su_display su \<noteq> None"
    using d(2,3,7) by (cases "su_display su") (auto simp: check_display_flags_def attach_virtual_display_def chosen_overlay_def
        split: if_splits option.splits)
  moreover have "length (filter (\<lambda>b. b) [detach_primary a, capture_primary a, shield_primary a]) \<le> 1"
    using d(2) by (auto simp: check_display_flags_def split: if_splits)
  ultimately show ?thesis
    using server_tls_safe [OF d(5)] d(8,9) by (auto simp: client_size_cap_def)
qed

definition sample_args :: server_args where
  "sample_args = \<lparr>bind_ip = V4 0, a_username = Some (lit ''ann''), a_password = Some (lit ''pw''), a_keychain = False,
     skip_auth = False, a_virtual_display = True, make_primary = False, detach_primary = False,
     capture_primary = True, shield_primary = False, a_width = Some 1920, a_height = Some 1080, hidpi = False,
     a_fps = None, enable_h264 = True, enable_aac = False, aac_bitrate = 128000, enable_lossy_audio = False,
     enable_udp_multitransport = False, no_client_resolution = False, a_max_client_size = Some (2560, 1440),
     a_cert_dir = Some (lit ''d''), a_cert = None, a_key = None\<rparr>"

definition sample_env :: "(nat, nat) start_env" where
  "sample_env = \<lparr>port_taken = False, new_virtual_display = \<lambda>w h. Some 7, promote_ok = True, user_var = None,
     home_var = None, keychain_entry = \<lambda>u. None, prompted = None, pam_accepts = \<lambda>u p. p = lit ''pw'',
     detect_size = \<lambda>i. None, backing_size = None, shield_helper_ok = False, tls_files = Map.empty,
     tls_io = \<lambda>x. True, tls_umask = 18, tls_lib = one_pair, auto_reconnect_var = None, random_ok = True\<rparr>"

theorem startup_guarded_witness:
  "\<exists>su. start_server sample_args sample_env = Inr su \<and> pam_accepts sample_env (su_user su) (su_password su)
    \<and> su_display su \<noteq> None \<and> su_size_cap su = Some (2560, 1440)
    \<and> (\<exists>f. last (su_files su) (lit ''d/key.pem'') = Some f \<and> \<not> group_or_world (mode f)
         \<and> text_of_key one_pair (contents f) (su_key su))"
proof -
  have "\<exists>su. start_server sample_args sample_env = Inr su \<and> su_overlay su = Some Capture \<and> su_auto_size su"
    by (simp add: start_server_def sample_args_def sample_env_def check_display_flags_def attach_virtual_display_def
        chosen_overlay_def credentials_def server_tls_def make_tls_acceptor_def generate_and_persist_def one_pair_def
        desktop_size_def auto_size_def Let_def)
  then obtain su where su: "start_server sample_args sample_env = Inr su" "su_overlay su = Some Capture" "su_auto_size su"
    by blast
  have "key_file sample_args sample_env = Some (lit ''d/key.pem'')" "tls_lib sample_env = one_pair"
    by (simp_all add: key_file_def sample_args_def sample_env_def join_path_def lit_def)
  with startup_guarded [OF su(1)] su show ?thesis by (auto simp: sample_args_def)
qed

section \<open>Lossy audio from the configuration file\<close>

text \<open>
  The file switches reliable AAC off when it switches lossy audio on, but the lossy channel is
  offered only together with AAC: settings alone never bring it up.
\<close>

lemma settings_drop_aac:
  "lossy_audio conf \<Longrightarrow> audio_args conf = push_value conf ''AAC_BITRATE'' ''--aac-bitrate''"
  by (simp add: audio_args_def push_if_def)

lemma lossy_channel_needs_aac: "\<not> enable_aac a \<Longrightarrow> lossy_audio_formats a v = None"
  by (simp add: lossy_audio_formats_def)

lemma lossy_channel_starts_with_aac:
  "lossy_audio_formats a v = Some fs \<Longrightarrow> choose_format fs = Some (aac_format (aac_bitrate a))"
  by (auto simp: lossy_audio_formats_def server_audio_formats_def choose_format_def split: if_splits)

section \<open>The sleep assertion over a run\<close>

text \<open>
  The processes that hold the assertion: some die by themselves before a round, the round kills and
  spawns.
\<close>

definition power_round :: "power_source \<times> nat set \<times> nat option \<Rightarrow> power_state \<times> nat set \<Rightarrow> power_state \<times> nat set" where
  "power_round ev x =
     (case (ev, x) of ((src, deaths, spawned), p, alive) \<Rightarrow>
        let alive0 = alive - deaths; (p', calls) = power_tick src (\<lambda>c. c \<notin> alive0) spawned p
        in (p', (alive0 - {c. Kill c \<in> set calls}) \<union> (if Spawn \<in> set calls then set_option spawned else {})))"

definition power_ok :: "power_state \<times> nat set \<Rightarrow> bool" where
  "power_ok x \<longleftrightarrow> snd x \<subseteq> set_option (child (fst x)) \<and> (applied (fst x) \<noteq> Some Ac \<longrightarrow> snd x = {})"

lemma power_round_ok:
  assumes "power_ok (p, alive)" and "power_round (src, deaths, spawned) (p, alive) = (p', alive')"
  shows "power_ok (p', alive') \<and> (src = Battery \<longrightarrow> alive' = {}) \<and> (src = Ac \<longrightarrow> spawned \<noteq> None \<longrightarrow> alive' \<noteq> {})
    \<and> (src = Unknown \<longrightarrow> alive' = alive - deaths)"
proof -
  have sub: "alive - deaths \<subseteq> set_option (child p)" "applied p \<noteq> Some Ac \<Longrightarrow> alive = {}"
    using assms(1) by (auto simp: power_ok_def)
  show ?thesis
    using assms(2) sub by (cases src; cases "child p"; cases spawned; cases "applied p = Some Ac")
      (auto simp: power_round_def power_tick_def power_ok_def Let_def split: if_splits)
qed

interpretation power: stepper "\<lambda>x ev. power_round ev x" power_ok "\<lambda>_. True"
proof
  fix x :: "power_state \<times> nat set" and ev :: "power_source \<times> nat set \<times> nat option"
  assume ok: "power_ok x"
  obtain p alive src deaths spawned where x: "x = (p, alive)" and ev: "ev = (src, deaths, spawned)"
    by (cases x, cases ev) auto
  obtain p' alive' where r: "power_round ev x = (p', alive')" by fastforce
  show "power_ok (power_round ev x)" using power_round_ok [of p alive src deaths spawned p' alive'] ok r by (simp add: x ev)
qed

text \<open>
  From the start on, at most one process holds the assertion, and after a round that found the Mac on
  battery none does.
\<close>

lemma sleep_hold_follows_power:
  assumes "foldl (\<lambda>x ev. power_round ev x) (\<lparr>child = None, applied = None\<rparr>, {}) (evs @ [(src, deaths, spawned)]) = (p, alive)"
  shows "card alive \<le> 1 \<and> (src = Battery \<longrightarrow> alive = {}) \<and> (src = Ac \<longrightarrow> spawned \<noteq> None \<longrightarrow> alive \<noteq> {})"
proof -
  obtain q held where q: "foldl (\<lambda>x ev. power_round ev x) (\<lparr>child = None, applied = None\<rparr>, {}) evs = (q, held)"
    by fastforce
  have "power_ok (foldl (\<lambda>x ev. power_round ev x) (\<lparr>child = None, applied = None\<rparr>, {}) evs)"
    by (rule power.run_inv) (simp_all add: power_ok_def)
  then have ok: "power_ok (q, held)" by (simp add: q)
  have "power_round (src, deaths, spawned) (q, held) = (p, alive)" using assms by (simp add: q)
  note step = power_round_ok [OF ok this]
  have "card alive \<le> 1"
  proof (cases "child p")
    case None
    with step show ?thesis by (simp add: power_ok_def)
  next
    case (Some c)
    with step have "alive \<subseteq> {c}" by (simp add: power_ok_def)
    from card_mono [OF _ this] show ?thesis by simp
  qed
  with step show ?thesis by simp
qed

end
