(* ===== verification/Overlay_Watcher.thy ===== *)
theory Overlay_Watcher
  imports Rust_Std Prelude
begin

text \<open>
  The watcher that makes the Mac headless while a client is connected,
  \<open>spawn_primary_overlay_watcher\<close> in \<open>src/src/main.rs\<close>, as a step relation: its task is interleaved
  with the sessions that come and go (the tracker of \<open>src/src/capture.rs\<close>, whose notification is a
  single permit) and with the passing of time. The overlay is whichever of the three mechanisms is
  installed; installing and dropping it may take any time, during which sessions change.
\<close>

definition ENGAGED_SETTLE :: duration where "ENGAGED_SETTLE = from_secs 3"
definition CONNECT_DEBOUNCE :: duration where "CONNECT_DEBOUNCE = from_millis 750"
definition REACTIVATION_GRACE :: duration where "REACTIVATION_GRACE = from_millis 2500"
definition REACTIVATION_POLL :: duration where "REACTIVATION_POLL = from_millis 75"
definition DETACH_STUCK_EXIT_CODE :: int where "DETACH_STUCK_EXIT_CODE = 69"

definition detach_restart_on_stuck :: "bool \<Rightarrow> ustr option \<Rightarrow> bool" where
  "detach_restart_on_stuck stdout_is_tty env_override =
     (case map_option (\<lambda>s. to_ascii_lowercase (trim s)) env_override of
        Some v \<Rightarrow>
          if v \<in> {lit ''1'', lit ''on'', lit ''true'', lit ''yes''} then True
          else if v \<in> {lit ''0'', lit ''off'', lit ''false'', lit ''no''} then False
          else \<not> stdout_is_tty
      | None \<Rightarrow> \<not> stdout_is_tty)"

text \<open>
  Where the task is: waiting for a notification, sleeping until the end of the debounce, in
  \<open>install\<close>, polling for the session with a deadline and the time of the next poll, sleeping until the
  window server has settled, or ended with the process.
\<close>

datatype watch_phase =
  Waiting
  | Debouncing instant
  | Installing
  | Grace instant instant
  | Settling instant
  | ProcessGone

record watch_config =
  restore_windows :: bool
  detaching :: bool
  restart_on_stuck :: bool

record watch_state =
  sessions :: nat
  permit :: bool
  phase :: watch_phase
  was_zero :: bool
  installed_at :: "instant option"
  engaged :: bool
  clock :: instant

datatype watch_call =
  Installed instant
  | InstallFailed
  | Dropped instant
  | GatherOnVirtual
  | SweepToPhysical
  | Cleanup
  | Exit int

definition watch_init :: watch_state where
  "watch_init = \<lparr>sessions = 0, permit = False, phase = Waiting, was_zero = True, installed_at = None,
     engaged = False, clock = 0\<rparr>"

text \<open>The end of the settling time after an installation, or now.\<close>

definition settled_at :: "watch_state \<Rightarrow> instant" where
  "settled_at s =
     (case installed_at s of
        Some t \<Rightarrow> if saturating_duration_since (clock s) t < ENGAGED_SETTLE
            then clock s + (ENGAGED_SETTLE - saturating_duration_since (clock s) t) else clock s
      | None \<Rightarrow> clock s)"

inductive watch_step :: "watch_config \<Rightarrow> watch_state \<Rightarrow> watch_call list \<Rightarrow> watch_state \<Rightarrow> bool"
  for c :: watch_config where
  enter: "watch_step c s [] (s\<lparr>sessions := sessions s + 1, permit := True\<rparr>)"
| leave: "0 < sessions s \<Longrightarrow> watch_step c s [] (s\<lparr>sessions := sessions s - 1, permit := True\<rparr>)"
| time: "watch_step c s [] (s\<lparr>clock := clock s + d\<rparr>)"
| wake_connect:
    "phase s = Waiting \<Longrightarrow> permit s \<Longrightarrow> was_zero s \<Longrightarrow> sessions s \<noteq> 0 \<Longrightarrow>
       watch_step c s [] (s\<lparr>permit := False, phase := Debouncing (clock s + CONNECT_DEBOUNCE)\<rparr>)"
| wake_disconnect:
    "phase s = Waiting \<Longrightarrow> permit s \<Longrightarrow> \<not> was_zero s \<Longrightarrow> sessions s = 0 \<Longrightarrow>
       watch_step c s [] (s\<lparr>permit := False,
         phase := Grace (clock s + REACTIVATION_GRACE) (clock s + REACTIVATION_POLL)\<rparr>)"
| wake_same:
    "phase s = Waiting \<Longrightarrow> permit s \<Longrightarrow> was_zero s = (sessions s = 0) \<Longrightarrow>
       watch_step c s [] (s\<lparr>permit := False, was_zero := (sessions s = 0)\<rparr>)"
| flapped:
    "phase s = Debouncing t \<Longrightarrow> t \<le> clock s \<Longrightarrow> sessions s = 0 \<Longrightarrow>
       watch_step c s [] (s\<lparr>phase := Waiting, was_zero := True\<rparr>)"
| debounced:
    "phase s = Debouncing t \<Longrightarrow> t \<le> clock s \<Longrightarrow> sessions s \<noteq> 0 \<Longrightarrow> watch_step c s [] (s\<lparr>phase := Installing\<rparr>)"
| installed:
    "phase s = Installing \<Longrightarrow>
       watch_step c s (Installed (clock s) # (if restore_windows c then [GatherOnVirtual] else []))
         (s\<lparr>phase := Waiting, installed_at := Some (clock s), engaged := True, was_zero := False\<rparr>)"
| install_failed:
    "phase s = Installing \<Longrightarrow> watch_step c s [InstallFailed] (s\<lparr>phase := Waiting, was_zero := False\<rparr>)"
| came_back:
    "phase s = Grace dl np \<Longrightarrow> np \<le> clock s \<Longrightarrow> sessions s \<noteq> 0 \<Longrightarrow> watch_step c s [] (s\<lparr>phase := Waiting\<rparr>)"
| poll_again:
    "phase s = Grace dl np \<Longrightarrow> np \<le> clock s \<Longrightarrow> sessions s = 0 \<Longrightarrow> clock s < dl \<Longrightarrow>
       watch_step c s [] (s\<lparr>phase := Grace dl (clock s + REACTIVATION_POLL)\<rparr>)"
| give_up:
    "phase s = Grace dl np \<Longrightarrow> np \<le> clock s \<Longrightarrow> sessions s = 0 \<Longrightarrow> dl \<le> clock s \<Longrightarrow>
       watch_step c s [] (s\<lparr>phase := Settling (settled_at s)\<rparr>)"
| nothing_to_drop:
    "phase s = Settling t \<Longrightarrow> t \<le> clock s \<Longrightarrow> \<not> engaged s \<Longrightarrow>
       watch_step c s [] (s\<lparr>phase := Waiting, was_zero := True\<rparr>)"
| dropped:
    "phase s = Settling t \<Longrightarrow> t \<le> clock s \<Longrightarrow> engaged s \<Longrightarrow>
       watch_step c s (Dropped (clock s) # (if restore_windows c then [SweepToPhysical] else []))
         (s\<lparr>phase := Waiting, was_zero := True, installed_at := None, engaged := False\<rparr>)"
| dropped_stuck:
    "phase s = Settling t \<Longrightarrow> t \<le> clock s \<Longrightarrow> engaged s \<Longrightarrow> detaching c \<Longrightarrow> restart_on_stuck c \<Longrightarrow>
       watch_step c s [Dropped (clock s), Cleanup, Exit DETACH_STUCK_EXIT_CODE]
         (s\<lparr>phase := ProcessGone, installed_at := None, engaged := False\<rparr>)"

inductive_cases watch_stepE: "watch_step c s cs s'"

text \<open>The states that can be reached, each with the calls made on the way.\<close>

inductive watch_reach :: "watch_config \<Rightarrow> watch_state \<Rightarrow> watch_call list \<Rightarrow> bool" for c where
  reach_init: "watch_reach c watch_init []"
| reach_step: "watch_reach c s cs \<Longrightarrow> watch_step c s cs' s' \<Longrightarrow> watch_reach c s' (cs @ cs')"

section \<open>The invariant\<close>

fun phase_ok :: "watch_phase \<Rightarrow> watch_state \<Rightarrow> watch_call list \<Rightarrow> bool" where
  "phase_ok Waiting s cs \<longleftrightarrow> (permit s \<or> was_zero s = (sessions s = 0)) \<and> (was_zero s \<longrightarrow> \<not> engaged s)
     \<and> (\<not> was_zero s \<longrightarrow> engaged s \<or> InstallFailed \<in> set cs)"
| "phase_ok (Debouncing t) s cs \<longleftrightarrow> \<not> engaged s"
| "phase_ok Installing s cs \<longleftrightarrow> \<not> engaged s \<and> (permit s \<or> sessions s \<noteq> 0)"
| "phase_ok (Grace dl np) s cs \<longleftrightarrow> \<not> was_zero s \<and> (engaged s \<or> InstallFailed \<in> set cs)"
| "phase_ok (Settling t) s cs \<longleftrightarrow> (permit s \<or> sessions s = 0)
     \<and> (\<forall>u. engaged s \<longrightarrow> installed_at s = Some u \<longrightarrow> u + ENGAGED_SETTLE \<le> t)"
| "phase_ok ProcessGone s cs \<longleftrightarrow> \<not> engaged s"

definition watch_ok :: "watch_state \<Rightarrow> watch_call list \<Rightarrow> bool" where
  "watch_ok s cs \<longleftrightarrow> phase_ok (phase s) s cs
     \<and> (engaged s \<longrightarrow> (\<exists>t. installed_at s = Some t \<and> t \<le> clock s \<and> Installed t \<in> set cs))"

lemma settled_at_late:
  "installed_at s = Some t \<Longrightarrow> t \<le> clock s \<Longrightarrow> t + ENGAGED_SETTLE \<le> settled_at s"
  by (auto simp: settled_at_def saturating_duration_since_def not_less le_diff_conv2 add.commute)

lemma watch_step_ok:
  assumes "watch_step c s cs' s'" and "watch_ok s cs"
  shows "watch_ok s' (cs @ cs')"
  using assms
proof (cases rule: watch_step.cases)
  case enter
  with assms(2) show ?thesis by (cases "phase s") (auto simp: watch_ok_def)
next
  case leave
  with assms(2) show ?thesis by (cases "phase s") (auto simp: watch_ok_def)
next
  case (time d)
  with assms(2) show ?thesis by (cases "phase s") (auto simp: watch_ok_def)
next
  case (give_up dl np)
  with assms(2) show ?thesis by (auto simp: watch_ok_def dest: settled_at_late)
qed (use assms(2) in \<open>auto simp: watch_ok_def\<close>)

lemma watch_reach_ok: "watch_reach c s cs \<Longrightarrow> watch_ok s cs"
proof (induction rule: watch_reach.induct)
  case reach_init
  show ?case by (simp add: watch_ok_def watch_init_def)
next
  case (reach_step s cs cs' s')
  then show ?case by (blast intro: watch_step_ok)
qed

section \<open>What the watcher does\<close>

lemma step_dropped:
  assumes "watch_step c s cs s'" and "Dropped u \<in> set cs"
  shows "engaged s \<and> \<not> engaged s' \<and> u = clock s \<and> (\<exists>t. phase s = Settling t \<and> t \<le> clock s)"
  using assms by (cases rule: watch_step.cases) (auto split: if_splits)

lemma step_installed:
  assumes "watch_step c s cs s'" and "Installed u \<in> set cs"
  shows "phase s = Installing \<and> u = clock s"
  using assms by (cases rule: watch_step.cases) (auto split: if_splits)

text \<open>
  C18. Whenever the watcher is at rest, waiting with no notification pending, the Mac is headless only
  while a client is connected, and it is headless then unless an installation has failed. An overlay
  is never installed over one that is engaged, and it is dropped no sooner than three seconds after
  it was installed.
\<close>

theorem overlay_follows_sessions:
  assumes "watch_reach c s cs"
  shows "(phase s = Waiting \<and> \<not> permit s \<longrightarrow>
        (engaged s \<longrightarrow> 0 < sessions s) \<and> (0 < sessions s \<longrightarrow> engaged s \<or> InstallFailed \<in> set cs))
    \<and> (\<forall>cs' s' u. watch_step c s cs' s' \<longrightarrow> Installed u \<in> set cs' \<longrightarrow> \<not> engaged s)
    \<and> (\<forall>cs' s' u. watch_step c s cs' s' \<longrightarrow> Dropped u \<in> set cs' \<longrightarrow>
          (\<exists>t. Installed t \<in> set cs \<and> t + from_secs 3 \<le> u))"
proof -
  note ok = watch_reach_ok [OF assms]
  have rest: "phase s = Waiting \<and> \<not> permit s \<longrightarrow>
        (engaged s \<longrightarrow> 0 < sessions s) \<and> (0 < sessions s \<longrightarrow> engaged s \<or> InstallFailed \<in> set cs)"
    using ok by (auto simp: watch_ok_def)
  have once: "\<not> engaged s" if "watch_step c s cs' s'" "Installed u \<in> set cs'" for cs' s' u
    using ok step_installed [OF that] by (auto simp: watch_ok_def)
  have late: "\<exists>t. Installed t \<in> set cs \<and> t + from_secs 3 \<le> u"
    if "watch_step c s cs' s'" "Dropped u \<in> set cs'" for cs' s' u
  proof -
    from step_dropped [OF that] obtain v where v: "engaged s" "u = clock s" "phase s = Settling v" "v \<le> clock s"
      by blast
    with ok obtain t where "installed_at s = Some t" "Installed t \<in> set cs" "t + ENGAGED_SETTLE \<le> v"
      by (auto simp: watch_ok_def)
    with v show ?thesis by (auto simp: ENGAGED_SETTLE_def)
  qed
  from rest once late show ?thesis by blast
qed

definition plain_watch :: watch_config where
  "plain_watch = \<lparr>restore_windows = False, detaching = False, restart_on_stuck = False\<rparr>"

definition connected_state :: watch_state where
  "connected_state = \<lparr>sessions = 1, permit = False, phase = Waiting, was_zero = False,
     installed_at = Some CONNECT_DEBOUNCE, engaged = True, clock = CONNECT_DEBOUNCE\<rparr>"

lemma connected_reach: "watch_reach plain_watch connected_state [Installed CONNECT_DEBOUNCE]"
proof -
  let ?c = plain_watch and ?d = CONNECT_DEBOUNCE
  let ?s1 = "watch_init\<lparr>sessions := 1, permit := True\<rparr>"
  let ?s2 = "?s1\<lparr>permit := False, phase := Debouncing ?d\<rparr>"
  let ?s3 = "?s2\<lparr>clock := ?d\<rparr>"
  let ?s4 = "?s3\<lparr>phase := Installing\<rparr>"
  have 0: "watch_reach ?c watch_init []" by (rule reach_init)
  have "watch_step ?c watch_init [] ?s1" using enter [of ?c watch_init] by (simp add: watch_init_def)
  from reach_step [OF 0 this] have 1: "watch_reach ?c ?s1 []" by simp
  have "watch_step ?c ?s1 [] ?s2" using wake_connect [of ?s1 ?c] by (simp add: watch_init_def)
  from reach_step [OF 1 this] have 2: "watch_reach ?c ?s2 []" by simp
  have "watch_step ?c ?s2 [] ?s3" using time [of ?c ?s2 ?d] by (simp add: watch_init_def)
  from reach_step [OF 2 this] have 3: "watch_reach ?c ?s3 []" by simp
  have "watch_step ?c ?s3 [] ?s4" using debounced [of ?s3 ?d ?c] by (simp add: watch_init_def)
  from reach_step [OF 3 this] have 4: "watch_reach ?c ?s4 []" by simp
  have "watch_step ?c ?s4 [Installed ?d] connected_state"
    using installed [of ?s4 ?c] by (simp add: watch_init_def plain_watch_def connected_state_def)
  from reach_step [OF 4 this] show ?thesis by simp
qed

theorem overlay_follows_sessions_witness:
  "phase connected_state = Waiting \<and> \<not> permit connected_state \<and> 0 < sessions connected_state \<and> engaged connected_state"
proof -
  have "phase connected_state = Waiting" "\<not> permit connected_state" "engaged connected_state"
    by (simp_all add: connected_state_def)
  with overlay_follows_sessions [OF connected_reach] show ?thesis by blast
qed

text \<open>A session that is back at a poll keeps its overlay: no state of the grace drops it.\<close>

lemma grace_keeps_overlay:
  assumes "watch_step c s cs s'" and "phase s = Grace dl np"
  shows "engaged s' = engaged s \<and> cs = [] \<and> (phase s' \<noteq> phase s \<longrightarrow> np \<le> clock s)
    \<and> (\<forall>t. phase s' = Settling t \<longrightarrow> sessions s = 0 \<and> dl \<le> clock s)"
  using assms by (cases rule: watch_step.cases) auto

lemma restart_override:
  "detach_restart_on_stuck tty (Some (lit '' ON '')) \<and> \<not> detach_restart_on_stuck tty (Some (lit ''No''))
    \<and> detach_restart_on_stuck tty None = (\<not> tty)"
  by (simp add: detach_restart_on_stuck_def trim_def to_ascii_lowercase_def ascii_lower_def lit_def is_whitespace_def)

end
