(* ===== verification/Cursor_Shape.thy ===== *)
theory Cursor_Shape
  imports Bytes Rust_Float
begin

text \<open>
  The forwarding of the system cursor, \<open>src/src/cursor/mod.rs\<close> and
  \<open>src/src/cursor/private_api.rs\<close>: what is read from the window server, how it is scaled and
  shrunk, and when a shape is sent. What the window server and AppKit answer is an input of a
  poll; the hash of the standard library is a parameter. \<open>f64\<close> is real arithmetic. A panic is
  \<open>None\<close>, "no cursor" an inner \<open>None\<close>.
\<close>

section \<open>Bitmaps and what the system answers\<close>

record bitmap =
  bm_data :: bytes
  bm_w :: nat
  bm_h :: nat
  bm_hot_x :: nat
  bm_hot_y :: nat

text \<open>\<open>SLSGetGlobalCursorDataSize\<close> and \<open>SLSGetGlobalCursorData\<close>; \<open>sls_buffer\<close> has the announced size.\<close>

record sls_answer =
  sls_size :: "int option"
  sls_data_ok :: bool
  sls_buffer :: bytes
  sls_size_inout :: int
  sls_row_bytes :: int
  sls_width :: real
  sls_height :: real
  sls_hot_x :: real
  sls_hot_y :: real
  sls_depth :: int
  sls_components :: int
  sls_bits :: int

definition hot_u16 :: "real \<Rightarrow> nat" where
  "hot_u16 x = nat (min (max (f64_round x) 0) 65535)"

definition un_premultiply :: "u8 \<times> u8 \<times> u8 \<Rightarrow> u8 \<Rightarrow> u8 \<times> u8 \<times> u8" where
  "un_premultiply rgb a =
     (if a = 0 then (0, 0, 0)
      else if a = 255 then rgb
      else let f = (\<lambda>c :: u8. of_nat (min ((unat c * 255 + unat a div 2) div unat a) 255))
           in case rgb of (r, g, b) \<Rightarrow> (f r, f g, f b))"

fun convert_row :: "bytes \<Rightarrow> bytes" where
  "convert_row (b # g # r # a # rest) =
     (case un_premultiply (r, g, b) a of (r', g', b') \<Rightarrow> [r', g', b', a]) @ convert_row rest"
| "convert_row _ = []"

text \<open>
  \<open>usize\<close> arithmetic wraps in a release build; a slice that ends before it starts panics.
\<close>

definition wrap64 :: "int \<Rightarrow> nat" where "wrap64 n = nat (n mod 2 ^ 64)"

definition sls_row :: "bytes \<Rightarrow> nat \<Rightarrow> nat \<Rightarrow> nat \<Rightarrow> bytes option option" where
  "sls_row buf row_bytes w i =
     (let start = wrap64 (int i * int row_bytes); stop = wrap64 (int start + int w * 4)
      in if length buf < stop then Some None
         else if stop < start then None
         else Some (Some (convert_row (take (stop - start) (drop start buf)))))"

primrec sls_rows :: "bytes \<Rightarrow> nat \<Rightarrow> nat \<Rightarrow> nat \<Rightarrow> bytes \<Rightarrow> bytes option option" where
  "sls_rows buf row_bytes w 0 out = Some (Some out)"
| "sls_rows buf row_bytes w (Suc i) out =
     (case sls_row buf row_bytes w i of
        None \<Rightarrow> None
      | Some None \<Rightarrow> Some None
      | Some (Some px) \<Rightarrow> sls_rows buf row_bytes w i (out @ px))"

definition copy_current_system_cursor :: "sls_answer \<Rightarrow> bitmap option option" where
  "copy_current_system_cursor s =
     (case sls_size s of
        None \<Rightarrow> Some None
      | Some n \<Rightarrow>
          if n \<le> 0 \<or> 1024 * 1024 < n \<or> \<not> sls_data_ok s then Some None
          else
            let w = f64_round (sls_width s); h = f64_round (sls_height s); rb = wrap64 (sls_row_bytes s)
            in if w < 1 \<or> 256 < w \<or> h < 1 \<or> 256 < h then Some None
               else if int rb < w * 4 then Some None
               else if sls_depth s \<noteq> 32 \<or> sls_components s \<noteq> 4 \<or> sls_bits s \<noteq> 8 then Some None
               else if length (sls_buffer s) < wrap64 (sls_size_inout s) then Some None
               else map_option
                      (map_option (\<lambda>out. \<lparr>bm_data = out, bm_w = nat w, bm_h = nat h,
                                          bm_hot_x = hot_u16 (sls_hot_x s), bm_hot_y = hot_u16 (sls_hot_y s)\<rparr>))
                      (sls_rows (sls_buffer s) rb (nat w) (nat h) []))"

text \<open>The fallback: what AppKit drew, rows of \<open>ns_stride\<close> bytes.\<close>

record ns_answer =
  ns_width :: real
  ns_height :: real
  ns_hot_x :: real
  ns_hot_y :: real
  ns_bitmap :: "bytes option"
  ns_stride :: nat

definition ns_cursor :: "ns_answer \<Rightarrow> bitmap option" where
  "ns_cursor s =
     (let w = f64_round (ns_width s); h = f64_round (ns_height s)
      in if w < 1 \<or> 256 < w \<or> h < 1 \<or> 256 < h then None
         else map_option
                (\<lambda>px. \<lparr>bm_data = concat (map (\<lambda>row. take (nat w * 4) (drop (row * ns_stride s) px)) [0 ..< nat h]),
                       bm_w = nat w, bm_h = nat h,
                       bm_hot_x = hot_u16 (ns_hot_x s), bm_hot_y = hot_u16 (ns_hot_y s)\<rparr>)
                (ns_bitmap s))"

definition read_cursor_bitmap :: "sls_answer option \<Rightarrow> ns_answer \<Rightarrow> bitmap option option" where
  "read_cursor_bitmap sls ns =
     (case sls of
        None \<Rightarrow> Some (ns_cursor ns)
      | Some s \<Rightarrow>
          (case copy_current_system_cursor s of
             None \<Rightarrow> None
           | Some (Some b) \<Rightarrow> Some (Some b)
           | Some None \<Rightarrow> Some (ns_cursor ns)))"

section \<open>Resampling\<close>

record blend =
  acc_r :: real
  acc_g :: real
  acc_b :: real
  acc_a :: real
  cov_sum :: real

abbreviation blend_init :: blend where
  "blend_init \<equiv> \<lparr>acc_r = 0, acc_g = 0, acc_b = 0, acc_a = 0, cov_sum = 0\<rparr>"

text \<open>How much of the pixel \<open>i\<close> the interval from \<open>lo\<close> to \<open>hi\<close> covers.\<close>

definition coverage :: "real \<Rightarrow> real \<Rightarrow> nat \<Rightarrow> real" where
  "coverage lo hi i = max (min hi (real (i + 1)) - max lo (real i)) 0"

definition add_pixel :: "bytes \<Rightarrow> nat \<Rightarrow> real \<Rightarrow> blend \<Rightarrow> blend option" where
  "add_pixel src idx cov acc =
     (if length src \<le> idx + 3 then None
      else let a = real (unat (src ! (idx + 3))) / 255
           in Some \<lparr>acc_r = acc_r acc + real (unat (src ! idx)) * a * cov,
                    acc_g = acc_g acc + real (unat (src ! (idx + 1))) * a * cov,
                    acc_b = acc_b acc + real (unat (src ! (idx + 2))) * a * cov,
                    acc_a = acc_a acc + a * cov,
                    cov_sum = cov_sum acc + cov\<rparr>)"

primrec blend_cols :: "bytes \<Rightarrow> nat \<Rightarrow> real \<Rightarrow> real \<Rightarrow> real \<Rightarrow> nat \<Rightarrow> nat list \<Rightarrow> blend \<Rightarrow> blend option" where
  "blend_cols src sw sx0 sx1 cy sy [] acc = Some acc"
| "blend_cols src sw sx0 sx1 cy sy (sx # xs) acc =
     (let cx = coverage sx0 sx1 sx
      in if cx \<le> 0 then blend_cols src sw sx0 sx1 cy sy xs acc
         else case add_pixel src ((sy * sw + sx) * 4) (cx * cy) acc of
                None \<Rightarrow> None
              | Some acc' \<Rightarrow> blend_cols src sw sx0 sx1 cy sy xs acc')"

primrec blend_rows ::
  "bytes \<Rightarrow> nat \<Rightarrow> real \<Rightarrow> real \<Rightarrow> real \<Rightarrow> real \<Rightarrow> nat list \<Rightarrow> nat list \<Rightarrow> blend \<Rightarrow> blend option" where
  "blend_rows src sw sx0 sx1 sy0 sy1 cols [] acc = Some acc"
| "blend_rows src sw sx0 sx1 sy0 sy1 cols (sy # ys) acc =
     (let cy = coverage sy0 sy1 sy
      in if cy \<le> 0 then blend_rows src sw sx0 sx1 sy0 sy1 cols ys acc
         else case blend_cols src sw sx0 sx1 cy sy cols acc of
                None \<Rightarrow> None
              | Some acc' \<Rightarrow> blend_rows src sw sx0 sx1 sy0 sy1 cols ys acc')"

definition blend_pixel :: "blend \<Rightarrow> bytes" where
  "blend_pixel acc =
     (let alpha = (if 0 < cov_sum acc then acc_a acc / cov_sum acc else 0);
          mean = (\<lambda>c. if 0 < acc_a acc then c / acc_a acc else 0)
      in [round_u8 (mean (acc_r acc)), round_u8 (mean (acc_g acc)), round_u8 (mean (acc_b acc)),
          round_u8 (alpha * 255)])"

definition resample_pixel :: "bytes \<Rightarrow> nat \<Rightarrow> nat \<Rightarrow> nat \<Rightarrow> nat \<Rightarrow> nat \<Rightarrow> nat \<Rightarrow> bytes option" where
  "resample_pixel src sw sh dw dh dy dx =
     (let fx = real sw / real dw; fy = real sh / real dh;
          sy0 = real dy * fy; sy1 = sy0 + fy; sx0 = real dx * fx; sx1 = sx0 + fx
      in map_option blend_pixel
           (blend_rows src sw sx0 sx1 sy0 sy1
              [nat \<lfloor>sx0\<rfloor> ..< min (nat \<lceil>sx1\<rceil>) sw] [nat \<lfloor>sy0\<rfloor> ..< min (nat \<lceil>sy1\<rceil>) sh] blend_init))"

primrec collect_pixels :: "(nat \<times> nat \<Rightarrow> bytes option) \<Rightarrow> (nat \<times> nat) list \<Rightarrow> bytes option" where
  "collect_pixels f [] = Some []"
| "collect_pixels f (p # ps) =
     (case f p of
        None \<Rightarrow> None
      | Some px \<Rightarrow> map_option (\<lambda>rest. px @ rest) (collect_pixels f ps))"

definition resample_rgba :: "bytes \<Rightarrow> nat \<Rightarrow> nat \<Rightarrow> nat \<Rightarrow> nat \<Rightarrow> bytes option" where
  "resample_rgba src sw sh dw dh =
     (if sw = 0 \<or> sh = 0 then Some (replicate (dw * dh * 4) 0)
      else collect_pixels (\<lambda>(dy, dx). resample_pixel src sw sh dw dh dy dx)
             (List.product [0 ..< dh] [0 ..< dw]))"

section \<open>Scaling\<close>

definition scaled_hot :: "nat \<Rightarrow> nat \<Rightarrow> nat \<Rightarrow> nat" where
  "scaled_hot hot new old = nat (clamp (f64_round (real hot * real new / real old)) 0 (int (new - 1)))"

definition resize_cursor :: "bitmap \<Rightarrow> nat \<Rightarrow> nat \<Rightarrow> bitmap option" where
  "resize_cursor b new_w new_h =
     (if new_w = bm_w b \<and> new_h = bm_h b then Some b
      else map_option
             (\<lambda>px. \<lparr>bm_data = px, bm_w = new_w, bm_h = new_h,
                    bm_hot_x = scaled_hot (bm_hot_x b) new_w (bm_w b),
                    bm_hot_y = scaled_hot (bm_hot_y b) new_h (bm_h b)\<rparr>)
             (resample_rgba (bm_data b) (bm_w b) (bm_h b) new_w new_h))"

definition scaled_dim :: "nat \<Rightarrow> real \<Rightarrow> nat" where
  "scaled_dim n k = nat (clamp (f64_round (real n * k)) 1 256)"

definition scale_cursor :: "real \<Rightarrow> bitmap \<Rightarrow> bitmap option" where
  "scale_cursor k b = resize_cursor b (scaled_dim (bm_w b) k) (scaled_dim (bm_h b) k)"

definition MAX_AREA :: nat where "MAX_AREA = 65535 div 4"

definition clamp_pointer_size :: "bitmap \<Rightarrow> bitmap option" where
  "clamp_pointer_size b =
     (let area = bm_w b * bm_h b
      in if area \<le> MAX_AREA \<or> bm_w b = 0 \<or> bm_h b = 0 then Some b
         else
           let shrink = sqrt (real MAX_AREA / real area);
               new_h = clamp (nat \<lfloor>real (bm_h b) * shrink\<rfloor>) 1 MAX_AREA;
               new_w = clamp (nat \<lfloor>real (bm_w b) * shrink\<rfloor>) 1 (MAX_AREA div new_h)
           in resize_cursor b new_w new_h)"

section \<open>The state of a connection and one poll\<close>

record cursor_state =
  last_hash :: "64 word"
  cursor_scale :: real
  diag_logged :: bool

text \<open>The scale is the one of the command line, as far as it is a finite positive number.\<close>

definition cursor_new :: "real option \<Rightarrow> cursor_state" where
  "cursor_new k =
     \<lparr>last_hash = 0, cursor_scale = (case k of Some x \<Rightarrow> if 0 < x then x else 1 | None \<Rightarrow> 1),
      diag_logged = False\<rparr>"

definition poll_shape ::
  "(bitmap \<Rightarrow> 64 word) \<Rightarrow> sls_answer option \<Rightarrow> ns_answer \<Rightarrow> cursor_state \<Rightarrow> (cursor_state \<times> bitmap list) option" where
  "poll_shape hash sls ns s =
     (case read_cursor_bitmap sls ns of
        None \<Rightarrow> None
      | Some None \<Rightarrow> Some (s, [])
      | Some (Some b) \<Rightarrow>
          if hash b = last_hash s then Some (s, [])
          else case scale_cursor (cursor_scale s) b of
                 None \<Rightarrow> None
               | Some b1 \<Rightarrow>
                   (case clamp_pointer_size b1 of
                      None \<Rightarrow> None
                    | Some b2 \<Rightarrow> Some (s\<lparr>last_hash := hash b, diag_logged := True\<rparr>, [b2])))"

primrec poll_run ::
  "(bitmap \<Rightarrow> 64 word) \<Rightarrow> (sls_answer option \<times> ns_answer) list \<Rightarrow> cursor_state \<Rightarrow> (cursor_state \<times> bitmap list) option" where
  "poll_run hash [] s = Some (s, [])"
| "poll_run hash (t # ts) s =
     (case poll_shape hash (fst t) (snd t) s of
        None \<Rightarrow> None
      | Some (s', out) \<Rightarrow> map_option (\<lambda>(s'', rest). (s'', out @ rest)) (poll_run hash ts s'))"

end
