(* ===== verification/Cursor_Props.thy ===== *)
theory Cursor_Props
  imports Cursor_Shape
begin

text \<open>
  The cursor: whatever shape the system has and whatever the scale, the bitmap that is sent is
  complete and fits the pointer message, the hotspot stays on it, nothing panics, and resampling
  stays within the colours of the source.
\<close>

section \<open>What is read is complete\<close>

lemma length_convert_row: "length (convert_row bs) = 4 * (length bs div 4)"
  by (induction bs rule: convert_row.induct) (auto split: prod.splits)

lemma wrap64_id: "0 \<le> n \<Longrightarrow> n < 2 ^ 64 \<Longrightarrow> wrap64 n = nat n"
  by (simp add: wrap64_def)

lemma wrap64_nat: "n < 2 ^ 64 \<Longrightarrow> wrap64 (int n) = n"
  by (simp add: wrap64_def flip: of_nat_power of_nat_mod)

lemma sls_row_plain:
  assumes "i * rb + w * 4 < 2 ^ 64"
  shows "sls_row buf rb w i =
           (if length buf < i * rb + w * 4 then Some None
            else Some (Some (convert_row (take (w * 4) (drop (i * rb) buf)))))"
proof -
  have a: "wrap64 (int i * int rb) = i * rb"
    using wrap64_nat [of "i * rb"] assms by simp
  have b: "wrap64 (int (i * rb) + int w * 4) = i * rb + w * 4"
    using wrap64_nat [of "i * rb + w * 4"] assms by simp
  show ?thesis unfolding sls_row_def Let_def a b by auto
qed

lemma sls_rows_plain:
  assumes "h * rb + w * 4 < 2 ^ 64"
  shows "case sls_rows buf rb w h out of
           None \<Rightarrow> False
         | Some None \<Rightarrow> True
         | Some (Some px) \<Rightarrow> length px = length out + h * (w * 4)"
  using assms
proof (induction h arbitrary: out)
  case 0
  then show ?case by simp
next
  case (Suc i)
  then have r: "i * rb + w * 4 < 2 ^ 64" by simp
  show ?case
  proof (cases "length buf < i * rb + w * 4")
    case True
    then show ?thesis by (simp add: sls_row_plain [OF r])
  next
    case False
    let ?px = "convert_row (take (w * 4) (drop (i * rb) buf))"
    have "length ?px = w * 4" using False by (simp add: length_convert_row)
    with Suc.IH [OF r, of "out @ ?px"] False show ?thesis
      by (auto simp: sls_row_plain [OF r] algebra_simps split: option.splits)
  qed
qed

definition complete_bitmap :: "bitmap \<Rightarrow> bool" where
  "complete_bitmap b \<longleftrightarrow>
     1 \<le> bm_w b \<and> 1 \<le> bm_h b \<and> length (bm_data b) = bm_w b * bm_h b * 4"

text \<open>
  The window server describes its rows with a non-negative 32-bit stride; AppKit's bitmap has all
  of its rows.
\<close>

definition sls_lawful :: "sls_answer \<Rightarrow> bool" where
  "sls_lawful s \<longleftrightarrow> 0 \<le> sls_row_bytes s \<and> sls_row_bytes s < 2 ^ 31"

definition ns_lawful :: "ns_answer \<Rightarrow> bool" where
  "ns_lawful s \<longleftrightarrow>
     (case ns_bitmap s of
        None \<Rightarrow> True
      | Some px \<Rightarrow> \<forall>row < nat (f64_round (ns_height s)).
                     row * ns_stride s + nat (f64_round (ns_width s)) * 4 \<le> length px)"

lemma length_concat_rows:
  "\<forall>row < n. row * stride + k \<le> length px
     \<Longrightarrow> length (concat (map (\<lambda>row. take k (drop (row * stride) px)) [0 ..< n])) = n * k"
  by (induction n) auto

lemma sls_complete:
  assumes "sls_lawful s"
  shows "case copy_current_system_cursor s of
           None \<Rightarrow> False | Some None \<Rightarrow> True | Some (Some b) \<Rightarrow> complete_bitmap b"
proof -
  let ?w = "f64_round (sls_width s)" and ?h = "f64_round (sls_height s)"
  let ?rb = "wrap64 (sls_row_bytes s)"
  have rb: "?rb = nat (sls_row_bytes s)" "?rb < 2 ^ 31"
    using assms by (auto simp: sls_lawful_def wrap64_id)
  have "nat ?h * ?rb + nat ?w * 4 < 2 ^ 64" if "?w \<le> 256" "?h \<le> 256"
  proof -
    have "nat ?h * ?rb \<le> 256 * 2 ^ 31"
      using that rb by (intro mult_le_mono) auto
    moreover have "nat ?w \<le> 256" using that by simp
    ultimately show ?thesis by simp
  qed
  then have rows: "?w \<le> 256 \<Longrightarrow> ?h \<le> 256 \<Longrightarrow>
      (case sls_rows (sls_buffer s) ?rb (nat ?w) (nat ?h) [] of
         None \<Rightarrow> False | Some None \<Rightarrow> True | Some (Some px) \<Rightarrow> length px = nat ?h * (nat ?w * 4))"
    using sls_rows_plain [where h = "nat ?h" and rb = ?rb and w = "nat ?w" and buf = "sls_buffer s" and out = "[]"]
    by (simp only: list.size add_0)
  show ?thesis
    using rows
    by (auto simp: copy_current_system_cursor_def Let_def complete_bitmap_def not_less
        split: option.splits)
qed

lemma ns_complete:
  assumes "ns_lawful s" "ns_cursor s = Some b"
  shows "complete_bitmap b"
  using assms
  by (auto simp: ns_cursor_def Let_def ns_lawful_def complete_bitmap_def length_concat_rows
      split: if_splits option.splits)

lemma read_complete:
  assumes "case sls of None \<Rightarrow> True | Some s \<Rightarrow> sls_lawful s" "ns_lawful ns"
  shows "case read_cursor_bitmap sls ns of
           None \<Rightarrow> False | Some None \<Rightarrow> True | Some (Some b) \<Rightarrow> complete_bitmap b"
proof (cases sls)
  case None
  then show ?thesis using assms ns_complete
    by (auto simp: read_cursor_bitmap_def split: option.splits)
next
  case (Some s)
  then show ?thesis using assms sls_complete [of s] ns_complete
    by (auto simp: read_cursor_bitmap_def split: option.splits)
qed

section \<open>Resampling\<close>

lemma add_pixel_total: "i + 3 < length src \<Longrightarrow> \<exists>acc'. add_pixel src i cov acc = Some acc'"
  by (simp add: add_pixel_def Let_def)

lemma pixel_index_bound:
  assumes "sx < sw" "sy < sh"
  shows "(sy * sw + sx) * 4 + 3 < sw * sh * (4 :: nat)"
proof -
  have "sy * sw + sx < Suc sy * sw" using assms by simp
  also have "\<dots> \<le> sh * sw" using assms by (intro mult_le_mono) auto
  finally show ?thesis by (simp add: algebra_simps)
qed

text \<open>
  The invariant of the accumulator: the weights are not negative, no more alpha than coverage,
  and each colour between \<open>lo\<close> and \<open>hi\<close> times the alpha.
\<close>

definition blend_ok :: "real \<Rightarrow> real \<Rightarrow> blend \<Rightarrow> bool" where
  "blend_ok lo hi acc \<longleftrightarrow>
     0 \<le> acc_a acc \<and> acc_a acc \<le> cov_sum acc \<and>
     lo * acc_a acc \<le> acc_r acc \<and> acc_r acc \<le> hi * acc_a acc"

definition red_between :: "real \<Rightarrow> real \<Rightarrow> bytes \<Rightarrow> bool" where
  "red_between lo hi src \<longleftrightarrow>
     (\<forall>p. p * 4 + 3 < length src \<longrightarrow> src ! (p * 4 + 3) = 0 \<or>
            lo \<le> real (unat (src ! (p * 4))) \<and> real (unat (src ! (p * 4))) \<le> hi)"

lemma add_pixel_ok:
  assumes "add_pixel src (p * 4) cov acc = Some acc'" "0 \<le> cov"
    and "blend_ok lo hi acc" "red_between lo hi src"
  shows "blend_ok lo hi acc'"
proof -
  let ?a = "real (unat (src ! (p * 4 + 3))) / 255" and ?r = "real (unat (src ! (p * 4)))"
  have i: "p * 4 + 3 < length src" using assms(1) by (auto simp: add_pixel_def split: if_splits)
  have "unat (src ! (p * 4 + 3)) \<le> 255" using unat_u8_less [of "src ! (p * 4 + 3)"] by linarith
  then have "real (unat (src ! (p * 4 + 3))) \<le> real 255" by (rule of_nat_mono)
  then have a: "0 \<le> ?a" "?a \<le> 1"
    by (simp_all only: divide_nonneg_nonneg of_nat_0_le_iff zero_le_numeral divide_le_eq_1_pos
        zero_less_numeral of_nat_numeral)
  have "?a * cov \<le> 1 * cov" using a(2) assms(2) by (rule mult_right_mono)
  then have c: "?a * cov \<le> cov" "0 \<le> ?a * cov"
    using a(1) assms(2) by (simp_all only: mult_1 mult_nonneg_nonneg)
  have r: "lo * (?a * cov) \<le> ?r * (?a * cov) \<and> ?r * (?a * cov) \<le> hi * (?a * cov)"
  proof (cases "src ! (p * 4 + 3) = 0")
    case True
    then show ?thesis by simp
  next
    case False
    then have "lo \<le> ?r" "?r \<le> hi" using assms(4) i by (auto simp: red_between_def)
    with c show ?thesis by (intro conjI mult_right_mono) auto
  qed
  have acc': "acc_r acc' = acc_r acc + ?r * (?a * cov)" "acc_a acc' = acc_a acc + ?a * cov"
    "cov_sum acc' = cov_sum acc + cov"
    using assms(1) i by (auto simp: add_pixel_def Let_def mult.assoc)
  show ?thesis
    using assms(3) c r unfolding blend_ok_def acc' by (simp add: algebra_simps)
qed

lemma coverage_nonneg: "0 \<le> coverage lo hi i"
  by (simp add: coverage_def)

lemma blend_cols_ok:
  assumes "blend_cols src sw sx0 sx1 cy sy xs acc = Some acc'" "0 \<le> cy"
    and "blend_ok lo hi acc" "red_between lo hi src"
  shows "blend_ok lo hi acc'"
  using assms
proof (induction xs arbitrary: acc)
  case Nil
  then show ?case by simp
next
  case (Cons sx xs)
  show ?case
  proof (cases "coverage sx0 sx1 sx \<le> 0")
    case True
    then show ?thesis using Cons by simp
  next
    case False
    with Cons.prems(1) obtain acc1
      where p: "add_pixel src ((sy * sw + sx) * 4) (coverage sx0 sx1 sx * cy) acc = Some acc1"
        and rest: "blend_cols src sw sx0 sx1 cy sy xs acc1 = Some acc'"
      by (auto simp: Let_def split: option.splits)
    have "blend_ok lo hi acc1"
      by (rule add_pixel_ok [OF p]) (use Cons.prems coverage_nonneg in auto)
    then show ?thesis using Cons.IH [OF rest] Cons.prems by blast
  qed
qed

lemma blend_rows_ok:
  assumes "blend_rows src sw sx0 sx1 sy0 sy1 cols ys acc = Some acc'"
    and "blend_ok lo hi acc" "red_between lo hi src"
  shows "blend_ok lo hi acc'"
  using assms
proof (induction ys arbitrary: acc)
  case Nil
  then show ?case by simp
next
  case (Cons sy ys)
  then show ?case
    by (auto simp: Let_def split: if_splits option.splits
        intro: blend_cols_ok [of src sw sx0 sx1 "coverage sy0 sy1 sy" sy cols] coverage_nonneg)
qed

lemma blend_cols_total:
  assumes "length src = sw * sh * 4" "sy < sh" "list_all (\<lambda>sx. sx < sw) xs"
  shows "\<exists>acc'. blend_cols src sw sx0 sx1 cy sy xs acc = Some acc'"
  using assms(3)
proof (induction xs arbitrary: acc)
  case Nil
  then show ?case by simp
next
  case (Cons sx xs)
  then obtain acc1 where "add_pixel src ((sy * sw + sx) * 4) (coverage sx0 sx1 sx * cy) acc = Some acc1"
    using add_pixel_total [of "(sy * sw + sx) * 4" src] pixel_index_bound [of sx sw sy sh] assms
    by fastforce
  then show ?case using Cons by (auto simp: Let_def)
qed

lemma blend_rows_total:
  assumes "length src = sw * sh * 4" "list_all (\<lambda>sy. sy < sh) ys" "list_all (\<lambda>sx. sx < sw) cols"
  shows "\<exists>acc'. blend_rows src sw sx0 sx1 sy0 sy1 cols ys acc = Some acc'"
  using assms(2)
proof (induction ys arbitrary: acc)
  case Nil
  then show ?case by simp
next
  case (Cons sy ys)
  then obtain acc1 where "blend_cols src sw sx0 sx1 (coverage sy0 sy1 sy) sy cols acc = Some acc1"
    using blend_cols_total [OF assms(1) _ assms(3), of sy sx0 sx1 "coverage sy0 sy1 sy" acc] by auto
  then show ?case using Cons by (auto simp: Let_def)
qed

lemma resample_pixel_total:
  assumes "length src = sw * sh * 4"
  shows "\<exists>px. resample_pixel src sw sh dw dh dy dx = Some px \<and> length px = 4"
proof -
  have "list_all (\<lambda>i. i < n) [a ..< min b n]" for a b n :: nat by (auto simp: list_all_iff)
  then obtain acc where
    "blend_rows src sw (real dx * (real sw / real dw)) (real dx * (real sw / real dw) + real sw / real dw)
       (real dy * (real sh / real dh)) (real dy * (real sh / real dh) + real sh / real dh)
       [nat \<lfloor>real dx * (real sw / real dw)\<rfloor> ..< min (nat \<lceil>real dx * (real sw / real dw) + real sw / real dw\<rceil>) sw]
       [nat \<lfloor>real dy * (real sh / real dh)\<rfloor> ..< min (nat \<lceil>real dy * (real sh / real dh) + real sh / real dh\<rceil>) sh]
       blend_init = Some acc"
    using blend_rows_total [OF assms] by blast
  then show ?thesis by (simp add: resample_pixel_def Let_def blend_pixel_def)
qed

lemma collect_pixels_total:
  "(\<And>p. \<exists>px. f p = Some px \<and> length px = 4) \<Longrightarrow>
     \<exists>out. collect_pixels f ps = Some out \<and> length out = 4 * length ps"
proof (induction ps)
  case Nil
  then show ?case by simp
next
  case (Cons p ps)
  then obtain px out where "f p = Some px" "length px = 4"
    "collect_pixels f ps = Some out" "length out = 4 * length ps" by metis
  then show ?case by simp
qed

lemma resample_complete:
  assumes "length src = sw * sh * 4"
  shows "\<exists>out. resample_rgba src sw sh dw dh = Some out \<and> length out = dw * dh * 4"
proof (cases "sw = 0 \<or> sh = 0")
  case True
  then show ?thesis by (auto simp: resample_rgba_def)
next
  case False
  have "\<exists>out. collect_pixels (\<lambda>(dy, dx). resample_pixel src sw sh dw dh dy dx)
                (List.product [0 ..< dh] [0 ..< dw]) = Some out
              \<and> length out = 4 * length (List.product [0 ..< dh] [0 ..< dw])"
    by (rule collect_pixels_total) (use resample_pixel_total [OF assms] in auto)
  with False show ?thesis by (simp add: resample_rgba_def mult.commute)
qed

text \<open>
  A pixel of the result has a red between the least and the greatest red of the pixels of the
  source that are visible: transparent pixels do not bleed into it.
\<close>

lemma resample_no_fringe:
  assumes "resample_pixel src sw sh dw dh dy dx = Some [r, g, b, a]" "red_between (real lo) (real hi) src"
    and "a \<noteq> 0" "hi \<le> 255"
  shows "lo \<le> unat r \<and> unat r \<le> hi"
proof -
  obtain acc where acc: "blend_ok (real lo) (real hi) acc" and px: "blend_pixel acc = [r, g, b, a]"
  proof -
    obtain acc sx0 sx1 sy0 sy1 cols ys
      where rows: "blend_rows src sw sx0 sx1 sy0 sy1 cols ys blend_init = Some acc"
        and px: "blend_pixel acc = [r, g, b, a]"
      using assms(1) by (auto simp: resample_pixel_def Let_def)
    have "blend_ok (real lo) (real hi) acc"
      by (rule blend_rows_ok [OF rows _ assms(2)]) (simp add: blend_ok_def)
    with px show thesis by (rule that [rotated])
  qed
  have pos: "0 < acc_a acc"
  proof (rule ccontr)
    assume "\<not> 0 < acc_a acc"
    with acc have "acc_a acc = 0" by (simp add: blend_ok_def)
    moreover have "f64_round 0 = 0" by (simp add: f64_round_def)
    ultimately have "a = 0"
      using px by (cases "0 < cov_sum acc") (auto simp: blend_pixel_def Let_def round_u8_def clamp_def)
    with assms(3) show False by simp
  qed
  let ?m = "acc_r acc / acc_a acc"
  have m: "real lo \<le> ?m" "?m \<le> real hi"
    using acc pos by (auto simp: blend_ok_def field_simps)
  then have f: "int lo \<le> f64_round ?m" "f64_round ?m \<le> int hi"
    using f64_round_mono [OF m(1)] f64_round_mono [OF m(2)] by simp_all
  have "unat r = nat (f64_round ?m)"
  proof -
    have "clamp (f64_round ?m) 0 255 = f64_round ?m" using f assms(4) by (intro clamp_id) auto
    then have "r = of_int (f64_round ?m)" using px pos by (simp add: blend_pixel_def Let_def round_u8_def)
    moreover have "0 \<le> f64_round ?m" "f64_round ?m < 256" using f assms(4) by auto
    ultimately show ?thesis
      by (simp add: unsigned_of_int take_bit_int_eq_self)
  qed
  then show ?thesis using f by linarith
qed

section \<open>The limits of the pointer message\<close>

lemma scaled_hot_bound: "1 \<le> new \<Longrightarrow> scaled_hot hot new old < new"
  using clamp_bounds [of 0 "int (new - 1)" "f64_round (real hot * real new / real old)"]
  by (auto simp: scaled_hot_def)

definition hot_inside :: "bitmap \<Rightarrow> bool" where
  "hot_inside b \<longleftrightarrow> bm_hot_x b < bm_w b \<and> bm_hot_y b < bm_h b"

lemma resize_complete:
  assumes "complete_bitmap b" "1 \<le> nw" "1 \<le> nh"
  shows "\<exists>b'. resize_cursor b nw nh = Some b' \<and> complete_bitmap b' \<and> bm_w b' = nw \<and> bm_h b' = nh
              \<and> (hot_inside b \<longrightarrow> hot_inside b')"
proof (cases "nw = bm_w b \<and> nh = bm_h b")
  case True
  then show ?thesis using assms by (auto simp: resize_cursor_def)
next
  case False
  obtain px where "resample_rgba (bm_data b) (bm_w b) (bm_h b) nw nh = Some px" "length px = nw * nh * 4"
    using resample_complete [of "bm_data b" "bm_w b" "bm_h b" nw nh] assms(1)
    by (auto simp: complete_bitmap_def)
  with False assms show ?thesis
    by (auto simp: resize_cursor_def complete_bitmap_def hot_inside_def scaled_hot_bound)
qed

lemma scaled_dim_bounds: "1 \<le> scaled_dim n k" "scaled_dim n k \<le> 256"
  using clamp_bounds [of 1 256 "f64_round (real n * k)"] by (auto simp: scaled_dim_def)

definition fits_pointer :: "bitmap \<Rightarrow> bool" where
  "fits_pointer b \<longleftrightarrow> complete_bitmap b \<and> bm_w b * bm_h b * 4 \<le> 65535"

lemma clamp_pointer_fits:
  assumes "complete_bitmap b"
  shows "\<exists>b'. clamp_pointer_size b = Some b' \<and> fits_pointer b' \<and> (hot_inside b \<longrightarrow> hot_inside b')"
proof (cases "bm_w b * bm_h b \<le> MAX_AREA \<or> bm_w b = 0 \<or> bm_h b = 0")
  case True
  then show ?thesis using assms
    by (auto simp: clamp_pointer_size_def Let_def fits_pointer_def complete_bitmap_def MAX_AREA_def)
next
  case False
  let ?k = "sqrt (real MAX_AREA / real (bm_w b * bm_h b))"
  let ?nh = "clamp (nat \<lfloor>real (bm_h b) * ?k\<rfloor>) 1 MAX_AREA"
  let ?nw = "clamp (nat \<lfloor>real (bm_w b) * ?k\<rfloor>) 1 (MAX_AREA div ?nh)"
  have nh: "1 \<le> ?nh" "?nh \<le> MAX_AREA"
    using clamp_bounds [of 1 MAX_AREA] by (simp_all add: MAX_AREA_def)
  have "1 \<le> MAX_AREA div ?nh" using nh by (simp add: Suc_le_eq div_greater_zero_iff)
  then have nw: "1 \<le> ?nw" "?nw \<le> MAX_AREA div ?nh"
    using clamp_bounds [of 1 "MAX_AREA div ?nh"] by simp_all
  have "?nw * ?nh \<le> MAX_AREA div ?nh * ?nh" using nw(2) by (rule mult_le_mono1)
  also have "\<dots> \<le> MAX_AREA" by simp
  finally have area: "?nw * ?nh \<le> MAX_AREA" .
  obtain b' where "resize_cursor b ?nw ?nh = Some b'" "complete_bitmap b'" "bm_w b' = ?nw" "bm_h b' = ?nh"
    "hot_inside b \<longrightarrow> hot_inside b'"
    using resize_complete [OF assms nw(1) nh(1)] by blast
  moreover have "clamp_pointer_size b = resize_cursor b ?nw ?nh"
    using False by (simp add: clamp_pointer_size_def Let_def)
  ultimately show ?thesis using area by (auto simp: fits_pointer_def MAX_AREA_def)
qed

lemma scale_complete:
  assumes "complete_bitmap b"
  shows "\<exists>b'. scale_cursor k b = Some b' \<and> complete_bitmap b' \<and> (hot_inside b \<longrightarrow> hot_inside b')"
  using resize_complete [OF assms scaled_dim_bounds(1) [of "bm_w b" k] scaled_dim_bounds(1) [of "bm_h b" k]]
  by (auto simp: scale_cursor_def)

definition tick_lawful :: "sls_answer option \<times> ns_answer \<Rightarrow> bool" where
  "tick_lawful t \<longleftrightarrow> (case fst t of None \<Rightarrow> True | Some s \<Rightarrow> sls_lawful s) \<and> ns_lawful (snd t)"

lemma poll_shape_fits:
  assumes "tick_lawful t"
  shows "\<exists>s' out. poll_shape hash (fst t) (snd t) s = Some (s', out) \<and> list_all fits_pointer out
                  \<and> cursor_scale s' = cursor_scale s"
proof (cases "read_cursor_bitmap (fst t) (snd t)")
  case None
  then show ?thesis using assms read_complete [of "fst t" "snd t"] by (simp add: tick_lawful_def)
next
  case (Some r)
  show ?thesis
  proof (cases r)
    case None
    then show ?thesis using Some by (simp add: poll_shape_def)
  next
    case (Some b)
    with \<open>read_cursor_bitmap (fst t) (snd t) = Some r\<close>
    have rb: "read_cursor_bitmap (fst t) (snd t) = Some (Some b)" by simp
    then have b: "complete_bitmap b"
      using assms read_complete [of "fst t" "snd t"] by (simp add: tick_lawful_def)
    obtain b1 where b1: "scale_cursor (cursor_scale s) b = Some b1" "complete_bitmap b1"
      using scale_complete [OF b] by blast
    obtain b2 where b2: "clamp_pointer_size b1 = Some b2" "fits_pointer b2"
      using clamp_pointer_fits [OF b1(2)] by blast
    show ?thesis
      using rb b1 b2 by (simp add: poll_shape_def)
  qed
qed

text \<open>C36. Whatever shapes the system shows over a session, and whatever the scale of the command
  line, polling the cursor never panics, and every shape that is sent has all its pixels and at most
  65535 bytes of them, the limit of the pointer message past which the encoder fails and the client
  loop ends (\<open>CursorState::poll\<close>, \<open>src/src/cursor/mod.rs\<close>). The stride of the window server is
  not negative and AppKit's bitmap is complete.\<close>

theorem cursor_fits_message:
  assumes "list_all tick_lawful ts"
  shows "\<exists>s' out. poll_run hash ts (cursor_new k) = Some (s', out) \<and> list_all fits_pointer out"
proof -
  have "\<exists>s' out. poll_run hash ts s = Some (s', out) \<and> list_all fits_pointer out" for s
    using assms
  proof (induction ts arbitrary: s)
    case Nil
    then show ?case by simp
  next
    case (Cons t ts)
    then obtain s1 o1 where one: "poll_shape hash (fst t) (snd t) s = Some (s1, o1)" "list_all fits_pointer o1"
      using poll_shape_fits [of t hash s] by auto
    obtain s2 o2 where "poll_run hash ts s1 = Some (s2, o2)" "list_all fits_pointer o2"
      using Cons.IH [of s1] Cons.prems by auto
    with one show ?case by simp
  qed
  then show ?thesis .
qed

definition two_pixels :: sls_answer where
  "two_pixels =
     \<lparr>sls_size = Some 8, sls_data_ok = True, sls_buffer = [0, 0, 255, 255, 0, 0, 0, 0], sls_size_inout = 8,
      sls_row_bytes = 8, sls_width = 2, sls_height = 1, sls_hot_x = 0, sls_hot_y = 0, sls_depth = 32,
      sls_components = 4, sls_bits = 8\<rparr>"

definition no_ns_bitmap :: ns_answer where
  "no_ns_bitmap =
     \<lparr>ns_width = 0, ns_height = 0, ns_hot_x = 0, ns_hot_y = 0, ns_bitmap = None, ns_stride = 0\<rparr>"

lemma two_pixels_lawful: "list_all tick_lawful [(Some two_pixels, no_ns_bitmap)]"
  by (simp add: tick_lawful_def sls_lawful_def ns_lawful_def two_pixels_def no_ns_bitmap_def)

text \<open>A red and a transparent pixel, sent as they are.\<close>

lemma two_pixels_sent:
  "map_option snd (poll_run (\<lambda>b. 1) [(Some two_pixels, no_ns_bitmap)] (cursor_new None)) =
     Some [\<lparr>bm_data = [255, 0, 0, 255, 0, 0, 0, 0], bm_w = 2, bm_h = 1, bm_hot_x = 0, bm_hot_y = 0\<rparr>]"
proof -
  have z: "f64_round 0 = 0" "f64_round 1 = 1"
    using f64_round_of_int [of 0] f64_round_of_int [of 1] by simp_all
  have r: "sls_row [0, 0, 255, 255, 0, 0, 0, 0] 8 2 0 = Some (Some [255, 0, 0, 255, 0, 0, 0, 0])"
    by (simp add: sls_row_plain un_premultiply_def)
  show ?thesis
    by (simp add: poll_shape_def read_cursor_bitmap_def copy_current_system_cursor_def two_pixels_def Let_def
        z r wrap64_def hot_u16_def cursor_new_def scale_cursor_def scaled_dim_def clamp_def resize_cursor_def
        clamp_pointer_size_def MAX_AREA_def)
qed

theorem cursor_fits_message_witness:
  "\<exists>s' out. poll_run (\<lambda>b. 1) [(Some two_pixels, no_ns_bitmap)] (cursor_new None) = Some (s', out)
     \<and> list_all fits_pointer out \<and> map bm_w out = [2]"
  using cursor_fits_message [OF two_pixels_lawful, of "\<lambda>b. 1" None] two_pixels_sent
  by (auto simp: map_option_case split: option.splits)

end
