(* ===== verification/Helper_Ipc.thy ===== *)
theory Helper_Ipc
  imports Bytes
begin

text \<open>
  The clients of the two helper programs that draw on the Mac's screen: the switcher overlay
  (\<open>src/src/switcher_hud.rs\<close>), which is told and forgotten, and the shield windows
  (\<open>src/src/shield.rs\<close>), whose answer is waited for. What a connection does is a parameter.
\<close>

section \<open>The switcher overlay\<close>

definition HUD_DEFAULT_PORT :: nat where "HUD_DEFAULT_PORT = 40243"

definition SHIELD_DEFAULT_PORT :: nat where "SHIELD_DEFAULT_PORT = 40244"

definition hud_port :: "env \<Rightarrow> nat" where
  "hud_port e =
     (case Option.bind (e ''MACRDP_HUD_PORT'') (parse_uint 65535) of
        Some p \<Rightarrow> p | None \<Rightarrow> HUD_DEFAULT_PORT)"

definition shield_port :: "env \<Rightarrow> nat" where
  "shield_port e =
     (case Option.bind (e ''MACRDP_SHIELD_PORT'') (parse_uint 65535) of
        Some p \<Rightarrow> p | None \<Rightarrow> SHIELD_DEFAULT_PORT)"

text \<open>Display identifiers, process identifiers (as their 32 bits) and cursors are naturals below
  the bound of their type; a name is its UTF-8 bytes.\<close>

datatype hud_msg =
    HudShow nat nat "(nat \<times> bytes) list"
  | HudAdvance nat
  | HudHide

definition encode_app :: "nat \<times> bytes \<Rightarrow> bytes" where
  "encode_app a =
     (let nlen = min (length (snd a)) 65535
      in be_bytes 4 (fst a) @ be_bytes 2 nlen @ take nlen (snd a))"

fun hud_encode :: "hud_msg \<Rightarrow> bytes" where
  "hud_encode (HudShow display_id cursor apps) =
     (let n = min (length apps) 65535
      in [1] @ be_bytes 4 display_id @ be_bytes 2 cursor @ be_bytes 2 n @ concat (map encode_app (take n apps)))"
| "hud_encode (HudAdvance cursor) = [2] @ be_bytes 2 cursor"
| "hud_encode HudHide = [3]"

text \<open>
  The callers put a message on a queue of 64, and it is dropped when the queue is full; a cursor
  that is not a \<open>u16\<close> becomes 0. The worker connects when it has no stream, drops the message when
  it cannot, and forgets the stream when a write fails.
\<close>

definition cursor_u16 :: "nat \<Rightarrow> nat" where "cursor_u16 n = (if n \<le> 65535 then n else 0)"

definition hud_send :: "hud_msg \<Rightarrow> hud_msg list \<Rightarrow> hud_msg list" where
  "hud_send m q = (if length q < 64 then q @ [m] else q)"

definition hud_show :: "nat \<Rightarrow> (nat \<times> bytes) list \<Rightarrow> nat \<Rightarrow> hud_msg list \<Rightarrow> hud_msg list" where
  "hud_show display_id apps cursor = hud_send (HudShow display_id (cursor_u16 cursor) apps)"

definition hud_advance :: "nat \<Rightarrow> hud_msg list \<Rightarrow> hud_msg list" where
  "hud_advance cursor = hud_send (HudAdvance (cursor_u16 cursor))"

definition hud_hide :: "hud_msg list \<Rightarrow> hud_msg list" where
  "hud_hide = hud_send HudHide"

text \<open>One turn of the worker: whether it has a stream, the answers of the connection attempt and of
  the write, and the frame that reaches the stream, if one does.\<close>

definition hud_worker :: "bool \<Rightarrow> bool \<Rightarrow> bool \<Rightarrow> hud_msg \<Rightarrow> bool \<times> bytes option" where
  "hud_worker connected connect_ok write_ok m =
     (if \<not> connected \<and> \<not> connect_ok then (False, None)
      else if write_ok then (True, Some (hud_encode m)) else (False, None))"

section \<open>The shield windows\<close>

definition CONNECT_ATTEMPTS :: nat where "CONNECT_ATTEMPTS = 3"

definition CONNECT_TIMEOUT_MS :: nat where "CONNECT_TIMEOUT_MS = 250"

definition CONNECT_RETRY_DELAY_MS :: nat where "CONNECT_RETRY_DELAY_MS = 100"

datatype shield_error =
    Unreachable nat
  | Write_failed
  | Flush_failed
  | No_reply
  | Helper_status u8
  | Empty_exclude

text \<open>What the other end does: which attempts to connect fail, and with which error, whether the
  frame can be written and flushed, and the three bytes it replies, if it does.\<close>

record helper =
  h_connect :: "nat \<Rightarrow> nat option"
  h_write :: bool
  h_flush :: bool
  h_reply :: "bytes option"

text \<open>The attempts of \<open>connect\<close>, with the number of pauses made; \<open>n\<close> attempts are left.\<close>

primrec connect_loop :: "helper \<Rightarrow> nat \<Rightarrow> nat \<Rightarrow> nat \<Rightarrow> (nat + unit) \<times> nat" where
  "connect_loop k 0 err pauses = (Inl err, pauses)"
| "connect_loop k (Suc n) err pauses =
     (case h_connect k (CONNECT_ATTEMPTS - Suc n) of
        None \<Rightarrow> (Inr (), pauses)
      | Some e \<Rightarrow> connect_loop k n e (if 0 < n then pauses + 1 else pauses))"

definition shield_connect :: "helper \<Rightarrow> (nat + unit) \<times> nat" where
  "shield_connect k = connect_loop k CONNECT_ATTEMPTS 0 0"

definition shield_send :: "helper \<Rightarrow> bytes \<Rightarrow> shield_error + nat" where
  "shield_send k frame =
     (case fst (shield_connect k) of
        Inl e \<Rightarrow> Inl (Unreachable e)
      | Inr _ \<Rightarrow>
          if \<not> h_write k then Inl Write_failed
          else if \<not> h_flush k then Inl Flush_failed
          else case h_reply k of
                 Some [status, hi, lo] \<Rightarrow>
                   if status \<noteq> 0 then Inl (Helper_status status) else Inr (be_value [hi, lo])
               | _ \<Rightarrow> Inl No_reply)"

definition encode_show :: "nat list \<Rightarrow> bytes" where
  "encode_show ids =
     (let n = min (length ids) 65535 in [1] @ be_bytes 2 n @ concat (map (be_bytes 4) (take n ids)))"

definition encode_hide :: bytes where "encode_hide = [3]"

definition shield_show :: "helper \<Rightarrow> nat list \<Rightarrow> shield_error + nat" where
  "shield_show k ids = (if ids = [] then Inl Empty_exclude else shield_send k (encode_show ids))"

definition shield_hide :: "helper \<Rightarrow> shield_error + unit" where
  "shield_hide k = (case shield_send k encode_hide of Inl e \<Rightarrow> Inl e | Inr _ \<Rightarrow> Inr ())"

section \<open>What the frames say\<close>

text \<open>The reading of the frames, as the framing comment of the sources describes it.\<close>

definition decode_app :: "bytes \<Rightarrow> ((nat \<times> bytes) \<times> bytes) option" where
  "decode_app bs =
     Option.bind (read_be 4 bs) (\<lambda>(pid, r1).
       Option.bind (read_be 2 r1) (\<lambda>(n, r2).
         map_option (\<lambda>(name, rest). ((pid, name), rest)) (take_bytes n r2)))"

definition decode_show_fields :: "bytes \<Rightarrow> (hud_msg \<times> bytes) option" where
  "decode_show_fields bs =
     Option.bind (read_be 4 bs) (\<lambda>(display_id, r1).
       Option.bind (read_be 2 r1) (\<lambda>(cursor, r2).
         Option.bind (read_be 2 r2) (\<lambda>(n, r3).
           map_option (\<lambda>(apps, rest). (HudShow display_id cursor apps, rest)) (decode_n decode_app n r3))))"

definition hud_decode :: "bytes \<Rightarrow> (hud_msg \<times> bytes) option" where
  "hud_decode bs =
     (case bs of
        [] \<Rightarrow> None
      | op # r \<Rightarrow>
          if op = 1 then decode_show_fields r
          else if op = 2 then map_option (\<lambda>(c, rest). (HudAdvance c, rest)) (read_be 2 r)
          else if op = 3 then Some (HudHide, r) else None)"

definition app_ok :: "nat \<times> bytes \<Rightarrow> bool" where
  "app_ok a \<longleftrightarrow> fst a < 2 ^ 32 \<and> length (snd a) < 2 ^ 16"

fun hud_ok :: "hud_msg \<Rightarrow> bool" where
  "hud_ok (HudShow d c apps) \<longleftrightarrow> d < 2 ^ 32 \<and> c < 2 ^ 16 \<and> length apps < 2 ^ 16 \<and> list_all app_ok apps"
| "hud_ok (HudAdvance c) \<longleftrightarrow> c < 2 ^ 16"
| "hud_ok HudHide \<longleftrightarrow> True"

interpretation hud_app: wire_codec encode_app decode_app app_ok
  by unfold_locales
    (auto simp: encode_app_def decode_app_def app_ok_def Let_def codec_simps)

lemma decode_apps:
  "list_all app_ok apps \<Longrightarrow>
     decode_n decode_app (length apps) (concat (map encode_app apps) @ rest) = Some (apps, rest)"
  by (rule hud_app.decode_stream) (simp add: list_all_iff)

interpretation hud: wire_codec hud_encode hud_decode hud_ok
proof
  fix m rest assume "hud_ok m"
  then show "hud_decode (hud_encode m @ rest) = Some (m, rest)"
    by (cases m)
      (auto simp: hud_decode_def decode_show_fields_def Let_def codec_simps decode_apps)
qed

text \<open>So the helper reads a whole stream of frames as the messages that were sent.\<close>

lemma hud_stream_read:
  "\<forall>m \<in> set ms. hud_ok m \<Longrightarrow>
     decode_n hud_decode (length ms) (concat (map hud_encode ms)) = Some (ms, [])"
  using hud.decode_stream [of ms "[]"] by simp

lemma be_value_u16: "be_value [hi, lo] < 2 ^ 16"
  using be_value_bound [of "[hi, lo]"] by simp

lemma shield_count_bound: "shield_send k frame = Inr n \<Longrightarrow> n < 2 ^ 16"
  using be_value_u16
  by (auto simp: shield_send_def split: sum.splits if_splits option.splits list.splits)

lemma connect_pauses: "snd (connect_loop k n err p) \<le> p + (n - 1)"
proof (induction n arbitrary: err p)
  case 0
  then show ?case by simp
next
  case (Suc n)
  have "snd (connect_loop k n e (if 0 < n then p + 1 else p)) \<le> p + n" for e
    using Suc.IH [of e "if 0 < n then p + 1 else p"] by (cases n) auto
  then show ?case
    by (cases "h_connect k (CONNECT_ATTEMPTS - Suc n)") (simp_all only: connect_loop.simps option.case snd_conv, simp)
qed

text \<open>The time a call may block a worker of the runtime while it connects: at most 950 ms.\<close>

lemma shield_connect_blocks:
  "CONNECT_ATTEMPTS * CONNECT_TIMEOUT_MS + snd (shield_connect k) * CONNECT_RETRY_DELAY_MS \<le> 950"
  using connect_pauses [of k CONNECT_ATTEMPTS 0 0]
  by (simp add: shield_connect_def CONNECT_ATTEMPTS_def CONNECT_TIMEOUT_MS_def CONNECT_RETRY_DELAY_MS_def)

end
