(* ===== verification/Headless.thy ===== *)
theory Headless
  imports Helper_Ipc Rust_Float
begin

text \<open>
  The virtual display and the mechanisms that make the Mac headless while a client is connected,
  \<open>src/src/virtual_display/mod.rs\<close>. Every call that changes something is recorded, the newest
  first, with what it returned; what the display system answers at any moment is a function of that
  history, so that nothing is assumed of it. An error in the middle of a transaction leaves it
  open, as the source does.
\<close>

section \<open>The calls and what answers them\<close>

type_synonym display = nat
type_synonym origin = "int \<times> int"
type_synonym targets = "(display \<times> origin) list"

datatype tx_scope = ForAppOnly | ForSession

datatype cg_call =
    BeginTx
  | SetOrigin display int int
  | SetMirror display display
  | SetEnabled display bool
  | CompleteTx tx_scope
  | CaptureDisplay display
  | ReleaseDisplay display
  | BlackGamma display
  | RestoreGamma
  | ApplyMode nat nat nat

datatype event =
    Cg cg_call int
  | Shield bytes "shield_error + nat"
  | Slept nat
  | GatherLater display

type_synonym hist = "event list"

record rect =
  r_x :: real
  r_y :: real
  r_w :: real
  r_h :: real

text \<open>\<open>enabler_loads\<close>: whether the private symbol that disables a display exists; a mode that is
  applied has status 0; \<open>clock_ms\<close> is the monotonic clock.\<close>

record display_env =
  cg_status :: "hist \<Rightarrow> cg_call \<Rightarrow> int"
  helper_at :: "hist \<Rightarrow> helper"
  main_display :: "hist \<Rightarrow> display"
  display_bounds :: "hist \<Rightarrow> display \<Rightarrow> rect"
  active_displays :: "hist \<Rightarrow> int + display list"
  online_displays :: "hist \<Rightarrow> int + display list"
  is_active :: "hist \<Rightarrow> display \<Rightarrow> bool"
  mirrors_display :: "hist \<Rightarrow> display \<Rightarrow> display"
  enabler_loads :: bool
  create_display :: "nat \<Rightarrow> nat \<Rightarrow> nat \<Rightarrow> display option"
  clock_ms :: "hist \<Rightarrow> nat"

datatype headless_error =
    Cg_Error cg_call int
  | List_Error int
  | No_enabler
  | No_physical_display
  | Shield_error shield_error
  | Covered_only nat nat
  | Create_failed
  | Zero_bounds
  | Mode_rejected int
  | Resize_timeout
  | Empty_show

definition cg :: "display_env \<Rightarrow> cg_call \<Rightarrow> hist \<Rightarrow> hist \<times> int" where
  "cg k c h = (Cg c (cg_status k h c) # h, cg_status k h c)"

definition cg_try :: "display_env \<Rightarrow> cg_call \<Rightarrow> hist \<Rightarrow> hist \<times> (headless_error + unit)" where
  "cg_try k c h = (case cg k c h of (h', e) \<Rightarrow> (h', if e = 0 then Inr () else Inl (Cg_Error c e)))"

definition cg_ignore :: "display_env \<Rightarrow> cg_call \<Rightarrow> hist \<Rightarrow> hist" where
  "cg_ignore k c h = fst (cg k c h)"

definition and_then ::
  "hist \<times> ('e + 'a) \<Rightarrow> (hist \<Rightarrow> 'a \<Rightarrow> hist \<times> ('e + 'b)) \<Rightarrow> hist \<times> ('e + 'b)" where
  "and_then r f = (case r of (h, Inl e) \<Rightarrow> (h, Inl e) | (h, Inr a) \<Rightarrow> f h a)"

definition shield_op :: "display_env \<Rightarrow> bytes \<Rightarrow> hist \<Rightarrow> hist \<times> (shield_error + nat)" where
  "shield_op k frame h =
     (let r = shield_send (helper_at k h) frame in (Shield frame r # h, r))"

definition show_shields :: "display_env \<Rightarrow> display list \<Rightarrow> hist \<Rightarrow> hist \<times> (shield_error + nat)" where
  "show_shields k ids h = (if ids = [] then (h, Inl Empty_exclude) else shield_op k (encode_show ids) h)"

definition hide_shields :: "display_env \<Rightarrow> hist \<Rightarrow> hist" where
  "hide_shields k h = fst (shield_op k encode_hide h)"

text \<open>\<open>as i32\<close> and \<open>as u32\<close> saturate.\<close>

definition as_i32 :: "real \<Rightarrow> int" where
  "as_i32 x = clamp (f64_round x) (- (2 ^ 31)) (2 ^ 31 - 1)"

definition origin_of :: "display_env \<Rightarrow> hist \<Rightarrow> display \<Rightarrow> origin" where
  "origin_of k h d = (as_i32 (r_x (display_bounds k h d)), as_i32 (r_y (display_bounds k h d)))"

definition width_of :: "display_env \<Rightarrow> hist \<Rightarrow> display \<Rightarrow> int" where
  "width_of k h d = as_i32 (r_w (display_bounds k h d))"

section \<open>The virtual display\<close>

record virtual_display =
  vd_id :: display
  vd_origin :: "real \<times> real"
  vd_size :: "real \<times> real"

definition virtual_display_new ::
  "display_env \<Rightarrow> nat \<Rightarrow> nat \<Rightarrow> nat \<Rightarrow> hist \<Rightarrow> headless_error + virtual_display" where
  "virtual_display_new k width height hz h =
     (case create_display k width height hz of
        None \<Rightarrow> Inl Create_failed
      | Some d \<Rightarrow>
          let b = display_bounds k h d
          in if r_w b \<le> 0 \<or> r_h b \<le> 0 then Inl Zero_bounds
             else Inr \<lparr>vd_id = d, vd_origin = (r_x b, r_y b), vd_size = (r_w b, r_h b)\<rparr>)"

text \<open>The wait for the new mode; \<open>None\<close> when the fuel is out.\<close>

primrec resize_wait ::
  "display_env \<Rightarrow> nat \<Rightarrow> nat \<Rightarrow> nat \<Rightarrow> nat \<Rightarrow> virtual_display \<Rightarrow> hist
     \<Rightarrow> (hist \<times> virtual_display \<times> (headless_error + unit)) option" where
  "resize_wait k width height deadline 0 v h = None"
| "resize_wait k width height deadline (Suc n) v h =
     (let b = display_bounds k h (vd_id v)
      in if f64_as_uint (2 ^ 32 - 1) (r_w b) = width \<and> f64_as_uint (2 ^ 32 - 1) (r_h b) = height
         then Some (h, v\<lparr>vd_origin := (r_x b, r_y b), vd_size := (r_w b, r_h b)\<rparr>, Inr ())
         else if deadline \<le> clock_ms k h then Some (h, v, Inl Resize_timeout)
         else resize_wait k width height deadline n v (Slept 50 # h))"

definition virtual_display_resize ::
  "display_env \<Rightarrow> nat \<Rightarrow> nat \<Rightarrow> nat \<Rightarrow> virtual_display \<Rightarrow> hist
     \<Rightarrow> (hist \<times> virtual_display \<times> (headless_error + unit)) option" where
  "virtual_display_resize k fuel width height v h =
     (case cg k (ApplyMode width height 60) h of
        (h1, e) \<Rightarrow>
          if e \<noteq> 0 then Some (h1, v, Inl (Mode_rejected e))
          else resize_wait k width height (clock_ms k h1 + 3000) fuel v h1)"

definition reanchor_as_main ::
  "display_env \<Rightarrow> virtual_display \<Rightarrow> hist \<Rightarrow> hist \<times> virtual_display \<times> (headless_error + bool)" where
  "reanchor_as_main k v h =
     (if origin_of k h (vd_id v) = (0, 0) \<and> main_display k h = vd_id v then (h, v, Inr False)
      else
        case and_then (cg_try k BeginTx h) (\<lambda>h _.
               and_then (cg_try k (SetOrigin (vd_id v) 0 0) h) (\<lambda>h _. cg_try k (CompleteTx ForAppOnly) h)) of
          (h', Inl e) \<Rightarrow> (h', v, Inl e)
        | (h', Inr _) \<Rightarrow> (h', v\<lparr>vd_origin := (0, 0)\<rparr>, Inr True))"

section \<open>Transactions\<close>

text \<open>The virtual display to the origin, the physical displays that are active beside it.\<close>

primrec move_aside ::
  "display_env \<Rightarrow> targets \<Rightarrow> int \<Rightarrow> hist \<Rightarrow> hist \<times> (headless_error + unit)" where
  "move_aside k [] x h = (h, Inr ())"
| "move_aside k (t # ts) x h =
     (if is_active k h (fst t)
      then and_then (cg_try k (SetOrigin (fst t) x 0) h)
             (\<lambda>h _. move_aside k ts (x + width_of k h (fst t)) h)
      else move_aside k ts x h)"

definition move_tx ::
  "display_env \<Rightarrow> display \<Rightarrow> int \<Rightarrow> targets \<Rightarrow> tx_scope \<Rightarrow> hist \<Rightarrow> hist \<times> (headless_error + unit)" where
  "move_tx k vd w ts scope h =
     and_then (cg_try k BeginTx h) (\<lambda>h _.
       and_then (cg_try k (SetOrigin vd 0 0) h) (\<lambda>h _.
         and_then (move_aside k ts w h) (\<lambda>h _. cg_try k (CompleteTx scope) h)))"

definition set_origins :: "display_env \<Rightarrow> targets \<Rightarrow> hist \<Rightarrow> hist" where
  "set_origins k ts h = fold (\<lambda>(d, x, y) h. cg_ignore k (SetOrigin d x y) h) ts h"

text \<open>The best-effort restoration of the origins, with whether it was completed.\<close>

definition restore_tx ::
  "display_env \<Rightarrow> targets \<Rightarrow> display \<Rightarrow> origin \<Rightarrow> tx_scope \<Rightarrow> hist \<Rightarrow> hist \<times> bool" where
  "restore_tx k ts vd old scope h =
     (case cg k BeginTx h of
        (h1, e) \<Rightarrow>
          if e \<noteq> 0 then (h1, False)
          else case cg k (CompleteTx scope) (set_origins k (ts @ [(vd, old)]) h1) of
                 (h2, e2) \<Rightarrow> (h2, e2 = 0))"

definition physical_targets :: "display_env \<Rightarrow> display \<Rightarrow> display list \<Rightarrow> hist \<Rightarrow> targets" where
  "physical_targets k vd actives h = map (\<lambda>d. (d, origin_of k h d)) (filter (\<lambda>d. d \<noteq> vd) actives)"

definition inactive_targets :: "display \<Rightarrow> display list \<Rightarrow> display list \<Rightarrow> targets" where
  "inactive_targets vd actives online =
     map (\<lambda>d. (d, (0, 0))) (filter (\<lambda>d. d \<noteq> vd \<and> d \<notin> set actives) online)"

text \<open>The physical displays, or when none is active those that are on-line but inactive.\<close>

definition find_targets :: "display_env \<Rightarrow> display \<Rightarrow> hist \<Rightarrow> headless_error + targets" where
  "find_targets k vd h =
     (case active_displays k h of
        Inl e \<Rightarrow> Inl (List_Error e)
      | Inr actives \<Rightarrow>
          let ts = physical_targets k vd actives h
          in if ts \<noteq> [] then Inr ts
             else case online_displays k h of
                    Inl e \<Rightarrow> Inl (List_Error e)
                  | Inr online \<Rightarrow>
                      let st = inactive_targets vd actives online
                      in if st = [] then Inl No_physical_display else Inr st)"

section \<open>Making the virtual display the main one\<close>

record primary_override =
  po_primary :: display
  po_primary_old :: origin
  po_virtual :: display
  po_virtual_old :: origin

definition override_install ::
  "display_env \<Rightarrow> display \<Rightarrow> hist \<Rightarrow> hist \<times> (headless_error + primary_override option)" where
  "override_install k vd h =
     (let primary = main_display k h
      in if primary = vd then (h, Inr None)
         else
           let p_old = origin_of k h primary; v_old = origin_of k h vd; w = width_of k h vd
           in and_then (cg_try k BeginTx h) (\<lambda>h _.
                and_then (cg_try k (SetOrigin vd 0 0) h) (\<lambda>h _.
                  and_then (cg_try k (SetOrigin primary w 0) h) (\<lambda>h _.
                    and_then (cg_try k (CompleteTx ForSession) h) (\<lambda>h _.
                      (h, Inr (Some \<lparr>po_primary = primary, po_primary_old = p_old,
                                     po_virtual = vd, po_virtual_old = v_old\<rparr>)))))))"

definition override_drop :: "display_env \<Rightarrow> primary_override \<Rightarrow> hist \<Rightarrow> hist \<times> bool" where
  "override_drop k p h =
     restore_tx k [(po_primary p, po_primary_old p)] (po_virtual p) (po_virtual_old p) ForSession h"

section \<open>Disabling the physical displays\<close>

record detached_primary =
  dp_virtual :: display
  dp_virtual_old :: origin
  dp_detached :: targets

primrec disable_all :: "display_env \<Rightarrow> targets \<Rightarrow> hist \<Rightarrow> hist \<times> (headless_error + unit)" where
  "disable_all k [] h = (h, Inr ())"
| "disable_all k (t # ts) h =
     (if is_active k h (fst t)
      then and_then (cg_try k (SetEnabled (fst t) False) h) (\<lambda>h _. disable_all k ts h)
      else disable_all k ts h)"

definition detached_install ::
  "display_env \<Rightarrow> display \<Rightarrow> hist \<Rightarrow> hist \<times> (headless_error + detached_primary)" where
  "detached_install k vd h =
     (if \<not> enabler_loads k then (h, Inl No_enabler)
      else
        let old = origin_of k h vd; w = width_of k h vd
        in case find_targets k vd h of
             Inl e \<Rightarrow> (h, Inl e)
           | Inr ts \<Rightarrow>
               and_then (move_tx k vd w ts ForAppOnly h) (\<lambda>h _.
                 and_then (cg_try k BeginTx (Slept 200 # h)) (\<lambda>h _.
                   and_then (disable_all k ts h) (\<lambda>h _.
                     and_then (cg_try k (CompleteTx ForAppOnly) h) (\<lambda>h _.
                       (h, Inr \<lparr>dp_virtual = vd, dp_virtual_old = old, dp_detached = ts\<rparr>))))))"

definition enable_all :: "display_env \<Rightarrow> targets \<Rightarrow> hist \<Rightarrow> hist" where
  "enable_all k ts h = fold (\<lambda>(d, _) h. cg_ignore k (SetEnabled d True) h) ts h"

text \<open>The attempts to enable them again; \<open>n\<close> attempts are left.\<close>

primrec enable_attempts :: "display_env \<Rightarrow> targets \<Rightarrow> nat \<Rightarrow> hist \<Rightarrow> hist \<times> bool" where
  "enable_attempts k ts 0 h = (h, False)"
| "enable_attempts k ts (Suc n) h =
     (let pause = (\<lambda>h. if 0 < n then Slept 2000 # h else h)
      in case cg k BeginTx h of
           (h1, e) \<Rightarrow>
             if e \<noteq> 0 then enable_attempts k ts n (pause h1)
             else case cg k (CompleteTx ForAppOnly) (enable_all k ts h1) of
                    (h2, e2) \<Rightarrow>
                      if e2 = 0 then (h2, True) else enable_attempts k ts n (pause h2))"

definition MAX_ENABLE_ATTEMPTS :: nat where "MAX_ENABLE_ATTEMPTS = 3"

text \<open>With the flag \<open>DETACH_REENABLE_FAILED\<close>.\<close>

definition detached_drop :: "display_env \<Rightarrow> detached_primary \<Rightarrow> bool \<times> hist \<Rightarrow> bool \<times> hist" where
  "detached_drop k p s =
     (case enable_attempts k (dp_detached p) MAX_ENABLE_ATTEMPTS (snd s) of
        (h, False) \<Rightarrow> (True, h)
      | (h, True) \<Rightarrow>
          (fst s, fst (restore_tx k (dp_detached p) (dp_virtual p) (dp_virtual_old p) ForAppOnly (Slept 200 # h))))"

definition take_detach_reenable_failed :: "bool \<times> hist \<Rightarrow> (bool \<times> hist) \<times> bool" where
  "take_detach_reenable_failed s = ((False, snd s), fst s)"

section \<open>Capturing the physical displays\<close>

record captured_primary =
  cp_virtual :: display
  cp_virtual_old :: origin
  cp_captured :: targets

definition release_all :: "display_env \<Rightarrow> targets \<Rightarrow> hist \<Rightarrow> hist" where
  "release_all k ts h = fold (\<lambda>(d, _) h. cg_ignore k (ReleaseDisplay d) h) ts h"

primrec capture_all ::
  "display_env \<Rightarrow> targets \<Rightarrow> targets \<Rightarrow> hist \<Rightarrow> hist \<times> (headless_error + targets)" where
  "capture_all k [] held h = (h, Inr held)"
| "capture_all k (t # ts) held h =
     (case cg k (CaptureDisplay (fst t)) h of
        (h1, e) \<Rightarrow>
          if e = 0 then capture_all k ts (held @ [t]) h1
          else (release_all k held h1, Inl (Cg_Error (CaptureDisplay (fst t)) e)))"

definition blacken_all :: "display_env \<Rightarrow> targets \<Rightarrow> hist \<Rightarrow> hist" where
  "blacken_all k ts h = fold (\<lambda>(d, _) h. cg_ignore k (BlackGamma d) h) ts h"

definition captured_install ::
  "display_env \<Rightarrow> display \<Rightarrow> hist \<Rightarrow> hist \<times> (headless_error + captured_primary)" where
  "captured_install k vd h =
     (let old = origin_of k h vd; w = width_of k h vd
      in case active_displays k h of
           Inl e \<Rightarrow> (h, Inl (List_Error e))
         | Inr actives \<Rightarrow>
             let ts = physical_targets k vd actives h
             in if ts = [] then (h, Inl No_physical_display)
                else and_then (move_tx k vd w ts ForSession h) (\<lambda>h _.
                       and_then (capture_all k ts [] (Slept 200 # h)) (\<lambda>h held.
                         (blacken_all k held h,
                          Inr \<lparr>cp_virtual = vd, cp_virtual_old = old, cp_captured = held\<rparr>))))"

text \<open>The number of panels that could not be blackened again.\<close>

definition captured_reassert :: "display_env \<Rightarrow> captured_primary \<Rightarrow> hist \<Rightarrow> hist \<times> nat" where
  "captured_reassert k p h =
     fold (\<lambda>(d, _) (h, failed). case cg k (BlackGamma d) h of (h', e) \<Rightarrow> (h', if e \<noteq> 0 then failed + 1 else failed))
       (cp_captured p) (h, 0)"

definition captured_drop :: "display_env \<Rightarrow> captured_primary \<Rightarrow> hist \<Rightarrow> hist" where
  "captured_drop k p h =
     fst (restore_tx k (cp_captured p) (cp_virtual p) (cp_virtual_old p) ForSession
            (Slept 200 # release_all k (cp_captured p) (Cg RestoreGamma 0 # h)))"

section \<open>Shielding the physical displays\<close>

record shielded_primary =
  sp_virtual :: display
  sp_virtual_old :: origin
  sp_shielded :: targets
  sp_moved :: bool
  sp_broke_mirror :: "display list"

definition shield_keeps_physical_main :: "ustr option \<Rightarrow> bool" where
  "shield_keeps_physical_main v =
     (case v of
        None \<Rightarrow> True
      | Some s \<Rightarrow> s \<noteq> lit ''0'' \<and> to_ascii_lowercase s \<noteq> lit ''false'' \<and> s \<noteq> [])"

definition set_mirrors :: "display_env \<Rightarrow> display \<Rightarrow> display list \<Rightarrow> hist \<Rightarrow> hist" where
  "set_mirrors k vd panels h = fold (\<lambda>d h. cg_ignore k (SetMirror d vd) h) panels h"

definition remirror_onto_vd :: "display_env \<Rightarrow> display \<Rightarrow> display list \<Rightarrow> hist \<Rightarrow> hist" where
  "remirror_onto_vd k vd panels h =
     (if panels = [] then h
      else case cg k BeginTx h of
             (h1, e) \<Rightarrow>
               if e \<noteq> 0 then h1 else cg_ignore k (CompleteTx ForAppOnly) (set_mirrors k vd panels h1))"

primrec break_mirrors :: "display_env \<Rightarrow> display list \<Rightarrow> hist \<Rightarrow> hist \<times> (headless_error + unit)" where
  "break_mirrors k [] h = (h, Inr ())"
| "break_mirrors k (d # ds) h =
     and_then (cg_try k (SetMirror d 0) h) (\<lambda>h _. break_mirrors k ds h)"

definition unmirror_tx :: "display_env \<Rightarrow> display list \<Rightarrow> hist \<Rightarrow> hist \<times> (headless_error + unit)" where
  "unmirror_tx k ds h =
     and_then (cg_try k BeginTx h) (\<lambda>h _.
       and_then (break_mirrors k ds h) (\<lambda>h _. cg_try k (CompleteTx ForAppOnly) h))"

primrec push_right :: "display_env \<Rightarrow> display list \<Rightarrow> int \<Rightarrow> hist \<Rightarrow> hist \<times> (headless_error + unit)" where
  "push_right k [] x h = (h, Inr ())"
| "push_right k (d # ds) x h =
     and_then (cg_try k (SetOrigin d x 0) h)
       (\<lambda>h _. push_right k ds (x + as_i32 (max (real_of_int (f64_round (r_w (display_bounds k h d)))) 1)) h)"

definition displace_tx :: "display_env \<Rightarrow> display \<Rightarrow> int \<Rightarrow> display list \<Rightarrow> hist \<Rightarrow> hist \<times> (headless_error + unit)" where
  "displace_tx k vd w ds h =
     and_then (cg_try k BeginTx h) (\<lambda>h _.
       and_then (cg_try k (SetOrigin vd 0 0) h) (\<lambda>h _.
         and_then (push_right k ds w h) (\<lambda>h _. cg_try k (CompleteTx ForSession) h)))"

definition SHOW_BACKOFF_MS :: "nat list" where
  "SHOW_BACKOFF_MS = [300, 500, 800, 1200, 1600, 2000]"

text \<open>The attempts to raise the shields: the last count reported and the last error.\<close>

primrec show_loop ::
  "display_env \<Rightarrow> display \<Rightarrow> nat \<Rightarrow> nat option list \<Rightarrow> nat \<Rightarrow> headless_error option \<Rightarrow> hist
     \<Rightarrow> hist \<times> nat \<times> headless_error option" where
  "show_loop k vd need [] n err h = (h, n, err)"
| "show_loop k vd need (b # bs) n err h =
     (case show_shields k [vd] h of
        (h1, r) \<Rightarrow>
          let n' = (case r of Inr m \<Rightarrow> m | Inl _ \<Rightarrow> n);
              again = (\<lambda>e. case b of
                         Some ms \<Rightarrow> show_loop k vd need bs n' (Some e) (Slept ms # h1)
                       | None \<Rightarrow> (h1, n', Some e))
          in case r of
               Inr m \<Rightarrow> if need \<le> m then (h1, m, None) else again (Covered_only m need)
             | Inl e \<Rightarrow> again (Shield_error e))"

definition mirrored_panels :: "display_env \<Rightarrow> display \<Rightarrow> targets \<Rightarrow> hist \<Rightarrow> display list" where
  "mirrored_panels k vd ts h = filter (\<lambda>d. mirrors_display k h d = vd) (map fst ts)"

text \<open>The panels that mirror the virtual display are separated from it and moved off its origin;
  the result says whether they were moved.\<close>

definition separate_panels ::
  "display_env \<Rightarrow> display \<Rightarrow> int \<Rightarrow> display list \<Rightarrow> hist \<Rightarrow> hist \<times> (headless_error + bool)" where
  "separate_panels k vd w ds h =
     (if ds = [] then (h, Inr False)
      else and_then (unmirror_tx k ds h) (\<lambda>h _.
             case displace_tx k vd w ds h of
               (h', r) \<Rightarrow> (Slept 600 # h', Inr (r = Inr ()))))"

definition raise_shields ::
  "display_env \<Rightarrow> display \<Rightarrow> nat \<Rightarrow> display list \<Rightarrow> hist \<Rightarrow> hist \<times> (headless_error + unit)" where
  "raise_shields k vd need broke h =
     (case show_loop k vd need (map Some SHOW_BACKOFF_MS @ [None]) 0 None h of
        (h1, n, err) \<Rightarrow>
          if n < need
          then (remirror_onto_vd k vd broke (hide_shields k h1),
                Inl (case err of Some e \<Rightarrow> e | None \<Rightarrow> Empty_show))
          else (h1, Inr ()))"

definition arrange_shielded ::
  "display_env \<Rightarrow> display \<Rightarrow> int \<Rightarrow> targets \<Rightarrow> display list \<Rightarrow> hist \<Rightarrow> hist \<times> (headless_error + unit)" where
  "arrange_shielded k vd w ts broke h =
     (case move_tx k vd w ts ForSession h of
        (h1, Inl e) \<Rightarrow> (remirror_onto_vd k vd broke (hide_shields k h1), Inl e)
      | (h1, Inr _) \<Rightarrow> (fst (show_shields k [vd] (Slept 200 # h1)), Inr ()))"

definition shielded_install ::
  "display_env \<Rightarrow> ustr option \<Rightarrow> display \<Rightarrow> hist \<Rightarrow> hist \<times> (headless_error + shielded_primary)" where
  "shielded_install k keep_var vd h =
     (let old = origin_of k h vd; w = width_of k h vd
      in case find_targets k vd h of
           Inl e \<Rightarrow> (h, Inl e)
         | Inr ts \<Rightarrow>
             let broke = mirrored_panels k vd ts h; keep = shield_keeps_physical_main keep_var
             in and_then (separate_panels k vd w broke h) (\<lambda>h displaced.
                  and_then (raise_shields k vd (length ts) broke h) (\<lambda>h _.
                    and_then (if keep then (h, Inr ()) else arrange_shielded k vd w ts broke h) (\<lambda>h _.
                      (if displaced then GatherLater vd # h else h,
                       Inr \<lparr>sp_virtual = vd, sp_virtual_old = old, sp_shielded = ts,
                            sp_moved = (\<not> keep), sp_broke_mirror = broke\<rparr>)))))"

text \<open>Sent from a thread of its own; it reports nothing.\<close>

definition shielded_reassert :: "display_env \<Rightarrow> shielded_primary \<Rightarrow> hist \<Rightarrow> hist \<times> nat" where
  "shielded_reassert k p h = (fst (show_shields k [sp_virtual p] h), 0)"

definition shielded_drop :: "display_env \<Rightarrow> shielded_primary \<Rightarrow> hist \<Rightarrow> hist" where
  "shielded_drop k p h =
     (let h1 = remirror_onto_vd k (sp_virtual p) (sp_broke_mirror p) (hide_shields k h)
      in if \<not> sp_moved p then h1
         else fst (restore_tx k (sp_shielded p) (sp_virtual p) (sp_virtual_old p) ForSession h1))"

end
