(* ===== verification/Headless_Props.thy ===== *)
theory Headless_Props
  imports Headless
begin

text \<open>
  What the headless mechanisms leave behind, read off the history of their calls: whatever the
  display system and the helper answer, a session that has ended holds no display, leaves no
  gamma table black, no shield up, and no display disabled except as the flag or a refused call
  say; and where the calls succeed, the arrangement is the one before.
\<close>

section \<open>Reading the history\<close>

primrec held :: "hist \<Rightarrow> display set" where
  "held [] = {}"
| "held (e # h) =
     (case e of
        Cg (CaptureDisplay d) s \<Rightarrow> if s = 0 then insert d (held h) else held h
      | Cg (ReleaseDisplay d) s \<Rightarrow> if s = 0 then held h - {d} else held h
      | _ \<Rightarrow> held h)"

text \<open>The displays whose release was refused the last time it was asked for, since their capture.\<close>

primrec release_refused :: "hist \<Rightarrow> display set" where
  "release_refused [] = {}"
| "release_refused (e # h) =
     (case e of
        Cg (CaptureDisplay d) s \<Rightarrow> if s = 0 then release_refused h - {d} else release_refused h
      | Cg (ReleaseDisplay d) s \<Rightarrow> if s = 0 then release_refused h - {d} else insert d (release_refused h)
      | _ \<Rightarrow> release_refused h)"

definition kept :: "hist \<Rightarrow> display set" where "kept h = held h - release_refused h"

lemma kept_simps [simp]:
  "kept [] = {}"
  "kept (Cg (CaptureDisplay d) s # h) = (if s = 0 then insert d (kept h) else kept h)"
  "kept (Cg (ReleaseDisplay d) s # h) = kept h - {d}"
  "kept (Slept n # h) = kept h" "kept (GatherLater d # h) = kept h" "kept (Shield f r # h) = kept h"
  "kept (Cg RestoreGamma s # h) = kept h" "kept (Cg (BlackGamma d) s # h) = kept h"
  by (auto simp: kept_def)

primrec blackened :: "hist \<Rightarrow> display set" where
  "blackened [] = {}"
| "blackened (e # h) =
     (case e of
        Cg (BlackGamma d) s \<Rightarrow> if s = 0 then insert d (blackened h) else blackened h
      | Cg RestoreGamma s \<Rightarrow> {}
      | _ \<Rightarrow> blackened h)"

text \<open>
  Whether shields may be up: a frame that asks for them puts them up, answered or not; only a frame
  that lowers them and is answered without an error takes them down. And whether the last frame was
  one to lower them that failed.
\<close>

primrec shields_up :: "hist \<Rightarrow> bool" where
  "shields_up [] = False"
| "shields_up (e # h) =
     (case e of
        Shield frame r \<Rightarrow> if frame = encode_hide then shields_up h \<and> isl r else True
      | _ \<Rightarrow> shields_up h)"

primrec hide_failed :: "hist \<Rightarrow> bool" where
  "hide_failed [] = False"
| "hide_failed (e # h) =
     (case e of Shield frame r \<Rightarrow> frame = encode_hide \<and> isl r | _ \<Rightarrow> hide_failed h)"

text \<open>Whether the last frame for the helper asked for shields.\<close>

primrec shields_asked :: "hist \<Rightarrow> bool" where
  "shields_asked [] = False"
| "shields_asked (e # h) =
     (case e of Shield frame r \<Rightarrow> frame \<noteq> encode_hide | _ \<Rightarrow> shields_asked h)"

lemma shields_up_asked: "shields_up h \<Longrightarrow> \<not> shields_asked h \<Longrightarrow> hide_failed h"
  by (induction h) (auto split: event.splits if_splits)

text \<open>
  The committed arrangement: a transaction collects the changes that were accepted and applies
  them when it completes; one that fails changes nothing, and one that is left open is never
  completed.
\<close>

record layout =
  pending :: "cg_call list"
  placed :: "display \<Rightarrow> origin option"
  disabled :: "display set"
  mirrors :: "display \<Rightarrow> display option"

fun apply_change :: "cg_call \<Rightarrow> layout \<Rightarrow> layout" where
  "apply_change (SetOrigin d x y) l = l\<lparr>placed := (placed l)(d \<mapsto> (x, y))\<rparr>"
| "apply_change (SetMirror d m) l = l\<lparr>mirrors := (mirrors l)(d \<mapsto> m)\<rparr>"
| "apply_change (SetEnabled d b) l = l\<lparr>disabled := (if b then disabled l - {d} else insert d (disabled l))\<rparr>"
| "apply_change _ l = l"

fun layout_step :: "cg_call \<Rightarrow> int \<Rightarrow> layout \<Rightarrow> layout" where
  "layout_step BeginTx s l = l\<lparr>pending := []\<rparr>"
| "layout_step (SetOrigin d x y) s l =
     (if s = 0 then l\<lparr>pending := pending l @ [SetOrigin d x y]\<rparr> else l)"
| "layout_step (SetMirror d m) s l =
     (if s = 0 then l\<lparr>pending := pending l @ [SetMirror d m]\<rparr> else l)"
| "layout_step (SetEnabled d b) s l =
     (if s = 0 then l\<lparr>pending := pending l @ [SetEnabled d b]\<rparr> else l)"
| "layout_step (CompleteTx scope) s l =
     (if s = 0 then (fold apply_change (pending l) l)\<lparr>pending := []\<rparr> else l\<lparr>pending := []\<rparr>)"
| "layout_step _ s l = l"

primrec layout_of :: "hist \<Rightarrow> layout" where
  "layout_of [] = \<lparr>pending = [], placed = Map.empty, disabled = {}, mirrors = Map.empty\<rparr>"
| "layout_of (e # h) = (case e of Cg c s \<Rightarrow> layout_step c s (layout_of h) | _ \<Rightarrow> layout_of h)"

definition enable_refused :: "hist \<Rightarrow> display set" where
  "enable_refused h = {d. \<exists>s. s \<noteq> 0 \<and> Cg (SetEnabled d True) s \<in> set h}"

section \<open>Sessions\<close>

text \<open>Engage, assert the blanking any number of times while the client is there, disengage. An
  engagement that fails ends the session.\<close>

definition captured_session :: "display_env \<Rightarrow> display \<Rightarrow> nat \<Rightarrow> hist \<Rightarrow> hist" where
  "captured_session k vd n h =
     (case captured_install k vd h of
        (h1, Inl e) \<Rightarrow> h1
      | (h1, Inr p) \<Rightarrow> captured_drop k p (((\<lambda>h. fst (captured_reassert k p h)) ^^ n) h1))"

definition shielded_session :: "display_env \<Rightarrow> ustr option \<Rightarrow> display \<Rightarrow> nat \<Rightarrow> hist \<Rightarrow> hist" where
  "shielded_session k keep vd n h =
     (case shielded_install k keep vd h of
        (h1, Inl e) \<Rightarrow> h1
      | (h1, Inr p) \<Rightarrow> shielded_drop k p (((\<lambda>h. fst (shielded_reassert k p h)) ^^ n) h1))"

definition detached_session :: "display_env \<Rightarrow> display \<Rightarrow> bool \<times> hist \<Rightarrow> bool \<times> hist" where
  "detached_session k vd s =
     (case detached_install k vd (snd s) of
        (h1, Inl e) \<Rightarrow> (fst s, h1)
      | (h1, Inr p) \<Rightarrow> detached_drop k p (fst s, h1))"

section \<open>Histories that an observation does not see\<close>

text \<open>
  Each observation is unchanged by the calls of other kinds. An operation whose history only grows by such
  calls is \<open>quiet\<close> for the observation.
\<close>

locale observation =
  fixes obs :: "hist \<Rightarrow> 'o"
    and relevant :: "cg_call \<Rightarrow> bool"
    and shield_relevant :: bool
  assumes cg_quiet: "\<not> relevant c \<Longrightarrow> obs (Cg c s # h) = obs h"
    and slept_quiet: "obs (Slept n # h) = obs h"
    and gather_quiet: "obs (GatherLater d # h) = obs h"
    and shield_quiet: "\<not> shield_relevant \<Longrightarrow> obs (Shield f r # h) = obs h"
begin

lemma slept_obs: "obs h = o' \<Longrightarrow> obs (Slept n # h) = o'"
  by (simp add: slept_quiet)

lemma cg_fst_quiet: "\<not> relevant c \<Longrightarrow> obs h = o' \<Longrightarrow> obs (fst (cg k c h)) = o'"
  by (simp add: cg_def cg_quiet)

lemma cg_ignore_quiet: "\<not> relevant c \<Longrightarrow> obs h = o' \<Longrightarrow> obs (cg_ignore k c h) = o'"
  by (simp add: cg_ignore_def cg_fst_quiet)

lemma cg_try_quiet: "\<not> relevant c \<Longrightarrow> obs h = o' \<Longrightarrow> obs (fst (cg_try k c h)) = o'"
  by (simp add: cg_try_def cg_def cg_quiet)

lemma and_then_quiet:
  assumes "obs (fst r) = o'" "\<And>h a. obs h = o' \<Longrightarrow> obs (fst (f h a)) = o'"
  shows "obs (fst (and_then r f)) = o'"
  using assms by (auto simp: and_then_def split: prod.split sum.split)

lemma fold_quiet:
  assumes "\<And>x h. obs h = o' \<Longrightarrow> obs (f x h) = o'" "obs h = o'"
  shows "obs (fold f xs h) = o'"
  using assms(2) by (induction xs arbitrary: h) (auto simp: assms(1))

lemma hide_quiet: "\<not> shield_relevant \<Longrightarrow> obs h = o' \<Longrightarrow> obs (hide_shields k h) = o'"
  by (simp add: hide_shields_def shield_op_def Let_def shield_quiet)

lemma show_quiet: "\<not> shield_relevant \<Longrightarrow> obs h = o' \<Longrightarrow> obs (fst (show_shields k ids h)) = o'"
  by (simp add: show_shields_def shield_op_def Let_def shield_quiet)

end

text \<open>An observation that does not look at origins and transactions, as the ones of tokens, gamma
  tables and shields.\<close>

locale no_layout_observation = observation +
  assumes tx_irrelevant:
    "\<not> relevant BeginTx" "\<not> relevant (CompleteTx scope)" "\<not> relevant (SetOrigin d x y)"
    "\<not> relevant (SetMirror d m)"
begin

lemma move_aside_quiet: "obs h = o' \<Longrightarrow> obs (fst (move_aside k ts x h)) = o'"
  by (induction ts arbitrary: x h) (auto intro!: and_then_quiet cg_try_quiet tx_irrelevant)

lemma move_tx_quiet: "obs h = o' \<Longrightarrow> obs (fst (move_tx k vd w ts scope h)) = o'"
  unfolding move_tx_def
  by (intro and_then_quiet cg_try_quiet move_aside_quiet tx_irrelevant)

lemma set_origins_quiet: "obs h = o' \<Longrightarrow> obs (set_origins k ts h) = o'"
  unfolding set_origins_def
  by (rule fold_quiet) (auto simp: tx_irrelevant split: prod.split intro!: cg_ignore_quiet)

lemma restore_tx_quiet: "obs h = o' \<Longrightarrow> obs (fst (restore_tx k ts vd old scope h)) = o'"
  by (auto simp: restore_tx_def cg_def cg_quiet tx_irrelevant set_origins_quiet
      simp del: fold_simps split: prod.split)

lemma break_mirrors_quiet: "obs h = o' \<Longrightarrow> obs (fst (break_mirrors k ds h)) = o'"
  by (induction ds arbitrary: h) (auto intro!: and_then_quiet cg_try_quiet tx_irrelevant)

lemma push_right_quiet: "obs h = o' \<Longrightarrow> obs (fst (push_right k ds x h)) = o'"
  by (induction ds arbitrary: x h) (auto intro!: and_then_quiet cg_try_quiet tx_irrelevant)

lemma remirror_quiet: "obs h = o' \<Longrightarrow> obs (remirror_onto_vd k vd ds h) = o'"
proof -
  assume h: "obs h = o'"
  have "obs (set_mirrors k vd ds h1) = o'" if "obs h1 = o'" for h1
    unfolding set_mirrors_def using that
    by (intro fold_quiet cg_ignore_quiet tx_irrelevant)
  with h show ?thesis
    by (auto simp: remirror_onto_vd_def cg_def cg_quiet tx_irrelevant
        intro!: cg_ignore_quiet split: prod.split)
qed

lemma separate_panels_quiet: "obs h = o' \<Longrightarrow> obs (fst (separate_panels k vd w ds h)) = o'"
proof -
  assume h: "obs h = o'"
  have u: "obs (fst (unmirror_tx k ds h)) = o'"
    unfolding unmirror_tx_def using h
    by (intro and_then_quiet cg_try_quiet break_mirrors_quiet tx_irrelevant)
  have d: "obs (fst (displace_tx k vd w ds h1)) = o'" if "obs h1 = o'" for h1
    unfolding displace_tx_def using that
    by (intro and_then_quiet cg_try_quiet push_right_quiet tx_irrelevant)
  have "obs (fst (and_then (unmirror_tx k ds h)
          (\<lambda>h _. case displace_tx k vd w ds h of (h', r) \<Rightarrow> (Slept 600 # h', Inr (r = Inr ())))
          :: hist \<times> (headless_error + bool))) = o'"
  proof (rule and_then_quiet [OF u])
    fix h1 a assume "obs h1 = o'"
    from d [OF this] show "obs (fst (case displace_tx k vd w ds h1 of
        (h', r) \<Rightarrow> (Slept 600 # h', Inr (r = Inr ()) :: headless_error + bool))) = o'"
      by (cases "displace_tx k vd w ds h1") (simp add: slept_quiet)
  qed
  with h show ?thesis by (simp add: separate_panels_def)
qed

end

interpretation tokens: no_layout_observation kept
  "\<lambda>c. case c of CaptureDisplay d \<Rightarrow> True | ReleaseDisplay d \<Rightarrow> True | _ \<Rightarrow> False" False
  by unfold_locales (auto simp: kept_def split: cg_call.splits)

interpretation gamma: no_layout_observation blackened
  "\<lambda>c. case c of BlackGamma d \<Rightarrow> True | RestoreGamma \<Rightarrow> True | _ \<Rightarrow> False" False
  by unfold_locales (auto split: cg_call.splits)

interpretation shields: no_layout_observation shields_asked "\<lambda>c. False" True
  by unfold_locales auto

section \<open>Captured displays\<close>

lemma kept_release_all: "kept (release_all k ts h) = kept h - fst ` set ts"
  unfolding release_all_def
  by (induction ts arbitrary: h) (auto simp: cg_ignore_def cg_def split: prod.splits)

lemma blackened_release_all: "blackened (release_all k ts h) = blackened h"
  unfolding release_all_def
  by (rule gamma.fold_quiet) (auto split: prod.split intro!: gamma.cg_ignore_quiet)

lemma kept_blacken_all: "kept (blacken_all k ts h) = kept h"
  unfolding blacken_all_def
  by (rule tokens.fold_quiet) (auto split: prod.split intro!: tokens.cg_ignore_quiet)

lemma capture_all_tokens:
  assumes "capture_all k ts hl h = (h', r)" "kept h = fst ` set hl"
  shows "blackened h' = blackened h
    \<and> (case r of Inl e \<Rightarrow> kept h' = {} | Inr hl' \<Rightarrow> hl' = hl @ ts \<and> kept h' = fst ` set hl')"
  using assms
proof (induction ts arbitrary: hl h)
  case Nil
  then show ?case by auto
next
  case (Cons t ts)
  show ?case
  proof (cases "cg_status k h (CaptureDisplay (fst t)) = 0")
    case True
    let ?h = "Cg (CaptureDisplay (fst t)) 0 # h"
    have "capture_all k ts (hl @ [t]) ?h = (h', r)" "kept ?h = fst ` set (hl @ [t])"
      using Cons.prems True by (auto simp: cg_def)
    from Cons.IH [OF this] show ?thesis by (simp split: sum.splits)
  next
    case False
    then show ?thesis
      using Cons.prems by (auto simp: cg_def kept_release_all blackened_release_all)
  qed
qed

lemma fst_in_image: "(a, b) \<in> S \<Longrightarrow> a \<in> fst ` S"
  by force

lemma captured_install_tokens:
  assumes "captured_install k vd h = (h', r)" "kept h = {}" "blackened h = {}"
  shows "case r of Inl e \<Rightarrow> kept h' = {} \<and> blackened h' = {} | Inr p \<Rightarrow> kept h' = fst ` set (cp_captured p)"
proof (cases "active_displays k h")
  case (Inl e)
  with assms show ?thesis by (auto simp: captured_install_def Let_def)
next
  case (Inr actives)
  let ?ts = "physical_targets k vd actives h" and ?w = "width_of k h vd"
  show ?thesis
  proof (cases "?ts = []")
    case True
    with assms Inr show ?thesis by (auto simp: captured_install_def Let_def)
  next
    case False
    obtain h1 r1 where m: "move_tx k vd ?w ?ts ForSession h = (h1, r1)" by (rule prod.exhaust)
    have h1: "kept h1 = {}" "blackened h1 = {}"
      using tokens.move_tx_quiet [OF assms(2), of k vd ?w ?ts ForSession]
        gamma.move_tx_quiet [OF assms(3), of k vd ?w ?ts ForSession] m by simp_all
    obtain h2 r2 where c: "capture_all k ?ts [] (Slept 200 # h1) = (h2, r2)" by (rule prod.exhaust)
    have "kept (Slept 200 # h1) = fst ` set ([] :: targets)" using h1 by simp
    note c2 = capture_all_tokens [OF c this]
    show ?thesis
      using assms(1) Inr False m c c2 h1
      by (auto simp: captured_install_def Let_def and_then_def kept_blacken_all
          split: sum.splits intro: fst_in_image)
  qed
qed

lemma captured_reassert_kept: "kept (fst (captured_reassert k p h)) = kept h"
proof -
  have "kept (fst (fold (\<lambda>(d, _) (h, failed). case cg k (BlackGamma d) h of
          (h', e) \<Rightarrow> (h', if e \<noteq> 0 then failed + 1 else failed)) ts (h, n))) = kept h" for ts :: targets and n
    by (induction ts arbitrary: h n) (auto simp: cg_def split: prod.splits)
  then show ?thesis by (simp add: captured_reassert_def)
qed

lemma captured_reasserts_kept: "kept (((\<lambda>h. fst (captured_reassert k p h)) ^^ n) h) = kept h"
  by (induction n) (simp_all add: captured_reassert_kept)

lemma captured_drop_tokens:
  "kept (captured_drop k p h) = kept h - fst ` set (cp_captured p)" "blackened (captured_drop k p h) = {}"
  unfolding captured_drop_def
  by (rule tokens.restore_tx_quiet, simp add: kept_release_all)
    (rule gamma.restore_tx_quiet, simp add: blackened_release_all)

lemma captured_session_tokens:
  assumes "kept h = {}" "blackened h = {}"
  shows "kept (captured_session k vd n h) = {} \<and> blackened (captured_session k vd n h) = {}"
  using captured_install_tokens [OF _ assms, of k vd]
  by (auto simp: captured_session_def captured_drop_tokens captured_reasserts_kept
      split: prod.split sum.split)

section \<open>Shields\<close>

lemma hide_shields_asked: "\<not> shields_asked (hide_shields k h)"
  by (simp add: hide_shields_def shield_op_def Let_def)

lemma hide_remirror_asked: "\<not> shields_asked (remirror_onto_vd k vd ds (hide_shields k h))"
  using shields.remirror_quiet [of "hide_shields k h" False] by (simp add: hide_shields_asked)

lemma raise_shields_asked:
  "raise_shields k vd need broke h = (h', Inl e) \<Longrightarrow> \<not> shields_asked h'"
  by (auto simp: raise_shields_def hide_remirror_asked split: prod.splits if_splits)

lemma arrange_shielded_asked:
  "arrange_shielded k vd w ts broke h = (h', Inl e) \<Longrightarrow> \<not> shields_asked h'"
  by (auto simp: arrange_shielded_def hide_remirror_asked split: prod.splits sum.splits)

lemma shielded_install_asked:
  assumes "shielded_install k keep vd h = (h', Inl e)" "\<not> shields_asked h"
  shows "\<not> shields_asked h'"
proof (cases "find_targets k vd h")
  case (Inl e')
  with assms show ?thesis by (auto simp: shielded_install_def Let_def)
next
  case (Inr ts)
  let ?broke = "mirrored_panels k vd ts h" and ?w = "width_of k h vd"
  obtain h1 r1 where s: "separate_panels k vd ?w ?broke h = (h1, r1)" by (rule prod.exhaust)
  have h1: "\<not> shields_asked h1"
    using shields.separate_panels_quiet [of h False k vd ?w ?broke] assms(2) s by simp
  obtain h2 r2 where r: "raise_shields k vd (length ts) ?broke h1 = (h2, r2)" by (rule prod.exhaust)
  show ?thesis
    using assms(1) Inr s h1 r
    by (auto simp: shielded_install_def Let_def and_then_def
        dest: raise_shields_asked arrange_shielded_asked split: sum.splits if_splits prod.splits)
qed

lemma shielded_drop_asked: "\<not> shields_asked (shielded_drop k p h)"
  using shields.restore_tx_quiet [OF hide_remirror_asked [THEN iffD2 [OF eq_False]]]
  by (simp add: shielded_drop_def Let_def hide_remirror_asked)

lemma shielded_session_asked:
  "\<not> shields_asked h \<Longrightarrow> \<not> shields_asked (shielded_session k keep vd n h)"
  by (auto simp: shielded_session_def shielded_drop_asked dest: shielded_install_asked
      split: prod.split sum.split)

section \<open>Disabled displays\<close>

lemma and_then_cg:
  "and_then (cg_try k c h) f =
     (if cg_status k h c = 0 then f (Cg c 0 # h) ()
      else (Cg c (cg_status k h c) # h, Inl (Cg_Error c (cg_status k h c))))"
  by (simp add: and_then_def cg_try_def cg_def)

lemma and_then_pair [simp]: "and_then (h, Inr a) f = f h a" "and_then (h, Inl e) f = (h, Inl e)"
  by (simp_all add: and_then_def)

definition no_enable :: "cg_call \<Rightarrow> bool" where
  "no_enable c \<longleftrightarrow> (case c of SetEnabled d b \<Rightarrow> False | _ \<Rightarrow> True)"

text \<open>The displays \<open>D\<close> are disabled, and the open transaction does not change that.\<close>

definition settled :: "display set \<Rightarrow> hist \<Rightarrow> bool" where
  "settled D h \<longleftrightarrow> disabled (layout_of h) = D \<and> list_all no_enable (pending (layout_of h))"

lemma apply_changes_disabled: "list_all no_enable cs \<Longrightarrow> disabled (fold apply_change cs l) = disabled l"
proof (induction cs arbitrary: l)
  case Nil
  then show ?case by simp
next
  case (Cons c cs)
  then have "disabled (apply_change c l) = disabled l" by (cases c) (auto simp: no_enable_def)
  with Cons show ?case by simp
qed

lemma settled_begin: "settled (disabled (layout_of h)) (Cg BeginTx s # h)"
  by (simp add: settled_def)

lemma settled_cg: "settled D h \<Longrightarrow> no_enable c \<Longrightarrow> settled D (Cg c s # h)"
  by (cases c) (auto simp: settled_def no_enable_def apply_changes_disabled)

lemma settled_origin: "settled D h \<Longrightarrow> settled D (Cg (SetOrigin d x y) s # h)"
  by (rule settled_cg) (simp_all add: no_enable_def)

lemma settled_slept: "settled D (Slept n # h) \<longleftrightarrow> settled D h"
  by (simp add: settled_def)

lemma settled_disabled: "settled D h \<Longrightarrow> disabled (layout_of h) = D"
  by (simp add: settled_def)

lemma settled_move_aside: "settled D h \<Longrightarrow> settled D (fst (move_aside k ts x h))"
  by (induction ts arbitrary: x h) (auto simp: and_then_cg intro!: settled_origin)

lemma move_tx_disabled: "disabled (layout_of (fst (move_tx k vd w ts scope h))) = disabled (layout_of h)"
proof -
  let ?D = "disabled (layout_of h)"
  let ?h2 = "Cg (SetOrigin vd 0 0) 0 # Cg BeginTx 0 # h"
  have b: "settled ?D (Cg BeginTx s # h)" for s by (rule settled_begin)
  have o2: "settled ?D (Cg (SetOrigin vd 0 0) s # Cg BeginTx 0 # h)" for s
    by (rule settled_cg [OF b]) (simp add: no_enable_def)
  have a: "settled ?D (fst (move_aside k ts w ?h2))" by (rule settled_move_aside [OF o2])
  have c: "settled ?D (Cg (CompleteTx scope) s # fst (move_aside k ts w ?h2))" for s
    by (rule settled_cg [OF a]) (simp add: no_enable_def)
  have "settled ?D (fst (move_tx k vd w ts scope h))"
    using b o2 a c
    by (cases "move_aside k ts w ?h2")
      (auto simp: move_tx_def and_then_cg and_then_def cg_try_def cg_def split: sum.split)
  then show ?thesis by (rule settled_disabled)
qed

lemma settled_set_origins: "settled D h \<Longrightarrow> settled D (set_origins k ts h)"
  unfolding set_origins_def
  by (induction ts arbitrary: h) (auto simp: cg_ignore_def cg_def settled_origin)

lemma restore_tx_disabled:
  "disabled (layout_of (fst (restore_tx k ts vd old scope h))) = disabled (layout_of h)"
proof -
  let ?D = "disabled (layout_of h)"
  have b: "settled ?D (Cg BeginTx s # h)" for s by (rule settled_begin)
  have o2: "settled ?D (set_origins k us (Cg BeginTx s # h))" for us s by (rule settled_set_origins [OF b])
  have "settled ?D (Cg (CompleteTx scope) s' # set_origins k us (Cg BeginTx s # h))" for us s s'
    by (rule settled_cg [OF o2]) (simp add: no_enable_def)
  with b have "settled ?D (fst (restore_tx k ts vd old scope h))"
    by (auto simp: restore_tx_def cg_def)
  then show ?thesis by (rule settled_disabled)
qed

text \<open>Disabling: nothing is disabled until the transaction completes.\<close>

definition disabling :: "display set \<Rightarrow> display set \<Rightarrow> hist \<Rightarrow> bool" where
  "disabling D S h \<longleftrightarrow>
     disabled (layout_of h) = D \<and> list_all (\<lambda>c. \<exists>d \<in> S. c = SetEnabled d False) (pending (layout_of h))"

lemma apply_disables:
  "list_all (\<lambda>c. \<exists>d \<in> S. c = SetEnabled d False) cs
     \<Longrightarrow> disabled (fold apply_change cs l) \<subseteq> disabled l \<union> S"
proof (induction cs arbitrary: l)
  case Nil
  then show ?case by simp
next
  case (Cons c cs)
  then obtain d where "d \<in> S" "c = SetEnabled d False" by auto
  with Cons show ?case by fastforce
qed

lemma disable_all_disabling:
  "disabling D S h \<Longrightarrow> fst ` set ts \<subseteq> S \<Longrightarrow> disabling D S (fst (disable_all k ts h))"
proof (induction ts arbitrary: h)
  case Nil
  then show ?case by simp
next
  case (Cons t ts)
  let ?h = "\<lambda>s. Cg (SetEnabled (fst t) False) s # h"
  have "disabling D S (?h s)" for s using Cons.prems by (auto simp: disabling_def)
  with Cons show ?case by (auto simp: and_then_cg)
qed

lemma detached_install_disabled:
  assumes "detached_install k vd h = (h', r)"
  shows "case r of Inl e \<Rightarrow> disabled (layout_of h') = disabled (layout_of h)
                 | Inr p \<Rightarrow> disabled (layout_of h') \<subseteq> disabled (layout_of h) \<union> fst ` set (dp_detached p)"
proof (cases "\<not> enabler_loads k \<or> (\<exists>e. find_targets k vd h = Inl e)")
  case True
  then have "h' = h \<and> (\<exists>e. r = Inl e)"
    using assms by (cases "enabler_loads k") (auto simp: detached_install_def Let_def)
  then show ?thesis by auto
next
  case False
  then obtain ts where ts: "find_targets k vd h = Inr ts" by (cases "find_targets k vd h") auto
  let ?D = "disabled (layout_of h)" and ?S = "fst ` set ts"
  obtain h1 r1 where m: "move_tx k vd (width_of k h vd) ts ForAppOnly h = (h1, r1)" by (rule prod.exhaust)
  have h1: "disabled (layout_of h1) = ?D"
    using move_tx_disabled [of k vd "width_of k h vd" ts ForAppOnly h] m by simp
  have b: "disabling ?D ?S (Cg BeginTx s # Slept 200 # h1)" for s by (simp add: disabling_def h1)
  obtain h2 r2 where d: "disable_all k ts (Cg BeginTx 0 # Slept 200 # h1) = (h2, r2)" by (rule prod.exhaust)
  have h2: "disabling ?D ?S h2"
    using disable_all_disabling [OF b, of ts k 0] d by simp
  have c: "disabled (layout_of (Cg (CompleteTx ForAppOnly) s # h2)) = ?D" if "s \<noteq> 0" for s
    using h2 that by (simp add: disabling_def)
  have c0: "disabled (layout_of (Cg (CompleteTx ForAppOnly) 0 # h2)) \<subseteq> ?D \<union> ?S"
    using h2 apply_disables [of ?S "pending (layout_of h2)" "layout_of h2"] by (simp add: disabling_def)
  show ?thesis
    using assms False ts m d h1 h2 c c0
    by (auto simp: detached_install_def Let_def and_then_def cg_try_def cg_def disabling_def
        split: sum.splits if_splits)
qed

text \<open>Enabling again: every display is accepted into the transaction or refused.\<close>

lemma enable_all_pending:
  "\<exists>acc. pending (layout_of (enable_all k ts h)) = pending (layout_of h) @ map (\<lambda>d. SetEnabled d True) acc
     \<and> disabled (layout_of (enable_all k ts h)) = disabled (layout_of h)
     \<and> fst ` set ts \<subseteq> set acc \<union> enable_refused (enable_all k ts h)
     \<and> set h \<subseteq> set (enable_all k ts h)"
  unfolding enable_all_def
proof (induction ts arbitrary: h)
  case Nil
  show ?case by (intro exI [of _ "[]"]) simp
next
  case (Cons t ts)
  obtain d u where t: "t = (d, u)" by (rule prod.exhaust)
  let ?s = "cg_status k h (SetEnabled d True)"
  let ?h = "Cg (SetEnabled d True) ?s # h"
  let ?r = "fold (\<lambda>(d, _) h. cg_ignore k (SetEnabled d True) h) ts ?h"
  obtain acc where acc: "pending (layout_of ?r) = pending (layout_of ?h) @ map (\<lambda>d. SetEnabled d True) acc"
    "disabled (layout_of ?r) = disabled (layout_of ?h)"
    "fst ` set ts \<subseteq> set acc \<union> enable_refused ?r" "set ?h \<subseteq> set ?r"
    using Cons.IH [of ?h] by blast
  have r: "fold (\<lambda>(d, _) h. cg_ignore k (SetEnabled d True) h) (t # ts) h = ?r"
    by (simp add: t cg_ignore_def cg_def)
  have "d \<in> enable_refused ?r" if "?s \<noteq> 0" using acc(4) that by (auto simp: enable_refused_def)
  then show ?case
    unfolding r using acc t
    by (intro exI [of _ "if ?s = 0 then d # acc else acc"]) auto
qed

lemma apply_enables:
  "disabled (fold apply_change (map (\<lambda>d. SetEnabled d True) acc) l) = disabled l - set acc"
  by (induction acc arbitrary: l) auto

lemma enable_refused_mono: "set h \<subseteq> set h' \<Longrightarrow> enable_refused h \<subseteq> enable_refused h'"
  by (auto simp: enable_refused_def)

lemma enable_attempts_disabled:
  assumes "enable_attempts k ts n h = (h', ok)"
  shows "set h \<subseteq> set h' \<and>
    (if ok then disabled (layout_of h') \<subseteq> disabled (layout_of h) - fst ` set ts \<union> enable_refused h'
     else disabled (layout_of h') = disabled (layout_of h))"
  using assms
proof (induction n arbitrary: h)
  case 0
  then show ?case by simp
next
  case (Suc n)
  let ?e = "cg_status k h BeginTx"
  let ?b = "Cg BeginTx ?e # h"
  let ?a = "enable_all k ts ?b"
  let ?c = "cg_status k ?a (CompleteTx ForAppOnly)"
  let ?d = "Cg (CompleteTx ForAppOnly) ?c # ?a"
  obtain acc where acc: "pending (layout_of ?a) = map (\<lambda>d. SetEnabled d True) acc"
    "disabled (layout_of ?a) = disabled (layout_of h)" "fst ` set ts \<subseteq> set acc \<union> enable_refused ?a"
    "set ?b \<subseteq> set ?a"
    using enable_all_pending [of k ts ?b] by auto
  have again: ?case if "enable_attempts k ts n h1 = (h', ok)" "set h \<subseteq> set h1"
    "disabled (layout_of h1) = disabled (layout_of h)" for h1
    using Suc.IH [OF that(1)] that(2,3) by (cases ok; simp; blast)
  show ?case
  proof (cases "?e = 0 \<and> ?c = 0")
    case True
    then have "h' = ?d" "ok" using Suc.prems by (auto simp: Let_def cg_def)
    moreover have "disabled (layout_of ?d) = disabled (layout_of h) - set acc"
      using acc(1,2) conjunct2 [OF True] by (simp only: layout_of.simps event.case layout_step.simps
          if_True apply_enables layout.simps layout.update_convs) (simp add: apply_enables)
    moreover have "enable_refused ?a \<subseteq> enable_refused ?d" by (rule enable_refused_mono) auto
    ultimately show ?thesis using acc by auto
  next
    case False
    let ?f = "\<lambda>h. if 0 < n then Slept 2000 # h else h"
    have "enable_attempts k ts n (?f (if ?e \<noteq> 0 then ?b else ?d)) = (h', ok)"
      using Suc.prems False by (auto simp: Let_def cg_def split: if_splits)
    then show ?thesis
      by (rule again) (use False acc in auto)
  qed
qed

lemma set_origins_grows: "set h \<subseteq> set (set_origins k ts h)"
  unfolding set_origins_def by (induction ts arbitrary: h) (fastforce simp: cg_ignore_def cg_def)+

lemma restore_tx_grows: "set h \<subseteq> set (fst (restore_tx k ts vd old scope h))"
  using set_origins_grows [of "Cg BeginTx (cg_status k h BeginTx) # h" k "ts @ [(vd, old)]"]
  by (auto simp: restore_tx_def cg_def)

lemma detached_drop_disabled:
  assumes "detached_drop k p (f, h) = (f', h')" "disabled (layout_of h) \<subseteq> D \<union> fst ` set (dp_detached p)"
  shows "f' \<or> disabled (layout_of h') \<subseteq> D \<union> enable_refused h'"
proof -
  obtain h1 ok where a: "enable_attempts k (dp_detached p) MAX_ENABLE_ATTEMPTS h = (h1, ok)"
    by (rule prod.exhaust)
  let ?r = "fst (restore_tx k (dp_detached p) (dp_virtual p) (dp_virtual_old p) ForAppOnly (Slept 200 # h1))"
  note e = enable_attempts_disabled [OF a]
  have "enable_refused h1 \<subseteq> enable_refused ?r"
    by (rule enable_refused_mono) (use restore_tx_grows [of "Slept 200 # h1"] in fastforce)
  moreover have "disabled (layout_of ?r) = disabled (layout_of h1)" by (simp add: restore_tx_disabled)
  ultimately show ?thesis
    using assms a e by (cases ok) (auto simp: detached_drop_def)
qed

lemma and_then_grows:
  assumes "set h \<subseteq> set (fst r)" "\<And>h1 a. set h \<subseteq> set h1 \<Longrightarrow> set h \<subseteq> set (fst (f h1 a))"
  shows "set h \<subseteq> set (fst (and_then r f))"
proof -
  obtain h1 q where r: "r = (h1, q)" by (rule prod.exhaust)
  show ?thesis
  proof (cases q)
    case (Inl e)
    with r assms(1) show ?thesis by (simp add: and_then_def)
  next
    case (Inr a)
    with r assms(1) assms(2) [of h1 a] show ?thesis by (simp add: and_then_def)
  qed
qed

lemma cg_try_grows: "set h \<subseteq> set h1 \<Longrightarrow> set h \<subseteq> set (fst (cg_try k c h1))"
  by (auto simp: cg_try_def cg_def)

lemma move_aside_grows: "set h \<subseteq> set h1 \<Longrightarrow> set h \<subseteq> set (fst (move_aside k ts x h1))"
  by (induction ts arbitrary: x h1) (simp_all add: and_then_grows cg_try_grows)

lemma disable_all_grows: "set h \<subseteq> set h1 \<Longrightarrow> set h \<subseteq> set (fst (disable_all k ts h1))"
  by (induction ts arbitrary: h1) (simp_all add: and_then_grows cg_try_grows)

lemma detached_install_grows: "set h \<subseteq> set (fst (detached_install k vd h))"
proof -
  have "set h \<subseteq> set (fst (and_then (move_tx k vd w ts ForAppOnly h) (\<lambda>h _.
                 and_then (cg_try k BeginTx (Slept 200 # h)) (\<lambda>h _.
                   and_then (disable_all k ts h) (\<lambda>h _.
                     and_then (cg_try k (CompleteTx ForAppOnly) h) (\<lambda>h _. (h, q)))))))"
    for w ts and q :: "headless_error + detached_primary"
    unfolding move_tx_def
    by (intro and_then_grows cg_try_grows move_aside_grows disable_all_grows) auto
  then show ?thesis by (simp add: detached_install_def Let_def split: sum.split)
qed

lemma detached_drop_grows: "set (snd s) \<subseteq> set (snd (detached_drop k p s))"
proof -
  obtain h1 ok where a: "enable_attempts k (dp_detached p) MAX_ENABLE_ATTEMPTS (snd s) = (h1, ok)"
    by (rule prod.exhaust)
  then show ?thesis
    using enable_attempts_disabled [OF a]
      restore_tx_grows [of "Slept 200 # h1" k "dp_detached p" "dp_virtual p" "dp_virtual_old p" ForAppOnly]
    by (cases ok) (auto simp: detached_drop_def)
qed

lemma detached_session_disabled:
  assumes "detached_session k vd (f, h) = (f', h')" "f \<or> disabled (layout_of h) \<subseteq> enable_refused h"
  shows "f' \<or> disabled (layout_of h') \<subseteq> enable_refused h'"
proof -
  obtain h1 r where i: "detached_install k vd h = (h1, r)" by (rule prod.exhaust)
  note d = detached_install_disabled [OF i]
  have g: "set h \<subseteq> set h1" using detached_install_grows [of h k vd] i by simp
  show ?thesis
  proof (cases r)
    case (Inl e)
    then show ?thesis
      using assms i d enable_refused_mono [OF g] by (auto simp: detached_session_def)
  next
    case (Inr p)
    then have drop: "detached_drop k p (f, h1) = (f', h')"
      using assms(1) i by (simp add: detached_session_def)
    have "f \<longrightarrow> f'" using drop by (auto simp: detached_drop_def split: prod.splits bool.splits)
    moreover have "enable_refused h \<subseteq> enable_refused h'"
      by (rule enable_refused_mono) (use g detached_drop_grows [of "(f, h1)" k p] drop in auto)
    ultimately show ?thesis
      using detached_drop_disabled [OF drop, of "disabled (layout_of h)"] assms(2) d Inr by auto
  qed
qed

text \<open>C7. Whatever the display system and the shield helper answer at any moment, and however many
  clients come and go, in each of the three headless modes of \<open>src/src/virtual_display/mod.rs\<close>: after
  a session, one whose engagement failed halfway included, the only displays still held captured are
  those whose release the display system refused, and no gamma table is black; shields can be up
  only when the frame that lowers them was the last one sent and failed (they stay until the helper
  ends with the process, as the source says); and a display that was disabled is enabled again,
  unless the flag that makes the process exit is raised or the system refused the call that enables
  it. (The blanking that is sent again from a thread of its own counts as sent at that moment.)\<close>

theorem headless_leaves_nothing_dark:
  "held (fold (captured_session k vd) ns []) \<subseteq> release_refused (fold (captured_session k vd) ns [])
   \<and> blackened (fold (captured_session k vd) ns []) = {}
   \<and> (shields_up (fold (shielded_session k keep vd) ns []) \<longrightarrow>
        hide_failed (fold (shielded_session k keep vd) ns []))
   \<and> (case (detached_session k vd ^^ m) (False, []) of
        (flag, h) \<Rightarrow> flag \<or> disabled (layout_of h) \<subseteq> enable_refused h)"
proof (intro conjI)
  have "kept (fold (captured_session k vd) ns h) = {} \<and> blackened (fold (captured_session k vd) ns h) = {}"
    if "kept h = {}" "blackened h = {}" for h
    using that by (induction ns arbitrary: h) (simp_all add: captured_session_tokens)
  from this [of "[]"]
  show "held (fold (captured_session k vd) ns []) \<subseteq> release_refused (fold (captured_session k vd) ns [])"
    "blackened (fold (captured_session k vd) ns []) = {}"
    by (simp_all add: kept_def)
  have "\<not> shields_asked (fold (shielded_session k keep vd) ns h)" if "\<not> shields_asked h" for h
    using that by (induction ns arbitrary: h) (simp_all add: shielded_session_asked)
  from this [of "[]"]
  show "shields_up (fold (shielded_session k keep vd) ns []) \<longrightarrow> hide_failed (fold (shielded_session k keep vd) ns [])"
    using shields_up_asked by simp
  show "case (detached_session k vd ^^ m) (False, []) of
          (flag, h) \<Rightarrow> flag \<or> disabled (layout_of h) \<subseteq> enable_refused h"
  proof (induction m)
    case 0
    then show ?case by simp
  next
    case (Suc m)
    obtain f h where s: "(detached_session k vd ^^ m) (False, []) = (f, h)" by (rule prod.exhaust)
    obtain f' h' where t: "detached_session k vd (f, h) = (f', h')" by (rule prod.exhaust)
    show ?case using detached_session_disabled [OF t] Suc s t by simp
  qed
qed

section \<open>The arrangement is restored\<close>

text \<open>Where the display system accepts every call.\<close>

definition accepts_all :: "display_env \<Rightarrow> bool" where
  "accepts_all k \<longleftrightarrow> (\<forall>h c. cg_status k h c = 0)"

lemma accepts_cg: "accepts_all k \<Longrightarrow> cg k c h = (Cg c 0 # h, 0)"
  by (simp add: accepts_all_def cg_def)

lemma accepts_try: "accepts_all k \<Longrightarrow> and_then (cg_try k c h) f = f (Cg c 0 # h) ()"
  by (simp add: accepts_all_def and_then_cg)

definition place_all :: "targets \<Rightarrow> (display \<Rightarrow> origin option) \<Rightarrow> display \<Rightarrow> origin option" where
  "place_all ts m = fold (\<lambda>(d, o') m. m(d \<mapsto> o')) ts m"

lemma set_origins_pending:
  assumes "accepts_all k"
  shows "layout_of (set_origins k ts h) =
           (layout_of h)\<lparr>pending := pending (layout_of h) @ map (\<lambda>(d, x, y). SetOrigin d x y) ts\<rparr>"
  unfolding set_origins_def
  by (induction ts arbitrary: h) (auto simp: cg_ignore_def accepts_cg [OF assms])

lemma apply_origins:
  "placed (fold apply_change (map (\<lambda>(d, x, y). SetOrigin d x y) ts) l) = place_all ts (placed l)"
  unfolding place_all_def by (induction ts arbitrary: l) auto

lemma restore_tx_places:
  assumes "accepts_all k"
  shows "placed (layout_of (fst (restore_tx k ts vd old scope h))) =
           place_all (ts @ [(vd, old)]) (placed (layout_of h))"
  using apply_origins [of "ts @ [(vd, old)]"]
  by (simp add: restore_tx_def accepts_cg [OF assms] set_origins_pending [OF assms])

lemma place_all_other: "d \<notin> fst ` set ts \<Longrightarrow> place_all ts m d = m d"
  unfolding place_all_def by (induction ts arbitrary: m) auto

lemma place_all_in:
  "distinct (map fst ts) \<Longrightarrow> (d, o') \<in> set ts \<Longrightarrow> place_all ts m d = Some o'"
proof (induction ts arbitrary: m)
  case Nil
  then show ?case by simp
next
  case (Cons t ts)
  show ?case
  proof (cases "(d, o') = t")
    case True
    with Cons.prems(1) have "d \<notin> fst ` set ts" by (cases t) simp
    then have "place_all ts (m(d \<mapsto> o')) d = Some o'" by (simp add: place_all_other)
    with True show ?thesis by (auto simp: place_all_def)
  next
    case False
    with Cons show ?thesis by (auto simp: place_all_def split: prod.split dest: fst_in_image)
  qed
qed

lemma accepts_move_aside:
  "accepts_all k \<Longrightarrow> \<exists>h'. move_aside k ts x h = (h', Inr ())"
  by (induction ts arbitrary: x h) (auto simp: accepts_try)

lemma accepts_move_tx:
  assumes "accepts_all k"
  shows "\<exists>h'. move_tx k vd w ts scope h = (h', Inr ())"
proof -
  obtain h1 where "move_aside k ts w (Cg (SetOrigin vd 0 0) 0 # Cg BeginTx 0 # h) = (h1, Inr ())"
    using accepts_move_aside [OF assms] by blast
  then show ?thesis
    by (simp add: move_tx_def accepts_try [OF assms] cg_try_def accepts_cg [OF assms])
qed

lemma accepts_capture_all:
  "accepts_all k \<Longrightarrow> \<exists>h'. capture_all k ts hl h = (h', Inr (hl @ ts))"
proof (induction ts arbitrary: hl h)
  case Nil
  then show ?case by simp
next
  case (Cons t ts)
  then show ?case using Cons.IH [of "hl @ [t]"] by (simp add: accepts_cg)
qed

lemma accepts_disable_all: "accepts_all k \<Longrightarrow> \<exists>h'. disable_all k ts h = (h', Inr ())"
  by (induction ts arbitrary: h) (auto simp: accepts_try)

lemma physical_targets_in:
  "distinct actives \<Longrightarrow> distinct (map fst (physical_targets k vd actives h @ [(vd, origin_of k h vd)]))"
  by (simp add: physical_targets_def o_def)

lemma restored_places:
  assumes "accepts_all k" "distinct actives" "d = vd \<or> d \<in> set actives"
  shows "placed (layout_of (fst (restore_tx k (physical_targets k vd actives h0) vd (origin_of k h0 vd) scope h))) d
           = Some (origin_of k h0 d)"
  unfolding restore_tx_places [OF assms(1)]
  by (rule place_all_in [OF physical_targets_in [OF assms(2)]])
    (use assms(3) in \<open>auto simp: physical_targets_def\<close>)

lemma captured_session_restores:
  assumes "accepts_all k" "active_displays k h = Inr actives" "distinct actives"
    and "\<exists>d \<in> set actives. d \<noteq> vd" "d = vd \<or> d \<in> set actives"
  shows "placed (layout_of (captured_session k vd n h)) d = Some (origin_of k h d)"
proof -
  let ?ts = "physical_targets k vd actives h"
  have ne: "?ts \<noteq> []" using assms(4) by (auto simp: physical_targets_def filter_empty_conv)
  obtain h1 where m: "move_tx k vd (width_of k h vd) ?ts ForSession h = (h1, Inr ())"
    using accepts_move_tx [OF assms(1)] by blast
  obtain h2 where c: "capture_all k ?ts [] (Slept 200 # h1) = (h2, Inr ?ts)"
    using accepts_capture_all [OF assms(1), of ?ts "[]"] by auto
  have "captured_install k vd h =
      (blacken_all k ?ts h2, Inr \<lparr>cp_virtual = vd, cp_virtual_old = origin_of k h vd, cp_captured = ?ts\<rparr>)"
    using ne m c assms(2) by (simp add: captured_install_def Let_def and_then_def)
  then show ?thesis
    by (simp add: captured_session_def captured_drop_def restored_places [OF assms(1,3,5)])
qed

lemma detached_session_restores:
  assumes "accepts_all k" "enabler_loads k" "active_displays k h = Inr actives" "distinct actives"
    and "\<exists>d \<in> set actives. d \<noteq> vd" "d = vd \<or> d \<in> set actives"
  shows "placed (layout_of (snd (detached_session k vd (f, h)))) d = Some (origin_of k h d)"
proof -
  let ?ts = "physical_targets k vd actives h"
  have ne: "?ts \<noteq> []" using assms(5) by (auto simp: physical_targets_def filter_empty_conv)
  have ft: "find_targets k vd h = Inr ?ts" using ne assms(3) by (simp add: find_targets_def Let_def)
  obtain h1 where m: "move_tx k vd (width_of k h vd) ?ts ForAppOnly h = (h1, Inr ())"
    using accepts_move_tx [OF assms(1)] by blast
  obtain h2 where c: "disable_all k ?ts (Cg BeginTx 0 # Slept 200 # h1) = (h2, Inr ())"
    using accepts_disable_all [OF assms(1)] by blast
  have "detached_install k vd h =
      (Cg (CompleteTx ForAppOnly) 0 # h2,
       Inr \<lparr>dp_virtual = vd, dp_virtual_old = origin_of k h vd, dp_detached = ?ts\<rparr>)"
    using ft assms(2) m c by (simp add: detached_install_def Let_def accepts_try [OF assms(1)])
  then show ?thesis
    by (simp add: detached_session_def detached_drop_def MAX_ENABLE_ATTEMPTS_def numeral_3_eq_3
        accepts_cg [OF assms(1)] restored_places [OF assms(1,4,6)])
qed

definition override_session :: "display_env \<Rightarrow> display \<Rightarrow> hist \<Rightarrow> hist" where
  "override_session k vd h =
     (case override_install k vd h of
        (h1, Inr (Some p)) \<Rightarrow> fst (override_drop k p h1)
      | (h1, _) \<Rightarrow> h1)"

lemma override_session_restores:
  assumes "accepts_all k" "main_display k h \<noteq> vd" "d = vd \<or> d = main_display k h"
  shows "placed (layout_of (override_session k vd h)) d = Some (origin_of k h d)"
proof -
  let ?ts = "[(main_display k h, origin_of k h (main_display k h))]"
  have "placed (layout_of (override_session k vd h)) d =
      place_all (?ts @ [(vd, origin_of k h vd)]) (placed (layout_of (fst (override_install k vd h)))) d"
    using assms(2)
    by (simp add: override_session_def override_install_def override_drop_def Let_def
        accepts_try [OF assms(1)] restore_tx_places [OF assms(1)])
  also have "\<dots> = Some (origin_of k h d)"
    by (rule place_all_in) (use assms(2,3) in auto)
  finally show ?thesis .
qed

text \<open>C19. When the display system accepts the calls, a session gives every display back the place it
  had: making the virtual display the main one, capturing the physical displays and disabling them all
  end with each of the displays, the virtual one included, at the origin it had before
  (\<open>PrimaryOverride\<close>, \<open>CapturedPrimary\<close> and \<open>DetachedPrimary\<close> of \<open>src/src/virtual_display/mod.rs\<close>).\<close>

theorem headless_restores_arrangement:
  assumes "accepts_all k" "enabler_loads k" "active_displays k h = Inr actives" "distinct actives"
    and "main_display k h \<in> set actives" "main_display k h \<noteq> vd" "d = vd \<or> d \<in> set actives"
  shows "placed (layout_of (captured_session k vd n h)) d = Some (origin_of k h d)
    \<and> placed (layout_of (snd (detached_session k vd (flag, h)))) d = Some (origin_of k h d)
    \<and> (d = vd \<or> d = main_display k h \<longrightarrow> placed (layout_of (override_session k vd h)) d = Some (origin_of k h d))"
  using captured_session_restores [OF assms(1,3,4) _ assms(7)]
    detached_session_restores [OF assms(1,2,3,4) _ assms(7)]
    override_session_restores [OF assms(1,6)] assms(5,6)
  by blast

definition two_displays :: display_env where
  "two_displays =
     \<lparr>cg_status = \<lambda>h c. 0,
      helper_at = \<lambda>h. \<lparr>h_connect = \<lambda>n. None, h_write = True, h_flush = True, h_reply = Some [0, 0, 1]\<rparr>,
      main_display = \<lambda>h. 1,
      display_bounds = \<lambda>h d. \<lparr>r_x = (if d = 1 then 0 else 1728), r_y = 0, r_w = 1728, r_h = 1117\<rparr>,
      active_displays = \<lambda>h. Inr [1, 7], online_displays = \<lambda>h. Inr [1, 7], is_active = \<lambda>h d. True,
      mirrors_display = \<lambda>h d. 0, enabler_loads = True, create_display = \<lambda>w h z. Some 7, clock_ms = \<lambda>h. 0\<rparr>"

lemma two_displays_simps:
  "accepts_all two_displays" "enabler_loads two_displays" "active_displays two_displays [] = Inr [1, 7]"
  "main_display two_displays [] = 1" "origin_of two_displays [] 7 = (1728, 0)"
  by (simp_all add: accepts_all_def two_displays_def origin_of_def as_i32_def clamp_def f64_round_def)

theorem headless_restores_arrangement_witness:
  "placed (layout_of (captured_session two_displays 7 2 [])) 7 = Some (1728, 0)
   \<and> placed (layout_of (snd (detached_session two_displays 7 (False, [])))) 7 = Some (1728, 0)
   \<and> placed (layout_of (override_session two_displays 7 [])) 7 = Some (1728, 0)"
  using headless_restores_arrangement [of two_displays "[]" "[1, 7]" 7 7 2 False] two_displays_simps
  by simp

text \<open>A helper that raises the shields and does not answer any more.\<close>

definition silent_helper :: display_env where
  "silent_helper = two_displays\<lparr>helper_at := \<lambda>h.
     \<lparr>h_connect = \<lambda>n. None, h_write = True, h_flush = True,
      h_reply = if h = [] then Some [0, 0, 1] else None\<rparr>\<rparr>"

theorem headless_leaves_nothing_dark_witness:
  "hide_failed (fold (shielded_session silent_helper None 7) [0] [])
   \<and> blackened (fold (captured_session silent_helper 7) [2] []) = {}"
proof -
  have s: "shield_send (helper_at silent_helper []) f = Inr 1"
    "shield_send (helper_at silent_helper (e # h)) f = Inl No_reply" for f e h
    by (simp_all add: silent_helper_def shield_send_def shield_connect_def CONNECT_ATTEMPTS_def
        numeral_eq_Suc be_value_def)
  have f: "find_targets silent_helper 7 [] = Inr [(1, origin_of silent_helper [] 1)]"
    "mirrored_panels silent_helper 7 [(d, x)] [] = []" for d x
    by (simp_all add: find_targets_def physical_targets_def mirrored_panels_def silent_helper_def two_displays_def Let_def)
  have i: "shielded_install silent_helper None 7 [] = ([Shield (encode_show [7]) (Inr 1)],
      Inr \<lparr>sp_virtual = 7, sp_virtual_old = origin_of silent_helper [] 7,
        sp_shielded = [(1, origin_of silent_helper [] 1)], sp_moved = False, sp_broke_mirror = []\<rparr>)"
    by (simp add: shielded_install_def f separate_panels_def raise_shields_def SHOW_BACKOFF_MS_def
        show_shields_def shield_op_def s shield_keeps_physical_main_def Let_def)
  have "shields_up (fold (shielded_session silent_helper None 7) [0] [])"
    by (simp add: shielded_session_def i shielded_drop_def hide_shields_def shield_op_def s
        remirror_onto_vd_def encode_show_def encode_hide_def Let_def)
  with headless_leaves_nothing_dark [of silent_helper 7 "[0]" None 0]
    headless_leaves_nothing_dark [of silent_helper 7 "[2]" None 0]
  show ?thesis by blast
qed

section \<open>What the mechanisms do not undo\<close>

text \<open>A capture that is refused after the arrangement was moved gives up without moving it back: the
  virtual display stays at the origin, committed for the session.\<close>

lemma two_displays_with:
  "cg_status (two_displays\<lparr>cg_status := f\<rparr>) = f"
  "is_active two_displays h d" "enabler_loads two_displays" "active_displays two_displays h = Inr [1, 7]"
  "width_of (two_displays\<lparr>cg_status := f\<rparr>) h d = 1728"
  "origin_of (two_displays\<lparr>cg_status := f\<rparr>) h d = (if d = 1 then 0 else 1728, 0)"
  by (simp_all add: two_displays_def width_of_def origin_of_def as_i32_def clamp_def f64_round_def)

definition capture_refused :: display_env where
  "capture_refused =
     two_displays\<lparr>cg_status := \<lambda>h c. if c = CaptureDisplay 1 then 1004 else 0\<rparr>"

lemma failed_capture_keeps_arrangement:
  "snd (captured_install capture_refused 7 []) = Inl (Cg_Error (CaptureDisplay 1) 1004)
   \<and> origin_of capture_refused [] 7 = (1728, 0)
   \<and> placed (layout_of (captured_session capture_refused 7 n [])) 7 = Some (0, 0)"
proof -
  have i: "captured_install capture_refused 7 [] =
      ([Cg (CaptureDisplay 1) 1004, Slept 200, Cg (CompleteTx ForSession) 0, Cg (SetOrigin 1 1728 0) 0,
        Cg (SetOrigin 7 0 0) 0, Cg BeginTx 0], Inl (Cg_Error (CaptureDisplay 1) 1004))"
    by (simp add: capture_refused_def captured_install_def Let_def physical_targets_def move_tx_def
        and_then_cg cg_try_def cg_def release_all_def two_displays_with)
  show ?thesis by (simp add: captured_session_def i) (simp add: capture_refused_def two_displays_with)
qed

text \<open>An enable that is refused inside a transaction that completes leaves the panel disabled, and the
  flag that would restart the process is not raised.\<close>

definition enable_refused_once :: display_env where
  "enable_refused_once =
     two_displays\<lparr>cg_status := \<lambda>h c. if c = SetEnabled 1 True then 1001 else 0\<rparr>"

lemma refused_enable_not_flagged:
  "case detached_session enable_refused_once 7 (False, []) of
     (flag, h) \<Rightarrow> \<not> flag \<and> 1 \<in> disabled (layout_of h)"
proof -
  have i: "detached_install enable_refused_once 7 [] =
      ([Cg (CompleteTx ForAppOnly) 0, Cg (SetEnabled 1 False) 0, Cg BeginTx 0, Slept 200,
        Cg (CompleteTx ForAppOnly) 0, Cg (SetOrigin 1 1728 0) 0, Cg (SetOrigin 7 0 0) 0, Cg BeginTx 0],
       Inr \<lparr>dp_virtual = 7, dp_virtual_old = (1728, 0), dp_detached = [(1, 0, 0)]\<rparr>)"
    by (simp add: enable_refused_once_def detached_install_def Let_def find_targets_def
        physical_targets_def move_tx_def and_then_cg cg_try_def cg_def two_displays_with)
  show ?thesis
    by (simp add: detached_session_def i detached_drop_def MAX_ENABLE_ATTEMPTS_def numeral_3_eq_3)
      (simp add: enable_refused_once_def cg_def enable_all_def cg_ignore_def
        restore_tx_def set_origins_def two_displays_with)
qed

section \<open>The wait for a new mode ends\<close>

text \<open>A sleep lasts at least as long as it was asked to.\<close>

definition clock_lawful :: "display_env \<Rightarrow> bool" where
  "clock_lawful k \<longleftrightarrow> (\<forall>h n. clock_ms k h + n \<le> clock_ms k (Slept n # h))"

lemma resize_wait_ends:
  assumes "clock_lawful k" "deadline \<le> clock_ms k h + 50 * n"
  shows "\<exists>r. resize_wait k w ht deadline (Suc n) v h = Some r"
  using assms(2)
proof (induction n arbitrary: h)
  case 0
  then show ?case by (simp add: Let_def)
next
  case (Suc n)
  have "clock_ms k h + 50 \<le> clock_ms k (Slept 50 # h)" using assms(1) by (simp add: clock_lawful_def)
  then have "deadline \<le> clock_ms k (Slept 50 # h) + 50 * n" using Suc.prems by simp
  from Suc.IH [OF this] show ?case by (simp add: Let_def)
qed

text \<open>Three seconds of pauses of 50 ms: 61 looks at the bounds are enough.\<close>

lemma virtual_display_resize_ends:
  assumes "clock_lawful k"
  shows "\<exists>r. virtual_display_resize k 61 w ht v h = Some r"
proof (cases "cg_status k h (ApplyMode w ht 60) = 0")
  case True
  let ?h = "Cg (ApplyMode w ht 60) 0 # h"
  have "\<exists>r. resize_wait k w ht (clock_ms k ?h + 3000) (Suc 60) v ?h = Some r"
    by (rule resize_wait_ends [OF assms]) simp
  then show ?thesis using True by (simp add: virtual_display_resize_def cg_def)
next
  case False
  then show ?thesis by (simp add: virtual_display_resize_def cg_def)
qed

end
