(* ===== verification/Usb_Device.thy ===== *)
theory Usb_Device
  imports Bytes
begin

text \<open>
  The presentation of the client's USB devices, \<open>src/src/usb_redirect/mod.rs\<close>: the registry that
  presents each device once, the requests the kernel raises, how each is forwarded over the client's
  handle and completed, and the life of the controller they are completed on. One announcement is one
  device record; the tasks that serve its requests, the kernel's callbacks and the other
  announcements are interleaved freely. The client's answers and the controller are parameters: an
  answer is part of a step.
\<close>

section \<open>Requests and callbacks\<close>

definition USB_REQ_GET_DESCRIPTOR :: u8 where "USB_REQ_GET_DESCRIPTOR = 6"

definition USB_DESCRIPTOR_TYPE_CONFIGURATION :: u8 where "USB_DESCRIPTOR_TYPE_CONFIGURATION = 2"

definition USB_BMREQ_STANDARD_DEVICE_IN :: u8 where "USB_BMREQ_STANDARD_DEVICE_IN = 0x80"

datatype status = STATUS_OK | STATUS_STALL

datatype transfer_req =
    ControlIn nat bytes nat
  | ControlOut nat bytes bytes
  | Bulk nat nat bool nat bytes

primrec req_token :: "transfer_req \<Rightarrow> nat" where
  "req_token (ControlIn t setup n) = t"
| "req_token (ControlOut t setup data) = t"
| "req_token (Bulk t ep is_in n data) = t"

text \<open>What the callbacks make of their arguments: a pointer that may be null is an option, the
  setup packet has eight bytes.\<close>

definition out_payload :: "bytes option \<Rightarrow> nat \<Rightarrow> bytes" where
  "out_payload p n = (case p of Some bs \<Rightarrow> if 0 < n then take n bs else [] | None \<Rightarrow> [])"

definition control_in_cb :: "nat \<Rightarrow> bytes \<Rightarrow> nat \<Rightarrow> transfer_req" where
  "control_in_cb token setup8 max_len = ControlIn token (take 8 setup8) max_len"

definition control_out_cb :: "nat \<Rightarrow> bytes \<Rightarrow> bytes option \<Rightarrow> nat \<Rightarrow> transfer_req" where
  "control_out_cb token setup8 out_data out_len = ControlOut token (take 8 setup8) (out_payload out_data out_len)"

definition bulk_cb :: "nat \<Rightarrow> nat \<Rightarrow> int \<Rightarrow> bytes option \<Rightarrow> nat \<Rightarrow> transfer_req" where
  "bulk_cb token endpoint is_in out_data out_len =
     Bulk token (endpoint mod 256) (is_in \<noteq> 0) out_len (if is_in = 0 then out_payload out_data out_len else [])"

section \<open>The client's configuration\<close>

record usb_pipe =
  endpoint_address :: nat
  pipe_handle :: nat
  is_bulk :: bool

text \<open>
  The configuration descriptor is fetched twice, its header first; the wait for the selection is
  bounded. The arguments are what the client answers, an error being its text.
\<close>

datatype select_error = Client_error ustr | Short_header nat | Select_timeout

definition select_client_config ::
  "(u8 \<Rightarrow> nat \<Rightarrow> nat \<Rightarrow> nat \<Rightarrow> ustr + bytes) \<Rightarrow> (bytes \<Rightarrow> (ustr + usb_pipe list) option)
     \<Rightarrow> select_error + usb_pipe list" where
  "select_client_config get_descriptor select_configuration =
     (case get_descriptor USB_DESCRIPTOR_TYPE_CONFIGURATION 0 0 9 of
        Inl e \<Rightarrow> Inl (Client_error e)
      | Inr hdr \<Rightarrow>
          if length hdr < 4 then Inl (Short_header (length hdr))
          else case get_descriptor USB_DESCRIPTOR_TYPE_CONFIGURATION 0 0 (le_value [hdr ! 2, hdr ! 3]) of
                 Inl e \<Rightarrow> Inl (Client_error e)
               | Inr full \<Rightarrow>
                   (case select_configuration full of
                      None \<Rightarrow> Inl Select_timeout
                    | Some (Inl e) \<Rightarrow> Inl (Client_error e)
                    | Some (Inr pipes) \<Rightarrow> Inr pipes))"

record pipes =
  pipe_map :: "nat \<Rightarrow> nat option"
  interrupt_eps :: "nat set"

definition no_pipes :: pipes where "no_pipes = \<lparr>pipe_map = Map.empty, interrupt_eps = {}\<rparr>"

definition add_pipe :: "usb_pipe \<Rightarrow> pipes \<Rightarrow> pipes" where
  "add_pipe p ps =
     ps\<lparr>pipe_map := (pipe_map ps)(endpoint_address p \<mapsto> pipe_handle p),
        interrupt_eps := (if is_bulk p then interrupt_eps ps else insert (endpoint_address p) (interrupt_eps ps))\<rparr>"

definition open_pipes :: "select_error + usb_pipe list \<Rightarrow> pipes" where
  "open_pipes r = (case r of Inr ps \<Rightarrow> fold add_pipe ps no_pipes | Inl e \<Rightarrow> no_pipes)"

section \<open>Serving one request\<close>

datatype usb_call =
    CallGetDescriptor u8 u8 nat nat
  | CallControlIn bytes nat
  | CallControlOut bytes bytes
  | CallBulkIn nat nat
  | CallBulkOut nat bytes

text \<open>What is told to the controller: the token, the bytes for a read, the length, the status.\<close>

datatype completion = Complete nat "bytes option" nat status

primrec completed_token :: "completion \<Rightarrow> nat" where
  "completed_token (Complete t bs n st) = t"

definition complete_in :: "nat \<Rightarrow> bytes \<Rightarrow> status \<Rightarrow> completion" where
  "complete_in token bs st = Complete token (Some bs) (length bs mod 2 ^ 32) st"

definition complete_out :: "nat \<Rightarrow> nat \<Rightarrow> status \<Rightarrow> completion" where
  "complete_out token moved st = Complete token None moved st"

text \<open>A task: the token, the kind of completion, the call it waits for.\<close>

datatype task_kind = AnswerIn | AnswerOut nat | AnswerBulkIn bool

record usb_task =
  t_token :: nat
  t_kind :: task_kind
  t_call :: usb_call

text \<open>The dispatch of a request: completed at once, or a task.\<close>

fun dispatch :: "pipes \<Rightarrow> transfer_req \<Rightarrow> completion + usb_task" where
  "dispatch ps (ControlIn token setup max_len) =
     Inr \<lparr>t_token = token, t_kind = AnswerIn,
          t_call =
            (if setup ! 0 = USB_BMREQ_STANDARD_DEVICE_IN \<and> setup ! 1 = USB_REQ_GET_DESCRIPTOR
             then CallGetDescriptor (setup ! 3) (setup ! 2) (le_value [setup ! 4, setup ! 5]) max_len
             else CallControlIn setup max_len)\<rparr>"
| "dispatch ps (ControlOut token setup data) =
     Inr \<lparr>t_token = token, t_kind = AnswerOut 0, t_call = CallControlOut setup data\<rparr>"
| "dispatch ps (Bulk token ep is_in n data) =
     (case pipe_map ps ep of
        None \<Rightarrow> Inl (complete_out token 0 STATUS_STALL)
      | Some pipe \<Rightarrow>
          Inr (if is_in
               then \<lparr>t_token = token, t_kind = AnswerBulkIn (ep \<in> interrupt_eps ps), t_call = CallBulkIn pipe n\<rparr>
               else \<lparr>t_token = token, t_kind = AnswerOut (length data mod 2 ^ 32), t_call = CallBulkOut pipe data\<rparr>))"

text \<open>The completion of a task by the client's answer. An interrupt endpoint is not stalled by a
  transient failure.\<close>

definition finish :: "usb_task \<Rightarrow> ustr + bytes \<Rightarrow> completion" where
  "finish t r =
     (case t_kind t of
        AnswerIn \<Rightarrow>
          (case r of Inr bs \<Rightarrow> complete_in (t_token t) bs STATUS_OK
                   | Inl e \<Rightarrow> complete_in (t_token t) [] STATUS_STALL)
      | AnswerOut n \<Rightarrow>
          (case r of Inr bs \<Rightarrow> complete_out (t_token t) n STATUS_OK
                   | Inl e \<Rightarrow> complete_out (t_token t) 0 STATUS_STALL)
      | AnswerBulkIn interrupt \<Rightarrow>
          (case r of
             Inr bs \<Rightarrow> complete_in (t_token t) bs STATUS_OK
           | Inl e \<Rightarrow>
               if interrupt \<and> \<not> contains e (lit ''channel closed'')
               then complete_in (t_token t) [] STATUS_OK
               else complete_in (t_token t) [] STATUS_STALL))"

section \<open>The key of a device\<close>

definition hex_digit :: "nat \<Rightarrow> nat" where "hex_digit n = (if n < 10 then 48 + n else 87 + n)"

definition hex4 :: "16 word \<Rightarrow> ustr" where
  "hex4 v = map (\<lambda>k. hex_digit (unat v div 16 ^ k mod 16)) [3, 2, 1, 0]"

definition device_key :: "16 word \<Rightarrow> 16 word \<Rightarrow> 16 word \<Rightarrow> ustr" where
  "device_key vendor product release = hex4 vendor @ [58] @ hex4 product @ [58] @ hex4 release"

definition claim_device :: "ustr \<Rightarrow> ustr set \<Rightarrow> ustr set \<times> bool" where
  "claim_device key presented = (insert key presented, key \<notin> presented)"

definition release_device :: "ustr \<Rightarrow> ustr set \<Rightarrow> ustr set" where
  "release_device key presented = presented - {key}"

section \<open>The life of an announced device\<close>

text \<open>\<open>Claimed\<close>: the slot is taken, the controller not created; \<open>Closing\<close>: the loop has ended, the
  slot is not released yet.\<close>

datatype dev_phase = Fetching | Claimed | Configuring | Serving | Closing | Gone

record device =
  d_phase :: dev_phase
  d_key :: ustr
  d_pipes :: pipes
  d_queue :: "transfer_req list"
  d_tasks :: "usb_task list"
  d_done :: "completion list"
  d_raised :: "nat list"
  d_dropped :: "nat list"
  d_created :: bool
  d_destroyed :: nat

definition new_device :: device where
  "new_device =
     \<lparr>d_phase = Fetching, d_key = [], d_pipes = no_pipes, d_queue = [], d_tasks = [], d_done = [],
      d_raised = [], d_dropped = [], d_created = False, d_destroyed = 0\<rparr>"

text \<open>The loop holds a reference to the controller and so does each task; the last one to drop its
  reference destroys the controller.\<close>

definition loop_holds :: "device \<Rightarrow> bool" where
  "loop_holds d \<longleftrightarrow> d_phase d = Configuring \<or> d_phase d = Serving"

definition drop_reference :: "device \<Rightarrow> device" where
  "drop_reference d =
     (if \<not> loop_holds d \<and> d_tasks d = [] then d\<lparr>d_destroyed := d_destroyed d + 1\<rparr> else d)"

definition raise_req :: "transfer_req \<Rightarrow> device \<Rightarrow> device" where
  "raise_req q d =
     (if loop_holds d then d\<lparr>d_queue := d_queue d @ [q], d_raised := d_raised d @ [req_token q]\<rparr>
      else d\<lparr>d_raised := d_raised d @ [req_token q], d_dropped := d_dropped d @ [req_token q]\<rparr>)"

definition take_req :: "device \<Rightarrow> device" where
  "take_req d =
     (case d_queue d of
        [] \<Rightarrow> d
      | q # qs \<Rightarrow>
          (case dispatch (d_pipes d) q of
             Inl c \<Rightarrow> d\<lparr>d_queue := qs, d_done := d_done d @ [c]\<rparr>
           | Inr t \<Rightarrow> d\<lparr>d_queue := qs, d_tasks := d_tasks d @ [t]\<rparr>))"

definition finish_task :: "nat \<Rightarrow> ustr + bytes \<Rightarrow> device \<Rightarrow> device" where
  "finish_task j r d =
     (let t = d_tasks d ! j
      in drop_reference
           (d\<lparr>d_tasks := take j (d_tasks d) @ drop (Suc j) (d_tasks d), d_done := d_done d @ [finish t r]\<rparr>))"

definition end_loop :: "device \<Rightarrow> device" where
  "end_loop d =
     drop_reference (d\<lparr>d_phase := Closing, d_queue := [], d_dropped := d_dropped d @ map req_token (d_queue d)\<rparr>)"

section \<open>All devices together\<close>

record usb_state =
  u_devices :: "device list"
  u_presented :: "ustr set"

definition usb_init :: usb_state where
  "usb_init = \<lparr>u_devices = [], u_presented = {}\<rparr>"

definition set_device :: "nat \<Rightarrow> device \<Rightarrow> usb_state \<Rightarrow> usb_state" where
  "set_device i d s = s\<lparr>u_devices := (u_devices s)[i := d]\<rparr>"

text \<open>\<open>drive_device\<close> and \<open>present_device\<close>, one rule per resumption of their tasks.\<close>

inductive usb_step :: "usb_state \<Rightarrow> usb_state \<Rightarrow> bool" where
  announced: "usb_step s (s\<lparr>u_devices := u_devices s @ [new_device]\<rparr>)"
| fetch_failed:
    "i < length (u_devices s) \<Longrightarrow> d_phase (u_devices s ! i) = Fetching \<Longrightarrow>
       usb_step s (set_device i ((u_devices s ! i)\<lparr>d_phase := Gone\<rparr>) s)"
| claim_lost:
    "i < length (u_devices s) \<Longrightarrow> d_phase (u_devices s ! i) = Fetching \<Longrightarrow>
       claim_device key (u_presented s) = (p, False) \<Longrightarrow>
       usb_step s ((set_device i ((u_devices s ! i)\<lparr>d_phase := Gone\<rparr>) s)\<lparr>u_presented := p\<rparr>)"
| claim_won:
    "i < length (u_devices s) \<Longrightarrow> d_phase (u_devices s ! i) = Fetching \<Longrightarrow>
       claim_device key (u_presented s) = (p, True) \<Longrightarrow>
       usb_step s ((set_device i ((u_devices s ! i)\<lparr>d_phase := Claimed, d_key := key\<rparr>) s)\<lparr>u_presented := p\<rparr>)"
| create_failed:
    "i < length (u_devices s) \<Longrightarrow> d_phase (u_devices s ! i) = Claimed \<Longrightarrow>
       usb_step s ((set_device i ((u_devices s ! i)\<lparr>d_phase := Gone\<rparr>) s)
         \<lparr>u_presented := release_device (d_key (u_devices s ! i)) (u_presented s)\<rparr>)"
| created:
    "i < length (u_devices s) \<Longrightarrow> d_phase (u_devices s ! i) = Claimed \<Longrightarrow>
       usb_step s (set_device i ((u_devices s ! i)\<lparr>d_phase := Configuring, d_created := True\<rparr>) s)"
| configured:
    "i < length (u_devices s) \<Longrightarrow> d_phase (u_devices s ! i) = Configuring \<Longrightarrow>
       usb_step s (set_device i ((u_devices s ! i)\<lparr>d_phase := Serving, d_pipes := open_pipes r\<rparr>) s)"
| raised:
    "i < length (u_devices s) \<Longrightarrow> d_created (u_devices s ! i) \<Longrightarrow>
       usb_step s (set_device i (raise_req q (u_devices s ! i)) s)"
| taken:
    "i < length (u_devices s) \<Longrightarrow> d_phase (u_devices s ! i) = Serving \<Longrightarrow> d_queue (u_devices s ! i) \<noteq> [] \<Longrightarrow>
       usb_step s (set_device i (take_req (u_devices s ! i)) s)"
| finished:
    "i < length (u_devices s) \<Longrightarrow> j < length (d_tasks (u_devices s ! i)) \<Longrightarrow>
       usb_step s (set_device i (finish_task j r (u_devices s ! i)) s)"
| closed:
    "i < length (u_devices s) \<Longrightarrow> d_phase (u_devices s ! i) = Serving \<Longrightarrow>
       usb_step s (set_device i (end_loop (u_devices s ! i)) s)"
| released:
    "i < length (u_devices s) \<Longrightarrow> d_phase (u_devices s ! i) = Closing \<Longrightarrow>
       usb_step s ((set_device i ((u_devices s ! i)\<lparr>d_phase := Gone\<rparr>) s)
         \<lparr>u_presented := release_device (d_key (u_devices s ! i)) (u_presented s)\<rparr>)"

inductive usb_reach :: "usb_state \<Rightarrow> bool" where
  reach_init: "usb_reach usb_init"
| reach_step: "usb_reach s \<Longrightarrow> usb_step s s' \<Longrightarrow> usb_reach s'"

inductive_cases usb_stepE: "usb_step s s'"

end
