(* ===== verification/Usb_Props.thy ===== *)
theory Usb_Props
  imports Usb_Device
begin

text \<open>
  USB devices: one controller per piece of hardware at a time, every transfer the kernel raises
  completed once at most, on a controller that still exists, and the controller destroyed when the
  last holder lets go of it.
\<close>

section \<open>The key\<close>

lemma hex_digit_inj: "m < 16 \<Longrightarrow> n < 16 \<Longrightarrow> hex_digit m = hex_digit n \<longleftrightarrow> m = n"
  by (auto simp: hex_digit_def)

lemma digits16: "(n :: nat) < 65536 \<Longrightarrow>
  n = n div 16 ^ 3 mod 16 * 4096 + n div 16 ^ 2 mod 16 * 256 + n div 16 ^ 1 mod 16 * 16 + n div 16 ^ 0 mod 16"
proof -
  assume n: "n < 65536"
  have "n = n div 16 * 16 + n mod 16" "n div 16 = n div 256 * 16 + n div 16 mod 16"
    "n div 256 = n div 4096 * 16 + n div 256 mod 16" "n div 4096 mod 16 = n div 4096"
    using div_mult_mod_eq [of n 16] div_mult_mod_eq [of "n div 16" 16] div_mult_mod_eq [of "n div 256" 16] n
    by (simp_all flip: div_mult2_eq)
  then have "n = n div 4096 mod 16 * 4096 + n div 256 mod 16 * 256 + n div 16 mod 16 * 16 + n mod 16"
    by linarith
  moreover have "(16 :: nat) ^ 3 = 4096" "(16 :: nat) ^ 2 = 256" "(16 :: nat) ^ 1 = 16" "(16 :: nat) ^ 0 = 1"
    by simp_all
  ultimately show ?thesis by (simp only: div_by_1)
qed

lemma hex4_inj: "hex4 v = hex4 w \<longleftrightarrow> v = w"
proof
  assume h: "hex4 v = hex4 w"
  have b: "unat v < 65536" "unat w < 65536"
    using unsigned_less [of v] unsigned_less [of w] by simp_all
  have "unat v div 16 ^ k mod 16 = unat w div 16 ^ k mod 16" if "k \<in> {0, 1, 2, 3}" for k
    using h that hex_digit_inj [of "unat v div 16 ^ k mod 16" "unat w div 16 ^ k mod 16"]
    by (auto simp: hex4_def)
  then have "unat v = unat w"
    using digits16 [OF b(1)] digits16 [OF b(2)] by (metis insertCI)
  then show "v = w" by (simp add: word_unat_eq_iff)
qed simp

lemma length_hex4: "length (hex4 v) = 4"
  by (simp add: hex4_def)

text \<open>Two devices share a key exactly when their three identifiers agree.\<close>

lemma device_key_inj:
  "device_key a b c = device_key a' b' c' \<longleftrightarrow> a = a' \<and> b = b' \<and> c = c'"
  by (auto simp: device_key_def append_eq_append_conv length_hex4 hex4_inj)

section \<open>One device\<close>

definition tokens_in :: "device \<Rightarrow> nat multiset" where
  "tokens_in d =
     mset (map req_token (d_queue d)) + mset (map t_token (d_tasks d)) + mset (map completed_token (d_done d))
       + mset (d_dropped d)"

definition device_ok :: "device \<Rightarrow> bool" where
  "device_ok d \<longleftrightarrow>
     mset (d_raised d) = tokens_in d
     \<and> (loop_holds d \<longrightarrow> d_created d) \<and> (\<not> loop_holds d \<longrightarrow> d_queue d = [])
     \<and> (d_phase d \<in> {Fetching, Claimed} \<longrightarrow> \<not> d_created d)
     \<and> (\<not> d_created d \<longrightarrow> d_tasks d = [] \<and> d_destroyed d = 0)
     \<and> (d_created d \<longrightarrow> d_destroyed d = (if loop_holds d \<or> d_tasks d \<noteq> [] then 0 else 1))"

lemma dispatch_token:
  "case dispatch ps q of Inl c \<Rightarrow> completed_token c = req_token q | Inr t \<Rightarrow> t_token t = req_token q"
  by (cases q) (auto simp: complete_out_def split: option.split)

lemma finish_token: "completed_token (finish t r) = t_token t"
  by (auto simp: finish_def complete_in_def complete_out_def split: task_kind.split sum.split)

lemma new_device_ok: "device_ok new_device"
  by (simp add: device_ok_def new_device_def tokens_in_def loop_holds_def)

lemma raise_req_ok: "device_ok d \<Longrightarrow> d_created d \<Longrightarrow> device_ok (raise_req q d)"
  by (auto simp: device_ok_def raise_req_def tokens_in_def loop_holds_def)

lemma take_req_ok:
  assumes "device_ok d" "d_phase d = Serving"
  shows "device_ok (take_req d)"
  using assms dispatch_token [where ps = "d_pipes d" and q = "hd (d_queue d)"]
  by (cases "d_queue d")
    (auto simp: device_ok_def take_req_def tokens_in_def loop_holds_def split: sum.splits)

lemma finish_task_ok:
  assumes "device_ok d" "j < length (d_tasks d)"
  shows "device_ok (finish_task j r d)"
proof -
  let ?t = "d_tasks d ! j" and ?rest = "take j (d_tasks d) @ drop (Suc j) (d_tasks d)"
  have "mset (d_tasks d) = add_mset ?t (mset ?rest)"
    using assms(2) by (metis id_take_nth_drop mset_append mset.simps(2) union_mset_add_mset_right)
  then have "mset (map t_token (d_tasks d)) = add_mset (t_token ?t) (mset (map t_token ?rest))"
    by (metis image_mset_add_mset mset_map)
  moreover have "d_tasks d \<noteq> []" using assms(2) by auto
  ultimately show ?thesis
    using assms(1)
    by (auto simp: device_ok_def finish_task_def Let_def drop_reference_def tokens_in_def
        loop_holds_def finish_token)
qed

lemma end_loop_ok: "device_ok d \<Longrightarrow> d_phase d = Serving \<Longrightarrow> device_ok (end_loop d)"
  by (auto simp: device_ok_def end_loop_def drop_reference_def tokens_in_def loop_holds_def)

section \<open>All devices\<close>

definition holds_slot :: "device \<Rightarrow> bool" where
  "holds_slot d \<longleftrightarrow> d_phase d \<in> {Claimed, Configuring, Serving, Closing}"

definition slots :: "device list \<Rightarrow> ustr list" where
  "slots ds = map d_key (filter holds_slot ds)"

definition usb_ok :: "usb_state \<Rightarrow> bool" where
  "usb_ok s \<longleftrightarrow>
     list_all device_ok (u_devices s) \<and> distinct (slots (u_devices s)) \<and> u_presented s = set (slots (u_devices s))"

text \<open>Replacing one device in the list.\<close>

lemma slots_update:
  assumes "i < length ds"
  shows "\<exists>pre post. slots ds = pre @ (if holds_slot (ds ! i) then [d_key (ds ! i)] else []) @ post
           \<and> slots (ds[i := d]) = pre @ (if holds_slot d then [d_key d] else []) @ post"
  using assms
  by (intro exI [of _ "slots (take i ds)"] exI [of _ "slots (drop (Suc i) ds)"])
    (subst id_take_nth_drop [OF assms], simp add: slots_def upd_conv_take_nth_drop)

lemma slots_same:
  assumes "i < length ds" "holds_slot d = holds_slot (ds ! i)" "holds_slot d \<Longrightarrow> d_key d = d_key (ds ! i)"
  shows "slots (ds[i := d]) = slots ds"
  using slots_update [OF assms(1), of d] assms(2,3) by (auto split: if_splits)

lemma ok_nth: "usb_ok s \<Longrightarrow> i < length (u_devices s) \<Longrightarrow> device_ok (u_devices s ! i)"
  by (simp add: usb_ok_def list_all_length)

lemma list_all_update: "list_all P xs \<Longrightarrow> P x \<Longrightarrow> list_all P (xs[i := x])"
  by (auto simp: list_all_iff dest: set_update_subset_insert [THEN subsetD])

lemma keep_slot_ok:
  assumes "usb_ok s" "i < length (u_devices s)" "device_ok d"
    and "holds_slot d = holds_slot (u_devices s ! i)" "d_key d = d_key (u_devices s ! i)"
  shows "usb_ok (set_device i d s)"
  using assms slots_same [OF assms(2,4)] by (simp add: usb_ok_def set_device_def list_all_update)

lemma drop_slot_ok:
  assumes "usb_ok s" "i < length (u_devices s)" "device_ok d" "\<not> holds_slot d"
    and "holds_slot (u_devices s ! i)"
  shows "usb_ok ((set_device i d s)\<lparr>u_presented := release_device (d_key (u_devices s ! i)) (u_presented s)\<rparr>)"
proof -
  let ?k = "d_key (u_devices s ! i)"
  obtain pre post where p: "slots (u_devices s) = pre @ [?k] @ post" "slots ((u_devices s)[i := d]) = pre @ post"
    using slots_update [OF assms(2), of d] assms(4,5) by auto
  have "distinct (pre @ [?k] @ post)" "u_presented s = set (pre @ [?k] @ post)"
    using assms(1) p(1) by (simp_all add: usb_ok_def)
  then have "distinct (pre @ post)" "u_presented s - {?k} = set (pre @ post)" by auto
  with assms(1,3) p(2) show ?thesis
    by (simp add: usb_ok_def set_device_def list_all_update release_device_def)
qed

lemma same_fields:
  "holds_slot (raise_req q d) = holds_slot d" "d_key (raise_req q d) = d_key d"
  "holds_slot (take_req d) = holds_slot d" "d_key (take_req d) = d_key d"
  "holds_slot (finish_task j r d) = holds_slot d" "d_key (finish_task j r d) = d_key d"
  "d_key (end_loop d) = d_key d" "holds_slot (end_loop d)"
  by (auto simp: raise_req_def take_req_def finish_task_def end_loop_def drop_reference_def holds_slot_def
      Let_def split: list.split sum.split)

lemma usb_step_ok:
  assumes "usb_step s s'" "usb_ok s"
  shows "usb_ok s'"
  using assms(1)
proof (cases rule: usb_step.cases)
  case announced
  have "slots (u_devices s @ [new_device]) = slots (u_devices s)"
    by (simp add: slots_def holds_slot_def new_device_def)
  then show ?thesis using assms(2) announced by (simp add: usb_ok_def new_device_ok)
next
  case (fetch_failed i)
  show ?thesis unfolding fetch_failed(1)
    by (rule keep_slot_ok [OF assms(2) fetch_failed(2)])
      (use ok_nth [OF assms(2) fetch_failed(2)] fetch_failed in
        \<open>auto simp: device_ok_def loop_holds_def tokens_in_def holds_slot_def\<close>)
next
  case (claim_lost i key p)
  have p: "p = u_presented s" using claim_lost(4) by (auto simp: claim_device_def)
  have "usb_ok (set_device i ((u_devices s ! i)\<lparr>d_phase := Gone\<rparr>) s)"
    by (rule keep_slot_ok [OF assms(2) claim_lost(2)])
      (use ok_nth [OF assms(2) claim_lost(2)] claim_lost in
        \<open>auto simp: device_ok_def loop_holds_def tokens_in_def holds_slot_def\<close>)
  moreover have "s' = set_device i ((u_devices s ! i)\<lparr>d_phase := Gone\<rparr>) s"
    unfolding claim_lost(1) p by (simp add: set_device_def)
  ultimately show ?thesis by simp
next
  case (claim_won i key p)
  let ?d = "(u_devices s ! i)\<lparr>d_phase := Claimed, d_key := key\<rparr>"
  have ok: "device_ok ?d"
    using ok_nth [OF assms(2) claim_won(2)] claim_won(3)
    by (auto simp: device_ok_def loop_holds_def tokens_in_def)
  obtain pre post where s: "slots (u_devices s) = pre @ post"
    "slots ((u_devices s)[i := ?d]) = pre @ [key] @ post"
    using slots_update [OF claim_won(2), of ?d] claim_won(3) by (auto simp: holds_slot_def)
  have "key \<notin> u_presented s" "p = insert key (u_presented s)"
    using claim_won(4) by (auto simp: claim_device_def)
  with assms(2) ok s show ?thesis
    unfolding claim_won(1) by (auto simp: usb_ok_def set_device_def list_all_update)
next
  case (create_failed i)
  show ?thesis unfolding create_failed(1)
    by (rule drop_slot_ok [OF assms(2) create_failed(2)])
      (use ok_nth [OF assms(2) create_failed(2)] create_failed in
        \<open>auto simp: device_ok_def loop_holds_def tokens_in_def holds_slot_def\<close>)
next
  case (created i)
  show ?thesis unfolding created(1)
    by (rule keep_slot_ok [OF assms(2) created(2)])
      (use ok_nth [OF assms(2) created(2)] created in
        \<open>auto simp: device_ok_def loop_holds_def tokens_in_def holds_slot_def\<close>)
next
  case (configured i r)
  show ?thesis unfolding configured(1)
    by (rule keep_slot_ok [OF assms(2) configured(2)])
      (use ok_nth [OF assms(2) configured(2)] configured in
        \<open>auto simp: device_ok_def loop_holds_def tokens_in_def holds_slot_def\<close>)
next
  case (raised i q)
  show ?thesis unfolding raised(1)
    by (rule keep_slot_ok [OF assms(2) raised(2)])
      (use raise_req_ok [OF ok_nth [OF assms(2) raised(2)] raised(3)] in \<open>simp_all add: same_fields\<close>)
next
  case (taken i)
  show ?thesis unfolding taken(1)
    by (rule keep_slot_ok [OF assms(2) taken(2)])
      (use take_req_ok [OF ok_nth [OF assms(2) taken(2)] taken(3)] in \<open>simp_all add: same_fields\<close>)
next
  case (finished i j r)
  show ?thesis unfolding finished(1)
    by (rule keep_slot_ok [OF assms(2) finished(2)])
      (use finish_task_ok [OF ok_nth [OF assms(2) finished(2)] finished(3)] in \<open>simp_all add: same_fields\<close>)
next
  case (closed i)
  have "holds_slot (u_devices s ! i)" using closed(3) by (simp add: holds_slot_def)
  then show ?thesis unfolding closed(1)
    by (intro keep_slot_ok [OF assms(2) closed(2)])
      (use end_loop_ok [OF ok_nth [OF assms(2) closed(2)] closed(3)] in \<open>simp_all add: same_fields\<close>)
next
  case (released i)
  show ?thesis unfolding released(1)
    by (rule drop_slot_ok [OF assms(2) released(2)])
      (use ok_nth [OF assms(2) released(2)] released in
        \<open>auto simp: device_ok_def loop_holds_def tokens_in_def holds_slot_def\<close>)
qed

lemma usb_reach_ok: "usb_reach s \<Longrightarrow> usb_ok s"
proof (induction rule: usb_reach.induct)
  case reach_init
  show ?case by (simp add: usb_ok_def usb_init_def slots_def)
next
  case (reach_step s s')
  then show ?case by (blast intro: usb_step_ok)
qed

section \<open>Properties\<close>

lemma slots_distinct:
  assumes "distinct (slots ds)" "i < j" "j < length ds" "holds_slot (ds ! i)" "holds_slot (ds ! j)"
  shows "d_key (ds ! i) \<noteq> d_key (ds ! j)"
proof -
  have "ds = take j ds @ ds ! j # drop (Suc j) ds" by (rule id_take_nth_drop [OF assms(3)])
  then have "slots ds = slots (take j ds) @ d_key (ds ! j) # slots (drop (Suc j) ds)"
    using assms(5) unfolding slots_def by (metis filter.simps(2) filter_append list.simps(9) map_append)
  moreover have "ds ! i \<in> set (take j ds)"
    using assms(2,3) by (metis length_take less_or_eq_imp_le min.absorb2 nth_mem nth_take)
  then have "d_key (ds ! i) \<in> set (slots (take j ds))" using assms(4) by (auto simp: slots_def)
  ultimately show ?thesis using assms(1) by auto
qed

text \<open>C15. Whatever devices the client announces and however the kernel, the client and the tasks that
  serve the transfers interleave (\<open>drive_device\<close> and \<open>present_device\<close>, \<open>src/src/usb_redirect/mod.rs\<close>): two
  announcements that hold a presenting slot are different hardware; of every device, each transfer
  the kernel raised is waiting, being served, completed once or was dropped at the end, and nothing
  else is completed; and the controller is destroyed once, exactly when the loop has ended and no task
  that could still complete on it is left.\<close>

theorem usb_transfers_completed_once:
  assumes "usb_reach s" "i < length (u_devices s)" "d_created (u_devices s ! i)"
  shows "mset (d_raised (u_devices s ! i)) = tokens_in (u_devices s ! i)
    \<and> (distinct (d_raised (u_devices s ! i)) \<longrightarrow> distinct (map completed_token (d_done (u_devices s ! i))))
    \<and> d_destroyed (u_devices s ! i) =
        (if loop_holds (u_devices s ! i) \<or> d_tasks (u_devices s ! i) \<noteq> [] then 0 else 1)
    \<and> (\<forall>j < length (u_devices s). j \<noteq> i \<longrightarrow> holds_slot (u_devices s ! i) \<longrightarrow> holds_slot (u_devices s ! j) \<longrightarrow>
         d_key (u_devices s ! i) \<noteq> d_key (u_devices s ! j))"
proof -
  let ?d = "u_devices s ! i"
  note ok = usb_reach_ok [OF assms(1)]
  have d: "device_ok ?d" by (rule ok_nth [OF ok assms(2)])
  have m: "mset (d_raised ?d) = tokens_in ?d" using d by (simp add: device_ok_def)
  have "distinct (map completed_token (d_done ?d))" if "distinct (d_raised ?d)"
  proof -
    obtain zs where "mset zs = mset (map req_token (d_queue ?d)) + mset (map t_token (d_tasks ?d)) + mset (d_dropped ?d)"
      using ex_mset by blast
    then have "mset (d_raised ?d) = mset (map completed_token (d_done ?d) @ zs)"
      unfolding m tokens_in_def by simp
    then have "distinct (map completed_token (d_done ?d) @ zs)"
      using that mset_eq_imp_distinct_iff by blast
    then show ?thesis by simp
  qed
  moreover have "d_key ?d \<noteq> d_key (u_devices s ! j)"
    if "j < length (u_devices s)" "j \<noteq> i" "holds_slot ?d" "holds_slot (u_devices s ! j)" for j
    using slots_distinct [of "u_devices s" i j] slots_distinct [of "u_devices s" j i] ok that assms(2)
    by (cases "i < j") (auto simp: usb_ok_def)
  ultimately show ?thesis using m d assms(3) by (auto simp: device_ok_def)
qed

section \<open>Two runs\<close>

definition stick :: ustr where "stick = lit ''2174:2100:0100''"

definition descriptor_read :: transfer_req where
  "descriptor_read = ControlIn 5 [0x80, 6, 0, 1, 0, 0, 18, 0] 18"

definition descriptor_task :: usb_task where
  "descriptor_task = \<lparr>t_token = 5, t_kind = AnswerIn, t_call = CallGetDescriptor 1 0 0 18\<rparr>"

definition serving_stick :: device where
  "serving_stick = new_device\<lparr>d_phase := Serving, d_key := stick, d_created := True\<rparr>"

definition waiting_stick :: device where
  "waiting_stick = serving_stick\<lparr>d_tasks := [descriptor_task], d_raised := [5]\<rparr>"

lemma reach_claim:
  "usb_reach \<lparr>u_devices = ds, u_presented = {}\<rparr> \<Longrightarrow>
     usb_reach \<lparr>u_devices = ds @ [new_device\<lparr>d_phase := Serving, d_key := k, d_created := True\<rparr>],
               u_presented = {k}\<rparr>"
proof -
  let ?s = "\<lambda>d p. \<lparr>u_devices = ds @ [d], u_presented = p\<rparr>"
  assume "usb_reach \<lparr>u_devices = ds, u_presented = {}\<rparr>"
  from reach_step [OF this announced] have r1: "usb_reach (?s new_device {})" by simp
  have "usb_step (?s new_device {}) (?s (new_device\<lparr>d_phase := Claimed, d_key := k\<rparr>) {k})"
    using claim_won [of "length ds" "?s new_device {}" k "{k}"]
    by (simp add: set_device_def new_device_def claim_device_def)
  from reach_step [OF r1 this] have r2: "usb_reach (?s (new_device\<lparr>d_phase := Claimed, d_key := k\<rparr>) {k})" .
  have "usb_step (?s (new_device\<lparr>d_phase := Claimed, d_key := k\<rparr>) {k})
          (?s (new_device\<lparr>d_phase := Configuring, d_key := k, d_created := True\<rparr>) {k})"
    using created [of "length ds" "?s (new_device\<lparr>d_phase := Claimed, d_key := k\<rparr>) {k}"]
    by (simp add: set_device_def new_device_def)
  from reach_step [OF r2 this]
  have r3: "usb_reach (?s (new_device\<lparr>d_phase := Configuring, d_key := k, d_created := True\<rparr>) {k})" .
  have "usb_step (?s (new_device\<lparr>d_phase := Configuring, d_key := k, d_created := True\<rparr>) {k})
          (?s (new_device\<lparr>d_phase := Serving, d_key := k, d_created := True\<rparr>) {k})"
    using configured [of "length ds" "?s (new_device\<lparr>d_phase := Configuring, d_key := k, d_created := True\<rparr>) {k}"
        "Inr []"]
    by (simp add: set_device_def new_device_def open_pipes_def)
  from reach_step [OF r3 this] show ?thesis .
qed

lemma reach_waiting: "usb_reach \<lparr>u_devices = [waiting_stick], u_presented = {stick}\<rparr>"
proof -
  have r1: "usb_reach \<lparr>u_devices = [serving_stick], u_presented = {stick}\<rparr>"
    using reach_claim [of "[]" stick] usb_reach.reach_init
    by (simp add: usb_init_def serving_stick_def)
  have "usb_step \<lparr>u_devices = [serving_stick], u_presented = {stick}\<rparr>
          \<lparr>u_devices = [serving_stick\<lparr>d_queue := [descriptor_read], d_raised := [5]\<rparr>], u_presented = {stick}\<rparr>"
    using raised [of 0 "\<lparr>u_devices = [serving_stick], u_presented = {stick}\<rparr>" descriptor_read]
    by (simp add: set_device_def serving_stick_def new_device_def raise_req_def loop_holds_def descriptor_read_def)
  from reach_step [OF r1 this]
  have r2: "usb_reach \<lparr>u_devices = [serving_stick\<lparr>d_queue := [descriptor_read], d_raised := [5]\<rparr>],
                       u_presented = {stick}\<rparr>" .
  have "usb_step \<lparr>u_devices = [serving_stick\<lparr>d_queue := [descriptor_read], d_raised := [5]\<rparr>], u_presented = {stick}\<rparr>
          \<lparr>u_devices = [waiting_stick], u_presented = {stick}\<rparr>"
    using taken [of 0 "\<lparr>u_devices = [serving_stick\<lparr>d_queue := [descriptor_read], d_raised := [5]\<rparr>],
                       u_presented = {stick}\<rparr>"]
    by (simp add: set_device_def serving_stick_def waiting_stick_def new_device_def take_req_def
        descriptor_read_def descriptor_task_def USB_BMREQ_STANDARD_DEVICE_IN_def USB_REQ_GET_DESCRIPTOR_def)
  from reach_step [OF r2 this] show ?thesis .
qed

theorem usb_transfers_completed_once_witness:
  "mset (d_raised waiting_stick) = tokens_in waiting_stick \<and> d_destroyed waiting_stick = 0"
  using usb_transfers_completed_once [OF reach_waiting, of 0]
  by (simp add: waiting_stick_def serving_stick_def new_device_def)

text \<open>The slot is released when the loop ends, which may be before the controller is destroyed: while
  a transfer is still outstanding, the same hardware can be announced and presented again.\<close>

lemma two_controllers_one_device:
  "\<exists>s. usb_reach s \<and> length (u_devices s) = 2
      \<and> d_key (u_devices s ! 0) = d_key (u_devices s ! 1)
      \<and> list_all (\<lambda>d. d_created d \<and> d_destroyed d = 0) (u_devices s)"
proof -
  let ?gone = "waiting_stick\<lparr>d_phase := Gone\<rparr>"
  have "usb_step \<lparr>u_devices = [waiting_stick], u_presented = {stick}\<rparr>
          \<lparr>u_devices = [waiting_stick\<lparr>d_phase := Closing\<rparr>], u_presented = {stick}\<rparr>"
    using closed [of 0 "\<lparr>u_devices = [waiting_stick], u_presented = {stick}\<rparr>"]
    by (simp add: set_device_def waiting_stick_def serving_stick_def new_device_def end_loop_def
        drop_reference_def loop_holds_def)
  from reach_step [OF reach_waiting this]
  have r1: "usb_reach \<lparr>u_devices = [waiting_stick\<lparr>d_phase := Closing\<rparr>], u_presented = {stick}\<rparr>" .
  have "usb_step \<lparr>u_devices = [waiting_stick\<lparr>d_phase := Closing\<rparr>], u_presented = {stick}\<rparr>
          \<lparr>u_devices = [?gone], u_presented = {}\<rparr>"
    using released [of 0 "\<lparr>u_devices = [waiting_stick\<lparr>d_phase := Closing\<rparr>], u_presented = {stick}\<rparr>"]
    by (simp add: set_device_def waiting_stick_def serving_stick_def new_device_def release_device_def)
  from reach_step [OF r1 this] have "usb_reach \<lparr>u_devices = [?gone], u_presented = {}\<rparr>" .
  from reach_claim [OF this, of stick] show ?thesis
    by (intro exI [of _ "\<lparr>u_devices = [?gone] @ [new_device\<lparr>d_phase := Serving, d_key := stick, d_created := True\<rparr>],
                         u_presented = {stick}\<rparr>"])
      (simp add: waiting_stick_def serving_stick_def new_device_def)
qed

end
