(* ===== verification/Cf_Objects.thy ===== *)
theory Cf_Objects
  imports "HOL-Library.Multiset"
begin

text \<open>
  Objects of the system frameworks that a program must release, as the sources of the camera
  (\<open>src/src/camera\<close>) and of the encoder (\<open>src/src/videotoolbox.rs\<close>) use them: the calls that matter
  for their ownership are recorded, the newest first. An object is created with one reference; a
  reference is retained, released, handed over to another owner, or returned by one. Heap cells that
  are passed through a callback as a raw pointer are objects too. An object is a fresh number, and 0
  is the null reference.
\<close>

section \<open>Calls and objects\<close>

datatype cf_call =
    Created nat
  | Retained nat
  | Released nat
  | Handed nat
  | StartStream nat nat
  | StopStream nat nat
  | DecodeFrame nat nat
  | EncodeFrame nat nat nat
  | Returned nat
  | Invalidated nat

record cf =
  cf_next :: nat
  cf_log :: "cf_call list"

definition cf_init :: cf where "cf_init = \<lparr>cf_next = 1, cf_log = []\<rparr>"

definition record_call :: "cf_call \<Rightarrow> cf \<Rightarrow> cf" where
  "record_call c w = w\<lparr>cf_log := c # cf_log w\<rparr>"

definition create :: "cf \<Rightarrow> cf \<times> nat" where
  "create w = (\<lparr>cf_next = cf_next w + 1, cf_log = Created (cf_next w) # cf_log w\<rparr>, cf_next w)"

definition release :: "nat \<Rightarrow> cf \<Rightarrow> cf" where "release = record_call \<circ> Released"

section \<open>References\<close>

text \<open>The references this program holds on an object. What is handed over takes a reference with it:
  the new owner releases it, or returns it.\<close>

primrec refs :: "nat \<Rightarrow> cf_call list \<Rightarrow> int" where
  "refs r [] = 0"
| "refs r (c # cs) =
     (case c of
        Created x \<Rightarrow> if x = r then refs r cs + 1 else refs r cs
      | Retained x \<Rightarrow> if x = r then refs r cs + 1 else refs r cs
      | Returned x \<Rightarrow> if x = r then refs r cs + 1 else refs r cs
      | Released x \<Rightarrow> if x = r then refs r cs - 1 else refs r cs
      | Handed x \<Rightarrow> if x = r then refs r cs - 1 else refs r cs
      | _ \<Rightarrow> refs r cs)"

text \<open>Every use of an object happens while a reference on it is held.\<close>

primrec sound_calls :: "cf_call list \<Rightarrow> bool" where
  "sound_calls [] \<longleftrightarrow> True"
| "sound_calls (c # cs) \<longleftrightarrow> sound_calls cs \<and>
     (case c of
        Created x \<Rightarrow> refs x cs = 0
      | Retained x \<Rightarrow> 0 < refs x cs
      | Returned x \<Rightarrow> refs x cs = 0
      | Released x \<Rightarrow> 0 < refs x cs
      | Handed x \<Rightarrow> 0 < refs x cs
      | DecodeFrame session sample \<Rightarrow> 0 < refs session cs \<and> 0 < refs sample cs
      | EncodeFrame session buf props \<Rightarrow>
          0 < refs session cs \<and> 0 < refs buf cs \<and> (props = 0 \<or> 0 < refs props cs)
      | Invalidated session \<Rightarrow> 0 < refs session cs
      | _ \<Rightarrow> True)"

definition holds :: "nat multiset \<Rightarrow> cf \<Rightarrow> bool" where
  "holds M w \<longleftrightarrow>
     sound_calls (cf_log w) \<and> (\<forall>r. refs r (cf_log w) = int (count M r)) \<and> (\<forall>r \<in># M. r < cf_next w) \<and> 0 < cf_next w"

lemma holds_init: "holds {#} cf_init"
  by (simp add: holds_def cf_init_def)

lemma holds_create:
  assumes "holds M w"
  shows "holds (add_mset (snd (create w)) M) (fst (create w))" "snd (create w) \<noteq> 0"
proof -
  have "cf_next w \<notin># M" using assms by (auto simp: holds_def)
  then have "count M (cf_next w) = 0" by (simp add: not_in_iff)
  then show "holds (add_mset (snd (create w)) M) (fst (create w))"
    using assms by (auto simp: holds_def create_def less_Suc_eq)
  show "snd (create w) \<noteq> 0" using assms by (simp add: holds_def create_def)
qed

lemma holds_release: "holds (add_mset r M) w \<Longrightarrow> holds M (release r w)"
  by (auto simp: holds_def release_def record_call_def)

lemma holds_retain: "holds (add_mset r M) w \<Longrightarrow> holds (add_mset r (add_mset r M)) (record_call (Retained r) w)"
  by (auto simp: holds_def record_call_def)

lemma holds_hand: "holds (add_mset r M) w \<Longrightarrow> holds M (record_call (Handed r) w)"
  by (auto simp: holds_def record_call_def)

lemma holds_stream:
  "holds M w \<Longrightarrow> holds M (record_call (StartStream d s) w)" "holds M w \<Longrightarrow> holds M (record_call (StopStream d s) w)"
  by (auto simp: holds_def record_call_def)

lemma holds_invalidate: "holds M w \<Longrightarrow> r \<in># M \<Longrightarrow> holds M (record_call (Invalidated r) w)"
  by (auto simp: holds_def record_call_def)

lemma holds_decode:
  "holds M w \<Longrightarrow> r \<in># M \<Longrightarrow> x \<in># M \<Longrightarrow> holds M (record_call (DecodeFrame r x) w)"
  by (auto simp: holds_def record_call_def)

lemma holds_encode:
  "holds M w \<Longrightarrow> r \<in># M \<Longrightarrow> x \<in># M \<Longrightarrow> p = 0 \<or> p \<in># M \<Longrightarrow> holds M (record_call (EncodeFrame r x p) w)"
  by (auto simp: holds_def record_call_def)

lemma holds_return:
  "holds M w \<Longrightarrow> x \<notin># M \<Longrightarrow> x < cf_next w \<Longrightarrow> holds (add_mset x M) (record_call (Returned x) w)"
  by (auto simp: holds_def record_call_def not_in_iff)

lemma holds_next: "holds M w \<Longrightarrow> x \<in># M \<Longrightarrow> x < cf_next w"
  by (simp add: holds_def)

lemma cf_next_simps:
  "cf_next (release r w) = cf_next w" "cf_next (record_call c w) = cf_next w"
  "cf_next (fst (create w)) = cf_next w + 1" "snd (create w) = cf_next w"
  by (simp_all add: release_def record_call_def create_def)

end
