(* ===== verification/Camera.thy ===== *)
theory Camera
  imports Annex_B Rust_Float Cf_Objects
begin

text \<open>
  Camera redirection: the sample sink of \<open>src/src/camera/mod.rs\<close>, the life of the decoder of
  \<open>src/src/camera/decode.rs\<close> (its front end is in \<open>Annex_B\<close>) and the feed of the virtual camera,
  \<open>src/src/camera/feed.rs\<close>. The calls on the objects of the system frameworks are recorded as
  \<open>Cf_Objects\<close> says; whether a call succeeds is part of its answer. A frame on the queue of the
  virtual camera is handed over to its consumer.
\<close>

section \<open>Properties of the CoreMediaIO objects\<close>

text \<open>
  The answers of the property queries: the size of an array property, its elements, and a string
  property, which is a string object that is there or not, with its text when that can be read.
\<close>

record cmio =
  array_size :: "nat \<Rightarrow> nat \<Rightarrow> int + nat"
  array_data :: "nat \<Rightarrow> nat \<Rightarrow> int + nat list"
  string_data :: "nat \<Rightarrow> nat \<Rightarrow> ustr option option"

definition DEVICES :: nat where "DEVICES = be_value (map of_char ''dev#'')"

definition DEVICE_UID :: nat where "DEVICE_UID = be_value (map of_char ''uid '')"

definition STREAMS :: nat where "STREAMS = be_value (map of_char ''stm#'')"

definition OBJECT_NAME :: nat where "OBJECT_NAME = be_value (map of_char ''lnam'')"

definition SYSTEM_OBJECT :: nat where "SYSTEM_OBJECT = 1"

definition MACRDP_CAMERA_DEVICE_UID :: ustr where
  "MACRDP_CAMERA_DEVICE_UID = lit ''6F1B2C3D-4E5A-6B7C-8D9E-A0B1C2D3E4F0''"

definition SINK_STREAM_NAME_MARKER :: ustr where "SINK_STREAM_NAME_MARKER = lit ''sink''"

datatype feed_error =
    Size_status int
  | Data_status int
  | Device_not_found
  | Too_few_streams nat
  | Queue_status int
  | Start_status int

definition get_object_array :: "cmio \<Rightarrow> nat \<Rightarrow> nat \<Rightarrow> feed_error + nat list" where
  "get_object_array q obj selector =
     (case array_size q obj selector of
        Inl st \<Rightarrow> Inl (Size_status st)
      | Inr n \<Rightarrow>
          if n div 4 = 0 then Inr []
          else case array_data q obj selector of
                 Inl st \<Rightarrow> Inl (Data_status st)
               | Inr ids \<Rightarrow> Inr ids)"

definition cf_string_property :: "cmio \<Rightarrow> nat \<Rightarrow> nat \<Rightarrow> cf \<Rightarrow> cf \<times> ustr option" where
  "cf_string_property q obj selector w =
     (case string_data q obj selector of
        None \<Rightarrow> (w, None)
      | Some s \<Rightarrow> (case create w of (w1, r) \<Rightarrow> (release r w1, s)))"

text \<open>The first object of a list whose string property passes a test.\<close>

primrec find_object :: "cmio \<Rightarrow> nat \<Rightarrow> (ustr \<Rightarrow> bool) \<Rightarrow> nat list \<Rightarrow> cf \<Rightarrow> cf \<times> nat option" where
  "find_object q selector test [] w = (w, None)"
| "find_object q selector test (x # xs) w =
     (case cf_string_property q x selector w of
        (w1, s) \<Rightarrow>
          if (case s of Some t \<Rightarrow> test t | None \<Rightarrow> False) then (w1, Some x)
          else find_object q selector test xs w1)"

section \<open>The feed\<close>

record camera_feed =
  f_device :: nat
  f_stream :: nat
  f_queue :: nat
  f_enqueued :: nat
  f_dropped_full :: nat

text \<open>The stream whose name says it is the sink, else the second one; the names of all streams are
  read once more for the log.\<close>

definition pick_sink :: "cmio \<Rightarrow> nat list \<Rightarrow> cf \<Rightarrow> cf \<times> nat" where
  "pick_sink q streams w =
     (case find_object q OBJECT_NAME (\<lambda>n. contains (to_ascii_lowercase n) SINK_STREAM_NAME_MARKER) streams
             (fold (\<lambda>s w. fst (cf_string_property q s OBJECT_NAME w)) streams w) of
        (w', Some s) \<Rightarrow> (w', s)
      | (w', None) \<Rightarrow> (w', streams ! 1))"

text \<open>\<open>queue_status\<close> and \<open>start_status\<close> are what copying the queue and starting the stream return.\<close>

definition open_sink :: "int \<Rightarrow> int \<Rightarrow> nat \<Rightarrow> nat \<Rightarrow> cf \<Rightarrow> cf \<times> (feed_error + camera_feed)" where
  "open_sink queue_status start_status device sink w =
     (if queue_status \<noteq> 0 then (w, Inl (Queue_status queue_status))
      else case create w of
             (w1, queue) \<Rightarrow>
               if start_status \<noteq> 0 then (release queue w1, Inl (Start_status start_status))
               else (record_call (StartStream device sink) w1,
                     Inr \<lparr>f_device = device, f_stream = sink, f_queue = queue,
                          f_enqueued = 0, f_dropped_full = 0\<rparr>))"

definition find_device :: "cmio \<Rightarrow> nat list \<Rightarrow> cf \<Rightarrow> cf \<times> nat option" where
  "find_device q =
     find_object q DEVICE_UID (\<lambda>u. to_ascii_lowercase u = to_ascii_lowercase MACRDP_CAMERA_DEVICE_UID)"

definition feed_new :: "cmio \<Rightarrow> int \<Rightarrow> int \<Rightarrow> cf \<Rightarrow> cf \<times> (feed_error + camera_feed)" where
  "feed_new q queue_status start_status w =
     (case get_object_array q SYSTEM_OBJECT DEVICES of
        Inl e \<Rightarrow> (w, Inl e)
      | Inr devices \<Rightarrow>
          (case find_device q devices w of
             (w1, None) \<Rightarrow> (w1, Inl Device_not_found)
           | (w1, Some device) \<Rightarrow>
               (case get_object_array q device STREAMS of
                  Inl e \<Rightarrow> (w1, Inl e)
                | Inr streams \<Rightarrow>
                    if length streams < 2 then (w1, Inl (Too_few_streams (length streams)))
                    else case pick_sink q streams w1 of
                           (w2, sink) \<Rightarrow> open_sink queue_status start_status device sink w2)))"

text \<open>The answers to one frame: whether the image is there, the length and the capacity of the queue,
  and whether each of the three calls succeeds.\<close>

record enqueue_answer =
  e_image :: bool
  e_count :: int
  e_capacity :: int
  e_format_ok :: bool
  e_sample_ok :: bool
  e_enqueue_ok :: bool

definition feed_enqueue :: "enqueue_answer \<Rightarrow> camera_feed \<times> cf \<Rightarrow> camera_feed \<times> cf" where
  "feed_enqueue a = (\<lambda>(f, w).
     if \<not> e_image a then (f, w)
     else if e_capacity a \<le> e_count a then (f\<lparr>f_dropped_full := f_dropped_full f + 1\<rparr>, w)
     else if \<not> e_format_ok a then (f, w)
     else
       case create w of
         (w1, fmt) \<Rightarrow>
           if \<not> e_sample_ok a then (f, release fmt w1)
           else
             case create w1 of
               (w2, sample) \<Rightarrow>
                 let w3 = record_call (Retained sample) (release fmt w2)
                 in if e_enqueue_ok a
                    then (f\<lparr>f_enqueued := f_enqueued f + 1\<rparr>, release sample (record_call (Handed sample) w3))
                    else (f, release sample (release sample w3)))"

definition feed_drop :: "camera_feed \<Rightarrow> cf \<Rightarrow> cf" where
  "feed_drop f w = release (f_queue f) (record_call (StopStream (f_device f) (f_stream f)) w)"

section \<open>The decoder\<close>

record callback_state =
  cb_decoded :: nat
  cb_errors :: nat
  cb_last_log :: "instant option"
  cb_dumped_pngs :: nat
  cb_feed :: "camera_feed option"

record camera_decoder =
  cd_front :: h264_decoder
  cd_format_desc :: nat
  cd_session :: nat
  cd_cb :: callback_state

definition camera_decoder_new :: "camera_feed option \<Rightarrow> camera_decoder" where
  "camera_decoder_new feed =
     \<lparr>cd_front = decoder_new, cd_format_desc = 0, cd_session = 0,
      cd_cb = \<lparr>cb_decoded = 0, cb_errors = 0, cb_last_log = None, cb_dumped_pngs = 0, cb_feed = feed\<rparr>\<rparr>"

text \<open>One call of the output callback: its status, the clock, the answers to the feed. The grey pictures
  are numbered and only the first three are written.\<close>

record output_answer =
  o_status :: int
  o_now :: instant
  o_enqueue :: enqueue_answer

definition decode_output :: "bool \<Rightarrow> output_answer \<Rightarrow> callback_state \<times> cf \<Rightarrow> callback_state \<times> cf" where
  "decode_output dump a = (\<lambda>(c, w).
     if o_status a \<noteq> 0 \<or> \<not> e_image (o_enqueue a) then (c\<lparr>cb_errors := cb_errors c + 1\<rparr>, w)
     else
       let (feed', w1) = (case cb_feed c of
                            None \<Rightarrow> (None, w)
                          | Some f \<Rightarrow> (case feed_enqueue (o_enqueue a) (f, w) of (f', w') \<Rightarrow> (Some f', w')));
           c1 = c\<lparr>cb_decoded := cb_decoded c + 1, cb_feed := feed'\<rparr>;
           due = (case cb_last_log c of
                    None \<Rightarrow> True
                  | Some t \<Rightarrow> from_millis 1000 \<le> saturating_duration_since (o_now a) t)
       in (if due
           then c1\<lparr>cb_last_log := Some (o_now a),
                   cb_dumped_pngs := (if dump \<and> cb_dumped_pngs c < 3 then cb_dumped_pngs c + 1 else cb_dumped_pngs c)\<rparr>
           else c1, w1))"

text \<open>The luma of a decoded picture: the plane has \<open>stride\<close> bytes per row; the grid has at most 128
  points in each direction.\<close>

definition luma_grid :: "nat \<Rightarrow> nat list" where
  "luma_grid n = (let step = max (n div 64) 1 in map (\<lambda>i. i * step) [0 ..< (n + step - 1) div step])"

definition inspect_luma :: "bool \<Rightarrow> nat \<Rightarrow> nat \<Rightarrow> bytes option \<Rightarrow> nat \<Rightarrow> real option" where
  "inspect_luma lock_ok w h plane stride =
     (case plane of
        None \<Rightarrow> None
      | Some px \<Rightarrow>
          if \<not> lock_ok \<or> w = 0 \<or> h = 0 \<or> stride < w then None
          else
            let points = [px ! (y * stride + x). y \<leftarrow> luma_grid h, x \<leftarrow> luma_grid w]
            in Some (if points = [] then 0
                     else real (sum_list (map unat points)) / real (length points)))"

text \<open>The answers to one access unit: whether the format description and the session can be created,
  the block buffer created and filled, the sample created; and the callbacks the decoding fires.\<close>

record decode_answer =
  a_format_ok :: bool
  a_session_ok :: bool
  a_block_ok :: bool
  a_copy_ok :: bool
  a_sample_ok :: bool
  a_outputs :: "output_answer list"

definition build_session :: "decode_answer \<Rightarrow> camera_decoder \<times> cf \<Rightarrow> camera_decoder \<times> cf" where
  "build_session a = (\<lambda>(d, w).
     if \<not> a_format_ok a then (d, w)
     else case create w of
            (w1, fmt) \<Rightarrow>
              if \<not> a_session_ok a then (d, release fmt w1)
              else case create w1 of
                     (w2, session) \<Rightarrow> (d\<lparr>cd_format_desc := fmt, cd_session := session\<rparr>, w2))"

definition decode_avcc :: "bool \<Rightarrow> decode_answer \<Rightarrow> camera_decoder \<times> cf \<Rightarrow> camera_decoder \<times> cf" where
  "decode_avcc dump a = (\<lambda>(d, w).
     if \<not> a_block_ok a then (d, w)
     else case create w of
            (w1, block) \<Rightarrow>
              if \<not> a_copy_ok a \<or> \<not> a_sample_ok a then (d, release block w1)
              else case create w1 of
                     (w2, sample) \<Rightarrow>
                       (case fold (decode_output dump) (a_outputs a)
                               (cd_cb d, record_call (DecodeFrame (cd_session d) sample) w2) of
                          (c, w3) \<Rightarrow> (d\<lparr>cd_cb := c\<rparr>, release block (release sample w3))))"

text \<open>The front end of \<open>Annex_B\<close> decides what is built and what is decoded.\<close>

definition camera_decode :: "bool \<Rightarrow> decode_answer \<Rightarrow> bytes \<Rightarrow> camera_decoder \<times> cf \<Rightarrow> camera_decoder \<times> cf" where
  "camera_decode dump a annexb = (\<lambda>(d, w).
     case decode (a_format_ok a \<and> a_session_ok a) (cd_front d) annexb of
       (front, avcc) \<Rightarrow>
         let collected = fst (foldl collect_nal (cd_front d, []) (annexb_nals annexb));
             builds = (\<not> dec_session collected \<and> dec_sps collected \<noteq> None \<and> dec_pps collected \<noteq> None);
             (d1, w1) = (if builds then build_session a (d, w) else (d, w));
             d2 = d1\<lparr>cd_front := front\<rparr>
         in case avcc of None \<Rightarrow> (d2, w1) | Some _ \<Rightarrow> decode_avcc dump a (d2, w1))"

definition camera_decoder_drop :: "camera_decoder \<Rightarrow> cf \<Rightarrow> cf" where
  "camera_decoder_drop d w =
     (let w1 = (if cd_session d \<noteq> 0 then release (cd_session d) (record_call (Invalidated (cd_session d)) w) else w);
          w2 = (if cd_format_desc d \<noteq> 0 then release (cd_format_desc d) w1 else w1)
      in case cb_feed (cd_cb d) of None \<Rightarrow> w2 | Some f \<Rightarrow> feed_drop f w2)"

section \<open>The sink\<close>

definition FORMAT_H264 :: u8 where "FORMAT_H264 = 1"

definition DUMP_CAP_BYTES :: nat where "DUMP_CAP_BYTES = 10 * 1024 * 1024"

definition camera_dump_enabled :: "env \<Rightarrow> bool" where
  "camera_dump_enabled e \<longleftrightarrow> e ''MACRDP_CAMERA_DUMP'' \<in> {Some (lit ''1''), Some (lit ''true'')}"

text \<open>The dump file is the bytes written to it since it was created.\<close>

record camera_sink =
  s_format :: u8
  s_width :: nat
  s_height :: nat
  s_dump :: "bytes option"
  s_dumped_bytes :: nat
  s_frames :: nat
  s_decoder :: "camera_decoder option"

definition camera_sink_new :: camera_sink where
  "camera_sink_new =
     \<lparr>s_format = 0, s_width = 0, s_height = 0, s_dump = None, s_dumped_bytes = 0, s_frames = 0,
      s_decoder = None\<rparr>"

text \<open>The answers to a media type: whether the dump file can be created, and those of \<open>feed_new\<close>.\<close>

record media_answer =
  m_create_ok :: bool
  m_cmio :: cmio
  m_queue_status :: int
  m_start_status :: int

definition on_media_type ::
  "bool \<Rightarrow> media_answer \<Rightarrow> u8 \<Rightarrow> nat \<Rightarrow> nat \<Rightarrow> camera_sink \<times> cf \<Rightarrow> camera_sink \<times> cf" where
  "on_media_type dump a format width height = (\<lambda>(s, w).
     let s1 = s\<lparr>s_format := format, s_width := width, s_height := height\<rparr>;
         s2 = (if format = FORMAT_H264 \<and> dump \<and> m_create_ok a then s1\<lparr>s_dump := Some []\<rparr> else s1)
     in if format \<noteq> FORMAT_H264 then (s2, w)
        else
          case feed_new (m_cmio a) (m_queue_status a) (m_start_status a) w of
            (w1, r) \<Rightarrow>
              let feed = (case r of Inr f \<Rightarrow> Some f | Inl e \<Rightarrow> None);
                  w2 = (case s_decoder s2 of None \<Rightarrow> w1 | Some old \<Rightarrow> camera_decoder_drop old w1)
              in (s2\<lparr>s_decoder := Some (camera_decoder_new feed)\<rparr>, w2))"

text \<open>\<open>write_ok\<close>: whether the sample can be appended to the dump.\<close>

definition on_sample ::
  "bool \<Rightarrow> bool \<Rightarrow> decode_answer \<Rightarrow> bytes \<Rightarrow> camera_sink \<times> cf \<Rightarrow> camera_sink \<times> cf" where
  "on_sample dump write_ok a data = (\<lambda>(s, w).
     let s1 = s\<lparr>s_frames := s_frames s + 1\<rparr>;
         s2 = (case s_dump s1 of
                 None \<Rightarrow> s1
               | Some file \<Rightarrow>
                   if DUMP_CAP_BYTES \<le> s_dumped_bytes s1 then s1
                   else if \<not> write_ok then s1\<lparr>s_dump := None\<rparr>
                   else let n = s_dumped_bytes s1 + length data
                        in s1\<lparr>s_dumped_bytes := n,
                              s_dump := (if DUMP_CAP_BYTES \<le> n then None else Some (file @ data))\<rparr>)
     in case s_decoder s2 of
          None \<Rightarrow> (s2, w)
        | Some d \<Rightarrow> (case camera_decode dump a data (d, w) of (d', w') \<Rightarrow> (s2\<lparr>s_decoder := Some d'\<rparr>, w')))"

definition camera_sink_drop :: "camera_sink \<times> cf \<Rightarrow> cf" where
  "camera_sink_drop = (\<lambda>(s, w). case s_decoder s of None \<Rightarrow> w | Some d \<Rightarrow> camera_decoder_drop d w)"

text \<open>What the channel does to a sink, and its whole life.\<close>

datatype sink_event =
    MediaType media_answer u8 nat nat
  | Sample bool decode_answer bytes

fun sink_step :: "bool \<Rightarrow> sink_event \<Rightarrow> camera_sink \<times> cf \<Rightarrow> camera_sink \<times> cf" where
  "sink_step dump (MediaType a format width height) = on_media_type dump a format width height"
| "sink_step dump (Sample write_ok a data) = on_sample dump write_ok a data"

definition camera_life :: "bool \<Rightarrow> sink_event list \<Rightarrow> cf" where
  "camera_life dump es = camera_sink_drop (fold (sink_step dump) es (camera_sink_new, cf_init))"

end
