(* ===== verification/Camera_Props.thy ===== *)
theory Camera_Props
  imports Camera
begin

text \<open>
  The camera: every object of the system frameworks is released as often as it was obtained, never
  used after that, and what is on the queue of the virtual camera belongs to its consumer; the
  grey average of a picture stays in its plane; the raw dump is bounded.
\<close>

section \<open>The feed\<close>

lemma string_property_holds: "holds M w \<Longrightarrow> holds M (fst (cf_string_property q x sel w))"
  using holds_create [of M w] holds_release
  by (auto simp: cf_string_property_def split: option.split prod.split)

lemma find_object_holds: "holds M w \<Longrightarrow> holds M (fst (find_object q sel t xs w))"
proof (induction xs arbitrary: w)
  case Nil
  then show ?case by simp
next
  case (Cons x xs)
  then show ?case
    using string_property_holds [OF Cons.prems, of q x sel]
    by (cases "cf_string_property q x sel w") auto
qed

lemma fold_string_holds:
  "holds M w \<Longrightarrow> holds M (fold (\<lambda>s w. fst (cf_string_property q s sel w)) xs w)"
  by (induction xs arbitrary: w) (simp_all add: string_property_holds)

lemma pick_sink_holds: "holds M w \<Longrightarrow> holds M (fst (pick_sink q streams w))"
proof -
  assume "holds M w"
  then have "holds M (fst (find_object q OBJECT_NAME t streams
                        (fold (\<lambda>s w. fst (cf_string_property q s OBJECT_NAME w)) streams w)))" for t
    by (intro find_object_holds fold_string_holds)
  from this [of "\<lambda>n. contains (to_ascii_lowercase n) SINK_STREAM_NAME_MARKER"] show ?thesis
    by (auto simp: pick_sink_def split: prod.split option.split)
qed

lemma open_sink_holds:
  assumes "holds M w"
  shows "case open_sink qs ss d s w of
           (w', Inl e) \<Rightarrow> holds M w' | (w', Inr f) \<Rightarrow> holds (add_mset (f_queue f) M) w'"
proof -
  obtain w1 r where c: "create w = (w1, r)" by (rule prod.exhaust)
  have "holds (add_mset r M) w1" using holds_create(1) [OF assms] c by simp
  then show ?thesis
    using assms c by (auto simp: open_sink_def holds_release holds_stream)
qed

lemma feed_new_holds:
  assumes "holds M w"
  shows "case feed_new q qs ss w of
           (w', Inl e) \<Rightarrow> holds M w' | (w', Inr f) \<Rightarrow> holds (add_mset (f_queue f) M) w'"
proof (cases "get_object_array q SYSTEM_OBJECT DEVICES")
  case (Inl e)
  with assms show ?thesis by (simp add: feed_new_def)
next
  case (Inr devices)
  obtain w1 found where f: "find_device q devices w = (w1, found)" by (rule prod.exhaust)
  have w1: "holds M w1"
    using find_object_holds [OF assms] f by (metis find_device_def fst_conv)
  show ?thesis
  proof (cases found)
    case None
    with Inr f w1 show ?thesis by (simp add: feed_new_def)
  next
    case (Some device)
    show ?thesis
    proof (cases "get_object_array q device STREAMS")
      case (Inl e)
      with Inr f w1 Some show ?thesis by (simp add: feed_new_def)
    next
      case (Inr streams)
      obtain w2 sink where p: "pick_sink q streams w1 = (w2, sink)" by (rule prod.exhaust)
      have "holds M w2" using pick_sink_holds [OF w1, of q streams] p by simp
      from open_sink_holds [OF this, of qs ss device sink] show ?thesis
        using \<open>get_object_array q SYSTEM_OBJECT DEVICES = Inr devices\<close> f w1 Some Inr p
        by (simp add: feed_new_def)
    qed
  qed
qed

lemma feed_enqueue_holds:
  assumes "holds M w" "feed_enqueue a (f, w) = (f', w')"
  shows "holds M w' \<and> f_queue f' = f_queue f"
proof -
  obtain w1 fmt where c1: "create w = (w1, fmt)" by (rule prod.exhaust)
  obtain w2 x where c2: "create w1 = (w2, x)" by (rule prod.exhaust)
  have h1: "holds (add_mset fmt M) w1" using holds_create(1) [OF assms(1)] c1 by simp
  have "holds (add_mset fmt (add_mset x M)) w2"
    using holds_create(1) [OF h1] c2 by (simp add: add_mset_commute)
  then have h2: "holds (add_mset x M) (release fmt w2)" by (rule holds_release)
  then have h3: "holds (add_mset x (add_mset x M)) (record_call (Retained x) (release fmt w2))"
    by (rule holds_retain)
  have h4: "holds M (release x (record_call (Handed x) (record_call (Retained x) (release fmt w2))))"
    by (rule holds_release, rule holds_hand, rule h3)
  have h5: "holds M (release x (release x (record_call (Retained x) (release fmt w2))))"
    by (rule holds_release, rule holds_release, rule h3)
  show ?thesis
    using assms c1 c2 holds_release [OF h1] h4 h5
    by (auto simp: feed_enqueue_def Let_def split: if_splits)
qed

lemma feed_drop_holds: "holds (add_mset (f_queue f) M) w \<Longrightarrow> holds M (feed_drop f w)"
  by (simp add: feed_drop_def holds_release holds_stream)

section \<open>The decoder\<close>

definition feed_refs :: "camera_feed option \<Rightarrow> nat multiset" where
  "feed_refs f = (case f of None \<Rightarrow> {#} | Some f \<Rightarrow> {#f_queue f#})"

definition ref_mset :: "nat \<Rightarrow> nat multiset" where
  "ref_mset r = (if r = 0 then {#} else {#r#})"

definition decoder_refs :: "camera_decoder \<Rightarrow> nat multiset" where
  "decoder_refs d = ref_mset (cd_session d) + ref_mset (cd_format_desc d) + feed_refs (cb_feed (cd_cb d))"

text \<open>The front end and the objects agree on whether there is a session.\<close>

definition decoder_ok :: "camera_decoder \<Rightarrow> bool" where
  "decoder_ok d \<longleftrightarrow> (dec_session (cd_front d) \<longleftrightarrow> cd_session d \<noteq> 0) \<and> (cd_session d \<noteq> 0 \<longleftrightarrow> cd_format_desc d \<noteq> 0)"

lemma decode_output_holds:
  assumes "holds M w" "decode_output dump a (c, w) = (c', w')"
  shows "holds M w' \<and> feed_refs (cb_feed c') = feed_refs (cb_feed c)"
proof (cases "cb_feed c")
  case None
  with assms show ?thesis by (auto simp: decode_output_def Let_def feed_refs_def split: if_splits)
next
  case (Some f)
  obtain f' w1 where e: "feed_enqueue (o_enqueue a) (f, w) = (f', w1)" by (rule prod.exhaust)
  from feed_enqueue_holds [OF assms(1) e] have "holds M w1" "f_queue f' = f_queue f" by simp_all
  with assms Some e show ?thesis
    by (auto simp: decode_output_def Let_def feed_refs_def split: if_splits)
qed

lemma outputs_hold:
  "holds M w \<Longrightarrow> fold (decode_output dump) os (c, w) = (c', w')
     \<Longrightarrow> holds M w' \<and> feed_refs (cb_feed c') = feed_refs (cb_feed c)"
proof (induction os arbitrary: c w)
  case Nil
  then show ?case by simp
next
  case (Cons a os)
  obtain c1 w1 where d: "decode_output dump a (c, w) = (c1, w1)" by (rule prod.exhaust)
  note h1 = decode_output_holds [OF Cons.prems(1) d]
  show ?case using Cons.IH [of w1 c1] h1 Cons.prems(2) d by simp
qed

lemma build_session_holds:
  assumes "holds (decoder_refs d + M) w" "cd_session d = 0" "cd_format_desc d = 0"
    and "build_session a (d, w) = (d', w')"
  shows "holds (decoder_refs d' + M) w' \<and> cd_front d' = cd_front d
    \<and> (if a_format_ok a \<and> a_session_ok a then cd_session d' \<noteq> 0 \<and> cd_format_desc d' \<noteq> 0
       else cd_session d' = 0 \<and> cd_format_desc d' = 0)"
proof -
  let ?M = "decoder_refs d + M"
  obtain w1 fmt where c1: "create w = (w1, fmt)" by (rule prod.exhaust)
  obtain w2 x where c2: "create w1 = (w2, x)" by (rule prod.exhaust)
  have h1: "holds (add_mset fmt ?M) w1" "fmt \<noteq> 0" using holds_create [OF assms(1)] c1 by simp_all
  have h2: "holds (add_mset x (add_mset fmt ?M)) w2" "x \<noteq> 0" using holds_create [OF h1(1)] c2 by simp_all
  have "decoder_refs (d\<lparr>cd_format_desc := fmt, cd_session := x\<rparr>) + M = add_mset x (add_mset fmt ?M)"
    using assms(2,3) h1(2) h2(2) by (simp add: decoder_refs_def ref_mset_def)
  then have "holds (decoder_refs (d\<lparr>cd_format_desc := fmt, cd_session := x\<rparr>) + M) w2"
    using h2 by (simp only:)
  then show ?thesis
    using assms c1 c2 h1 h2 holds_release [OF h1(1)]
    by (auto simp: build_session_def split: if_splits)
qed

lemma decode_avcc_holds:
  assumes "holds (decoder_refs d + M) w" "cd_session d \<noteq> 0" "decode_avcc dump a (d, w) = (d', w')"
  shows "holds (decoder_refs d' + M) w' \<and> cd_front d' = cd_front d
    \<and> cd_session d' = cd_session d \<and> cd_format_desc d' = cd_format_desc d"
proof -
  let ?M = "decoder_refs d + M"
  obtain w1 block where c1: "create w = (w1, block)" by (rule prod.exhaust)
  obtain w2 x where c2: "create w1 = (w2, x)" by (rule prod.exhaust)
  have h1: "holds (add_mset block ?M) w1" using holds_create(1) [OF assms(1)] c1 by simp
  have h2: "holds (add_mset x (add_mset block ?M)) w2" using holds_create(1) [OF h1] c2 by simp
  have s: "cd_session d \<in># add_mset x (add_mset block ?M)"
    using assms(2) by (simp add: decoder_refs_def ref_mset_def)
  have h3: "holds (add_mset x (add_mset block ?M)) (record_call (DecodeFrame (cd_session d) x) w2)"
    by (rule holds_decode [OF h2 s]) simp
  obtain c w3 where o3: "fold (decode_output dump) (a_outputs a)
      (cd_cb d, record_call (DecodeFrame (cd_session d) x) w2) = (c, w3)" by (rule prod.exhaust)
  from outputs_hold [OF h3 o3]
  have h4: "holds (add_mset x (add_mset block ?M)) w3" and r: "feed_refs (cb_feed c) = feed_refs (cb_feed (cd_cb d))"
    by simp_all
  have h5: "holds ?M (release block (release x w3))"
    by (rule holds_release, rule holds_release, rule h4)
  have "decoder_refs (d\<lparr>cd_cb := c\<rparr>) = decoder_refs d" using r by (simp add: decoder_refs_def)
  then show ?thesis
    using assms c1 c2 o3 h5 holds_release [OF h1]
    by (auto simp: decode_avcc_def split: if_splits)
qed

lemma collect_nals_session: "dec_session (fst (foldl collect_nal s nals)) = dec_session (fst s)"
proof (induction nals arbitrary: s)
  case Nil
  then show ?case by simp
next
  case (Cons nal nals)
  have "dec_session (fst (collect_nal s nal)) = dec_session (fst s)"
    by (cases s) (simp add: collect_nal_def Let_def)
  with Cons show ?case by simp
qed

lemma camera_decode_holds:
  assumes "holds (decoder_refs d + M) w" "decoder_ok d" "camera_decode dump a bs (d, w) = (d', w')"
  shows "holds (decoder_refs d' + M) w' \<and> decoder_ok d'"
proof -
  obtain col avcc where c: "foldl collect_nal (cd_front d, []) (annexb_nals bs) = (col, avcc)"
    by (rule prod.exhaust)
  have ses: "dec_session col \<longleftrightarrow> cd_session d \<noteq> 0"
    using collect_nals_session [of "(cd_front d, [])" "annexb_nals bs"] c assms(2) by (simp add: decoder_ok_def)
  obtain front out where f: "decode (a_format_ok a \<and> a_session_ok a) (cd_front d) bs = (front, out)"
    by (rule prod.exhaust)
  define builds where "builds \<longleftrightarrow> \<not> dec_session col \<and> dec_sps col \<noteq> None \<and> dec_pps col \<noteq> None"
  obtain d1 w1 where b: "(if builds then build_session a (d, w) else (d, w)) = (d1, w1)" by (rule prod.exhaust)
  have d1: "holds (decoder_refs d1 + M) w1 \<and> (dec_session front \<longleftrightarrow> cd_session d1 \<noteq> 0)
      \<and> (cd_session d1 \<noteq> 0 \<longleftrightarrow> cd_format_desc d1 \<noteq> 0) \<and> (out \<noteq> None \<longrightarrow> cd_session d1 \<noteq> 0)"
  proof (cases builds)
    case True
    then have "cd_session d = 0" "cd_format_desc d = 0"
      using ses assms(2) by (auto simp: builds_def decoder_ok_def)
    from build_session_holds [OF assms(1) this, of a d1 w1] True b show ?thesis
      using c f by (auto simp: decode_def builds_def split: if_splits)
  next
    case False
    then show ?thesis
      using b c f ses assms(1,2) by (auto simp: decode_def builds_def decoder_ok_def split: if_splits)
  qed
  let ?d2 = "d1\<lparr>cd_front := front\<rparr>"
  have d2: "holds (decoder_refs ?d2 + M) w1" using d1 by (simp add: decoder_refs_def)
  have run: "(case out of None \<Rightarrow> (?d2, w1) | Some _ \<Rightarrow> decode_avcc dump a (?d2, w1)) = (d', w')"
    using assms(3) c f b by (simp add: camera_decode_def builds_def Let_def split: prod.splits)
  show ?thesis
  proof (cases out)
    case None
    with run d2 d1 show ?thesis by (auto simp: decoder_ok_def)
  next
    case (Some x)
    then have av: "decode_avcc dump a (?d2, w1) = (d', w')" using run by simp
    have "cd_session ?d2 \<noteq> 0" using d1 Some by simp
    from decode_avcc_holds [OF d2 this av] d1 Some show ?thesis by (auto simp: decoder_ok_def)
  qed
qed

lemma ref_release_holds: "holds (ref_mset r + M) w \<Longrightarrow> holds M (if r \<noteq> 0 then release r w else w)"
  by (auto simp: ref_mset_def holds_release split: if_splits)

lemma camera_decoder_drop_holds:
  assumes "holds (decoder_refs d + M) w"
  shows "holds M (camera_decoder_drop d w)"
proof -
  let ?F = "feed_refs (cb_feed (cd_cb d)) + M"
  let ?w0 = "if cd_session d \<noteq> 0 then record_call (Invalidated (cd_session d)) w else w"
  have "cd_session d \<noteq> 0 \<Longrightarrow> cd_session d \<in># decoder_refs d + M"
    by (simp add: decoder_refs_def ref_mset_def)
  then have "holds (decoder_refs d + M) ?w0" using assms by (simp add: holds_invalidate)
  then have "holds (ref_mset (cd_session d) + (ref_mset (cd_format_desc d) + ?F)) ?w0"
    by (simp only: decoder_refs_def add.assoc)
  from ref_release_holds [OF ref_release_holds [OF this]]
  have "holds ?F (if cd_format_desc d \<noteq> 0
      then release (cd_format_desc d) (if cd_session d \<noteq> 0 then release (cd_session d) ?w0 else ?w0)
      else (if cd_session d \<noteq> 0 then release (cd_session d) ?w0 else ?w0))" .
  then show ?thesis
    by (auto simp: camera_decoder_drop_def Let_def feed_refs_def feed_drop_holds split: option.split if_splits)
qed

section \<open>The sink\<close>

definition sink_refs :: "camera_sink \<Rightarrow> nat multiset" where
  "sink_refs s = (case s_decoder s of None \<Rightarrow> {#} | Some d \<Rightarrow> decoder_refs d)"

definition sink_ok :: "camera_sink \<times> cf \<Rightarrow> bool" where
  "sink_ok p \<longleftrightarrow> holds (sink_refs (fst p)) (snd p)
     \<and> (case s_decoder (fst p) of None \<Rightarrow> True | Some d \<Rightarrow> decoder_ok d)"

lemma decoder_new_refs: "decoder_refs (camera_decoder_new f) = feed_refs f"
  by (simp add: decoder_refs_def camera_decoder_new_def ref_mset_def)

lemma decoder_new_ok: "decoder_ok (camera_decoder_new f)"
  by (simp add: decoder_ok_def camera_decoder_new_def decoder_new_def)

lemma on_media_type_ok:
  assumes "sink_ok (s, w)"
  shows "sink_ok (on_media_type dump a format width height (s, w))"
proof (cases "format = FORMAT_H264")
  case False
  then show ?thesis using assms by (simp add: on_media_type_def Let_def sink_ok_def sink_refs_def)
next
  case True
  obtain w1 r where f: "feed_new (m_cmio a) (m_queue_status a) (m_start_status a) w = (w1, r)"
    by (rule prod.exhaust)
  let ?feed = "case r of Inr f \<Rightarrow> Some f | Inl e \<Rightarrow> None"
  have "holds (sink_refs s) w" using assms by (simp add: sink_ok_def)
  from feed_new_holds [OF this, of "m_cmio a" "m_queue_status a" "m_start_status a"]
  have h: "holds (sink_refs s + feed_refs ?feed) w1"
    unfolding f by (cases r) (simp_all add: feed_refs_def)
  have "holds (feed_refs ?feed) (case s_decoder s of None \<Rightarrow> w1 | Some old \<Rightarrow> camera_decoder_drop old w1)"
    using h by (cases "s_decoder s") (simp_all add: sink_refs_def camera_decoder_drop_holds)
  then show ?thesis
    using True f
    by (simp add: on_media_type_def Let_def sink_ok_def sink_refs_def decoder_new_refs decoder_new_ok)
qed

lemma on_sample_ok:
  assumes "sink_ok (s, w)"
  shows "sink_ok (on_sample dump write_ok a data (s, w))"
proof (cases "s_decoder s")
  case None
  then show ?thesis
    using assms by (auto simp: on_sample_def Let_def sink_ok_def sink_refs_def split: option.split)
next
  case (Some d)
  obtain d' w' where c: "camera_decode dump a data (d, w) = (d', w')" by (rule prod.exhaust)
  have "holds (decoder_refs d + {#}) w" "decoder_ok d"
    using assms Some by (simp_all add: sink_ok_def sink_refs_def)
  from camera_decode_holds [OF this c] show ?thesis
    using Some c by (auto simp: on_sample_def Let_def sink_ok_def sink_refs_def split: option.split)
qed

lemma sink_step_ok: "sink_ok p \<Longrightarrow> sink_ok (sink_step dump e p)"
  by (cases p; cases e) (simp_all add: on_media_type_ok on_sample_ok)

interpretation camera: stepper "\<lambda>p e. sink_step dump e p" sink_ok "\<lambda>e. True" for dump
  by unfold_locales (rule sink_step_ok)

text \<open>C20. Whatever media types and samples a client sends over the life of a camera channel, and
  whichever calls of the system fail, every object that was obtained is released when the channel
  ends, none is used, retained or released after its last reference is gone, and the reference on a
  frame that was put on the queue of the virtual camera is left to its consumer (\<open>CameraSink\<close>,
  \<open>H264Decoder\<close> and \<open>CameraFeed\<close> of \<open>src/src/camera\<close>).\<close>

theorem camera_objects_balanced:
  "sound_calls (cf_log (camera_life dump es)) \<and> refs r (cf_log (camera_life dump es)) = 0"
proof -
  obtain s w where p: "fold (sink_step dump) es (camera_sink_new, cf_init) = (s, w)" by (rule prod.exhaust)
  have "sink_ok (camera_sink_new, cf_init)"
    by (simp add: sink_ok_def sink_refs_def camera_sink_new_def holds_init)
  from camera.run_inv [OF this, of es dump] p have ok: "sink_ok (s, w)"
    by (simp add: foldl_conv_fold)
  have "holds {#} (camera_sink_drop (s, w))"
    using ok by (cases "s_decoder s")
      (simp_all add: camera_sink_drop_def sink_ok_def sink_refs_def camera_decoder_drop_holds)
  then show ?thesis using p by (simp add: camera_life_def holds_def)
qed

section \<open>The dump and the luma\<close>

text \<open>The dump is never more than the cap and one sample; it starts again empty with a new media type,
  but its count does not.\<close>

lemma on_sample_dump:
  assumes "case s_dump s of None \<Rightarrow> True | Some file \<Rightarrow> length file \<le> s_dumped_bytes s"
  shows "case s_dump (fst (on_sample dump ok a data (s, w))) of
           None \<Rightarrow> True
         | Some file \<Rightarrow> length file \<le> s_dumped_bytes (fst (on_sample dump ok a data (s, w)))"
  using assms
  by (auto simp: on_sample_def Let_def split: option.splits prod.splits if_splits)

lemma luma_grid_bound: "x \<in> set (luma_grid n) \<Longrightarrow> x < n"
proof -
  assume "x \<in> set (luma_grid n)"
  then obtain i where i: "x = i * max (n div 64) 1" "i < (n + max (n div 64) 1 - 1) div max (n div 64) 1"
    by (auto simp: luma_grid_def Let_def)
  let ?k = "max (n div 64) 1"
  have "(i + 1) * ?k \<le> n + ?k - 1"
    using i(2) by (metis Suc_eq_plus1 Suc_leI div_times_less_eq_dividend le_trans mult_le_mono1)
  then have "i * ?k + ?k \<le> n + ?k - 1" by (simp only: add_mult_distrib mult_1)
  moreover have "1 \<le> ?k" by (rule max.cobounded2)
  ultimately show ?thesis unfolding i(1) by linarith
qed

text \<open>Every byte the average looks at is in the plane.\<close>

lemma inspect_luma_in_plane:
  assumes "y \<in> set (luma_grid h)" "x \<in> set (luma_grid w)" "w \<le> stride" "h * stride \<le> length px"
  shows "y * stride + x < length px"
proof -
  have "y * stride + x < Suc y * stride" using luma_grid_bound [OF assms(2)] assms(3) by simp
  also have "\<dots> \<le> h * stride" using luma_grid_bound [OF assms(1)] by (intro mult_le_mono1) simp
  finally show ?thesis using assms(4) by simp
qed

section \<open>A second media type\<close>

text \<open>
  A channel that is told a media type again starts the stream of the virtual camera for the new feed
  and then stops it for the old one: the last call about the stream is the stop, while the new feed
  keeps putting frames on its queue.
\<close>

definition one_camera :: cmio where
  "one_camera =
     \<lparr>array_size = \<lambda>obj sel. Inr (if obj = SYSTEM_OBJECT then 4 else 8),
      array_data = \<lambda>obj sel. Inr (if obj = SYSTEM_OBJECT then [5] else [6, 7]),
      string_data = \<lambda>obj sel. Some (Some (if obj = 5 then MACRDP_CAMERA_DEVICE_UID
                                         else if obj = 7 then SINK_STREAM_NAME_MARKER else []))\<rparr>"

definition camera_answer :: media_answer where
  "camera_answer = \<lparr>m_create_ok = False, m_cmio = one_camera, m_queue_status = 0, m_start_status = 0\<rparr>"

lemma marker_found: "contains (to_ascii_lowercase SINK_STREAM_NAME_MARKER) SINK_STREAM_NAME_MARKER"
proof -
  have "to_ascii_lowercase SINK_STREAM_NAME_MARKER = SINK_STREAM_NAME_MARKER" by code_simp
  then show ?thesis by (simp add: contains_def)
qed

lemma no_marker: "\<not> contains (to_ascii_lowercase []) SINK_STREAM_NAME_MARKER"
  by (simp add: contains_def to_ascii_lowercase_def SINK_STREAM_NAME_MARKER_def lit_def)

lemma one_camera_opens:
  "\<exists>n rest q. feed_new one_camera 0 0 w =
     (\<lparr>cf_next = n, cf_log = StartStream 5 7 # rest\<rparr>,
      Inr \<lparr>f_device = 5, f_stream = 7, f_queue = q, f_enqueued = 0, f_dropped_full = 0\<rparr>)"
  by (simp add: feed_new_def get_object_array_def one_camera_def find_device_def SYSTEM_OBJECT_def
      pick_sink_def cf_string_property_def marker_found no_marker open_sink_def record_call_def
      create_def release_def)

lemma media_type_again_stops_stream:
  "\<exists>s n q rest. fold (sink_step False) [MediaType camera_answer 1 640 480, MediaType camera_answer 1 1280 720]
             (camera_sink_new, cf_init)
         = (s, \<lparr>cf_next = n, cf_log = Released q # StopStream 5 7 # StartStream 5 7 # rest\<rparr>)
     \<and> (\<exists>d f. s_decoder s = Some d \<and> cb_feed (cd_cb d) = Some f \<and> f_stream f = 7)"
proof -
  obtain n1 r1 q1 where f1: "feed_new one_camera 0 0 cf_init =
     (\<lparr>cf_next = n1, cf_log = StartStream 5 7 # r1\<rparr>,
      Inr \<lparr>f_device = 5, f_stream = 7, f_queue = q1, f_enqueued = 0, f_dropped_full = 0\<rparr>)"
    using one_camera_opens by blast
  obtain n2 r2 q2 where f2: "feed_new one_camera 0 0 \<lparr>cf_next = n1, cf_log = StartStream 5 7 # r1\<rparr> =
     (\<lparr>cf_next = n2, cf_log = StartStream 5 7 # r2\<rparr>,
      Inr \<lparr>f_device = 5, f_stream = 7, f_queue = q2, f_enqueued = 0, f_dropped_full = 0\<rparr>)"
    using one_camera_opens by blast
  show ?thesis
    by (simp add: on_media_type_def camera_answer_def FORMAT_H264_def Let_def f1 f2 camera_sink_new_def
        camera_decoder_new_def camera_decoder_drop_def feed_drop_def release_def record_call_def)
qed

end
