(* ===== verification/Vt_Convert.thy ===== *)
theory Vt_Convert
  imports Yuv_Props Rust_Float
begin

text \<open>
  The colour conversion of the encoder, \<open>bgra_to_nv12_full_range\<close> of \<open>src/src/videotoolbox.rs\<close>: a BGRA
  picture becomes a luma plane and an interleaved plane of chroma, one sample of each per block of
  2 by 2 pixels, both over the whole range of a byte. The \<open>f32\<close> computations are real arithmetic. The
  loops are those of the code; a slice that starts behind the end of its plane, and an index
  behind it, is the code's panic, \<open>None\<close>.
\<close>

definition KR :: real where "KR = 2126 / 10000"

definition KG :: real where "KG = 7152 / 10000"

definition KB :: real where "KB = 722 / 10000"

definition luma :: "real \<times> real \<times> real \<Rightarrow> real" where
  "luma = (\<lambda>(b, g, r). KR * r + KG * g + KB * b)"

definition chroma_b :: "real \<times> real \<times> real \<Rightarrow> real" where
  "chroma_b c = (case c of (b, g, r) \<Rightarrow> (b - luma c) / 1.8556 + 128)"

definition chroma_r :: "real \<times> real \<times> real \<Rightarrow> real" where
  "chroma_r c = (case c of (b, g, r) \<Rightarrow> (r - luma c) / 1.5748 + 128)"

text \<open>\<open>&plane[off..]\<close> only has to start inside.\<close>

definition starts_in :: "bytes \<Rightarrow> nat \<Rightarrow> unit option" where
  "starts_in plane off = (if off \<le> length plane then Some () else None)"

definition f32_from :: "u8 \<Rightarrow> real" where "f32_from v = real (unat v)"

definition bgr_at :: "bytes \<Rightarrow> nat \<Rightarrow> (real \<times> real \<times> real) option" where
  "bgr_at bgra i =
     (if i + 2 < length bgra
      then Some (f32_from (bgra ! i), f32_from (bgra ! (i + 1)), f32_from (bgra ! (i + 2))) else None)"

definition put_sample :: "bytes \<Rightarrow> nat \<Rightarrow> u8 \<Rightarrow> bytes option" where
  "put_sample plane off v = (if off < length plane then Some (plane[off := v]) else None)"

definition luma_row :: "bytes \<Rightarrow> nat \<Rightarrow> nat \<Rightarrow> nat \<Rightarrow> bytes \<Rightarrow> bytes option" where
  "luma_row bgra src_off y_off width y_plane =
     for_range 0 width
       (\<lambda>x p. Option.bind (bgr_at bgra (src_off + x * 4)) (\<lambda>c. put_sample p (y_off + x) (round_u8 (luma c))))
       y_plane"

definition luma_plane :: "bytes \<Rightarrow> nat \<Rightarrow> nat \<Rightarrow> nat \<Rightarrow> bytes \<Rightarrow> nat \<Rightarrow> bytes option" where
  "luma_plane bgra src_stride width height y_plane y_stride =
     for_range 0 height
       (\<lambda>y p. Option.bind (starts_in bgra (y * src_stride)) (\<lambda>_.
                Option.bind (starts_in p (y * y_stride)) (\<lambda>_.
                  luma_row bgra (y * src_stride) (y * y_stride) width p)))
       y_plane"

definition add_colour :: "real \<times> real \<times> real \<Rightarrow> real \<times> real \<times> real \<Rightarrow> real \<times> real \<times> real" where
  "add_colour = (\<lambda>(b, g, r) (b', g', r'). (b + b', g + g', r + r'))"

definition block_sum :: "bytes \<Rightarrow> nat \<Rightarrow> nat \<Rightarrow> nat \<Rightarrow> (real \<times> real \<times> real) option" where
  "block_sum bgra src_stride cy cx =
     for_range 0 2
       (\<lambda>dy s. Option.bind (starts_in bgra ((cy * 2 + dy) * src_stride)) (\<lambda>_.
                 for_range 0 2
                   (\<lambda>dx s. map_option (add_colour s)
                             (bgr_at bgra ((cy * 2 + dy) * src_stride + (cx * 2 + dx) * 4)))
                   s))
       (0, 0, 0)"

definition block_mean :: "real \<times> real \<times> real \<Rightarrow> real \<times> real \<times> real" where
  "block_mean = (\<lambda>(b, g, r). (b / 4, g / 4, r / 4))"

definition chroma_row :: "bytes \<Rightarrow> nat \<Rightarrow> nat \<Rightarrow> nat \<Rightarrow> nat \<Rightarrow> bytes \<Rightarrow> bytes option" where
  "chroma_row bgra src_stride cy c_off cw cbcr_plane =
     for_range 0 cw
       (\<lambda>cx p. Option.bind (block_sum bgra src_stride cy cx) (\<lambda>s.
                 Option.bind (put_sample p (c_off + cx * 2) (round_u8 (chroma_b (block_mean s)))) (\<lambda>p'.
                   put_sample p' (c_off + cx * 2 + 1) (round_u8 (chroma_r (block_mean s))))))
       cbcr_plane"

definition chroma_plane :: "bytes \<Rightarrow> nat \<Rightarrow> nat \<Rightarrow> nat \<Rightarrow> bytes \<Rightarrow> nat \<Rightarrow> bytes option" where
  "chroma_plane bgra src_stride width height cbcr_plane cbcr_stride =
     for_range 0 (height div 2)
       (\<lambda>cy p. Option.bind (starts_in p (cy * cbcr_stride)) (\<lambda>_.
                 chroma_row bgra src_stride cy (cy * cbcr_stride) (width div 2) p))
       cbcr_plane"

definition bgra_to_nv12_full_range ::
  "bytes \<Rightarrow> nat \<Rightarrow> nat \<Rightarrow> nat \<Rightarrow> bytes \<Rightarrow> nat \<Rightarrow> bytes \<Rightarrow> nat \<Rightarrow> (bytes \<times> bytes) option" where
  "bgra_to_nv12_full_range bgra src_stride width height y_plane y_stride cbcr_plane cbcr_stride =
     Option.bind (luma_plane bgra src_stride width height y_plane y_stride) (\<lambda>y'.
       map_option (Pair y') (chroma_plane bgra src_stride width height cbcr_plane cbcr_stride))"

text \<open>
  The conversion to full-range luma and chroma: it never panics on planes that are large enough,
  writes every sample of the picture and nothing else, and what a decoder that takes both for
  full-range shows is the colour that was there, up to the rounding of the samples.
\<close>

section \<open>Pixels\<close>

definition bgr :: "bytes \<Rightarrow> nat \<Rightarrow> nat \<Rightarrow> nat \<Rightarrow> real \<times> real \<times> real" where
  "bgr p s y x =
     (f32_from (pix p s y (x * 4)), f32_from (pix p s y (x * 4 + 1)), f32_from (pix p s y (x * 4 + 2)))"

lemma bgr_at_fits:
  assumes "fits p s (4 * w) h" "y < h" "x < w"
  shows "bgr_at p (y * s + x * 4) = Some (bgr p s y x)"
  using fitsD [OF assms(1,2)] assms(3) by (simp add: bgr_at_def bgr_def pix_def add.assoc)

lemma starts_in_fits: "fits p s w h \<Longrightarrow> y < h \<Longrightarrow> starts_in p (y * s) = Some ()"
  using fitsD [of p s w h y] by (simp add: starts_in_def)

section \<open>The luma plane\<close>

lemma luma_row_pix:
  assumes "\<And>x. x < w \<Longrightarrow> bgr_at bgra (so + x * 4) = Some (col x)" and "yo + w \<le> length p"
  shows "\<exists>p'. luma_row bgra so yo w p = Some p' \<and> length p' = length p
    \<and> (\<forall>j. p' ! j = (if yo \<le> j \<and> j < yo + w then round_u8 (luma (col (j - yo))) else p ! j))"
proof -
  let ?P = "\<lambda>i q. length q = length p
    \<and> (\<forall>j. q ! j = (if yo \<le> j \<and> j < yo + i then round_u8 (luma (col (j - yo))) else p ! j))"
  let ?f = "\<lambda>x q. Option.bind (bgr_at bgra (so + x * 4)) (\<lambda>c. put_sample q (yo + x) (round_u8 (luma c)))"
  have "\<exists>u. for_range 0 w ?f p = Some u \<and> ?P (0 + w) u"
  proof (rule for_range_rule [where P = ?P])
    fix i q
    assume i: "0 \<le> i" "i < 0 + w" and q: "?P i q"
    have "?P (Suc i) (q [yo + i := round_u8 (luma (col i))])"
      using q i assms(2) by (auto simp: nth_list_update)
    moreover have "?f i q = Some (q [yo + i := round_u8 (luma (col i))])"
      using assms(1) [of i] assms(2) i q by (simp add: put_sample_def)
    ultimately show "\<exists>u. ?f i q = Some u \<and> ?P (Suc i) u" by blast
  qed auto
  then show ?thesis by (simp add: luma_row_def)
qed

lemma luma_plane_pix:
  assumes "fits bgra ss (4 * w) h" and "fits yp ys w h"
  shows "\<exists>p'. luma_plane bgra ss w h yp ys = Some p' \<and> length p' = length yp
    \<and> (\<forall>y x. x < ys \<longrightarrow> pix p' ys y x = (if y < h \<and> x < w then round_u8 (luma (bgr bgra ss y x)) else pix yp ys y x))"
proof -
  let ?P = "\<lambda>i q. length q = length yp
    \<and> (\<forall>y x. x < ys \<longrightarrow> pix q ys y x = (if y < i \<and> x < w then round_u8 (luma (bgr bgra ss y x)) else pix yp ys y x))"
  let ?f = "\<lambda>y p. Option.bind (starts_in bgra (y * ss)) (\<lambda>_. Option.bind (starts_in p (y * ys)) (\<lambda>_.
              luma_row bgra (y * ss) (y * ys) w p))"
  have "\<exists>u. for_range 0 h ?f yp = Some u \<and> ?P (0 + h) u"
  proof (rule for_range_rule [where P = ?P])
    fix i q
    assume i: "0 \<le> i" "i < 0 + h" and q: "?P i q"
    then have fq: "fits q ys w h" using fits_cong [of q yp] assms(2) by simp
    obtain p' where p': "luma_row bgra (i * ss) (i * ys) w q = Some p'" "length p' = length q"
      "\<And>j. p' ! j = (if i * ys \<le> j \<and> j < i * ys + w then round_u8 (luma (bgr bgra ss i (j - i * ys))) else q ! j)"
      using luma_row_pix [of w bgra "i * ss" "bgr bgra ss i" "i * ys" q]
        bgr_at_fits [OF assms(1)] fitsD [OF fq] i by auto
    have "pix p' ys y x = (if y < Suc i \<and> x < w then round_u8 (luma (bgr bgra ss y x)) else pix yp ys y x)"
      if "x < ys" for y x
    proof -
      have "pix p' ys y x = (if y = i \<and> x < w then round_u8 (luma (bgr bgra ss i x)) else pix q ys y x)"
        using offset_between [OF fits_stride [OF fq] that, of i y] by (auto simp: pix_def p'(3))
      with q that show ?thesis by (auto simp: less_Suc_eq)
    qed
    then have "?P (Suc i) p'" using q p'(2) by simp
    moreover have "?f i q = Some p'"
      using p'(1) starts_in_fits [OF assms(1)] starts_in_fits [OF fq] i by simp
    ultimately show "\<exists>u. ?f i q = Some u \<and> ?P (Suc i) u" by blast
  qed simp
  then show ?thesis by (simp add: luma_plane_def)
qed

section \<open>The chroma plane\<close>

definition block_colour :: "bytes \<Rightarrow> nat \<Rightarrow> nat \<Rightarrow> nat \<Rightarrow> real \<times> real \<times> real" where
  "block_colour p s cy cx =
     block_mean (add_colour (add_colour (add_colour (bgr p s (2 * cy) (2 * cx)) (bgr p s (2 * cy) (2 * cx + 1)))
       (bgr p s (2 * cy + 1) (2 * cx))) (bgr p s (2 * cy + 1) (2 * cx + 1)))"

lemma for_range_2: "for_range lo 2 f s = Option.bind (f lo s) (f (Suc lo))"
  by (simp add: numeral_2_eq_2) (cases "f lo s", auto split: bind_splits)

lemma add_colour_zero: "add_colour (0, 0, 0) c = c"
  by (cases c) (simp add: add_colour_def)

lemma block_sum_fits:
  assumes "fits p s (4 * w) h" "cy < h div 2" "cx < w div 2"
  shows "\<exists>sum. block_sum p s cy cx = Some sum \<and> block_mean sum = block_colour p s cy cx"
proof -
  have y: "2 * cy < h" "2 * cy + 1 < h" and x: "2 * cx < w" "2 * cx + 1 < w" using assms(2,3) by auto
  note px = bgr_at_fits [OF assms(1)]
  have st: "starts_in p (cy * 2 * s) = Some ()" "starts_in p (Suc (cy * 2) * s) = Some ()"
    using starts_in_fits [OF assms(1) y(1)] starts_in_fits [OF assms(1) y(2)] by (simp_all add: mult.commute)
  have at: "bgr_at p (cy * 2 * s + cx * 2 * 4) = Some (bgr p s (2 * cy) (2 * cx))"
    "bgr_at p (cy * 2 * s + Suc (cx * 2) * 4) = Some (bgr p s (2 * cy) (2 * cx + 1))"
    "bgr_at p (Suc (cy * 2) * s + cx * 2 * 4) = Some (bgr p s (2 * cy + 1) (2 * cx))"
    "bgr_at p (Suc (cy * 2) * s + Suc (cx * 2) * 4) = Some (bgr p s (2 * cy + 1) (2 * cx + 1))"
    using px [OF y(1) x(1)] px [OF y(1) x(2)] px [OF y(2) x(1)] px [OF y(2) x(2)]
    by (simp_all add: mult.commute)
  show ?thesis
    by (simp only: block_sum_def for_range_2 st at block_colour_def add_colour_zero add_0_right One_nat_def [symmetric]
        Suc_eq_plus1 [symmetric] bind.bind_lunit option.map) blast
qed

definition chroma_sample :: "real \<times> real \<times> real \<Rightarrow> nat \<Rightarrow> u8" where
  "chroma_sample c x = (if even x then round_u8 (chroma_b c) else round_u8 (chroma_r c))"

lemma chroma_row_pix:
  assumes "\<And>cx. cx < cw \<Longrightarrow> \<exists>sum. block_sum bgra ss cy cx = Some sum \<and> block_mean sum = col cx"
    and "co + 2 * cw \<le> length p"
  shows "\<exists>p'. chroma_row bgra ss cy co cw p = Some p' \<and> length p' = length p
    \<and> (\<forall>j. p' ! j = (if co \<le> j \<and> j < co + 2 * cw then chroma_sample (col ((j - co) div 2)) (j - co) else p ! j))"
proof -
  let ?P = "\<lambda>i q. length q = length p
    \<and> (\<forall>j. q ! j = (if co \<le> j \<and> j < co + 2 * i then chroma_sample (col ((j - co) div 2)) (j - co) else p ! j))"
  let ?f = "\<lambda>cx q. Option.bind (block_sum bgra ss cy cx) (\<lambda>s.
                 Option.bind (put_sample q (co + cx * 2) (round_u8 (chroma_b (block_mean s)))) (\<lambda>q'.
                   put_sample q' (co + cx * 2 + 1) (round_u8 (chroma_r (block_mean s)))))"
  have "\<exists>u. for_range 0 cw ?f p = Some u \<and> ?P (0 + cw) u"
  proof (rule for_range_rule [where P = ?P])
    fix i q
    assume i: "0 \<le> i" "i < 0 + cw" and q: "?P i q"
    let ?u = "q [co + i * 2 := round_u8 (chroma_b (col i)), co + i * 2 + 1 := round_u8 (chroma_r (col i))]"
    have len: "co + i * 2 + 1 < length q" using q i assms(2) by simp
    have new: "?u ! j = (if j = co + i * 2 then round_u8 (chroma_b (col i))
                 else if j = co + i * 2 + 1 then round_u8 (chroma_r (col i)) else q ! j)" for j
      using len by (auto simp: nth_list_update)
    have "?u ! j = (if co \<le> j \<and> j < co + 2 * Suc i then chroma_sample (col ((j - co) div 2)) (j - co) else p ! j)" for j
    proof -
      consider "j = co + i * 2" | "j = co + i * 2 + 1" | "j < co + i * 2" | "co + i * 2 + 1 < j" by linarith
      then show ?thesis
      proof cases
        case 1
        then show ?thesis unfolding new by (simp add: chroma_sample_def)
      next
        case 2
        then have "j - co = 2 * i + 1" by simp
        then have "even (j - co) = False" "(j - co) div 2 = i" by simp_all
        with 2 show ?thesis unfolding new by (simp add: chroma_sample_def)
      next
        case 3
        then show ?thesis unfolding new using q by (simp add: mult.commute)
      next
        case 4
        then show ?thesis unfolding new using q by (simp add: mult.commute)
      qed
    qed
    then have "?P (Suc i) ?u" using q by simp
    moreover have "?f i q = Some ?u"
      using assms(1) [of i] assms(2) i q by (auto simp: put_sample_def)
    ultimately show "\<exists>u. ?f i q = Some u \<and> ?P (Suc i) u" by blast
  qed auto
  then show ?thesis by (simp add: chroma_row_def)
qed

lemma chroma_plane_pix:
  assumes "fits bgra ss (4 * w) h" and "fits cp cs (2 * (w div 2)) (h div 2)"
  shows "\<exists>p'. chroma_plane bgra ss w h cp cs = Some p' \<and> length p' = length cp
    \<and> (\<forall>y x. x < cs \<longrightarrow> pix p' cs y x =
         (if y < h div 2 \<and> x < 2 * (w div 2) then chroma_sample (block_colour bgra ss y (x div 2)) x else pix cp cs y x))"
proof -
  let ?s = "\<lambda>y x. chroma_sample (block_colour bgra ss y (x div 2)) x"
  let ?P = "\<lambda>i q. length q = length cp
    \<and> (\<forall>y x. x < cs \<longrightarrow> pix q cs y x = (if y < i \<and> x < 2 * (w div 2) then ?s y x else pix cp cs y x))"
  let ?f = "\<lambda>cy p. Option.bind (starts_in p (cy * cs)) (\<lambda>_. chroma_row bgra ss cy (cy * cs) (w div 2) p)"
  have "\<exists>u. for_range 0 (h div 2) ?f cp = Some u \<and> ?P (0 + h div 2) u"
  proof (rule for_range_rule [where P = ?P])
    fix i q
    assume i: "0 \<le> i" "i < 0 + h div 2" and q: "?P i q"
    then have fq: "fits q cs (2 * (w div 2)) (h div 2)" using fits_cong [of q cp] assms(2) by simp
    obtain p' where p': "chroma_row bgra ss i (i * cs) (w div 2) q = Some p'" "length p' = length q"
      "\<And>j. p' ! j = (if i * cs \<le> j \<and> j < i * cs + 2 * (w div 2) then ?s i (j - i * cs) else q ! j)"
      using chroma_row_pix [of "w div 2" bgra ss i "block_colour bgra ss i" "i * cs" q]
        block_sum_fits [OF assms(1)] fitsD [OF fq] i by auto
    have "pix p' cs y x = (if y < Suc i \<and> x < 2 * (w div 2) then ?s y x else pix cp cs y x)" if "x < cs" for y x
    proof -
      have "pix p' cs y x = (if y = i \<and> x < 2 * (w div 2) then ?s i x else pix q cs y x)"
        using offset_between [OF fits_stride [OF fq] that, of i y] by (auto simp: pix_def p'(3))
      with q that show ?thesis by (auto simp: less_Suc_eq)
    qed
    then have "?P (Suc i) p'" using q p'(2) by simp
    moreover have "?f i q = Some p'" using p'(1) starts_in_fits [OF fq] i by simp
    ultimately show "\<exists>u. ?f i q = Some u \<and> ?P (Suc i) u" by blast
  qed simp
  then show ?thesis by (simp add: chroma_plane_def)
qed

section \<open>What a decoder shows\<close>

text \<open>The inverse of the matrix, on samples that span the whole range.\<close>

definition decode_full_range :: "u8 \<Rightarrow> u8 \<Rightarrow> u8 \<Rightarrow> real \<times> real \<times> real" where
  "decode_full_range y cb cr =
     (let l = f32_from y; b = l + 1.8556 * (f32_from cb - 128); r = l + 1.5748 * (f32_from cr - 128)
      in (b, (l - KR * r - KB * b) / KG, r))"

lemma f32_from_bounds: "0 \<le> f32_from v \<and> f32_from v \<le> 255"
  using unat_u8_less [of v] unfolding f32_from_def by (intro conjI; linarith)

lemma f32_from_round: "f32_from (round_u8 x) = of_int (clamp (f64_round x) 0 255)"
proof -
  have "real (unat (round_u8 x)) = of_int (uint (round_u8 x))" by simp
  then show ?thesis by (simp only: f32_from_def uint_round_u8)
qed

lemma round_u8_near:
  assumes "0 \<le> x" "x \<le> 255 + 1 / 2"
  shows "\<bar>f32_from (round_u8 x) - x\<bar> \<le> 1 / 2"
proof -
  have v: "f32_from (round_u8 x) = of_int (clamp (f64_round x) 0 255)" by (rule f32_from_round)
  have "f64_round x \<le> f64_round (255 + 1 / 2)" by (rule f64_round_mono [OF assms(2)])
  also have "\<dots> = 256" by (simp add: f64_round_def)
  finally have hi: "f64_round x \<le> 256" .
  have lo: "0 \<le> f64_round x" by (rule f64_round_nonneg [OF assms(1)])
  show ?thesis
  proof (cases "f64_round x = 256")
    case True
    with f64_round_near [of x] assms show ?thesis by (simp add: v clamp_def)
  next
    case False
    with hi lo f64_round_near [of x] show ?thesis by (simp add: v clamp_def)
  qed
qed

definition byte_colour :: "real \<times> real \<times> real \<Rightarrow> bool" where
  "byte_colour = (\<lambda>(b, g, r). 0 \<le> b \<and> b \<le> 255 \<and> 0 \<le> g \<and> g \<le> 255 \<and> 0 \<le> r \<and> r \<le> 255)"

lemma bgr_byte: "byte_colour (bgr p s y x)"
  by (simp add: byte_colour_def bgr_def f32_from_bounds)

lemma samples_in_range:
  assumes "byte_colour c"
  shows "0 \<le> luma c \<and> luma c \<le> 255 \<and> 0 \<le> chroma_b c \<and> chroma_b c \<le> 255 + 1 / 2
    \<and> 0 \<le> chroma_r c \<and> chroma_r c \<le> 255 + 1 / 2"
  using assms
  by (cases c) (simp add: byte_colour_def luma_def chroma_b_def chroma_r_def KR_def KG_def KB_def field_simps)

text \<open>A colour that is the same over a block comes back with an error below 3/2 in each channel.\<close>

definition close_to :: "real \<times> real \<times> real \<Rightarrow> real \<times> real \<times> real \<Rightarrow> bool" where
  "close_to = (\<lambda>(b, g, r) (b', g', r'). \<bar>b - b'\<bar> < 3 / 2 \<and> \<bar>g - g'\<bar> < 3 / 2 \<and> \<bar>r - r'\<bar> < 3 / 2)"

lemma scaled_error:
  fixes y :: real
  assumes "\<bar>y\<bar> \<le> 1 / 2" "0 \<le> k"
  shows "\<bar>k * y\<bar> \<le> k / 2"
  using mult_left_mono [OF assms] assms(2) by (simp add: abs_mult)

lemma decode_close:
  assumes "byte_colour c"
  shows "close_to (decode_full_range (round_u8 (luma c)) (round_u8 (chroma_b c)) (round_u8 (chroma_r c))) c"
proof -
  obtain b g r where c: "c = (b, g, r)" by (rule prod_cases3)
  define l u v where "l = f32_from (round_u8 (luma c))" "u = f32_from (round_u8 (chroma_b c))"
    "v = f32_from (round_u8 (chroma_r c))"
  note range = samples_in_range [OF assms]
  have near: "\<bar>l - luma c\<bar> \<le> 1 / 2" "\<bar>u - chroma_b c\<bar> \<le> 1 / 2" "\<bar>v - chroma_r c\<bar> \<le> 1 / 2"
    unfolding l_u_v_def by (rule round_u8_near; use range in simp)+
  define m where "m = (l - KR * (l + 1.5748 * (v - 128)) - KB * (l + 1.8556 * (u - 128))) / KG"
  have eqs: "l + 1.8556 * (u - 128) - b = (l - luma c) + 1.8556 * (u - chroma_b c)"
    "l + 1.5748 * (v - 128) - r = (l - luma c) + 1.5748 * (v - chroma_r c)"
    "m - g = (l - luma c) - 4185031 / 8940000 * (v - chroma_r c) - 1674679 / 8940000 * (u - chroma_b c)"
    by (simp_all add: m_def c luma_def chroma_b_def chroma_r_def KR_def KG_def KB_def field_simps)
  have errs: "\<bar>1.8556 * (u - chroma_b c)\<bar> < 1" "\<bar>1.5748 * (v - chroma_r c)\<bar> < 1"
    "\<bar>4185031 / 8940000 * (v - chroma_r c)\<bar> < 1 / 2" "\<bar>1674679 / 8940000 * (u - chroma_b c)\<bar> < 1 / 2"
    by (rule le_less_trans [OF scaled_error [OF near(2)]] le_less_trans [OF scaled_error [OF near(3)]]; simp)+
  have "\<bar>l + 1.8556 * (u - 128) - b\<bar> < 3 / 2" "\<bar>l + 1.5748 * (v - 128) - r\<bar> < 3 / 2" and g: "\<bar>m - g\<bar> < 3 / 2"
    unfolding eqs using near(1) errs by (simp_all only: abs_le_iff abs_less_iff) argo+
  with g show ?thesis
    unfolding m_def l_u_v_def c close_to_def decode_full_range_def Let_def prod.case by blast
qed

lemma grey_samples:
  "luma (v, v, v) = v" "chroma_b (v, v, v) = 128" "chroma_r (v, v, v) = 128"
  by (simp_all add: luma_def chroma_b_def chroma_r_def KR_def KG_def KB_def field_simps)

lemma round_u8_grey: "round_u8 (f32_from v) = v" "round_u8 128 = 128"
proof -
  have "f64_round (f32_from v) = int (unat v)" by (simp only: f32_from_def f64_round_of_nat)
  moreover have "clamp (int (unat v)) 0 255 = int (unat v)"
    by (rule clamp_id; use unat_u8_less [of v] in linarith)
  ultimately have "round_u8 (f32_from v) = of_int (int (unat v))" by (simp only: round_u8_def)
  then show "round_u8 (f32_from v) = v" by simp
qed (simp add: round_u8_def clamp_def)

section \<open>The picture\<close>

text \<open>C27. The conversion of a captured picture (\<open>bgra_to_nv12_full_range\<close>, \<open>src/src/videotoolbox.rs\<close>) into
  planes that are large enough never panics and touches nothing but the samples of the picture; every
  luma sample is that of its pixel; a grey pixel keeps its value exactly, black at 0 and white at
  255, and the chroma of a grey block is neutral; and where a block of 2 by 2 pixels has one colour, a
  decoder that takes the samples for full-range shows it with an error below 3/2 in each channel.\<close>

theorem full_range_colours_survive:
  assumes "fits bgra ss (4 * w) h" "fits yp ys w h" "fits cp cs (2 * (w div 2)) (h div 2)"
  shows "\<exists>y' c'. bgra_to_nv12_full_range bgra ss w h yp ys cp cs = Some (y', c')
    \<and> length y' = length yp \<and> length c' = length cp
    \<and> (\<forall>y x. x < ys \<longrightarrow> \<not> (y < h \<and> x < w) \<longrightarrow> pix y' ys y x = pix yp ys y x)
    \<and> (\<forall>y x. x < cs \<longrightarrow> \<not> (y < h div 2 \<and> x < 2 * (w div 2)) \<longrightarrow> pix c' cs y x = pix cp cs y x)
    \<and> (\<forall>y < h. \<forall>x < w. pix y' ys y x = round_u8 (luma (bgr bgra ss y x)))
    \<and> (\<forall>y < h. \<forall>x < w. \<forall>v. bgr bgra ss y x = (f32_from v, f32_from v, f32_from v) \<longrightarrow> pix y' ys y x = v)
    \<and> (\<forall>y < h div 2. \<forall>x < w div 2. \<forall>v. block_colour bgra ss y x = (v, v, v) \<longrightarrow>
         pix c' cs y (2 * x) = 128 \<and> pix c' cs y (2 * x + 1) = 128)
    \<and> (\<forall>y < h. \<forall>x < w. y div 2 < h div 2 \<longrightarrow> x div 2 < w div 2 \<longrightarrow>
         block_colour bgra ss (y div 2) (x div 2) = bgr bgra ss y x \<longrightarrow>
         close_to (decode_full_range (pix y' ys y x) (pix c' cs (y div 2) (2 * (x div 2)))
                    (pix c' cs (y div 2) (2 * (x div 2) + 1)))
           (bgr bgra ss y x))"
proof -
  obtain y' where y': "luma_plane bgra ss w h yp ys = Some y'" "length y' = length yp"
    "\<And>y x. x < ys \<Longrightarrow> pix y' ys y x = (if y < h \<and> x < w then round_u8 (luma (bgr bgra ss y x)) else pix yp ys y x)"
    using luma_plane_pix [OF assms(1,2)] by blast
  obtain c' where c': "chroma_plane bgra ss w h cp cs = Some c'" "length c' = length cp"
    "\<And>y x. x < cs \<Longrightarrow> pix c' cs y x =
       (if y < h div 2 \<and> x < 2 * (w div 2) then chroma_sample (block_colour bgra ss y (x div 2)) x else pix cp cs y x)"
    using chroma_plane_pix [OF assms(1,3)] by blast
  have l: "pix y' ys y x = round_u8 (luma (bgr bgra ss y x))" if "y < h" "x < w" for y x
    using y'(3) [of x y] that fits_stride [OF assms(2)] by simp
  have c: "pix c' cs y (2 * x) = round_u8 (chroma_b (block_colour bgra ss y x))"
    "pix c' cs y (2 * x + 1) = round_u8 (chroma_r (block_colour bgra ss y x))"
    if "y < h div 2" "x < w div 2" for y x
    using c'(3) [of "2 * x" y] c'(3) [of "2 * x + 1" y] that fits_stride [OF assms(3)]
    by (simp_all add: chroma_sample_def)
  have g: "pix y' ys y x = v" if "y < h" "x < w" "bgr bgra ss y x = (f32_from v, f32_from v, f32_from v)" for y x v
    using l [OF that(1,2)] that(3) by (simp add: grey_samples round_u8_grey)
  have d: "close_to (decode_full_range (pix y' ys y x) (pix c' cs (y div 2) (2 * (x div 2)))
                    (pix c' cs (y div 2) (2 * (x div 2) + 1))) (bgr bgra ss y x)"
    if "y < h" "x < w" "y div 2 < h div 2" "x div 2 < w div 2"
      "block_colour bgra ss (y div 2) (x div 2) = bgr bgra ss y x" for y x
    unfolding l [OF that(1,2)] c [OF that(3,4)] that(5) by (rule decode_close [OF bgr_byte])
  show ?thesis
    using y' c' l g c d
    by (intro exI [of _ y'] exI [of _ c']) (simp add: bgra_to_nv12_full_range_def grey_samples round_u8_grey)
qed

text \<open>Two rows of a blue and a grey block.\<close>

definition two_blocks :: bytes where
  "two_blocks =
     [255, 0, 0, 255, 255, 0, 0, 255, 77, 77, 77, 255, 77, 77, 77, 255,
      255, 0, 0, 255, 255, 0, 0, 255, 77, 77, 77, 255, 77, 77, 77, 255]"

lemma two_blocks_pixels:
  "bgr two_blocks 16 0 0 = (255, 0, 0)" "bgr two_blocks 16 1 3 = (f32_from 77, f32_from 77, f32_from 77)"
  "block_colour two_blocks 16 0 0 = (255, 0, 0)" "block_colour two_blocks 16 0 1 = (77, 77, 77)"
  by (simp_all add: bgr_def pix_def two_blocks_def f32_from_def block_colour_def add_colour_def block_mean_def)

theorem full_range_colours_survive_witness:
  "\<exists>y c. bgra_to_nv12_full_range two_blocks 16 4 2 (replicate 10 9) 5 (replicate 4 9) 4 = Some (y, c)
     \<and> pix y 5 1 3 = 77 \<and> pix y 5 1 4 = 9 \<and> pix c 4 0 2 = 128 \<and> pix c 4 0 3 = 128
     \<and> close_to (decode_full_range (pix y 5 0 0) (pix c 4 0 0) (pix c 4 0 1)) (255, 0, 0)"
proof -
  have "fits two_blocks 16 (4 * 4) 2" "fits (replicate 10 9) 5 4 2" "fits (replicate 4 9) 4 (2 * (4 div 2)) (2 div 2)"
    by (auto simp: fits_def two_blocks_def less_2_cases_iff)
  from full_range_colours_survive [OF this] obtain y c where
    r: "bgra_to_nv12_full_range two_blocks 16 4 2 (replicate 10 9) 5 (replicate 4 9) 4 = Some (y, c)"
    and out: "\<And>y0 x0. x0 < 5 \<Longrightarrow> \<not> (y0 < 2 \<and> x0 < 4) \<Longrightarrow> pix y 5 y0 x0 = pix (replicate 10 9) 5 y0 x0"
    and grey: "\<And>y0 x0 v. y0 < 2 \<Longrightarrow> x0 < 4 \<Longrightarrow> bgr two_blocks 16 y0 x0 = (f32_from v, f32_from v, f32_from v) \<Longrightarrow>
        pix y 5 y0 x0 = v"
    and block: "\<And>y0 x0 v. y0 < 1 \<Longrightarrow> x0 < 2 \<Longrightarrow> block_colour two_blocks 16 y0 x0 = (v, v, v) \<Longrightarrow>
        pix c 4 y0 (2 * x0) = 128 \<and> pix c 4 y0 (2 * x0 + 1) = 128"
    and shown: "\<And>y0 x0. y0 < 2 \<Longrightarrow> x0 < 4 \<Longrightarrow> y0 div 2 < 1 \<Longrightarrow> x0 div 2 < 2 \<Longrightarrow>
        block_colour two_blocks 16 (y0 div 2) (x0 div 2) = bgr two_blocks 16 y0 x0 \<Longrightarrow>
        close_to (decode_full_range (pix y 5 y0 x0) (pix c 4 (y0 div 2) (2 * (x0 div 2)))
          (pix c 4 (y0 div 2) (2 * (x0 div 2) + 1))) (bgr two_blocks 16 y0 x0)"
    by auto
  have "pix y 5 1 3 = 77" using grey [of 1 3 77] two_blocks_pixels by simp
  moreover have "pix y 5 1 4 = 9" using out [of 4 1] by (simp add: pix_def)
  moreover have "pix c 4 0 2 = 128" "pix c 4 0 3 = 128" using block [of 0 1 77] two_blocks_pixels by simp_all
  moreover have "close_to (decode_full_range (pix y 5 0 0) (pix c 4 0 0) (pix c 4 0 1)) (255, 0, 0)"
    using shown [of 0 0] two_blocks_pixels by simp
  ultimately show ?thesis using r by blast
qed

end
