(* ===== verification/Vt_Encoder.thy ===== *)
theory Vt_Encoder
  imports Vt_Convert Cf_Objects
begin

text \<open>
  The H.264 encoder, \<open>src/src/videotoolbox.rs\<close>: the compression session and its settings, the
  submission of a frame, the callback that delivers what was encoded, and the channel to the reader.
  The session is a parameter: every call of it, and of the frameworks that hold pixels, numbers and
  dictionaries, is answered by a record of what it returns. The objects and the heap cell that
  carries the time of a submission through the callback are those of \<open>Cf_Objects\<close>.
\<close>

section \<open>The session\<close>

datatype vt_key =
    RealTime
  | AllowFrameReordering
  | MaxFrameDelayCount
  | ProfileLevel
  | ColorPrimaries
  | TransferFunction
  | YCbCrMatrix
  | AverageBitRate
  | MaxKeyFrameInterval

datatype vt_value = Flag bool | Baseline | Itu709 | Number int

datatype vt_error =
    Create_status int
  | Property_status int
  | Number_null
  | Prepare_status int
  | Stride_overflow
  | Buffer_too_small nat nat
  | Pixel_buffer_status int
  | Encode_status int
  | Complete_status int

text \<open>A frame the session accepted: its time stamp, whether a keyframe is demanded, what it shows.\<close>

datatype vt_image = Nv12 bytes bytes | Bgra bytes

record submission =
  su_pts :: "64 word"
  su_timescale :: nat
  su_force :: bool
  su_image :: vt_image

record encoded_frame =
  ef_data :: bytes
  ef_keyframe :: bool
  ef_pts :: int
  ef_parameter_sets :: "bytes list"
  ef_latency_ms :: nat
  ef_ready_at :: instant

text \<open>The world of one encoder: the objects, the settings the session took (the newest first), the frames
  that are inside it with the cell and the time of each, all it ever accepted (the newest first), and
  the channel, which has a receiver or not.\<close>

record vt =
  vt_cf :: cf
  vt_settings :: "(vt_key \<times> vt_value) list"
  vt_pending :: "(nat \<times> instant) list"
  vt_accepted :: "submission list"
  vt_channel :: "encoded_frame list"
  vt_receiver :: bool

definition vt_init :: vt where
  "vt_init = \<lparr>vt_cf = cf_init, vt_settings = [], vt_pending = [], vt_accepted = [], vt_channel = [], vt_receiver = True\<rparr>"

text \<open>\<open>n as i32\<close>\<close>

definition cast_i32 :: "nat \<Rightarrow> int" where "cast_i32 n = sint (of_nat n :: 32 word)"

text \<open>The answer to a property: whether its number can be created, and the status.\<close>

definition set_property :: "int \<Rightarrow> vt_key \<Rightarrow> vt_value \<Rightarrow> vt \<Rightarrow> vt \<times> (vt_error + unit)" where
  "set_property status key v w =
     (if status \<noteq> 0 then (w, Inl (Property_status status))
      else (w\<lparr>vt_settings := (key, v) # vt_settings w\<rparr>, Inr ()))"

definition set_i32 :: "bool \<times> int \<Rightarrow> vt_key \<Rightarrow> int \<Rightarrow> vt \<Rightarrow> vt \<times> (vt_error + unit)" where
  "set_i32 a key v w =
     (if \<not> fst a then (w, Inl Number_null)
      else case create (vt_cf w) of
             (c, number) \<Rightarrow> set_property (snd a) key (Number v) (w\<lparr>vt_cf := release number c\<rparr>))"

definition set_value :: "bool \<times> int \<Rightarrow> vt_key \<Rightarrow> vt_value \<Rightarrow> vt \<Rightarrow> vt \<times> (vt_error + unit)" where
  "set_value a key v w =
     (case v of Number n \<Rightarrow> set_i32 a key n w | _ \<Rightarrow> set_property (snd a) key v w)"

text \<open>The settings of a new session, in the order they are made, each required or not.\<close>

definition session_settings :: "nat \<Rightarrow> nat \<Rightarrow> (vt_key \<times> vt_value \<times> bool) list" where
  "session_settings bitrate_bps keyframe_frames =
     [(RealTime, Flag True, True), (AllowFrameReordering, Flag False, True), (MaxFrameDelayCount, Number 0, False),
      (ProfileLevel, Baseline, True), (ColorPrimaries, Itu709, False), (TransferFunction, Itu709, False),
      (YCbCrMatrix, Itu709, False), (AverageBitRate, Number (cast_i32 bitrate_bps), True),
      (MaxKeyFrameInterval, Number (cast_i32 (max keyframe_frames 1)), True)]"

primrec apply_settings ::
  "(vt_key \<Rightarrow> bool \<times> int) \<Rightarrow> (vt_key \<times> vt_value \<times> bool) list \<Rightarrow> vt \<Rightarrow> vt \<times> (vt_error + unit)" where
  "apply_settings answers [] w = (w, Inr ())"
| "apply_settings answers (s # ss) w =
     (case s of (key, v, required) \<Rightarrow>
        (case set_value (answers key) key v w of
           (w', Inl e) \<Rightarrow> if required then (w', Inl e) else apply_settings answers ss w'
         | (w', Inr _) \<Rightarrow> apply_settings answers ss w'))"

definition drop_session :: "nat \<Rightarrow> cf \<Rightarrow> cf" where
  "drop_session session c =
     (if session = 0 then c else release session (record_call (Invalidated session) c))"

record session_answer =
  sa_create_status :: int
  sa_create_null :: bool
  sa_properties :: "vt_key \<Rightarrow> bool \<times> int"
  sa_prepare_status :: int

text \<open>An early return drops the guard, and so the session.\<close>

definition create_session :: "session_answer \<Rightarrow> nat \<Rightarrow> nat \<Rightarrow> vt \<Rightarrow> vt \<times> (vt_error + nat)" where
  "create_session a bitrate_bps keyframe_frames w =
     (if sa_create_status a \<noteq> 0 \<or> sa_create_null a then (w, Inl (Create_status (sa_create_status a)))
      else
        case create (vt_cf w) of
          (c, session) \<Rightarrow>
            let fail = (\<lambda>w e. (w\<lparr>vt_cf := drop_session session (vt_cf w)\<rparr>, Inl e))
            in case apply_settings (sa_properties a) (session_settings bitrate_bps keyframe_frames) (w\<lparr>vt_cf := c\<rparr>) of
                 (w1, Inl e) \<Rightarrow> fail w1 e
               | (w1, Inr _) \<Rightarrow>
                   if sa_prepare_status a \<noteq> 0 then fail w1 (Prepare_status (sa_prepare_status a))
                   else (w1, Inr session))"

section \<open>The encoder\<close>

record encoder =
  en_session :: nat
  en_rx :: bool
  en_width :: nat
  en_height :: nat
  en_next_pts :: "64 word"
  en_fps :: nat
  en_full_range :: bool

definition full_range_wanted :: "env \<Rightarrow> bool" where
  "full_range_wanted e \<longleftrightarrow> e ''MACRDP_H264_FULL_RANGE'' \<notin> Some ` {lit ''0'', lit ''false'', lit ''FALSE''}"

definition keyframe_frames_of :: "nat \<Rightarrow> real \<Rightarrow> nat" where
  "keyframe_frames_of fps keyframe_secs =
     nat (min (max (f64_round (real fps * keyframe_secs)) 1) (2 ^ 32 - 1))"

definition encoder_new ::
  "env \<Rightarrow> session_answer \<Rightarrow> nat \<Rightarrow> nat \<Rightarrow> nat \<Rightarrow> nat \<Rightarrow> real \<Rightarrow> vt \<Rightarrow> vt \<times> (vt_error + encoder)" where
  "encoder_new env a width height fps bitrate_bps keyframe_secs w =
     (case create_session a bitrate_bps (keyframe_frames_of fps keyframe_secs) w of
        (w1, Inl e) \<Rightarrow> (w1, Inl e)
      | (w1, Inr session) \<Rightarrow>
          (w1, Inr \<lparr>en_session = session, en_rx = True, en_width = width, en_height = height, en_next_pts = 0,
                    en_fps = fps, en_full_range = full_range_wanted env\<rparr>))"

text \<open>The receiver moves to the caller; the channel keeps a receiver.\<close>

definition take_receiver :: "encoder \<Rightarrow> encoder \<times> bool" where
  "take_receiver e = (e\<lparr>en_rx := False\<rparr>, en_rx e)"

definition set_bitrate :: "bool \<times> int \<Rightarrow> nat \<Rightarrow> vt \<Rightarrow> vt \<times> (vt_error + unit)" where
  "set_bitrate a bitrate_bps = set_i32 a AverageBitRate (cast_i32 (max bitrate_bps 1))"

definition set_keyframe_interval :: "bool \<times> int \<Rightarrow> nat \<Rightarrow> vt \<Rightarrow> vt \<times> (vt_error + unit)" where
  "set_keyframe_interval a keyframe_frames = set_i32 a MaxKeyFrameInterval (cast_i32 (max keyframe_frames 1))"

section \<open>Submitting a frame\<close>

text \<open>The answers to one frame: the pixel buffer, with its planes (or its one plane) and their strides;
  whether the accelerated conversion succeeds, and the planes as it leaves them; whether the
  dictionary of the frame can be created; the status of the submission; the clock.\<close>

record frame_answer =
  fa_buffer_status :: int
  fa_buffer_null :: bool
  fa_planes :: "bytes \<times> bytes"
  fa_strides :: "nat \<times> nat"
  fa_vimage_ok :: bool
  fa_bgra :: bytes
  fa_bgra_stride :: nat
  fa_dict_ok :: bool
  fa_status :: int
  fa_now :: instant

text \<open>\<open>None\<close>: the scalar conversion panics, or the copy of rows leaves one of its buffers.\<close>

definition fill_image :: "frame_answer \<Rightarrow> encoder \<Rightarrow> bytes \<Rightarrow> nat \<Rightarrow> vt_image option" where
  "fill_image a e bgra stride =
     (if en_full_range e
      then if fa_vimage_ok a then Some (Nv12 (fst (fa_planes a)) (snd (fa_planes a)))
           else map_option (\<lambda>(y, c). Nv12 y c)
                  (bgra_to_nv12_full_range bgra stride (en_width e) (en_height e)
                     (fst (fa_planes a)) (fst (fa_strides a)) (snd (fa_planes a)) (snd (fa_strides a)))
      else map_option Bgra
             (copy_plane bgra stride (en_width e * 4) (en_height e) (fa_bgra a) (fa_bgra_stride a)))"

definition timescale_of :: "nat \<Rightarrow> nat" where "timescale_of fps = (if fps < 2 ^ 31 then fps else 30)"

text \<open>The submission itself: the dictionary lives for the call; an accepted frame takes the cell along, a
  refused one gives it back, and the pixel buffer is released either way.\<close>

definition submit_frame ::
  "frame_answer \<Rightarrow> encoder \<Rightarrow> submission \<Rightarrow> nat \<Rightarrow> nat \<Rightarrow> vt \<Rightarrow> vt \<times> (vt_error + unit)" where
  "submit_frame a e sub cell pbuf w =
     (let (c1, props) = (if su_force sub \<and> fa_dict_ok a then create (vt_cf w) else (vt_cf w, 0));
          c2 = record_call (EncodeFrame (en_session e) pbuf props) c1;
          release_props = (\<lambda>c. if props \<noteq> 0 then release props c else c)
      in if fa_status a \<noteq> 0
         then (w\<lparr>vt_cf := release pbuf (release cell (release_props c2))\<rparr>, Inl (Encode_status (fa_status a)))
         else (w\<lparr>vt_cf := release pbuf (release_props (record_call (Handed cell) c2)),
                 vt_pending := vt_pending w @ [(cell, fa_now a)],
                 vt_accepted := sub # vt_accepted w\<rparr>, Inr ()))"

definition encode_frame ::
  "frame_answer \<Rightarrow> encoder \<Rightarrow> bytes \<Rightarrow> nat \<Rightarrow> 64 word \<Rightarrow> bool \<Rightarrow> vt \<Rightarrow> (vt \<times> (vt_error + unit)) option" where
  "encode_frame a e bgra stride pts force_keyframe w =
     (case create (vt_cf w) of
        (c1, cell) \<Rightarrow>
          if fa_buffer_status a \<noteq> 0 \<or> fa_buffer_null a
          then Some (w\<lparr>vt_cf := release cell c1\<rparr>, Inl (Pixel_buffer_status (fa_buffer_status a)))
          else
            case create c1 of
              (c2, pbuf) \<Rightarrow>
                map_option
                  (\<lambda>image. submit_frame a e
                     \<lparr>su_pts = pts, su_timescale = timescale_of (en_fps e), su_force = force_keyframe, su_image = image\<rparr>
                     cell pbuf (w\<lparr>vt_cf := c2\<rparr>))
                  (fill_image a e bgra stride))"

definition encode_bgra ::
  "frame_answer \<Rightarrow> bytes \<Rightarrow> nat \<Rightarrow> bool \<Rightarrow> encoder \<times> vt \<Rightarrow> ((encoder \<times> vt) \<times> (vt_error + unit)) option" where
  "encode_bgra a bgra stride force_keyframe = (\<lambda>(e, w).
     if 2 ^ 64 \<le> stride * en_height e then Some ((e, w), Inl Stride_overflow)
     else if length bgra < stride * en_height e
     then Some ((e, w), Inl (Buffer_too_small (length bgra) (stride * en_height e)))
     else
       map_option (\<lambda>(w', r). ((e\<lparr>en_next_pts := en_next_pts e + 1\<rparr>, w'), r))
         (encode_frame a e bgra stride (en_next_pts e) force_keyframe w))"

section \<open>What was encoded\<close>

text \<open>A sample: its bytes, when they are there and can be copied; what its attachments say of \<open>NotSync\<close>, if
  anything; the parameter sets its format yields, one after the other, each with the count that is
  reported; its time stamp.\<close>

record vt_sample =
  sm_data :: "bytes option"
  sm_not_sync :: "bool option"
  sm_sets :: "(bytes \<times> nat) list option"
  sm_pts :: int

primrec collect_sets :: "nat \<Rightarrow> (bytes \<times> nat) list \<Rightarrow> bytes list" where
  "collect_sets i [] = []"
| "collect_sets i (s # ss) =
     (if fst s = [] then []
      else fst s # (if 0 < snd s \<and> snd s \<le> i + 1 then [] else collect_sets (i + 1) ss))"

definition is_sync :: "bool option \<Rightarrow> bool" where
  "is_sync not_sync = (case not_sync of None \<Rightarrow> True | Some b \<Rightarrow> \<not> b)"

definition extract_frame :: "vt_sample \<Rightarrow> nat \<Rightarrow> instant \<Rightarrow> encoded_frame option" where
  "extract_frame s latency_ms now =
     (case sm_data s of
        None \<Rightarrow> None
      | Some data \<Rightarrow>
          Some \<lparr>ef_data = data, ef_keyframe = is_sync (sm_not_sync s), ef_pts = sm_pts s,
                ef_parameter_sets =
                  (if is_sync (sm_not_sync s)
                   then (case sm_sets s of None \<Rightarrow> [] | Some sets \<Rightarrow> collect_sets 0 sets) else []),
                ef_latency_ms = latency_ms, ef_ready_at = now\<rparr>)"

text \<open>The frame that comes back is number \<open>j\<close> of those inside the session, or none whose cell is
  known (a null pointer).\<close>

definition take_back :: "nat option \<Rightarrow> instant \<Rightarrow> vt \<Rightarrow> vt \<times> nat" where
  "take_back j now w =
     (case j of
        None \<Rightarrow> (w, 0)
      | Some i \<Rightarrow>
          (case vt_pending w ! i of
             (cell, submitted_at) \<Rightarrow>
               (w\<lparr>vt_cf := release cell (record_call (Returned cell) (vt_cf w)),
                  vt_pending := take i (vt_pending w) @ drop (Suc i) (vt_pending w)\<rparr>,
                min (saturating_duration_since now submitted_at div 1000000) (2 ^ 32 - 1))))"

definition output_callback :: "nat option \<Rightarrow> instant \<Rightarrow> int \<Rightarrow> vt_sample option \<Rightarrow> vt \<Rightarrow> vt" where
  "output_callback j now status sample w =
     (case take_back j now w of
        (w1, latency_ms) \<Rightarrow>
          (case sample of
             None \<Rightarrow> w1
           | Some s \<Rightarrow>
               if status \<noteq> 0 then w1
               else case extract_frame s latency_ms now of
                      None \<Rightarrow> w1
                    | Some f \<Rightarrow> if vt_receiver w1 then w1\<lparr>vt_channel := vt_channel w1 @ [f]\<rparr> else w1))"

definition drain :: "encoder \<Rightarrow> vt \<Rightarrow> vt \<times> encoded_frame list" where
  "drain e w = (if en_rx e then (w\<lparr>vt_channel := []\<rparr>, vt_channel w) else (w, []))"

text \<open>The callbacks that complete the frames inside come before.\<close>

definition flush :: "int \<Rightarrow> encoder \<Rightarrow> vt \<Rightarrow> vt \<times> (vt_error + encoded_frame list)" where
  "flush status e w =
     (if status \<noteq> 0 then (w, Inl (Complete_status status))
      else case drain e w of (w', fs) \<Rightarrow> (w', Inr fs))"

definition encoder_drop :: "encoder \<times> vt \<Rightarrow> vt" where
  "encoder_drop = (\<lambda>(e, w).
     w\<lparr>vt_cf := drop_session (en_session e) (vt_cf w), vt_receiver := (vt_receiver w \<and> \<not> en_rx e)\<rparr>)"

section \<open>The life of an encoder\<close>

text \<open>\<open>Callback\<close> runs on a thread of the session; \<open>Received\<close> is the thread that took the receiver.\<close>

datatype vt_event =
    Encode frame_answer bytes nat bool
  | Callback "nat option" instant int "vt_sample option"
  | SetBitrate "bool \<times> int" nat
  | SetInterval "bool \<times> int" nat
  | TakeReceiver
  | Received
  | Drain
  | Flush int

fun vt_step :: "encoder \<times> vt \<Rightarrow> vt_event \<Rightarrow> (encoder \<times> vt) option" where
  "vt_step (e, w) (Encode a bgra stride force) = map_option fst (encode_bgra a bgra stride force (e, w))"
| "vt_step (e, w) (Callback j now status sample) = Some (e, output_callback j now status sample w)"
| "vt_step (e, w) (SetBitrate a n) = Some (e, fst (set_bitrate a n w))"
| "vt_step (e, w) (SetInterval a n) = Some (e, fst (set_keyframe_interval a n w))"
| "vt_step (e, w) TakeReceiver = Some (fst (take_receiver e), w)"
| "vt_step (e, w) Received = Some (e, if en_rx e then w else w\<lparr>vt_channel := tl (vt_channel w)\<rparr>)"
| "vt_step (e, w) Drain = Some (e, fst (drain e w))"
| "vt_step (e, w) (Flush status) = Some (e, fst (flush status e w))"

end
