(* ===== verification/Vt_Props.thy ===== *)
theory Vt_Props
  imports Vt_Encoder
begin

text \<open>
  The encoder gives back what it takes: every object of the frameworks is released once and none is
  used after that, on every error path too, and the cell that carries the time of a submission is
  freed when its frame comes back; the time stamps of the accepted frames increase.
\<close>

section \<open>Cells that are with the session\<close>

primrec handed_out :: "cf_call list \<Rightarrow> nat multiset" where
  "handed_out [] = {#}"
| "handed_out (c # cs) =
     (case c of Handed x \<Rightarrow> add_mset x (handed_out cs) | Returned x \<Rightarrow> handed_out cs - {#x#} | _ \<Rightarrow> handed_out cs)"

lemma handed_out_simps [simp]:
  "handed_out (cf_log (release r c)) = handed_out (cf_log c)"
  "handed_out (cf_log (record_call (Handed x) c)) = add_mset x (handed_out (cf_log c))"
  "handed_out (cf_log (record_call (Returned x) c)) = handed_out (cf_log c) - {#x#}"
  "handed_out (cf_log (record_call (EncodeFrame s p d) c)) = handed_out (cf_log c)"
  "handed_out (cf_log (record_call (Invalidated s) c)) = handed_out (cf_log c)"
  by (simp_all add: release_def record_call_def)

lemma create_effect:
  "create c = (c', n) \<Longrightarrow> n = cf_next c \<and> cf_next c' = cf_next c + 1 \<and> handed_out (cf_log c') = handed_out (cf_log c)"
  by (auto simp: create_def)

definition cells_ok :: "nat \<Rightarrow> vt \<Rightarrow> bool" where
  "cells_ok session w \<longleftrightarrow>
     distinct (map fst (vt_pending w)) \<and> (\<forall>p \<in> set (vt_pending w). fst p < cf_next (vt_cf w) \<and> fst p \<noteq> session)
     \<and> handed_out (cf_log (vt_cf w)) = mset (map fst (vt_pending w))"

definition encoder_ok :: "encoder \<times> vt \<Rightarrow> bool" where
  "encoder_ok = (\<lambda>(e, w). holds {#en_session e#} (vt_cf w) \<and> en_session e \<noteq> 0 \<and> cells_ok (en_session e) w)"

text \<open>An operation on the objects that leaves the cells alone.\<close>

definition keeps_cells :: "vt \<Rightarrow> vt \<Rightarrow> bool" where
  "keeps_cells w w' \<longleftrightarrow>
     vt_pending w' = vt_pending w \<and> vt_accepted w' = vt_accepted w \<and> cf_next (vt_cf w) \<le> cf_next (vt_cf w')
     \<and> handed_out (cf_log (vt_cf w')) = handed_out (cf_log (vt_cf w))"

lemma cells_kept_refl [simp]: "keeps_cells w w"
  by (simp add: keeps_cells_def)

lemma cells_kept_trans: "keeps_cells w w1 \<Longrightarrow> keeps_cells w1 w2 \<Longrightarrow> keeps_cells w w2"
  by (simp add: keeps_cells_def)

lemma keeps_cells_ok: "keeps_cells w w' \<Longrightarrow> cells_ok session w \<Longrightarrow> cells_ok session w'"
  by (auto simp: keeps_cells_def cells_ok_def intro: less_le_trans)

section \<open>Settings\<close>

lemma set_property_cf: "vt_cf (fst (set_property st k v w)) = vt_cf w"
  by (simp add: set_property_def)

lemma set_property_keeps: "keeps_cells w (fst (set_property st k v w))"
  by (simp add: set_property_def keeps_cells_def)

lemma set_i32_ok:
  assumes "holds M (vt_cf w)"
  shows "holds M (vt_cf (fst (set_i32 a k v w))) \<and> keeps_cells w (fst (set_i32 a k v w))"
proof (cases "fst a")
  case True
  obtain c n where c: "create (vt_cf w) = (c, n)" by (rule prod.exhaust)
  have "holds M (release n c)" using holds_release [of n M c] holds_create(1) [OF assms] c by simp
  moreover have "keeps_cells w (w\<lparr>vt_cf := release n c\<rparr>)"
    using create_effect [OF c] by (simp add: keeps_cells_def cf_next_simps)
  ultimately show ?thesis
    using True c cells_kept_trans [OF _ set_property_keeps] by (simp add: set_i32_def set_property_cf)
qed (simp add: set_i32_def assms)

lemma set_value_ok:
  assumes "holds M (vt_cf w)"
  shows "holds M (vt_cf (fst (set_value a k v w))) \<and> keeps_cells w (fst (set_value a k v w))"
  using set_i32_ok [OF assms] assms by (cases v) (simp_all add: set_value_def set_property_cf set_property_keeps)

lemma apply_settings_ok:
  "holds M (vt_cf w) \<Longrightarrow>
     holds M (vt_cf (fst (apply_settings answers ss w))) \<and> keeps_cells w (fst (apply_settings answers ss w))"
proof (induction ss arbitrary: w)
  case Nil
  then show ?case by simp
next
  case (Cons s ss)
  obtain key v req where s: "s = (key, v, req)" by (rule prod_cases3)
  obtain w1 r where r: "set_value (answers key) key v w = (w1, r)" by (rule prod.exhaust)
  have one: "holds M (vt_cf w1)" "keeps_cells w w1"
    using set_value_ok [OF Cons.prems, of "answers key" key v] r by simp_all
  show ?case
    using Cons.IH [OF one(1)] one cells_kept_trans [OF one(2)] by (cases r) (auto simp: s r)
qed

lemma drop_session_holds: "holds {#session#} c \<Longrightarrow> session \<noteq> 0 \<Longrightarrow> holds {#} (drop_session session c)"
  by (simp add: drop_session_def holds_release holds_invalidate)

lemma create_session_ok:
  assumes "holds {#} (vt_cf w)" "create_session a bitrate kf w = (w', r)"
  shows "case r of Inl e \<Rightarrow> holds {#} (vt_cf w') \<and> handed_out (cf_log (vt_cf w')) = handed_out (cf_log (vt_cf w))
    | Inr session \<Rightarrow> holds {#session#} (vt_cf w') \<and> session \<noteq> 0 \<and> keeps_cells w w'"
proof (cases "sa_create_status a \<noteq> 0 \<or> sa_create_null a")
  case True
  then show ?thesis using assms by (auto simp: create_session_def)
next
  case False
  obtain c n where c: "create (vt_cf w) = (c, n)" by (rule prod.exhaust)
  have h: "holds {#n#} (vt_cf (w\<lparr>vt_cf := c\<rparr>))" "n \<noteq> 0" and k: "keeps_cells w (w\<lparr>vt_cf := c\<rparr>)"
    using holds_create [OF assms(1)] create_effect [OF c] c
    by (simp_all add: keeps_cells_def)
  obtain w1 r1 where s: "apply_settings (sa_properties a) (session_settings bitrate kf) (w\<lparr>vt_cf := c\<rparr>) = (w1, r1)"
    by (rule prod.exhaust)
  have one: "holds {#n#} (vt_cf w1)" "keeps_cells w w1"
    using apply_settings_ok [OF h(1), of "sa_properties a" "session_settings bitrate kf"] s cells_kept_trans [OF k] by simp_all
  have fail: "holds {#} (drop_session n (vt_cf w1))"
    "handed_out (cf_log (drop_session n (vt_cf w1))) = handed_out (cf_log (vt_cf w))"
    using drop_session_holds [OF one(1) h(2)] one(2) h(2) by (simp_all add: drop_session_def keeps_cells_def)
  show ?thesis
    using assms(2) False c s one h(2) fail
    by (cases r1) (auto simp: create_session_def Let_def split: if_splits)
qed

section \<open>Frames\<close>

lemma submit_frame_ok:
  assumes h: "holds {#pbuf, cell, en_session e#} (vt_cf w)" and ne: "en_session e \<noteq> 0" "pbuf \<noteq> 0" "cell \<noteq> en_session e"
    and ok: "cells_ok (en_session e) w" "cell \<notin> fst ` set (vt_pending w)"
  shows "encoder_ok (e, fst (submit_frame a e sub cell pbuf w))"
proof -
  let ?M = "{#pbuf, cell, en_session e#}"
  define cp where "cp = (if su_force sub \<and> fa_dict_ok a then create (vt_cf w) else (vt_cf w, 0))"
  obtain c1 props where c1: "cp = (c1, props)" by (rule prod.exhaust)
  define P where "P = (if props = 0 then {#} else {#props#})"
  have one: "holds (P + ?M) c1" "handed_out (cf_log c1) = handed_out (cf_log (vt_cf w))" "cf_next (vt_cf w) \<le> cf_next c1"
    using holds_create [OF h] h c1 create_effect [of "vt_cf w" c1 props]
    by (auto simp: cp_def P_def add_mset_commute split: if_splits)
  define c2 where "c2 = record_call (EncodeFrame (en_session e) pbuf props) c1"
  have two: "holds (P + ?M) c2"
    unfolding c2_def by (rule holds_encode [OF one(1)]) (auto simp: P_def)
  define rel where "rel = (\<lambda>c. if props \<noteq> 0 then release props c else c)"
  have rel: "holds (P + N) c \<Longrightarrow> holds N (rel c)" "handed_out (cf_log (rel c)) = handed_out (cf_log c)"
    "cf_next (rel c) = cf_next c" for N c
    by (auto simp: rel_def P_def holds_release cf_next_simps split: if_splits)
  have nx: "cf_next c2 = cf_next c1" "handed_out (cf_log c2) = handed_out (cf_log (vt_cf w))"
    by (simp_all add: c2_def cf_next_simps one(2))
  have cell: "cell < cf_next (vt_cf w)" by (rule holds_next [OF h]) simp
  have sf: "submit_frame a e sub cell pbuf w =
    (if fa_status a \<noteq> 0
     then (w\<lparr>vt_cf := release pbuf (release cell (rel c2))\<rparr>, Inl (Encode_status (fa_status a)))
     else (w\<lparr>vt_cf := release pbuf (rel (record_call (Handed cell) c2)),
             vt_pending := vt_pending w @ [(cell, fa_now a)], vt_accepted := sub # vt_accepted w\<rparr>, Inr ()))"
    using c1 unfolding submit_frame_def cp_def rel_def c2_def by simp
  show ?thesis
  proof (cases "fa_status a = 0")
    case False
    have "holds {#en_session e#} (release pbuf (release cell (rel c2)))"
      by (intro holds_release) (use rel(1) [OF two] in \<open>simp add: add_mset_commute\<close>)
    moreover have "keeps_cells w (w\<lparr>vt_cf := release pbuf (release cell (rel c2))\<rparr>)"
      using one(3) nx rel by (simp add: keeps_cells_def cf_next_simps)
    ultimately show ?thesis
      using False ne keeps_cells_ok [OF _ ok(1)] by (simp add: encoder_ok_def sf)
  next
    case True
    have "holds (add_mset cell (P + {#pbuf, en_session e#})) c2"
      using two by (simp add: add_mset_commute)
    then have "holds (P + {#pbuf, en_session e#}) (record_call (Handed cell) c2)" by (rule holds_hand)
    then have "holds {#en_session e#} (release pbuf (rel (record_call (Handed cell) c2)))"
      by (intro holds_release rel(1))
    then show ?thesis
      using True ok ne one(3) nx rel cell
      by (auto simp: encoder_ok_def cells_ok_def sf cf_next_simps intro: less_le_trans)
  qed
qed

lemma encode_frame_ok:
  assumes ok: "encoder_ok (e, w)" and r: "encode_frame a e bgra stride pts force w = Some (w', x)"
  shows "encoder_ok (e, w')"
proof -
  have h: "holds {#en_session e#} (vt_cf w)" and ne: "en_session e \<noteq> 0" and cells: "cells_ok (en_session e) w"
    using ok by (simp_all add: encoder_ok_def)
  obtain c1 cell where c1: "create (vt_cf w) = (c1, cell)" by (rule prod.exhaust)
  obtain c2 pbuf where c2: "create c1 = (c2, pbuf)" by (rule prod.exhaust)
  have n1: "cell = cf_next (vt_cf w)" "cf_next c1 = cf_next (vt_cf w) + 1" "cf_next c2 = cf_next c1 + 1"
    using create_effect [OF c1] create_effect [OF c2] by simp_all
  have h1: "holds {#cell, en_session e#} c1" using holds_create(1) [OF h] c1 by simp
  have h2: "holds {#pbuf, cell, en_session e#} c2" "pbuf \<noteq> 0" using holds_create [OF h1] c2 by simp_all
  have hand: "handed_out (cf_log c1) = handed_out (cf_log (vt_cf w))" "handed_out (cf_log c2) = handed_out (cf_log (vt_cf w))"
    using create_effect [OF c1] create_effect [OF c2] by simp_all
  have cell: "cell \<noteq> en_session e" using holds_next [OF h, of "en_session e"] n1 by simp
  show ?thesis
  proof (cases "fa_buffer_status a \<noteq> 0 \<or> fa_buffer_null a")
    case True
    have "keeps_cells w (w\<lparr>vt_cf := release cell c1\<rparr>)" using n1 hand by (simp add: keeps_cells_def cf_next_simps)
    then show ?thesis
      using r True c1 h1 ne keeps_cells_ok [OF _ cells] by (auto simp: encode_frame_def encoder_ok_def holds_release)
  next
    case False
    have k: "keeps_cells w (w\<lparr>vt_cf := c2\<rparr>)" using n1 hand by (simp add: keeps_cells_def)
    have "cell \<notin> fst ` set (vt_pending w)" using cells n1 by (auto simp: cells_ok_def)
    then have "encoder_ok (e, fst (submit_frame a e sub cell pbuf (w\<lparr>vt_cf := c2\<rparr>)))" for sub
      using submit_frame_ok [of pbuf cell e "w\<lparr>vt_cf := c2\<rparr>"] h2 ne cell keeps_cells_ok [OF k cells] by simp
    then show ?thesis using r False c1 c2 by (auto simp: encode_frame_def) (metis fst_conv)
  qed
qed

lemma encoder_ok_pts: "encoder_ok (e\<lparr>en_next_pts := p\<rparr>, w) \<longleftrightarrow> encoder_ok (e, w)"
  by (simp add: encoder_ok_def)

lemma encode_bgra_ok:
  "encoder_ok (e, w) \<Longrightarrow> encode_bgra a bgra stride force (e, w) = Some (s', x) \<Longrightarrow> encoder_ok s'"
  by (auto simp: encode_bgra_def encoder_ok_pts split: if_splits dest: encode_frame_ok)

lemma take_back_ok:
  assumes "encoder_ok (e, w)" "case j of None \<Rightarrow> True | Some i \<Rightarrow> i < length (vt_pending w)"
  shows "encoder_ok (e, fst (take_back j now w))"
proof (cases j)
  case (Some i)
  with assms(2) have i: "i < length (vt_pending w)" by simp
  obtain cell t where p: "vt_pending w ! i = (cell, t)" by (rule prod.exhaust)
  have split: "vt_pending w = take i (vt_pending w) @ (cell, t) # drop (Suc i) (vt_pending w)"
    using id_take_nth_drop [OF i] p by simp
  have h: "holds {#en_session e#} (vt_cf w)" and c: "cells_ok (en_session e) w" "en_session e \<noteq> 0"
    using assms(1) by (simp_all add: encoder_ok_def)
  have "(cell, t) \<in> set (vt_pending w)" using nth_mem [OF i] p by simp
  then have cell: "cell < cf_next (vt_cf w)" "cell \<noteq> en_session e" using c(1) by (auto simp: cells_ok_def)
  have "holds {#cell, en_session e#} (record_call (Returned cell) (vt_cf w))"
    using holds_return [OF h _ cell(1)] cell(2) by simp
  then have "holds {#en_session e#} (release cell (record_call (Returned cell) (vt_cf w)))" by (rule holds_release)
  moreover have "mset (map fst (vt_pending w)) =
      add_mset cell (mset (map fst (take i (vt_pending w))) + mset (map fst (drop (Suc i) (vt_pending w))))"
    by (subst split) simp
  moreover have "distinct (map fst (take i (vt_pending w) @ drop (Suc i) (vt_pending w)))"
  proof -
    have "distinct (map fst (take i (vt_pending w) @ (cell, t) # drop (Suc i) (vt_pending w)))"
      unfolding split [symmetric] using c(1) by (simp add: cells_ok_def)
    then show ?thesis by auto
  qed
  ultimately show ?thesis
    using c Some p
    by (auto simp: take_back_def encoder_ok_def cells_ok_def cf_next_simps dest: in_set_takeD in_set_dropD)
qed (use assms(1) in \<open>simp add: take_back_def\<close>)

lemma encoder_ok_channel:
  "encoder_ok (e, w\<lparr>vt_channel := q\<rparr>) \<longleftrightarrow> encoder_ok (e, w)" "encoder_ok (e\<lparr>en_rx := b\<rparr>, w) \<longleftrightarrow> encoder_ok (e, w)"
  by (simp_all add: encoder_ok_def cells_ok_def)

lemma output_callback_ok:
  assumes "encoder_ok (e, w)" "case j of None \<Rightarrow> True | Some i \<Rightarrow> i < length (vt_pending w)"
  shows "encoder_ok (e, output_callback j now st sample w)"
proof -
  obtain w1 ms where t: "take_back j now w = (w1, ms)" by (rule prod.exhaust)
  have "encoder_ok (e, w1)" using take_back_ok [OF assms, of now] t by simp
  then show ?thesis
    by (simp add: output_callback_def t encoder_ok_channel split: option.split)
qed

lemma set_i32_encoder_ok:
  "encoder_ok (e, w) \<Longrightarrow> encoder_ok (e, fst (set_i32 a k v w))"
  using set_i32_ok [of "{#en_session e#}" w a k v] keeps_cells_ok [of w _ "en_session e"]
  by (auto simp: encoder_ok_def)

text \<open>The session returns a cell only for a frame that is inside it.\<close>

definition lawful_event :: "vt_event \<Rightarrow> vt \<Rightarrow> bool" where
  "lawful_event ev w \<longleftrightarrow> (case ev of Callback (Some i) now st sample \<Rightarrow> i < length (vt_pending w) | _ \<Rightarrow> True)"

text \<open>A run, with its events, the newest first.\<close>

inductive encoder_reach :: "encoder \<times> vt \<Rightarrow> vt_event list \<Rightarrow> encoder \<times> vt \<Rightarrow> bool" for s0 where
  reach_start: "encoder_reach s0 [] s0"
| reach_event:
    "encoder_reach s0 evs s \<Longrightarrow> lawful_event ev (snd s) \<Longrightarrow> vt_step s ev = Some s' \<Longrightarrow>
       encoder_reach s0 (ev # evs) s'"

lemma vt_step_ok:
  assumes "encoder_ok (e, w)" "lawful_event ev w" "vt_step (e, w) ev = Some s'"
  shows "encoder_ok s'"
proof (cases ev)
  case (Encode a bgra stride force)
  then show ?thesis using assms(1,3) encode_bgra_ok [OF assms(1)] by auto
next
  case (Callback j now st sample)
  have "encoder_ok (e, output_callback j now st sample w)"
    by (rule output_callback_ok [OF assms(1)]) (use assms(2) Callback in \<open>auto simp: lawful_event_def split: option.splits\<close>)
  then show ?thesis using Callback assms(3) by simp
next
  case (SetBitrate a n)
  then show ?thesis using assms(3) set_i32_encoder_ok [OF assms(1)] by (cases a) (auto simp: set_bitrate_def)
next
  case (SetInterval a n)
  then show ?thesis using assms(3) set_i32_encoder_ok [OF assms(1)] by (cases a) (auto simp: set_keyframe_interval_def)
qed (use assms in \<open>auto simp: take_receiver_def drain_def flush_def encoder_ok_channel split: prod.splits if_splits\<close>)

lemma encoder_reach_ok: "encoder_reach s0 evs s \<Longrightarrow> encoder_ok s0 \<Longrightarrow> encoder_ok s"
proof (induction rule: encoder_reach.induct)
  case (reach_event evs s ev s')
  then show ?case using vt_step_ok [of "fst s" "snd s" ev s'] by simp
qed

section \<open>Time stamps\<close>

text \<open>
  The time stamps are those of the counter \<open>next_pts\<close>: those of the accepted frames, the newest first,
  fall strictly and are all below the counter, which is at most the number \<open>n\<close> of submissions.
\<close>

definition counted :: "nat \<Rightarrow> encoder \<times> vt \<Rightarrow> bool" where
  "counted n = (\<lambda>(e, w). unat (en_next_pts e) \<le> n
     \<and> sorted_wrt (>) (map (\<lambda>f. unat (su_pts f)) (vt_accepted w))
     \<and> (\<forall>f \<in> set (vt_accepted w). unat (su_pts f) < unat (en_next_pts e)))"

primrec submissions :: "vt_event list \<Rightarrow> nat" where
  "submissions [] = 0"
| "submissions (ev # evs) = (case ev of Encode a bgra stride force \<Rightarrow> 1 | _ \<Rightarrow> 0) + submissions evs"

lemma counted_same: "en_next_pts e' = en_next_pts e \<Longrightarrow> vt_accepted w' = vt_accepted w \<Longrightarrow> counted n (e', w') \<longleftrightarrow> counted n (e, w)"
  by (simp add: counted_def)

lemma counted_more: "counted n s \<Longrightarrow> n \<le> m \<Longrightarrow> counted m s"
  by (auto simp: counted_def)

lemma submit_frame_accepts:
  "vt_accepted (fst (submit_frame a e sub cell pbuf w)) = (if fa_status a \<noteq> 0 then vt_accepted w else sub # vt_accepted w)"
  by (simp add: submit_frame_def Let_def split: prod.split)

lemma encode_frame_accepts:
  assumes "encode_frame a e bgra stride pts force w = Some (w', x)"
  shows "vt_accepted w' = vt_accepted w \<or> (\<exists>sub. su_pts sub = pts \<and> vt_accepted w' = sub # vt_accepted w)"
proof -
  obtain c1 cell where c1: "create (vt_cf w) = (c1, cell)" by (rule prod.exhaust)
  obtain c2 pbuf where c2: "create c1 = (c2, pbuf)" by (rule prod.exhaust)
  show ?thesis
  proof (cases "fa_buffer_status a \<noteq> 0 \<or> fa_buffer_null a")
    case True
    then show ?thesis using assms c1 by (auto simp: encode_frame_def)
  next
    case False
    define sub where "sub image = \<lparr>su_pts = pts, su_timescale = timescale_of (en_fps e), su_force = force,
      su_image = image\<rparr>" for image
    obtain image where "submit_frame a e (sub image) cell pbuf (w\<lparr>vt_cf := c2\<rparr>) = (w', x)"
      using assms False c1 c2 unfolding sub_def by (auto simp: encode_frame_def)
    then show ?thesis
      using submit_frame_accepts [of a e "sub image" cell pbuf "w\<lparr>vt_cf := c2\<rparr>"]
      by (auto simp: sub_def split: if_splits)
  qed
qed

lemma counted_encode:
  assumes c: "counted n (e, w)" and r: "encode_bgra a bgra stride force (e, w) = Some (s', x)"
    and n: "Suc n < 2 ^ 64"
  shows "counted (Suc n) s'"
proof -
  consider "s' = (e, w)" | w' where "s' = (e\<lparr>en_next_pts := en_next_pts e + 1\<rparr>, w')"
      "encode_frame a e bgra stride (en_next_pts e) force w = Some (w', x)"
    using r by (auto simp: encode_bgra_def split: if_splits)
  then show ?thesis
  proof cases
    case 1
    then show ?thesis using counted_more [OF c] by simp
  next
    case 2
    have "unat (en_next_pts e) + 1 < 2 ^ 64" using c n by (simp add: counted_def)
    then have up: "unat (en_next_pts e + 1) = Suc (unat (en_next_pts e))"
      by (simp add: unat_word_ariths)
    from encode_frame_accepts [OF 2(2)] show ?thesis
    proof (elim disjE exE conjE)
      assume "vt_accepted w' = vt_accepted w"
      then show ?thesis using c up by (auto simp: counted_def 2(1) less_Suc_eq)
    next
      fix sub
      assume "su_pts sub = en_next_pts e" "vt_accepted w' = sub # vt_accepted w"
      then show ?thesis using c up by (auto simp: counted_def 2(1) less_Suc_eq)
    qed
  qed
qed

lemma set_i32_accepted: "vt_accepted (fst (set_i32 a k v w)) = vt_accepted w"
  by (simp add: set_i32_def set_property_def split: prod.split)

lemma output_callback_accepted: "vt_accepted (output_callback j now st sample w) = vt_accepted w"
  by (auto simp: output_callback_def take_back_def split: option.split prod.split)

lemma other_steps_accepted:
  assumes "vt_step (e, w) ev = Some (e', w')" "\<forall>a bgra stride force. ev \<noteq> Encode a bgra stride force"
  shows "en_next_pts e' = en_next_pts e \<and> vt_accepted w' = vt_accepted w"
  using assms
  by (cases ev) (auto simp: take_receiver_def drain_def flush_def set_bitrate_def set_keyframe_interval_def
      set_i32_accepted output_callback_accepted split: prod.splits if_splits)

lemma counted_step:
  assumes "counted n (e, w)" "vt_step (e, w) ev = Some s'" "submissions [ev] + n < 2 ^ 64"
  shows "counted (submissions [ev] + n) s'"
proof (cases "\<exists>a bgra stride force. ev = Encode a bgra stride force")
  case True
  then show ?thesis using assms(2,3) counted_encode [OF assms(1)] by auto
next
  case False
  obtain e' w' where s: "s' = (e', w')" by (rule prod.exhaust)
  have "en_next_pts e' = en_next_pts e \<and> vt_accepted w' = vt_accepted w"
    using other_steps_accepted [of e w ev e' w'] assms(2) False s by blast
  then show ?thesis
    using counted_more [OF assms(1)] counted_same [of e' e w' w] s by simp
qed

lemma counted_reach:
  "encoder_reach s0 evs s \<Longrightarrow> counted 0 s0 \<Longrightarrow> submissions evs < 2 ^ 64 \<Longrightarrow> counted (submissions evs) s"
proof (induction rule: encoder_reach.induct)
  case (reach_event evs s ev s')
  then show ?case using counted_step [of "submissions evs" "fst s" "snd s" ev s'] by simp
qed simp

text \<open>The time stamp is signed in the code; below \<open>2 ^ 63\<close> that makes no difference.\<close>

lemma sint_small: "unat (x :: 64 word) < 2 ^ 63 \<Longrightarrow> sint x = int (unat x)"
proof -
  assume "unat x < 2 ^ 63"
  then have "uint x < 2 ^ 63" by (metis of_nat_less_iff of_nat_numeral of_nat_power uint_nat)
  then have "signed_take_bit 63 (uint x) = uint x"
    by (intro signed_take_bit_int_eq_self) (simp_all add: order_trans [OF _ uint_ge_0])
  moreover have "sint x = signed_take_bit 63 (uint x)" by (simp add: sint_uint)
  ultimately show ?thesis by (simp only: uint_nat)
qed

lemma counted_signed:
  assumes "counted n (e, w)" "n < 2 ^ 63"
  shows "sorted_wrt (>) (map (\<lambda>f. sint (su_pts f)) (vt_accepted w))"
    and "\<forall>f \<in> set (vt_accepted w). 0 \<le> sint (su_pts f) \<and> sint (su_pts f) < int n"
proof -
  have s: "sint (su_pts f) = int (unat (su_pts f))" "unat (su_pts f) < n" if "f \<in> set (vt_accepted w)" for f
  proof -
    have "unat (su_pts f) < unat (en_next_pts e)" "unat (en_next_pts e) \<le> n"
      using assms(1) that by (simp_all add: counted_def)
    then show "unat (su_pts f) < n" by linarith
    with assms(2) show "sint (su_pts f) = int (unat (su_pts f))" by (intro sint_small) linarith
  qed
  have "sorted_wrt (\<lambda>f g. unat (su_pts g) < unat (su_pts f)) (vt_accepted w)"
    using assms(1) by (simp add: counted_def sorted_wrt_map)
  then have "sorted_wrt (\<lambda>f g. sint (su_pts g) < sint (su_pts f)) (vt_accepted w)"
    by (rule sorted_wrt_mono_rel [rotated]) (simp only: s(1) of_nat_less_iff)
  then show "sorted_wrt (>) (map (\<lambda>f. sint (su_pts f)) (vt_accepted w))" by (simp add: sorted_wrt_map)
  show "\<forall>f \<in> set (vt_accepted w). 0 \<le> sint (su_pts f) \<and> sint (su_pts f) < int n"
  proof
    fix f assume f: "f \<in> set (vt_accepted w)"
    show "0 \<le> sint (su_pts f) \<and> sint (su_pts f) < int n"
      unfolding s(1) [OF f] using s(2) [OF f] by (simp only: of_nat_0_le_iff of_nat_less_iff simp_thms)
  qed
qed

section \<open>The life of an encoder\<close>

definition all_released :: "cf \<Rightarrow> bool" where
  "all_released c \<longleftrightarrow> sound_calls (cf_log c) \<and> (\<forall>x. refs x (cf_log c) = 0)"

lemma all_released_holds: "holds {#} c \<Longrightarrow> all_released c"
  by (simp add: holds_def all_released_def)

text \<open>C23. An encoder (\<open>Encoder\<close> and its session, \<open>src/src/videotoolbox.rs\<close>) that cannot be created leaves
  nothing behind. One that was created and is dropped, after any sequence of submissions, settings and
  readings, with the callbacks of the session in between and whichever calls fail, has released every
  object once and used none after its release; the cells that carry the time of a submission are freed
  when their frames come back, so that those that remain are exactly the ones of frames the session
  never returned. In fewer than \<open>2 ^ 63\<close> submissions the time stamps of the frames it accepted
  strictly increase, in the order of their acceptance, and lie between 0 and the number of
  submissions. (A panic of the conversion ends the run; what is leaked by unwinding is not covered.)\<close>

theorem encoder_gives_back:
  assumes "encoder_new env a width height fps bitrate_bps keyframe_secs vt_init = (w0, r)"
  shows "case r of
      Inl err \<Rightarrow> all_released (vt_cf w0)
    | Inr e0 \<Rightarrow>
        (\<forall>evs e w. encoder_reach (e0, w0) evs (e, w) \<longrightarrow>
           all_released (vt_cf (encoder_drop (e, w)))
           \<and> handed_out (cf_log (vt_cf (encoder_drop (e, w)))) = mset (map fst (vt_pending w))
           \<and> (submissions evs < 2 ^ 63 \<longrightarrow>
                sorted_wrt (>) (map (\<lambda>f. sint (su_pts f)) (vt_accepted w))
                \<and> (\<forall>f \<in> set (vt_accepted w).
                     0 \<le> sint (su_pts f) \<and> sint (su_pts f) < int (submissions evs))))"
proof -
  obtain r1 where c: "create_session a bitrate_bps (keyframe_frames_of fps keyframe_secs) vt_init = (w0, r1)"
    and r: "r = map_sum id (\<lambda>session. \<lparr>en_session = session, en_rx = True, en_width = width, en_height = height,
      en_next_pts = 0, en_fps = fps, en_full_range = full_range_wanted env\<rparr>) r1"
    using assms by (auto simp: encoder_new_def split: prod.splits sum.splits)
  have "holds {#} (vt_cf vt_init)" by (simp add: vt_init_def holds_init)
  from create_session_ok [OF this c] show ?thesis
  proof (cases r1)
    case (Inl err)
    with create_session_ok [OF \<open>holds {#} (vt_cf vt_init)\<close> c] r show ?thesis by (simp add: all_released_holds)
  next
    case (Inr session)
    let ?e = "\<lparr>en_session = session, en_rx = True, en_width = width, en_height = height,
      en_next_pts = 0, en_fps = fps, en_full_range = full_range_wanted env\<rparr>"
    have s: "holds {#session#} (vt_cf w0)" "session \<noteq> 0" "keeps_cells vt_init w0"
      using create_session_ok [OF \<open>holds {#} (vt_cf vt_init)\<close> c] Inr by simp_all
    have init: "cells_ok session vt_init" by (simp add: cells_ok_def vt_init_def cf_init_def)
    have ok: "encoder_ok (?e, w0)" using s keeps_cells_ok [OF s(3) init] by (simp add: encoder_ok_def)
    have st: "counted 0 (?e, w0)"
      using s(3) by (simp add: counted_def keeps_cells_def vt_init_def)
    have "all_released (vt_cf (encoder_drop (e, w)))
           \<and> handed_out (cf_log (vt_cf (encoder_drop (e, w)))) = mset (map fst (vt_pending w))"
      if "encoder_reach (?e, w0) evs (e, w)" for evs e w
      using encoder_reach_ok [OF that ok]
        all_released_holds [OF drop_session_holds [of "en_session e" "vt_cf w"]]
      by (simp add: encoder_drop_def encoder_ok_def cells_ok_def) (simp add: drop_session_def)
    moreover have "sorted_wrt (>) (map (\<lambda>f. sint (su_pts f)) (vt_accepted w))
        \<and> (\<forall>f \<in> set (vt_accepted w). 0 \<le> sint (su_pts f) \<and> sint (su_pts f) < int (submissions evs))"
      if "encoder_reach (?e, w0) evs (e, w)" "submissions evs < 2 ^ 63" for evs e w
      using counted_signed [OF counted_reach [OF that(1) st] that(2)] that(2) by simp
    ultimately have "all_released (vt_cf (encoder_drop (e, w)))
           \<and> handed_out (cf_log (vt_cf (encoder_drop (e, w)))) = mset (map fst (vt_pending w))
           \<and> (submissions evs < 2 ^ 63 \<longrightarrow>
                sorted_wrt (>) (map (\<lambda>f. sint (su_pts f)) (vt_accepted w))
                \<and> (\<forall>f \<in> set (vt_accepted w).
                     0 \<le> sint (su_pts f) \<and> sint (su_pts f) < int (submissions evs)))"
      if "encoder_reach (?e, w0) evs (e, w)" for evs e w
      using that by blast
    with r Inr show ?thesis by simp
  qed
qed

definition accepting_session :: session_answer where
  "accepting_session =
     \<lparr>sa_create_status = 0, sa_create_null = False, sa_properties = (\<lambda>key. (True, 0)), sa_prepare_status = 0\<rparr>"

definition accepted_frame :: frame_answer where
  "accepted_frame =
     \<lparr>fa_buffer_status = 0, fa_buffer_null = False, fa_planes = ([18], []), fa_strides = (1, 0), fa_vimage_ok = True,
      fa_bgra = [], fa_bgra_stride = 0, fa_dict_ok = True, fa_status = 0, fa_now = 77\<rparr>"

definition first_encoder :: "vt \<times> (vt_error + encoder)" where
  "first_encoder = encoder_new (\<lambda>x. None) accepting_session 1 1 60 4000000 2 vt_init"

lemma first_encoder_created:
  "first_encoder = (fst first_encoder, Inr \<lparr>en_session = 1, en_rx = True, en_width = 1, en_height = 1,
     en_next_pts = 0, en_fps = 60, en_full_range = True\<rparr>)"
  "vt_pending (fst first_encoder) = []" "vt_accepted (fst first_encoder) = []"
  "cf_next (vt_cf (fst first_encoder)) = 5"
  by (simp_all add: first_encoder_def encoder_new_def create_session_def accepting_session_def session_settings_def
      set_value_def set_i32_def set_property_def create_def vt_init_def cf_init_def release_def record_call_def
      full_range_wanted_def Let_def)

theorem encoder_gives_back_witness:
  "\<exists>e w. vt_pending w = [(5, 77), (8, 77)] \<and> map su_pts (vt_accepted w) = [1, 0]
     \<and> all_released (vt_cf (encoder_drop (e, w)))
     \<and> handed_out (cf_log (vt_cf (encoder_drop (e, w)))) = {#5, 8#}
     \<and> sorted_wrt (>) (map (\<lambda>f. sint (su_pts f)) (vt_accepted w))"
proof -
  let ?w0 = "fst first_encoder"
  let ?e0 = "\<lparr>en_session = 1, en_rx = True, en_width = 1, en_height = 1, en_next_pts = 0, en_fps = 60, en_full_range = True\<rparr>"
  let ?ev = "Encode accepted_frame [255, 0, 0, 255] 4 True"
  have new: "encoder_new (\<lambda>x. None) accepting_session 1 1 60 4000000 2 vt_init = (?w0, Inr ?e0)"
    using first_encoder_created(1) by (simp add: first_encoder_def)
  obtain e1 w1 where s1: "vt_step (?e0, ?w0) ?ev = Some (e1, w1)" "vt_pending w1 = [(5, 77)]"
    "map su_pts (vt_accepted w1) = [0]" "cf_next (vt_cf w1) = 8" "e1 = ?e0\<lparr>en_next_pts := 1\<rparr>"
    using first_encoder_created(2-4)
    by (simp add: encode_bgra_def encode_frame_def submit_frame_def fill_image_def accepted_frame_def create_def
        cf_next_simps Let_def)
  then obtain e w where s: "vt_step (e1, w1) ?ev = Some (e, w)" "vt_pending w = [(5, 77), (8, 77)]"
    "map su_pts (vt_accepted w) = [1, 0]"
    by (simp add: encode_bgra_def encode_frame_def submit_frame_def fill_image_def accepted_frame_def create_def Let_def)
  have "encoder_reach (?e0, ?w0) [?ev, ?ev] (e, w)"
    by (rule reach_event [OF reach_event [OF reach_start _ s1(1)] _ s(1)]) (simp_all add: lawful_event_def)
  with encoder_gives_back [OF new] s have
    "all_released (vt_cf (encoder_drop (e, w)))"
    "handed_out (cf_log (vt_cf (encoder_drop (e, w)))) = {#5, 8#}"
    "sorted_wrt (>) (map (\<lambda>f. sint (su_pts f)) (vt_accepted w))"
    by fastforce+
  with s(2,3) show ?thesis by (intro exI [of _ e] exI [of _ w]) simp
qed

section \<open>Panics and reads\<close>

text \<open>A picture whose rows hold all pixels is submitted, or refused, without a panic.\<close>

lemma encode_bgra_returns:
  assumes "en_full_range e" "fits bgra stride (4 * en_width e) (en_height e)"
    and "fits (fst (fa_planes a)) (fst (fa_strides a)) (en_width e) (en_height e)"
    and "fits (snd (fa_planes a)) (snd (fa_strides a)) (2 * (en_width e div 2)) (en_height e div 2)"
  shows "\<exists>s' x. encode_bgra a bgra stride force (e, w) = Some (s', x)"
proof -
  obtain y c where y: "luma_plane bgra stride (en_width e) (en_height e) (fst (fa_planes a)) (fst (fa_strides a)) = Some y"
    and c: "chroma_plane bgra stride (en_width e) (en_height e) (snd (fa_planes a)) (snd (fa_strides a)) = Some c"
    using luma_plane_pix [OF assms(2,3)] chroma_plane_pix [OF assms(2,4)] by blast
  have "\<exists>image. fill_image a e bgra stride = Some image"
    using assms(1) y c by (simp add: fill_image_def bgra_to_nv12_full_range_def)
  then show ?thesis
    by (auto simp: encode_bgra_def encode_frame_def split: prod.split)
qed

text \<open>The check of the length says nothing of the width: with a stride below four bytes per pixel the copy
  of the rows leaves the picture, which in this branch is not checked.\<close>

lemma narrow_stride_leaves_picture:
  assumes "\<not> en_full_range e" "en_width e = 2" "en_height e = 1" "length bgra = 4"
    "fa_buffer_status a = 0" "\<not> fa_buffer_null a"
  shows "encode_bgra a bgra 4 force (e, w) = None"
  using assms
  by (simp add: encode_bgra_def encode_frame_def fill_image_def copy_plane_def copy_row_def row_def split: prod.split)

end
