(* ===== verification/Pam_Auth.thy ===== *)
theory Pam_Auth
  imports Server_Start_Props Cf_Objects
begin

text \<open>
  The check of a password against the account database, \<open>src/src/auth.rs\<close>: the calls of the
  authentication library in their order, with what each returns, and the conversation callback with
  the memory it allocates. The library itself is a parameter.
\<close>

section \<open>The transaction\<close>

datatype pam_call =
    PamStart ustr ustr
  | PamSetAuthtok ustr
  | PamAuthenticate
  | PamAcctMgmt
  | PamEnd int

record pam_library =
  start_rc :: "ustr \<Rightarrow> ustr \<Rightarrow> int"
  set_rc :: "ustr \<Rightarrow> ustr \<Rightarrow> int"
  auth_rc :: "ustr \<Rightarrow> ustr \<Rightarrow> int"
  acct_rc :: "ustr \<Rightarrow> int"
  strerror :: "int \<Rightarrow> ustr option"

datatype auth_error =
    Service_has_nul
  | Username_has_nul
  | Password_has_nul
  | Start_failed int
  | Set_item_failed int
  | Authentication_failed ustr

definition PAM_SUCCESS :: int where "PAM_SUCCESS = 0"

definition has_nul :: "ustr \<Rightarrow> bool" where "has_nul s \<longleftrightarrow> 0 \<in> set s"

text \<open>The calls are listed in the order they are made.\<close>

definition pam_transaction :: "pam_library \<Rightarrow> ustr \<Rightarrow> ustr \<Rightarrow> ustr \<Rightarrow> pam_call list \<times> (auth_error + unit)" where
  "pam_transaction lib service user password =
     (let opened = [PamStart service user]; rc = start_rc lib service user
      in if rc \<noteq> PAM_SUCCESS then (opened, Inl (Start_failed rc))
         else
           let given = opened @ [PamSetAuthtok password]; rc = set_rc lib user password
           in if rc \<noteq> PAM_SUCCESS then (given @ [PamEnd rc], Inl (Set_item_failed rc))
              else
                let tried = given @ [PamAuthenticate]; rc = auth_rc lib user password;
                    (asked, rc) = (if rc = PAM_SUCCESS then (tried @ [PamAcctMgmt], acct_rc lib user) else (tried, rc));
                    err = (if rc \<noteq> PAM_SUCCESS
                           then Some (case strerror lib rc of None \<Rightarrow> lit ''unknown PAM error'' | Some m \<Rightarrow> m)
                           else None)
                in (asked @ [PamEnd rc],
                    case err of Some m \<Rightarrow> Inl (Authentication_failed m) | None \<Rightarrow> Inr ()))"

definition pam_authenticate :: "pam_library \<Rightarrow> ustr \<Rightarrow> ustr \<Rightarrow> ustr \<Rightarrow> pam_call list \<times> (auth_error + unit)" where
  "pam_authenticate lib service user password =
     (if has_nul service then ([], Inl Service_has_nul)
      else if has_nul user then ([], Inl Username_has_nul)
      else if has_nul password then ([], Inl Password_has_nul)
      else pam_transaction lib service user password)"

definition authenticate :: "pam_library \<Rightarrow> ustr \<Rightarrow> ustr \<Rightarrow> pam_call list \<times> (auth_error + unit)" where
  "authenticate lib user password = pam_authenticate lib (lit ''checkpw'') user password"

section \<open>The conversation\<close>

definition PAM_PROMPT_ECHO_OFF :: int where "PAM_PROMPT_ECHO_OFF = 1"

text \<open>One message after the other: its style unless the pointer is null, and whether its response can be
  allocated. The responses are the objects of \<open>Cf_Objects\<close>; 0 is the null pointer.\<close>

primrec conv_loop :: "(int option \<times> bool) list \<Rightarrow> nat \<Rightarrow> nat list \<Rightarrow> cf \<Rightarrow> cf \<times> (nat \<times> nat list) option" where
  "conv_loop [] arr resps c = (c, Some (arr, resps))"
| "conv_loop (m # ms) arr resps c =
     (if fst m \<noteq> Some PAM_PROMPT_ECHO_OFF then conv_loop ms arr (resps @ [0]) c
      else if \<not> snd m then (release arr c, None)
      else case create c of (c', buf) \<Rightarrow> conv_loop ms arr (resps @ [buf]) c')"

definition conv :: "int \<Rightarrow> bool \<Rightarrow> bool \<Rightarrow> (int option \<times> bool) list \<Rightarrow> cf \<Rightarrow> cf \<times> (nat \<times> nat list) option" where
  "conv num_msg pointers_ok calloc_ok msgs c =
     (if num_msg \<le> 0 \<or> \<not> pointers_ok then (c, None)
      else if \<not> calloc_ok then (c, None)
      else case create c of (c', arr) \<Rightarrow> conv_loop (take (nat num_msg) msgs) arr [] c')"

section \<open>What is accepted\<close>

text \<open>A password is accepted exactly when every step of the transaction succeeds.\<close>

lemma authenticate_accepts:
  "snd (authenticate lib user password) = Inr () \<longleftrightarrow>
     \<not> has_nul user \<and> \<not> has_nul password \<and> start_rc lib (lit ''checkpw'') user = PAM_SUCCESS
     \<and> set_rc lib user password = PAM_SUCCESS \<and> auth_rc lib user password = PAM_SUCCESS \<and> acct_rc lib user = PAM_SUCCESS"
  by (auto simp: authenticate_def pam_authenticate_def pam_transaction_def Let_def has_nul_def lit_def)

text \<open>A transaction that was started is ended once, as the last call and with the status of the last step;
  the password is handed over before the authentication, which comes before the account check.\<close>

lemma transaction_closed:
  assumes "authenticate lib user password = (calls, r)"
  shows "calls = [] \<or> calls = [PamStart (lit ''checkpw'') user] \<and> start_rc lib (lit ''checkpw'') user \<noteq> PAM_SUCCESS
    \<or> (\<exists>steps rc. calls = PamStart (lit ''checkpw'') user # steps @ [PamEnd rc]
         \<and> prefix steps [PamSetAuthtok password, PamAuthenticate, PamAcctMgmt] \<and> (rc = PAM_SUCCESS \<longleftrightarrow> r = Inr ()))"
proof -
  consider "calls = []" | "pam_transaction lib (lit ''checkpw'') user password = (calls, r)"
    using assms by (auto simp: authenticate_def pam_authenticate_def split: if_splits)
  then show ?thesis
  proof cases
    case 2
    then show ?thesis
      by (auto simp: pam_transaction_def Let_def prefix_def split: if_splits option.splits)
  qed simp
qed

text \<open>The start of a server with this library: unless authentication is skipped on a loopback address,
  the account check has succeeded for the user the server then demands the password of.\<close>

lemma started_server_authenticated:
  assumes "pam_accepts e = (\<lambda>u p. snd (authenticate lib u p) = Inr ())" "start_server a e = Inr su" "\<not> skip_auth a"
  shows "auth_rc lib (su_user su) (su_password su) = PAM_SUCCESS \<and> acct_rc lib (su_user su) = PAM_SUCCESS"
proof -
  have "pam_accepts e (su_user su) (su_password su)"
    using start_serverD(4) [OF assms(2)] assms(3) by (auto simp: credentials_def split: option.splits if_splits)
  then show ?thesis using assms(1) authenticate_accepts by simp
qed

section \<open>The memory of the conversation\<close>

lemma conv_loop_holds:
  assumes "holds (M + mset (filter (\<lambda>r. r \<noteq> 0) resps) + {#arr#}) c" "conv_loop ms arr resps c = (c', Some (arr', resps'))"
  shows "arr' = arr \<and> length resps' = length resps + length ms
    \<and> holds (M + mset (filter (\<lambda>r. r \<noteq> 0) resps') + {#arr#}) c'"
  using assms
proof (induction ms arbitrary: resps c)
  case Nil
  then show ?case by simp
next
  case (Cons m ms)
  show ?case
  proof (cases "fst m = Some PAM_PROMPT_ECHO_OFF")
    case False
    then have "conv_loop ms arr (resps @ [0]) c = (c', Some (arr', resps'))" using Cons.prems(2) by simp
    then show ?thesis using Cons.IH [of "resps @ [0]" c] Cons.prems(1) by simp
  next
    case True
    then have ok: "snd m" using Cons.prems(2) by (auto split: if_splits)
    obtain c1 buf where c1: "create c = (c1, buf)" by (rule prod.exhaust)
    have "conv_loop ms arr (resps @ [buf]) c1 = (c', Some (arr', resps'))"
      using True ok c1 Cons.prems(2) by simp
    moreover have "holds (M + mset (filter (\<lambda>r. r \<noteq> 0) (resps @ [buf])) + {#arr#}) c1"
      using holds_create [OF Cons.prems(1)] c1 by (simp add: add_mset_commute)
    ultimately show ?thesis using Cons.IH [of "resps @ [buf]" c1] by simp
  qed
qed

text \<open>On success the library gets one array with a response per message, and owns exactly what was
  allocated.\<close>

lemma conv_hands_over:
  assumes "holds {#} c" "conv n pointers_ok calloc_ok msgs c = (c', Some (arr, resps))" "length msgs = nat n"
  shows "length resps = length msgs \<and> holds (add_mset arr (mset (filter (\<lambda>r. r \<noteq> 0) resps))) c'"
proof -
  obtain c1 a where c1: "create c = (c1, a)" by (rule prod.exhaust)
  have "holds ({#} + mset (filter (\<lambda>r. r \<noteq> 0) []) + {#a#}) c1" using holds_create(1) [OF assms(1)] c1 by simp
  moreover have "conv_loop msgs a [] c1 = (c', Some (arr, resps))"
    using assms(2,3) c1 by (auto simp: conv_def split: if_splits)
  ultimately show ?thesis using conv_loop_holds [of "{#}" "[]" a c1 msgs c' arr resps] by simp
qed

text \<open>When the second response cannot be allocated only the array is freed: the first stays allocated.\<close>

lemma failed_conv_leaks:
  "\<exists>r. refs r (cf_log (fst (conv 2 True True [(Some 1, True), (Some 1, False)] cf_init))) = 1"
  by (rule exI [of _ 2]) (simp add: conv_def PAM_PROMPT_ECHO_OFF_def create_def cf_init_def release_def record_call_def numeral_2_eq_2)

end
