(* ===== verification/Runloop_Thread.thy ===== *)
theory Runloop_Thread
  imports Prelude
begin

text \<open>
  The thread that hosts a run loop, \<open>src/src/runloop_thread.rs\<close>: jobs are submitted from any thread,
  the first submission starts the thread, and its source drains the queue. A submission is in one of a
  few phases, and any of its steps can be taken between those of the others; the cell \<open>STATE\<close> is set
  once. A host is a thread that was started, with its own queue and source. Jobs are numbers.
\<close>

datatype phase = Waiting nat | Pushing nat | Signalling nat | Finished

record rl_submission =
  sb_job :: nat
  sb_phase :: phase

record rl_host =
  h_queue :: "nat list"
  h_signalled :: bool
  h_running :: bool

text \<open>\<open>rl_pushed\<close> and \<open>rl_ran\<close> are the jobs pushed to the published queue and those that ran, in order.\<close>

record runloop =
  rl_state :: "nat option"
  rl_hosts :: "rl_host list"
  rl_subs :: "rl_submission list"
  rl_pushed :: "nat list"
  rl_ran :: "nat list"

definition rl_init :: runloop where
  "rl_init = \<lparr>rl_state = None, rl_hosts = [], rl_subs = [], rl_pushed = [], rl_ran = []\<rparr>"

definition new_host :: rl_host where
  "new_host = \<lparr>h_queue = [], h_signalled = False, h_running = False\<rparr>"

definition set_phase :: "nat \<Rightarrow> phase \<Rightarrow> runloop \<Rightarrow> runloop" where
  "set_phase i p s = s\<lparr>rl_subs := (rl_subs s)[i := (rl_subs s ! i)\<lparr>sb_phase := p\<rparr>]\<rparr>"

definition set_host :: "nat \<Rightarrow> rl_host \<Rightarrow> runloop \<Rightarrow> runloop" where
  "set_host k h s = s\<lparr>rl_hosts := (rl_hosts s)[k := h]\<rparr>"

text \<open>\<open>submit\<close>: the state is there, or a thread is spawned.\<close>

definition submit_job :: "nat \<Rightarrow> runloop \<Rightarrow> runloop" where
  "submit_job j s =
     (case rl_state s of
        Some k \<Rightarrow> s\<lparr>rl_subs := rl_subs s @ [\<lparr>sb_job = j, sb_phase = Pushing k\<rparr>]\<rparr>
      | None \<Rightarrow>
          s\<lparr>rl_hosts := rl_hosts s @ [new_host],
            rl_subs := rl_subs s @ [\<lparr>sb_job = j, sb_phase = Waiting (length (rl_hosts s))\<rparr>]\<rparr>)"

text \<open>The thread publishes its state unless one is there, and answers the one who waits for it.\<close>

definition publish :: "nat \<Rightarrow> runloop \<Rightarrow> runloop" where
  "publish k s = s\<lparr>rl_state := (case rl_state s of None \<Rightarrow> Some k | Some k' \<Rightarrow> Some k')\<rparr>"

definition answer :: "nat \<Rightarrow> nat \<Rightarrow> runloop \<Rightarrow> runloop" where
  "answer i k s = set_phase i (Pushing k) (set_host k ((rl_hosts s ! k)\<lparr>h_running := True\<rparr>) s)"

definition push_job :: "nat \<Rightarrow> nat \<Rightarrow> runloop \<Rightarrow> runloop" where
  "push_job i k s =
     (let j = sb_job (rl_subs s ! i); h = rl_hosts s ! k
      in set_phase i (Signalling k)
           (set_host k (h\<lparr>h_queue := h_queue h @ [j]\<rparr>)
             (if rl_state s = Some k then s\<lparr>rl_pushed := rl_pushed s @ [j]\<rparr> else s)))"

definition signal :: "nat \<Rightarrow> nat \<Rightarrow> runloop \<Rightarrow> runloop" where
  "signal i k s = set_phase i Finished (set_host k ((rl_hosts s ! k)\<lparr>h_signalled := True\<rparr>) s)"

text \<open>\<open>perform\<close>, on the thread of a host whose source was signalled: it drains the published queue. A
  job that panics is caught.\<close>

definition perform :: "nat \<Rightarrow> runloop \<Rightarrow> runloop" where
  "perform k s =
     (let s1 = set_host k ((rl_hosts s ! k)\<lparr>h_signalled := False\<rparr>) s
      in case rl_state s of
           None \<Rightarrow> s1
         | Some q \<Rightarrow>
             set_host q ((rl_hosts s1 ! q)\<lparr>h_queue := []\<rparr>) (s1\<lparr>rl_ran := rl_ran s @ h_queue (rl_hosts s1 ! q)\<rparr>))"

inductive rl_step :: "runloop \<Rightarrow> runloop \<Rightarrow> bool" where
  submitted: "rl_step s (submit_job j s)"
| published: "i < length (rl_subs s) \<Longrightarrow> sb_phase (rl_subs s ! i) = Waiting k \<Longrightarrow> rl_step s (publish k s)"
| answered:
    "i < length (rl_subs s) \<Longrightarrow> sb_phase (rl_subs s ! i) = Waiting k \<Longrightarrow> rl_state s \<noteq> None \<Longrightarrow> rl_step s (answer i k s)"
| pushed: "i < length (rl_subs s) \<Longrightarrow> sb_phase (rl_subs s ! i) = Pushing k \<Longrightarrow> rl_step s (push_job i k s)"
| signalled: "i < length (rl_subs s) \<Longrightarrow> sb_phase (rl_subs s ! i) = Signalling k \<Longrightarrow> rl_step s (signal i k s)"
| performed:
    "k < length (rl_hosts s) \<Longrightarrow> h_running (rl_hosts s ! k) \<Longrightarrow> h_signalled (rl_hosts s ! k) \<Longrightarrow> rl_step s (perform k s)"

inductive rl_reach :: "runloop \<Rightarrow> bool" where
  rl_start: "rl_reach rl_init"
| rl_next: "rl_reach s \<Longrightarrow> rl_step s s' \<Longrightarrow> rl_reach s'"

inductive_cases rl_stepE: "rl_step s s'"

text \<open>
  The jobs of the run loop run in the order they were pushed, none twice, and one that waits has a
  wake-up under way; but when two first submissions race, a job is pushed to a queue that nobody
  drains.
\<close>

section \<open>The invariant\<close>

definition delivered :: "rl_submission \<Rightarrow> bool" where
  "delivered b \<longleftrightarrow> (case sb_phase b of Signalling k \<Rightarrow> True | Finished \<Rightarrow> True | _ \<Rightarrow> False)"

definition phase_ok :: "runloop \<Rightarrow> phase \<Rightarrow> bool" where
  "phase_ok s p \<longleftrightarrow>
     (case p of
        Waiting k \<Rightarrow> k < length (rl_hosts s)
      | Pushing k \<Rightarrow> k < length (rl_hosts s) \<and> rl_state s \<noteq> None
      | Signalling k \<Rightarrow> k < length (rl_hosts s) \<and> rl_state s \<noteq> None
      | Finished \<Rightarrow> rl_state s \<noteq> None)"

text \<open>A wake-up is under way: the source is signalled or is about to be.\<close>

definition woken :: "runloop \<Rightarrow> nat \<Rightarrow> bool" where
  "woken s k \<longleftrightarrow> h_signalled (rl_hosts s ! k) \<or> (\<exists>b \<in> set (rl_subs s). sb_phase b = Signalling k)"

definition jobs_delivered :: "runloop \<Rightarrow> nat multiset" where
  "jobs_delivered s = mset (map sb_job (filter delivered (rl_subs s)))"

text \<open>The jobs that are in the queues of the other hosts.\<close>

definition stray :: "runloop \<Rightarrow> nat multiset" where
  "stray s = (\<Sum>k < length (rl_hosts s). if rl_state s = Some k then {#} else mset (h_queue (rl_hosts s ! k)))"

definition rl_ok :: "runloop \<Rightarrow> bool" where
  "rl_ok s \<longleftrightarrow>
     (\<forall>b \<in> set (rl_subs s). phase_ok s (sb_phase b))
     \<and> (case rl_state s of
          None \<Rightarrow> rl_ran s = [] \<and> rl_pushed s = [] \<and> (\<forall>h \<in> set (rl_hosts s). h_queue h = [])
        | Some k \<Rightarrow> k < length (rl_hosts s) \<and> rl_ran s @ h_queue (rl_hosts s ! k) = rl_pushed s
            \<and> (h_queue (rl_hosts s ! k) \<noteq> [] \<longrightarrow> woken s k))
     \<and> jobs_delivered s = mset (rl_pushed s) + stray s"

lemma sum_lessThan_update:
  fixes f g :: "nat \<Rightarrow> nat multiset"
  assumes "k < n" "\<And>i. i < n \<Longrightarrow> i \<noteq> k \<Longrightarrow> g i = f i" "g k = f k + x"
  shows "(\<Sum>i<n. g i) = (\<Sum>i<n. f i) + x"
proof -
  have "(\<Sum>i<n. g i) = g k + (\<Sum>i \<in> {..<n} - {k}. g i)" by (rule sum.remove) (use assms(1) in auto)
  also have "(\<Sum>i \<in> {..<n} - {k}. g i) = (\<Sum>i \<in> {..<n} - {k}. f i)" by (rule sum.cong) (use assms(2) in auto)
  also have "g k + \<dots> = (f k + (\<Sum>i \<in> {..<n} - {k}. f i)) + x" by (simp add: assms(3) ac_simps)
  also have "f k + (\<Sum>i \<in> {..<n} - {k}. f i) = (\<Sum>i<n. f i)" by (rule sum.remove [symmetric]) (use assms(1) in auto)
  finally show ?thesis .
qed

text \<open>A submission that changes its phase.\<close>

lemma delivered_update:
  assumes "i < length bs"
  shows "mset (map sb_job (filter delivered (bs [i := b]))) + (if delivered (bs ! i) then {#sb_job (bs ! i)#} else {#})
    = mset (map sb_job (filter delivered bs)) + (if delivered b then {#sb_job b#} else {#})"
proof -
  have bs: "bs = take i bs @ bs ! i # drop (Suc i) bs" by (rule id_take_nth_drop [OF assms])
  have "bs [i := b] = take i bs @ b # drop (Suc i) bs" by (rule upd_conv_take_nth_drop [OF assms])
  then show ?thesis by (subst (4) bs) simp
qed

lemma set_update_cases: "x \<in> set (bs [i := b]) \<Longrightarrow> x = b \<or> x \<in> set bs"
  by (meson in_mono insert_iff set_update_subset_insert)

lemma woken_update:
  assumes "woken s k" "i < length (rl_subs s)" "sb_phase (rl_subs s ! i) \<noteq> Signalling k"
    and "rl_hosts s' ! k = rl_hosts s ! k" "rl_subs s' = (rl_subs s)[i := b]"
  shows "woken s' k"
proof -
  have "\<exists>b \<in> set (rl_subs s'). sb_phase b = Signalling k" if bb: "c \<in> set (rl_subs s)" "sb_phase c = Signalling k" for c
  proof -
    obtain j where j: "j < length (rl_subs s)" "rl_subs s ! j = c" using bb(1) by (auto simp: in_set_conv_nth)
    with assms(3) bb(2) have "j \<noteq> i" by auto
    then have "rl_subs s' ! j = c" "j < length (rl_subs s')" using j assms(5) by simp_all
    then show ?thesis using bb(2) nth_mem by metis
  qed
  then show ?thesis using assms(1,4) by (auto simp: woken_def)
qed

section \<open>The steps\<close>

lemma phase_ok_mono:
  "phase_ok s p \<Longrightarrow> length (rl_hosts s) \<le> length (rl_hosts s') \<Longrightarrow> (rl_state s \<noteq> None \<longrightarrow> rl_state s' \<noteq> None) \<Longrightarrow> phase_ok s' p"
  by (auto simp: phase_ok_def split: phase.splits)

lemma phase_at: "rl_ok s \<Longrightarrow> i < length (rl_subs s) \<Longrightarrow> phase_ok s (sb_phase (rl_subs s ! i))"
  by (simp add: rl_ok_def)

lemma stray_same:
  assumes "rl_state s' = rl_state s" "length (rl_hosts s') = length (rl_hosts s)"
    "\<And>k. k < length (rl_hosts s) \<Longrightarrow> rl_state s \<noteq> Some k \<Longrightarrow> h_queue (rl_hosts s' ! k) = h_queue (rl_hosts s ! k)"
  shows "stray s' = stray s"
  unfolding stray_def by (rule sum.cong) (use assms in auto)

lemma submit_job_ok:
  assumes "rl_ok s"
  shows "rl_ok (submit_job j s)"
proof (cases "rl_state s")
  case None
  let ?s = "submit_job j s"
  have n: "rl_hosts ?s = rl_hosts s @ [new_host]" "rl_state ?s = None" "rl_ran ?s = rl_ran s" "rl_pushed ?s = rl_pushed s"
    "rl_subs ?s = rl_subs s @ [\<lparr>sb_job = j, sb_phase = Waiting (length (rl_hosts s))\<rparr>]"
    using None by (simp_all add: submit_job_def)
  have "stray ?s = stray s" by (simp add: stray_def n None nth_append new_host_def)
  moreover have "\<forall>b \<in> set (rl_subs ?s). phase_ok ?s (sb_phase b)"
    using assms n None phase_ok_mono [of s _ ?s] by (auto simp: rl_ok_def phase_ok_def)
  ultimately show ?thesis
    using assms None n by (auto simp: rl_ok_def jobs_delivered_def delivered_def new_host_def)
next
  case (Some q)
  let ?s = "submit_job j s"
  have n: "rl_hosts ?s = rl_hosts s" "rl_state ?s = rl_state s" "rl_ran ?s = rl_ran s" "rl_pushed ?s = rl_pushed s"
    "rl_subs ?s = rl_subs s @ [\<lparr>sb_job = j, sb_phase = Pushing q\<rparr>]"
    using Some by (simp_all add: submit_job_def)
  have "\<forall>b \<in> set (rl_subs ?s). phase_ok ?s (sb_phase b)"
    using assms n Some phase_ok_mono [of s _ ?s] by (auto simp: rl_ok_def phase_ok_def)
  then show ?thesis
    using assms Some n stray_same [of ?s s] by (auto simp: rl_ok_def jobs_delivered_def delivered_def woken_def)
qed

lemma publish_ok:
  assumes "rl_ok s" "k < length (rl_hosts s)"
  shows "rl_ok (publish k s)"
proof (cases "rl_state s")
  case None
  then have q: "h_queue (rl_hosts s ! i) = []" if "i < length (rl_hosts s)" for i
    using assms(1) that by (simp add: rl_ok_def)
  then have "stray s = {#}" "stray (publish k s) = {#}"
    by (auto simp: stray_def publish_def intro!: sum.neutral)
  moreover have "\<forall>b \<in> set (rl_subs s). phase_ok (publish k s) (sb_phase b)"
  proof
    fix b
    assume "b \<in> set (rl_subs s)"
    with assms(1) have "phase_ok s (sb_phase b)" by (simp add: rl_ok_def)
    then show "phase_ok (publish k s) (sb_phase b)"
      by (rule phase_ok_mono) (simp_all add: publish_def None)
  qed
  ultimately show ?thesis
    using assms None q [OF assms(2)] by (simp add: rl_ok_def publish_def jobs_delivered_def)
next
  case (Some q)
  then have "publish k s = s" by (cases s) (simp add: publish_def)
  with assms(1) show ?thesis by simp
qed

text \<open>A step of submission \<open>i\<close> on host \<open>k\<close>, described by the host and the submission it leaves.\<close>

lemma host_step_ok:
  assumes ok: "rl_ok s" and i: "i < length (rl_subs s)" and k: "k < length (rl_hosts s)" and st: "rl_state s = Some q"
    and s': "rl_state s' = Some q" "rl_hosts s' = (rl_hosts s)[k := h]" "rl_subs s' = (rl_subs s)[i := b]" "rl_ran s' = rl_ran s"
    and b: "phase_ok s' (sb_phase b)"
    and queue: "h_queue h = h_queue (rl_hosts s ! k) @ new" "rl_pushed s' = rl_pushed s @ (if q = k then new else [])"
    and jobs: "(if delivered b then {#sb_job b#} else {#}) = (if delivered (rl_subs s ! i) then {#sb_job (rl_subs s ! i)#} else {#}) + mset new"
    and wake: "h_queue (rl_hosts s' ! q) \<noteq> [] \<Longrightarrow> woken s' q"
  shows "rl_ok s'"
proof -
  have q: "q < length (rl_hosts s)" "rl_ran s @ h_queue (rl_hosts s ! q) = rl_pushed s"
    and jd: "jobs_delivered s = mset (rl_pushed s) + stray s" and ph: "\<forall>c \<in> set (rl_subs s). phase_ok s (sb_phase c)"
    using ok st by (auto simp: rl_ok_def)
  have d: "jobs_delivered s' = jobs_delivered s + mset new"
    using delivered_update [OF i, of b] jobs by (simp add: jobs_delivered_def s'(3) split: if_splits)
  have "stray s' = stray s + (if q = k then {#} else mset new)"
    unfolding stray_def s'(1,2) st length_list_update
    by (rule sum_lessThan_update [OF k]) (use k queue(1) in auto)
  then have "jobs_delivered s' = mset (rl_pushed s') + stray s'" using d jd queue(2) by simp
  moreover have "\<forall>c \<in> set (rl_subs s'). phase_ok s' (sb_phase c)"
  proof
    fix c
    assume "c \<in> set (rl_subs s')"
    then consider "c = b" | "c \<in> set (rl_subs s)" unfolding s'(3) by (auto dest: set_update_cases)
    then show "phase_ok s' (sb_phase c)"
      using b ph phase_ok_mono [of s _ s'] s' st by cases auto
  qed
  moreover have "rl_ran s' @ h_queue (rl_hosts s' ! q) = rl_pushed s'"
    using q queue k by (auto simp: s'(2,4) nth_list_update)
  ultimately show ?thesis using q(1) wake by (simp add: rl_ok_def s'(1)) (simp add: s'(2))
qed

lemma woken_before: "rl_ok s \<Longrightarrow> rl_state s = Some q \<Longrightarrow> h_queue (rl_hosts s ! q) \<noteq> [] \<Longrightarrow> woken s q"
  by (simp add: rl_ok_def)

lemma answer_ok:
  assumes "rl_ok s" "i < length (rl_subs s)" "sb_phase (rl_subs s ! i) = Waiting k" "rl_state s = Some q"
  shows "rl_ok (answer i k s)"
proof -
  have k: "k < length (rl_hosts s)"
    using phase_at [OF assms(1,2)] assms(3) by (simp add: phase_ok_def)
  let ?h = "(rl_hosts s ! k)\<lparr>h_running := True\<rparr>" and ?b = "(rl_subs s ! i)\<lparr>sb_phase := Pushing k\<rparr>"
  have s': "rl_state (answer i k s) = Some q" "rl_hosts (answer i k s) = (rl_hosts s)[k := ?h]"
    "rl_subs (answer i k s) = (rl_subs s)[i := ?b]" "rl_ran (answer i k s) = rl_ran s" "rl_pushed (answer i k s) = rl_pushed s"
    using assms(4) by (simp_all add: answer_def set_phase_def set_host_def)
  have hosts: "h_queue (rl_hosts (answer i k s) ! q) = h_queue (rl_hosts s ! q)"
    "h_signalled (rl_hosts (answer i k s) ! q) = h_signalled (rl_hosts s ! q)"
    using k by (auto simp: s'(2) nth_list_update)
  have wake: "woken (answer i k s) q" if "h_queue (rl_hosts (answer i k s) ! q) \<noteq> []"
  proof -
    have "woken (s\<lparr>rl_subs := (rl_subs s)[i := ?b]\<rparr>) q"
      by (rule woken_update [OF woken_before [OF assms(1,4)] assms(2)]) (use that hosts assms(3) in auto)
    then show ?thesis by (auto simp: woken_def hosts s'(3))
  qed
  show ?thesis
    by (rule host_step_ok [OF assms(1,2) k assms(4) s'(1-4), where new = "[]"])
      (use k s' assms(3) wake in \<open>auto simp: phase_ok_def delivered_def\<close>)
qed

lemma push_job_ok:
  assumes "rl_ok s" "i < length (rl_subs s)" "sb_phase (rl_subs s ! i) = Pushing k"
  shows "rl_ok (push_job i k s)"
proof -
  obtain q where k: "k < length (rl_hosts s)" and st: "rl_state s = Some q"
    using phase_at [OF assms(1,2)] assms(3) by (auto simp: phase_ok_def)
  let ?j = "sb_job (rl_subs s ! i)"
  let ?h = "(rl_hosts s ! k)\<lparr>h_queue := h_queue (rl_hosts s ! k) @ [?j]\<rparr>" and ?b = "(rl_subs s ! i)\<lparr>sb_phase := Signalling k\<rparr>"
  have s': "rl_state (push_job i k s) = Some q" "rl_hosts (push_job i k s) = (rl_hosts s)[k := ?h]"
    "rl_subs (push_job i k s) = (rl_subs s)[i := ?b]" "rl_ran (push_job i k s) = rl_ran s"
    "rl_pushed (push_job i k s) = rl_pushed s @ (if q = k then [?j] else [])"
    using st by (simp_all add: push_job_def Let_def set_phase_def set_host_def)
  have wake: "woken (push_job i k s) q" if "h_queue (rl_hosts (push_job i k s) ! q) \<noteq> []"
  proof (cases "q = k")
    case True
    have "?b \<in> set (rl_subs (push_job i k s))" unfolding s'(3) by (rule set_update_memI [OF assms(2)])
    then show ?thesis unfolding woken_def True by (intro disjI2 bexI [of _ ?b]) simp_all
  next
    case False
    have "rl_hosts (push_job i k s) ! q = rl_hosts s ! q" using False by (simp add: s'(2))
    then show ?thesis
      using woken_update [OF woken_before [OF assms(1) st] assms(2), of "push_job i k s" ?b] that assms(3) s'(3) by simp
  qed
  show ?thesis
    by (rule host_step_ok [OF assms(1,2) k st s'(1-4), where new = "[?j]"])
      (use k s' assms(3) wake in \<open>auto simp: phase_ok_def delivered_def\<close>)
qed

lemma signal_ok:
  assumes "rl_ok s" "i < length (rl_subs s)" "sb_phase (rl_subs s ! i) = Signalling k"
  shows "rl_ok (signal i k s)"
proof -
  obtain q where k: "k < length (rl_hosts s)" and st: "rl_state s = Some q"
    using phase_at [OF assms(1,2)] assms(3) by (auto simp: phase_ok_def)
  let ?h = "(rl_hosts s ! k)\<lparr>h_signalled := True\<rparr>" and ?b = "(rl_subs s ! i)\<lparr>sb_phase := Finished\<rparr>"
  have s': "rl_state (signal i k s) = Some q" "rl_hosts (signal i k s) = (rl_hosts s)[k := ?h]"
    "rl_subs (signal i k s) = (rl_subs s)[i := ?b]" "rl_ran (signal i k s) = rl_ran s" "rl_pushed (signal i k s) = rl_pushed s"
    using st by (simp_all add: signal_def set_phase_def set_host_def)
  have wake: "woken (signal i k s) q" if "h_queue (rl_hosts (signal i k s) ! q) \<noteq> []"
  proof (cases "q = k")
    case True
    then show ?thesis using k by (simp add: woken_def s'(2))
  next
    case False
    have "rl_hosts (signal i k s) ! q = rl_hosts s ! q" using False by (simp add: s'(2))
    then show ?thesis
      using woken_update [OF woken_before [OF assms(1) st] assms(2), of "signal i k s" ?b] that assms(3) s'(3) False by simp
  qed
  show ?thesis
    by (rule host_step_ok [OF assms(1,2) k st s'(1-4), where new = "[]"])
      (use k s' assms(3) wake in \<open>auto simp: phase_ok_def delivered_def\<close>)
qed

lemma perform_ok:
  assumes "rl_ok s" "k < length (rl_hosts s)"
  shows "rl_ok (perform k s)"
proof (cases "rl_state s")
  case None
  have p: "perform k s = set_host k ((rl_hosts s ! k)\<lparr>h_signalled := False\<rparr>) s"
    using None by (simp add: perform_def Let_def)
  have "stray (perform k s) = stray s"
    by (rule stray_same) (use assms(2) in \<open>auto simp: p set_host_def nth_list_update\<close>)
  moreover have "\<forall>h \<in> set (rl_hosts (perform k s)). h_queue h = []"
    using assms None by (auto simp: p set_host_def rl_ok_def dest!: set_update_cases)
  moreover have "\<forall>b \<in> set (rl_subs s). phase_ok (perform k s) (sb_phase b)"
    using assms(1) phase_ok_mono [of s _ "perform k s"] by (auto simp: rl_ok_def p set_host_def)
  ultimately show ?thesis using assms(1) None by (simp add: rl_ok_def jobs_delivered_def p set_host_def)
next
  case (Some q)
  let ?s = "perform k s"
  let ?hs = "(rl_hosts s)[k := (rl_hosts s ! k)\<lparr>h_signalled := False\<rparr>]"
  have n: "rl_hosts ?s = ?hs [q := (?hs ! q)\<lparr>h_queue := []\<rparr>]" "rl_state ?s = Some q" "rl_subs ?s = rl_subs s"
    "rl_pushed ?s = rl_pushed s" "rl_ran ?s = rl_ran s @ h_queue (?hs ! q)"
    using Some by (simp_all add: perform_def Let_def set_host_def)
  have q: "q < length (rl_hosts s)" using assms(1) Some by (simp add: rl_ok_def)
  have hq: "h_queue (?hs ! q) = h_queue (rl_hosts s ! q)" using assms(2) by (auto simp: nth_list_update)
  have "stray ?s = stray s"
    by (rule stray_same) (use Some assms(2) in \<open>auto simp: n nth_list_update\<close>)
  moreover have "\<forall>b \<in> set (rl_subs s). phase_ok ?s (sb_phase b)"
    using assms(1) phase_ok_mono [of s _ ?s] n by (auto simp: rl_ok_def)
  ultimately show ?thesis using assms(1) Some q hq n by (simp add: rl_ok_def jobs_delivered_def)
qed

lemma rl_step_ok: "rl_step s s' \<Longrightarrow> rl_ok s \<Longrightarrow> rl_ok s'"
proof (induction rule: rl_step.induct)
  case (published i s k)
  then have "k < length (rl_hosts s)" using phase_at [of s i] by (simp add: phase_ok_def)
  then show ?case using published publish_ok by blast
qed (auto intro: submit_job_ok answer_ok push_job_ok signal_ok perform_ok)

lemma rl_init_ok: "rl_ok rl_init"
  by (simp add: rl_ok_def rl_init_def jobs_delivered_def stray_def)

lemma rl_reach_ok: "rl_reach s \<Longrightarrow> rl_ok s"
  by (induction rule: rl_reach.induct) (blast intro: rl_init_ok rl_step_ok)+

section \<open>Order, wake-ups, and what is lost\<close>

text \<open>C30. Whatever threads submit jobs to the run loop and however their steps interleave with those of
  the loop (\<open>submit\<close> and \<open>perform\<close>, \<open>src/src/runloop_thread.rs\<close>): the jobs that ran are the first ones
  pushed to the published queue, in the order they were pushed, each once, and the queue is the rest of
  them; while a job waits there a wake-up of its thread is under way; and as long as one thread at most
  was started, every job whose submission has returned has run or waits there.\<close>

theorem runloop_jobs_in_order:
  assumes "rl_reach s"
  shows "(case rl_state s of
      None \<Rightarrow> rl_ran s = [] \<and> jobs_delivered s = {#}
    | Some k \<Rightarrow>
        rl_ran s @ h_queue (rl_hosts s ! k) = rl_pushed s \<and> (h_queue (rl_hosts s ! k) \<noteq> [] \<longrightarrow> woken s k))
    \<and> mset (rl_pushed s) \<subseteq># jobs_delivered s
    \<and> (length (rl_hosts s) \<le> 1 \<longrightarrow> jobs_delivered s = mset (rl_pushed s))"
proof -
  note ok = rl_reach_ok [OF assms]
  have jd: "jobs_delivered s = mset (rl_pushed s) + stray s" using ok by (simp add: rl_ok_def)
  have none: "stray s = {#}" if "rl_state s = None"
    using ok that by (auto simp: rl_ok_def stray_def intro!: sum.neutral)
  have one: "stray s = {#}" if "length (rl_hosts s) \<le> 1"
  proof (cases "rl_state s")
    case (Some k)
    then have "k = 0" "length (rl_hosts s) = 1" using ok that by (auto simp: rl_ok_def)
    with Some show ?thesis by (simp add: stray_def)
  qed (use none in simp)
  show ?thesis using ok jd none one by (cases "rl_state s") (auto simp: rl_ok_def)
qed

text \<open>One submission, run.\<close>

definition one_job_ran :: runloop where
  "one_job_ran =
     \<lparr>rl_state = Some 0, rl_hosts = [\<lparr>h_queue = [], h_signalled = False, h_running = True\<rparr>],
      rl_subs = [\<lparr>sb_job = 4, sb_phase = Finished\<rparr>], rl_pushed = [4], rl_ran = [4]\<rparr>"

lemmas rl_op_defs = submit_job_def publish_def answer_def push_job_def signal_def perform_def set_phase_def
  set_host_def new_host_def rl_init_def Let_def

lemma reach_one_job: "rl_reach one_job_ran"
proof -
  define s1 where "s1 = submit_job 4 rl_init"
  define s2 where "s2 = publish 0 s1"
  define s3 where "s3 = answer 0 0 s2"
  define s4 where "s4 = push_job 0 0 s3"
  define s5 where "s5 = signal 0 0 s4"
  note defs = s1_def s2_def s3_def s4_def s5_def rl_op_defs
  have "rl_reach s1" unfolding s1_def by (rule rl_next [OF rl_start submitted])
  then have "rl_reach s2" unfolding s2_def
    by (rule rl_next) (rule published [of 0], simp_all add: s1_def rl_op_defs)
  then have "rl_reach s3" unfolding s3_def
    by (rule rl_next) (rule answered, simp_all add: s1_def s2_def rl_op_defs)
  then have "rl_reach s4" unfolding s4_def
    by (rule rl_next) (rule pushed, simp_all add: s1_def s2_def s3_def rl_op_defs)
  then have "rl_reach s5" unfolding s5_def
    by (rule rl_next) (rule signalled, simp_all add: s1_def s2_def s3_def s4_def rl_op_defs)
  then have "rl_reach (perform 0 s5)" by (rule rl_next) (rule performed, simp_all add: defs)
  moreover have "perform 0 s5 = one_job_ran" by (simp add: defs one_job_ran_def)
  ultimately show ?thesis by simp
qed

theorem runloop_jobs_in_order_witness:
  "rl_ran one_job_ran @ h_queue (rl_hosts one_job_ran ! 0) = [4] \<and> jobs_delivered one_job_ran = {#4#}"
  using runloop_jobs_in_order [OF reach_one_job] by (simp add: one_job_ran_def)

text \<open>Two threads that submit first at the same time both start a thread. The job of the one whose state
  comes second is pushed to a queue that no thread ever drains, and stays there.\<close>

lemma unpublished_queue_kept:
  assumes "rl_step s s'" "rl_state s = Some q" "k \<noteq> q" "k < length (rl_hosts s)" "j \<in> set (h_queue (rl_hosts s ! k))"
  shows "rl_state s' = Some q \<and> k < length (rl_hosts s') \<and> j \<in> set (h_queue (rl_hosts s' ! k))"
  using assms
proof (induction rule: rl_step.induct)
  case (answered i s ka)
  then show ?case by (cases "ka = k") (auto simp: rl_op_defs)
next
  case (pushed i s ka)
  then show ?case by (cases "ka = k") (auto simp: rl_op_defs)
next
  case (signalled i s ka)
  then show ?case by (cases "ka = k") (auto simp: rl_op_defs)
next
  case (performed ka s)
  then show ?case by (cases "ka = k") (auto simp: rl_op_defs)
qed (auto simp: rl_op_defs nth_append)

lemma racing_first_submissions:
  "\<exists>s. rl_reach s \<and> list_all (\<lambda>b. sb_phase b = Finished) (rl_subs s) \<and> map sb_job (rl_subs s) = [1, 2]
     \<and> rl_state s = Some 0 \<and> rl_pushed s = [1] \<and> 2 \<in> set (h_queue (rl_hosts s ! 1))"
proof -
  define s1 where "s1 = submit_job 1 rl_init"
  define s2 where "s2 = submit_job 2 s1"
  define s3 where "s3 = publish 0 s2"
  define s4 where "s4 = answer 0 0 s3"
  define s5 where "s5 = answer 1 1 s4"
  define s6 where "s6 = push_job 0 0 s5"
  define s7 where "s7 = push_job 1 1 s6"
  define s8 where "s8 = signal 0 0 s7"
  define s9 where "s9 = signal 1 1 s8"
  have s1: "s1 = \<lparr>rl_state = None, rl_hosts = [\<lparr>h_queue = [], h_signalled = False, h_running = False\<rparr>],
      rl_subs = [\<lparr>sb_job = 1, sb_phase = Waiting 0\<rparr>], rl_pushed = [], rl_ran = []\<rparr>"
    by (simp add: s1_def rl_op_defs)
  have s2: "s2 = \<lparr>rl_state = None, rl_hosts = [\<lparr>h_queue = [], h_signalled = False, h_running = False\<rparr>, \<lparr>h_queue = [], h_signalled = False, h_running = False\<rparr>],
      rl_subs = [\<lparr>sb_job = 1, sb_phase = Waiting 0\<rparr>, \<lparr>sb_job = 2, sb_phase = Waiting 1\<rparr>], rl_pushed = [], rl_ran = []\<rparr>"
    by (simp add: s2_def s1 rl_op_defs)
  have s3: "s3 = \<lparr>rl_state = Some 0, rl_hosts = [\<lparr>h_queue = [], h_signalled = False, h_running = False\<rparr>, \<lparr>h_queue = [], h_signalled = False, h_running = False\<rparr>],
      rl_subs = [\<lparr>sb_job = 1, sb_phase = Waiting 0\<rparr>, \<lparr>sb_job = 2, sb_phase = Waiting 1\<rparr>], rl_pushed = [], rl_ran = []\<rparr>"
    by (simp add: s3_def s2 rl_op_defs)
  have s4: "s4 = \<lparr>rl_state = Some 0, rl_hosts = [\<lparr>h_queue = [], h_signalled = False, h_running = True\<rparr>, \<lparr>h_queue = [], h_signalled = False, h_running = False\<rparr>],
      rl_subs = [\<lparr>sb_job = 1, sb_phase = Pushing 0\<rparr>, \<lparr>sb_job = 2, sb_phase = Waiting 1\<rparr>], rl_pushed = [], rl_ran = []\<rparr>"
    by (simp add: s4_def s3 rl_op_defs)
  have s5: "s5 = \<lparr>rl_state = Some 0, rl_hosts = [\<lparr>h_queue = [], h_signalled = False, h_running = True\<rparr>, \<lparr>h_queue = [], h_signalled = False, h_running = True\<rparr>],
      rl_subs = [\<lparr>sb_job = 1, sb_phase = Pushing 0\<rparr>, \<lparr>sb_job = 2, sb_phase = Pushing 1\<rparr>], rl_pushed = [], rl_ran = []\<rparr>"
    by (simp add: s5_def s4 rl_op_defs)
  have s6: "s6 = \<lparr>rl_state = Some 0, rl_hosts = [\<lparr>h_queue = [1], h_signalled = False, h_running = True\<rparr>, \<lparr>h_queue = [], h_signalled = False, h_running = True\<rparr>],
      rl_subs = [\<lparr>sb_job = 1, sb_phase = Signalling 0\<rparr>, \<lparr>sb_job = 2, sb_phase = Pushing 1\<rparr>], rl_pushed = [1], rl_ran = []\<rparr>"
    by (simp add: s6_def s5 rl_op_defs)
  have s7: "s7 = \<lparr>rl_state = Some 0, rl_hosts = [\<lparr>h_queue = [1], h_signalled = False, h_running = True\<rparr>, \<lparr>h_queue = [2], h_signalled = False, h_running = True\<rparr>],
      rl_subs = [\<lparr>sb_job = 1, sb_phase = Signalling 0\<rparr>, \<lparr>sb_job = 2, sb_phase = Signalling 1\<rparr>], rl_pushed = [1], rl_ran = []\<rparr>"
    by (simp add: s7_def s6 rl_op_defs)
  have s8: "s8 = \<lparr>rl_state = Some 0, rl_hosts = [\<lparr>h_queue = [1], h_signalled = True, h_running = True\<rparr>, \<lparr>h_queue = [2], h_signalled = False, h_running = True\<rparr>],
      rl_subs = [\<lparr>sb_job = 1, sb_phase = Finished\<rparr>, \<lparr>sb_job = 2, sb_phase = Signalling 1\<rparr>], rl_pushed = [1], rl_ran = []\<rparr>"
    by (simp add: s8_def s7 rl_op_defs)
  have s9: "s9 = \<lparr>rl_state = Some 0, rl_hosts = [\<lparr>h_queue = [1], h_signalled = True, h_running = True\<rparr>, \<lparr>h_queue = [2], h_signalled = True, h_running = True\<rparr>],
      rl_subs = [\<lparr>sb_job = 1, sb_phase = Finished\<rparr>, \<lparr>sb_job = 2, sb_phase = Finished\<rparr>], rl_pushed = [1], rl_ran = []\<rparr>"
    by (simp add: s9_def s8 rl_op_defs)
  have "rl_reach s1" unfolding s1_def
    by (rule rl_next [OF rl_start]) (rule submitted)
  then have "rl_reach s2" unfolding s2_def
    by (rule rl_next) (rule submitted)
  then have "rl_reach s3" unfolding s3_def
    by (rule rl_next) (rule published [of 0], simp_all add: s2)
  then have "rl_reach s4" unfolding s4_def
    by (rule rl_next) (rule answered, simp_all add: s3)
  then have "rl_reach s5" unfolding s5_def
    by (rule rl_next) (rule answered, simp_all add: s4)
  then have "rl_reach s6" unfolding s6_def
    by (rule rl_next) (rule pushed, simp_all add: s5)
  then have "rl_reach s7" unfolding s7_def
    by (rule rl_next) (rule pushed, simp_all add: s6)
  then have "rl_reach s8" unfolding s8_def
    by (rule rl_next) (rule signalled, simp_all add: s7)
  then have "rl_reach s9" unfolding s9_def
    by (rule rl_next) (rule signalled, simp_all add: s8)
  then show ?thesis by (intro exI [of _ s9]) (simp add: s9)
qed

end
