(* ===== verification/Aac_Encoder.thy ===== *)
theory Aac_Encoder
  imports Bytes Rust_Float "HOL-Library.Sublist"
begin

text \<open>
  The AAC encoder, \<open>src/src/aac.rs\<close>: the descriptions of the converter it creates, the loop that pulls
  packets out of it, and the callback that feeds it. The converter is a parameter: for each call it is
  said how many frames it asks the callback for, one request after the other, and what it returns. A
  request that finds nothing left is answered by the sentinel, after which the converter asks no more.
\<close>

section \<open>The converter\<close>

record stream_description =
  sd_rate :: nat
  sd_format :: nat
  sd_flags :: nat
  sd_bytes_per_packet :: nat
  sd_frames_per_packet :: nat
  sd_bytes_per_frame :: nat
  sd_channels :: nat
  sd_bits :: nat

definition LINEAR_PCM :: nat where "LINEAR_PCM = be_value (map of_char ''lpcm'')"

definition MPEG4_AAC :: nat where "MPEG4_AAC = be_value (map of_char ''aac '')"

definition FRAMES_PER_PACKET :: nat where "FRAMES_PER_PACKET = 1024"

definition source_description :: "nat \<Rightarrow> nat \<Rightarrow> stream_description" where
  "source_description rate channels =
     \<lparr>sd_rate = rate, sd_format = LINEAR_PCM, sd_flags = 4 + 8, sd_bytes_per_packet = channels * 2,
      sd_frames_per_packet = 1, sd_bytes_per_frame = channels * 2, sd_channels = channels, sd_bits = 16\<rparr>"

definition aac_description :: "nat \<Rightarrow> nat \<Rightarrow> stream_description" where
  "aac_description rate channels =
     \<lparr>sd_rate = rate, sd_format = MPEG4_AAC, sd_flags = 0, sd_bytes_per_packet = 0,
      sd_frames_per_packet = FRAMES_PER_PACKET, sd_bytes_per_frame = 0, sd_channels = channels, sd_bits = 0\<rparr>"

record aac_encoder =
  aac_converter :: nat
  aac_channels :: nat
  aac_rate :: nat

text \<open>\<open>converter\<close> is what creating it yields, 0 for none; a refused bit rate is ignored.\<close>

definition aac_new :: "(stream_description \<Rightarrow> stream_description \<Rightarrow> int \<times> nat) \<Rightarrow> nat \<Rightarrow> nat \<Rightarrow> int + aac_encoder" where
  "aac_new create_converter rate channels =
     (case create_converter (source_description rate channels) (aac_description rate channels) of
        (status, converter) \<Rightarrow>
          if status \<noteq> 0 \<or> converter = 0 then Inl status
          else Inr \<lparr>aac_converter = converter, aac_channels = channels, aac_rate = rate\<rparr>)"

definition packet_duration_ms :: "nat \<Rightarrow> real" where
  "packet_duration_ms rate = real FRAMES_PER_PACKET / real rate * 1000"

section \<open>Feeding it\<close>

definition INPUT_EXHAUSTED :: int where "INPUT_EXHAUSTED = int (be_value (map of_char ''NoDt''))"

record input_ctx =
  cx_data :: bytes
  cx_len :: nat
  cx_pos :: nat
  cx_bytes_per_frame :: nat

text \<open>\<open>None\<close> is the sentinel.\<close>

definition input_data_proc :: "nat \<Rightarrow> input_ctx \<Rightarrow> input_ctx \<times> bytes option" where
  "input_data_proc requested c =
     (let frames_left = (cx_len c - cx_pos c) div cx_bytes_per_frame c;
          give = min requested frames_left; bytes = give * cx_bytes_per_frame c
      in if give = 0 then (c, None)
         else (c\<lparr>cx_pos := cx_pos c + bytes\<rparr>, Some (take bytes (drop (cx_pos c) (cx_data c)))))"

primrec serve :: "nat list \<Rightarrow> input_ctx \<Rightarrow> bytes \<Rightarrow> input_ctx \<times> bytes \<times> bool" where
  "serve [] c given = (c, given, False)"
| "serve (n # ns) c given =
     (case input_data_proc n c of
        (c', None) \<Rightarrow> (c', given, True)
      | (c', Some bs) \<Rightarrow> serve ns c' (given @ bs))"

text \<open>One call of the converter; \<open>fi_out\<close> is the output buffer as it leaves it.\<close>

record fill_answer =
  fi_requests :: "nat list"
  fi_status :: int
  fi_packets :: nat
  fi_desc_size :: nat
  fi_buffer_size :: nat
  fi_out :: bytes

text \<open>\<open>Unfinished\<close>: the answers ran out, the loop has not ended.\<close>

datatype aac_result = Packets "bytes list" | Failed int | Panicked | Unfinished

primrec pull_packets :: "fill_answer list \<Rightarrow> input_ctx \<Rightarrow> bytes \<Rightarrow> bytes list \<Rightarrow> aac_result \<times> bytes" where
  "pull_packets [] c given packets = (Unfinished, given)"
| "pull_packets (a # as) c given packets =
     (case serve (fi_requests a) c given of
        (c', given', _) \<Rightarrow>
          if fi_status a = INPUT_EXHAUSTED then (Packets packets, given')
          else if fi_status a \<noteq> 0 then (Failed (fi_status a), given')
          else if fi_packets a = 0 then (Packets packets, given')
          else
            let size = (if fi_desc_size a = 0 then fi_buffer_size a else fi_desc_size a)
            in if length (fi_out a) < size then (Panicked, given')
               else pull_packets as c' given' (packets @ [take size (fi_out a)]))"

definition batch_ctx :: "aac_encoder \<Rightarrow> bytes \<Rightarrow> input_ctx" where
  "batch_ctx e pcm =
     (let bytes_per_frame = aac_channels e * 2
      in \<lparr>cx_data = pcm, cx_len = length pcm - length pcm mod bytes_per_frame, cx_pos = 0,
          cx_bytes_per_frame = bytes_per_frame\<rparr>)"

text \<open>One batch, with the bytes the converter was given.\<close>

definition aac_encode :: "aac_encoder \<Rightarrow> fill_answer list \<Rightarrow> bytes \<Rightarrow> aac_result \<times> bytes" where
  "aac_encode e answers pcm =
     (let bytes_per_frame = aac_channels e * 2
      in if bytes_per_frame = 0 then (Packets [], [])
         else
           let usable = length pcm - length pcm mod bytes_per_frame
           in if usable = 0 then (Packets [], [])
              else pull_packets answers (batch_ctx e pcm) [] [])"

section \<open>What the converter is given\<close>

text \<open>The documented behaviour of the converter: the error of the callback is what the call returns, and
  a call that succeeds has produced one packet, in the buffer, out of the frames it was given and had not
  yet used. It asks for at least one frame at a time.\<close>

definition lawful_fill :: "fill_answer \<Rightarrow> input_ctx \<Rightarrow> nat \<Rightarrow> bool" where
  "lawful_fill a c held \<longleftrightarrow>
     list_all ((<) 0) (fi_requests a)
     \<and> (snd (snd (serve (fi_requests a) c [])) \<longleftrightarrow> fi_status a = INPUT_EXHAUSTED)
     \<and> (fi_status a = 0 \<longrightarrow> 0 < fi_packets a \<and> FRAMES_PER_PACKET \<le> held
           \<and> fi_desc_size a \<le> length (fi_out a) \<and> fi_buffer_size a \<le> length (fi_out a))"

definition frames_between :: "input_ctx \<Rightarrow> input_ctx \<Rightarrow> nat" where
  "frames_between c c' = (cx_pos c' - cx_pos c) div cx_bytes_per_frame c"

primrec lawful_fills :: "fill_answer list \<Rightarrow> input_ctx \<Rightarrow> nat \<Rightarrow> bool" where
  "lawful_fills [] c held \<longleftrightarrow> True"
| "lawful_fills (a # as) c held \<longleftrightarrow>
     (let c' = fst (serve (fi_requests a) c []); held' = held + frames_between c c'
      in lawful_fill a c held' \<and> (fi_status a = 0 \<longrightarrow> lawful_fills as c' (held' - FRAMES_PER_PACKET)))"

definition ctx_ok :: "input_ctx \<Rightarrow> bool" where
  "ctx_ok c \<longleftrightarrow>
     0 < cx_bytes_per_frame c \<and> cx_pos c \<le> cx_len c \<and> cx_len c \<le> length (cx_data c)
     \<and> cx_bytes_per_frame c dvd cx_len c - cx_pos c"

lemma proc_ok:
  assumes "ctx_ok c" "input_data_proc n c = (c', r)"
  shows "ctx_ok c' \<and> cx_data c' = cx_data c \<and> cx_len c' = cx_len c \<and> cx_pos c \<le> cx_pos c'
    \<and> (case r of
         None \<Rightarrow> c' = c \<and> (0 < n \<longrightarrow> cx_pos c = cx_len c)
       | Some bs \<Rightarrow> bs = take (cx_pos c' - cx_pos c) (drop (cx_pos c) (cx_data c)) \<and> cx_pos c < cx_pos c')"
proof -
  define f where "f = (cx_len c - cx_pos c) div cx_bytes_per_frame c"
  define g where "g = min n f"
  have len: "cx_len c - cx_pos c = f * cx_bytes_per_frame c" using assms(1) by (simp add: f_def ctx_ok_def)
  have g: "g * cx_bytes_per_frame c \<le> cx_len c - cx_pos c" unfolding len by (simp add: g_def)
  have p: "input_data_proc n c = (if g = 0 then (c, None)
    else (c\<lparr>cx_pos := cx_pos c + g * cx_bytes_per_frame c\<rparr>, Some (take (g * cx_bytes_per_frame c) (drop (cx_pos c) (cx_data c)))))"
    unfolding input_data_proc_def Let_def f_def [symmetric] g_def [symmetric] by (rule refl)
  show ?thesis
  proof (cases "g = 0")
    case True
    have "cx_pos c = cx_len c" if "0 < n"
    proof -
      have "f = 0" using True that unfolding g_def min_def by (metis less_irrefl)
      then show ?thesis using len assms(1) by (simp add: ctx_ok_def)
    qed
    then show ?thesis using p True assms by auto
  next
    case False
    have "cx_bytes_per_frame c dvd cx_len c - (cx_pos c + g * cx_bytes_per_frame c)"
      using len g assms(1) by (simp add: ctx_ok_def diff_diff_left [symmetric] dvd_diff_nat)
    then show ?thesis using p False assms g by (auto simp: ctx_ok_def)
  qed
qed

lemma serve_given:
  "serve ns c given = (case serve ns c [] of (c', g, ex) \<Rightarrow> (c', given @ g, ex))"
proof (induction ns arbitrary: c given)
  case (Cons n ns)
  obtain c1 r where r: "input_data_proc n c = (c1, r)" by (rule prod.exhaust)
  show ?case
  proof (cases r)
    case (Some bs)
    have "serve ns c1 (given @ bs) = (case serve ns c1 [] of (c', g, ex) \<Rightarrow> (c', given @ bs @ g, ex))"
      using Cons.IH [of c1 "given @ bs"] by simp
    moreover have "serve ns c1 bs = (case serve ns c1 [] of (c', g, ex) \<Rightarrow> (c', bs @ g, ex))"
      by (rule Cons.IH)
    ultimately show ?thesis using r Some by (simp split: prod.splits)
  qed (simp add: r)
qed simp

lemma serve_ok:
  assumes "ctx_ok c" "serve ns c given = (c', given', ex)"
  shows "ctx_ok c' \<and> cx_data c' = cx_data c \<and> cx_len c' = cx_len c \<and> cx_pos c \<le> cx_pos c'
    \<and> given' = given @ take (cx_pos c' - cx_pos c) (drop (cx_pos c) (cx_data c))
    \<and> (ex \<and> list_all ((<) 0) ns \<longrightarrow> cx_pos c' = cx_len c')"
  using assms
proof (induction ns arbitrary: c given)
  case Nil
  then show ?case by simp
next
  case (Cons n ns)
  obtain c1 r where r: "input_data_proc n c = (c1, r)" by (rule prod.exhaust)
  note p = proc_ok [OF Cons.prems(1) r]
  show ?case
  proof (cases r)
    case None
    then show ?thesis using p r Cons.prems by auto
  next
    case (Some bs)
    then have s: "serve ns c1 (given @ bs) = (c', given', ex)" using Cons.prems(2) r by simp
    have ih: "ctx_ok c' \<and> cx_data c' = cx_data c \<and> cx_len c' = cx_len c \<and> cx_pos c1 \<le> cx_pos c'
      \<and> given' = (given @ bs) @ take (cx_pos c' - cx_pos c1) (drop (cx_pos c1) (cx_data c))
      \<and> (ex \<and> list_all ((<) 0) ns \<longrightarrow> cx_pos c' = cx_len c')"
      using Cons.IH [OF _ s] p by simp
    have bs: "bs = take (cx_pos c1 - cx_pos c) (drop (cx_pos c) (cx_data c))" and le: "cx_pos c \<le> cx_pos c1"
      using p Some by auto
    have "bs @ take (cx_pos c' - cx_pos c1) (drop (cx_pos c1) (cx_data c)) =
        take (cx_pos c' - cx_pos c) (drop (cx_pos c) (cx_data c))"
      using take_add [of "cx_pos c1 - cx_pos c" "cx_pos c' - cx_pos c1" "drop (cx_pos c) (cx_data c)"] le ih
      by (simp add: bs)
    then show ?thesis using ih le by simp
  qed
qed

definition frames_left :: "input_ctx \<Rightarrow> nat" where
  "frames_left c = (cx_len c - cx_pos c) div cx_bytes_per_frame c"

lemma serve_frames:
  assumes "ctx_ok c" "ctx_ok c'" "cx_len c' = cx_len c" "cx_pos c \<le> cx_pos c'"
    "cx_bytes_per_frame c' = cx_bytes_per_frame c"
  shows "frames_left c = frames_between c c' + frames_left c'"
proof -
  let ?b = "cx_bytes_per_frame c"
  have le: "cx_pos c' \<le> cx_len c" and d': "?b dvd cx_len c - cx_pos c'" and d: "?b dvd cx_len c - cx_pos c"
    using assms by (auto simp: ctx_ok_def)
  have e: "cx_pos c' - cx_pos c = (cx_len c - cx_pos c) - (cx_len c - cx_pos c')" using le assms(4) by simp
  have "?b dvd cx_pos c' - cx_pos c" unfolding e using d d' by (rule dvd_diff_nat)
  moreover have "cx_len c - cx_pos c = (cx_pos c' - cx_pos c) + (cx_len c - cx_pos c')" using le assms(4) by simp
  ultimately show ?thesis
    by (simp add: frames_left_def frames_between_def assms(3,5) div_plus_div_distrib_dvd_left)
qed

lemma serve_width: "serve ns c given = (c', given', ex) \<Longrightarrow> cx_bytes_per_frame c' = cx_bytes_per_frame c"
  by (induction ns arbitrary: c given)
     (auto simp: input_data_proc_def Let_def split: if_splits)

text \<open>What holds of the result of the loop.\<close>

definition pulled :: "input_ctx \<Rightarrow> bytes \<Rightarrow> bytes list \<Rightarrow> nat \<Rightarrow> aac_result \<times> bytes \<Rightarrow> bool" where
  "pulled c given packets held r =
     (case fst r of
        Packets ps \<Rightarrow>
          snd r = given @ take (cx_len c - cx_pos c) (drop (cx_pos c) (cx_data c))
          \<and> length ps * FRAMES_PER_PACKET \<le> length packets * FRAMES_PER_PACKET + held + frames_left c
      | Failed status \<Rightarrow>
          (\<exists>n \<le> cx_len c - cx_pos c. snd r = given @ take n (drop (cx_pos c) (cx_data c)))
      | Panicked \<Rightarrow> False
      | Unfinished \<Rightarrow> False)"

lemma pulled_later:
  assumes "ctx_ok c'" "cx_data c' = cx_data c" "cx_len c' = cx_len c" "cx_pos c \<le> cx_pos c'"
    and given': "given' = given @ take (cx_pos c' - cx_pos c) (drop (cx_pos c) (cx_data c))"
    and frames: "frames_left c = k + frames_left c'" and "FRAMES_PER_PACKET \<le> held + k"
    and "pulled c' given' (packets @ [p]) (held + k - FRAMES_PER_PACKET) r"
  shows "pulled c given packets held r"
proof -
  have le: "cx_pos c' \<le> cx_len c" using assms(1,3) by (simp add: ctx_ok_def)
  have joined: "given' @ take n (drop (cx_pos c') (cx_data c)) =
      given @ take (cx_pos c' - cx_pos c + n) (drop (cx_pos c) (cx_data c))" for n
    using assms(4) take_add [of "cx_pos c' - cx_pos c" n "drop (cx_pos c) (cx_data c)"] by (simp only: given' drop_drop append_assoc) simp
  show ?thesis
  proof (cases "fst r")
    case (Packets ps)
    then have "snd r = given' @ take (cx_len c - cx_pos c') (drop (cx_pos c') (cx_data c))"
      "length ps * FRAMES_PER_PACKET \<le> Suc (length packets) * FRAMES_PER_PACKET + (held + k - FRAMES_PER_PACKET) + frames_left c'"
      using assms by (simp_all add: pulled_def)
    then show ?thesis using Packets joined frames assms(4,7) le by (simp add: pulled_def)
  next
    case (Failed status)
    then obtain n where n: "n \<le> cx_len c - cx_pos c'" "snd r = given' @ take n (drop (cx_pos c') (cx_data c))"
      using assms by (auto simp: pulled_def)
    then have "cx_pos c' - cx_pos c + n \<le> cx_len c - cx_pos c" using le assms(4) by simp
    with n(2) joined Failed show ?thesis by (auto simp: pulled_def)
  qed (use assms in \<open>simp_all add: pulled_def\<close>)
qed

lemma pull_pulled:
  assumes "ctx_ok c" "lawful_fills as c held" "held + frames_left c < length as * FRAMES_PER_PACKET"
  shows "pulled c given packets held (pull_packets as c given packets)"
  using assms
proof (induction as arbitrary: c given packets held)
  case Nil
  then show ?case by simp
next
  case (Cons a as)
  obtain c' g ex where s0: "serve (fi_requests a) c [] = (c', g, ex)" by (rule prod_cases3)
  have s: "serve (fi_requests a) c given = (c', given @ g, ex)" by (simp add: serve_given [of _ _ given] s0)
  define k where "k = frames_between c c'"
  have law: "lawful_fill a c (held + k)" "fi_status a = 0 \<Longrightarrow> lawful_fills as c' (held + k - FRAMES_PER_PACKET)"
    using Cons.prems(2) s0 by (simp_all add: Let_def k_def)
  have ok: "ctx_ok c'" "cx_data c' = cx_data c" "cx_len c' = cx_len c" "cx_pos c \<le> cx_pos c'"
    "given @ g = given @ take (cx_pos c' - cx_pos c) (drop (cx_pos c) (cx_data c))"
    and fin: "ex \<Longrightarrow> cx_pos c' = cx_len c'"
    using serve_ok [OF Cons.prems(1) s] law(1) by (auto simp: lawful_fill_def)
  have frames: "frames_left c = k + frames_left c'"
    unfolding k_def by (rule serve_frames [OF Cons.prems(1) ok(1,3,4) serve_width [OF s]])
  have le: "cx_pos c' \<le> cx_len c" using ok by (simp add: ctx_ok_def)
  consider (over) "fi_status a = INPUT_EXHAUSTED" | (failed) "fi_status a \<noteq> INPUT_EXHAUSTED" "fi_status a \<noteq> 0"
    | (packet) "fi_status a = 0" "fi_status a \<noteq> INPUT_EXHAUSTED" by blast
  then show ?case
  proof cases
    case over
    then have "cx_pos c' = cx_len c" using law(1) s0 ok(3) fin by (simp add: lawful_fill_def)
    then show ?thesis using over s ok(5) by (simp add: pulled_def)
  next
    case failed
    then show ?thesis using s ok(5) le by (auto simp: pulled_def intro!: exI [of _ "cx_pos c' - cx_pos c"])
  next
    case packet
    have l: "0 < fi_packets a" "FRAMES_PER_PACKET \<le> held + k" "fi_desc_size a \<le> length (fi_out a)"
      "fi_buffer_size a \<le> length (fi_out a)"
      using law(1) packet(1) by (simp_all add: lawful_fill_def)
    have step: "pull_packets (a # as) c given packets = pull_packets as c' (given @ g)
        (packets @ [take (if fi_desc_size a = 0 then fi_buffer_size a else fi_desc_size a) (fi_out a)])"
      using packet l s by (simp add: Let_def)
    have "held + k - FRAMES_PER_PACKET + frames_left c' < length as * FRAMES_PER_PACKET"
      using Cons.prems(3) frames l(2) by simp
    then have "pulled c' (given @ g) (packets @ [p]) (held + k - FRAMES_PER_PACKET)
        (pull_packets as c' (given @ g) (packets @ [p]))" for p
      by (intro Cons.IH ok(1) law(2) packet(1))
    then show ?thesis unfolding step by (rule pulled_later [OF ok(1-5) frames l(2)])
  qed
qed

lemma batch_ok: "0 < aac_channels e \<Longrightarrow> ctx_ok (batch_ctx e pcm)"
  by (simp add: batch_ctx_def ctx_ok_def Let_def dvd_minus_mod)

text \<open>C31. A batch of sound reaches the AAC converter exactly once and in order, and encoding it ends.
  Let a converter keep to its interface, and have \<open>held\<close> frames left from earlier batches. Given as many
  calls as it has packets to give, and one more, \<open>encode\<close> returns: with the packets, and then the converter
  was given every whole frame of the batch, in order and once, the bytes of a cut frame left out, and no more
  packets came than there were frames for; or with the failure of the converter, and then it was given
  some beginning of the batch. It neither panics on the size of a packet nor keeps pulling.\<close>

theorem aac_batch_fed:
  assumes "0 < aac_channels e" "lawful_fills answers (batch_ctx e pcm) held"
    and "held + length pcm div (aac_channels e * 2) < length answers * FRAMES_PER_PACKET"
  shows "case aac_encode e answers pcm of
      (Packets ps, given) \<Rightarrow>
        given = take (length pcm div (aac_channels e * 2) * (aac_channels e * 2)) pcm
        \<and> length ps * FRAMES_PER_PACKET \<le> held + length pcm div (aac_channels e * 2)
    | (Failed status, given) \<Rightarrow> prefix given pcm
    | (Panicked, given) \<Rightarrow> False
    | (Unfinished, given) \<Rightarrow> False"
proof -
  define b where "b = aac_channels e * 2"
  define c where "c = batch_ctx e pcm"
  have b: "0 < b" using assms(1) by (simp add: b_def)
  have whole: "length pcm - length pcm mod b = length pcm div b * b" by (simp add: minus_mod_eq_div_mult)
  have c: "cx_data c = pcm" "cx_len c = length pcm div b * b" "cx_pos c = 0" "frames_left c = length pcm div b"
    using b whole by (simp_all add: c_def batch_ctx_def Let_def frames_left_def b_def)
  show ?thesis
  proof (cases "length pcm div b = 0")
    case True
    then show ?thesis using b whole by (simp add: aac_encode_def Let_def b_def)
  next
    case False
    have enc: "aac_encode e answers pcm = pull_packets answers c [] []"
      using b whole False by (simp add: aac_encode_def Let_def b_def c_def)
    have p: "pulled c [] [] held (pull_packets answers c [] [])"
      by (rule pull_pulled) (use assms batch_ok c in \<open>simp_all add: c_def b_def\<close>)
    obtain r given where rg: "pull_packets answers c [] [] = (r, given)" by (rule prod.exhaust)
    show ?thesis using p c unfolding enc rg
      by (cases r) (auto simp: pulled_def b_def take_is_prefix)
  qed
qed

theorem aac_batch_fed_witness:
  "aac_encode \<lparr>aac_converter = 1, aac_channels = 1, aac_rate = 48000\<rparr>
     [\<lparr>fi_requests = [1], fi_status = 0, fi_packets = 1, fi_desc_size = 2, fi_buffer_size = 3, fi_out = [9, 8, 7]\<rparr>,
      \<lparr>fi_requests = [5, 1], fi_status = INPUT_EXHAUSTED, fi_packets = 0, fi_desc_size = 0, fi_buffer_size = 0, fi_out = []\<rparr>]
     [1, 2, 3, 4, 5]
   = (Packets [[9, 8]], [1, 2, 3, 4])"
proof -
  let ?e = "\<lparr>aac_converter = 1, aac_channels = 1, aac_rate = 48000\<rparr> :: aac_encoder"
  let ?p = "\<lparr>fi_requests = [1], fi_status = 0, fi_packets = 1, fi_desc_size = 2, fi_buffer_size = 3, fi_out = [9, 8, 7]\<rparr> :: fill_answer"
  let ?x = "\<lparr>fi_requests = [5, 1], fi_status = INPUT_EXHAUSTED, fi_packets = 0, fi_desc_size = 0, fi_buffer_size = 0, fi_out = []\<rparr> :: fill_answer"
  let ?pcm = "[1, 2, 3, 4, 5] :: bytes"
  have ne: "INPUT_EXHAUSTED \<noteq> 0"
    by (simp add: INPUT_EXHAUSTED_def be_value_def of_char_def)
  have lawful: "lawful_fills [?p, ?x] (batch_ctx ?e ?pcm) 1023"
    using ne by (simp add: lawful_fill_def batch_ctx_def frames_between_def input_data_proc_def FRAMES_PER_PACKET_def Let_def take_Cons' drop_Cons')
  have run: "fst (aac_encode ?e [?p, ?x] ?pcm) = Packets [[9, 8]]"
    using ne by (simp add: aac_encode_def batch_ctx_def input_data_proc_def Let_def take_Cons' drop_Cons')
  obtain given where g: "aac_encode ?e [?p, ?x] ?pcm = (Packets [[9, 8]], given)"
    using run by (metis prod.collapse)
  have "given = take (length ?pcm div (1 * 2) * (1 * 2)) ?pcm"
    using aac_batch_fed [of ?e "[?p, ?x]" ?pcm 1023] lawful g by (simp add: FRAMES_PER_PACKET_def)
  then show ?thesis using g by (simp add: take_Cons' drop_Cons')
qed

end
