(* ===== verification/Stats_Publish.thy ===== *)
theory Stats_Publish
  imports Stats Decimal
begin

text \<open>
  How the telemetry of \<open>src/src/stats.rs\<close> is published: the gauges are copied from the diagnostics of
  the server and from the latency windows by the task that also samples the processor, and a reader
  that connects gets them as one line of JSON. \<open>SessionStats\<close> has some 120 atomic gauges; here they
  are one function from the name of a field to its value, a flag being 0 or 1.
\<close>

type_synonym gauges = "string \<Rightarrow> int"

section \<open>The line\<close>

text \<open>The labels of the format string and its arguments, each in the order of the source.\<close>

datatype json_arg = Number string | Truth string | Path string | Age

definition json_labels :: "string list" where
  "json_labels = [
    ''connected'', ''width'', ''height'', ''bitrate_bps'', ''ceiling_bps'', ''effective_ceiling_bps'',
    ''configured_increase_bps'', ''configured_decrease_percent'', ''adaptive_control_interval_ms'',
    ''effective_fps_ceiling_steps'', ''effective_fps_raise_clear_ms'', ''rtt_ms'', ''queue_delay_ms'', ''fps'',
    ''capture_interval_ms'', ''frames_sent'', ''capture_drops'', ''capture_drop_fps'',
    ''capture_drop_event_queue'', ''capture_drop_pipeline'', ''capture_drop_udp_lag'',
    ''capture_sample_drops'', ''capture_superseded'', ''capture_buffered'', ''display_pending'',
    ''outbound_queued_packets'', ''outbound_queued_bytes'', ''outbound_enqueued_packets'',
    ''outbound_rejected_packets'', ''outbound_sent_packets'', ''outbound_sent_bytes'',
    ''display_overflow_resyncs'', ''capture_age_ms'', ''encode_latency_ms'', ''ship_latency_ms'',
    ''encoded_pending'', ''server_event_queue'', ''socket_write_stalls'', ''socket_write_ms'', ''audio_queue'',
    ''audio_queue_ms'', ''audio_drops'', ''audio_write_stalls'', ''audio_write_ms'', ''audio_queue_wait_ms'',
    ''audio_queue_wait_p50_ms'', ''audio_queue_wait_p95_ms'', ''audio_queue_wait_max_ms'',
    ''audio_waves_emitted'', ''audio_bytes_emitted'', ''audio_resyncs'', ''audio_resync_dropped'',
    ''audio_backlog_max_ms'', ''capture_age_p50_ms'', ''capture_age_p95_ms'', ''capture_age_max_ms'',
    ''encode_latency_p50_ms'', ''encode_latency_p95_ms'', ''encode_latency_max_ms'', ''ship_latency_p50_ms'',
    ''ship_latency_p95_ms'', ''ship_latency_max_ms'', ''socket_write_p50_ms'', ''socket_write_p95_ms'',
    ''socket_write_max_ms'', ''keyboard_callbacks'', ''input_events'', ''input_keyboard_events'',
    ''input_mouse_events'', ''input_total_us'', ''input_last_us'', ''input_max_us'', ''input_over_10ms'',
    ''input_latency_p50_us'', ''input_latency_p95_us'', ''input_latency_max_us'',
    ''input_keyboard_video_count'', ''input_keyboard_video_latency_last_ms'',
    ''input_keyboard_video_latency_max_ms'', ''input_keyboard_video_latency_p50_ms'',
    ''input_keyboard_video_latency_p95_ms'', ''input_mouse_video_count'',
    ''input_mouse_video_latency_last_ms'', ''input_mouse_video_latency_max_ms'',
    ''input_mouse_video_latency_p50_ms'', ''input_mouse_video_latency_p95_ms'', ''input_keyboard_audio_count'',
    ''input_keyboard_audio_latency_last_ms'', ''input_keyboard_audio_latency_max_ms'',
    ''input_keyboard_audio_latency_p50_ms'', ''input_keyboard_audio_latency_p95_ms'',
    ''input_mouse_audio_count'', ''input_mouse_audio_latency_last_ms'', ''input_mouse_audio_latency_max_ms'',
    ''input_mouse_audio_latency_p50_ms'', ''input_mouse_audio_latency_p95_ms'', ''audio_queue_p50_ms'',
    ''audio_queue_p95_ms'', ''audio_queue_max_ms'', ''audio_write_p50_ms'', ''audio_write_p95_ms'',
    ''audio_write_max_ms'', ''audio_pts_ms'', ''video_pts_ms'', ''av_offset_ms'', ''av_samples'',
    ''av_offset_ewma_ms'', ''av_offset_ewma_samples'', ''av_drift_ppm'', ''av_drift_samples'',
    ''av_drift_zone'', ''av_hysteresis_samples'', ''av_offset_abs_max_ms'', ''av_offset_last_sample_ms'',
    ''cpu_percent'', ''adaptive'', ''aac'', ''video_path'', ''queue_delay_age_ms'']"

definition json_args :: "json_arg list" where
  "json_args = [
    Truth ''connected'', Number ''width'', Number ''height'', Number ''bitrate_bps'', Number ''ceiling_bps'',
    Number ''effective_ceiling_bps'', Number ''configured_increase_bps'',
    Number ''configured_decrease_percent'', Number ''adaptive_control_interval_ms'',
    Number ''effective_fps_ceiling_steps'', Number ''effective_fps_raise_clear_ms'', Number ''rtt_ms'',
    Number ''queue_delay_ms'', Number ''fps'', Number ''capture_interval_ms'', Number ''frames_sent'',
    Number ''capture_drops'', Number ''capture_drop_fps'', Number ''capture_drop_event_queue'',
    Number ''capture_drop_pipeline'', Number ''capture_drop_udp_lag'', Number ''capture_sample_drops'',
    Number ''capture_superseded'', Number ''capture_buffered'', Number ''display_pending'',
    Number ''outbound_queued_packets'', Number ''outbound_queued_bytes'', Number ''outbound_enqueued_packets'',
    Number ''outbound_rejected_packets'', Number ''outbound_sent_packets'', Number ''outbound_sent_bytes'',
    Number ''display_overflow_resyncs'', Number ''capture_age_ms'', Number ''encode_latency_ms'',
    Number ''ship_latency_ms'', Number ''encoded_pending'', Number ''server_event_queue'',
    Number ''socket_write_stalls'', Number ''socket_write_ms'', Number ''audio_queue'',
    Number ''audio_queue_ms'', Number ''audio_drops'', Number ''audio_write_stalls'',
    Number ''audio_write_ms'', Number ''audio_queue_wait_ms'', Number ''audio_queue_wait_p50_ms'',
    Number ''audio_queue_wait_p95_ms'', Number ''audio_queue_wait_max_ms'', Number ''audio_waves_emitted'',
    Number ''audio_bytes_emitted'', Number ''audio_resyncs'', Number ''audio_resync_dropped'',
    Number ''audio_backlog_max_ms'', Number ''capture_age_p50_ms'', Number ''capture_age_p95_ms'',
    Number ''capture_age_max_ms'', Number ''encode_latency_p50_ms'', Number ''encode_latency_p95_ms'',
    Number ''encode_latency_max_ms'', Number ''ship_latency_p50_ms'', Number ''ship_latency_p95_ms'',
    Number ''ship_latency_max_ms'', Number ''socket_write_p50_ms'', Number ''socket_write_p95_ms'',
    Number ''socket_write_max_ms'', Number ''keyboard_callbacks'', Number ''input_events'',
    Number ''input_keyboard_events'', Number ''input_mouse_events'', Number ''input_total_us'',
    Number ''input_last_us'', Number ''input_max_us'', Number ''input_over_10ms'',
    Number ''input_latency_p50_us'', Number ''input_latency_p95_us'', Number ''input_latency_max_us'',
    Number ''input_keyboard_video_count'', Number ''input_keyboard_video_latency_last_ms'',
    Number ''input_keyboard_video_latency_max_ms'', Number ''input_keyboard_video_latency_p50_ms'',
    Number ''input_keyboard_video_latency_p95_ms'', Number ''input_mouse_video_count'',
    Number ''input_mouse_video_latency_last_ms'', Number ''input_mouse_video_latency_max_ms'',
    Number ''input_mouse_video_latency_p50_ms'', Number ''input_mouse_video_latency_p95_ms'',
    Number ''input_keyboard_audio_count'', Number ''input_keyboard_audio_latency_last_ms'',
    Number ''input_keyboard_audio_latency_max_ms'', Number ''input_keyboard_audio_latency_p50_ms'',
    Number ''input_keyboard_audio_latency_p95_ms'', Number ''input_mouse_audio_count'',
    Number ''input_mouse_audio_latency_last_ms'', Number ''input_mouse_audio_latency_max_ms'',
    Number ''input_mouse_audio_latency_p50_ms'', Number ''input_mouse_audio_latency_p95_ms'',
    Number ''audio_queue_p50_ms'', Number ''audio_queue_p95_ms'', Number ''audio_queue_max_ms'',
    Number ''audio_write_p50_ms'', Number ''audio_write_p95_ms'', Number ''audio_write_max_ms'',
    Number ''audio_pts_ms'', Number ''video_pts_ms'', Number ''av_offset_ms'', Number ''av_samples'',
    Number ''av_offset_ewma_ms'', Number ''av_offset_ewma_samples'', Number ''av_drift_ppm'',
    Number ''av_drift_samples'', Number ''av_drift_zone'', Number ''av_hysteresis_samples'',
    Number ''av_offset_abs_max_ms'', Number ''av_offset_last_sample_ms'', Number ''cpu_percent'',
    Truth ''adaptive'', Truth ''aac'', Path ''video_path_h264'', Age]"

definition arg_text :: "gauges \<Rightarrow> nat \<Rightarrow> json_arg \<Rightarrow> ustr" where
  "arg_text g epoch_ms a =
     (case a of
        Number f \<Rightarrow> decimal_int (g f)
      | Truth f \<Rightarrow> (if g f \<noteq> 0 then lit ''true'' else lit ''false'')
      | Path f \<Rightarrow> 34 # (if g f \<noteq> 0 then lit ''egfx-h264'' else lit ''legacy-bitmap'') @ [34]
      | Age \<Rightarrow> decimal (queue_delay_age_ms epoch_ms (nat (g ''queue_delay_measured_at_ms''))))"

definition member_text :: "string \<times> ustr \<Rightarrow> ustr" where
  "member_text = (\<lambda>(l, t). 34 # lit l @ 34 # 58 # t)"

fun members_text :: "(string \<times> ustr) list \<Rightarrow> ustr" where
  "members_text [] = []"
| "members_text [m] = member_text m"
| "members_text (m # ms) = member_text m @ 44 # members_text ms"

definition to_json :: "gauges \<Rightarrow> nat \<Rightarrow> ustr" where
  "to_json g epoch_ms =
     123 # members_text (zip json_labels (map (arg_text g epoch_ms) json_args)) @ [32, 125]"

text \<open>What a connection is sent, if it can be written.\<close>

definition stats_answer :: "gauges \<Rightarrow> nat \<Rightarrow> ustr" where
  "stats_answer g epoch_ms = to_json g epoch_ms @ [10]"

section \<open>The gauges\<close>

datatype boundary = Keyboard_Video | Mouse_Video | Keyboard_Audio | Mouse_Audio

fun boundary_name :: "boundary \<Rightarrow> string" where
  "boundary_name Keyboard_Video = ''input_keyboard_video''"
| "boundary_name Mouse_Video = ''input_mouse_video''"
| "boundary_name Keyboard_Audio = ''input_keyboard_audio''"
| "boundary_name Mouse_Audio = ''input_mouse_audio''"

definition boundaries :: "boundary list" where
  "boundaries = [Keyboard_Video, Mouse_Video, Keyboard_Audio, Mouse_Audio]"

text \<open>What the server measures of one boundary, and all it measures.\<close>

record boundary_diag =
  bd_count :: nat
  bd_window :: latency_window
  bd_last :: nat
  bd_max :: nat

record diagnostics =
  dg_capture_age :: latency_window
  dg_encode_latency :: latency_window
  dg_ship_latency :: latency_window
  dg_socket_write :: latency_window
  dg_audio_queue :: latency_window
  dg_audio_write :: latency_window
  dg_boundary :: "boundary \<Rightarrow> boundary_diag"

record telemetry =
  tm_gauges :: gauges
  tm_input_latency :: latency_window
  tm_windows :: "boundary \<Rightarrow> latency_window"

definition store :: "string \<Rightarrow> nat \<Rightarrow> telemetry \<Rightarrow> telemetry" where
  "store f v t = t\<lparr>tm_gauges := (tm_gauges t)(f := int v)\<rparr>"

definition publish_window :: "latency_window \<Rightarrow> string \<Rightarrow> string \<Rightarrow> string \<Rightarrow> telemetry \<Rightarrow> telemetry" where
  "publish_window w p50 p95 mx t =
     (case percentiles w of (a, b, c) \<Rightarrow> store mx c (store p95 b (store p50 a t)))"

definition record_window :: "boundary \<Rightarrow> nat \<Rightarrow> telemetry \<Rightarrow> telemetry" where
  "record_window b v t = t\<lparr>tm_windows := (tm_windows t)(b := latency_record v (tm_windows t b))\<rparr>"

definition copy_boundary :: "boundary_diag \<Rightarrow> nat \<Rightarrow> boundary \<Rightarrow> telemetry \<Rightarrow> telemetry" where
  "copy_boundary d v b t =
     store (boundary_name b @ ''_latency_max_ms'') (bd_max d)
       (store (boundary_name b @ ''_latency_last_ms'') (bd_last d)
         (record_window b v (store (boundary_name b @ ''_count'') (bd_count d) t)))"

definition output_boundary_sample :: "diagnostics \<Rightarrow> boundary \<Rightarrow> telemetry \<Rightarrow> telemetry" where
  "output_boundary_sample dg b t =
     (let d = dg_boundary dg b
      in case percentiles (bd_window d) of
           (p50, p95, _) \<Rightarrow>
             store (boundary_name b @ ''_latency_p95_ms'') p95
               (store (boundary_name b @ ''_latency_p50_ms'') p50 (copy_boundary d p50 b t)))"

definition publish_output_boundary_samples :: "diagnostics \<Rightarrow> telemetry \<Rightarrow> telemetry" where
  "publish_output_boundary_samples dg t = fold (output_boundary_sample dg) boundaries t"

definition record_boundary_p95 :: "diagnostics \<Rightarrow> boundary \<Rightarrow> telemetry \<Rightarrow> telemetry" where
  "record_boundary_p95 dg b t =
     (let d = dg_boundary dg b in copy_boundary d (fst (snd (percentiles (bd_window d)))) b t)"

definition publish_boundary :: "boundary \<Rightarrow> telemetry \<Rightarrow> telemetry" where
  "publish_boundary b t =
     publish_window (tm_windows t b) (boundary_name b @ ''_latency_p50_ms'')
       (boundary_name b @ ''_latency_p95_ms'') (boundary_name b @ ''_latency_max_ms'') t"

definition publish_stages :: "diagnostics \<Rightarrow> telemetry \<Rightarrow> telemetry" where
  "publish_stages dg t =
     (let t1 = publish_window (dg_capture_age dg) ''capture_age_p50_ms'' ''capture_age_p95_ms'' ''capture_age_max_ms'' t;
          t2 = publish_window (dg_encode_latency dg) ''encode_latency_p50_ms'' ''encode_latency_p95_ms'' ''encode_latency_max_ms'' t1;
          t3 = publish_window (dg_ship_latency dg) ''ship_latency_p50_ms'' ''ship_latency_p95_ms'' ''ship_latency_max_ms'' t2;
          t4 = publish_window (dg_socket_write dg) ''socket_write_p50_ms'' ''socket_write_p95_ms'' ''socket_write_max_ms'' t3
      in publish_window (tm_input_latency t4) ''input_latency_p50_us'' ''input_latency_p95_us'' ''input_latency_max_us'' t4)"

definition publish_latency_windows :: "diagnostics \<Rightarrow> telemetry \<Rightarrow> telemetry" where
  "publish_latency_windows dg t =
     (let t1 = publish_stages dg t;
          t2 = fold (record_boundary_p95 dg) boundaries t1;
          t3 = fold publish_boundary boundaries t2;
          t4 = publish_window (dg_audio_queue dg) ''audio_queue_p50_ms'' ''audio_queue_p95_ms'' ''audio_queue_max_ms'' t3
      in publish_window (dg_audio_write dg) ''audio_write_p50_ms'' ''audio_write_p95_ms'' ''audio_write_max_ms'' t4)"

text \<open>One turn of the sampler: the two snapshots are of the turn before and of this one.\<close>

definition sampler_turn :: "diagnostics option \<Rightarrow> cpu_snapshot \<Rightarrow> cpu_snapshot \<Rightarrow> telemetry \<Rightarrow> telemetry" where
  "sampler_turn diag previous current t =
     (let t1 = (case diag of None \<Rightarrow> t
                | Some dg \<Rightarrow> publish_latency_windows dg (publish_output_boundary_samples dg t))
      in store ''cpu_percent'' (cpu_percent_step previous current (nat (tm_gauges t1 ''cpu_percent''))) t1)"

section \<open>Reading the line\<close>

text \<open>A reader of JSON objects whose members are numbers, truth values and plain strings.\<close>

datatype json_value = JNum int | JTruth bool | JStr ustr

definition token_value :: "ustr \<Rightarrow> json_value option" where
  "token_value tok =
     (if tok = lit ''true'' then Some (JTruth True) else if tok = lit ''false'' then Some (JTruth False)
      else if tok \<noteq> [] \<and> hd tok = 45 then map_option (\<lambda>n. JNum (- int n)) (parse_digits (tl tok))
      else map_option (\<lambda>n. JNum (int n)) (parse_digits tok))"

definition ends_token :: "nat \<Rightarrow> bool" where "ends_token c \<longleftrightarrow> c = 44 \<or> c = 32 \<or> c = 125"

definition read_value :: "ustr \<Rightarrow> (json_value \<times> ustr) option" where
  "read_value s =
     (if s \<noteq> [] \<and> hd s = 34
      then Some (JStr (takeWhile (\<lambda>c. c \<noteq> 34) (tl s)), tl (dropWhile (\<lambda>c. c \<noteq> 34) (tl s)))
      else map_option (\<lambda>v. (v, dropWhile (\<lambda>c. \<not> ends_token c) s))
             (token_value (takeWhile (\<lambda>c. \<not> ends_token c) s)))"

definition read_member :: "ustr \<Rightarrow> ((ustr \<times> json_value) \<times> ustr) option" where
  "read_member s =
     (case s of
        c # t \<Rightarrow>
          let rest = drop 2 (dropWhile (\<lambda>c. c \<noteq> 34) t)
          in if c = 34 \<and> take 2 (dropWhile (\<lambda>c. c \<noteq> 34) t) = [34, 58]
             then map_option (\<lambda>(v, r). ((takeWhile (\<lambda>c. c \<noteq> 34) t, v), r)) (read_value rest) else None
      | [] \<Rightarrow> None)"

primrec read_members :: "nat \<Rightarrow> ustr \<Rightarrow> (ustr \<times> json_value) list option" where
  "read_members 0 s = None"
| "read_members (Suc n) s =
     (case read_member s of
        None \<Rightarrow> None
      | Some (m, r) \<Rightarrow>
          if r = [32, 125] \<or> r = [125] then Some [m]
          else if r \<noteq> [] \<and> hd r = 44 then map_option (Cons m) (read_members n (tl r)) else None)"

definition read_object :: "ustr \<Rightarrow> (ustr \<times> json_value) list option" where
  "read_object s = (if s \<noteq> [] \<and> hd s = 123 then read_members (length s) (tl s) else None)"

definition arg_value :: "gauges \<Rightarrow> nat \<Rightarrow> json_arg \<Rightarrow> json_value" where
  "arg_value g epoch_ms a =
     (case a of
        Number f \<Rightarrow> JNum (g f)
      | Truth f \<Rightarrow> JTruth (g f \<noteq> 0)
      | Path f \<Rightarrow> JStr (if g f \<noteq> 0 then lit ''egfx-h264'' else lit ''legacy-bitmap'')
      | Age \<Rightarrow> JNum (int (queue_delay_age_ms epoch_ms (nat (g ''queue_delay_measured_at_ms'')))))"

text \<open>
  The line a reader of the telemetry gets names every gauge and reads back to its value, a turn of the
  sampler publishes ordered percentiles of the right windows, and two of the published numbers are not
  what their names say.
\<close>

section \<open>The line reads back\<close>

lemma token_of_int: "token_value (decimal_int n) = Some (JNum n)"
proof -
  have "hd (decimal k) \<noteq> 45" for k using hd_decimal [of k] by (auto simp: is_ascii_digit_def)
  moreover have "decimal_int n \<noteq> lit ''true''" "decimal_int n \<noteq> lit ''false''"
    using set_decimal_int [of _ n] by (force simp: lit_def)+
  ultimately show ?thesis using decimal_digits
    by (auto simp: token_value_def decimal_int_def parse_digits_decimal)
qed

lemma read_token:
  assumes "\<forall>c \<in> set tok. \<not> ends_token c \<and> c \<noteq> 34" "token_value tok = Some v" "ends_token e"
  shows "read_value (tok @ e # r) = Some (v, e # r)"
proof -
  have "\<not> (tok @ e # r \<noteq> [] \<and> hd (tok @ e # r) = 34)"
    using assms by (cases tok) (auto simp: ends_token_def)
  then show ?thesis using assms by (simp add: read_value_def takeWhile_append2 dropWhile_append2)
qed

lemma read_arg:
  assumes "ends_token e"
  shows "read_value (arg_text g epoch_ms a @ e # r) = Some (arg_value g epoch_ms a, e # r)"
proof (cases a)
  case (Number f)
  have "\<forall>c \<in> set (decimal_int (g f)). \<not> ends_token c \<and> c \<noteq> 34"
    using set_decimal_int [of _ "g f"] by (fastforce simp: ends_token_def)
  then show ?thesis unfolding Number arg_text_def arg_value_def json_arg.case
    by (rule read_token [OF _ token_of_int assms])
next
  case (Truth f)
  have "read_value (lit ''true'' @ e # r) = Some (JTruth True, e # r)"
    by (rule read_token [OF _ _ assms]) (simp_all add: lit_def ends_token_def token_value_def)
  moreover have "read_value (lit ''false'' @ e # r) = Some (JTruth False, e # r)"
    by (rule read_token [OF _ _ assms]) (simp_all add: lit_def ends_token_def token_value_def)
  ultimately show ?thesis by (simp add: Truth arg_text_def arg_value_def)
next
  case (Path f)
  then show ?thesis by (simp add: arg_text_def arg_value_def read_value_def lit_def)
next
  case Age
  let ?n = "queue_delay_age_ms epoch_ms (nat (g ''queue_delay_measured_at_ms''))"
  have d: "decimal ?n = decimal_int (int ?n)" by (simp add: decimal_int_def)
  have "\<forall>c \<in> set (decimal_int (int ?n)). \<not> ends_token c \<and> c \<noteq> 34"
    using set_decimal_int [of _ "int ?n"] by (fastforce simp: ends_token_def)
  then show ?thesis unfolding Age arg_text_def arg_value_def json_arg.case d
    by (rule read_token [OF _ token_of_int assms])
qed


lemma read_member_text:
  assumes "34 \<notin> set (lit l)" "ends_token e"
  shows "read_member (member_text (l, arg_text g epoch_ms a) @ e # r) = Some ((lit l, arg_value g epoch_ms a), e # r)"
proof -
  have "\<forall>c \<in> set (lit l). c \<noteq> 34" using assms(1) by auto
  then show ?thesis
    by (simp add: read_member_def member_text_def takeWhile_append2 dropWhile_append2 read_arg [OF assms(2)])
qed

lemma read_members_text:
  assumes "ms \<noteq> []" "list_all (\<lambda>m. 34 \<notin> set (lit (fst m))) ms" "length ms \<le> n"
  shows "read_members n (members_text (map (\<lambda>(l, a). (l, arg_text g epoch_ms a)) ms) @ [32, 125]) =
    Some (map (\<lambda>(l, a). (lit l, arg_value g epoch_ms a)) ms)"
  using assms
proof (induction ms arbitrary: n)
  case Nil
  then show ?case by simp
next
  case (Cons m ms)
  obtain l a where m: "m = (l, a)" by (rule prod.exhaust)
  obtain k where n: "n = Suc k" using Cons.prems(3) by (cases n) auto
  have l: "34 \<notin> set (lit l)" using Cons.prems(2) m by simp
  show ?case
  proof (cases ms)
    case Nil
    then show ?thesis using read_member_text [OF l, of 32 g epoch_ms a "[125]"] by (simp add: m n ends_token_def)
  next
    case (Cons m' ms')
    let ?rest = "members_text (map (\<lambda>(l, a). (l, arg_text g epoch_ms a)) ms) @ [32, 125]"
    have "members_text (map (\<lambda>(l, a). (l, arg_text g epoch_ms a)) (m # ms)) @ [32, 125] =
        member_text (l, arg_text g epoch_ms a) @ 44 # ?rest"
      using Cons by (simp add: m case_prod_beta)
    moreover have "read_members k ?rest = Some (map (\<lambda>(l, a). (lit l, arg_value g epoch_ms a)) ms)"
      using Cons.IH [of k] Cons.prems Cons n by simp
    moreover have "44 # ?rest \<noteq> [32, 125] \<and> 44 # ?rest \<noteq> [125]" by simp
    ultimately show ?thesis using read_member_text [OF l, of 44 g epoch_ms a ?rest]
      by (simp add: m n ends_token_def)
  qed
qed

lemma length_json: "length json_labels = 119" "length json_args = 119"
  by (simp_all add: json_labels_def json_args_def)

lemma labels_plain: "list_all (\<lambda>l. 34 \<notin> set (lit l)) json_labels"
  by (simp add: json_labels_def lit_def)

lemma labels_distinct: "distinct json_labels"
  by (simp add: json_labels_def)

lemma labels_name_fields:
  "list_all (\<lambda>(l, a). case a of Number f \<Rightarrow> l = f | Truth f \<Rightarrow> l = f | Path f \<Rightarrow> l @ ''_h264'' = f
     | Age \<Rightarrow> l = ''queue_delay_age_ms'') (zip json_labels json_args)"
  by (simp add: json_labels_def json_args_def)

lemma length_members_text: "length ms \<le> length (members_text ms)"
  by (induction ms rule: members_text.induct) (auto simp: member_text_def)

text \<open>The line a reader of the telemetry endpoint gets (\<open>to_json\<close>, \<open>src/src/stats.rs\<close>) is one JSON
  object: reading it back gives, in order, the 119 labels of the format string, each once, with the
  values of the gauges; and each label is the name of the gauge whose value stands behind it, so that
  no two of the arguments have changed places.\<close>

theorem telemetry_line_reads_back:
  "read_object (to_json g epoch_ms) =
     Some (map (\<lambda>(l, a). (lit l, arg_value g epoch_ms a)) (zip json_labels json_args))
   \<and> length json_labels = length json_args \<and> distinct json_labels
   \<and> list_all (\<lambda>(l, a). case a of Number f \<Rightarrow> l = f | Truth f \<Rightarrow> l = f | Path f \<Rightarrow> l @ ''_h264'' = f
       | Age \<Rightarrow> l = ''queue_delay_age_ms'') (zip json_labels json_args)"
proof -
  let ?ms = "zip json_labels json_args"
  let ?texts = "map (\<lambda>(l, a). (l, arg_text g epoch_ms a)) ?ms"
  have z: "zip json_labels (map (arg_text g epoch_ms) json_args) = ?texts"
    by (simp add: zip_map2 case_prod_beta)
  have len: "length ?ms = 119" by (simp add: length_json)
  have "list_all (\<lambda>m. 34 \<notin> set (lit (fst m))) ?ms"
    using labels_plain by (auto simp: list_all_iff dest: set_zip_leftD)
  moreover have "length ?ms \<le> Suc (length (members_text ?texts @ [32, 125]))"
    using length_members_text [of ?texts] by simp
  moreover have "?ms \<noteq> []" using len by auto
  ultimately have "read_members (Suc (length (members_text ?texts @ [32, 125])))
      (members_text ?texts @ [32, 125]) = Some (map (\<lambda>(l, a). (lit l, arg_value g epoch_ms a)) ?ms)"
    by (intro read_members_text)
  then show ?thesis unfolding read_object_def to_json_def z
    using labels_distinct labels_name_fields length_json by simp
qed

section \<open>What a turn of the sampler publishes\<close>

definition shows_window :: "latency_window \<Rightarrow> string \<Rightarrow> string \<Rightarrow> string \<Rightarrow> telemetry \<Rightarrow> bool" where
  "shows_window w p50 p95 mx t \<longleftrightarrow>
     (tm_gauges t p50, tm_gauges t p95, tm_gauges t mx) =
     (case percentiles w of (a, b, c) \<Rightarrow> (int a, int b, int c))"

lemma percentiles_ordered: "percentiles w = (a, b, c) \<Longrightarrow> a \<le> b \<and> b \<le> c"
proof -
  assume p: "percentiles w = (a, b, c)"
  define n where "n = min (lw_cursor w) (length (lw_values w))"
  define vs where "vs = sort (take n (lw_values w))"
  have len: "length vs = n" by (simp add: vs_def n_def)
  show ?thesis
  proof (cases "n = 0")
    case True
    then show ?thesis using p by (simp add: percentiles_def n_def [symmetric])
  next
    case False
    have abc: "a = vs ! percentile_rank n 50" "b = vs ! percentile_rank n 95" "c = vs ! (n - 1)"
      using p False len by (auto simp: percentiles_def n_def [symmetric] vs_def [symmetric] Let_def last_conv_nth)
    have "percentile_rank n 50 \<le> percentile_rank n 95" "percentile_rank n 95 \<le> n - 1" "n - 1 < n"
      using False by (auto simp: percentile_rank_def intro!: diff_le_mono div_le_mono)
    moreover have "sorted vs" by (simp add: vs_def)
    ultimately show ?thesis unfolding abc using len by (simp add: sorted_iff_nth_mono)
  qed
qed

lemma store_gauges: "tm_gauges (store f v t) = (tm_gauges t)(f := int v)"
  "tm_windows (store f v t) = tm_windows t" "tm_input_latency (store f v t) = tm_input_latency t"
  by (simp_all add: store_def)

lemma publish_window_gauges:
  "tm_gauges (publish_window w p50 p95 mx t) =
     (tm_gauges t)(p50 := int (fst (percentiles w)), p95 := int (fst (snd (percentiles w))),
        mx := int (snd (snd (percentiles w))))"
  "tm_windows (publish_window w p50 p95 mx t) = tm_windows t"
  "tm_input_latency (publish_window w p50 p95 mx t) = tm_input_latency t"
  by (simp_all add: publish_window_def store_gauges case_prod_beta)

lemma record_window_gauges:
  "tm_gauges (record_window b v t) = tm_gauges t" "tm_input_latency (record_window b v t) = tm_input_latency t"
  "tm_windows (record_window b v t) = (tm_windows t)(b := latency_record v (tm_windows t b))"
  by (simp_all add: record_window_def)

lemmas publish_simps = store_gauges publish_window_gauges record_window_gauges

text \<open>The windows of a boundary after a turn, and that no other boundary changes them.\<close>

lemma turn_windows:
  "tm_windows (publish_latency_windows dg (publish_output_boundary_samples dg t)) b =
     (case percentiles (bd_window (dg_boundary dg b)) of
        (p50, p95, _) \<Rightarrow> latency_record p95 (latency_record p50 (tm_windows t b)))"
  by (cases b)
     (simp_all add: publish_latency_windows_def publish_output_boundary_samples_def publish_stages_def boundaries_def
        output_boundary_sample_def record_boundary_p95_def publish_boundary_def copy_boundary_def publish_simps Let_def
        split: prod.splits)

definition boundary_fields :: "boundary \<Rightarrow> string list" where
  "boundary_fields b = map ((@) (boundary_name b))
     [''_count'', ''_latency_last_ms'', ''_latency_p50_ms'', ''_latency_p95_ms'', ''_latency_max_ms'']"

lemma copy_boundary_gauges:
  "tm_gauges (copy_boundary d v b t) =
     (tm_gauges t)(boundary_name b @ ''_count'' := int (bd_count d), boundary_name b @ ''_latency_last_ms'' := int (bd_last d),
        boundary_name b @ ''_latency_max_ms'' := int (bd_max d))"
  "tm_windows (copy_boundary d v b t) = (tm_windows t)(b := latency_record v (tm_windows t b))"
  "tm_input_latency (copy_boundary d v b t) = tm_input_latency t"
  by (simp_all add: copy_boundary_def publish_simps)

lemma boundary_other:
  assumes "f \<notin> set (boundary_fields b)"
  shows "tm_gauges (output_boundary_sample dg b t) f = tm_gauges t f"
    "tm_gauges (record_boundary_p95 dg b t) f = tm_gauges t f" "tm_gauges (publish_boundary b t) f = tm_gauges t f"
  using assms
  by (simp_all add: boundary_fields_def output_boundary_sample_def record_boundary_p95_def publish_boundary_def
      copy_boundary_gauges publish_simps Let_def case_prod_beta)

lemma boundaries_other:
  assumes "\<forall>b. f \<notin> set (boundary_fields b)"
  shows "tm_gauges (fold (output_boundary_sample dg) boundaries t) f = tm_gauges t f"
    "tm_gauges (fold (record_boundary_p95 dg) boundaries t) f = tm_gauges t f"
    "tm_gauges (fold publish_boundary boundaries t) f = tm_gauges t f"
  using assms by (simp_all add: boundaries_def boundary_other)

lemma boundaries_published:
  "shows_window (tm_windows t b) (boundary_name b @ ''_latency_p50_ms'') (boundary_name b @ ''_latency_p95_ms'')
     (boundary_name b @ ''_latency_max_ms'') (fold publish_boundary boundaries t)"
  "tm_gauges (fold publish_boundary boundaries t) (boundary_name b @ ''_count'') = tm_gauges t (boundary_name b @ ''_count'')"
  "tm_gauges (fold publish_boundary boundaries t) (boundary_name b @ ''_latency_last_ms'') =
     tm_gauges t (boundary_name b @ ''_latency_last_ms'')"
  by (cases b; simp add: boundaries_def shows_window_def publish_boundary_def publish_simps case_prod_beta)+

lemma boundaries_copied:
  "tm_gauges (fold (record_boundary_p95 dg) boundaries t) (boundary_name b @ ''_count'') = int (bd_count (dg_boundary dg b))"
  "tm_gauges (fold (record_boundary_p95 dg) boundaries t) (boundary_name b @ ''_latency_last_ms'') =
     int (bd_last (dg_boundary dg b))"
  by (cases b; simp add: boundaries_def record_boundary_p95_def copy_boundary_gauges Let_def)+

lemma boundaries_windows:
  "tm_windows (fold publish_boundary boundaries t) = tm_windows t"
  "tm_input_latency (fold (output_boundary_sample dg) boundaries t) = tm_input_latency t"
  "tm_input_latency (fold (record_boundary_p95 dg) boundaries t) = tm_input_latency t"
  by (simp_all add: boundaries_def publish_boundary_def publish_simps output_boundary_sample_def
      record_boundary_p95_def copy_boundary_gauges Let_def case_prod_beta)

lemma shows_kept:
  assumes "shows_window w a b c t" "list_all (\<lambda>f. tm_gauges t' f = tm_gauges t f) [a, b, c]"
  shows "shows_window w a b c t'"
  using assms by (simp add: shows_window_def)

lemma all_boundary:
  "(\<forall>b. P b) \<longleftrightarrow> P Keyboard_Video \<and> P Mouse_Video \<and> P Keyboard_Audio \<and> P Mouse_Audio"
  by (metis boundary.exhaust)

lemma stage_fields_apart:
  "list_all (\<lambda>f. \<forall>b. f \<notin> set (boundary_fields b))
     [''capture_age_p50_ms'', ''capture_age_p95_ms'', ''capture_age_max_ms'', ''encode_latency_p50_ms'',
      ''encode_latency_p95_ms'', ''encode_latency_max_ms'', ''ship_latency_p50_ms'', ''ship_latency_p95_ms'',
      ''ship_latency_max_ms'', ''socket_write_p50_ms'', ''socket_write_p95_ms'', ''socket_write_max_ms'',
      ''input_latency_p50_us'', ''input_latency_p95_us'', ''input_latency_max_us'']"
  by (simp add: all_boundary boundary_fields_def)

lemma stages_published:
  "shows_window (dg_capture_age dg) ''capture_age_p50_ms'' ''capture_age_p95_ms'' ''capture_age_max_ms'' (publish_stages dg t)"
  "shows_window (dg_encode_latency dg) ''encode_latency_p50_ms'' ''encode_latency_p95_ms'' ''encode_latency_max_ms'' (publish_stages dg t)"
  "shows_window (dg_ship_latency dg) ''ship_latency_p50_ms'' ''ship_latency_p95_ms'' ''ship_latency_max_ms'' (publish_stages dg t)"
  "shows_window (dg_socket_write dg) ''socket_write_p50_ms'' ''socket_write_p95_ms'' ''socket_write_max_ms'' (publish_stages dg t)"
  "shows_window (tm_input_latency t) ''input_latency_p50_us'' ''input_latency_p95_us'' ''input_latency_max_us'' (publish_stages dg t)"
  by (simp_all add: publish_stages_def shows_window_def publish_simps Let_def case_prod_beta)

definition turn :: "diagnostics \<Rightarrow> telemetry \<Rightarrow> telemetry" where
  "turn dg t = publish_latency_windows dg (publish_output_boundary_samples dg t)"

definition audio_fields :: "string list" where
  "audio_fields = [''audio_queue_p50_ms'', ''audio_queue_p95_ms'', ''audio_queue_max_ms'',
     ''audio_write_p50_ms'', ''audio_write_p95_ms'', ''audio_write_max_ms'']"

lemma turn_stages:
  "shows_window (dg_capture_age dg) ''capture_age_p50_ms'' ''capture_age_p95_ms'' ''capture_age_max_ms'' (turn dg t)"
  "shows_window (dg_encode_latency dg) ''encode_latency_p50_ms'' ''encode_latency_p95_ms'' ''encode_latency_max_ms'' (turn dg t)"
  "shows_window (dg_ship_latency dg) ''ship_latency_p50_ms'' ''ship_latency_p95_ms'' ''ship_latency_max_ms'' (turn dg t)"
  "shows_window (dg_socket_write dg) ''socket_write_p50_ms'' ''socket_write_p95_ms'' ''socket_write_max_ms'' (turn dg t)"
  "shows_window (tm_input_latency t) ''input_latency_p50_us'' ''input_latency_p95_us'' ''input_latency_max_us'' (turn dg t)"
proof -
  let ?s = "publish_output_boundary_samples dg t"
  have input: "tm_input_latency ?s = tm_input_latency t"
    by (simp add: publish_output_boundary_samples_def boundaries_windows)
  have kept: "tm_gauges (turn dg t) f = tm_gauges (publish_stages dg ?s) f"
    if "\<forall>b. f \<notin> set (boundary_fields b)" "f \<notin> set audio_fields" for f
  proof -
    have "tm_gauges (turn dg t) f = tm_gauges (fold publish_boundary boundaries
        (fold (record_boundary_p95 dg) boundaries (publish_stages dg ?s))) f"
      using that(2) by (simp add: turn_def publish_latency_windows_def publish_window_gauges audio_fields_def Let_def)
    then show ?thesis by (simp only: boundaries_other that(1) simp_thms)
  qed
  show "shows_window (dg_capture_age dg) ''capture_age_p50_ms'' ''capture_age_p95_ms'' ''capture_age_max_ms'' (turn dg t)"
    by (rule shows_kept [OF stages_published(1) [where dg = dg and t = ?s]]) (use stage_fields_apart in \<open>simp add: kept audio_fields_def\<close>)
  show "shows_window (dg_encode_latency dg) ''encode_latency_p50_ms'' ''encode_latency_p95_ms'' ''encode_latency_max_ms'' (turn dg t)"
    by (rule shows_kept [OF stages_published(2) [where dg = dg and t = ?s]]) (use stage_fields_apart in \<open>simp add: kept audio_fields_def\<close>)
  show "shows_window (dg_ship_latency dg) ''ship_latency_p50_ms'' ''ship_latency_p95_ms'' ''ship_latency_max_ms'' (turn dg t)"
    by (rule shows_kept [OF stages_published(3) [where dg = dg and t = ?s]]) (use stage_fields_apart in \<open>simp add: kept audio_fields_def\<close>)
  show "shows_window (dg_socket_write dg) ''socket_write_p50_ms'' ''socket_write_p95_ms'' ''socket_write_max_ms'' (turn dg t)"
    by (rule shows_kept [OF stages_published(4) [where dg = dg and t = ?s]]) (use stage_fields_apart in \<open>simp add: kept audio_fields_def\<close>)
  show "shows_window (tm_input_latency t) ''input_latency_p50_us'' ''input_latency_p95_us'' ''input_latency_max_us'' (turn dg t)"
    by (rule shows_kept [OF stages_published(5) [where dg = dg and t = ?s, unfolded input]]) (use stage_fields_apart in \<open>simp add: kept audio_fields_def\<close>)
qed

lemma turn_audio:
  "shows_window (dg_audio_queue dg) ''audio_queue_p50_ms'' ''audio_queue_p95_ms'' ''audio_queue_max_ms'' (turn dg t)"
  "shows_window (dg_audio_write dg) ''audio_write_p50_ms'' ''audio_write_p95_ms'' ''audio_write_max_ms'' (turn dg t)"
  by (simp_all add: turn_def publish_latency_windows_def shows_window_def publish_simps Let_def case_prod_beta)

lemma turn_boundary:
  "shows_window (tm_windows (turn dg t) b) (boundary_name b @ ''_latency_p50_ms'')
     (boundary_name b @ ''_latency_p95_ms'') (boundary_name b @ ''_latency_max_ms'') (turn dg t)"
  "tm_gauges (turn dg t) (boundary_name b @ ''_count'') = int (bd_count (dg_boundary dg b))"
  "tm_gauges (turn dg t) (boundary_name b @ ''_latency_last_ms'') = int (bd_last (dg_boundary dg b))"
proof -
  let ?r = "fold (record_boundary_p95 dg) boundaries (publish_stages dg (publish_output_boundary_samples dg t))"
  have kept: "tm_gauges (turn dg t) (boundary_name b @ x) = tm_gauges (fold publish_boundary boundaries ?r) (boundary_name b @ x)" for x
    by (cases b) (simp_all add: turn_def publish_latency_windows_def publish_simps Let_def)
  have w: "tm_windows (turn dg t) = tm_windows ?r"
    by (simp add: turn_def publish_latency_windows_def publish_simps boundaries_windows Let_def)
  show "shows_window (tm_windows (turn dg t) b) (boundary_name b @ ''_latency_p50_ms'')
     (boundary_name b @ ''_latency_p95_ms'') (boundary_name b @ ''_latency_max_ms'') (turn dg t)"
    unfolding w by (rule shows_kept [OF boundaries_published(1)]) (simp add: kept)
  show "tm_gauges (turn dg t) (boundary_name b @ ''_count'') = int (bd_count (dg_boundary dg b))"
    "tm_gauges (turn dg t) (boundary_name b @ ''_latency_last_ms'') = int (bd_last (dg_boundary dg b))"
    by (simp_all only: kept boundaries_published boundaries_copied)
qed

text \<open>But the window of a boundary is not one of latencies: a turn puts the median of the server's window
  into it, and then its 95th percentile. So one slow frame out of 128 is not in the published maximum, and
  the published median lags behind one that every frame of the server's window exceeds.\<close>

definition measured :: "nat list \<Rightarrow> nat \<Rightarrow> boundary_diag" where
  "measured vs mx = \<lparr>bd_count = length vs, bd_window = \<lparr>lw_cursor = length vs, lw_values = vs\<rparr>, bd_last = mx, bd_max = mx\<rparr>"

lemma steady_percentiles:
  "percentiles \<lparr>lw_cursor = 128, lw_values = replicate 128 v\<rparr> = (v, v, v)"
  "percentiles \<lparr>lw_cursor = 128, lw_values = replicate 127 10 @ [500]\<rparr> = (10, 10, 500)"
proof -
  have "sort (replicate n v) = replicate n v" for n by (simp add: sorted_sort_id)
  moreover have "sort (replicate 127 10 @ [500 :: nat]) = replicate 127 10 @ [500]"
    by (rule sorted_sort_id) (simp add: sorted_append)
  ultimately show "percentiles \<lparr>lw_cursor = 128, lw_values = replicate 128 v\<rparr> = (v, v, v)"
    "percentiles \<lparr>lw_cursor = 128, lw_values = replicate 127 10 @ [500]\<rparr> = (10, 10, 500)"
    by (simp_all add: percentiles_def Let_def percentile_rank_def nth_append last_replicate)
qed

lemma latency_default_unfold: "latency_default = \<lparr>lw_cursor = 0, lw_values = 0 # 0 # 0 # 0 # 0 # 0 # replicate 122 0\<rparr>"
  by (simp add: latency_default_def WINDOW_def flip: replicate_Suc)

lemmas record_defs = latency_default_unfold latency_record_def u64_add_def percentiles_def percentile_rank_def Let_def

lemma published_maximum_misses_outlier:
  assumes "dg_boundary dg b = measured (replicate 127 10 @ [500]) 500" "tm_windows t b = latency_default"
  shows "tm_gauges (turn dg t) (boundary_name b @ ''_latency_max_ms'') = 10"
proof -
  have "tm_windows (turn dg t) b = latency_record 10 (latency_record 10 latency_default)"
    using assms steady_percentiles(2) by (simp add: turn_def turn_windows measured_def)
  moreover have "percentiles (latency_record 10 (latency_record 10 latency_default)) = (10, 10, 10)"
    by (simp add: record_defs)
  ultimately show ?thesis using turn_boundary(1) [of dg t b] by (simp add: shows_window_def)
qed

lemma published_median_lags:
  assumes "dg_boundary dg b = measured (replicate 128 10) 10" "dg_boundary dg' b = measured (replicate 128 100) 100"
    and "tm_windows t b = latency_default"
  shows "tm_gauges (turn dg' (turn dg (turn dg t))) (boundary_name b @ ''_latency_p50_ms'') = 10"
proof -
  let ?r = "\<lambda>v w. latency_record v (latency_record v w)"
  have step: "tm_windows (turn dg t) b = ?r v (tm_windows t b)"
    if "dg_boundary dg b = measured (replicate 128 v) v" for dg t v
    using that steady_percentiles(1) [of v] by (simp add: turn_def turn_windows measured_def)
  have "tm_windows (turn dg' (turn dg (turn dg t))) b = ?r 100 (?r 10 (?r 10 latency_default))"
    using step [OF assms(2)] step [OF assms(1)] assms(3) by simp
  moreover have "fst (percentiles (?r 100 (?r 10 (?r 10 latency_default)))) = 10"
    by (simp add: record_defs)
  ultimately show ?thesis using turn_boundary(1) [of dg' "turn dg (turn dg t)" b]
    by (simp add: shows_window_def case_prod_beta)
qed

text \<open>A turn of the sampler, with the load of the processor.\<close>

lemma sampler_turn_gauges:
  "tm_gauges (sampler_turn (Some dg) previous current t) =
     (tm_gauges (turn dg t))(''cpu_percent'' :=
        int (cpu_percent_step previous current (nat (tm_gauges (turn dg t) ''cpu_percent''))))"
  by (simp add: sampler_turn_def turn_def store_gauges Let_def)

end
