(* ===== verification/Spec2Isabelle.thy ===== *)
theory Spec2Isabelle
  imports Guard_Props Egfx_Bounds_Props Stats_Props Capture_Resume Input_Key_Props
    Input_Pointer_Props Switcher_Props Clip_Image_Props Clip_Files_Props Clipboard_Props
    Drive_Props Drive_Mount_Props Card_Props Log_Props Watchdog Yuv_Props Audio_Props
    Server_Config_Props Server_Start_Props Overlay_Watcher Cursor_Props Headless_Props
    Usb_Props Camera_Props Vt_Props Pam_Auth Runloop_Thread Aac_Encoder
    Stats_Publish
begin

text \<open>
  A verification development for macrdp, an RDP server for macOS written in Rust (\<open>src/src\<close>, and the
  smart-card reader driver in \<open>src/ifd-handler\<close>).

  THE PROGRAM. \<open>main.rs\<close> reads the configuration, checks it, obtains credentials and a certificate and
  builds the server of the vendored library, which accepts connections and calls back into this
  program. Before a connection is served the guard of \<open>auth_guard.rs\<close> decides whether its address may
  try. While it is served, the capture loop of \<open>capture.rs\<close> turns the frames of the screen either into
  bitmap updates or into frames for the EGFX pipeline of \<open>h264.rs\<close>, which controls rate and depth of
  the encoder, watches acknowledgements, requests keyframes and recovers a tunnel or a client that
  went silent; \<open>audio.rs\<close> captures sound; \<open>input.rs\<close> posts what the client types and points;
  \<open>clipboard.rs\<close> and the two \<open>file_promise\<close> modules exchange texts, images and files; \<open>rdpdr\<close> mounts the
  drives of the client and bridges its smart-card reader to the driver; \<open>logging.rs\<close>, \<open>health.rs\<close> and
  \<open>stats.rs\<close> keep the log, the watchdog and the telemetry. The components share a few cells (the
  desktop size, the pending resize, the click hint, the generation of the audio source, the number of
  sessions), and threads and tasks that run beside each other; those are modelled as step relations or
  as operations in an arbitrary order.

  HOW THE CODE IS MODELLED. A struct is a record, an enum a datatype, and each function or handler
  one definition with the guards, the early returns and the order of the source. An error is a value of
  a sum or an option; where a panic is possible, \<open>None\<close> stands for it and the theorems say when it
  happens. Fixed-width integers are words or naturals with their wrap-around, saturation and
  truncation written out where the values can reach the bound. Everything outside the repository is
  a parameter: an argument function, a record of functions, or the answers recorded in an
  environment record. What the theorems need of it is a named hypothesis, and a witness instantiates
  the parameter.

  Shared theories:
  \<^item> \<open>Prelude\<close>: collections, generic lemmas, and the interfaces for runs. \<open>stepper\<close>, \<open>fallible_stepper\<close>,
    \<open>emitter\<close> and their extensions lift an invariant or a bound on the outputs from one operation to
    every run; the components interpret them on their own operations.
  \<^item> \<open>Rust_Std\<close>, \<open>Rust_Float\<close>: durations and instants in nanoseconds, saturating and checked
    arithmetic, strings as lists of code points with trimming and parsing, process environments;
    \<open>f64\<close> as real arithmetic.
  \<^item> \<open>Decimal\<close>: numbers in decimal notation.
  \<^item> \<open>Bytes\<close>: byte strings, integers in both byte orders, and the interface of a codec.
  \<^item> \<open>Cf_Objects\<close>: objects with references that are created, retained, released, handed over and
    returned, shared by the camera, the encoder and the password check.

  Components, with the sources they model:
  \<^item> \<open>Auth_Guard\<close>, \<open>Guard_Props\<close> (\<open>auth_guard.rs\<close>): rate limit, lockout, eviction, audit sanitiser and
    connection handler; no address gets more attempts than the window allows, a locked address is
    refused until its time while the table is not full, the tables are bounded in every interleaving of
    the accept loop of the vendored server with the sessions it runs, audit text is harmless.
  \<^item> \<open>Egfx_Policy\<close>, \<open>Egfx_Config\<close> (the decisions and the environment of \<open>h264.rs\<close>), \<open>Egfx_Context\<close>,
    \<open>Egfx_Control\<close>, \<open>Egfx_Pipeline\<close> (its state and operations), \<open>Egfx_Run\<close> (all of them interleaved),
    \<open>Egfx_Props\<close>, \<open>Egfx_Rate_Props\<close>, \<open>Egfx_Bounds_Props\<close>: the first frame offered to the encoder after a
    request is asked for as a keyframe, reconnects do not storm, a wedged tunnel is left, the frames in
    flight stay within the configured depth for each encoder that is alive, the rate in its
    bounds. \<open>Annex_B\<close>: the two framings of H.264, there and in \<open>camera/decode.rs\<close>.
  \<^item> \<open>Capture_Size\<close>, \<open>Capture_Size_Props\<close>, \<open>Capture_Loop\<close>, \<open>Capture_Paint\<close>, \<open>Capture_Props\<close>,
    \<open>Capture_Resume\<close> (\<open>capture.rs\<close>): the live resize whatever its threads do, the strips of an update,
    what the client sees painted, the frame after the client comes back.
  \<^item> \<open>Yuv_Split\<close>, \<open>Yuv_Props\<close> (\<open>avc444.rs\<close>): splitting a picture into two 4:2:0 pictures loses nothing.
  \<^item> \<open>Audio_Convert\<close>, \<open>Audio_Queue\<close>, \<open>Audio_Capture\<close>, \<open>Audio_Props\<close> (\<open>audio.rs\<close> and the jitter buffer of
    \<open>sound.rs\<close>): one live source, no frame lost or doubled before the resampler.
  \<^item> \<open>Keyboard_Layout\<close>, \<open>Input_Keys\<close>, \<open>Input_Key_Props\<close>, \<open>Input_Pointer\<close>, \<open>Input_Pointer_Props\<close>,
    \<open>Input_Switcher\<close>, \<open>Switcher_Props\<close> (\<open>input.rs\<close>, \<open>input/scancodes.rs\<close>, \<open>keyboard_layout.rs\<close>): each key
    press is posted or answered by one action and its release matched, flags are those of the keys held,
    the pointer stays on the display, scrolling is conserved, the switcher visits every application that runs once.
  \<^item> \<open>Clip_Image\<close>, \<open>Clip_Image_Props\<close>, \<open>Clip_Files\<close>, \<open>Clip_Download\<close>, \<open>Clip_Files_Props\<close>, \<open>Clipboard\<close>,
    \<open>Clipboard_Props\<close> (\<open>clipboard.rs\<close>, \<open>file_promise.rs\<close>, \<open>file_promise_lazy.rs\<close>): any bitmap is decoded as an
    independent description of its bytes says, a copied tree is planned entry for entry where it was, a
    paste stays inside its directory, a download is complete in any order of answers, no clipboard loop.
  \<^item> \<open>Drive_Fs\<close>, \<open>Drive_Props\<close>, \<open>Drive_Mount\<close>, \<open>Drive_Mount_Props\<close> (\<open>rdpdr/surface.rs\<close>, \<open>rdpdr/mod.rs\<close>,
    \<open>reaper.rs\<close>): the cache of the drive refines the drive, handles are stable, the sweep takes what
    dead processes left and nothing else.
  \<^item> \<open>Card_Bridge\<close>, \<open>Card_Driver\<close>, \<open>Card_Props\<close> (\<open>rdpdr/smartcard.rs\<close>, \<open>ifd-handler/src/lib.rs\<close>): both
    ends of the loopback protocol agree, and a session releases the card.
  \<^item> \<open>Server_Config\<close>, \<open>Server_Config_Props\<close>, \<open>Server_Tls\<close>, \<open>Server_Start\<close>, \<open>Server_Start_Props\<close>,
    \<open>Overlay_Watcher\<close> (\<open>main.rs\<close>): the configuration file and the variable each of its keys reaches, the
    certificate, what a start that succeeds has checked, and the watcher that makes the Mac headless while a client is connected.
  \<^item> \<open>Pam_Auth\<close> (\<open>auth.rs\<close>): the transaction with the account database and its conversation.
  \<^item> \<open>Runloop_Thread\<close> (\<open>runloop_thread.rs\<close>): jobs run once, in order, and are woken.
  \<^item> \<open>Vt_Convert\<close>, \<open>Vt_Encoder\<close>, \<open>Vt_Props\<close> (\<open>videotoolbox.rs\<close>): the colour
    conversion keeps colours, the encoder gives back every object and every timing cell, and the time
    stamps of its frames grow.
  \<^item> \<open>Aac_Encoder\<close> (\<open>aac.rs\<close>): a batch of sound reaches the converter once, and encoding it ends.
  \<^item> \<open>Cursor_Shape\<close>, \<open>Cursor_Props\<close> (\<open>cursor\<close>): every pointer shape that is sent fits its message.
  \<^item> \<open>Helper_Ipc\<close> (\<open>switcher_hud.rs\<close>, \<open>shield.rs\<close>): the messages to the two helper processes.
  \<^item> \<open>Headless\<close>, \<open>Headless_Props\<close> (\<open>virtual_display\<close>): the virtual display and the four ways of making the
    panels dark or unused; a session releases every panel it took except where the system or the helper
    reports a failure, and gives each its place back.
  \<^item> \<open>Usb_Device\<close>, \<open>Usb_Props\<close> (\<open>usb_redirect\<close>): each transfer is completed once, the controller is
    destroyed once.
  \<^item> \<open>Camera\<close>, \<open>Camera_Props\<close> (\<open>camera\<close>): every object of a camera channel is released once.
  \<^item> \<open>Log_Rotation\<close>, \<open>Log_Props\<close>, \<open>Watchdog\<close>, \<open>Stats\<close>, \<open>Stats_Props\<close>, \<open>Stats_Publish\<close> (\<open>logging.rs\<close>, \<open>health.rs\<close>,
    \<open>stats.rs\<close>): the log keeps the most recent bytes, the watchdog fires exactly on a stall, the drift
    zone needs agreement, and the line of JSON the telemetry endpoint sends reads back to the gauges.

  IDEALISATIONS. Relaxed atomics are sequentially consistent. A pass or an operation reads the clock and
  each outside value once. \<open>f64\<close> is real arithmetic without NaN, except the \<open>f32\<close> samples of the
  audio, which are exact bit patterns. Lengths, offsets and products of naturals do not overflow unless
  written out. The colour arithmetic in \<open>f32\<close> of the encoder and of the cursor is real arithmetic. The bit
  field of the key flags is a set of bits. Operations of the network file system run one after the other. Debug assertions are compiled out, as in a release build. Log lines,
  and counters that are only printed, are left out. The two lock phases of a submission to the encoder are
  one step, the shield is asserted again at once rather than from its timer, the time stamp of a chunk of
  sound is taken once, a panic of the colour conversion ends the run, and the time limits of the driver's
  socket and the late errors of the TLS set-up do not occur.

  TERMINATION AND FUEL. Loops over data are structural or have a measure (the bytes that are left, the
  ticks that are left). The plan of the chunks of a download and the drain of a read-ahead are
  partial functions with theorems that say when they return. The wait for a resized virtual display takes
  61 looks, which is the number the code's deadline allows (\<open>virtual_display_resize_ends\<close>); the loop
  that pulls packets from the AAC converter runs over a list of its answers, and \<open>aac_batch_fed\<close> says
  how many are enough. Loops that run for the life of a
  connection are one step each, iterated over an arbitrary list of what happens.

  NOT MODELLED. \<open>multitransport.rs\<close> beyond its environment flags, the listening socket of \<open>stats.rs\<close>, the
  permission report and the port probe of \<open>main.rs\<close>, the private calls behind
  \<open>virtual_display/private_api.rs\<close>, and \<open>conn_test.rs\<close>, \<open>build.rs\<close> and the unit tests. The vendored libraries,
  the Objective-C and Swift helpers and the system frameworks are parameters.
\<close>

end
